(* ===== verification/Prelude.thy ===== *)
theory Prelude
  imports Main "HOL-Library.Word"
begin

section \<open>Shared machinery of the Troupe diagnostics development\<close>

text \<open>
  What the component theories share.

  \<^item> Machine integers. A Rust \<^verbatim>\<open>u64\<close> that is a quantity of its own (a sequence number, a
    nanosecond count, a ticket, a packed atomic) is a \<open>64 word\<close>. A Rust \<^verbatim>\<open>usize\<close> is always
    a length, a number of events or a number of bytes in this program; it is a \<open>nat\<close> and
    the width (64 bits on the supported platform, Linux x86_64) is written out in each of
    the arithmetic operations below: \<open>checked_add\<close>, \<open>checked_sub\<close>, \<open>saturating_add\<close>,
    \<open>saturating_sub\<close>, \<open>wrapping_sub\<close>.
  \<^item> Results. \<^verbatim>\<open>Result<T, E>\<close> is \<open>'e + 'a\<close> with \<open>Inl\<close> the error. \<open>res_bind\<close> is the
    question-mark operator, \<open>ensure\<close> an early return.
  \<^item> Lists: the facts on \<open>sum_list\<close>, \<open>take\<close>, \<open>drop\<close> and updates the queues use.
\<close>

named_theorems rust_arith
  \<open>unfolding of the checked, saturating and wrapping operations\<close>
named_theorems res_simps
  \<open>inversion of results\<close>

subsection \<open>Machine integers\<close>

type_synonym u64 = "64 word"
type_synonym usize = nat
type_synonym bytes = "8 word list"

abbreviation usize_max :: usize where
  "usize_max \<equiv> 2 ^ 64 - 1"

definition checked_add :: "usize \<Rightarrow> usize \<Rightarrow> usize option" where
  "checked_add a b = (if a + b \<le> usize_max then Some (a + b) else None)"

definition checked_sub :: "usize \<Rightarrow> usize \<Rightarrow> usize option" where
  "checked_sub a b = (if b \<le> a then Some (a - b) else None)"

definition saturating_add :: "usize \<Rightarrow> usize \<Rightarrow> usize" where
  "saturating_add a b = min (a + b) usize_max"

definition saturating_sub :: "usize \<Rightarrow> usize \<Rightarrow> usize" where
  "saturating_sub a b = a - b"

definition wrapping_sub :: "usize \<Rightarrow> usize \<Rightarrow> usize" where
  "wrapping_sub a b = (if b \<le> a then a - b else a + 2 ^ 64 - b)"

definition checked_add_u64 :: "u64 \<Rightarrow> u64 \<Rightarrow> u64 option" where
  "checked_add_u64 a b = (if unat a + unat b < 2 ^ 64 then Some (a + b) else None)"

definition saturating_add_u64 :: "u64 \<Rightarrow> u64 \<Rightarrow> u64" where
  "saturating_add_u64 a b = (if unat a + unat b < 2 ^ 64 then a + b else - 1)"

lemma checked_add_Some [rust_arith]:
  "checked_add a b = Some c \<longleftrightarrow> c = a + b \<and> a + b \<le> usize_max"
  by (auto simp: checked_add_def)

lemma checked_add_None [rust_arith]: "checked_add a b = None \<longleftrightarrow> usize_max < a + b"
  by (auto simp: checked_add_def)

lemma checked_sub_Some [rust_arith]: "checked_sub a b = Some c \<longleftrightarrow> b \<le> a \<and> c = a - b"
  by (auto simp: checked_sub_def)

lemma checked_sub_None [rust_arith]: "checked_sub a b = None \<longleftrightarrow> a < b"
  by (auto simp: checked_sub_def)

lemma saturating_add_exact [rust_arith]:
  "a + b \<le> usize_max \<Longrightarrow> saturating_add a b = a + b"
  by (simp add: saturating_add_def)

lemma saturating_add_le: "saturating_add a b \<le> usize_max"
  by (simp add: saturating_add_def)

lemma saturating_sub_eq [rust_arith, simp]: "saturating_sub a b = a - b"
  by (simp add: saturating_sub_def)

lemma wrapping_sub_exact [rust_arith]: "b \<le> a \<Longrightarrow> wrapping_sub a b = a - b"
  by (simp add: wrapping_sub_def)

lemma unat_less_2p64: "unat (x :: u64) < 2 ^ 64"
  using unsigned_less [of x] by simp

lemma unat_add_u64_exact: "unat a + unat b < 2 ^ 64 \<Longrightarrow> unat (a + b :: u64) = unat a + unat b"
  by (simp add: unat_word_ariths)

lemma checked_add_u64_Some:
  "checked_add_u64 a b = Some c \<Longrightarrow> unat c = unat a + unat b"
  by (auto simp: checked_add_u64_def unat_add_u64_exact split: if_splits)

lemma checked_add_u64_one:
  "checked_add_u64 a 1 = (if unat a = 2 ^ 64 - 1 then None else Some (a + 1))"
  using unat_less_2p64 [of a] by (auto simp: checked_add_u64_def)

lemma unat_Suc_u64: "unat (a :: u64) < 2 ^ 64 - 1 \<Longrightarrow> unat (a + 1) = Suc (unat a)"
  using unat_add_u64_exact [of a 1] by simp

lemma saturating_add_u64_one:
  "unat (a :: u64) < 2 ^ 64 - 1 \<Longrightarrow> unat (saturating_add_u64 a 1) = Suc (unat a)"
  by (simp add: saturating_add_u64_def unat_Suc_u64)

subsection \<open>Results\<close>

fun res_bind :: "'e + 'a \<Rightarrow> ('a \<Rightarrow> 'e + 'b) \<Rightarrow> 'e + 'b" where
  "res_bind (Inl e) f = Inl e"
| "res_bind (Inr x) f = f x"

definition ensure :: "bool \<Rightarrow> 'e \<Rightarrow> 'e + unit" where
  "ensure b e = (if b then Inr () else Inl e)"

fun map_err :: "('e \<Rightarrow> 'f) \<Rightarrow> 'e + 'a \<Rightarrow> 'f + 'a" where
  "map_err g (Inl e) = Inl (g e)"
| "map_err g (Inr x) = Inr x"

fun ok_or :: "'e \<Rightarrow> 'a option \<Rightarrow> 'e + 'a" where
  "ok_or e None = Inl e"
| "ok_or e (Some x) = Inr x"

lemma res_bind_Inr [simp, res_simps]:
  "res_bind m f = Inr y \<longleftrightarrow> (\<exists>x. m = Inr x \<and> f x = Inr y)"
  by (cases m) auto

lemma res_bind_Inl [res_simps]:
  "res_bind m f = Inl e \<longleftrightarrow> m = Inl e \<or> (\<exists>x. m = Inr x \<and> f x = Inl e)"
  by (cases m) auto

lemma res_bind_assoc: "res_bind (res_bind m f) g = res_bind m (\<lambda>x. res_bind (f x) g)"
  by (cases m) simp_all

lemma res_bind_Inr_id [simp]: "res_bind m Inr = m"
  by (cases m) simp_all

lemma ensure_Inr [simp, res_simps]: "ensure b e = Inr u \<longleftrightarrow> b"
  by (simp add: ensure_def)

lemma ensure_Inl [simp, res_simps]: "ensure b e = Inl e' \<longleftrightarrow> \<not> b \<and> e' = e"
  by (auto simp: ensure_def)

lemma ensure_simps [simp]: "ensure True e = Inr ()" "ensure False e = Inl e"
  by (simp_all add: ensure_def)

lemma map_err_Inr [simp, res_simps]: "map_err g m = Inr x \<longleftrightarrow> m = Inr x"
  by (cases m) auto

lemma map_err_Inl [res_simps]: "map_err g m = Inl e \<longleftrightarrow> (\<exists>e'. m = Inl e' \<and> e = g e')"
  by (cases m) auto

lemma ok_or_Inr [simp, res_simps]: "ok_or e v = Inr x \<longleftrightarrow> v = Some x"
  by (cases v) auto

lemma ok_or_Inl [simp, res_simps]: "ok_or e v = Inl e' \<longleftrightarrow> v = None \<and> e' = e"
  by (cases v) auto

text \<open>The loop of a \<^verbatim>\<open>for\<close> with \<^verbatim>\<open>?\<close> in its body.\<close>

fun fold_res :: "('s \<Rightarrow> 'a \<Rightarrow> 'e + 's) \<Rightarrow> 's \<Rightarrow> 'a list \<Rightarrow> 'e + 's" where
  "fold_res f s [] = Inr s"
| "fold_res f s (x # xs) = res_bind (f s x) (\<lambda>s'. fold_res f s' xs)"

lemma fold_res_induct:
  assumes "fold_res f s xs = Inr s'" "P s" "\<And>s x s'. x \<in> set xs \<Longrightarrow> P s \<Longrightarrow> f s x = Inr s' \<Longrightarrow> P s'"
  shows "P s'"
  using assms by (induction f s xs rule: fold_res.induct) auto

lemma fold_res_append: "fold_res f s (xs @ ys) = res_bind (fold_res f s xs) (\<lambda>t. fold_res f t ys)"
  by (induction xs arbitrary: s) (auto simp: res_bind_assoc)

lemma fold_res_snoc [simp]: "fold_res f s (xs @ [x]) = res_bind (fold_res f s xs) (\<lambda>t. f t x)"
  by (simp add: fold_res_append res_bind_Inr_id)

subsection \<open>Lists\<close>

fun position :: "('a \<Rightarrow> bool) \<Rightarrow> 'a list \<Rightarrow> nat option" where
  "position p [] = None"
| "position p (x # xs) = (if p x then Some 0 else map_option Suc (position p xs))"

lemma position_Some:
  "position p xs = Some i \<Longrightarrow> i < length xs \<and> p (xs ! i) \<and> (\<forall>x \<in> set (take i xs). \<not> p x)"
proof (induction xs arbitrary: i)
  case Nil
  then show ?case by simp
next
  case (Cons x xs)
  show ?case
  proof (cases "p x")
    case True
    with Cons.prems show ?thesis by simp
  next
    case False
    with Cons.prems obtain j where "position p xs = Some j" "i = Suc j" by auto
    with False Cons.IH [of j] show ?thesis by simp
  qed
qed

lemma position_NoneI [simp]: "\<forall>x \<in> set xs. \<not> p x \<Longrightarrow> position p xs = None"
  by (induction xs) auto

lemma position_None: "position p xs = None \<longleftrightarrow> (\<forall>x \<in> set xs. \<not> p x)"
  by (induction xs) auto

lemma position_append_hit:
  "\<forall>x \<in> set xs. \<not> p x \<Longrightarrow> p y \<Longrightarrow> position p (xs @ y # ys) = Some (length xs)"
  by (induction xs) auto

lemma position_split:
  assumes "position p xs = Some i"
  obtains x where "xs = take i xs @ x # drop (Suc i) xs" "p x" "\<forall>y \<in> set (take i xs). \<not> p y"
  using position_Some [OF assms] id_take_nth_drop [of i xs] by blast

lemma take_drop_remove1:
  "position (\<lambda>y. y = x) xs = Some i \<Longrightarrow> take i xs @ drop (Suc i) xs = remove1 x xs"
  by (induction xs arbitrary: i) (auto split: if_splits option.splits)

lemma position_eq_None: "position (\<lambda>y. y = x) xs = None \<longleftrightarrow> x \<notin> set xs"
  by (auto simp: position_None)

lemma sum_list_take_le: "sum_list (take n xs) \<le> sum_list (xs :: nat list)"
  by (metis append_take_drop_id le_add1 sum_list_append)

lemma sum_list_drop_eq:
  "sum_list (drop n xs) = sum_list (xs :: nat list) - sum_list (take n xs)"
  by (metis add_diff_cancel_left' append_take_drop_id sum_list_append)

end
