(* ===== verification/Wire.thy ===== *)
theory Wire
  imports Complex_Main Prelude
begin

section \<open>Wire scalars\<close>

text \<open>
  Models \<^verbatim>\<open>rust/crates/troupe-diagnostics-core/src/wire.rs\<close>, \<^verbatim>\<open>scalar.rs\<close>, the
  identifiers of \<^verbatim>\<open>id.rs\<close> and \<^verbatim>\<open>CanonicalInteger\<close> of \<^verbatim>\<open>detail.rs\<close>: the textual
  forms in which a diagnostic event carries its numbers.

  A Rust string is a list of bytes (Isabelle's 8-bit characters), so that \<open>length\<close> is
  Rust's \<^verbatim>\<open>len\<close>. An error is the message the Rust error carries. The standard library's
  \<^verbatim>\<open>parse::<u64>\<close> and \<^verbatim>\<open>to_string\<close> are \<open>parse_u64\<close> and \<open>nat_decimal\<close>.

  Shown here: the canonical \<^verbatim>\<open>u64\<close> form is exactly the image of the printer; the decimal
  normaliser keeps the number its input denotes, its results are fixed points, and two
  inputs that denote the same number normalise to the same text.
\<close>

type_synonym wire_value_error = string

subsection \<open>Bytes and digits\<close>

definition is_ascii :: "char \<Rightarrow> bool" where
  "is_ascii c \<longleftrightarrow> (of_char c :: nat) < 128"

definition is_ascii_digit :: "char \<Rightarrow> bool" where
  "is_ascii_digit c \<longleftrightarrow> 48 \<le> (of_char c :: nat) \<and> (of_char c :: nat) \<le> 57"

definition is_ascii_uppercase :: "char \<Rightarrow> bool" where
  "is_ascii_uppercase c \<longleftrightarrow> 65 \<le> (of_char c :: nat) \<and> (of_char c :: nat) \<le> 90"

definition is_ascii_lowercase :: "char \<Rightarrow> bool" where
  "is_ascii_lowercase c \<longleftrightarrow> 97 \<le> (of_char c :: nat) \<and> (of_char c :: nat) \<le> 122"

definition digit_value :: "char \<Rightarrow> nat" where
  "digit_value c = of_char c - 48"

definition digit_char :: "nat \<Rightarrow> char" where
  "digit_char d = char_of (48 + d)"

definition dec_value :: "string \<Rightarrow> nat" where
  "dec_value s = foldl (\<lambda>n c. 10 * n + digit_value c) 0 s"

fun nat_decimal :: "nat \<Rightarrow> string" where
  "nat_decimal n =
     (if n < 10 then [digit_char n] else nat_decimal (n div 10) @ [digit_char (n mod 10)])"

declare nat_decimal.simps [simp del]

subsection \<open>Integers\<close>

definition validate_canonical_nonnegative_integer :: "string \<Rightarrow> wire_value_error + unit" where
  "validate_canonical_nonnegative_integer s =
     (if s = [] then Inl ''integer must not be empty''
      else if \<not> list_all is_ascii_digit s
        then Inl ''integer must contain only ASCII decimal digits''
      else if length s > 1 \<and> hd s = CHR ''0''
        then Inl ''integer must not contain leading zeroes''
      else Inr ())"

text \<open>\<^verbatim>\<open>str::parse::<u64>\<close>: an optional plus sign, then digits whose value fits.\<close>

definition parse_u64 :: "string \<Rightarrow> u64 option" where
  "parse_u64 s =
     (let d = (if s \<noteq> [] \<and> hd s = CHR ''+'' then tl s else s)
      in if d \<noteq> [] \<and> list_all is_ascii_digit d \<and> dec_value d < 2 ^ 64
         then Some (of_nat (dec_value d)) else None)"

definition parse_canonical_u64 :: "string \<Rightarrow> wire_value_error + u64" where
  "parse_canonical_u64 s =
     res_bind (validate_canonical_nonnegative_integer s)
       (\<lambda>_. ok_or ''schema u64 is out of range'' (parse_u64 s))"

definition SchemaU64_serialize :: "u64 \<Rightarrow> string" where
  "SchemaU64_serialize w = nat_decimal (unat w)"

definition TokenCount_parse :: "string \<Rightarrow> wire_value_error + string" where
  "TokenCount_parse s = res_bind (validate_canonical_nonnegative_integer s) (\<lambda>_. Inr s)"

definition CanonicalInteger_parse :: "string \<Rightarrow> wire_value_error + string" where
  "CanonicalInteger_parse s =
     (if s = [] \<or> \<not> list_all is_ascii s then Inl ''integer must be nonempty ASCII''
      else let (negative, digits) = (if hd s = CHR ''-'' then (True, tl s) else (False, s)) in
        if digits = [] \<or> \<not> list_all is_ascii_digit digits
          then Inl ''integer must contain only an optional minus and decimal digits''
        else if (length digits > 1 \<and> hd digits = CHR ''0'') \<or> (negative \<and> digits = ''0'')
          then Inl ''integer wire value is not canonical''
        else Inr s)"

definition CurrencyCode_parse :: "string \<Rightarrow> wire_value_error + string" where
  "CurrencyCode_parse s =
     (if length s \<noteq> 3 \<or> \<not> list_all is_ascii_uppercase s
      then Inl ''currency must be three uppercase ASCII letters'' else Inr s)"

abbreviation MAX_RUN_LOCAL_ID_BYTES :: nat where
  "MAX_RUN_LOCAL_ID_BYTES \<equiv> 128"

definition RunLocalId_parse :: "string \<Rightarrow> wire_value_error + string" where
  "RunLocalId_parse s =
     (if s = [] then Inl ''Run-local ID must not be empty''
      else if length s > MAX_RUN_LOCAL_ID_BYTES then Inl ''Run-local ID is too long''
      else if \<not> list_all is_ascii s then Inl ''Run-local ID must be ASCII''
      else Inr s)"

subsection \<open>Decimals\<close>

abbreviation MAX_NORMALIZED_DECIMAL_BYTES :: nat where
  "MAX_NORMALIZED_DECIMAL_BYTES \<equiv> 1024 * 1024"

abbreviation i64_max :: int where
  "i64_max \<equiv> 2 ^ 63 - 1"

fun split_sign :: "string \<Rightarrow> bool \<times> string" where
  "split_sign [] = (False, [])"
| "split_sign (c # rest) =
     (if c = CHR ''+'' then (False, rest)
      else if c = CHR ''-'' then (True, rest)
      else (False, c # rest))"

text \<open>The loop of \<^verbatim>\<open>parse_exponent\<close>, with \<^verbatim>\<open>i64::checked_mul\<close> and \<^verbatim>\<open>checked_add\<close>.\<close>

fun exponent_magnitude :: "int \<Rightarrow> string \<Rightarrow> int option" where
  "exponent_magnitude m [] = Some m"
| "exponent_magnitude m (c # cs) =
     (if m * 10 > i64_max then None
      else if m * 10 + int (digit_value c) > i64_max then None
      else exponent_magnitude (m * 10 + int (digit_value c)) cs)"

definition parse_exponent :: "string \<Rightarrow> wire_value_error + int" where
  "parse_exponent s =
     (if s = [] then Inl ''decimal exponent has no digits''
      else let (negative, digits) = split_sign s in
        if digits = [] \<or> \<not> list_all is_ascii_digit digits
          then Inl ''decimal exponent is invalid''
        else res_bind (ok_or ''decimal exponent is out of range'' (exponent_magnitude 0 digits))
          (\<lambda>magnitude.
             if negative
             then (if magnitude = - (2 ^ 63) then Inl ''decimal exponent is out of range''
                   else Inr (- magnitude))
             else Inr magnitude))"

definition is_exponent_mark :: "char \<Rightarrow> bool" where
  "is_exponent_mark c \<longleftrightarrow> c = CHR ''e'' \<or> c = CHR ''E''"

definition split_exponent :: "string \<Rightarrow> wire_value_error + (string \<times> int)" where
  "split_exponent s =
     (case position is_exponent_mark s of
        Some p \<Rightarrow>
          if list_ex is_exponent_mark (drop (p + 1) s)
          then Inl ''decimal has multiple exponents''
          else res_bind (parse_exponent (drop (p + 1) s)) (\<lambda>e. Inr (take p s, e))
      | None \<Rightarrow> Inr (s, 0))"

definition split_point :: "string \<Rightarrow> wire_value_error + (string \<times> string)" where
  "split_point m =
     (case position (\<lambda>c. c = CHR ''.'') m of
        Some p \<Rightarrow>
          if CHR ''.'' \<in> set (drop (p + 1) m) then Inl ''decimal has multiple points''
          else Inr (take p m, drop (p + 1) m)
      | None \<Rightarrow> Inr (m, []))"

text \<open>The checks of \<^verbatim>\<open>normalize_decimal\<close>: sign, integer digits, fraction digits, exponent.\<close>

definition scan_decimal :: "string \<Rightarrow> wire_value_error + (bool \<times> string \<times> string \<times> int)" where
  "scan_decimal s =
     (if s = [] \<or> \<not> list_all is_ascii s then Inl ''decimal must be nonempty ASCII''
      else let (negative, unsigned) = split_sign s in
        if unsigned = [] then Inl ''decimal has no digits''
        else res_bind (split_exponent unsigned) (\<lambda>(mantissa, exponent).
          res_bind (split_point mantissa) (\<lambda>(integer, fraction).
            if integer = [] \<and> fraction = [] then Inl ''decimal has no digits''
            else if \<not> list_all is_ascii_digit (integer @ fraction)
              then Inl ''decimal contains a non-digit character''
            else Inr (negative, integer, fraction, exponent))))"

function strip_zeros :: "string \<Rightarrow> int \<Rightarrow> string \<times> int" where
  "strip_zeros c s =
     (if s > 0 \<and> c \<noteq> [] \<and> last c = CHR ''0'' then strip_zeros (butlast c) (s - 1) else (c, s))"
  by pat_completeness auto
termination
  by (relation "measure (\<lambda>(c, s). length c)") auto

declare strip_zeros.simps [simp del]

definition try_usize :: "int \<Rightarrow> usize option" where
  "try_usize i = (if 0 \<le> i \<and> i \<le> int usize_max then Some (nat i) else None)"

definition decimal_output_bytes :: "bool \<Rightarrow> string \<Rightarrow> int \<Rightarrow> wire_value_error + usize" where
  "decimal_output_bytes negative c scale =
     (let sign_bytes = (if negative then 1 else 0) in
      if scale \<le> 0 then
        res_bind (ok_or ''decimal exponent is out of range'' (try_usize (- scale))) (\<lambda>zeroes.
          ok_or ''decimal representation is too large''
            (Option.bind (checked_add sign_bytes (length c)) (\<lambda>l. checked_add l zeroes)))
      else
        res_bind (ok_or ''decimal scale is out of range'' (try_usize scale)) (\<lambda>fractional_digits.
          ok_or ''decimal representation is too large''
            (if length c > fractional_digits
             then Option.bind (checked_add sign_bytes (length c)) (\<lambda>l. checked_add l 1)
             else Option.bind (checked_add sign_bytes fractional_digits) (\<lambda>l. checked_add l 2))))"

definition render_decimal :: "bool \<Rightarrow> string \<Rightarrow> int \<Rightarrow> string" where
  "render_decimal negative c scale =
     (if negative then ''-'' else []) @
     (if scale \<le> 0 then c @ replicate (nat (- scale)) (CHR ''0'')
      else let fractional_digits = nat scale in
        if length c > fractional_digits
        then take (length c - fractional_digits) c @ ''.'' @ drop (length c - fractional_digits) c
        else ''0.'' @ replicate (fractional_digits - length c) (CHR ''0'') @ c)"

text \<open>From the digits on: leading zeros dropped, trailing zeros stripped, the text rebuilt.\<close>

definition finish_decimal ::
  "bool \<Rightarrow> string \<Rightarrow> string \<Rightarrow> int \<Rightarrow> wire_value_error + string" where
  "finish_decimal negative integer fraction exponent =
     (case position (\<lambda>c. c \<noteq> CHR ''0'') (integer @ fraction) of
        None \<Rightarrow> Inr ''0''
      | Some first_nonzero \<Rightarrow>
          let (c, scale) = strip_zeros (drop first_nonzero (integer @ fraction))
                             (int (length fraction) - exponent) in
          res_bind (decimal_output_bytes negative c scale) (\<lambda>output_bytes.
            if output_bytes > MAX_NORMALIZED_DECIMAL_BYTES
            then Inl ''decimal representation is too large''
            else Inr (render_decimal negative c scale)))"

definition normalize_decimal :: "string \<Rightarrow> wire_value_error + string" where
  "normalize_decimal s =
     res_bind (scan_decimal s) (\<lambda>(negative, integer, fraction, exponent).
       finish_decimal negative integer fraction exponent)"

definition DecimalString_parse :: "string \<Rightarrow> wire_value_error + string" where
  "DecimalString_parse s = normalize_decimal s"

definition DecimalString_deserialize :: "string \<Rightarrow> wire_value_error + string" where
  "DecimalString_deserialize s =
     res_bind (DecimalString_parse s) (\<lambda>normalized.
       if normalized \<noteq> s then Inl ''decimal wire value is not canonical'' else Inr normalized)"

subsection \<open>Digits: printing and reading\<close>

lemma digit_char_value [simp]: "d < 10 \<Longrightarrow> digit_value (digit_char d) = d"
  by (simp add: digit_value_def digit_char_def)

lemma digit_char_digit [simp]: "d < 10 \<Longrightarrow> is_ascii_digit (digit_char d)"
  by (simp add: is_ascii_digit_def digit_char_def)

lemma digit_value_char [simp]: "is_ascii_digit c \<Longrightarrow> digit_char (digit_value c) = c"
  by (simp add: is_ascii_digit_def digit_char_def digit_value_def)

lemma digit_value_less [simp]: "is_ascii_digit c \<Longrightarrow> digit_value c < 10"
  by (auto simp: is_ascii_digit_def digit_value_def)

lemma digit_is_ascii: "is_ascii_digit c \<Longrightarrow> is_ascii c"
  by (simp add: is_ascii_digit_def is_ascii_def)

lemma digit_zero [simp]: "is_ascii_digit (CHR ''0'')" "digit_value (CHR ''0'') = 0"
  by (simp_all add: is_ascii_digit_def digit_value_def)

lemma digit_value_zero_iff: "is_ascii_digit c \<Longrightarrow> digit_value c = 0 \<longleftrightarrow> c = CHR ''0''"
proof
  assume "is_ascii_digit c" "digit_value c = 0"
  then have "(of_char c :: nat) = of_char (CHR ''0'')"
    by (auto simp: is_ascii_digit_def digit_value_def)
  then show "c = CHR ''0''" by (simp only: of_char_eq_iff)
qed simp

lemma not_digit_marks [simp]:
  "\<not> is_ascii_digit (CHR ''.'')" "\<not> is_ascii_digit (CHR ''e'')" "\<not> is_ascii_digit (CHR ''E'')"
  "\<not> is_ascii_digit (CHR ''+'')" "\<not> is_ascii_digit (CHR ''-'')"
  by (simp_all add: is_ascii_digit_def)

lemma dec_value_Nil [simp]: "dec_value [] = 0"
  by (simp add: dec_value_def)

lemma dec_value_snoc [simp]: "dec_value (s @ [c]) = 10 * dec_value s + digit_value c"
  by (simp add: dec_value_def)

lemma dec_value_append: "dec_value (s @ t) = dec_value s * 10 ^ length t + dec_value t"
proof (induction t rule: rev_induct)
  case Nil
  then show ?case by simp
next
  case (snoc c t)
  have "dec_value (s @ t @ [c]) = 10 * dec_value (s @ t) + digit_value c"
    by (metis append.assoc dec_value_snoc)
  with snoc show ?case by simp
qed

lemma dec_value_Cons: "dec_value (c # s) = digit_value c * 10 ^ length s + dec_value s"
  using dec_value_append [of "[c]" s] dec_value_snoc [of "[]" c] by simp

lemma dec_value_zeros [simp]: "dec_value (replicate n (CHR ''0'')) = 0"
  by (induction n) (auto simp: dec_value_Cons)

lemma dec_value_append_zeros: "dec_value (s @ replicate n (CHR ''0'')) = dec_value s * 10 ^ n"
  by (simp add: dec_value_append)

lemma nat_decimal_nonempty [simp]: "nat_decimal n \<noteq> []"
  by (subst nat_decimal.simps) simp

lemma nat_decimal_digits: "list_all is_ascii_digit (nat_decimal n)"
proof (induction n rule: nat_decimal.induct)
  case (1 n)
  then show ?case by (subst nat_decimal.simps) simp
qed

lemma dec_value_nat_decimal [simp]: "dec_value (nat_decimal n) = n"
proof (induction n rule: nat_decimal.induct)
  case (1 n)
  then show ?case
    using dec_value_snoc [of "[]"] by (subst nat_decimal.simps) simp
qed

text \<open>A digit string is canonical when it is the lone zero or does not start with one.\<close>

definition canonical_digits :: "string \<Rightarrow> bool" where
  "canonical_digits s \<longleftrightarrow>
     s \<noteq> [] \<and> list_all is_ascii_digit s \<and> \<not> (length s > 1 \<and> hd s = CHR ''0'')"

lemma dec_value_pos:
  assumes "list_all is_ascii_digit s" "s \<noteq> []" "hd s \<noteq> CHR ''0''"
  shows "0 < dec_value s"
proof -
  obtain c r where s: "s = c # r" using assms(2) by (cases s) auto
  then have "digit_value c \<noteq> 0" using assms by (simp add: digit_value_zero_iff)
  then show ?thesis by (simp add: s dec_value_Cons)
qed

lemma nat_decimal_hd: "n \<ge> 1 \<Longrightarrow> hd (nat_decimal n) \<noteq> CHR ''0''"
proof (induction n rule: nat_decimal.induct)
  case (1 n)
  show ?case
  proof (cases "n < 10")
    case True
    with 1 have "digit_char n \<noteq> CHR ''0''"
      using digit_char_value [of n] by (metis digit_zero(2) not_one_le_zero)
    with True show ?thesis by (subst nat_decimal.simps) simp
  next
    case False
    then have "hd (nat_decimal (n div 10)) \<noteq> CHR ''0''"
      using 1 by (simp add: div_greater_zero_iff Suc_leI)
    with False show ?thesis by (subst nat_decimal.simps) simp
  qed
qed

lemma canonical_nat_decimal [simp]: "canonical_digits (nat_decimal n)"
proof (cases "n = 0")
  case True
  then show ?thesis
    using nat_decimal_digits [of 0] by (simp add: canonical_digits_def nat_decimal.simps)
next
  case False
  then show ?thesis
    using nat_decimal_hd [of n] nat_decimal_digits [of n] by (simp add: canonical_digits_def)
qed

lemma nat_decimal_of_value:
  assumes "canonical_digits s"
  shows "nat_decimal (dec_value s) = s"
  using assms
proof (induction s rule: rev_induct)
  case Nil
  then show ?case by (simp add: canonical_digits_def)
next
  case (snoc c s)
  have c: "is_ascii_digit c" and s: "list_all is_ascii_digit s"
    using snoc.prems by (simp_all add: canonical_digits_def)
  show ?case
  proof (cases "s = []")
    case True
    with c show ?thesis
      using dec_value_snoc [of "[]" c] by (subst nat_decimal.simps) simp
  next
    case False
    then have hd: "hd s \<noteq> CHR ''0''" using snoc.prems by (simp add: canonical_digits_def)
    then have "canonical_digits s" using False s by (simp add: canonical_digits_def)
    moreover have "0 < dec_value s" using s False hd by (rule dec_value_pos)
    ultimately show ?thesis
      using snoc.IH c by (subst nat_decimal.simps) simp
  qed
qed

lemma canonical_digits_inject:
  "canonical_digits s \<Longrightarrow> canonical_digits t \<Longrightarrow> dec_value s = dec_value t \<Longrightarrow> s = t"
  by (metis nat_decimal_of_value)

lemma validate_canonical_iff:
  "validate_canonical_nonnegative_integer s = Inr u \<longleftrightarrow> canonical_digits s"
  by (auto simp: validate_canonical_nonnegative_integer_def canonical_digits_def)

lemma parse_u64_digits:
  assumes "s \<noteq> []" "list_all is_ascii_digit s"
  shows "parse_u64 s = (if dec_value s < 2 ^ 64 then Some (of_nat (dec_value s)) else None)"
proof -
  have "hd s \<noteq> CHR ''+''" using assms by (cases s) auto
  with assms show ?thesis by (simp add: parse_u64_def)
qed

lemma parse_canonical_u64_iff:
  "parse_canonical_u64 s = Inr w \<longleftrightarrow> canonical_digits s \<and> dec_value s = unat w"
proof (cases "canonical_digits s")
  case True
  then have d: "s \<noteq> []" "list_all is_ascii_digit s" by (simp_all add: canonical_digits_def)
  have "of_nat (dec_value s) = w \<longleftrightarrow> dec_value s = unat w" if "dec_value s < 2 ^ 64"
    using that by (auto simp: unat_of_nat)
  then show ?thesis
    using True d unat_less_2p64 [of w]
    by (auto simp: parse_canonical_u64_def validate_canonical_iff parse_u64_digits split: if_splits)
next
  case False
  then show ?thesis by (auto simp: parse_canonical_u64_def validate_canonical_iff)
qed

subsection \<open>What a decimal text denotes\<close>

text \<open>
  The grammar of decimal texts, independent of the scanner: an optional sign, digits with
  at most one point among or around them, an optional exponent.
\<close>

inductive sign_of :: "string \<Rightarrow> bool \<Rightarrow> bool" where
  no_sign: "sign_of [] False"
| plus_sign: "sign_of ''+'' False"
| minus_sign: "sign_of ''-'' True"

inductive mantissa_of :: "string \<Rightarrow> string \<Rightarrow> string \<Rightarrow> bool" where
  whole: "list_all is_ascii_digit i \<Longrightarrow> i \<noteq> [] \<Longrightarrow> mantissa_of i i []"
| point: "list_all is_ascii_digit (i @ f) \<Longrightarrow> i @ f \<noteq> [] \<Longrightarrow> mantissa_of (i @ CHR ''.'' # f) i f"

inductive exponent_of :: "string \<Rightarrow> int \<Rightarrow> bool" where
  absent: "exponent_of [] 0"
| present: "is_exponent_mark x \<Longrightarrow> sign_of sg neg \<Longrightarrow> list_all is_ascii_digit ds \<Longrightarrow> ds \<noteq> [] \<Longrightarrow>
    exponent_of (x # sg @ ds) (if neg then - int (dec_value ds) else int (dec_value ds))"

definition decimal_parts :: "string \<Rightarrow> bool \<Rightarrow> string \<Rightarrow> string \<Rightarrow> int \<Rightarrow> bool" where
  "decimal_parts s neg i f e \<longleftrightarrow>
     (\<exists>sg m ex. s = sg @ m @ ex \<and> sign_of sg neg \<and> mantissa_of m i f \<and> exponent_of ex e)"

definition parts_value :: "bool \<Rightarrow> string \<Rightarrow> string \<Rightarrow> int \<Rightarrow> rat" where
  "parts_value neg i f e =
     (if neg then - 1 else 1) * of_nat (dec_value (i @ f)) * 10 powi (e - int (length f))"

definition decimal_denotes :: "string \<Rightarrow> rat \<Rightarrow> bool" where
  "decimal_denotes s q \<longleftrightarrow> (\<exists>neg i f e. decimal_parts s neg i f e \<and> q = parts_value neg i f e)"

inductive_simps sign_of_Nil: "sign_of [] neg"
inductive_simps exponent_of_Nil: "exponent_of [] e"

lemma mark_simps [simp]:
  "is_exponent_mark (CHR ''e'')" "is_exponent_mark (CHR ''E'')" "\<not> is_exponent_mark (CHR ''.'')"
  "\<not> is_exponent_mark (CHR ''+'')" "\<not> is_exponent_mark (CHR ''-'')"
  by (simp_all add: is_exponent_mark_def)

lemma mark_not_digit: "is_ascii_digit c \<Longrightarrow> \<not> is_exponent_mark c"
  by (auto simp: is_exponent_mark_def)

lemma exponent_magnitude_ge: "exponent_magnitude m ds = Some v \<Longrightarrow> 0 \<le> m \<Longrightarrow> m \<le> v"
proof (induction ds arbitrary: m)
  case Nil
  then show ?case by simp
next
  case (Cons c ds)
  then have "m * 10 + int (digit_value c) \<le> v" by (auto split: if_splits)
  with Cons.prems(2) show ?case by linarith
qed

lemma exponent_magnitude_iff:
  "0 \<le> m \<Longrightarrow> m \<le> i64_max \<Longrightarrow>
   exponent_magnitude m ds = Some v \<longleftrightarrow>
     v = m * 10 ^ length ds + int (dec_value ds) \<and> v \<le> i64_max"
proof (induction ds arbitrary: m)
  case Nil
  then show ?case by auto
next
  case (Cons c ds)
  let ?m = "m * 10 + int (digit_value c)"
  have eq: "m * 10 ^ length (c # ds) + int (dec_value (c # ds))
      = ?m * 10 ^ length ds + int (dec_value ds)"
    by (simp add: dec_value_Cons algebra_simps)
  have ge: "?m \<le> ?m * 10 ^ length ds + int (dec_value ds)"
  proof -
    have "?m * 1 \<le> ?m * 10 ^ length ds"
      using Cons.prems by (intro mult_left_mono) auto
    then show ?thesis by simp
  qed
  show ?case
  proof (cases "?m \<le> i64_max")
    case True
    with Cons.prems Cons.IH [of ?m] eq show ?thesis by auto
  next
    case False
    then have "exponent_magnitude m (c # ds) = None" by auto
    with False ge eq show ?thesis by auto
  qed
qed

lemma split_sign_iff:
  assumes "d \<noteq> []" "hd d \<noteq> CHR ''+''" "hd d \<noteq> CHR ''-''"
  shows "split_sign s = (neg, d) \<longleftrightarrow> (\<exists>sg. s = sg @ d \<and> sign_of sg neg)"
  using assms
  by (cases s) (auto simp: sign_of.simps append_eq_Cons_conv Cons_eq_append_conv)

lemma digits_hd_not_sign:
  "list_all is_ascii_digit d \<Longrightarrow> d \<noteq> [] \<Longrightarrow> hd d \<noteq> CHR ''+'' \<and> hd d \<noteq> CHR ''-''"
  by (cases d) auto

lemma parse_exponent_iff:
  "parse_exponent t = Inr e \<longleftrightarrow>
     (\<exists>neg sg ds. t = sg @ ds \<and> sign_of sg neg \<and> list_all is_ascii_digit ds \<and> ds \<noteq> [] \<and>
        e = (if neg then - int (dec_value ds) else int (dec_value ds)) \<and> \<bar>e\<bar> \<le> i64_max)"
  (is "_ \<longleftrightarrow> ?R")
proof -
  obtain neg ds where sp: "split_sign t = (neg, ds)" by fastforce
  have uniq: "neg' = neg \<and> ds' = ds"
    if "t = sg @ ds'" "sign_of sg neg'" "list_all is_ascii_digit ds'" "ds' \<noteq> []" for sg neg' ds'
    using that sp split_sign_iff [of ds' t neg'] digits_hd_not_sign [of ds'] by auto
  show ?thesis
  proof (cases "t \<noteq> [] \<and> ds \<noteq> [] \<and> list_all is_ascii_digit ds")
    case True
    then have sg: "\<exists>sg. t = sg @ ds \<and> sign_of sg neg"
      using sp split_sign_iff [of ds t neg] digits_hd_not_sign [of ds] by auto
    have mag: "exponent_magnitude 0 ds = Some v \<longleftrightarrow> v = int (dec_value ds) \<and> v \<le> i64_max" for v
      using exponent_magnitude_iff [of 0 ds v] by simp
    have "parse_exponent t = Inr e \<longleftrightarrow>
        e = (if neg then - int (dec_value ds) else int (dec_value ds)) \<and> \<bar>e\<bar> \<le> i64_max"
      using True by (auto simp: parse_exponent_def sp mag)
    also have "\<dots> \<longleftrightarrow> ?R" using True sg uniq by blast
    finally show ?thesis .
  next
    case False
    then have "parse_exponent t \<noteq> Inr e" by (auto simp: parse_exponent_def sp)
    moreover have "\<not> ?R"
    proof
      assume ?R
      then obtain neg' sg ds' where t: "t = sg @ ds'" and "sign_of sg neg'"
          and d: "list_all is_ascii_digit ds'" "ds' \<noteq> []" by blast
      with uniq have "ds' = ds" by blast
      with d t False show False by simp
    qed
    ultimately show ?thesis by blast
  qed
qed

lemma split_exponent_iff:
  "split_exponent s = Inr (m, e) \<longleftrightarrow>
     (\<exists>ex. s = m @ ex \<and> (\<forall>c \<in> set m. \<not> is_exponent_mark c) \<and> exponent_of ex e \<and> \<bar>e\<bar> \<le> i64_max)"
  (is "_ \<longleftrightarrow> ?R")
proof
  assume L: "split_exponent s = Inr (m, e)"
  show ?R
  proof (cases "position is_exponent_mark s")
    case None
    with L have "s = m" "e = 0" by (simp_all add: split_exponent_def)
    with None show ?thesis by (auto simp: position_None intro: exponent_of.absent)
  next
    case (Some p)
    then obtain x where s: "s = take p s @ x # drop (Suc p) s" and x: "is_exponent_mark x"
        and no: "\<forall>y \<in> set (take p s). \<not> is_exponent_mark y"
      by (rule position_split)
    from L Some have m: "m = take p s" and e: "parse_exponent (drop (Suc p) s) = Inr e"
      by (auto simp: split_exponent_def split: if_splits)
    from e obtain neg sg ds where d: "drop (Suc p) s = sg @ ds" "sign_of sg neg"
        "list_all is_ascii_digit ds" "ds \<noteq> []" "\<bar>e\<bar> \<le> i64_max"
        and v: "e = (if neg then - int (dec_value ds) else int (dec_value ds))"
      by (auto simp: parse_exponent_iff)
    have "exponent_of (x # drop (Suc p) s) e"
      unfolding d(1) v by (rule exponent_of.present) (use x d in simp_all)
    then show ?thesis using s no m d(5) by blast
  qed
next
  assume ?R
  then obtain ex where s: "s = m @ ex" and no: "\<forall>c \<in> set m. \<not> is_exponent_mark c"
      and ex: "exponent_of ex e" and b: "\<bar>e\<bar> \<le> i64_max" by blast
  from ex show "split_exponent s = Inr (m, e)"
  proof cases
    case absent
    with s no have "position is_exponent_mark s = None" by simp
    with absent s show ?thesis by (simp add: split_exponent_def)
  next
    case (present x sg neg ds)
    from present s no have "position is_exponent_mark s = Some (length m)"
      by (simp add: position_append_hit)
    moreover have "\<not> list_ex is_exponent_mark (sg @ ds)"
      using present(4,5) mark_not_digit by (auto simp: list_ex_iff list_all_iff sign_of.simps)
    moreover have "parse_exponent (sg @ ds) = Inr e"
      unfolding parse_exponent_iff using present b by blast
    ultimately show ?thesis using present(1) s by (simp add: split_exponent_def)
  qed
qed

lemma split_point_iff:
  "split_point m = Inr (i, f) \<longleftrightarrow>
     (CHR ''.'' \<notin> set m \<and> i = m \<and> f = []) \<or>
     (m = i @ CHR ''.'' # f \<and> CHR ''.'' \<notin> set i \<and> CHR ''.'' \<notin> set f)"
proof (cases "position (\<lambda>c. c = CHR ''.'') m")
  case None
  then have "CHR ''.'' \<notin> set m" by (auto simp: position_None)
  moreover from None have "split_point m = Inr (m, [])" by (simp add: split_point_def)
  ultimately show ?thesis by (metis Pair_inject in_set_conv_decomp sum.inject(2))
next
  case (Some p)
  then obtain x where m: "m = take p m @ x # drop (Suc p) m" and x: "x = CHR ''.''"
      and no: "\<forall>y \<in> set (take p m). y \<noteq> CHR ''.''"
    by (rule position_split)
  have hit: "take p m = i \<and> drop (Suc p) m = f"
    if mi: "m = i @ CHR ''.'' # f" and ni: "CHR ''.'' \<notin> set i"
  proof -
    have "position (\<lambda>c. c = CHR ''.'') (i @ CHR ''.'' # f) = Some (length i)"
      by (rule position_append_hit) (use ni in auto)
    with Some mi have "p = length i" by simp
    with mi show ?thesis by simp
  qed
  have isin: "CHR ''.'' \<in> set m" by (subst m) (simp add: x)
  have "split_point m = Inr (i, f) \<longleftrightarrow>
      CHR ''.'' \<notin> set (drop (Suc p) m) \<and> i = take p m \<and> f = drop (Suc p) m"
    using Some by (auto simp: split_point_def)
  also have "\<dots> \<longleftrightarrow> m = i @ CHR ''.'' # f \<and> CHR ''.'' \<notin> set i \<and> CHR ''.'' \<notin> set f"
    using hit m no x by metis
  finally show ?thesis using isin by blast
qed

lemma digits_no_point: "list_all is_ascii_digit s \<Longrightarrow> CHR ''.'' \<notin> set s"
  by (auto simp: list_all_iff)

lemma mantissa_of_iff:
  "mantissa_of m i f \<longleftrightarrow>
     split_point m = Inr (i, f) \<and> list_all is_ascii_digit (i @ f) \<and> i @ f \<noteq> []"
  (is "_ \<longleftrightarrow> ?R")
proof
  assume "mantissa_of m i f"
  then show ?R
    by cases (simp_all add: split_point_iff digits_no_point)
next
  assume R: ?R
  then show "mantissa_of m i f"
    by (auto simp: split_point_iff intro: mantissa_of.intros)
qed

lemma mantissa_of_set: "mantissa_of m i f \<Longrightarrow> c \<in> set m \<Longrightarrow> is_ascii_digit c \<or> c = CHR ''.''"
  by (erule mantissa_of.cases) (auto simp: list_all_iff)

lemma mantissa_of_nonempty: "mantissa_of m i f \<Longrightarrow> m \<noteq> []"
  by (erule mantissa_of.cases) auto

lemma mantissa_of_no_mark: "mantissa_of m i f \<Longrightarrow> \<forall>c \<in> set m. \<not> is_exponent_mark c"
  using mantissa_of_set mark_not_digit by fastforce

lemma mantissa_of_hd: "mantissa_of m i f \<Longrightarrow> hd m \<noteq> CHR ''+'' \<and> hd m \<noteq> CHR ''-''"
  using mantissa_of_set [of m i f "hd m"] mantissa_of_nonempty [of m i f] by auto

lemma is_ascii_marks [simp]:
  "is_ascii (CHR ''.'')" "is_ascii (CHR ''e'')" "is_ascii (CHR ''E'')" "is_ascii (CHR ''+'')"
  "is_ascii (CHR ''-'')" "is_ascii (CHR ''0'')"
  by (simp_all add: is_ascii_def)

lemma decimal_parts_ascii:
  assumes "decimal_parts s neg i f e"
  shows "list_all is_ascii s"
proof -
  from assms obtain sg m ex where s: "s = sg @ m @ ex" "sign_of sg neg" "mantissa_of m i f"
      "exponent_of ex e" by (auto simp: decimal_parts_def)
  have sign: "list_all is_ascii sg'" if "sign_of sg' n" for sg' n
    using that by cases auto
  have "list_all is_ascii m"
    using mantissa_of_set [OF s(3)] digit_is_ascii by (fastforce simp: list_all_iff)
  moreover have "list_all is_ascii ex"
    using s(4) by cases (use sign digit_is_ascii in \<open>auto simp: is_exponent_mark_def list_all_iff\<close>)
  ultimately show ?thesis using s sign by simp
qed

lemma decimal_parts_split:
  assumes "sign_of sg neg" "mantissa_of m i f"
  shows "split_sign (sg @ m @ ex) = (neg, m @ ex)"
  using assms mantissa_of_nonempty [OF assms(2)] mantissa_of_hd [OF assms(2)]
  by (subst split_sign_iff) auto

lemma scan_decimal_iff:
  "scan_decimal s = Inr (neg, i, f, e) \<longleftrightarrow> decimal_parts s neg i f e \<and> \<bar>e\<bar> \<le> i64_max"
proof
  assume L: "scan_decimal s = Inr (neg, i, f, e)"
  obtain n u where sp: "split_sign s = (n, u)" by fastforce
  from L sp obtain m where n: "n = neg" and u: "split_exponent u = Inr (m, e)"
      and m: "mantissa_of m i f"
    by (auto simp: scan_decimal_def mantissa_of_iff split: if_splits)
  from u obtain ex where ex: "u = m @ ex" "exponent_of ex e" "\<bar>e\<bar> \<le> i64_max"
    by (auto simp: split_exponent_iff)
  have "\<exists>sg. s = sg @ u \<and> sign_of sg neg"
    using sp n ex mantissa_of_nonempty [OF m] mantissa_of_hd [OF m]
      split_sign_iff [of u s neg] by simp
  with ex m show "decimal_parts s neg i f e \<and> \<bar>e\<bar> \<le> i64_max"
    by (auto simp: decimal_parts_def)
next
  assume R: "decimal_parts s neg i f e \<and> \<bar>e\<bar> \<le> i64_max"
  then obtain sg m ex where s: "s = sg @ m @ ex" "sign_of sg neg" and m: "mantissa_of m i f"
      and ex: "exponent_of ex e" by (auto simp: decimal_parts_def)
  have "split_exponent (m @ ex) = Inr (m, e)"
    using R ex mantissa_of_no_mark [OF m] by (auto simp: split_exponent_iff)
  moreover have "split_sign s = (neg, m @ ex)"
    using decimal_parts_split [OF s(2) m] s(1) by simp
  ultimately show "scan_decimal s = Inr (neg, i, f, e)"
    using R m mantissa_of_nonempty [OF m] decimal_parts_ascii [of s neg i f e] s(1)
    by (auto simp: scan_decimal_def mantissa_of_iff)
qed

subsection \<open>Normal forms\<close>

text \<open>
  The number that digits \<open>c\<close> stand for when the last \<open>s\<close> of them are a fraction, and the
  texts that are the normal form of a number.
\<close>

definition scaled_value :: "bool \<Rightarrow> string \<Rightarrow> int \<Rightarrow> rat" where
  "scaled_value neg c s = (if neg then - 1 else 1) * of_nat (dec_value c) * 10 powi (- s)"

definition normal_text :: "string \<Rightarrow> rat \<Rightarrow> bool" where
  "normal_text t q \<longleftrightarrow>
     (q = 0 \<and> t = ''0'') \<or>
     (\<exists>neg c k. t = render_decimal neg c (int k) \<and> q = scaled_value neg c (int k) \<and>
        c \<noteq> [] \<and> list_all is_ascii_digit c \<and> hd c \<noteq> CHR ''0'' \<and> (k = 0 \<or> last c \<noteq> CHR ''0''))"

lemma parts_value_scaled: "parts_value neg i f e = scaled_value neg (i @ f) (int (length f) - e)"
  by (simp add: parts_value_def scaled_value_def)

lemma scaled_value_zeros:
  "scaled_value neg (c @ replicate k (CHR ''0'')) s = scaled_value neg c (s - int k)"
proof -
  have "(10 :: rat) powi (- s + int k) = 10 powi (- s) * 10 powi (int k)"
    by (rule power_int_add) simp
  then show ?thesis by (simp add: scaled_value_def dec_value_append_zeros)
qed

lemma scaled_value_leading:
  "scaled_value neg (replicate k (CHR ''0'') @ c) s = scaled_value neg c s"
  by (simp add: scaled_value_def dec_value_append)

lemma scaled_value_eq_0_iff: "scaled_value neg c s = 0 \<longleftrightarrow> dec_value c = 0"
  by (simp add: scaled_value_def)

lemma scaled_value_sign:
  "0 < dec_value c \<Longrightarrow> scaled_value neg c s < 0 \<longleftrightarrow> neg"
  by (cases neg) (simp_all add: scaled_value_def mult_less_0_iff not_less)

lemma strip_zeros_spec:
  assumes "strip_zeros c s = (c', s')"
  shows "\<exists>k. c = c' @ replicate k (CHR ''0'') \<and> s' = s - int k \<and>
    (s' \<le> 0 \<or> c' = [] \<or> last c' \<noteq> CHR ''0'')"
  using assms
proof (induction c s rule: strip_zeros.induct)
  case (1 c s)
  show ?case
  proof (cases "s > 0 \<and> c \<noteq> [] \<and> last c = CHR ''0''")
    case True
    then obtain k where "butlast c = c' @ replicate k (CHR ''0'')" "s' = s - 1 - int k"
        "s' \<le> 0 \<or> c' = [] \<or> last c' \<noteq> CHR ''0''"
      using 1 by (auto simp: strip_zeros.simps [of c s])
    moreover from this True have "c = c' @ replicate (Suc k) (CHR ''0'')"
      by (metis append_assoc append_butlast_last_id replicate_Suc replicate_append_same)
    ultimately show ?thesis by (intro exI [of _ "Suc k"]) auto
  next
    case False
    with 1 show ?thesis by (intro exI [of _ 0]) (auto simp: strip_zeros.simps [of c s])
  qed
qed

lemma strip_zeros_value:
  "strip_zeros c s = (c', s') \<Longrightarrow> scaled_value neg c' s' = scaled_value neg c s"
  using strip_zeros_spec [of c s c' s'] scaled_value_zeros [of neg c' _ s] by metis

lemma output_bytes_exact:
  "decimal_output_bytes neg c s = Inr b \<and> b \<le> MAX_NORMALIZED_DECIMAL_BYTES \<longleftrightarrow>
   b = length (render_decimal neg c s) \<and> b \<le> MAX_NORMALIZED_DECIMAL_BYTES"
  by (auto simp: decimal_output_bytes_def render_decimal_def try_usize_def checked_add_def
      bind_eq_Some_conv Let_def split: if_splits)

text \<open>Rendering with a nonpositive scale is rendering the digits with the zeros appended.\<close>

lemma render_nonpos:
  "s \<le> 0 \<Longrightarrow> render_decimal neg c s = render_decimal neg (c @ replicate (nat (- s)) (CHR ''0'')) 0"
  by (simp add: render_decimal_def)

lemma render_decimal_parts:
  assumes "c \<noteq> []" "list_all is_ascii_digit c"
  shows "\<exists>i f. decimal_parts (render_decimal neg c s) neg i f 0 \<and>
    parts_value neg i f 0 = scaled_value neg c s"
proof -
  have dp: "decimal_parts ((if neg then ''-'' else []) @ m) neg i f 0" if "mantissa_of m i f" for m i f
    unfolding decimal_parts_def
    using that sign_of.intros exponent_of.absent
    by (intro exI [of _ "if neg then ''-'' else []"] exI [of _ m] exI [of _ "[]"]) auto
  consider (whole) "s \<le> 0" | (mixed) "s > 0" "length c > nat s" | (frac) "s > 0" "length c \<le> nat s"
    by linarith
  then show ?thesis
  proof cases
    case whole
    let ?i = "c @ replicate (nat (- s)) (CHR ''0'')"
    have "mantissa_of ?i ?i []"
      using assms by (intro mantissa_of.whole) (auto simp: list_all_iff)
    from dp [OF this] whole show ?thesis
      by - (rule exI [of _ ?i], rule exI [of _ "[]"],
        simp add: render_decimal_def parts_value_scaled scaled_value_zeros)
  next
    case mixed
    let ?i = "take (length c - nat s) c" and ?f = "drop (length c - nat s) c"
    have "mantissa_of (?i @ CHR ''.'' # ?f) ?i ?f"
      using assms by (intro mantissa_of.point) auto
    from dp [OF this] mixed show ?thesis
      by - (rule exI [of _ ?i], rule exI [of _ ?f],
        simp add: render_decimal_def parts_value_scaled Let_def)
  next
    case frac
    let ?f = "replicate (nat s - length c) (CHR ''0'') @ c"
    have "mantissa_of (''0'' @ CHR ''.'' # ?f) ''0'' ?f"
      using assms by (intro mantissa_of.point) (auto simp: list_all_iff)
    from dp [OF this] frac show ?thesis
      using scaled_value_leading [of neg "Suc (nat s - length c)" c s]
      by - (rule exI [of _ "''0''"], rule exI [of _ ?f],
        simp add: render_decimal_def parts_value_scaled Let_def)
  qed
qed

definition normalized_text :: "bool \<Rightarrow> string \<Rightarrow> int \<Rightarrow> string" where
  "normalized_text neg d s =
     (case position (\<lambda>c. c \<noteq> CHR ''0'') d of
        None \<Rightarrow> ''0''
      | Some p \<Rightarrow> let (c, s') = strip_zeros (drop p d) s in render_decimal neg c s')"

lemma finish_decimal_iff:
  "finish_decimal neg i f e = Inr t \<longleftrightarrow>
     t = normalized_text neg (i @ f) (int (length f) - e) \<and> length t \<le> MAX_NORMALIZED_DECIMAL_BYTES"
proof (cases "position (\<lambda>c. c \<noteq> CHR ''0'') (i @ f)")
  case None
  then show ?thesis by (auto simp: finish_decimal_def normalized_text_def)
next
  case (Some p)
  obtain c s where cs: "strip_zeros (drop p (i @ f)) (int (length f) - e) = (c, s)" by fastforce
  with Some have "finish_decimal neg i f e = Inr t \<longleftrightarrow>
      (\<exists>b. (decimal_output_bytes neg c s = Inr b \<and> b \<le> MAX_NORMALIZED_DECIMAL_BYTES) \<and>
         t = render_decimal neg c s)"
    by (auto simp: finish_decimal_def not_less split: if_splits simp del: drop_append)
  also have "\<dots> \<longleftrightarrow> t = render_decimal neg c s \<and> length t \<le> MAX_NORMALIZED_DECIMAL_BYTES"
    unfolding output_bytes_exact by auto
  also have "render_decimal neg c s = normalized_text neg (i @ f) (int (length f) - e)"
    using Some cs by (simp add: normalized_text_def del: drop_append)
  finally show ?thesis .
qed

lemma leading_zeros:
  assumes "position (\<lambda>c. c \<noteq> CHR ''0'') d = Some p"
  shows "d = replicate p (CHR ''0'') @ drop p d" "drop p d \<noteq> []" "hd (drop p d) \<noteq> CHR ''0''"
proof -
  from position_Some [OF assms] have p: "p < length d" "d ! p \<noteq> CHR ''0''"
    and z: "\<forall>x \<in> set (take p d). x = CHR ''0''" by auto
  from z p have "take p d = replicate p (CHR ''0'')"
    by (intro replicate_eqI) auto
  then show "d = replicate p (CHR ''0'') @ drop p d" by (metis append_take_drop_id)
  from p show "drop p d \<noteq> []" "hd (drop p d) \<noteq> CHR ''0''" by (simp_all add: hd_drop_conv_nth)
qed

lemma all_zeros:
  assumes "position (\<lambda>c. c \<noteq> CHR ''0'') d = None"
  shows "dec_value d = 0"
proof -
  from assms have "d = replicate (length d) (CHR ''0'')"
    by (intro replicate_eqI) (auto simp: position_None)
  then show ?thesis by (metis dec_value_zeros)
qed

lemma stripped_digits:
  assumes p: "position (\<lambda>c. c \<noteq> CHR ''0'') d = Some p"
    and cs: "strip_zeros (drop p d) s = (c, s')" and d: "list_all is_ascii_digit d"
  shows "c \<noteq> []" "list_all is_ascii_digit c" "hd c \<noteq> CHR ''0''"
    and "s' \<le> 0 \<or> last c \<noteq> CHR ''0''" and "scaled_value neg c s' = scaled_value neg d s"
proof -
  from strip_zeros_spec [OF cs] obtain k where c: "drop p d = c @ replicate k (CHR ''0'')"
      and s': "s' \<le> 0 \<or> c = [] \<or> last c \<noteq> CHR ''0''" by blast
  show ne: "c \<noteq> []"
    using leading_zeros(2,3) [OF p] c by (cases k) auto
  show "list_all is_ascii_digit c"
    using d c by (metis append_take_drop_id list_all_append)
  show "hd c \<noteq> CHR ''0''" using leading_zeros(3) [OF p] c ne by simp
  show "s' \<le> 0 \<or> last c \<noteq> CHR ''0''" using s' ne by blast
  show "scaled_value neg c s' = scaled_value neg d s"
    using strip_zeros_value [OF cs] leading_zeros(1) [OF p] scaled_value_leading by metis
qed

lemma normalized_text_normal:
  assumes "list_all is_ascii_digit d"
  shows "normal_text (normalized_text neg d s) (scaled_value neg d s)"
proof (cases "position (\<lambda>c. c \<noteq> CHR ''0'') d")
  case None
  then show ?thesis
    by (simp add: normalized_text_def normal_text_def scaled_value_eq_0_iff all_zeros)
next
  case (Some p)
  obtain c s' where cs: "strip_zeros (drop p d) s = (c, s')" by fastforce
  note sd = stripped_digits [OF Some cs assms]
  show ?thesis
  proof (cases "s' \<le> 0")
    case True
    let ?c = "c @ replicate (nat (- s')) (CHR ''0'')"
    have "normalized_text neg d s = render_decimal neg ?c (int 0)"
      using Some cs render_nonpos [OF True] by (simp add: normalized_text_def)
    moreover have "scaled_value neg d s = scaled_value neg ?c (int 0)"
      using sd(5) [of neg] True by (simp add: scaled_value_zeros)
    moreover have "list_all is_ascii_digit ?c" using sd(2) by (auto simp: list_all_iff)
    ultimately show ?thesis using sd(1,3) unfolding normal_text_def
      by (metis append_is_Nil_conv hd_append2)
  next
    case False
    then have "normalized_text neg d s = render_decimal neg c (int (nat s'))"
      "scaled_value neg d s = scaled_value neg c (int (nat s'))"
      using Some cs sd(5) [of neg] by (simp_all add: normalized_text_def)
    with False sd show ?thesis unfolding normal_text_def by blast
  qed
qed

lemma normalized_text_parts:
  assumes "list_all is_ascii_digit d"
  shows "\<exists>neg' i f. decimal_parts (normalized_text neg d s) neg' i f 0 \<and>
    scaled_value neg d s = parts_value neg' i f 0"
proof (cases "position (\<lambda>c. c \<noteq> CHR ''0'') d")
  case None
  have "mantissa_of ''0'' ''0'' []" by (rule mantissa_of.whole) auto
  then have "decimal_parts ''0'' False ''0'' [] 0"
    unfolding decimal_parts_def using sign_of.no_sign exponent_of.absent
    by (metis append.left_neutral append.right_neutral)
  moreover have "parts_value False ''0'' [] 0 = 0"
    using dec_value_zeros [of 1] by (simp add: parts_value_def)
  moreover have "scaled_value neg d s = 0" using None by (simp add: scaled_value_eq_0_iff all_zeros)
  moreover have "normalized_text neg d s = ''0''" using None by (simp add: normalized_text_def)
  ultimately show ?thesis by metis
next
  case (Some p)
  obtain c s' where cs: "strip_zeros (drop p d) s = (c, s')" by fastforce
  note sd = stripped_digits [OF Some cs assms]
  have "normalized_text neg d s = render_decimal neg c s'"
    using Some cs by (simp add: normalized_text_def)
  then show ?thesis
    using render_decimal_parts [OF sd(1,2), of neg s'] sd(5) [of neg] by metis
qed

lemma last_digit_mod:
  assumes "list_all is_ascii_digit c" "c \<noteq> []"
  shows "dec_value c mod 10 = digit_value (last c)"
proof -
  have "dec_value (butlast c @ [last c]) = 10 * dec_value (butlast c) + digit_value (last c)"
    by (rule dec_value_snoc)
  moreover have "digit_value (last c) < 10"
    using assms by (auto simp: list_all_iff)
  ultimately show ?thesis using assms(2) by simp
qed

lemma scaled_digits_le:
  assumes "list_all is_ascii_digit c'" "c' \<noteq> []" "k' = 0 \<or> last c' \<noteq> CHR ''0''"
    and eq: "dec_value c * 10 ^ k' = dec_value c' * 10 ^ k"
  shows "k' \<le> k"
proof (rule ccontr)
  assume "\<not> k' \<le> k"
  then have k': "k' = k + Suc (k' - Suc k)" and pos: "k' \<noteq> 0" by auto
  from eq have "dec_value c * 10 ^ (k + Suc (k' - Suc k)) = dec_value c' * 10 ^ k"
    using k' by simp
  then have "dec_value c * 10 ^ Suc (k' - Suc k) * 10 ^ k = dec_value c' * 10 ^ k"
    by (simp add: power_add mult.commute mult.left_commute)
  then have "dec_value c' = 10 * (dec_value c * 10 ^ (k' - Suc k))" by simp
  then have "dec_value c' mod 10 = 0" by simp
  with assms pos show False
    using last_digit_mod [of c'] digit_value_zero_iff [of "last c'"] by (simp add: list_all_iff)
qed

lemma scaled_value_cross:
  assumes "scaled_value neg c (int k) = scaled_value neg' c' (int k')" "neg = neg'"
  shows "dec_value c * 10 ^ k' = dec_value c' * 10 ^ k"
proof -
  have "of_nat (dec_value c) / (10 :: rat) ^ k = of_nat (dec_value c') / 10 ^ k'"
    using assms by (cases neg) (simp_all add: scaled_value_def power_int_minus divide_inverse)
  then have "(of_nat (dec_value c * 10 ^ k') :: rat) = of_nat (dec_value c' * 10 ^ k)"
    by (simp add: field_simps)
  then show ?thesis by (simp only: of_nat_eq_iff)
qed

lemma normal_text_unique:
  assumes "normal_text t q" "normal_text t' q"
  shows "t = t'"
proof -
  have nonzero: "q \<noteq> 0" if "q = scaled_value neg c s" "c \<noteq> []" "list_all is_ascii_digit c"
      "hd c \<noteq> CHR ''0''" for neg c s
    using that dec_value_pos [of c] by (simp add: scaled_value_eq_0_iff)
  have "t = t'"
    if q: "q = scaled_value neg c (int k)" "q = scaled_value neg' c' (int k')"
      and c: "c \<noteq> []" "list_all is_ascii_digit c" "hd c \<noteq> CHR ''0''" "k = 0 \<or> last c \<noteq> CHR ''0''"
      and c': "c' \<noteq> []" "list_all is_ascii_digit c'" "hd c' \<noteq> CHR ''0''"
        "k' = 0 \<or> last c' \<noteq> CHR ''0''"
      and t: "t = render_decimal neg c (int k)" "t' = render_decimal neg' c' (int k')"
    for neg c k neg' c' k'
  proof -
    have n: "neg = neg'"
      using q c c' scaled_value_sign [of c neg] scaled_value_sign [of c' neg'] dec_value_pos by metis
    with q have cross: "dec_value c * 10 ^ k' = dec_value c' * 10 ^ k"
      using scaled_value_cross [of neg c k neg' c' k'] by simp
    have "k' \<le> k" using scaled_digits_le [OF c'(2,1,4) cross] .
    moreover have "k \<le> k'" using scaled_digits_le [OF c(2,1,4) cross [symmetric]] .
    ultimately have k: "k = k'" by simp
    with cross have "dec_value c = dec_value c'" by simp
    then have "c = c'"
      using c c' by (intro canonical_digits_inject) (auto simp: canonical_digits_def)
    with n k t show ?thesis by simp
  qed
  with assms nonzero show ?thesis unfolding normal_text_def by blast
qed

lemma exponent_of_unique:
  assumes "exponent_of ex e" "exponent_of ex e'"
  shows "e = e'"
  using assms(1)
proof cases
  case absent
  with assms(2) show ?thesis by (simp add: exponent_of_Nil)
next
  case (present x sg neg ds)
  have sp: "split_sign (sg @ ds) = (neg, ds)"
    using present digits_hd_not_sign [of ds] split_sign_iff [of ds "sg @ ds" neg] by blast
  from assms(2) show ?thesis
  proof cases
    case absent
    with present show ?thesis by simp
  next
    case (present x' sg' neg' ds')
    then have "split_sign (sg' @ ds') = (neg', ds')"
      using digits_hd_not_sign [of ds'] split_sign_iff [of ds' "sg' @ ds'" neg'] by blast
    with sp present \<open>ex = x # sg @ ds\<close>
    show ?thesis using \<open>e = (if neg then - int (dec_value ds) else int (dec_value ds))\<close> by simp
  qed
qed

lemma decimal_parts_unique:
  assumes "decimal_parts s neg i f e" "decimal_parts s neg' i' f' e'"
  shows "neg = neg' \<and> i = i' \<and> f = f' \<and> e = e'"
proof -
  obtain sg m ex where s: "s = sg @ m @ ex" "sign_of sg neg" "mantissa_of m i f" "exponent_of ex e"
    using assms(1) by (auto simp: decimal_parts_def)
  obtain sg' m' ex' where s': "s = sg' @ m' @ ex'" "sign_of sg' neg'" "mantissa_of m' i' f'"
      "exponent_of ex' e'"
    using assms(2) by (auto simp: decimal_parts_def)
  have n: "neg = neg'" "m @ ex = m' @ ex'"
    using decimal_parts_split [OF s(2,3), of ex] decimal_parts_split [OF s'(2,3), of ex'] s(1) s'(1)
    by simp_all
  have mark: "takeWhile (\<lambda>c. \<not> is_exponent_mark c) (m @ ex) = m"
    if "mantissa_of m i f" "exponent_of ex e" for m i f ex e
    using that(2) mantissa_of_no_mark [OF that(1)] by cases (auto simp: takeWhile_append)
  have "m = m'" using mark [OF s(3,4)] mark [OF s'(3,4)] n(2) by simp
  with n s s' show ?thesis using exponent_of_unique by (auto simp: mantissa_of_iff)
qed

lemma decimal_denotes_unique: "decimal_denotes s q \<Longrightarrow> decimal_denotes s q' \<Longrightarrow> q = q'"
  unfolding decimal_denotes_def using decimal_parts_unique by blast

lemma normalize_decimal_iff:
  "normalize_decimal s = Inr t \<longleftrightarrow>
     (\<exists>neg i f e. decimal_parts s neg i f e \<and> \<bar>e\<bar> \<le> i64_max \<and>
        t = normalized_text neg (i @ f) (int (length f) - e) \<and>
        length t \<le> MAX_NORMALIZED_DECIMAL_BYTES)"
  by (auto simp: normalize_decimal_def scan_decimal_iff finish_decimal_iff)

lemma decimal_parts_digits: "decimal_parts s neg i f e \<Longrightarrow> list_all is_ascii_digit (i @ f)"
  by (auto simp: decimal_parts_def mantissa_of_iff)

lemma normalize_decimal_normal:
  assumes "normalize_decimal s = Inr t"
  obtains q neg i f where "decimal_denotes s q" "decimal_parts t neg i f 0"
    "q = parts_value neg i f 0" "normal_text t q" "length t \<le> MAX_NORMALIZED_DECIMAL_BYTES"
proof -
  from assms obtain neg i f e where p: "decimal_parts s neg i f e"
      and t: "t = normalized_text neg (i @ f) (int (length f) - e)"
      and l: "length t \<le> MAX_NORMALIZED_DECIMAL_BYTES"
    by (auto simp: normalize_decimal_iff)
  let ?q = "scaled_value neg (i @ f) (int (length f) - e)"
  have "decimal_denotes s ?q"
    using p unfolding decimal_denotes_def parts_value_scaled by blast
  with that l t normalized_text_parts normalized_text_normal decimal_parts_digits [OF p]
  show thesis by metis
qed

lemma normalized_denotes:
  assumes "normalize_decimal s = Inr t"
  shows "decimal_denotes t q \<longleftrightarrow> decimal_denotes s q" "\<exists>q. decimal_denotes s q"
proof -
  from assms obtain r neg i f where r: "decimal_denotes s r" "decimal_parts t neg i f 0"
      "r = parts_value neg i f 0"
    by (rule normalize_decimal_normal)
  from r(2,3) have "decimal_denotes t r" unfolding decimal_denotes_def by blast
  with r decimal_denotes_unique
  show "decimal_denotes t q \<longleftrightarrow> decimal_denotes s q" "\<exists>q. decimal_denotes s q" by blast+
qed

lemma normalize_idempotent:
  assumes "normalize_decimal s = Inr t"
  shows "normalize_decimal t = Inr t"
proof -
  from assms obtain r neg i f where r: "decimal_parts t neg i f 0"
      "r = parts_value neg i f 0" "normal_text t r" "length t \<le> MAX_NORMALIZED_DECIMAL_BYTES"
    by (rule normalize_decimal_normal)
  have "normal_text (normalized_text neg (i @ f) (int (length f) - 0)) r"
    using r(2) normalized_text_normal [OF decimal_parts_digits [OF r(1)]]
    by (simp add: parts_value_scaled)
  then have "t = normalized_text neg (i @ f) (int (length f) - 0)"
    using r(3) normal_text_unique by blast
  with r(1,4) show ?thesis
    unfolding normalize_decimal_iff by (intro exI conjI) auto
qed

lemma scan_denotes: "scan_decimal s = Inr (neg, i, f, e) \<Longrightarrow> decimal_denotes s (parts_value neg i f e)"
  unfolding scan_decimal_iff decimal_denotes_def by blast

lemmas decimal_compute =
  normalize_decimal_def scan_decimal_def finish_decimal_def split_exponent_def split_point_def
  parse_exponent_def is_exponent_mark_def is_ascii_def is_ascii_digit_def digit_value_def
  strip_zeros.simps decimal_output_bytes_def try_usize_def checked_add_def render_decimal_def
  Let_def

subsection \<open>Properties\<close>

text \<open>
  The wire form of a \<^verbatim>\<open>SchemaU64\<close> is canonical: \<open>parse_canonical_u64\<close> accepts a text with
  the result \<open>w\<close> exactly when the text is what serialising \<open>w\<close> prints, so that reading after
  printing is the identity and no other spelling of a number is ever accepted.
\<close>

theorem schema_u64_roundtrip: "parse_canonical_u64 s = Inr w \<longleftrightarrow> s = SchemaU64_serialize w"
  unfolding parse_canonical_u64_iff SchemaU64_serialize_def
  using nat_decimal_of_value [of s] canonical_nat_decimal [of "unat w"]
    dec_value_nat_decimal [of "unat w"] by metis

text \<open>
  \<open>CanonicalInteger_parse\<close> accepts exactly the decimal texts of the integers, each integer
  having a single one: the digits without leading zeros, a minus sign in front of a negative
  number, and no negative zero.
\<close>

theorem canonical_integer_spec:
  "CanonicalInteger_parse s = Inr r \<longleftrightarrow>
     r = s \<and> (\<exists>n :: int. s = (if n < 0 then ''-'' @ nat_decimal (nat (- n)) else nat_decimal (nat n)))"
proof -
  have eq: "CanonicalInteger_parse s = Inr r \<longleftrightarrow> r = s \<and>
      (canonical_digits s \<or> (\<exists>d. s = CHR ''-'' # d \<and> canonical_digits d \<and> d \<noteq> ''0''))"
  proof -
    have "list_all is_ascii d" if "list_all is_ascii_digit d" for d
      using that digit_is_ascii by (auto simp: list_all_iff)
    moreover have "hd s \<noteq> CHR ''-''" if "s \<noteq> []" "list_all is_ascii_digit s"
      using digits_hd_not_sign that by blast
    ultimately show ?thesis
      by (cases s) (auto simp: CanonicalInteger_parse_def canonical_digits_def digit_is_ascii)
  qed
  have pos: "canonical_digits s \<longleftrightarrow> (\<exists>n \<ge> 0. s = nat_decimal (nat n))"
    using nat_decimal_of_value [of s] canonical_nat_decimal
    by (metis nat_int of_nat_0_le_iff)
  have "d \<noteq> ''0'' \<longleftrightarrow> 0 < dec_value d" if "canonical_digits d" for d
    using that dec_value_pos [of d] dec_value_zeros [of 1]
    by (cases d; cases "tl d") (auto simp: canonical_digits_def)
  then have neg: "canonical_digits d \<and> d \<noteq> ''0'' \<longleftrightarrow> (\<exists>n < 0. d = nat_decimal (nat (- n)))" for d
    using nat_decimal_of_value [of d] canonical_nat_decimal dec_value_nat_decimal
    by (metis nat_int neg_less_0_iff_less of_nat_0_less_iff verit_minus_simplify(4) zero_less_nat_eq)
  have split: "(\<exists>n :: int. s = (if n < 0 then ''-'' @ nat_decimal (nat (- n)) else nat_decimal (nat n)))
      \<longleftrightarrow> (\<exists>n \<ge> 0. s = nat_decimal (nat n)) \<or> (\<exists>n < 0. s = ''-'' @ nat_decimal (nat (- n)))"
    by (metis not_less)
  have "(\<exists>d. s = CHR ''-'' # d \<and> canonical_digits d \<and> d \<noteq> ''0'')
      \<longleftrightarrow> (\<exists>n < 0. s = ''-'' @ nat_decimal (nat (- n)))"
    unfolding neg by auto
  with eq pos split show ?thesis by blast
qed

text \<open>
  C28. A text that the decimal normaliser accepts denotes a number, and the normal form denotes
  that same number (and no other): sign, point and exponent are folded away without changing
  the value, whatever the exponent, and the result is at most one mebibyte long.
\<close>

theorem normalize_decimal_value:
  assumes "normalize_decimal s = Inr t"
  shows "(\<exists>!q. decimal_denotes s q) \<and> (\<forall>q. decimal_denotes t q \<longleftrightarrow> decimal_denotes s q) \<and>
    length t \<le> MAX_NORMALIZED_DECIMAL_BYTES"
  using normalized_denotes [OF assms] decimal_denotes_unique assms
  by (auto simp: normalize_decimal_iff)

theorem normalize_decimal_value_witness:
  "normalize_decimal ''+012.50e-3'' = Inr ''0.0125'' \<and>
   (\<exists>!q. decimal_denotes ''+012.50e-3'' q) \<and>
   (\<forall>q. decimal_denotes ''0.0125'' q \<longleftrightarrow> decimal_denotes ''+012.50e-3'' q)"
proof -
  have "normalize_decimal ''+012.50e-3'' = Inr ''0.0125''" by (simp add: decimal_compute)
  with normalize_decimal_value [OF this] show ?thesis by blast
qed

text \<open>
  C29. Whatever the program writes as a decimal is read back unchanged: the strict deserialiser,
  which refuses a text that differs from its own normal form, accepts every result of the
  normaliser and returns it.
\<close>

theorem decimal_roundtrip:
  assumes "DecimalString_parse s = Inr t"
  shows "DecimalString_deserialize t = Inr t"
  using normalize_idempotent [of s t] assms
  by (simp add: DecimalString_deserialize_def DecimalString_parse_def)

theorem decimal_roundtrip_witness:
  "DecimalString_parse ''-.50'' = Inr ''-0.5'' \<and> DecimalString_deserialize ''-0.5'' = Inr ''-0.5''"
proof -
  have "DecimalString_parse ''-.50'' = Inr ''-0.5''"
    by (simp add: DecimalString_parse_def decimal_compute)
  with decimal_roundtrip [OF this] show ?thesis by blast
qed

text \<open>
  The normal form is a canonical representation of the number: two accepted inputs that
  denote the same number normalise to the same text.
\<close>

theorem normal_form_unique:
  assumes "normalize_decimal s = Inr t" "normalize_decimal s' = Inr t'"
    and "decimal_denotes s q" "decimal_denotes s' q"
  shows "t = t'"
proof -
  from assms(1) obtain r where r: "decimal_denotes s r" "normal_text t r"
    by (rule normalize_decimal_normal)
  from assms(2) obtain r' where r': "decimal_denotes s' r'" "normal_text t' r'"
    by (rule normalize_decimal_normal)
  from r r' assms(3,4) decimal_denotes_unique normal_text_unique show ?thesis by metis
qed

theorem normal_form_unique_witness:
  "normalize_decimal ''-.50'' = Inr ''-0.5'' \<and> normalize_decimal ''-5E-1'' = Inr ''-0.5'' \<and>
   decimal_denotes ''-.50'' (- 1 / 2) \<and> decimal_denotes ''-5E-1'' (- 1 / 2)"
proof -
  have n: "normalize_decimal ''-.50'' = Inr ''-0.5''" by (simp add: decimal_compute)
  obtain t where n': "normalize_decimal ''-5E-1'' = Inr t" by (simp add: decimal_compute)
  have "decimal_denotes ''-.50'' (parts_value True [] ''50'' 0)"
    by (rule scan_denotes) (simp add: decimal_compute)
  then have d: "decimal_denotes ''-.50'' (- 1 / 2)"
    by (simp add: parts_value_def dec_value_def digit_value_def power_int_minus)
  have "decimal_denotes ''-5E-1'' (parts_value True ''5'' [] (- 1))"
    by (rule scan_denotes) (simp add: decimal_compute)
  then have d': "decimal_denotes ''-5E-1'' (- 1 / 2)"
    by (simp add: parts_value_def dec_value_def digit_value_def power_int_minus)
  from normal_form_unique [OF n n' d d'] n n' d d' show ?thesis by simp
qed

end
