(* ===== verification/Kinds.thy ===== *)
theory Kinds
  imports Prelude
begin

section \<open>Closed enumerations\<close>

text \<open>
  Models \<^verbatim>\<open>rust/crates/troupe-diagnostics-core/src/kinds.rs\<close>: the enumerations that the
  macros \<^verbatim>\<open>closed_string_enum\<close> and \<^verbatim>\<open>closed_string_enum_with_all\<close> declare, each with its
  wire names (\<open>_as_str\<close>) and, where the macro gives one, the list \<open>_ALL\<close> of its variants.
  Several enumerations share variant names, so variants are always written with their type.

  Shown here: the wire names of an enumeration are pairwise distinct, so that a name
  determines the variant, and \<open>_ALL\<close> lists every variant once.
\<close>

datatype CausalRelation = Dispatch | Return | Handoff | Retry | FollowsFrom

primrec CausalRelation_as_str :: "CausalRelation \<Rightarrow> string" where
  "CausalRelation_as_str CausalRelation.Dispatch = ''dispatch''"
| "CausalRelation_as_str CausalRelation.Return = ''return''"
| "CausalRelation_as_str CausalRelation.Handoff = ''handoff''"
| "CausalRelation_as_str CausalRelation.Retry = ''retry''"
| "CausalRelation_as_str CausalRelation.FollowsFrom = ''follows_from''"

definition CausalRelation_ALL :: "CausalRelation list" where
  "CausalRelation_ALL = [CausalRelation.Dispatch, CausalRelation.Return, CausalRelation.Handoff,
     CausalRelation.Retry, CausalRelation.FollowsFrom]"

datatype SpanKind = RunLifecycle | ProductionPathResolution | ProductionLoad
    | ProductionConstruct | ProductionStart | ProductionStop | ProductionShutdown
    | SceneLifecycle | SceneDrain | SceneCleanup | ActorHandleLifetime | CueMailboxWait
    | CueExecution | EffectLifecycle | AgentSessionOpening | AgentSessionLifecycle
    | AgentSessionClosing | ActLifecycle | ActCaller | AgentTurn | AgentThinking | ToolCall

primrec SpanKind_as_str :: "SpanKind \<Rightarrow> string" where
  "SpanKind_as_str SpanKind.RunLifecycle = ''run.lifecycle''"
| "SpanKind_as_str SpanKind.ProductionPathResolution = ''production.path_resolution''"
| "SpanKind_as_str SpanKind.ProductionLoad = ''production.load''"
| "SpanKind_as_str SpanKind.ProductionConstruct = ''production.construct''"
| "SpanKind_as_str SpanKind.ProductionStart = ''production.start''"
| "SpanKind_as_str SpanKind.ProductionStop = ''production.stop''"
| "SpanKind_as_str SpanKind.ProductionShutdown = ''production.shutdown''"
| "SpanKind_as_str SpanKind.SceneLifecycle = ''scene.lifecycle''"
| "SpanKind_as_str SpanKind.SceneDrain = ''scene.drain''"
| "SpanKind_as_str SpanKind.SceneCleanup = ''scene.cleanup''"
| "SpanKind_as_str SpanKind.ActorHandleLifetime = ''actor.handle_lifetime''"
| "SpanKind_as_str SpanKind.CueMailboxWait = ''cue.mailbox_wait''"
| "SpanKind_as_str SpanKind.CueExecution = ''cue.execution''"
| "SpanKind_as_str SpanKind.EffectLifecycle = ''effect.lifecycle''"
| "SpanKind_as_str SpanKind.AgentSessionOpening = ''agent.session.opening''"
| "SpanKind_as_str SpanKind.AgentSessionLifecycle = ''agent.session.lifecycle''"
| "SpanKind_as_str SpanKind.AgentSessionClosing = ''agent.session.closing''"
| "SpanKind_as_str SpanKind.ActLifecycle = ''act.lifecycle''"
| "SpanKind_as_str SpanKind.ActCaller = ''act.caller''"
| "SpanKind_as_str SpanKind.AgentTurn = ''agent.turn''"
| "SpanKind_as_str SpanKind.AgentThinking = ''agent.thinking''"
| "SpanKind_as_str SpanKind.ToolCall = ''tool.call''"

definition SpanKind_ALL :: "SpanKind list" where
  "SpanKind_ALL = [SpanKind.RunLifecycle, SpanKind.ProductionPathResolution,
     SpanKind.ProductionLoad, SpanKind.ProductionConstruct, SpanKind.ProductionStart,
     SpanKind.ProductionStop, SpanKind.ProductionShutdown, SpanKind.SceneLifecycle,
     SpanKind.SceneDrain, SpanKind.SceneCleanup, SpanKind.ActorHandleLifetime,
     SpanKind.CueMailboxWait, SpanKind.CueExecution, SpanKind.EffectLifecycle,
     SpanKind.AgentSessionOpening, SpanKind.AgentSessionLifecycle,
     SpanKind.AgentSessionClosing, SpanKind.ActLifecycle, SpanKind.ActCaller,
     SpanKind.AgentTurn, SpanKind.AgentThinking, SpanKind.ToolCall]"

datatype InstantKind = ActorCast | CueAdmitted | CueEnqueued | CueDispatched
    | CueCancelRequested | EffectCreated | EffectReturned | EffectConsumed | AgentSessionReady
    | AgentSessionBroken | ActAdmitted | ActWaitingReady | ActPromptSubmitted
    | ActCancelRequested | ActSupervisorHandoff | AgentTurnActivity | AgentTurnTerminal
    | AgentTurnSettled | ToolUpdated | ResultSubmitted | ResultRejected | ResultRepairRequested
    | ResultAccepted | ResultMissing | DiagnosticComponentFailed

primrec InstantKind_as_str :: "InstantKind \<Rightarrow> string" where
  "InstantKind_as_str InstantKind.ActorCast = ''actor.cast''"
| "InstantKind_as_str InstantKind.CueAdmitted = ''cue.admitted''"
| "InstantKind_as_str InstantKind.CueEnqueued = ''cue.enqueued''"
| "InstantKind_as_str InstantKind.CueDispatched = ''cue.dispatched''"
| "InstantKind_as_str InstantKind.CueCancelRequested = ''cue.cancel_requested''"
| "InstantKind_as_str InstantKind.EffectCreated = ''effect.created''"
| "InstantKind_as_str InstantKind.EffectReturned = ''effect.returned''"
| "InstantKind_as_str InstantKind.EffectConsumed = ''effect.consumed''"
| "InstantKind_as_str InstantKind.AgentSessionReady = ''agent.session.ready''"
| "InstantKind_as_str InstantKind.AgentSessionBroken = ''agent.session.broken''"
| "InstantKind_as_str InstantKind.ActAdmitted = ''act.admitted''"
| "InstantKind_as_str InstantKind.ActWaitingReady = ''act.waiting_ready''"
| "InstantKind_as_str InstantKind.ActPromptSubmitted = ''act.prompt_submitted''"
| "InstantKind_as_str InstantKind.ActCancelRequested = ''act.cancel_requested''"
| "InstantKind_as_str InstantKind.ActSupervisorHandoff = ''act.supervisor_handoff''"
| "InstantKind_as_str InstantKind.AgentTurnActivity = ''agent.turn.activity''"
| "InstantKind_as_str InstantKind.AgentTurnTerminal = ''agent.turn.terminal''"
| "InstantKind_as_str InstantKind.AgentTurnSettled = ''agent.turn.settled''"
| "InstantKind_as_str InstantKind.ToolUpdated = ''tool.updated''"
| "InstantKind_as_str InstantKind.ResultSubmitted = ''result.submitted''"
| "InstantKind_as_str InstantKind.ResultRejected = ''result.rejected''"
| "InstantKind_as_str InstantKind.ResultRepairRequested = ''result.repair_requested''"
| "InstantKind_as_str InstantKind.ResultAccepted = ''result.accepted''"
| "InstantKind_as_str InstantKind.ResultMissing = ''result.missing''"
| "InstantKind_as_str InstantKind.DiagnosticComponentFailed = ''diagnostic.component_failed''"

definition InstantKind_ALL :: "InstantKind list" where
  "InstantKind_ALL = [InstantKind.ActorCast, InstantKind.CueAdmitted, InstantKind.CueEnqueued,
     InstantKind.CueDispatched, InstantKind.CueCancelRequested, InstantKind.EffectCreated,
     InstantKind.EffectReturned, InstantKind.EffectConsumed, InstantKind.AgentSessionReady,
     InstantKind.AgentSessionBroken, InstantKind.ActAdmitted, InstantKind.ActWaitingReady,
     InstantKind.ActPromptSubmitted, InstantKind.ActCancelRequested,
     InstantKind.ActSupervisorHandoff, InstantKind.AgentTurnActivity,
     InstantKind.AgentTurnTerminal, InstantKind.AgentTurnSettled, InstantKind.ToolUpdated,
     InstantKind.ResultSubmitted, InstantKind.ResultRejected,
     InstantKind.ResultRepairRequested, InstantKind.ResultAccepted, InstantKind.ResultMissing,
     InstantKind.DiagnosticComponentFailed]"

datatype CounterKind = ActorMailboxDepth | CueActive | AgentTurnActive
    | ResultValidationRejections | DiagnosticDroppedEvents

primrec CounterKind_as_str :: "CounterKind \<Rightarrow> string" where
  "CounterKind_as_str CounterKind.ActorMailboxDepth = ''actor.mailbox_depth''"
| "CounterKind_as_str CounterKind.CueActive = ''cue.active''"
| "CounterKind_as_str CounterKind.AgentTurnActive = ''agent.turn.active''"
| "CounterKind_as_str CounterKind.ResultValidationRejections = ''result.validation_rejections''"
| "CounterKind_as_str CounterKind.DiagnosticDroppedEvents = ''diagnostic.dropped_events''"

definition CounterKind_ALL :: "CounterKind list" where
  "CounterKind_ALL = [CounterKind.ActorMailboxDepth, CounterKind.CueActive,
     CounterKind.AgentTurnActive, CounterKind.ResultValidationRejections,
     CounterKind.DiagnosticDroppedEvents]"

datatype SpanOutcome = Completed | Cancelled | Failed

primrec SpanOutcome_as_str :: "SpanOutcome \<Rightarrow> string" where
  "SpanOutcome_as_str SpanOutcome.Completed = ''completed''"
| "SpanOutcome_as_str SpanOutcome.Cancelled = ''cancelled''"
| "SpanOutcome_as_str SpanOutcome.Failed = ''failed''"

datatype PlanEntryPriority = High | Medium | Low

primrec PlanEntryPriority_as_str :: "PlanEntryPriority \<Rightarrow> string" where
  "PlanEntryPriority_as_str PlanEntryPriority.High = ''high''"
| "PlanEntryPriority_as_str PlanEntryPriority.Medium = ''medium''"
| "PlanEntryPriority_as_str PlanEntryPriority.Low = ''low''"

datatype PlanEntryStatus = Pending | InProgress | Completed

primrec PlanEntryStatus_as_str :: "PlanEntryStatus \<Rightarrow> string" where
  "PlanEntryStatus_as_str PlanEntryStatus.Pending = ''pending''"
| "PlanEntryStatus_as_str PlanEntryStatus.InProgress = ''in_progress''"
| "PlanEntryStatus_as_str PlanEntryStatus.Completed = ''completed''"

datatype ContextSampleOrigin = Provider | CarriedForward

primrec ContextSampleOrigin_as_str :: "ContextSampleOrigin \<Rightarrow> string" where
  "ContextSampleOrigin_as_str ContextSampleOrigin.Provider = ''provider''"
| "ContextSampleOrigin_as_str ContextSampleOrigin.CarriedForward = ''carried_forward''"

datatype UsageAvailability = Available | Partial | Unavailable

primrec UsageAvailability_as_str :: "UsageAvailability \<Rightarrow> string" where
  "UsageAvailability_as_str UsageAvailability.Available = ''available''"
| "UsageAvailability_as_str UsageAvailability.Partial = ''partial''"
| "UsageAvailability_as_str UsageAvailability.Unavailable = ''unavailable''"

datatype UsageSource = AcpPromptResponseUsage

primrec UsageSource_as_str :: "UsageSource \<Rightarrow> string" where
  "UsageSource_as_str UsageSource.AcpPromptResponseUsage = ''acp.prompt_response.usage''"

datatype UsageUnavailableReason = PromptNotSubmitted | SourceUnsupported | UsageNotReported
    | TurnSettlementUnknown

primrec UsageUnavailableReason_as_str :: "UsageUnavailableReason \<Rightarrow> string" where
  "UsageUnavailableReason_as_str UsageUnavailableReason.PromptNotSubmitted = ''prompt_not_submitted''"
| "UsageUnavailableReason_as_str UsageUnavailableReason.SourceUnsupported = ''source_unsupported''"
| "UsageUnavailableReason_as_str UsageUnavailableReason.UsageNotReported = ''usage_not_reported''"
| "UsageUnavailableReason_as_str UsageUnavailableReason.TurnSettlementUnknown = ''turn_settlement_unknown''"

datatype CustomSeverity = Debug | Info | Warning | Error

primrec CustomSeverity_as_str :: "CustomSeverity \<Rightarrow> string" where
  "CustomSeverity_as_str CustomSeverity.Debug = ''debug''"
| "CustomSeverity_as_str CustomSeverity.Info = ''info''"
| "CustomSeverity_as_str CustomSeverity.Warning = ''warning''"
| "CustomSeverity_as_str CustomSeverity.Error = ''error''"

datatype ToolKind = Read | Edit | Delete | Move | Search | Execute | Think | Fetch | SwitchMode
    | Other

primrec ToolKind_as_str :: "ToolKind \<Rightarrow> string" where
  "ToolKind_as_str ToolKind.Read = ''read''"
| "ToolKind_as_str ToolKind.Edit = ''edit''"
| "ToolKind_as_str ToolKind.Delete = ''delete''"
| "ToolKind_as_str ToolKind.Move = ''move''"
| "ToolKind_as_str ToolKind.Search = ''search''"
| "ToolKind_as_str ToolKind.Execute = ''execute''"
| "ToolKind_as_str ToolKind.Think = ''think''"
| "ToolKind_as_str ToolKind.Fetch = ''fetch''"
| "ToolKind_as_str ToolKind.SwitchMode = ''switch_mode''"
| "ToolKind_as_str ToolKind.Other = ''other''"

datatype ToolCallStatus = Pending | InProgress | Completed | Failed

primrec ToolCallStatus_as_str :: "ToolCallStatus \<Rightarrow> string" where
  "ToolCallStatus_as_str ToolCallStatus.Pending = ''pending''"
| "ToolCallStatus_as_str ToolCallStatus.InProgress = ''in_progress''"
| "ToolCallStatus_as_str ToolCallStatus.Completed = ''completed''"
| "ToolCallStatus_as_str ToolCallStatus.Failed = ''failed''"

datatype DiagnosticComponent = Sink

primrec DiagnosticComponent_as_str :: "DiagnosticComponent \<Rightarrow> string" where
  "DiagnosticComponent_as_str DiagnosticComponent.Sink = ''sink''"

datatype ComponentFailureStage = Enqueue | Callback

primrec ComponentFailureStage_as_str :: "ComponentFailureStage \<Rightarrow> string" where
  "ComponentFailureStage_as_str ComponentFailureStage.Enqueue = ''enqueue''"
| "ComponentFailureStage_as_str ComponentFailureStage.Callback = ''callback''"

datatype ComponentFailureErrorCode = DeliveryQueueUnavailable | CallbackRaised
    | CallbackInvalidReturn

primrec ComponentFailureErrorCode_as_str :: "ComponentFailureErrorCode \<Rightarrow> string" where
  "ComponentFailureErrorCode_as_str ComponentFailureErrorCode.DeliveryQueueUnavailable = ''delivery_queue_unavailable''"
| "ComponentFailureErrorCode_as_str ComponentFailureErrorCode.CallbackRaised = ''callback_raised''"
| "ComponentFailureErrorCode_as_str ComponentFailureErrorCode.CallbackInvalidReturn = ''callback_invalid_return''"

subsection \<open>Names determine variants\<close>

lemma CausalRelation_as_str_inject [simp]: "CausalRelation_as_str a = CausalRelation_as_str b \<longleftrightarrow> a = b"
  by (cases a; cases b; simp)

lemma CausalRelation_ALL_complete: "set CausalRelation_ALL = UNIV"
proof -
  have "x \<in> set CausalRelation_ALL" for x by (cases x) (simp_all add: CausalRelation_ALL_def)
  then show ?thesis by blast
qed

lemma CausalRelation_ALL_distinct: "distinct CausalRelation_ALL"
  by (simp add: CausalRelation_ALL_def)

lemma SpanKind_as_str_inject [simp]: "SpanKind_as_str a = SpanKind_as_str b \<longleftrightarrow> a = b"
  by (cases a; cases b; simp)

lemma SpanKind_ALL_complete: "set SpanKind_ALL = UNIV"
proof -
  have "x \<in> set SpanKind_ALL" for x by (cases x) (simp_all add: SpanKind_ALL_def)
  then show ?thesis by blast
qed

lemma SpanKind_ALL_distinct: "distinct SpanKind_ALL"
  by (simp add: SpanKind_ALL_def)

lemma InstantKind_as_str_inject [simp]: "InstantKind_as_str a = InstantKind_as_str b \<longleftrightarrow> a = b"
  by (cases a; cases b; simp)

lemma InstantKind_ALL_complete: "set InstantKind_ALL = UNIV"
proof -
  have "x \<in> set InstantKind_ALL" for x by (cases x) (simp_all add: InstantKind_ALL_def)
  then show ?thesis by blast
qed

lemma InstantKind_ALL_distinct: "distinct InstantKind_ALL"
  by (simp add: InstantKind_ALL_def)

lemma CounterKind_as_str_inject [simp]: "CounterKind_as_str a = CounterKind_as_str b \<longleftrightarrow> a = b"
  by (cases a; cases b; simp)

lemma CounterKind_ALL_complete: "set CounterKind_ALL = UNIV"
proof -
  have "x \<in> set CounterKind_ALL" for x by (cases x) (simp_all add: CounterKind_ALL_def)
  then show ?thesis by blast
qed

lemma CounterKind_ALL_distinct: "distinct CounterKind_ALL"
  by (simp add: CounterKind_ALL_def)

lemma SpanOutcome_as_str_inject [simp]: "SpanOutcome_as_str a = SpanOutcome_as_str b \<longleftrightarrow> a = b"
  by (cases a; cases b; simp)

lemma PlanEntryPriority_as_str_inject [simp]: "PlanEntryPriority_as_str a = PlanEntryPriority_as_str b \<longleftrightarrow> a = b"
  by (cases a; cases b; simp)

lemma PlanEntryStatus_as_str_inject [simp]: "PlanEntryStatus_as_str a = PlanEntryStatus_as_str b \<longleftrightarrow> a = b"
  by (cases a; cases b; simp)

lemma ContextSampleOrigin_as_str_inject [simp]: "ContextSampleOrigin_as_str a = ContextSampleOrigin_as_str b \<longleftrightarrow> a = b"
  by (cases a; cases b; simp)

lemma UsageAvailability_as_str_inject [simp]: "UsageAvailability_as_str a = UsageAvailability_as_str b \<longleftrightarrow> a = b"
  by (cases a; cases b; simp)

lemma UsageSource_as_str_inject [simp]: "UsageSource_as_str a = UsageSource_as_str b \<longleftrightarrow> a = b"
  by (cases a; cases b; simp)

lemma UsageUnavailableReason_as_str_inject [simp]: "UsageUnavailableReason_as_str a = UsageUnavailableReason_as_str b \<longleftrightarrow> a = b"
  by (cases a; cases b; simp)

lemma CustomSeverity_as_str_inject [simp]: "CustomSeverity_as_str a = CustomSeverity_as_str b \<longleftrightarrow> a = b"
  by (cases a; cases b; simp)

lemma ToolKind_as_str_inject [simp]: "ToolKind_as_str a = ToolKind_as_str b \<longleftrightarrow> a = b"
  by (cases a; cases b; simp)

lemma ToolCallStatus_as_str_inject [simp]: "ToolCallStatus_as_str a = ToolCallStatus_as_str b \<longleftrightarrow> a = b"
  by (cases a; cases b; simp)

lemma DiagnosticComponent_as_str_inject [simp]: "DiagnosticComponent_as_str a = DiagnosticComponent_as_str b \<longleftrightarrow> a = b"
  by (cases a; cases b; simp)

lemma ComponentFailureStage_as_str_inject [simp]: "ComponentFailureStage_as_str a = ComponentFailureStage_as_str b \<longleftrightarrow> a = b"
  by (cases a; cases b; simp)

lemma ComponentFailureErrorCode_as_str_inject [simp]: "ComponentFailureErrorCode_as_str a = ComponentFailureErrorCode_as_str b \<longleftrightarrow> a = b"
  by (cases a; cases b; simp)

end
