(* ===== verification/Events.thy ===== *)
theory Events
  imports Wire Kinds
begin

section \<open>Diagnostic events\<close>

text \<open>
  Models \<^verbatim>\<open>detail.rs\<close>, \<^verbatim>\<open>event.rs\<close> and \<^verbatim>\<open>time.rs\<close> of
  \<^verbatim>\<open>rust/crates/troupe-diagnostics-core/src\<close>: the payloads of the fourteen event kinds,
  the checked constructors (\<open>_new\<close>), the bounds on custom payloads and the field check that
  precedes deserialisation. A struct is a record whose field names carry a prefix of their
  own; a plain constructor that checks nothing is the record itself. The newtypes over
  strings (\<^verbatim>\<open>RunLocalId\<close>, \<^verbatim>\<open>TokenCount\<close>, \<^verbatim>\<open>DecimalString\<close>, \<^verbatim>\<open>CurrencyCode\<close>,
  \<^verbatim>\<open>CanonicalInteger\<close>) are strings, a UUID is its 128-bit value, a \<^verbatim>\<open>BTreeMap\<close> from strings is
  the list of its entries in key order (the variants \<^verbatim>\<open>String\<close> and
  \<^verbatim>\<open>List\<close> of the custom values are called \<open>Text\<close> and \<open>Items\<close>). The JSON value type is that of \<^verbatim>\<open>serde_json\<close>.

  Shown here: what each checked constructor accepts and that it changes none of its
  arguments; the grammar of custom names; the field table of the deserialiser agrees with
  the fields of the structs.
\<close>

type_synonym run_local_id = string
type_synonym canonical_uuid = "128 word"
type_synonym elapsed_ns = u64
type_synonym detail_validation_error = string
type_synonym event_validation_error = string

subsection \<open>Time\<close>

text \<open>An \<^verbatim>\<open>Instant\<close> is its distance in nanoseconds from some fixed origin before the program.\<close>

datatype TimeError = BeforeOrigin | ElapsedOverflow

definition ElapsedNs_from_duration :: "nat \<Rightarrow> TimeError + elapsed_ns" where
  "ElapsedNs_from_duration nanos =
     (if nanos < 2 ^ 64 then Inr (of_nat nanos) else Inl ElapsedOverflow)"

definition RunClock_elapsed_at :: "nat \<Rightarrow> nat \<Rightarrow> TimeError + elapsed_ns" where
  "RunClock_elapsed_at origin observed =
     res_bind (ok_or BeforeOrigin (if origin \<le> observed then Some (observed - origin) else None))
       ElapsedNs_from_duration"

subsection \<open>Details\<close>

abbreviation MAX_CUSTOM_NAME_BYTES :: nat where "MAX_CUSTOM_NAME_BYTES \<equiv> 128"
abbreviation MAX_CUSTOM_KEY_BYTES :: nat where "MAX_CUSTOM_KEY_BYTES \<equiv> 64"
abbreviation MAX_CUSTOM_UNIT_BYTES :: nat where "MAX_CUSTOM_UNIT_BYTES \<equiv> 32"
abbreviation MAX_CUSTOM_ATTRIBUTES :: nat where "MAX_CUSTOM_ATTRIBUTES \<equiv> 32"
abbreviation MAX_CUSTOM_DIMENSIONS :: nat where "MAX_CUSTOM_DIMENSIONS \<equiv> 8"
abbreviation MAX_CUSTOM_LIST_ITEMS :: nat where "MAX_CUSTOM_LIST_ITEMS \<equiv> 64"

datatype EmptyDetail = EmptyDetail

record ProductionPathResolutionDetail =
  ppr_production_root :: string
  ppr_package :: string

record ProductionLoadDetail =
  pl_package :: string

record ProductionConstructDetail =
  pc_package :: string
  pc_class_name :: string

record ActorDetail =
  ad_display_name :: string
  ad_actor_type :: string

record EffectDetail =
  ed_effect_type :: string

record AgentSessionDetail =
  asd_provider :: string
  asd_effective_model :: "string option"
  asd_effective_effort :: "string option"

record AgentSessionBrokenDetail =
  asb_provider :: string
  asb_effective_model :: "string option"
  asb_effective_effort :: "string option"
  asb_error_code :: string

record AgentTurnTerminalDetail =
  att_error_code :: "string option"

record ToolCallDetail =
  tc_title :: string
  tc_tool_kind :: ToolKind
  tc_status :: ToolCallStatus
  tc_error_code :: "string option"

record ResultIssue =
  ri_code :: string
  ri_path :: string

record ResultTransitionDetail =
  rt_issue :: "ResultIssue option"
  rt_error_code :: "string option"

record DiagnosticComponentFailedDetail =
  cf_component :: DiagnosticComponent
  cf_component_id :: run_local_id
  cf_stage :: ComponentFailureStage
  cf_error_code :: ComponentFailureErrorCode
  cf_related_event_sequence :: "u64 option"

fun valid_failure_pair :: "ComponentFailureStage \<Rightarrow> ComponentFailureErrorCode \<Rightarrow> bool" where
  "valid_failure_pair ComponentFailureStage.Enqueue
     ComponentFailureErrorCode.DeliveryQueueUnavailable = True"
| "valid_failure_pair ComponentFailureStage.Callback
     ComponentFailureErrorCode.CallbackRaised = True"
| "valid_failure_pair ComponentFailureStage.Callback
     ComponentFailureErrorCode.CallbackInvalidReturn = True"
| "valid_failure_pair _ _ = False"

definition DiagnosticComponentFailedDetail_new ::
  "run_local_id \<Rightarrow> ComponentFailureStage \<Rightarrow> ComponentFailureErrorCode \<Rightarrow> u64 option \<Rightarrow>
   detail_validation_error + DiagnosticComponentFailedDetail" where
  "DiagnosticComponentFailedDetail_new component_id stage error_code related =
     (if \<not> valid_failure_pair stage error_code
      then Inl ''component failure stage and error code do not match''
      else Inr \<lparr> cf_component = DiagnosticComponent.Sink, cf_component_id = component_id,
        cf_stage = stage, cf_error_code = error_code, cf_related_event_sequence = related \<rparr>)"

definition DiagnosticComponentFailedDetail_try_from ::
  "DiagnosticComponentFailedDetail \<Rightarrow> detail_validation_error + DiagnosticComponentFailedDetail" where
  "DiagnosticComponentFailedDetail_try_from w =
     (if cf_component w \<noteq> DiagnosticComponent.Sink then Inl ''diagnostic component must be sink''
      else DiagnosticComponentFailedDetail_new (cf_component_id w) (cf_stage w) (cf_error_code w)
             (cf_related_event_sequence w))"

datatype SpanStartDetail =
    RunLifecycle EmptyDetail
  | ProductionPathResolution ProductionPathResolutionDetail
  | ProductionLoad ProductionLoadDetail
  | ProductionConstruct ProductionConstructDetail
  | ProductionStart EmptyDetail
  | ProductionStop EmptyDetail
  | ProductionShutdown EmptyDetail
  | SceneLifecycle EmptyDetail
  | SceneDrain EmptyDetail
  | SceneCleanup EmptyDetail
  | ActorHandleLifetime ActorDetail
  | CueMailboxWait EmptyDetail
  | CueExecution EmptyDetail
  | EffectLifecycle EffectDetail
  | AgentSessionOpening AgentSessionDetail
  | AgentSessionLifecycle AgentSessionDetail
  | AgentSessionClosing AgentSessionDetail
  | ActLifecycle AgentSessionDetail
  | ActCaller EmptyDetail
  | AgentTurn AgentSessionDetail
  | AgentThinking EmptyDetail
  | ToolCall ToolCallDetail

primrec SpanStartDetail_kind :: "SpanStartDetail \<Rightarrow> SpanKind" where
  "SpanStartDetail_kind (RunLifecycle _) = SpanKind.RunLifecycle"
| "SpanStartDetail_kind (ProductionPathResolution _) = SpanKind.ProductionPathResolution"
| "SpanStartDetail_kind (ProductionLoad _) = SpanKind.ProductionLoad"
| "SpanStartDetail_kind (ProductionConstruct _) = SpanKind.ProductionConstruct"
| "SpanStartDetail_kind (ProductionStart _) = SpanKind.ProductionStart"
| "SpanStartDetail_kind (ProductionStop _) = SpanKind.ProductionStop"
| "SpanStartDetail_kind (ProductionShutdown _) = SpanKind.ProductionShutdown"
| "SpanStartDetail_kind (SceneLifecycle _) = SpanKind.SceneLifecycle"
| "SpanStartDetail_kind (SceneDrain _) = SpanKind.SceneDrain"
| "SpanStartDetail_kind (SceneCleanup _) = SpanKind.SceneCleanup"
| "SpanStartDetail_kind (ActorHandleLifetime _) = SpanKind.ActorHandleLifetime"
| "SpanStartDetail_kind (CueMailboxWait _) = SpanKind.CueMailboxWait"
| "SpanStartDetail_kind (CueExecution _) = SpanKind.CueExecution"
| "SpanStartDetail_kind (EffectLifecycle _) = SpanKind.EffectLifecycle"
| "SpanStartDetail_kind (AgentSessionOpening _) = SpanKind.AgentSessionOpening"
| "SpanStartDetail_kind (AgentSessionLifecycle _) = SpanKind.AgentSessionLifecycle"
| "SpanStartDetail_kind (AgentSessionClosing _) = SpanKind.AgentSessionClosing"
| "SpanStartDetail_kind (ActLifecycle _) = SpanKind.ActLifecycle"
| "SpanStartDetail_kind (ActCaller _) = SpanKind.ActCaller"
| "SpanStartDetail_kind (AgentTurn _) = SpanKind.AgentTurn"
| "SpanStartDetail_kind (AgentThinking _) = SpanKind.AgentThinking"
| "SpanStartDetail_kind (ToolCall _) = SpanKind.ToolCall"

datatype InstantDetail =
    ActorCast ActorDetail
  | CueAdmitted EmptyDetail
  | CueEnqueued EmptyDetail
  | CueDispatched EmptyDetail
  | CueCancelRequested EmptyDetail
  | EffectCreated EffectDetail
  | EffectReturned EffectDetail
  | EffectConsumed EffectDetail
  | AgentSessionReady AgentSessionDetail
  | AgentSessionBroken AgentSessionBrokenDetail
  | ActAdmitted EmptyDetail
  | ActWaitingReady EmptyDetail
  | ActPromptSubmitted EmptyDetail
  | ActCancelRequested EmptyDetail
  | ActSupervisorHandoff EmptyDetail
  | AgentTurnActivity EmptyDetail
  | AgentTurnTerminal AgentTurnTerminalDetail
  | AgentTurnSettled AgentTurnTerminalDetail
  | ToolUpdated ToolCallDetail
  | ResultSubmitted ResultTransitionDetail
  | ResultRejected ResultTransitionDetail
  | ResultRepairRequested ResultTransitionDetail
  | ResultAccepted ResultTransitionDetail
  | ResultMissing ResultTransitionDetail
  | DiagnosticComponentFailed DiagnosticComponentFailedDetail

primrec InstantDetail_kind :: "InstantDetail \<Rightarrow> InstantKind" where
  "InstantDetail_kind (ActorCast _) = InstantKind.ActorCast"
| "InstantDetail_kind (CueAdmitted _) = InstantKind.CueAdmitted"
| "InstantDetail_kind (CueEnqueued _) = InstantKind.CueEnqueued"
| "InstantDetail_kind (CueDispatched _) = InstantKind.CueDispatched"
| "InstantDetail_kind (CueCancelRequested _) = InstantKind.CueCancelRequested"
| "InstantDetail_kind (EffectCreated _) = InstantKind.EffectCreated"
| "InstantDetail_kind (EffectReturned _) = InstantKind.EffectReturned"
| "InstantDetail_kind (EffectConsumed _) = InstantKind.EffectConsumed"
| "InstantDetail_kind (AgentSessionReady _) = InstantKind.AgentSessionReady"
| "InstantDetail_kind (AgentSessionBroken _) = InstantKind.AgentSessionBroken"
| "InstantDetail_kind (ActAdmitted _) = InstantKind.ActAdmitted"
| "InstantDetail_kind (ActWaitingReady _) = InstantKind.ActWaitingReady"
| "InstantDetail_kind (ActPromptSubmitted _) = InstantKind.ActPromptSubmitted"
| "InstantDetail_kind (ActCancelRequested _) = InstantKind.ActCancelRequested"
| "InstantDetail_kind (ActSupervisorHandoff _) = InstantKind.ActSupervisorHandoff"
| "InstantDetail_kind (AgentTurnActivity _) = InstantKind.AgentTurnActivity"
| "InstantDetail_kind (AgentTurnTerminal _) = InstantKind.AgentTurnTerminal"
| "InstantDetail_kind (AgentTurnSettled _) = InstantKind.AgentTurnSettled"
| "InstantDetail_kind (ToolUpdated _) = InstantKind.ToolUpdated"
| "InstantDetail_kind (ResultSubmitted _) = InstantKind.ResultSubmitted"
| "InstantDetail_kind (ResultRejected _) = InstantKind.ResultRejected"
| "InstantDetail_kind (ResultRepairRequested _) = InstantKind.ResultRepairRequested"
| "InstantDetail_kind (ResultAccepted _) = InstantKind.ResultAccepted"
| "InstantDetail_kind (ResultMissing _) = InstantKind.ResultMissing"
| "InstantDetail_kind (DiagnosticComponentFailed _) = InstantKind.DiagnosticComponentFailed"

record PlanEntry =
  pe_content :: string
  pe_priority :: PlanEntryPriority
  pe_status :: PlanEntryStatus

datatype DiagnosticScalar =
  Null | Boolean bool | Integer string | Decimal string | Text string

datatype DiagnosticAttributeValue =
  Null | Boolean bool | Integer string | Decimal string | Text string | Items "DiagnosticScalar list"

datatype DiagnosticDimension =
  Boolean bool | Integer string | Decimal string | Text string

datatype CustomNumber = Integer string | Decimal string

type_synonym diagnostic_attributes = "(string \<times> DiagnosticAttributeValue) list"
type_synonym diagnostic_dimensions = "(string \<times> DiagnosticDimension) list"

subsection \<open>Bounds of custom payloads\<close>

text \<open>\<^verbatim>\<open>str::split\<close> on a character: the segments between its occurrences, at least one.\<close>

fun split_on :: "char \<Rightarrow> string \<Rightarrow> string list" where
  "split_on x [] = [[]]"
| "split_on x (c # s) =
     (if c = x then [] # split_on x s
      else case split_on x s of [] \<Rightarrow> [[c]] | seg # segs \<Rightarrow> (c # seg) # segs)"

fun valid_identifier_segment :: "string \<Rightarrow> bool" where
  "valid_identifier_segment [] = False"
| "valid_identifier_segment (c # s) =
     (is_ascii_lowercase c \<and>
      list_all (\<lambda>b. is_ascii_lowercase b \<or> is_ascii_digit b \<or> b = CHR ''_'') s)"

definition validate_custom_name :: "string \<Rightarrow> detail_validation_error + unit" where
  "validate_custom_name s =
     (if s = [] \<or> length s > MAX_CUSTOM_NAME_BYTES \<or> \<not> list_all is_ascii s
      then Inl ''custom name is out of bounds''
      else case split_on (CHR ''.'') s of
        [] \<Rightarrow> Inl ''custom name is invalid''
      | first # segments \<Rightarrow>
          if \<not> valid_identifier_segment first \<or> first = ''troupe''
          then Inl ''custom name is invalid or reserved''
          else if \<not> list_all valid_identifier_segment segments
          then Inl ''custom name is invalid''
          else if 1 + length segments < 2
          then Inl ''custom name requires at least two segments''
          else Inr ())"

definition validate_key :: "string \<Rightarrow> detail_validation_error + unit" where
  "validate_key s =
     (if s = [] \<or> length s > MAX_CUSTOM_KEY_BYTES then Inl ''custom key is out of bounds''
      else Inr ())"

fun list_too_long :: "DiagnosticAttributeValue \<Rightarrow> bool" where
  "list_too_long (Items items) = (length items > MAX_CUSTOM_LIST_ITEMS)"
| "list_too_long _ = False"

fun validate_attribute_entries :: "diagnostic_attributes \<Rightarrow> detail_validation_error + unit" where
  "validate_attribute_entries [] = Inr ()"
| "validate_attribute_entries ((key, v) # rest) =
     res_bind (validate_key key) (\<lambda>_.
       if list_too_long v then Inl ''custom scalar list is too long''
       else validate_attribute_entries rest)"

definition validate_attributes :: "diagnostic_attributes \<Rightarrow> detail_validation_error + unit" where
  "validate_attributes values =
     (if length values > MAX_CUSTOM_ATTRIBUTES then Inl ''too many custom attributes''
      else validate_attribute_entries values)"

fun validate_keys :: "string list \<Rightarrow> detail_validation_error + unit" where
  "validate_keys [] = Inr ()"
| "validate_keys (key # rest) = res_bind (validate_key key) (\<lambda>_. validate_keys rest)"

definition validate_dimensions :: "diagnostic_dimensions \<Rightarrow> detail_validation_error + unit" where
  "validate_dimensions values =
     (if length values > MAX_CUSTOM_DIMENSIONS then Inl ''too many custom dimensions''
      else validate_keys (map fst values))"

definition validate_unit :: "string option \<Rightarrow> detail_validation_error + unit" where
  "validate_unit value =
     (case value of
        None \<Rightarrow> Inr ()
      | Some unit \<Rightarrow>
          if unit = [] \<or> length unit > MAX_CUSTOM_UNIT_BYTES
          then Inl ''custom counter unit is out of bounds'' else Inr ())"

subsection \<open>Events\<close>

abbreviation EVENT_SCHEMA_VERSION :: "8 word" where "EVENT_SCHEMA_VERSION \<equiv> 1"

datatype DiagnosticEventKind =
    SpanStarted | SpanFinished | InstantOccurred | CounterSampled | AgentMessageDelta
  | AgentMessageCompleted | AgentPlanSnapshot | ContextUsageSampled | ActTokenUsageFinalized
  | ObservationGap | CustomSpanStarted | CustomSpanFinished | CustomInstantOccurred
  | CustomCounterSampled

primrec DiagnosticEventKind_as_str :: "DiagnosticEventKind \<Rightarrow> string" where
  "DiagnosticEventKind_as_str SpanStarted = ''span_started''"
| "DiagnosticEventKind_as_str SpanFinished = ''span_finished''"
| "DiagnosticEventKind_as_str InstantOccurred = ''instant_occurred''"
| "DiagnosticEventKind_as_str CounterSampled = ''counter_sampled''"
| "DiagnosticEventKind_as_str AgentMessageDelta = ''agent_message_delta''"
| "DiagnosticEventKind_as_str AgentMessageCompleted = ''agent_message_completed''"
| "DiagnosticEventKind_as_str AgentPlanSnapshot = ''agent_plan_snapshot''"
| "DiagnosticEventKind_as_str ContextUsageSampled = ''context_usage_sampled''"
| "DiagnosticEventKind_as_str ActTokenUsageFinalized = ''act_token_usage_finalized''"
| "DiagnosticEventKind_as_str ObservationGap = ''observation_gap''"
| "DiagnosticEventKind_as_str CustomSpanStarted = ''custom_span_started''"
| "DiagnosticEventKind_as_str CustomSpanFinished = ''custom_span_finished''"
| "DiagnosticEventKind_as_str CustomInstantOccurred = ''custom_instant_occurred''"
| "DiagnosticEventKind_as_str CustomCounterSampled = ''custom_counter_sampled''"

record DiagnosticScope =
  sc_scene_id :: "run_local_id option"
  sc_actor_id :: "run_local_id option"
  sc_cue_id :: "run_local_id option"
  sc_effect_id :: "run_local_id option"
  sc_act_id :: "run_local_id option"
  sc_tool_call_id :: "run_local_id option"
  sc_session_generation :: "u64 option"

record CausalLink =
  cl_source_sequence :: u64
  cl_relation :: CausalRelation

record DiagnosticEventHeader =
  hdr_schema_version :: "8 word"
  hdr_run_id :: canonical_uuid
  hdr_sequence :: u64
  hdr_elapsed_ns :: elapsed_ns
  hdr_scope :: DiagnosticScope
  hdr_caused_by :: "CausalLink list"

definition DiagnosticEventHeader_new ::
  "canonical_uuid \<Rightarrow> u64 \<Rightarrow> elapsed_ns \<Rightarrow> DiagnosticScope \<Rightarrow> CausalLink list \<Rightarrow>
   event_validation_error + DiagnosticEventHeader" where
  "DiagnosticEventHeader_new run_id sequence elapsed scope caused_by =
     (if sequence = 0 then Inl ''diagnostic event sequence must start at one''
      else Inr \<lparr> hdr_schema_version = EVENT_SCHEMA_VERSION, hdr_run_id = run_id,
        hdr_sequence = sequence, hdr_elapsed_ns = elapsed, hdr_scope = scope,
        hdr_caused_by = caused_by \<rparr>)"

text \<open>The wire struct of a header has the same fields as the header.\<close>

definition DiagnosticEventHeader_try_from ::
  "DiagnosticEventHeader \<Rightarrow> event_validation_error + DiagnosticEventHeader" where
  "DiagnosticEventHeader_try_from w =
     (if hdr_schema_version w \<noteq> EVENT_SCHEMA_VERSION
      then Inl ''unsupported diagnostic event schema version''
      else DiagnosticEventHeader_new (hdr_run_id w) (hdr_sequence w) (hdr_elapsed_ns w)
             (hdr_scope w) (hdr_caused_by w))"

text \<open>\<^verbatim>\<open>From<DetailValidationError> for EventValidationError\<close> forgets the message.\<close>

definition EventValidationError_from :: "detail_validation_error \<Rightarrow> event_validation_error" where
  "EventValidationError_from e = ''custom diagnostic payload is invalid''"

record SpanStarted =
  ss_header :: DiagnosticEventHeader
  ss_detail :: SpanStartDetail
  ss_parent_span_id :: "u64 option"

record SpanFinished =
  sf_header :: DiagnosticEventHeader
  sf_span_id :: u64
  sf_outcome :: SpanOutcome
  sf_error_code :: "string option"

record InstantOccurred =
  io_header :: DiagnosticEventHeader
  io_detail :: InstantDetail
  io_containing_span_id :: "u64 option"

record CounterSampled =
  cs_header :: DiagnosticEventHeader
  cs_counter_kind :: CounterKind
  cs_value :: u64

record AgentMessageDelta =
  amd_header :: DiagnosticEventHeader
  amd_message_id :: run_local_id
  amd_source_message_id :: "string option"
  amd_text_delta :: string

record AgentMessageCompleted =
  amc_header :: DiagnosticEventHeader
  amc_message_id :: run_local_id
  amc_utf8_bytes :: u64
  amc_unicode_scalar_count :: u64
  amc_truncated :: bool

record AgentPlanSnapshot =
  aps_header :: DiagnosticEventHeader
  aps_entries :: "PlanEntry list"
  aps_truncated :: bool

record ContextUsageSampled =
  cus_header :: DiagnosticEventHeader
  cus_context_used_tokens :: "u64 option"
  cus_context_window_tokens :: "u64 option"
  cus_cumulative_cost_amount :: "string option"
  cus_cumulative_cost_currency :: "string option"
  cus_sample_origin :: ContextSampleOrigin
  cus_observed_elapsed_ns :: "elapsed_ns option"

definition starts_with_minus :: "string \<Rightarrow> bool" where
  "starts_with_minus s \<longleftrightarrow> s \<noteq> [] \<and> hd s = CHR ''-''"

definition ContextUsageSampled_new ::
  "DiagnosticEventHeader \<Rightarrow> u64 option \<Rightarrow> u64 option \<Rightarrow> string option \<Rightarrow> string option \<Rightarrow>
   ContextSampleOrigin \<Rightarrow> elapsed_ns option \<Rightarrow> event_validation_error + ContextUsageSampled" where
  "ContextUsageSampled_new header used window amount currency origin observed =
     (if (amount \<noteq> None) \<noteq> (currency \<noteq> None)
      then Inl ''cumulative cost amount and currency must appear together''
      else if (case amount of None \<Rightarrow> False | Some a \<Rightarrow> starts_with_minus a)
      then Inl ''cumulative cost amount must be nonnegative''
      else if (case (used, window) of (Some u, Some w) \<Rightarrow> u > w | _ \<Rightarrow> False)
      then Inl ''context used tokens exceed the context window''
      else if origin = ContextSampleOrigin.CarriedForward \<and> observed = None
      then Inl ''carried-forward context usage requires its observation time''
      else Inr \<lparr> cus_header = header, cus_context_used_tokens = used,
        cus_context_window_tokens = window, cus_cumulative_cost_amount = amount,
        cus_cumulative_cost_currency = currency, cus_sample_origin = origin,
        cus_observed_elapsed_ns = observed \<rparr>)"

record ActTokenUsageFinalized =
  atu_header :: DiagnosticEventHeader
  atu_availability :: UsageAvailability
  atu_source :: "UsageSource option"
  atu_unavailable_reason :: "UsageUnavailableReason option"
  atu_provider_total_tokens :: "string option"
  atu_input_tokens :: "string option"
  atu_output_tokens :: "string option"
  atu_thought_tokens :: "string option"
  atu_cached_read_tokens :: "string option"
  atu_cached_write_tokens :: "string option"

definition ActTokenUsageFinalized_new ::
  "DiagnosticEventHeader \<Rightarrow> UsageAvailability \<Rightarrow> UsageSource option \<Rightarrow>
   UsageUnavailableReason option \<Rightarrow> string option \<Rightarrow> string option \<Rightarrow> string option \<Rightarrow>
   string option \<Rightarrow> string option \<Rightarrow> string option \<Rightarrow>
   event_validation_error + ActTokenUsageFinalized" where
  "ActTokenUsageFinalized_new header availability source reason provider_total input out_tokens thought
     cached_read cached_write =
     (let primary_complete = (provider_total \<noteq> None \<and> input \<noteq> None \<and> out_tokens \<noteq> None);
          any_value = (provider_total \<noteq> None \<or> input \<noteq> None \<or> out_tokens \<noteq> None \<or> thought \<noteq> None \<or>
            cached_read \<noteq> None \<or> cached_write \<noteq> None);
          state_is_valid =
            (case availability of
               UsageAvailability.Available \<Rightarrow>
                 primary_complete \<and> source = Some UsageSource.AcpPromptResponseUsage \<and> reason = None
             | UsageAvailability.Partial \<Rightarrow>
                 any_value \<and> \<not> primary_complete \<and>
                 source = Some UsageSource.AcpPromptResponseUsage \<and> reason = None
             | UsageAvailability.Unavailable \<Rightarrow>
                 \<not> any_value \<and> source = None \<and> reason \<noteq> None)
      in if \<not> state_is_valid then Inl ''terminal usage availability fields are inconsistent''
         else Inr \<lparr> atu_header = header, atu_availability = availability, atu_source = source,
           atu_unavailable_reason = reason, atu_provider_total_tokens = provider_total,
           atu_input_tokens = input, atu_output_tokens = out_tokens, atu_thought_tokens = thought,
           atu_cached_read_tokens = cached_read, atu_cached_write_tokens = cached_write \<rparr>)"

record AffectedElapsedInterval =
  aei_start_ns :: elapsed_ns
  aei_end_ns :: elapsed_ns

record ObservationGap =
  og_header :: DiagnosticEventHeader
  og_producer :: string
  og_component :: "string option"
  og_reason :: string
  og_dropped_count :: "u64 option"
  og_affected_elapsed :: "AffectedElapsedInterval option"
  og_affected_kind :: "DiagnosticEventKind option"
  og_affected_scope :: "DiagnosticScope option"

record CustomSpanStarted =
  css_header :: DiagnosticEventHeader
  css_name :: string
  css_parent_span_id :: "u64 option"
  css_attributes :: diagnostic_attributes

definition CustomSpanStarted_validate_fields ::
  "string \<Rightarrow> diagnostic_attributes \<Rightarrow> event_validation_error + unit" where
  "CustomSpanStarted_validate_fields name attributes =
     res_bind (map_err EventValidationError_from (validate_custom_name name)) (\<lambda>_.
       map_err EventValidationError_from (validate_attributes attributes))"

definition CustomSpanStarted_new ::
  "DiagnosticEventHeader \<Rightarrow> string \<Rightarrow> u64 option \<Rightarrow> diagnostic_attributes \<Rightarrow>
   event_validation_error + CustomSpanStarted" where
  "CustomSpanStarted_new header name parent attributes =
     res_bind (CustomSpanStarted_validate_fields name attributes) (\<lambda>_.
       Inr \<lparr> css_header = header, css_name = name, css_parent_span_id = parent,
         css_attributes = attributes \<rparr>)"

record CustomSpanFinished =
  csf_header :: DiagnosticEventHeader
  csf_span_id :: u64
  csf_outcome :: SpanOutcome

record CustomInstantOccurred =
  cio_header :: DiagnosticEventHeader
  cio_name :: string
  cio_containing_span_id :: "u64 option"
  cio_severity :: "CustomSeverity option"
  cio_attributes :: diagnostic_attributes

definition CustomInstantOccurred_validate_fields ::
  "string \<Rightarrow> diagnostic_attributes \<Rightarrow> event_validation_error + unit" where
  "CustomInstantOccurred_validate_fields name attributes =
     res_bind (map_err EventValidationError_from (validate_custom_name name)) (\<lambda>_.
       map_err EventValidationError_from (validate_attributes attributes))"

definition CustomInstantOccurred_new ::
  "DiagnosticEventHeader \<Rightarrow> string \<Rightarrow> u64 option \<Rightarrow> CustomSeverity option \<Rightarrow>
   diagnostic_attributes \<Rightarrow> event_validation_error + CustomInstantOccurred" where
  "CustomInstantOccurred_new header name containing severity attributes =
     res_bind (CustomInstantOccurred_validate_fields name attributes) (\<lambda>_.
       Inr \<lparr> cio_header = header, cio_name = name, cio_containing_span_id = containing,
         cio_severity = severity, cio_attributes = attributes \<rparr>)"

record CustomCounterSampled =
  ccs_header :: DiagnosticEventHeader
  ccs_name :: string
  ccs_value :: CustomNumber
  ccs_unit :: "string option"
  ccs_dimensions :: diagnostic_dimensions

definition CustomCounterSampled_validate_fields ::
  "string \<Rightarrow> string option \<Rightarrow> diagnostic_dimensions \<Rightarrow> event_validation_error + unit" where
  "CustomCounterSampled_validate_fields name unit dimensions =
     res_bind (map_err EventValidationError_from (validate_custom_name name)) (\<lambda>_.
       res_bind (map_err EventValidationError_from (validate_unit unit)) (\<lambda>_.
         map_err EventValidationError_from (validate_dimensions dimensions)))"

definition CustomCounterSampled_new ::
  "DiagnosticEventHeader \<Rightarrow> string \<Rightarrow> CustomNumber \<Rightarrow> string option \<Rightarrow> diagnostic_dimensions \<Rightarrow>
   event_validation_error + CustomCounterSampled" where
  "CustomCounterSampled_new header name value unit dimensions =
     res_bind (CustomCounterSampled_validate_fields name unit dimensions) (\<lambda>_.
       Inr \<lparr> ccs_header = header, ccs_name = name, ccs_value = value, ccs_unit = unit,
         ccs_dimensions = dimensions \<rparr>)"

datatype DiagnosticEvent =
    SpanStarted SpanStarted
  | SpanFinished SpanFinished
  | InstantOccurred InstantOccurred
  | CounterSampled CounterSampled
  | AgentMessageDelta AgentMessageDelta
  | AgentMessageCompleted AgentMessageCompleted
  | AgentPlanSnapshot AgentPlanSnapshot
  | ContextUsageSampled ContextUsageSampled
  | ActTokenUsageFinalized ActTokenUsageFinalized
  | ObservationGap ObservationGap
  | CustomSpanStarted CustomSpanStarted
  | CustomSpanFinished CustomSpanFinished
  | CustomInstantOccurred CustomInstantOccurred
  | CustomCounterSampled CustomCounterSampled

primrec DiagnosticEvent_kind :: "DiagnosticEvent \<Rightarrow> DiagnosticEventKind" where
  "DiagnosticEvent_kind (SpanStarted _) = DiagnosticEventKind.SpanStarted"
| "DiagnosticEvent_kind (SpanFinished _) = DiagnosticEventKind.SpanFinished"
| "DiagnosticEvent_kind (InstantOccurred _) = DiagnosticEventKind.InstantOccurred"
| "DiagnosticEvent_kind (CounterSampled _) = DiagnosticEventKind.CounterSampled"
| "DiagnosticEvent_kind (AgentMessageDelta _) = DiagnosticEventKind.AgentMessageDelta"
| "DiagnosticEvent_kind (AgentMessageCompleted _) = DiagnosticEventKind.AgentMessageCompleted"
| "DiagnosticEvent_kind (AgentPlanSnapshot _) = DiagnosticEventKind.AgentPlanSnapshot"
| "DiagnosticEvent_kind (ContextUsageSampled _) = DiagnosticEventKind.ContextUsageSampled"
| "DiagnosticEvent_kind (ActTokenUsageFinalized _) = DiagnosticEventKind.ActTokenUsageFinalized"
| "DiagnosticEvent_kind (ObservationGap _) = DiagnosticEventKind.ObservationGap"
| "DiagnosticEvent_kind (CustomSpanStarted _) = DiagnosticEventKind.CustomSpanStarted"
| "DiagnosticEvent_kind (CustomSpanFinished _) = DiagnosticEventKind.CustomSpanFinished"
| "DiagnosticEvent_kind (CustomInstantOccurred _) = DiagnosticEventKind.CustomInstantOccurred"
| "DiagnosticEvent_kind (CustomCounterSampled _) = DiagnosticEventKind.CustomCounterSampled"

primrec DiagnosticEvent_header :: "DiagnosticEvent \<Rightarrow> DiagnosticEventHeader" where
  "DiagnosticEvent_header (SpanStarted v) = ss_header v"
| "DiagnosticEvent_header (SpanFinished v) = sf_header v"
| "DiagnosticEvent_header (InstantOccurred v) = io_header v"
| "DiagnosticEvent_header (CounterSampled v) = cs_header v"
| "DiagnosticEvent_header (AgentMessageDelta v) = amd_header v"
| "DiagnosticEvent_header (AgentMessageCompleted v) = amc_header v"
| "DiagnosticEvent_header (AgentPlanSnapshot v) = aps_header v"
| "DiagnosticEvent_header (ContextUsageSampled v) = cus_header v"
| "DiagnosticEvent_header (ActTokenUsageFinalized v) = atu_header v"
| "DiagnosticEvent_header (ObservationGap v) = og_header v"
| "DiagnosticEvent_header (CustomSpanStarted v) = css_header v"
| "DiagnosticEvent_header (CustomSpanFinished v) = csf_header v"
| "DiagnosticEvent_header (CustomInstantOccurred v) = cio_header v"
| "DiagnosticEvent_header (CustomCounterSampled v) = ccs_header v"

text \<open>The event's header fields the stream and the store read.\<close>

abbreviation event_sequence :: "DiagnosticEvent \<Rightarrow> u64" where
  "event_sequence e \<equiv> hdr_sequence (DiagnosticEvent_header e)"

abbreviation event_run_id :: "DiagnosticEvent \<Rightarrow> canonical_uuid" where
  "event_run_id e \<equiv> hdr_run_id (DiagnosticEvent_header e)"

abbreviation event_elapsed :: "DiagnosticEvent \<Rightarrow> elapsed_ns" where
  "event_elapsed e \<equiv> hdr_elapsed_ns (DiagnosticEvent_header e)"

end
