(* ===== verification/Event_Rules.thy ===== *)
theory Event_Rules
  imports Events
begin

section \<open>What an event may contain\<close>

text \<open>
  The field check of \<^verbatim>\<open>event.rs\<close> (\<^verbatim>\<open>validate_event_fields\<close>), which a deserialised event
  passes first, and the rules of the checked constructors: the grammar of custom names, the
  terminal token usage of an act, the sign of a cumulative cost.
\<close>

subsection \<open>Fields of the wire form\<close>

text \<open>\<^verbatim>\<open>serde_json::Value\<close>; a number is kept as its text, an object as its entries.\<close>

datatype json = JNull | JBool bool | JNumber string | JString string | JArray "json list"
  | JObject "(string \<times> json) list"

fun as_object :: "json \<Rightarrow> (string \<times> json) list option" where
  "as_object (JObject kvs) = Some kvs"
| "as_object _ = None"

fun as_str :: "json \<Rightarrow> string option" where
  "as_str (JString s) = Some s"
| "as_str _ = None"

definition COMMON_FIELDS :: "string list" where
  "COMMON_FIELDS =
     [''schema_version'', ''run_id'', ''sequence'', ''elapsed_ns'', ''scope'', ''caused_by'', ''kind'']"

definition payload_fields :: "string \<Rightarrow> string list option" where
  "payload_fields kind =
     (if kind = ''span_started'' then Some [''span_kind'', ''parent_span_id'', ''detail'']
      else if kind = ''span_finished'' then Some [''span_id'', ''outcome'', ''error_code'']
      else if kind = ''instant_occurred''
        then Some [''instant_kind'', ''containing_span_id'', ''detail'']
      else if kind = ''counter_sampled'' then Some [''counter_kind'', ''value'']
      else if kind = ''agent_message_delta''
        then Some [''message_id'', ''source_message_id'', ''text_delta'']
      else if kind = ''agent_message_completed''
        then Some [''message_id'', ''utf8_bytes'', ''unicode_scalar_count'', ''truncated'']
      else if kind = ''agent_plan_snapshot'' then Some [''entries'', ''truncated'']
      else if kind = ''context_usage_sampled''
        then Some [''context_used_tokens'', ''context_window_tokens'', ''cumulative_cost_amount'',
          ''cumulative_cost_currency'', ''sample_origin'', ''observed_elapsed_ns'']
      else if kind = ''act_token_usage_finalized''
        then Some [''availability'', ''source'', ''unavailable_reason'', ''provider_total_tokens'',
          ''input_tokens'', ''output_tokens'', ''thought_tokens'', ''cached_read_tokens'',
          ''cached_write_tokens'']
      else if kind = ''observation_gap''
        then Some [''producer'', ''component'', ''reason'', ''dropped_count'', ''affected_elapsed'',
          ''affected_kind'', ''affected_scope'']
      else if kind = ''custom_span_started'' then Some [''name'', ''parent_span_id'', ''attributes'']
      else if kind = ''custom_span_finished'' then Some [''span_id'', ''outcome'']
      else if kind = ''custom_instant_occurred''
        then Some [''name'', ''containing_span_id'', ''severity'', ''attributes'']
      else if kind = ''custom_counter_sampled''
        then Some [''name'', ''value'', ''unit'', ''dimensions'']
      else None)"

definition validate_event_fields :: "json \<Rightarrow> event_validation_error + unit" where
  "validate_event_fields value =
     res_bind (ok_or ''diagnostic event must be a JSON object'' (as_object value)) (\<lambda>object.
     res_bind (ok_or ''diagnostic event kind must be a string''
                (Option.bind (map_of object ''kind'') as_str)) (\<lambda>kind.
     res_bind (ok_or ''unknown diagnostic event kind'' (payload_fields kind)) (\<lambda>payload.
       if list_ex (\<lambda>key. key \<notin> set COMMON_FIELDS \<and> key \<notin> set payload) (map fst object)
       then Inl ''diagnostic event contains an unknown field'' else Inr ())))"

text \<open>
  The members the derived serialiser writes for an event of each kind: the flattened header,
  the tag \<^verbatim>\<open>kind\<close>, the struct's own fields, and for a tagged detail its tag and content.
\<close>

definition header_members :: "string list" where
  "header_members =
     [''schema_version'', ''run_id'', ''sequence'', ''elapsed_ns'', ''scope'', ''caused_by'']"

primrec own_members :: "DiagnosticEventKind \<Rightarrow> string list" where
  "own_members DiagnosticEventKind.SpanStarted = [''span_kind'', ''detail'', ''parent_span_id'']"
| "own_members DiagnosticEventKind.SpanFinished = [''span_id'', ''outcome'', ''error_code'']"
| "own_members DiagnosticEventKind.InstantOccurred =
     [''instant_kind'', ''detail'', ''containing_span_id'']"
| "own_members DiagnosticEventKind.CounterSampled = [''counter_kind'', ''value'']"
| "own_members DiagnosticEventKind.AgentMessageDelta =
     [''message_id'', ''source_message_id'', ''text_delta'']"
| "own_members DiagnosticEventKind.AgentMessageCompleted =
     [''message_id'', ''utf8_bytes'', ''unicode_scalar_count'', ''truncated'']"
| "own_members DiagnosticEventKind.AgentPlanSnapshot = [''entries'', ''truncated'']"
| "own_members DiagnosticEventKind.ContextUsageSampled =
     [''context_used_tokens'', ''context_window_tokens'', ''cumulative_cost_amount'',
      ''cumulative_cost_currency'', ''sample_origin'', ''observed_elapsed_ns'']"
| "own_members DiagnosticEventKind.ActTokenUsageFinalized =
     [''availability'', ''source'', ''unavailable_reason'', ''provider_total_tokens'',
      ''input_tokens'', ''output_tokens'', ''thought_tokens'', ''cached_read_tokens'',
      ''cached_write_tokens'']"
| "own_members DiagnosticEventKind.ObservationGap =
     [''producer'', ''component'', ''reason'', ''dropped_count'', ''affected_elapsed'',
      ''affected_kind'', ''affected_scope'']"
| "own_members DiagnosticEventKind.CustomSpanStarted = [''name'', ''parent_span_id'', ''attributes'']"
| "own_members DiagnosticEventKind.CustomSpanFinished = [''span_id'', ''outcome'']"
| "own_members DiagnosticEventKind.CustomInstantOccurred =
     [''name'', ''containing_span_id'', ''severity'', ''attributes'']"
| "own_members DiagnosticEventKind.CustomCounterSampled =
     [''name'', ''value'', ''unit'', ''dimensions'']"

definition wire_members :: "DiagnosticEventKind \<Rightarrow> string list" where
  "wire_members k = ''kind'' # header_members @ own_members k"

lemma payload_fields_members:
  "set COMMON_FIELDS \<union> set (the (payload_fields (DiagnosticEventKind_as_str k))) = set (wire_members k)"
  by (cases k)
     (simp_all add: payload_fields_def wire_members_def header_members_def COMMON_FIELDS_def insert_commute)

lemma payload_fields_kind: "payload_fields (DiagnosticEventKind_as_str k) = Some p \<Longrightarrow>
    set COMMON_FIELDS \<union> set p = set (wire_members k)"
  using payload_fields_members [of k] by simp

lemma payload_fields_total: "payload_fields (DiagnosticEventKind_as_str k) \<noteq> None"
  by (cases k) (simp_all add: payload_fields_def)

lemma payload_fields_unknown:
  assumes "\<And>k. s \<noteq> DiagnosticEventKind_as_str k"
  shows "payload_fields s = None"
  using assms [of DiagnosticEventKind.SpanStarted]
    assms [of DiagnosticEventKind.SpanFinished]
    assms [of DiagnosticEventKind.InstantOccurred]
    assms [of DiagnosticEventKind.CounterSampled]
    assms [of DiagnosticEventKind.AgentMessageDelta]
    assms [of DiagnosticEventKind.AgentMessageCompleted]
    assms [of DiagnosticEventKind.AgentPlanSnapshot]
    assms [of DiagnosticEventKind.ContextUsageSampled]
    assms [of DiagnosticEventKind.ActTokenUsageFinalized]
    assms [of DiagnosticEventKind.ObservationGap]
    assms [of DiagnosticEventKind.CustomSpanStarted]
    assms [of DiagnosticEventKind.CustomSpanFinished]
    assms [of DiagnosticEventKind.CustomInstantOccurred]
    assms [of DiagnosticEventKind.CustomCounterSampled]
  by (simp add: payload_fields_def)

lemma payload_fields_kind_only: "payload_fields s = Some p \<Longrightarrow> \<exists>k. s = DiagnosticEventKind_as_str k"
  using payload_fields_unknown [of s] by fastforce

lemma payload_fields_cover:
  "(\<exists>p. payload_fields s = Some p \<and> K \<subseteq> set COMMON_FIELDS \<union> set p) \<longleftrightarrow>
   (\<exists>k. s = DiagnosticEventKind_as_str k \<and> K \<subseteq> set (wire_members k))"
proof
  assume "\<exists>p. payload_fields s = Some p \<and> K \<subseteq> set COMMON_FIELDS \<union> set p"
  then obtain p where p: "payload_fields s = Some p" "K \<subseteq> set COMMON_FIELDS \<union> set p" by blast
  from payload_fields_kind_only [OF p(1)] obtain k where k: "s = DiagnosticEventKind_as_str k" ..
  with p payload_fields_kind [of k p]
  show "\<exists>k. s = DiagnosticEventKind_as_str k \<and> K \<subseteq> set (wire_members k)" by auto
next
  assume "\<exists>k. s = DiagnosticEventKind_as_str k \<and> K \<subseteq> set (wire_members k)"
  then obtain k where k: "s = DiagnosticEventKind_as_str k" "K \<subseteq> set (wire_members k)" by blast
  obtain p where "payload_fields s = Some p" using payload_fields_total [of k] k(1) by auto
  with k payload_fields_kind [of k p]
  show "\<exists>p. payload_fields s = Some p \<and> K \<subseteq> set COMMON_FIELDS \<union> set p" by auto
qed

subsection \<open>Custom names\<close>

fun join_segments :: "char \<Rightarrow> string list \<Rightarrow> string" where
  "join_segments x [] = []"
| "join_segments x [s] = s"
| "join_segments x (s # t # r) = s @ x # join_segments x (t # r)"

lemma split_on_nonempty [simp]: "split_on x s \<noteq> []"
  by (cases s) (auto split: list.split)

lemma join_cons_char:
  "segs \<noteq> [] \<Longrightarrow> join_segments x ((c # hd segs) # tl segs) = c # join_segments x segs"
  by (cases segs; cases "tl segs") auto

lemma join_split_on: "join_segments x (split_on x s) = s"
proof (induction s)
  case Nil
  then show ?case by simp
next
  case (Cons c s)
  obtain seg segs where sp: "split_on x s = seg # segs"
    by (cases "split_on x s") auto
  with Cons join_cons_char [of "split_on x s" x c] show ?case by auto
qed

lemma split_on_segments: "seg \<in> set (split_on x s) \<Longrightarrow> x \<notin> set seg"
proof (induction s arbitrary: seg)
  case Nil
  then show ?case by simp
next
  case (Cons c s)
  then show ?case by (auto split: if_splits list.splits)
qed

lemma split_on_plain: "x \<notin> set s \<Longrightarrow> split_on x s = [s]"
  by (induction s) auto

lemma split_on_append: "x \<notin> set s \<Longrightarrow> split_on x (s @ x # r) = s # split_on x r"
  by (induction s) auto

lemma split_on_join:
  "segs \<noteq> [] \<Longrightarrow> \<forall>seg \<in> set segs. x \<notin> set seg \<Longrightarrow> split_on x (join_segments x segs) = segs"
  by (induction x segs rule: join_segments.induct) (auto simp: split_on_plain split_on_append)

lemma valid_segment_char:
  "valid_identifier_segment s \<Longrightarrow> c \<in> set s \<Longrightarrow>
   is_ascii_lowercase c \<or> is_ascii_digit c \<or> c = CHR ''_''"
  by (cases s) (auto simp: list_all_iff)

lemma valid_segment_chars:
  assumes "valid_identifier_segment s"
  shows "CHR ''.'' \<notin> set s" "list_all is_ascii s" "s \<noteq> []"
proof -
  show "CHR ''.'' \<notin> set s"
    using valid_segment_char [OF assms, of "CHR ''.''"] by (auto simp: is_ascii_lowercase_def)
  show "list_all is_ascii s"
    using valid_segment_char [OF assms]
    by (fastforce simp: list_all_iff is_ascii_def is_ascii_lowercase_def is_ascii_digit_def)
  show "s \<noteq> []" using assms by auto
qed

lemma join_segments_ascii:
  "\<forall>seg \<in> set segs. list_all is_ascii seg \<Longrightarrow> list_all is_ascii (join_segments (CHR ''.'') segs)"
  by (induction "CHR ''.''" segs rule: join_segments.induct) auto

lemma join_segments_Nil: "join_segments x segs = [] \<longleftrightarrow> segs = [] \<or> segs = [[]]"
  by (induction x segs rule: join_segments.induct) auto

subsection \<open>The sign of a cost\<close>

lemma render_minus_iff:
  assumes "c \<noteq> []" "list_all is_ascii_digit c"
  shows "starts_with_minus (render_decimal neg c s) \<longleftrightarrow> neg"
  using assms digits_hd_not_sign [OF assms(2,1)]
  by (auto simp: starts_with_minus_def render_decimal_def Let_def hd_append)

lemma normal_text_minus_iff:
  assumes "normal_text t q"
  shows "starts_with_minus t \<longleftrightarrow> q < 0"
  using assms unfolding normal_text_def
proof
  assume "q = 0 \<and> t = ''0''"
  then show ?thesis by (simp add: starts_with_minus_def)
next
  assume "\<exists>neg c k. t = render_decimal neg c (int k) \<and> q = scaled_value neg c (int k) \<and>
        c \<noteq> [] \<and> list_all is_ascii_digit c \<and> hd c \<noteq> CHR ''0'' \<and> (k = 0 \<or> last c \<noteq> CHR ''0'')"
  then show ?thesis
    using render_minus_iff scaled_value_sign dec_value_pos by blast
qed

subsection \<open>Properties\<close>

text \<open>
  \<open>validate_custom_name\<close> accepts exactly the dotted names of at least two segments and at most
  128 bytes whose segments are identifiers (a lower-case letter, then lower-case letters,
  digits or underscores) and whose first segment is not the reserved \<^verbatim>\<open>troupe\<close>.
\<close>

theorem custom_name_grammar:
  "validate_custom_name s = Inr () \<longleftrightarrow>
     length s \<le> MAX_CUSTOM_NAME_BYTES \<and>
     (\<exists>segs. s = join_segments (CHR ''.'') segs \<and> length segs \<ge> 2 \<and>
        list_all valid_identifier_segment segs \<and> hd segs \<noteq> ''troupe'')"
proof
  assume L: "validate_custom_name s = Inr ()"
  then obtain first rest where sp: "split_on (CHR ''.'') s = first # rest"
      "valid_identifier_segment first" "first \<noteq> ''troupe''" "list_all valid_identifier_segment rest"
      "rest \<noteq> []" "length s \<le> MAX_CUSTOM_NAME_BYTES"
    by (auto simp: validate_custom_name_def split: if_splits list.splits)
  moreover have "s = join_segments (CHR ''.'') (first # rest)"
    using sp(1) join_split_on [of "CHR ''.''" s] by simp
  ultimately show "length s \<le> MAX_CUSTOM_NAME_BYTES \<and>
      (\<exists>segs. s = join_segments (CHR ''.'') segs \<and> length segs \<ge> 2 \<and>
        list_all valid_identifier_segment segs \<and> hd segs \<noteq> ''troupe'')"
    by (intro conjI exI [of _ "first # rest"]) (auto simp: Suc_le_eq)
next
  assume "length s \<le> MAX_CUSTOM_NAME_BYTES \<and>
     (\<exists>segs. s = join_segments (CHR ''.'') segs \<and> length segs \<ge> 2 \<and>
        list_all valid_identifier_segment segs \<and> hd segs \<noteq> ''troupe'')"
  then obtain segs where l: "length s \<le> MAX_CUSTOM_NAME_BYTES"
      and s: "s = join_segments (CHR ''.'') segs" and n: "length segs \<ge> 2"
      and v: "list_all valid_identifier_segment segs" "hd segs \<noteq> ''troupe''" by blast
  have "split_on (CHR ''.'') s = segs"
    unfolding s using n v valid_segment_chars(1)
    by (intro split_on_join) (auto simp: list_all_iff)
  moreover have "list_all is_ascii s"
    unfolding s using v valid_segment_chars(2) by (intro join_segments_ascii) (auto simp: list_all_iff)
  moreover have "s \<noteq> []" unfolding s join_segments_Nil using n by auto
  moreover obtain a b r where "segs = a # b # r"
    using n by (cases segs; cases "tl segs") auto
  ultimately show "validate_custom_name s = Inr ()"
    using l v by (simp add: validate_custom_name_def)
qed


text \<open>
  The terminal token usage of an act has a single availability for each combination of
  fields: \<^verbatim>\<open>Available\<close> exactly when total, input and output are all reported, \<^verbatim>\<open>Partial\<close> when some
  count is, \<^verbatim>\<open>Unavailable\<close> when none is; a source accompanies the first two and a reason the
  last, and the constructor stores its arguments unchanged.
\<close>

theorem token_usage_availability:
  "ActTokenUsageFinalized_new h a src reason provider_total inp out thought cread cwrite = Inr ev \<longleftrightarrow>
     a = (if provider_total \<noteq> None \<and> inp \<noteq> None \<and> out \<noteq> None then UsageAvailability.Available
          else if \<exists>v \<in> {provider_total, inp, out, thought, cread, cwrite}. v \<noteq> None
          then UsageAvailability.Partial else UsageAvailability.Unavailable) \<and>
     (src = None \<longleftrightarrow> a = UsageAvailability.Unavailable) \<and>
     (reason \<noteq> None \<longleftrightarrow> a = UsageAvailability.Unavailable) \<and>
     ev = \<lparr> atu_header = h, atu_availability = a, atu_source = src, atu_unavailable_reason = reason,
       atu_provider_total_tokens = provider_total, atu_input_tokens = inp, atu_output_tokens = out,
       atu_thought_tokens = thought, atu_cached_read_tokens = cread,
       atu_cached_write_tokens = cwrite \<rparr>"
proof -
  have src: "src = Some UsageSource.AcpPromptResponseUsage \<longleftrightarrow> src \<noteq> None"
    by (cases src) (auto intro: UsageSource.exhaust)
  show ?thesis
    by (cases a; simp add: ActTokenUsageFinalized_new_def Let_def src; blast)
qed

text \<open>
  The check that a cumulative cost is not negative looks only at the first character of
  the text, and this is exact because the text is normalised: for a cost read by
  \<open>DecimalString_parse\<close>, the constructor reports a negative cost exactly when the number the
  text denotes is below zero (a negative zero is no exception).
\<close>

theorem negative_cost_rejected:
  assumes "DecimalString_parse s = Inr amount" "decimal_denotes s q"
  shows "ContextUsageSampled_new h used window (Some amount) (Some currency) origin observed
      = Inl ''cumulative cost amount must be nonnegative'' \<longleftrightarrow> q < 0"
proof -
  from assms(1) obtain r where r: "decimal_denotes s r" "normal_text amount r"
    unfolding DecimalString_parse_def by (rule normalize_decimal_normal)
  then have "starts_with_minus amount \<longleftrightarrow> q < 0"
    using normal_text_minus_iff decimal_denotes_unique [OF assms(2)] by blast
  then show ?thesis by (simp add: ContextUsageSampled_new_def)
qed

theorem negative_cost_rejected_witness:
  "DecimalString_parse ''-0.0'' = Inr ''0'' \<and> decimal_denotes ''-0.0'' 0 \<and>
   (\<forall>h. ContextUsageSampled_new h None None (Some ''0'') (Some ''USD'') ContextSampleOrigin.Provider None
      \<noteq> Inl ''cumulative cost amount must be nonnegative'')"
proof -
  have p: "DecimalString_parse ''-0.0'' = Inr ''0''"
    by (simp add: DecimalString_parse_def decimal_compute)
  have "decimal_denotes ''-0.0'' (parts_value True ''0'' ''0'' 0)"
    by (rule scan_denotes) (simp add: decimal_compute)
  then have d: "decimal_denotes ''-0.0'' 0"
    by (simp add: parts_value_def dec_value_def digit_value_def)
  show ?thesis
    using p d
      negative_cost_rejected [OF p d, of _ None None "''USD''" ContextSampleOrigin.Provider None]
    by simp
qed

end
