(* ===== verification/Validator_Spec.thy ===== *)
theory Validator_Spec
  imports Validator
begin

section \<open>Reference validation: specification\<close>

text \<open>
  What an admissible continuation of a history of events is, without reference to the state
  of the validator, and the proof that the validator accepts exactly the admissible
  continuations. The relation \<open>tracks\<close> says what the validator's state knows of the history.
\<close>

subsection \<open>Histories\<close>

definition started :: "DiagnosticEvent \<Rightarrow> (SpanFamily \<times> SpanKind option \<times> u64 option) option" where
  "started e =
     (case e of
        SpanStarted s \<Rightarrow> Some (BuiltIn, Some (SpanStartDetail_kind (ss_detail s)), ss_parent_span_id s)
      | CustomSpanStarted s \<Rightarrow> Some (Custom, None, css_parent_span_id s)
      | _ \<Rightarrow> None)"

definition finished_span :: "DiagnosticEvent \<Rightarrow> (SpanFamily \<times> u64) option" where
  "finished_span e =
     (case e of
        SpanFinished f \<Rightarrow> Some (BuiltIn, sf_span_id f)
      | CustomSpanFinished f \<Rightarrow> Some (Custom, csf_span_id f)
      | _ \<Rightarrow> None)"

definition contained_in :: "DiagnosticEvent \<Rightarrow> u64 option" where
  "contained_in e =
     (case e of
        InstantOccurred i \<Rightarrow> io_containing_span_id i
      | CustomInstantOccurred i \<Rightarrow> cio_containing_span_id i
      | _ \<Rightarrow> None)"

definition finishes :: "DiagnosticEvent \<Rightarrow> u64 \<Rightarrow> bool" where
  "finishes e s \<longleftrightarrow> (\<exists>f. finished_span e = Some (f, s))"

definition child_of :: "DiagnosticEvent \<Rightarrow> u64 \<Rightarrow> bool" where
  "child_of e s \<longleftrightarrow> (\<exists>f k. started e = Some (f, k, Some s))"

text \<open>The span \<open>s\<close> was started in \<open>h\<close>, is still open, and may contain \<open>e\<close>.\<close>

definition open_container :: "DiagnosticEvent list \<Rightarrow> u64 \<Rightarrow> DiagnosticEvent \<Rightarrow> bool" where
  "open_container h s e \<longleftrightarrow>
     s < event_sequence e \<and>
     (\<exists>d \<in> set h. event_sequence d = s \<and> started d \<noteq> None \<and>
        scope_contains (event_scope d) (event_scope e) \<and> event_elapsed d \<le> event_elapsed e) \<and>
     (\<forall>x \<in> set h. \<not> finishes x s)"

text \<open>
  The event \<open>e\<close> may finish the span \<open>s\<close> of family \<open>f\<close>: it was started in the same scope and not
  later, is not finished, and everything inside it lies before \<open>e\<close>.
\<close>

definition closable :: "DiagnosticEvent list \<Rightarrow> SpanFamily \<Rightarrow> u64 \<Rightarrow> DiagnosticEvent \<Rightarrow> bool" where
  "closable h f s e \<longleftrightarrow>
     s < event_sequence e \<and>
     (\<exists>d \<in> set h. event_sequence d = s \<and> (\<exists>k p. started d = Some (f, k, p)) \<and>
        event_scope d = event_scope e \<and> event_elapsed d \<le> event_elapsed e) \<and>
     (\<forall>x \<in> set h. \<not> finishes x s) \<and>
     (\<forall>x \<in> set h. contained_in x = Some s \<longrightarrow> event_elapsed x \<le> event_elapsed e) \<and>
     (\<forall>c \<in> set h. child_of c s \<longrightarrow>
        (\<exists>x \<in> set h. finishes x (event_sequence c) \<and> event_elapsed x \<le> event_elapsed e))"

definition scopes_known :: "DiagnosticEvent \<Rightarrow> bool" where
  "scopes_known e \<longleftrightarrow>
     sc_session_generation (event_scope e) \<noteq> Some 0 \<and>
     (\<forall>scope. affected_scope_of e = Some scope \<longrightarrow> sc_session_generation scope \<noteq> Some 0)"

definition links_resolved :: "DiagnosticEvent list \<Rightarrow> DiagnosticEvent \<Rightarrow> bool" where
  "links_resolved h e \<longleftrightarrow>
     length (hdr_caused_by (DiagnosticEvent_header e)) \<le> MAX_CAUSAL_LINKS \<and>
     (\<forall>l \<in> set (hdr_caused_by (DiagnosticEvent_header e)).
        cl_source_sequence l < event_sequence e \<and> cl_source_sequence l \<in> event_sequence ` set h)"

definition admissible :: "DiagnosticEvent list \<Rightarrow> DiagnosticEvent \<Rightarrow> bool" where
  "admissible h e \<longleftrightarrow>
     (\<forall>d \<in> set h. event_run_id d = event_run_id e) \<and>
     event_sequence e \<notin> event_sequence ` set h \<and>
     scopes_known e \<and> links_resolved h e \<and>
     (\<forall>s. child_of e s \<longrightarrow> open_container h s e) \<and>
     (\<forall>s. contained_in e = Some s \<longrightarrow> open_container h s e) \<and>
     (\<forall>f s. finished_span e = Some (f, s) \<longrightarrow> closable h f s e)"

inductive accepted :: "DiagnosticEvent list \<Rightarrow> bool" where
  accepted_Nil: "accepted []"
| accepted_snoc: "accepted h \<Longrightarrow> admissible h e \<Longrightarrow> accepted (h @ [e])"

inductive_cases accepted_snocE: "accepted (h @ [e])"

text \<open>The kind a start carries, or that a finish inherits from its start.\<close>

definition resolves_to :: "DiagnosticEvent list \<Rightarrow> DiagnosticEvent \<Rightarrow> SpanKind option \<Rightarrow> bool" where
  "resolves_to h e k \<longleftrightarrow>
     (case started e of
        Some (f, k', p) \<Rightarrow> k = k'
      | None \<Rightarrow>
          (case finished_span e of
             Some (f, s) \<Rightarrow> (\<exists>d \<in> set h. event_sequence d = s \<and> (\<exists>f p. started d = Some (f, k, p)))
           | None \<Rightarrow> k = None))"

subsection \<open>What the validator knows\<close>

definition span_matches :: "DiagnosticEvent list \<Rightarrow> DiagnosticEvent \<Rightarrow> SpanRecord \<Rightarrow> bool" where
  "span_matches h d r \<longleftrightarrow>
     started d = Some (sr_family r, sr_built_in_span_kind r, sr_parent_span_id r) \<and>
     sr_scope r = event_scope d \<and> sr_started_at r = event_elapsed d \<and>
     (\<forall>t. sr_finished_at r = Some t \<longleftrightarrow>
        (\<exists>x \<in> set h. finishes x (event_sequence d) \<and> event_elapsed x = t)) \<and>
     (\<forall>t. (\<exists>c > t. sr_latest_contained_at r = Some c) \<longleftrightarrow>
        (\<exists>x \<in> set h. contained_in x = Some (event_sequence d) \<and> event_elapsed x > t))"

definition tracks :: "ReferenceValidator \<Rightarrow> DiagnosticEvent list \<Rightarrow> bool" where
  "tracks v h \<longleftrightarrow>
     (rv_run_id v = None \<longleftrightarrow> h = []) \<and> (\<forall>d \<in> set h. rv_run_id v = Some (event_run_id d)) \<and>
     rv_event_sequences v = event_sequence ` set h \<and> inj_on event_sequence (set h) \<and>
     distinct (map fst (rv_spans v)) \<and>
     (\<forall>s r. map_of (rv_spans v) s = Some r \<longrightarrow>
        (\<exists>d \<in> set h. event_sequence d = s \<and> span_matches h d r)) \<and>
     (\<forall>d \<in> set h. started d \<noteq> None \<longrightarrow> map_of (rv_spans v) (event_sequence d) \<noteq> None) \<and>
     (\<forall>x \<in> set h. \<forall>s. finishes x s \<or> contained_in x = Some s \<longrightarrow> s \<in> event_sequence ` set h)"

lemma tracks_new: "tracks ReferenceValidator_new []"
  by (simp add: tracks_def ReferenceValidator_new_def)

lemma tracks_spans_distinct: "tracks v h \<Longrightarrow> distinct (map fst (rv_spans v))"
  by (simp add: tracks_def)

lemma tracks_sequences: "tracks v h \<Longrightarrow> rv_event_sequences v = event_sequence ` set h"
  by (simp add: tracks_def)

lemma tracks_found:
  assumes "tracks v h" "map_of (rv_spans v) s = Some r"
  obtains d where "d \<in> set h" "event_sequence d = s" "span_matches h d r"
  using assms unfolding tracks_def by blast

lemma tracks_lookup:
  assumes t: "tracks v h" and d: "d \<in> set h" "started d \<noteq> None"
  obtains r where "map_of (rv_spans v) (event_sequence d) = Some r" "span_matches h d r"
proof -
  from assms obtain r where r: "map_of (rv_spans v) (event_sequence d) = Some r"
    unfolding tracks_def by blast
  from tracks_found [OF t r] obtain d' where "d' \<in> set h" "event_sequence d' = event_sequence d"
      "span_matches h d' r" .
  with t d(1) r that show thesis unfolding tracks_def inj_on_def by metis
qed

lemma tracks_same:
  "tracks v h \<Longrightarrow> d \<in> set h \<Longrightarrow> d' \<in> set h \<Longrightarrow> event_sequence d = event_sequence d' \<Longrightarrow> d = d'"
  unfolding tracks_def inj_on_def by blast

lemma span_matches_open:
  "span_matches h d r \<Longrightarrow> sr_finished_at r = None \<longleftrightarrow> (\<forall>x \<in> set h. \<not> finishes x (event_sequence d))"
  unfolding span_matches_def by (metis not_Some_eq)

subsection \<open>The checks decide admissibility\<close>

lemma validate_scope_iff: "validate_scope e = Inr u \<longleftrightarrow> scopes_known e"
  by (auto simp: validate_scope_def scopes_known_def has_unknown_scope_sentinel_def Let_def
      split: option.splits)

lemma check_links_iff:
  "check_links v e links = Inr u \<longleftrightarrow>
     (\<forall>l \<in> set links. cl_source_sequence l < event_sequence e \<and>
        cl_source_sequence l \<in> rv_event_sequences v)"
  by (induction links) (auto simp: Let_def)

lemma validate_causal_links_iff:
  "tracks v h \<Longrightarrow> validate_causal_links v e = Inr u \<longleftrightarrow> links_resolved h e"
  by (auto simp: validate_causal_links_def links_resolved_def Let_def check_links_iff tracks_sequences)

lemma validate_within_iff:
  assumes t: "tracks v h"
  shows "validate_within v e s = Inr u \<longleftrightarrow> open_container h s e"
proof (cases "map_of (rv_spans v) s")
  case None
  then have "\<forall>d \<in> set h. event_sequence d = s \<longrightarrow> started d = None"
    using t unfolding tracks_def by blast
  with None show ?thesis
    by (auto simp: validate_within_def validate_open_span_reference_def open_container_def)
next
  case (Some r)
  then obtain d where d: "d \<in> set h" "event_sequence d = s" and m: "span_matches h d r"
    using t tracks_found by blast
  have "started d \<noteq> None" using m by (simp add: span_matches_def)
  moreover have "d' = d" if "d' \<in> set h" "event_sequence d' = s" for d'
    using that d t tracks_same by blast
  ultimately have oc: "open_container h s e \<longleftrightarrow> s < event_sequence e \<and>
      scope_contains (event_scope d) (event_scope e) \<and> event_elapsed d \<le> event_elapsed e \<and>
      (\<forall>x \<in> set h. \<not> finishes x s)"
    using d unfolding open_container_def by metis
  from Some m show ?thesis
    unfolding oc
    using span_matches_open [OF m] d(2)
    by (auto simp: validate_within_def validate_open_span_reference_def span_matches_def not_less)
qed

lemma unfinished_child_iff:
  assumes t: "tracks v h"
  shows "unfinished_child v s u \<longleftrightarrow>
    (\<exists>c \<in> set h. child_of c s \<and>
       \<not> (\<exists>x \<in> set h. finishes x (event_sequence c) \<and> event_elapsed x \<le> u))"
proof -
  have late: "(case sr_finished_at r of None \<Rightarrow> True | Some w \<Rightarrow> w > u) \<longleftrightarrow>
      \<not> (\<exists>x \<in> set h. finishes x (event_sequence d) \<and> event_elapsed x \<le> u)"
    if "span_matches h d r" for d r
  proof -
    from that have fin: "\<And>w. sr_finished_at r = Some w \<longleftrightarrow>
        (\<exists>x \<in> set h. finishes x (event_sequence d) \<and> event_elapsed x = w)"
      by (simp add: span_matches_def)
    show ?thesis
    proof (cases "sr_finished_at r")
      case None
      with fin show ?thesis by auto
    next
      case (Some w)
      with fin have "\<And>x. x \<in> set h \<Longrightarrow> finishes x (event_sequence d) \<Longrightarrow> event_elapsed x = w"
        by fastforce
      moreover from Some fin have "\<exists>x \<in> set h. finishes x (event_sequence d)" by blast
      ultimately show ?thesis using Some by fastforce
    qed
  qed
  have rec: "unfinished_child v s u \<longleftrightarrow> (\<exists>k r. map_of (rv_spans v) k = Some r \<and>
      sr_parent_span_id r = Some s \<and>
      (case sr_finished_at r of None \<Rightarrow> True | Some w \<Rightarrow> w > u))"
    unfolding unfinished_child_def list_ex_iff
    by (force simp: map_of_eq_Some_iff [OF tracks_spans_distinct [OF t]])
  show ?thesis
  proof
    assume "unfinished_child v s u"
    then obtain k r where r: "map_of (rv_spans v) k = Some r" "sr_parent_span_id r = Some s"
        "case sr_finished_at r of None \<Rightarrow> True | Some w \<Rightarrow> w > u"
      unfolding rec by blast
    from tracks_found [OF t r(1)] obtain d where d: "d \<in> set h" "span_matches h d r" by blast
    then have "child_of d s" using r(2) by (simp add: child_of_def span_matches_def)
    with d r(3) late show "\<exists>c \<in> set h. child_of c s \<and>
        \<not> (\<exists>x \<in> set h. finishes x (event_sequence c) \<and> event_elapsed x \<le> u)"
      by blast
  next
    assume "\<exists>c \<in> set h. child_of c s \<and>
        \<not> (\<exists>x \<in> set h. finishes x (event_sequence c) \<and> event_elapsed x \<le> u)"
    then obtain c where c: "c \<in> set h" "child_of c s"
        "\<not> (\<exists>x \<in> set h. finishes x (event_sequence c) \<and> event_elapsed x \<le> u)" by blast
    then have "started c \<noteq> None" by (auto simp: child_of_def)
    from tracks_lookup [OF t c(1) this] obtain r where
      r: "map_of (rv_spans v) (event_sequence c) = Some r" "span_matches h c r" .
    moreover have "sr_parent_span_id r = Some s"
      using c(2) r(2) by (auto simp: child_of_def span_matches_def)
    ultimately show "unfinished_child v s u" unfolding rec using late c(3) by blast
  qed
qed

lemma contained_late_iff:
  assumes "span_matches h d r"
  shows "(case sr_latest_contained_at r of None \<Rightarrow> False | Some c \<Rightarrow> c > u) \<longleftrightarrow>
    \<not> (\<forall>x \<in> set h. contained_in x = Some (event_sequence d) \<longrightarrow> event_elapsed x \<le> u)"
proof -
  have "(case sr_latest_contained_at r of None \<Rightarrow> False | Some c \<Rightarrow> c > u) \<longleftrightarrow>
      (\<exists>c > u. sr_latest_contained_at r = Some c)"
    by (cases "sr_latest_contained_at r") auto
  also have "\<dots> \<longleftrightarrow> (\<exists>x \<in> set h. contained_in x = Some (event_sequence d) \<and> event_elapsed x > u)"
    using assms by (simp add: span_matches_def)
  finally show ?thesis by (auto simp: not_le)
qed

lemma validate_span_finish_iff:
  assumes t: "tracks v h"
  shows "validate_span_finish v e f s = Inr (c, k) \<longleftrightarrow>
    closable h f s e \<and> c = FinishSpan s (event_elapsed e) \<and>
    (\<exists>d \<in> set h. event_sequence d = s \<and> (\<exists>f p. started d = Some (f, k, p)))"
proof (cases "map_of (rv_spans v) s")
  case None
  then have "\<forall>d \<in> set h. event_sequence d = s \<longrightarrow> started d = None"
    using t unfolding tracks_def by blast
  with None show ?thesis
    by (auto simp: validate_span_finish_def closable_def)
next
  case (Some r)
  then obtain d where d: "d \<in> set h" "event_sequence d = s" and m: "span_matches h d r"
    using t tracks_found by blast
  have st: "started d = Some (sr_family r, sr_built_in_span_kind r, sr_parent_span_id r)"
    and eq: "sr_scope r = event_scope d" "sr_started_at r = event_elapsed d"
    using m by (simp_all add: span_matches_def)
  have only: "(\<exists>d' \<in> set h. event_sequence d' = s \<and> P d') \<longleftrightarrow> P d" for P
    using d t tracks_same by blast
  have "closable h f s e \<longleftrightarrow> s < event_sequence e \<and> f = sr_family r \<and>
      event_scope d = event_scope e \<and> event_elapsed d \<le> event_elapsed e \<and>
      sr_finished_at r = None \<and>
      \<not> (case sr_latest_contained_at r of None \<Rightarrow> False | Some c \<Rightarrow> c > event_elapsed e) \<and>
      \<not> unfinished_child v s (event_elapsed e)"
    unfolding closable_def only span_matches_open [OF m] contained_late_iff [OF m]
      unfinished_child_iff [OF t] d(2) st by auto
  moreover have "(\<exists>d \<in> set h. event_sequence d = s \<and> (\<exists>f p. started d = Some (f, k, p))) \<longleftrightarrow>
      k = sr_built_in_span_kind r"
    unfolding only st by auto
  moreover have "validate_span_finish v e f s = Inr (c, k) \<longleftrightarrow>
      s < event_sequence e \<and> f = sr_family r \<and> event_scope d = event_scope e \<and>
      event_elapsed d \<le> event_elapsed e \<and> sr_finished_at r = None \<and>
      \<not> (case sr_latest_contained_at r of None \<Rightarrow> False | Some c \<Rightarrow> c > event_elapsed e) \<and>
      \<not> unfinished_child v s (event_elapsed e) \<and>
      c = FinishSpan s (event_elapsed e) \<and> k = sr_built_in_span_kind r"
    using Some unfolding validate_span_finish_def eq
    by (simp add: eq not_le not_less split del: option.split) (auto simp: eq not_less)
  ultimately show ?thesis by blast
qed

text \<open>The match on the event, seen through what the event does to spans.\<close>

lemma prepare_payload_cases:
  "prepare_payload v e =
     (case started e of
        Some (f, k, p) \<Rightarrow> res_bind (validate_span_start v e f k p) (\<lambda>c. Inr (c, k))
      | None \<Rightarrow>
          (case finished_span e of
             Some (f, s) \<Rightarrow> validate_span_finish v e f s
           | None \<Rightarrow> res_bind (validate_containing_span v e (contained_in e)) (\<lambda>c. Inr (c, None))))"
  by (cases e)
     (simp_all add: prepare_payload_def started_def finished_span_def contained_in_def
        validate_containing_span_def Let_def)

lemma event_role_disjoint:
  "started e \<noteq> None \<Longrightarrow> finished_span e = None \<and> contained_in e = None"
  "finished_span e \<noteq> None \<Longrightarrow> contained_in e = None \<and> started e = None"
  by (cases e; simp add: started_def finished_span_def contained_in_def)+

text \<open>The change an admissible event makes.\<close>

definition change_of :: "DiagnosticEvent \<Rightarrow> StateChange" where
  "change_of e =
     (case started e of
        Some (f, k, p) \<Rightarrow> StartSpan \<lparr> sr_family = f, sr_built_in_span_kind = k,
          sr_scope = event_scope e, sr_started_at = event_elapsed e, sr_finished_at = None,
          sr_latest_contained_at = None, sr_parent_span_id = p \<rparr>
      | None \<Rightarrow>
          (case finished_span e of
             Some (f, s) \<Rightarrow> FinishSpan s (event_elapsed e)
           | None \<Rightarrow> (case contained_in e of
                 Some s \<Rightarrow> ContainedInstant s (event_elapsed e)
               | None \<Rightarrow> RecordEvent)))"

lemma prepare_payload_iff:
  assumes t: "tracks v h"
  shows "prepare_payload v e = Inr (c, k) \<longleftrightarrow>
    (\<forall>s. child_of e s \<longrightarrow> open_container h s e) \<and>
    (\<forall>s. contained_in e = Some s \<longrightarrow> open_container h s e) \<and>
    (\<forall>f s. finished_span e = Some (f, s) \<longrightarrow> closable h f s e) \<and>
    c = change_of e \<and> resolves_to h e k"
proof (cases "started e")
  case (Some a)
  obtain f k' p where a: "a = (f, k', p)" by (cases a)
  have "child_of e s \<longleftrightarrow> p = Some s" for s using Some a by (auto simp: child_of_def)
  with Some a event_role_disjoint(1) [of e] show ?thesis
    by (cases p) (auto simp: prepare_payload_cases validate_span_start_def change_of_def
        resolves_to_def validate_within_iff [OF t])
next
  case None
  then have nc: "\<not> child_of e s" for s by (simp add: child_of_def)
  show ?thesis
  proof (cases "finished_span e")
    case (Some a)
    obtain f s where "a = (f, s)" by (cases a)
    with Some None nc event_role_disjoint(2) [of e] show ?thesis
      by (auto simp: prepare_payload_cases change_of_def resolves_to_def
          validate_span_finish_iff [OF t])
  next
    case nf: None
    with None nc show ?thesis
      by (cases "contained_in e") (auto simp: prepare_payload_cases change_of_def resolves_to_def
          validate_containing_span_def validate_within_iff [OF t])
  qed
qed

lemma prepare_iff:
  assumes t: "tracks v h"
  shows "prepare v e = Inr (c, k) \<longleftrightarrow> admissible h e \<and> c = change_of e \<and> resolves_to h e k"
proof -
  have run: "(case rv_run_id v of None \<Rightarrow> False | Some expected \<Rightarrow> expected \<noteq> event_run_id e) \<longleftrightarrow>
      \<not> (\<forall>d \<in> set h. event_run_id d = event_run_id e)"
  proof (cases h)
    case Nil
    with t show ?thesis by (simp add: tracks_def)
  next
    case (Cons a as)
    with t have "rv_run_id v = Some (event_run_id a)" "\<forall>d \<in> set h. rv_run_id v = Some (event_run_id d)"
      by (auto simp: tracks_def)
    then show ?thesis using Cons by auto
  qed
  have "prepare v e = Inr (c, k) \<longleftrightarrow>
      (\<forall>d \<in> set h. event_run_id d = event_run_id e) \<and> event_sequence e \<notin> event_sequence ` set h \<and>
      scopes_known e \<and> links_resolved h e \<and> prepare_payload v e = Inr (c, k)"
    unfolding prepare_def run tracks_sequences [OF t]
    by (auto simp: validate_scope_iff validate_causal_links_iff [OF t])
  then show ?thesis
    unfolding admissible_def prepare_payload_iff [OF t] by blast
qed

subsection \<open>The state follows the history\<close>

lemma span_matches_other:
  assumes "span_matches h d r" "\<not> finishes e (event_sequence d)"
    "contained_in e \<noteq> Some (event_sequence d)"
  shows "span_matches (h @ [e]) d r"
  using assms unfolding span_matches_def by auto

lemma span_matches_finish:
  assumes "span_matches h d r" "finishes e (event_sequence d)"
    "\<forall>x \<in> set h. \<not> finishes x (event_sequence d)" "contained_in e = None"
  shows "span_matches (h @ [e]) d (r\<lparr> sr_finished_at := Some (event_elapsed e) \<rparr>)"
  using assms unfolding span_matches_def by auto

lemma span_matches_contained:
  assumes m: "span_matches h d r" and e: "contained_in e = Some (event_sequence d)"
    and nf: "\<not> finishes e (event_sequence d)"
  shows "span_matches (h @ [e]) d (r\<lparr> sr_latest_contained_at :=
    Some (case sr_latest_contained_at r of None \<Rightarrow> event_elapsed e
          | Some current \<Rightarrow> max current (event_elapsed e)) \<rparr>)"
proof -
  let ?l = "case sr_latest_contained_at r of None \<Rightarrow> event_elapsed e
            | Some current \<Rightarrow> max current (event_elapsed e)"
  have "?l > u \<longleftrightarrow> (\<exists>c > u. sr_latest_contained_at r = Some c) \<or> event_elapsed e > u" for u
    by (cases "sr_latest_contained_at r") (auto simp: less_max_iff_disj)
  then show ?thesis using m e nf unfolding span_matches_def by auto
qed

lemma span_matches_new:
  assumes "started e = Some (f, k, p)"
    "\<forall>x \<in> set h. \<not> finishes x (event_sequence e) \<and> contained_in x \<noteq> Some (event_sequence e)"
  shows "span_matches (h @ [e]) e \<lparr> sr_family = f, sr_built_in_span_kind = k,
          sr_scope = event_scope e, sr_started_at = event_elapsed e, sr_finished_at = None,
          sr_latest_contained_at = None, sr_parent_span_id = p \<rparr>"
  using assms event_role_disjoint(1) [of e] unfolding span_matches_def
  by (auto simp: finishes_def)

lemma apply_change_distinct:
  "distinct (map fst spans) \<Longrightarrow> distinct (map fst (apply_change s c spans))"
  by (cases c) (simp_all add: distinct_update distinct_map_entry)

lemma apply_change_lookup:
  "map_of (apply_change q c spans) s =
     (case c of
        RecordEvent \<Rightarrow> map_of spans s
      | StartSpan r \<Rightarrow> if s = q then Some r else map_of spans s
      | FinishSpan i t \<Rightarrow>
          if s = i then map_option (\<lambda>r. r\<lparr> sr_finished_at := Some t \<rparr>) (map_of spans s)
          else map_of spans s
      | ContainedInstant i t \<Rightarrow>
          if s = i then map_option (\<lambda>r. r\<lparr> sr_latest_contained_at :=
            Some (case sr_latest_contained_at r of None \<Rightarrow> t | Some current \<Rightarrow> max current t) \<rparr>)
            (map_of spans s)
          else map_of spans s)"
  by (cases c) (auto simp: update_conv' map_of_map_entry split: option.split)

declare apply_change.simps [simp del]

lemma apply_change_sound:
  assumes t: "tracks v h" and a: "admissible h e"
    and r: "map_of (apply_change (event_sequence e) (change_of e) (rv_spans v)) s = Some r"
  shows "\<exists>d \<in> set (h @ [e]). event_sequence d = s \<and> span_matches (h @ [e]) d r"
proof -
  have refs: "\<And>x s. x \<in> set h \<Longrightarrow> finishes x s \<or> contained_in x = Some s \<Longrightarrow> s \<in> event_sequence ` set h"
    using t by (auto simp: tracks_def)
  have new: "event_sequence e \<notin> event_sequence ` set h" using a by (simp add: admissible_def)
  have old: "\<exists>d \<in> set (h @ [e]). event_sequence d = s \<and> span_matches (h @ [e]) d r'"
    if "map_of (rv_spans v) s = Some r'" "\<not> finishes e s" "contained_in e \<noteq> Some s" for r'
    using that tracks_found [OF t that(1)] span_matches_other by (metis UnCI set_append)
  consider (start) f k p where "started e = Some (f, k, p)"
    | (finish) f i where "started e = None" "finished_span e = Some (f, i)"
    | (inside) i where "started e = None" "finished_span e = None" "contained_in e = Some i"
    | (plain) "started e = None" "finished_span e = None" "contained_in e = None"
    by (metis not_Some_eq prod_cases3 surj_pair)
  then show ?thesis
  proof cases
    case start
    then have no: "\<not> finishes e s" "contained_in e \<noteq> Some s"
      using event_role_disjoint(1) [of e] by (auto simp: finishes_def)
    have m: "span_matches (h @ [e]) e \<lparr> sr_family = f, sr_built_in_span_kind = k,
          sr_scope = event_scope e, sr_started_at = event_elapsed e, sr_finished_at = None,
          sr_latest_contained_at = None, sr_parent_span_id = p \<rparr>"
      using refs new by (intro span_matches_new [OF start]) blast
    show ?thesis
    proof (cases "s = event_sequence e")
      case True
      with r start m show ?thesis by (auto simp: apply_change_lookup change_of_def)
    next
      case False
      with r start old no show ?thesis by (auto simp: apply_change_lookup change_of_def)
    qed
  next
    case finish
    then have cl: "closable h f i e" using a by (simp add: admissible_def)
    have fe: "finishes e s \<longleftrightarrow> s = i" for s using finish by (auto simp: finishes_def)
    have ce: "contained_in e = None" using finish event_role_disjoint(2) [of e] by simp
    show ?thesis
    proof (cases "s = i")
      case True
      with r finish obtain r' where r': "map_of (rv_spans v) i = Some r'"
          "r = r'\<lparr> sr_finished_at := Some (event_elapsed e) \<rparr>"
        by (auto simp: apply_change_lookup change_of_def)
      from tracks_found [OF t r'(1)] obtain d where "d \<in> set h" "event_sequence d = i"
          "span_matches h d r'" .
      moreover from this cl fe ce have "span_matches (h @ [e]) d r" unfolding r'(2)
        by (intro span_matches_finish) (auto simp: closable_def)
      ultimately show ?thesis using True by auto
    next
      case False
      with r finish old fe ce show ?thesis by (auto simp: apply_change_lookup change_of_def)
    qed
  next
    case inside
    then have fe: "\<not> finishes e s" for s by (auto simp: finishes_def)
    show ?thesis
    proof (cases "s = i")
      case True
      with r inside obtain r' where r': "map_of (rv_spans v) i = Some r'"
          "r = r'\<lparr> sr_latest_contained_at := Some (case sr_latest_contained_at r' of
              None \<Rightarrow> event_elapsed e | Some current \<Rightarrow> max current (event_elapsed e)) \<rparr>"
        by (auto simp: apply_change_lookup change_of_def)
      from tracks_found [OF t r'(1)] obtain d where "d \<in> set h" "event_sequence d = i"
          "span_matches h d r'" .
      moreover from this inside fe have "span_matches (h @ [e]) d r" unfolding r'(2)
        by (intro span_matches_contained) auto
      ultimately show ?thesis using True by auto
    next
      case False
      with r inside old fe show ?thesis by (auto simp: apply_change_lookup change_of_def)
    qed
  next
    case plain
    then have "\<not> finishes e s" by (auto simp: finishes_def)
    with r plain old show ?thesis by (auto simp: apply_change_lookup change_of_def)
  qed
qed

lemma apply_change_complete:
  assumes "tracks v h" "d \<in> set (h @ [e])" "started d \<noteq> None"
  shows "map_of (apply_change (event_sequence e) (change_of e) (rv_spans v)) (event_sequence d) \<noteq> None"
proof (cases "d = e")
  case True
  with assms(3) show ?thesis by (auto simp: apply_change_lookup change_of_def)
next
  case False
  with assms obtain r where "map_of (rv_spans v) (event_sequence d) = Some r"
    by (auto elim: tracks_lookup)
  then show ?thesis
    by (auto simp: apply_change_lookup split: StateChange.split)
qed

lemma container_in_history: "open_container h s e \<Longrightarrow> s \<in> event_sequence ` set h"
  by (auto simp: open_container_def)

lemma closable_in_history: "closable h f s e \<Longrightarrow> s \<in> event_sequence ` set h"
  by (auto simp: closable_def)

lemma tracks_commit:
  assumes t: "tracks v h" and a: "admissible h e"
  shows "tracks (commit v e (change_of e)) (h @ [e])"
  unfolding tracks_def
proof (intro conjI)
  let ?v = "commit v e (change_of e)"
  have spans: "rv_spans ?v = apply_change (event_sequence e) (change_of e) (rv_spans v)"
    by (simp add: commit_def)
  show "(rv_run_id ?v = None) = (h @ [e] = [])" by (simp add: commit_def)
  show "\<forall>d \<in> set (h @ [e]). rv_run_id ?v = Some (event_run_id d)"
    using a by (auto simp: commit_def admissible_def)
  show "rv_event_sequences ?v = event_sequence ` set (h @ [e])"
    using tracks_sequences [OF t] by (simp add: commit_def)
  show "inj_on event_sequence (set (h @ [e]))"
    using t a by (auto simp: tracks_def admissible_def inj_on_insert)
  show "distinct (map fst (rv_spans ?v))"
    using tracks_spans_distinct [OF t] by (simp add: spans apply_change_distinct)
  show "\<forall>s r. map_of (rv_spans ?v) s = Some r \<longrightarrow>
      (\<exists>d \<in> set (h @ [e]). event_sequence d = s \<and> span_matches (h @ [e]) d r)"
    unfolding spans using apply_change_sound [OF t a] by blast
  show "\<forall>d \<in> set (h @ [e]). started d \<noteq> None \<longrightarrow> map_of (rv_spans ?v) (event_sequence d) \<noteq> None"
    unfolding spans using apply_change_complete [OF t] by blast
  have "s \<in> event_sequence ` set h" if "finishes e s \<or> contained_in e = Some s" for s
    using that a container_in_history closable_in_history
    unfolding admissible_def finishes_def by blast
  then show "\<forall>x \<in> set (h @ [e]). \<forall>s. finishes x s \<or> contained_in x = Some s \<longrightarrow>
      s \<in> event_sequence ` set (h @ [e])"
    using t by (auto simp: tracks_def)
qed

text \<open>After a successful \<open>prepare\<close> the span to be updated exists: \<^verbatim>\<open>commit\<close> does not panic.\<close>

lemma prepare_reference_present:
  assumes t: "tracks v h" and p: "prepare v e = Inr (c, k)"
    and c: "c = FinishSpan s u \<or> c = ContainedInstant s u"
  shows "map_of (rv_spans v) s \<noteq> None"
proof -
  from p t have a: "admissible h e" and ch: "c = change_of e" by (simp_all add: prepare_iff)
  from ch c have "(\<exists>f. finished_span e = Some (f, s)) \<or> contained_in e = Some s"
    by (auto simp: change_of_def split: option.splits)
  with a have "(\<exists>f. closable h f s e) \<or> open_container h s e" by (auto simp: admissible_def)
  then have "\<exists>d \<in> set h. event_sequence d = s \<and> started d \<noteq> None"
    by (auto simp: closable_def open_container_def)
  with t show ?thesis unfolding tracks_def by blast
qed

lemma admissible_resolves:
  assumes "admissible h e"
  obtains k where "resolves_to h e k"
proof (cases "started e")
  case (Some a)
  then show thesis using that by (cases a) (auto simp: resolves_to_def)
next
  case None
  show thesis
  proof (cases "finished_span e")
    case nf: None
    with None show thesis using that [of None] by (simp add: resolves_to_def)
  next
    case (Some a)
    obtain f s where a: "a = (f, s)" by (cases a)
    with Some assms have "closable h f s e" by (simp add: admissible_def)
    then obtain d k p where "d \<in> set h" "event_sequence d = s" "started d = Some (f, k, p)"
      by (auto simp: closable_def)
    with None Some a show thesis using that [of k] by (auto simp: resolves_to_def)
  qed
qed

lemma validate_tracks:
  assumes t: "tracks v h"
  shows "(\<exists>k. validate v e = (Inr \<lparr> ve_event = e, ve_built_in_span_kind = k \<rparr>,
        commit v e (change_of e)) \<and> resolves_to h e k \<and> admissible h e) \<or>
    (\<exists>err. validate v e = (Inl err, v) \<and> \<not> admissible h e)"
proof (cases "prepare v e")
  case (Inl err)
  have "\<not> admissible h e"
  proof
    assume a: "admissible h e"
    then obtain k where "resolves_to h e k" by (rule admissible_resolves)
    with a t Inl prepare_iff [of v h e "change_of e" k] show False by simp
  qed
  with Inl show ?thesis by (simp add: validate_def)
next
  case (Inr ck)
  obtain c k where "ck = (c, k)" by (cases ck)
  with Inr t prepare_iff [of v h e c k] show ?thesis by (simp add: validate_def)
qed

subsection \<open>Streams\<close>

lemma accepted_prefix: "accepted (h @ es) \<Longrightarrow> accepted h"
proof (induction es rule: rev_induct)
  case Nil
  then show ?case by simp
next
  case (snoc e es)
  then show ?case by (auto simp flip: append_assoc elim: accepted_snocE)
qed

lemma accepted_admissible: "accepted (h @ e # es) \<Longrightarrow> admissible h e"
  using accepted_prefix [of "h @ [e]" es] by (auto elim: accepted_snocE)

lemma accepted_Cons_iff: "accepted (h @ e # es) \<longleftrightarrow> accepted ((h @ [e]) @ es)"
  by simp

lemma accepted_distinct: "accepted h \<Longrightarrow> distinct (map event_sequence h)"
  by (induction rule: accepted.induct) (auto simp: admissible_def)

lemma accepted_same:
  "accepted h \<Longrightarrow> d \<in> set h \<Longrightarrow> d' \<in> set h \<Longrightarrow> event_sequence d = event_sequence d' \<Longrightarrow> d = d'"
  using accepted_distinct [of h] by (auto simp: distinct_map inj_on_def)

lemma resolves_to_mono: "resolves_to h e k \<Longrightarrow> set h \<subseteq> set h' \<Longrightarrow> resolves_to h' e k"
  unfolding resolves_to_def by (auto split: option.splits)

lemma resolves_to_unique:
  assumes "accepted h" "resolves_to h e k" "resolves_to h e k'"
  shows "k = k'"
proof (cases "started e")
  case (Some a)
  with assms show ?thesis by (cases a) (simp add: resolves_to_def)
next
  case None
  show ?thesis
  proof (cases "finished_span e")
    case nf: None
    with None assms show ?thesis by (simp add: resolves_to_def)
  next
    case (Some a)
    with None assms(2,3) obtain d d' f f' p p' where d: "d \<in> set h" "d' \<in> set h"
        "event_sequence d = event_sequence d'"
        "started d = Some (f, k, p)" "started d' = Some (f', k', p')"
      by (cases a) (auto simp: resolves_to_def)
    with accepted_same [OF assms(1)] have "d = d'" by blast
    with d show ?thesis by simp
  qed
qed

lemma validate_events_iff:
  "tracks v h \<Longrightarrow> accepted h \<Longrightarrow>
   fst (validate_events v es) = Inr ks \<longleftrightarrow>
     accepted (h @ es) \<and> list_all2 (resolves_to (h @ es)) es ks"
proof (induction es arbitrary: v h ks)
  case Nil
  then show ?case by auto
next
  case (Cons e es)
  from validate_tracks [OF Cons.prems(1), of e] show ?case
  proof (elim disjE exE conjE)
    fix k
    let ?v = "commit v e (change_of e)"
    assume v: "validate v e = (Inr \<lparr> ve_event = e, ve_built_in_span_kind = k \<rparr>, ?v)"
      and k: "resolves_to h e k" and a: "admissible h e"
    have "fst (validate_events v (e # es)) = Inr ks \<longleftrightarrow>
        (\<exists>ks'. ks = k # ks' \<and> fst (validate_events ?v es) = Inr ks')"
      by (auto simp: v split: prod.splits sum.splits)
    also have "\<dots> \<longleftrightarrow> (\<exists>ks'. ks = k # ks' \<and> accepted (h @ e # es) \<and>
        list_all2 (resolves_to (h @ e # es)) es ks')"
      using Cons.IH [OF tracks_commit [OF Cons.prems(1) a] accepted_snoc [OF Cons.prems(2) a]] by simp
    also have "\<dots> \<longleftrightarrow> accepted (h @ e # es) \<and> list_all2 (resolves_to (h @ e # es)) (e # es) ks"
    proof -
      have "resolves_to (h @ e # es) e k" by (rule resolves_to_mono [OF k]) auto
      then have "resolves_to (h @ e # es) e k' \<longleftrightarrow> k' = k" if "accepted (h @ e # es)" for k'
        using that resolves_to_unique by blast
      then show ?thesis by (cases ks) auto
    qed
    finally show ?thesis .
  next
    fix err
    assume "validate v e = (Inl err, v)" and "\<not> admissible h e"
    then show ?thesis using accepted_admissible by auto
  qed
qed

subsection \<open>A sample stream\<close>

text \<open>Events that the witnesses of this and later theories evaluate on.\<close>

definition sample_scope :: DiagnosticScope where
  "sample_scope = \<lparr> sc_scene_id = None, sc_actor_id = None, sc_cue_id = None, sc_effect_id = None,
     sc_act_id = None, sc_tool_call_id = None, sc_session_generation = None \<rparr>"

definition sample_header :: "u64 \<Rightarrow> elapsed_ns \<Rightarrow> DiagnosticEventHeader" where
  "sample_header sequence elapsed = \<lparr> hdr_schema_version = EVENT_SCHEMA_VERSION, hdr_run_id = 7,
     hdr_sequence = sequence, hdr_elapsed_ns = elapsed, hdr_scope = sample_scope, hdr_caused_by = [] \<rparr>"

definition sample_start :: "u64 \<Rightarrow> elapsed_ns \<Rightarrow> u64 option \<Rightarrow> DiagnosticEvent" where
  "sample_start sequence elapsed parent = CustomSpanStarted \<lparr> css_header = sample_header sequence elapsed,
     css_name = ''app.step'', css_parent_span_id = parent, css_attributes = [] \<rparr>"

definition sample_finish :: "u64 \<Rightarrow> elapsed_ns \<Rightarrow> u64 \<Rightarrow> DiagnosticEvent" where
  "sample_finish sequence elapsed span_id = CustomSpanFinished \<lparr> csf_header = sample_header sequence elapsed,
     csf_span_id = span_id, csf_outcome = SpanOutcome.Completed \<rparr>"

definition sample_stream :: "DiagnosticEvent list" where
  "sample_stream = [sample_start 1 10 None, sample_start 2 20 (Some 1), sample_finish 3 30 2,
     sample_finish 4 40 1]"

lemmas validator_compute =
  validate_def prepare_def prepare_payload_def validate_span_start_def validate_within_def
  validate_open_span_reference_def validate_span_finish_def validate_containing_span_def
  unfinished_child_def validate_scope_def validate_causal_links_def affected_scope_of_def
  has_unknown_scope_sentinel_def scope_contains_def optional_id_contains_def commit_def
  apply_change.simps ReferenceValidator_new_def Let_def

lemmas sample_events = sample_start_def sample_finish_def sample_header_def sample_scope_def

lemma sample_stream_accepted: "accepted sample_stream"
proof -
  have "fst (validate_events ReferenceValidator_new sample_stream) = Inr [None, None, None, None]"
    by (simp add: sample_stream_def sample_events validator_compute word_le_nat_alt)
  then show ?thesis
    using validate_events_iff [OF tracks_new accepted_Nil] by force
qed

subsection \<open>Properties\<close>

text \<open>
  C11. The incremental validator decides a property of the stream alone: it accepts a stream
  exactly when every event is admissible after those before it (one Run, fresh sequence, known
  scopes, causal links to earlier events of the stream, containing spans open and enclosing,
  finishes matching an open span whose content is over), and the span kind it reports for
  each event is the kind of the start, carried or looked up.
\<close>

theorem stream_validation_exact:
  "validate_event_stream es = Inr kinds \<longleftrightarrow>
     accepted es \<and> list_all2 (resolves_to es) es kinds"
  unfolding validate_event_stream_def
  using validate_events_iff [OF tracks_new accepted_Nil, of es kinds] by simp



end
