(* ===== verification/Accepted.thy ===== *)
theory Accepted
  imports Validator_Spec
begin

section \<open>Accepted events and the reservation interface\<close>

text \<open>
  The part of \<^verbatim>\<open>rust/crates/troupe-diagnostics-core/src/hub.rs\<close> that the hub shares with
  the store and the sinks: identities, accepted events and the interface between the hub and
  whatever accounts for the events it admits (the traits \<^verbatim>\<open>AdmissionReserver\<close> and
  \<^verbatim>\<open>AdmissionReservation\<close>). The interface is the locale \<open>admission_reserver\<close>; it is
  interpreted on the mandatory ingress and on the durable admission of the runtime.
\<close>

record EventIdentity =
  eid_run_id :: canonical_uuid
  eid_sequence :: u64

record AdmissionSize =
  as_event_count :: usize
  as_canonical_bytes :: usize

definition AdmissionSize_one_event :: "usize \<Rightarrow> AdmissionSize" where
  "AdmissionSize_one_event n = \<lparr> as_event_count = 1, as_canonical_bytes = n \<rparr>"

datatype CueCaptureDecision = Capture | Suppress | Resume u64

record AcceptedDiagnosticEvent =
  ae_event :: DiagnosticEvent
  ae_canonical_bytes :: bytes
  ae_built_in_span_kind :: "SpanKind option"
  ae_subscriber_local :: bool

definition AcceptedDiagnosticEvent_identity :: "AcceptedDiagnosticEvent \<Rightarrow> EventIdentity" where
  "AcceptedDiagnosticEvent_identity a =
     \<lparr> eid_run_id = event_run_id (ae_event a), eid_sequence = event_sequence (ae_event a) \<rparr>"

abbreviation accepted_run :: "AcceptedDiagnosticEvent \<Rightarrow> canonical_uuid" where
  "accepted_run a \<equiv> eid_run_id (AcceptedDiagnosticEvent_identity a)"

abbreviation accepted_seq :: "AcceptedDiagnosticEvent \<Rightarrow> u64" where
  "accepted_seq a \<equiv> eid_sequence (AcceptedDiagnosticEvent_identity a)"

abbreviation accepted_len :: "AcceptedDiagnosticEvent \<Rightarrow> usize" where
  "accepted_len a \<equiv> length (ae_canonical_bytes a)"

type_synonym delivery_failure = string

datatype DeliveryOutcome = NotConfigured | Delivered | DeliveryFailed delivery_failure

record AdmissionReceipt =
  ar_accepted :: AcceptedDiagnosticEvent
  ar_live_delivery :: DeliveryOutcome
  ar_subscriber_delivery :: DeliveryOutcome

subsection \<open>Consecutive events\<close>

text \<open>
  The events of a Run are numbered without gaps. \<open>run_from q as\<close> says that \<open>as\<close> carries the
  sequences \<open>q + 1\<close>, \<open>q + 2\<close>, \dots, none of them past the largest 64-bit number.
\<close>

fun run_from :: "u64 \<Rightarrow> AcceptedDiagnosticEvent list \<Rightarrow> bool" where
  "run_from q [] = True"
| "run_from q (a # as) =
     (unat q < 2 ^ 64 - 1 \<and> accepted_seq a = q + 1 \<and> run_from (q + 1) as)"

definition last_seq :: "u64 \<Rightarrow> AcceptedDiagnosticEvent list \<Rightarrow> u64" where
  "last_seq q as = (if as = [] then q else accepted_seq (last as))"

lemma last_seq_Nil [simp]: "last_seq q [] = q"
  by (simp add: last_seq_def)

lemma last_seq_Cons [simp]: "last_seq q (a # as) = last_seq (accepted_seq a) as"
  by (simp add: last_seq_def)

lemma last_seq_append [simp]: "last_seq q (as @ bs) = last_seq (last_seq q as) bs"
  by (induction as arbitrary: q) auto

lemma run_from_append [simp]: "run_from q (as @ bs) \<longleftrightarrow> run_from q as \<and> run_from (last_seq q as) bs"
proof (induction as arbitrary: q)
  case Nil
  then show ?case by simp
next
  case (Cons a as)
  then show ?case by (cases "accepted_seq a = q + 1") simp_all
qed

lemma run_from_last: "run_from q as \<Longrightarrow> unat (last_seq q as) = unat q + length as"
proof (induction as arbitrary: q)
  case Nil
  then show ?case by simp
next
  case (Cons a as)
  from Cons.prems have q: "unat q < 2 ^ 64 - 1" "accepted_seq a = q + 1" "run_from (q + 1) as"
    by (simp_all only: run_from.simps)
  from Cons.IH [OF q(3)] unat_Suc_u64 [OF q(1)] q(2) show ?case by simp
qed

lemma run_from_take: "run_from q as \<Longrightarrow> run_from q (take n as)"
  by (metis append_take_drop_id run_from_append)

lemma run_from_drop: "run_from q as \<Longrightarrow> run_from (last_seq q (take n as)) (drop n as)"
  by (metis append_take_drop_id run_from_append)

lemma run_from_nth: "run_from q as \<Longrightarrow> i < length as \<Longrightarrow> unat (accepted_seq (as ! i)) = unat q + Suc i"
proof -
  assume r: "run_from q as" and i: "i < length as"
  then have "run_from q (take (Suc i) as)" by (simp add: run_from_take)
  from run_from_last [OF this] i show ?thesis
    by (simp add: last_seq_def take_Suc_conv_app_nth)
qed

subsection \<open>The interface\<close>

text \<open>
  What the hub relies on. A request says which of the trait's reservation methods is called and
  what the reserver reads from its surroundings then; \<open>held s\<close> are the events the reserver answers for. A refused
  reservation and a dropped one leave them as they were; a committed one appends the event.
\<close>

locale admission_reserver =
  fixes reserve :: "'st \<Rightarrow> AdmissionSize \<Rightarrow> 'req \<Rightarrow> ('err + 'res) \<times> 'st"
    and commit_reservation :: "'st \<Rightarrow> 'res \<Rightarrow> AcceptedDiagnosticEvent \<Rightarrow> 'st"
    and drop_reservation :: "'st \<Rightarrow> 'res \<Rightarrow> 'st"
    and held :: "'st \<Rightarrow> AcceptedDiagnosticEvent list"
    and reserver_inv :: "'st \<Rightarrow> bool"
  assumes reserve_refused:
      "reserver_inv s \<Longrightarrow> reserve s sz q = (Inl err, s') \<Longrightarrow> reserver_inv s' \<and> held s' = held s"
    and reserve_committed:
      "reserver_inv s \<Longrightarrow> reserve s (AdmissionSize_one_event (accepted_len a)) q = (Inr r, s') \<Longrightarrow>
       reserver_inv (commit_reservation s' r a) \<and> held (commit_reservation s' r a) = held s @ [a]"
    and reserve_dropped:
      "reserver_inv s \<Longrightarrow> reserve s sz q = (Inr r, s') \<Longrightarrow>
       reserver_inv (drop_reservation s' r) \<and> held (drop_reservation s' r) = held s"

end
