(* ===== verification/Store_Batch.thy ===== *)
theory Store_Batch
  imports Accepted
begin

section \<open>Keys, batches and the committed watermark\<close>

text \<open>
  Models \<^verbatim>\<open>key.rs\<close>, \<^verbatim>\<open>batch.rs\<close> and \<^verbatim>\<open>watermark.rs\<close> of
  \<^verbatim>\<open>rust/crates/troupe-diagnostics-runtime/src/store\<close>: the eight-byte keys under which
  64-bit numbers are stored, the accumulator that groups accepted events into batches, and
  the watermark that a committed batch moves. A \<^verbatim>\<open>Duration\<close> is a number of nanoseconds.

  Shown here: keys order like the numbers they hold; the accumulator neither loses nor
  reorders an event, and each batch it emits is one that the checked constructor accepts.
\<close>

subsection \<open>Keys\<close>

type_synonym sortable_key = bytes

datatype StoreKeyError = InvalidWidth | NonCanonicalDecimal | OutOfRange

definition SortableU64Key_new :: "u64 \<Rightarrow> sortable_key" where
  "SortableU64Key_new w =
     map (\<lambda>i. ucast (drop_bit i w)) [56, 48, 40, 32, 24, 16, 8, 0]"

definition be_value :: "bytes \<Rightarrow> nat" where
  "be_value bs = foldl (\<lambda>n b. 256 * n + unat b) 0 bs"

definition SortableU64Key_get :: "sortable_key \<Rightarrow> u64" where
  "SortableU64Key_get k = of_nat (be_value k)"

definition SortableU64Key_from_slice :: "bytes \<Rightarrow> StoreKeyError + sortable_key" where
  "SortableU64Key_from_slice bs = (if length bs = 8 then Inr bs else Inl InvalidWidth)"

definition SortableU64Key_parse_canonical_decimal :: "string \<Rightarrow> StoreKeyError + sortable_key" where
  "SortableU64Key_parse_canonical_decimal s =
     (if s = [] \<or> \<not> list_all is_ascii_digit s \<or> (length s > 1 \<and> hd s = CHR ''0'')
      then Inl NonCanonicalDecimal
      else res_bind (ok_or OutOfRange (parse_u64 s)) (\<lambda>w. Inr (SortableU64Key_new w)))"

definition SortableU64Key_canonical_decimal :: "sortable_key \<Rightarrow> string" where
  "SortableU64Key_canonical_decimal k = nat_decimal (unat (SortableU64Key_get k))"

text \<open>The derived order on \<^verbatim>\<open>[u8; 8]\<close> is lexicographic, as is the order of the database on blobs.\<close>

fun bytes_less :: "bytes \<Rightarrow> bytes \<Rightarrow> bool" where
  "bytes_less xs [] = False"
| "bytes_less [] (y # ys) = True"
| "bytes_less (x # xs) (y # ys) = (x < y \<or> x = y \<and> bytes_less xs ys)"

lemma be_value_Nil [simp]: "be_value [] = 0"
  by (simp add: be_value_def)

lemma be_value_snoc [simp]: "be_value (bs @ [b]) = 256 * be_value bs + unat b"
  by (simp add: be_value_def)

lemma be_value_append: "be_value (as @ bs) = be_value as * 256 ^ length bs + be_value bs"
proof (induction bs rule: rev_induct)
  case Nil
  then show ?case by simp
next
  case (snoc b bs)
  have "be_value (as @ bs @ [b]) = 256 * be_value (as @ bs) + unat b"
    by (metis append.assoc be_value_snoc)
  with snoc show ?case by simp
qed

lemma be_value_Cons: "be_value (b # bs) = unat b * 256 ^ length bs + be_value bs"
  using be_value_append [of "[b]" bs] be_value_snoc [of "[]" b] by simp

lemma unat_byte: "unat (b :: 8 word) < 256"
  using unsigned_less [of b] by simp

lemma be_value_less: "be_value bs < 256 ^ length bs"
proof (induction bs)
  case Nil
  then show ?case by simp
next
  case (Cons b bs)
  have "unat b * 256 ^ length bs \<le> 255 * 256 ^ length bs"
    using unat_byte [of b] by (intro mult_right_mono) simp_all
  then have "unat b * 256 ^ length bs + be_value bs < 255 * 256 ^ length bs + 256 ^ length bs"
    using Cons.IH by (rule add_le_less_mono)
  then show ?case by (simp add: be_value_Cons)
qed

lemma bytes_less_iff:
  "length xs = length ys \<Longrightarrow> bytes_less xs ys \<longleftrightarrow> be_value xs < be_value ys"
proof (induction xs ys rule: bytes_less.induct)
  case (3 x xs y ys)
  then have len: "length xs = length ys" by simp
  have step: "unat a * 256 ^ length ys + be_value as < unat b * 256 ^ length ys + be_value bs"
    if "a < b" "length as = length ys" for a b :: "8 word" and as bs
  proof -
    have "unat a * 256 ^ length ys + be_value as < unat a * 256 ^ length ys + 256 ^ length ys"
      using be_value_less [of as] that(2) by simp
    also have "\<dots> = Suc (unat a) * 256 ^ length ys" by simp
    also have "\<dots> \<le> unat b * 256 ^ length ys"
      using that(1) by (intro mult_right_mono) (auto simp: word_less_nat_alt)
    finally show ?thesis by simp
  qed
  consider "x < y" | "x = y" | "y < x" by fastforce
  then show ?case
  proof cases
    case 1
    with step [OF 1 len] len show ?thesis by (simp add: be_value_Cons)
  next
    case 2
    with 3 len show ?thesis by (simp add: be_value_Cons)
  next
    case 3
    with step [OF 3 refl] len show ?thesis by (auto simp: be_value_Cons dest: order.asym)
  qed
qed simp_all

lemma unat_key_byte: "unat (ucast (drop_bit i (w :: u64)) :: 8 word) = unat w div 2 ^ i mod 256"
  by (simp only: unsigned_ucast_eq unat_drop_bit_eq) (simp add: drop_bit_eq_div take_bit_eq_mod)

lemma be_value_key: "be_value (SortableU64Key_new w) = unat w"
proof -
  define n where "n = unat w"
  have n: "n < 2 ^ 64" unfolding n_def by (rule unat_less_2p64)
  have up: "256 * (n div 2 ^ (i + 8)) + n div 2 ^ i mod 256 = n div 2 ^ i" for i
    by (simp add: power_add div_mult2_eq)
  have "n div 2 ^ 56 mod 256 = n div 2 ^ 56" using n by simp
  then show ?thesis
    using up [of 48] up [of 40] up [of 32] up [of 24] up [of 16] up [of 8] up [of 0] unat_key_byte [of 0 w]
    by (simp add: SortableU64Key_new_def be_value_def unat_key_byte flip: n_def)
qed

lemma key_get_new [simp]: "SortableU64Key_get (SortableU64Key_new w) = w"
  by (simp add: SortableU64Key_get_def be_value_key)

lemma key_new_length [simp]: "length (SortableU64Key_new w) = 8"
  by (simp add: SortableU64Key_new_def)

lemma be_value_inject: "length xs = length ys \<Longrightarrow> be_value xs = be_value ys \<Longrightarrow> xs = ys"
proof (induction xs ys rule: list_induct2)
  case (Cons x xs y ys)
  then have eq: "unat x * 256 ^ length ys + be_value xs = unat y * 256 ^ length ys + be_value ys"
    by (simp add: be_value_Cons)
  have l: "be_value xs < 256 ^ length ys" "be_value ys < 256 ^ length ys"
    using be_value_less [of xs] be_value_less [of ys] Cons.hyps by simp_all
  have split: "(a * 256 ^ length ys + u) div 256 ^ length ys = a" if "u < 256 ^ length ys"
    for a u :: nat
    using that by simp
  have "unat x = unat y" using split [OF l(1), of "unat x"] split [OF l(2), of "unat y"] eq by simp
  then have "x = y" by (rule unsigned_word_eqI)
  with eq Cons.IH show ?case by simp
qed simp

lemma key_new_get: "length k = 8 \<Longrightarrow> SortableU64Key_new (SortableU64Key_get k) = k"
proof (rule be_value_inject)
  assume k: "length k = 8"
  with be_value_less [of k] have "be_value k < 2 ^ 64" by simp
  then show "be_value (SortableU64Key_new (SortableU64Key_get k)) = be_value k"
    by (simp add: be_value_key SortableU64Key_get_def unat_of_nat)
qed simp

subsection \<open>Batches\<close>

abbreviation MAX_BATCH_AGE :: nat where "MAX_BATCH_AGE \<equiv> 25000000"
abbreviation MAX_BATCH_EVENTS :: usize where "MAX_BATCH_EVENTS \<equiv> 512"
abbreviation MAX_BATCH_CANONICAL_BYTES :: usize where "MAX_BATCH_CANONICAL_BYTES \<equiv> 1024 * 1024"

datatype BatchError =
    Empty
  | RunIdentityMismatch canonical_uuid canonical_uuid
  | NonCanonicalSequence u64 u64
  | SequenceExhausted
  | CanonicalByteCountOverflow
  | ClockRegressed

record EventBatch =
  eb_events :: "AcceptedDiagnosticEvent list"
  eb_canonical_bytes :: usize

text \<open>The loop of \<^verbatim>\<open>EventBatch::new\<close>.\<close>

fun batch_scan ::
  "canonical_uuid \<Rightarrow> u64 option \<Rightarrow> usize \<Rightarrow> AcceptedDiagnosticEvent list \<Rightarrow> BatchError + usize" where
  "batch_scan run_id previous bytes [] = Inr bytes"
| "batch_scan run_id previous bytes (e # es) =
     (if accepted_run e \<noteq> run_id then Inl (RunIdentityMismatch run_id (accepted_run e))
      else res_bind
        (case previous of
           None \<Rightarrow> Inr ()
         | Some p \<Rightarrow>
             res_bind (ok_or SequenceExhausted (checked_add_u64 p 1)) (\<lambda>expected.
               if accepted_seq e \<noteq> expected then Inl (NonCanonicalSequence expected (accepted_seq e))
               else Inr ()))
        (\<lambda>_. res_bind (ok_or CanonicalByteCountOverflow (checked_add bytes (accepted_len e)))
           (\<lambda>bytes'. batch_scan run_id (Some (accepted_seq e)) bytes' es)))"

definition EventBatch_new :: "AcceptedDiagnosticEvent list \<Rightarrow> BatchError + EventBatch" where
  "EventBatch_new events =
     (case events of
        [] \<Rightarrow> Inl Empty
      | first # _ \<Rightarrow>
          res_bind (batch_scan (accepted_run first) None 0 events) (\<lambda>bytes.
            Inr \<lparr> eb_events = events, eb_canonical_bytes = bytes \<rparr>))"

definition EventBatch_first :: "EventBatch \<Rightarrow> AcceptedDiagnosticEvent" where
  "EventBatch_first b = hd (eb_events b)"

definition EventBatch_last :: "EventBatch \<Rightarrow> AcceptedDiagnosticEvent" where
  "EventBatch_last b = last (eb_events b)"

definition EventBatch_run_id :: "EventBatch \<Rightarrow> canonical_uuid" where
  "EventBatch_run_id b = accepted_run (EventBatch_first b)"

datatype BatchTrigger = OldestAge | EventCount | CanonicalBytes | ExplicitFlush

record TriggeredBatch =
  tb_batch :: EventBatch
  tb_trigger :: BatchTrigger

record BatchAccumulator =
  ba_pending :: "AcceptedDiagnosticEvent list"
  ba_pending_bytes :: usize
  ba_oldest_at :: "nat option"
  ba_last_observed_at :: "nat option"
  ba_last_sequence :: "u64 option"
  ba_run_id :: "canonical_uuid option"

definition BatchAccumulator_new :: BatchAccumulator where
  "BatchAccumulator_new = \<lparr> ba_pending = [], ba_pending_bytes = 0, ba_oldest_at = None,
     ba_last_observed_at = None, ba_last_sequence = None, ba_run_id = None \<rparr>"

definition observe_time :: "BatchAccumulator \<Rightarrow> nat \<Rightarrow> BatchError + BatchAccumulator" where
  "observe_time acc now =
     (if (case ba_last_observed_at acc of None \<Rightarrow> False | Some l \<Rightarrow> now < l) then Inl ClockRegressed
      else Inr (acc\<lparr> ba_last_observed_at := Some now \<rparr>))"

definition validate_next :: "BatchAccumulator \<Rightarrow> AcceptedDiagnosticEvent \<Rightarrow> BatchError + unit" where
  "validate_next acc e =
     res_bind
       (case ba_run_id acc of
          None \<Rightarrow> Inr ()
        | Some run_id \<Rightarrow>
            if accepted_run e \<noteq> run_id then Inl (RunIdentityMismatch run_id (accepted_run e)) else Inr ())
       (\<lambda>_. case ba_last_sequence acc of
          None \<Rightarrow> Inr ()
        | Some p \<Rightarrow>
            res_bind (ok_or SequenceExhausted (checked_add_u64 p 1)) (\<lambda>expected.
              if accepted_seq e \<noteq> expected then Inl (NonCanonicalSequence expected (accepted_seq e))
              else Inr ()))"

definition oldest_is_due :: "BatchAccumulator \<Rightarrow> nat \<Rightarrow> bool" where
  "oldest_is_due acc now \<longleftrightarrow>
     (case ba_oldest_at acc of None \<Rightarrow> False | Some oldest \<Rightarrow> saturating_sub now oldest \<ge> MAX_BATCH_AGE)"

definition take_batch :: "BatchAccumulator \<Rightarrow> BatchTrigger \<Rightarrow> TriggeredBatch \<times> BatchAccumulator" where
  "take_batch acc trigger =
     (\<lparr> tb_batch = \<lparr> eb_events = ba_pending acc, eb_canonical_bytes = ba_pending_bytes acc \<rparr>,
        tb_trigger = trigger \<rparr>,
      acc\<lparr> ba_pending := [], ba_pending_bytes := 0, ba_oldest_at := None \<rparr>)"

definition push_trigger :: "BatchAccumulator \<Rightarrow> nat \<Rightarrow> BatchTrigger option" where
  "push_trigger acc now =
     (if oldest_is_due acc now then Some OldestAge
      else if length (ba_pending acc) \<ge> MAX_BATCH_EVENTS then Some EventCount
      else if ba_pending_bytes acc \<ge> MAX_BATCH_CANONICAL_BYTES then Some CanonicalBytes
      else None)"

definition BatchAccumulator_push ::
  "BatchAccumulator \<Rightarrow> AcceptedDiagnosticEvent \<Rightarrow> nat \<Rightarrow>
   (BatchError + TriggeredBatch option) \<times> BatchAccumulator" where
  "BatchAccumulator_push acc e now =
     (case validate_next acc e of
        Inl err \<Rightarrow> (Inl err, acc)
      | Inr _ \<Rightarrow>
     (case observe_time acc now of
        Inl err \<Rightarrow> (Inl err, acc)
      | Inr acc \<Rightarrow>
     (case checked_add (ba_pending_bytes acc) (accepted_len e) of
        None \<Rightarrow> (Inl CanonicalByteCountOverflow, acc)
      | Some bytes \<Rightarrow>
          let acc = acc\<lparr> ba_pending_bytes := bytes,
                ba_oldest_at := Some (case ba_oldest_at acc of None \<Rightarrow> now | Some oldest \<Rightarrow> oldest),
                ba_last_sequence := Some (accepted_seq e), ba_run_id := Some (accepted_run e),
                ba_pending := ba_pending acc @ [e] \<rparr> in
          (case push_trigger acc now of
             None \<Rightarrow> (Inr None, acc)
           | Some trigger \<Rightarrow> (let (b, acc') = take_batch acc trigger in (Inr (Some b), acc'))))))"

definition BatchAccumulator_poll ::
  "BatchAccumulator \<Rightarrow> nat \<Rightarrow> (BatchError + TriggeredBatch option) \<times> BatchAccumulator" where
  "BatchAccumulator_poll acc now =
     (case observe_time acc now of
        Inl err \<Rightarrow> (Inl err, acc)
      | Inr acc \<Rightarrow>
          if oldest_is_due acc now
          then (let (b, acc') = take_batch acc OldestAge in (Inr (Some b), acc'))
          else (Inr None, acc))"

definition BatchAccumulator_flush ::
  "BatchAccumulator \<Rightarrow> (BatchError + TriggeredBatch option) \<times> BatchAccumulator" where
  "BatchAccumulator_flush acc =
     (if ba_pending acc = [] then (Inr None, acc)
      else (let (b, acc') = take_batch acc ExplicitFlush in (Inr (Some b), acc')))"

subsection \<open>The committed watermark\<close>

record CommitNotification =
  cn_run_id :: canonical_uuid
  cn_previous :: sortable_key
  cn_committed :: sortable_key
  cn_event_count :: usize
  cn_canonical_bytes :: usize

datatype WatermarkError =
    WatermarkRunMismatch canonical_uuid canonical_uuid
  | WatermarkSequence u64 u64
  | StaleCandidate u64 u64
  | WatermarkExhausted

record CommittedWatermark =
  cw_run_id :: canonical_uuid
  cw_value :: sortable_key

definition CommittedWatermark_fresh :: "canonical_uuid \<Rightarrow> CommittedWatermark" where
  "CommittedWatermark_fresh run_id = \<lparr> cw_run_id = run_id, cw_value = SortableU64Key_new 0 \<rparr>"

definition CommittedWatermark_candidate ::
  "CommittedWatermark \<Rightarrow> EventBatch \<Rightarrow> WatermarkError + CommitNotification" where
  "CommittedWatermark_candidate w b =
     (if EventBatch_run_id b \<noteq> cw_run_id w
      then Inl (WatermarkRunMismatch (cw_run_id w) (EventBatch_run_id b))
      else res_bind (ok_or WatermarkExhausted (checked_add_u64 (SortableU64Key_get (cw_value w)) 1))
        (\<lambda>expected.
          if accepted_seq (EventBatch_first b) \<noteq> expected
          then Inl (WatermarkSequence expected (accepted_seq (EventBatch_first b)))
          else Inr \<lparr> cn_run_id = cw_run_id w, cn_previous = cw_value w,
            cn_committed = SortableU64Key_new (accepted_seq (EventBatch_last b)),
            cn_event_count = length (eb_events b), cn_canonical_bytes = eb_canonical_bytes b \<rparr>))"

definition CommittedWatermark_advance ::
  "CommittedWatermark \<Rightarrow> CommitNotification \<Rightarrow> (WatermarkError + unit) \<times> CommittedWatermark" where
  "CommittedWatermark_advance w n =
     (if cn_run_id n \<noteq> cw_run_id w
      then (Inl (WatermarkRunMismatch (cw_run_id w) (cn_run_id n)), w)
      else if cn_previous n \<noteq> cw_value w
      then (Inl (StaleCandidate (SortableU64Key_get (cw_value w)) (SortableU64Key_get (cn_previous n))), w)
      else (Inr (), w\<lparr> cw_value := cn_committed n \<rparr>))"

subsection \<open>What a batch is\<close>

lemma checked_next_Some [simp]: "checked_add_u64 p 1 = Some x \<longleftrightarrow> unat p < 2 ^ 64 - 1 \<and> x = p + 1"
  using unat_less_2p64 [of p] by (auto simp: checked_add_u64_one)

definition batch_bytes :: "AcceptedDiagnosticEvent list \<Rightarrow> nat" where
  "batch_bytes es = sum_list (map accepted_len es)"

lemma batch_bytes_simps [simp]:
  "batch_bytes [] = 0" "batch_bytes (e # es) = accepted_len e + batch_bytes es"
  "batch_bytes (es @ fs) = batch_bytes es + batch_bytes fs"
  by (simp_all add: batch_bytes_def)

text \<open>A batch: one Run, consecutive sequences, the bytes added up.\<close>

definition well_batched :: "AcceptedDiagnosticEvent list \<Rightarrow> bool" where
  "well_batched es \<longleftrightarrow> es \<noteq> [] \<and> (\<forall>e \<in> set es. accepted_run e = accepted_run (hd es)) \<and>
     run_from (accepted_seq (hd es)) (tl es) \<and> batch_bytes es \<le> usize_max"

lemma batch_scan_iff:
  "bytes \<le> usize_max \<Longrightarrow>
   batch_scan run_id (Some p) bytes es = Inr n \<longleftrightarrow>
     (\<forall>e \<in> set es. accepted_run e = run_id) \<and> run_from p es \<and>
     n = bytes + batch_bytes es \<and> n \<le> usize_max"
proof (induction es arbitrary: p bytes)
  case Nil
  then show ?case by auto
next
  case (Cons e es)
  show ?case
  proof (cases "bytes + accepted_len e \<le> usize_max")
    case True
    have "batch_scan run_id (Some p) bytes (e # es) = Inr n \<longleftrightarrow>
        accepted_run e = run_id \<and> unat p < 2 ^ 64 - 1 \<and> accepted_seq e = p + 1 \<and>
        batch_scan run_id (Some (accepted_seq e)) (bytes + accepted_len e) es = Inr n"
      using True by (auto simp: checked_add_Some split: if_splits)
    also have "\<dots> \<longleftrightarrow> (\<forall>e \<in> set (e # es). accepted_run e = run_id) \<and> run_from p (e # es) \<and>
        n = bytes + batch_bytes (e # es) \<and> n \<le> usize_max"
      unfolding Cons.IH [OF True] by (auto simp: add.assoc)
    finally show ?thesis .
  next
    case False
    then have "batch_scan run_id (Some p) bytes (e # es) \<noteq> Inr n"
      by (auto simp: checked_add_Some split: if_splits)
    with False show ?thesis by auto
  qed
qed

lemma EventBatch_new_iff:
  "EventBatch_new es = Inr b \<longleftrightarrow>
     well_batched es \<and> b = \<lparr> eb_events = es, eb_canonical_bytes = batch_bytes es \<rparr>"
proof (cases es)
  case Nil
  then show ?thesis by (simp add: EventBatch_new_def well_batched_def)
next
  case (Cons e rest)
  show ?thesis
  proof (cases "accepted_len e \<le> usize_max")
    case True
    then show ?thesis
      using batch_scan_iff [OF True, of "accepted_run e" "accepted_seq e" rest]
      by (auto simp: EventBatch_new_def Cons well_batched_def checked_add_def)
  next
    case False
    then show ?thesis
      by (auto simp: EventBatch_new_def Cons well_batched_def checked_add_def)
  qed
qed

subsection \<open>What the accumulator does\<close>

definition acc_inv :: "BatchAccumulator \<Rightarrow> bool" where
  "acc_inv acc \<longleftrightarrow>
     ba_pending_bytes acc = batch_bytes (ba_pending acc) \<and>
     (ba_oldest_at acc = None \<longleftrightarrow> ba_pending acc = []) \<and>
     (ba_pending acc \<noteq> [] \<longrightarrow> well_batched (ba_pending acc) \<and>
        ba_run_id acc = Some (accepted_run (hd (ba_pending acc))) \<and>
        ba_last_sequence acc = Some (accepted_seq (last (ba_pending acc)))) \<and>
     length (ba_pending acc) < MAX_BATCH_EVENTS \<and>
     ba_pending_bytes acc < MAX_BATCH_CANONICAL_BYTES"

datatype acc_op = Push AcceptedDiagnosticEvent nat | Poll nat | Flush

fun acc_do ::
  "BatchAccumulator \<Rightarrow> acc_op \<Rightarrow> (BatchError + TriggeredBatch option) \<times> BatchAccumulator" where
  "acc_do acc (Push e now) = BatchAccumulator_push acc e now"
| "acc_do acc (Poll now) = BatchAccumulator_poll acc now"
| "acc_do acc Flush = BatchAccumulator_flush acc"

fun acc_taken :: "acc_op \<Rightarrow> BatchError + 'a \<Rightarrow> AcceptedDiagnosticEvent list" where
  "acc_taken (Push e now) (Inr _) = [e]"
| "acc_taken _ _ = []"

fun acc_emitted :: "BatchError + TriggeredBatch option \<Rightarrow> EventBatch list" where
  "acc_emitted (Inr (Some b)) = [tb_batch b]"
| "acc_emitted _ = []"

text \<open>
  A batch that was emitted: the constructor accepts its events and gives the same batch, it
  holds at most 512 events, and without its last event it is below one mebibyte.
\<close>

definition batch_emittable :: "EventBatch \<Rightarrow> bool" where
  "batch_emittable b \<longleftrightarrow> EventBatch_new (eb_events b) = Inr b \<and>
     length (eb_events b) \<le> MAX_BATCH_EVENTS \<and>
     batch_bytes (butlast (eb_events b)) < MAX_BATCH_CANONICAL_BYTES"

lemma acc_inv_new: "acc_inv BatchAccumulator_new"
  by (simp add: acc_inv_def BatchAccumulator_new_def)

lemma batch_bytes_butlast: "batch_bytes (butlast es) \<le> batch_bytes es"
  by (cases es rule: rev_cases) auto

lemma take_batch_ok:
  assumes "take_batch acc trigger = (b, acc')" "well_batched (ba_pending acc)"
    "ba_pending_bytes acc = batch_bytes (ba_pending acc)"
    "length (ba_pending acc) \<le> MAX_BATCH_EVENTS"
    "batch_bytes (butlast (ba_pending acc)) < MAX_BATCH_CANONICAL_BYTES"
  shows "acc_inv acc' \<and> ba_pending acc' = [] \<and> eb_events (tb_batch b) = ba_pending acc \<and>
    batch_emittable (tb_batch b)"
  using assms by (auto simp: take_batch_def acc_inv_def batch_emittable_def EventBatch_new_iff)

lemma observe_time_Inr:
  "observe_time acc now = Inr acc' \<Longrightarrow> acc' = acc\<lparr> ba_last_observed_at := Some now \<rparr>"
  by (auto simp: observe_time_def split: if_splits)

lemma acc_inv_observed [simp]: "acc_inv (acc\<lparr> ba_last_observed_at := t \<rparr>) = acc_inv acc"
  by (simp add: acc_inv_def)

lemma validate_next_extends:
  assumes "acc_inv acc" "validate_next acc e = Inr ()" "batch_bytes (ba_pending acc @ [e]) \<le> usize_max"
  shows "well_batched (ba_pending acc @ [e])"
proof (cases "ba_pending acc = []")
  case True
  with assms(3) show ?thesis by (simp add: well_batched_def)
next
  case False
  with assms(1) have w: "well_batched (ba_pending acc)"
    and r: "ba_run_id acc = Some (accepted_run (hd (ba_pending acc)))"
    and s: "ba_last_sequence acc = Some (accepted_seq (last (ba_pending acc)))"
    by (simp_all add: acc_inv_def)
  obtain a as where p: "ba_pending acc = a # as" using False by (cases "ba_pending acc") auto
  have l: "last_seq (accepted_seq a) as = accepted_seq (last (ba_pending acc))"
    by (simp add: p last_seq_def)
  from assms(2) r s have "accepted_run e = accepted_run a"
      "unat (accepted_seq (last (ba_pending acc))) < 2 ^ 64 - 1"
      "accepted_seq e = accepted_seq (last (ba_pending acc)) + 1"
    by (auto simp: validate_next_def p split: if_splits)
  with w p l assms(3) show ?thesis by (auto simp: well_batched_def)
qed

lemma push_ok:
  assumes inv: "acc_inv acc" and p: "BatchAccumulator_push acc e now = (res, acc')"
  shows "acc_inv acc' \<and>
    concat (map eb_events (acc_emitted res)) @ ba_pending acc'
      = ba_pending acc @ acc_taken (Push e now) res \<and>
    (\<forall>b \<in> set (acc_emitted res). batch_emittable b)"
proof (cases "validate_next acc e")
  case (Inl err)
  with p inv show ?thesis by (auto simp: BatchAccumulator_push_def)
next
  case (Inr u)
  show ?thesis
  proof (cases "observe_time acc now")
    case o: (Inl err)
    with p inv Inr show ?thesis by (auto simp: BatchAccumulator_push_def)
  next
    case o: (Inr acc1)
    then have acc1: "acc1 = acc\<lparr> ba_last_observed_at := Some now \<rparr>" by (rule observe_time_Inr)
    show ?thesis
    proof (cases "checked_add (ba_pending_bytes acc1) (accepted_len e)")
      case None
      with p inv Inr o acc1 show ?thesis by (auto simp: BatchAccumulator_push_def)
    next
      case (Some bytes)
      define acc2 where "acc2 = acc1\<lparr> ba_pending_bytes := bytes,
                ba_oldest_at := Some (case ba_oldest_at acc1 of None \<Rightarrow> now | Some oldest \<Rightarrow> oldest),
                ba_last_sequence := Some (accepted_seq e), ba_run_id := Some (accepted_run e),
                ba_pending := ba_pending acc1 @ [e] \<rparr>"
      have pend: "ba_pending acc2 = ba_pending acc @ [e]" "ba_pending_bytes acc2 = batch_bytes (ba_pending acc2)"
        and le: "batch_bytes (ba_pending acc2) \<le> usize_max"
        using Some inv by (auto simp: acc2_def acc1 acc_inv_def checked_add_Some)
      have w: "well_batched (ba_pending acc2)"
        using validate_next_extends [OF inv] Inr le pend(1) by simp
      have small: "length (ba_pending acc2) \<le> MAX_BATCH_EVENTS"
        "batch_bytes (butlast (ba_pending acc2)) < MAX_BATCH_CANONICAL_BYTES"
        using inv pend(1) by (auto simp: acc_inv_def)
      have p': "(case push_trigger acc2 now of None \<Rightarrow> (Inr None, acc2)
           | Some trigger \<Rightarrow> (let (b, acc') = take_batch acc2 trigger in (Inr (Some b), acc')))
           = (res, acc')"
        using p Inr o Some unfolding acc2_def by (simp add: BatchAccumulator_push_def Let_def)
      show ?thesis
      proof (cases "push_trigger acc2 now")
        case t: None
        have "accepted_run (hd (ba_pending acc2)) = accepted_run e"
          using w pend(1) by (auto simp: well_batched_def)
        with t w pend have "acc_inv acc2"
          by (auto simp: acc_inv_def push_trigger_def acc2_def not_le split: if_splits)
        with p' t pend show ?thesis by auto
      next
        case t: (Some trigger)
        obtain b a where tb: "take_batch acc2 trigger = (b, a)" by fastforce
        from take_batch_ok [OF tb w pend(2) small] p' t tb pend show ?thesis by auto
      qed
    qed
  qed
qed

lemma pending_emittable:
  assumes "acc_inv acc" "ba_pending acc \<noteq> []" "take_batch acc trigger = (b, acc')"
  shows "acc_inv acc' \<and> ba_pending acc' = [] \<and> eb_events (tb_batch b) = ba_pending acc \<and>
    batch_emittable (tb_batch b)"
proof -
  from assms(1,2) have "well_batched (ba_pending acc)"
      "ba_pending_bytes acc = batch_bytes (ba_pending acc)"
      "length (ba_pending acc) \<le> MAX_BATCH_EVENTS" "batch_bytes (ba_pending acc) < MAX_BATCH_CANONICAL_BYTES"
    by (auto simp: acc_inv_def)
  with take_batch_ok [OF assms(3)] batch_bytes_butlast [of "ba_pending acc"] show ?thesis by simp
qed

lemma acc_do_ok:
  assumes inv: "acc_inv acc" and d: "acc_do acc oper = (res, acc')"
  shows "acc_inv acc' \<and>
    concat (map eb_events (acc_emitted res)) @ ba_pending acc' = ba_pending acc @ acc_taken oper res \<and>
    (\<forall>b \<in> set (acc_emitted res). batch_emittable b)"
proof (cases oper)
  case (Push e now)
  with assms push_ok show ?thesis by simp
next
  case (Poll now)
  show ?thesis
  proof (cases "observe_time acc now")
    case (Inl err)
    with assms Poll show ?thesis by (auto simp: BatchAccumulator_poll_def)
  next
    case (Inr acc1)
    then have acc1: "acc1 = acc\<lparr> ba_last_observed_at := Some now \<rparr>" by (rule observe_time_Inr)
    with inv have i1: "acc_inv acc1" by simp
    show ?thesis
    proof (cases "oldest_is_due acc1 now")
      case True
      with i1 have ne: "ba_pending acc1 \<noteq> []"
        by (auto simp: oldest_is_due_def acc_inv_def split: option.splits)
      obtain b a where tb: "take_batch acc1 OldestAge = (b, a)" by fastforce
      from pending_emittable [OF i1 ne tb] d Poll Inr True tb acc1 show ?thesis
        by (auto simp: BatchAccumulator_poll_def)
    next
      case False
      with d Poll Inr i1 acc1 show ?thesis by (auto simp: BatchAccumulator_poll_def)
    qed
  qed
next
  case Flush
  show ?thesis
  proof (cases "ba_pending acc = []")
    case True
    with assms Flush show ?thesis by (auto simp: BatchAccumulator_flush_def)
  next
    case False
    obtain b a where tb: "take_batch acc ExplicitFlush = (b, a)" by fastforce
    from pending_emittable [OF inv False tb] d Flush False tb show ?thesis
      by (auto simp: BatchAccumulator_flush_def)
  qed
qed

text \<open>A sequence of operations: the events taken in, the batches given out, the rest.\<close>

fun acc_run ::
  "BatchAccumulator \<Rightarrow> acc_op list \<Rightarrow>
   AcceptedDiagnosticEvent list \<times> EventBatch list \<times> BatchAccumulator" where
  "acc_run acc [] = ([], [], acc)"
| "acc_run acc (oper # opers) =
     (let (res, acc') = acc_do acc oper; (taken, batches, acc'') = acc_run acc' opers
      in (acc_taken oper res @ taken, acc_emitted res @ batches, acc''))"

lemma acc_run_ok:
  "acc_inv acc \<Longrightarrow> acc_run acc opers = (taken, batches, acc') \<Longrightarrow>
   acc_inv acc' \<and> concat (map eb_events batches) @ ba_pending acc' = ba_pending acc @ taken \<and>
   (\<forall>b \<in> set batches. batch_emittable b)"
proof (induction opers arbitrary: acc taken batches acc')
  case Nil
  then show ?case by simp
next
  case (Cons oper opers)
  obtain res acc1 where d: "acc_do acc oper = (res, acc1)" by fastforce
  obtain taken1 batches1 acc2 where r: "acc_run acc1 opers = (taken1, batches1, acc2)"
    by (cases "acc_run acc1 opers") auto
  from Cons.prems(2) d r have eq: "taken = acc_taken oper res @ taken1"
      "batches = acc_emitted res @ batches1" "acc' = acc2" by auto
  from acc_do_ok [OF Cons.prems(1) d] have i: "acc_inv acc1"
    and c: "concat (map eb_events (acc_emitted res)) @ ba_pending acc1 = ba_pending acc @ acc_taken oper res"
    and e: "\<forall>b \<in> set (acc_emitted res). batch_emittable b" by blast+
  from Cons.IH [OF i r] have "acc_inv acc2"
      "concat (map eb_events batches1) @ ba_pending acc2 = ba_pending acc1 @ taken1"
      "\<forall>b \<in> set batches1. batch_emittable b" by blast+
  with c e eq show ?case by (metis UnE append_assoc concat_append map_append set_append)
qed

subsection \<open>Properties\<close>

text \<open>
  The eight-byte key of a 64-bit number holds the number, every eight-byte string is the key
  of one, and the byte order of keys (that of the derived comparison and of the database) is
  the order of the numbers.
\<close>

theorem sortable_keys_sorted:
  "SortableU64Key_get (SortableU64Key_new v) = v \<and>
   (bytes_less (SortableU64Key_new v) (SortableU64Key_new w) \<longleftrightarrow> v < w) \<and>
   (SortableU64Key_from_slice bs = Inr k \<longleftrightarrow> k = bs \<and> (\<exists>w. bs = SortableU64Key_new w)) \<and>
   SortableU64Key_parse_canonical_decimal (SortableU64Key_canonical_decimal (SortableU64Key_new v))
     = Inr (SortableU64Key_new v)"
proof (intro conjI)
  show "SortableU64Key_get (SortableU64Key_new v) = v" by simp
  show "bytes_less (SortableU64Key_new v) (SortableU64Key_new w) \<longleftrightarrow> v < w"
    by (simp add: bytes_less_iff be_value_key word_less_nat_alt)
  show "SortableU64Key_from_slice bs = Inr k \<longleftrightarrow> k = bs \<and> (\<exists>w. bs = SortableU64Key_new w)"
    using key_new_get [of bs] by (auto simp: SortableU64Key_from_slice_def intro: sym)
  have d: "canonical_digits (nat_decimal (unat v))" by simp
  then have p: "parse_u64 (nat_decimal (unat v)) = Some v"
    using parse_u64_digits [of "nat_decimal (unat v)"] unat_less_2p64 [of v] nat_decimal_digits
    by (simp add: canonical_digits_def)
  show "SortableU64Key_parse_canonical_decimal (SortableU64Key_canonical_decimal (SortableU64Key_new v))
     = Inr (SortableU64Key_new v)"
    using d p by (auto simp: SortableU64Key_parse_canonical_decimal_def
        SortableU64Key_canonical_decimal_def canonical_digits_def)
qed

text \<open>
  C20. Whatever sequence of pushes, polls and flushes an accumulator sees, it loses, duplicates
  and reorders nothing: the events of the batches it gave out, followed by those it still
  holds, are the events it took in. Each batch given out is one that \<open>EventBatch_new\<close> accepts
  (not empty, one Run, consecutive sequences, bytes added up), holds at most 512 events and
  stays below one mebibyte without its last event; what is still held is below both limits.
\<close>

theorem accumulator_faithful:
  assumes "acc_run BatchAccumulator_new opers = (taken, batches, acc)"
  shows "concat (map eb_events batches) @ ba_pending acc = taken \<and>
    (\<forall>b \<in> set batches. EventBatch_new (eb_events b) = Inr b \<and>
       length (eb_events b) \<le> MAX_BATCH_EVENTS \<and>
       batch_bytes (butlast (eb_events b)) < MAX_BATCH_CANONICAL_BYTES) \<and>
    length (ba_pending acc) < MAX_BATCH_EVENTS \<and>
    batch_bytes (ba_pending acc) < MAX_BATCH_CANONICAL_BYTES"
  using acc_run_ok [OF acc_inv_new assms]
  by (auto simp: batch_emittable_def acc_inv_def BatchAccumulator_new_def)

text \<open>Accepted events for the witnesses.\<close>

definition sample_accepted :: "u64 \<Rightarrow> AcceptedDiagnosticEvent" where
  "sample_accepted s = \<lparr> ae_event = sample_start s 0 None, ae_canonical_bytes = [1, 2, 3],
     ae_built_in_span_kind = None, ae_subscriber_local = False \<rparr>"

lemmas accumulator_compute =
  BatchAccumulator_new_def BatchAccumulator_push_def BatchAccumulator_poll_def
  BatchAccumulator_flush_def validate_next_def observe_time_def push_trigger_def take_batch_def
  oldest_is_due_def AcceptedDiagnosticEvent_identity_def checked_add_u64_def checked_add_def

theorem accumulator_faithful_witness:
  "acc_run BatchAccumulator_new
     [Push (sample_accepted 1) 0, Push (sample_accepted 3) 1, Push (sample_accepted 2) 30000000]
   = ([sample_accepted 1, sample_accepted 2],
      [\<lparr> eb_events = [sample_accepted 1, sample_accepted 2], eb_canonical_bytes = 6 \<rparr>],
      snd (snd (acc_run BatchAccumulator_new
        [Push (sample_accepted 1) 0, Push (sample_accepted 3) 1, Push (sample_accepted 2) 30000000])))
   \<and> EventBatch_new [sample_accepted 1, sample_accepted 2]
       = Inr \<lparr> eb_events = [sample_accepted 1, sample_accepted 2], eb_canonical_bytes = 6 \<rparr>"
  (is "?run = (?t, ?b, ?a) \<and> _")
proof -
  have r: "?run = (?t, ?b, ?a)"
    by (simp add: accumulator_compute sample_accepted_def sample_events Let_def)
  from accumulator_faithful [OF r] r show ?thesis by simp
qed

end
