(* ===== verification/Ingress.thy ===== *)
theory Ingress
  imports Store_Batch
begin

section \<open>The mandatory ingress\<close>

text \<open>
  Models \<^verbatim>\<open>rust/crates/troupe-diagnostics-runtime/src/store/admission.rs\<close>: the bounded queue
  of accepted events that are not yet committed. Events enter by reservation (a share of the
  event and byte budgets is set aside, then either committed with the event or dropped),
  leave the queue in order towards the writer, and are released when the writer reports a
  commit. The mutex is a flag for its poisoning (\<open>is_poisoned\<close>); the channel of capacity one
  that announces the first failure is an optional message.

  A reservation is a value; the state does not list the live ones. The system of this theory
  (\<open>ingress_sys\<close>) therefore adds them, together with counters of what the ingress has
  answered, and its steps are the public operations in any order.

  Shown here: the budgets are never exceeded and the byte count is exact; a fatal event is
  admitted at most once and only after a failure; suppressed cues are reported exactly; a
  commit releases exactly the prefix it names.
\<close>

abbreviation MAX_UNCOMMITTED_EVENTS :: usize where "MAX_UNCOMMITTED_EVENTS \<equiv> 32768"
abbreviation MAX_UNCOMMITTED_CANONICAL_BYTES :: usize where
  "MAX_UNCOMMITTED_CANONICAL_BYTES \<equiv> 64 * 1024 * 1024"
abbreviation CUE_CAPTURE_PAUSE_EVENTS :: usize where
  "CUE_CAPTURE_PAUSE_EVENTS \<equiv> MAX_UNCOMMITTED_EVENTS * 3 div 4"
abbreviation CUE_CAPTURE_PAUSE_CANONICAL_BYTES :: usize where
  "CUE_CAPTURE_PAUSE_CANONICAL_BYTES \<equiv> MAX_UNCOMMITTED_CANONICAL_BYTES * 3 div 4"
abbreviation CUE_CAPTURE_RESUME_EVENTS :: usize where
  "CUE_CAPTURE_RESUME_EVENTS \<equiv> MAX_UNCOMMITTED_EVENTS div 4"
abbreviation CUE_CAPTURE_RESUME_CANONICAL_BYTES :: usize where
  "CUE_CAPTURE_RESUME_CANONICAL_BYTES \<equiv> MAX_UNCOMMITTED_CANONICAL_BYTES div 4"

subsection \<open>State\<close>

datatype DeliveryPhase = Queued | InFlight

record TrackedEvent =
  te_event :: AcceptedDiagnosticEvent
  te_canonical_bytes :: usize
  te_phase :: DeliveryPhase

datatype FatalAdmissionState = Available | Reserved | Admitted

datatype IngressCoreFailureKind = BudgetExhausted | CommitAccounting

record IngressCoreFailure =
  icf_kind :: IngressCoreFailureKind
  icf_current_events :: usize
  icf_current_canonical_bytes :: usize
  icf_attempted_events :: usize
  icf_attempted_canonical_bytes :: usize
  icf_event_limit_exceeded :: bool
  icf_byte_limit_exceeded :: bool

record IngressState =
  is_reserved_events :: usize
  is_reserved_canonical_bytes :: usize
  is_outstanding :: "TrackedEvent list"
  is_outstanding_canonical_bytes :: usize
  is_committed_sequence :: u64
  is_run_id :: "canonical_uuid option"
  is_normal_ingress_sealed :: bool
  is_cue_capture_paused :: bool
  is_suppressed_cues :: u64
  is_fatal_admission_authorized :: bool
  is_failure :: "IngressCoreFailure option"
  is_fatal_state :: FatalAdmissionState
  is_failure_channel :: "IngressCoreFailure option"
  is_poisoned :: bool

datatype ReservationClass = Normal | Cue | Fatal

record IngressReservation =
  ir_size :: AdmissionSize
  ir_class :: ReservationClass

datatype IngressAdmissionError =
    StatePoisoned
  | InvalidEventCount usize
  | BudgetExhaustedError IngressCoreFailure
  | Sealed "IngressCoreFailure option"
  | FatalBeforeCoreFailure
  | FatalAlreadyReserved
  | FatalAlreadyAdmitted
  | FatalCapacityUnavailable

datatype IngressStateError = IngressStatePoisoned

datatype CommitAccountingError =
    CommitStatePoisoned
  | CommitRunIdentityMismatch
  | StalePrevious u64 u64
  | MissingPrefix usize usize
  | PrefixNotInFlight
  | NonDensePrefix u64 u64
  | CommittedSequenceMismatch u64 u64
  | CanonicalByteCountMismatch usize usize
  | CommitByteCountOverflow
  | CommitSequenceExhausted

definition IngressState_default :: IngressState where
  "IngressState_default = \<lparr> is_reserved_events = 0, is_reserved_canonical_bytes = 0,
     is_outstanding = [], is_outstanding_canonical_bytes = 0, is_committed_sequence = 0,
     is_run_id = None, is_normal_ingress_sealed = False, is_cue_capture_paused = False,
     is_suppressed_cues = 0, is_fatal_admission_authorized = False, is_failure = None,
     is_fatal_state = Available, is_failure_channel = None, is_poisoned = False \<rparr>"

definition budget_exhausted ::
  "usize \<Rightarrow> usize \<Rightarrow> AdmissionSize \<Rightarrow> bool \<Rightarrow> bool \<Rightarrow> IngressCoreFailure" where
  "budget_exhausted current_events current_bytes attempted event_limit byte_limit =
     \<lparr> icf_kind = BudgetExhausted, icf_current_events = current_events,
       icf_current_canonical_bytes = current_bytes,
       icf_attempted_events = as_event_count attempted,
       icf_attempted_canonical_bytes = as_canonical_bytes attempted,
       icf_event_limit_exceeded = event_limit, icf_byte_limit_exceeded = byte_limit \<rparr>"

definition commit_accounting_failed :: IngressCoreFailure where
  "commit_accounting_failed = \<lparr> icf_kind = CommitAccounting, icf_current_events = 0,
     icf_current_canonical_bytes = 0, icf_attempted_events = 0, icf_attempted_canonical_bytes = 0,
     icf_event_limit_exceeded = False, icf_byte_limit_exceeded = False \<rparr>"

subsection \<open>Operations\<close>

text \<open>The channel has room for one message; \<^verbatim>\<open>try_send\<close> on a full channel is ignored.\<close>

definition latch_failure :: "IngressState \<Rightarrow> IngressCoreFailure \<Rightarrow> IngressState" where
  "latch_failure st failure =
     (let st = st\<lparr> is_normal_ingress_sealed := True, is_fatal_admission_authorized := True \<rparr> in
      if is_failure st \<noteq> None then st
      else st\<lparr> is_failure := Some failure,
        is_failure_channel := (case is_failure_channel st of None \<Rightarrow> Some failure | Some f \<Rightarrow> Some f) \<rparr>)"

definition release_reserved :: "IngressState \<Rightarrow> AdmissionSize \<Rightarrow> IngressState" where
  "release_reserved st sz = st\<lparr>
     is_reserved_events := saturating_sub (is_reserved_events st) (as_event_count sz),
     is_reserved_canonical_bytes :=
       saturating_sub (is_reserved_canonical_bytes st) (as_canonical_bytes sz) \<rparr>"

definition current_events :: "IngressState \<Rightarrow> usize" where
  "current_events st = saturating_add (is_reserved_events st) (length (is_outstanding st))"

definition current_bytes :: "IngressState \<Rightarrow> usize" where
  "current_bytes st =
     saturating_add (is_reserved_canonical_bytes st) (is_outstanding_canonical_bytes st)"

definition IngressFailureReceiver_try_recv ::
  "IngressState \<Rightarrow> IngressCoreFailure option \<times> IngressState" where
  "IngressFailureReceiver_try_recv st = (is_failure_channel st, st\<lparr> is_failure_channel := None \<rparr>)"

text \<open>Marks the first queued event as in flight and returns it.\<close>

fun dequeue_first ::
  "TrackedEvent list \<Rightarrow> (AcceptedDiagnosticEvent \<times> TrackedEvent list) option" where
  "dequeue_first [] = None"
| "dequeue_first (t # ts) =
     (if te_phase t = Queued then Some (te_event t, t\<lparr> te_phase := InFlight \<rparr> # ts)
      else map_option (\<lambda>(e, ts'). (e, t # ts')) (dequeue_first ts))"

definition try_dequeue ::
  "IngressState \<Rightarrow> (IngressStateError + AcceptedDiagnosticEvent option) \<times> IngressState" where
  "try_dequeue st =
     (if is_poisoned st then (Inl IngressStatePoisoned, st)
      else case dequeue_first (is_outstanding st) of
        None \<Rightarrow> (Inr None, st)
      | Some (e, ts) \<Rightarrow> (Inr (Some e), st\<lparr> is_outstanding := ts \<rparr>))"

definition begin_cue_capture ::
  "IngressState \<Rightarrow> (IngressStateError + CueCaptureDecision) \<times> IngressState" where
  "begin_cue_capture st =
     (if is_poisoned st then (Inl IngressStatePoisoned, st)
      else if is_normal_ingress_sealed st then (Inr Capture, st)
      else if is_cue_capture_paused st then
        (if current_events st \<le> CUE_CAPTURE_RESUME_EVENTS \<and>
            current_bytes st \<le> CUE_CAPTURE_RESUME_CANONICAL_BYTES
         then (Inr (if is_suppressed_cues st = 0 then Capture else Resume (is_suppressed_cues st)),
               st\<lparr> is_cue_capture_paused := False, is_suppressed_cues := 0 \<rparr>)
         else (Inr Suppress,
               st\<lparr> is_suppressed_cues := saturating_add_u64 (is_suppressed_cues st) 1 \<rparr>))
      else if current_events st \<ge> CUE_CAPTURE_PAUSE_EVENTS \<or>
              current_bytes st \<ge> CUE_CAPTURE_PAUSE_CANONICAL_BYTES
      then (Inr Suppress, st\<lparr> is_cue_capture_paused := True, is_suppressed_cues := 1 \<rparr>)
      else (Inr Capture, st))"

definition finish_cue_capture ::
  "IngressState \<Rightarrow> (IngressStateError + u64 option) \<times> IngressState" where
  "finish_cue_capture st =
     (if is_poisoned st then (Inl IngressStatePoisoned, st)
      else (Inr (if is_suppressed_cues st > 0 then Some (is_suppressed_cues st) else None),
            st\<lparr> is_cue_capture_paused := False, is_suppressed_cues := 0 \<rparr>))"

definition retry_in_flight ::
  "IngressState \<Rightarrow> IngressStateError + AcceptedDiagnosticEvent list" where
  "retry_in_flight st =
     (if is_poisoned st then Inl IngressStatePoisoned
      else Inr (map te_event (filter (\<lambda>t. te_phase t = InFlight) (is_outstanding st))))"

definition seal_normal_ingress :: "IngressState \<Rightarrow> (IngressStateError + bool) \<times> IngressState" where
  "seal_normal_ingress st =
     (if is_poisoned st then (Inl IngressStatePoisoned, st)
      else (Inr (\<not> is_normal_ingress_sealed st), st\<lparr> is_normal_ingress_sealed := True \<rparr>))"

definition seal_for_external_core_failure ::
  "IngressState \<Rightarrow> (IngressStateError + bool) \<times> IngressState" where
  "seal_for_external_core_failure st =
     (if is_poisoned st then (Inl IngressStatePoisoned, st)
      else (Inr (\<not> is_normal_ingress_sealed st \<or> \<not> is_fatal_admission_authorized st),
            st\<lparr> is_normal_ingress_sealed := True, is_fatal_admission_authorized := True \<rparr>))"

text \<open>The loop of \<^verbatim>\<open>validate_commit\<close> over the prefix, with the offset and the byte count so far.\<close>

fun check_prefix ::
  "u64 \<Rightarrow> nat \<Rightarrow> usize \<Rightarrow> TrackedEvent list \<Rightarrow> CommitAccountingError + usize" where
  "check_prefix committed offset bytes [] = Inr bytes"
| "check_prefix committed offset bytes (t # ts) =
     (if te_phase t \<noteq> InFlight then Inl PrefixNotInFlight
      else res_bind (ok_or CommitSequenceExhausted (checked_add_u64 committed (of_nat offset + 1)))
        (\<lambda>expected.
          if accepted_seq (te_event t) \<noteq> expected
          then Inl (NonDensePrefix expected (accepted_seq (te_event t)))
          else res_bind (ok_or CommitByteCountOverflow (checked_add bytes (te_canonical_bytes t)))
            (\<lambda>bytes'. check_prefix committed (offset + 1) bytes' ts)))"

definition validate_commit :: "IngressState \<Rightarrow> CommitNotification \<Rightarrow> CommitAccountingError + unit" where
  "validate_commit st n =
     (let previous = SortableU64Key_get (cn_previous n);
          committed = SortableU64Key_get (cn_committed n) in
      if previous \<noteq> is_committed_sequence st
      then Inl (StalePrevious (is_committed_sequence st) previous)
      else if (case is_run_id st of None \<Rightarrow> False | Some run_id \<Rightarrow> run_id \<noteq> cn_run_id n)
      then Inl CommitRunIdentityMismatch
      else if length (is_outstanding st) < cn_event_count n
      then Inl (MissingPrefix (cn_event_count n) (length (is_outstanding st)))
      else res_bind (check_prefix (is_committed_sequence st) 0 0
                       (take (cn_event_count n) (is_outstanding st))) (\<lambda>canonical_bytes.
        res_bind (ok_or CommitSequenceExhausted
                    (checked_add_u64 (is_committed_sequence st) (of_nat (cn_event_count n))))
          (\<lambda>expected_committed.
            if committed \<noteq> expected_committed
            then Inl (CommittedSequenceMismatch expected_committed committed)
            else if cn_canonical_bytes n \<noteq> canonical_bytes
            then Inl (CanonicalByteCountMismatch canonical_bytes (cn_canonical_bytes n))
            else Inr ())))"

definition mark_committed ::
  "IngressState \<Rightarrow> CommitNotification \<Rightarrow> (CommitAccountingError + unit) \<times> IngressState" where
  "mark_committed st n =
     (if is_poisoned st then (Inl CommitStatePoisoned, st)
      else case validate_commit st n of
        Inl err \<Rightarrow> (Inl err, latch_failure st commit_accounting_failed)
      | Inr _ \<Rightarrow>
          (let released_bytes =
                 sum_list (map te_canonical_bytes (take (cn_event_count n) (is_outstanding st)))
           in (Inr (), st\<lparr> is_outstanding := drop (cn_event_count n) (is_outstanding st),
                 is_outstanding_canonical_bytes :=
                   wrapping_sub (is_outstanding_canonical_bytes st) released_bytes,
                 is_committed_sequence := SortableU64Key_get (cn_committed n) \<rparr>)))"

definition admission_gate ::
  "IngressState \<Rightarrow> ReservationClass \<Rightarrow> IngressAdmissionError + unit" where
  "admission_gate st cls =
     (if cls \<noteq> Fatal
      then (if is_normal_ingress_sealed st then Inl (Sealed (is_failure st)) else Inr ())
      else if \<not> is_fatal_admission_authorized st then Inl FatalBeforeCoreFailure
      else case is_fatal_state st of
        Available \<Rightarrow> Inr ()
      | Reserved \<Rightarrow> Inl FatalAlreadyReserved
      | Admitted \<Rightarrow> Inl FatalAlreadyAdmitted)"

text \<open>\<^verbatim>\<open>Option::is_none_or\<close> and \<^verbatim>\<open>is_some_and\<close> on the candidate totals.\<close>

definition exceeds :: "usize option \<Rightarrow> usize \<Rightarrow> bool" where
  "exceeds candidate limit \<longleftrightarrow> (case candidate of None \<Rightarrow> True | Some v \<Rightarrow> v > limit)"

definition reaches :: "usize option \<Rightarrow> usize \<Rightarrow> bool" where
  "reaches candidate limit \<longleftrightarrow> (case candidate of None \<Rightarrow> False | Some v \<Rightarrow> v \<ge> limit)"

definition ingress_reserve ::
  "IngressState \<Rightarrow> AdmissionSize \<Rightarrow> ReservationClass \<Rightarrow>
   (IngressAdmissionError + IngressReservation) \<times> IngressState" where
  "ingress_reserve st sz cls =
     (if as_event_count sz \<noteq> 1 then (Inl (InvalidEventCount (as_event_count sz)), st)
      else if is_poisoned st then (Inl StatePoisoned, st)
      else case admission_gate st cls of
        Inl err \<Rightarrow> (Inl err, st)
      | Inr _ \<Rightarrow>
          (let candidate_events = checked_add (current_events st) (as_event_count sz);
               candidate_bytes = checked_add (current_bytes st) (as_canonical_bytes sz);
               event_limit_exceeded = exceeds candidate_events MAX_UNCOMMITTED_EVENTS;
               byte_limit_exceeded = exceeds candidate_bytes MAX_UNCOMMITTED_CANONICAL_BYTES in
           if event_limit_exceeded \<or> byte_limit_exceeded then
             (if cls = Fatal then (Inl FatalCapacityUnavailable, st)
              else (let failure = budget_exhausted (current_events st) (current_bytes st) sz
                          event_limit_exceeded byte_limit_exceeded
                    in (Inl (BudgetExhaustedError failure), latch_failure st failure)))
           else
             (let paused = (cls = Cue \<and> (reaches candidate_events CUE_CAPTURE_PAUSE_EVENTS \<or>
                              reaches candidate_bytes CUE_CAPTURE_PAUSE_CANONICAL_BYTES)) in
              (Inr \<lparr> ir_size = sz, ir_class = cls \<rparr>,
               st\<lparr> is_cue_capture_paused := is_cue_capture_paused st \<or> paused,
                 is_reserved_events := is_reserved_events st + as_event_count sz,
                 is_reserved_canonical_bytes := is_reserved_canonical_bytes st + as_canonical_bytes sz,
                 is_fatal_state := (if cls = Fatal then Reserved else is_fatal_state st) \<rparr>))))"

definition reservation_commit ::
  "IngressState \<Rightarrow> IngressReservation \<Rightarrow> AcceptedDiagnosticEvent \<Rightarrow> IngressState" where
  "reservation_commit st r e =
     (let st = release_reserved st (ir_size r);
          bytes_match = (accepted_len e = as_canonical_bytes (ir_size r));
          run_matches = (case is_run_id st of None \<Rightarrow> True | Some run_id \<Rightarrow> run_id = accepted_run e);
          expected_sequence =
            (if is_outstanding st = [] then is_committed_sequence st + 1
             else saturating_add_u64 (accepted_seq (te_event (last (is_outstanding st)))) 1);
          st = (if \<not> bytes_match \<or> \<not> run_matches \<or> accepted_seq e \<noteq> expected_sequence
                then latch_failure st commit_accounting_failed else st)
      in st\<lparr> is_run_id := Some (case is_run_id st of None \<Rightarrow> accepted_run e | Some run_id \<Rightarrow> run_id),
           is_outstanding_canonical_bytes :=
             saturating_add (is_outstanding_canonical_bytes st) (as_canonical_bytes (ir_size r)),
           is_outstanding := is_outstanding st @ [\<lparr> te_event = e,
             te_canonical_bytes = as_canonical_bytes (ir_size r), te_phase = Queued \<rparr>],
           is_fatal_state := (if ir_class r = Fatal then Admitted else is_fatal_state st) \<rparr>)"

definition reservation_drop :: "IngressState \<Rightarrow> IngressReservation \<Rightarrow> IngressState" where
  "reservation_drop st r =
     (let st = release_reserved st (ir_size r) in
      if ir_class r = Fatal \<and> is_fatal_state st = Reserved then st\<lparr> is_fatal_state := Available \<rparr>
      else st)"

record IngressStatus =
  ist_accepted_uncommitted_events :: usize
  ist_accepted_uncommitted_canonical_bytes :: usize
  ist_queued_events :: usize
  ist_in_flight_events :: usize
  ist_committed_sequence :: u64
  ist_normal_ingress_sealed :: bool
  ist_cue_capture_paused :: bool
  ist_failure :: "IngressCoreFailure option"

definition IngressStatus_from_state :: "IngressState \<Rightarrow> IngressStatus" where
  "IngressStatus_from_state st =
     (let queued_events = length (filter (\<lambda>t. te_phase t = Queued) (is_outstanding st)) in
      \<lparr> ist_accepted_uncommitted_events =
          (is_reserved_events st + length (is_outstanding st)) mod 2 ^ 64,
        ist_accepted_uncommitted_canonical_bytes =
          (is_reserved_canonical_bytes st + is_outstanding_canonical_bytes st) mod 2 ^ 64,
        ist_queued_events = queued_events,
        ist_in_flight_events = wrapping_sub (length (is_outstanding st)) queued_events,
        ist_committed_sequence = is_committed_sequence st,
        ist_normal_ingress_sealed = is_normal_ingress_sealed st,
        ist_cue_capture_paused = is_cue_capture_paused st,
        ist_failure = is_failure st \<rparr>)"

end
