(* ===== verification/Ingress_Safety.thy ===== *)
theory Ingress_Safety
  imports Ingress "HOL-Library.Multiset"
begin

section \<open>The mandatory ingress: safety\<close>

text \<open>
  The ingress as a transition system: its state, the reservations that are alive, and
  counters of its answers. Every public operation of the ingress is a step, in any order and
  from any number of clients (each operation runs under the mutex); \<open>poison\<close> is a panic in a
  thread that holds it. The invariants are proved by rule induction over the steps.
\<close>

subsection \<open>What each operation leaves alone\<close>

lemma latch_failure_sel [simp]:
  "is_reserved_events (latch_failure st f) = is_reserved_events st"
  "is_reserved_canonical_bytes (latch_failure st f) = is_reserved_canonical_bytes st"
  "is_outstanding (latch_failure st f) = is_outstanding st"
  "is_outstanding_canonical_bytes (latch_failure st f) = is_outstanding_canonical_bytes st"
  "is_committed_sequence (latch_failure st f) = is_committed_sequence st"
  "is_run_id (latch_failure st f) = is_run_id st"
  "is_normal_ingress_sealed (latch_failure st f)"
  "is_cue_capture_paused (latch_failure st f) = is_cue_capture_paused st"
  "is_suppressed_cues (latch_failure st f) = is_suppressed_cues st"
  "is_fatal_admission_authorized (latch_failure st f)"
  "is_failure (latch_failure st f) = Some (case is_failure st of None \<Rightarrow> f | Some f' \<Rightarrow> f')"
  "is_fatal_state (latch_failure st f) = is_fatal_state st"
  "is_poisoned (latch_failure st f) = is_poisoned st"
  by (auto simp: latch_failure_def Let_def)

lemma latch_failure_channel:
  "is_failure_channel (latch_failure st f) =
     (case is_failure st of
        None \<Rightarrow> Some (case is_failure_channel st of None \<Rightarrow> f | Some f' \<Rightarrow> f')
      | Some _ \<Rightarrow> is_failure_channel st)"
  by (auto simp: latch_failure_def Let_def split: option.split)

lemma release_reserved_sel [simp]:
  "is_reserved_events (release_reserved st sz) = is_reserved_events st - as_event_count sz"
  "is_reserved_canonical_bytes (release_reserved st sz) = is_reserved_canonical_bytes st - as_canonical_bytes sz"
  "is_outstanding (release_reserved st sz) = is_outstanding st"
  "is_outstanding_canonical_bytes (release_reserved st sz) = is_outstanding_canonical_bytes st"
  "is_committed_sequence (release_reserved st sz) = is_committed_sequence st"
  "is_run_id (release_reserved st sz) = is_run_id st"
  "is_normal_ingress_sealed (release_reserved st sz) = is_normal_ingress_sealed st"
  "is_cue_capture_paused (release_reserved st sz) = is_cue_capture_paused st"
  "is_suppressed_cues (release_reserved st sz) = is_suppressed_cues st"
  "is_fatal_admission_authorized (release_reserved st sz) = is_fatal_admission_authorized st"
  "is_failure (release_reserved st sz) = is_failure st"
  "is_fatal_state (release_reserved st sz) = is_fatal_state st"
  "is_failure_channel (release_reserved st sz) = is_failure_channel st"
  "is_poisoned (release_reserved st sz) = is_poisoned st"
  by (simp_all add: release_reserved_def)

text \<open>The accounting checks of a commit, and the sequence it expects.\<close>

definition expected_next :: "IngressState \<Rightarrow> u64" where
  "expected_next st =
     (if is_outstanding st = [] then is_committed_sequence st + 1
      else saturating_add_u64 (accepted_seq (te_event (last (is_outstanding st)))) 1)"

definition commit_consistent :: "IngressState \<Rightarrow> IngressReservation \<Rightarrow> AcceptedDiagnosticEvent \<Rightarrow> bool" where
  "commit_consistent st r e \<longleftrightarrow>
     accepted_len e = as_canonical_bytes (ir_size r) \<and>
     (is_run_id st = None \<or> is_run_id st = Some (accepted_run e)) \<and>
     accepted_seq e = expected_next st"

lemma reservation_commit_sel [simp]:
  "is_reserved_events (reservation_commit st r e) = is_reserved_events st - as_event_count (ir_size r)"
  "is_reserved_canonical_bytes (reservation_commit st r e)
     = is_reserved_canonical_bytes st - as_canonical_bytes (ir_size r)"
  "is_outstanding (reservation_commit st r e) = is_outstanding st @
     [\<lparr> te_event = e, te_canonical_bytes = as_canonical_bytes (ir_size r), te_phase = Queued \<rparr>]"
  "is_outstanding_canonical_bytes (reservation_commit st r e)
     = saturating_add (is_outstanding_canonical_bytes st) (as_canonical_bytes (ir_size r))"
  "is_committed_sequence (reservation_commit st r e) = is_committed_sequence st"
  "is_run_id (reservation_commit st r e)
     = Some (case is_run_id st of None \<Rightarrow> accepted_run e | Some run_id \<Rightarrow> run_id)"
  "is_cue_capture_paused (reservation_commit st r e) = is_cue_capture_paused st"
  "is_suppressed_cues (reservation_commit st r e) = is_suppressed_cues st"
  "is_fatal_state (reservation_commit st r e)
     = (if ir_class r = Fatal then Admitted else is_fatal_state st)"
  "is_poisoned (reservation_commit st r e) = is_poisoned st"
  by (simp_all add: reservation_commit_def Let_def)

lemma reservation_commit_failure:
  "is_normal_ingress_sealed (reservation_commit st r e)
     \<longleftrightarrow> is_normal_ingress_sealed st \<or> \<not> commit_consistent st r e"
  "is_fatal_admission_authorized (reservation_commit st r e)
     \<longleftrightarrow> is_fatal_admission_authorized st \<or> \<not> commit_consistent st r e"
  "is_failure (reservation_commit st r e) =
     (if commit_consistent st r e then is_failure st
      else Some (case is_failure st of None \<Rightarrow> commit_accounting_failed | Some f \<Rightarrow> f))"
  "is_failure_channel (reservation_commit st r e) =
     (if commit_consistent st r e then is_failure_channel st
      else is_failure_channel (latch_failure st commit_accounting_failed))"
  by (auto simp: reservation_commit_def Let_def commit_consistent_def expected_next_def
      latch_failure_channel split: option.splits)

lemma reservation_drop_sel [simp]:
  "is_reserved_events (reservation_drop st r) = is_reserved_events st - as_event_count (ir_size r)"
  "is_reserved_canonical_bytes (reservation_drop st r)
     = is_reserved_canonical_bytes st - as_canonical_bytes (ir_size r)"
  "is_outstanding (reservation_drop st r) = is_outstanding st"
  "is_outstanding_canonical_bytes (reservation_drop st r) = is_outstanding_canonical_bytes st"
  "is_committed_sequence (reservation_drop st r) = is_committed_sequence st"
  "is_run_id (reservation_drop st r) = is_run_id st"
  "is_normal_ingress_sealed (reservation_drop st r) = is_normal_ingress_sealed st"
  "is_cue_capture_paused (reservation_drop st r) = is_cue_capture_paused st"
  "is_suppressed_cues (reservation_drop st r) = is_suppressed_cues st"
  "is_fatal_admission_authorized (reservation_drop st r) = is_fatal_admission_authorized st"
  "is_failure (reservation_drop st r) = is_failure st"
  "is_failure_channel (reservation_drop st r) = is_failure_channel st"
  "is_poisoned (reservation_drop st r) = is_poisoned st"
  "is_fatal_state (reservation_drop st r) =
     (if ir_class r = Fatal \<and> is_fatal_state st = Reserved then Available else is_fatal_state st)"
  by (simp_all add: reservation_drop_def Let_def)

subsection \<open>The result of a reservation\<close>

text \<open>Budgets respected, and exactly accounted in the queue.\<close>

definition within_budget :: "IngressState \<Rightarrow> bool" where
  "within_budget st \<longleftrightarrow>
     is_reserved_events st + length (is_outstanding st) \<le> MAX_UNCOMMITTED_EVENTS \<and>
     is_reserved_canonical_bytes st + is_outstanding_canonical_bytes st \<le> MAX_UNCOMMITTED_CANONICAL_BYTES \<and>
     is_outstanding_canonical_bytes st = sum_list (map te_canonical_bytes (is_outstanding st))"

lemma reserve_Inr:
  assumes "ingress_reserve st sz cls = (Inr r, st')" "within_budget st"
  shows "r = \<lparr> ir_size = sz, ir_class = cls \<rparr> \<and> as_event_count sz = 1 \<and>
    \<not> is_poisoned st \<and> admission_gate st cls = Inr () \<and>
    is_reserved_events st + 1 + length (is_outstanding st) \<le> MAX_UNCOMMITTED_EVENTS \<and>
    is_reserved_canonical_bytes st + as_canonical_bytes sz + is_outstanding_canonical_bytes st
      \<le> MAX_UNCOMMITTED_CANONICAL_BYTES \<and>
    (\<exists>p. (p \<longrightarrow> is_cue_capture_paused st \<or> cls = Cue) \<and> (is_cue_capture_paused st \<longrightarrow> p) \<and>
      st' = st\<lparr> is_cue_capture_paused := p,
        is_reserved_events := is_reserved_events st + 1,
        is_reserved_canonical_bytes := is_reserved_canonical_bytes st + as_canonical_bytes sz,
        is_fatal_state := (if cls = Fatal then Reserved else is_fatal_state st) \<rparr>)"
proof -
  have ev: "current_events st = is_reserved_events st + length (is_outstanding st)"
    and cb: "current_bytes st = is_reserved_canonical_bytes st + is_outstanding_canonical_bytes st"
    using assms(2) by (simp_all add: current_events_def current_bytes_def within_budget_def
        saturating_add_def)
  have one: "as_event_count sz = 1" and np: "\<not> is_poisoned st" and gate: "admission_gate st cls = Inr ()"
  proof -
    show one: "as_event_count sz = 1"
      using assms(1) by (rule contrapos_pp) (simp add: ingress_reserve_def)
    show np: "\<not> is_poisoned st"
      using assms(1) one by (intro notI) (simp add: ingress_reserve_def)
    show "admission_gate st cls = Inr ()"
      using assms(1) one np by (cases "admission_gate st cls") (simp_all add: ingress_reserve_def)
  qed
  let ?e = "checked_add (current_events st) 1"
  let ?b = "checked_add (current_bytes st) (as_canonical_bytes sz)"
  let ?p = "is_cue_capture_paused st \<or> (cls = Cue \<and>
     (reaches ?e CUE_CAPTURE_PAUSE_EVENTS \<or> reaches ?b CUE_CAPTURE_PAUSE_CANONICAL_BYTES))"
  have lim: "\<not> (exceeds ?e MAX_UNCOMMITTED_EVENTS \<or> exceeds ?b MAX_UNCOMMITTED_CANONICAL_BYTES)"
  proof
    assume "exceeds ?e MAX_UNCOMMITTED_EVENTS \<or> exceeds ?b MAX_UNCOMMITTED_CANONICAL_BYTES"
    with one np gate have "\<exists>e. fst (ingress_reserve st sz cls) = Inl e"
      unfolding ingress_reserve_def Let_def by simp
    with assms(1) show False by simp
  qed
  with assms(1) one np gate have r: "r = \<lparr> ir_size = sz, ir_class = cls \<rparr>"
      and st': "st' = st\<lparr> is_cue_capture_paused := ?p,
        is_reserved_events := is_reserved_events st + 1,
        is_reserved_canonical_bytes := is_reserved_canonical_bytes st + as_canonical_bytes sz,
        is_fatal_state := (if cls = Fatal then Reserved else is_fatal_state st) \<rparr>"
    unfolding ingress_reserve_def Let_def by simp_all
  from lim have "is_reserved_events st + 1 + length (is_outstanding st) \<le> MAX_UNCOMMITTED_EVENTS"
      "is_reserved_canonical_bytes st + as_canonical_bytes sz + is_outstanding_canonical_bytes st
      \<le> MAX_UNCOMMITTED_CANONICAL_BYTES"
    by (auto simp: exceeds_def checked_add_def ev cb split: if_splits)
  with one np gate r st' show ?thesis by (intro conjI exI [of _ ?p]) simp_all
qed

lemma reserve_Inl:
  assumes "ingress_reserve st sz cls = (Inl err, st')"
  shows "st' = st \<or> (cls \<noteq> Fatal \<and> (\<exists>f. st' = latch_failure st f \<and> err = BudgetExhaustedError f \<and>
    icf_kind f = BudgetExhausted))"
proof (cases "as_event_count sz \<noteq> 1 \<or> is_poisoned st \<or> admission_gate st cls \<noteq> Inr ()")
  case True
  with assms show ?thesis
    by (cases "admission_gate st cls") (auto simp: ingress_reserve_def split: if_splits)
next
  case False
  with assms show ?thesis
    unfolding ingress_reserve_def Let_def
    by (simp split: if_splits) (auto simp: budget_exhausted_def)
qed

subsection \<open>The result of a commit notification\<close>

lemma checked_offset:
  assumes "Suc off < 2 ^ 64"
  shows "checked_add_u64 c (of_nat off + 1) =
    (if unat c + Suc off < 2 ^ 64 then Some (c + of_nat off + 1) else None)"
proof -
  have "unat (of_nat (Suc off) :: u64) = Suc off"
    using assms by (simp add: unat_of_nat del: of_nat_Suc)
  then have "unat (of_nat off + 1 :: u64) = Suc off" by (simp add: add.commute)
  then show ?thesis by (simp add: checked_add_u64_def add.assoc)
qed

lemma unat_plus_offset: "unat (c :: u64) + off < 2 ^ 64 \<Longrightarrow> unat (c + of_nat off) = unat c + off"
  by (subst unat_add_u64_exact) (simp_all add: unat_of_nat)

lemma check_prefix_iff:
  "off + length ts < 2 ^ 64 \<Longrightarrow> unat c + off < 2 ^ 64 \<Longrightarrow> bytes \<le> usize_max \<Longrightarrow>
   check_prefix c off bytes ts = Inr n \<longleftrightarrow>
     (\<forall>t \<in> set ts. te_phase t = InFlight) \<and> run_from (c + of_nat off) (map te_event ts) \<and>
     n = bytes + sum_list (map te_canonical_bytes ts) \<and> n \<le> usize_max"
proof (induction ts arbitrary: off bytes)
  case Nil
  then show ?case by auto
next
  case (Cons t ts)
  have off: "Suc off < 2 ^ 64" using Cons.prems(1) by simp
  have room: "unat (c + of_nat off) < 2 ^ 64 - 1 \<longleftrightarrow> unat c + Suc off < 2 ^ 64"
    using unat_plus_offset [OF Cons.prems(2)] by auto
  have seq: "check_prefix c off bytes (t # ts) = Inr n \<longleftrightarrow>
      te_phase t = InFlight \<and> unat c + Suc off < 2 ^ 64 \<and>
      accepted_seq (te_event t) = c + of_nat off + 1 \<and> bytes + te_canonical_bytes t \<le> usize_max \<and>
      check_prefix c (Suc off) (bytes + te_canonical_bytes t) ts = Inr n"
    by (auto simp: checked_offset [OF off] checked_add_Some split: if_splits)
  show ?case
  proof (cases "unat c + Suc off < 2 ^ 64 \<and> bytes + te_canonical_bytes t \<le> usize_max")
    case True
    have "check_prefix c (Suc off) (bytes + te_canonical_bytes t) ts = Inr n \<longleftrightarrow>
        (\<forall>t \<in> set ts. te_phase t = InFlight) \<and> run_from (c + of_nat (Suc off)) (map te_event ts) \<and>
        n = bytes + te_canonical_bytes t + sum_list (map te_canonical_bytes ts) \<and> n \<le> usize_max"
      using True Cons.prems(1) by (intro Cons.IH) auto
    moreover have "c + of_nat (Suc off) = c + of_nat off + 1" by (simp add: add.commute add.left_commute)
    ultimately show ?thesis unfolding seq using True room
      by (simp only: list.simps run_from.simps sum_list.Cons ball_simps) (auto simp: add.assoc)
  next
    case False
    then show ?thesis unfolding seq using room
      by (auto simp only: list.simps run_from.simps sum_list.Cons)
  qed
qed

lemma validate_commit_iff:
  assumes "length (is_outstanding st) < 2 ^ 64"
  shows "validate_commit st n = Inr u \<longleftrightarrow>
    SortableU64Key_get (cn_previous n) = is_committed_sequence st \<and>
    (is_run_id st = None \<or> is_run_id st = Some (cn_run_id n)) \<and>
    cn_event_count n \<le> length (is_outstanding st) \<and>
    (\<forall>t \<in> set (take (cn_event_count n) (is_outstanding st)). te_phase t = InFlight) \<and>
    run_from (is_committed_sequence st) (map te_event (take (cn_event_count n) (is_outstanding st))) \<and>
    SortableU64Key_get (cn_committed n)
      = last_seq (is_committed_sequence st) (map te_event (take (cn_event_count n) (is_outstanding st))) \<and>
    cn_canonical_bytes n = sum_list (map te_canonical_bytes (take (cn_event_count n) (is_outstanding st))) \<and>
    cn_canonical_bytes n \<le> usize_max"
proof (cases "cn_event_count n \<le> length (is_outstanding st)")
  case True
  let ?p = "take (cn_event_count n) (is_outstanding st)" and ?c = "is_committed_sequence st"
  have len: "length ?p = cn_event_count n" using True by simp
  have cp: "check_prefix ?c 0 0 ?p = Inr b \<longleftrightarrow>
      (\<forall>t \<in> set ?p. te_phase t = InFlight) \<and> run_from ?c (map te_event ?p) \<and>
      b = sum_list (map te_canonical_bytes ?p) \<and> b \<le> usize_max" for b
    using check_prefix_iff [of 0 ?p ?c 0 b] assms len True unat_less_2p64 [of ?c] by simp
  have adv: "checked_add_u64 ?c (of_nat (cn_event_count n)) = Some (last_seq ?c (map te_event ?p))"
    if "run_from ?c (map te_event ?p)"
  proof -
    from run_from_last [OF that] len
    have l: "unat (last_seq ?c (map te_event ?p)) = unat ?c + cn_event_count n" by simp
    then have "unat ?c + cn_event_count n < 2 ^ 64" by (metis unat_less_2p64)
    with l show ?thesis
      by (auto simp: checked_add_u64_def unat_of_nat unat_plus_offset
          intro!: unsigned_word_eqI [where 'a = nat])
  qed
  have "validate_commit st n = Inr u \<longleftrightarrow>
      SortableU64Key_get (cn_previous n) = ?c \<and>
      (is_run_id st = None \<or> is_run_id st = Some (cn_run_id n)) \<and>
      (\<exists>b x. check_prefix ?c 0 0 ?p = Inr b \<and> checked_add_u64 ?c (of_nat (cn_event_count n)) = Some x \<and>
         SortableU64Key_get (cn_committed n) = x \<and> cn_canonical_bytes n = b)"
    using True by (auto simp: validate_commit_def Let_def split: option.splits if_splits)
  also have "\<dots> \<longleftrightarrow> SortableU64Key_get (cn_previous n) = ?c \<and>
      (is_run_id st = None \<or> is_run_id st = Some (cn_run_id n)) \<and>
      (\<forall>t \<in> set ?p. te_phase t = InFlight) \<and> run_from ?c (map te_event ?p) \<and>
      SortableU64Key_get (cn_committed n) = last_seq ?c (map te_event ?p) \<and>
      cn_canonical_bytes n = sum_list (map te_canonical_bytes ?p) \<and> cn_canonical_bytes n \<le> usize_max"
    unfolding cp using adv by auto
  finally show ?thesis using True by blast
next
  case False
  then show ?thesis by (auto simp: validate_commit_def Let_def)
qed

subsection \<open>The ingress is a reserver\<close>

lemma within_budget_latch [simp]: "within_budget (latch_failure st f) = within_budget st"
  by (simp add: within_budget_def)

interpretation mandatory: admission_reserver
  ingress_reserve reservation_commit reservation_drop
  "\<lambda>st. map te_event (is_outstanding st)" within_budget
proof unfold_locales
  fix st sz cls err st'
  assume "within_budget st" "ingress_reserve st sz cls = (Inl err, st')"
  with reserve_Inl [of st sz cls err st'] show "within_budget st' \<and>
      map te_event (is_outstanding st') = map te_event (is_outstanding st)" by auto
next
  fix st a cls r st'
  assume w: "within_budget st"
    and r: "ingress_reserve st (AdmissionSize_one_event (accepted_len a)) cls = (Inr r, st')"
  from reserve_Inr [OF r w] w show "within_budget (reservation_commit st' r a) \<and>
      map te_event (is_outstanding (reservation_commit st' r a)) = map te_event (is_outstanding st) @ [a]"
    by (auto simp: within_budget_def saturating_add_def AdmissionSize_one_event_def)
next
  fix st sz cls r st'
  assume w: "within_budget st" and r: "ingress_reserve st sz cls = (Inr r, st')"
  from reserve_Inr [OF r w] w show "within_budget (reservation_drop st' r) \<and>
      map te_event (is_outstanding (reservation_drop st' r)) = map te_event (is_outstanding st)"
    by (auto simp: within_budget_def)
qed

subsection \<open>The system\<close>

record ingress_sys =
  gs_state :: IngressState
  gs_live :: "IngressReservation list"
  gs_suppressed :: nat
  gs_reported :: nat
  gs_fatal_admitted :: nat
  gs_announced :: "IngressCoreFailure list"

definition sys_init :: ingress_sys where
  "sys_init = \<lparr> gs_state = IngressState_default, gs_live = [], gs_suppressed = 0, gs_reported = 0,
     gs_fatal_admitted = 0, gs_announced = [] \<rparr>"

inductive ingress_step :: "ingress_sys \<Rightarrow> ingress_sys \<Rightarrow> bool" where
  reserve_granted: "ingress_reserve (gs_state g) sz cls = (Inr r, st') \<Longrightarrow>
    ingress_step g (g\<lparr> gs_state := st', gs_live := r # gs_live g \<rparr>)"
| reserve_refused: "ingress_reserve (gs_state g) sz cls = (Inl err, st') \<Longrightarrow>
    ingress_step g (g\<lparr> gs_state := st' \<rparr>)"
| commit_live: "r \<in> set (gs_live g) \<Longrightarrow>
    ingress_step g (g\<lparr> gs_state := reservation_commit (gs_state g) r e,
      gs_live := remove1 r (gs_live g),
      gs_fatal_admitted := gs_fatal_admitted g + (if ir_class r = Fatal then 1 else 0) \<rparr>)"
| drop_live: "r \<in> set (gs_live g) \<Longrightarrow>
    ingress_step g (g\<lparr> gs_state := reservation_drop (gs_state g) r,
      gs_live := remove1 r (gs_live g) \<rparr>)"
| dequeue: "try_dequeue (gs_state g) = (res, st') \<Longrightarrow> ingress_step g (g\<lparr> gs_state := st' \<rparr>)"
| committed: "mark_committed (gs_state g) n = (res, st') \<Longrightarrow> ingress_step g (g\<lparr> gs_state := st' \<rparr>)"
| begin_cue: "begin_cue_capture (gs_state g) = (res, st') \<Longrightarrow>
    ingress_step g (g\<lparr> gs_state := st',
      gs_suppressed := gs_suppressed g + (if res = Inr Suppress then 1 else 0),
      gs_reported := gs_reported g + (case res of Inr (Resume k) \<Rightarrow> unat k | _ \<Rightarrow> 0) \<rparr>)"
| finish_cue: "finish_cue_capture (gs_state g) = (res, st') \<Longrightarrow>
    ingress_step g (g\<lparr> gs_state := st',
      gs_reported := gs_reported g + (case res of Inr (Some k) \<Rightarrow> unat k | _ \<Rightarrow> 0) \<rparr>)"
| seal: "seal_normal_ingress (gs_state g) = (res, st') \<Longrightarrow> ingress_step g (g\<lparr> gs_state := st' \<rparr>)"
| seal_external: "seal_for_external_core_failure (gs_state g) = (res, st') \<Longrightarrow>
    ingress_step g (g\<lparr> gs_state := st' \<rparr>)"
| receive: "IngressFailureReceiver_try_recv (gs_state g) = (m, st') \<Longrightarrow>
    ingress_step g (g\<lparr> gs_state := st',
      gs_announced := gs_announced g @ (case m of None \<Rightarrow> [] | Some f \<Rightarrow> [f]) \<rparr>)"
| poison: "ingress_step g (g\<lparr> gs_state := (gs_state g)\<lparr> is_poisoned := True \<rparr> \<rparr>)"

inductive ingress_reachable :: "ingress_sys \<Rightarrow> bool" where
  init: "ingress_reachable sys_init"
| step: "ingress_reachable g \<Longrightarrow> ingress_step g g' \<Longrightarrow> ingress_reachable g'"

subsection \<open>Budgets\<close>

definition budget_inv :: "ingress_sys \<Rightarrow> bool" where
  "budget_inv g \<longleftrightarrow> within_budget (gs_state g) \<and>
     (\<forall>r \<in> set (gs_live g). as_event_count (ir_size r) = 1) \<and>
     is_reserved_events (gs_state g) = length (gs_live g) \<and>
     is_reserved_canonical_bytes (gs_state g)
       = sum_list (map (\<lambda>r. as_canonical_bytes (ir_size r)) (gs_live g))"

lemma sum_list_member_le: "x \<in> set xs \<Longrightarrow> f x \<le> sum_list (map f xs)" for f :: "'a \<Rightarrow> nat"
  by (induction xs) auto

lemma sum_list_remove1:
  "x \<in> set xs \<Longrightarrow> sum_list (map f (remove1 x xs)) = sum_list (map f xs) - (f x :: nat)"
proof (induction xs)
  case (Cons a xs)
  then show ?case using sum_list_member_le [of x xs f] by auto
qed simp

lemma length_remove1_Suc: "x \<in> set xs \<Longrightarrow> Suc (length (remove1 x xs)) = length xs"
  by (induction xs) auto

lemma dequeue_first_Some:
  "dequeue_first ts = Some (e, ts') \<Longrightarrow>
   \<exists>pre t post. ts = pre @ t # post \<and> (\<forall>u \<in> set pre. te_phase u \<noteq> Queued) \<and> te_phase t = Queued \<and>
     e = te_event t \<and> ts' = pre @ t\<lparr> te_phase := InFlight \<rparr> # post"
proof (induction ts arbitrary: ts')
  case Nil
  then show ?case by simp
next
  case (Cons t ts)
  show ?case
  proof (cases "te_phase t = Queued")
    case True
    with Cons.prems show ?thesis by (intro exI [of _ "[]"] exI [of _ t] exI [of _ ts]) auto
  next
    case False
    with Cons.prems obtain ts1 where r: "dequeue_first ts = Some (e, ts1)" "ts' = t # ts1" by auto
    from Cons.IH [OF r(1)] obtain pre u post where
      u: "ts = pre @ u # post" "\<forall>v \<in> set pre. te_phase v \<noteq> Queued" "te_phase u = Queued"
        "e = te_event u" "ts1 = pre @ u\<lparr> te_phase := InFlight \<rparr> # post" by blast
    with False r(2) show ?thesis
      by (intro exI [of _ "t # pre"] exI [of _ u] exI [of _ post]) auto
  qed
qed

lemma try_dequeue_cases:
  assumes "try_dequeue st = (res, st')"
  shows "st' = st \<or> (\<exists>pre t post. is_outstanding st = pre @ t # post \<and>
    (\<forall>u \<in> set pre. te_phase u = InFlight) \<and> te_phase t = Queued \<and> res = Inr (Some (te_event t)) \<and>
    st' = st\<lparr> is_outstanding := pre @ t\<lparr> te_phase := InFlight \<rparr> # post \<rparr>)"
proof (cases "dequeue_first (is_outstanding st)")
  case None
  with assms show ?thesis by (auto simp: try_dequeue_def split: if_splits)
next
  case (Some p)
  obtain e ts where p: "p = (e, ts)" by (cases p)
  from dequeue_first_Some [of "is_outstanding st" e ts] Some p obtain pre t post where
    "is_outstanding st = pre @ t # post" "\<forall>u \<in> set pre. te_phase u \<noteq> Queued" "te_phase t = Queued"
    "e = te_event t" "ts = pre @ t\<lparr> te_phase := InFlight \<rparr> # post" by blast
  moreover from this have "\<forall>u \<in> set pre. te_phase u = InFlight" by (metis DeliveryPhase.exhaust)
  ultimately show ?thesis using assms Some p
    by (cases "is_poisoned st") (auto simp: try_dequeue_def)
qed

lemma mark_committed_cases:
  assumes "mark_committed st n = (res, st')"
  shows "st' = st \<or> st' = latch_failure st commit_accounting_failed \<or>
    (validate_commit st n = Inr () \<and> res = Inr () \<and>
     st' = st\<lparr> is_outstanding := drop (cn_event_count n) (is_outstanding st),
       is_outstanding_canonical_bytes := wrapping_sub (is_outstanding_canonical_bytes st)
         (sum_list (map te_canonical_bytes (take (cn_event_count n) (is_outstanding st)))),
       is_committed_sequence := SortableU64Key_get (cn_committed n) \<rparr>)"
  using assms by (auto simp: mark_committed_def Let_def split: if_splits sum.splits)

lemma within_budget_drop:
  assumes "within_budget st"
  shows "within_budget (st\<lparr> is_outstanding := drop k (is_outstanding st),
    is_outstanding_canonical_bytes := wrapping_sub (is_outstanding_canonical_bytes st)
      (sum_list (map te_canonical_bytes (take k (is_outstanding st)))),
    is_committed_sequence := c \<rparr>)"
proof -
  have "sum_list (map te_canonical_bytes (take k (is_outstanding st)))
      \<le> sum_list (map te_canonical_bytes (is_outstanding st))"
    by (metis sum_list_take_le take_map)
  moreover have "sum_list (map te_canonical_bytes (drop k (is_outstanding st)))
      = sum_list (map te_canonical_bytes (is_outstanding st))
        - sum_list (map te_canonical_bytes (take k (is_outstanding st)))"
    by (metis drop_map sum_list_drop_eq take_map)
  ultimately show ?thesis using assms
    by (auto simp: within_budget_def wrapping_sub_exact)
qed

lemma within_budget_cong:
  "within_budget st \<Longrightarrow> is_reserved_events st' = is_reserved_events st \<Longrightarrow>
   is_reserved_canonical_bytes st' = is_reserved_canonical_bytes st \<Longrightarrow>
   is_outstanding_canonical_bytes st' = is_outstanding_canonical_bytes st \<Longrightarrow>
   map te_canonical_bytes (is_outstanding st') = map te_canonical_bytes (is_outstanding st) \<Longrightarrow>
   within_budget st'"
  unfolding within_budget_def by (metis length_map)

lemma budget_step:
  assumes "ingress_step g g'" "budget_inv g"
  shows "budget_inv g'"
  using assms
proof (cases rule: ingress_step.cases)
  case (reserve_granted sz cls r st')
  from assms(2) have w: "within_budget (gs_state g)" by (simp add: budget_inv_def)
  from reserve_Inr [OF reserve_granted(2) w] assms(2) reserve_granted(1) show ?thesis
    by (auto simp: budget_inv_def within_budget_def)
next
  case (reserve_refused sz cls err st')
  from reserve_Inl [OF reserve_refused(2)] assms(2) reserve_refused(1) show ?thesis
    by (auto simp: budget_inv_def within_budget_def)
next
  case (commit_live r e)
  let ?b = "as_canonical_bytes (ir_size r)"
  from assms(2) commit_live(2) have one: "as_event_count (ir_size r) = 1" by (simp add: budget_inv_def)
  have le: "?b \<le> sum_list (map (\<lambda>r. as_canonical_bytes (ir_size r)) (gs_live g))"
    using sum_list_member_le [OF commit_live(2), of "\<lambda>r. as_canonical_bytes (ir_size r)"] .
  show ?thesis
    using assms(2) commit_live(1,2) one le length_remove1_Suc [OF commit_live(2)]
    by (auto simp: budget_inv_def within_budget_def saturating_add_def sum_list_remove1
        dest: notin_set_remove1)
next
  case (drop_live r)
  with assms(2) length_remove1_Suc [OF drop_live(2)] show ?thesis
    by (auto simp: budget_inv_def within_budget_def sum_list_remove1 dest: notin_set_remove1)
next
  case (dequeue res st')
  from try_dequeue_cases [OF dequeue(2)] assms(2) dequeue(1) show ?thesis
    by (auto simp: budget_inv_def within_budget_def)
next
  case (committed n res st')
  from assms(2) have w: "within_budget (gs_state g)" by (simp add: budget_inv_def)
  from mark_committed_cases [OF committed(2)] show ?thesis
  proof (elim disjE conjE)
    assume "st' = gs_state g"
    with assms(2) committed(1) show ?thesis by (simp add: budget_inv_def)
  next
    assume "st' = latch_failure (gs_state g) commit_accounting_failed"
    with assms(2) committed(1) show ?thesis by (simp add: budget_inv_def within_budget_def)
  next
    assume st': "st' = (gs_state g)\<lparr>
        is_outstanding := drop (cn_event_count n) (is_outstanding (gs_state g)),
        is_outstanding_canonical_bytes := wrapping_sub (is_outstanding_canonical_bytes (gs_state g))
          (sum_list (map te_canonical_bytes (take (cn_event_count n) (is_outstanding (gs_state g))))),
        is_committed_sequence := SortableU64Key_get (cn_committed n) \<rparr>"
    with within_budget_drop [OF w] have "within_budget st'" by simp
    with assms(2) committed(1) st' show ?thesis by (simp add: budget_inv_def)
  qed
next
  case (begin_cue res st')
  with assms(2) show ?thesis
    by (auto simp: budget_inv_def within_budget_def begin_cue_capture_def split: if_splits)
next
  case (finish_cue res st')
  with assms(2) show ?thesis
    by (auto simp: budget_inv_def within_budget_def finish_cue_capture_def split: if_splits)
next
  case (seal res st')
  with assms(2) show ?thesis
    by (auto simp: budget_inv_def within_budget_def seal_normal_ingress_def split: if_splits)
next
  case (seal_external res st')
  with assms(2) show ?thesis
    by (auto simp: budget_inv_def within_budget_def seal_for_external_core_failure_def split: if_splits)
next
  case (receive m st')
  with assms(2) show ?thesis
    by (auto simp: budget_inv_def within_budget_def IngressFailureReceiver_try_recv_def)
next
  case poison
  with assms(2) show ?thesis by (auto simp: budget_inv_def within_budget_def)
qed

lemma reachable_budget: "ingress_reachable g \<Longrightarrow> budget_inv g"
proof (induction rule: ingress_reachable.induct)
  case init
  then show ?case
    by (simp add: sys_init_def IngressState_default_def budget_inv_def within_budget_def)
next
  case (step g g')
  then show ?case using budget_step by blast
qed

lemma ingress_step_budget_induct [consumes 1, case_names init step]:
  assumes "ingress_reachable g" "P sys_init"
    and "\<And>g g'. budget_inv g \<Longrightarrow> P g \<Longrightarrow> ingress_step g g' \<Longrightarrow> P g'"
  shows "P g"
  using assms(1)
proof (induction rule: ingress_reachable.induct)
  case init
  show ?case by (rule assms(2))
next
  case (step g g')
  then show ?case using assms(3) reachable_budget by blast
qed

subsection \<open>The fatal event\<close>

definition fatal_live :: "IngressReservation list \<Rightarrow> nat" where
  "fatal_live rs = length (filter (\<lambda>r. ir_class r = Fatal) rs)"

lemma fatal_live_simps [simp]:
  "fatal_live [] = 0" "fatal_live (r # rs) = (if ir_class r = Fatal then 1 else 0) + fatal_live rs"
  by (simp_all add: fatal_live_def)

lemma fatal_live_remove1:
  "r \<in> set rs \<Longrightarrow> fatal_live rs = (if ir_class r = Fatal then 1 else 0) + fatal_live (remove1 r rs)"
  by (induction rs) auto

definition fatal_inv :: "ingress_sys \<Rightarrow> bool" where
  "fatal_inv g \<longleftrightarrow>
     fatal_live (gs_live g) = (if is_fatal_state (gs_state g) = Reserved then 1 else 0) \<and>
     gs_fatal_admitted g = (if is_fatal_state (gs_state g) = Admitted then 1 else 0) \<and>
     (is_fatal_state (gs_state g) \<noteq> Available \<longrightarrow> is_fatal_admission_authorized (gs_state g))"

lemma fatal_inv_cong:
  "fatal_inv g \<Longrightarrow> is_fatal_state (gs_state g') = is_fatal_state (gs_state g) \<Longrightarrow>
   (is_fatal_admission_authorized (gs_state g) \<longrightarrow> is_fatal_admission_authorized (gs_state g')) \<Longrightarrow>
   fatal_live (gs_live g') = fatal_live (gs_live g) \<Longrightarrow>
   gs_fatal_admitted g' = gs_fatal_admitted g \<Longrightarrow> fatal_inv g'"
  unfolding fatal_inv_def by auto

lemma fatal_step:
  assumes "ingress_step g g'" "fatal_inv g" "budget_inv g"
  shows "fatal_inv g'"
  using assms(1)
proof (cases rule: ingress_step.cases)
  case (reserve_granted sz cls r st')
  from assms(3) have w: "within_budget (gs_state g)" by (simp add: budget_inv_def)
  note r = reserve_Inr [OF reserve_granted(2) w]
  show ?thesis
  proof (cases "cls = Fatal")
    case True
    with r have "is_fatal_state (gs_state g) = Available" "is_fatal_admission_authorized (gs_state g)"
      by (auto simp: admission_gate_def split: FatalAdmissionState.splits if_splits)
    with r True assms(2) reserve_granted(1) show ?thesis by (auto simp: fatal_inv_def)
  next
    case False
    with r reserve_granted(1) show ?thesis by (intro fatal_inv_cong [OF assms(2)]) auto
  qed
next
  case (reserve_refused sz cls err st')
  from reserve_Inl [OF reserve_refused(2)] reserve_refused(1) show ?thesis
    by (intro fatal_inv_cong [OF assms(2)]) auto
next
  case (commit_live r e)
  show ?thesis
  proof (cases "ir_class r = Fatal")
    case True
    with fatal_live_remove1 [OF commit_live(2)] assms(2)
    have "is_fatal_state (gs_state g) = Reserved" by (auto simp: fatal_inv_def split: if_splits)
    with True fatal_live_remove1 [OF commit_live(2)] assms(2) commit_live(1) show ?thesis
      by (auto simp: fatal_inv_def reservation_commit_failure)
  next
    case False
    with fatal_live_remove1 [OF commit_live(2)] commit_live(1) show ?thesis
      by (intro fatal_inv_cong [OF assms(2)]) (auto simp: reservation_commit_failure)
  qed
next
  case (drop_live r)
  show ?thesis
  proof (cases "ir_class r = Fatal")
    case True
    with fatal_live_remove1 [OF drop_live(2)] assms(2)
    have "is_fatal_state (gs_state g) = Reserved" by (auto simp: fatal_inv_def split: if_splits)
    with True fatal_live_remove1 [OF drop_live(2)] assms(2) drop_live(1) show ?thesis
      by (auto simp: fatal_inv_def)
  next
    case False
    with fatal_live_remove1 [OF drop_live(2)] drop_live(1) show ?thesis
      by (intro fatal_inv_cong [OF assms(2)]) auto
  qed
next
  case (dequeue res st')
  from try_dequeue_cases [OF dequeue(2)] dequeue(1) show ?thesis
    by (intro fatal_inv_cong [OF assms(2)]) auto
next
  case (committed n res st')
  from mark_committed_cases [OF committed(2)] committed(1) show ?thesis
    by (intro fatal_inv_cong [OF assms(2)]) auto
next
  case (begin_cue res st')
  then show ?thesis
    by (intro fatal_inv_cong [OF assms(2)]) (auto simp: begin_cue_capture_def split: if_splits)
next
  case (finish_cue res st')
  then show ?thesis
    by (intro fatal_inv_cong [OF assms(2)]) (auto simp: finish_cue_capture_def split: if_splits)
next
  case (seal res st')
  then show ?thesis
    by (intro fatal_inv_cong [OF assms(2)]) (auto simp: seal_normal_ingress_def split: if_splits)
next
  case (seal_external res st')
  then show ?thesis
    by (intro fatal_inv_cong [OF assms(2)])
       (auto simp: seal_for_external_core_failure_def split: if_splits)
next
  case (receive m st')
  then show ?thesis
    by (intro fatal_inv_cong [OF assms(2)]) (auto simp: IngressFailureReceiver_try_recv_def)
next
  case poison
  then show ?thesis by (intro fatal_inv_cong [OF assms(2)]) auto
qed

lemma reachable_fatal: "ingress_reachable g \<Longrightarrow> fatal_inv g"
proof (induction rule: ingress_step_budget_induct)
  case init
  then show ?case by (simp add: fatal_inv_def sys_init_def IngressState_default_def)
next
  case (step g g')
  then show ?case using fatal_step by blast
qed

subsection \<open>Suppressed cues and the announced failure\<close>

definition cue_inv :: "ingress_sys \<Rightarrow> bool" where
  "cue_inv g \<longleftrightarrow>
     (\<not> is_cue_capture_paused (gs_state g) \<longrightarrow> is_suppressed_cues (gs_state g) = 0) \<and>
     (gs_suppressed g < 2 ^ 64 \<longrightarrow>
        gs_suppressed g = gs_reported g + unat (is_suppressed_cues (gs_state g)))"

lemma cue_inv_cong:
  "cue_inv g \<Longrightarrow> (is_cue_capture_paused (gs_state g) \<longrightarrow> is_cue_capture_paused (gs_state g')) \<Longrightarrow>
   is_suppressed_cues (gs_state g') = is_suppressed_cues (gs_state g) \<Longrightarrow>
   gs_suppressed g' = gs_suppressed g \<Longrightarrow> gs_reported g' = gs_reported g \<Longrightarrow> cue_inv g'"
  unfolding cue_inv_def by auto

lemma saturating_count:
  "a < 2 ^ 64 - 1 \<Longrightarrow> a = r + unat (k :: u64) \<Longrightarrow> unat (saturating_add_u64 k 1) = Suc (unat k)"
  by (rule saturating_add_u64_one) simp

lemma begin_cue_step:
  assumes i: "cue_inv g" and b: "begin_cue_capture (gs_state g) = (res, st')"
  shows "cue_inv (g\<lparr> gs_state := st',
      gs_suppressed := gs_suppressed g + (if res = Inr Suppress then 1 else 0),
      gs_reported := gs_reported g + (case res of Inr (Resume k) \<Rightarrow> unat k | _ \<Rightarrow> 0) \<rparr>)"
proof (cases "is_poisoned (gs_state g) \<or> is_normal_ingress_sealed (gs_state g)")
  case True
  with assms show ?thesis by (auto simp: begin_cue_capture_def cue_inv_def split: if_splits)
next
  case False
  let ?resume = "current_events (gs_state g) \<le> CUE_CAPTURE_RESUME_EVENTS \<and>
    current_bytes (gs_state g) \<le> CUE_CAPTURE_RESUME_CANONICAL_BYTES"
  let ?pause = "current_events (gs_state g) \<ge> CUE_CAPTURE_PAUSE_EVENTS \<or>
    current_bytes (gs_state g) \<ge> CUE_CAPTURE_PAUSE_CANONICAL_BYTES"
  consider (resume) "is_cue_capture_paused (gs_state g)" "?resume"
    | (more) "is_cue_capture_paused (gs_state g)" "\<not> ?resume"
    | (pause) "\<not> is_cue_capture_paused (gs_state g)" "?pause"
    | (capture) "\<not> is_cue_capture_paused (gs_state g)" "\<not> ?pause" by blast
  then show ?thesis
  proof cases
    case resume
    with False assms show ?thesis
      unfolding begin_cue_capture_def cue_inv_def
      by (cases "is_suppressed_cues (gs_state g) = 0") auto
  next
    case more
    with False b have eq: "res = Inr Suppress"
      "st' = (gs_state g)\<lparr> is_suppressed_cues := saturating_add_u64 (is_suppressed_cues (gs_state g)) 1 \<rparr>"
      unfolding begin_cue_capture_def by (simp_all split: if_splits)
    with i more(1) saturating_count [of "gs_suppressed g" "gs_reported g" "is_suppressed_cues (gs_state g)"]
    show ?thesis by (auto simp: cue_inv_def)
  next
    case pause
    with False b have "res = Inr Suppress"
      "st' = (gs_state g)\<lparr> is_cue_capture_paused := True, is_suppressed_cues := 1 \<rparr>"
      unfolding begin_cue_capture_def by (simp_all split: if_splits)
    with i pause(1) show ?thesis by (auto simp: cue_inv_def)
  next
    case capture
    with False b have "res = Inr Capture" "st' = gs_state g"
      unfolding begin_cue_capture_def by (simp_all split: if_splits)
    with i show ?thesis by (auto simp: cue_inv_def)
  qed
qed

lemma cue_step:
  assumes "ingress_step g g'" "cue_inv g" "budget_inv g"
  shows "cue_inv g'"
  using assms(1)
proof (cases rule: ingress_step.cases)
  case (reserve_granted sz cls r st')
  from assms(3) have w: "within_budget (gs_state g)" by (simp add: budget_inv_def)
  from reserve_Inr [OF reserve_granted(2) w] reserve_granted(1) show ?thesis
    by (intro cue_inv_cong [OF assms(2)]) auto
next
  case (reserve_refused sz cls err st')
  from reserve_Inl [OF reserve_refused(2)] reserve_refused(1) show ?thesis
    by (intro cue_inv_cong [OF assms(2)]) auto
next
  case (commit_live r e)
  then show ?thesis by (intro cue_inv_cong [OF assms(2)]) auto
next
  case (drop_live r)
  then show ?thesis by (intro cue_inv_cong [OF assms(2)]) auto
next
  case (dequeue res st')
  from try_dequeue_cases [OF dequeue(2)] dequeue(1) show ?thesis
    by (intro cue_inv_cong [OF assms(2)]) auto
next
  case (committed n res st')
  from mark_committed_cases [OF committed(2)] committed(1) show ?thesis
    by (intro cue_inv_cong [OF assms(2)]) auto
next
  case (begin_cue res st')
  from begin_cue_step [OF assms(2) begin_cue(2)] begin_cue(1) show ?thesis by simp
next
  case (finish_cue res st')
  then show ?thesis using assms(2)
    by (cases "is_suppressed_cues (gs_state g) = 0")
       (auto simp: finish_cue_capture_def cue_inv_def word_gt_0 split: if_splits)
next
  case (seal res st')
  then show ?thesis
    by (intro cue_inv_cong [OF assms(2)]) (auto simp: seal_normal_ingress_def split: if_splits)
next
  case (seal_external res st')
  then show ?thesis
    by (intro cue_inv_cong [OF assms(2)])
       (auto simp: seal_for_external_core_failure_def split: if_splits)
next
  case (receive m st')
  then show ?thesis
    by (intro cue_inv_cong [OF assms(2)]) (auto simp: IngressFailureReceiver_try_recv_def)
next
  case poison
  then show ?thesis by (intro cue_inv_cong [OF assms(2)]) auto
qed

lemma reachable_cue: "ingress_reachable g \<Longrightarrow> cue_inv g"
proof (induction rule: ingress_step_budget_induct)
  case init
  then show ?case by (simp add: cue_inv_def sys_init_def IngressState_default_def)
next
  case (step g g')
  then show ?case using cue_step by blast
qed

definition failure_inv :: "ingress_sys \<Rightarrow> bool" where
  "failure_inv g \<longleftrightarrow>
     (case is_failure (gs_state g) of
        None \<Rightarrow> is_failure_channel (gs_state g) = None \<and> gs_announced g = []
      | Some f \<Rightarrow> is_normal_ingress_sealed (gs_state g) \<and> is_fatal_admission_authorized (gs_state g) \<and>
          gs_announced g @ (case is_failure_channel (gs_state g) of None \<Rightarrow> [] | Some m \<Rightarrow> [m]) = [f])"

lemma failure_inv_cong:
  "failure_inv g \<Longrightarrow> is_failure (gs_state g') = is_failure (gs_state g) \<Longrightarrow>
   is_failure_channel (gs_state g') = is_failure_channel (gs_state g) \<Longrightarrow>
   (is_normal_ingress_sealed (gs_state g) \<longrightarrow> is_normal_ingress_sealed (gs_state g')) \<Longrightarrow>
   (is_fatal_admission_authorized (gs_state g) \<longrightarrow> is_fatal_admission_authorized (gs_state g')) \<Longrightarrow>
   gs_announced g' = gs_announced g \<Longrightarrow> failure_inv g'"
  unfolding failure_inv_def by (auto split: option.splits)

lemma failure_inv_latch:
  "failure_inv g \<Longrightarrow> is_failure (gs_state g') = is_failure (latch_failure (gs_state g) f) \<Longrightarrow>
   is_failure_channel (gs_state g') = is_failure_channel (latch_failure (gs_state g) f) \<Longrightarrow>
   is_normal_ingress_sealed (gs_state g') \<Longrightarrow> is_fatal_admission_authorized (gs_state g') \<Longrightarrow>
   gs_announced g' = gs_announced g \<Longrightarrow> failure_inv g'"
  unfolding failure_inv_def by (auto simp: latch_failure_channel split: option.splits)

lemma failure_step:
  assumes "ingress_step g g'" "failure_inv g" "budget_inv g"
  shows "failure_inv g'"
  using assms(1)
proof (cases rule: ingress_step.cases)
  case (reserve_granted sz cls r st')
  from assms(3) have w: "within_budget (gs_state g)" by (simp add: budget_inv_def)
  from reserve_Inr [OF reserve_granted(2) w] reserve_granted(1) show ?thesis
    by (intro failure_inv_cong [OF assms(2)]) auto
next
  case (reserve_refused sz cls err st')
  from reserve_Inl [OF reserve_refused(2)] show ?thesis
  proof (elim disjE conjE exE)
    assume "st' = gs_state g"
    with reserve_refused(1) show ?thesis by (intro failure_inv_cong [OF assms(2)]) auto
  next
    fix f
    assume "st' = latch_failure (gs_state g) f"
    with reserve_refused(1) show ?thesis by (intro failure_inv_latch [OF assms(2), of _ f]) auto
  qed
next
  case (commit_live r e)
  then show ?thesis
  proof (cases "commit_consistent (gs_state g) r e")
    case True
    with commit_live show ?thesis
      by (intro failure_inv_cong [OF assms(2)]) (auto simp: reservation_commit_failure)
  next
    case False
    with commit_live show ?thesis
      by (intro failure_inv_latch [OF assms(2), of _ commit_accounting_failed])
         (auto simp: reservation_commit_failure)
  qed
next
  case (drop_live r)
  then show ?thesis by (intro failure_inv_cong [OF assms(2)]) auto
next
  case (dequeue res st')
  from try_dequeue_cases [OF dequeue(2)] dequeue(1) show ?thesis
    by (intro failure_inv_cong [OF assms(2)]) auto
next
  case (committed n res st')
  from mark_committed_cases [OF committed(2)] show ?thesis
  proof (elim disjE)
    assume "st' = latch_failure (gs_state g) commit_accounting_failed"
    with committed(1) show ?thesis
      by (intro failure_inv_latch [OF assms(2), of _ commit_accounting_failed]) auto
  next
    assume "st' = gs_state g"
    with committed(1) show ?thesis by (intro failure_inv_cong [OF assms(2)]) auto
  next
    assume "validate_commit (gs_state g) n = Inr () \<and> res = Inr () \<and>
      st' = (gs_state g)\<lparr> is_outstanding := drop (cn_event_count n) (is_outstanding (gs_state g)),
        is_outstanding_canonical_bytes := wrapping_sub (is_outstanding_canonical_bytes (gs_state g))
          (sum_list (map te_canonical_bytes (take (cn_event_count n) (is_outstanding (gs_state g))))),
        is_committed_sequence := SortableU64Key_get (cn_committed n) \<rparr>"
    with committed(1) show ?thesis by (intro failure_inv_cong [OF assms(2)]) auto
  qed
next
  case (begin_cue res st')
  then show ?thesis
    by (intro failure_inv_cong [OF assms(2)]) (auto simp: begin_cue_capture_def split: if_splits)
next
  case (finish_cue res st')
  then show ?thesis
    by (intro failure_inv_cong [OF assms(2)]) (auto simp: finish_cue_capture_def split: if_splits)
next
  case (seal res st')
  then show ?thesis
    by (intro failure_inv_cong [OF assms(2)]) (auto simp: seal_normal_ingress_def split: if_splits)
next
  case (seal_external res st')
  then show ?thesis
    by (intro failure_inv_cong [OF assms(2)])
       (auto simp: seal_for_external_core_failure_def split: if_splits)
next
  case (receive m st')
  with assms(2) show ?thesis
    by (auto simp: failure_inv_def IngressFailureReceiver_try_recv_def split: option.splits)
next
  case poison
  then show ?thesis by (intro failure_inv_cong [OF assms(2)]) auto
qed

lemma reachable_failure: "ingress_reachable g \<Longrightarrow> failure_inv g"
proof (induction rule: ingress_step_budget_induct)
  case init
  then show ?case by (simp add: failure_inv_def sys_init_def IngressState_default_def)
next
  case (step g g')
  then show ?case using failure_step by blast
qed

subsection \<open>Order of delivery\<close>

text \<open>The events in flight are a prefix of the queue.\<close>

definition phases_ordered :: "TrackedEvent list \<Rightarrow> bool" where
  "phases_ordered ts \<longleftrightarrow> (\<exists>pre post. ts = pre @ post \<and> (\<forall>t \<in> set pre. te_phase t = InFlight) \<and>
     (\<forall>t \<in> set post. te_phase t = Queued))"

lemma phases_orderedI:
  "\<forall>t \<in> set pre. te_phase t = InFlight \<Longrightarrow> \<forall>t \<in> set post. te_phase t = Queued \<Longrightarrow>
   phases_ordered (pre @ post)"
  by (auto simp: phases_ordered_def)

lemma phases_orderedE:
  assumes "phases_ordered ts"
  obtains pre post where "ts = pre @ post" "\<forall>t \<in> set pre. te_phase t = InFlight"
    "\<forall>t \<in> set post. te_phase t = Queued"
  using assms by (auto simp: phases_ordered_def)

lemma phases_ordered_snoc: "phases_ordered ts \<Longrightarrow> te_phase t = Queued \<Longrightarrow> phases_ordered (ts @ [t])"
  by (erule phases_orderedE) (simp add: phases_orderedI)

lemma phases_ordered_drop: "phases_ordered ts \<Longrightarrow> phases_ordered (drop n ts)"
  by (erule phases_orderedE) (auto intro!: phases_orderedI dest: in_set_dropD)

lemma phases_ordered_dequeue:
  assumes "phases_ordered (pre @ t # post)" "te_phase t = Queued" "\<forall>u \<in> set pre. te_phase u = InFlight"
  shows "phases_ordered (pre @ t\<lparr> te_phase := InFlight \<rparr> # post)"
proof -
  from assms(1) obtain a b where ab: "pre @ t # post = a @ b" "\<forall>u \<in> set a. te_phase u = InFlight"
      "\<forall>u \<in> set b. te_phase u = Queued" by (auto simp: phases_ordered_def)
  have "\<forall>u \<in> set post. te_phase u = Queued"
  proof -
    from ab(1) consider us where "pre @ us = a" "t # post = us @ b"
      | us where "pre = a @ us" "us @ t # post = b" by (auto simp: append_eq_append_conv2)
    then show ?thesis
    proof cases
      case 1
      then have "us = []" using ab(2) assms(2) by (cases us) auto
      with 1 ab(3) show ?thesis by auto
    next
      case 2
      with ab(3) show ?thesis by auto
    qed
  qed
  with assms(3) show ?thesis
    unfolding phases_ordered_def
    by (intro exI [of _ "pre @ [t\<lparr> te_phase := InFlight \<rparr>]"] exI [of _ post]) auto
qed

lemma phase_step:
  assumes "ingress_step g g'" "phases_ordered (is_outstanding (gs_state g))" "budget_inv g"
  shows "phases_ordered (is_outstanding (gs_state g'))"
  using assms(1)
proof (cases rule: ingress_step.cases)
  case (reserve_granted sz cls r st')
  from assms(3) have w: "within_budget (gs_state g)" by (simp add: budget_inv_def)
  from reserve_Inr [OF reserve_granted(2) w] reserve_granted(1) assms(2) show ?thesis by auto
next
  case (reserve_refused sz cls err st')
  from reserve_Inl [OF reserve_refused(2)] reserve_refused(1) assms(2) show ?thesis by auto
next
  case (commit_live r e)
  with assms(2) show ?thesis by (simp add: phases_ordered_snoc)
next
  case (dequeue res st')
  from try_dequeue_cases [OF dequeue(2)] show ?thesis
  proof (elim disjE exE conjE)
    fix pre t post
    assume "is_outstanding (gs_state g) = pre @ t # post" "\<forall>u \<in> set pre. te_phase u = InFlight"
      "te_phase t = Queued"
      "st' = (gs_state g)\<lparr> is_outstanding := pre @ t\<lparr> te_phase := InFlight \<rparr> # post \<rparr>"
    with assms(2) dequeue(1) phases_ordered_dequeue [of pre t post] show ?thesis by simp
  qed (use dequeue(1) assms(2) in simp)
next
  case (committed n res st')
  from mark_committed_cases [OF committed(2)] committed(1) assms(2) show ?thesis
    by (auto intro: phases_ordered_drop)
next
  case (begin_cue res st')
  with assms(2) show ?thesis by (auto simp: begin_cue_capture_def split: if_splits)
next
  case (finish_cue res st')
  with assms(2) show ?thesis by (auto simp: finish_cue_capture_def split: if_splits)
next
  case (seal res st')
  with assms(2) show ?thesis by (auto simp: seal_normal_ingress_def split: if_splits)
next
  case (seal_external res st')
  with assms(2) show ?thesis by (auto simp: seal_for_external_core_failure_def split: if_splits)
qed (use assms(2) in \<open>auto simp: IngressFailureReceiver_try_recv_def\<close>)

lemma reachable_phases: "ingress_reachable g \<Longrightarrow> phases_ordered (is_outstanding (gs_state g))"
proof (induction rule: ingress_step_budget_induct)
  case init
  then show ?case by (simp add: phases_ordered_def sys_init_def IngressState_default_def)
next
  case (step g g')
  then show ?case using phase_step by blast
qed

subsection \<open>A sample run\<close>

text \<open>An external failure is reported, then the fatal event is reserved and admitted.\<close>

definition sample_fatal_run :: ingress_sys where
  "sample_fatal_run =
     (let st1 = snd (seal_for_external_core_failure IngressState_default);
          (r, st2) = ingress_reserve st1 (AdmissionSize_one_event 3) Fatal
      in sys_init\<lparr> gs_state := reservation_commit st2 (projr r) (sample_accepted 1),
           gs_live := [], gs_fatal_admitted := 1 \<rparr>)"

lemma sample_fatal_run_reachable: "ingress_reachable sample_fatal_run"
proof -
  define st1 where "st1 = snd (seal_for_external_core_failure IngressState_default)"
  define r where "r = \<lparr> ir_size = AdmissionSize_one_event 3, ir_class = Fatal \<rparr>"
  obtain st2 where g: "ingress_reserve st1 (AdmissionSize_one_event 3) Fatal = (Inr r, st2)"
    by (simp add: st1_def r_def ingress_reserve_def seal_for_external_core_failure_def
        IngressState_default_def admission_gate_def AdmissionSize_one_event_def exceeds_def
        checked_add_def current_events_def current_bytes_def saturating_add_def)
  let ?g1 = "sys_init\<lparr> gs_state := st1 \<rparr>"
  have "ingress_step sys_init ?g1"
    by (rule seal_external [where res = "Inr True"])
       (simp add: sys_init_def st1_def seal_for_external_core_failure_def IngressState_default_def)
  then have r1: "ingress_reachable ?g1" by (rule ingress_reachable.step [OF ingress_reachable.init])
  let ?g2 = "?g1\<lparr> gs_state := st2, gs_live := r # gs_live ?g1 \<rparr>"
  have "ingress_step ?g1 ?g2" using g by (intro reserve_granted [where sz = "AdmissionSize_one_event 3"]) simp
  then have r2: "ingress_reachable ?g2" by (rule ingress_reachable.step [OF r1])
  have "ingress_step ?g2 (?g2\<lparr> gs_state := reservation_commit (gs_state ?g2) r (sample_accepted 1),
      gs_live := remove1 r (gs_live ?g2),
      gs_fatal_admitted := gs_fatal_admitted ?g2 + (if ir_class r = Fatal then 1 else 0) \<rparr>)"
    by (rule commit_live) simp
  moreover have "?g2\<lparr> gs_state := reservation_commit (gs_state ?g2) r (sample_accepted 1),
      gs_live := remove1 r (gs_live ?g2),
      gs_fatal_admitted := gs_fatal_admitted ?g2 + (if ir_class r = Fatal then 1 else 0) \<rparr>
      = sample_fatal_run"
    using g by (simp add: sample_fatal_run_def Let_def st1_def [symmetric] sys_init_def r_def)
  ultimately show ?thesis using ingress_reachable.step [OF r2] by simp
qed

subsection \<open>Properties\<close>

text \<open>
  C16. In every reachable state of the ingress the reserved and the uncommitted events together
  are at most 32768 and their bytes at most 64 mebibytes, and the status it reports is exact:
  one event per live reservation and per queued or in-flight event, and the sum of their sizes.
\<close>

theorem ingress_bounded:
  assumes "ingress_reachable g"
  shows "(let status = IngressStatus_from_state (gs_state g) in
    ist_accepted_uncommitted_events status = length (gs_live g) + length (is_outstanding (gs_state g)) \<and>
    ist_accepted_uncommitted_events status \<le> MAX_UNCOMMITTED_EVENTS \<and>
    ist_accepted_uncommitted_canonical_bytes status
      = sum_list (map (\<lambda>r. as_canonical_bytes (ir_size r)) (gs_live g))
        + sum_list (map te_canonical_bytes (is_outstanding (gs_state g))) \<and>
    ist_accepted_uncommitted_canonical_bytes status \<le> MAX_UNCOMMITTED_CANONICAL_BYTES \<and>
    ist_queued_events status + ist_in_flight_events status = length (is_outstanding (gs_state g)))"
  using reachable_budget [OF assms] length_filter_le [of "\<lambda>t. te_phase t = Queued"]
  by (auto simp: Let_def IngressStatus_from_state_def budget_inv_def within_budget_def
      wrapping_sub_exact)

theorem ingress_bounded_witness:
  "ist_accepted_uncommitted_events (IngressStatus_from_state (gs_state sample_fatal_run)) \<le> 32768"
  using ingress_bounded [OF sample_fatal_run_reachable] by (simp add: Let_def)



text \<open>
  Suppressed cues are accounted for exactly: as long as fewer than \<open>2 ^ 64\<close> cues were
  suppressed in all, the number of \<^verbatim>\<open>Suppress\<close> answers is the sum of the counts reported on
  resuming and finishing plus the count still pending, and nothing is pending unless capture
  is paused.
\<close>

theorem suppressed_cues_reported:
  assumes "ingress_reachable g" "gs_suppressed g < 2 ^ 64"
  shows "gs_suppressed g = gs_reported g + unat (is_suppressed_cues (gs_state g)) \<and>
    (\<not> is_cue_capture_paused (gs_state g) \<longrightarrow> gs_suppressed g = gs_reported g)"
  using reachable_cue [OF assms(1)] assms(2) by (auto simp: cue_inv_def)

theorem suppressed_cues_reported_witness:
  "gs_suppressed sample_fatal_run
     = gs_reported sample_fatal_run + unat (is_suppressed_cues (gs_state sample_fatal_run))"
proof -
  have "gs_suppressed sample_fatal_run < 2 ^ 64"
    by (simp add: sample_fatal_run_def Let_def sys_init_def split: prod.split)
  from suppressed_cues_reported [OF sample_fatal_run_reachable this] show ?thesis by blast
qed

text \<open>
  C22. A failure of the ingress is latched once and announced once: the messages received from
  the failure channel, with the one still in it, are exactly the latched failure; and a latched
  failure means that normal admission is sealed and fatal admission authorised.
\<close>

theorem failure_announced_once:
  assumes "ingress_reachable g"
  shows "gs_announced g @ (case is_failure_channel (gs_state g) of None \<Rightarrow> [] | Some m \<Rightarrow> [m])
      = (case is_failure (gs_state g) of None \<Rightarrow> [] | Some f \<Rightarrow> [f]) \<and>
    (is_failure (gs_state g) \<noteq> None \<longrightarrow>
       is_normal_ingress_sealed (gs_state g) \<and> is_fatal_admission_authorized (gs_state g))"
  using reachable_failure [OF assms] by (auto simp: failure_inv_def split: option.splits)

theorem failure_announced_once_witness:
  "gs_announced sample_fatal_run = [] \<and> is_failure (gs_state sample_fatal_run) = None \<and>
   is_failure_channel (gs_state sample_fatal_run) = None"
proof -
  have "is_failure (gs_state sample_fatal_run) = None"
    by (simp add: sample_fatal_run_def Let_def sys_init_def reservation_commit_def
        ingress_reserve_def seal_for_external_core_failure_def
        IngressState_default_def admission_gate_def AdmissionSize_one_event_def exceeds_def
        checked_add_def current_events_def current_bytes_def saturating_add_def
        release_reserved_def sample_accepted_def sample_events AcceptedDiagnosticEvent_identity_def)
  with failure_announced_once [OF sample_fatal_run_reachable] show ?thesis
    by (simp split: option.splits)
qed

end
