(* ===== verification/Hub.thy ===== *)
theory Hub
  imports Ingress_Safety
begin

section \<open>The diagnostic hub\<close>

text \<open>
  Models the rest of \<^verbatim>\<open>rust/crates/troupe-diagnostics-core/src/hub.rs\<close>: admission of an
  event by the hub (\<open>admit_inner\<close>) and the stream that numbers events for a single subscriber
  once the hub has stopped (\<open>SubscriberLocalStream\<close>).

  The candidate is the closure that builds the event for an identity; the JSON encoder is a
  parameter (\<^verbatim>\<open>serde_json::to_vec\<close>, which may fail); the live notifier and the subscriber are
  functions on states of their own. The reserver is given by its three operations. The two
  mutexes are flags for their poisoning; an admission runs under the state lock up to the
  delivery to the subscriber, so admissions are atomic steps on the hub's state.
\<close>

datatype 'e HubAdmissionError =
    HubStatePoisoned
  | HubSequenceExhausted
  | CandidateIdentityMismatch EventIdentity EventIdentity
  | CanonicalEncoding
  | Reference ReferenceValidationError
  | Reservation 'e

record ('r, 'n) HubState =
  hs_run_id :: canonical_uuid
  hs_next_sequence :: "u64 option"
  hs_reserver :: 'r
  hs_validator :: ReferenceValidator
  hs_live_notifier :: "'n option"
  hs_poisoned :: bool
  hs_delivery_order_poisoned :: bool

definition DiagnosticHub_new :: "canonical_uuid \<Rightarrow> 'r \<Rightarrow> 'n option \<Rightarrow> ('r, 'n) HubState" where
  "DiagnosticHub_new run_id reserver live_notifier =
     \<lparr> hs_run_id = run_id, hs_next_sequence = Some 1, hs_reserver = reserver,
       hs_validator = ReferenceValidator_new, hs_live_notifier = live_notifier,
       hs_poisoned = False, hs_delivery_order_poisoned = False \<rparr>"

text \<open>Delivery to an optional receiver: the outcome and the receiver afterwards.\<close>

definition deliver_to ::
  "('d \<Rightarrow> AcceptedDiagnosticEvent \<Rightarrow> (delivery_failure + unit) \<times> 'd) \<Rightarrow> 'd option \<Rightarrow>
   AcceptedDiagnosticEvent \<Rightarrow> DeliveryOutcome \<times> 'd option" where
  "deliver_to deliver receiver a =
     (case receiver of
        None \<Rightarrow> (NotConfigured, None)
      | Some d \<Rightarrow> (case deliver d a of
            (Inr _, d') \<Rightarrow> (Delivered, Some d')
          | (Inl err, d') \<Rightarrow> (DeliveryFailed err, Some d')))"

definition event_identity :: "DiagnosticEvent \<Rightarrow> EventIdentity" where
  "event_identity e = \<lparr> eid_run_id = event_run_id e, eid_sequence = event_sequence e \<rparr>"

definition admit_inner ::
  "('r \<Rightarrow> AdmissionSize \<Rightarrow> ('e + 'res) \<times> 'r) \<Rightarrow> ('r \<Rightarrow> 'res \<Rightarrow> AcceptedDiagnosticEvent \<Rightarrow> 'r) \<Rightarrow>
   ('r \<Rightarrow> 'res \<Rightarrow> 'r) \<Rightarrow> (DiagnosticEvent \<Rightarrow> bytes option) \<Rightarrow>
   ('n \<Rightarrow> AcceptedDiagnosticEvent \<Rightarrow> (delivery_failure + unit) \<times> 'n) \<Rightarrow>
   ('s \<Rightarrow> AcceptedDiagnosticEvent \<Rightarrow> (delivery_failure + unit) \<times> 's) \<Rightarrow>
   ('r, 'n) HubState \<Rightarrow> (EventIdentity \<Rightarrow> DiagnosticEvent) \<Rightarrow> 's option \<Rightarrow>
   ('e HubAdmissionError + AdmissionReceipt) \<times> ('r, 'n) HubState \<times> 's option" where
  "admit_inner reserve commit_reservation drop_reservation encode notify deliver
     hub candidate subscriber =
     (if subscriber \<noteq> None \<and> hs_delivery_order_poisoned hub then (Inl HubStatePoisoned, hub, subscriber)
      else if hs_poisoned hub then (Inl HubStatePoisoned, hub, subscriber)
      else case hs_next_sequence hub of
        None \<Rightarrow> (Inl HubSequenceExhausted, hub, subscriber)
      | Some next_seq \<Rightarrow>
     (let identity = \<lparr> eid_run_id = hs_run_id hub, eid_sequence = next_seq \<rparr>;
          event = candidate identity;
          actual = event_identity event in
      if actual \<noteq> identity
      then (Inl (CandidateIdentityMismatch identity actual), hub, subscriber)
      else case encode event of
        None \<Rightarrow> (Inl CanonicalEncoding, hub, subscriber)
      | Some canonical_bytes \<Rightarrow>
     (case reserve (hs_reserver hub) (AdmissionSize_one_event (length canonical_bytes)) of
        (Inl err, reserver) \<Rightarrow>
          (Inl (Reservation err), hub\<lparr> hs_reserver := reserver \<rparr>, subscriber)
      | (Inr reservation, reserver) \<Rightarrow>
     (case validate (hs_validator hub) event of
        (Inl err, validator) \<Rightarrow>
          (Inl (Reference err),
           hub\<lparr> hs_reserver := drop_reservation reserver reservation, hs_validator := validator \<rparr>,
           subscriber)
      | (Inr validated, validator) \<Rightarrow>
          (let accepted = \<lparr> ae_event = event, ae_canonical_bytes = canonical_bytes,
                 ae_built_in_span_kind = ve_built_in_span_kind validated, ae_subscriber_local = False \<rparr>;
               (live_delivery, notifier) = deliver_to notify (hs_live_notifier hub) accepted;
               (subscriber_delivery, subscriber') = deliver_to deliver subscriber accepted
           in (Inr \<lparr> ar_accepted = accepted, ar_live_delivery = live_delivery,
                 ar_subscriber_delivery = subscriber_delivery \<rparr>,
               hub\<lparr> hs_next_sequence := checked_add_u64 next_seq 1,
                 hs_reserver := commit_reservation reserver reservation accepted,
                 hs_validator := validator, hs_live_notifier := notifier \<rparr>,
               subscriber'))))))"

subsection \<open>Subscriber-local streams\<close>

datatype SubscriberLocalStreamError =
    LocalRunIdentityMismatch
  | LocalSequenceUnavailable
  | LocalSequenceExhausted
  | LocalSequenceRegression u64 u64
  | LocalIdentityMismatch EventIdentity EventIdentity
  | LocalCanonicalEncoding
  | LocalReference ReferenceValidationError

record SubscriberLocalStream =
  sls_run_id :: canonical_uuid
  sls_next_sequence :: "u64 option"
  sls_sequence_exhausted :: bool
  sls_validator :: ReferenceValidator

definition SubscriberLocalStream_new :: "canonical_uuid \<Rightarrow> SubscriberLocalStream" where
  "SubscriberLocalStream_new run_id = \<lparr> sls_run_id = run_id, sls_next_sequence = None,
     sls_sequence_exhausted = False, sls_validator = ReferenceValidator_new \<rparr>"

definition sls_advance :: "SubscriberLocalStream \<Rightarrow> u64 \<Rightarrow> SubscriberLocalStream" where
  "sls_advance s sequence =
     (case checked_add_u64 sequence 1 of
        Some next_seq \<Rightarrow> s\<lparr> sls_next_sequence := Some next_seq \<rparr>
      | None \<Rightarrow> s\<lparr> sls_next_sequence := None, sls_sequence_exhausted := True \<rparr>)"

definition validate_seed_identity ::
  "SubscriberLocalStream \<Rightarrow> EventIdentity \<Rightarrow> SubscriberLocalStreamError + unit" where
  "validate_seed_identity s identity =
     (if eid_run_id identity \<noteq> sls_run_id s then Inl LocalRunIdentityMismatch
      else if sls_sequence_exhausted s then Inl LocalSequenceExhausted
      else case sls_next_sequence s of
        None \<Rightarrow> Inr ()
      | Some next_seq \<Rightarrow>
          if eid_sequence identity < next_seq
          then Inl (LocalSequenceRegression next_seq (eid_sequence identity)) else Inr ())"

definition sls_seed ::
  "SubscriberLocalStream \<Rightarrow> DiagnosticEvent \<Rightarrow> (SubscriberLocalStreamError + unit) \<times> SubscriberLocalStream" where
  "sls_seed s event =
     (case validate_seed_identity s (event_identity event) of
        Inl err \<Rightarrow> (Inl err, s)
      | Inr _ \<Rightarrow>
          (case validate (sls_validator s) event of
             (Inl err, validator) \<Rightarrow> (Inl (LocalReference err), s\<lparr> sls_validator := validator \<rparr>)
           | (Inr _, validator) \<Rightarrow>
               (Inr (), sls_advance (s\<lparr> sls_validator := validator \<rparr>) (event_sequence event))))"

definition sls_accept ::
  "(DiagnosticEvent \<Rightarrow> bytes option) \<Rightarrow>
   ('s \<Rightarrow> AcceptedDiagnosticEvent \<Rightarrow> (delivery_failure + unit) \<times> 's) \<Rightarrow>
   SubscriberLocalStream \<Rightarrow> DiagnosticEvent \<Rightarrow> 's option \<Rightarrow>
   (SubscriberLocalStreamError + AdmissionReceipt) \<times> SubscriberLocalStream \<times> 's option" where
  "sls_accept encode deliver s event subscriber =
     (case encode event of
        None \<Rightarrow> (Inl LocalCanonicalEncoding, s, subscriber)
      | Some canonical_bytes \<Rightarrow>
          (case validate (sls_validator s) event of
             (Inl err, validator) \<Rightarrow>
               (Inl (LocalReference err), s\<lparr> sls_validator := validator \<rparr>, subscriber)
           | (Inr validated, validator) \<Rightarrow>
               (let accepted = \<lparr> ae_event = event, ae_canonical_bytes = canonical_bytes,
                      ae_built_in_span_kind = ve_built_in_span_kind validated,
                      ae_subscriber_local = True \<rparr>;
                    (outcome, subscriber') = deliver_to deliver subscriber accepted
                in (Inr \<lparr> ar_accepted = accepted, ar_live_delivery = NotConfigured,
                      ar_subscriber_delivery = outcome \<rparr>,
                    sls_advance (s\<lparr> sls_validator := validator \<rparr>) (accepted_seq accepted),
                    subscriber'))))"

definition sls_admit ::
  "(DiagnosticEvent \<Rightarrow> bytes option) \<Rightarrow>
   ('s \<Rightarrow> AcceptedDiagnosticEvent \<Rightarrow> (delivery_failure + unit) \<times> 's) \<Rightarrow>
   SubscriberLocalStream \<Rightarrow> (EventIdentity \<Rightarrow> DiagnosticEvent) \<Rightarrow> 's option \<Rightarrow>
   (SubscriberLocalStreamError + AdmissionReceipt) \<times> SubscriberLocalStream \<times> 's option" where
  "sls_admit encode deliver s candidate subscriber =
     (if sls_sequence_exhausted s then (Inl LocalSequenceExhausted, s, subscriber)
      else case sls_next_sequence s of
        None \<Rightarrow> (Inl LocalSequenceUnavailable, s, subscriber)
      | Some next_seq \<Rightarrow>
          (let identity = \<lparr> eid_run_id = sls_run_id s, eid_sequence = next_seq \<rparr>;
               event = candidate identity;
               actual = event_identity event
           in if actual \<noteq> identity
              then (Inl (LocalIdentityMismatch identity actual), s, subscriber)
              else sls_accept encode deliver s event subscriber))"

subsection \<open>Admission over any reserver\<close>

text \<open>
  What the hub has admitted so far, told from its state: the events are numbered from one
  without gaps, form an accepted stream of the hub's Run, carry their encoding, and the next
  number is the one after the last, or none when the numbers are used up.
\<close>

definition hub_tracks ::
  "(DiagnosticEvent \<Rightarrow> bytes option) \<Rightarrow> ('r, 'n) HubState \<Rightarrow> AcceptedDiagnosticEvent list \<Rightarrow> bool" where
  "hub_tracks encode hub h \<longleftrightarrow>
     run_from 0 h \<and> accepted (map ae_event h) \<and> tracks (hs_validator hub) (map ae_event h) \<and>
     hs_next_sequence hub = checked_add_u64 (last_seq 0 h) 1 \<and>
     (\<forall>a \<in> set h. accepted_run a = hs_run_id hub \<and> encode (ae_event a) = Some (ae_canonical_bytes a) \<and>
        \<not> ae_subscriber_local a \<and> resolves_to (map ae_event h) (ae_event a) (ae_built_in_span_kind a))"

lemma hub_tracks_reserver [simp]: "hub_tracks encode (hub\<lparr> hs_reserver := r \<rparr>) h = hub_tracks encode hub h"
  by (simp add: hub_tracks_def)

lemma hub_tracks_new: "hub_tracks encode (DiagnosticHub_new run_id reserver live) []"
  by (simp add: hub_tracks_def DiagnosticHub_new_def tracks_new accepted_Nil checked_add_u64_def)

lemma hub_tracks_extend:
  assumes t: "hub_tracks encode hub h" and n: "hs_next_sequence hub = Some (accepted_seq a)"
    and v: "validate (hs_validator hub) (ae_event a) = (Inr ok, hs_validator hub')"
    and k: "ae_built_in_span_kind a = ve_built_in_span_kind ok"
    and a: "accepted_run a = hs_run_id hub" "encode (ae_event a) = Some (ae_canonical_bytes a)"
      "\<not> ae_subscriber_local a"
    and hub': "hs_run_id hub' = hs_run_id hub"
      "hs_next_sequence hub' = checked_add_u64 (accepted_seq a) 1"
  shows "hub_tracks encode hub' (h @ [a])"
proof -
  have t': "tracks (hs_validator hub) (map ae_event h)" and acc: "accepted (map ae_event h)"
    and run: "run_from 0 h" and nx: "hs_next_sequence hub = checked_add_u64 (last_seq 0 h) 1"
    using t by (simp_all add: hub_tracks_def)
  from validate_tracks [OF t', of "ae_event a"] v obtain
    ad: "admissible (map ae_event h) (ae_event a)"
    and ch: "hs_validator hub' = commit (hs_validator hub) (ae_event a) (change_of (ae_event a))"
    and rs: "resolves_to (map ae_event h) (ae_event a) (ae_built_in_span_kind a)"
    using k by auto
  have seq: "unat (last_seq 0 h) < 2 ^ 64 - 1" "accepted_seq a = last_seq 0 h + 1"
    using n nx by simp_all
  have "run_from 0 (h @ [a])" using run seq by simp
  moreover have "accepted (map ae_event (h @ [a]))"
    using accepted_snoc [OF acc ad] by simp
  moreover have "tracks (hs_validator hub') (map ae_event (h @ [a]))"
    using tracks_commit [OF t' ad] ch by simp
  moreover have "hs_next_sequence hub' = checked_add_u64 (last_seq 0 (h @ [a])) 1"
    using hub'(2) by (simp add: last_seq_def)
  moreover have "\<forall>b \<in> set (h @ [a]). resolves_to (map ae_event (h @ [a])) (ae_event b) (ae_built_in_span_kind b)"
    using t rs by (auto simp: hub_tracks_def intro: resolves_to_mono)
  ultimately show ?thesis
    using t a hub'(1) unfolding hub_tracks_def by simp
qed

text \<open>
  A series of admissions, each with the request it makes of the reserver: the events accepted,
  in order, and the hub afterwards.
\<close>

fun hub_feed ::
  "('r \<Rightarrow> AdmissionSize \<Rightarrow> 'q \<Rightarrow> ('e + 'res) \<times> 'r) \<Rightarrow> ('r \<Rightarrow> 'res \<Rightarrow> AcceptedDiagnosticEvent \<Rightarrow> 'r) \<Rightarrow>
   ('r \<Rightarrow> 'res \<Rightarrow> 'r) \<Rightarrow> (DiagnosticEvent \<Rightarrow> bytes option) \<Rightarrow>
   ('n \<Rightarrow> AcceptedDiagnosticEvent \<Rightarrow> (delivery_failure + unit) \<times> 'n) \<Rightarrow>
   ('s \<Rightarrow> AcceptedDiagnosticEvent \<Rightarrow> (delivery_failure + unit) \<times> 's) \<Rightarrow>
   ('r, 'n) HubState \<Rightarrow> ('q \<times> (EventIdentity \<Rightarrow> DiagnosticEvent) \<times> 's option) list \<Rightarrow>
   AcceptedDiagnosticEvent list \<times> ('r, 'n) HubState" where
  "hub_feed rsv cmt drp encode notify deliver hub [] = ([], hub)"
| "hub_feed rsv cmt drp encode notify deliver hub ((q, candidate, subscriber) # rest) =
     (let (res, hub', _) =
            admit_inner (\<lambda>r sz. rsv r sz q) cmt drp encode notify deliver hub candidate subscriber;
          (admitted, hub'') = hub_feed rsv cmt drp encode notify deliver hub' rest
      in ((case res of Inr receipt \<Rightarrow> [ar_accepted receipt] | Inl _ \<Rightarrow> []) @ admitted, hub''))"

lemma admit_run_id:
  "admit_inner rsv cmt drp encode notify deliver hub candidate subscriber = (res, hub', s') \<Longrightarrow>
   hs_run_id hub' = hs_run_id hub"
  by (auto simp: admit_inner_def Let_def split: if_splits option.splits prod.splits sum.splits)

lemma hub_feed_run_id:
  "hub_feed rsv cmt drp encode notify deliver hub cs = (admitted, hub') \<Longrightarrow> hs_run_id hub' = hs_run_id hub"
proof (induction cs arbitrary: hub admitted hub')
  case Nil
  then show ?case by simp
next
  case (Cons c cs)
  obtain q candidate subscriber where c: "c = (q, candidate, subscriber)" by (cases c)
  obtain res hub1 s1 where
    adm: "admit_inner (\<lambda>r sz. rsv r sz q) cmt drp encode notify deliver hub candidate subscriber = (res, hub1, s1)"
    by (cases "admit_inner (\<lambda>r sz. rsv r sz q) cmt drp encode notify deliver hub candidate subscriber") auto
  obtain as hub2 where rest: "hub_feed rsv cmt drp encode notify deliver hub1 cs = (as, hub2)"
    by fastforce
  from Cons.prems c adm rest have "hub' = hub2" by simp
  with Cons.IH [OF rest] admit_run_id [OF adm] show ?case by simp
qed

context admission_reserver
begin

abbreviation admit where
  "admit q \<equiv> admit_inner (\<lambda>r sz. reserve r sz q) commit_reservation drop_reservation"

lemma admit_refused:
  assumes "reserver_inv (hs_reserver hub)"
    and "admit q encode notify deliver hub candidate subscriber = (Inl err, hub', subscriber')"
  shows "subscriber' = subscriber \<and> reserver_inv (hs_reserver hub') \<and>
    held (hs_reserver hub') = held (hs_reserver hub) \<and>
    hub' = hub\<lparr> hs_reserver := hs_reserver hub' \<rparr>"
proof -
  have val: "v' = v" if "validate v e = (Inl err', v')" for v v' e err'
    using that by (auto simp: validate_def split: sum.splits)
  show ?thesis
    using assms reserve_refused reserve_dropped
    by (auto simp: admit_inner_def Let_def split: if_splits option.splits prod.splits sum.splits
        dest!: val)
qed

lemma admit_accepted:
  assumes inv: "reserver_inv (hs_reserver hub)"
    and adm: "admit q encode notify deliver hub candidate subscriber = (Inr receipt, hub', subscriber')"
    and t: "hub_tracks encode hub h"
  shows "reserver_inv (hs_reserver hub') \<and>
    held (hs_reserver hub') = held (hs_reserver hub) @ [ar_accepted receipt] \<and>
    hub_tracks encode hub' (h @ [ar_accepted receipt]) \<and>
    hs_run_id hub' = hs_run_id hub"
proof -
  let ?a = "ar_accepted receipt"
  from adm obtain next_seq bytes r rs ok v where
      n: "hs_next_sequence hub = Some next_seq"
    and id: "event_identity (candidate \<lparr> eid_run_id = hs_run_id hub, eid_sequence = next_seq \<rparr>)
      = \<lparr> eid_run_id = hs_run_id hub, eid_sequence = next_seq \<rparr>"
    and enc: "encode (candidate \<lparr> eid_run_id = hs_run_id hub, eid_sequence = next_seq \<rparr>) = Some bytes"
    and rsv: "reserve (hs_reserver hub) (AdmissionSize_one_event (length bytes)) q = (Inr r, rs)"
    and val: "validate (hs_validator hub)
      (candidate \<lparr> eid_run_id = hs_run_id hub, eid_sequence = next_seq \<rparr>) = (Inr ok, v)"
    and a: "?a = \<lparr> ae_event = candidate \<lparr> eid_run_id = hs_run_id hub, eid_sequence = next_seq \<rparr>,
      ae_canonical_bytes = bytes, ae_built_in_span_kind = ve_built_in_span_kind ok,
      ae_subscriber_local = False \<rparr>"
    and hub': "hs_run_id hub' = hs_run_id hub" "hs_next_sequence hub' = checked_add_u64 next_seq 1"
      "hs_reserver hub' = commit_reservation rs r ?a" "hs_validator hub' = v"
    by (auto simp: admit_inner_def Let_def split: if_splits option.splits prod.splits sum.splits)
  have seq: "accepted_run ?a = hs_run_id hub" "accepted_seq ?a = next_seq"
    using id by (simp_all add: a AcceptedDiagnosticEvent_identity_def event_identity_def)
  have "reserve (hs_reserver hub) (AdmissionSize_one_event (accepted_len ?a)) q = (Inr r, rs)"
    using rsv by (simp add: a)
  from reserve_committed [OF inv this] hub'(3) have
    "reserver_inv (hs_reserver hub') \<and> held (hs_reserver hub') = held (hs_reserver hub) @ [?a]" by simp
  moreover have "hub_tracks encode hub' (h @ [?a])"
    using n seq enc val hub'
    by (intro hub_tracks_extend [OF t, where ok = ok]) (simp_all add: a)
  ultimately show ?thesis using hub'(1) by blast
qed

lemma hub_feed_spec:
  "reserver_inv (hs_reserver hub) \<Longrightarrow> hub_tracks encode hub h \<Longrightarrow>
   hub_feed reserve commit_reservation drop_reservation encode notify deliver hub cs = (admitted, hub') \<Longrightarrow>
   reserver_inv (hs_reserver hub') \<and> held (hs_reserver hub') = held (hs_reserver hub) @ admitted \<and>
   hub_tracks encode hub' (h @ admitted)"
proof (induction cs arbitrary: hub h admitted hub')
  case Nil
  then show ?case by simp
next
  case (Cons c cs)
  obtain q candidate subscriber where c: "c = (q, candidate, subscriber)" by (cases c)
  obtain res hub1 s1 where
    adm: "admit q encode notify deliver hub candidate subscriber = (res, hub1, s1)"
    by (cases "admit q encode notify deliver hub candidate subscriber") auto
  obtain as hub2 where
    rest: "hub_feed reserve commit_reservation drop_reservation encode notify deliver hub1 cs = (as, hub2)"
    by (cases "hub_feed reserve commit_reservation drop_reservation encode notify deliver hub1 cs") auto
  from Cons.prems(3) c adm rest have hub': "hub' = hub2"
    and admitted: "admitted = (case res of Inr receipt \<Rightarrow> [ar_accepted receipt] | Inl _ \<Rightarrow> []) @ as"
    by auto
  show ?case
  proof (cases res)
    case (Inl err)
    note r = admit_refused [OF Cons.prems(1) adm [unfolded Inl]]
    then have "hub_tracks encode hub1 h" using Cons.prems(2) hub_tracks_reserver by metis
    from Cons.IH [OF _ this rest] r hub' admitted Inl show ?thesis by simp
  next
    case (Inr receipt)
    note r = admit_accepted [OF Cons.prems(1) adm [unfolded Inr] Cons.prems(2)]
    then have i: "reserver_inv (hs_reserver hub1)" "hub_tracks encode hub1 (h @ [ar_accepted receipt])" by blast+
    from Cons.IH [OF i rest] r hub' admitted Inr show ?thesis by simp
  qed
qed

end

subsection \<open>Subscriber-local streams over a history\<close>

datatype 's sls_op = Seed DiagnosticEvent | Admit "EventIdentity \<Rightarrow> DiagnosticEvent" "'s option"

text \<open>The events a stream let through, seeded or admitted, and the stream afterwards.\<close>

fun sls_run ::
  "(DiagnosticEvent \<Rightarrow> bytes option) \<Rightarrow>
   ('s \<Rightarrow> AcceptedDiagnosticEvent \<Rightarrow> (delivery_failure + unit) \<times> 's) \<Rightarrow>
   SubscriberLocalStream \<Rightarrow> 's sls_op list \<Rightarrow> DiagnosticEvent list \<times> SubscriberLocalStream" where
  "sls_run encode deliver s [] = ([], s)"
| "sls_run encode deliver s (Seed e # opers) =
     (let (res, s') = sls_seed s e; (es, s'') = sls_run encode deliver s' opers
      in (if res = Inr () then e # es else es, s''))"
| "sls_run encode deliver s (Admit candidate subscriber # opers) =
     (let (res, s', _) = sls_admit encode deliver s candidate subscriber;
          (es, s'') = sls_run encode deliver s' opers
      in ((case res of Inr receipt \<Rightarrow> [ae_event (ar_accepted receipt)] | Inl _ \<Rightarrow> []) @ es, s''))"

definition sls_tracks :: "SubscriberLocalStream \<Rightarrow> DiagnosticEvent list \<Rightarrow> bool" where
  "sls_tracks s h \<longleftrightarrow> accepted h \<and> tracks (sls_validator s) h \<and>
     sorted_wrt (<) (map event_sequence h) \<and> (\<forall>e \<in> set h. event_run_id e = sls_run_id s) \<and>
     sls_next_sequence s = (if h = [] then None else checked_add_u64 (event_sequence (last h)) 1) \<and>
     (sls_sequence_exhausted s \<longleftrightarrow> h \<noteq> [] \<and> checked_add_u64 (event_sequence (last h)) 1 = None)"

lemma sls_tracks_new: "sls_tracks (SubscriberLocalStream_new run_id) []"
  by (simp add: sls_tracks_def SubscriberLocalStream_new_def tracks_new accepted_Nil)

lemma sorted_wrt_last:
  "sorted_wrt (<) xs \<Longrightarrow> x \<in> set xs \<Longrightarrow> x \<le> last xs" for x :: "'a :: linorder"
  by (induction xs) (auto split: if_splits intro: less_imp_le order_less_le_trans)

lemma sls_advance_sel [simp]:
  "sls_next_sequence (sls_advance s q) = checked_add_u64 q 1"
  "sls_validator (sls_advance s q) = sls_validator s"
  "sls_run_id (sls_advance s q) = sls_run_id s"
  "sls_sequence_exhausted (sls_advance s q) \<longleftrightarrow> sls_sequence_exhausted s \<or> checked_add_u64 q 1 = None"
  by (auto simp: sls_advance_def checked_add_u64_def)

text \<open>One more event, numbered above those before it, with the validator moved along.\<close>

lemma sls_tracks_extend:
  assumes t: "sls_tracks s h" and v: "validate (sls_validator s) e = (Inr ok, v)"
    and r: "event_run_id e = sls_run_id s" and ex: "\<not> sls_sequence_exhausted s"
    and n: "\<And>k. sls_next_sequence s = Some k \<Longrightarrow> k \<le> event_sequence e"
  shows "sls_tracks (sls_advance (s\<lparr> sls_validator := v \<rparr>) (event_sequence e)) (h @ [e])"
proof -
  have t': "tracks (sls_validator s) h" and acc: "accepted h" using t by (simp_all add: sls_tracks_def)
  from validate_tracks [OF t', of e] v obtain ad: "admissible h e"
    and v': "v = commit (sls_validator s) e (change_of e)" by auto
  have above: "x < event_sequence e" if x: "x \<in> event_sequence ` set h" for x
  proof -
    from x have ne: "h \<noteq> []" by auto
    with t ex obtain k where k: "sls_next_sequence s = Some k"
        "checked_add_u64 (event_sequence (last h)) 1 = Some k"
      by (auto simp: sls_tracks_def)
    have "x \<le> event_sequence (last h)"
      using sorted_wrt_last [of "map event_sequence h" x] t x ne by (auto simp: sls_tracks_def last_map)
    moreover have "event_sequence (last h) < k"
      using k(2) by (auto simp: checked_add_u64_def unat_Suc_u64 word_less_nat_alt split: if_splits)
    ultimately show ?thesis using n [OF k(1)] by order
  qed
  have "sorted_wrt (<) (map event_sequence (h @ [e]))"
    using t above by (auto simp: sls_tracks_def sorted_wrt_append)
  moreover have "accepted (h @ [e])" using accepted_snoc [OF acc ad] .
  moreover have "tracks v (h @ [e])" using tracks_commit [OF t' ad] v' by simp
  ultimately show ?thesis using t r ex
    by (auto simp: sls_tracks_def)
qed

lemma validate_refused: "validate v e = (Inl err, v') \<Longrightarrow> v' = v"
  by (auto simp: validate_def split: sum.splits)

lemma sls_seed_tracks:
  assumes t: "sls_tracks s h" and d: "sls_seed s e = (res, s')"
  shows "sls_tracks s' (if res = Inr () then h @ [e] else h) \<and> sls_run_id s' = sls_run_id s"
proof (cases "validate_seed_identity s (event_identity e)")
  case (Inl err)
  with d t show ?thesis by (auto simp: sls_seed_def)
next
  case (Inr u)
  then have id: "event_run_id e = sls_run_id s" "\<not> sls_sequence_exhausted s"
      "\<And>k. sls_next_sequence s = Some k \<Longrightarrow> k \<le> event_sequence e"
    by (auto simp: validate_seed_identity_def event_identity_def split: if_splits)
  obtain r v where v: "validate (sls_validator s) e = (r, v)" by fastforce
  show ?thesis
  proof (cases r)
    case r: (Inl err)
    with v validate_refused have "v = sls_validator s" by metis
    with d t r v Inr show ?thesis by (auto simp: sls_seed_def)
  next
    case r: (Inr ok)
    from sls_tracks_extend [OF t v [unfolded r] id] d r v Inr show ?thesis
      by (auto simp: sls_seed_def)
  qed
qed

lemma sls_admit_tracks:
  assumes t: "sls_tracks s h" and d: "sls_admit encode deliver s candidate subscriber = (res, s', sub')"
  shows "(case res of
      Inr receipt \<Rightarrow> sls_tracks s' (h @ [ae_event (ar_accepted receipt)]) \<and> h \<noteq> [] \<and>
        event_sequence (ae_event (ar_accepted receipt)) = event_sequence (last h) + 1 \<and>
        ae_subscriber_local (ar_accepted receipt)
    | Inl _ \<Rightarrow> s' = s \<and> sub' = subscriber) \<and> sls_run_id s' = sls_run_id s"
proof (cases "sls_sequence_exhausted s \<or> sls_next_sequence s = None")
  case True
  with d show ?thesis by (auto simp: sls_admit_def split: if_splits)
next
  case False
  then obtain n where n: "sls_next_sequence s = Some n" and ex: "\<not> sls_sequence_exhausted s" by auto
  define e where "e = candidate \<lparr> eid_run_id = sls_run_id s, eid_sequence = n \<rparr>"
  from n t have last: "h \<noteq> []" "n = event_sequence (last h) + 1"
    by (auto simp: sls_tracks_def checked_add_u64_def split: if_splits)
  show ?thesis
  proof (cases "event_identity e = \<lparr> eid_run_id = sls_run_id s, eid_sequence = n \<rparr>")
    case False
    with d n ex show ?thesis by (auto simp: sls_admit_def Let_def e_def)
  next
    case True
    then have id: "event_run_id e = sls_run_id s" "event_sequence e = n" by (simp_all add: event_identity_def)
    with True d n ex have d': "sls_accept encode deliver s e subscriber = (res, s', sub')"
      by (simp add: sls_admit_def Let_def e_def)
    obtain r v where v: "validate (sls_validator s) e = (r, v)" by fastforce
    show ?thesis
    proof (cases r)
      case r: (Inl err)
      with v validate_refused have "v = sls_validator s" by metis
      with d' r v show ?thesis by (auto simp: sls_accept_def split: option.splits)
    next
      case r: (Inr ok)
      have "sls_tracks (sls_advance (s\<lparr> sls_validator := v \<rparr>) (event_sequence e)) (h @ [e])"
        by (rule sls_tracks_extend [OF t v [unfolded r] id(1) ex]) (use n id(2) in simp)
      with d' r v id last show ?thesis
        by (auto simp: sls_accept_def Let_def AcceptedDiagnosticEvent_identity_def
            split: option.splits prod.splits)
    qed
  qed
qed

lemma sls_run_tracks:
  "sls_tracks s h \<Longrightarrow> sls_run encode deliver s opers = (es, s') \<Longrightarrow> sls_tracks s' (h @ es) \<and>
   sls_run_id s' = sls_run_id s"
proof (induction encode deliver s opers arbitrary: h es s' rule: sls_run.induct)
  case (1 encode deliver s)
  then show ?case by simp
next
  case (2 encode deliver s e opers)
  obtain res s1 where d: "sls_seed s e = (res, s1)" by fastforce
  obtain es1 s2 where r: "sls_run encode deliver s1 opers = (es1, s2)" by fastforce
  from sls_seed_tracks [OF "2.prems"(1) d] have t: "sls_tracks s1 (if res = Inr () then h @ [e] else h)"
    "sls_run_id s1 = sls_run_id s" by simp_all
  from "2.IH" [OF d [symmetric] refl t(1) r] t(2) "2.prems"(2) d r show ?case
    by (auto split: if_splits)
next
  case (3 encode deliver s candidate subscriber opers)
  obtain res s1 sub where d: "sls_admit encode deliver s candidate subscriber = (res, s1, sub)"
    by (cases "sls_admit encode deliver s candidate subscriber") auto
  obtain es1 s2 where r: "sls_run encode deliver s1 opers = (es1, s2)" by fastforce
  let ?new = "case res of Inr receipt \<Rightarrow> [ae_event (ar_accepted receipt)] | Inl _ \<Rightarrow> []"
  from sls_admit_tracks [OF "3.prems"(1) d] "3.prems"(1)
  have t: "sls_tracks s1 (h @ ?new)" "sls_run_id s1 = sls_run_id s" by (auto split: sum.splits)
  from "3.IH" [OF d [symmetric] refl refl t(1) r] t(2) "3.prems"(2) d r show ?case by auto
qed

subsection \<open>Properties\<close>

text \<open>
  C10. The hub over the mandatory ingress, fed with any series of candidates of any class:
  the events it admits are numbered 1, 2, 3, \dots without gap or repetition, carry the hub's
  Run, their own canonical encoding and the span kind the validator resolved, together form a
  stream the reference validator accepts from scratch, and are exactly the events that wait in
  the ingress, in that order.
\<close>

theorem hub_admits_dense_stream:
  assumes "hub_feed ingress_reserve reservation_commit reservation_drop encode notify deliver
      (DiagnosticHub_new run_id IngressState_default live) requests = (admitted, hub)"
  shows "map (\<lambda>a. unat (accepted_seq a)) admitted = [1..<Suc (length admitted)] \<and>
    (\<forall>a \<in> set admitted. accepted_run a = run_id \<and> encode (ae_event a) = Some (ae_canonical_bytes a)) \<and>
    validate_event_stream (map ae_event admitted) = Inr (map ae_built_in_span_kind admitted) \<and>
    map te_event (is_outstanding (hs_reserver hub)) = admitted"
proof -
  let ?new = "DiagnosticHub_new run_id IngressState_default live"
  have "within_budget (hs_reserver ?new)"
    by (simp add: DiagnosticHub_new_def within_budget_def IngressState_default_def)
  from mandatory.hub_feed_spec [OF this hub_tracks_new assms]
  have h: "map te_event (is_outstanding (hs_reserver hub)) = admitted" and t: "hub_tracks encode hub admitted"
    by (simp_all add: DiagnosticHub_new_def IngressState_default_def)
  have "map (\<lambda>a. unat (accepted_seq a)) admitted = [1..<Suc (length admitted)]"
    using t run_from_nth [of 0 admitted] by (intro nth_equalityI) (simp_all add: hub_tracks_def del: upt_Suc)
  moreover have "hs_run_id hub = run_id"
    using hub_feed_run_id [OF assms] by (simp add: DiagnosticHub_new_def)
  moreover have "validate_event_stream (map ae_event admitted) = Inr (map ae_built_in_span_kind admitted)"
    unfolding validate_event_stream_def
    using t validate_events_iff [OF tracks_new accepted_Nil]
    by (auto simp: hub_tracks_def list_all2_conv_all_nth)
  ultimately show ?thesis using t h by (auto simp: hub_tracks_def)
qed

text \<open>Candidates for the witnesses: a span, a finish of a span that never started, a second span.\<close>

definition sample_requests ::
  "(ReservationClass \<times> (EventIdentity \<Rightarrow> DiagnosticEvent) \<times> unit option) list" where
  "sample_requests =
     [(Normal, \<lambda>i. sample_start (eid_sequence i) 10 None, None),
      (Normal, \<lambda>i. sample_finish (eid_sequence i) 20 9, None),
      (Cue, \<lambda>i. sample_start (eid_sequence i) 30 (Some 1), Some ())]"

definition sample_feed :: "AcceptedDiagnosticEvent list \<times> (IngressState, unit) HubState" where
  "sample_feed = hub_feed ingress_reserve reservation_commit reservation_drop (\<lambda>_. Some [1, 2, 3])
     (\<lambda>n _. (Inr (), n)) (\<lambda>s _. (Inr (), s)) (DiagnosticHub_new 7 IngressState_default None) sample_requests"

lemmas hub_compute = admit_inner_def event_identity_def deliver_to_def DiagnosticHub_new_def
  ingress_reserve_def admission_gate_def exceeds_def reaches_def checked_add_def checked_add_u64_def
  current_events_def current_bytes_def saturating_add_def AdmissionSize_one_event_def
  IngressState_default_def reservation_commit_def reservation_drop_def release_reserved_def
  saturating_add_u64_def AcceptedDiagnosticEvent_identity_def

lemma sample_feed_admits: "map ae_event (fst sample_feed) = [sample_start 1 10 None, sample_start 2 30 (Some 1)]"
  by (simp add: sample_feed_def sample_requests_def hub_compute validator_compute sample_events
      word_le_nat_alt Let_def)

theorem hub_admits_dense_stream_witness:
  "map (\<lambda>a. unat (accepted_seq a)) (fst sample_feed) = [1, 2] \<and>
   validate_event_stream [sample_start 1 10 None, sample_start 2 30 (Some 1)]
     = Inr (map ae_built_in_span_kind (fst sample_feed))"
proof -
  obtain admitted hub where f: "sample_feed = (admitted, hub)" by fastforce
  then have a: "fst sample_feed = admitted" by (metis fst_conv)
  with sample_feed_admits have e: "map ae_event admitted = [sample_start 1 10 None, sample_start 2 30 (Some 1)]"
    by simp
  then have "length admitted = 2" by (metis length_map length_Cons list.size(3) numeral_2_eq_2)
  with hub_admits_dense_stream [OF f [unfolded sample_feed_def]] a e show ?thesis
    by (simp add: upt_rec)
qed



text \<open>
  A subscriber-local stream, over any series of seeds and admissions: the events it lets
  through carry strictly increasing sequence numbers and its Run, and form a stream the
  reference validator accepts. An admission that succeeds takes exactly the number after the
  last event let through, marks the event as local, and is refused before any event was seeded.
\<close>

theorem local_stream_continues:
  assumes "sls_run encode deliver (SubscriberLocalStream_new run_id) opers = (es, s)"
  shows "sorted_wrt (<) (map event_sequence es) \<and> accepted es \<and>
    (\<forall>e \<in> set es. event_run_id e = run_id) \<and>
    (\<forall>candidate subscriber receipt s' sub'.
       sls_admit encode deliver s candidate subscriber = (Inr receipt, s', sub') \<longrightarrow>
       es \<noteq> [] \<and> accepted_seq (ar_accepted receipt) = event_sequence (last es) + 1 \<and>
       ae_subscriber_local (ar_accepted receipt))"
proof -
  from sls_run_tracks [OF sls_tracks_new assms] have t: "sls_tracks s es" and r: "sls_run_id s = run_id"
    by (simp_all add: SubscriberLocalStream_new_def)
  have "es \<noteq> [] \<and> accepted_seq (ar_accepted receipt) = event_sequence (last es) + 1 \<and>
      ae_subscriber_local (ar_accepted receipt)"
    if "sls_admit encode deliver s candidate subscriber = (Inr receipt, s', sub')"
    for candidate subscriber receipt s' sub'
    using sls_admit_tracks [OF t that] by (simp add: AcceptedDiagnosticEvent_identity_def)
  with t r show ?thesis by (auto simp: sls_tracks_def)
qed

definition sample_local_ops :: "unit sls_op list" where
  "sample_local_ops = [Seed (sample_start 4 10 None), Seed (sample_start 3 20 None),
     Admit (\<lambda>i. sample_start (eid_sequence i) 30 (Some 4)) None]"

theorem local_stream_continues_witness:
  "\<exists>es s. sls_run (\<lambda>_. Some [1, 2, 3]) (\<lambda>s _. (Inr (), s)) (SubscriberLocalStream_new 7) sample_local_ops = (es, s)
     \<and> map event_sequence es = [4, 5] \<and> accepted es"
proof -
  obtain es s where r: "sls_run (\<lambda>_. Some [1, 2, 3]) (\<lambda>s _. (Inr (), s)) (SubscriberLocalStream_new 7)
      sample_local_ops = (es, s)" by fastforce
  then have "map event_sequence es = [4, 5]"
    by (auto simp: sample_local_ops_def sls_seed_def sls_admit_def sls_accept_def sls_advance_def
        validate_seed_identity_def SubscriberLocalStream_new_def hub_compute validator_compute
        sample_events word_le_nat_alt)
  with local_stream_continues [OF r] r show ?thesis by (intro exI conjI) blast+
qed

end
