(* ===== verification/Quota.thy ===== *)
theory Quota
  imports Hub "HOL-Library.List_Lexorder" "HOL-Library.Char_ord"
begin

section \<open>The Run quota and durable admission\<close>

text \<open>
  Models \<^verbatim>\<open>rust/crates/troupe-diagnostics-runtime/src/store/quota.rs\<close> and
  \<^verbatim>\<open>DurableAdmission\<close> of \<^verbatim>\<open>rust/src/diagnostic_runtime/bootstrap.rs\<close>, the reserver of the
  production hub: the byte quota of a Run directory in front of the mandatory ingress.

  The file system at the moment of a measurement is a tree: what the calls of \<^verbatim>\<open>std::fs\<close> answer
  while the directory is walked. The clock and that tree are arguments of each operation.
  Shown here: the walk measures exactly the sum of the regular files, the quota grants exactly
  what fits and fails once and for all, and the combination is a reserver.
\<close>

subsection \<open>Measuring the Run directory\<close>

type_synonym fs_path = string

text \<open>
  An entry as the walk sees it: a file with its length, a directory with its entries, whether it
  can be listed, and whether it is still the same directory after the listing; a symbolic link,
  another kind of node, or an entry whose metadata cannot be read.
\<close>

datatype fs_node =
    FsFile u64
  | FsDir "(string \<times> fs_node) list" bool bool
  | FsSymlink
  | FsSpecial
  | FsUnreadable

definition fs_join :: "fs_path \<Rightarrow> string \<Rightarrow> fs_path" where
  "fs_join p name = p @ ''/'' @ name"

text \<open>The children in the order in which the walk visits them.\<close>

definition sorted_children :: "fs_path \<Rightarrow> (string \<times> fs_node) list \<Rightarrow> (fs_path \<times> fs_node) list" where
  "sorted_children p entries = map (\<lambda>(name, n). (fs_join p name, n)) (sort_key fst entries)"

fun fs_nodes :: "fs_node \<Rightarrow> nat" where
  "fs_nodes (FsDir entries _ _) = Suc (sum_list (map (\<lambda>(_, n). fs_nodes n) entries))"
| "fs_nodes _ = 1"

lemma fs_nodes_pos: "0 < fs_nodes n"
  by (cases n) auto

lemma sum_list_sort_key: "sum_list (map f (sort_key k xs)) = sum_list (map f xs)" for f :: "'a \<Rightarrow> nat"
  by (metis mset_map mset_sort sum_mset_sum_list)

lemma sorted_children_sum:
  "sum_list (map (\<lambda>(_, n). f n) (sorted_children p entries)) = sum_list (map (\<lambda>(_, n). f n) entries)"
  for f :: "fs_node \<Rightarrow> nat"
  by (simp add: sorted_children_def comp_def case_prod_beta' sum_list_sort_key)

text \<open>The loop, with the stack of entries still to visit and the bytes so far.\<close>

function measure_loop :: "(fs_path \<times> fs_node) list \<Rightarrow> u64 \<Rightarrow> fs_path + u64" where
  "measure_loop [] apparent_bytes = Inr apparent_bytes"
| "measure_loop ((path, node) # pending) apparent_bytes =
     (case node of
        FsUnreadable \<Rightarrow> Inl path
      | FsSymlink \<Rightarrow> Inl path
      | FsFile len \<Rightarrow>
          res_bind (ok_or path (checked_add_u64 apparent_bytes len)) (measure_loop pending)
      | FsSpecial \<Rightarrow> Inl path
      | FsDir entries listable same \<Rightarrow>
          if \<not> listable then Inl path
          else if \<not> same then Inl path
          else measure_loop (sorted_children path entries @ pending) apparent_bytes)"
  by pat_completeness auto

termination
  by (relation "measure (\<lambda>(pending, _). sum_list (map (\<lambda>(_, n). fs_nodes n) pending))")
     (auto simp: sorted_children_sum fs_nodes_pos)

definition measure_run_directory :: "fs_path \<Rightarrow> fs_node \<Rightarrow> fs_path + u64" where
  "measure_run_directory run_directory fsys = measure_loop [(run_directory, fsys)] 0"

subsection \<open>The quota\<close>

datatype QuotaDecision = Disabled | WithinLimit u64

datatype QuotaFailureCode = PredictedLimitExceeded | MeasuredLimitReached | MeasurementFailed

fun QuotaFailureCode_as_str :: "QuotaFailureCode \<Rightarrow> string" where
  "QuotaFailureCode_as_str PredictedLimitExceeded = ''run_quota_predicted_limit_exceeded''"
| "QuotaFailureCode_as_str MeasuredLimitReached = ''run_quota_measured_limit_reached''"
| "QuotaFailureCode_as_str MeasurementFailed = ''run_quota_measurement_failed''"

record QuotaFailure =
  qf_code :: QuotaFailureCode
  qf_limit_bytes :: u64
  qf_current_bytes :: "u64 option"
  qf_predicted_growth_bytes :: "u64 option"
  qf_path :: "fs_path option"

definition QuotaFailure_predicted :: "u64 \<Rightarrow> u64 \<Rightarrow> u64 \<Rightarrow> fs_path \<Rightarrow> QuotaFailure" where
  "QuotaFailure_predicted limit current growth path =
     \<lparr> qf_code = PredictedLimitExceeded, qf_limit_bytes = limit, qf_current_bytes = Some current,
       qf_predicted_growth_bytes = Some growth, qf_path = Some path \<rparr>"

definition QuotaFailure_measured :: "u64 \<Rightarrow> u64 \<Rightarrow> fs_path \<Rightarrow> QuotaFailure" where
  "QuotaFailure_measured limit current path =
     \<lparr> qf_code = MeasuredLimitReached, qf_limit_bytes = limit, qf_current_bytes = Some current,
       qf_predicted_growth_bytes = None, qf_path = Some path \<rparr>"

definition QuotaFailure_measurement :: "u64 \<Rightarrow> u64 option \<Rightarrow> fs_path \<Rightarrow> QuotaFailure" where
  "QuotaFailure_measurement limit current path =
     \<lparr> qf_code = MeasurementFailed, qf_limit_bytes = limit, qf_current_bytes = current,
       qf_predicted_growth_bytes = None, qf_path = Some path \<rparr>"

datatype QuotaError =
    QuotaStatePoisoned
  | QuotaSealed QuotaFailure
  | LimitReached QuotaFailure
  | MeasurementFailedError QuotaFailure

datatype QuotaConfigurationError = RunDirectoryNotAbsolute | LimitNotPositive

record QuotaState =
  qs_current_measured_bytes :: "u64 option"
  qs_last_measurement_at :: "nat option"
  qs_failure :: "QuotaFailure option"

record RunQuota =
  rq_run_directory :: fs_path
  rq_max_run_bytes :: "u64 option"
  rq_state :: QuotaState
  rq_failure_channel :: "QuotaFailure option"
  rq_poisoned :: bool

definition RunQuota_new :: "fs_path \<Rightarrow> u64 option \<Rightarrow> QuotaConfigurationError + RunQuota" where
  "RunQuota_new run_directory max_run_bytes =
     (if \<not> (run_directory \<noteq> [] \<and> hd run_directory = CHR ''/'') then Inl RunDirectoryNotAbsolute
      else if max_run_bytes = Some 0 then Inl LimitNotPositive
      else Inr \<lparr> rq_run_directory = run_directory, rq_max_run_bytes = max_run_bytes,
        rq_state = \<lparr> qs_current_measured_bytes = None, qs_last_measurement_at = None, qs_failure = None \<rparr>,
        rq_failure_channel = None, rq_poisoned = False \<rparr>)"

definition quota_latch_failure :: "RunQuota \<Rightarrow> QuotaFailure \<Rightarrow> RunQuota" where
  "quota_latch_failure q failure =
     (if qs_failure (rq_state q) \<noteq> None then q
      else q\<lparr> rq_state := (rq_state q)\<lparr> qs_failure := Some failure \<rparr>,
        rq_failure_channel :=
          (case rq_failure_channel q of None \<Rightarrow> Some failure | Some f \<Rightarrow> Some f) \<rparr>)"

definition lock_active_state :: "RunQuota \<Rightarrow> QuotaError + unit" where
  "lock_active_state q =
     (if rq_poisoned q then Inl QuotaStatePoisoned
      else case qs_failure (rq_state q) of Some failure \<Rightarrow> Inl (QuotaSealed failure) | None \<Rightarrow> Inr ())"

definition measurement_failure :: "RunQuota \<Rightarrow> QuotaFailure \<Rightarrow> QuotaError \<times> RunQuota" where
  "measurement_failure q failure = (MeasurementFailedError failure, quota_latch_failure q failure)"

definition limit_failure :: "RunQuota \<Rightarrow> QuotaFailure \<Rightarrow> QuotaError \<times> RunQuota" where
  "limit_failure q failure = (LimitReached failure, quota_latch_failure q failure)"

definition quota_measure :: "RunQuota \<Rightarrow> nat \<Rightarrow> fs_node \<Rightarrow> u64 \<Rightarrow> (QuotaError + u64) \<times> RunQuota" where
  "quota_measure q now fsys limit =
     (if (case qs_last_measurement_at (rq_state q) of None \<Rightarrow> False | Some l \<Rightarrow> now < l)
      then map_prod Inl id (measurement_failure q (QuotaFailure_measurement limit
             (qs_current_measured_bytes (rq_state q)) (rq_run_directory q)))
      else case measure_run_directory (rq_run_directory q) fsys of
        Inr measured \<Rightarrow>
          (Inr measured, q\<lparr> rq_state := (rq_state q)\<lparr> qs_current_measured_bytes := Some measured,
             qs_last_measurement_at := Some now \<rparr> \<rparr>)
      | Inl path \<Rightarrow>
          map_prod Inl id (measurement_failure q (QuotaFailure_measurement limit
             (qs_current_measured_bytes (rq_state q)) path)))"

definition quota_precheck :: "RunQuota \<Rightarrow> nat \<Rightarrow> fs_node \<Rightarrow> u64 \<Rightarrow> (QuotaError + QuotaDecision) \<times> RunQuota" where
  "quota_precheck q now fsys conservative_growth_bytes =
     (case rq_max_run_bytes q of
        None \<Rightarrow> (Inr Disabled, q)
      | Some limit \<Rightarrow>
     (case lock_active_state q of
        Inl err \<Rightarrow> (Inl err, q)
      | Inr _ \<Rightarrow>
     (case quota_measure q now fsys limit of
        (Inl err, q) \<Rightarrow> (Inl err, q)
      | (Inr measured, q) \<Rightarrow>
          if measured \<ge> limit
          then map_prod Inl id (limit_failure q (QuotaFailure_measured limit measured (rq_run_directory q)))
          else if (case checked_add_u64 measured conservative_growth_bytes of
                     None \<Rightarrow> True | Some bytes \<Rightarrow> bytes > limit)
          then map_prod Inl id (limit_failure q (QuotaFailure_predicted limit measured
                 conservative_growth_bytes (rq_run_directory q)))
          else (Inr (WithinLimit measured), q))))"

definition post_growth_measurement :: "RunQuota \<Rightarrow> nat \<Rightarrow> fs_node \<Rightarrow> (QuotaError + QuotaDecision) \<times> RunQuota" where
  "post_growth_measurement q now fsys =
     (case rq_max_run_bytes q of
        None \<Rightarrow> (Inr Disabled, q)
      | Some limit \<Rightarrow>
     (case lock_active_state q of
        Inl err \<Rightarrow> (Inl err, q)
      | Inr _ \<Rightarrow>
     (case quota_measure q now fsys limit of
        (Inl err, q) \<Rightarrow> (Inl err, q)
      | (Inr measured, q) \<Rightarrow>
          if measured \<ge> limit
          then map_prod Inl id (limit_failure q (QuotaFailure_measured limit measured (rq_run_directory q)))
          else (Inr (WithinLimit measured), q))))"

definition QuotaFailureReceiver_try_recv :: "RunQuota \<Rightarrow> QuotaFailure option \<times> RunQuota" where
  "QuotaFailureReceiver_try_recv q = (rq_failure_channel q, q\<lparr> rq_failure_channel := None \<rparr>)"

subsection \<open>Durable admission\<close>

datatype DurableAdmissionError = QuotaRefused QuotaError | IngressRefused IngressAdmissionError

record DurableAdmission =
  da_ingress :: IngressState
  da_quota :: RunQuota

text \<open>A reservation's surroundings: its class, the time since the quota's origin, the file system.\<close>

type_synonym durable_request = "ReservationClass \<times> nat \<times> fs_node"

text \<open>\<^verbatim>\<open>u64::try_from(..).unwrap_or(u64::MAX)\<close>\<close>

definition conservative_growth :: "usize \<Rightarrow> u64" where
  "conservative_growth n = (if n < 2 ^ 64 then of_nat n else - 1)"

definition da_quota_precheck ::
  "DurableAdmission \<Rightarrow> AdmissionSize \<Rightarrow> nat \<Rightarrow> fs_node \<Rightarrow> (DurableAdmissionError + unit) \<times> DurableAdmission" where
  "da_quota_precheck d sz now fsys =
     (case quota_precheck (da_quota d) now fsys (conservative_growth (as_canonical_bytes sz)) of
        (Inl err, q) \<Rightarrow>
          (Inl (QuotaRefused err), d\<lparr> da_quota := q,
             da_ingress := snd (seal_for_external_core_failure (da_ingress d)) \<rparr>)
      | (Inr _, q) \<Rightarrow> (Inr (), d\<lparr> da_quota := q \<rparr>))"

definition durable_reserve ::
  "DurableAdmission \<Rightarrow> AdmissionSize \<Rightarrow> durable_request \<Rightarrow>
   (DurableAdmissionError + IngressReservation) \<times> DurableAdmission" where
  "durable_reserve d sz = (\<lambda>(cls, now, fsys).
     (case da_quota_precheck d sz now fsys of
        (Inl err, d) \<Rightarrow> (Inl err, d)
      | (Inr _, d) \<Rightarrow>
          (case ingress_reserve (da_ingress d) sz cls of
             (Inl err, st) \<Rightarrow> (Inl (IngressRefused err), d\<lparr> da_ingress := st \<rparr>)
           | (Inr r, st) \<Rightarrow> (Inr r, d\<lparr> da_ingress := st \<rparr>))))"

definition durable_commit ::
  "DurableAdmission \<Rightarrow> IngressReservation \<Rightarrow> AcceptedDiagnosticEvent \<Rightarrow> DurableAdmission" where
  "durable_commit d r e = d\<lparr> da_ingress := reservation_commit (da_ingress d) r e \<rparr>"

definition durable_drop :: "DurableAdmission \<Rightarrow> IngressReservation \<Rightarrow> DurableAdmission" where
  "durable_drop d r = d\<lparr> da_ingress := reservation_drop (da_ingress d) r \<rparr>"

subsection \<open>What the walk measures\<close>

fun fs_clean :: "fs_node \<Rightarrow> bool" where
  "fs_clean (FsFile _) = True"
| "fs_clean (FsDir entries listable same) \<longleftrightarrow> listable \<and> same \<and> (\<forall>(_, n) \<in> set entries. fs_clean n)"
| "fs_clean _ = False"

fun fs_bytes :: "fs_node \<Rightarrow> nat" where
  "fs_bytes (FsFile len) = unat len"
| "fs_bytes (FsDir entries _ _) = sum_list (map (\<lambda>(_, n). fs_bytes n) entries)"
| "fs_bytes _ = 0"

lemma checked_add_u64_Some_iff: "checked_add_u64 a b = Some c \<longleftrightarrow> unat c = unat a + unat b"
proof
  assume "unat c = unat a + unat b"
  moreover from this have "unat a + unat b < 2 ^ 64" by (metis unat_less_2p64)
  ultimately have "c = a + b" by (intro unsigned_word_eqI [where 'a = nat]) (simp add: unat_add_u64_exact)
  with \<open>unat a + unat b < 2 ^ 64\<close> show "checked_add_u64 a b = Some c" by (simp add: checked_add_u64_def)
qed (rule checked_add_u64_Some)

lemma set_sorted_children: "snd ` set (sorted_children p entries) = snd ` set entries"
  by (force simp: sorted_children_def)

lemma measure_loop_iff:
  "measure_loop pending b = Inr w \<longleftrightarrow>
     (\<forall>n \<in> snd ` set pending. fs_clean n) \<and>
     unat w = unat b + sum_list (map (\<lambda>(_, n). fs_bytes n) pending)"
proof (induction pending b arbitrary: w rule: measure_loop.induct)
  case (1 b)
  then show ?case by (auto intro: unsigned_word_eqI [where 'a = nat])
next
  case (2 path node pending b)
  show ?case
  proof (cases node)
    case (FsFile len)
    show ?thesis
    proof (cases "checked_add_u64 b len")
      case None
      then have "\<not> unat b + unat len < 2 ^ 64" by (auto simp: checked_add_u64_def split: if_splits)
      then have "unat w \<noteq> unat b + unat len + x" for x using unat_less_2p64 [of w] by linarith
      with None FsFile show ?thesis by (simp add: add.assoc)
    next
      case (Some c)
      from checked_add_u64_Some [OF Some] "2.IH"(1) [OF FsFile, of c w] Some FsFile
      show ?thesis by (simp add: add.assoc)
    qed
  next
    case (FsDir entries listable same)
    show ?thesis
    proof (cases "listable \<and> same")
      case True
      then have "measure_loop ((path, node) # pending) b = Inr w \<longleftrightarrow>
          measure_loop (sorted_children path entries @ pending) b = Inr w" by (simp add: FsDir)
      also have "\<dots> \<longleftrightarrow> (\<forall>n \<in> snd ` set (sorted_children path entries @ pending). fs_clean n) \<and>
          unat w = unat b + sum_list (map (\<lambda>(_, n). fs_bytes n) (sorted_children path entries @ pending))"
        using "2.IH"(2) [OF FsDir] True by blast
      finally show ?thesis using True FsDir set_sorted_children [of path entries]
        by (auto simp: sorted_children_sum image_Un ball_Un simp del: measure_loop.simps)
    next
      case False
      with FsDir show ?thesis by auto
    qed
  qed simp_all
qed

subsection \<open>The quota grants what fits, and fails once\<close>

lemma quota_latch_sel [simp]:
  "rq_max_run_bytes (quota_latch_failure q f) = rq_max_run_bytes q"
  "rq_run_directory (quota_latch_failure q f) = rq_run_directory q"
  "rq_poisoned (quota_latch_failure q f) = rq_poisoned q"
  "qs_failure (rq_state (quota_latch_failure q f))
     = Some (case qs_failure (rq_state q) of None \<Rightarrow> f | Some g \<Rightarrow> g)"
  by (auto simp: quota_latch_failure_def split: option.splits)

text \<open>When a request for growth is granted.\<close>

definition fits_quota :: "RunQuota \<Rightarrow> nat \<Rightarrow> fs_node \<Rightarrow> nat \<Rightarrow> u64 \<Rightarrow> bool" where
  "fits_quota q now fsys growth limit \<longleftrightarrow>
     \<not> rq_poisoned q \<and> qs_failure (rq_state q) = None \<and>
     (case qs_last_measurement_at (rq_state q) of None \<Rightarrow> True | Some l \<Rightarrow> l \<le> now) \<and>
     fs_clean fsys \<and> fs_bytes fsys < unat limit \<and> fs_bytes fsys + growth \<le> unat limit"

lemma measure_run_directory_iff:
  "measure_run_directory p fsys = Inr w \<longleftrightarrow> fs_clean fsys \<and> unat w = fs_bytes fsys"
  unfolding measure_run_directory_def measure_loop_iff by simp

lemma lock_active_state_Inr: "lock_active_state q = Inr u \<longleftrightarrow> \<not> rq_poisoned q \<and> qs_failure (rq_state q) = None"
  by (simp add: lock_active_state_def split: option.split)

lemma lock_active_state_Inl:
  "lock_active_state q = Inl err \<Longrightarrow> rq_poisoned q \<or> qs_failure (rq_state q) \<noteq> None"
  by (auto simp: lock_active_state_def split: if_splits option.splits)

lemma predicted_fits:
  "(case checked_add_u64 m g of None \<Rightarrow> True | Some bytes \<Rightarrow> bytes > limit) \<longleftrightarrow>
   \<not> unat m + unat g \<le> unat limit"
proof (cases "unat m + unat g < 2 ^ 64")
  case True
  then show ?thesis by (simp add: checked_add_u64_def word_less_nat_alt unat_add_u64_exact not_le)
next
  case False
  then show ?thesis using unat_less_2p64 [of limit] by (simp add: checked_add_u64_def)
qed

lemma quota_measure_Inr:
  "fst (quota_measure q now fsys limit) = Inr m \<longleftrightarrow>
     (case qs_last_measurement_at (rq_state q) of None \<Rightarrow> True | Some l \<Rightarrow> l \<le> now) \<and>
     measure_run_directory (rq_run_directory q) fsys = Inr m"
  by (auto simp: quota_measure_def measurement_failure_def split: option.splits sum.splits)

lemma quota_measure_state:
  "qs_failure (rq_state q) = None \<Longrightarrow> quota_measure q now fsys limit = (res, q') \<Longrightarrow>
   rq_max_run_bytes q' = rq_max_run_bytes q \<and> rq_run_directory q' = rq_run_directory q \<and>
   rq_poisoned q' = rq_poisoned q \<and>
   qs_failure (rq_state q') = (case res of Inr _ \<Rightarrow> None | Inl (MeasurementFailedError f) \<Rightarrow> Some f | _ \<Rightarrow> None) \<and>
   (case res of Inr _ \<Rightarrow> True | Inl err \<Rightarrow> \<exists>f. err = MeasurementFailedError f)"
  by (auto simp: quota_measure_def measurement_failure_def split: if_splits option.splits sum.splits)

lemma precheck_cases:
  assumes l: "rq_max_run_bytes q = Some limit" and p: "quota_precheck q now fsys g = (res, q')"
  shows "(\<exists>m. res = Inr (WithinLimit m)) = fits_quota q now fsys (unat g) limit \<and>
    (\<forall>d. res = Inr d \<longrightarrow> (\<exists>m. d = WithinLimit m \<and> unat m = fs_bytes fsys)) \<and>
    (\<forall>err. res = Inl err \<longrightarrow> qs_failure (rq_state q') \<noteq> None \<or> rq_poisoned q)"
proof (cases "lock_active_state q")
  case (Inl err)
  with l p lock_active_state_Inl [OF Inl] show ?thesis
    by (auto simp: quota_precheck_def fits_quota_def)
next
  case (Inr u)
  then have act: "\<not> rq_poisoned q" "qs_failure (rq_state q) = None" by (simp_all add: lock_active_state_Inr)
  obtain r q1 where m: "quota_measure q now fsys limit = (r, q1)" by fastforce
  note st = quota_measure_state [OF act(2) m]
  show ?thesis
  proof (cases r)
    case r: (Inl err)
    have "\<not> fits_quota q now fsys (unat g) limit"
    proof
      assume f: "fits_quota q now fsys (unat g) limit"
      then have "fs_bytes fsys < 2 ^ 64" using unat_less_2p64 [of limit] by (simp add: fits_quota_def)
      then have "measure_run_directory (rq_run_directory q) fsys = Inr (of_nat (fs_bytes fsys))"
        using f by (simp add: measure_run_directory_iff fits_quota_def unat_of_nat)
      then have "fst (quota_measure q now fsys limit) = Inr (of_nat (fs_bytes fsys))"
        using f by (simp add: quota_measure_Inr fits_quota_def)
      with m r show False by simp
    qed
    with l p Inr m r st show ?thesis by (auto simp: quota_precheck_def)
  next
    case r: (Inr x)
    with m quota_measure_Inr [of q now fsys limit x] measure_run_directory_iff
    have t: "case qs_last_measurement_at (rq_state q) of None \<Rightarrow> True | Some l \<Rightarrow> l \<le> now"
      and c: "fs_clean fsys" "unat x = fs_bytes fsys" by auto
    have fits: "fits_quota q now fsys (unat g) limit \<longleftrightarrow> x < limit \<and> unat x + unat g \<le> unat limit"
      using act t c by (simp add: fits_quota_def word_less_nat_alt)
    have p': "(if x \<ge> limit
          then map_prod Inl id (limit_failure q1 (QuotaFailure_measured limit x (rq_run_directory q1)))
          else if \<not> unat x + unat g \<le> unat limit
          then map_prod Inl id (limit_failure q1 (QuotaFailure_predicted limit x g (rq_run_directory q1)))
          else (Inr (WithinLimit x), q1)) = (res, q')"
      using l p Inr m r unfolding quota_precheck_def predicted_fits by simp
    show ?thesis unfolding fits using p' c
      by (auto simp: limit_failure_def not_le split: if_splits)
  qed
qed

text \<open>A history of the quota: its answers, and what its failure channel handed out.\<close>

datatype quota_op = Precheck nat fs_node u64 | PostGrowth nat fs_node | Receive

fun quota_run ::
  "RunQuota \<Rightarrow> quota_op list \<Rightarrow> (QuotaError + QuotaDecision) list \<times> QuotaFailure list \<times> RunQuota" where
  "quota_run q [] = ([], [], q)"
| "quota_run q (Precheck now fsys growth # opers) =
     (let (res, q) = quota_precheck q now fsys growth; (rs, fs, q) = quota_run q opers
      in (res # rs, fs, q))"
| "quota_run q (PostGrowth now fsys # opers) =
     (let (res, q) = post_growth_measurement q now fsys; (rs, fs, q) = quota_run q opers
      in (res # rs, fs, q))"
| "quota_run q (Receive # opers) =
     (let (f, q) = QuotaFailureReceiver_try_recv q; (rs, fs, q) = quota_run q opers
      in (rs, (case f of None \<Rightarrow> [] | Some f \<Rightarrow> [f]) @ fs, q))"

definition failure_list :: "'a option \<Rightarrow> 'a list" where
  "failure_list x = (case x of None \<Rightarrow> [] | Some f \<Rightarrow> [f])"

lemma failure_list_simps [simp]: "failure_list None = []" "failure_list (Some f) = [f]"
  by (simp_all add: failure_list_def)

text \<open>A quota in service: limited, not poisoned, nothing failed yet.\<close>

definition quota_active :: "RunQuota \<Rightarrow> bool" where
  "quota_active q \<longleftrightarrow> \<not> rq_poisoned q \<and> qs_failure (rq_state q) = None \<and> rq_failure_channel q = None"

definition quota_sealed :: "RunQuota \<Rightarrow> QuotaFailure \<Rightarrow> bool" where
  "quota_sealed q f \<longleftrightarrow> \<not> rq_poisoned q \<and> rq_max_run_bytes q \<noteq> None \<and> qs_failure (rq_state q) = Some f"

lemma sealed_refuses:
  assumes "quota_sealed q f"
  shows "quota_precheck q now fsys g = (Inl (QuotaSealed f), q)"
    and "post_growth_measurement q now fsys = (Inl (QuotaSealed f), q)"
  using assms by (auto simp: quota_sealed_def quota_precheck_def post_growth_measurement_def lock_active_state_def)

lemma sealed_run:
  "quota_sealed q f \<Longrightarrow> quota_run q opers = (rs, fs, q') \<Longrightarrow>
   (\<exists>n. rs = replicate n (Inl (QuotaSealed f))) \<and> quota_sealed q' f \<and>
   fs @ failure_list (rq_failure_channel q') = failure_list (rq_failure_channel q)"
proof (induction q opers arbitrary: rs fs q' rule: quota_run.induct)
  case (1 q)
  then show ?case by (auto intro: exI [of _ 0])
next
  case (2 q now fsys growth opers)
  obtain rs1 fs1 q1 where r: "quota_run q opers = (rs1, fs1, q1)" by (cases "quota_run q opers")
  from "2.IH" [OF sealed_refuses(1) [OF "2.prems"(1), symmetric] refl "2.prems"(1) r] "2.prems" r
  show ?case by (auto simp: sealed_refuses intro: exI [of _ "Suc _"])
next
  case (3 q now fsys opers)
  obtain rs1 fs1 q1 where r: "quota_run q opers = (rs1, fs1, q1)" by (cases "quota_run q opers")
  from "3.IH" [OF sealed_refuses(2) [OF "3.prems"(1), symmetric] refl "3.prems"(1) r] "3.prems" r
  show ?case by (auto simp: sealed_refuses intro: exI [of _ "Suc _"])
next
  case (4 q opers)
  let ?q = "q\<lparr> rq_failure_channel := None \<rparr>"
  obtain rs1 fs1 q1 where r: "quota_run ?q opers = (rs1, fs1, q1)" by (cases "quota_run ?q opers")
  have "quota_sealed ?q f" using "4.prems"(1) by (simp add: quota_sealed_def)
  from "4.IH" [OF refl QuotaFailureReceiver_try_recv_def [of q, symmetric] this r] r "4.prems"(2)
  show ?case by (auto simp: QuotaFailureReceiver_try_recv_def failure_list_def split: option.splits)
qed

text \<open>One measurement in service: granted and still in service, or failed and sealed.\<close>

definition quota_outcome :: "QuotaError + QuotaDecision \<Rightarrow> RunQuota \<Rightarrow> bool" where
  "quota_outcome res q' \<longleftrightarrow>
     (\<exists>d. res = Inr d \<and> quota_active q') \<or>
     (\<exists>f. (res = Inl (LimitReached f) \<or> res = Inl (MeasurementFailedError f)) \<and> quota_sealed q' f \<and>
        rq_failure_channel q' = Some f)"

lemma latch_outcome:
  "quota_active q \<Longrightarrow> rq_max_run_bytes q \<noteq> None \<Longrightarrow>
   quota_sealed (quota_latch_failure q f) f \<and> rq_failure_channel (quota_latch_failure q f) = Some f"
  by (simp add: quota_active_def quota_sealed_def quota_latch_failure_def)

lemma map_prod_Inl: "map_prod Inl id p = (res, q) \<Longrightarrow> \<exists>err. res = Inl err \<and> p = (err, q)"
  by (cases p) auto

lemma outcome_granted: "quota_active q \<Longrightarrow> quota_outcome (Inr d) q"
  by (simp add: quota_outcome_def)

lemma outcome_measurement:
  "quota_sealed q f \<Longrightarrow> rq_failure_channel q = Some f \<Longrightarrow> quota_outcome (Inl (MeasurementFailedError f)) q"
  by (simp add: quota_outcome_def)

lemma outcome_limit:
  "quota_active q \<Longrightarrow> rq_max_run_bytes q = Some limit \<Longrightarrow> limit_failure q f = (err, q') \<Longrightarrow>
   quota_outcome (Inl err) q'"
  using latch_outcome [of q f] by (auto simp: quota_outcome_def limit_failure_def)

lemma measure_outcome:
  assumes "quota_active q" "rq_max_run_bytes q = Some limit" "quota_measure q now fsys limit = (res, q')"
  shows "(\<exists>m. res = Inr m \<and> quota_active q' \<and> rq_max_run_bytes q' = Some limit) \<or>
    (\<exists>f. res = Inl (MeasurementFailedError f) \<and> quota_sealed q' f \<and> rq_failure_channel q' = Some f)"
proof (cases res)
  case (Inr m)
  with assms show ?thesis
    by (auto simp: quota_measure_def measurement_failure_def quota_active_def split: if_splits sum.splits)
next
  case (Inl err)
  with assms have "\<exists>f. err = MeasurementFailedError f \<and> q' = quota_latch_failure q f"
    by (auto simp: quota_measure_def measurement_failure_def split: if_splits sum.splits)
  with Inl latch_outcome [OF assms(1)] assms(2) show ?thesis by auto
qed

lemma precheck_outcome:
  assumes "quota_active q" "quota_precheck q now fsys g = (res, q')"
  shows "quota_outcome res q'"
proof (cases "rq_max_run_bytes q")
  case None
  with assms show ?thesis by (auto simp: quota_precheck_def quota_outcome_def)
next
  case (Some limit)
  obtain r q1 where m: "quota_measure q now fsys limit = (r, q1)" by fastforce
  have "lock_active_state q = Inr ()" using assms(1) by (simp add: lock_active_state_def quota_active_def)
  with measure_outcome [OF assms(1) Some m] m Some assms(2) show ?thesis
    by (auto simp: quota_precheck_def outcome_granted split: if_splits dest!: map_prod_Inl
        intro: outcome_limit outcome_measurement)
qed

lemma post_growth_outcome:
  assumes "quota_active q" "post_growth_measurement q now fsys = (res, q')"
  shows "quota_outcome res q'"
proof (cases "rq_max_run_bytes q")
  case None
  with assms show ?thesis by (auto simp: post_growth_measurement_def quota_outcome_def)
next
  case (Some limit)
  obtain r q1 where m: "quota_measure q now fsys limit = (r, q1)" by fastforce
  have "lock_active_state q = Inr ()" using assms(1) by (simp add: lock_active_state_def quota_active_def)
  with measure_outcome [OF assms(1) Some m] m Some assms(2) show ?thesis
    by (auto simp: post_growth_measurement_def outcome_granted split: if_splits dest!: map_prod_Inl
        intro: outcome_limit outcome_measurement)
qed

text \<open>The shape of a whole history.\<close>

definition fails_once ::
  "(QuotaError + QuotaDecision) list \<Rightarrow> QuotaFailure list \<Rightarrow> RunQuota \<Rightarrow> bool" where
  "fails_once rs fs q' \<longleftrightarrow>
     (\<exists>ds. rs = map Inr ds \<and> fs = [] \<and> qs_failure (rq_state q') = None \<and> rq_failure_channel q' = None) \<or>
     (\<exists>ds err f n. rs = map Inr ds @ Inl err # replicate n (Inl (QuotaSealed f)) \<and>
        (err = LimitReached f \<or> err = MeasurementFailedError f) \<and>
        qs_failure (rq_state q') = Some f \<and> fs @ failure_list (rq_failure_channel q') = [f])"

lemma fails_once_step:
  assumes o: "quota_outcome res q1" and r: "quota_run q1 opers = (rs, fs, q')"
    and IH: "quota_active q1 \<Longrightarrow> fails_once rs fs q'"
  shows "fails_once (res # rs) fs q'"
proof -
  from o consider (ok) d where "res = Inr d" "quota_active q1"
    | (bad) f where "res = Inl (LimitReached f) \<or> res = Inl (MeasurementFailedError f)"
        "quota_sealed q1 f" "rq_failure_channel q1 = Some f"
    unfolding quota_outcome_def by blast
  then show ?thesis
  proof cases
    case ok
    from IH [OF ok(2)] consider
        (in_service) ds where "rs = map Inr ds" "fs = []" "qs_failure (rq_state q') = None"
          "rq_failure_channel q' = None"
      | (failed) ds err f n where "rs = map Inr ds @ Inl err # replicate n (Inl (QuotaSealed f))"
          "err = LimitReached f \<or> err = MeasurementFailedError f"
          "qs_failure (rq_state q') = Some f" "fs @ failure_list (rq_failure_channel q') = [f]"
      unfolding fails_once_def by blast
    then show ?thesis
    proof cases
      case in_service
      with ok(1) show ?thesis unfolding fails_once_def by (intro disjI1 exI [of _ "d # ds"]) simp
    next
      case failed
      with ok(1) show ?thesis unfolding fails_once_def
        by (intro disjI2 exI [of _ "d # ds"] exI [of _ err] exI [of _ f] exI [of _ n]) simp
    qed
  next
    case bad
    from sealed_run [OF bad(2) r] bad obtain n where
      "rs = replicate n (Inl (QuotaSealed f))" "quota_sealed q' f" "fs @ failure_list (rq_failure_channel q') = [f]"
      by auto
    with bad(1) show ?thesis
      unfolding fails_once_def quota_sealed_def
      by (intro disjI2 exI [of _ "[]"] exI [of _ "projl res"] exI [of _ f] exI [of _ n]) auto
  qed
qed

lemma active_run: "quota_active q \<Longrightarrow> quota_run q opers = (rs, fs, q') \<Longrightarrow> fails_once rs fs q'"
proof (induction q opers arbitrary: rs fs q' rule: quota_run.induct)
  case (1 q)
  then show ?case by (auto simp: fails_once_def quota_active_def)
next
  case (2 q now fsys growth opers)
  obtain res q1 where p: "quota_precheck q now fsys growth = (res, q1)" by fastforce
  obtain rs1 fs1 q2 where r: "quota_run q1 opers = (rs1, fs1, q2)" by (cases "quota_run q1 opers")
  from fails_once_step [OF precheck_outcome [OF "2.prems"(1) p] r] "2.IH" [OF p [symmetric] refl _ r]
    "2.prems"(2) p r show ?case by auto
next
  case (3 q now fsys opers)
  obtain res q1 where p: "post_growth_measurement q now fsys = (res, q1)" by fastforce
  obtain rs1 fs1 q2 where r: "quota_run q1 opers = (rs1, fs1, q2)" by (cases "quota_run q1 opers")
  from fails_once_step [OF post_growth_outcome [OF "3.prems"(1) p] r] "3.IH" [OF p [symmetric] refl _ r]
    "3.prems"(2) p r show ?case by auto
next
  case (4 q opers)
  from "4.prems"(1) have q: "q\<lparr> rq_failure_channel := None \<rparr> = q" "rq_failure_channel q = None"
    by (auto simp: quota_active_def)
  then have rc: "(None, q) = QuotaFailureReceiver_try_recv q"
    by (simp add: QuotaFailureReceiver_try_recv_def)
  obtain rs1 fs1 q2 where r: "quota_run q opers = (rs1, fs1, q2)" by (cases "quota_run q opers")
  from "4.IH" [OF refl rc "4.prems"(1) r] "4.prems"(2) r rc [symmetric] show ?case by simp
qed

subsection \<open>Durable admission is a reserver\<close>

lemma seal_external_sel [simp]:
  "is_outstanding (snd (seal_for_external_core_failure st)) = is_outstanding st"
  "within_budget (snd (seal_for_external_core_failure st)) = within_budget st"
  by (simp_all add: seal_for_external_core_failure_def within_budget_def)

lemma da_quota_precheck_ingress:
  assumes "da_quota_precheck d sz now fsys = (res, d')"
  shows "(res = Inr () \<and> da_ingress d' = da_ingress d) \<or>
    (\<exists>err. res = Inl (QuotaRefused err) \<and>
       da_ingress d' = snd (seal_for_external_core_failure (da_ingress d)))"
  using assms by (auto simp: da_quota_precheck_def split: prod.splits sum.splits)

lemma durable_reserve_cases:
  assumes "durable_reserve d sz (cls, now, fsys) = (res, d')"
  shows "(\<exists>err. res = Inl (QuotaRefused err) \<and>
       da_ingress d' = snd (seal_for_external_core_failure (da_ingress d))) \<or>
    (\<exists>err. ingress_reserve (da_ingress d) sz cls = (Inl err, da_ingress d') \<and> res = Inl (IngressRefused err)) \<or>
    (\<exists>r. ingress_reserve (da_ingress d) sz cls = (Inr r, da_ingress d') \<and> res = Inr r)"
proof -
  obtain r d1 where p: "da_quota_precheck d sz now fsys = (r, d1)" by fastforce
  from da_quota_precheck_ingress [OF p] p assms show ?thesis
    by (auto simp: durable_reserve_def split: prod.splits sum.splits)
qed

interpretation durable: admission_reserver
  durable_reserve durable_commit durable_drop
  "\<lambda>d. map te_event (is_outstanding (da_ingress d))" "\<lambda>d. within_budget (da_ingress d)"
proof unfold_locales
  fix d sz and q :: durable_request and err d'
  assume w: "within_budget (da_ingress d)" and r: "durable_reserve d sz q = (Inl err, d')"
  obtain cls now fsys where q: "q = (cls, now, fsys)" by (cases q)
  from durable_reserve_cases [OF r [unfolded q]] w mandatory.reserve_refused [of "da_ingress d" sz cls]
  show "within_budget (da_ingress d') \<and>
      map te_event (is_outstanding (da_ingress d')) = map te_event (is_outstanding (da_ingress d))"
    by auto
next
  fix d a and q :: durable_request and r d'
  assume w: "within_budget (da_ingress d)"
    and rs: "durable_reserve d (AdmissionSize_one_event (accepted_len a)) q = (Inr r, d')"
  obtain cls now fsys where q: "q = (cls, now, fsys)" by (cases q)
  from durable_reserve_cases [OF rs [unfolded q]]
  have "ingress_reserve (da_ingress d) (AdmissionSize_one_event (accepted_len a)) cls = (Inr r, da_ingress d')"
    by auto
  from mandatory.reserve_committed [OF w this]
  show "within_budget (da_ingress (durable_commit d' r a)) \<and>
      map te_event (is_outstanding (da_ingress (durable_commit d' r a)))
        = map te_event (is_outstanding (da_ingress d)) @ [a]"
    by (simp add: durable_commit_def)
next
  fix d sz and q :: durable_request and r d'
  assume w: "within_budget (da_ingress d)" and rs: "durable_reserve d sz q = (Inr r, d')"
  obtain cls now fsys where q: "q = (cls, now, fsys)" by (cases q)
  from durable_reserve_cases [OF rs [unfolded q]]
  have "ingress_reserve (da_ingress d) sz cls = (Inr r, da_ingress d')" by auto
  from mandatory.reserve_dropped [OF w this]
  show "within_budget (da_ingress (durable_drop d' r)) \<and>
      map te_event (is_outstanding (da_ingress (durable_drop d' r)))
        = map te_event (is_outstanding (da_ingress d))"
    by (simp add: durable_drop_def)
qed

subsection \<open>Properties\<close>

text \<open>
  C25. The walk over the Run directory returns a number exactly when every entry is a regular
  file or a directory that can be listed and stays in place, and the number is then the sum of
  the lengths of all files (which fits 64 bits); anything else is an error, never a smaller sum.
\<close>

theorem run_directory_measured_exactly:
  "measure_run_directory run_directory fsys = Inr measured \<longleftrightarrow>
     fs_clean fsys \<and> unat measured = fs_bytes fsys"
  by (rule measure_run_directory_iff)

text \<open>
  With a limit set, a precheck is granted exactly when nothing failed before, the clock did
  not go back, the directory can be measured, is below the limit, and stays within it with the
  requested growth (computed without wrap-around); the reported size is the measured one, and a
  refusal leaves the quota failed.
\<close>

theorem quota_grants_what_fits:
  assumes "rq_max_run_bytes q = Some limit" "quota_precheck q now fsys growth = (res, q')"
  shows "((\<exists>m. res = Inr (WithinLimit m)) \<longleftrightarrow> fits_quota q now fsys (unat growth) limit) \<and>
    (\<forall>d. res = Inr d \<longrightarrow> (\<exists>m. d = WithinLimit m \<and> unat m = fs_bytes fsys)) \<and>
    (\<forall>err. res = Inl err \<longrightarrow> qs_failure (rq_state q') \<noteq> None \<or> rq_poisoned q)"
  by (rule precheck_cases [OF assms])

definition sample_quota :: RunQuota where
  "sample_quota = projr (RunQuota_new ''/run'' (Some 100))"

definition sample_fsys :: fs_node where
  "sample_fsys = FsDir [(''wal'', FsFile 30), (''db'', FsDir [(''events'', FsFile 50)] True True)] True True"

lemma sample_quota_simps [simp]:
  "rq_max_run_bytes sample_quota = Some 100" "qs_last_measurement_at (rq_state sample_quota) = None"
  "\<not> rq_poisoned sample_quota" "qs_failure (rq_state sample_quota) = None"
  "rq_failure_channel sample_quota = None" "RunQuota_new ''/run'' (Some 100) = Inr sample_quota"
  by (simp_all add: sample_quota_def RunQuota_new_def)

theorem quota_grants_what_fits_witness:
  "fits_quota sample_quota 0 sample_fsys 20 100 \<and>
   (\<exists>m. fst (quota_precheck sample_quota 0 sample_fsys 20) = Inr (WithinLimit m)) \<and>
   \<not> (\<exists>m. fst (quota_precheck sample_quota 0 sample_fsys 21) = Inr (WithinLimit m))"
proof -
  have "fits_quota sample_quota 0 sample_fsys 20 100" "\<not> fits_quota sample_quota 0 sample_fsys 21 100"
    by (simp_all add: fits_quota_def sample_fsys_def)
  with quota_grants_what_fits [OF sample_quota_simps(1) prod.collapse [symmetric], of 0 sample_fsys 20]
    quota_grants_what_fits [OF sample_quota_simps(1) prod.collapse [symmetric], of 0 sample_fsys 21]
  show ?thesis by simp
qed

text \<open>
  C24. Over any history of prechecks, measurements and reads of the failure channel a quota fails
  at most once: its answers are some grants, then possibly one failure, then only refusals
  naming that failure; and the channel hands that failure out exactly once.
\<close>

theorem quota_fails_once:
  assumes "RunQuota_new run_directory max_run_bytes = Inr q" "quota_run q opers = (answers, announced, q')"
  shows "(\<exists>ds. answers = map Inr ds \<and> announced = [] \<and> qs_failure (rq_state q') = None) \<or>
    (\<exists>ds err f n. answers = map Inr ds @ Inl err # replicate n (Inl (QuotaSealed f)) \<and>
       (err = LimitReached f \<or> err = MeasurementFailedError f) \<and>
       qs_failure (rq_state q') = Some f \<and> announced @ failure_list (rq_failure_channel q') = [f])"
proof -
  have "quota_active q"
    using assms(1) by (auto simp: RunQuota_new_def quota_active_def split: if_splits)
  from active_run [OF this assms(2)] show ?thesis unfolding fails_once_def by blast
qed

theorem quota_fails_once_witness:
  "\<exists>answers announced q'. quota_run sample_quota
       [Precheck 0 sample_fsys 20, Precheck 1 sample_fsys 21, Receive, PostGrowth 2 sample_fsys, Receive]
       = (answers, announced, q') \<and> length announced = 1 \<and> length answers = 3 \<and>
     (\<exists>f. answers = [Inr (WithinLimit 80), Inl (LimitReached f), Inl (QuotaSealed f)])"
proof -
  let ?opers = "[Precheck 0 sample_fsys 20, Precheck 1 sample_fsys 21, Receive, PostGrowth 2 sample_fsys, Receive]"
  obtain answers announced q' where r: "quota_run sample_quota ?opers = (answers, announced, q')"
    by (cases "quota_run sample_quota ?opers")
  have m: "measure_run_directory p sample_fsys = Inr 80" for p
    by (simp only: measure_run_directory_iff) (simp add: sample_fsys_def)
  from r have a: "length announced = 1" "rq_failure_channel q' = None"
    "answers = [Inr (WithinLimit 80), Inl (LimitReached (hd announced)), Inl (QuotaSealed (hd announced))]"
    by (auto simp: quota_precheck_def post_growth_measurement_def lock_active_state_def quota_measure_def m
        checked_add_u64_def limit_failure_def quota_latch_failure_def QuotaFailureReceiver_try_recv_def
        word_le_nat_alt word_less_nat_alt)
  from quota_fails_once [OF sample_quota_simps(6) r] a r show ?thesis by auto
qed

text \<open>
  C26. Durable admission fails closed: once the quota has failed, every reservation, fatal ones
  included, is refused with that failure; the events already held are untouched and the
  ingress behind it is sealed.
\<close>

theorem durable_admission_fails_closed:
  assumes "quota_sealed (da_quota d) f" "\<not> is_poisoned (da_ingress d)"
  shows "\<exists>d'. durable_reserve d sz (cls, now, fsys) = (Inl (QuotaRefused (QuotaSealed f)), d') \<and>
    is_outstanding (da_ingress d') = is_outstanding (da_ingress d) \<and>
    is_normal_ingress_sealed (da_ingress d') \<and> da_quota d' = da_quota d"
  using assms sealed_refuses(1) [OF assms(1)]
  by (auto simp: durable_reserve_def da_quota_precheck_def seal_for_external_core_failure_def)

theorem durable_admission_fails_closed_witness:
  "\<exists>d' f. durable_reserve \<lparr> da_ingress = IngressState_default,
       da_quota = snd (quota_precheck sample_quota 0 sample_fsys 21) \<rparr> (AdmissionSize_one_event 1)
       (Fatal, 1, FsDir [] True True) = (Inl (QuotaRefused (QuotaSealed f)), d') \<and>
     is_normal_ingress_sealed (da_ingress d')"
proof -
  let ?q = "snd (quota_precheck sample_quota 0 sample_fsys 21)"
  obtain res q' where p: "quota_precheck sample_quota 0 sample_fsys 21 = (res, q')" by fastforce
  have "\<not> fits_quota sample_quota 0 sample_fsys 21 100" by (simp add: fits_quota_def sample_fsys_def)
  with precheck_cases [OF sample_quota_simps(1) p] have "\<exists>err. res = Inl err"
    by (cases res) auto
  with precheck_outcome [OF _ p] obtain f where f: "quota_sealed q' f"
    by (auto simp: quota_outcome_def quota_active_def)
  have "\<not> is_poisoned IngressState_default" by (simp add: IngressState_default_def)
  with durable_admission_fails_closed [of "\<lparr> da_ingress = IngressState_default, da_quota = q' \<rparr>" f
      "AdmissionSize_one_event 1" Fatal 1 "FsDir [] True True"] f p
  show ?thesis by auto
qed

end
