(* ===== verification/Writer.thy ===== *)
theory Writer
  imports Quota
begin

section \<open>The transactional writer\<close>

text \<open>
  Models \<^verbatim>\<open>rust/crates/troupe-diagnostics-runtime/src/store/writer.rs\<close>: a batch is written in one
  transaction that appends the events, replaces the materialised tables and moves the persisted
  watermarks; only after the commit do the projector, the watermark and the observer move.

  The database is SQLite and stays a parameter: \<open>exec db sql\<close> executes one statement (\<open>None\<close> is an
  error, otherwise the new database and the rows affected), and what the code relies on are the documented effects of the statements,
  \<open>sql_documented\<close>. A transaction works on its own version of the database, which becomes
  current by the commit and is dropped by the rollback. The other points at which the
  database or a hook may fail are in \<open>txn_env\<close>. The projector that computes the materialised
  tables is given by its \<open>apply\<close> and the encoding of its model.
\<close>

subsection \<open>Statements\<close>

datatype MaterializedTable = Spans | Messages | Plans | Counters | Usage | Snapshot

datatype WriteStatement =
    AppendEvent u64
  | ClearMaterialized MaterializedTable
  | InsertMaterialized MaterializedTable
  | AdvanceWatermarks
  | FinalizeRunMetadata

datatype FinalProductionOutcome = OutcomeCompleted | OutcomeFailed | OutcomeCancelled

fun FinalProductionOutcome_as_str :: "FinalProductionOutcome \<Rightarrow> string" where
  "FinalProductionOutcome_as_str OutcomeCompleted = ''completed''"
| "FinalProductionOutcome_as_str OutcomeFailed = ''failed''"
| "FinalProductionOutcome_as_str OutcomeCancelled = ''cancelled''"

text \<open>A row of the table of events, by column.\<close>

record EventRow =
  er_sequence_key :: sortable_key
  er_sequence :: string
  er_run_id :: canonical_uuid
  er_event_schema_version :: "8 word"
  er_elapsed_key :: sortable_key
  er_elapsed_ns :: string
  er_kind :: string
  er_scene_id :: "string option"
  er_actor_id :: "string option"
  er_cue_id :: "string option"
  er_effect_id :: "string option"
  er_act_id :: "string option"
  er_tool_call_id :: "string option"
  er_session_generation_key :: "sortable_key option"
  er_session_generation :: "string option"
  er_canonical_json :: bytes

text \<open>A row of a materialised table: its key (none for the two singletons), position, payload.\<close>

record MaterializedRow =
  mr_key :: "string option"
  mr_key_bytes :: "sortable_key option"
  mr_latest :: sortable_key
  mr_latest_decimal :: string
  mr_payload :: bytes

datatype sql_statement =
    SqlInsertEvent EventRow
  | SqlDeleteAll MaterializedTable
  | SqlInsertMaterialized MaterializedTable MaterializedRow
  | SqlUpdateWatermarks sortable_key string
  | SqlFinalize string string sortable_key string

datatype WriterError =
    NonFreshStore sortable_key sortable_key bool
  | Watermark WatermarkError
  | Projection
  | Serialization
  | BeginTransaction
  | StatementFailed nat WriteStatement
  | BeforeCommit
  | CommitFailed
  | PostCommitValidation
  | InvalidFinalMetadata
  | FinalStateConflict
  | FinalMetadataRead
  | FinalMetadataMismatch

text \<open>
  Where a transaction may fail besides its statements: at its begin, in the hook after a
  statement or before the commit, at the commit, and when the metadata is read back; that
  gives the flag of a clean shutdown.
\<close>

record 'db txn_env =
  tx_begin :: bool
  tx_after_statement :: "nat \<Rightarrow> WriteStatement \<Rightarrow> 'db \<Rightarrow> bool"
  tx_before_commit :: "'db \<Rightarrow> bool"
  tx_commit :: bool
  tx_refresh :: "'db \<Rightarrow> sortable_key \<Rightarrow> bool option"

text \<open>Executing a statement gives the database and the number of rows it affected.\<close>

type_synonym 'db exec = "'db \<Rightarrow> sql_statement \<Rightarrow> ('db \<times> nat) option"

definition execute_statement ::
  "'db exec \<Rightarrow> 'db txn_env \<Rightarrow> 'db \<times> nat \<Rightarrow> WriteStatement \<Rightarrow> sql_statement \<Rightarrow> WriterError + 'db \<times> nat" where
  "execute_statement exec env = (\<lambda>(db, ordinal) statement sql.
     res_bind (ok_or (StatementFailed ordinal statement) (exec db sql)) (\<lambda>(db', affected).
       if \<not> tx_after_statement env ordinal statement db' then Inl (StatementFailed ordinal statement)
       else Inr (db', ordinal + 1)))"

definition event_row :: "AcceptedDiagnosticEvent \<Rightarrow> EventRow" where
  "event_row a =
     (let e = ae_event a; h = DiagnosticEvent_header e; scope = hdr_scope h;
          sequence = SortableU64Key_new (hdr_sequence h);
          elapsed = SortableU64Key_new (hdr_elapsed_ns h);
          session_generation = map_option SortableU64Key_new (sc_session_generation scope)
      in \<lparr> er_sequence_key = sequence, er_sequence = SortableU64Key_canonical_decimal sequence,
           er_run_id = hdr_run_id h, er_event_schema_version = hdr_schema_version h,
           er_elapsed_key = elapsed, er_elapsed_ns = SortableU64Key_canonical_decimal elapsed,
           er_kind = DiagnosticEventKind_as_str (DiagnosticEvent_kind e),
           er_scene_id = sc_scene_id scope, er_actor_id = sc_actor_id scope, er_cue_id = sc_cue_id scope,
           er_effect_id = sc_effect_id scope, er_act_id = sc_act_id scope,
           er_tool_call_id = sc_tool_call_id scope,
           er_session_generation_key = session_generation,
           er_session_generation = map_option SortableU64Key_canonical_decimal session_generation,
           er_canonical_json = ae_canonical_bytes a \<rparr>)"

definition append_event ::
  "'db exec \<Rightarrow> 'db txn_env \<Rightarrow> 'db \<times> nat \<Rightarrow> AcceptedDiagnosticEvent \<Rightarrow> WriterError + 'db \<times> nat" where
  "append_event exec env txn a =
     execute_statement exec env txn (AppendEvent (event_sequence (ae_event a)))
       (SqlInsertEvent (event_row a))"

definition advance_persisted_watermarks ::
  "'db exec \<Rightarrow> 'db txn_env \<Rightarrow> 'db \<times> nat \<Rightarrow> sortable_key \<Rightarrow> WriterError + 'db \<times> nat" where
  "advance_persisted_watermarks exec env txn watermark =
     execute_statement exec env txn AdvanceWatermarks
       (SqlUpdateWatermarks watermark (SortableU64Key_canonical_decimal watermark))"

subsection \<open>Materialised tables\<close>

record EncodedSpan =
  es_span_id :: sortable_key
  es_latest :: sortable_key
  es_payload :: bytes

record EncodedNamed =
  en_name :: string
  en_latest :: sortable_key
  en_payload :: bytes

record EncodedSingleton =
  eg_through :: sortable_key
  eg_payload :: bytes

record EncodedMaterializedState =
  em_spans :: "EncodedSpan list"
  em_messages :: "EncodedNamed list"
  em_plans :: "EncodedNamed list"
  em_counters :: "EncodedNamed list"
  em_usage :: EncodedSingleton
  em_snapshot :: EncodedSingleton

definition clear_table ::
  "'db exec \<Rightarrow> 'db txn_env \<Rightarrow> 'db \<times> nat \<Rightarrow> MaterializedTable \<Rightarrow> WriterError + 'db \<times> nat" where
  "clear_table exec env txn table =
     execute_statement exec env txn (ClearMaterialized table) (SqlDeleteAll table)"

definition insert_span ::
  "'db exec \<Rightarrow> 'db txn_env \<Rightarrow> 'db \<times> nat \<Rightarrow> EncodedSpan \<Rightarrow> WriterError + 'db \<times> nat" where
  "insert_span exec env txn row =
     execute_statement exec env txn (InsertMaterialized Spans) (SqlInsertMaterialized Spans
       \<lparr> mr_key = Some (SortableU64Key_canonical_decimal (es_span_id row)),
         mr_key_bytes = Some (es_span_id row), mr_latest = es_latest row,
         mr_latest_decimal = SortableU64Key_canonical_decimal (es_latest row), mr_payload = es_payload row \<rparr>)"

definition insert_named ::
  "'db exec \<Rightarrow> 'db txn_env \<Rightarrow> MaterializedTable \<Rightarrow> 'db \<times> nat \<Rightarrow> EncodedNamed \<Rightarrow> WriterError + 'db \<times> nat" where
  "insert_named exec env table txn row =
     execute_statement exec env txn (InsertMaterialized table) (SqlInsertMaterialized table
       \<lparr> mr_key = Some (en_name row), mr_key_bytes = None, mr_latest = en_latest row,
         mr_latest_decimal = SortableU64Key_canonical_decimal (en_latest row), mr_payload = en_payload row \<rparr>)"

definition insert_singleton ::
  "'db exec \<Rightarrow> 'db txn_env \<Rightarrow> MaterializedTable \<Rightarrow> 'db \<times> nat \<Rightarrow> EncodedSingleton \<Rightarrow> WriterError + 'db \<times> nat" where
  "insert_singleton exec env table txn row =
     execute_statement exec env txn (InsertMaterialized table) (SqlInsertMaterialized table
       \<lparr> mr_key = None, mr_key_bytes = None, mr_latest = eg_through row,
         mr_latest_decimal = SortableU64Key_canonical_decimal (eg_through row), mr_payload = eg_payload row \<rparr>)"

definition replace_all ::
  "'db exec \<Rightarrow> 'db txn_env \<Rightarrow> EncodedMaterializedState \<Rightarrow> 'db \<times> nat \<Rightarrow> WriterError + 'db \<times> nat" where
  "replace_all exec env m txn =
     res_bind (clear_table exec env txn Spans) (\<lambda>txn.
     res_bind (fold_res (insert_span exec env) txn (em_spans m)) (\<lambda>txn.
     res_bind (clear_table exec env txn Messages) (\<lambda>txn.
     res_bind (fold_res (insert_named exec env Messages) txn (em_messages m)) (\<lambda>txn.
     res_bind (clear_table exec env txn Plans) (\<lambda>txn.
     res_bind (fold_res (insert_named exec env Plans) txn (em_plans m)) (\<lambda>txn.
     res_bind (clear_table exec env txn Counters) (\<lambda>txn.
     res_bind (fold_res (insert_named exec env Counters) txn (em_counters m)) (\<lambda>txn.
     res_bind (clear_table exec env txn Usage) (\<lambda>txn.
     res_bind (insert_singleton exec env Usage txn (em_usage m)) (\<lambda>txn.
     res_bind (clear_table exec env txn Snapshot) (\<lambda>txn.
     insert_singleton exec env Snapshot txn (em_snapshot m))))))))))))"

subsection \<open>The writer\<close>

record ('db, 'p) TransactionalWriter =
  tw_db :: 'db
  tw_clean_shutdown :: bool
  tw_projector :: 'p
  tw_watermark :: CommittedWatermark

text \<open>
  The observer is told of the commit last; here it is the notification returned on success,
  which the caller hands to the ingress.
\<close>

definition commit_batch_with_hook ::
  "'db exec \<Rightarrow> ('p \<Rightarrow> DiagnosticEvent \<Rightarrow> 'p option) \<Rightarrow> ('p \<Rightarrow> EncodedMaterializedState option) \<Rightarrow>
   'db txn_env \<Rightarrow> ('db, 'p) TransactionalWriter \<Rightarrow> EventBatch \<Rightarrow>
   (WriterError + CommitNotification) \<times> ('db, 'p) TransactionalWriter" where
  "commit_batch_with_hook exec apply_event encode_model env w batch =
     (case res_bind (map_err Watermark (CommittedWatermark_candidate (tw_watermark w) batch)) (\<lambda>notification.
        res_bind (fold_res (\<lambda>p a. ok_or Projection (apply_event p (ae_event a))) (tw_projector w)
                    (eb_events batch)) (\<lambda>candidate.
        res_bind (ok_or Serialization (encode_model candidate)) (\<lambda>materialized.
        if \<not> tx_begin env then Inl BeginTransaction else
        res_bind (fold_res (append_event exec env) (tw_db w, 1) (eb_events batch)) (\<lambda>txn.
        res_bind (replace_all exec env materialized txn) (\<lambda>txn.
        res_bind (advance_persisted_watermarks exec env txn (cn_committed notification)) (\<lambda>txn.
        if \<not> tx_before_commit env (fst txn) then Inl BeforeCommit
        else if \<not> tx_commit env then Inl CommitFailed
        else Inr (notification, candidate, fst txn))))))) of
       Inl err \<Rightarrow> (Inl err, w)
     | Inr (notification, candidate, db) \<Rightarrow>
         (case tx_refresh env db (cn_committed notification) of
            None \<Rightarrow> (Inl PostCommitValidation, w\<lparr> tw_db := db \<rparr>)
          | Some clean \<Rightarrow>
              (Inr notification, w\<lparr> tw_db := db, tw_clean_shutdown := clean, tw_projector := candidate,
                 tw_watermark := snd (CommittedWatermark_advance (tw_watermark w) notification) \<rparr>)))"

definition TransactionalWriter_new ::
  "canonical_uuid \<Rightarrow> sortable_key \<Rightarrow> sortable_key \<Rightarrow> bool \<Rightarrow> 'db \<Rightarrow> 'p \<Rightarrow>
   WriterError + ('db, 'p) TransactionalWriter" where
  "TransactionalWriter_new run_id committed read_model clean_shutdown db projector =
     (if SortableU64Key_get committed \<noteq> 0 \<or> SortableU64Key_get read_model \<noteq> 0 \<or> clean_shutdown
      then Inl (NonFreshStore committed read_model clean_shutdown)
      else Inr \<lparr> tw_db = db, tw_clean_shutdown = clean_shutdown, tw_projector = projector,
        tw_watermark = CommittedWatermark_fresh run_id \<rparr>)"

text \<open>\<open>read_final\<close> is the query that reads the terminal columns back.\<close>

definition finalize_run_with_hook ::
  "'db exec \<Rightarrow> ('db \<Rightarrow> (string option \<times> string option \<times> int) option) \<Rightarrow> 'db txn_env \<Rightarrow>
   ('db, 'p) TransactionalWriter \<Rightarrow> string \<Rightarrow> FinalProductionOutcome \<Rightarrow>
   (WriterError + sortable_key) \<times> ('db, 'p) TransactionalWriter" where
  "finalize_run_with_hook exec read_final env w ended_at outcome =
     (if ended_at = [] then (Inl InvalidFinalMetadata, w)
      else if tw_clean_shutdown w then (Inl FinalStateConflict, w)
      else let final_watermark = cw_value (tw_watermark w) in
      if \<not> tx_begin env then (Inl BeginTransaction, w)
      else case exec (tw_db w) (SqlFinalize ended_at (FinalProductionOutcome_as_str outcome) final_watermark
             (SortableU64Key_canonical_decimal final_watermark)) of
        None \<Rightarrow> (Inl (StatementFailed 1 FinalizeRunMetadata), w)
      | Some (db, affected) \<Rightarrow>
          if \<not> tx_after_statement env 1 FinalizeRunMetadata db
          then (Inl (StatementFailed 1 FinalizeRunMetadata), w)
          else if affected \<noteq> 1 then (Inl FinalStateConflict, w)
          else if \<not> tx_before_commit env db then (Inl BeforeCommit, w)
          else if \<not> tx_commit env then (Inl CommitFailed, w)
          else (case tx_refresh env db final_watermark of
             None \<Rightarrow> (Inl PostCommitValidation, w\<lparr> tw_db := db \<rparr>)
           | Some clean \<Rightarrow>
               (let w' = w\<lparr> tw_db := db, tw_clean_shutdown := clean \<rparr> in
                case read_final db of
                  None \<Rightarrow> (Inl FinalMetadataRead, w')
                | Some persisted \<Rightarrow>
                    if persisted \<noteq> (Some ended_at, Some (FinalProductionOutcome_as_str outcome), 1)
                    then (Inl FinalMetadataMismatch, w')
                    else (Inr final_watermark, w'))))"

subsection \<open>What the writer relies on\<close>

text \<open>
  The documented effects of the statements, told by three readings of the database: the rows of
  the table of events, the persisted watermark, the flag of a clean shutdown. An insert adds its
  row and succeeds only if no row has its primary key; the update sets the watermark; the
  finalising update applies only to metadata that are not final and whose watermark is the given
  one; the materialised tables are other tables.
\<close>

definition sql_documented ::
  "'db exec \<Rightarrow> ('db \<Rightarrow> EventRow set) \<Rightarrow> ('db \<Rightarrow> sortable_key) \<Rightarrow> ('db \<Rightarrow> bool) \<Rightarrow> bool" where
  "sql_documented exec rows mark clean \<longleftrightarrow>
     (\<forall>db sql db' n. exec db sql = Some (db', n) \<longrightarrow>
        (case sql of
           SqlInsertEvent r \<Rightarrow> rows db' = insert r (rows db) \<and>
             (\<forall>x \<in> rows db. er_sequence_key x \<noteq> er_sequence_key r) \<and>
             mark db' = mark db \<and> clean db' = clean db
         | SqlDeleteAll t \<Rightarrow> rows db' = rows db \<and> mark db' = mark db \<and> clean db' = clean db
         | SqlInsertMaterialized t r \<Rightarrow> rows db' = rows db \<and> mark db' = mark db \<and> clean db' = clean db
         | SqlUpdateWatermarks k d \<Rightarrow> rows db' = rows db \<and> mark db' = k \<and> clean db' = clean db
         | SqlFinalize e s k d \<Rightarrow> rows db' = rows db \<and> mark db' = mark db \<and>
             (if n = 0 then clean db' = clean db else clean db' \<and> \<not> clean db \<and> mark db = k)))"

lemma sql_documentedD:
  assumes "sql_documented exec rows mark clean" "exec db sql = Some (db', n)"
  shows "case sql of
           SqlInsertEvent r \<Rightarrow> rows db' = insert r (rows db) \<and>
             (\<forall>x \<in> rows db. er_sequence_key x \<noteq> er_sequence_key r) \<and>
             mark db' = mark db \<and> clean db' = clean db
         | SqlDeleteAll t \<Rightarrow> rows db' = rows db \<and> mark db' = mark db \<and> clean db' = clean db
         | SqlInsertMaterialized t r \<Rightarrow> rows db' = rows db \<and> mark db' = mark db \<and> clean db' = clean db
         | SqlUpdateWatermarks k d \<Rightarrow> rows db' = rows db \<and> mark db' = k \<and> clean db' = clean db
         | SqlFinalize e s k d \<Rightarrow> rows db' = rows db \<and> mark db' = mark db \<and>
             (if n = 0 then clean db' = clean db else clean db' \<and> \<not> clean db \<and> mark db = k)"
  using assms unfolding sql_documented_def by blast

lemma execute_statement_Inr:
  "execute_statement exec env txn statement sql = Inr txn' \<Longrightarrow>
   \<exists>n. exec (fst txn) sql = Some (fst txn', n) \<and> snd txn' = snd txn + 1"
  by (cases txn) (auto simp: execute_statement_def split: if_splits)

text \<open>Statements that leave what is read of the database alone.\<close>

definition same_reading ::
  "('db \<Rightarrow> EventRow set) \<Rightarrow> ('db \<Rightarrow> sortable_key) \<Rightarrow> ('db \<Rightarrow> bool) \<Rightarrow> 'db \<Rightarrow> 'db \<Rightarrow> bool" where
  "same_reading rows mark clean db db' \<longleftrightarrow> rows db' = rows db \<and> mark db' = mark db \<and> clean db' = clean db"

lemma same_reading_refl: "same_reading rows mark clean db db"
  by (simp add: same_reading_def)

lemma same_reading_trans:
  "same_reading rows mark clean a b \<Longrightarrow> same_reading rows mark clean b c \<Longrightarrow> same_reading rows mark clean a c"
  by (simp add: same_reading_def)

lemma execute_same:
  assumes "sql_documented exec rows mark clean" "execute_statement exec env txn statement sql = Inr txn'"
    and "(\<exists>t. sql = SqlDeleteAll t) \<or> (\<exists>t r. sql = SqlInsertMaterialized t r)"
  shows "same_reading rows mark clean (fst txn) (fst txn')"
proof -
  from execute_statement_Inr [OF assms(2)] obtain n where "exec (fst txn) sql = Some (fst txn', n)" by blast
  from sql_documentedD [OF assms(1) this] assms(3) show ?thesis by (auto simp: same_reading_def)
qed

lemma materialized_same:
  assumes "sql_documented exec rows mark clean"
  shows "clear_table exec env txn table = Inr txn' \<Longrightarrow> same_reading rows mark clean (fst txn) (fst txn')"
    and "insert_span exec env txn span_row = Inr txn' \<Longrightarrow> same_reading rows mark clean (fst txn) (fst txn')"
    and "insert_named exec env table txn named_row = Inr txn' \<Longrightarrow> same_reading rows mark clean (fst txn) (fst txn')"
    and "insert_singleton exec env table txn single = Inr txn' \<Longrightarrow> same_reading rows mark clean (fst txn) (fst txn')"
  by (auto simp: clear_table_def insert_span_def insert_named_def insert_singleton_def
      intro: execute_same [OF assms])

lemma bind_same:
  assumes "res_bind m k = Inr t" "\<And>t1. m = Inr t1 \<Longrightarrow> same_reading rows mark clean (fst t0) (fst t1)"
    and "\<And>t1. k t1 = Inr t \<Longrightarrow> same_reading rows mark clean (fst t1) (fst t)"
  shows "same_reading rows mark clean (fst t0) (fst t)"
  using assms by (cases m) (auto intro: same_reading_trans)

lemma fold_same:
  assumes "\<And>t x t'. f t x = Inr t' \<Longrightarrow> same_reading rows mark clean (fst t) (fst t')"
    and "fold_res f t xs = Inr t'"
  shows "same_reading rows mark clean (fst t) (fst t')"
  using assms(2) by (rule fold_res_induct) (auto intro: same_reading_refl same_reading_trans assms(1))

lemma materialized_fold_same:
  assumes "sql_documented exec rows mark clean"
  shows "fold_res (insert_span exec env) t spans = Inr t' \<Longrightarrow> same_reading rows mark clean (fst t) (fst t')"
    and "fold_res (insert_named exec env table) t named = Inr t' \<Longrightarrow> same_reading rows mark clean (fst t) (fst t')"
  using assms by (blast intro: fold_same materialized_same)+

lemma replace_all_same:
  assumes "sql_documented exec rows mark clean"
  shows "replace_all exec env m txn = Inr txn' \<Longrightarrow> same_reading rows mark clean (fst txn) (fst txn')"
  unfolding replace_all_def
  by ((erule bind_same, (erule materialized_same [OF assms] materialized_fold_same [OF assms]))+)
     (erule materialized_same [OF assms])

text \<open>No error before the commit is the one that follows it.\<close>

lemma bind_ne: "m \<noteq> Inl e \<Longrightarrow> (\<And>x. k x \<noteq> Inl e) \<Longrightarrow> res_bind m k \<noteq> Inl e"
  by (cases m) auto

lemma fold_ne: "(\<And>s x. f s x \<noteq> Inl e) \<Longrightarrow> fold_res f s xs \<noteq> Inl e"
  by (induction f s xs rule: fold_res.induct) (auto simp: res_bind_Inl)

lemma if_ne: "(c \<Longrightarrow> a \<noteq> Inl e) \<Longrightarrow> (\<not> c \<Longrightarrow> b \<noteq> Inl e) \<Longrightarrow> (if c then a else b) \<noteq> Inl e"
  by simp

lemma execute_ne: "execute_statement exec env txn statement sql \<noteq> Inl PostCommitValidation"
  by (cases txn) (auto simp: execute_statement_def res_simps split: if_splits prod.splits)

lemma replace_all_ne: "replace_all exec env m txn \<noteq> Inl PostCommitValidation"
  unfolding replace_all_def clear_table_def insert_span_def [abs_def] insert_named_def [abs_def]
    insert_singleton_def
  by (intro bind_ne fold_ne execute_ne)

lemma append_fold:
  assumes doc: "sql_documented exec rows mark clean"
  shows "fold_res (append_event exec env) txn es = Inr txn' \<Longrightarrow>
    rows (fst txn') = rows (fst txn) \<union> event_row ` set es \<and> mark (fst txn') = mark (fst txn) \<and>
    clean (fst txn') = clean (fst txn)"
proof (induction es arbitrary: txn)
  case Nil
  then show ?case by simp
next
  case (Cons e es)
  then obtain txn1 where a: "append_event exec env txn e = Inr txn1"
    and r: "fold_res (append_event exec env) txn1 es = Inr txn'" by (auto simp: res_bind_Inr)
  from a obtain n where "exec (fst txn) (SqlInsertEvent (event_row e)) = Some (fst txn1, n)"
    unfolding append_event_def using execute_statement_Inr by blast
  from sql_documentedD [OF doc this] Cons.IH [OF r] show ?case by auto
qed

lemma candidate_Inr:
  assumes "CommittedWatermark_candidate w b = Inr n"
  shows "cn_run_id n = cw_run_id w \<and> cn_previous n = cw_value w \<and> EventBatch_run_id b = cw_run_id w \<and>
    cn_committed n = SortableU64Key_new (accepted_seq (last (eb_events b))) \<and>
    cn_event_count n = length (eb_events b) \<and> cn_canonical_bytes n = eb_canonical_bytes b \<and>
    unat (SortableU64Key_get (cw_value w)) < 2 ^ 64 - 1 \<and>
    accepted_seq (hd (eb_events b)) = SortableU64Key_get (cw_value w) + 1"
  using assms
  by (auto simp: CommittedWatermark_candidate_def EventBatch_first_def EventBatch_last_def
      split: if_splits)

text \<open>The watermark moves as the batch promised: the \<^verbatim>\<open>expect\<close> after the commit cannot fail.\<close>

lemma advance_candidate:
  "CommittedWatermark_candidate w b = Inr n \<Longrightarrow>
   CommittedWatermark_advance w n = (Inr (), w\<lparr> cw_value := cn_committed n \<rparr>)"
  by (simp add: CommittedWatermark_advance_def candidate_Inr)

lemma commit_batch_cases:
  assumes doc: "sql_documented exec rows mark clean"
    and c: "commit_batch_with_hook exec apply_event encode_model env w b = (res, w')"
  shows "(\<exists>err. res = Inl err \<and> err \<noteq> PostCommitValidation \<and> w' = w) \<or>
    (\<exists>n. CommittedWatermark_candidate (tw_watermark w) b = Inr n \<and>
       rows (tw_db w') = rows (tw_db w) \<union> event_row ` set (eb_events b) \<and>
       mark (tw_db w') = cn_committed n \<and> clean (tw_db w') = clean (tw_db w) \<and>
       ((res = Inl PostCommitValidation \<and> w' = w\<lparr> tw_db := tw_db w' \<rparr> \<and>
         tx_refresh env (tw_db w') (cn_committed n) = None) \<or>
        (res = Inr n \<and> tw_watermark w' = (tw_watermark w)\<lparr> cw_value := cn_committed n \<rparr> \<and>
         tx_refresh env (tw_db w') (cn_committed n) = Some (tw_clean_shutdown w'))))"
proof -
  let ?body = "res_bind (map_err Watermark (CommittedWatermark_candidate (tw_watermark w) b)) (\<lambda>notification.
        res_bind (fold_res (\<lambda>p a. ok_or Projection (apply_event p (ae_event a))) (tw_projector w)
                    (eb_events b)) (\<lambda>candidate.
        res_bind (ok_or Serialization (encode_model candidate)) (\<lambda>materialized.
        if \<not> tx_begin env then Inl BeginTransaction else
        res_bind (fold_res (append_event exec env) (tw_db w, 1) (eb_events b)) (\<lambda>txn.
        res_bind (replace_all exec env materialized txn) (\<lambda>txn.
        res_bind (advance_persisted_watermarks exec env txn (cn_committed notification)) (\<lambda>txn.
        if \<not> tx_before_commit env (fst txn) then Inl BeforeCommit
        else if \<not> tx_commit env then Inl CommitFailed
        else Inr (notification, candidate, fst txn)))))))"
  show ?thesis
  proof (cases ?body)
    case (Inl err)
    moreover have "err \<noteq> PostCommitValidation"
    proof
      assume "err = PostCommitValidation"
      with Inl have "?body = Inl PostCommitValidation" by simp
      moreover have "?body \<noteq> Inl PostCommitValidation"
        unfolding append_event_def [abs_def] advance_persisted_watermarks_def
        by (intro bind_ne fold_ne replace_all_ne execute_ne if_ne) (auto simp: map_err_Inl)
      ultimately show False by contradiction
    qed
    moreover have "res = Inl err \<and> w' = w"
      using c Inl unfolding commit_batch_with_hook_def by simp
    ultimately show ?thesis by blast
  next
    case (Inr v)
    then obtain n p m t1 t2 t3 where
        n: "CommittedWatermark_candidate (tw_watermark w) b = Inr n"
      and t1: "fold_res (append_event exec env) (tw_db w, 1) (eb_events b) = Inr t1"
      and t2: "replace_all exec env m t1 = Inr t2"
      and t3: "advance_persisted_watermarks exec env t2 (cn_committed n) = Inr t3"
      and v: "v = (n, p, fst t3)"
      by (auto simp: res_bind_Inr split: if_splits)
    from t3 obtain k where "exec (fst t2) (SqlUpdateWatermarks (cn_committed n)
        (SortableU64Key_canonical_decimal (cn_committed n))) = Some (fst t3, k)"
      unfolding advance_persisted_watermarks_def using execute_statement_Inr by blast
    from sql_documentedD [OF doc this] replace_all_same [OF doc t2] append_fold [OF doc t1]
    have "rows (fst t3) = rows (tw_db w) \<union> event_row ` set (eb_events b)" "mark (fst t3) = cn_committed n"
        "clean (fst t3) = clean (tw_db w)"
      by (auto simp: same_reading_def)
    with c Inr v n advance_candidate [OF n] show ?thesis
      unfolding commit_batch_with_hook_def by (auto split: option.splits)
  qed
qed

subsection \<open>What the store holds\<close>

text \<open>
  The writer holds exactly the events \<open>h\<close>: numbered from one without gaps, one row each, the
  persisted and the in-memory watermark at the last of them.
\<close>

definition store_holds ::
  "('db \<Rightarrow> EventRow set) \<Rightarrow> ('db \<Rightarrow> sortable_key) \<Rightarrow> canonical_uuid \<Rightarrow> ('db, 'p) TransactionalWriter \<Rightarrow>
   AcceptedDiagnosticEvent list \<Rightarrow> bool" where
  "store_holds rows mark run_id w h \<longleftrightarrow>
     run_from 0 h \<and> (\<forall>a \<in> set h. accepted_run a = run_id) \<and>
     rows (tw_db w) = event_row ` set h \<and> mark (tw_db w) = SortableU64Key_new (last_seq 0 h) \<and>
     tw_watermark w = \<lparr> cw_run_id = run_id, cw_value = SortableU64Key_new (last_seq 0 h) \<rparr>"

lemma well_batched_extends:
  assumes "run_from 0 h" "well_batched es" "unat (last_seq 0 h) < 2 ^ 64 - 1"
    and "accepted_seq (hd es) = last_seq 0 h + 1"
  shows "run_from 0 (h @ es) \<and> last_seq 0 (h @ es) = accepted_seq (last es)"
proof -
  obtain a as where es: "es = a # as" using assms(2) by (cases es) (auto simp: well_batched_def)
  with assms show ?thesis by (simp add: well_batched_def last_seq_def)
qed

lemma emitted_batch:
  assumes "EventBatch_new (eb_events b) = Inr b"
  shows "well_batched (eb_events b)" "eb_canonical_bytes b = batch_bytes (eb_events b)"
proof -
  from assms have "well_batched (eb_events b) \<and> b = \<lparr> eb_events = eb_events b, eb_canonical_bytes = batch_bytes (eb_events b) \<rparr>"
    by (simp only: EventBatch_new_iff)
  then show "well_batched (eb_events b)" "eb_canonical_bytes b = batch_bytes (eb_events b)"
    by (blast, metis EventBatch.select_convs(2))
qed

lemma candidate_holds:
  assumes h: "run_from 0 h"
    and w: "wm = \<lparr> cw_run_id = run_id, cw_value = SortableU64Key_new (last_seq 0 h) \<rparr>"
    and b: "EventBatch_new (eb_events b) = Inr b" and c: "CommittedWatermark_candidate wm b = Inr n"
  shows "run_from 0 (h @ eb_events b) \<and> (\<forall>a \<in> set (eb_events b). accepted_run a = run_id) \<and>
    n = \<lparr> cn_run_id = run_id, cn_previous = SortableU64Key_new (last_seq 0 h),
      cn_committed = SortableU64Key_new (last_seq 0 (h @ eb_events b)),
      cn_event_count = length (eb_events b), cn_canonical_bytes = batch_bytes (eb_events b) \<rparr>"
proof -
  from b have wb: "well_batched (eb_events b)" and by_: "eb_canonical_bytes b = batch_bytes (eb_events b)"
    by (simp_all add: emitted_batch)
  note cand = candidate_Inr [OF c]
  have g: "SortableU64Key_get (cw_value wm) = last_seq 0 h" by (simp add: w)
  from cand have s: "unat (last_seq 0 h) < 2 ^ 64 - 1" "accepted_seq (hd (eb_events b)) = last_seq 0 h + 1"
    unfolding g by blast+
  note ext = well_batched_extends [OF h wb s]
  have "\<forall>a \<in> set (eb_events b). accepted_run a = run_id"
  proof -
    have "accepted_run (hd (eb_events b)) = run_id"
      using cand w unfolding EventBatch_run_id_def EventBatch_first_def by (metis CommittedWatermark.select_convs(1))
    with wb show ?thesis unfolding well_batched_def by metis
  qed
  moreover have "n = \<lparr> cn_run_id = run_id, cn_previous = SortableU64Key_new (last_seq 0 h),
      cn_committed = SortableU64Key_new (last_seq 0 (h @ eb_events b)),
      cn_event_count = length (eb_events b), cn_canonical_bytes = batch_bytes (eb_events b) \<rparr>"
    unfolding conjunct2 [OF ext] using cand by_ w by (intro CommitNotification.equality) simp_all
  ultimately show ?thesis using ext by blast
qed

lemma commit_batch_holds:
  assumes doc: "sql_documented exec rows mark clean" and h: "store_holds rows mark run_id w h"
    and b: "EventBatch_new (eb_events b) = Inr b"
    and c: "commit_batch_with_hook exec apply_event encode_model env w b = (Inr n, w')"
  shows "store_holds rows mark run_id w' (h @ eb_events b) \<and>
    n = \<lparr> cn_run_id = run_id, cn_previous = SortableU64Key_new (last_seq 0 h),
      cn_committed = SortableU64Key_new (last_seq 0 (h @ eb_events b)),
      cn_event_count = length (eb_events b), cn_canonical_bytes = batch_bytes (eb_events b) \<rparr>"
proof -
  from commit_batch_cases [OF doc c] have cand: "CommittedWatermark_candidate (tw_watermark w) b = Inr n"
    and r: "rows (tw_db w') = rows (tw_db w) \<union> event_row ` set (eb_events b)"
    and m: "mark (tw_db w') = cn_committed n"
    and wm: "tw_watermark w' = (tw_watermark w)\<lparr> cw_value := cn_committed n \<rparr>" by auto
  from h have h1: "run_from 0 h"
    and h2: "tw_watermark w = \<lparr> cw_run_id = run_id, cw_value = SortableU64Key_new (last_seq 0 h) \<rparr>"
    by (simp_all add: store_holds_def)
  from candidate_holds [OF h1 h2 b cand] h r m wm show ?thesis
    by (auto simp: store_holds_def simp del: last_seq_append)
qed

text \<open>A series of commits, up to the first error, as the writer thread makes them.\<close>

fun writer_run ::
  "'db exec \<Rightarrow> ('p \<Rightarrow> DiagnosticEvent \<Rightarrow> 'p option) \<Rightarrow> ('p \<Rightarrow> EncodedMaterializedState option) \<Rightarrow>
   ('db, 'p) TransactionalWriter \<Rightarrow> ('db txn_env \<times> EventBatch) list \<Rightarrow>
   (WriterError + unit) \<times> ('db, 'p) TransactionalWriter" where
  "writer_run exec apply_event encode_model w [] = (Inr (), w)"
| "writer_run exec apply_event encode_model w ((env, b) # rest) =
     (case commit_batch_with_hook exec apply_event encode_model env w b of
        (Inl err, w') \<Rightarrow> (Inl err, w')
      | (Inr _, w') \<Rightarrow> writer_run exec apply_event encode_model w' rest)"

definition store_prefix ::
  "('db \<Rightarrow> EventRow set) \<Rightarrow> ('db \<Rightarrow> sortable_key) \<Rightarrow> 'db \<Rightarrow> AcceptedDiagnosticEvent list \<Rightarrow> bool" where
  "store_prefix rows mark db h \<longleftrightarrow>
     run_from 0 h \<and> rows db = event_row ` set h \<and> mark db = SortableU64Key_new (last_seq 0 h)"

text \<open>The projector has taken the events \<open>h\<close>, in order, from where it started.\<close>

definition projected ::
  "('p \<Rightarrow> DiagnosticEvent \<Rightarrow> 'p option) \<Rightarrow> 'p \<Rightarrow> AcceptedDiagnosticEvent list \<Rightarrow> 'p \<Rightarrow> bool" where
  "projected apply_event p h p' \<longleftrightarrow> fold_res (\<lambda>p a. ok_or Projection (apply_event p (ae_event a))) p h = Inr p'"

lemma projected_append: "projected apply_event p h q \<Longrightarrow> projected apply_event q es r \<Longrightarrow> projected apply_event p (h @ es) r"
  by (simp add: projected_def fold_res_append)

lemma commit_batch_projects:
  assumes "commit_batch_with_hook exec apply_event encode_model env w b = (Inr n, w')"
  shows "projected apply_event (tw_projector w) (eb_events b) (tw_projector w')"
  using assms unfolding commit_batch_with_hook_def projected_def
  by (auto split: sum.splits option.splits if_splits)

lemma writer_run_holds:
  assumes doc: "sql_documented exec rows mark clean"
  shows "store_holds rows mark run_id w h \<Longrightarrow> \<forall>(env, b) \<in> set cs. EventBatch_new (eb_events b) = Inr b \<Longrightarrow>
    writer_run exec apply_event encode_model w cs = (res, w') \<Longrightarrow> projected apply_event p0 h (tw_projector w) \<Longrightarrow>
    \<exists>k \<le> length cs. (res = Inr () \<longrightarrow> k = length cs) \<and>
      store_prefix rows mark (tw_db w') (h @ concat (map (\<lambda>c. eb_events (snd c)) (take k cs))) \<and>
      (res \<noteq> Inl PostCommitValidation \<longrightarrow>
         projected apply_event p0 (h @ concat (map (\<lambda>c. eb_events (snd c)) (take k cs))) (tw_projector w'))"
proof (induction cs arbitrary: w h)
  case Nil
  then show ?case by (simp add: store_holds_def store_prefix_def)
next
  case (Cons c cs)
  obtain env b where c: "c = (env, b)" by (cases c)
  with Cons.prems(2) have b: "EventBatch_new (eb_events b) = Inr b" by simp
  obtain r w1 where cb: "commit_batch_with_hook exec apply_event encode_model env w b = (r, w1)" by fastforce
  show ?case
  proof (cases r)
    case (Inr n)
    from commit_batch_holds [OF doc Cons.prems(1) b cb [unfolded Inr]]
    have h1: "store_holds rows mark run_id w1 (h @ eb_events b)" ..
    have "projected apply_event p0 (h @ eb_events b) (tw_projector w1)"
      using Cons.prems(4) commit_batch_projects [OF cb [unfolded Inr]] by (rule projected_append)
    from Cons.IH [OF h1 _ _ this] Cons.prems(2,3) c cb Inr obtain k where
      "k \<le> length cs" "res = Inr () \<longrightarrow> k = length cs"
      "store_prefix rows mark (tw_db w') ((h @ eb_events b) @ concat (map (\<lambda>c. eb_events (snd c)) (take k cs)))"
      "res \<noteq> Inl PostCommitValidation \<longrightarrow>
         projected apply_event p0 ((h @ eb_events b) @ concat (map (\<lambda>c. eb_events (snd c)) (take k cs))) (tw_projector w')"
      by auto
    then show ?thesis using c by (intro exI [of _ "Suc k"]) simp
  next
    case (Inl err)
    with Cons.prems(3) c cb have w': "res = Inl err" "w' = w1" by simp_all
    show ?thesis
    proof (cases "err = PostCommitValidation")
      case False
      with commit_batch_cases [OF doc cb] Inl w' have "w' = w" by auto
      with Cons.prems(1,4) w' show ?thesis by (intro exI [of _ 0]) (simp add: store_holds_def store_prefix_def)
    next
      case True
      with commit_batch_cases [OF doc cb] Inl obtain n where
        n: "CommittedWatermark_candidate (tw_watermark w) b = Inr n"
          "rows (tw_db w1) = rows (tw_db w) \<union> event_row ` set (eb_events b)" "mark (tw_db w1) = cn_committed n"
        by auto
      from Cons.prems(1) have h1: "run_from 0 h"
        and h2: "tw_watermark w = \<lparr> cw_run_id = run_id, cw_value = SortableU64Key_new (last_seq 0 h) \<rparr>"
        by (simp_all add: store_holds_def)
      from candidate_holds [OF h1 h2 b n(1)] n Cons.prems(1) c w' True show ?thesis
        by (intro exI [of _ 1]) (auto simp: store_holds_def store_prefix_def simp del: last_seq_append run_from_append)
    qed
  qed
qed

lemma event_row_key: "be_value (er_sequence_key (event_row a)) = unat (accepted_seq a)"
  by (simp add: event_row_def Let_def be_value_key AcceptedDiagnosticEvent_identity_def)

lemma run_from_keys:
  assumes "run_from 0 h"
  shows "(\<lambda>r. be_value (er_sequence_key r)) ` event_row ` set h = {1..length h}"
proof -
  have "(\<lambda>r. be_value (er_sequence_key r)) ` event_row ` set h = (\<lambda>a. unat (accepted_seq a)) ` set h"
    by (simp add: image_image event_row_key)
  also have "\<dots> = (\<lambda>i. unat (accepted_seq (h ! i))) ` {..<length h}"
    by (auto simp: set_conv_nth image_iff)
  also have "\<dots> = Suc ` {..<length h}"
    using run_from_nth [OF assms] by (intro image_cong) simp_all
  also have "\<dots> = {1..length h}" by (simp add: lessThan_atLeast0 atLeastLessThanSuc_atLeastAtMost flip: atLeastLessThanSuc)
  finally show ?thesis .
qed

subsection \<open>Properties\<close>

text \<open>
  C15. A commit is all or nothing. If \<open>commit_batch\<close> fails before or at the commit, whatever
  statement, hook, projector step or encoding failed, the database, the projector and the
  watermark are as before. Otherwise the database holds exactly the rows it held and one row
  per event of the batch, and its watermark is the last sequence of the batch; the in-memory
  watermark follows unless reading the metadata back fails, the one error after the commit.
\<close>

theorem commit_batch_atomic:
  assumes "sql_documented exec rows mark clean"
    and "commit_batch_with_hook exec apply_event encode_model env w b = (res, w')"
  shows "(\<exists>err. res = Inl err \<and> err \<noteq> PostCommitValidation \<and> w' = w) \<or>
    (rows (tw_db w') = rows (tw_db w) \<union> event_row ` set (eb_events b) \<and>
     mark (tw_db w') = SortableU64Key_new (accepted_seq (last (eb_events b))) \<and>
     ((res = Inl PostCommitValidation \<and> tw_watermark w' = tw_watermark w \<and> tw_projector w' = tw_projector w) \<or>
      (\<exists>n. res = Inr n \<and> cn_committed n = mark (tw_db w') \<and> cn_previous n = cw_value (tw_watermark w) \<and>
         cn_event_count n = length (eb_events b) \<and> cw_value (tw_watermark w') = mark (tw_db w'))))"
  using commit_batch_cases [OF assms]
proof (elim disjE exE conjE)
  fix n
  assume c: "CommittedWatermark_candidate (tw_watermark w) b = Inr n"
    and "rows (tw_db w') = rows (tw_db w) \<union> event_row ` set (eb_events b)" "mark (tw_db w') = cn_committed n"
      "res = Inl PostCommitValidation" "w' = w\<lparr> tw_db := tw_db w' \<rparr>"
  moreover from \<open>w' = w\<lparr> tw_db := tw_db w' \<rparr>\<close> have "tw_watermark w' = tw_watermark w" "tw_projector w' = tw_projector w"
    by (metis TransactionalWriter.select_convs(4) TransactionalWriter.surjective TransactionalWriter.update_convs(1),
        metis TransactionalWriter.select_convs(3) TransactionalWriter.surjective TransactionalWriter.update_convs(1))
  ultimately show ?thesis using candidate_Inr [OF c] by metis
next
  fix n
  assume c: "CommittedWatermark_candidate (tw_watermark w) b = Inr n"
    and "rows (tw_db w') = rows (tw_db w) \<union> event_row ` set (eb_events b)" "mark (tw_db w') = cn_committed n"
      "res = Inr n" "tw_watermark w' = (tw_watermark w)\<lparr> cw_value := cn_committed n \<rparr>"
  with candidate_Inr [OF c] show ?thesis by simp
qed blast

text \<open>A small database for the witnesses: its rows, its watermark, its flag.\<close>

record sample_db =
  sd_rows :: "EventRow list"
  sd_mark :: sortable_key
  sd_clean :: bool

fun sample_exec :: "sample_db exec" where
  "sample_exec db (SqlInsertEvent r) =
     (if list_ex (\<lambda>x. er_sequence_key x = er_sequence_key r) (sd_rows db) then None
      else Some (db\<lparr> sd_rows := r # sd_rows db \<rparr>, 1))"
| "sample_exec db (SqlDeleteAll t) = Some (db, 0)"
| "sample_exec db (SqlInsertMaterialized t r) = Some (db, 1)"
| "sample_exec db (SqlUpdateWatermarks k d) = Some (db\<lparr> sd_mark := k \<rparr>, 1)"
| "sample_exec db (SqlFinalize e s k d) =
     (if sd_clean db \<or> sd_mark db \<noteq> k then Some (db, 0) else Some (db\<lparr> sd_clean := True \<rparr>, 1))"

definition sample_rows :: "sample_db \<Rightarrow> EventRow set" where "sample_rows db = set (sd_rows db)"

lemma sample_exec_documented: "sql_documented sample_exec sample_rows sd_mark sd_clean"
  unfolding sql_documented_def
proof (intro allI impI)
  fix db sql db' n
  assume "sample_exec db sql = Some (db', n)"
  then show "case sql of
      SqlInsertEvent r \<Rightarrow> sample_rows db' = insert r (sample_rows db) \<and>
        (\<forall>x \<in> sample_rows db. er_sequence_key x \<noteq> er_sequence_key r) \<and>
        sd_mark db' = sd_mark db \<and> sd_clean db' = sd_clean db
    | SqlDeleteAll t \<Rightarrow> sample_rows db' = sample_rows db \<and> sd_mark db' = sd_mark db \<and> sd_clean db' = sd_clean db
    | SqlInsertMaterialized t r \<Rightarrow>
        sample_rows db' = sample_rows db \<and> sd_mark db' = sd_mark db \<and> sd_clean db' = sd_clean db
    | SqlUpdateWatermarks k d \<Rightarrow> sample_rows db' = sample_rows db \<and> sd_mark db' = k \<and> sd_clean db' = sd_clean db
    | SqlFinalize e s k d \<Rightarrow> sample_rows db' = sample_rows db \<and> sd_mark db' = sd_mark db \<and>
        (if n = 0 then sd_clean db' = sd_clean db else sd_clean db' \<and> \<not> sd_clean db \<and> sd_mark db = k)"
    by (cases sql) (auto simp: sample_rows_def list_ex_iff split: if_splits)
qed

definition sample_env :: "bool \<Rightarrow> sample_db txn_env" where
  "sample_env hook = \<lparr> tx_begin = True, tx_after_statement = (\<lambda>_ _ _. True), tx_before_commit = (\<lambda>_. hook),
     tx_commit = True, tx_refresh = (\<lambda>db _. Some (sd_clean db)) \<rparr>"

definition sample_materialized :: EncodedMaterializedState where
  "sample_materialized = \<lparr> em_spans = [], em_messages = [], em_plans = [], em_counters = [],
     em_usage = \<lparr> eg_through = SortableU64Key_new 0, eg_payload = [] \<rparr>,
     em_snapshot = \<lparr> eg_through = SortableU64Key_new 0, eg_payload = [] \<rparr> \<rparr>"

definition sample_writer :: "(sample_db, nat) TransactionalWriter" where
  "sample_writer = \<lparr> tw_db = \<lparr> sd_rows = [], sd_mark = SortableU64Key_new 0, sd_clean = False \<rparr>,
     tw_clean_shutdown = False, tw_projector = 0, tw_watermark = CommittedWatermark_fresh 7 \<rparr>"

definition sample_batch :: "u64 \<Rightarrow> EventBatch" where
  "sample_batch q = \<lparr> eb_events = [sample_accepted q], eb_canonical_bytes = 3 \<rparr>"

abbreviation sample_commit where
  "sample_commit \<equiv> commit_batch_with_hook sample_exec (\<lambda>p _. Some (p + 1)) (\<lambda>_. Some sample_materialized)"

lemmas writer_compute = commit_batch_with_hook_def CommittedWatermark_candidate_def CommittedWatermark_advance_def
  CommittedWatermark_fresh_def EventBatch_run_id_def EventBatch_first_def EventBatch_last_def
  append_event_def execute_statement_def replace_all_def clear_table_def insert_singleton_def
  advance_persisted_watermarks_def checked_add_u64_def AcceptedDiagnosticEvent_identity_def
  sample_env_def sample_materialized_def sample_writer_def sample_batch_def sample_accepted_def sample_events

theorem commit_batch_atomic_witness:
  "snd (sample_commit (sample_env False) sample_writer (sample_batch 1)) = sample_writer \<and>
   sample_rows (tw_db (snd (sample_commit (sample_env True) sample_writer (sample_batch 1))))
     = {event_row (sample_accepted 1)}"
proof -
  have "fst (sample_commit (sample_env False) sample_writer (sample_batch 1)) = Inl BeforeCommit"
    by (simp add: writer_compute)
  with commit_batch_atomic [OF sample_exec_documented prod.collapse [symmetric],
      of "\<lambda>p _. Some (p + 1)" "\<lambda>_. Some sample_materialized" "sample_env False" sample_writer "sample_batch 1"]
  have a: "snd (sample_commit (sample_env False) sample_writer (sample_batch 1)) = sample_writer" by auto
  have "\<exists>n. fst (sample_commit (sample_env True) sample_writer (sample_batch 1)) = Inr n"
    by (simp add: writer_compute)
  with commit_batch_atomic [OF sample_exec_documented prod.collapse [symmetric],
      of "\<lambda>p _. Some (p + 1)" "\<lambda>_. Some sample_materialized" "sample_env True" sample_writer "sample_batch 1"]
  have "sample_rows (tw_db (snd (sample_commit (sample_env True) sample_writer (sample_batch 1))))
      = sample_rows (tw_db sample_writer) \<union> event_row ` set (eb_events (sample_batch 1))"
    by auto
  with a show ?thesis by (simp add: sample_writer_def sample_batch_def sample_rows_def)
qed

text \<open>Started on a fresh store, the writer keeps it a dense prefix and its projector in step.\<close>

lemma fresh_writer_run:
  assumes "sql_documented exec rows mark clean"
    and "TransactionalWriter_new run_id (mark db) (mark db) False db projector = Inr w"
    and "rows db = {}" "length (mark db) = 8"
    and "\<forall>(env, b) \<in> set commits. EventBatch_new (eb_events b) = Inr b"
    and "writer_run exec apply_event encode_model w commits = (res, w')"
  shows "\<exists>k \<le> length commits. (res = Inr () \<longrightarrow> k = length commits) \<and>
    (let events = concat (map (\<lambda>c. eb_events (snd c)) (take k commits)) in
       rows (tw_db w') = event_row ` set events \<and>
       (\<lambda>r. be_value (er_sequence_key r)) ` rows (tw_db w') = {1..length events} \<and>
       be_value (mark (tw_db w')) = length events \<and>
       (res \<noteq> Inl PostCommitValidation \<longrightarrow> projected apply_event projector events (tw_projector w')))"
proof -
  have "SortableU64Key_get (mark db) = 0"
    using assms(2) by (auto simp: TransactionalWriter_new_def split: if_splits)
  with key_new_get [OF assms(4)] have m: "mark db = SortableU64Key_new 0" by metis
  have w: "tw_db w = db" "tw_watermark w = CommittedWatermark_fresh run_id" "tw_projector w = projector"
    using assms(2) by (auto simp: TransactionalWriter_new_def split: if_splits)
  have "store_holds rows mark run_id w []" "projected apply_event projector [] (tw_projector w)"
    using m w assms(3) by (simp_all add: store_holds_def CommittedWatermark_fresh_def projected_def)
  from writer_run_holds [OF assms(1) this(1) assms(5,6) this(2)] obtain k where
    k: "k \<le> length commits" "res = Inr () \<longrightarrow> k = length commits"
      "store_prefix rows mark (tw_db w') (concat (map (\<lambda>c. eb_events (snd c)) (take k commits)))"
    and p: "res \<noteq> Inl PostCommitValidation \<longrightarrow>
      projected apply_event projector (concat (map (\<lambda>c. eb_events (snd c)) (take k commits))) (tw_projector w')" by auto
  let ?es = "concat (map (\<lambda>c. eb_events (snd c)) (take k commits))"
  from k(3) have r: "run_from 0 ?es" "rows (tw_db w') = event_row ` set ?es"
      "mark (tw_db w') = SortableU64Key_new (last_seq 0 ?es)" by (simp_all add: store_prefix_def)
  have "(\<lambda>r. be_value (er_sequence_key r)) ` rows (tw_db w') = {1..length ?es}"
    unfolding r(2) by (rule run_from_keys [OF r(1)])
  moreover have "be_value (mark (tw_db w')) = length ?es"
    using run_from_last [OF r(1)] by (simp add: r(3) be_value_key)
  ultimately show ?thesis using k(1,2) r(2) p by (intro exI [of _ k]) (simp only: Let_def simp_thms)
qed

text \<open>
  Finalisation happens once. A successful \<open>finalize_run\<close> leaves the events and the
  watermark as they were, returns that watermark, and marks the Run as shut down cleanly; every
  later attempt is refused without touching the store. The reading of the flag back from the
  database is the only assumption on \<open>tx_refresh\<close>.
\<close>

theorem finalized_once:
  assumes "sql_documented exec rows mark clean"
    and "\<forall>db k c. tx_refresh env db k = Some c \<longrightarrow> c = clean db"
    and "finalize_run_with_hook exec read_final env w ended_at outcome = (Inr k, w')"
  shows "rows (tw_db w') = rows (tw_db w) \<and> mark (tw_db w') = mark (tw_db w) \<and> k = mark (tw_db w) \<and>
    clean (tw_db w') \<and> \<not> clean (tw_db w) \<and>
    (\<forall>read_final2 env2 ended_at2 outcome2. \<exists>err.
       finalize_run_with_hook exec read_final2 env2 w' ended_at2 outcome2 = (Inl err, w') \<and>
       (ended_at2 \<noteq> [] \<longrightarrow> err = FinalStateConflict))"
proof -
  from assms(3) obtain db c where
      x: "exec (tw_db w) (SqlFinalize ended_at (FinalProductionOutcome_as_str outcome)
        (cw_value (tw_watermark w)) (SortableU64Key_canonical_decimal (cw_value (tw_watermark w)))) = Some (db, 1)"
    and r: "tx_refresh env db (cw_value (tw_watermark w)) = Some c"
    and w': "w' = w\<lparr> tw_db := db, tw_clean_shutdown := c \<rparr>" and k: "k = cw_value (tw_watermark w)"
    by (auto simp: finalize_run_with_hook_def Let_def split: if_splits option.splits)
  from sql_documentedD [OF assms(1) x] have s: "rows db = rows (tw_db w)" "mark db = mark (tw_db w)"
      "clean db" "\<not> clean (tw_db w)" "mark (tw_db w) = cw_value (tw_watermark w)" by simp_all
  from assms(2) r s have "tw_clean_shutdown w'" by (simp add: w')
  then have "\<exists>err. finalize_run_with_hook exec read_final2 env2 w' ended_at2 outcome2 = (Inl err, w') \<and>
       (ended_at2 \<noteq> [] \<longrightarrow> err = FinalStateConflict)" for read_final2 env2 ended_at2 outcome2
    by (simp add: finalize_run_with_hook_def)
  with s w' k show ?thesis by auto
qed

theorem finalized_once_witness:
  "\<exists>w'. finalize_run_with_hook sample_exec (\<lambda>_. Some (Some ''now'', Some ''completed'', 1)) (sample_env True)
      sample_writer ''now'' OutcomeCompleted = (Inr (SortableU64Key_new 0), w') \<and> sd_clean (tw_db w')"
proof -
  let ?f = "finalize_run_with_hook sample_exec (\<lambda>_. Some (Some ''now'', Some ''completed'', 1)) (sample_env True)
      sample_writer ''now'' OutcomeCompleted"
  have f: "?f = (Inr (SortableU64Key_new 0), snd ?f)"
    by (simp add: finalize_run_with_hook_def sample_writer_def sample_env_def CommittedWatermark_fresh_def Let_def)
  have refresh: "\<forall>db k c. tx_refresh (sample_env True) db k = Some c \<longrightarrow> c = sd_clean db"
    by (simp add: sample_env_def)
  have "sd_clean (tw_db (snd ?f))"
    using finalized_once [OF sample_exec_documented refresh f] by blast
  with f show ?thesis by blast
qed

end
