(* ===== verification/Progress.thy ===== *)
theory Progress
  imports Ingress
begin

section \<open>Supervision of the writer\<close>

text \<open>
  Models \<^verbatim>\<open>rust/crates/troupe-diagnostics-runtime/src/store/progress.rs\<close>: from samples of the
  committed sequence and of the number of uncommitted events the supervisor decides whether the
  writer is stalled, whether a shutdown drains in time, and which failure is reported. A
  \<^verbatim>\<open>Duration\<close> is a number of nanoseconds, with the saturation of its addition written out.

  Shown here: a reported stall is real and a real stall is reported, and at most one failure is
  ever reported.
\<close>

abbreviation DURATION_MAX :: nat where "DURATION_MAX \<equiv> (2 ^ 64 - 1) * 1000000000 + 999999999"

definition duration_saturating_add :: "nat \<Rightarrow> nat \<Rightarrow> nat" where
  "duration_saturating_add a b = min (a + b) DURATION_MAX"

record WriterDeadlines =
  wd_writer_stall_timeout :: nat
  wd_shutdown_drain_timeout :: nat

datatype DeadlineValidationError = WriterStallNotPositive | ShutdownDrainNotPositive

definition WriterDeadlines_new :: "nat \<Rightarrow> nat \<Rightarrow> DeadlineValidationError + WriterDeadlines" where
  "WriterDeadlines_new writer_stall_timeout shutdown_drain_timeout =
     (if writer_stall_timeout = 0 then Inl WriterStallNotPositive
      else if shutdown_drain_timeout = 0 then Inl ShutdownDrainNotPositive
      else Inr \<lparr> wd_writer_stall_timeout = writer_stall_timeout,
        wd_shutdown_drain_timeout = shutdown_drain_timeout \<rparr>)"

definition WriterDeadlines_default :: WriterDeadlines where
  "WriterDeadlines_default = \<lparr> wd_writer_stall_timeout = 10 * 1000000000,
     wd_shutdown_drain_timeout = 30 * 1000000000 \<rparr>"

record WriterProgressSample =
  ps_committed_sequence :: u64
  ps_accepted_tail_events :: usize

definition has_accepted_tail :: "WriterProgressSample \<Rightarrow> bool" where
  "has_accepted_tail s \<longleftrightarrow> ps_accepted_tail_events s > 0"

definition WriterProgressSample_from :: "IngressStatus \<Rightarrow> WriterProgressSample" where
  "WriterProgressSample_from status = \<lparr> ps_committed_sequence = ist_committed_sequence status,
     ps_accepted_tail_events = ist_accepted_uncommitted_events status \<rparr>"

datatype DrainTracker = NotStarted | Draining nat | Drained | TimedOut

datatype DrainState = DrainNotStarted | DrainDraining | DrainDrained | DrainTimedOut

datatype WriterFailureStage = StageProgress | StageTaskExit | StageCommit | StageFlush | StageStorage | StageDrain

datatype WriterFailureCode =
    ProgressStalled
  | UnexpectedExit
  | Panicked
  | CommitUnavailable
  | FlushUnavailable
  | StorageUnavailable
  | ShutdownDrainTimedOut

fun WriterFailureStage_as_str :: "WriterFailureStage \<Rightarrow> string" where
  "WriterFailureStage_as_str StageProgress = ''progress''"
| "WriterFailureStage_as_str StageTaskExit = ''task_exit''"
| "WriterFailureStage_as_str StageCommit = ''commit''"
| "WriterFailureStage_as_str StageFlush = ''flush''"
| "WriterFailureStage_as_str StageStorage = ''storage''"
| "WriterFailureStage_as_str StageDrain = ''drain''"

fun WriterFailureCode_as_str :: "WriterFailureCode \<Rightarrow> string" where
  "WriterFailureCode_as_str ProgressStalled = ''writer_progress_stalled''"
| "WriterFailureCode_as_str UnexpectedExit = ''writer_unexpected_exit''"
| "WriterFailureCode_as_str Panicked = ''writer_panicked''"
| "WriterFailureCode_as_str CommitUnavailable = ''writer_commit_unavailable''"
| "WriterFailureCode_as_str FlushUnavailable = ''writer_flush_unavailable''"
| "WriterFailureCode_as_str StorageUnavailable = ''writer_storage_unavailable''"
| "WriterFailureCode_as_str ShutdownDrainTimedOut = ''writer_shutdown_drain_timed_out''"

record WriterCoreFailure =
  wf_stage :: WriterFailureStage
  wf_code :: WriterFailureCode

datatype WriterTaskOutcome =
    Exited
  | OutcomePanicked
  | OutcomeCommitUnavailable
  | OutcomeFlushUnavailable
  | OutcomeStorageUnavailable

fun WriterTaskOutcome_failure :: "WriterTaskOutcome \<Rightarrow> WriterCoreFailure" where
  "WriterTaskOutcome_failure Exited = \<lparr> wf_stage = StageTaskExit, wf_code = UnexpectedExit \<rparr>"
| "WriterTaskOutcome_failure OutcomePanicked = \<lparr> wf_stage = StageTaskExit, wf_code = Panicked \<rparr>"
| "WriterTaskOutcome_failure OutcomeCommitUnavailable = \<lparr> wf_stage = StageCommit, wf_code = CommitUnavailable \<rparr>"
| "WriterTaskOutcome_failure OutcomeFlushUnavailable = \<lparr> wf_stage = StageFlush, wf_code = FlushUnavailable \<rparr>"
| "WriterTaskOutcome_failure OutcomeStorageUnavailable = \<lparr> wf_stage = StageStorage, wf_code = StorageUnavailable \<rparr>"

datatype ProgressObservationError = ClockWentBack | WatermarkRegressed u64 u64 | SampleUnavailable

datatype DueFailure = Stall | Drain

fun DueFailure_failure :: "DueFailure \<Rightarrow> WriterCoreFailure" where
  "DueFailure_failure Stall = \<lparr> wf_stage = StageProgress, wf_code = ProgressStalled \<rparr>"
| "DueFailure_failure Drain = \<lparr> wf_stage = StageDrain, wf_code = ShutdownDrainTimedOut \<rparr>"

fun DueFailure_precedence :: "DueFailure \<Rightarrow> nat" where
  "DueFailure_precedence Stall = 0"
| "DueFailure_precedence Drain = 1"

record WriterProgressSupervisor =
  sv_deadlines :: WriterDeadlines
  sv_sample :: WriterProgressSample
  sv_has_sample :: bool
  sv_last_observed_at :: "nat option"
  sv_stalled_since :: "nat option"
  sv_drain :: DrainTracker
  sv_failure :: "WriterCoreFailure option"

definition WriterProgressSupervisor_new :: "WriterDeadlines \<Rightarrow> WriterProgressSupervisor" where
  "WriterProgressSupervisor_new deadlines =
     \<lparr> sv_deadlines = deadlines,
       sv_sample = \<lparr> ps_committed_sequence = 0, ps_accepted_tail_events = 0 \<rparr>, sv_has_sample = False,
       sv_last_observed_at = None, sv_stalled_since = None, sv_drain = NotStarted, sv_failure = None \<rparr>"

definition clock_regressed :: "WriterProgressSupervisor \<Rightarrow> nat \<Rightarrow> bool" where
  "clock_regressed sv now \<longleftrightarrow> (case sv_last_observed_at sv of None \<Rightarrow> False | Some l \<Rightarrow> now < l)"

definition validate_observation ::
  "WriterProgressSupervisor \<Rightarrow> nat \<Rightarrow> WriterProgressSample \<Rightarrow> ProgressObservationError + unit" where
  "validate_observation sv now sample =
     (if clock_regressed sv now then Inl ClockWentBack
      else if sv_has_sample sv \<and> ps_committed_sequence sample < ps_committed_sequence (sv_sample sv)
      then Inl (WatermarkRegressed (ps_committed_sequence (sv_sample sv)) (ps_committed_sequence sample))
      else Inr ())"

text \<open>
  The deadlines that have passed, in the order of the array; \<^verbatim>\<open>min_by_key\<close> takes the first with
  the smallest key.
\<close>

definition due_candidates :: "WriterProgressSupervisor \<Rightarrow> (nat \<times> DueFailure) list" where
  "due_candidates sv =
     (case sv_stalled_since sv of
        None \<Rightarrow> []
      | Some since \<Rightarrow>
          [(duration_saturating_add since (wd_writer_stall_timeout (sv_deadlines sv)), Stall)]) @
     (case sv_drain sv of
        Draining started_at \<Rightarrow>
          [(duration_saturating_add started_at (wd_shutdown_drain_timeout (sv_deadlines sv)), Drain)]
      | _ \<Rightarrow> [])"

fun min_due :: "(nat \<times> DueFailure) list \<Rightarrow> (nat \<times> DueFailure) option" where
  "min_due [] = None"
| "min_due (x # xs) =
     (case min_due xs of
        None \<Rightarrow> Some x
      | Some y \<Rightarrow>
          if fst y < fst x \<or> fst y = fst x \<and> DueFailure_precedence (snd y) < DueFailure_precedence (snd x)
          then Some y else Some x)"

definition due_failure :: "WriterProgressSupervisor \<Rightarrow> nat \<Rightarrow> DueFailure option" where
  "due_failure sv now =
     map_option snd (min_due (filter (\<lambda>(deadline, _). now \<ge> deadline) (due_candidates sv)))"

definition sv_latch ::
  "WriterProgressSupervisor \<Rightarrow> WriterCoreFailure \<Rightarrow> WriterCoreFailure option \<times> WriterProgressSupervisor" where
  "sv_latch sv failure =
     (if sv_failure sv \<noteq> None then (None, sv) else (Some failure, sv\<lparr> sv_failure := Some failure \<rparr>))"

definition note_sample ::
  "WriterProgressSupervisor \<Rightarrow> nat \<Rightarrow> WriterProgressSample \<Rightarrow> WriterProgressSupervisor" where
  "note_sample sv now sample =
     (let watermark_advanced = (sv_has_sample sv \<and>
            ps_committed_sequence sample > ps_committed_sequence (sv_sample sv));
          tail_started = (has_accepted_tail sample \<and> \<not> has_accepted_tail (sv_sample sv))
      in sv\<lparr> sv_stalled_since :=
               (if \<not> has_accepted_tail sample then None
                else if \<not> sv_has_sample sv \<or> watermark_advanced \<or> tail_started then Some now
                else sv_stalled_since sv),
             sv_sample := sample, sv_has_sample := True, sv_last_observed_at := Some now \<rparr>)"

definition is_draining :: "DrainTracker \<Rightarrow> bool" where
  "is_draining d = (case d of Draining _ \<Rightarrow> True | _ \<Rightarrow> False)"

definition sv_observe ::
  "WriterProgressSupervisor \<Rightarrow> nat \<Rightarrow> WriterProgressSample \<Rightarrow>
   (ProgressObservationError + WriterCoreFailure option) \<times> WriterProgressSupervisor" where
  "sv_observe sv now sample =
     (case validate_observation sv now sample of
        Inl err \<Rightarrow> (Inl err, sv)
      | Inr _ \<Rightarrow>
          (let sv = note_sample sv now sample in
           if is_draining (sv_drain sv) \<and> \<not> has_accepted_tail sample
           then (Inr None, sv\<lparr> sv_drain := Drained \<rparr>)
           else
             (let due = due_failure sv now;
                  sv = (if due = Some Drain then sv\<lparr> sv_drain := TimedOut \<rparr> else sv)
              in case due of
                   None \<Rightarrow> (Inr None, sv)
                 | Some d \<Rightarrow> (let (f, sv) = sv_latch sv (DueFailure_failure d) in (Inr f, sv)))))"

fun drain_state :: "DrainTracker \<Rightarrow> DrainState" where
  "drain_state NotStarted = DrainNotStarted"
| "drain_state (Draining _) = DrainDraining"
| "drain_state Drained = DrainDrained"
| "drain_state TimedOut = DrainTimedOut"

definition begin_shutdown ::
  "WriterProgressSupervisor \<Rightarrow> nat \<Rightarrow> (ProgressObservationError + DrainState) \<times> WriterProgressSupervisor" where
  "begin_shutdown sv now =
     (if \<not> sv_has_sample sv then (Inl SampleUnavailable, sv)
      else if clock_regressed sv now then (Inl ClockWentBack, sv)
      else
        (let sv = (case sv_drain sv of
               NotStarted \<Rightarrow>
                 sv\<lparr> sv_drain := (if has_accepted_tail (sv_sample sv) then Draining now else Drained) \<rparr>
             | _ \<Rightarrow> sv)
         in (Inr (drain_state (sv_drain sv)), sv)))"

definition report_writer_outcome ::
  "WriterProgressSupervisor \<Rightarrow> nat \<Rightarrow> WriterProgressSample \<Rightarrow> WriterTaskOutcome \<Rightarrow>
   (ProgressObservationError + WriterCoreFailure option) \<times> WriterProgressSupervisor" where
  "report_writer_outcome sv now sample outcome =
     (case sv_observe sv now sample of
        (Inl err, sv) \<Rightarrow> (Inl err, sv)
      | (Inr (Some failure), sv) \<Rightarrow> (Inr (Some failure), sv)
      | (Inr None, sv) \<Rightarrow>
          if outcome = Exited \<and> sv_drain sv = Drained then (Inr None, sv)
          else (let (f, sv) = sv_latch sv (WriterTaskOutcome_failure outcome) in (Inr f, sv)))"

record WriterProgressStatus =
  wps_deadlines :: WriterDeadlines
  wps_committed_sequence :: u64
  wps_accepted_tail_events :: usize
  wps_stalled_for :: "nat option"
  wps_drain_state :: DrainState
  wps_failure :: "WriterCoreFailure option"

definition sv_status :: "WriterProgressSupervisor \<Rightarrow> WriterProgressStatus" where
  "sv_status sv =
     \<lparr> wps_deadlines = sv_deadlines sv,
       wps_committed_sequence = ps_committed_sequence (sv_sample sv),
       wps_accepted_tail_events = ps_accepted_tail_events (sv_sample sv),
       wps_stalled_for = (case (sv_last_observed_at sv, sv_stalled_since sv) of
          (Some now, Some since) \<Rightarrow> Some (saturating_sub now since) | _ \<Rightarrow> None),
       wps_drain_state = drain_state (sv_drain sv), wps_failure = sv_failure sv \<rparr>"

subsection \<open>Histories of the supervisor\<close>

datatype sv_op =
    Observe nat WriterProgressSample
  | BeginShutdown nat
  | ReportOutcome nat WriterProgressSample WriterTaskOutcome

text \<open>The failures reported, the samples taken in, oldest first, and the supervisor afterwards.\<close>

fun taken_in :: "'e + 'a \<Rightarrow> nat \<Rightarrow> WriterProgressSample \<Rightarrow> (nat \<times> WriterProgressSample) list" where
  "taken_in (Inr _) now sample = [(now, sample)]"
| "taken_in (Inl _) now sample = []"

fun reported :: "'e + 'f option \<Rightarrow> 'f list" where
  "reported (Inr (Some f)) = [f]"
| "reported _ = []"

fun sv_run ::
  "WriterProgressSupervisor \<Rightarrow> sv_op list \<Rightarrow>
   WriterCoreFailure list \<times> (nat \<times> WriterProgressSample) list \<times> WriterProgressSupervisor" where
  "sv_run sv [] = ([], [], sv)"
| "sv_run sv (Observe now sample # opers) =
     (let (res, sv) = sv_observe sv now sample; (fs, obs, sv) = sv_run sv opers
      in (reported res @ fs, taken_in res now sample @ obs, sv))"
| "sv_run sv (BeginShutdown now # opers) = sv_run (snd (begin_shutdown sv now)) opers"
| "sv_run sv (ReportOutcome now sample outcome # opers) =
     (let (res, sv) = report_writer_outcome sv now sample outcome; (fs, obs, sv) = sv_run sv opers
      in (reported res @ fs, taken_in res now sample @ obs, sv))"

text \<open>What the supervisor remembers of the samples.\<close>

fun stall_start :: "(nat \<times> WriterProgressSample) list \<Rightarrow> nat option" where
  "stall_start [] = None"
| "stall_start ((t, s) # older) =
     (if \<not> has_accepted_tail s then None
      else case older of
        [] \<Rightarrow> Some t
      | (t', s') # _ \<Rightarrow>
          if \<not> has_accepted_tail s' \<or> ps_committed_sequence s' < ps_committed_sequence s then Some t
          else stall_start older)"

definition sv_remembers :: "WriterProgressSupervisor \<Rightarrow> (nat \<times> WriterProgressSample) list \<Rightarrow> bool" where
  "sv_remembers sv obs \<longleftrightarrow>
     sorted_wrt (\<lambda>(t, s) (t', s'). t \<le> t' \<and> ps_committed_sequence s \<le> ps_committed_sequence s') obs \<and>
     sv_has_sample sv = (obs \<noteq> []) \<and>
     (obs \<noteq> [] \<longrightarrow> sv_sample sv = snd (last obs) \<and> sv_last_observed_at sv = Some (fst (last obs))) \<and>
     (obs = [] \<longrightarrow> sv_last_observed_at sv = None \<and> \<not> has_accepted_tail (sv_sample sv)) \<and>
     sv_stalled_since sv = stall_start (rev obs)"

lemma sv_remembers_cong:
  "sv_remembers sv obs \<Longrightarrow> sv_has_sample sv' = sv_has_sample sv \<Longrightarrow> sv_sample sv' = sv_sample sv \<Longrightarrow>
   sv_last_observed_at sv' = sv_last_observed_at sv \<Longrightarrow> sv_stalled_since sv' = sv_stalled_since sv \<Longrightarrow>
   sv_remembers sv' obs"
  by (simp add: sv_remembers_def)

lemma sorted_snoc_last:
  assumes "sorted_wrt P xs" "transp P" "xs \<noteq> [] \<Longrightarrow> P (last xs) x"
  shows "sorted_wrt P (xs @ [x])"
proof (cases xs rule: rev_cases)
  case Nil
  then show ?thesis by simp
next
  case (snoc ys y)
  with assms(1,3) have "\<forall>z \<in> set ys. P z y" "P y x" by (auto simp: sorted_wrt_append)
  with assms(2) have "\<forall>z \<in> set ys. P z x" by (meson transpD)
  with \<open>P y x\<close> assms(1) snoc show ?thesis by (auto simp: sorted_wrt_append)
qed

lemma note_sample_remembers:
  assumes r: "sv_remembers sv obs" and v: "validate_observation sv now sample = Inr ()"
  shows "sv_remembers (note_sample sv now sample) (obs @ [(now, sample)])"
proof -
  have ord: "fst (last obs) \<le> now \<and> ps_committed_sequence (snd (last obs)) \<le> ps_committed_sequence sample"
    if "obs \<noteq> []"
    using v r that by (auto simp: validate_observation_def clock_regressed_def sv_remembers_def not_less
        split: if_splits)
  have "sorted_wrt (\<lambda>(t, s) (t', s'). t \<le> t' \<and> ps_committed_sequence s \<le> ps_committed_sequence s')
      (obs @ [(now, sample)])"
    using r ord by (intro sorted_snoc_last) (auto simp: sv_remembers_def transp_def case_prod_beta')
  moreover have "sv_stalled_since (note_sample sv now sample) = stall_start (rev (obs @ [(now, sample)]))"
  proof (cases "obs = []")
    case True
    with r show ?thesis by (simp add: note_sample_def sv_remembers_def)
  next
    case False
    then obtain t' s' older where rv: "rev obs = (t', s') # older" by (cases "rev obs") auto
    then have l: "last obs = (t', s')" by (metis last_rev list.sel(1) rev_rev_ident hd_rev)
    with r False rv show ?thesis by (auto simp: note_sample_def sv_remembers_def Let_def)
  qed
  ultimately show ?thesis by (simp add: sv_remembers_def note_sample_def Let_def)
qed

lemma sv_latch_sel [simp]:
  "sv_remembers (snd (sv_latch sv f)) obs = sv_remembers sv obs"
  "sv_drain (snd (sv_latch sv f)) = sv_drain sv"
  "sv_deadlines (snd (sv_latch sv f)) = sv_deadlines sv"
  by (simp_all add: sv_latch_def sv_remembers_def)

lemma sv_drain_remembers [simp]: "sv_remembers (sv\<lparr> sv_drain := d \<rparr>) obs = sv_remembers sv obs"
  by (simp add: sv_remembers_def)

lemma begin_shutdown_remembers: "sv_remembers sv obs \<Longrightarrow> sv_remembers (snd (begin_shutdown sv now)) obs"
  by (auto simp: begin_shutdown_def Let_def split: DrainTracker.split)

lemma sv_latch_remembers: "sv_latch sv f = (g, sv') \<Longrightarrow> sv_remembers sv obs \<Longrightarrow> sv_remembers sv' obs"
  using sv_latch_sel(1) [of sv f obs] by simp

lemma observe_remembers:
  assumes "sv_remembers sv obs" "sv_observe sv now sample = (res, sv')"
  shows "sv_remembers sv' (obs @ taken_in res now sample)"
proof (cases "validate_observation sv now sample")
  case (Inl err)
  with assms show ?thesis by (auto simp: sv_observe_def)
next
  case (Inr u)
  then have n: "sv_remembers (note_sample sv now sample) (obs @ [(now, sample)])"
    using note_sample_remembers [OF assms(1)] by simp
  from assms(2) Inr n show ?thesis
    by (auto simp: sv_observe_def Let_def intro: sv_latch_remembers split: if_splits option.splits prod.splits)
qed

lemma report_remembers:
  assumes "sv_remembers sv obs" "report_writer_outcome sv now sample outcome = (res, sv')"
  shows "sv_remembers sv' (obs @ taken_in res now sample)"
proof -
  obtain r sv1 where o: "sv_observe sv now sample = (r, sv1)" by fastforce
  from observe_remembers [OF assms(1) o] o assms(2) show ?thesis
    by (auto simp: report_writer_outcome_def intro: sv_latch_remembers split: if_splits option.splits prod.splits sum.splits)
qed

lemma sv_run_remembers:
  "sv_remembers sv obs \<Longrightarrow> sv_run sv opers = (fs, obs', sv') \<Longrightarrow> sv_remembers sv' (obs @ obs')"
proof (induction sv opers arbitrary: obs fs obs' sv' rule: sv_run.induct)
  case (1 sv)
  then show ?case by simp
next
  case (2 sv now sample opers)
  obtain res sv1 where o: "sv_observe sv now sample = (res, sv1)" by fastforce
  obtain fs1 obs1 sv2 where r: "sv_run sv1 opers = (fs1, obs1, sv2)" by (cases "sv_run sv1 opers")
  from "2.IH" [OF o [symmetric] refl observe_remembers [OF "2.prems"(1) o] r] "2.prems"(2) o r
  show ?case by simp
next
  case (3 sv now opers)
  from "3.IH" [OF begin_shutdown_remembers [OF "3.prems"(1)]] "3.prems"(2) show ?case by simp
next
  case (4 sv now sample outcome opers)
  obtain res sv1 where o: "report_writer_outcome sv now sample outcome = (res, sv1)" by fastforce
  obtain fs1 obs1 sv2 where r: "sv_run sv1 opers = (fs1, obs1, sv2)" by (cases "sv_run sv1 opers")
  from "4.IH" [OF o [symmetric] refl report_remembers [OF "4.prems"(1) o] r] "4.prems"(2) o r
  show ?case by simp
qed

lemma sv_new_remembers: "sv_remembers (WriterProgressSupervisor_new dl) []"
  by (simp add: sv_remembers_def WriterProgressSupervisor_new_def has_accepted_tail_def)

text \<open>
  A stretch of samples without progress: all with uncommitted events and the committed sequence of
  the last one. The remembered start is that of the longest such stretch.
\<close>

definition no_progress :: "(nat \<times> WriterProgressSample) list \<Rightarrow> u64 \<Rightarrow> bool" where
  "no_progress suf c \<longleftrightarrow>
     suf \<noteq> [] \<and> (\<forall>(t, s) \<in> set suf. has_accepted_tail s \<and> ps_committed_sequence s = c)"

lemma single_stretch:
  assumes "has_accepted_tail s"
    and "\<forall>suf pre. (t, s) # older = suf @ pre \<longrightarrow> no_progress suf (ps_committed_sequence s) \<longrightarrow> suf = [(t, s)]"
  shows "(\<exists>suf pre. (t, s) # older = suf @ pre \<and> no_progress suf (ps_committed_sequence s) \<and> fst (last suf) = t) \<and>
    (\<forall>suf pre. (t, s) # older = suf @ pre \<longrightarrow> no_progress suf (ps_committed_sequence s) \<longrightarrow> t \<le> fst (last suf))"
proof (intro conjI allI impI)
  show "\<exists>suf pre. (t, s) # older = suf @ pre \<and> no_progress suf (ps_committed_sequence s) \<and> fst (last suf) = t"
    using assms(1) by (intro exI [of _ "[(t, s)]"] exI [of _ older]) (simp add: no_progress_def)
next
  fix suf pre
  assume "(t, s) # older = suf @ pre" "no_progress suf (ps_committed_sequence s)"
  with assms(2) have "suf = [(t, s)]" by blast
  then show "t \<le> fst (last suf)" by simp
qed

lemma stall_start_longest:
  assumes "sorted_wrt (\<lambda>(t, s) (t', s'). t' \<le> t \<and> ps_committed_sequence s' \<le> ps_committed_sequence s) robs"
    and "robs \<noteq> []"
  shows "case stall_start robs of
      None \<Rightarrow> \<not> has_accepted_tail (snd (hd robs))
    | Some t0 \<Rightarrow> (\<exists>suf pre. robs = suf @ pre \<and> no_progress suf (ps_committed_sequence (snd (hd robs))) \<and>
          fst (last suf) = t0) \<and>
        (\<forall>suf pre. robs = suf @ pre \<longrightarrow> no_progress suf (ps_committed_sequence (snd (hd robs))) \<longrightarrow>
          t0 \<le> fst (last suf))"
  using assms
proof (induction robs rule: stall_start.induct)
  case 1
  then show ?case by simp
next
  case (2 t s older)
  let ?c = "ps_committed_sequence s"
  show ?case
  proof (cases "has_accepted_tail s")
    case False
    then show ?thesis by simp
  next
    case tail: True
    show ?thesis
    proof (cases older)
      case Nil
      have "suf = [(t, s)]" if "(t, s) # older = suf @ pre" "no_progress suf ?c" for suf pre
        using that Nil by (cases suf) (auto simp: no_progress_def)
      then have "\<forall>suf pre. (t, s) # older = suf @ pre \<longrightarrow> no_progress suf ?c \<longrightarrow> suf = [(t, s)]" by blast
      note single = single_stretch [OF tail this]
      have "stall_start ((t, s) # older) = Some t" using tail Nil by simp
      with single show ?thesis unfolding list.sel snd_conv by simp
    next
      case (Cons p rest)
      obtain t' s' where p: "p = (t', s')" by (cases p)
      show ?thesis
      proof (cases "\<not> has_accepted_tail s' \<or> ps_committed_sequence s' < ?c")
        case True
        have "suf = [(t, s)]" if "(t, s) # older = suf @ pre" "no_progress suf ?c" for suf pre
        proof (cases suf)
          case Nil
          with that show ?thesis by (simp add: no_progress_def)
        next
          case sc: (Cons x suf')
          with that(1) have x: "x = (t, s)" "older = suf' @ pre" by auto
          show ?thesis
          proof (cases suf')
            case Nil
            with sc x show ?thesis by simp
          next
            case (Cons y suf'')
            with x \<open>older = p # rest\<close> p have "y = (t', s')" by simp
            with that(2) sc Cons True show ?thesis by (auto simp: no_progress_def)
          qed
        qed
        then have "\<forall>suf pre. (t, s) # older = suf @ pre \<longrightarrow> no_progress suf ?c \<longrightarrow> suf = [(t, s)]" by blast
      note single = single_stretch [OF tail this]
        have "stall_start ((t, s) # older) = Some t" using tail True Cons p by simp
        with single show ?thesis unfolding list.sel snd_conv by simp
      next
        case False
        then have s': "has_accepted_tail s'" "ps_committed_sequence s' = ?c"
          using "2.prems"(1) Cons p by auto
        have st: "stall_start ((t, s) # older) = stall_start older"
          using tail False Cons p by simp
        from "2.IH" [OF _ Cons p [symmetric] False] tail "2.prems"(1) Cons
        have IH: "case stall_start older of
            None \<Rightarrow> \<not> has_accepted_tail (snd (hd older))
          | Some t0 \<Rightarrow> (\<exists>suf pre. older = suf @ pre \<and> no_progress suf (ps_committed_sequence (snd (hd older))) \<and>
                fst (last suf) = t0) \<and>
              (\<forall>suf pre. older = suf @ pre \<longrightarrow> no_progress suf (ps_committed_sequence (snd (hd older))) \<longrightarrow>
                t0 \<le> fst (last suf))" by simp
        have hd: "hd older = (t', s')" using Cons p by simp
        obtain t0 where t0: "stall_start older = Some t0"
          using IH hd s' by (cases "stall_start older") auto
        from IH [unfolded t0 hd snd_conv s'(2) option.case] obtain suf pre where
          sp: "older = suf @ pre" "no_progress suf ?c" "fst (last suf) = t0"
          and all: "\<forall>suf pre. older = suf @ pre \<longrightarrow> no_progress suf ?c \<longrightarrow> t0 \<le> fst (last suf)" by blast
        have least: "\<And>suf pre. older = suf @ pre \<Longrightarrow> no_progress suf ?c \<Longrightarrow> t0 \<le> fst (last suf)"
          using all by blast
        have "\<exists>suf pre. (t, s) # older = suf @ pre \<and> no_progress suf ?c \<and> fst (last suf) = t0"
          using sp tail by (intro exI [of _ "(t, s) # suf"] exI [of _ pre]) (auto simp: no_progress_def)
        moreover have "t0 \<le> fst (last suf)" if q: "(t, s) # older = suf @ pre" "no_progress suf ?c" for suf pre
        proof (cases suf)
          case Nil
          with q show ?thesis by (simp add: no_progress_def)
        next
          case sc: (Cons x suf')
          with q have x: "x = (t, s)" "older = suf' @ pre" by auto
          show ?thesis
          proof (cases "suf' = []")
            case True
            have "last [(t', s')] \<in> set older" using Cons p by simp
            have "t0 \<le> t'" using least [of "[(t', s')]" rest] Cons p s' by (simp add: no_progress_def)
            also have "t' \<le> t" using "2.prems"(1) Cons p by simp
            finally show ?thesis using True sc x by simp
          next
            case False
            with q sc have "no_progress suf' ?c" by (auto simp: no_progress_def)
            from least [OF x(2) this] False sc show ?thesis by simp
          qed
        qed
        ultimately show ?thesis unfolding st t0 list.sel snd_conv option.case by blast
      qed
    qed
  qed
qed

text \<open>The same over the samples in the order in which they came.\<close>

lemma stall_since_iff:
  assumes r: "sv_remembers sv obs" and ne: "obs \<noteq> []" and c: "c = ps_committed_sequence (snd (last obs))"
  shows "(\<exists>since. sv_stalled_since sv = Some since \<and> duration_saturating_add since d \<le> now) \<longleftrightarrow>
    (\<exists>pre suf. obs = pre @ suf \<and> no_progress suf c \<and> duration_saturating_add (fst (hd suf)) d \<le> now)"
proof -
  have st: "sv_stalled_since sv = stall_start (rev obs)" using r by (simp add: sv_remembers_def)
  have so: "sorted_wrt (\<lambda>(t, s) (t', s'). t' \<le> t \<and> ps_committed_sequence s' \<le> ps_committed_sequence s) (rev obs)"
    using r by (simp add: sv_remembers_def sorted_wrt_rev case_prod_beta')
  have hd: "hd (rev obs) = last obs" by (simp add: hd_rev)
  note longest = stall_start_longest [OF so, unfolded hd, folded c]
  have np: "no_progress (rev suf) x = no_progress suf x" for suf x by (simp add: no_progress_def)
  have mono: "duration_saturating_add a d \<le> duration_saturating_add b d" if "a \<le> b" for a b
    using that by (simp add: duration_saturating_add_def)
  show ?thesis
  proof (cases "stall_start (rev obs)")
    case None
    with longest ne have nt: "\<not> has_accepted_tail (snd (last obs))" by simp
    have "\<not> no_progress suf c" if "obs = pre @ suf" for pre suf
    proof
      assume n: "no_progress suf c"
      with that have "last obs \<in> set suf" by (simp add: no_progress_def)
      with n nt show False by (auto simp: no_progress_def)
    qed
    with None st show ?thesis by auto
  next
    case (Some t0)
    with longest ne obtain suf pre where
      sp: "rev obs = suf @ pre" "no_progress suf c" "fst (last suf) = t0"
      and least: "\<forall>suf pre. rev obs = suf @ pre \<longrightarrow> no_progress suf c \<longrightarrow> t0 \<le> fst (last suf)" by auto
    show ?thesis
    proof
      assume "\<exists>since. sv_stalled_since sv = Some since \<and> duration_saturating_add since d \<le> now"
      moreover have "obs = rev pre @ rev suf" using sp(1) by (metis rev_append rev_rev_ident)
      ultimately show "\<exists>pre suf. obs = pre @ suf \<and> no_progress suf c \<and> duration_saturating_add (fst (hd suf)) d \<le> now"
        using sp Some st by (intro exI [of _ "rev pre"] exI [of _ "rev suf"]) (simp add: np hd_rev)
    next
      assume "\<exists>pre suf. obs = pre @ suf \<and> no_progress suf c \<and> duration_saturating_add (fst (hd suf)) d \<le> now"
      then obtain pre suf where q: "obs = pre @ suf" "no_progress suf c"
        "duration_saturating_add (fst (hd suf)) d \<le> now" by blast
      then have "rev obs = rev suf @ rev pre" by simp
      with least q(2) np have "t0 \<le> fst (last (rev suf))" by blast
      then have "t0 \<le> fst (hd suf)" using q(2) by (simp add: last_rev no_progress_def)
      with Some st show "\<exists>since. sv_stalled_since sv = Some since \<and> duration_saturating_add since d \<le> now"
        using order_trans [OF mono [OF \<open>t0 \<le> fst (hd suf)\<close>] q(3)] by simp
    qed
  qed
qed

subsection \<open>Which failure is due\<close>

lemma min_due_None: "min_due xs = None \<longleftrightarrow> xs = []"
  by (cases xs) (auto split: option.splits)

lemma due_failure_None: "due_failure sv now = None \<longleftrightarrow> (\<forall>(deadline, _) \<in> set (due_candidates sv). now < deadline)"
  by (auto simp: due_failure_def min_due_None filter_empty_conv not_le)

lemma due_failure_stall_only:
  assumes "\<not> is_draining (sv_drain sv)"
  shows "due_failure sv now = (if \<exists>since. sv_stalled_since sv = Some since \<and>
      duration_saturating_add since (wd_writer_stall_timeout (sv_deadlines sv)) \<le> now then Some Stall else None)"
  using assms by (auto simp: due_failure_def due_candidates_def is_draining_def
      split: option.splits DrainTracker.splits)

definition failure_of :: "WriterProgressSupervisor \<Rightarrow> WriterCoreFailure list" where
  "failure_of sv = (case sv_failure sv of None \<Rightarrow> [] | Some f \<Rightarrow> [f])"

lemma note_sample_failure [simp]:
  "sv_failure (note_sample sv now sample) = sv_failure sv" "sv_drain (note_sample sv now sample) = sv_drain sv"
  "sv_deadlines (note_sample sv now sample) = sv_deadlines sv"
  by (simp_all add: note_sample_def Let_def)

lemma latch_failure_of: "sv_latch sv f = (g, sv') \<Longrightarrow> failure_of sv' = failure_of sv @ reported (Inr g)"
  by (auto simp: sv_latch_def failure_of_def split: if_splits)

lemma failure_of_drain [simp]: "failure_of (sv\<lparr> sv_drain := d \<rparr>) = failure_of sv"
  by (simp add: failure_of_def)

lemma failure_of_note [simp]: "failure_of (note_sample sv now sample) = failure_of sv"
  by (simp add: failure_of_def)

lemma observe_failure_of:
  "sv_observe sv now sample = (res, sv') \<Longrightarrow> failure_of sv' = failure_of sv @ reported res"
  by (auto simp: sv_observe_def Let_def dest!: latch_failure_of
      split: sum.splits if_splits option.splits prod.splits)

lemma report_failure_of:
  assumes "report_writer_outcome sv now sample outcome = (res, sv')"
  shows "failure_of sv' = failure_of sv @ reported res"
proof -
  obtain r sv1 where o: "sv_observe sv now sample = (r, sv1)" by fastforce
  from observe_failure_of [OF o] o assms show ?thesis
    by (auto simp: report_writer_outcome_def dest!: latch_failure_of
        split: sum.splits if_splits option.splits prod.splits)
qed

lemma begin_failure_of: "failure_of (snd (begin_shutdown sv now)) = failure_of sv"
  by (auto simp: begin_shutdown_def Let_def split: DrainTracker.split)

lemma sv_run_failure_of: "sv_run sv opers = (fs, obs, sv') \<Longrightarrow> failure_of sv' = failure_of sv @ fs"
proof (induction sv opers arbitrary: fs obs sv' rule: sv_run.induct)
  case (2 sv now sample opers)
  obtain res sv1 where o: "sv_observe sv now sample = (res, sv1)" by fastforce
  obtain fs1 obs1 sv2 where r: "sv_run sv1 opers = (fs1, obs1, sv2)" by (cases "sv_run sv1 opers")
  from "2.IH" [OF o [symmetric] refl r] observe_failure_of [OF o] "2.prems" o r show ?case by simp
next
  case (3 sv now opers)
  with begin_failure_of show ?case by simp
next
  case (4 sv now sample outcome opers)
  obtain res sv1 where o: "report_writer_outcome sv now sample outcome = (res, sv1)" by fastforce
  obtain fs1 obs1 sv2 where r: "sv_run sv1 opers = (fs1, obs1, sv2)" by (cases "sv_run sv1 opers")
  from "4.IH" [OF o [symmetric] refl r] report_failure_of [OF o] "4.prems" o r show ?case by simp
qed simp

lemma observe_without_drain:
  assumes "sv_failure sv = None" "\<not> is_draining (sv_drain sv)" "sv_observe sv now sample = (Inr res, sv')"
  shows "res = (if \<exists>since. sv_stalled_since (note_sample sv now sample) = Some since \<and>
      duration_saturating_add since (wd_writer_stall_timeout (sv_deadlines sv)) \<le> now
    then Some \<lparr> wf_stage = StageProgress, wf_code = ProgressStalled \<rparr> else None)"
  (is "res = (if ?due then _ else _)")
proof (cases ?due)
  case True
  with assms(2) due_failure_stall_only [of "note_sample sv now sample" now]
  have "due_failure (note_sample sv now sample) now = Some Stall" by simp
  with assms True show ?thesis by (auto simp: sv_observe_def Let_def sv_latch_def split: sum.splits)
next
  case False
  with assms(2) due_failure_stall_only [of "note_sample sv now sample" now]
  have "due_failure (note_sample sv now sample) now = None" by simp
  with assms False show ?thesis by (auto simp: sv_observe_def Let_def split: sum.splits)
qed

lemma observe_deadlines: "sv_observe sv now sample = (res, sv') \<Longrightarrow> sv_deadlines sv' = sv_deadlines sv"
  by (auto simp: sv_observe_def Let_def sv_latch_def split: sum.splits if_splits option.splits)

lemma report_deadlines:
  assumes "report_writer_outcome sv now sample outcome = (res, sv')"
  shows "sv_deadlines sv' = sv_deadlines sv"
proof -
  obtain r sv1 where o: "sv_observe sv now sample = (r, sv1)" by fastforce
  from observe_deadlines [OF o] o assms show ?thesis
    by (auto simp: report_writer_outcome_def sv_latch_def split: sum.splits if_splits option.splits)
qed

lemma sv_run_deadlines: "sv_run sv opers = (fs, obs, sv') \<Longrightarrow> sv_deadlines sv' = sv_deadlines sv"
proof (induction sv opers arbitrary: fs obs sv' rule: sv_run.induct)
  case (2 sv now sample opers)
  obtain res sv1 where o: "sv_observe sv now sample = (res, sv1)" by fastforce
  obtain fs1 obs1 sv2 where r: "sv_run sv1 opers = (fs1, obs1, sv2)" by (cases "sv_run sv1 opers")
  from "2.IH" [OF o [symmetric] refl r] observe_deadlines [OF o] "2.prems" o r show ?case by simp
next
  case (3 sv now opers)
  then show ?case by (simp add: begin_shutdown_def Let_def split: if_splits DrainTracker.splits)
next
  case (4 sv now sample outcome opers)
  obtain res sv1 where o: "report_writer_outcome sv now sample outcome = (res, sv1)" by fastforce
  obtain fs1 obs1 sv2 where r: "sv_run sv1 opers = (fs1, obs1, sv2)" by (cases "sv_run sv1 opers")
  from "4.IH" [OF o [symmetric] refl r] report_deadlines [OF o] "4.prems" o r show ?case by simp
qed simp

subsection \<open>Properties\<close>

text \<open>
  C40. As long as no shutdown drains and no failure was reported, an observation that is taken in
  reports a stall exactly when the writer did stall: when the samples end in a stretch that all
  have uncommitted events and the same committed sequence, and that began at least the stall
  timeout before. There is no false alarm after progress, and no stall is missed.
\<close>

theorem stall_reported_exactly:
  assumes "sv_run (WriterProgressSupervisor_new deadlines) opers = (failures, obs, sv)"
    and "sv_failure sv = None" "\<not> is_draining (sv_drain sv)"
    and "sv_observe sv now sample = (Inr res, sv')"
  shows "res = (if \<exists>pre suf. obs @ [(now, sample)] = pre @ suf \<and>
        no_progress suf (ps_committed_sequence sample) \<and>
        duration_saturating_add (fst (hd suf)) (wd_writer_stall_timeout deadlines) \<le> now
      then Some \<lparr> wf_stage = StageProgress, wf_code = ProgressStalled \<rparr> else None)"
proof -
  from sv_run_remembers [OF sv_new_remembers assms(1)] have r: "sv_remembers sv obs" by simp
  from assms(4) have "validate_observation sv now sample = Inr ()"
    by (auto simp: sv_observe_def split: sum.splits)
  from note_sample_remembers [OF r this]
  have n: "sv_remembers (note_sample sv now sample) (obs @ [(now, sample)])" .
  have d: "sv_deadlines sv = deadlines"
    using sv_run_deadlines [OF assms(1)] by (simp add: WriterProgressSupervisor_new_def)
  have "(\<exists>since. sv_stalled_since (note_sample sv now sample) = Some since \<and>
      duration_saturating_add since (wd_writer_stall_timeout deadlines) \<le> now) \<longleftrightarrow>
    (\<exists>pre suf. obs @ [(now, sample)] = pre @ suf \<and> no_progress suf (ps_committed_sequence sample) \<and>
        duration_saturating_add (fst (hd suf)) (wd_writer_stall_timeout deadlines) \<le> now)"
    by (rule stall_since_iff [OF n]) simp_all
  with observe_without_drain [OF assms(2-4)] d show ?thesis by simp
qed

text \<open>Samples for the witness: two uncommitted events, nothing committed.\<close>

definition sample_progress :: WriterProgressSample where
  "sample_progress = \<lparr> ps_committed_sequence = 4, ps_accepted_tail_events = 2 \<rparr>"

definition sample_deadlines :: WriterDeadlines where
  "sample_deadlines = \<lparr> wd_writer_stall_timeout = 10, wd_shutdown_drain_timeout = 30 \<rparr>"

lemmas supervisor_compute = WriterProgressSupervisor_new_def sv_observe_def note_sample_def
  validate_observation_def clock_regressed_def due_failure_def due_candidates_def is_draining_def
  has_accepted_tail_def duration_saturating_add_def sv_latch_def begin_shutdown_def
  sample_progress_def sample_deadlines_def

theorem stall_reported_exactly_witness:
  "fst (sv_observe (snd (snd (sv_run (WriterProgressSupervisor_new sample_deadlines) [Observe 5 sample_progress])))
     15 sample_progress) = Inr (Some \<lparr> wf_stage = StageProgress, wf_code = ProgressStalled \<rparr>)"
  (is "fst (sv_observe ?sv 15 sample_progress) = _")
proof -
  have r: "sv_run (WriterProgressSupervisor_new sample_deadlines) [Observe 5 sample_progress]
      = ([], [(5, sample_progress)], ?sv)"
    by (simp add: supervisor_compute)
  have f: "sv_failure ?sv = None" "\<not> is_draining (sv_drain ?sv)" by (simp_all add: supervisor_compute)
  obtain res sv' where o: "sv_observe ?sv 15 sample_progress = (Inr res, sv')"
    by (simp add: supervisor_compute)
  have "\<exists>pre suf. [(5, sample_progress)] @ [(15, sample_progress)] = pre @ suf \<and>
      no_progress suf (ps_committed_sequence sample_progress) \<and>
      duration_saturating_add (fst (hd suf)) (wd_writer_stall_timeout sample_deadlines) \<le> 15"
    by (intro exI [of _ "[]"] exI [of _ "[(5, sample_progress), (15, sample_progress)]"])
       (simp add: no_progress_def supervisor_compute)
  with stall_reported_exactly [OF r f o] o show ?thesis by simp
qed

text \<open>
  Whatever it observes, whenever shutdown begins and however the writer ends, the supervisor
  reports at most one failure, the one it keeps in its status.
\<close>

theorem supervisor_reports_once:
  assumes "sv_run (WriterProgressSupervisor_new deadlines) opers = (failures, obs, sv)"
  shows "length failures \<le> 1 \<and>
    failures = (case wps_failure (sv_status sv) of None \<Rightarrow> [] | Some f \<Rightarrow> [f])"
  using sv_run_failure_of [OF assms]
  by (auto simp: failure_of_def WriterProgressSupervisor_new_def sv_status_def split: option.splits)

theorem supervisor_reports_once_witness:
  "\<exists>failures obs sv. sv_run (WriterProgressSupervisor_new sample_deadlines)
      [Observe 5 sample_progress, BeginShutdown 6, Observe 40 sample_progress, Observe 50 sample_progress,
       ReportOutcome 60 sample_progress OutcomePanicked] = (failures, obs, sv) \<and> length failures = 1"
proof -
  let ?opers = "[Observe 5 sample_progress, BeginShutdown 6, Observe 40 sample_progress, Observe 50 sample_progress,
       ReportOutcome 60 sample_progress OutcomePanicked]"
  obtain failures obs sv where r: "sv_run (WriterProgressSupervisor_new sample_deadlines) ?opers = (failures, obs, sv)"
    by (cases "sv_run (WriterProgressSupervisor_new sample_deadlines) ?opers")
  then have "failures \<noteq> []" by (auto simp: supervisor_compute report_writer_outcome_def)
  with supervisor_reports_once [OF r] r show ?thesis by (cases failures) auto
qed

end
