(* ===== verification/Runtime.thy ===== *)
theory Runtime
  imports Writer Progress
begin

section \<open>The diagnostic runtime\<close>

text \<open>
  Models the writer thread of \<^verbatim>\<open>rust/src/diagnostic_runtime/bootstrap.rs\<close> (\<^verbatim>\<open>run_writer\<close> and what
  it calls) together with the hub it serves: events are admitted by the hub into the ingress,
  taken from there by the thread, grouped by the accumulator, committed by the writer, and
  struck off in the ingress.

  The thread's loop is given by one definition per stage of its body, each with what it reads
  from its surroundings (clock, file system, database, commands) as arguments. In the system of
  this theory the stages run in any order, interleaved with admissions by the hub: every
  schedule of the real threads is among these. The handle on the ingress is shared, so there is
  one ingress, in the hub's reserver. An admission is one step. Messages meant for people are left
  out of the failures; the mutex around the published progress is not poisoned.
\<close>

record DiagnosticCoreFailure =
  dcf_component :: string
  dcf_stage :: string
  dcf_code :: string

definition DiagnosticCoreFailure_new :: "string \<Rightarrow> string \<Rightarrow> string \<Rightarrow> DiagnosticCoreFailure" where
  "DiagnosticCoreFailure_new component stage code =
     \<lparr> dcf_component = component, dcf_stage = stage, dcf_code = code \<rparr>"

fun WriterError_code :: "WriterError \<Rightarrow> string" where
  "WriterError_code (NonFreshStore _ _ _) = ''diagnostic_writer.non_fresh_store''"
| "WriterError_code (Watermark _) = ''diagnostic_writer.watermark''"
| "WriterError_code Projection = ''diagnostic_writer.projection''"
| "WriterError_code Serialization = ''diagnostic_writer.serialization''"
| "WriterError_code BeginTransaction = ''diagnostic_writer.begin_transaction''"
| "WriterError_code (StatementFailed _ _) = ''diagnostic_writer.statement''"
| "WriterError_code BeforeCommit = ''diagnostic_writer.before_commit''"
| "WriterError_code CommitFailed = ''diagnostic_writer.commit''"
| "WriterError_code PostCommitValidation = ''diagnostic_writer.post_commit_validation''"
| "WriterError_code InvalidFinalMetadata = ''diagnostic_writer.invalid_final_metadata''"
| "WriterError_code FinalStateConflict = ''diagnostic_writer.final_state_conflict''"
| "WriterError_code FinalMetadataRead = ''diagnostic_writer.final_metadata_read''"
| "WriterError_code FinalMetadataMismatch = ''diagnostic_writer.final_metadata_mismatch''"

definition DiagnosticCoreFailure_writer :: "WriterError \<Rightarrow> DiagnosticCoreFailure" where
  "DiagnosticCoreFailure_writer err = DiagnosticCoreFailure_new ''writer'' ''commit'' (WriterError_code err)"

definition DiagnosticCoreFailure_supervised :: "WriterCoreFailure \<Rightarrow> DiagnosticCoreFailure" where
  "DiagnosticCoreFailure_supervised f =
     DiagnosticCoreFailure_new ''writer'' (WriterFailureStage_as_str (wf_stage f)) (WriterFailureCode_as_str (wf_code f))"

fun quota_error_code :: "QuotaError \<Rightarrow> string" where
  "quota_error_code QuotaStatePoisoned = ''run_quota_state_poisoned''"
| "quota_error_code (QuotaSealed f) = QuotaFailureCode_as_str (qf_code f)"
| "quota_error_code (LimitReached f) = QuotaFailureCode_as_str (qf_code f)"
| "quota_error_code (MeasurementFailedError f) = QuotaFailureCode_as_str (qf_code f)"

definition quota_core_failure :: "QuotaFailure \<Rightarrow> DiagnosticCoreFailure" where
  "quota_core_failure f =
     DiagnosticCoreFailure_new ''quota'' ''measurement'' (QuotaFailureCode_as_str (qf_code f))"

fun IngressCoreFailure_code :: "IngressCoreFailureKind \<Rightarrow> string" where
  "IngressCoreFailure_code BudgetExhausted = ''mandatory_ingress_budget_exhausted''"
| "IngressCoreFailure_code CommitAccounting = ''mandatory_ingress_commit_accounting''"

datatype WriterDrainIntent = IntentFinalize string FinalProductionOutcome | IntentAbort

datatype WriterCommand = CommandFinalize string FinalProductionOutcome | CommandAbort | CommandClose

text \<open>
  The thread has ended with a failure or in order, or still runs. \<open>rt_final\<close> is the watermark
  that finalisation replied.
\<close>

record ('db, 'p, 'n) Runtime =
  rt_hub :: "(DurableAdmission, 'n) HubState"
  rt_accumulator :: BatchAccumulator
  rt_writer :: "('db, 'p) TransactionalWriter"
  rt_supervisor :: WriterProgressSupervisor
  rt_progress :: WriterProgressStatus
  rt_drain_intent :: "WriterDrainIntent option"
  rt_final :: "sortable_key option"
  rt_exit :: "(DiagnosticCoreFailure + unit) option"

abbreviation rt_ingress :: "('db, 'p, 'n) Runtime \<Rightarrow> IngressState" where
  "rt_ingress rt \<equiv> da_ingress (hs_reserver (rt_hub rt))"

abbreviation rt_quota :: "('db, 'p, 'n) Runtime \<Rightarrow> RunQuota" where
  "rt_quota rt \<equiv> da_quota (hs_reserver (rt_hub rt))"

definition set_ingress :: "('db, 'p, 'n) Runtime \<Rightarrow> IngressState \<Rightarrow> ('db, 'p, 'n) Runtime" where
  "set_ingress rt st = rt\<lparr> rt_hub := (rt_hub rt)\<lparr> hs_reserver := (hs_reserver (rt_hub rt))\<lparr> da_ingress := st \<rparr> \<rparr> \<rparr>"

definition set_quota :: "('db, 'p, 'n) Runtime \<Rightarrow> RunQuota \<Rightarrow> ('db, 'p, 'n) Runtime" where
  "set_quota rt q = rt\<lparr> rt_hub := (rt_hub rt)\<lparr> hs_reserver := (hs_reserver (rt_hub rt))\<lparr> da_quota := q \<rparr> \<rparr> \<rparr>"

text \<open>The clock and the file system at the two measurements around a commit.\<close>

record commit_env =
  ce_now_before :: nat
  ce_fsys_before :: fs_node
  ce_now_after :: nat
  ce_fsys_after :: fs_node

definition runtime_commit_batch ::
  "'db exec \<Rightarrow> ('p \<Rightarrow> DiagnosticEvent \<Rightarrow> 'p option) \<Rightarrow> ('p \<Rightarrow> EncodedMaterializedState option) \<Rightarrow>
   'db txn_env \<Rightarrow> commit_env \<Rightarrow> ('db, 'p, 'n) Runtime \<Rightarrow> TriggeredBatch \<Rightarrow>
   (DiagnosticCoreFailure + unit) \<times> ('db, 'p, 'n) Runtime" where
  "runtime_commit_batch exec apply_event encode_model env ce rt triggered =
     (let batch = tb_batch triggered in
      case quota_precheck (rt_quota rt) (ce_now_before ce) (ce_fsys_before ce)
             (conservative_growth (eb_canonical_bytes batch)) of
        (Inl err, q) \<Rightarrow>
          (Inl (DiagnosticCoreFailure_new ''quota'' ''precheck'' (quota_error_code err)), set_quota rt q)
      | (Inr _, q) \<Rightarrow>
          (let rt = set_quota rt q in
           case commit_batch_with_hook exec apply_event encode_model env (rt_writer rt) batch of
             (Inl err, w) \<Rightarrow> (Inl (DiagnosticCoreFailure_writer err), rt\<lparr> rt_writer := w \<rparr>)
           | (Inr notification, w) \<Rightarrow>
               (let rt = rt\<lparr> rt_writer := w \<rparr>;
                    rt = set_ingress rt (snd (mark_committed (rt_ingress rt) notification)) in
                case post_growth_measurement (rt_quota rt) (ce_now_after ce) (ce_fsys_after ce) of
                  (Inl err, q) \<Rightarrow>
                    (Inl (DiagnosticCoreFailure_new ''quota'' ''commit'' (quota_error_code err)), set_quota rt q)
                | (Inr _, q) \<Rightarrow> (Inr (), set_quota rt q))))"

text \<open>Stage: the failure channels of the ingress and of the quota.\<close>

definition writer_check_failures ::
  "('db, 'p, 'n) Runtime \<Rightarrow> (DiagnosticCoreFailure + unit) \<times> ('db, 'p, 'n) Runtime" where
  "writer_check_failures rt =
     (case IngressFailureReceiver_try_recv (rt_ingress rt) of
        (Some f, st) \<Rightarrow>
          (Inl (DiagnosticCoreFailure_new ''writer'' ''admission'' (IngressCoreFailure_code (icf_kind f))),
           set_ingress rt st)
      | (None, st) \<Rightarrow>
          (let rt = set_ingress rt st in
           case QuotaFailureReceiver_try_recv (rt_quota rt) of
             (Some f, q) \<Rightarrow> (Inl (quota_core_failure f), set_quota rt q)
           | (None, q) \<Rightarrow> (Inr (), set_quota rt q)))"

definition observe_progress ::
  "('db, 'p, 'n) Runtime \<Rightarrow> nat \<Rightarrow> (DiagnosticCoreFailure + IngressStatus) \<times> ('db, 'p, 'n) Runtime" where
  "observe_progress rt now =
     (if is_poisoned (rt_ingress rt)
      then (Inl (DiagnosticCoreFailure_new ''writer'' ''progress'' ''writer_progress_sample_unavailable''), rt)
      else
        (let status = IngressStatus_from_state (rt_ingress rt) in
         case sv_observe (rt_supervisor rt) now (WriterProgressSample_from status) of
           (Inl err, sv) \<Rightarrow>
             (Inl (DiagnosticCoreFailure_new ''writer'' ''progress'' ''writer_progress_observation_failed''),
              rt\<lparr> rt_supervisor := sv \<rparr>)
         | (Inr (Some failure), sv) \<Rightarrow>
             (Inl (DiagnosticCoreFailure_supervised failure), rt\<lparr> rt_supervisor := sv \<rparr>)
         | (Inr None, sv) \<Rightarrow>
             (Inr status, rt\<lparr> rt_supervisor := sv, rt_progress := sv_status sv \<rparr>)))"

text \<open>Stage: a command, or the loss of the command channel (\<open>None\<close>); looked at once.\<close>

fun command_intent :: "WriterCommand option \<Rightarrow> WriterDrainIntent" where
  "command_intent (Some (CommandFinalize ended_at outcome)) = IntentFinalize ended_at outcome"
| "command_intent (Some CommandAbort) = IntentAbort"
| "command_intent (Some CommandClose) = IntentAbort"
| "command_intent None = IntentAbort"

definition writer_receive_command ::
  "('db, 'p, 'n) Runtime \<Rightarrow> WriterCommand option \<Rightarrow> nat \<Rightarrow>
   (DiagnosticCoreFailure + unit) \<times> ('db, 'p, 'n) Runtime" where
  "writer_receive_command rt command now =
     (if rt_drain_intent rt \<noteq> None then (Inr (), rt)
      else
        (let rt = rt\<lparr> rt_drain_intent := Some (command_intent command) \<rparr> in
         case observe_progress rt now of
           (Inl f, rt) \<Rightarrow> (Inl f, rt)
         | (Inr _, rt) \<Rightarrow>
             (case begin_shutdown (rt_supervisor rt) now of
                (Inl err, sv) \<Rightarrow>
                  (Inl (DiagnosticCoreFailure_new ''writer'' ''drain'' ''writer_shutdown_begin_failed''),
                   rt\<lparr> rt_supervisor := sv \<rparr>)
              | (Inr _, sv) \<Rightarrow> (Inr (), rt\<lparr> rt_supervisor := sv, rt_progress := sv_status sv \<rparr>))))"

text \<open>Stage: one turn of the loop over the ingress; the answer tells whether there was an event.\<close>

definition writer_dequeue ::
  "'db exec \<Rightarrow> ('p \<Rightarrow> DiagnosticEvent \<Rightarrow> 'p option) \<Rightarrow> ('p \<Rightarrow> EncodedMaterializedState option) \<Rightarrow>
   'db txn_env \<Rightarrow> commit_env \<Rightarrow> ('db, 'p, 'n) Runtime \<Rightarrow> nat \<Rightarrow>
   (DiagnosticCoreFailure + bool) \<times> ('db, 'p, 'n) Runtime" where
  "writer_dequeue exec apply_event encode_model env ce rt now =
     (case try_dequeue (rt_ingress rt) of
        (Inl err, st) \<Rightarrow>
          (Inl (DiagnosticCoreFailure_new ''writer'' ''admission'' ''writer_ingress_unavailable''), set_ingress rt st)
      | (Inr None, st) \<Rightarrow> (Inr False, set_ingress rt st)
      | (Inr (Some event), st) \<Rightarrow>
          (let rt = set_ingress rt st in
           case BatchAccumulator_push (rt_accumulator rt) event now of
             (Inl err, acc) \<Rightarrow>
               (Inl (DiagnosticCoreFailure_new ''writer'' ''batch'' ''writer_batch_invalid''),
                rt\<lparr> rt_accumulator := acc \<rparr>)
           | (Inr None, acc) \<Rightarrow> (Inr True, rt\<lparr> rt_accumulator := acc \<rparr>)
           | (Inr (Some batch), acc) \<Rightarrow>
               (case runtime_commit_batch exec apply_event encode_model env ce
                       (rt\<lparr> rt_accumulator := acc \<rparr>) batch of
                  (Inl f, rt) \<Rightarrow> (Inl f, rt)
                | (Inr _, rt) \<Rightarrow> (Inr True, rt))))"

text \<open>Stage: flush when draining, otherwise poll.\<close>

definition writer_trigger ::
  "'db exec \<Rightarrow> ('p \<Rightarrow> DiagnosticEvent \<Rightarrow> 'p option) \<Rightarrow> ('p \<Rightarrow> EncodedMaterializedState option) \<Rightarrow>
   'db txn_env \<Rightarrow> commit_env \<Rightarrow> ('db, 'p, 'n) Runtime \<Rightarrow> nat \<Rightarrow>
   (DiagnosticCoreFailure + bool) \<times> ('db, 'p, 'n) Runtime" where
  "writer_trigger exec apply_event encode_model env ce rt now =
     (case (if rt_drain_intent rt \<noteq> None then BatchAccumulator_flush (rt_accumulator rt)
            else BatchAccumulator_poll (rt_accumulator rt) now) of
        (Inl err, acc) \<Rightarrow>
          (Inl (DiagnosticCoreFailure_new ''writer'' ''batch'' ''writer_batch_clock_failed''),
           rt\<lparr> rt_accumulator := acc \<rparr>)
      | (Inr None, acc) \<Rightarrow> (Inr False, rt\<lparr> rt_accumulator := acc \<rparr>)
      | (Inr (Some batch), acc) \<Rightarrow>
          (case runtime_commit_batch exec apply_event encode_model env ce
                  (rt\<lparr> rt_accumulator := acc \<rparr>) batch of
             (Inl f, rt) \<Rightarrow> (Inl f, rt)
           | (Inr _, rt) \<Rightarrow> (Inr True, rt)))"

text \<open>
  Stage: observe, and when drained, finalise or stop. \<open>fe_abandoned\<close> is the flag of an abandoned
  shutdown as read before finalisation, inside it, and after it failed; \<open>fe_closed\<close> says whether
  the writer is then closed without a second finalising command, and \<open>fe_checkpoint_error\<close> is the
  code of the error of the checkpoint, if it fails.
\<close>

record finish_env =
  fe_abandoned :: bool
  fe_abandoned_inside :: bool
  fe_abandoned_after :: bool
  fe_reply_received :: bool
  fe_closed :: bool
  fe_checkpoint_error :: "string option"

definition writer_shutdown_core_failure :: DiagnosticCoreFailure where
  "writer_shutdown_core_failure =
     DiagnosticCoreFailure_new ''writer'' ''drain'' ''writer_shutdown_drain_timed_out''"

definition checkpoint_and_close_writer ::
  "finish_env \<Rightarrow> commit_env \<Rightarrow> ('db, 'p, 'n) Runtime \<Rightarrow> (DiagnosticCoreFailure + unit) \<times> ('db, 'p, 'n) Runtime" where
  "checkpoint_and_close_writer fe ce rt =
     (case fe_checkpoint_error fe of
        Some code \<Rightarrow> (Inl (DiagnosticCoreFailure_new ''writer'' ''commit'' code), rt)
      | None \<Rightarrow>
          (case post_growth_measurement (rt_quota rt) (ce_now_after ce) (ce_fsys_after ce) of
             (Inl err, q) \<Rightarrow>
               (Inl (DiagnosticCoreFailure_new ''quota'' ''checkpoint'' (quota_error_code err)), set_quota rt q)
           | (Inr _, q) \<Rightarrow> (Inr (), set_quota rt q)))"

definition writer_finalize ::
  "'db exec \<Rightarrow> ('db \<Rightarrow> (string option \<times> string option \<times> int) option) \<Rightarrow> 'db txn_env \<Rightarrow> finish_env \<Rightarrow>
   commit_env \<Rightarrow> ('db, 'p, 'n) Runtime \<Rightarrow> string \<Rightarrow> FinalProductionOutcome \<Rightarrow>
   (DiagnosticCoreFailure + unit) \<times> ('db, 'p, 'n) Runtime" where
  "writer_finalize exec read_final env fe ce rt ended_at outcome =
     (if fe_abandoned fe then (Inl writer_shutdown_core_failure, rt)
      else case finalize_run_with_hook exec read_final
                  (env\<lparr> tx_before_commit := (\<lambda>_. \<not> fe_abandoned_inside fe), tx_after_statement := (\<lambda>_ _ _. True) \<rparr>)
                  (rt_writer rt) ended_at outcome of
        (Inl err, w) \<Rightarrow>
          (Inl (if fe_abandoned_after fe then writer_shutdown_core_failure else DiagnosticCoreFailure_writer err),
           rt\<lparr> rt_writer := w \<rparr>)
      | (Inr watermark, w) \<Rightarrow>
          (let rt = rt\<lparr> rt_writer := w \<rparr> in
           case post_growth_measurement (rt_quota rt) (ce_now_before ce) (ce_fsys_before ce) of
             (Inl err, q) \<Rightarrow>
               (Inl (DiagnosticCoreFailure_new ''quota'' ''finalize'' (quota_error_code err)), set_quota rt q)
           | (Inr _, q) \<Rightarrow>
               (let rt = set_quota rt q in
                if \<not> fe_reply_received fe
                then (Inl (DiagnosticCoreFailure_new ''writer'' ''finalize'' ''writer_finalize_reply_receiver_dropped''), rt)
                else
                  (let rt = rt\<lparr> rt_final := Some watermark \<rparr> in
                   if \<not> fe_closed fe
                   then (Inl (DiagnosticCoreFailure_new ''writer'' ''close'' ''writer_finalized_twice''), rt)
                   else (Inr (), rt)))))"

text \<open>The result of the stage: a failure, go on, or the end of the thread.\<close>

definition writer_finish ::
  "'db exec \<Rightarrow> ('db \<Rightarrow> (string option \<times> string option \<times> int) option) \<Rightarrow> 'db txn_env \<Rightarrow> finish_env \<Rightarrow>
   commit_env \<Rightarrow> ('db, 'p, 'n) Runtime \<Rightarrow> nat \<Rightarrow>
   (DiagnosticCoreFailure + bool) \<times> ('db, 'p, 'n) Runtime" where
  "writer_finish exec read_final env fe ce rt now =
     (case observe_progress rt now of
        (Inl f, rt) \<Rightarrow> (Inl f, rt)
      | (Inr status, rt) \<Rightarrow>
          if rt_drain_intent rt \<noteq> None \<and> ist_accepted_uncommitted_events status = 0 \<and>
             length (ba_pending (rt_accumulator rt)) = 0
          then
            (let rt' = rt\<lparr> rt_drain_intent := None \<rparr> in
             case rt_drain_intent rt of
               Some (IntentFinalize ended_at outcome) \<Rightarrow>
                 (case writer_finalize exec read_final env fe ce rt' ended_at outcome of
                    (Inl f, rt) \<Rightarrow> (Inl f, rt)
                  | (Inr _, rt) \<Rightarrow>
                      (case checkpoint_and_close_writer fe ce rt of
                         (Inl f, rt) \<Rightarrow> (Inl f, rt) | (Inr _, rt) \<Rightarrow> (Inr True, rt)))
             | _ \<Rightarrow>
                 (case checkpoint_and_close_writer fe ce rt' of
                    (Inl f, rt) \<Rightarrow> (Inl f, rt) | (Inr _, rt) \<Rightarrow> (Inr True, rt)))
          else (Inr False, rt))"

text \<open>A failure of the thread seals the ingress.\<close>

definition writer_failed :: "('db, 'p, 'n) Runtime \<Rightarrow> DiagnosticCoreFailure \<Rightarrow> ('db, 'p, 'n) Runtime" where
  "writer_failed rt f =
     (set_ingress rt (snd (seal_for_external_core_failure (rt_ingress rt))))\<lparr> rt_exit := Some (Inl f) \<rparr>"

subsection \<open>What the ingress holds for the writer\<close>

text \<open>
  The ingress after \<open>C\<close> was committed, with \<open>F\<close> in flight and \<open>Q\<close> queued, for the Run \<open>run_id\<close>.
\<close>

definition ingress_holds ::
  "canonical_uuid \<Rightarrow> AcceptedDiagnosticEvent list \<Rightarrow> AcceptedDiagnosticEvent list \<Rightarrow>
   AcceptedDiagnosticEvent list \<Rightarrow> IngressState \<Rightarrow> bool" where
  "ingress_holds run_id C F Q st \<longleftrightarrow>
     within_budget st \<and> \<not> is_poisoned st \<and>
     (\<exists>fs qs. is_outstanding st = fs @ qs \<and> map te_event fs = F \<and> map te_event qs = Q \<and>
        (\<forall>t \<in> set fs. te_phase t = InFlight) \<and> (\<forall>t \<in> set qs. te_phase t = Queued)) \<and>
     (\<forall>t \<in> set (is_outstanding st). te_canonical_bytes t = accepted_len (te_event t)) \<and>
     is_committed_sequence st = last_seq 0 C \<and>
     (is_run_id st = None \<or> is_run_id st = Some run_id) \<and>
     (\<forall>f. is_failure st = Some f \<longrightarrow> icf_kind f = BudgetExhausted)"

lemma ingress_holds_cong:
  "ingress_holds run_id C F Q st \<Longrightarrow> within_budget st' \<Longrightarrow> is_poisoned st' = is_poisoned st \<Longrightarrow>
   is_outstanding st' = is_outstanding st \<Longrightarrow> is_committed_sequence st' = is_committed_sequence st \<Longrightarrow>
   is_run_id st' = is_run_id st \<Longrightarrow>
   (\<And>f. is_failure st' = Some f \<Longrightarrow> is_failure st = Some f \<or> icf_kind f = BudgetExhausted) \<Longrightarrow>
   ingress_holds run_id C F Q st'"
  unfolding ingress_holds_def by auto

lemma ingress_holds_budget: "ingress_holds run_id C F Q st \<Longrightarrow> within_budget st"
  by (simp add: ingress_holds_def)

lemma ingress_holds_seal:
  "ingress_holds run_id C F Q st \<Longrightarrow> ingress_holds run_id C F Q (snd (seal_for_external_core_failure st))"
  by (rule ingress_holds_cong)
     (auto simp: ingress_holds_def seal_for_external_core_failure_def within_budget_def)

lemma ingress_holds_refused:
  assumes h: "ingress_holds run_id C F Q st" and r: "ingress_reserve st sz cls = (Inl err, st')"
  shows "ingress_holds run_id C F Q st'"
  using reserve_Inl [OF r]
proof
  assume "st' = st"
  with h show ?thesis by simp
next
  assume "cls \<noteq> Fatal \<and> (\<exists>f. st' = latch_failure st f \<and> err = BudgetExhaustedError f \<and> icf_kind f = BudgetExhausted)"
  then obtain f where f: "st' = latch_failure st f" "icf_kind f = BudgetExhausted" by blast
  show ?thesis unfolding f(1)
    by (rule ingress_holds_cong [OF h]) (use h f(2) in \<open>auto simp: ingress_holds_def split: option.splits\<close>)
qed

lemma ingress_holds_dropped:
  assumes h: "ingress_holds run_id C F Q st" and r: "ingress_reserve st sz cls = (Inr r, st1)"
  shows "ingress_holds run_id C F Q (reservation_drop st1 r)"
proof -
  note b = ingress_holds_budget [OF h]
  from mandatory.reserve_dropped [OF b r] have "within_budget (reservation_drop st1 r)" by simp
  with reserve_Inr [OF r b] show ?thesis by (intro ingress_holds_cong [OF h]) auto
qed

text \<open>A new event goes to the end of the queue, and the accounting of its commit is in order.\<close>

lemma expected_next_holds:
  assumes h: "ingress_holds run_id C F Q st" and run: "run_from 0 (C @ F @ Q)"
    and n: "unat (last_seq 0 (C @ F @ Q)) < 2 ^ 64 - 1"
  shows "expected_next st = last_seq 0 (C @ F @ Q) + 1"
proof (cases "F @ Q = []")
  case True
  with h show ?thesis by (simp add: expected_next_def ingress_holds_def)
next
  case False
  from h have m: "map te_event (is_outstanding st) = F @ Q" by (auto simp: ingress_holds_def)
  with False have ne: "is_outstanding st \<noteq> []" by auto
  have "te_event (last (is_outstanding st)) = last (F @ Q)" using m ne by (metis last_map)
  moreover have "last_seq 0 (C @ F @ Q) = accepted_seq (last (F @ Q))"
    using False by (auto simp: last_seq_def)
  ultimately show ?thesis using ne n
    by (simp add: expected_next_def saturating_add_u64_def)
qed

lemma ingress_holds_committed:
  assumes h: "ingress_holds run_id C F Q st" and run: "run_from 0 (C @ F @ Q)"
    and r: "ingress_reserve st (AdmissionSize_one_event (accepted_len a)) cls = (Inr r, st1)"
    and a: "accepted_run a = run_id" "accepted_seq a = last_seq 0 (C @ F @ Q) + 1"
      "unat (last_seq 0 (C @ F @ Q)) < 2 ^ 64 - 1"
  shows "ingress_holds run_id C F (Q @ [a]) (reservation_commit st1 r a)"
proof -
  note b = ingress_holds_budget [OF h]
  from reserve_Inr [OF r b] obtain p where rr: "r = \<lparr> ir_size = AdmissionSize_one_event (accepted_len a), ir_class = cls \<rparr>"
    and st1: "st1 = st\<lparr> is_cue_capture_paused := p,
        is_reserved_events := is_reserved_events st + 1,
        is_reserved_canonical_bytes := is_reserved_canonical_bytes st + accepted_len a,
        is_fatal_state := (if cls = Fatal then Reserved else is_fatal_state st) \<rparr>"
    by (auto simp: AdmissionSize_one_event_def)
  from mandatory.reserve_committed [OF b r] have wb: "within_budget (reservation_commit st1 r a)" by simp
  have "expected_next st1 = expected_next st" by (simp add: expected_next_def st1)
  then have ok: "commit_consistent st1 r a"
    using expected_next_holds [OF h run a(3)] a(1,2) h
    by (auto simp: commit_consistent_def rr AdmissionSize_one_event_def st1 ingress_holds_def)
  from h obtain fs qs where q: "is_outstanding st = fs @ qs" "map te_event fs = F" "map te_event qs = Q"
      "\<forall>t \<in> set fs. te_phase t = InFlight" "\<forall>t \<in> set qs. te_phase t = Queued" by (auto simp: ingress_holds_def)
  let ?t = "\<lparr> te_event = a, te_canonical_bytes = accepted_len a, te_phase = Queued \<rparr>"
  have out: "is_outstanding (reservation_commit st1 r a) = fs @ (qs @ [?t])"
    by (simp add: st1 q(1) rr AdmissionSize_one_event_def)
  have "\<exists>fs qs. is_outstanding (reservation_commit st1 r a) = fs @ qs \<and> map te_event fs = F \<and>
      map te_event qs = Q @ [a] \<and> (\<forall>t \<in> set fs. te_phase t = InFlight) \<and> (\<forall>t \<in> set qs. te_phase t = Queued)"
    unfolding out by (rule exI [of _ fs], rule exI [of _ "qs @ [?t]"]) (use q in simp)
  moreover have "\<forall>t \<in> set (is_outstanding (reservation_commit st1 r a)). te_canonical_bytes t = accepted_len (te_event t)"
    unfolding out using h q(1) by (auto simp: ingress_holds_def)
  moreover have "is_failure (reservation_commit st1 r a) = is_failure st"
    using ok by (simp add: reservation_commit_failure st1)
  ultimately show ?thesis using wb h a(1)
    by (auto simp: ingress_holds_def st1 split: option.splits)
qed

lemma ingress_holds_dequeue:
  assumes h: "ingress_holds run_id C F Q st" and d: "try_dequeue st = (res, st')"
  shows "(Q = [] \<and> res = Inr None \<and> st' = st) \<or>
    (\<exists>a Q'. Q = a # Q' \<and> res = Inr (Some a) \<and> ingress_holds run_id C (F @ [a]) Q' st')"
proof -
  from h obtain fs qs where q: "is_outstanding st = fs @ qs" "map te_event fs = F" "map te_event qs = Q"
      "\<forall>t \<in> set fs. te_phase t = InFlight" "\<forall>t \<in> set qs. te_phase t = Queued" by (auto simp: ingress_holds_def)
  have skip: "dequeue_first (fs @ ts) = map_option (\<lambda>(e, ts'). (e, fs @ ts')) (dequeue_first ts)" for ts
    using q(4) by (induction fs) (auto simp: option.map_comp comp_def case_prod_beta' option.map_ident)
  show ?thesis
  proof (cases qs)
    case Nil
    with skip [of "[]"] q d h show ?thesis by (simp add: try_dequeue_def ingress_holds_def)
  next
    case (Cons t ts)
    let ?t = "t\<lparr> te_phase := InFlight \<rparr>"
    have "dequeue_first (is_outstanding st) = Some (te_event t, fs @ ?t # ts)"
      using skip [of "t # ts"] q Cons by simp
    with d h have res: "res = Inr (Some (te_event t))" and st': "st' = st\<lparr> is_outstanding := fs @ ?t # ts \<rparr>"
      by (auto simp: try_dequeue_def ingress_holds_def)
    have wb: "within_budget st'"
      using h by (intro within_budget_cong [OF ingress_holds_budget [OF h]]) (simp_all add: st' q(1) Cons)
    have "\<exists>fs qs. is_outstanding st' = fs @ qs \<and> map te_event fs = F @ [te_event t] \<and> map te_event qs = map te_event ts \<and>
      (\<forall>t \<in> set fs. te_phase t = InFlight) \<and> (\<forall>t \<in> set qs. te_phase t = Queued)"
      by (rule exI [of _ "fs @ [?t]"], rule exI [of _ ts]) (use q Cons in \<open>simp add: st'\<close>)
    moreover have "\<forall>u \<in> set (is_outstanding st'). te_canonical_bytes u = accepted_len (te_event u)"
      using h by (auto simp: st' q(1) Cons ingress_holds_def)
    ultimately have "ingress_holds run_id C (F @ [te_event t]) (map te_event ts) st'"
      using h wb by (simp add: ingress_holds_def st')
    with q(3) Cons res show ?thesis by auto
  qed
qed

end
