(* ===== verification/Pipeline.thy ===== *)
theory Pipeline
  imports Runtime
begin

section \<open>From admission to the archive\<close>

text \<open>
  The composition of the hub, the durable admission, the ingress, the accumulator, the writer
  and the supervisor: a system in which producers admit events while the writer thread runs its
  stages. Its invariant splits the admitted events into those committed, those in flight (held
  by the accumulator) and those queued.
\<close>

record ('db, 'p, 'n) pipeline =
  pl_runtime :: "('db, 'p, 'n) Runtime"
  pl_admitted :: "AcceptedDiagnosticEvent list"

abbreviation pl_db :: "('db, 'p, 'n) pipeline \<Rightarrow> 'db" where
  "pl_db s \<equiv> tw_db (rt_writer (pl_runtime s))"

text \<open>What becomes of the thread after a stage.\<close>

fun stage_end :: "(DiagnosticCoreFailure + 'a) \<times> ('db, 'p, 'n) Runtime \<Rightarrow> ('db, 'p, 'n) Runtime" where
  "stage_end (Inl f, rt) = writer_failed rt f"
| "stage_end (Inr _, rt) = rt"

fun finish_end :: "(DiagnosticCoreFailure + bool) \<times> ('db, 'p, 'n) Runtime \<Rightarrow> ('db, 'p, 'n) Runtime" where
  "finish_end (Inl f, rt) = writer_failed rt f"
| "finish_end (Inr stop, rt) = (if stop then rt\<lparr> rt_exit := Some (Inr ()) \<rparr> else rt)"

inductive pipeline_step ::
  "'db exec \<Rightarrow> ('p \<Rightarrow> DiagnosticEvent \<Rightarrow> 'p option) \<Rightarrow> ('p \<Rightarrow> EncodedMaterializedState option) \<Rightarrow>
   ('db \<Rightarrow> (string option \<times> string option \<times> int) option) \<Rightarrow> (DiagnosticEvent \<Rightarrow> bytes option) \<Rightarrow>
   ('n \<Rightarrow> AcceptedDiagnosticEvent \<Rightarrow> (delivery_failure + unit) \<times> 'n) \<Rightarrow>
   ('s \<Rightarrow> AcceptedDiagnosticEvent \<Rightarrow> (delivery_failure + unit) \<times> 's) \<Rightarrow>
   ('db, 'p, 'n) pipeline \<Rightarrow> ('db, 'p, 'n) pipeline \<Rightarrow> bool"
  for exec apply_event encode_model read_final encode notify deliver where
  admit: "admit_inner (\<lambda>r sz. durable_reserve r sz q) durable_commit durable_drop encode notify deliver
      (rt_hub (pl_runtime s)) candidate subscriber = (res, hub', subscriber') \<Longrightarrow>
    pipeline_step exec apply_event encode_model read_final encode notify deliver s
      (s\<lparr> pl_runtime := (pl_runtime s)\<lparr> rt_hub := hub' \<rparr>,
         pl_admitted := pl_admitted s @ (case res of Inr receipt \<Rightarrow> [ar_accepted receipt] | Inl _ \<Rightarrow> []) \<rparr>)"
| begin_cue: "pipeline_step exec apply_event encode_model read_final encode notify deliver s
    (s\<lparr> pl_runtime := set_ingress (pl_runtime s) (snd (begin_cue_capture (rt_ingress (pl_runtime s)))) \<rparr>)"
| finish_cue: "pipeline_step exec apply_event encode_model read_final encode notify deliver s
    (s\<lparr> pl_runtime := set_ingress (pl_runtime s) (snd (finish_cue_capture (rt_ingress (pl_runtime s)))) \<rparr>)"
| seal: "pipeline_step exec apply_event encode_model read_final encode notify deliver s
    (s\<lparr> pl_runtime := set_ingress (pl_runtime s) (snd (seal_normal_ingress (rt_ingress (pl_runtime s)))) \<rparr>)"
| seal_external: "pipeline_step exec apply_event encode_model read_final encode notify deliver s
    (s\<lparr> pl_runtime := set_ingress (pl_runtime s) (snd (seal_for_external_core_failure (rt_ingress (pl_runtime s)))) \<rparr>)"
| check_failures: "rt_exit (pl_runtime s) = None \<Longrightarrow>
    pipeline_step exec apply_event encode_model read_final encode notify deliver s
      (s\<lparr> pl_runtime := stage_end (writer_check_failures (pl_runtime s)) \<rparr>)"
| receive: "rt_exit (pl_runtime s) = None \<Longrightarrow>
    pipeline_step exec apply_event encode_model read_final encode notify deliver s
      (s\<lparr> pl_runtime := stage_end (writer_receive_command (pl_runtime s) command now) \<rparr>)"
| dequeue: "rt_exit (pl_runtime s) = None \<Longrightarrow>
    pipeline_step exec apply_event encode_model read_final encode notify deliver s
      (s\<lparr> pl_runtime :=
           stage_end (writer_dequeue exec apply_event encode_model env ce (pl_runtime s) now) \<rparr>)"
| trigger: "rt_exit (pl_runtime s) = None \<Longrightarrow>
    pipeline_step exec apply_event encode_model read_final encode notify deliver s
      (s\<lparr> pl_runtime :=
           stage_end (writer_trigger exec apply_event encode_model env ce (pl_runtime s) now) \<rparr>)"
| finish: "rt_exit (pl_runtime s) = None \<Longrightarrow>
    pipeline_step exec apply_event encode_model read_final encode notify deliver s
      (s\<lparr> pl_runtime :=
           finish_end (writer_finish exec read_final env fe ce (pl_runtime s) now) \<rparr>)"

text \<open>The thread starts on a fresh hub and writer of one Run.\<close>

definition pipeline_init ::
  "canonical_uuid \<Rightarrow> RunQuota \<Rightarrow> ('db, 'p) TransactionalWriter \<Rightarrow> WriterProgressSupervisor \<Rightarrow> 'n option \<Rightarrow>
   ('db, 'p, 'n) pipeline" where
  "pipeline_init run_id quota w supervisor live =
     \<lparr> pl_runtime = \<lparr> rt_hub = DiagnosticHub_new run_id \<lparr> da_ingress = IngressState_default, da_quota = quota \<rparr> live,
         rt_accumulator = BatchAccumulator_new, rt_writer = w, rt_supervisor = supervisor,
         rt_progress = sv_status supervisor, rt_drain_intent = None, rt_final = None, rt_exit = None \<rparr>,
       pl_admitted = [] \<rparr>"

subsection \<open>The accumulator between ingress and writer\<close>

definition acc_holds ::
  "canonical_uuid \<Rightarrow> AcceptedDiagnosticEvent list \<Rightarrow> AcceptedDiagnosticEvent list \<Rightarrow> BatchAccumulator \<Rightarrow> bool" where
  "acc_holds run_id C F acc \<longleftrightarrow> acc_inv acc \<and> ba_pending acc = F \<and>
     (C @ F \<noteq> [] \<longrightarrow> ba_last_sequence acc = Some (last_seq 0 (C @ F)) \<and> ba_run_id acc = Some run_id) \<and>
     (C @ F = [] \<longrightarrow> ba_last_sequence acc = None \<and> ba_run_id acc = None)"

lemma push_Inr:
  assumes "BatchAccumulator_push acc e now = (Inr res, acc')"
  shows "ba_last_sequence acc' = Some (accepted_seq e) \<and> ba_run_id acc' = Some (accepted_run e) \<and>
    (res \<noteq> None \<longrightarrow> ba_pending acc' = [])"
  using assms by (auto simp: BatchAccumulator_push_def take_batch_def Let_def split: sum.splits option.splits)

lemma acc_holds_push:
  assumes h: "acc_holds run_id C F acc" and p: "BatchAccumulator_push acc a now = (Inr res, acc')"
    and a: "accepted_run a = run_id"
  shows "case res of None \<Rightarrow> acc_holds run_id C (F @ [a]) acc'
    | Some t \<Rightarrow> acc_holds run_id (C @ F @ [a]) [] acc' \<and> eb_events (tb_batch t) = F @ [a] \<and>
        EventBatch_new (eb_events (tb_batch t)) = Inr (tb_batch t)"
proof -
  from h have i: "acc_inv acc" "ba_pending acc = F" by (simp_all add: acc_holds_def)
  from push_ok [OF i(1) p] push_Inr [OF p] i(2) a show ?thesis
    by (cases res) (auto simp: acc_holds_def last_seq_def batch_emittable_def)
qed

lemma acc_holds_trigger:
  assumes h: "acc_holds run_id C F acc"
    and p: "(if drain then BatchAccumulator_flush acc else BatchAccumulator_poll acc now) = (Inr res, acc')"
  shows "case res of None \<Rightarrow> acc_holds run_id C F acc' \<and> (drain \<longrightarrow> F = [])
    | Some t \<Rightarrow> acc_holds run_id (C @ F) [] acc' \<and> eb_events (tb_batch t) = F \<and>
        EventBatch_new (eb_events (tb_batch t)) = Inr (tb_batch t)"
proof -
  from h have i: "acc_inv acc" "ba_pending acc = F" by (simp_all add: acc_holds_def)
  have p': "acc_do acc (if drain then Flush else Poll now) = (Inr res, acc')" using p by (cases drain) simp_all
  have keep: "ba_last_sequence acc' = ba_last_sequence acc" "ba_run_id acc' = ba_run_id acc"
      "res \<noteq> None \<longrightarrow> ba_pending acc' = []" "drain \<and> res = None \<longrightarrow> F = []"
    using p i(2) by (auto simp: BatchAccumulator_flush_def BatchAccumulator_poll_def take_batch_def observe_time_def
        Let_def split: if_splits sum.splits)
  from acc_do_ok [OF i(1) p'] keep h i(2) show ?thesis
    by (cases res) (auto simp: acc_holds_def batch_emittable_def split: if_splits)
qed

subsection \<open>A commit strikes off exactly what is in flight\<close>

abbreviation commit_notice ::
  "canonical_uuid \<Rightarrow> AcceptedDiagnosticEvent list \<Rightarrow> AcceptedDiagnosticEvent list \<Rightarrow> CommitNotification" where
  "commit_notice run_id C F \<equiv>
     \<lparr> cn_run_id = run_id, cn_previous = SortableU64Key_new (last_seq 0 C),
       cn_committed = SortableU64Key_new (last_seq 0 (C @ F)),
       cn_event_count = length F, cn_canonical_bytes = batch_bytes F \<rparr>"

lemma ingress_holds_mark:
  assumes h: "ingress_holds run_id C F Q st" and run: "run_from 0 (C @ F)"
  shows "fst (mark_committed st (commit_notice run_id C F)) = Inr () \<and>
    ingress_holds run_id (C @ F) [] Q (snd (mark_committed st (commit_notice run_id C F)))"
proof -
  let ?n = "commit_notice run_id C F"
  note b = ingress_holds_budget [OF h]
  from h obtain fs qs where q: "is_outstanding st = fs @ qs" "map te_event fs = F" "map te_event qs = Q"
      "\<forall>t \<in> set fs. te_phase t = InFlight" "\<forall>t \<in> set qs. te_phase t = Queued"
      "\<forall>t \<in> set (is_outstanding st). te_canonical_bytes t = accepted_len (te_event t)"
      "is_committed_sequence st = last_seq 0 C" "is_run_id st = None \<or> is_run_id st = Some run_id"
      "\<not> is_poisoned st"
    unfolding ingress_holds_def by blast
  from q(2) have len: "length fs = length F" by (metis length_map)
  have bytes: "sum_list (map te_canonical_bytes fs) = batch_bytes F"
    unfolding batch_bytes_def q(2) [symmetric] map_map comp_def
    by (rule arg_cong [where f = sum_list], rule map_cong) (use q(1,6) in auto)
  have small: "length (is_outstanding st) < 2 ^ 64" "sum_list (map te_canonical_bytes fs) \<le> usize_max"
    using b q(1) by (auto simp: within_budget_def)
  have "validate_commit st ?n = Inr ()"
    unfolding validate_commit_iff [OF small(1)]
    using q run len bytes small(2) run_from_last [of 0 "C @ F"] run_from_last [of 0 C] by simp
  then have m: "mark_committed st ?n = (Inr (), st\<lparr> is_outstanding := qs,
      is_outstanding_canonical_bytes := wrapping_sub (is_outstanding_canonical_bytes st)
        (sum_list (map te_canonical_bytes fs)), is_committed_sequence := last_seq 0 (C @ F) \<rparr>)"
    using q(1,9) len by (simp add: mark_committed_def Let_def)
  have "within_budget (snd (mark_committed st ?n))"
    unfolding m using within_budget_drop [OF b, where k = "length F"] q(1) len by simp
  with h q show ?thesis unfolding m ingress_holds_def by auto
qed

text \<open>A commit that fails leaves a prefix all the same.\<close>

lemma commit_failed_prefix:
  assumes doc: "sql_documented exec rows mark clean" and h: "store_holds rows mark run_id w C"
    and b: "EventBatch_new (eb_events b) = Inr b"
    and c: "commit_batch_with_hook exec apply_event encode_model env w b = (Inl err, w')"
  shows "\<exists>P R. C @ eb_events b @ Q = P @ R \<and> store_prefix rows mark (tw_db w') P"
proof (cases "err = PostCommitValidation")
  case False
  with commit_batch_cases [OF doc c] have "w' = w" by auto
  with h have "store_prefix rows mark (tw_db w') C" by (simp add: store_holds_def store_prefix_def)
  then show ?thesis by blast
next
  case True
  with commit_batch_cases [OF doc c] obtain n where
    n: "CommittedWatermark_candidate (tw_watermark w) b = Inr n"
      "rows (tw_db w') = rows (tw_db w) \<union> event_row ` set (eb_events b)" "mark (tw_db w') = cn_committed n" by auto
  from h have h1: "run_from 0 C"
    and h2: "tw_watermark w = \<lparr> cw_run_id = run_id, cw_value = SortableU64Key_new (last_seq 0 C) \<rparr>"
    by (simp_all add: store_holds_def)
  from candidate_holds [OF h1 h2 b n(1)] n(2,3) h have "store_prefix rows mark (tw_db w') (C @ eb_events b)"
    by (auto simp: store_prefix_def store_holds_def simp del: last_seq_append)
  then show ?thesis by (metis append_assoc)
qed

subsection \<open>The invariant\<close>

text \<open>
  \<open>pipeline_serving\<close>: the thread runs, with \<open>C\<close> committed, \<open>F\<close> in flight and \<open>Q\<close> queued.
  \<open>pipeline_safe\<close>: what holds of the admitted events \<open>A\<close> even after the thread has ended.
\<close>

definition pipeline_serving ::
  "('db \<Rightarrow> EventRow set) \<Rightarrow> ('db \<Rightarrow> sortable_key) \<Rightarrow> (DiagnosticEvent \<Rightarrow> bytes option) \<Rightarrow> canonical_uuid \<Rightarrow>
   AcceptedDiagnosticEvent list \<Rightarrow> AcceptedDiagnosticEvent list \<Rightarrow> AcceptedDiagnosticEvent list \<Rightarrow>
   ('db, 'p, 'n) Runtime \<Rightarrow> bool" where
  "pipeline_serving rows mark encode run_id C F Q rt \<longleftrightarrow>
     hub_tracks encode (rt_hub rt) (C @ F @ Q) \<and> hs_run_id (rt_hub rt) = run_id \<and>
     ingress_holds run_id C F Q (rt_ingress rt) \<and> store_holds rows mark run_id (rt_writer rt) C \<and>
     acc_holds run_id C F (rt_accumulator rt)"

definition pipeline_safe ::
  "('db \<Rightarrow> EventRow set) \<Rightarrow> ('db \<Rightarrow> sortable_key) \<Rightarrow> (DiagnosticEvent \<Rightarrow> bytes option) \<Rightarrow> canonical_uuid \<Rightarrow>
   AcceptedDiagnosticEvent list \<Rightarrow> ('db, 'p, 'n) Runtime \<Rightarrow> bool" where
  "pipeline_safe rows mark encode run_id A rt \<longleftrightarrow>
     hub_tracks encode (rt_hub rt) A \<and> hs_run_id (rt_hub rt) = run_id \<and>
     (\<exists>C F Q. A = C @ F @ Q \<and> ingress_holds run_id C F Q (rt_ingress rt)) \<and>
     (\<exists>k \<le> length A. store_prefix rows mark (tw_db (rt_writer rt)) (take k A))"

lemma hub_tracks_run: "hub_tracks encode hub h \<Longrightarrow> run_from 0 h"
  by (simp add: hub_tracks_def)

lemma hub_tracks_run_id: "hub_tracks encode hub h \<Longrightarrow> a \<in> set h \<Longrightarrow> accepted_run a = hs_run_id hub"
  by (simp add: hub_tracks_def)

lemma prefix_of_appended: "P (xs :: 'a list) \<Longrightarrow> \<exists>k \<le> length (xs @ ys). P (take k (xs @ ys))"
  by (rule exI [of _ "length xs"]) simp

lemma pipeline_safeI:
  assumes "hub_tracks encode (rt_hub rt) A" "hs_run_id (rt_hub rt) = run_id" "A = C @ F @ Q"
    "ingress_holds run_id C F Q (rt_ingress rt)" "store_prefix rows mark (tw_db (rt_writer rt)) P" "A = P @ R"
  shows "pipeline_safe rows mark encode run_id A rt"
  unfolding pipeline_safe_def
proof (intro conjI)
  show "\<exists>C F Q. A = C @ F @ Q \<and> ingress_holds run_id C F Q (rt_ingress rt)" using assms(3,4) by blast
  show "\<exists>k \<le> length A. store_prefix rows mark (tw_db (rt_writer rt)) (take k A)"
    unfolding assms(6) using assms(5) by (rule prefix_of_appended)
qed (use assms in simp_all)

lemma serving_safe:
  "pipeline_serving rows mark encode run_id C F Q rt \<Longrightarrow> pipeline_safe rows mark encode run_id (C @ F @ Q) rt"
  by (rule pipeline_safeI [where P = C and R = "F @ Q"])
     (auto simp: pipeline_serving_def store_holds_def store_prefix_def)

lemma set_ingress_sel [simp]:
  "rt_ingress (set_ingress rt st) = st" "rt_quota (set_ingress rt st) = rt_quota rt"
  "hub_tracks encode (rt_hub (set_ingress rt st)) h = hub_tracks encode (rt_hub rt) h"
  "hs_run_id (rt_hub (set_ingress rt st)) = hs_run_id (rt_hub rt)"
  "rt_accumulator (set_ingress rt st) = rt_accumulator rt" "rt_writer (set_ingress rt st) = rt_writer rt"
  "rt_supervisor (set_ingress rt st) = rt_supervisor rt" "rt_drain_intent (set_ingress rt st) = rt_drain_intent rt"
  "rt_final (set_ingress rt st) = rt_final rt" "rt_exit (set_ingress rt st) = rt_exit rt"
  by (simp_all add: set_ingress_def)

lemma set_quota_sel [simp]:
  "rt_ingress (set_quota rt q) = rt_ingress rt" "rt_quota (set_quota rt q) = q"
  "hub_tracks encode (rt_hub (set_quota rt q)) h = hub_tracks encode (rt_hub rt) h"
  "hs_run_id (rt_hub (set_quota rt q)) = hs_run_id (rt_hub rt)"
  "rt_accumulator (set_quota rt q) = rt_accumulator rt" "rt_writer (set_quota rt q) = rt_writer rt"
  "rt_supervisor (set_quota rt q) = rt_supervisor rt" "rt_drain_intent (set_quota rt q) = rt_drain_intent rt"
  "rt_final (set_quota rt q) = rt_final rt" "rt_exit (set_quota rt q) = rt_exit rt"
  by (simp_all add: set_quota_def)

text \<open>Fields that neither predicate looks at.\<close>

lemma pipeline_fields [simp]:
  "pipeline_serving rows mark encode run_id C F Q (set_quota rt q) = pipeline_serving rows mark encode run_id C F Q rt"
  "pipeline_serving rows mark encode run_id C F Q (rt\<lparr> rt_supervisor := sv \<rparr>) = pipeline_serving rows mark encode run_id C F Q rt"
  "pipeline_serving rows mark encode run_id C F Q (rt\<lparr> rt_progress := pg \<rparr>) = pipeline_serving rows mark encode run_id C F Q rt"
  "pipeline_serving rows mark encode run_id C F Q (rt\<lparr> rt_drain_intent := di \<rparr>) = pipeline_serving rows mark encode run_id C F Q rt"
  "pipeline_serving rows mark encode run_id C F Q (rt\<lparr> rt_final := fl \<rparr>) = pipeline_serving rows mark encode run_id C F Q rt"
  "pipeline_safe rows mark encode run_id A (set_quota rt q) = pipeline_safe rows mark encode run_id A rt"
  "pipeline_safe rows mark encode run_id A (rt\<lparr> rt_supervisor := sv \<rparr>) = pipeline_safe rows mark encode run_id A rt"
  "pipeline_safe rows mark encode run_id A (rt\<lparr> rt_progress := pg \<rparr>) = pipeline_safe rows mark encode run_id A rt"
  "pipeline_safe rows mark encode run_id A (rt\<lparr> rt_drain_intent := di \<rparr>) = pipeline_safe rows mark encode run_id A rt"
  "pipeline_safe rows mark encode run_id A (rt\<lparr> rt_final := fl \<rparr>) = pipeline_safe rows mark encode run_id A rt"
  "pipeline_safe rows mark encode run_id A (rt\<lparr> rt_exit := x \<rparr>) = pipeline_safe rows mark encode run_id A rt"
  "pipeline_safe rows mark encode run_id A (rt\<lparr> rt_accumulator := acc \<rparr>) = pipeline_safe rows mark encode run_id A rt"
  by (simp_all add: pipeline_serving_def pipeline_safe_def)

text \<open>What a stage may do: fail safely, or go on with the same events split anew.\<close>

definition stage_ok ::
  "('db \<Rightarrow> EventRow set) \<Rightarrow> ('db \<Rightarrow> sortable_key) \<Rightarrow> (DiagnosticEvent \<Rightarrow> bytes option) \<Rightarrow> canonical_uuid \<Rightarrow>
   AcceptedDiagnosticEvent list \<Rightarrow> (DiagnosticCoreFailure + 'a) \<times> ('db, 'p, 'n) Runtime \<Rightarrow> bool" where
  "stage_ok rows mark encode run_id A out \<longleftrightarrow>
     (case fst out of
        Inl _ \<Rightarrow> pipeline_safe rows mark encode run_id A (snd out)
      | Inr _ \<Rightarrow> \<exists>C F Q. A = C @ F @ Q \<and> pipeline_serving rows mark encode run_id C F Q (snd out))"

lemma stage_okI:
  "pipeline_safe rows mark encode run_id A rt \<Longrightarrow> stage_ok rows mark encode run_id A (Inl f, rt)"
  "pipeline_serving rows mark encode run_id C F Q rt \<Longrightarrow> A = C @ F @ Q \<Longrightarrow>
   stage_ok rows mark encode run_id A (Inr x, rt)"
  unfolding stage_ok_def by auto

lemma commit_batch_stage:
  assumes doc: "sql_documented exec rows mark clean"
    and h: "hub_tracks encode (rt_hub rt) (C @ F @ Q)" "hs_run_id (rt_hub rt) = run_id"
      "ingress_holds run_id C F Q (rt_ingress rt)" "store_holds rows mark run_id (rt_writer rt) C"
      "acc_holds run_id (C @ F) [] (rt_accumulator rt)"
    and b: "eb_events (tb_batch t) = F" "EventBatch_new (eb_events (tb_batch t)) = Inr (tb_batch t)"
    and c: "runtime_commit_batch exec apply_event encode_model env ce rt t = (res, rt')"
  shows "rt_exit rt' = rt_exit rt \<and> rt_drain_intent rt' = rt_drain_intent rt \<and>
    (case res of Inl _ \<Rightarrow> pipeline_safe rows mark encode run_id (C @ F @ Q) rt'
      | Inr _ \<Rightarrow> pipeline_serving rows mark encode run_id (C @ F) [] Q rt')"
proof -
  have safe: "pipeline_safe rows mark encode run_id (C @ F @ Q) rt"
    using h(4) by (intro pipeline_safeI [OF h(1,2) refl h(3), where P = C and R = "F @ Q"])
      (simp_all add: store_holds_def store_prefix_def)
  obtain r q where q: "quota_precheck (rt_quota rt) (ce_now_before ce) (ce_fsys_before ce)
             (conservative_growth (eb_canonical_bytes (tb_batch t))) = (r, q)" by fastforce
  obtain n w where w: "commit_batch_with_hook exec apply_event encode_model env (rt_writer rt) (tb_batch t) = (n, w)"
    by fastforce
  show ?thesis
  proof (cases r)
    case (Inl err)
    with c q safe show ?thesis by (auto simp: runtime_commit_batch_def Let_def)
  next
    case r: (Inr u)
    show ?thesis
    proof (cases n)
      case n: (Inl err)
      from c q r w n have rt': "res = Inl (DiagnosticCoreFailure_writer err)" "rt' = (set_quota rt q)\<lparr> rt_writer := w \<rparr>"
        by (auto simp: runtime_commit_batch_def Let_def)
      have "\<exists>P R. C @ F @ Q = P @ R \<and> store_prefix rows mark (tw_db w) P"
        by (rule commit_failed_prefix [OF doc h(4) b(2) w [unfolded n], unfolded b(1), of Q])
      then obtain P R where p: "C @ F @ Q = P @ R" "store_prefix rows mark (tw_db w) P" by blast
      have "pipeline_safe rows mark encode run_id (C @ F @ Q) rt'"
        by (rule pipeline_safeI [OF _ _ refl _ _ p(1)]) (use h(1-3) p(2) rt' in simp_all)
      with rt' show ?thesis by simp
    next
      case n: (Inr cn)
      from commit_batch_holds [OF doc h(4) b(2) w [unfolded n]] b(1)
      have sh: "store_holds rows mark run_id w (C @ F)" and nt: "cn = commit_notice run_id C F" by simp_all
      have run: "run_from 0 (C @ F)" using sh by (simp add: store_holds_def)
      define rt2 where "rt2 = set_ingress ((set_quota rt q)\<lparr> rt_writer := w \<rparr>)
        (snd (mark_committed (rt_ingress rt) (commit_notice run_id C F)))"
      have s2: "pipeline_serving rows mark encode run_id (C @ F) [] Q rt2"
        using h(1,2,5) sh ingress_holds_mark [OF h(3) run]
        unfolding pipeline_serving_def rt2_def by simp
      obtain pr q2 where pq: "post_growth_measurement (rt_quota rt2) (ce_now_after ce) (ce_fsys_after ce) = (pr, q2)"
        by fastforce
      from c q r w n nt pq have rt': "rt' = set_quota rt2 q2" "(\<exists>f. res = Inl f) \<or> res = Inr ()"
        by (auto simp: runtime_commit_batch_def Let_def rt2_def split: sum.splits)
      have "rt_exit rt' = rt_exit rt" "rt_drain_intent rt' = rt_drain_intent rt" by (simp_all add: rt'(1) rt2_def)
      with rt'(2) serving_safe [OF s2] s2 show ?thesis unfolding rt'(1) by auto
    qed
  qed
qed

subsection \<open>Every stage keeps the invariant\<close>

lemma serving_ingress:
  "pipeline_serving rows mark encode run_id C F Q rt \<Longrightarrow> ingress_holds run_id C F Q st \<Longrightarrow>
   pipeline_serving rows mark encode run_id C F Q (set_ingress rt st)"
  by (simp add: pipeline_serving_def)

lemma safe_ingress:
  assumes "pipeline_safe rows mark encode run_id A rt"
    "\<And>C F Q. ingress_holds run_id C F Q (rt_ingress rt) \<Longrightarrow> ingress_holds run_id C F Q st"
  shows "pipeline_safe rows mark encode run_id A (set_ingress rt st)"
  using assms unfolding pipeline_safe_def by simp blast

lemma resplit:
  "pipeline_serving rows mark encode run_id C F Q rt \<Longrightarrow> A = C @ F @ Q \<Longrightarrow> P Q \<Longrightarrow>
   \<exists>C F Q. A = C @ F @ Q \<and> pipeline_serving rows mark encode run_id C F Q rt \<and> P Q"
  by blast

lemma dequeue_turn:
  assumes doc: "sql_documented exec rows mark clean"
    and s: "pipeline_serving rows mark encode run_id C F Q rt"
    and d: "writer_dequeue exec apply_event encode_model env ce rt now = (res, rt')"
  shows "rt_exit rt' = rt_exit rt \<and> rt_drain_intent rt' = rt_drain_intent rt \<and>
    (case res of Inl _ \<Rightarrow> pipeline_safe rows mark encode run_id (C @ F @ Q) rt'
      | Inr took \<Rightarrow> \<exists>C' F' Q'. C @ F @ Q = C' @ F' @ Q' \<and> pipeline_serving rows mark encode run_id C' F' Q' rt' \<and>
          (if took then length Q = Suc (length Q') else Q' = []))"
proof -
  have ih: "ingress_holds run_id C F Q (rt_ingress rt)" using s by (simp add: pipeline_serving_def)
  obtain r st where t: "try_dequeue (rt_ingress rt) = (r, st)" by fastforce
  from ingress_holds_dequeue [OF ih t] consider "Q = []" "r = Inr None" "st = rt_ingress rt"
    | a Q' where "Q = a # Q'" "r = Inr (Some a)" "ingress_holds run_id C (F @ [a]) Q' st" by blast
  then show ?thesis
  proof cases
    case 1
    with d t have "res = Inr False" "rt' = set_ingress rt (rt_ingress rt)" by (simp_all add: writer_dequeue_def)
    with serving_ingress [OF s ih] 1(1) show ?thesis by auto
  next
    case 2
    obtain pr acc where p: "BatchAccumulator_push (rt_accumulator rt) a now = (pr, acc)" by fastforce
    let ?rt = "(set_ingress rt st)\<lparr> rt_accumulator := acc \<rparr>"
    have ar: "accepted_run a = run_id"
      using s 2(1) hub_tracks_run_id [of encode "rt_hub rt" "C @ F @ Q" a] by (simp add: pipeline_serving_def)
    have split: "C @ F @ Q = C @ (F @ [a]) @ Q'" by (simp add: 2(1))
    have keep: "hub_tracks encode (rt_hub ?rt) (C @ (F @ [a]) @ Q')" "hs_run_id (rt_hub ?rt) = run_id"
        "ingress_holds run_id C (F @ [a]) Q' (rt_ingress ?rt)" "store_holds rows mark run_id (rt_writer ?rt) C"
      using s 2(3) unfolding split [symmetric] by (simp_all add: pipeline_serving_def)
    show ?thesis
    proof (cases pr)
      case pr: (Inl err)
      have "pipeline_safe rows mark encode run_id (C @ F @ Q) ?rt"
        unfolding split using keep(4)
        by (intro pipeline_safeI [OF keep(1,2) refl keep(3), where P = C and R = "(F @ [a]) @ Q'"])
          (simp_all add: store_holds_def store_prefix_def)
      with d t p pr 2(2) show ?thesis by (auto simp: writer_dequeue_def Let_def)
    next
      case pr: (Inr b)
      note ah = acc_holds_push [OF _ p [unfolded pr] ar, of C F]
      have ac: "acc_holds run_id C F (rt_accumulator rt)" using s by (simp add: pipeline_serving_def)
      show ?thesis
      proof (cases b)
        case None
        with ah ac keep have "pipeline_serving rows mark encode run_id C (F @ [a]) Q' ?rt"
          by (simp add: pipeline_serving_def)
        moreover have "res = Inr True" "rt' = ?rt" using d t p pr None 2(2) by (auto simp: writer_dequeue_def Let_def)
        ultimately show ?thesis using 2(1) by (auto intro: resplit [where F = "F @ [a]"])
      next
        case (Some tb)
        with ah ac have b: "eb_events (tb_batch tb) = F @ [a]"
            "EventBatch_new (eb_events (tb_batch tb)) = Inr (tb_batch tb)"
          and a2: "acc_holds run_id (C @ F @ [a]) [] (rt_accumulator ?rt)" by auto
        obtain cr rt2 where c: "runtime_commit_batch exec apply_event encode_model env ce ?rt tb = (cr, rt2)"
          by fastforce
        note cb = commit_batch_stage [OF doc keep a2 b c]
        show ?thesis
        proof (cases cr)
          case (Inl f)
          with cb d t p pr Some 2(2) c split show ?thesis by (auto simp: writer_dequeue_def Let_def)
        next
          case cr: (Inr u)
          with d t p pr Some 2(2) c have "res = Inr True" "rt' = rt2" by (auto simp: writer_dequeue_def Let_def)
          with cb cr 2(1) show ?thesis by (auto intro: resplit [where F = "[]"])
        qed
      qed
    qed
  qed
qed

lemma dequeue_stage:
  assumes "sql_documented exec rows mark clean" "pipeline_serving rows mark encode run_id C F Q rt"
    "writer_dequeue exec apply_event encode_model env ce rt now = (res, rt')"
  shows "rt_exit rt' = rt_exit rt \<and> stage_ok rows mark encode run_id (C @ F @ Q) (res, rt')"
  using dequeue_turn [OF assms] unfolding stage_ok_def by (auto split: sum.splits)

lemma trigger_turn:
  assumes doc: "sql_documented exec rows mark clean"
    and s: "pipeline_serving rows mark encode run_id C F Q rt"
    and d: "writer_trigger exec apply_event encode_model env ce rt now = (res, rt')"
  shows "rt_exit rt' = rt_exit rt \<and> rt_drain_intent rt' = rt_drain_intent rt \<and>
    (case res of Inl _ \<Rightarrow> pipeline_safe rows mark encode run_id (C @ F @ Q) rt'
      | Inr _ \<Rightarrow> pipeline_serving rows mark encode run_id (C @ F) [] Q rt' \<or>
          pipeline_serving rows mark encode run_id C F Q rt' \<and> rt_drain_intent rt = None)"
proof -
  let ?drain = "rt_drain_intent rt \<noteq> None"
  obtain tr acc where t: "(if ?drain then BatchAccumulator_flush (rt_accumulator rt)
      else BatchAccumulator_poll (rt_accumulator rt) now) = (tr, acc)" by fastforce
  have ac: "acc_holds run_id C F (rt_accumulator rt)" using s by (simp add: pipeline_serving_def)
  let ?rt = "rt\<lparr> rt_accumulator := acc \<rparr>"
  have keep: "hub_tracks encode (rt_hub ?rt) (C @ F @ Q)" "hs_run_id (rt_hub ?rt) = run_id"
      "ingress_holds run_id C F Q (rt_ingress ?rt)" "store_holds rows mark run_id (rt_writer ?rt) C"
    using s by (simp_all add: pipeline_serving_def)
  show ?thesis
  proof (cases tr)
    case tr: (Inl err)
    from serving_safe [OF s] d t tr show ?thesis
      by (auto simp: writer_trigger_def)
  next
    case tr: (Inr b)
    note ah = acc_holds_trigger [OF ac t [unfolded tr]]
    show ?thesis
    proof (cases b)
      case None
      with ah keep have "pipeline_serving rows mark encode run_id C F Q ?rt"
        by (simp add: pipeline_serving_def)
      moreover have "res = Inr False" "rt' = ?rt" using d t tr None by (auto simp: writer_trigger_def)
      moreover have "?drain \<longrightarrow> F = []" using ah None by simp
      ultimately show ?thesis by auto
    next
      case (Some tb)
      with ah have b: "eb_events (tb_batch tb) = F" "EventBatch_new (eb_events (tb_batch tb)) = Inr (tb_batch tb)"
        and a2: "acc_holds run_id (C @ F) [] (rt_accumulator ?rt)" by auto
      obtain cr rt2 where c: "runtime_commit_batch exec apply_event encode_model env ce ?rt tb = (cr, rt2)"
        by fastforce
      from commit_batch_stage [OF doc keep a2 b c] d t tr Some c show ?thesis
        by (cases cr) (auto simp: writer_trigger_def)
    qed
  qed
qed

lemma trigger_stage:
  assumes "sql_documented exec rows mark clean" "pipeline_serving rows mark encode run_id C F Q rt"
    "writer_trigger exec apply_event encode_model env ce rt now = (res, rt')"
  shows "rt_exit rt' = rt_exit rt \<and> stage_ok rows mark encode run_id (C @ F @ Q) (res, rt')"
  using trigger_turn [OF assms] unfolding stage_ok_def by (auto split: sum.splits) (metis append_Nil append_assoc)+

lemma observe_stage:
  assumes "observe_progress rt now = (res, rt')"
  shows "\<exists>sv pg. rt' = rt\<lparr> rt_supervisor := sv, rt_progress := pg \<rparr> \<and>
    (\<forall>status. res = Inr status \<longrightarrow> status = IngressStatus_from_state (rt_ingress rt))"
proof -
  have same: "rt = rt\<lparr> rt_supervisor := rt_supervisor rt, rt_progress := rt_progress rt \<rparr>"
    "rt\<lparr> rt_supervisor := sv \<rparr> = rt\<lparr> rt_supervisor := sv, rt_progress := rt_progress rt \<rparr>" for sv by simp_all
  from assms show ?thesis
    by (auto simp: observe_progress_def Let_def split: if_splits prod.splits sum.splits option.splits)
      (use same in metis)+
qed

text \<open>The other stages do not touch what the invariant speaks of, but for the failure channels.\<close>

lemma check_stage:
  assumes s: "pipeline_serving rows mark encode run_id C F Q rt" and d: "writer_check_failures rt = (res, rt')"
  shows "rt_exit rt' = rt_exit rt \<and> stage_ok rows mark encode run_id (C @ F @ Q) (res, rt')"
proof -
  have ih: "ingress_holds run_id C F Q (rt_ingress rt)" using s by (simp add: pipeline_serving_def)
  let ?st = "(rt_ingress rt)\<lparr> is_failure_channel := None \<rparr>"
  have "ingress_holds run_id C F Q ?st"
    by (rule ingress_holds_cong [OF ih]) (use ih in \<open>auto simp: ingress_holds_def within_budget_def\<close>)
  from serving_ingress [OF s this] have s': "pipeline_serving rows mark encode run_id C F Q (set_ingress rt ?st)" .
  from d s' serving_safe [OF s'] show ?thesis
    by (auto simp: writer_check_failures_def IngressFailureReceiver_try_recv_def Let_def
        split: option.splits prod.splits intro!: stage_okI)
qed

lemma receive_stage:
  assumes s: "pipeline_serving rows mark encode run_id C F Q rt"
    and d: "writer_receive_command rt command now = (res, rt')"
  shows "rt_exit rt' = rt_exit rt \<and> stage_ok rows mark encode run_id (C @ F @ Q) (res, rt')"
proof (cases "rt_drain_intent rt = None")
  case False
  with d s show ?thesis by (auto simp: writer_receive_command_def intro!: stage_okI)
next
  case True
  let ?rt = "rt\<lparr> rt_drain_intent := Some (command_intent command) \<rparr>"
  obtain r rt1 where o: "observe_progress ?rt now = (r, rt1)" by fastforce
  from observe_stage [OF o] obtain sv pg where
    rt1: "rt1 = ?rt\<lparr> rt_supervisor := sv, rt_progress := pg \<rparr>" by blast
  have s1: "pipeline_serving rows mark encode run_id C F Q rt1" "rt_exit rt1 = rt_exit rt"
    using s by (simp_all add: rt1)
  from d True o s1 serving_safe [OF s1(1)] show ?thesis
    by (auto simp: writer_receive_command_def Let_def split: sum.splits prod.splits intro!: stage_okI)
qed

lemma finalize_store:
  assumes doc: "sql_documented exec rows mark clean"
    and f: "finalize_run_with_hook exec read_final env w ended_at outcome = (res, w')"
  shows "rows (tw_db w') = rows (tw_db w) \<and> mark (tw_db w') = mark (tw_db w) \<and> tw_watermark w' = tw_watermark w \<and>
    (\<forall>k. res = Inr k \<longrightarrow> k = cw_value (tw_watermark w) \<and> clean (tw_db w'))"
proof (cases "exec (tw_db w) (SqlFinalize ended_at (FinalProductionOutcome_as_str outcome)
        (cw_value (tw_watermark w)) (SortableU64Key_canonical_decimal (cw_value (tw_watermark w))))")
  case None
  with f show ?thesis by (auto simp: finalize_run_with_hook_def Let_def split: if_splits)
next
  case (Some v)
  obtain db n where v: "v = (db, n)" by (cases v)
  show ?thesis
  proof (cases "n = 1")
    case True
    from sql_documentedD [OF doc Some [unfolded v True]]
    have "rows db = rows (tw_db w)" "mark db = mark (tw_db w)" "clean db" by simp_all
    with f Some v show ?thesis
      unfolding finalize_run_with_hook_def Let_def by (simp split: if_splits option.splits; clarsimp)
  next
    case False
    with f Some v show ?thesis by (auto simp: finalize_run_with_hook_def Let_def split: if_splits)
  qed
qed

lemma store_holds_finalized:
  assumes "sql_documented exec rows mark clean" "store_holds rows mark run_id w C"
    "finalize_run_with_hook exec read_final env w ended_at outcome = (res, w')"
  shows "store_holds rows mark run_id w' C"
  using finalize_store [OF assms(1,3)] assms(2) by (simp add: store_holds_def)

lemma serving_writer:
  "pipeline_serving rows mark encode run_id C F Q rt \<Longrightarrow> store_holds rows mark run_id w C \<Longrightarrow>
   pipeline_serving rows mark encode run_id C F Q (rt\<lparr> rt_writer := w \<rparr>)"
  by (simp add: pipeline_serving_def)

lemma finalize_stage:
  assumes doc: "sql_documented exec rows mark clean" and s: "pipeline_serving rows mark encode run_id C F Q rt"
    and f: "writer_finalize exec read_final env fe ce rt ended_at outcome = (res, rt')"
  shows "rt_exit rt' = rt_exit rt \<and> pipeline_serving rows mark encode run_id C F Q rt' \<and>
    (res = Inr () \<longrightarrow> rt_final rt' = Some (SortableU64Key_new (last_seq 0 C)) \<and> clean (tw_db (rt_writer rt')))"
proof -
  let ?env = "env\<lparr> tx_before_commit := (\<lambda>_. \<not> fe_abandoned_inside fe), tx_after_statement := (\<lambda>_ _ _. True) \<rparr>"
  obtain r w where w: "finalize_run_with_hook exec read_final ?env (rt_writer rt) ended_at outcome = (r, w)" by fastforce
  have sh: "store_holds rows mark run_id (rt_writer rt) C" using s by (simp add: pipeline_serving_def)
  note s1 = serving_writer [OF s store_holds_finalized [OF doc sh w]]
  have fin: "k = SortableU64Key_new (last_seq 0 C) \<and> clean (tw_db w)" if "r = Inr k" for k
    using finalize_store [OF doc w] sh that by (simp add: store_holds_def)
  from f w s s1 fin show ?thesis
    by (auto simp: writer_finalize_def Let_def split: if_splits sum.splits prod.splits)
qed

lemma drained_ingress:
  assumes "ingress_holds run_id C F Q st"
    "ist_accepted_uncommitted_events (IngressStatus_from_state st) = 0"
  shows "F = [] \<and> Q = []"
proof -
  from assms(1) obtain fs qs where q: "is_outstanding st = fs @ qs" "map te_event fs = F" "map te_event qs = Q"
    by (auto simp: ingress_holds_def)
  have "is_reserved_events st + length (is_outstanding st) = 0"
    using assms(2) ingress_holds_budget [OF assms(1)]
    by (simp add: IngressStatus_from_state_def Let_def within_budget_def)
  with q show ?thesis by simp
qed

lemma checkpoint_stage:
  assumes "pipeline_serving rows mark encode run_id C F Q rt" "checkpoint_and_close_writer fe ce rt = (res, rt')"
  shows "rt_exit rt' = rt_exit rt \<and> rt_final rt' = rt_final rt \<and> rt_writer rt' = rt_writer rt \<and>
    pipeline_serving rows mark encode run_id C F Q rt'"
  using assms by (auto simp: checkpoint_and_close_writer_def split: option.splits prod.splits sum.splits)

lemma finish_stage:
  assumes doc: "sql_documented exec rows mark clean" and s: "pipeline_serving rows mark encode run_id C F Q rt"
    and f: "writer_finish exec read_final env fe ce rt now = (res, rt')"
  shows "rt_exit rt' = rt_exit rt \<and> pipeline_serving rows mark encode run_id C F Q rt' \<and>
    (res = Inr True \<longrightarrow> F = [] \<and> Q = [] \<and>
      (\<forall>ended_at outcome. rt_drain_intent rt = Some (IntentFinalize ended_at outcome) \<longrightarrow>
         rt_final rt' = Some (SortableU64Key_new (last_seq 0 C)) \<and> clean (tw_db (rt_writer rt'))))"
proof -
  obtain o1 rt1 where o: "observe_progress rt now = (o1, rt1)" by fastforce
  from observe_stage [OF o] obtain sv pg where rt1: "rt1 = rt\<lparr> rt_supervisor := sv, rt_progress := pg \<rparr>"
    and st: "\<And>status. o1 = Inr status \<Longrightarrow> status = IngressStatus_from_state (rt_ingress rt)" by blast
  have s1: "pipeline_serving rows mark encode run_id C F Q rt1" using s by (simp add: rt1)
  have same: "rt_exit rt1 = rt_exit rt" "rt_drain_intent rt1 = rt_drain_intent rt" by (simp_all add: rt1)
  show ?thesis
  proof (cases "\<exists>status. o1 = Inr status \<and> rt_drain_intent rt \<noteq> None \<and>
      ist_accepted_uncommitted_events status = 0 \<and> length (ba_pending (rt_accumulator rt1)) = 0")
    case False
    with f o s1 same show ?thesis unfolding writer_finish_def by (cases o1) auto
  next
    case True
    then obtain status intent where d: "o1 = Inr status" "rt_drain_intent rt = Some intent"
        "ist_accepted_uncommitted_events status = 0" "length (ba_pending (rt_accumulator rt1)) = 0" by blast
    have ih: "ingress_holds run_id C F Q (rt_ingress rt)" using s by (simp add: pipeline_serving_def)
    have dr: "F = [] \<and> Q = []" by (rule drained_ingress [OF ih]) (use d(1,3) st in simp)
    let ?rt = "rt1\<lparr> rt_drain_intent := None \<rparr>"
    have s2: "pipeline_serving rows mark encode run_id C F Q ?rt" using s1 by simp
    show ?thesis
    proof (cases intent)
      case (IntentFinalize ended_at outcome)
      obtain fr rt3 where fz: "writer_finalize exec read_final env fe ce ?rt ended_at outcome = (fr, rt3)" by fastforce
      obtain cr rt4 where cp: "checkpoint_and_close_writer fe ce rt3 = (cr, rt4)" by fastforce
      note fs = finalize_stage [OF doc s2 fz]
      then have s3: "pipeline_serving rows mark encode run_id C F Q rt3" by blast
      from f o d same IntentFinalize fz cp fs checkpoint_stage [OF s3 cp] dr show ?thesis
        unfolding writer_finish_def by (cases fr; cases cr) (auto simp: Let_def)
    next
      case IntentAbort
      obtain cr rt4 where cp: "checkpoint_and_close_writer fe ce ?rt = (cr, rt4)" by fastforce
      from f o d same IntentAbort cp checkpoint_stage [OF s2 cp] dr show ?thesis
        unfolding writer_finish_def by (cases cr) (auto simp: Let_def)
    qed
  qed
qed

subsection \<open>Admission keeps the invariant\<close>

lemma admit_ingress:
  assumes t: "hub_tracks encode hub (C @ F @ Q)" "hs_run_id hub = run_id"
    and h: "ingress_holds run_id C F Q (da_ingress (hs_reserver hub))"
    and adm: "admit_inner (\<lambda>r sz. durable_reserve r sz q) durable_commit durable_drop encode notify deliver
      hub candidate subscriber = (res, hub', subscriber')"
  shows "hs_run_id hub' = run_id \<and>
    (let new = (case res of Inr receipt \<Rightarrow> [ar_accepted receipt] | Inl _ \<Rightarrow> []) in
       hub_tracks encode hub' (C @ F @ Q @ new) \<and> ingress_holds run_id C F (Q @ new) (da_ingress (hs_reserver hub')))"
proof (cases res)
  case (Inl err)
  note b = ingress_holds_budget [OF h]
  obtain cls now fsys where q: "q = (cls, now, fsys)" by (cases q)
  from durable.admit_refused [OF b adm [unfolded Inl]] t have "hub_tracks encode hub' (C @ F @ Q)"
    by (metis hub_tracks_reserver)
  moreover from adm Inl consider "hs_reserver hub' = hs_reserver hub"
    | e sz where "durable_reserve (hs_reserver hub) sz q = (Inl e, hs_reserver hub')"
    | sz r rs where "durable_reserve (hs_reserver hub) sz q = (Inr r, rs)" "hs_reserver hub' = durable_drop rs r"
    by (auto simp: admit_inner_def Let_def split: if_splits option.splits prod.splits sum.splits)
  then have "ingress_holds run_id C F Q (da_ingress (hs_reserver hub'))"
  proof cases
    case 1
    with h show ?thesis by simp
  next
    case 2
    from durable_reserve_cases [OF 2 [unfolded q]] show ?thesis
      using ingress_holds_seal [OF h] ingress_holds_refused [OF h] by auto
  next
    case 3
    from durable_reserve_cases [OF 3(1) [unfolded q]] have
      "ingress_reserve (da_ingress (hs_reserver hub)) sz cls = (Inr r, da_ingress rs)" by auto
    from ingress_holds_dropped [OF h this] 3(2) show ?thesis by (simp add: durable_drop_def)
  qed
  ultimately show ?thesis using admit_run_id [OF adm] t(2) Inl by (simp add: Let_def)
next
  case (Inr receipt)
  let ?a = "ar_accepted receipt"
  note b = ingress_holds_budget [OF h]
  obtain cls now fsys where q: "q = (cls, now, fsys)" by (cases q)
  from durable.admit_accepted [OF b adm [unfolded Inr] t(1)]
  have t': "hub_tracks encode hub' ((C @ F @ Q) @ [?a])" by blast
  from adm Inr obtain r rs where
      rsv: "durable_reserve (hs_reserver hub) (AdmissionSize_one_event (accepted_len ?a)) q = (Inr r, rs)"
    and rs: "hs_reserver hub' = durable_commit rs r ?a"
    by (auto simp: admit_inner_def Let_def split: if_splits option.splits prod.splits sum.splits)
  from durable_reserve_cases [OF rsv [unfolded q]] have
    ir: "ingress_reserve (da_ingress (hs_reserver hub)) (AdmissionSize_one_event (accepted_len ?a)) cls
      = (Inr r, da_ingress rs)" by auto
  have run: "run_from 0 (C @ F @ Q)" using t(1) by (rule hub_tracks_run)
  have seq: "accepted_seq ?a = last_seq 0 (C @ F @ Q) + 1" "unat (last_seq 0 (C @ F @ Q)) < 2 ^ 64 - 1"
    using hub_tracks_run [OF t'] unfolding run_from_append [of 0 "C @ F @ Q" "[?a]"] run_from.simps by blast+
  have ar: "accepted_run ?a = run_id"
    using hub_tracks_run_id [OF t', of ?a] admit_run_id [OF adm] t(2) by simp
  from ingress_holds_committed [OF h run ir ar seq]
  have "ingress_holds run_id C F (Q @ [?a]) (da_ingress (hs_reserver hub'))" by (simp add: rs durable_commit_def)
  with t' show ?thesis using admit_run_id [OF adm] t(2) Inr by (simp add: Let_def)
qed

definition pipeline_inv ::
  "('db \<Rightarrow> EventRow set) \<Rightarrow> ('db \<Rightarrow> sortable_key) \<Rightarrow> (DiagnosticEvent \<Rightarrow> bytes option) \<Rightarrow> canonical_uuid \<Rightarrow>
   ('db, 'p, 'n) pipeline \<Rightarrow> bool" where
  "pipeline_inv rows mark encode run_id s \<longleftrightarrow>
     pipeline_safe rows mark encode run_id (pl_admitted s) (pl_runtime s) \<and>
     (rt_exit (pl_runtime s) = None \<longrightarrow>
        (\<exists>C F Q. pl_admitted s = C @ F @ Q \<and> pipeline_serving rows mark encode run_id C F Q (pl_runtime s)))"

lemma pipeline_invE:
  assumes "pipeline_inv rows mark encode run_id s" "rt_exit (pl_runtime s) = None"
  obtains C F Q where "pl_admitted s = C @ F @ Q" "pipeline_serving rows mark encode run_id C F Q (pl_runtime s)"
  using assms unfolding pipeline_inv_def by blast

lemma pipeline_inv_stage:
  assumes "stage_ok rows mark encode run_id (pl_admitted s) out" "rt_exit (snd out) = None"
  shows "pipeline_inv rows mark encode run_id (s\<lparr> pl_runtime := stage_end out \<rparr>)"
proof (cases out)
  case (Pair res rt)
  show ?thesis
  proof (cases res)
    case (Inl f)
    with assms Pair have "pipeline_safe rows mark encode run_id (pl_admitted s) rt" by (simp add: stage_ok_def)
    from safe_ingress [OF this ingress_holds_seal] Inl Pair show ?thesis
      by (simp add: pipeline_inv_def writer_failed_def)
  next
    case (Inr x)
    with assms Pair obtain C F Q where "pl_admitted s = C @ F @ Q" "pipeline_serving rows mark encode run_id C F Q rt"
      by (auto simp: stage_ok_def)
    with serving_safe [OF this(2)] Inr Pair show ?thesis by (auto simp: pipeline_inv_def)
  qed
qed

text \<open>Operations of the producers on the ingress.\<close>

lemma pipeline_inv_ingress:
  assumes i: "pipeline_inv rows mark encode run_id s"
    and h: "\<And>C F Q. ingress_holds run_id C F Q (rt_ingress (pl_runtime s)) \<Longrightarrow> ingress_holds run_id C F Q st"
  shows "pipeline_inv rows mark encode run_id (s\<lparr> pl_runtime := set_ingress (pl_runtime s) st \<rparr>)"
proof -
  have "pipeline_safe rows mark encode run_id (pl_admitted s) (set_ingress (pl_runtime s) st)"
    using i h by (intro safe_ingress) (simp_all add: pipeline_inv_def)
  moreover have "\<exists>C F Q. pl_admitted s = C @ F @ Q \<and>
      pipeline_serving rows mark encode run_id C F Q (set_ingress (pl_runtime s) st)"
    if x: "rt_exit (pl_runtime s) = None"
  proof -
    from i x obtain C F Q where c: "pl_admitted s = C @ F @ Q"
      "pipeline_serving rows mark encode run_id C F Q (pl_runtime s)" by (rule pipeline_invE)
    then have "ingress_holds run_id C F Q st" using h by (simp add: pipeline_serving_def)
    from serving_ingress [OF c(2) this] c(1) show ?thesis by blast
  qed
  ultimately show ?thesis by (simp add: pipeline_inv_def)
qed

lemma ingress_holds_cue:
  "ingress_holds run_id C F Q st \<Longrightarrow> ingress_holds run_id C F Q (snd (begin_cue_capture st))"
  "ingress_holds run_id C F Q st \<Longrightarrow> ingress_holds run_id C F Q (snd (finish_cue_capture st))"
  "ingress_holds run_id C F Q st \<Longrightarrow> ingress_holds run_id C F Q (snd (seal_normal_ingress st))"
  by (frule ingress_holds_budget, erule ingress_holds_cong;
      auto simp: begin_cue_capture_def finish_cue_capture_def seal_normal_ingress_def ingress_holds_def within_budget_def split: if_splits)+

lemma pipeline_inv_admit:
  assumes i: "pipeline_inv rows mark encode run_id s"
    and adm: "admit_inner (\<lambda>r sz. durable_reserve r sz q) durable_commit durable_drop encode notify deliver
      (rt_hub (pl_runtime s)) candidate subscriber = (res, hub', subscriber')"
  shows "pipeline_inv rows mark encode run_id (s\<lparr> pl_runtime := (pl_runtime s)\<lparr> rt_hub := hub' \<rparr>,
         pl_admitted := pl_admitted s @ (case res of Inr receipt \<Rightarrow> [ar_accepted receipt] | Inl _ \<Rightarrow> []) \<rparr>)"
proof -
  let ?new = "case res of Inr receipt \<Rightarrow> [ar_accepted receipt] | Inl _ \<Rightarrow> []"
  let ?rt = "(pl_runtime s)\<lparr> rt_hub := hub' \<rparr>"
  from i obtain C F Q k where t: "hub_tracks encode (rt_hub (pl_runtime s)) (C @ F @ Q)"
      "hs_run_id (rt_hub (pl_runtime s)) = run_id" "ingress_holds run_id C F Q (rt_ingress (pl_runtime s))"
    and a: "pl_admitted s = C @ F @ Q"
    and k: "k \<le> length (pl_admitted s)" "store_prefix rows mark (tw_db (rt_writer (pl_runtime s))) (take k (pl_admitted s))"
    unfolding pipeline_inv_def pipeline_safe_def by metis
  from admit_ingress [OF t adm] have n: "hs_run_id (rt_hub ?rt) = run_id"
      "hub_tracks encode (rt_hub ?rt) (pl_admitted s @ ?new)" "ingress_holds run_id C F (Q @ ?new) (rt_ingress ?rt)"
    by (simp_all add: Let_def a)
  have "pipeline_safe rows mark encode run_id (pl_admitted s @ ?new) ?rt"
    by (rule pipeline_safeI [OF n(2,1) _ n(3), where P = "take k (pl_admitted s)" and R = "drop k (pl_admitted s) @ ?new"])
       (simp add: a, use k(2) in simp, simp flip: append_assoc)
  moreover have "\<exists>C F Q. pl_admitted s @ ?new = C @ F @ Q \<and> pipeline_serving rows mark encode run_id C F Q ?rt"
    if x: "rt_exit (pl_runtime s) = None"
  proof -
    from i x obtain C F Q where c: "pl_admitted s = C @ F @ Q"
      "pipeline_serving rows mark encode run_id C F Q (pl_runtime s)" by (rule pipeline_invE)
    then have t: "hub_tracks encode (rt_hub (pl_runtime s)) (C @ F @ Q)"
      "hs_run_id (rt_hub (pl_runtime s)) = run_id" "ingress_holds run_id C F Q (rt_ingress (pl_runtime s))"
      by (simp_all add: pipeline_serving_def)
    from admit_ingress [OF t adm] c have "pipeline_serving rows mark encode run_id C F (Q @ ?new) ?rt"
      by (simp add: pipeline_serving_def Let_def)
    with c(1) show ?thesis by (metis append_assoc)
  qed
  ultimately show ?thesis by (simp add: pipeline_inv_def)
qed

lemma pipeline_inv_step:
  assumes doc: "sql_documented exec rows mark clean"
    and st: "pipeline_step exec apply_event encode_model read_final encode notify deliver s s'"
    and i: "pipeline_inv rows mark encode run_id s"
  shows "pipeline_inv rows mark encode run_id s'"
  using st
proof (cases rule: pipeline_step.cases)
  case (admit q candidate subscriber res hub' subscriber')
  with pipeline_inv_admit [OF i admit(2)] show ?thesis by simp
next
  case begin_cue
  with pipeline_inv_ingress [OF i ingress_holds_cue(1)] show ?thesis by simp
next
  case finish_cue
  with pipeline_inv_ingress [OF i ingress_holds_cue(2)] show ?thesis by simp
next
  case seal
  with pipeline_inv_ingress [OF i ingress_holds_cue(3)] show ?thesis by simp
next
  case seal_external
  with pipeline_inv_ingress [OF i ingress_holds_seal] show ?thesis by simp
next
  case check_failures
  with i obtain C F Q where c: "pl_admitted s = C @ F @ Q"
    "pipeline_serving rows mark encode run_id C F Q (pl_runtime s)" by (auto elim: pipeline_invE)
  from check_stage [OF c(2) prod.collapse [symmetric]] c(1) check_failures show ?thesis
    by (simp add: pipeline_inv_stage)
next
  case (receive command now)
  with i obtain C F Q where c: "pl_admitted s = C @ F @ Q"
    "pipeline_serving rows mark encode run_id C F Q (pl_runtime s)" by (auto elim: pipeline_invE)
  from receive_stage [OF c(2) prod.collapse [symmetric]] c(1) receive show ?thesis
    by (simp add: pipeline_inv_stage)
next
  case (dequeue env ce now)
  with i obtain C F Q where c: "pl_admitted s = C @ F @ Q"
    "pipeline_serving rows mark encode run_id C F Q (pl_runtime s)" by (auto elim: pipeline_invE)
  from dequeue_stage [OF doc c(2) prod.collapse [symmetric]] c(1) dequeue show ?thesis
    by (simp add: pipeline_inv_stage)
next
  case (trigger env ce now)
  with i obtain C F Q where c: "pl_admitted s = C @ F @ Q"
    "pipeline_serving rows mark encode run_id C F Q (pl_runtime s)" by (auto elim: pipeline_invE)
  from trigger_stage [OF doc c(2) prod.collapse [symmetric]] c(1) trigger show ?thesis
    by (simp add: pipeline_inv_stage)
next
  case (finish env fe ce now)
  with i obtain C F Q where c: "pl_admitted s = C @ F @ Q"
    "pipeline_serving rows mark encode run_id C F Q (pl_runtime s)" by (auto elim: pipeline_invE)
  obtain res rt' where f: "writer_finish exec read_final env fe ce (pl_runtime s) now = (res, rt')" by fastforce
  from finish_stage [OF doc c(2) f] have s': "rt_exit rt' = None" "pipeline_serving rows mark encode run_id C F Q rt'"
    using finish by simp_all
  note safe = serving_safe [OF s'(2)]
  show ?thesis
    using finish f c(1) s' safe safe_ingress [OF safe ingress_holds_seal]
    by (cases res) (auto simp: pipeline_inv_def writer_failed_def)
qed

lemma pipeline_inv_init:
  assumes "TransactionalWriter_new run_id (mark db) (mark db) False db projector = Inr w"
    "rows db = {}" "length (mark db) = 8"
  shows "pipeline_inv rows mark encode run_id (pipeline_init run_id quota w supervisor live)"
proof -
  have "SortableU64Key_get (mark db) = 0"
    using assms(1) by (auto simp: TransactionalWriter_new_def split: if_splits)
  with key_new_get [OF assms(3)] have m: "mark db = SortableU64Key_new 0" by metis
  have w: "tw_db w = db" "tw_watermark w = CommittedWatermark_fresh run_id"
    using assms(1) by (auto simp: TransactionalWriter_new_def split: if_splits)
  have "store_holds rows mark run_id w []"
    using m w assms(2) by (simp add: store_holds_def CommittedWatermark_fresh_def)
  moreover have "ingress_holds run_id [] [] [] IngressState_default"
    by (simp add: ingress_holds_def within_budget_def IngressState_default_def)
  moreover have "acc_holds run_id [] [] BatchAccumulator_new"
    by (simp add: acc_holds_def acc_inv_new) (simp add: BatchAccumulator_new_def)
  ultimately have "pipeline_serving rows mark encode run_id [] [] [] (pl_runtime (pipeline_init run_id quota w supervisor live))"
    using hub_tracks_new by (simp add: pipeline_serving_def pipeline_init_def DiagnosticHub_new_def)
  with serving_safe [OF this] show ?thesis
    by (auto simp: pipeline_inv_def) (simp_all add: pipeline_init_def)
qed

lemma pipeline_reachable_inv:
  assumes "sql_documented exec rows mark clean"
    "TransactionalWriter_new run_id (mark db) (mark db) False db projector = Inr w" "rows db = {}" "length (mark db) = 8"
    "(pipeline_step exec apply_event encode_model read_final encode notify deliver)\<^sup>*\<^sup>*
       (pipeline_init run_id quota w supervisor live) s"
  shows "pipeline_inv rows mark encode run_id s"
  using assms(5)
proof (induction rule: rtranclp_induct)
  case base
  show ?case by (rule pipeline_inv_init [where mark = mark and rows = rows and db = db, OF assms(2-4)])
next
  case (step y z)
  then show ?case using pipeline_inv_step [OF assms(1)] by blast
qed

subsection \<open>The loop over the ingress\<close>

text \<open>
  The \<^verbatim>\<open>while let\<close> loop of the thread while nothing more is admitted: \<open>world n\<close> is what the
  turn sees with \<open>n\<close> turns to go, \<open>None\<close> means that the turns did not suffice.
\<close>

fun dequeue_loop ::
  "'db exec \<Rightarrow> ('p \<Rightarrow> DiagnosticEvent \<Rightarrow> 'p option) \<Rightarrow> ('p \<Rightarrow> EncodedMaterializedState option) \<Rightarrow>
   (nat \<Rightarrow> 'db txn_env \<times> commit_env \<times> nat) \<Rightarrow> nat \<Rightarrow> ('db, 'p, 'n) Runtime \<Rightarrow>
   ((DiagnosticCoreFailure + unit) \<times> ('db, 'p, 'n) Runtime) option" where
  "dequeue_loop exec apply_event encode_model world 0 rt = None"
| "dequeue_loop exec apply_event encode_model world (Suc n) rt =
     (case world n of (env, ce, now) \<Rightarrow>
        (case writer_dequeue exec apply_event encode_model env ce rt now of
           (Inl f, rt) \<Rightarrow> Some (Inl f, rt)
         | (Inr took, rt) \<Rightarrow>
             if took then dequeue_loop exec apply_event encode_model world n rt else Some (Inr (), rt)))"

lemma dequeue_loop_drains:
  assumes doc: "sql_documented exec rows mark clean"
  shows "pipeline_serving rows mark encode run_id C F Q rt \<Longrightarrow> length Q < n \<Longrightarrow>
    \<exists>res rt'. dequeue_loop exec apply_event encode_model world n rt = Some (res, rt') \<and>
      rt_drain_intent rt' = rt_drain_intent rt \<and>
      (case res of Inl _ \<Rightarrow> pipeline_safe rows mark encode run_id (C @ F @ Q) rt'
        | Inr _ \<Rightarrow> \<exists>C' F'. C @ F @ Q = C' @ F' \<and> pipeline_serving rows mark encode run_id C' F' [] rt')"
proof (induction n arbitrary: C F Q rt)
  case 0
  then show ?case by simp
next
  case (Suc n)
  obtain env ce now where w: "world n = (env, ce, now)" by (cases "world n") auto
  obtain res rt1 where d: "writer_dequeue exec apply_event encode_model env ce rt now = (res, rt1)" by fastforce
  note t = dequeue_turn [OF doc Suc.prems(1) d]
  show ?case
  proof (cases res)
    case (Inl f)
    with t d w show ?thesis by simp
  next
    case (Inr took)
    with t obtain C' F' Q' where s: "C @ F @ Q = C' @ F' @ Q'" "pipeline_serving rows mark encode run_id C' F' Q' rt1"
        "if took then length Q = Suc (length Q') else Q' = []" and di: "rt_drain_intent rt1 = rt_drain_intent rt" by auto
    show ?thesis
    proof (cases took)
      case True
      with s Suc.prems(2) have "length Q' < n" by simp
      from Suc.IH [OF s(2) this] True d w Inr di show ?thesis unfolding s(1) by simp
    next
      case False
      with s d w Inr di show ?thesis by auto
    qed
  qed
qed

subsection \<open>Properties\<close>

text \<open>
  C1. Whatever producers, clock, file system, quota and database do, and wherever the writer
  thread stops, the archive is a dense prefix of what was admitted: the table of events holds
  exactly the first \<open>k\<close> admitted events, under the keys 1 to \<open>k\<close>, the persisted watermark is
  \<open>k\<close>, and all that was admitted is a stream the reference validator accepts.
\<close>

theorem archive_is_dense_prefix:
  assumes "sql_documented exec rows mark clean"
    and "TransactionalWriter_new run_id (mark db) (mark db) False db projector = Inr w"
    and "rows db = {}" "length (mark db) = 8"
    and "(pipeline_step exec apply_event encode_model read_final encode notify deliver)\<^sup>*\<^sup>*
       (pipeline_init run_id quota w supervisor live) s"
  shows "accepted (map ae_event (pl_admitted s)) \<and>
    (\<exists>k \<le> length (pl_admitted s). rows (pl_db s) = event_row ` set (take k (pl_admitted s)) \<and>
       (\<lambda>r. be_value (er_sequence_key r)) ` rows (pl_db s) = {1..k} \<and> be_value (mark (pl_db s)) = k)"
proof -
  from pipeline_reachable_inv [OF assms] have s: "pipeline_safe rows mark encode run_id (pl_admitted s) (pl_runtime s)"
    by (simp add: pipeline_inv_def)
  then obtain k where k: "k \<le> length (pl_admitted s)" "store_prefix rows mark (pl_db s) (take k (pl_admitted s))"
    unfolding pipeline_safe_def by blast
  let ?es = "take k (pl_admitted s)"
  from k(2) have r: "run_from 0 ?es" "rows (pl_db s) = event_row ` set ?es"
      "mark (pl_db s) = SortableU64Key_new (last_seq 0 ?es)" by (simp_all add: store_prefix_def)
  have "(\<lambda>r. be_value (er_sequence_key r)) ` rows (pl_db s) = {1..k}"
    unfolding r(2) using run_from_keys [OF r(1)] k(1) by (simp add: min_absorb2)
  moreover have "be_value (mark (pl_db s)) = k"
    using run_from_last [OF r(1)] k(1) by (simp add: r(3) be_value_key)
  moreover have "accepted (map ae_event (pl_admitted s))"
    using s by (simp add: pipeline_safe_def hub_tracks_def)
  ultimately show ?thesis using k(1) r(2) by blast
qed

text \<open>
  C3. No admitted event is lost while the writer runs, and the accounting between writer and
  ingress never disagrees: the events of the archive followed by those the ingress still holds
  are the admitted ones, and the only failure the ingress ever latches is an exhausted budget.
\<close>

theorem no_event_lost:
  assumes "sql_documented exec rows mark clean"
    and "TransactionalWriter_new run_id (mark db) (mark db) False db projector = Inr w"
    and "rows db = {}" "length (mark db) = 8"
    and "(pipeline_step exec apply_event encode_model read_final encode notify deliver)\<^sup>*\<^sup>*
       (pipeline_init run_id quota w supervisor live) s"
  shows "(\<forall>f. is_failure (rt_ingress (pl_runtime s)) = Some f \<longrightarrow> icf_kind f = BudgetExhausted) \<and>
    (rt_exit (pl_runtime s) = None \<longrightarrow>
       (\<exists>committed. pl_admitted s = committed @ map te_event (is_outstanding (rt_ingress (pl_runtime s))) \<and>
          rows (pl_db s) = event_row ` set committed \<and> be_value (mark (pl_db s)) = length committed))"
proof -
  note i = pipeline_reachable_inv [OF assms]
  then have "\<forall>f. is_failure (rt_ingress (pl_runtime s)) = Some f \<longrightarrow> icf_kind f = BudgetExhausted"
    unfolding pipeline_inv_def pipeline_safe_def ingress_holds_def by blast
  moreover have "\<exists>committed. pl_admitted s = committed @ map te_event (is_outstanding (rt_ingress (pl_runtime s))) \<and>
      rows (pl_db s) = event_row ` set committed \<and> be_value (mark (pl_db s)) = length committed"
    if x: "rt_exit (pl_runtime s) = None"
  proof -
    from i x obtain C F Q where c: "pl_admitted s = C @ F @ Q"
      "pipeline_serving rows mark encode run_id C F Q (pl_runtime s)" by (rule pipeline_invE)
    from c(2) have "map te_event (is_outstanding (rt_ingress (pl_runtime s))) = F @ Q"
      by (auto simp: pipeline_serving_def ingress_holds_def)
    moreover from c(2) have st: "store_holds rows mark run_id (rt_writer (pl_runtime s)) C"
      by (simp add: pipeline_serving_def)
    moreover have "be_value (mark (pl_db s)) = length C"
      using st run_from_last [of 0 C] by (simp add: store_holds_def be_value_key)
    ultimately show ?thesis using c(1) by (auto simp: store_holds_def)
  qed
  ultimately show ?thesis by blast
qed


text \<open>
  C4. Draining ends: from any reachable state with a shutdown under way and nothing more admitted,
  the loop over the ingress stops after as many turns as events are queued, and either a failure
  is reported or the flush that follows it leaves every admitted event in the archive, unless
  the flush itself reports a failure.
\<close>

theorem drain_commits_everything:
  assumes "sql_documented exec rows mark clean"
    and "TransactionalWriter_new run_id (mark db) (mark db) False db projector = Inr w"
    and "rows db = {}" "length (mark db) = 8"
    and "(pipeline_step exec apply_event encode_model read_final encode notify deliver)\<^sup>*\<^sup>*
       (pipeline_init run_id quota w supervisor live) s"
    and "rt_exit (pl_runtime s) = None" "rt_drain_intent (pl_runtime s) \<noteq> None"
    and "n = Suc (length (is_outstanding (rt_ingress (pl_runtime s))))"
  shows "\<exists>res rt'. dequeue_loop exec apply_event encode_model world n (pl_runtime s) = Some (res, rt') \<and>
    (res = Inr () \<longrightarrow> (\<forall>env ce now worked rt''.
       writer_trigger exec apply_event encode_model env ce rt' now = (Inr worked, rt'') \<longrightarrow>
       rows (tw_db (rt_writer rt'')) = event_row ` set (pl_admitted s) \<and>
       ist_accepted_uncommitted_events (IngressStatus_from_state (rt_ingress rt''))
         = is_reserved_events (rt_ingress rt'')))"
proof -
  from pipeline_reachable_inv [OF assms(1-5)] assms(6) obtain C F Q where c: "pl_admitted s = C @ F @ Q"
    "pipeline_serving rows mark encode run_id C F Q (pl_runtime s)" by (rule pipeline_invE)
  from c(2) have "map te_event (is_outstanding (rt_ingress (pl_runtime s))) = F @ Q"
    by (auto simp: pipeline_serving_def ingress_holds_def)
  then have "length (is_outstanding (rt_ingress (pl_runtime s))) = length (F @ Q)" by (metis length_map)
  with assms(8) have n: "length Q < n" by simp
  from dequeue_loop_drains [OF assms(1) c(2) n] obtain res rt' where
    l: "dequeue_loop exec apply_event encode_model world n (pl_runtime s) = Some (res, rt')"
      "rt_drain_intent rt' = rt_drain_intent (pl_runtime s)"
    and r: "case res of Inl _ \<Rightarrow> pipeline_safe rows mark encode run_id (C @ F @ Q) rt'
        | Inr _ \<Rightarrow> \<exists>C' F'. C @ F @ Q = C' @ F' \<and> pipeline_serving rows mark encode run_id C' F' [] rt'" by blast
  have "rows (tw_db (rt_writer rt'')) = event_row ` set (pl_admitted s) \<and>
       ist_accepted_uncommitted_events (IngressStatus_from_state (rt_ingress rt''))
         = is_reserved_events (rt_ingress rt'')"
    if ok: "res = Inr ()"
      and t: "writer_trigger exec apply_event encode_model env ce rt' now = (Inr worked, rt'')" for env ce now worked rt''
  proof -
    from r ok obtain C' F' where s: "C @ F @ Q = C' @ F'" "pipeline_serving rows mark encode run_id C' F' [] rt'" by auto
    from trigger_turn [OF assms(1) s(2) t] l(2) assms(7)
    have "pipeline_serving rows mark encode run_id (C' @ F') [] [] rt''" by auto
    then have "store_holds rows mark run_id (rt_writer rt'') (C' @ F')"
        and ih: "ingress_holds run_id (C' @ F') [] [] (rt_ingress rt'')" by (simp_all add: pipeline_serving_def)
    moreover from ih have "is_outstanding (rt_ingress rt'') = []" by (auto simp: ingress_holds_def)
    moreover have "is_reserved_events (rt_ingress rt'') < 2 ^ 64"
      using ingress_holds_budget [OF ih] by (simp add: within_budget_def)
    ultimately show ?thesis using c(1) s(1) by (simp add: store_holds_def IngressStatus_from_state_def Let_def)
  qed
  with l show ?thesis by blast
qed

text \<open>A run for the witnesses: an event is admitted, taken, committed by the flush, the Run finalised.\<close>

abbreviation sample_step where
  "sample_step \<equiv> pipeline_step sample_exec (\<lambda>p _. Some (p + 1)) (\<lambda>_. Some sample_materialized)
     (\<lambda>_. Some (Some ''now'', Some ''completed'', 1)) (\<lambda>_. Some [1, 2, 3]) (\<lambda>(n :: unit) _. (Inr (), n)) (\<lambda>(s :: unit) _. (Inr (), s))"

definition sample_world :: commit_env where
  "sample_world = \<lparr> ce_now_before = 0, ce_fsys_before = sample_fsys, ce_now_after = 0, ce_fsys_after = sample_fsys \<rparr>"

definition sample_finish_env :: finish_env where
  "sample_finish_env = \<lparr> fe_abandoned = False, fe_abandoned_inside = False, fe_abandoned_after = False,
     fe_reply_received = True, fe_closed = True, fe_checkpoint_error = None \<rparr>"

definition sample_free_quota :: RunQuota where
  "sample_free_quota = projr (RunQuota_new ''/run'' None)"

definition sample_pipeline0 :: "(sample_db, nat, unit) pipeline" where
  "sample_pipeline0 = pipeline_init 7 sample_free_quota sample_writer (WriterProgressSupervisor_new sample_deadlines) None"

definition sample_admission ::
  "(DurableAdmissionError HubAdmissionError + AdmissionReceipt) \<times> (DurableAdmission, unit) HubState \<times> unit option" where
  "sample_admission = admit_inner (\<lambda>r sz. durable_reserve r sz (Normal, 0, sample_fsys)) durable_commit durable_drop
     (\<lambda>_. Some [1, 2, 3]) (\<lambda>n _. (Inr (), n)) (\<lambda>s _. (Inr (), s)) (rt_hub (pl_runtime sample_pipeline0))
     (\<lambda>i. sample_start (eid_sequence i) 10 None) None"

definition sample_pipeline1 :: "(sample_db, nat, unit) pipeline" where
  "sample_pipeline1 = sample_pipeline0
     \<lparr> pl_runtime := (pl_runtime sample_pipeline0)\<lparr> rt_hub := fst (snd sample_admission) \<rparr>,
       pl_admitted := pl_admitted sample_pipeline0 @
         (case fst sample_admission of Inr receipt \<Rightarrow> [ar_accepted receipt] | Inl _ \<Rightarrow> []) \<rparr>"

definition sample_pipeline2 :: "(sample_db, nat, unit) pipeline" where
  "sample_pipeline2 = sample_pipeline1\<lparr> pl_runtime := stage_end
     (writer_receive_command (pl_runtime sample_pipeline1) (Some (CommandFinalize ''now'' OutcomeCompleted)) 1) \<rparr>"

definition sample_dequeued :: "(DiagnosticCoreFailure + bool) \<times> (sample_db, nat, unit) Runtime" where
  "sample_dequeued = writer_dequeue sample_exec (\<lambda>p _. Some (p + 1)) (\<lambda>_. Some sample_materialized)
     (sample_env True) sample_world (pl_runtime sample_pipeline2) 2"

definition sample_pipeline3 :: "(sample_db, nat, unit) pipeline" where
  "sample_pipeline3 = sample_pipeline2\<lparr> pl_runtime := stage_end sample_dequeued \<rparr>"

definition sample_pipeline4 :: "(sample_db, nat, unit) pipeline" where
  "sample_pipeline4 = sample_pipeline3\<lparr> pl_runtime := stage_end
     (writer_trigger sample_exec (\<lambda>p _. Some (p + 1)) (\<lambda>_. Some sample_materialized)
       (sample_env True) sample_world (pl_runtime sample_pipeline3) 3) \<rparr>"


lemma sample_free_quota_simps [simp]:
  "rq_max_run_bytes sample_free_quota = None" "rq_failure_channel sample_free_quota = None"
  by (simp_all add: sample_free_quota_def RunQuota_new_def)

definition sample_event :: AcceptedDiagnosticEvent where
  "sample_event = \<lparr> ae_event = sample_start 1 10 None, ae_canonical_bytes = [1, 2, 3],
     ae_built_in_span_kind = None, ae_subscriber_local = False \<rparr>"

lemma sample_event_simps [simp]: "accepted_seq sample_event = 1" "accepted_run sample_event = 7"
  "ae_canonical_bytes sample_event = [1, 2, 3]" "event_sequence (ae_event sample_event) = 1"
  "event_run_id (ae_event sample_event) = 7"
  by (simp_all add: sample_event_def AcceptedDiagnosticEvent_identity_def sample_events)

lemma sample_admission_result:
  "fst sample_admission = Inr \<lparr> ar_accepted = sample_event, ar_live_delivery = NotConfigured,
     ar_subscriber_delivery = NotConfigured \<rparr>"
  by (simp add: sample_admission_def sample_pipeline0_def pipeline_init_def durable_reserve_def
      da_quota_precheck_def quota_precheck_def hub_compute validator_compute sample_events sample_event_def)

lemma sample_admission_reserver:
  "hs_reserver (fst (snd sample_admission)) = \<lparr> da_ingress = IngressState_default\<lparr> is_run_id := Some 7,
      is_outstanding := [\<lparr> te_event = sample_event, te_canonical_bytes = 3, te_phase = Queued \<rparr>],
      is_outstanding_canonical_bytes := 3 \<rparr>, da_quota = sample_free_quota \<rparr>"
  by (simp add: sample_admission_def sample_pipeline0_def pipeline_init_def durable_reserve_def durable_commit_def
      da_quota_precheck_def quota_precheck_def hub_compute validator_compute sample_events sample_event_def)

lemmas pipeline_compute = quota_precheck_def post_growth_measurement_def
    sample_admission_result sample_admission_reserver IngressState_default_def
    supervisor_compute accumulator_compute set_ingress_def set_quota_def
    writer_receive_command_def observe_progress_def IngressStatus_from_state_def WriterProgressSample_from_def
    writer_dequeue_def writer_trigger_def try_dequeue_def pipeline_init_def runtime_commit_batch_def
    mark_committed_def validate_commit_def writer_compute writer_finish_def writer_finalize_def
    checkpoint_and_close_writer_def finalize_run_with_hook_def sample_finish_env_def wrapping_sub_def

lemmas sample_pipeline_defs = sample_pipeline4_def sample_pipeline3_def sample_dequeued_def
  sample_pipeline2_def sample_pipeline1_def sample_pipeline0_def

lemma sample_running:
  "rt_exit (pl_runtime sample_pipeline1) = None" "rt_exit (pl_runtime sample_pipeline2) = None"
  "rt_exit (pl_runtime sample_pipeline3) = None" "rt_exit (pl_runtime sample_pipeline4) = None"
  "rt_drain_intent (pl_runtime sample_pipeline2) = Some (IntentFinalize ''now'' OutcomeCompleted)"
  "rt_drain_intent (pl_runtime sample_pipeline4) = Some (IntentFinalize ''now'' OutcomeCompleted)"
  "pl_admitted sample_pipeline2 = [sample_event]" "pl_admitted sample_pipeline4 = [sample_event]"
  "sd_mark (pl_db sample_pipeline4) = SortableU64Key_new 1"
  by (simp_all add: sample_pipeline_defs pipeline_compute Let_def)

abbreviation sample_closing where
  "sample_closing \<equiv> writer_finish sample_exec (\<lambda>_. Some (Some ''now'', Some ''completed'', 1)) (sample_env True)
     sample_finish_env sample_world (pl_runtime sample_pipeline4) 4"

lemma sample_finished: "sample_closing = (Inr True, snd sample_closing)"
  by (rule prod_eqI) (simp_all add: sample_pipeline_defs pipeline_compute Let_def)

lemma sample_reached:
  "sample_step\<^sup>*\<^sup>* sample_pipeline0 sample_pipeline2" "sample_step\<^sup>*\<^sup>* sample_pipeline0 sample_pipeline4"
proof -
  have "sample_step sample_pipeline0 sample_pipeline1"
    unfolding sample_pipeline1_def
    by (rule pipeline_step.admit [where subscriber' = "snd (snd sample_admission)"])
       (simp add: sample_admission_def)
  moreover have "sample_step sample_pipeline1 sample_pipeline2"
    unfolding sample_pipeline2_def by (rule pipeline_step.receive [OF sample_running(1)])
  ultimately show r: "sample_step\<^sup>*\<^sup>* sample_pipeline0 sample_pipeline2" by simp
  moreover have "sample_step sample_pipeline2 sample_pipeline3"
    unfolding sample_pipeline3_def sample_dequeued_def by (rule pipeline_step.dequeue [OF sample_running(2)])
  moreover have "sample_step sample_pipeline3 sample_pipeline4"
    unfolding sample_pipeline4_def by (rule pipeline_step.trigger [OF sample_running(3)])
  ultimately show "sample_step\<^sup>*\<^sup>* sample_pipeline0 sample_pipeline4" by simp
qed

lemma sample_fresh:
  "TransactionalWriter_new 7 (sd_mark (tw_db sample_writer)) (sd_mark (tw_db sample_writer)) False
      (tw_db sample_writer) (0 :: nat) = Inr sample_writer"
  "sample_rows (tw_db sample_writer) = {}" "length (sd_mark (tw_db sample_writer)) = 8"
  by (simp_all add: TransactionalWriter_new_def sample_writer_def sample_rows_def)

lemmas sample_hypotheses = sample_exec_documented sample_fresh sample_reached [unfolded sample_pipeline0_def]

theorem archive_is_dense_prefix_witness:
  "sample_rows (pl_db sample_pipeline4) = {event_row sample_event} \<and> accepted [ae_event sample_event]"
proof -
  from archive_is_dense_prefix [OF sample_hypotheses(1-4,6)] obtain k where k: "k \<le> 1"
      "sample_rows (pl_db sample_pipeline4) = event_row ` set (take k [sample_event])"
      "be_value (sd_mark (pl_db sample_pipeline4)) = k"
    and a: "accepted [ae_event sample_event]" by (auto simp: sample_running)
  have "k = 1" using k(3) by (simp add: sample_running be_value_key)
  with k(2) a show ?thesis by simp
qed

theorem no_event_lost_witness:
  "\<exists>committed. [sample_event] = committed @ map te_event (is_outstanding (rt_ingress (pl_runtime sample_pipeline2))) \<and>
     sample_rows (pl_db sample_pipeline2) = event_row ` set committed"
  using no_event_lost [OF sample_hypotheses(1-5)] unfolding sample_running by auto


theorem drain_commits_everything_witness:
  "\<exists>res rt'. dequeue_loop sample_exec (\<lambda>p _. Some (p + 1)) (\<lambda>_. Some sample_materialized)
      (\<lambda>_. (sample_env True, sample_world, 2)) 2 (pl_runtime sample_pipeline2) = Some (res, rt')"
proof -
  have n: "2 = Suc (length (is_outstanding (rt_ingress (pl_runtime sample_pipeline2))))"
    by (simp add: sample_pipeline_defs pipeline_compute Let_def)
  show ?thesis
    using drain_commits_everything [OF sample_hypotheses(1-5) sample_running(2) _ n,
        where world = "\<lambda>_. (sample_env True, sample_world, 2)"]
    unfolding sample_running(5) by auto
qed

end
