(* ===== verification/Projection.thy ===== *)
theory Projection
  imports Validator_Spec
begin

section \<open>Read models of a stream\<close>

text \<open>
  What the six projectors of \<^verbatim>\<open>rust/crates/troupe-diagnostics-runtime/src/store/projector\<close> share.
  Each holds a reference validator and a model; each looks at an event's position, builds the
  next model, has the references of the event validated, and takes the new model only when all
  of that succeeded. The contract of a model is the locale \<open>read_model\<close>, interpreted on each of
  them; from it and from the validator's specification follows what any projector accepts.
\<close>

text \<open>\<^verbatim>\<open>iter_mut().find(..)\<close> followed by an update of what was found.\<close>

fun update_first :: "('a \<Rightarrow> bool) \<Rightarrow> ('a \<Rightarrow> 'a) \<Rightarrow> 'a list \<Rightarrow> 'a list" where
  "update_first p f [] = []"
| "update_first p f (x # xs) = (if p x then f x # xs else x # update_first p f xs)"

record 'm projector =
  pj_references :: ReferenceValidator
  pj_model :: 'm

definition projector_new :: "'m \<Rightarrow> 'm projector" where
  "projector_new model = \<lparr> pj_references = ReferenceValidator_new, pj_model = model \<rparr>"

text \<open>\<^verbatim>\<open>apply\<close> of the message, plan, counter and usage projectors.\<close>

definition projector_apply ::
  "('m \<Rightarrow> DiagnosticEvent \<Rightarrow> 'e + 'm) \<Rightarrow> (ReferenceValidationError \<Rightarrow> 'e) \<Rightarrow> 'm projector \<Rightarrow> DiagnosticEvent \<Rightarrow>
   ('e + unit) \<times> 'm projector" where
  "projector_apply candidate_for_event invalid p event =
     (case candidate_for_event (pj_model p) event of
        Inl err \<Rightarrow> (Inl err, p)
      | Inr candidate \<Rightarrow>
          (case validate (pj_references p) event of
             (Inl err, references) \<Rightarrow> (Inl (invalid err), p\<lparr> pj_references := references \<rparr>)
           | (Inr _, references) \<Rightarrow> (Inr (), \<lparr> pj_references = references, pj_model = candidate \<rparr>)))"

fun apply_all ::
  "('p \<Rightarrow> DiagnosticEvent \<Rightarrow> ('e + unit) \<times> 'p) \<Rightarrow> 'p \<Rightarrow> DiagnosticEvent list \<Rightarrow> ('e + unit) \<times> 'p" where
  "apply_all step p [] = (Inr (), p)"
| "apply_all step p (e # es) =
     (case step p e of (Inl err, p) \<Rightarrow> (Inl err, p) | (Inr _, p) \<Rightarrow> apply_all step p es)"

definition project_with ::
  "('m projector \<Rightarrow> DiagnosticEvent \<Rightarrow> ('e + unit) \<times> 'm projector) \<Rightarrow> 'm \<Rightarrow> DiagnosticEvent list \<Rightarrow> 'e + 'm" where
  "project_with step model events =
     (case apply_all step (projector_new model) events of
        (Inl err, _) \<Rightarrow> Inl err | (Inr _, p) \<Rightarrow> Inr (pj_model p))"

subsection \<open>Positions\<close>

definition next_position :: "canonical_uuid \<Rightarrow> u64 \<Rightarrow> DiagnosticEvent \<Rightarrow> bool" where
  "next_position run_id through e \<longleftrightarrow>
     event_run_id e = run_id \<and> unat through < 2 ^ 64 - 1 \<and> event_sequence e = through + 1"

fun dense_from :: "canonical_uuid \<Rightarrow> u64 \<Rightarrow> DiagnosticEvent list \<Rightarrow> bool" where
  "dense_from run_id through [] = True"
| "dense_from run_id through (e # es) =
     (next_position run_id through e \<and> dense_from run_id (event_sequence e) es)"

definition last_sequence :: "u64 \<Rightarrow> DiagnosticEvent list \<Rightarrow> u64" where
  "last_sequence through es = (if es = [] then through else event_sequence (last es))"

definition latest_elapsed :: "DiagnosticEvent list \<Rightarrow> elapsed_ns" where
  "latest_elapsed es = fold (\<lambda>e t. max t (event_elapsed e)) es 0"

text \<open>The comparison every projector makes of an event's sequence with its own.\<close>

lemma position_check:
  "(case checked_add_u64 q 1 of None \<Rightarrow> Inl a | Some expected \<Rightarrow> if s \<noteq> expected then Inl (b expected) else Inr ()) = Inr u
   \<longleftrightarrow> unat q < 2 ^ 64 - 1 \<and> s = q + 1"
  using unat_less_2p64 [of q] by (auto simp: checked_add_u64_one)

lemma position_check_tie:
  "(if q > 0 \<and> s = q then Inl t
    else case checked_add_u64 q 1 of None \<Rightarrow> Inl a | Some expected \<Rightarrow> if s \<noteq> expected then Inl (b expected) else Inr ()) = Inr u
   \<longleftrightarrow> unat q < 2 ^ 64 - 1 \<and> s = q + 1"
proof (cases "q > 0 \<and> s = q")
  case True
  then show ?thesis by simp
next
  case False
  then show ?thesis by (simp add: position_check)
qed

lemma last_sequence_simps [simp]:
  "last_sequence q [] = q" "last_sequence q (es @ [e]) = event_sequence e"
  "last_sequence q (e # es) = last_sequence (event_sequence e) es"
  by (simp_all add: last_sequence_def)

lemma latest_elapsed_simps [simp]:
  "latest_elapsed [] = 0" "latest_elapsed (es @ [e]) = max (latest_elapsed es) (event_elapsed e)"
  by (simp_all add: latest_elapsed_def)

lemma dense_from_snoc [simp]:
  "dense_from r q (es @ [e]) \<longleftrightarrow> dense_from r q es \<and> next_position r (last_sequence q es) e"
  by (induction es arbitrary: q) auto

lemma dense_from_nth:
  "dense_from r q es \<Longrightarrow> i < length es \<Longrightarrow> unat (event_sequence (es ! i)) = unat q + Suc i"
proof (induction es arbitrary: q i)
  case (Cons e es)
  from Cons.prems(1) have q: "unat q < 2 ^ 64 - 1" "event_sequence e = q + 1" "dense_from r (event_sequence e) es"
    unfolding dense_from.simps next_position_def by blast+
  from q(2) unat_Suc_u64 [OF q(1)] have s: "unat (event_sequence e) = Suc (unat q)" by simp
  show ?case
  proof (cases i)
    case 0
    then show ?thesis using s by simp
  next
    case (Suc j)
    with Cons.IH [OF q(3), of j] Cons.prems(2) s show ?thesis by simp
  qed
qed simp

lemma dense_from_run: "dense_from r q es \<Longrightarrow> e \<in> set es \<Longrightarrow> event_run_id e = r"
  by (induction es arbitrary: q) (auto simp: next_position_def)

lemma dense_from_distinct: "dense_from r q es \<Longrightarrow> distinct (map event_sequence es)"
  unfolding distinct_conv_nth length_map using dense_from_nth [of r q es] by (metis add_left_cancel nat.inject nth_map)

lemma dense_from_bounds:
  assumes "dense_from r q es" "e \<in> set es"
  shows "q < event_sequence e" "event_sequence e \<le> last_sequence q es"
proof -
  from assms(2) obtain i where i: "i < length es" "e = es ! i" by (auto simp: in_set_conv_nth)
  with dense_from_nth [OF assms(1)] have s: "unat (event_sequence e) = unat q + Suc i" by simp
  then show "q < event_sequence e" by (simp add: word_less_nat_alt)
  have "es \<noteq> []" using assms(2) by auto
  then have "unat (last_sequence q es) = unat q + length es"
    using dense_from_nth [OF assms(1), of "length es - 1"] by (simp add: last_sequence_def last_conv_nth)
  with s i(1) show "event_sequence e \<le> last_sequence q es" by (simp add: word_le_nat_alt)
qed

text \<open>A condition on every event and those before it.\<close>

definition every_event :: "(DiagnosticEvent list \<Rightarrow> DiagnosticEvent \<Rightarrow> bool) \<Rightarrow> DiagnosticEvent list \<Rightarrow> bool" where
  "every_event fits es \<longleftrightarrow> (\<forall>i < length es. fits (take i es) (es ! i))"

lemma every_event_Nil [simp]: "every_event fits []"
  by (simp add: every_event_def)

lemma every_event_snoc [simp]: "every_event fits (es @ [e]) \<longleftrightarrow> every_event fits es \<and> fits es e"
  by (auto simp: every_event_def nth_append less_Suc_eq)

subsection \<open>The contract of a read model\<close>

locale read_model =
  fixes candidate_for_event :: "'m \<Rightarrow> DiagnosticEvent \<Rightarrow> 'e + 'm"
    and model_run :: "'m \<Rightarrow> canonical_uuid"
    and model_through :: "'m \<Rightarrow> u64"
    and model_elapsed :: "'m \<Rightarrow> elapsed_ns"
  assumes candidate_position:
    "candidate_for_event m e = Inr m' \<Longrightarrow>
     next_position (model_run m) (model_through m) e \<and> model_run m' = model_run m \<and>
     model_through m' = event_sequence e \<and> model_elapsed m' = max (model_elapsed m) (event_elapsed e)"

context read_model
begin

lemma candidates_dense:
  "fold_res candidate_for_event m es = Inr m' \<Longrightarrow> model_elapsed m = 0 \<Longrightarrow>
   dense_from (model_run m) (model_through m) es \<and> model_run m' = model_run m \<and>
   model_through m' = last_sequence (model_through m) es \<and> model_elapsed m' = latest_elapsed es"
proof (induction es arbitrary: m' rule: rev_induct)
  case Nil
  then show ?case by simp
next
  case (snoc e es)
  then obtain m1 where m1: "fold_res candidate_for_event m es = Inr m1" "candidate_for_event m1 e = Inr m'" by auto
  from snoc.IH [OF m1(1) snoc.prems(2)] candidate_position [OF m1(2)] show ?case by simp
qed

end

subsection \<open>What a projector accepts\<close>

lemma validate_refused_same: "validate v e = (Inl err, v') \<Longrightarrow> v' = v"
  by (auto simp: validate_def split: sum.splits)

text \<open>An event that is refused leaves the projector as it was.\<close>

lemma projector_apply_refused: "projector_apply candidate invalid p e = (Inl err, p') \<Longrightarrow> p' = p"
  by (auto simp: projector_apply_def split: sum.splits prod.splits dest!: validate_refused_same)

text \<open>Projector steps that take an event exactly when the model and the validator do.\<close>

definition steps_like ::
  "('m projector \<Rightarrow> DiagnosticEvent \<Rightarrow> ('e + unit) \<times> 'm projector) \<Rightarrow> ('m \<Rightarrow> DiagnosticEvent \<Rightarrow> 'c + 'm) \<Rightarrow> bool" where
  "steps_like step candidate \<longleftrightarrow>
     (\<forall>v m e p. step \<lparr> pj_references = v, pj_model = m \<rparr> e = (Inr (), p) \<longleftrightarrow>
        (\<exists>m' ok v'. candidate m e = Inr m' \<and> validate v e = (Inr ok, v') \<and> p = \<lparr> pj_references = v', pj_model = m' \<rparr>))"

lemma projector_apply_like: "steps_like (projector_apply candidate invalid) candidate"
  unfolding steps_like_def projector_apply_def by (auto split: sum.splits prod.splits)

lemma steps_like_refused:
  assumes "steps_like step candidate" "step \<lparr> pj_references = v, pj_model = m \<rparr> e = (r, q)"
    "(\<exists>err. candidate m e = Inl err) \<or> (\<exists>err v'. validate v e = (Inl err, v'))"
  shows "\<exists>err. r = Inl err"
proof (cases r)
  case (Inr u)
  with assms(1,2) obtain m' ok v' where "candidate m e = Inr m'" "validate v e = (Inr ok, v')"
    unfolding steps_like_def by auto
  with assms(3) show ?thesis by auto
qed simp

lemma apply_all_iff:
  assumes like: "steps_like step candidate"
  shows "tracks v h \<Longrightarrow> accepted h \<Longrightarrow>
    (\<exists>p. apply_all step \<lparr> pj_references = v, pj_model = m \<rparr> es = (Inr (), p) \<and> pj_model p = m') \<longleftrightarrow>
    fold_res candidate m es = Inr m' \<and> accepted (h @ es)"
proof (induction es arbitrary: v m h)
  case Nil
  then show ?case by auto
next
  case (Cons e es)
  obtain r q where s: "step \<lparr> pj_references = v, pj_model = m \<rparr> e = (r, q)" by fastforce
  from validate_tracks [OF Cons.prems(1), of e] show ?case
  proof (elim disjE exE conjE)
    fix k
    assume v: "validate v e = (Inr \<lparr> ve_event = e, ve_built_in_span_kind = k \<rparr>, commit v e (change_of e))"
      and a: "admissible h e"
    show ?thesis
    proof (cases "candidate m e")
      case (Inl err)
      with steps_like_refused [OF like s] obtain err' where "r = Inl err'" by blast
      with s Inl show ?thesis by simp
    next
      case (Inr m1)
      let ?v = "commit v e (change_of e)"
      from like v Inr have "step \<lparr> pj_references = v, pj_model = m \<rparr> e = (Inr (), \<lparr> pj_references = ?v, pj_model = m1 \<rparr>)"
        unfolding steps_like_def by blast
      with Cons.IH [OF tracks_commit [OF Cons.prems(1) a] accepted_snoc [OF Cons.prems(2) a], of m1] Inr
      show ?thesis by simp
    qed
  next
    fix err
    assume v: "validate v e = (Inl err, v)" and a: "\<not> admissible h e"
    with steps_like_refused [OF like s] obtain err' where "r = Inl err'" by blast
    moreover from a have "\<not> accepted (h @ e # es)" using accepted_admissible by blast
    ultimately show ?thesis using s by simp
  qed
qed

lemma project_with_iff:
  assumes "steps_like step candidate"
  shows "project_with step m es = Inr m' \<longleftrightarrow> fold_res candidate m es = Inr m' \<and> accepted es"
proof -
  have "project_with step m es = Inr m' \<longleftrightarrow>
      (\<exists>p. apply_all step \<lparr> pj_references = ReferenceValidator_new, pj_model = m \<rparr> es = (Inr (), p) \<and> pj_model p = m')"
    by (auto simp: project_with_def projector_new_def split: prod.splits sum.splits)
  with apply_all_iff [OF assms tracks_new accepted_Nil] show ?thesis by simp
qed

subsection \<open>Updates of the first match\<close>

lemma map_filter_snoc [simp]: "List.map_filter f (xs @ [x]) = List.map_filter f xs @ (case f x of None \<Rightarrow> [] | Some y \<Rightarrow> [y])"
  by (simp add: List.map_filter_def split: option.splits)

lemma map_filter_set: "y \<in> set (List.map_filter f xs) \<longleftrightarrow> (\<exists>x \<in> set xs. f x = Some y)"
  by (force simp: List.map_filter_def)

lemma update_first_none: "\<forall>x \<in> set xs. \<not> p x \<Longrightarrow> update_first p f xs = xs"
  by (induction xs) auto

lemma update_first_distinct:
  "distinct (map key xs) \<Longrightarrow> update_first (\<lambda>x. key x = k) f xs = map (\<lambda>x. if key x = k then f x else x) xs"
proof (induction xs)
  case (Cons x xs)
  have "map (\<lambda>x. if key x = k then f x else x) xs = xs" if "key x = k"
    using Cons.prems that by (intro map_idI) (auto simp: image_iff)
  with Cons show ?case by auto
qed simp

lemma find_key_Some:
  "distinct (map key xs) \<Longrightarrow> List.find (\<lambda>x. key x = k) xs = Some y \<longleftrightarrow> y \<in> set xs \<and> key y = k"
  by (induction xs) auto

subsection \<open>Tables keyed by identity\<close>

text \<open>
  Three of the models keep one entry per identity, in the order in which the identities first
  occur. \<open>key\<close> tells which identity an event speaks of, \<open>entry\<close> makes the entry of an identity from
  the events that speak of it, and \<open>ident\<close> reads the identity off an entry, as the projectors do
  when they look for one.
\<close>

definition with_key :: "('x \<Rightarrow> 'k option) \<Rightarrow> 'k \<Rightarrow> 'x list \<Rightarrow> 'x list" where
  "with_key key i es = filter (\<lambda>e. key e = Some i) es"

definition first_keys :: "('x \<Rightarrow> 'k option) \<Rightarrow> 'x list \<Rightarrow> 'k list" where
  "first_keys key es = rev (remdups (rev (List.map_filter key es)))"

definition table_of ::
  "('x \<Rightarrow> 'k option) \<Rightarrow> ('k \<Rightarrow> 'x list \<Rightarrow> 'a) \<Rightarrow> 'x list \<Rightarrow> 'a list" where
  "table_of key entry es = map (\<lambda>i. entry i (with_key key i es)) (first_keys key es)"

lemma with_key_snoc: "with_key key i (es @ [e]) = with_key key i es @ (if key e = Some i then [e] else [])"
  by (simp add: with_key_def)

lemma with_key_empty: "with_key key i es = [] \<longleftrightarrow> i \<notin> set (first_keys key es)"
  by (force simp: with_key_def first_keys_def List.map_filter_def filter_empty_conv)

lemma first_keys_snoc:
  "first_keys key (es @ [e]) = (case key e of None \<Rightarrow> first_keys key es
     | Some i \<Rightarrow> if i \<in> set (first_keys key es) then first_keys key es else first_keys key es @ [i])"
  by (auto simp: first_keys_def List.map_filter_def split: option.splits)

lemma first_keys_distinct: "distinct (first_keys key es)"
  by (simp add: first_keys_def)

lemma table_of_Nil [simp]: "table_of key entry [] = []"
  by (simp add: table_of_def first_keys_def List.map_filter_def)

lemma table_of_other: "key e = None \<Longrightarrow> table_of key entry (es @ [e]) = table_of key entry es"
  by (simp add: table_of_def first_keys_snoc with_key_snoc)

lemma table_of_new:
  assumes "key e = Some i" "with_key key i es = []"
  shows "table_of key entry (es @ [e]) = table_of key entry es @ [entry i [e]]"
proof -
  have k: "first_keys key (es @ [e]) = first_keys key es @ [i]" "i \<notin> set (first_keys key es)"
    using assms by (simp_all add: first_keys_snoc with_key_empty)
  have "with_key key j (es @ [e]) = with_key key j es" if "j \<in> set (first_keys key es)" for j
    using that assms(1) k(2) by (auto simp: with_key_snoc)
  then show ?thesis using assms by (simp add: table_of_def k(1) with_key_snoc)
qed

locale keyed_table =
  fixes key :: "'x \<Rightarrow> 'k option"
    and entry :: "'k \<Rightarrow> 'x list \<Rightarrow> 'a"
    and ident :: "'a \<Rightarrow> 'k"
  assumes ident_entry: "with_key key i es \<noteq> [] \<Longrightarrow> ident (entry i (with_key key i es)) = i"

context keyed_table
begin

lemma idents: "map ident (table_of key entry es) = first_keys key es"
  unfolding table_of_def map_map by (rule map_idI) (auto simp: ident_entry with_key_empty)

lemma idents_distinct: "distinct (map ident (table_of key entry es))"
  by (simp add: idents first_keys_distinct)

lemma table_find:
  "List.find (\<lambda>x. ident x = i) (table_of key entry es)
     = (if with_key key i es = [] then None else Some (entry i (with_key key i es)))"
proof (cases "i \<in> set (first_keys key es)")
  case True
  then have "entry i (with_key key i es) \<in> set (table_of key entry es)" "with_key key i es \<noteq> []"
    by (auto simp: table_of_def with_key_empty)
  with find_key_Some [OF idents_distinct] ident_entry show ?thesis by auto
next
  case False
  with idents [of es] have "\<forall>x \<in> set (table_of key entry es). ident x \<noteq> i" by (metis image_eqI list.set_map)
  with False show ?thesis by (auto simp: find_None_iff with_key_empty)
qed

lemma table_join:
  assumes "key e = Some i" "with_key key i es \<noteq> []"
    "f (entry i (with_key key i es)) = entry i (with_key key i es @ [e])"
  shows "update_first (\<lambda>x. ident x = i) f (table_of key entry es) = table_of key entry (es @ [e])"
proof -
  have "update_first (\<lambda>x. ident x = i) f (table_of key entry es)
      = map (\<lambda>x. if ident x = i then f x else x) (table_of key entry es)"
    by (rule update_first_distinct [OF idents_distinct])
  also have "\<dots> = map (\<lambda>j. if j = i then f (entry j (with_key key j es)) else entry j (with_key key j es))
      (first_keys key es)"
    unfolding table_of_def map_map by (rule map_cong) (auto simp: ident_entry with_key_empty)
  also have "\<dots> = table_of key entry (es @ [e])"
    using assms by (auto simp: table_of_def first_keys_snoc with_key_empty with_key_snoc)
  finally show ?thesis .
qed

end

end
