(* ===== verification/Spans.thy ===== *)
theory Spans
  imports Projection
begin

section \<open>The span read model\<close>

text \<open>
  Models \<^verbatim>\<open>projector/spans.rs\<close>: the table of spans built from a stream, with its queries. Shown:
  the table is exactly what the stream says, one span per start in the order of the starts, with
  the completion of its finish.
\<close>

record SpanCompletion =
  spc_finish_sequence :: u64
  spc_finished_at_ns :: elapsed_ns
  spc_outcome :: SpanOutcome
  spc_error_code :: "string option"
  spc_caused_by :: "CausalLink list"

definition SpanCompletion_built_in :: "SpanFinished \<Rightarrow> SpanCompletion" where
  "SpanCompletion_built_in event =
     \<lparr> spc_finish_sequence = hdr_sequence (sf_header event), spc_finished_at_ns = hdr_elapsed_ns (sf_header event),
       spc_outcome = sf_outcome event, spc_error_code = sf_error_code event,
       spc_caused_by = hdr_caused_by (sf_header event) \<rparr>"

definition SpanCompletion_custom :: "CustomSpanFinished \<Rightarrow> SpanCompletion" where
  "SpanCompletion_custom event =
     \<lparr> spc_finish_sequence = hdr_sequence (csf_header event), spc_finished_at_ns = hdr_elapsed_ns (csf_header event),
       spc_outcome = csf_outcome event, spc_error_code = None,
       spc_caused_by = hdr_caused_by (csf_header event) \<rparr>"

datatype ProjectedSpanDefinition =
    BuiltInDefinition SpanStartDetail
  | CustomDefinition string diagnostic_attributes

fun definition_built_in_kind :: "ProjectedSpanDefinition \<Rightarrow> SpanKind option" where
  "definition_built_in_kind (BuiltInDefinition detail) = Some (SpanStartDetail_kind detail)"
| "definition_built_in_kind (CustomDefinition _ _) = None"

record ProjectedSpan =
  psp_run_id :: canonical_uuid
  psp_span_id :: u64
  psp_started_at_ns :: elapsed_ns
  psp_scope :: DiagnosticScope
  psp_parent_span_id :: "u64 option"
  psp_started_caused_by :: "CausalLink list"
  psp_definition :: ProjectedSpanDefinition
  psp_completion :: "SpanCompletion option"

definition ProjectedSpan_built_in :: "SpanStarted \<Rightarrow> ProjectedSpan" where
  "ProjectedSpan_built_in event =
     \<lparr> psp_run_id = hdr_run_id (ss_header event), psp_span_id = hdr_sequence (ss_header event),
       psp_started_at_ns = hdr_elapsed_ns (ss_header event), psp_scope = hdr_scope (ss_header event),
       psp_parent_span_id = ss_parent_span_id event, psp_started_caused_by = hdr_caused_by (ss_header event),
       psp_definition = BuiltInDefinition (ss_detail event), psp_completion = None \<rparr>"

definition ProjectedSpan_custom :: "CustomSpanStarted \<Rightarrow> ProjectedSpan" where
  "ProjectedSpan_custom event =
     \<lparr> psp_run_id = hdr_run_id (css_header event), psp_span_id = hdr_sequence (css_header event),
       psp_started_at_ns = hdr_elapsed_ns (css_header event), psp_scope = hdr_scope (css_header event),
       psp_parent_span_id = css_parent_span_id event, psp_started_caused_by = hdr_caused_by (css_header event),
       psp_definition = CustomDefinition (css_name event) (css_attributes event), psp_completion = None \<rparr>"

definition span_is_open :: "ProjectedSpan \<Rightarrow> bool" where
  "span_is_open s \<longleftrightarrow> psp_completion s = None"

definition span_latest_sequence :: "ProjectedSpan \<Rightarrow> u64" where
  "span_latest_sequence s = (case psp_completion s of None \<Rightarrow> psp_span_id s | Some c \<Rightarrow> spc_finish_sequence c)"

definition elapsed_duration_ns :: "ProjectedSpan \<Rightarrow> elapsed_ns option" where
  "elapsed_duration_ns s =
     (case psp_completion s of
        None \<Rightarrow> None
      | Some c \<Rightarrow> if psp_started_at_ns s \<le> spc_finished_at_ns c
                  then Some (spc_finished_at_ns c - psp_started_at_ns s) else None)"

abbreviation SPAN_READ_MODEL_SCHEMA_VERSION :: "8 word" where "SPAN_READ_MODEL_SCHEMA_VERSION \<equiv> 1"

record SpanReadModel =
  spm_model_schema_version :: "8 word"
  spm_run_id :: canonical_uuid
  spm_through_sequence :: u64
  spm_through_elapsed_ns :: elapsed_ns
  spm_spans :: "ProjectedSpan list"

definition SpanReadModel_empty :: "canonical_uuid \<Rightarrow> SpanReadModel" where
  "SpanReadModel_empty run_id =
     \<lparr> spm_model_schema_version = SPAN_READ_MODEL_SCHEMA_VERSION, spm_run_id = run_id,
       spm_through_sequence = 0, spm_through_elapsed_ns = 0, spm_spans = [] \<rparr>"

definition model_span :: "SpanReadModel \<Rightarrow> u64 \<Rightarrow> ProjectedSpan option" where
  "model_span m span_id = List.find (\<lambda>s. psp_span_id s = span_id) (spm_spans m)"

definition open_spans :: "SpanReadModel \<Rightarrow> ProjectedSpan list" where
  "open_spans m = filter span_is_open (spm_spans m)"

definition completed_spans :: "SpanReadModel \<Rightarrow> ProjectedSpan list" where
  "completed_spans m = filter (\<lambda>s. \<not> span_is_open s) (spm_spans m)"

definition roots :: "SpanReadModel \<Rightarrow> ProjectedSpan list" where
  "roots m = filter (\<lambda>s. psp_parent_span_id s = None) (spm_spans m)"

definition children_of :: "SpanReadModel \<Rightarrow> u64 \<Rightarrow> ProjectedSpan list" where
  "children_of m parent_span_id = filter (\<lambda>s. psp_parent_span_id s = Some parent_span_id) (spm_spans m)"

definition causal_successors_of :: "SpanReadModel \<Rightarrow> u64 \<Rightarrow> ProjectedSpan list" where
  "causal_successors_of m source_sequence =
     filter (\<lambda>s. list_ex (\<lambda>l. cl_source_sequence l = source_sequence) (psp_started_caused_by s)) (spm_spans m)"

definition spans_in_scope :: "SpanReadModel \<Rightarrow> DiagnosticScope \<Rightarrow> ProjectedSpan list" where
  "spans_in_scope m scope = filter (\<lambda>s. psp_scope s = scope) (spm_spans m)"

definition spans_within_scope :: "SpanReadModel \<Rightarrow> DiagnosticScope \<Rightarrow> ProjectedSpan list" where
  "spans_within_scope m scope = filter (\<lambda>s. scope_contains scope (psp_scope s)) (spm_spans m)"

datatype SpanProjectionError =
    SpanRunIdentityMismatch canonical_uuid canonical_uuid u64
  | SpanNonCanonicalSequence u64 u64
  | SpanSequenceExhausted u64
  | SpanInvalidReference ReferenceValidationError

definition span_validate_position :: "SpanReadModel \<Rightarrow> DiagnosticEvent \<Rightarrow> SpanProjectionError + unit" where
  "span_validate_position m event =
     (if event_run_id event \<noteq> spm_run_id m
      then Inl (SpanRunIdentityMismatch (spm_run_id m) (event_run_id event) (event_sequence event))
      else case checked_add_u64 (spm_through_sequence m) 1 of
        None \<Rightarrow> Inl (SpanSequenceExhausted (event_sequence event))
      | Some expected \<Rightarrow>
          if event_sequence event \<noteq> expected
          then Inl (SpanNonCanonicalSequence expected (event_sequence event)) else Inr ())"

text \<open>
  The two \<^verbatim>\<open>expect\<close>s on the span of a finish: \<open>update_first\<close> leaves the table as it is when there is
  none; \<open>finish_finds_span\<close> below shows that there always is one.
\<close>

definition span_apply_validated_event :: "SpanReadModel \<Rightarrow> DiagnosticEvent \<Rightarrow> SpanReadModel" where
  "span_apply_validated_event m event =
     (case event of
        SpanStarted start \<Rightarrow> m\<lparr> spm_spans := spm_spans m @ [ProjectedSpan_built_in start] \<rparr>
      | CustomSpanStarted start \<Rightarrow> m\<lparr> spm_spans := spm_spans m @ [ProjectedSpan_custom start] \<rparr>
      | SpanFinished finish \<Rightarrow>
          m\<lparr> spm_spans := update_first (\<lambda>s. psp_span_id s = sf_span_id finish)
             (\<lambda>s. s\<lparr> psp_completion := Some (SpanCompletion_built_in finish) \<rparr>) (spm_spans m) \<rparr>
      | CustomSpanFinished finish \<Rightarrow>
          m\<lparr> spm_spans := update_first (\<lambda>s. psp_span_id s = csf_span_id finish)
             (\<lambda>s. s\<lparr> psp_completion := Some (SpanCompletion_custom finish) \<rparr>) (spm_spans m) \<rparr>
      | _ \<Rightarrow> m)
     \<lparr> spm_through_sequence := event_sequence event,
       spm_through_elapsed_ns := max (spm_through_elapsed_ns m) (event_elapsed event) \<rparr>"

definition span_project_validated_event ::
  "SpanReadModel \<Rightarrow> DiagnosticEvent \<Rightarrow> SpanProjectionError + SpanReadModel" where
  "span_project_validated_event m event =
     res_bind (span_validate_position m event) (\<lambda>_. Inr (span_apply_validated_event m event))"

definition SpanProjector_apply ::
  "SpanReadModel projector \<Rightarrow> DiagnosticEvent \<Rightarrow> (SpanProjectionError + unit) \<times> SpanReadModel projector" where
  "SpanProjector_apply p event =
     (case span_validate_position (pj_model p) event of
        Inl err \<Rightarrow> (Inl err, p)
      | Inr _ \<Rightarrow>
          (case validate (pj_references p) event of
             (Inl err, references) \<Rightarrow> (Inl (SpanInvalidReference err), p\<lparr> pj_references := references \<rparr>)
           | (Inr _, references) \<Rightarrow>
               (Inr (), \<lparr> pj_references = references,
                  pj_model = span_apply_validated_event (pj_model p) event \<rparr>)))"

definition project_spans :: "canonical_uuid \<Rightarrow> DiagnosticEvent list \<Rightarrow> SpanProjectionError + SpanReadModel" where
  "project_spans run_id events = project_with SpanProjector_apply (SpanReadModel_empty run_id) events"

subsection \<open>The table a stream describes\<close>

definition started_span :: "DiagnosticEvent \<Rightarrow> ProjectedSpan option" where
  "started_span e =
     (case e of
        SpanStarted start \<Rightarrow> Some (ProjectedSpan_built_in start)
      | CustomSpanStarted start \<Rightarrow> Some (ProjectedSpan_custom start)
      | _ \<Rightarrow> None)"

definition completion_of :: "DiagnosticEvent \<Rightarrow> (u64 \<times> SpanCompletion) option" where
  "completion_of e =
     (case e of
        SpanFinished finish \<Rightarrow> Some (sf_span_id finish, SpanCompletion_built_in finish)
      | CustomSpanFinished finish \<Rightarrow> Some (csf_span_id finish, SpanCompletion_custom finish)
      | _ \<Rightarrow> None)"

definition span_table :: "DiagnosticEvent list \<Rightarrow> ProjectedSpan list" where
  "span_table es =
     map (\<lambda>s. s\<lparr> psp_completion := map_of (List.map_filter completion_of es) (psp_span_id s) \<rparr>)
       (List.map_filter started_span es)"

lemma started_span_simps:
  "started_span e = Some s \<Longrightarrow> psp_span_id s = event_sequence e \<and> psp_completion s = None \<and> started e \<noteq> None"
  by (cases e) (auto simp: started_span_def started_def ProjectedSpan_built_in_def ProjectedSpan_custom_def)

lemma started_span_None: "started_span e = None \<longleftrightarrow> started e = None"
  by (cases e) (auto simp: started_span_def started_def)

lemma completion_of_Some:
  "completion_of e = Some (i, c) \<Longrightarrow> finishes e i"
  by (cases e) (auto simp: completion_of_def finishes_def finished_span_def)

lemma finishes_completion: "finishes e i \<Longrightarrow> \<exists>c. completion_of e = Some (i, c)"
  by (cases e) (auto simp: completion_of_def finishes_def finished_span_def)

lemma no_completion: "\<forall>x \<in> set h. \<not> finishes x i \<Longrightarrow> map_of (List.map_filter completion_of h) i = None"
  using completion_of_Some by (force simp: map_of_eq_None_iff map_filter_set)

lemma started_spans_distinct:
  "accepted h \<Longrightarrow> distinct (map psp_span_id (List.map_filter started_span h))"
proof (induction rule: accepted.induct)
  case accepted_Nil
  then show ?case by (simp add: List.map_filter_def)
next
  case (accepted_snoc h e)
  have "event_sequence e \<notin> psp_span_id ` set (List.map_filter started_span h)"
    using accepted_snoc.hyps(2) started_span_simps by (auto simp: map_filter_set admissible_def)
  with accepted_snoc.IH started_span_simps [of e] show ?case
    by (auto simp: map_filter_snoc split: option.splits)
qed

lemma span_table_ids [simp]: "map psp_span_id (span_table h) = map psp_span_id (List.map_filter started_span h)"
  by (simp add: span_table_def comp_def)

text \<open>A finish in an accepted stream finds its span, still without a completion.\<close>

lemma finish_finds_span:
  assumes "admissible h e" "finishes e i"
  shows "\<exists>s \<in> set (span_table h). psp_span_id s = i \<and> psp_completion s = None"
proof -
  from assms obtain f where c: "closable h f i e" by (auto simp: admissible_def finishes_def)
  then obtain d where d: "d \<in> set h" "event_sequence d = i" "started d \<noteq> None" by (auto simp: closable_def)
  then obtain s where s: "started_span d = Some s" by (metis not_Some_eq started_span_None)
  from started_span_simps [OF s] d have id: "psp_span_id s = i" by simp
  have "map_of (List.map_filter completion_of h) i = None"
    using c by (intro no_completion) (simp add: closable_def)
  moreover have "s \<in> set (List.map_filter started_span h)" using d(1) s by (auto simp: map_filter_set)
  ultimately show ?thesis using id by (force simp: span_table_def)
qed

lemma finished_in_history: "accepted h \<Longrightarrow> x \<in> set h \<Longrightarrow> finishes x s \<Longrightarrow> s \<in> event_sequence ` set h"
proof (induction rule: accepted.induct)
  case (accepted_snoc h e)
  then show ?case by (auto simp: admissible_def closable_def finishes_def)
qed simp

lemma span_table_snoc:
  assumes h: "accepted h" and e: "admissible h e"
  shows "span_table (h @ [e]) = spm_spans (span_apply_validated_event (m\<lparr> spm_spans := span_table h \<rparr>) e)"
proof -
  consider (start) s where "started_span e = Some s" "completion_of e = None"
    | (finish) i c where "started_span e = None" "completion_of e = Some (i, c)"
    | (other) "started_span e = None" "completion_of e = None"
    by (cases e) (auto simp: started_span_def completion_of_def)
  then show ?thesis
  proof cases
    case start
    have fresh: "\<not> finishes x (event_sequence e)" if "x \<in> set h" for x
      using finished_in_history [OF h that] e by (auto simp: admissible_def)
    have "map_of (List.map_filter completion_of h) (psp_span_id s) = None"
      using fresh started_span_simps [OF start(1)] by (intro no_completion) simp
    with start started_span_simps [OF start(1)] have "span_table (h @ [e]) = span_table h @ [s]"
      by (simp add: span_table_def map_filter_snoc)
    moreover have "spm_spans (span_apply_validated_event (m\<lparr> spm_spans := span_table h \<rparr>) e) = span_table h @ [s]"
      using start by (cases e) (auto simp: span_apply_validated_event_def started_span_def)
    ultimately show ?thesis by simp
  next
    case finish
    have "finishes e i" using finish(2) by (rule completion_of_Some)
    with e have "\<forall>x \<in> set h. \<not> finishes x i" by (auto simp: admissible_def closable_def finishes_def)
    then have none: "map_of (List.map_filter completion_of h) i = None" by (rule no_completion)
    have "span_table (h @ [e]) = map (\<lambda>s. if psp_span_id s = i then s\<lparr> psp_completion := Some c \<rparr> else s) (span_table h)"
      using finish none by (auto simp: span_table_def map_filter_snoc map_add_def split: option.splits)
    also have "\<dots> = update_first (\<lambda>s. psp_span_id s = i) (\<lambda>s. s\<lparr> psp_completion := Some c \<rparr>) (span_table h)"
      by (rule update_first_distinct [symmetric]) (simp add: started_spans_distinct [OF h])
    also have "\<dots> = spm_spans (span_apply_validated_event (m\<lparr> spm_spans := span_table h \<rparr>) e)"
      using finish by (cases e) (auto simp: span_apply_validated_event_def completion_of_def)
    finally show ?thesis .
  next
    case other
    then show ?thesis
      by (cases e) (auto simp: span_table_def map_filter_snoc span_apply_validated_event_def
          started_span_def completion_of_def)
  qed
qed

subsection \<open>The projector\<close>

lemma span_validate_position_iff:
  "span_validate_position m e = Inr u \<longleftrightarrow> next_position (spm_run_id m) (spm_through_sequence m) e"
  by (simp add: span_validate_position_def next_position_def position_check)

lemma span_apply_sel [simp]:
  "spm_model_schema_version (span_apply_validated_event m e) = spm_model_schema_version m"
  "spm_run_id (span_apply_validated_event m e) = spm_run_id m"
  "spm_through_sequence (span_apply_validated_event m e) = event_sequence e"
  "spm_through_elapsed_ns (span_apply_validated_event m e) = max (spm_through_elapsed_ns m) (event_elapsed e)"
  by (simp_all add: span_apply_validated_event_def split: DiagnosticEvent.splits)

interpretation spans: read_model span_project_validated_event spm_run_id spm_through_sequence spm_through_elapsed_ns
  by unfold_locales (auto simp: span_project_validated_event_def span_validate_position_iff)

lemma SpanProjector_like: "steps_like SpanProjector_apply span_project_validated_event"
  unfolding steps_like_def SpanProjector_apply_def span_project_validated_event_def
  by (auto split: sum.splits prod.splits)

definition span_model_of :: "canonical_uuid \<Rightarrow> DiagnosticEvent list \<Rightarrow> SpanReadModel" where
  "span_model_of run_id es =
     \<lparr> spm_model_schema_version = SPAN_READ_MODEL_SCHEMA_VERSION, spm_run_id = run_id,
       spm_through_sequence = last_sequence 0 es, spm_through_elapsed_ns = latest_elapsed es,
       spm_spans = span_table es \<rparr>"

lemma span_candidates:
  "accepted es \<Longrightarrow> fold_res span_project_validated_event (SpanReadModel_empty run_id) es = Inr m \<longleftrightarrow>
   dense_from run_id 0 es \<and> m = span_model_of run_id es"
proof (induction arbitrary: m rule: accepted.induct)
  case accepted_Nil
  then show ?case by (auto simp: span_model_of_def SpanReadModel_empty_def span_table_def List.map_filter_def)
next
  case (accepted_snoc h e)
  have step: "span_project_validated_event (span_model_of run_id h) e = Inr m \<longleftrightarrow>
      next_position run_id (last_sequence 0 h) e \<and> m = span_model_of run_id (h @ [e])"
  proof -
    have "span_apply_validated_event (span_model_of run_id h) e = span_model_of run_id (h @ [e])"
      using span_table_snoc [OF accepted_snoc.hyps, of "span_model_of run_id h"]
      by (intro SpanReadModel.equality) (simp_all add: span_model_of_def)
    then show ?thesis
      by (auto simp: span_project_validated_event_def span_validate_position_iff) (simp_all add: span_model_of_def)
  qed
  show ?case
    using accepted_snoc.IH step by auto
qed

subsection \<open>Properties\<close>

text \<open>
  C39. The span read model of a stream is what the stream says. A stream is projected exactly when
  its events belong to the Run, are numbered from one without gaps and form an accepted stream;
  the table then holds, in the order of the starts, one span per start event with the fields of
  that event, completed with the fields of its finish event if the stream has one, open
  otherwise. In particular every finish finds its span.
\<close>

theorem span_read_model_exact:
  "project_spans run_id es = Inr m \<longleftrightarrow>
     dense_from run_id 0 es \<and> accepted es \<and>
     m = \<lparr> spm_model_schema_version = SPAN_READ_MODEL_SCHEMA_VERSION, spm_run_id = run_id,
       spm_through_sequence = last_sequence 0 es, spm_through_elapsed_ns = latest_elapsed es,
       spm_spans = map (\<lambda>s. s\<lparr> psp_completion := map_of (List.map_filter completion_of es) (psp_span_id s) \<rparr>)
         (List.map_filter started_span es) \<rparr>"
  unfolding project_spans_def project_with_iff [OF SpanProjector_like]
  using span_candidates [of es run_id m] unfolding span_model_of_def span_table_def by blast

end
