(* ===== verification/Messages.thy ===== *)
theory Messages
  imports Projection
begin

section \<open>The message read model\<close>

text \<open>
  Models \<^verbatim>\<open>projector/messages.rs\<close>: agent messages put together from their deltas and completions.
  Shown: the model is the text of the deltas in order, under the identity of the first event.
\<close>

record MessageCompletion =
  mc_sequence :: u64
  mc_elapsed_ns :: elapsed_ns
  mc_utf8_bytes :: u64
  mc_unicode_scalar_count :: u64
  mc_truncated :: bool
  mc_caused_by :: "CausalLink list"

definition MessageCompletion_from_event :: "AgentMessageCompleted \<Rightarrow> MessageCompletion" where
  "MessageCompletion_from_event event =
     \<lparr> mc_sequence = hdr_sequence (amc_header event), mc_elapsed_ns = hdr_elapsed_ns (amc_header event),
       mc_utf8_bytes = amc_utf8_bytes event, mc_unicode_scalar_count = amc_unicode_scalar_count event,
       mc_truncated = amc_truncated event, mc_caused_by = hdr_caused_by (amc_header event) \<rparr>"

record ProjectedMessage =
  pm_run_id :: canonical_uuid
  pm_message_id :: run_local_id
  pm_scope :: DiagnosticScope
  pm_first_sequence :: u64
  pm_first_elapsed_ns :: elapsed_ns
  pm_latest_sequence :: u64
  pm_latest_elapsed_ns :: elapsed_ns
  pm_source_message_id :: "string option"
  pm_text :: string
  pm_completion :: "MessageCompletion option"

definition ProjectedMessage_from_delta :: "AgentMessageDelta \<Rightarrow> ProjectedMessage" where
  "ProjectedMessage_from_delta event =
     (let header = amd_header event in
      \<lparr> pm_run_id = hdr_run_id header, pm_message_id = amd_message_id event, pm_scope = hdr_scope header,
        pm_first_sequence = hdr_sequence header, pm_first_elapsed_ns = hdr_elapsed_ns header,
        pm_latest_sequence = hdr_sequence header, pm_latest_elapsed_ns = hdr_elapsed_ns header,
        pm_source_message_id = amd_source_message_id event, pm_text = amd_text_delta event,
        pm_completion = None \<rparr>)"

definition ProjectedMessage_from_completion :: "AgentMessageCompleted \<Rightarrow> ProjectedMessage" where
  "ProjectedMessage_from_completion event =
     (let header = amc_header event in
      \<lparr> pm_run_id = hdr_run_id header, pm_message_id = amc_message_id event, pm_scope = hdr_scope header,
        pm_first_sequence = hdr_sequence header, pm_first_elapsed_ns = hdr_elapsed_ns header,
        pm_latest_sequence = hdr_sequence header, pm_latest_elapsed_ns = hdr_elapsed_ns header,
        pm_source_message_id = None, pm_text = [],
        pm_completion = Some (MessageCompletion_from_event event) \<rparr>)"

definition message_is_open :: "ProjectedMessage \<Rightarrow> bool" where
  "message_is_open message \<longleftrightarrow> pm_completion message = None"

definition message_is_truncated :: "ProjectedMessage \<Rightarrow> bool" where
  "message_is_truncated message \<longleftrightarrow> (case pm_completion message of None \<Rightarrow> False | Some c \<Rightarrow> mc_truncated c)"

abbreviation MESSAGE_READ_MODEL_SCHEMA_VERSION :: "8 word" where "MESSAGE_READ_MODEL_SCHEMA_VERSION \<equiv> 1"

record MessageReadModel =
  mm_model_schema_version :: "8 word"
  mm_run_id :: canonical_uuid
  mm_through_sequence :: u64
  mm_through_elapsed_ns :: elapsed_ns
  mm_messages :: "ProjectedMessage list"

definition MessageReadModel_empty :: "canonical_uuid \<Rightarrow> MessageReadModel" where
  "MessageReadModel_empty run_id =
     \<lparr> mm_model_schema_version = MESSAGE_READ_MODEL_SCHEMA_VERSION, mm_run_id = run_id,
       mm_through_sequence = 0, mm_through_elapsed_ns = 0, mm_messages = [] \<rparr>"

definition model_message :: "MessageReadModel \<Rightarrow> run_local_id \<Rightarrow> ProjectedMessage option" where
  "model_message m message_id = List.find (\<lambda>message. pm_message_id message = message_id) (mm_messages m)"

definition open_messages :: "MessageReadModel \<Rightarrow> ProjectedMessage list" where
  "open_messages m = filter message_is_open (mm_messages m)"

definition completed_messages :: "MessageReadModel \<Rightarrow> ProjectedMessage list" where
  "completed_messages m = filter (\<lambda>message. \<not> message_is_open message) (mm_messages m)"

definition messages_in_scope :: "MessageReadModel \<Rightarrow> DiagnosticScope \<Rightarrow> ProjectedMessage list" where
  "messages_in_scope m scope = filter (\<lambda>message. pm_scope message = scope) (mm_messages m)"

datatype MessageIdentityField = FieldScope | FieldSourceMessageId

datatype MessageProjectionError =
    MessageRunIdentityMismatch canonical_uuid canonical_uuid u64
  | MessageNonCanonicalSequence u64 u64
  | MessageSequenceExhausted u64
  | MessageInvalidReference ReferenceValidationError
  | IdentityMismatch run_local_id u64 MessageIdentityField
  | DuplicateCompletion run_local_id u64
  | DeltaAfterCompletion run_local_id u64

definition message_validate_position ::
  "MessageReadModel \<Rightarrow> DiagnosticEvent \<Rightarrow> MessageProjectionError + unit" where
  "message_validate_position m event =
     (if event_run_id event \<noteq> mm_run_id m
      then Inl (MessageRunIdentityMismatch (mm_run_id m) (event_run_id event) (event_sequence event))
      else case checked_add_u64 (mm_through_sequence m) 1 of
        None \<Rightarrow> Inl (MessageSequenceExhausted (event_sequence event))
      | Some expected \<Rightarrow>
          if event_sequence event \<noteq> expected
          then Inl (MessageNonCanonicalSequence expected (event_sequence event)) else Inr ())"

definition validate_scope_identity ::
  "ProjectedMessage \<Rightarrow> DiagnosticScope \<Rightarrow> u64 \<Rightarrow> MessageProjectionError + unit" where
  "validate_scope_identity message actual sequence =
     (if pm_scope message \<noteq> actual then Inl (IdentityMismatch (pm_message_id message) sequence FieldScope)
      else Inr ())"

definition apply_delta ::
  "MessageReadModel \<Rightarrow> AgentMessageDelta \<Rightarrow> MessageProjectionError + MessageReadModel" where
  "apply_delta m event =
     (let header = amd_header event in
      case List.find (\<lambda>message. pm_message_id message = amd_message_id event) (mm_messages m) of
        None \<Rightarrow> Inr (m\<lparr> mm_messages := mm_messages m @ [ProjectedMessage_from_delta event] \<rparr>)
      | Some message \<Rightarrow>
          res_bind (validate_scope_identity message (hdr_scope header) (hdr_sequence header)) (\<lambda>_.
          if pm_completion message \<noteq> None
          then Inl (DeltaAfterCompletion (amd_message_id event) (hdr_sequence header))
          else if (case (amd_source_message_id event, pm_source_message_id message) of
                     (Some source, Some expected) \<Rightarrow> expected \<noteq> source | _ \<Rightarrow> False)
          then Inl (IdentityMismatch (amd_message_id event) (hdr_sequence header) FieldSourceMessageId)
          else Inr (m\<lparr> mm_messages := update_first (\<lambda>message. pm_message_id message = amd_message_id event)
            (\<lambda>message. message\<lparr>
               pm_source_message_id := (case amd_source_message_id event of
                   Some source \<Rightarrow> if pm_source_message_id message = None then Some source
                                  else pm_source_message_id message
                 | None \<Rightarrow> pm_source_message_id message),
               pm_text := pm_text message @ amd_text_delta event,
               pm_latest_sequence := hdr_sequence header,
               pm_latest_elapsed_ns := hdr_elapsed_ns header \<rparr>) (mm_messages m) \<rparr>)))"

definition apply_completion ::
  "MessageReadModel \<Rightarrow> AgentMessageCompleted \<Rightarrow> MessageProjectionError + MessageReadModel" where
  "apply_completion m event =
     (let header = amc_header event in
      case List.find (\<lambda>message. pm_message_id message = amc_message_id event) (mm_messages m) of
        None \<Rightarrow> Inr (m\<lparr> mm_messages := mm_messages m @ [ProjectedMessage_from_completion event] \<rparr>)
      | Some message \<Rightarrow>
          res_bind (validate_scope_identity message (hdr_scope header) (hdr_sequence header)) (\<lambda>_.
          if pm_completion message \<noteq> None
          then Inl (DuplicateCompletion (amc_message_id event) (hdr_sequence header))
          else Inr (m\<lparr> mm_messages := update_first (\<lambda>message. pm_message_id message = amc_message_id event)
            (\<lambda>message. message\<lparr> pm_completion := Some (MessageCompletion_from_event event),
               pm_latest_sequence := hdr_sequence header,
               pm_latest_elapsed_ns := hdr_elapsed_ns header \<rparr>) (mm_messages m) \<rparr>)))"

definition message_candidate ::
  "MessageReadModel \<Rightarrow> DiagnosticEvent \<Rightarrow> MessageProjectionError + MessageReadModel" where
  "message_candidate m event =
     res_bind (message_validate_position m event) (\<lambda>_.
     res_bind (case event of
         AgentMessageDelta delta \<Rightarrow> apply_delta m delta
       | AgentMessageCompleted completion \<Rightarrow> apply_completion m completion
       | _ \<Rightarrow> Inr m) (\<lambda>candidate.
     Inr (candidate\<lparr> mm_through_sequence := event_sequence event,
       mm_through_elapsed_ns := max (mm_through_elapsed_ns candidate) (event_elapsed event) \<rparr>)))"

definition MessageProjector_apply ::
  "MessageReadModel projector \<Rightarrow> DiagnosticEvent \<Rightarrow> (MessageProjectionError + unit) \<times> MessageReadModel projector" where
  "MessageProjector_apply = projector_apply message_candidate MessageInvalidReference"

definition project_messages ::
  "canonical_uuid \<Rightarrow> DiagnosticEvent list \<Rightarrow> MessageProjectionError + MessageReadModel" where
  "project_messages run_id events = project_with MessageProjector_apply (MessageReadModel_empty run_id) events"

subsection \<open>The messages of a stream\<close>

definition touched_message :: "DiagnosticEvent \<Rightarrow> run_local_id option" where
  "touched_message e =
     (case e of
        AgentMessageDelta d \<Rightarrow> Some (amd_message_id d)
      | AgentMessageCompleted c \<Rightarrow> Some (amc_message_id c)
      | _ \<Rightarrow> None)"

definition delta_text :: "DiagnosticEvent \<Rightarrow> string" where
  "delta_text e = (case e of AgentMessageDelta d \<Rightarrow> amd_text_delta d | _ \<Rightarrow> [])"

definition delta_source :: "DiagnosticEvent \<Rightarrow> string option" where
  "delta_source e = (case e of AgentMessageDelta d \<Rightarrow> amd_source_message_id d | _ \<Rightarrow> None)"

definition completion_in :: "DiagnosticEvent \<Rightarrow> MessageCompletion option" where
  "completion_in e = (case e of AgentMessageCompleted c \<Rightarrow> Some (MessageCompletion_from_event c) | _ \<Rightarrow> None)"

fun first_some :: "'a option list \<Rightarrow> 'a option" where
  "first_some [] = None"
| "first_some (Some x # xs) = Some x"
| "first_some (None # xs) = first_some xs"

text \<open>A message made from the events that speak of it.\<close>

definition message_of :: "run_local_id \<Rightarrow> DiagnosticEvent list \<Rightarrow> ProjectedMessage" where
  "message_of i t =
     \<lparr> pm_run_id = event_run_id (hd t), pm_message_id = i, pm_scope = event_scope (hd t),
       pm_first_sequence = event_sequence (hd t), pm_first_elapsed_ns = event_elapsed (hd t),
       pm_latest_sequence = event_sequence (last t), pm_latest_elapsed_ns = event_elapsed (last t),
       pm_source_message_id = first_some (map delta_source t), pm_text = concat (map delta_text t),
       pm_completion = first_some (map completion_in t) \<rparr>"

abbreviation message_table :: "DiagnosticEvent list \<Rightarrow> ProjectedMessage list" where
  "message_table \<equiv> table_of touched_message message_of"

abbreviation touching :: "run_local_id \<Rightarrow> DiagnosticEvent list \<Rightarrow> DiagnosticEvent list" where
  "touching \<equiv> with_key touched_message"

interpretation message_entries: keyed_table touched_message message_of pm_message_id
  by unfold_locales (simp add: message_of_def)

text \<open>An event may join its message: same scope, no completion yet, no other source identity.\<close>

definition joins_message :: "DiagnosticEvent list \<Rightarrow> DiagnosticEvent \<Rightarrow> bool" where
  "joins_message h e \<longleftrightarrow>
     (\<forall>i. touched_message e = Some i \<and> touching i h \<noteq> [] \<longrightarrow>
        event_scope e = event_scope (hd (touching i h)) \<and>
        (\<forall>x \<in> set (touching i h). completion_in x = None) \<and>
        (\<forall>a b. delta_source e = Some a \<and> first_some (map delta_source (touching i h)) = Some b \<longrightarrow> a = b))"

lemma first_some_snoc: "first_some (xs @ [x]) = (case first_some xs of None \<Rightarrow> x | Some y \<Rightarrow> Some y)"
  by (induction xs rule: first_some.induct) (cases x; simp)+

lemma first_some_single [simp]: "first_some [x] = x"
  by (cases x) simp_all

lemma first_some_None: "first_some xs = None \<longleftrightarrow> (\<forall>x \<in> set xs. x = None)"
  by (induction xs rule: first_some.induct) auto

lemma message_of_join:
  assumes "t \<noteq> []"
  shows "message_of i (t @ [e]) = (message_of i t)
    \<lparr> pm_source_message_id := (case pm_source_message_id (message_of i t) of None \<Rightarrow> delta_source e | Some x \<Rightarrow> Some x),
      pm_text := pm_text (message_of i t) @ delta_text e,
      pm_latest_sequence := event_sequence e, pm_latest_elapsed_ns := event_elapsed e,
      pm_completion := (case pm_completion (message_of i t) of None \<Rightarrow> completion_in e | Some x \<Rightarrow> Some x) \<rparr>"
  using assms by (simp add: message_of_def first_some_snoc)

lemma message_of_checks:
  "pm_scope (message_of i t) = event_scope (hd t)"
  "pm_completion (message_of i t) = None \<longleftrightarrow> (\<forall>x \<in> set t. completion_in x = None)"
  "pm_source_message_id (message_of i t) = first_some (map delta_source t)"
  by (simp_all add: message_of_def first_some_None)

lemma apply_delta_table:
  "apply_delta (m\<lparr> mm_messages := message_table h \<rparr>) d = Inr m' \<longleftrightarrow>
     joins_message h (AgentMessageDelta d) \<and> m' = m\<lparr> mm_messages := message_table (h @ [AgentMessageDelta d]) \<rparr>"
proof -
  let ?e = "DiagnosticEvent.AgentMessageDelta d" and ?i = "amd_message_id d"
  have t: "touched_message ?e = Some ?i" by (simp add: touched_message_def)
  show ?thesis
  proof (cases "touching ?i h = []")
    case True
    have "message_of ?i [?e] = ProjectedMessage_from_delta d"
      by (simp add: message_of_def ProjectedMessage_from_delta_def delta_source_def delta_text_def
          completion_in_def Let_def)
    with True t table_of_new [where entry = message_of, OF t True] show ?thesis
      by (auto simp: apply_delta_def message_entries.table_find joins_message_def Let_def)
  next
    case False
    let ?f = "\<lambda>message. message\<lparr>
               pm_source_message_id := (case amd_source_message_id d of
                   Some source \<Rightarrow> if pm_source_message_id message = None then Some source
                                  else pm_source_message_id message
                 | None \<Rightarrow> pm_source_message_id message),
               pm_text := pm_text message @ amd_text_delta d,
               pm_latest_sequence := hdr_sequence (amd_header d),
               pm_latest_elapsed_ns := hdr_elapsed_ns (amd_header d) \<rparr>"
    have up: "update_first (\<lambda>message. pm_message_id message = ?i) ?f (message_table h) = message_table (h @ [?e])"
      by (rule message_entries.table_join [OF t False])
        (simp add: message_of_join [OF False] delta_source_def delta_text_def completion_in_def split: option.splits)
    show ?thesis
      using False t message_of_checks [of ?i "touching ?i h"] up
      by (auto simp: apply_delta_def message_entries.table_find joins_message_def Let_def validate_scope_identity_def
          delta_source_def split: option.splits)
  qed
qed

lemma apply_completion_table:
  "apply_completion (m\<lparr> mm_messages := message_table h \<rparr>) c = Inr m' \<longleftrightarrow>
     joins_message h (AgentMessageCompleted c) \<and>
     m' = m\<lparr> mm_messages := message_table (h @ [AgentMessageCompleted c]) \<rparr>"
proof -
  let ?e = "DiagnosticEvent.AgentMessageCompleted c" and ?i = "amc_message_id c"
  have t: "touched_message ?e = Some ?i" by (simp add: touched_message_def)
  show ?thesis
  proof (cases "touching ?i h = []")
    case True
    have "message_of ?i [?e] = ProjectedMessage_from_completion c"
      by (simp add: message_of_def ProjectedMessage_from_completion_def delta_source_def delta_text_def
          completion_in_def Let_def)
    with True t table_of_new [where entry = message_of, OF t True] show ?thesis
      by (auto simp: apply_completion_def message_entries.table_find joins_message_def Let_def)
  next
    case False
    show ?thesis
    proof (cases "pm_completion (message_of ?i (touching ?i h))")
      case None
      let ?f = "\<lambda>message. message\<lparr> pm_completion := Some (MessageCompletion_from_event c),
               pm_latest_sequence := hdr_sequence (amc_header c),
               pm_latest_elapsed_ns := hdr_elapsed_ns (amc_header c) \<rparr>"
      have up: "update_first (\<lambda>message. pm_message_id message = ?i) ?f (message_table h) = message_table (h @ [?e])"
        by (rule message_entries.table_join [OF t False])
          (simp add: message_of_join [OF False] None delta_source_def delta_text_def completion_in_def split: option.splits)
      show ?thesis
        using False t None message_of_checks [of ?i "touching ?i h"] up
        by (auto simp: apply_completion_def message_entries.table_find joins_message_def Let_def validate_scope_identity_def
            delta_source_def)
    next
      case (Some x)
      with False t message_of_checks [of ?i "touching ?i h"] show ?thesis
        by (auto simp: apply_completion_def message_entries.table_find joins_message_def Let_def validate_scope_identity_def)
    qed
  qed
qed

subsection \<open>The projector\<close>

lemma message_validate_position_iff:
  "message_validate_position m e = Inr u \<longleftrightarrow> next_position (mm_run_id m) (mm_through_sequence m) e"
  by (simp add: message_validate_position_def next_position_def position_check)

lemma apply_delta_sel:
  "apply_delta m d = Inr m' \<Longrightarrow> \<exists>ms. m' = m\<lparr> mm_messages := ms \<rparr>"
  by (auto simp: apply_delta_def Let_def split: option.splits if_splits)

lemma apply_completion_sel:
  "apply_completion m c = Inr m' \<Longrightarrow> \<exists>ms. m' = m\<lparr> mm_messages := ms \<rparr>"
  by (auto simp: apply_completion_def Let_def split: option.splits if_splits)

interpretation messages: read_model message_candidate mm_run_id mm_through_sequence mm_through_elapsed_ns
proof unfold_locales
  fix m e m'
  assume c: "message_candidate m e = Inr m'"
  then obtain m1 where p: "next_position (mm_run_id m) (mm_through_sequence m) e"
    and m1: "(case e of AgentMessageDelta delta \<Rightarrow> apply_delta m delta
       | AgentMessageCompleted completion \<Rightarrow> apply_completion m completion | _ \<Rightarrow> Inr m) = Inr m1"
    and m': "m' = m1\<lparr> mm_through_sequence := event_sequence e,
       mm_through_elapsed_ns := max (mm_through_elapsed_ns m1) (event_elapsed e) \<rparr>"
    by (auto simp: message_candidate_def message_validate_position_iff)
  have "\<exists>ms. m1 = m\<lparr> mm_messages := ms \<rparr>"
    using m1 apply_delta_sel apply_completion_sel
    by (auto split: DiagnosticEvent.splits) (metis MessageReadModel.surjective MessageReadModel.update_convs(5))+
  with p m' show "next_position (mm_run_id m) (mm_through_sequence m) e \<and> mm_run_id m' = mm_run_id m \<and>
     mm_through_sequence m' = event_sequence e \<and>
     mm_through_elapsed_ns m' = max (mm_through_elapsed_ns m) (event_elapsed e)" by auto
qed

definition message_model_of :: "canonical_uuid \<Rightarrow> DiagnosticEvent list \<Rightarrow> MessageReadModel" where
  "message_model_of run_id es =
     \<lparr> mm_model_schema_version = MESSAGE_READ_MODEL_SCHEMA_VERSION, mm_run_id = run_id,
       mm_through_sequence = last_sequence 0 es, mm_through_elapsed_ns = latest_elapsed es,
       mm_messages = message_table es \<rparr>"

definition messages_joined :: "DiagnosticEvent list \<Rightarrow> bool" where
  "messages_joined es \<longleftrightarrow> every_event joins_message es"

lemma message_candidate_step:
  "message_candidate (message_model_of run_id h) e = Inr m \<longleftrightarrow>
     next_position run_id (last_sequence 0 h) e \<and> joins_message h e \<and> m = message_model_of run_id (h @ [e])"
proof -
  let ?m = "message_model_of run_id h"
  have self: "?m = ?m\<lparr> mm_messages := message_table h \<rparr>" by (simp add: message_model_of_def)
  have payload: "(case e of AgentMessageDelta delta \<Rightarrow> apply_delta ?m delta
       | AgentMessageCompleted completion \<Rightarrow> apply_completion ?m completion | _ \<Rightarrow> Inr ?m) = Inr m1 \<longleftrightarrow>
     joins_message h e \<and> m1 = ?m\<lparr> mm_messages := message_table (h @ [e]) \<rparr>" for m1
  proof (cases "touched_message e")
    case None
    then have "message_table (h @ [e]) = message_table h" "joins_message h e"
      by (simp_all add: table_of_other joins_message_def)
    moreover have "(case e of AgentMessageDelta delta \<Rightarrow> apply_delta ?m delta
       | AgentMessageCompleted completion \<Rightarrow> apply_completion ?m completion | _ \<Rightarrow> Inr ?m) = Inr ?m"
      using None by (cases e) (simp_all add: touched_message_def)
    ultimately show ?thesis using self by auto
  next
    case (Some i)
    then consider d where "e = AgentMessageDelta d" | c where "e = AgentMessageCompleted c"
      by (cases e) (simp_all add: touched_message_def)
    then show ?thesis
      using apply_delta_table [where m = ?m and h = h] apply_completion_table [where m = ?m and h = h]
      unfolding self [symmetric] by cases simp_all
  qed
  have "message_candidate ?m e = Inr m \<longleftrightarrow> next_position run_id (last_sequence 0 h) e \<and>
      (\<exists>m1. (joins_message h e \<and> m1 = ?m\<lparr> mm_messages := message_table (h @ [e]) \<rparr>) \<and>
        m = m1\<lparr> mm_through_sequence := event_sequence e,
          mm_through_elapsed_ns := max (mm_through_elapsed_ns m1) (event_elapsed e) \<rparr>)"
    unfolding payload [symmetric] message_candidate_def
    by (auto simp: message_validate_position_iff) (simp_all add: message_model_of_def)
  then show ?thesis by (auto simp: message_model_of_def)
qed

lemma message_candidates:
  "fold_res message_candidate (MessageReadModel_empty run_id) es = Inr m \<longleftrightarrow>
     dense_from run_id 0 es \<and> messages_joined es \<and> m = message_model_of run_id es"
proof (induction es arbitrary: m rule: rev_induct)
  case Nil
  then show ?case
    by (auto simp: MessageReadModel_empty_def message_model_of_def messages_joined_def)
next
  case (snoc e es)
  show ?case
    unfolding fold_res_snoc res_bind_Inr snoc.IH messages_joined_def every_event_snoc dense_from_snoc
    using message_candidate_step [of run_id es e m] by (auto simp: messages_joined_def)
qed

subsection \<open>Properties\<close>

text \<open>
  C38. Agent messages are put together faithfully. A stream is projected exactly when it is dense,
  accepted, and every delta or completion fits its message (same scope as the message's first
  event, no earlier completion, no other source identity). The model then lists the messages in
  the order of their first events, each with the concatenation of its deltas in stream order as
  its text, the identity and scope of its first event, the position of its last, and the
  completion of the one completing event, if there is one.
\<close>

theorem message_read_model_exact:
  "project_messages run_id es = Inr m \<longleftrightarrow>
     dense_from run_id 0 es \<and> accepted es \<and> messages_joined es \<and>
     m = \<lparr> mm_model_schema_version = MESSAGE_READ_MODEL_SCHEMA_VERSION, mm_run_id = run_id,
       mm_through_sequence = last_sequence 0 es, mm_through_elapsed_ns = latest_elapsed es,
       mm_messages = map (\<lambda>i. message_of i (with_key touched_message i es)) (first_keys touched_message es) \<rparr>"
  unfolding project_messages_def MessageProjector_apply_def project_with_iff [OF projector_apply_like]
    message_candidates message_model_of_def table_of_def
  by blast

end
