(* ===== verification/Plans.thy ===== *)
theory Plans
  imports Projection
begin

section \<open>The plan read model\<close>

text \<open>
  Models \<^verbatim>\<open>projector/plans.rs\<close>: the latest plan snapshot of every scope. Shown: exactly that, and
  that an Act keeps one scope.
\<close>

record ProjectedPlan =
  ppl_run_id :: canonical_uuid
  ppl_scope :: DiagnosticScope
  ppl_sequence :: u64
  ppl_elapsed_ns :: elapsed_ns
  ppl_entries :: "PlanEntry list"
  ppl_truncated :: bool
  ppl_caused_by :: "CausalLink list"

definition ProjectedPlan_from_event :: "AgentPlanSnapshot \<Rightarrow> ProjectedPlan" where
  "ProjectedPlan_from_event event =
     \<lparr> ppl_run_id = hdr_run_id (aps_header event), ppl_scope = hdr_scope (aps_header event),
       ppl_sequence = hdr_sequence (aps_header event), ppl_elapsed_ns = hdr_elapsed_ns (aps_header event),
       ppl_entries = aps_entries event, ppl_truncated = aps_truncated event,
       ppl_caused_by = hdr_caused_by (aps_header event) \<rparr>"

abbreviation PLAN_READ_MODEL_SCHEMA_VERSION :: "8 word" where "PLAN_READ_MODEL_SCHEMA_VERSION \<equiv> 1"

record PlanReadModel =
  plm_model_schema_version :: "8 word"
  plm_run_id :: canonical_uuid
  plm_through_sequence :: u64
  plm_through_elapsed_ns :: elapsed_ns
  plm_plans :: "ProjectedPlan list"

definition PlanReadModel_empty :: "canonical_uuid \<Rightarrow> PlanReadModel" where
  "PlanReadModel_empty run_id =
     \<lparr> plm_model_schema_version = PLAN_READ_MODEL_SCHEMA_VERSION, plm_run_id = run_id,
       plm_through_sequence = 0, plm_through_elapsed_ns = 0, plm_plans = [] \<rparr>"

definition plan_for_scope :: "PlanReadModel \<Rightarrow> DiagnosticScope \<Rightarrow> ProjectedPlan option" where
  "plan_for_scope m scope = List.find (\<lambda>plan. ppl_scope plan = scope) (plm_plans m)"

definition plan_for_act :: "PlanReadModel \<Rightarrow> run_local_id \<Rightarrow> ProjectedPlan option" where
  "plan_for_act m act_id = List.find (\<lambda>plan. sc_act_id (ppl_scope plan) = Some act_id) (plm_plans m)"

datatype PlanProjectionError =
    PlanRunIdentityMismatch canonical_uuid canonical_uuid u64
  | PlanNonCanonicalSequence u64 u64
  | PlanSequenceExhausted u64
  | PlanInvalidReference ReferenceValidationError
  | PlanScopeMismatch run_local_id u64

definition plan_validate_position :: "PlanReadModel \<Rightarrow> DiagnosticEvent \<Rightarrow> PlanProjectionError + unit" where
  "plan_validate_position m event =
     (if event_run_id event \<noteq> plm_run_id m
      then Inl (PlanRunIdentityMismatch (plm_run_id m) (event_run_id event) (event_sequence event))
      else case checked_add_u64 (plm_through_sequence m) 1 of
        None \<Rightarrow> Inl (PlanSequenceExhausted (event_sequence event))
      | Some expected \<Rightarrow>
          if event_sequence event \<noteq> expected
          then Inl (PlanNonCanonicalSequence expected (event_sequence event)) else Inr ())"

definition validate_snapshot :: "PlanReadModel \<Rightarrow> AgentPlanSnapshot \<Rightarrow> PlanProjectionError + unit" where
  "validate_snapshot m event =
     (case sc_act_id (hdr_scope (aps_header event)) of
        None \<Rightarrow> Inr ()
      | Some act_id \<Rightarrow>
          if list_ex (\<lambda>plan. sc_act_id (ppl_scope plan) = Some act_id \<and>
                 ppl_scope plan \<noteq> hdr_scope (aps_header event)) (plm_plans m)
          then Inl (PlanScopeMismatch act_id (hdr_sequence (aps_header event))) else Inr ())"

definition apply_snapshot :: "PlanReadModel \<Rightarrow> AgentPlanSnapshot \<Rightarrow> PlanReadModel" where
  "apply_snapshot m event =
     (case List.find (\<lambda>plan. ppl_scope plan = hdr_scope (aps_header event)) (plm_plans m) of
        Some _ \<Rightarrow> m\<lparr> plm_plans := update_first (\<lambda>plan. ppl_scope plan = hdr_scope (aps_header event))
                       (\<lambda>_. ProjectedPlan_from_event event) (plm_plans m) \<rparr>
      | None \<Rightarrow> m\<lparr> plm_plans := plm_plans m @ [ProjectedPlan_from_event event] \<rparr>)"

definition plan_candidate :: "PlanReadModel \<Rightarrow> DiagnosticEvent \<Rightarrow> PlanProjectionError + PlanReadModel" where
  "plan_candidate m event =
     res_bind (plan_validate_position m event) (\<lambda>_.
     res_bind (case event of
         AgentPlanSnapshot snapshot \<Rightarrow>
           res_bind (validate_snapshot m snapshot) (\<lambda>_. Inr (apply_snapshot m snapshot))
       | _ \<Rightarrow> Inr m) (\<lambda>candidate.
     Inr (candidate\<lparr> plm_through_sequence := event_sequence event,
       plm_through_elapsed_ns := max (plm_through_elapsed_ns candidate) (event_elapsed event) \<rparr>)))"

definition PlanProjector_apply ::
  "PlanReadModel projector \<Rightarrow> DiagnosticEvent \<Rightarrow> (PlanProjectionError + unit) \<times> PlanReadModel projector" where
  "PlanProjector_apply = projector_apply plan_candidate PlanInvalidReference"

definition project_plans :: "canonical_uuid \<Rightarrow> DiagnosticEvent list \<Rightarrow> PlanProjectionError + PlanReadModel" where
  "project_plans run_id events = project_with PlanProjector_apply (PlanReadModel_empty run_id) events"

subsection \<open>The plans of a stream\<close>

definition snapshot_in :: "DiagnosticEvent \<Rightarrow> AgentPlanSnapshot option" where
  "snapshot_in e = (case e of AgentPlanSnapshot s \<Rightarrow> Some s | _ \<Rightarrow> None)"

definition planned_scope :: "DiagnosticEvent \<Rightarrow> DiagnosticScope option" where
  "planned_scope e = map_option (\<lambda>s. hdr_scope (aps_header s)) (snapshot_in e)"

definition plan_of :: "DiagnosticScope \<Rightarrow> DiagnosticEvent list \<Rightarrow> ProjectedPlan" where
  "plan_of scope t = ProjectedPlan_from_event (the (snapshot_in (last t)))"

text \<open>The scope of a snapshot is the only one its Act has had.\<close>

definition keeps_scope :: "DiagnosticEvent list \<Rightarrow> DiagnosticEvent \<Rightarrow> bool" where
  "keeps_scope h e \<longleftrightarrow>
     (\<forall>s a. planned_scope e = Some s \<and> sc_act_id s = Some a \<longrightarrow>
        (\<forall>x \<in> set h. \<forall>s'. planned_scope x = Some s' \<and> sc_act_id s' = Some a \<longrightarrow> s' = s))"

abbreviation plan_table :: "DiagnosticEvent list \<Rightarrow> ProjectedPlan list" where
  "plan_table \<equiv> table_of planned_scope plan_of"

lemma planned_last:
  assumes "with_key planned_scope i es \<noteq> []"
  shows "planned_scope (last (with_key planned_scope i es)) = Some i"
  using last_in_set [OF assms] by (auto simp: with_key_def)

interpretation plan_entries: keyed_table planned_scope plan_of ppl_scope
  by unfold_locales
     (use planned_last in \<open>force simp: plan_of_def planned_scope_def ProjectedPlan_from_event_def\<close>)

lemma planned_scopes: "set (first_keys planned_scope h) = {s. \<exists>x \<in> set h. planned_scope x = Some s}"
  by (force simp: first_keys_def List.map_filter_def)

lemma plan_table_scopes: "ppl_scope ` set (plan_table h) = {s. \<exists>x \<in> set h. planned_scope x = Some s}"
  unfolding planned_scopes [symmetric] plan_entries.idents [symmetric] by simp

lemma validate_snapshot_iff:
  "validate_snapshot (m\<lparr> plm_plans := plan_table h \<rparr>) s = Inr u \<longleftrightarrow> keeps_scope h (AgentPlanSnapshot s)"
proof -
  let ?sc = "hdr_scope (aps_header s)"
  have ex: "list_ex (\<lambda>plan. P (ppl_scope plan)) (plan_table h) \<longleftrightarrow> (\<exists>x \<in> set h. \<exists>s'. planned_scope x = Some s' \<and> P s')" for P
  proof -
    have "list_ex (\<lambda>plan. P (ppl_scope plan)) (plan_table h) \<longleftrightarrow> (\<exists>s' \<in> ppl_scope ` set (plan_table h). P s')"
      by (auto simp: list_ex_iff)
    then show ?thesis unfolding plan_table_scopes by auto
  qed
  show ?thesis
    using ex [of "\<lambda>x. sc_act_id x = sc_act_id ?sc \<and> x \<noteq> ?sc"]
    by (cases "sc_act_id ?sc") (auto simp: validate_snapshot_def keeps_scope_def planned_scope_def snapshot_in_def)
qed

lemma apply_snapshot_table:
  "apply_snapshot (m\<lparr> plm_plans := plan_table h \<rparr>) s = m\<lparr> plm_plans := plan_table (h @ [AgentPlanSnapshot s]) \<rparr>"
proof -
  let ?e = "DiagnosticEvent.AgentPlanSnapshot s" and ?i = "hdr_scope (aps_header s)"
  have k: "planned_scope ?e = Some ?i" by (simp add: planned_scope_def snapshot_in_def)
  have p: "plan_of ?i (t @ [?e]) = ProjectedPlan_from_event s" for t
    by (simp add: plan_of_def snapshot_in_def)
  show ?thesis
  proof (cases "with_key planned_scope ?i h = []")
    case True
    with table_of_new [where entry = plan_of, OF k True] p [of "[]"] show ?thesis
      by (simp add: apply_snapshot_def plan_entries.table_find)
  next
    case False
    with plan_entries.table_join [where f = "\<lambda>_. ProjectedPlan_from_event s", OF k False] p show ?thesis
      by (simp add: apply_snapshot_def plan_entries.table_find)
  qed
qed

subsection \<open>The projector\<close>

lemma plan_validate_position_iff:
  "plan_validate_position m e = Inr u \<longleftrightarrow> next_position (plm_run_id m) (plm_through_sequence m) e"
  by (simp add: plan_validate_position_def next_position_def position_check)

lemma apply_snapshot_sel [simp]:
  "plm_run_id (apply_snapshot m s) = plm_run_id m" "plm_through_elapsed_ns (apply_snapshot m s) = plm_through_elapsed_ns m"
  by (simp_all add: apply_snapshot_def split: option.splits)

interpretation plans: read_model plan_candidate plm_run_id plm_through_sequence plm_through_elapsed_ns
  by unfold_locales (auto simp: plan_candidate_def plan_validate_position_iff split: DiagnosticEvent.splits)

definition plan_model_of :: "canonical_uuid \<Rightarrow> DiagnosticEvent list \<Rightarrow> PlanReadModel" where
  "plan_model_of run_id es =
     \<lparr> plm_model_schema_version = PLAN_READ_MODEL_SCHEMA_VERSION, plm_run_id = run_id,
       plm_through_sequence = last_sequence 0 es, plm_through_elapsed_ns = latest_elapsed es,
       plm_plans = plan_table es \<rparr>"

lemma plan_candidate_step:
  "plan_candidate (plan_model_of run_id h) e = Inr m \<longleftrightarrow>
     next_position run_id (last_sequence 0 h) e \<and> keeps_scope h e \<and> m = plan_model_of run_id (h @ [e])"
proof -
  let ?m = "plan_model_of run_id h"
  have self: "?m = ?m\<lparr> plm_plans := plan_table h \<rparr>" by (simp add: plan_model_of_def)
  have pos: "plan_validate_position ?m e = Inr u \<longleftrightarrow> next_position run_id (last_sequence 0 h) e" for u
    by (simp add: plan_validate_position_iff) (simp add: plan_model_of_def)
  show ?thesis
  proof (cases "snapshot_in e")
    case None
    then have k: "planned_scope e = None" by (simp add: planned_scope_def)
    then have "keeps_scope h e" by (simp add: keeps_scope_def)
    moreover have "plan_candidate ?m e = Inr m \<longleftrightarrow> next_position run_id (last_sequence 0 h) e \<and>
        m = ?m\<lparr> plm_through_sequence := event_sequence e,
          plm_through_elapsed_ns := max (plm_through_elapsed_ns ?m) (event_elapsed e) \<rparr>"
      using None pos by (cases e) (auto simp: plan_candidate_def snapshot_in_def)
    ultimately show ?thesis using table_of_other [where key = planned_scope and entry = plan_of, OF k] by (simp add: plan_model_of_def)
  next
    case (Some s)
    then have e: "e = AgentPlanSnapshot s" by (cases e) (simp_all add: snapshot_in_def)
    have v: "validate_snapshot ?m s = Inr u \<longleftrightarrow> keeps_scope h e" for u
      using validate_snapshot_iff [where m = ?m and h = h] unfolding self [symmetric] e by simp
    have a: "apply_snapshot ?m s = ?m\<lparr> plm_plans := plan_table (h @ [e]) \<rparr>"
      using apply_snapshot_table [where m = ?m and h = h] unfolding self [symmetric] e by simp
    have "plan_candidate ?m e = Inr m \<longleftrightarrow> next_position run_id (last_sequence 0 h) e \<and> keeps_scope h e \<and>
        m = (?m\<lparr> plm_plans := plan_table (h @ [e]) \<rparr>)\<lparr> plm_through_sequence := event_sequence e,
          plm_through_elapsed_ns := max (plm_through_elapsed_ns ?m) (event_elapsed e) \<rparr>"
      using v a pos unfolding plan_candidate_def e by auto
    then show ?thesis by (simp add: plan_model_of_def)
  qed
qed

definition scopes_kept :: "DiagnosticEvent list \<Rightarrow> bool" where
  "scopes_kept es \<longleftrightarrow> every_event keeps_scope es"

lemma plan_candidates:
  "fold_res plan_candidate (PlanReadModel_empty run_id) es = Inr m \<longleftrightarrow>
     dense_from run_id 0 es \<and> scopes_kept es \<and> m = plan_model_of run_id es"
proof (induction es arbitrary: m rule: rev_induct)
  case Nil
  then show ?case by (auto simp: PlanReadModel_empty_def plan_model_of_def scopes_kept_def)
next
  case (snoc e es)
  show ?case
    unfolding fold_res_snoc res_bind_Inr snoc.IH scopes_kept_def every_event_snoc dense_from_snoc
    using plan_candidate_step [of run_id es e m] by (auto simp: scopes_kept_def)
qed

end
