(* ===== verification/Counters.thy ===== *)
theory Counters
  imports Projection
begin

section \<open>The counter read model\<close>

text \<open>
  Models \<^verbatim>\<open>projector/counters.rs\<close>: the latest sample of every counter series. The key of a series
  is the JSON text of its identity, given by the parameter \<open>series_key\<close>
  (\<^verbatim>\<open>serde_json::to_string\<close>); nothing is assumed of it, a clash of keys is an error of its own in the
  code. Shown: the model is exactly the latest samples, and its self-check never fails on a model
  the projector built.
\<close>

datatype CounterSeriesIdentity =
    BuiltInSeries DiagnosticScope CounterKind
  | CustomSeries DiagnosticScope string "string option" diagnostic_dimensions

datatype ProjectedCounterValue = UnsignedValue u64 | IntegerValue string | DecimalValue string

datatype CounterValueTag = TagUnsigned | TagInteger | TagDecimal

datatype CounterValueClass = ClassUnsigned | ClassCustomNumber

fun counter_value_tag :: "ProjectedCounterValue \<Rightarrow> CounterValueTag" where
  "counter_value_tag (UnsignedValue _) = TagUnsigned"
| "counter_value_tag (IntegerValue _) = TagInteger"
| "counter_value_tag (DecimalValue _) = TagDecimal"

fun identity_value_class :: "CounterSeriesIdentity \<Rightarrow> CounterValueClass" where
  "identity_value_class (BuiltInSeries _ _) = ClassUnsigned"
| "identity_value_class (CustomSeries _ _ _ _) = ClassCustomNumber"

fun accepts_value :: "CounterSeriesIdentity \<Rightarrow> ProjectedCounterValue \<Rightarrow> bool" where
  "accepts_value (BuiltInSeries _ _) (UnsignedValue _) = True"
| "accepts_value (CustomSeries _ _ _ _) (IntegerValue _) = True"
| "accepts_value (CustomSeries _ _ _ _) (DecimalValue _) = True"
| "accepts_value _ _ = False"

record ProjectedCounter =
  pc_run_id :: canonical_uuid
  pc_series_key :: string
  pc_identity :: CounterSeriesIdentity
  pc_sequence :: u64
  pc_elapsed_ns :: elapsed_ns
  pc_value :: ProjectedCounterValue
  pc_caused_by :: "CausalLink list"

definition ProjectedCounter_built_in ::
  "(CounterSeriesIdentity \<Rightarrow> string) \<Rightarrow> CounterSampled \<Rightarrow> ProjectedCounter" where
  "ProjectedCounter_built_in series_key event =
     (let identity = BuiltInSeries (hdr_scope (cs_header event)) (cs_counter_kind event) in
      \<lparr> pc_run_id = hdr_run_id (cs_header event), pc_series_key = series_key identity, pc_identity = identity,
        pc_sequence = hdr_sequence (cs_header event), pc_elapsed_ns = hdr_elapsed_ns (cs_header event),
        pc_value = UnsignedValue (cs_value event), pc_caused_by = hdr_caused_by (cs_header event) \<rparr>)"

definition ProjectedCounter_custom ::
  "(CounterSeriesIdentity \<Rightarrow> string) \<Rightarrow> CustomCounterSampled \<Rightarrow> ProjectedCounter" where
  "ProjectedCounter_custom series_key event =
     (let identity = CustomSeries (hdr_scope (ccs_header event)) (ccs_name event) (ccs_unit event) (ccs_dimensions event);
          counter_value = (case ccs_value event of
              CustomNumber.Integer v \<Rightarrow> IntegerValue v | CustomNumber.Decimal v \<Rightarrow> DecimalValue v) in
      \<lparr> pc_run_id = hdr_run_id (ccs_header event), pc_series_key = series_key identity, pc_identity = identity,
        pc_sequence = hdr_sequence (ccs_header event), pc_elapsed_ns = hdr_elapsed_ns (ccs_header event),
        pc_value = counter_value, pc_caused_by = hdr_caused_by (ccs_header event) \<rparr>)"

abbreviation COUNTER_READ_MODEL_SCHEMA_VERSION :: "8 word" where "COUNTER_READ_MODEL_SCHEMA_VERSION \<equiv> 1"

record CounterReadModel =
  cm_model_schema_version :: "8 word"
  cm_run_id :: canonical_uuid
  cm_through_sequence :: u64
  cm_through_elapsed_ns :: elapsed_ns
  cm_series :: "ProjectedCounter list"

definition CounterReadModel_empty :: "canonical_uuid \<Rightarrow> CounterReadModel" where
  "CounterReadModel_empty run_id =
     \<lparr> cm_model_schema_version = COUNTER_READ_MODEL_SCHEMA_VERSION, cm_run_id = run_id,
       cm_through_sequence = 0, cm_through_elapsed_ns = 0, cm_series = [] \<rparr>"

definition counter_sample :: "CounterReadModel \<Rightarrow> CounterSeriesIdentity \<Rightarrow> ProjectedCounter option" where
  "counter_sample m identity = List.find (\<lambda>sample. pc_identity sample = identity) (cm_series m)"

definition sample_by_key :: "CounterReadModel \<Rightarrow> string \<Rightarrow> ProjectedCounter option" where
  "sample_by_key m k = List.find (\<lambda>sample. pc_series_key sample = k) (cm_series m)"

datatype CounterProjectionError =
    CounterRunIdentityMismatch canonical_uuid canonical_uuid u64
  | CounterNonCanonicalSequence u64 u64
  | CounterSequenceTie u64
  | CounterSequenceExhausted u64
  | CounterInvalidReference ReferenceValidationError
  | SeriesMismatch string u64
  | TagMismatch string u64 CounterValueClass CounterValueTag
  | CounterModelSchemaMismatch "8 word" "8 word" u64

text \<open>The loop of \<^verbatim>\<open>validate\<close> over the series, with the keys and sequences seen so far.\<close>

fun validate_series ::
  "(CounterSeriesIdentity \<Rightarrow> string) \<Rightarrow> canonical_uuid \<Rightarrow> u64 \<Rightarrow> string set \<Rightarrow> u64 set \<Rightarrow> ProjectedCounter list \<Rightarrow>
   CounterProjectionError + unit" where
  "validate_series series_key run_id through keys sequences [] = Inr ()"
| "validate_series series_key run_id through keys sequences (sample # rest) =
     (if pc_run_id sample \<noteq> run_id \<or> pc_sequence sample = 0 \<or> pc_sequence sample > through \<or>
         pc_series_key sample \<noteq> series_key (pc_identity sample) \<or> pc_series_key sample \<in> keys
      then Inl (SeriesMismatch (pc_series_key sample) (pc_sequence sample))
      else if \<not> accepts_value (pc_identity sample) (pc_value sample)
      then Inl (TagMismatch (pc_series_key sample) (pc_sequence sample)
             (identity_value_class (pc_identity sample)) (counter_value_tag (pc_value sample)))
      else if pc_sequence sample \<in> sequences then Inl (CounterSequenceTie (pc_sequence sample))
      else validate_series series_key run_id through (insert (pc_series_key sample) keys)
             (insert (pc_sequence sample) sequences) rest)"

definition counter_validate ::
  "(CounterSeriesIdentity \<Rightarrow> string) \<Rightarrow> CounterReadModel \<Rightarrow> CounterProjectionError + unit" where
  "counter_validate series_key m =
     (if cm_model_schema_version m \<noteq> COUNTER_READ_MODEL_SCHEMA_VERSION
      then Inl (CounterModelSchemaMismatch COUNTER_READ_MODEL_SCHEMA_VERSION (cm_model_schema_version m)
             (cm_through_sequence m))
      else validate_series series_key (cm_run_id m) (cm_through_sequence m) {} {} (cm_series m))"

definition counter_validate_position ::
  "CounterReadModel \<Rightarrow> DiagnosticEvent \<Rightarrow> CounterProjectionError + unit" where
  "counter_validate_position m event =
     (if event_run_id event \<noteq> cm_run_id m
      then Inl (CounterRunIdentityMismatch (cm_run_id m) (event_run_id event) (event_sequence event))
      else if cm_through_sequence m > 0 \<and> event_sequence event = cm_through_sequence m
      then Inl (CounterSequenceTie (event_sequence event))
      else case checked_add_u64 (cm_through_sequence m) 1 of
        None \<Rightarrow> Inl (CounterSequenceExhausted (event_sequence event))
      | Some expected \<Rightarrow>
          if event_sequence event \<noteq> expected
          then Inl (CounterNonCanonicalSequence expected (event_sequence event)) else Inr ())"

definition apply_sample ::
  "CounterReadModel \<Rightarrow> ProjectedCounter \<Rightarrow> CounterProjectionError + CounterReadModel" where
  "apply_sample m sample =
     (case List.find (\<lambda>existing. pc_series_key existing = pc_series_key sample) (cm_series m) of
        None \<Rightarrow> Inr (m\<lparr> cm_series := cm_series m @ [sample] \<rparr>)
      | Some existing \<Rightarrow>
          if pc_identity existing \<noteq> pc_identity sample
          then Inl (SeriesMismatch (pc_series_key sample) (pc_sequence sample))
          else if counter_value_tag (pc_value existing) \<noteq> counter_value_tag (pc_value sample)
          then Inl (TagMismatch (pc_series_key sample) (pc_sequence sample)
                 (case counter_value_tag (pc_value existing) of
                    TagUnsigned \<Rightarrow> ClassUnsigned | _ \<Rightarrow> ClassCustomNumber)
                 (counter_value_tag (pc_value sample)))
          else Inr (m\<lparr> cm_series := update_first (\<lambda>existing. pc_series_key existing = pc_series_key sample)
                 (\<lambda>_. sample) (cm_series m) \<rparr>))"

definition sampled ::
  "(CounterSeriesIdentity \<Rightarrow> string) \<Rightarrow> DiagnosticEvent \<Rightarrow> ProjectedCounter option" where
  "sampled series_key event =
     (case event of
        CounterSampled c \<Rightarrow> Some (ProjectedCounter_built_in series_key c)
      | CustomCounterSampled c \<Rightarrow> Some (ProjectedCounter_custom series_key c)
      | _ \<Rightarrow> None)"

definition counter_candidate ::
  "(CounterSeriesIdentity \<Rightarrow> string) \<Rightarrow> CounterReadModel \<Rightarrow> DiagnosticEvent \<Rightarrow>
   CounterProjectionError + CounterReadModel" where
  "counter_candidate series_key m event =
     res_bind (counter_validate_position m event) (\<lambda>_.
     res_bind (counter_validate series_key m) (\<lambda>_.
     res_bind (case sampled series_key event of None \<Rightarrow> Inr m | Some sample \<Rightarrow> apply_sample m sample) (\<lambda>candidate.
     Inr (candidate\<lparr> cm_through_sequence := event_sequence event,
       cm_through_elapsed_ns := max (cm_through_elapsed_ns candidate) (event_elapsed event) \<rparr>))))"

definition CounterProjector_apply ::
  "(CounterSeriesIdentity \<Rightarrow> string) \<Rightarrow> CounterReadModel projector \<Rightarrow> DiagnosticEvent \<Rightarrow>
   (CounterProjectionError + unit) \<times> CounterReadModel projector" where
  "CounterProjector_apply series_key = projector_apply (counter_candidate series_key) CounterInvalidReference"

definition project_counters ::
  "(CounterSeriesIdentity \<Rightarrow> string) \<Rightarrow> canonical_uuid \<Rightarrow> DiagnosticEvent list \<Rightarrow>
   CounterProjectionError + CounterReadModel" where
  "project_counters series_key run_id events =
     project_with (CounterProjector_apply series_key) (CounterReadModel_empty run_id) events"

subsection \<open>The series of a stream\<close>

definition sampled_key :: "(CounterSeriesIdentity \<Rightarrow> string) \<Rightarrow> DiagnosticEvent \<Rightarrow> string option" where
  "sampled_key series_key e = map_option pc_series_key (sampled series_key e)"

definition latest_sample ::
  "(CounterSeriesIdentity \<Rightarrow> string) \<Rightarrow> string \<Rightarrow> DiagnosticEvent list \<Rightarrow> ProjectedCounter" where
  "latest_sample series_key k t = the (sampled series_key (last t))"

text \<open>A sample continues its series: same identity and same kind of value as the sample before.\<close>

definition continues_series ::
  "(CounterSeriesIdentity \<Rightarrow> string) \<Rightarrow> DiagnosticEvent list \<Rightarrow> DiagnosticEvent \<Rightarrow> bool" where
  "continues_series series_key h e \<longleftrightarrow>
     (\<forall>s. sampled series_key e = Some s \<longrightarrow>
        (let t = with_key (sampled_key series_key) (pc_series_key s) h in
         t \<noteq> [] \<longrightarrow> pc_identity (latest_sample series_key (pc_series_key s) t) = pc_identity s \<and>
           counter_value_tag (pc_value (latest_sample series_key (pc_series_key s) t)) = counter_value_tag (pc_value s)))"

abbreviation counter_table ::
  "(CounterSeriesIdentity \<Rightarrow> string) \<Rightarrow> DiagnosticEvent list \<Rightarrow> ProjectedCounter list" where
  "counter_table series_key \<equiv> table_of (sampled_key series_key) (latest_sample series_key)"

lemma sampled_last:
  assumes "with_key (sampled_key series_key) k es \<noteq> []"
  obtains e s where "e \<in> set es" "e = last (with_key (sampled_key series_key) k es)"
    "sampled series_key e = Some s" "pc_series_key s = k"
  using last_in_set [OF assms] by (auto simp: with_key_def sampled_key_def)

interpretation counter_entries: keyed_table "sampled_key series_key" "latest_sample series_key" pc_series_key
proof unfold_locales
  fix k es
  assume "with_key (sampled_key series_key) k es \<noteq> []"
  then obtain e s where "e = last (with_key (sampled_key series_key) k es)" "sampled series_key e = Some s" "pc_series_key s = k"
    by (rule sampled_last)
  then show "pc_series_key (latest_sample series_key k (with_key (sampled_key series_key) k es)) = k"
    by (simp add: latest_sample_def)
qed

lemma sampled_fields:
  assumes "sampled series_key e = Some s"
  shows "pc_run_id s = event_run_id e" "pc_sequence s = event_sequence e"
    "pc_series_key s = series_key (pc_identity s)" "accepts_value (pc_identity s) (pc_value s)"
  using assms
  by (cases e; auto simp: sampled_def ProjectedCounter_built_in_def ProjectedCounter_custom_def Let_def
      split: CustomNumber.splits)+

lemma apply_sample_table:
  assumes s: "sampled series_key e = Some s"
  shows "apply_sample (m\<lparr> cm_series := counter_table series_key h \<rparr>) s = Inr m' \<longleftrightarrow>
    continues_series series_key h e \<and> m' = m\<lparr> cm_series := counter_table series_key (h @ [e]) \<rparr>"
proof -
  let ?k = "pc_series_key s"
  have k: "sampled_key series_key e = Some ?k" by (simp add: sampled_key_def s)
  have p: "latest_sample series_key ?k (t @ [e]) = s" for t by (simp add: latest_sample_def s)
  show ?thesis
  proof (cases "with_key (sampled_key series_key) ?k h = []")
    case True
    with table_of_new [where key = "sampled_key series_key" and entry = "latest_sample series_key", OF k True] p [of "[]"]
    show ?thesis by (auto simp: apply_sample_def counter_entries.table_find continues_series_def s)
  next
    case False
    with counter_entries.table_join [where f = "\<lambda>_. s", OF k False] p show ?thesis
      by (auto simp: apply_sample_def counter_entries.table_find continues_series_def s Let_def)
  qed
qed

subsection \<open>The self-check\<close>

text \<open>What the loop asks of one sample on its own.\<close>

definition sound_sample ::
  "(CounterSeriesIdentity \<Rightarrow> string) \<Rightarrow> canonical_uuid \<Rightarrow> u64 \<Rightarrow> ProjectedCounter \<Rightarrow> bool" where
  "sound_sample series_key run_id through s \<longleftrightarrow>
     pc_run_id s = run_id \<and> pc_sequence s \<noteq> 0 \<and> pc_sequence s \<le> through \<and>
     pc_series_key s = series_key (pc_identity s) \<and> accepts_value (pc_identity s) (pc_value s)"

lemma validate_series_Cons:
  "validate_series series_key run_id through keys sequences (s # ss) = Inr u \<longleftrightarrow>
     sound_sample series_key run_id through s \<and> pc_series_key s \<notin> keys \<and> pc_sequence s \<notin> sequences \<and>
     validate_series series_key run_id through (insert (pc_series_key s) keys) (insert (pc_sequence s) sequences) ss = Inr u"
  unfolding validate_series.simps sound_sample_def not_le [symmetric] by (simp split: if_split) blast

lemma validate_series_iff:
  "validate_series series_key run_id through keys sequences ss = Inr u \<longleftrightarrow>
     (\<forall>s \<in> set ss. sound_sample series_key run_id through s \<and> pc_series_key s \<notin> keys \<and> pc_sequence s \<notin> sequences) \<and>
     distinct (map pc_series_key ss) \<and> distinct (map pc_sequence ss)"
proof (induction ss arbitrary: keys sequences)
  case (Cons s ss)
  show ?case unfolding validate_series_Cons Cons.IH by (auto simp: rev_image_eqI)
qed simp

lemma counter_table_entry:
  assumes "s \<in> set (counter_table series_key h)"
  obtains e where "e \<in> set h" "sampled series_key e = Some s"
proof -
  from assms obtain k where k: "k \<in> set (first_keys (sampled_key series_key) h)"
    "s = latest_sample series_key k (with_key (sampled_key series_key) k h)" by (auto simp: table_of_def)
  then have "with_key (sampled_key series_key) k h \<noteq> []" by (simp add: with_key_empty)
  then obtain e s' where "e \<in> set h" "e = last (with_key (sampled_key series_key) k h)" "sampled series_key e = Some s'"
    by (rule sampled_last)
  with k(2) that show thesis by (simp add: latest_sample_def)
qed

lemma counter_table_sequences:
  assumes d: "dense_from run_id 0 h"
  shows "distinct (map pc_sequence (counter_table series_key h))"
proof -
  have "x = y" if xy: "x \<in> set (counter_table series_key h)" "y \<in> set (counter_table series_key h)" "pc_sequence x = pc_sequence y"
    for x y
  proof -
    obtain e f where e: "e \<in> set h" "sampled series_key e = Some x" and f: "f \<in> set h" "sampled series_key f = Some y"
      using xy(1,2) by (metis counter_table_entry)
    with xy(3) sampled_fields(2) [OF e(2)] sampled_fields(2) [OF f(2)] have "event_sequence e = event_sequence f" by simp
    with dense_from_distinct [OF d] e(1) f(1) have "e = f" by (auto simp: distinct_map inj_on_def)
    with e(2) f(2) show ?thesis by simp
  qed
  moreover have "distinct (counter_table series_key h)"
    using counter_entries.idents_distinct [of series_key h] by (simp add: distinct_map)
  ultimately show ?thesis by (auto simp: distinct_map inj_on_def)
qed

lemma counter_validate_table:
  assumes d: "dense_from run_id 0 h"
  shows "validate_series series_key run_id (last_sequence 0 h) {} {} (counter_table series_key h) = Inr ()"
proof -
  have "sound_sample series_key run_id (last_sequence 0 h) s" if s: "s \<in> set (counter_table series_key h)" for s
  proof -
    from s obtain e where e: "e \<in> set h" "sampled series_key e = Some s" by (rule counter_table_entry)
    show ?thesis
      using dense_from_bounds [OF d e(1)] dense_from_run [OF d e(1)] sampled_fields [OF e(2)]
      unfolding sound_sample_def by (intro conjI) simp_all
  qed
  then show ?thesis
    unfolding validate_series_iff by (simp add: counter_entries.idents_distinct counter_table_sequences [OF d])
qed

subsection \<open>The model of a stream\<close>

lemma counter_validate_position_iff:
  "counter_validate_position m e = Inr u \<longleftrightarrow> next_position (cm_run_id m) (cm_through_sequence m) e"
  by (simp add: counter_validate_position_def next_position_def position_check_tie)

lemma apply_sample_sel: "apply_sample m s = Inr m' \<Longrightarrow> \<exists>ss. m' = m\<lparr> cm_series := ss \<rparr>"
  by (auto simp: apply_sample_def split: option.splits if_splits)

interpretation counters: read_model "counter_candidate series_key" cm_run_id cm_through_sequence cm_through_elapsed_ns
proof unfold_locales
  fix m e m'
  assume "counter_candidate series_key m e = Inr m'"
  then obtain m1 where p: "next_position (cm_run_id m) (cm_through_sequence m) e"
    and m1: "(case sampled series_key e of None \<Rightarrow> Inr m | Some sample \<Rightarrow> apply_sample m sample) = Inr m1"
    and m': "m' = m1\<lparr> cm_through_sequence := event_sequence e,
       cm_through_elapsed_ns := max (cm_through_elapsed_ns m1) (event_elapsed e) \<rparr>"
    by (auto simp: counter_candidate_def counter_validate_position_iff)
  have "\<exists>ss. m1 = m\<lparr> cm_series := ss \<rparr>"
    using m1 by (cases "sampled series_key e") (auto dest: apply_sample_sel intro: exI [of _ "cm_series m"])
  with p m' show "next_position (cm_run_id m) (cm_through_sequence m) e \<and> cm_run_id m' = cm_run_id m \<and>
     cm_through_sequence m' = event_sequence e \<and>
     cm_through_elapsed_ns m' = max (cm_through_elapsed_ns m) (event_elapsed e)" by auto
qed

definition counter_model_of ::
  "(CounterSeriesIdentity \<Rightarrow> string) \<Rightarrow> canonical_uuid \<Rightarrow> DiagnosticEvent list \<Rightarrow> CounterReadModel" where
  "counter_model_of series_key run_id es =
     \<lparr> cm_model_schema_version = COUNTER_READ_MODEL_SCHEMA_VERSION, cm_run_id = run_id,
       cm_through_sequence = last_sequence 0 es, cm_through_elapsed_ns = latest_elapsed es,
       cm_series = counter_table series_key es \<rparr>"

definition series_continued :: "(CounterSeriesIdentity \<Rightarrow> string) \<Rightarrow> DiagnosticEvent list \<Rightarrow> bool" where
  "series_continued series_key es \<longleftrightarrow> every_event (continues_series series_key) es"

lemma counter_candidate_step:
  assumes d: "dense_from run_id 0 h"
  shows "counter_candidate series_key (counter_model_of series_key run_id h) e = Inr m \<longleftrightarrow>
     next_position run_id (last_sequence 0 h) e \<and> continues_series series_key h e \<and>
     m = counter_model_of series_key run_id (h @ [e])"
proof -
  let ?m = "counter_model_of series_key run_id h"
  have self: "?m = ?m\<lparr> cm_series := counter_table series_key h \<rparr>" by (simp add: counter_model_of_def)
  have payload: "(case sampled series_key e of None \<Rightarrow> Inr ?m | Some sample \<Rightarrow> apply_sample ?m sample) = Inr m1 \<longleftrightarrow>
     continues_series series_key h e \<and> m1 = ?m\<lparr> cm_series := counter_table series_key (h @ [e]) \<rparr>" for m1
  proof (cases "sampled series_key e")
    case None
    then have "counter_table series_key (h @ [e]) = counter_table series_key h" "continues_series series_key h e"
      by (simp_all add: table_of_other sampled_key_def continues_series_def)
    with None self show ?thesis by auto
  next
    case (Some s)
    with apply_sample_table [OF Some, where m = ?m and h = h] show ?thesis unfolding self [symmetric] by simp
  qed
  have check: "counter_validate series_key ?m = Inr ()"
    using counter_validate_table [OF d, of series_key] by (simp add: counter_validate_def counter_model_of_def)
  have "counter_candidate series_key ?m e = Inr m \<longleftrightarrow> next_position run_id (last_sequence 0 h) e \<and>
      (\<exists>m1. (continues_series series_key h e \<and> m1 = ?m\<lparr> cm_series := counter_table series_key (h @ [e]) \<rparr>) \<and>
        m = m1\<lparr> cm_through_sequence := event_sequence e,
          cm_through_elapsed_ns := max (cm_through_elapsed_ns m1) (event_elapsed e) \<rparr>)"
    unfolding payload [symmetric] counter_candidate_def
    by (auto simp: counter_validate_position_iff check) (simp_all add: counter_model_of_def)
  then show ?thesis by (auto simp: counter_model_of_def)
qed

lemma counter_candidates:
  "fold_res (counter_candidate series_key) (CounterReadModel_empty run_id) es = Inr m \<longleftrightarrow>
     dense_from run_id 0 es \<and> series_continued series_key es \<and> m = counter_model_of series_key run_id es"
proof (induction es arbitrary: m rule: rev_induct)
  case Nil
  then show ?case
    by (auto simp: CounterReadModel_empty_def counter_model_of_def series_continued_def)
next
  case (snoc e es)
  show ?case
    unfolding fold_res_snoc res_bind_Inr snoc.IH series_continued_def every_event_snoc dense_from_snoc
    using counter_candidate_step [of run_id es series_key e m] by (auto simp: series_continued_def)
qed

subsection \<open>Properties\<close>

text \<open>
  The counter read model is the latest sample of every series. A stream is projected exactly
  when it is dense, accepted, and every sample has the identity and the kind of value of the sample
  before it under the same key; the self-check of the model before each event never refuses. The
  series stand in the order of their first samples, and the model then passes its own self-check.
\<close>

theorem counter_read_model_exact:
  "(project_counters series_key run_id es = Inr m \<longleftrightarrow>
     dense_from run_id 0 es \<and> accepted es \<and> series_continued series_key es \<and>
     m = \<lparr> cm_model_schema_version = COUNTER_READ_MODEL_SCHEMA_VERSION, cm_run_id = run_id,
       cm_through_sequence = last_sequence 0 es, cm_through_elapsed_ns = latest_elapsed es,
       cm_series = map (\<lambda>k. the (sampled series_key (last (with_key (sampled_key series_key) k es))))
         (first_keys (sampled_key series_key) es) \<rparr>) \<and>
   (\<nexists>m'. project_counters series_key run_id es = Inr m' \<and> counter_validate series_key m' \<noteq> Inr ())"
proof -
  have eq: "project_counters series_key run_id es = Inr m \<longleftrightarrow>
      dense_from run_id 0 es \<and> accepted es \<and> series_continued series_key es \<and> m = counter_model_of series_key run_id es" for m
    unfolding project_counters_def CounterProjector_apply_def project_with_iff [OF projector_apply_like] counter_candidates
    by blast
  show ?thesis
    unfolding eq using counter_validate_table [of run_id es series_key]
    by (auto simp: counter_validate_def counter_model_of_def table_of_def latest_sample_def)
qed

end
