(* ===== verification/Usage.thy ===== *)
theory Usage
  imports Projection
begin

section \<open>The usage read model\<close>

text \<open>
  Models \<^verbatim>\<open>projector/usage.rs\<close>: the latest context sample of every scope, the final token usage of every
  Act, and the totals over all Acts and per Scene and Actor. Big integers (\<^verbatim>\<open>num_bigint::BigUint\<close>) are the
  parameter \<open>big\<close>; what its documentation promises is \<open>biguint_documented\<close>. Shown: the totals kept
  step by step are the totals of the usages, and the model's check of itself never fails on a model
  the projector built.
\<close>

record 'b BigUint_ops =
  bg_from_str :: "string \<Rightarrow> 'b option"
  bg_default :: 'b
  bg_plus :: "'b \<Rightarrow> 'b \<Rightarrow> 'b"
  bg_to_str_radix_10 :: "'b \<Rightarrow> string"

abbreviation USAGE_READ_MODEL_SCHEMA_VERSION :: "8 word" where "USAGE_READ_MODEL_SCHEMA_VERSION \<equiv> 1"

record ProjectedActUsage =
  pu_run_id :: canonical_uuid
  pu_act_id :: run_local_id
  pu_scope :: DiagnosticScope
  pu_sequence :: u64
  pu_elapsed_ns :: elapsed_ns
  pu_caused_by :: "CausalLink list"
  pu_availability :: UsageAvailability
  pu_source :: "UsageSource option"
  pu_unavailable_reason :: "UsageUnavailableReason option"
  pu_provider_total_tokens :: "string option"
  pu_input_tokens :: "string option"
  pu_output_tokens :: "string option"
  pu_thought_tokens :: "string option"
  pu_cached_read_tokens :: "string option"
  pu_cached_write_tokens :: "string option"

definition ProjectedActUsage_from_event :: "ActTokenUsageFinalized \<Rightarrow> run_local_id \<Rightarrow> ProjectedActUsage" where
  "ProjectedActUsage_from_event event act_id =
     \<lparr> pu_run_id = hdr_run_id (atu_header event), pu_act_id = act_id, pu_scope = hdr_scope (atu_header event),
       pu_sequence = hdr_sequence (atu_header event), pu_elapsed_ns = hdr_elapsed_ns (atu_header event),
       pu_caused_by = hdr_caused_by (atu_header event), pu_availability = atu_availability event,
       pu_source = atu_source event, pu_unavailable_reason = atu_unavailable_reason event,
       pu_provider_total_tokens = atu_provider_total_tokens event, pu_input_tokens = atu_input_tokens event,
       pu_output_tokens = atu_output_tokens event, pu_thought_tokens = atu_thought_tokens event,
       pu_cached_read_tokens = atu_cached_read_tokens event, pu_cached_write_tokens = atu_cached_write_tokens event \<rparr>"

definition availability_is_valid :: "ProjectedActUsage \<Rightarrow> bool" where
  "availability_is_valid u =
     (let primary_complete = (pu_provider_total_tokens u \<noteq> None \<and> pu_input_tokens u \<noteq> None \<and> pu_output_tokens u \<noteq> None);
          any_value = (pu_provider_total_tokens u \<noteq> None \<or> pu_input_tokens u \<noteq> None \<or> pu_output_tokens u \<noteq> None \<or>
            pu_thought_tokens u \<noteq> None \<or> pu_cached_read_tokens u \<noteq> None \<or> pu_cached_write_tokens u \<noteq> None) in
      (case pu_availability u of
         UsageAvailability.Available \<Rightarrow>
           primary_complete \<and> pu_source u = Some UsageSource.AcpPromptResponseUsage \<and> pu_unavailable_reason u = None
       | UsageAvailability.Partial \<Rightarrow>
           any_value \<and> \<not> primary_complete \<and> pu_source u = Some UsageSource.AcpPromptResponseUsage \<and>
           pu_unavailable_reason u = None
       | UsageAvailability.Unavailable \<Rightarrow>
           \<not> any_value \<and> pu_source u = None \<and> pu_unavailable_reason u \<noteq> None))"

datatype UsageProjectionError =
    UsageRunIdentityMismatch canonical_uuid canonical_uuid u64
  | UsageNonCanonicalSequence u64 u64
  | UsageSequenceTie u64
  | UsageSequenceExhausted u64
  | UsageInvalidReference ReferenceValidationError
  | MissingActIdentity u64
  | DuplicateActUsage run_local_id u64 u64
  | AvailabilityMismatch run_local_id u64
  | UsageRecordMismatch u64
  | ContextRecordMismatch u64
  | AggregateMismatch u64
  | CountExhausted u64
  | InvalidTokenValue u64
  | UsageModelSchemaMismatch "8 word" "8 word" u64

definition increment_count :: "u64 \<Rightarrow> u64 \<Rightarrow> UsageProjectionError + u64" where
  "increment_count n at_sequence =
     (case checked_add_u64 n 1 of None \<Rightarrow> Inl (CountExhausted at_sequence) | Some v \<Rightarrow> Inr v)"

definition sum_token_counts ::
  "'b BigUint_ops \<Rightarrow> string option \<Rightarrow> string \<Rightarrow> u64 \<Rightarrow> UsageProjectionError + string" where
  "sum_token_counts big current incoming at_sequence =
     res_bind (case current of
         Some v \<Rightarrow> (case bg_from_str big v of None \<Rightarrow> Inl (InvalidTokenValue at_sequence) | Some n \<Rightarrow> Inr n)
       | None \<Rightarrow> Inr (bg_default big)) (\<lambda>left.
     res_bind (case bg_from_str big incoming of None \<Rightarrow> Inl (InvalidTokenValue at_sequence) | Some n \<Rightarrow> Inr n) (\<lambda>right.
     case TokenCount_parse (bg_to_str_radix_10 big (bg_plus big left right)) of
       Inl _ \<Rightarrow> Inl (InvalidTokenValue at_sequence) | Inr v \<Rightarrow> Inr v))"

record UsageFieldAggregate =
  fa_known_sum :: "string option"
  fa_reported_acts :: u64
  fa_finalized_acts :: u64

definition UsageFieldAggregate_empty :: UsageFieldAggregate where
  "UsageFieldAggregate_empty = \<lparr> fa_known_sum = None, fa_reported_acts = 0, fa_finalized_acts = 0 \<rparr>"

definition UsageFieldAggregate_record ::
  "'b BigUint_ops \<Rightarrow> UsageFieldAggregate \<Rightarrow> string option \<Rightarrow> u64 \<Rightarrow> UsageProjectionError + UsageFieldAggregate" where
  "UsageFieldAggregate_record big a v at_sequence =
     res_bind (increment_count (fa_finalized_acts a) at_sequence) (\<lambda>finalized.
     case v of
       None \<Rightarrow> Inr (a\<lparr> fa_finalized_acts := finalized \<rparr>)
     | Some t \<Rightarrow>
         res_bind (increment_count (fa_reported_acts a) at_sequence) (\<lambda>reported.
         res_bind (sum_token_counts big (fa_known_sum a) t at_sequence) (\<lambda>known.
         Inr (a\<lparr> fa_finalized_acts := finalized, fa_reported_acts := reported, fa_known_sum := Some known \<rparr>))))"

record UsageAggregate =
  ua_finalized_acts :: u64
  ua_reported_acts :: u64
  ua_available_acts :: u64
  ua_partial_acts :: u64
  ua_unavailable_acts :: u64
  ua_provider_total_tokens :: UsageFieldAggregate
  ua_input_tokens :: UsageFieldAggregate
  ua_output_tokens :: UsageFieldAggregate
  ua_thought_tokens :: UsageFieldAggregate
  ua_cached_read_tokens :: UsageFieldAggregate
  ua_cached_write_tokens :: UsageFieldAggregate

definition UsageAggregate_empty :: UsageAggregate where
  "UsageAggregate_empty =
     \<lparr> ua_finalized_acts = 0, ua_reported_acts = 0, ua_available_acts = 0, ua_partial_acts = 0, ua_unavailable_acts = 0,
       ua_provider_total_tokens = UsageFieldAggregate_empty, ua_input_tokens = UsageFieldAggregate_empty,
       ua_output_tokens = UsageFieldAggregate_empty, ua_thought_tokens = UsageFieldAggregate_empty,
       ua_cached_read_tokens = UsageFieldAggregate_empty, ua_cached_write_tokens = UsageFieldAggregate_empty \<rparr>"

definition record_availability ::
  "UsageAggregate \<Rightarrow> ProjectedActUsage \<Rightarrow> UsageProjectionError + UsageAggregate" where
  "record_availability a u =
     (case pu_availability u of
        UsageAvailability.Available \<Rightarrow>
          res_bind (increment_count (ua_reported_acts a) (pu_sequence u)) (\<lambda>reported.
          res_bind (increment_count (ua_available_acts a) (pu_sequence u)) (\<lambda>available.
          Inr (a\<lparr> ua_reported_acts := reported, ua_available_acts := available \<rparr>)))
      | UsageAvailability.Partial \<Rightarrow>
          res_bind (increment_count (ua_reported_acts a) (pu_sequence u)) (\<lambda>reported.
          res_bind (increment_count (ua_partial_acts a) (pu_sequence u)) (\<lambda>partial.
          Inr (a\<lparr> ua_reported_acts := reported, ua_partial_acts := partial \<rparr>)))
      | UsageAvailability.Unavailable \<Rightarrow>
          res_bind (increment_count (ua_unavailable_acts a) (pu_sequence u)) (\<lambda>unavailable.
          Inr (a\<lparr> ua_unavailable_acts := unavailable \<rparr>)))"

definition UsageAggregate_record ::
  "'b BigUint_ops \<Rightarrow> UsageAggregate \<Rightarrow> ProjectedActUsage \<Rightarrow> UsageProjectionError + UsageAggregate" where
  "UsageAggregate_record big a u =
     res_bind (increment_count (ua_finalized_acts a) (pu_sequence u)) (\<lambda>finalized.
     res_bind (record_availability (a\<lparr> ua_finalized_acts := finalized \<rparr>) u) (\<lambda>a.
     res_bind (UsageFieldAggregate_record big (ua_provider_total_tokens a) (pu_provider_total_tokens u) (pu_sequence u)) (\<lambda>f1.
     res_bind (UsageFieldAggregate_record big (ua_input_tokens a) (pu_input_tokens u) (pu_sequence u)) (\<lambda>f2.
     res_bind (UsageFieldAggregate_record big (ua_output_tokens a) (pu_output_tokens u) (pu_sequence u)) (\<lambda>f3.
     res_bind (UsageFieldAggregate_record big (ua_thought_tokens a) (pu_thought_tokens u) (pu_sequence u)) (\<lambda>f4.
     res_bind (UsageFieldAggregate_record big (ua_cached_read_tokens a) (pu_cached_read_tokens u) (pu_sequence u)) (\<lambda>f5.
     res_bind (UsageFieldAggregate_record big (ua_cached_write_tokens a) (pu_cached_write_tokens u) (pu_sequence u)) (\<lambda>f6.
     Inr (a\<lparr> ua_provider_total_tokens := f1, ua_input_tokens := f2, ua_output_tokens := f3, ua_thought_tokens := f4,
       ua_cached_read_tokens := f5, ua_cached_write_tokens := f6 \<rparr>)))))))))"

definition aggregate_records ::
  "'b BigUint_ops \<Rightarrow> ProjectedActUsage list \<Rightarrow> UsageProjectionError + UsageAggregate" where
  "aggregate_records big usages = fold_res (UsageAggregate_record big) UsageAggregate_empty usages"

record ScopedUsageAggregate =
  sa_scope :: DiagnosticScope
  sa_aggregate :: UsageAggregate

definition record_scoped_aggregate ::
  "'b BigUint_ops \<Rightarrow> ScopedUsageAggregate list \<Rightarrow> DiagnosticScope \<Rightarrow> ProjectedActUsage \<Rightarrow>
   UsageProjectionError + ScopedUsageAggregate list" where
  "record_scoped_aggregate big aggregates scope u =
     (case List.find (\<lambda>item. sa_scope item = scope) aggregates of
        Some existing \<Rightarrow>
          res_bind (UsageAggregate_record big (sa_aggregate existing) u) (\<lambda>a.
          Inr (update_first (\<lambda>item. sa_scope item = scope) (\<lambda>item. item\<lparr> sa_aggregate := a \<rparr>) aggregates))
      | None \<Rightarrow>
          res_bind (UsageAggregate_record big UsageAggregate_empty u) (\<lambda>a.
          Inr (aggregates @ [\<lparr> sa_scope = scope, sa_aggregate = a \<rparr>])))"

definition scene_scope :: "run_local_id \<Rightarrow> run_local_id option \<Rightarrow> DiagnosticScope" where
  "scene_scope scene_id actor_id =
     \<lparr> sc_scene_id = Some scene_id, sc_actor_id = actor_id, sc_cue_id = None, sc_effect_id = None,
       sc_act_id = None, sc_tool_call_id = None, sc_session_generation = None \<rparr>"

definition record_scoped_aggregates ::
  "'b BigUint_ops \<Rightarrow> ScopedUsageAggregate list \<Rightarrow> ProjectedActUsage \<Rightarrow>
   UsageProjectionError + ScopedUsageAggregate list" where
  "record_scoped_aggregates big aggregates u =
     (case sc_scene_id (pu_scope u) of
        None \<Rightarrow> Inr aggregates
      | Some scene_id \<Rightarrow>
          res_bind (record_scoped_aggregate big aggregates (scene_scope scene_id None) u) (\<lambda>aggregates.
          case sc_actor_id (pu_scope u) of
            None \<Rightarrow> Inr aggregates
          | Some actor_id \<Rightarrow> record_scoped_aggregate big aggregates (scene_scope scene_id (Some actor_id)) u))"

definition aggregate_records_by_scope ::
  "'b BigUint_ops \<Rightarrow> ProjectedActUsage list \<Rightarrow> UsageProjectionError + ScopedUsageAggregate list" where
  "aggregate_records_by_scope big usages = fold_res (record_scoped_aggregates big) [] usages"

definition usage_optional_contains :: "'a option \<Rightarrow> 'a option \<Rightarrow> bool" where
  "usage_optional_contains parent child = (case parent of None \<Rightarrow> True | Some v \<Rightarrow> child = Some v)"

definition usage_scope_contains :: "DiagnosticScope \<Rightarrow> DiagnosticScope \<Rightarrow> bool" where
  "usage_scope_contains parent child \<longleftrightarrow>
     usage_optional_contains (sc_scene_id parent) (sc_scene_id child) \<and>
     usage_optional_contains (sc_actor_id parent) (sc_actor_id child) \<and>
     usage_optional_contains (sc_cue_id parent) (sc_cue_id child) \<and>
     usage_optional_contains (sc_effect_id parent) (sc_effect_id child) \<and>
     usage_optional_contains (sc_act_id parent) (sc_act_id child) \<and>
     usage_optional_contains (sc_tool_call_id parent) (sc_tool_call_id child) \<and>
     usage_optional_contains (sc_session_generation parent) (sc_session_generation child)"

type_synonym context_scope_key =
  "string option \<times> string option \<times> string option \<times> string option \<times> string option \<times> string option \<times> u64 option"

definition context_scope_key :: "DiagnosticScope \<Rightarrow> context_scope_key" where
  "context_scope_key scope =
     (sc_scene_id scope, sc_actor_id scope, sc_cue_id scope, sc_effect_id scope, sc_act_id scope,
      sc_tool_call_id scope, sc_session_generation scope)"

record UsageReadModel =
  um_model_schema_version :: "8 word"
  um_run_id :: canonical_uuid
  um_through_sequence :: u64
  um_through_elapsed_ns :: elapsed_ns
  um_contexts :: "ContextUsageSampled list"
  um_usages :: "ProjectedActUsage list"
  um_aggregate :: UsageAggregate
  um_scoped_aggregates :: "ScopedUsageAggregate list"

definition UsageReadModel_empty :: "canonical_uuid \<Rightarrow> UsageReadModel" where
  "UsageReadModel_empty run_id =
     \<lparr> um_model_schema_version = USAGE_READ_MODEL_SCHEMA_VERSION, um_run_id = run_id, um_through_sequence = 0,
       um_through_elapsed_ns = 0, um_contexts = [], um_usages = [], um_aggregate = UsageAggregate_empty,
       um_scoped_aggregates = [] \<rparr>"

definition context_for_scope :: "UsageReadModel \<Rightarrow> DiagnosticScope \<Rightarrow> ContextUsageSampled option" where
  "context_for_scope m scope = List.find (\<lambda>c. hdr_scope (cus_header c) = scope) (um_contexts m)"

definition usage_for_act :: "UsageReadModel \<Rightarrow> run_local_id \<Rightarrow> ProjectedActUsage option" where
  "usage_for_act m act_id = List.find (\<lambda>u. pu_act_id u = act_id) (um_usages m)"

definition usages_within_scope :: "UsageReadModel \<Rightarrow> DiagnosticScope \<Rightarrow> ProjectedActUsage list" where
  "usages_within_scope m scope = filter (\<lambda>u. usage_scope_contains scope (pu_scope u)) (um_usages m)"

text \<open>The two loops of \<^verbatim>\<open>validate\<close>; both add to the sequences already materialized.\<close>

fun validate_contexts ::
  "UsageReadModel \<Rightarrow> context_scope_key set \<Rightarrow> u64 set \<Rightarrow> u64 \<Rightarrow> ContextUsageSampled list \<Rightarrow>
   UsageProjectionError + u64 set" where
  "validate_contexts m scopes materialized previous [] = Inr materialized"
| "validate_contexts m scopes materialized previous (c # cs) =
     (let h = cus_header c in
      if hdr_run_id h \<noteq> um_run_id m \<or> hdr_sequence h = 0 \<or> hdr_sequence h > um_through_sequence m \<or>
         hdr_elapsed_ns h > um_through_elapsed_ns m \<or> hdr_sequence h \<le> previous \<or>
         hdr_sequence h \<in> materialized \<or> context_scope_key (hdr_scope h) \<in> scopes
      then Inl (ContextRecordMismatch (hdr_sequence h))
      else validate_contexts m (insert (context_scope_key (hdr_scope h)) scopes)
             (insert (hdr_sequence h) materialized) (hdr_sequence h) cs)"

fun validate_usages ::
  "UsageReadModel \<Rightarrow> (run_local_id \<rightharpoonup> u64) \<Rightarrow> u64 set \<Rightarrow> u64 \<Rightarrow> ProjectedActUsage list \<Rightarrow>
   UsageProjectionError + unit" where
  "validate_usages m acts materialized previous [] = Inr ()"
| "validate_usages m acts materialized previous (u # us) =
     (if pu_run_id u \<noteq> um_run_id m \<or> pu_sequence u = 0 \<or> pu_sequence u > um_through_sequence m \<or>
         pu_elapsed_ns u > um_through_elapsed_ns m \<or> sc_act_id (pu_scope u) \<noteq> Some (pu_act_id u) \<or>
         pu_sequence u \<in> materialized
      then Inl (UsageRecordMismatch (pu_sequence u))
      else if pu_sequence u \<le> previous then Inl (UsageRecordMismatch (pu_sequence u))
      else case acts (pu_act_id u) of
        Some first_sequence \<Rightarrow> Inl (DuplicateActUsage (pu_act_id u) first_sequence (pu_sequence u))
      | None \<Rightarrow>
          if \<not> availability_is_valid u then Inl (AvailabilityMismatch (pu_act_id u) (pu_sequence u))
          else validate_usages m (acts(pu_act_id u \<mapsto> pu_sequence u)) (insert (pu_sequence u) materialized)
                 (pu_sequence u) us)"

definition usage_validate :: "'b BigUint_ops \<Rightarrow> UsageReadModel \<Rightarrow> UsageProjectionError + unit" where
  "usage_validate big m =
     (if um_model_schema_version m \<noteq> USAGE_READ_MODEL_SCHEMA_VERSION
      then Inl (UsageModelSchemaMismatch USAGE_READ_MODEL_SCHEMA_VERSION (um_model_schema_version m) (um_through_sequence m))
      else
        res_bind (validate_contexts m {} {} 0 (um_contexts m)) (\<lambda>materialized.
        res_bind (validate_usages m Map.empty materialized 0 (um_usages m)) (\<lambda>_.
        res_bind (aggregate_records big (um_usages m)) (\<lambda>expected.
        res_bind (aggregate_records_by_scope big (um_usages m)) (\<lambda>expected_scoped.
        if um_aggregate m \<noteq> expected \<or> um_scoped_aggregates m \<noteq> expected_scoped
        then Inl (AggregateMismatch (um_through_sequence m)) else Inr ())))))"

definition aggregate_within_scope ::
  "'b BigUint_ops \<Rightarrow> UsageReadModel \<Rightarrow> DiagnosticScope \<Rightarrow> UsageProjectionError + UsageAggregate" where
  "aggregate_within_scope big m scope =
     res_bind (usage_validate big m) (\<lambda>_. aggregate_records big (usages_within_scope m scope))"

definition usage_validate_position :: "UsageReadModel \<Rightarrow> DiagnosticEvent \<Rightarrow> UsageProjectionError + unit" where
  "usage_validate_position m event =
     (if event_run_id event \<noteq> um_run_id m
      then Inl (UsageRunIdentityMismatch (um_run_id m) (event_run_id event) (event_sequence event))
      else if um_through_sequence m > 0 \<and> event_sequence event = um_through_sequence m
      then Inl (UsageSequenceTie (event_sequence event))
      else case checked_add_u64 (um_through_sequence m) 1 of
        None \<Rightarrow> Inl (UsageSequenceExhausted (event_sequence event))
      | Some expected \<Rightarrow>
          if event_sequence event \<noteq> expected
          then Inl (UsageNonCanonicalSequence expected (event_sequence event)) else Inr ())"

definition apply_context :: "UsageReadModel \<Rightarrow> ContextUsageSampled \<Rightarrow> UsageReadModel" where
  "apply_context m c =
     m\<lparr> um_contexts := filter (\<lambda>existing. hdr_scope (cus_header existing) \<noteq> hdr_scope (cus_header c)) (um_contexts m) @ [c] \<rparr>"

definition apply_usage ::
  "'b BigUint_ops \<Rightarrow> UsageReadModel \<Rightarrow> ActTokenUsageFinalized \<Rightarrow> UsageProjectionError + UsageReadModel" where
  "apply_usage big m event =
     (case sc_act_id (hdr_scope (atu_header event)) of
        None \<Rightarrow> Inl (MissingActIdentity (hdr_sequence (atu_header event)))
      | Some act_id \<Rightarrow>
          (case usage_for_act m act_id of
             Some existing \<Rightarrow> Inl (DuplicateActUsage act_id (pu_sequence existing) (hdr_sequence (atu_header event)))
           | None \<Rightarrow>
               let projected = ProjectedActUsage_from_event event act_id in
               if \<not> availability_is_valid projected
               then Inl (AvailabilityMismatch (pu_act_id projected) (pu_sequence projected))
               else
                 res_bind (UsageAggregate_record big (um_aggregate m) projected) (\<lambda>aggregate.
                 res_bind (record_scoped_aggregates big (um_scoped_aggregates m) projected) (\<lambda>scoped.
                 Inr (m\<lparr> um_aggregate := aggregate, um_scoped_aggregates := scoped,
                   um_usages := um_usages m @ [projected] \<rparr>)))))"

definition usage_candidate ::
  "'b BigUint_ops \<Rightarrow> UsageReadModel \<Rightarrow> DiagnosticEvent \<Rightarrow> UsageProjectionError + UsageReadModel" where
  "usage_candidate big m event =
     res_bind (usage_validate_position m event) (\<lambda>_.
     res_bind (usage_validate big m) (\<lambda>_.
     res_bind (case event of
         ContextUsageSampled c \<Rightarrow> Inr (apply_context m c)
       | ActTokenUsageFinalized a \<Rightarrow> apply_usage big m a
       | _ \<Rightarrow> Inr m) (\<lambda>candidate.
     Inr (candidate\<lparr> um_through_sequence := event_sequence event,
       um_through_elapsed_ns := max (um_through_elapsed_ns candidate) (event_elapsed event) \<rparr>))))"

definition UsageProjector_apply ::
  "'b BigUint_ops \<Rightarrow> UsageReadModel projector \<Rightarrow> DiagnosticEvent \<Rightarrow>
   (UsageProjectionError + unit) \<times> UsageReadModel projector" where
  "UsageProjector_apply big = projector_apply (usage_candidate big) UsageInvalidReference"

definition project_usage ::
  "'b BigUint_ops \<Rightarrow> canonical_uuid \<Rightarrow> DiagnosticEvent list \<Rightarrow> UsageProjectionError + UsageReadModel" where
  "project_usage big run_id events = project_with (UsageProjector_apply big) (UsageReadModel_empty run_id) events"

subsection \<open>Totals\<close>

text \<open>What the documentation of \<^verbatim>\<open>BigUint\<close> promises: decimal text in and out, and exact addition.\<close>

definition biguint_documented :: "'b BigUint_ops \<Rightarrow> ('b \<Rightarrow> nat) \<Rightarrow> bool" where
  "biguint_documented big number \<longleftrightarrow>
     (\<forall>n. \<exists>b. bg_from_str big (nat_decimal n) = Some b \<and> number b = n) \<and>
     number (bg_default big) = 0 \<and>
     (\<forall>a b. number (bg_plus big a b) = number a + number b) \<and>
     (\<forall>b. bg_to_str_radix_10 big b = nat_decimal (number b))"

definition token_sum :: "string option list \<Rightarrow> nat" where
  "token_sum ts = sum_list (map dec_value (List.map_filter id ts))"

definition field_total :: "string option list \<Rightarrow> UsageFieldAggregate" where
  "field_total ts =
     \<lparr> fa_known_sum = (if List.map_filter id ts = [] then None else Some (nat_decimal (token_sum ts))),
       fa_reported_acts = of_nat (length (List.map_filter id ts)), fa_finalized_acts = of_nat (length ts) \<rparr>"

definition acts_with :: "(UsageAvailability \<Rightarrow> bool) \<Rightarrow> ProjectedActUsage list \<Rightarrow> u64" where
  "acts_with p us = of_nat (length (filter (\<lambda>u. p (pu_availability u)) us))"

definition usage_total :: "ProjectedActUsage list \<Rightarrow> UsageAggregate" where
  "usage_total us =
     \<lparr> ua_finalized_acts = of_nat (length us),
       ua_reported_acts = acts_with (\<lambda>a. a \<noteq> UsageAvailability.Unavailable) us,
       ua_available_acts = acts_with (\<lambda>a. a = UsageAvailability.Available) us,
       ua_partial_acts = acts_with (\<lambda>a. a = UsageAvailability.Partial) us,
       ua_unavailable_acts = acts_with (\<lambda>a. a = UsageAvailability.Unavailable) us,
       ua_provider_total_tokens = field_total (map pu_provider_total_tokens us),
       ua_input_tokens = field_total (map pu_input_tokens us),
       ua_output_tokens = field_total (map pu_output_tokens us),
       ua_thought_tokens = field_total (map pu_thought_tokens us),
       ua_cached_read_tokens = field_total (map pu_cached_read_tokens us),
       ua_cached_write_tokens = field_total (map pu_cached_write_tokens us) \<rparr>"

definition canonical_token :: "string option \<Rightarrow> bool" where
  "canonical_token t = (case t of None \<Rightarrow> True | Some s \<Rightarrow> canonical_digits s)"

definition canonical_usage :: "ProjectedActUsage \<Rightarrow> bool" where
  "canonical_usage u \<longleftrightarrow>
     canonical_token (pu_provider_total_tokens u) \<and> canonical_token (pu_input_tokens u) \<and>
     canonical_token (pu_output_tokens u) \<and> canonical_token (pu_thought_tokens u) \<and>
     canonical_token (pu_cached_read_tokens u) \<and> canonical_token (pu_cached_write_tokens u)"

lemma increment_count_of_nat:
  assumes "n < 2 ^ 64 - 1"
  shows "increment_count (of_nat n) q = Inr (of_nat (Suc n))"
proof -
  have "unat (of_nat n :: u64) = n" using assms by (simp add: unat_of_nat take_bit_nat_eq_self)
  then show ?thesis using assms by (simp add: increment_count_def checked_add_u64_one add.commute)
qed

lemma sum_token_counts_exact:
  assumes big: "biguint_documented big number" and t: "canonical_digits t"
  shows "sum_token_counts big (if p then None else Some (nat_decimal n)) t q
    = Inr (nat_decimal ((if p then 0 else n) + dec_value t))"
proof -
  have "\<exists>b. bg_from_str big t = Some b \<and> number b = dec_value t"
    using big t nat_decimal_of_value [OF t] unfolding biguint_documented_def by metis
  then obtain b where b: "bg_from_str big t = Some b" "number b = dec_value t" by blast
  from big obtain a where a: "bg_from_str big (nat_decimal n) = Some a" "number a = n"
    unfolding biguint_documented_def by blast
  have parse: "TokenCount_parse (nat_decimal k) = Inr (nat_decimal k)" for k
    using validate_canonical_iff [of "nat_decimal k" "()"] by (simp add: TokenCount_parse_def)
  show ?thesis using big a b by (simp add: sum_token_counts_def biguint_documented_def parse)
qed

lemma length_map_filter_le: "length (List.map_filter f xs) \<le> length xs"
  by (simp add: List.map_filter_def)

lemma field_record_total:
  assumes "biguint_documented big number" "canonical_token t" "length ts < 2 ^ 64 - 1"
  shows "UsageFieldAggregate_record big (field_total ts) t q = Inr (field_total (ts @ [t]))"
proof (cases t)
  case None
  with assms(3) show ?thesis
    by (simp add: UsageFieldAggregate_record_def field_total_def increment_count_of_nat token_sum_def del: of_nat_Suc)
next
  case (Some s)
  have "length (List.map_filter id ts) < 2 ^ 64 - 1" using length_map_filter_le [of id ts] assms(3) by linarith
  moreover have "canonical_digits s" using assms(2) Some by (simp add: canonical_token_def)
  moreover have "(if List.map_filter id ts = [] then 0 else token_sum ts) = token_sum ts" by (simp add: token_sum_def)
  ultimately show ?thesis
    using assms(3) Some sum_token_counts_exact [OF assms(1), where t = s and n = "token_sum ts" and q = q and
        p = "List.map_filter id ts = []"]
    by (simp add: UsageFieldAggregate_record_def field_total_def increment_count_of_nat token_sum_def del: of_nat_Suc)
qed

lemma increment_acts:
  assumes "length us < 2 ^ 64 - 1"
  shows "increment_count (acts_with p us) q = Inr (acts_with p us + 1)"
proof -
  have "length (filter (\<lambda>u. p (pu_availability u)) us) < 2 ^ 64 - 1"
    using length_filter_le [of "\<lambda>u. p (pu_availability u)" us] assms by linarith
  from increment_count_of_nat [OF this, of q] show ?thesis by (simp add: acts_with_def add.commute)
qed

lemma acts_with_snoc [simp]: "acts_with p (us @ [u]) = (if p (pu_availability u) then acts_with p us + 1 else acts_with p us)"
  by (simp add: acts_with_def)

lemma usage_record_total:
  assumes big: "biguint_documented big number" and u: "canonical_usage u" and n: "length us < 2 ^ 64 - 1"
  shows "UsageAggregate_record big (usage_total us) u = Inr (usage_total (us @ [u]))"
proof -
  note f = field_record_total [OF big, where ts = "map g us" for g]
  have acts: "record_availability (usage_total us\<lparr> ua_finalized_acts := k \<rparr>) u =
      Inr (usage_total us\<lparr> ua_finalized_acts := k,
        ua_reported_acts := acts_with (\<lambda>a. a \<noteq> UsageAvailability.Unavailable) (us @ [u]),
        ua_available_acts := acts_with (\<lambda>a. a = UsageAvailability.Available) (us @ [u]),
        ua_partial_acts := acts_with (\<lambda>a. a = UsageAvailability.Partial) (us @ [u]),
        ua_unavailable_acts := acts_with (\<lambda>a. a = UsageAvailability.Unavailable) (us @ [u]) \<rparr>)" for k
    using increment_acts [OF n]
    by (cases "pu_availability u") (simp_all add: record_availability_def usage_total_def)
  have c: "increment_count (ua_finalized_acts (usage_total us)) q = Inr (of_nat (Suc (length us)))" for q
    using n by (simp add: usage_total_def increment_count_of_nat del: of_nat_Suc)
  show ?thesis
    unfolding UsageAggregate_record_def c res_bind.simps acts
    using u n by (simp add: canonical_usage_def usage_total_def f del: of_nat_Suc)
qed

lemma usage_total_Nil [simp]: "usage_total [] = UsageAggregate_empty"
  by (simp add: usage_total_def UsageAggregate_empty_def field_total_def UsageFieldAggregate_empty_def acts_with_def
      List.map_filter_def)

lemma aggregate_records_total:
  assumes big: "biguint_documented big number"
  shows "list_all canonical_usage us \<Longrightarrow> length us < 2 ^ 64 \<Longrightarrow> aggregate_records big us = Inr (usage_total us)"
  unfolding aggregate_records_def
proof (induction us rule: rev_induct)
  case (snoc u us)
  then show ?case using usage_record_total [OF big, of u us] by simp
qed simp

subsection \<open>Totals per scope\<close>

definition usage_scopes :: "ProjectedActUsage \<Rightarrow> DiagnosticScope list" where
  "usage_scopes u =
     (case sc_scene_id (pu_scope u) of
        None \<Rightarrow> []
      | Some scene \<Rightarrow> scene_scope scene None #
          (case sc_actor_id (pu_scope u) of None \<Rightarrow> [] | Some actor \<Rightarrow> [scene_scope scene (Some actor)]))"

definition scoped_usages :: "ProjectedActUsage list \<Rightarrow> (DiagnosticScope \<times> ProjectedActUsage) list" where
  "scoped_usages us = concat (map (\<lambda>u. map (\<lambda>scope. (scope, u)) (usage_scopes u)) us)"

definition pair_scope :: "DiagnosticScope \<times> ProjectedActUsage \<Rightarrow> DiagnosticScope option" where
  "pair_scope p = Some (fst p)"

definition scope_entry :: "DiagnosticScope \<Rightarrow> (DiagnosticScope \<times> ProjectedActUsage) list \<Rightarrow> ScopedUsageAggregate" where
  "scope_entry scope ps = \<lparr> sa_scope = scope, sa_aggregate = usage_total (map snd ps) \<rparr>"

definition scoped_total :: "(DiagnosticScope \<times> ProjectedActUsage) list \<Rightarrow> ScopedUsageAggregate list" where
  "scoped_total ps = table_of pair_scope scope_entry ps"

interpretation scoped_entries: keyed_table pair_scope scope_entry sa_scope
  by unfold_locales (simp add: scope_entry_def)

lemma record_scoped_total:
  assumes big: "biguint_documented big number" and u: "canonical_usage u"
    and n: "length (with_key pair_scope scope ps) < 2 ^ 64 - 1"
  shows "record_scoped_aggregate big (scoped_total ps) scope u = Inr (scoped_total (ps @ [(scope, u)]))"
proof -
  let ?t = "with_key pair_scope scope ps"
  have k: "pair_scope (scope, u) = Some scope" by (simp add: pair_scope_def)
  have r: "UsageAggregate_record big (usage_total (map snd ?t)) u = Inr (usage_total (map snd ?t @ [u]))"
    using usage_record_total [OF big u, of "map snd ?t"] n by simp
  show ?thesis
  proof (cases "?t = []")
    case True
    with r table_of_new [where key = pair_scope and entry = scope_entry, OF k True] show ?thesis
      by (simp add: record_scoped_aggregate_def scoped_total_def scoped_entries.table_find scope_entry_def)
  next
    case False
    have "scope_entry scope ?t\<lparr> sa_aggregate := usage_total (map snd ?t @ [u]) \<rparr> = scope_entry scope (?t @ [(scope, u)])"
      by (simp add: scope_entry_def)
    from scoped_entries.table_join [where f = "\<lambda>item. item\<lparr> sa_aggregate := usage_total (map snd ?t @ [u]) \<rparr>", OF k False this]
    show ?thesis using False r
      by (simp add: record_scoped_aggregate_def scoped_total_def scoped_entries.table_find) (simp add: scope_entry_def)
  qed
qed

lemma scoped_usages_snoc [simp]:
  "scoped_usages (us @ [u]) = scoped_usages us @ map (\<lambda>scope. (scope, u)) (usage_scopes u)"
  by (simp add: scoped_usages_def)

lemma usage_scopes_once: "length (filter (\<lambda>x. x = scope) (usage_scopes u)) \<le> 1"
  by (auto simp: usage_scopes_def scene_scope_def split: option.splits)

lemma with_key_scoped_usages: "length (with_key pair_scope scope (scoped_usages us)) \<le> length us"
proof (induction us rule: rev_induct)
  case Nil
  then show ?case by (simp add: scoped_usages_def with_key_def)
next
  case (snoc u us)
  have "length (with_key pair_scope scope (map (\<lambda>s. (s, u)) (usage_scopes u))) \<le> 1"
    using usage_scopes_once [of scope u] by (simp add: with_key_def pair_scope_def filter_map o_def)
  with snoc show ?case by (simp add: with_key_def)
qed

lemma record_scopes_total:
  assumes big: "biguint_documented big number" and u: "canonical_usage u" and n: "length us < 2 ^ 64 - 1"
  shows "record_scoped_aggregates big (scoped_total (scoped_usages us)) u = Inr (scoped_total (scoped_usages (us @ [u])))"
proof (cases "sc_scene_id (pu_scope u)")
  case None
  then show ?thesis by (simp add: record_scoped_aggregates_def usage_scopes_def)
next
  case (Some scene)
  note r = record_scoped_total [OF big u]
  have le: "length (with_key pair_scope scope (scoped_usages us)) < 2 ^ 64 - 1" for scope
    using with_key_scoped_usages [of scope us] n by linarith
  have other: "with_key pair_scope (scene_scope scene (Some actor)) (scoped_usages us @ [(scene_scope scene None, u)])
      = with_key pair_scope (scene_scope scene (Some actor)) (scoped_usages us)" for actor
    by (simp add: with_key_snoc pair_scope_def scene_scope_def)
  show ?thesis
  proof (cases "sc_actor_id (pu_scope u)")
    case None
    with Some r [OF le] show ?thesis by (simp add: record_scoped_aggregates_def usage_scopes_def)
  next
    case (Some actor)
    with \<open>sc_scene_id (pu_scope u) = Some scene\<close> r [OF le, of "scene_scope scene None"]
      r [where ps = "scoped_usages us @ [(scene_scope scene None, u)]" and scope = "scene_scope scene (Some actor)"]
      le [of "scene_scope scene (Some actor)"] other [of actor]
    show ?thesis by (simp add: record_scoped_aggregates_def usage_scopes_def)
  qed
qed

lemma aggregate_by_scope_total:
  assumes big: "biguint_documented big number"
  shows "list_all canonical_usage us \<Longrightarrow> length us < 2 ^ 64 \<Longrightarrow>
    aggregate_records_by_scope big us = Inr (scoped_total (scoped_usages us))"
  unfolding aggregate_records_by_scope_def
proof (induction us rule: rev_induct)
  case Nil
  then show ?case by (simp add: scoped_total_def scoped_usages_def)
next
  case (snoc u us)
  then show ?case using record_scopes_total [OF big, of u us] by simp
qed

subsection \<open>The self-check\<close>

lemma validate_contexts_ok:
  assumes "sorted_wrt (<) (previous # map (\<lambda>c. hdr_sequence (cus_header c)) cs)"
    "\<And>s. s \<in> materialized \<Longrightarrow> s \<le> previous"
    "\<And>c. c \<in> set cs \<Longrightarrow> hdr_run_id (cus_header c) = um_run_id m \<and> hdr_sequence (cus_header c) \<le> um_through_sequence m \<and>
       hdr_elapsed_ns (cus_header c) \<le> um_through_elapsed_ns m \<and>
       context_scope_key (hdr_scope (cus_header c)) \<notin> scopes"
    "distinct (map (\<lambda>c. context_scope_key (hdr_scope (cus_header c))) cs)"
  shows "validate_contexts m scopes materialized previous cs =
    Inr (materialized \<union> (\<lambda>c. hdr_sequence (cus_header c)) ` set cs)"
  using assms
proof (induction cs arbitrary: scopes materialized previous)
  case (Cons c cs)
  let ?s = "hdr_sequence (cus_header c)"
  have lt: "previous < ?s" using Cons.prems(1) by simp
  then have s: "?s \<noteq> 0" "\<not> ?s \<le> previous" "?s \<notin> materialized"
    using Cons.prems(2) [of ?s] by (auto simp: not_le[symmetric])
  have "validate_contexts m (insert (context_scope_key (hdr_scope (cus_header c))) scopes) (insert ?s materialized) ?s cs
      = Inr (insert ?s materialized \<union> (\<lambda>c. hdr_sequence (cus_header c)) ` set cs)"
  proof (rule Cons.IH)
    show "s \<le> ?s" if "s \<in> insert ?s materialized" for s using that Cons.prems(2) [of s] lt by auto
    show "distinct (map (\<lambda>c. context_scope_key (hdr_scope (cus_header c))) cs)" using Cons.prems(4) by simp
  qed (use Cons.prems in \<open>auto simp: image_iff\<close>)
  with s Cons.prems(3) [of c] show ?case by (simp add: Let_def not_less)
qed simp

lemma validate_usages_ok:
  assumes "sorted_wrt (<) (previous # map pu_sequence us)"
    "\<And>u. u \<in> set us \<Longrightarrow> pu_run_id u = um_run_id m \<and> pu_sequence u \<le> um_through_sequence m \<and>
       pu_elapsed_ns u \<le> um_through_elapsed_ns m \<and> sc_act_id (pu_scope u) = Some (pu_act_id u) \<and>
       availability_is_valid u \<and> pu_sequence u \<notin> materialized \<and> acts (pu_act_id u) = None"
    "distinct (map pu_act_id us)"
  shows "validate_usages m acts materialized previous us = Inr ()"
  using assms
proof (induction us arbitrary: acts materialized previous)
  case (Cons u us)
  have lt: "previous < pu_sequence u" using Cons.prems(1) by simp
  then have s: "pu_sequence u \<noteq> 0" "\<not> pu_sequence u \<le> previous" by (auto simp: not_le [symmetric])
  have "validate_usages m (acts(pu_act_id u \<mapsto> pu_sequence u)) (insert (pu_sequence u) materialized) (pu_sequence u) us = Inr ()"
    by (rule Cons.IH) (use Cons.prems in \<open>auto simp: image_iff\<close>)
  with s Cons.prems(2) [of u] show ?case by (simp add: not_less)
qed simp

subsection \<open>The model of a stream\<close>

definition context_of :: "DiagnosticEvent \<Rightarrow> ContextUsageSampled option" where
  "context_of e = (case e of ContextUsageSampled c \<Rightarrow> Some c | _ \<Rightarrow> None)"

definition usage_of :: "DiagnosticEvent \<Rightarrow> ProjectedActUsage option" where
  "usage_of e = (case e of
       ActTokenUsageFinalized a \<Rightarrow> map_option (ProjectedActUsage_from_event a) (sc_act_id (hdr_scope (atu_header a)))
     | _ \<Rightarrow> None)"

text \<open>The last sample of every scope, in stream order.\<close>

fun latest_contexts :: "ContextUsageSampled list \<Rightarrow> ContextUsageSampled list" where
  "latest_contexts [] = []"
| "latest_contexts (c # cs) =
     (if hdr_scope (cus_header c) \<in> (\<lambda>c. hdr_scope (cus_header c)) ` set cs then latest_contexts cs
      else c # latest_contexts cs)"

definition contexts_of :: "DiagnosticEvent list \<Rightarrow> ContextUsageSampled list" where
  "contexts_of es = latest_contexts (List.map_filter context_of es)"

definition usages_of :: "DiagnosticEvent list \<Rightarrow> ProjectedActUsage list" where
  "usages_of es = List.map_filter usage_of es"

text \<open>A final usage names its Act, is the first of it, and has the fields its availability asks for.\<close>

definition usage_fits :: "DiagnosticEvent list \<Rightarrow> DiagnosticEvent \<Rightarrow> bool" where
  "usage_fits h e = (case e of
       ActTokenUsageFinalized a \<Rightarrow>
         (case usage_of e of None \<Rightarrow> False
          | Some u \<Rightarrow> pu_act_id u \<notin> pu_act_id ` set (usages_of h) \<and> availability_is_valid u)
     | _ \<Rightarrow> True)"

definition tokens_canonical :: "DiagnosticEvent \<Rightarrow> bool" where
  "tokens_canonical e = (case usage_of e of None \<Rightarrow> True | Some u \<Rightarrow> canonical_usage u)"

lemma latest_contexts_snoc:
  "latest_contexts (cs @ [c]) =
     filter (\<lambda>x. hdr_scope (cus_header x) \<noteq> hdr_scope (cus_header c)) (latest_contexts cs) @ [c]"
  by (induction cs) auto

lemma latest_contexts_subset: "set (latest_contexts cs) \<subseteq> set cs"
  by (induction cs) auto

lemma latest_contexts_sorted: "sorted_wrt P (map g cs) \<Longrightarrow> sorted_wrt P (map g (latest_contexts cs))"
proof (induction cs)
  case (Cons c cs)
  then show ?case using latest_contexts_subset [of cs] by auto
qed simp

lemma latest_contexts_scopes: "distinct (map (\<lambda>c. hdr_scope (cus_header c)) (latest_contexts cs))"
proof (induction cs)
  case (Cons c cs)
  then show ?case using latest_contexts_subset [of cs] by auto
qed simp

lemma context_scope_key_inject [simp]: "context_scope_key a = context_scope_key b \<longleftrightarrow> a = b"
  by (auto simp: context_scope_key_def)

lemma context_of_fields:
  "context_of e = Some c \<Longrightarrow> hdr_run_id (cus_header c) = event_run_id e \<and> hdr_sequence (cus_header c) = event_sequence e \<and>
     hdr_elapsed_ns (cus_header c) = event_elapsed e"
  by (cases e) (auto simp: context_of_def)

lemma usage_of_fields:
  "usage_of e = Some u \<Longrightarrow> pu_run_id u = event_run_id e \<and> pu_sequence u = event_sequence e \<and>
     pu_elapsed_ns u = event_elapsed e \<and> sc_act_id (pu_scope u) = Some (pu_act_id u)"
  by (cases e) (auto simp: usage_of_def ProjectedActUsage_from_event_def)

lemma map_filter_sorted:
  assumes "sorted_wrt (<) (map event_sequence es)" "\<And>e x. f e = Some x \<Longrightarrow> seq x = event_sequence e"
  shows "sorted_wrt (<) (map seq (List.map_filter f es))"
  using assms(1)
proof (induction es)
  case (Cons e es)
  then show ?case using assms(2)
    by (auto simp: List.map_filter_def split: option.splits)
qed (simp add: List.map_filter_def)

lemma dense_from_sorted: "dense_from r q es \<Longrightarrow> sorted_wrt (<) (map event_sequence es)"
  unfolding sorted_wrt_iff_nth_less using dense_from_nth by (fastforce simp: word_less_nat_alt)

lemma dense_from_length: "dense_from r 0 es \<Longrightarrow> length es < 2 ^ 64"
  using dense_from_nth [of r 0 es "length es - 1"] unat_less_2p64 [of "event_sequence (es ! (length es - 1))"]
  by (cases "es = []") auto

lemma latest_elapsed_ge: "e \<in> set es \<Longrightarrow> event_elapsed e \<le> latest_elapsed es"
  by (induction es rule: rev_induct) (auto simp: le_max_iff_disj)

lemma usages_fit:
  assumes "every_event usage_fits es"
  shows "distinct (map pu_act_id (usages_of es)) \<and> list_all availability_is_valid (usages_of es)"
  using assms
proof (induction es rule: rev_induct)
  case Nil
  then show ?case by (simp add: usages_of_def List.map_filter_def)
next
  case (snoc e es)
  then show ?case
    by (cases "usage_of e") (auto simp: usages_of_def usage_fits_def usage_of_def split: DiagnosticEvent.splits)
qed

definition usage_model_of :: "canonical_uuid \<Rightarrow> DiagnosticEvent list \<Rightarrow> UsageReadModel" where
  "usage_model_of run_id es =
     \<lparr> um_model_schema_version = USAGE_READ_MODEL_SCHEMA_VERSION, um_run_id = run_id,
       um_through_sequence = last_sequence 0 es, um_through_elapsed_ns = latest_elapsed es,
       um_contexts = contexts_of es, um_usages = usages_of es, um_aggregate = usage_total (usages_of es),
       um_scoped_aggregates = scoped_total (scoped_usages (usages_of es)) \<rparr>"

lemma contexts_of_mem:
  assumes "c \<in> set (contexts_of es)"
  obtains e where "e \<in> set es" "context_of e = Some c"
  using subsetD [OF latest_contexts_subset assms [unfolded contexts_of_def]] by (auto simp: map_filter_set)

lemma usage_not_context: "usage_of e = Some u \<Longrightarrow> context_of e = None"
  by (cases e) (simp_all add: usage_of_def context_of_def)

lemma contexts_ok:
  assumes d: "dense_from run_id 0 es"
  shows "validate_contexts (usage_model_of run_id es) {} {} 0 (contexts_of es)
    = Inr ((\<lambda>c. hdr_sequence (cus_header c)) ` set (contexts_of es))"
proof -
  have "sorted_wrt (<) (map (\<lambda>c. hdr_sequence (cus_header c)) (contexts_of es))"
    unfolding contexts_of_def by (intro latest_contexts_sorted map_filter_sorted dense_from_sorted [OF d]) (simp add: context_of_fields)
  moreover have "0 < hdr_sequence (cus_header c) \<and> hdr_run_id (cus_header c) = run_id \<and>
      hdr_sequence (cus_header c) \<le> last_sequence 0 es \<and> hdr_elapsed_ns (cus_header c) \<le> latest_elapsed es"
    if "c \<in> set (contexts_of es)" for c
  proof -
    from that obtain e where e: "e \<in> set es" "context_of e = Some c" by (rule contexts_of_mem)
    show ?thesis
      using context_of_fields [OF e(2)] dense_from_bounds [OF d e(1)] dense_from_run [OF d e(1)] latest_elapsed_ge [OF e(1)]
      by simp
  qed
  moreover have "distinct (map (\<lambda>c. context_scope_key (hdr_scope (cus_header c))) (contexts_of es))"
    using latest_contexts_scopes [of "List.map_filter context_of es"] by (simp add: contexts_of_def distinct_map inj_on_def)
  ultimately show ?thesis
    using validate_contexts_ok [of 0 "contexts_of es" "{}" "usage_model_of run_id es" "{}"]
    by (simp add: usage_model_of_def)
qed

lemma usages_ok:
  assumes d: "dense_from run_id 0 es" and f: "every_event usage_fits es"
  shows "validate_usages (usage_model_of run_id es) Map.empty
    ((\<lambda>c. hdr_sequence (cus_header c)) ` set (contexts_of es)) 0 (usages_of es) = Inr ()"
proof (rule validate_usages_ok)
  have mem: "\<exists>e \<in> set es. usage_of e = Some u" if "u \<in> set (usages_of es)" for u
    using that by (auto simp: usages_of_def map_filter_set)
  have "sorted_wrt (<) (map pu_sequence (usages_of es))"
    unfolding usages_of_def by (intro map_filter_sorted dense_from_sorted [OF d]) (simp add: usage_of_fields)
  moreover have "0 < pu_sequence u" if "u \<in> set (usages_of es)" for u
    using mem [OF that] usage_of_fields dense_from_bounds [OF d] by metis
  ultimately show "sorted_wrt (<) (0 # map pu_sequence (usages_of es))" by simp
  show "distinct (map pu_act_id (usages_of es))" using usages_fit [OF f] by blast
  fix u
  assume u: "u \<in> set (usages_of es)"
  then obtain e where e: "e \<in> set es" "usage_of e = Some u" using mem by blast
  have "pu_sequence u \<noteq> hdr_sequence (cus_header c)" if c: "c \<in> set (contexts_of es)" for c
  proof
    assume eq: "pu_sequence u = hdr_sequence (cus_header c)"
    from c obtain e' where e': "e' \<in> set es" "context_of e' = Some c" by (rule contexts_of_mem)
    with eq usage_of_fields [OF e(2)] context_of_fields [OF e'(2)] have "event_sequence e = event_sequence e'" by simp
    with dense_from_distinct [OF d] e(1) e'(1) have "e = e'" by (auto simp: distinct_map inj_on_def)
    with usage_not_context [OF e(2)] e'(2) show False by simp
  qed
  then have "pu_sequence u \<notin> (\<lambda>c. hdr_sequence (cus_header c)) ` set (contexts_of es)" by auto
  moreover have "availability_is_valid u" using usages_fit [OF f] u by (simp add: list_all_iff)
  ultimately show "pu_run_id u = um_run_id (usage_model_of run_id es) \<and> pu_sequence u \<le> um_through_sequence (usage_model_of run_id es) \<and>
      pu_elapsed_ns u \<le> um_through_elapsed_ns (usage_model_of run_id es) \<and> sc_act_id (pu_scope u) = Some (pu_act_id u) \<and>
      availability_is_valid u \<and> pu_sequence u \<notin> (\<lambda>c. hdr_sequence (cus_header c)) ` set (contexts_of es) \<and>
      Map.empty (pu_act_id u) = None"
    using usage_of_fields [OF e(2)] dense_from_bounds [OF d e(1)] dense_from_run [OF d e(1)] latest_elapsed_ge [OF e(1)]
    by (simp add: usage_model_of_def)
qed

lemma usages_of_canonical: "list_all tokens_canonical es \<Longrightarrow> list_all canonical_usage (usages_of es)"
  by (fastforce simp: list_all_iff usages_of_def map_filter_set tokens_canonical_def)

lemma usages_of_length: "dense_from run_id 0 es \<Longrightarrow> length (usages_of es) < 2 ^ 64"
  using dense_from_length [of run_id es] length_map_filter_le [of usage_of es] by (simp add: usages_of_def)

lemma usage_validate_model:
  assumes "biguint_documented big number" "dense_from run_id 0 es" "every_event usage_fits es" "list_all tokens_canonical es"
  shows "usage_validate big (usage_model_of run_id es) = Inr ()"
  using contexts_ok [OF assms(2)] usages_ok [OF assms(2,3)]
    aggregate_records_total [OF assms(1) usages_of_canonical [OF assms(4)] usages_of_length [OF assms(2)]]
    aggregate_by_scope_total [OF assms(1) usages_of_canonical [OF assms(4)] usages_of_length [OF assms(2)]]
  by (simp add: usage_validate_def) (simp add: usage_model_of_def)

lemma usage_validate_position_iff:
  "usage_validate_position m e = Inr u \<longleftrightarrow> next_position (um_run_id m) (um_through_sequence m) e"
  by (simp add: usage_validate_position_def next_position_def position_check_tie)

lemma apply_usage_sel:
  "apply_usage big m a = Inr m' \<Longrightarrow> um_run_id m' = um_run_id m \<and> um_through_elapsed_ns m' = um_through_elapsed_ns m"
  by (auto simp: apply_usage_def Let_def split: option.splits if_splits)

interpretation usages: read_model "usage_candidate big" um_run_id um_through_sequence um_through_elapsed_ns
proof unfold_locales
  fix m e m'
  assume "usage_candidate big m e = Inr m'"
  then obtain m1 where p: "next_position (um_run_id m) (um_through_sequence m) e"
    and m1: "(case e of ContextUsageSampled c \<Rightarrow> Inr (apply_context m c)
       | ActTokenUsageFinalized a \<Rightarrow> apply_usage big m a | _ \<Rightarrow> Inr m) = Inr m1"
    and m': "m' = m1\<lparr> um_through_sequence := event_sequence e,
       um_through_elapsed_ns := max (um_through_elapsed_ns m1) (event_elapsed e) \<rparr>"
    by (auto simp: usage_candidate_def usage_validate_position_iff)
  have "um_run_id m1 = um_run_id m \<and> um_through_elapsed_ns m1 = um_through_elapsed_ns m"
    using m1 by (cases e) (auto simp: apply_context_def dest: apply_usage_sel)
  with p m' show "next_position (um_run_id m) (um_through_sequence m) e \<and> um_run_id m' = um_run_id m \<and>
     um_through_sequence m' = event_sequence e \<and>
     um_through_elapsed_ns m' = max (um_through_elapsed_ns m) (event_elapsed e)" by simp
qed

lemma usage_for_act_model:
  "usage_for_act (usage_model_of run_id h) i = None \<longleftrightarrow> i \<notin> pu_act_id ` set (usages_of h)"
  by (auto simp: usage_for_act_def usage_model_of_def find_None_iff)

lemma apply_usage_model:
  assumes big: "biguint_documented big number" and d: "dense_from run_id 0 h" and n: "length (usages_of h) < 2 ^ 64 - 1"
    and t: "tokens_canonical (DiagnosticEvent.ActTokenUsageFinalized a)"
  shows "apply_usage big (usage_model_of run_id h) a = Inr m \<longleftrightarrow>
    usage_fits h (DiagnosticEvent.ActTokenUsageFinalized a) \<and>
    m = (usage_model_of run_id h)\<lparr>
      um_aggregate := usage_total (usages_of (h @ [DiagnosticEvent.ActTokenUsageFinalized a])),
      um_scoped_aggregates := scoped_total (scoped_usages (usages_of (h @ [DiagnosticEvent.ActTokenUsageFinalized a]))),
      um_usages := usages_of (h @ [DiagnosticEvent.ActTokenUsageFinalized a]) \<rparr>"
proof (cases "sc_act_id (hdr_scope (atu_header a))")
  case None
  then show ?thesis by (simp add: apply_usage_def usage_fits_def usage_of_def)
next
  case (Some i)
  let ?u = "ProjectedActUsage_from_event a i"
  have u: "usage_of (DiagnosticEvent.ActTokenUsageFinalized a) = Some ?u" by (simp add: usage_of_def Some)
  have i: "pu_act_id ?u = i" by (simp add: ProjectedActUsage_from_event_def)
  have us: "usages_of (h @ [DiagnosticEvent.ActTokenUsageFinalized a]) = usages_of h @ [?u]" by (simp add: usages_of_def u)
  have c: "canonical_usage ?u" using t by (simp add: tokens_canonical_def u)
  have agg: "UsageAggregate_record big (um_aggregate (usage_model_of run_id h)) ?u = Inr (usage_total (usages_of h @ [?u]))"
    "record_scoped_aggregates big (um_scoped_aggregates (usage_model_of run_id h)) ?u
       = Inr (scoped_total (scoped_usages (usages_of h @ [?u])))"
    "um_usages (usage_model_of run_id h) = usages_of h"
    using usage_record_total [OF big c n] record_scopes_total [OF big c n] by (simp_all add: usage_model_of_def)
  show ?thesis
  proof (cases "usage_for_act (usage_model_of run_id h) i")
    case None
    then show ?thesis
      unfolding us using Some usage_for_act_model [of run_id h i]
      by (auto simp: apply_usage_def usage_fits_def u i agg Let_def)
  next
    case (Some x)
    then have "i \<in> pu_act_id ` set (usages_of h)" using usage_for_act_model [of run_id h i] by auto
    with Some \<open>sc_act_id _ = Some i\<close> show ?thesis by (simp add: apply_usage_def usage_fits_def u i)
  qed
qed

lemma dense_from_last: "dense_from r 0 es \<Longrightarrow> unat (last_sequence 0 es) = length es"
  using dense_from_nth [of r 0 es "length es - 1"] by (cases "es = []") (auto simp: last_sequence_def last_conv_nth)

lemma usages_of_other: "(\<nexists>a. e = DiagnosticEvent.ActTokenUsageFinalized a) \<Longrightarrow> usages_of (h @ [e]) = usages_of h \<and> usage_fits h e"
  by (cases e) (auto simp: usages_of_def usage_of_def usage_fits_def)

lemma contexts_of_other: "(\<nexists>c. e = DiagnosticEvent.ContextUsageSampled c) \<Longrightarrow> contexts_of (h @ [e]) = contexts_of h"
  by (cases e) (auto simp: contexts_of_def context_of_def)

lemma usage_payload:
  assumes big: "biguint_documented big number" and d: "dense_from run_id 0 h" and n: "length (usages_of h) < 2 ^ 64 - 1"
    and t: "tokens_canonical e"
  shows "(case e of ContextUsageSampled c \<Rightarrow> Inr (apply_context (usage_model_of run_id h) c)
       | ActTokenUsageFinalized a \<Rightarrow> apply_usage big (usage_model_of run_id h) a | _ \<Rightarrow> Inr (usage_model_of run_id h)) = Inr m \<longleftrightarrow>
    usage_fits h e \<and> m = (usage_model_of run_id (h @ [e]))\<lparr> um_through_sequence := last_sequence 0 h,
      um_through_elapsed_ns := latest_elapsed h \<rparr>"
proof -
  consider (sample) c where "e = DiagnosticEvent.ContextUsageSampled c" | (usage) a where "e = DiagnosticEvent.ActTokenUsageFinalized a"
    | (other) "\<nexists>c. e = DiagnosticEvent.ContextUsageSampled c" "\<nexists>a. e = DiagnosticEvent.ActTokenUsageFinalized a" by blast
  then show ?thesis
  proof cases
    case sample
    with usages_of_other [of e h] show ?thesis
      by (auto simp: apply_context_def usage_model_of_def contexts_of_def context_of_def latest_contexts_snoc)
  next
    case usage
    with contexts_of_other [of e h] apply_usage_model [OF big d n, of a m] t show ?thesis
      by (auto simp: usage_model_of_def)
  next
    case other
    then show ?thesis using usages_of_other [of e h] contexts_of_other [of e h]
      by (cases e) (auto simp: usage_model_of_def)
  qed
qed

lemma usage_candidate_step:
  assumes big: "biguint_documented big number" and d: "dense_from run_id 0 h" and f: "every_event usage_fits h"
    and t: "list_all tokens_canonical h" "tokens_canonical e"
  shows "usage_candidate big (usage_model_of run_id h) e = Inr m \<longleftrightarrow>
     next_position run_id (last_sequence 0 h) e \<and> usage_fits h e \<and> m = usage_model_of run_id (h @ [e])"
proof (cases "next_position run_id (last_sequence 0 h) e")
  case True
  then have "length h < 2 ^ 64 - 1" using dense_from_last [OF d] by (simp add: next_position_def)
  then have n: "length (usages_of h) < 2 ^ 64 - 1"
    using length_map_filter_le [of usage_of h] unfolding usages_of_def by linarith
  have "usage_candidate big (usage_model_of run_id h) e = Inr m \<longleftrightarrow>
      (\<exists>m1. (usage_fits h e \<and> m1 = (usage_model_of run_id (h @ [e]))\<lparr> um_through_sequence := last_sequence 0 h,
         um_through_elapsed_ns := latest_elapsed h \<rparr>) \<and>
        m = m1\<lparr> um_through_sequence := event_sequence e,
          um_through_elapsed_ns := max (um_through_elapsed_ns m1) (event_elapsed e) \<rparr>)"
    unfolding usage_payload [OF big d n t(2), symmetric] usage_candidate_def
    using True usage_validate_position_iff [of "usage_model_of run_id h" e "()"] usage_validate_model [OF big d f t(1)]
    by (auto simp: usage_model_of_def)
  then show ?thesis using True by (auto simp: usage_model_of_def)
next
  case False
  then show ?thesis
    by (auto simp: usage_candidate_def usage_validate_position_iff) (simp_all add: usage_model_of_def)
qed

lemma usage_candidates:
  assumes big: "biguint_documented big number"
  shows "list_all tokens_canonical es \<Longrightarrow>
     fold_res (usage_candidate big) (UsageReadModel_empty run_id) es = Inr m \<longleftrightarrow>
     dense_from run_id 0 es \<and> every_event usage_fits es \<and> m = usage_model_of run_id es"
proof (induction es arbitrary: m rule: rev_induct)
  case Nil
  then show ?case
    by (auto simp: UsageReadModel_empty_def usage_model_of_def contexts_of_def usages_of_def List.map_filter_def
        scoped_usages_def scoped_total_def)
next
  case (snoc e es)
  then have t: "list_all tokens_canonical es" "tokens_canonical e" by simp_all
  show ?case
    unfolding fold_res_snoc res_bind_Inr snoc.IH [OF t(1)] every_event_snoc dense_from_snoc
    using usage_candidate_step [OF big _ _ t, of run_id m] by auto
qed

subsection \<open>Properties\<close>

text \<open>
  C37. Token usage adds up. For events whose token counts are canonical integers, as their type
  guarantees, a stream is projected exactly when it is dense, accepted, and every final usage is
  the only one of its Act with the fields its availability asks for. The totals kept step by step are then
  the totals of the usages, for the Run and for every Scene and Actor: the numbers of Acts, and
  every known sum the exact sum of the reported counts. The check the model makes of itself
  never fails, and a query for a scope answers the totals of the usages within it.
\<close>

theorem usage_totals_exact:
  assumes "biguint_documented big number" "list_all tokens_canonical es"
  shows "(project_usage big run_id es = Inr m \<longleftrightarrow>
      dense_from run_id 0 es \<and> accepted es \<and> every_event usage_fits es \<and>
      m = \<lparr> um_model_schema_version = USAGE_READ_MODEL_SCHEMA_VERSION, um_run_id = run_id,
        um_through_sequence = last_sequence 0 es, um_through_elapsed_ns = latest_elapsed es,
        um_contexts = contexts_of es, um_usages = usages_of es, um_aggregate = usage_total (usages_of es),
        um_scoped_aggregates = scoped_total (scoped_usages (usages_of es)) \<rparr>) \<and>
    (project_usage big run_id es = Inr m \<longrightarrow>
      aggregate_within_scope big m scope = Inr (usage_total (filter (\<lambda>u. usage_scope_contains scope (pu_scope u)) (usages_of es))))"
proof -
  have eq: "project_usage big run_id es = Inr m \<longleftrightarrow>
      dense_from run_id 0 es \<and> accepted es \<and> every_event usage_fits es \<and> m = usage_model_of run_id es"
    unfolding project_usage_def UsageProjector_apply_def project_with_iff [OF projector_apply_like]
      usage_candidates [OF assms] by blast
  have "aggregate_within_scope big (usage_model_of run_id es) scope
      = Inr (usage_total (filter (\<lambda>u. usage_scope_contains scope (pu_scope u)) (usages_of es)))"
    if "dense_from run_id 0 es" "every_event usage_fits es"
  proof -
    have "length (filter (\<lambda>u. usage_scope_contains scope (pu_scope u)) (usages_of es)) < 2 ^ 64"
      using usages_of_length [OF that(1)] length_filter_le [of "\<lambda>u. usage_scope_contains scope (pu_scope u)" "usages_of es"]
      by linarith
    moreover have "list_all canonical_usage (filter (\<lambda>u. usage_scope_contains scope (pu_scope u)) (usages_of es))"
      using usages_of_canonical [OF assms(2)] by (simp add: list_all_iff)
    moreover have "um_usages (usage_model_of run_id es) = usages_of es" by (simp add: usage_model_of_def)
    ultimately show ?thesis
      using usage_validate_model [OF assms(1) that assms(2)] aggregate_records_total [OF assms(1)]
      by (simp add: aggregate_within_scope_def usages_within_scope_def)
  qed
  then show ?thesis unfolding eq unfolding usage_model_of_def by blast
qed

text \<open>Two Acts of a Scene that used 7 and 5 tokens, and integers as the big numbers.\<close>

definition nat_big :: "nat BigUint_ops" where
  "nat_big = \<lparr> bg_from_str = (\<lambda>s. Some (dec_value s)), bg_default = 0, bg_plus = (+), bg_to_str_radix_10 = nat_decimal \<rparr>"

definition sample_usage :: "u64 \<Rightarrow> string \<Rightarrow> string \<Rightarrow> ActTokenUsageFinalized" where
  "sample_usage q act tokens =
     \<lparr> atu_header = (sample_header q 10)\<lparr> hdr_scope := sample_scope\<lparr> sc_scene_id := Some ''main'', sc_act_id := Some act \<rparr> \<rparr>,
       atu_availability = UsageAvailability.Partial, atu_source = Some UsageSource.AcpPromptResponseUsage,
       atu_unavailable_reason = None, atu_provider_total_tokens = None, atu_input_tokens = Some tokens,
       atu_output_tokens = None, atu_thought_tokens = None, atu_cached_read_tokens = None, atu_cached_write_tokens = None \<rparr>"

definition sample_usages :: "DiagnosticEvent list" where
  "sample_usages = [DiagnosticEvent.ActTokenUsageFinalized (sample_usage 1 ''a'' ''7''),
     DiagnosticEvent.ActTokenUsageFinalized (sample_usage 2 ''b'' ''5'')]"

lemma nat_big_documented: "biguint_documented nat_big id"
  by (simp add: biguint_documented_def nat_big_def)

lemma sample_usages_accepted: "accepted sample_usages"
proof -
  have "admissible [] (DiagnosticEvent.ActTokenUsageFinalized (sample_usage 1 ''a'' ''7''))"
    "admissible [DiagnosticEvent.ActTokenUsageFinalized (sample_usage 1 ''a'' ''7'')]
       (DiagnosticEvent.ActTokenUsageFinalized (sample_usage 2 ''b'' ''5''))"
    by (simp_all add: admissible_def scopes_known_def links_resolved_def child_of_def started_def contained_in_def
        finished_span_def affected_scope_of_def sample_usage_def sample_events)
  from accepted_snoc [OF accepted_snoc [OF accepted_Nil this(1)], simplified, OF this(2)] show ?thesis
    by (simp add: sample_usages_def)
qed

theorem usage_totals_exact_witness:
  "\<exists>m. project_usage nat_big 7 sample_usages = Inr m \<and> fa_known_sum (ua_input_tokens (um_aggregate m)) = Some ''12''"
proof -
  have t: "list_all tokens_canonical sample_usages"
    by (simp add: sample_usages_def tokens_canonical_def usage_of_def canonical_usage_def canonical_token_def
        ProjectedActUsage_from_event_def sample_usage_def canonical_digits_def is_ascii_digit_def)
  have us: "usages_of sample_usages =
      [ProjectedActUsage_from_event (sample_usage 1 ''a'' ''7'') ''a'', ProjectedActUsage_from_event (sample_usage 2 ''b'' ''5'') ''b'']"
    by (simp add: sample_usages_def usages_of_def usage_of_def List.map_filter_def) (simp add: sample_usage_def)
  have d: "dense_from 7 0 sample_usages"
    by (simp add: sample_usages_def next_position_def sample_usage_def sample_events)
  have f: "every_event usage_fits sample_usages"
    by (simp add: every_event_def sample_usages_def less_Suc_eq usage_fits_def usage_of_def usages_of_def List.map_filter_def
        availability_is_valid_def ProjectedActUsage_from_event_def sample_usage_def all_conj_distrib)
  have v: "fa_known_sum (ua_input_tokens (usage_total (usages_of sample_usages))) = Some ''12''"
    by (simp add: us usage_total_def field_total_def List.map_filter_def token_sum_def dec_value_def nat_decimal.simps digit_value_def digit_char_def
        ProjectedActUsage_from_event_def sample_usage_def char_of_def bit_numeral_rec bit_0)
  from usage_totals_exact [OF nat_big_documented t, where run_id = 7 and m = "usage_model_of 7 sample_usages"]
    d f sample_usages_accepted v
  show ?thesis by (auto simp: usage_model_of_def)
qed

end
