(* ===== verification/Snapshot.thy ===== *)
theory Snapshot
  imports Spans Messages Plans Counters Usage Writer
begin

section \<open>The snapshot of a Run\<close>

text \<open>
  Models \<^verbatim>\<open>projector/snapshot.rs\<close>: the five read models side by side, with the observation gaps and the
  truncations, under one reference validator. It is the projector of the writer. Shown: the
  snapshot of a stream is the five projections of the same stream, and the snapshot the writer
  carries is the one of the events in its store.
\<close>

abbreviation SNAPSHOT_READ_MODEL_SCHEMA_VERSION :: "8 word" where "SNAPSHOT_READ_MODEL_SCHEMA_VERSION \<equiv> 1"

datatype ProjectedTruncation =
    TruncatedMessage u64 DiagnosticScope run_local_id
  | TruncatedPlan u64 DiagnosticScope

fun truncation_sequence :: "ProjectedTruncation \<Rightarrow> u64" where
  "truncation_sequence (TruncatedMessage q _ _) = q"
| "truncation_sequence (TruncatedPlan q _) = q"

fun truncation_scope :: "ProjectedTruncation \<Rightarrow> DiagnosticScope" where
  "truncation_scope (TruncatedMessage _ scope _) = scope"
| "truncation_scope (TruncatedPlan _ scope) = scope"

fun truncation_message_id :: "ProjectedTruncation \<Rightarrow> run_local_id option" where
  "truncation_message_id (TruncatedMessage _ _ i) = Some i"
| "truncation_message_id (TruncatedPlan _ _) = None"

record SnapshotReadModel =
  sm_model_schema_version :: "8 word"
  sm_run_id :: canonical_uuid
  sm_through_sequence :: u64
  sm_through_elapsed_ns :: elapsed_ns
  sm_spans :: SpanReadModel
  sm_messages :: MessageReadModel
  sm_plans :: PlanReadModel
  sm_counters :: CounterReadModel
  sm_usage :: UsageReadModel
  sm_gaps :: "ObservationGap list"
  sm_truncations :: "ProjectedTruncation list"

definition SnapshotReadModel_empty :: "canonical_uuid \<Rightarrow> SnapshotReadModel" where
  "SnapshotReadModel_empty run_id =
     \<lparr> sm_model_schema_version = SNAPSHOT_READ_MODEL_SCHEMA_VERSION, sm_run_id = run_id, sm_through_sequence = 0,
       sm_through_elapsed_ns = 0, sm_spans = SpanReadModel_empty run_id, sm_messages = MessageReadModel_empty run_id,
       sm_plans = PlanReadModel_empty run_id, sm_counters = CounterReadModel_empty run_id,
       sm_usage = UsageReadModel_empty run_id, sm_gaps = [], sm_truncations = [] \<rparr>"

datatype SnapshotProjectionError =
    SnapshotInvalidReference ReferenceValidationError
  | SnapshotSpan SpanProjectionError
  | SnapshotMessage MessageProjectionError
  | SnapshotPlan PlanProjectionError
  | SnapshotCounter CounterProjectionError
  | SnapshotUsage UsageProjectionError

definition truncated_message :: "ProjectedMessage \<Rightarrow> ProjectedTruncation option" where
  "truncated_message m =
     (case pm_completion m of
        None \<Rightarrow> None
      | Some c \<Rightarrow> if mc_truncated c then Some (TruncatedMessage (mc_sequence c) (pm_scope m) (pm_message_id m)) else None)"

definition collect_truncations :: "MessageReadModel \<Rightarrow> PlanReadModel \<Rightarrow> ProjectedTruncation list" where
  "collect_truncations messages plans =
     sort_key truncation_sequence
       (List.map_filter truncated_message (mm_messages messages) @
        map (\<lambda>p. TruncatedPlan (ppl_sequence p) (ppl_scope p)) (filter ppl_truncated (plm_plans plans)))"

definition snapshot_candidate ::
  "(CounterSeriesIdentity \<Rightarrow> string) \<Rightarrow> 'b BigUint_ops \<Rightarrow> SnapshotReadModel \<Rightarrow> ValidatedEvent \<Rightarrow>
   SnapshotProjectionError + SnapshotReadModel" where
  "snapshot_candidate series_key big m validated =
     (let event = ve_event validated in
      res_bind (map_err SnapshotSpan (span_project_validated_event (sm_spans m) event)) (\<lambda>spans.
      res_bind (map_err SnapshotMessage (message_candidate (sm_messages m) event)) (\<lambda>messages.
      res_bind (map_err SnapshotPlan (plan_candidate (sm_plans m) event)) (\<lambda>plans.
      res_bind (map_err SnapshotCounter (counter_candidate series_key (sm_counters m) event)) (\<lambda>counters.
      res_bind (map_err SnapshotUsage (usage_candidate big (sm_usage m) event)) (\<lambda>usage.
      Inr \<lparr> sm_model_schema_version = SNAPSHOT_READ_MODEL_SCHEMA_VERSION, sm_run_id = sm_run_id m,
        sm_through_sequence = spm_through_sequence spans, sm_through_elapsed_ns = spm_through_elapsed_ns spans,
        sm_spans = spans, sm_messages = messages, sm_plans = plans, sm_counters = counters, sm_usage = usage,
        sm_gaps = sm_gaps m @ (case event of ObservationGap gap \<Rightarrow> [gap] | _ \<Rightarrow> []),
        sm_truncations = collect_truncations messages plans \<rparr>))))))"

definition SnapshotProjector_apply ::
  "(CounterSeriesIdentity \<Rightarrow> string) \<Rightarrow> 'b BigUint_ops \<Rightarrow> SnapshotReadModel projector \<Rightarrow> DiagnosticEvent \<Rightarrow>
   (SnapshotProjectionError + unit) \<times> SnapshotReadModel projector" where
  "SnapshotProjector_apply series_key big p event =
     (case validate_then (pj_references p) event
             (\<lambda>validated s. (snapshot_candidate series_key big (pj_model p) validated, s)) () of
        (Inl err, references, _) \<Rightarrow> (Inl (SnapshotInvalidReference err), p\<lparr> pj_references := references \<rparr>)
      | (Inr (Inl err), references, _) \<Rightarrow> (Inl err, p\<lparr> pj_references := references \<rparr>)
      | (Inr (Inr candidate), references, _) \<Rightarrow>
          (Inr (), \<lparr> pj_references = references, pj_model = candidate \<rparr>))"

definition project_snapshot ::
  "(CounterSeriesIdentity \<Rightarrow> string) \<Rightarrow> 'b BigUint_ops \<Rightarrow> canonical_uuid \<Rightarrow> DiagnosticEvent list \<Rightarrow>
   SnapshotProjectionError + SnapshotReadModel" where
  "project_snapshot series_key big run_id events =
     project_with (SnapshotProjector_apply series_key big) (SnapshotReadModel_empty run_id) events"

subsection \<open>Five projections of one stream\<close>

text \<open>The kind of a span is not read by any of the five, so a candidate depends on the event alone.\<close>

abbreviation snapshot_of_event ::
  "(CounterSeriesIdentity \<Rightarrow> string) \<Rightarrow> 'b BigUint_ops \<Rightarrow> SnapshotReadModel \<Rightarrow> DiagnosticEvent \<Rightarrow>
   SnapshotProjectionError + SnapshotReadModel" where
  "snapshot_of_event series_key big m e \<equiv>
     snapshot_candidate series_key big m \<lparr> ve_event = e, ve_built_in_span_kind = None \<rparr>"

lemma snapshot_candidate_event:
  "snapshot_candidate series_key big m \<lparr> ve_event = e, ve_built_in_span_kind = k \<rparr> = snapshot_of_event series_key big m e"
  by (simp add: snapshot_candidate_def)

lemma SnapshotProjector_like:
  "steps_like (SnapshotProjector_apply series_key big) (snapshot_of_event series_key big)"
  unfolding steps_like_def
proof (intro allI)
  fix v m e p
  show "SnapshotProjector_apply series_key big \<lparr> pj_references = v, pj_model = m \<rparr> e = (Inr (), p) \<longleftrightarrow>
    (\<exists>m' ok v'. snapshot_of_event series_key big m e = Inr m' \<and> validate v e = (Inr ok, v') \<and>
       p = \<lparr> pj_references = v', pj_model = m' \<rparr>)"
  proof (cases "prepare v e")
    case (Inl err)
    then show ?thesis by (simp add: SnapshotProjector_apply_def validate_then_def validate_def)
  next
    case (Inr ck)
    obtain change k where ck: "ck = (change, k)" by (cases ck)
    show ?thesis
      using Inr ck snapshot_candidate_event [of series_key big m e k]
      by (cases "snapshot_of_event series_key big m e")
        (auto simp: SnapshotProjector_apply_def validate_then_def validate_def)
  qed
qed

definition gap_of :: "DiagnosticEvent \<Rightarrow> ObservationGap option" where
  "gap_of e = (case e of ObservationGap gap \<Rightarrow> Some gap | _ \<Rightarrow> None)"

definition snapshot_of ::
  "canonical_uuid \<Rightarrow> DiagnosticEvent list \<Rightarrow> SpanReadModel \<Rightarrow> MessageReadModel \<Rightarrow> PlanReadModel \<Rightarrow> CounterReadModel \<Rightarrow>
   UsageReadModel \<Rightarrow> SnapshotReadModel" where
  "snapshot_of run_id es sp ms pl co us =
     \<lparr> sm_model_schema_version = SNAPSHOT_READ_MODEL_SCHEMA_VERSION, sm_run_id = run_id,
       sm_through_sequence = spm_through_sequence sp, sm_through_elapsed_ns = spm_through_elapsed_ns sp,
       sm_spans = sp, sm_messages = ms, sm_plans = pl, sm_counters = co, sm_usage = us,
       sm_gaps = List.map_filter gap_of es, sm_truncations = collect_truncations ms pl \<rparr>"

lemma snapshot_step:
  "snapshot_of_event series_key big (snapshot_of run_id es sp ms pl co us) e = Inr m \<longleftrightarrow>
     (\<exists>sp' ms' pl' co' us'. span_project_validated_event sp e = Inr sp' \<and> message_candidate ms e = Inr ms' \<and>
        plan_candidate pl e = Inr pl' \<and> counter_candidate series_key co e = Inr co' \<and> usage_candidate big us e = Inr us' \<and>
        m = snapshot_of run_id (es @ [e]) sp' ms' pl' co' us')"
proof -
  have "(case e of ObservationGap gap \<Rightarrow> [gap] | _ \<Rightarrow> []) = (case gap_of e of None \<Rightarrow> [] | Some y \<Rightarrow> [y])"
    by (cases e) (simp_all add: gap_of_def)
  then show ?thesis by (auto simp: snapshot_candidate_def snapshot_of_def)
qed

lemma snapshot_candidates:
  "fold_res (snapshot_of_event series_key big) (SnapshotReadModel_empty run_id) es = Inr m \<longleftrightarrow>
     (\<exists>sp ms pl co us.
        fold_res span_project_validated_event (SpanReadModel_empty run_id) es = Inr sp \<and>
        fold_res message_candidate (MessageReadModel_empty run_id) es = Inr ms \<and>
        fold_res plan_candidate (PlanReadModel_empty run_id) es = Inr pl \<and>
        fold_res (counter_candidate series_key) (CounterReadModel_empty run_id) es = Inr co \<and>
        fold_res (usage_candidate big) (UsageReadModel_empty run_id) es = Inr us \<and>
        m = snapshot_of run_id es sp ms pl co us)"
proof (induction es arbitrary: m rule: rev_induct)
  case Nil
  have "SnapshotReadModel_empty run_id = snapshot_of run_id [] (SpanReadModel_empty run_id) (MessageReadModel_empty run_id)
      (PlanReadModel_empty run_id) (CounterReadModel_empty run_id) (UsageReadModel_empty run_id)"
    by (simp add: SnapshotReadModel_empty_def snapshot_of_def SpanReadModel_empty_def MessageReadModel_empty_def
        PlanReadModel_empty_def collect_truncations_def List.map_filter_def)
  then show ?case by auto
next
  case (snoc e es)
  show ?case unfolding fold_res_snoc res_bind_Inr snoc.IH by (auto simp: snapshot_step)
qed

subsection \<open>The projector of the writer\<close>

text \<open>The writer works on a copy of its projector and keeps it only when every event was taken.\<close>

definition snapshot_apply ::
  "(CounterSeriesIdentity \<Rightarrow> string) \<Rightarrow> 'b BigUint_ops \<Rightarrow> SnapshotReadModel projector \<Rightarrow> DiagnosticEvent \<Rightarrow>
   SnapshotReadModel projector option" where
  "snapshot_apply series_key big p e =
     (case SnapshotProjector_apply series_key big p e of (Inl _, _) \<Rightarrow> None | (Inr _, p') \<Rightarrow> Some p')"

lemma projected_apply_all:
  "projected (snapshot_apply series_key big) p h q \<Longrightarrow>
   apply_all (SnapshotProjector_apply series_key big) p (map ae_event h) = (Inr (), q)"
proof (induction h arbitrary: p)
  case (Cons a h)
  obtain r p' where s: "SnapshotProjector_apply series_key big p (ae_event a) = (r, p')" by fastforce
  with Cons.prems obtain u where "r = Inr u" "projected (snapshot_apply series_key big) p' h q"
    by (cases r) (auto simp: projected_def snapshot_apply_def)
  with Cons.IH s show ?case by simp
qed (simp add: projected_def)

lemma writer_refresh_total:
  "writer_run exec apply_event encode_model w cs = (res, w') \<Longrightarrow>
   \<forall>(env, b) \<in> set cs. \<forall>db k. tx_refresh env db k \<noteq> None \<Longrightarrow> sql_documented exec rows mark clean \<Longrightarrow>
   res \<noteq> Inl PostCommitValidation"
proof (induction cs arbitrary: w)
  case (Cons c cs)
  obtain env b where c: "c = (env, b)" by (cases c)
  obtain r w1 where cb: "commit_batch_with_hook exec apply_event encode_model env w b = (r, w1)" by fastforce
  have "r \<noteq> Inl PostCommitValidation"
  proof
    assume r: "r = Inl PostCommitValidation"
    with commit_batch_cases [OF Cons.prems(3) cb] obtain db k where "tx_refresh env db k = None" by auto
    moreover from Cons.prems(2) c have "tx_refresh env db k \<noteq> None" by (simp del: not_None_eq)
    ultimately show False by contradiction
  qed
  with Cons.IH Cons.prems c cb show ?case by (cases r) auto
qed auto

subsection \<open>Properties\<close>

text \<open>
  C36. The snapshot is consistent: it is made of the five read models of one and the same stream. A
  stream has a snapshot exactly when each of the five projectors accepts it; the snapshot then
  holds their results, all at the same position, every observation gap in order, and the
  truncated messages and plans of those results by their sequence.
\<close>

theorem snapshot_combines_projections:
  "project_snapshot series_key big run_id es = Inr m \<longleftrightarrow>
     (\<exists>sp ms pl co us. project_spans run_id es = Inr sp \<and> project_messages run_id es = Inr ms \<and>
        project_plans run_id es = Inr pl \<and> project_counters series_key run_id es = Inr co \<and>
        project_usage big run_id es = Inr us \<and>
        m = \<lparr> sm_model_schema_version = SNAPSHOT_READ_MODEL_SCHEMA_VERSION, sm_run_id = run_id,
          sm_through_sequence = last_sequence 0 es, sm_through_elapsed_ns = latest_elapsed es,
          sm_spans = sp, sm_messages = ms, sm_plans = pl, sm_counters = co, sm_usage = us,
          sm_gaps = List.map_filter gap_of es, sm_truncations = collect_truncations ms pl \<rparr>)"
proof -
  have sp: "spm_through_sequence sp = last_sequence 0 es \<and> spm_through_elapsed_ns sp = latest_elapsed es"
    if "fold_res span_project_validated_event (SpanReadModel_empty run_id) es = Inr sp" for sp
    using spans.candidates_dense [OF that] by (simp add: SpanReadModel_empty_def)
  show ?thesis
    unfolding project_snapshot_def project_with_iff [OF SnapshotProjector_like] snapshot_candidates
      project_spans_def project_with_iff [OF SpanProjector_like] project_messages_def MessageProjector_apply_def
      project_plans_def PlanProjector_apply_def project_counters_def CounterProjector_apply_def project_usage_def
      UsageProjector_apply_def project_with_iff [OF projector_apply_like] snapshot_of_def
    using sp by (intro iffI; elim exE conjE; simp; metis)
qed

text \<open>
  C5. The read model in the writer is the one of its archive. Started on a fresh store with a fresh
  snapshot projector, after any series of commits of well-formed batches, stopped at the first
  error wherever it strikes, the table of events holds exactly the events of a number of leading
  batches under the keys 1 to their number, the persisted watermark is that number, and, unless the
  error struck after a commit, the writer's snapshot is the projection of exactly those events. If
  no commit failed, that is every batch.
\<close>

theorem read_model_matches_store:
  assumes "sql_documented exec rows mark clean"
    and "TransactionalWriter_new run_id (mark db) (mark db) False db
      (projector_new (SnapshotReadModel_empty run_id)) = Inr w"
    and "rows db = {}" "length (mark db) = 8"
    and "\<forall>(env, b) \<in> set commits. EventBatch_new (eb_events b) = Inr b"
    and "writer_run exec (snapshot_apply series_key big) encode_model w commits = (res, w')"
  shows "\<exists>k \<le> length commits. (res = Inr () \<longrightarrow> k = length commits) \<and>
    (let events = concat (map (\<lambda>c. eb_events (snd c)) (take k commits)) in
       rows (tw_db w') = event_row ` set events \<and>
       (\<lambda>r. be_value (er_sequence_key r)) ` rows (tw_db w') = {1..length events} \<and>
       be_value (mark (tw_db w')) = length events \<and>
       (res \<noteq> Inl PostCommitValidation \<longrightarrow>
          project_snapshot series_key big run_id (map ae_event events) = Inr (pj_model (tw_projector w'))))"
  using fresh_writer_run [OF assms]
  by (auto simp: Let_def project_snapshot_def project_with_def dest!: projected_apply_all)

text \<open>Two batches; the second commit is refused by the hook before it.\<close>

definition sample_snapshot_writer :: "(sample_db, SnapshotReadModel projector) TransactionalWriter" where
  "sample_snapshot_writer =
     \<lparr> tw_db = tw_db sample_writer, tw_clean_shutdown = False, tw_projector = projector_new (SnapshotReadModel_empty 7),
       tw_watermark = CommittedWatermark_fresh 7 \<rparr>"

definition sample_commits :: "(sample_db txn_env \<times> EventBatch) list" where
  "sample_commits = [(sample_env True, sample_batch 1), (sample_env False, sample_batch 2)]"

definition sample_snapshot_run :: "(WriterError + unit) \<times> (sample_db, SnapshotReadModel projector) TransactionalWriter" where
  "sample_snapshot_run = writer_run sample_exec (snapshot_apply (\<lambda>_. []) nat_big) (\<lambda>_. Some sample_materialized)
     sample_snapshot_writer sample_commits"

theorem read_model_matches_store_witness:
  "\<exists>k \<le> 2. sample_rows (tw_db (snd sample_snapshot_run)) = event_row ` set (take k [sample_accepted 1, sample_accepted 2]) \<and>
     project_snapshot (\<lambda>_. []) nat_big 7 (map ae_event (take k [sample_accepted 1, sample_accepted 2]))
       = Inr (pj_model (tw_projector (snd sample_snapshot_run)))"
proof -
  have n: "TransactionalWriter_new 7 (sd_mark (tw_db sample_writer)) (sd_mark (tw_db sample_writer)) False
      (tw_db sample_writer) (projector_new (SnapshotReadModel_empty 7)) = Inr sample_snapshot_writer"
    "sample_rows (tw_db sample_writer) = {}" "length (sd_mark (tw_db sample_writer)) = 8"
    by (simp_all add: TransactionalWriter_new_def sample_snapshot_writer_def sample_writer_def sample_rows_def)
  have b: "\<forall>(env, b) \<in> set sample_commits. EventBatch_new (eb_events b) = Inr b"
    by (simp add: sample_commits_def EventBatch_new_def sample_batch_def sample_accepted_def checked_add_def)
  obtain res w' where r: "sample_snapshot_run = (res, w')" by fastforce
  have "\<forall>(env, b) \<in> set sample_commits. \<forall>db k. tx_refresh env db k \<noteq> None" by (simp add: sample_commits_def sample_env_def)
  from writer_refresh_total [OF r [unfolded sample_snapshot_run_def] this sample_exec_documented]
  have ok: "res \<noteq> Inl PostCommitValidation" .
  let ?events = "\<lambda>k. concat (map (\<lambda>c. eb_events (snd c)) (take k sample_commits))"
  from read_model_matches_store [OF sample_exec_documented n b r [unfolded sample_snapshot_run_def]] ok
  obtain k where k: "k \<le> length sample_commits" "sample_rows (tw_db w') = event_row ` set (?events k)"
      "project_snapshot (\<lambda>_. []) nat_big 7 (map ae_event (?events k)) = Inr (pj_model (tw_projector w'))"
    unfolding Let_def by blast
  from k(1) consider "k = 0" | "k = 1" | "k = 2" unfolding sample_commits_def by fastforce
  then have "?events k = take k [sample_accepted 1, sample_accepted 2]"
    by cases (simp_all add: sample_batch_def sample_commits_def)
  with k(2,3) have "sample_rows (tw_db w') = event_row ` set (take k [sample_accepted 1, sample_accepted 2])"
    "project_snapshot (\<lambda>_. []) nat_big 7 (map ae_event (take k [sample_accepted 1, sample_accepted 2]))
       = Inr (pj_model (tw_projector w'))" by metis+
  moreover have "k \<le> 2" using k(1) by (simp add: sample_commits_def)
  ultimately show ?thesis unfolding r snd_conv by blast
qed

end
