(* ===== verification/Sink_Budget.thy ===== *)
theory Sink_Budget
  imports Prelude
begin

section \<open>The budget shared by the diagnostic sinks\<close>

text \<open>
  Models \<^verbatim>\<open>diagnostic_sink/budget.rs\<close>. The two-dimensional usage (events and encoded bytes) is packed into
  one atomic 64-bit cell and replaced by a compare-exchange loop. \<open>replace_loop\<close> is that loop with
  the answers of the compare-exchange as an argument; \<open>try_replace_at\<close> is the same operation in one
  step on the value of the cell. \<open>try_replace_linearizes\<close> shows that the loop, whatever other threads
  do in between, is the one step at one of the values the cell had.
\<close>

unbundle bit_operations_syntax

datatype BudgetUsage = BudgetUsage (bu_events: usize) (bu_encoded_bytes: usize)

datatype BudgetLimits = BudgetLimits (max_events: usize) (max_encoded_bytes: usize)

abbreviation PACKED_FIELD_BITS :: nat where "PACKED_FIELD_BITS \<equiv> 32"
abbreviation PACKED_FIELD_MASK :: u64 where "PACKED_FIELD_MASK \<equiv> 0xFFFFFFFF"
abbreviation RUNTIME_MAX_EVENTS :: usize where "RUNTIME_MAX_EVENTS \<equiv> 16384"
abbreviation RUNTIME_MAX_ENCODED_BYTES :: usize where "RUNTIME_MAX_ENCODED_BYTES \<equiv> 64 * 1024 * 1024"

text \<open>Usages are added and subtracted field by field, and compared in both fields at once.\<close>

instantiation BudgetUsage :: ordered_cancel_comm_monoid_diff
begin

definition zero_BudgetUsage :: BudgetUsage where "zero_BudgetUsage = BudgetUsage 0 0"

definition plus_BudgetUsage :: "BudgetUsage \<Rightarrow> BudgetUsage \<Rightarrow> BudgetUsage" where
  "plus_BudgetUsage a b = BudgetUsage (bu_events a + bu_events b) (bu_encoded_bytes a + bu_encoded_bytes b)"

definition minus_BudgetUsage :: "BudgetUsage \<Rightarrow> BudgetUsage \<Rightarrow> BudgetUsage" where
  "minus_BudgetUsage a b = BudgetUsage (bu_events a - bu_events b) (bu_encoded_bytes a - bu_encoded_bytes b)"

definition less_eq_BudgetUsage :: "BudgetUsage \<Rightarrow> BudgetUsage \<Rightarrow> bool" where
  "less_eq_BudgetUsage a b \<longleftrightarrow> bu_events a \<le> bu_events b \<and> bu_encoded_bytes a \<le> bu_encoded_bytes b"

definition less_BudgetUsage :: "BudgetUsage \<Rightarrow> BudgetUsage \<Rightarrow> bool" where
  "less_BudgetUsage a b \<longleftrightarrow> a \<le> b \<and> \<not> b \<le> (a :: BudgetUsage)"

instance
proof
  fix a b c :: BudgetUsage
  show "a \<le> b \<longleftrightarrow> (\<exists>c. b = a + c)"
  proof
    assume "a \<le> b"
    then have "b = a + (b - a)"
      by (cases a; cases b) (simp add: less_eq_BudgetUsage_def plus_BudgetUsage_def minus_BudgetUsage_def)
    then show "\<exists>c. b = a + c" ..
  qed (auto simp: less_eq_BudgetUsage_def plus_BudgetUsage_def)
qed (auto simp: zero_BudgetUsage_def plus_BudgetUsage_def minus_BudgetUsage_def less_eq_BudgetUsage_def
    less_BudgetUsage_def intro: BudgetUsage.expand)

end

lemmas usage_defs = zero_BudgetUsage_def plus_BudgetUsage_def minus_BudgetUsage_def less_eq_BudgetUsage_def

lemma usage_le_add [simp]: "(a :: BudgetUsage) \<le> a + b"
  by (simp add: usage_defs)

definition fits_within :: "BudgetUsage \<Rightarrow> BudgetLimits \<Rightarrow> bool" where
  "fits_within u limits \<longleftrightarrow> bu_events u \<le> max_events limits \<and> bu_encoded_bytes u \<le> max_encoded_bytes limits"

definition BudgetUsage_checked_add :: "BudgetUsage \<Rightarrow> BudgetUsage \<Rightarrow> BudgetUsage option" where
  "BudgetUsage_checked_add a b =
     Option.bind (checked_add (bu_events a) (bu_events b)) (\<lambda>e.
     Option.bind (checked_add (bu_encoded_bytes a) (bu_encoded_bytes b)) (\<lambda>n. Some (BudgetUsage e n)))"

definition BudgetUsage_checked_sub :: "BudgetUsage \<Rightarrow> BudgetUsage \<Rightarrow> BudgetUsage option" where
  "BudgetUsage_checked_sub a b =
     Option.bind (checked_sub (bu_events a) (bu_events b)) (\<lambda>e.
     Option.bind (checked_sub (bu_encoded_bytes a) (bu_encoded_bytes b)) (\<lambda>n. Some (BudgetUsage e n)))"

datatype BudgetError =
    LimitExceeded BudgetLimits BudgetUsage BudgetUsage
  | ReleaseExceedsUsage BudgetUsage BudgetUsage
  | ArithmeticOverflow
  | Unrepresentable BudgetUsage

definition pack :: "BudgetUsage \<Rightarrow> u64 option" where
  "pack u =
     (if bu_events u < 2 ^ 32 \<and> bu_encoded_bytes u < 2 ^ 32
      then Some (push_bit PACKED_FIELD_BITS (of_nat (bu_events u)) OR of_nat (bu_encoded_bytes u)) else None)"

definition unpack :: "u64 \<Rightarrow> BudgetUsage" where
  "unpack packed = BudgetUsage (unat (drop_bit PACKED_FIELD_BITS packed)) (unat (packed AND PACKED_FIELD_MASK))"

record RuntimeBudget =
  rb_limits :: BudgetLimits
  rb_packed_usage :: u64

text \<open>\<^verbatim>\<open>with_limits\<close> panics on limits that do not fit the cell: \<open>None\<close>.\<close>

definition RuntimeBudget_with_limits :: "BudgetLimits \<Rightarrow> RuntimeBudget option" where
  "RuntimeBudget_with_limits limits =
     (if pack (BudgetUsage (max_events limits) (max_encoded_bytes limits)) = None then None
      else Some \<lparr> rb_limits = limits, rb_packed_usage = 0 \<rparr>)"

definition RuntimeBudget_new :: "RuntimeBudget option" where
  "RuntimeBudget_new = RuntimeBudget_with_limits (BudgetLimits RUNTIME_MAX_EVENTS RUNTIME_MAX_ENCODED_BYTES)"

definition RuntimeBudget_usage :: "RuntimeBudget \<Rightarrow> BudgetUsage" where
  "RuntimeBudget_usage b = unpack (rb_packed_usage b)"

text \<open>One turn of the loop, up to the compare-exchange: the usage attempted and the value to store.\<close>

definition replace_attempt ::
  "BudgetLimits \<Rightarrow> BudgetUsage \<Rightarrow> BudgetUsage \<Rightarrow> u64 \<Rightarrow> BudgetError + (BudgetUsage \<times> u64)" where
  "replace_attempt limits released admitted observed =
     (let current = unpack observed in
      res_bind (ok_or (ReleaseExceedsUsage current released) (BudgetUsage_checked_sub current released)) (\<lambda>after_release.
      res_bind (ok_or ArithmeticOverflow (BudgetUsage_checked_add after_release admitted)) (\<lambda>attempted.
      if \<not> fits_within attempted limits then Inl (LimitExceeded limits current attempted)
      else res_bind (ok_or (Unrepresentable attempted) (pack attempted)) (\<lambda>packed. Inr (attempted, packed)))))"

text \<open>The answers of the weak compare-exchange: done, or the value found instead (which may be the same one).\<close>

datatype exchange_answer = Exchanged | Found u64

text \<open>The result and the exchange of the cell, if any; \<open>None\<close> when the answers end while the loop still runs.\<close>

fun replace_loop ::
  "BudgetLimits \<Rightarrow> BudgetUsage \<Rightarrow> BudgetUsage \<Rightarrow> u64 \<Rightarrow> exchange_answer list \<Rightarrow>
   ((BudgetError + BudgetUsage) \<times> (u64 \<times> u64) option) option" where
  "replace_loop limits released admitted observed answers =
     (case replace_attempt limits released admitted observed of
        Inl err \<Rightarrow> Some (Inl err, None)
      | Inr (attempted, packed) \<Rightarrow>
          (case answers of
             [] \<Rightarrow> None
           | Exchanged # _ \<Rightarrow> Some (Inr attempted, Some (observed, packed))
           | Found changed # rest \<Rightarrow> replace_loop limits released admitted changed rest))"

declare replace_loop.simps [simp del]

definition try_replace ::
  "BudgetLimits \<Rightarrow> BudgetUsage \<Rightarrow> BudgetUsage \<Rightarrow> u64 \<Rightarrow> exchange_answer list \<Rightarrow>
   ((BudgetError + BudgetUsage) \<times> (u64 \<times> u64) option) option" where
  "try_replace limits released admitted observed answers =
     (if pack released = None then Some (Inl (Unrepresentable released), None)
      else if pack admitted = None then Some (Inl (Unrepresentable admitted), None)
      else replace_loop limits released admitted observed answers)"

text \<open>The same in one step on the value \<open>cell\<close>.\<close>

definition try_replace_at ::
  "BudgetLimits \<Rightarrow> BudgetUsage \<Rightarrow> BudgetUsage \<Rightarrow> u64 \<Rightarrow> (BudgetError + BudgetUsage) \<times> u64" where
  "try_replace_at limits released admitted cell =
     (if pack released = None then (Inl (Unrepresentable released), cell)
      else if pack admitted = None then (Inl (Unrepresentable admitted), cell)
      else case replace_attempt limits released admitted cell of
        Inl err \<Rightarrow> (Inl err, cell)
      | Inr (attempted, packed) \<Rightarrow> (Inr attempted, packed))"

subsection \<open>Packing\<close>

lemma unpack_pack: "pack u = Some p \<Longrightarrow> unpack p = u"
proof -
  assume p: "pack u = Some p"
  then have lt: "bu_events u < 2 ^ 32" "bu_encoded_bytes u < 2 ^ 32"
    and p': "p = push_bit 32 (of_nat (bu_events u)) OR of_nat (bu_encoded_bytes u)"
    by (simp_all add: pack_def split: if_splits)
  have low: "take_bit 32 (of_nat (bu_encoded_bytes u) :: u64) = of_nat (bu_encoded_bytes u)"
    using lt(2) by (simp add: take_bit_of_nat take_bit_nat_eq_self)
  have m: "(PACKED_FIELD_MASK :: u64) = mask 32" by (simp add: mask_eq_exp_minus_1)
  have "drop_bit 32 p = drop_bit 32 (push_bit 32 (of_nat (bu_events u)) :: u64)"
    unfolding p' drop_bit_or by (subst low [symmetric]) (simp add: drop_bit_take_bit)
  also have "\<dots> = take_bit 32 (of_nat (bu_events u))"
    by (rule bit_word_eqI) (auto simp: bit_drop_bit_eq bit_push_bit_iff bit_take_bit_iff)
  also have "\<dots> = of_nat (bu_events u)" using lt(1) by (simp add: take_bit_of_nat take_bit_nat_eq_self)
  finally have e: "unat (drop_bit 32 p) = bu_events u" using lt(1) by (simp add: unat_of_nat take_bit_nat_eq_self)
  have "p AND PACKED_FIELD_MASK = take_bit 32 p" unfolding m take_bit_eq_mask ..
  also have "\<dots> = of_nat (bu_encoded_bytes u)"
    unfolding p' take_bit_or low by (rule bit_word_eqI) (auto simp: bit_or_iff bit_take_bit_iff bit_push_bit_iff)
  finally have "unat (p AND PACKED_FIELD_MASK) = bu_encoded_bytes u"
    using lt(2) by (simp add: unat_of_nat take_bit_nat_eq_self)
  with e show ?thesis by (cases u) (simp add: unpack_def)
qed

lemma unpack_zero [simp]: "unpack 0 = 0"
  by (simp add: unpack_def zero_BudgetUsage_def)

subsection \<open>The loop in one step\<close>

definition found_values :: "exchange_answer list \<Rightarrow> u64 set" where
  "found_values answers = {c. Found c \<in> set answers}"

lemma replace_loop_at:
  "pack released \<noteq> None \<Longrightarrow> pack admitted \<noteq> None \<Longrightarrow>
   replace_loop limits released admitted observed answers = Some (res, change) \<Longrightarrow>
   \<exists>c \<in> insert observed (found_values answers). \<exists>c'. try_replace_at limits released admitted c = (res, c') \<and>
     change = (case res of Inl _ \<Rightarrow> None | Inr _ \<Rightarrow> Some (c, c'))"
proof (induction answers arbitrary: observed)
  case Nil
  then show ?case
    by (auto simp: replace_loop.simps [of _ _ _ _ "[]"] try_replace_at_def split: sum.splits prod.splits)
next
  case (Cons a answers)
  show ?case
  proof (cases "\<exists>x changed. replace_attempt limits released admitted observed = Inr x \<and> a = Found changed")
    case True
    then obtain changed where "a = Found changed" "replace_loop limits released admitted changed answers = Some (res, change)"
      using Cons.prems(3) by (auto simp: replace_loop.simps [of _ _ _ _ "a # answers"])
    with Cons.IH [OF Cons.prems(1,2)] show ?thesis by (fastforce simp: found_values_def)
  next
    case False
    with Cons.prems show ?thesis
      by (auto simp: replace_loop.simps [of _ _ _ _ "a # answers"] try_replace_at_def
          split: sum.splits prod.splits exchange_answer.splits)
  qed
qed

lemma checked_sub_usage: "BudgetUsage_checked_sub a b = (if b \<le> a then Some (a - b) else None)"
  by (simp add: BudgetUsage_checked_sub_def checked_sub_def usage_defs)

lemma checked_add_usage:
  "BudgetUsage_checked_add a b = Some c \<longleftrightarrow> c = a + b \<and> bu_events c \<le> usize_max \<and> bu_encoded_bytes c \<le> usize_max"
  by (auto simp: BudgetUsage_checked_add_def checked_add_def usage_defs bind_eq_Some_conv)

lemma pack_bounds: "pack u = Some p \<Longrightarrow> bu_events u < 2 ^ 32 \<and> bu_encoded_bytes u < 2 ^ 32"
  by (simp add: pack_def split: if_splits)

lemma replace_attempt_Inr:
  "replace_attempt limits released admitted c = Inr (u, c') \<longleftrightarrow>
     released \<le> unpack c \<and> u = unpack c - released + admitted \<and> fits_within u limits \<and> pack u = Some c'"
proof -
  have "bu_events v \<le> usize_max \<and> bu_encoded_bytes v \<le> usize_max" if "pack v = Some c'" for v
    using pack_bounds [OF that] by simp
  then show ?thesis
    by (auto simp: replace_attempt_def Let_def checked_sub_usage checked_add_usage split: if_splits)
qed

lemma try_replace_at_Inr:
  "try_replace_at limits released admitted c = (Inr u, c') \<longleftrightarrow>
     released \<le> unpack c \<and> u = unpack c - released + admitted \<and> fits_within u limits \<and> pack u = Some c' \<and>
     pack released \<noteq> None \<and> pack admitted \<noteq> None"
proof -
  have "try_replace_at limits released admitted c = (Inr u, c') \<longleftrightarrow>
      replace_attempt limits released admitted c = Inr (u, c') \<and> pack released \<noteq> None \<and> pack admitted \<noteq> None"
    by (auto simp: try_replace_at_def split: sum.splits)
  then show ?thesis unfolding replace_attempt_Inr by blast
qed

lemma try_replace_at_Inl: "try_replace_at limits released admitted c = (Inl err, c') \<Longrightarrow> c' = c"
  by (auto simp: try_replace_at_def split: sum.splits prod.splits if_splits)

lemma unpack_bounds: "bu_events (unpack c) < 2 ^ 32" "bu_encoded_bytes (unpack c) < 2 ^ 32"
proof -
  have m: "(PACKED_FIELD_MASK :: u64) = mask 32" by (simp add: mask_eq_exp_minus_1)
  have "c AND PACKED_FIELD_MASK = take_bit 32 c" unfolding m take_bit_eq_mask ..
  then show "bu_encoded_bytes (unpack c) < 2 ^ 32" by (simp add: unpack_def take_bit_eq_mod unat_mod)
  show "bu_events (unpack c) < 2 ^ 32"
    using unat_less_2p64 [of c] by (simp add: unpack_def drop_bit_eq_div unat_div less_mult_imp_div_less)
qed

lemma pack_smaller: "u \<le> unpack c \<Longrightarrow> pack u \<noteq> None"
  using unpack_bounds [of c] by (simp add: pack_def less_eq_BudgetUsage_def)

text \<open>A release of what is in use never fails.\<close>

lemma try_replace_release:
  assumes "released \<le> unpack c" "fits_within (unpack c) limits"
  shows "\<exists>c'. try_replace_at limits released 0 c = (Inr (unpack c - released), c') \<and> unpack c' = unpack c - released"
proof -
  have le: "unpack c - released \<le> unpack c" by (simp add: usage_defs)
  from pack_smaller [OF le] obtain c' where c': "pack (unpack c - released) = Some c'" by blast
  have "fits_within (unpack c - released) limits" using assms(2) le by (simp add: fits_within_def less_eq_BudgetUsage_def)
  moreover have "pack 0 \<noteq> None" by (simp add: pack_def zero_BudgetUsage_def)
  ultimately show ?thesis
    using assms(1) c' pack_smaller [OF assms(1)] unpack_pack [OF c'] by (auto simp: try_replace_at_Inr)
qed

subsection \<open>Properties\<close>

text \<open>
  C35. The budget's compare-exchange loop is atomic. Whatever other threads store into the cell
  while it runs, and however often the weak exchange fails, a call that returns has the result of
  one indivisible check and update at one of the values the cell had: either an error and no
  change, or the cell goes from a value \<open>c\<close> of usage at least \<open>released\<close> to the packed form of that usage less
  \<open>released\<close> plus \<open>admitted\<close>, which is within both limits and reads back exactly.
\<close>

theorem try_replace_linearizes:
  assumes "try_replace limits released admitted observed answers = Some (res, change)"
  shows "\<exists>c \<in> insert observed {v. Found v \<in> set answers}. \<exists>c'. try_replace_at limits released admitted c = (res, c') \<and>
    (case res of
       Inl _ \<Rightarrow> change = None \<and> c' = c
     | Inr u \<Rightarrow> change = Some (c, c') \<and> released \<le> unpack c \<and> u = unpack c - released + admitted \<and>
         fits_within u limits \<and> unpack c' = u)"
proof -
  have "\<exists>c \<in> insert observed (found_values answers). \<exists>c'. try_replace_at limits released admitted c = (res, c') \<and>
      change = (case res of Inl _ \<Rightarrow> None | Inr _ \<Rightarrow> Some (c, c'))"
  proof (cases "pack released = None \<or> pack admitted = None")
    case True
    with assms show ?thesis by (auto simp: try_replace_def try_replace_at_def split: if_splits)
  next
    case False
    then have "replace_loop limits released admitted observed answers = Some (res, change)"
      using assms by (auto simp: try_replace_def)
    with False show ?thesis by (intro replace_loop_at) simp_all
  qed
  then show ?thesis
    unfolding found_values_def
    by (cases res) (fastforce dest: try_replace_at_Inl unpack_pack simp: try_replace_at_Inr)+
qed

theorem try_replace_linearizes_witness:
  "\<exists>c c'. try_replace_at (BudgetLimits 4 100) (BudgetUsage 0 0) (BudgetUsage 1 20) c = (Inr (BudgetUsage 2 50), c')"
proof -
  have p: "pack (BudgetUsage 1 30) = Some 0x10000001E" "pack (BudgetUsage 2 50) = Some 0x200000032"
    by (simp_all add: pack_def)
  have "try_replace (BudgetLimits 4 100) (BudgetUsage 0 0) (BudgetUsage 1 20) 0 [Found 0x10000001E, Exchanged]
      = Some (Inr (BudgetUsage 2 50), Some (0x10000001E, 0x200000032))"
    using unpack_pack [OF p(1)]
    by (simp add: try_replace_def replace_loop.simps replace_attempt_def checked_sub_usage BudgetUsage_checked_add_def
        checked_add_def usage_defs fits_within_def unpack_def pack_def)
  from try_replace_linearizes [OF this] show ?thesis by blast
qed

end
