(* ===== verification/Sink_Queue.thy ===== *)
theory Sink_Queue
  imports Sink_Budget Events
begin

section \<open>The queue of a diagnostic sink\<close>

text \<open>
  Models \<^verbatim>\<open>diagnostic_sink/queue.rs\<close>: the bounded queue in front of the callback of one sink, with room reserved
  for structural events, content evicted oldest first, and every loss counted by kind.

  A queue holds its own lock during an operation, but the budget is shared: while one sink looks
  for room, others change the cell. So an operation takes the list \<open>cells\<close> of the values its successive calls
  of \<^verbatim>\<open>try_replace\<close> find, and says which exchange of the cell it made, if any. A panic and a list that is too
  short are results of their own. \<open>contended\<close> tells that the lock is held by another thread.
\<close>

datatype 'a call = Returned 'a | Panicked | Unanswered

type_synonym exchange = "(u64 \<times> u64) option"

abbreviation PER_SINK_MAX_EVENTS :: usize where "PER_SINK_MAX_EVENTS \<equiv> 1024"
abbreviation PER_SINK_MAX_ENCODED_BYTES :: usize where "PER_SINK_MAX_ENCODED_BYTES \<equiv> 8 * 1024 * 1024"
abbreviation STRUCTURAL_RESERVE_EVENTS :: usize where "STRUCTURAL_RESERVE_EVENTS \<equiv> 32"
abbreviation STRUCTURAL_RESERVE_ENCODED_BYTES :: usize where "STRUCTURAL_RESERVE_ENCODED_BYTES \<equiv> 256 * 1024"

record SinkQueueLimits =
  sl_total :: BudgetLimits
  sl_structural_reserve :: BudgetUsage
  sl_content :: BudgetLimits

definition SinkQueueLimits_new :: "BudgetUsage \<Rightarrow> BudgetUsage \<Rightarrow> SinkQueueLimits option" where
  "SinkQueueLimits_new room reserve =
     (case BudgetUsage_checked_sub room reserve of
        None \<Rightarrow> None
      | Some content \<Rightarrow>
          Some \<lparr> sl_total = BudgetLimits (bu_events room) (bu_encoded_bytes room), sl_structural_reserve = reserve,
            sl_content = BudgetLimits (bu_events content) (bu_encoded_bytes content) \<rparr>)"

definition SinkQueueLimits_product :: "SinkQueueLimits option" where
  "SinkQueueLimits_product =
     SinkQueueLimits_new (BudgetUsage PER_SINK_MAX_EVENTS PER_SINK_MAX_ENCODED_BYTES)
       (BudgetUsage STRUCTURAL_RESERVE_EVENTS STRUCTURAL_RESERVE_ENCODED_BYTES)"

datatype AdmissionClass = ContentClass | StructuralClass

record EventMetadata =
  md_event_kind :: DiagnosticEventKind
  md_encoded_bytes :: usize
  md_class :: AdmissionClass

record 't QueueEvent =
  qe_item :: 't
  qe_metadata :: EventMetadata

definition metadata_usage :: "EventMetadata \<Rightarrow> BudgetUsage" where
  "metadata_usage m = BudgetUsage 1 (md_encoded_bytes m)"

record DropDelta =
  dd_event_kind :: DiagnosticEventKind
  dd_events :: usize
  dd_encoded_bytes :: usize

definition drop_delta :: "EventMetadata \<Rightarrow> DropDelta" where
  "drop_delta m = \<lparr> dd_event_kind = md_event_kind m, dd_events = 1, dd_encoded_bytes = md_encoded_bytes m \<rparr>"

record DropCounter =
  dc_events :: usize
  dc_encoded_bytes :: usize

definition DropCounter_new :: DropCounter where "DropCounter_new = \<lparr> dc_events = 0, dc_encoded_bytes = 0 \<rparr>"

definition DropCounter_record :: "DropCounter \<Rightarrow> DropDelta \<Rightarrow> DropCounter" where
  "DropCounter_record c delta =
     \<lparr> dc_events = saturating_add (dc_events c) (dd_events delta),
       dc_encoded_bytes = saturating_add (dc_encoded_bytes c) (dd_encoded_bytes delta) \<rparr>"

definition DropCounter_snapshot :: "DropCounter \<Rightarrow> DiagnosticEventKind \<Rightarrow> DropDelta option" where
  "DropCounter_snapshot c kind =
     (if dc_events c \<noteq> 0 \<or> dc_encoded_bytes c \<noteq> 0
      then Some \<lparr> dd_event_kind = kind, dd_events = dc_events c, dd_encoded_bytes = dc_encoded_bytes c \<rparr> else None)"

text \<open>The array of counters has one per kind, so it is a function of the kind.\<close>

type_synonym DropLedger = "DiagnosticEventKind \<Rightarrow> DropCounter"

definition DropLedger_new :: DropLedger where "DropLedger_new = (\<lambda>_. DropCounter_new)"

definition DropLedger_record :: "DropLedger \<Rightarrow> DropDelta \<Rightarrow> DropLedger" where
  "DropLedger_record drops delta =
     drops(dd_event_kind delta := DropCounter_record (drops (dd_event_kind delta)) delta)"

definition DropLedger_record_all :: "DropLedger \<Rightarrow> DropDelta list \<Rightarrow> DropLedger" where
  "DropLedger_record_all drops deltas = foldl DropLedger_record drops deltas"

definition DiagnosticEventKind_ALL :: "DiagnosticEventKind list" where
  "DiagnosticEventKind_ALL =
     [DiagnosticEventKind.SpanStarted, DiagnosticEventKind.SpanFinished, DiagnosticEventKind.InstantOccurred,
      DiagnosticEventKind.CounterSampled, DiagnosticEventKind.AgentMessageDelta,
      DiagnosticEventKind.AgentMessageCompleted, DiagnosticEventKind.AgentPlanSnapshot,
      DiagnosticEventKind.ContextUsageSampled, DiagnosticEventKind.ActTokenUsageFinalized,
      DiagnosticEventKind.ObservationGap, DiagnosticEventKind.CustomSpanStarted,
      DiagnosticEventKind.CustomSpanFinished, DiagnosticEventKind.CustomInstantOccurred,
      DiagnosticEventKind.CustomCounterSampled]"

definition DropLedger_snapshot :: "DropLedger \<Rightarrow> DropDelta list" where
  "DropLedger_snapshot drops = List.map_filter (\<lambda>kind. DropCounter_snapshot (drops kind) kind) DiagnosticEventKind_ALL"

datatype DropReason = SinkCapacity | RuntimeCapacity | QueueContended | SinkTerminal | BudgetUnavailable

datatype AdmissionOutcome =
    Enqueued "DropDelta list"
  | Dropped DropReason DropDelta
  | Terminalized "DropDelta list"

datatype SinkTerminalReason = TerminalDeliveryOverflow

record 't CallbackDelivery =
  cd_ticket :: u64
  cd_item :: 't
  cd_metadata :: EventMetadata

record QueueSnapshot =
  qs_queued_events :: usize
  qs_callback_active :: bool
  qs_total_usage :: BudgetUsage
  qs_content_usage :: BudgetUsage
  qs_terminal_reason :: "SinkTerminalReason option"

datatype QueueAccessError =
    Contended | NoCallbackActive | CallbackTicketMismatch | BudgetInvariant BudgetError

record 't StoredEvent =
  se_item :: 't
  se_metadata :: EventMetadata

record ActiveCallback =
  ac_ticket :: u64
  ac_metadata :: EventMetadata

record 't SinkQueue =
  sq_limits :: SinkQueueLimits
  sq_queued :: "'t StoredEvent list"
  sq_active_callback :: "ActiveCallback option"
  sq_total_usage :: BudgetUsage
  sq_content_usage :: BudgetUsage
  sq_terminal_reason :: "SinkTerminalReason option"
  sq_next_ticket :: u64
  sq_drops :: DropLedger

definition SinkQueue_with_limits :: "SinkQueueLimits \<Rightarrow> 't SinkQueue" where
  "SinkQueue_with_limits limits =
     \<lparr> sq_limits = limits, sq_queued = [], sq_active_callback = None, sq_total_usage = 0, sq_content_usage = 0,
       sq_terminal_reason = None, sq_next_ticket = 1, sq_drops = DropLedger_new \<rparr>"

definition issue_ticket :: "'t SinkQueue \<Rightarrow> u64 \<times> 't SinkQueue" where
  "issue_ticket q =
     (let next_ticket = sq_next_ticket q + 1 in
      (sq_next_ticket q, q\<lparr> sq_next_ticket := (if next_ticket = 0 then 1 else next_ticket) \<rparr>))"

definition drop_snapshot :: "'t SinkQueue \<Rightarrow> DropDelta list" where
  "drop_snapshot q = DropLedger_snapshot (sq_drops q)"

definition try_snapshot :: "bool \<Rightarrow> 't SinkQueue \<Rightarrow> QueueAccessError + QueueSnapshot" where
  "try_snapshot contended q =
     (if contended then Inl Contended
      else Inr \<lparr> qs_queued_events = length (sq_queued q), qs_callback_active = (sq_active_callback q \<noteq> None),
        qs_total_usage = sq_total_usage q, qs_content_usage = sq_content_usage q,
        qs_terminal_reason = sq_terminal_reason q \<rparr>)"

abbreviation content_event :: "'t StoredEvent \<Rightarrow> bool" where
  "content_event x \<equiv> md_class (se_metadata x) = ContentClass"

subsection \<open>Making room\<close>

definition next_victim :: "nat \<Rightarrow> 't StoredEvent list \<Rightarrow> (nat \<times> EventMetadata) option" where
  "next_victim cursor queued =
     (case position content_event (drop cursor queued) of
        None \<Rightarrow> None | Some i \<Rightarrow> Some (cursor + i, se_metadata (queued ! (cursor + i))))"

text \<open>How the search for room ends: the victims, the usages to store and the exchange of the cell;
  no victim left, with whether the budget had refused and the answers not used; or an error of the budget.\<close>

datatype room =
    Fits "(nat \<times> EventMetadata) list" BudgetUsage BudgetUsage "u64 \<times> u64"
  | NoRoom bool "u64 list"
  | BudgetBroken

text \<open>The test at the head of the loop: \<open>Inl\<close> ends it, \<open>Inr\<close> goes on to look for a victim.\<close>

definition room_test ::
  "BudgetLimits \<Rightarrow> 't SinkQueue \<Rightarrow> BudgetUsage \<Rightarrow> BudgetUsage \<Rightarrow> (nat \<times> EventMetadata) list \<Rightarrow> BudgetUsage \<Rightarrow> BudgetUsage \<Rightarrow>
   bool \<Rightarrow> u64 list \<Rightarrow> room call + (bool \<times> u64 list)" where
  "room_test runtime q incoming incoming_content victims released released_content failed cells =
     (let next_total = Option.bind (BudgetUsage_checked_sub (sq_total_usage q) released)
            (\<lambda>u. BudgetUsage_checked_add u incoming);
          next_content = Option.bind (BudgetUsage_checked_sub (sq_content_usage q) released_content)
            (\<lambda>u. BudgetUsage_checked_add u incoming_content) in
      case (next_total, next_content) of
        (Some t, Some c) \<Rightarrow>
          if fits_within t (sl_total (sq_limits q)) \<and> fits_within c (sl_content (sq_limits q))
          then (case cells of
              [] \<Rightarrow> Inl Unanswered
            | cell # rest \<Rightarrow>
                (case try_replace_at runtime released incoming cell of
                   (Inr _, cell') \<Rightarrow> Inl (Returned (Fits victims t c (cell, cell')))
                 | (Inl (LimitExceeded _ _ _), _) \<Rightarrow> Inr (True, rest)
                 | (Inl _, _) \<Rightarrow> Inl (Returned BudgetBroken)))
          else Inr (failed, cells)
      | _ \<Rightarrow> Inr (failed, cells))"

function find_room ::
  "BudgetLimits \<Rightarrow> 't SinkQueue \<Rightarrow> BudgetUsage \<Rightarrow> BudgetUsage \<Rightarrow> (nat \<times> EventMetadata) list \<Rightarrow> BudgetUsage \<Rightarrow> BudgetUsage \<Rightarrow>
   nat \<Rightarrow> bool \<Rightarrow> u64 list \<Rightarrow> room call" where
  "find_room runtime q incoming incoming_content victims released released_content cursor failed cells =
     (case room_test runtime q incoming incoming_content victims released released_content failed cells of
        Inl result \<Rightarrow> result
      | Inr (failed, cells) \<Rightarrow>
          (case next_victim cursor (sq_queued q) of
             None \<Rightarrow> Returned (NoRoom failed cells)
           | Some victim \<Rightarrow>
               (case (BudgetUsage_checked_add released (metadata_usage (snd victim)),
                      BudgetUsage_checked_add released_content (metadata_usage (snd victim))) of
                  (Some released, Some released_content) \<Rightarrow>
                    find_room runtime q incoming incoming_content (victims @ [victim]) released released_content
                      (fst victim + 1) failed cells
                | _ \<Rightarrow> Panicked)))"
  by pat_completeness auto

lemma next_victim_Some:
  assumes "next_victim cursor queued = Some (i, m)"
  shows "cursor \<le> i \<and> i < length queued \<and> content_event (queued ! i) \<and> m = se_metadata (queued ! i) \<and>
    (\<forall>j \<in> {cursor..<i}. \<not> content_event (queued ! j))"
proof -
  from assms obtain k where k: "position content_event (drop cursor queued) = Some k" "i = cursor + k"
    "m = se_metadata (queued ! i)" by (auto simp: next_victim_def split: option.splits)
  from position_Some [OF k(1)] have len: "k < length queued - cursor" and c: "content_event (drop cursor queued ! k)"
    and n: "\<forall>x \<in> set (take k (drop cursor queued)). \<not> content_event x" by simp_all
  have "\<not> content_event (queued ! j)" if "j \<in> {cursor..<i}" for j
  proof -
    define d where "d = j - cursor"
    then have "j = cursor + d" "d < k" using that k(2) by auto
    then have "d < length (take k (drop cursor queued))" "take k (drop cursor queued) ! d = queued ! j"
      using len by simp_all
    with n show ?thesis by (metis nth_mem)
  qed
  with k len c show ?thesis by simp
qed

lemma next_victim_None:
  "next_victim cursor queued = None \<Longrightarrow> j \<in> {cursor..<length queued} \<Longrightarrow> \<not> content_event (queued ! j)"
proof -
  assume n: "next_victim cursor queued = None" and j: "j \<in> {cursor..<length queued}"
  then have "\<forall>x \<in> set (drop cursor queued). \<not> content_event x"
    by (auto simp: next_victim_def position_None split: option.splits)
  moreover have "queued ! j \<in> set (drop cursor queued)"
    using j by (auto simp: in_set_conv_nth intro!: exI [of _ "j - cursor"])
  ultimately show ?thesis by blast
qed

termination find_room
  by (relation "measure (\<lambda>(runtime, q, incoming, incoming_content, victims, released, released_content, cursor, failed, cells).
      length (sq_queued q) - cursor)") (auto dest!: next_victim_Some)

declare find_room.simps [simp del]

subsection \<open>Operations\<close>

text \<open>\<^verbatim>\<open>VecDeque::remove\<close>, and the removal of the victims from the last to the first.\<close>

definition remove_at :: "nat \<Rightarrow> 'a list \<Rightarrow> 'a list option" where
  "remove_at i xs = (if i < length xs then Some (take i xs @ drop (Suc i) xs) else None)"

fun remove_victims :: "(nat \<times> EventMetadata) list \<Rightarrow> 'a list \<Rightarrow> 'a list option" where
  "remove_victims [] xs = Some xs"
| "remove_victims (v # vs) xs = Option.bind (remove_at (fst v) xs) (remove_victims vs)"

definition discard_queued_locked ::
  "BudgetLimits \<Rightarrow> u64 list \<Rightarrow> 't SinkQueue \<Rightarrow> ((QueueAccessError + DropDelta list) \<times> 't SinkQueue \<times> exchange) call" where
  "discard_queued_locked runtime cells q =
     (let callback_usage = (case sq_active_callback q of Some a \<Rightarrow> metadata_usage (ac_metadata a) | None \<Rightarrow> 0);
          callback_content = (case sq_active_callback q of
              Some a \<Rightarrow> if md_class (ac_metadata a) = ContentClass then metadata_usage (ac_metadata a) else 0 | None \<Rightarrow> 0) in
      case BudgetUsage_checked_sub (sq_total_usage q) callback_usage of
        None \<Rightarrow> Returned (Inl (BudgetInvariant (ReleaseExceedsUsage (sq_total_usage q) callback_usage)), q, None)
      | Some queued_usage \<Rightarrow>
          (case cells of
             [] \<Rightarrow> Unanswered
           | cell # _ \<Rightarrow>
               (case try_replace_at runtime queued_usage 0 cell of
                  (Inl err, _) \<Rightarrow> Returned (Inl (BudgetInvariant err), q, None)
                | (Inr _, cell') \<Rightarrow>
                    let dropped = map (\<lambda>x. drop_delta (se_metadata x)) (sq_queued q) in
                    Returned (Inr dropped,
                      q\<lparr> sq_queued := [], sq_total_usage := callback_usage, sq_content_usage := callback_content,
                         sq_drops := DropLedger_record_all (sq_drops q) dropped \<rparr>, Some (cell, cell')))))"

definition terminalize_locked ::
  "BudgetLimits \<Rightarrow> u64 list \<Rightarrow> 't SinkQueue \<Rightarrow> 't QueueEvent \<Rightarrow> (AdmissionOutcome \<times> 't SinkQueue \<times> exchange) call" where
  "terminalize_locked runtime cells q incoming =
     (case discard_queued_locked runtime cells q of
        Unanswered \<Rightarrow> Unanswered
      | Panicked \<Rightarrow> Panicked
      | Returned (Inl _, _, _) \<Rightarrow> Panicked
      | Returned (Inr dropped, q, change) \<Rightarrow>
          let incoming_delta = drop_delta (qe_metadata incoming) in
          Returned (Terminalized (dropped @ [incoming_delta]),
            q\<lparr> sq_drops := DropLedger_record (sq_drops q) incoming_delta,
               sq_terminal_reason := Some TerminalDeliveryOverflow \<rparr>, change))"

definition drop_incoming ::
  "DropReason \<Rightarrow> 't SinkQueue \<Rightarrow> 't QueueEvent \<Rightarrow> (AdmissionOutcome \<times> 't SinkQueue \<times> exchange) call" where
  "drop_incoming reason q event =
     (let delta = drop_delta (qe_metadata event) in
      Returned (Dropped reason delta, q\<lparr> sq_drops := DropLedger_record (sq_drops q) delta \<rparr>, None))"

definition try_admit ::
  "BudgetLimits \<Rightarrow> bool \<Rightarrow> u64 list \<Rightarrow> 't SinkQueue \<Rightarrow> 't QueueEvent \<Rightarrow> (AdmissionOutcome \<times> 't SinkQueue \<times> exchange) call" where
  "try_admit runtime contended cells q event =
     (let meta = qe_metadata event; incoming = metadata_usage meta in
      if contended then drop_incoming QueueContended q event
      else if sq_terminal_reason q \<noteq> None then drop_incoming SinkTerminal q event
      else if \<not> (case md_class meta of
            ContentClass \<Rightarrow> fits_within incoming (sl_content (sq_limits q))
          | StructuralClass \<Rightarrow> fits_within incoming (sl_total (sq_limits q)))
      then (case md_class meta of
            ContentClass \<Rightarrow> drop_incoming SinkCapacity q event
          | StructuralClass \<Rightarrow> terminalize_locked runtime cells q event)
      else case find_room runtime q incoming (case md_class meta of ContentClass \<Rightarrow> incoming | StructuralClass \<Rightarrow> 0)
             [] 0 0 0 False cells of
        Unanswered \<Rightarrow> Unanswered
      | Panicked \<Rightarrow> Panicked
      | Returned BudgetBroken \<Rightarrow> drop_incoming BudgetUnavailable q event
      | Returned (NoRoom runtime_capacity_failed cells) \<Rightarrow>
          (case md_class meta of
             ContentClass \<Rightarrow> drop_incoming (if runtime_capacity_failed then RuntimeCapacity else SinkCapacity) q event
           | StructuralClass \<Rightarrow> terminalize_locked runtime cells q event)
      | Returned (Fits victims next_total next_content change) \<Rightarrow>
          (case remove_victims (rev victims) (sq_queued q) of
             None \<Rightarrow> Panicked
           | Some kept \<Rightarrow>
               let evicted = map (\<lambda>v. drop_delta (snd v)) victims in
               Returned (Enqueued evicted,
                 q\<lparr> sq_total_usage := next_total, sq_content_usage := next_content,
                    sq_queued := kept @ [\<lparr> se_item = qe_item event, se_metadata = meta \<rparr>],
                    sq_drops := DropLedger_record_all (sq_drops q) evicted \<rparr>, Some change)))"

definition try_begin_callback ::
  "bool \<Rightarrow> 't SinkQueue \<Rightarrow> (QueueAccessError + 't CallbackDelivery option) \<times> 't SinkQueue" where
  "try_begin_callback contended q =
     (if contended then (Inl Contended, q)
      else if sq_active_callback q \<noteq> None then (Inr None, q)
      else case sq_queued q of
        [] \<Rightarrow> (Inr None, q)
      | x # rest \<Rightarrow>
          (case issue_ticket (q\<lparr> sq_queued := rest \<rparr>) of
             (ticket, q) \<Rightarrow>
               (Inr (Some \<lparr> cd_ticket = ticket, cd_item = se_item x, cd_metadata = se_metadata x \<rparr>),
                q\<lparr> sq_active_callback := Some \<lparr> ac_ticket = ticket, ac_metadata = se_metadata x \<rparr> \<rparr>)))"

text \<open>The two subtractions of the queue's own usage come after the exchange of the cell: an error of one leaves
  the cell released and the callback active.\<close>

definition try_complete_callback ::
  "BudgetLimits \<Rightarrow> bool \<Rightarrow> u64 \<Rightarrow> u64 \<Rightarrow> 't SinkQueue \<Rightarrow> (QueueAccessError + unit) \<times> 't SinkQueue \<times> exchange" where
  "try_complete_callback runtime contended cell ticket q =
     (if contended then (Inl Contended, q, None)
      else case sq_active_callback q of
        None \<Rightarrow> (Inl NoCallbackActive, q, None)
      | Some active \<Rightarrow>
          if ac_ticket active \<noteq> ticket then (Inl CallbackTicketMismatch, q, None)
          else
            let u = metadata_usage (ac_metadata active) in
            (case try_replace_at runtime u 0 cell of
               (Inl err, _) \<Rightarrow> (Inl (BudgetInvariant err), q, None)
             | (Inr _, cell') \<Rightarrow>
                 (case BudgetUsage_checked_sub (sq_total_usage q) u of
                    None \<Rightarrow> (Inl (BudgetInvariant (ReleaseExceedsUsage (sq_total_usage q) u)), q, Some (cell, cell'))
                  | Some t \<Rightarrow>
                      let q = q\<lparr> sq_total_usage := t \<rparr> in
                      if md_class (ac_metadata active) = ContentClass
                      then (case BudgetUsage_checked_sub (sq_content_usage q) u of
                          None \<Rightarrow> (Inl (BudgetInvariant (ReleaseExceedsUsage (sq_content_usage q) u)), q, Some (cell, cell'))
                        | Some c \<Rightarrow>
                            (Inr (), q\<lparr> sq_content_usage := c, sq_active_callback := None \<rparr>, Some (cell, cell')))
                      else (Inr (), q\<lparr> sq_active_callback := None \<rparr>, Some (cell, cell')))))"

definition try_discard_queued ::
  "BudgetLimits \<Rightarrow> bool \<Rightarrow> u64 list \<Rightarrow> 't SinkQueue \<Rightarrow> ((QueueAccessError + DropDelta list) \<times> 't SinkQueue \<times> exchange) call" where
  "try_discard_queued runtime contended cells q =
     (if contended then Returned (Inl Contended, q, None) else discard_queued_locked runtime cells q)"

definition drop_queue :: "BudgetLimits \<Rightarrow> u64 \<Rightarrow> 't SinkQueue \<Rightarrow> exchange" where
  "drop_queue runtime cell q =
     (if sq_total_usage q = 0 then None
      else case try_replace_at runtime (sq_total_usage q) 0 cell of
        (Inl _, _) \<Rightarrow> None | (Inr _, cell') \<Rightarrow> Some (cell, cell'))"

subsection \<open>What a queue owns\<close>

definition owned :: "'t SinkQueue \<Rightarrow> EventMetadata list" where
  "owned q = map se_metadata (sq_queued q) @ (case sq_active_callback q of None \<Rightarrow> [] | Some a \<Rightarrow> [ac_metadata a])"

definition metas_usage :: "EventMetadata list \<Rightarrow> BudgetUsage" where
  "metas_usage ms = sum_list (map metadata_usage ms)"

abbreviation content_meta :: "EventMetadata \<Rightarrow> bool" where
  "content_meta m \<equiv> md_class m = ContentClass"

definition sink_ok :: "'t SinkQueue \<Rightarrow> bool" where
  "sink_ok q \<longleftrightarrow>
     sq_total_usage q = metas_usage (owned q) \<and> sq_content_usage q = metas_usage (filter content_meta (owned q)) \<and>
     fits_within (sq_total_usage q) (sl_total (sq_limits q)) \<and> fits_within (sq_content_usage q) (sl_content (sq_limits q)) \<and>
     max_events (sl_total (sq_limits q)) \<le> usize_max \<and> max_encoded_bytes (sl_total (sq_limits q)) \<le> usize_max"

lemma metas_usage_append [simp]: "metas_usage (xs @ ys) = metas_usage xs + metas_usage ys"
  by (simp add: metas_usage_def)

lemma metas_usage_simps [simp]: "metas_usage [] = 0" "metas_usage (x # xs) = metadata_usage x + metas_usage xs"
  by (simp_all add: metas_usage_def)

lemma metas_usage_filter: "metas_usage (filter P ms) + metas_usage (filter (\<lambda>m. \<not> P m) ms) = metas_usage ms"
  by (induction ms) (simp_all add: ac_simps)

lemma metas_usage_filter_le: "metas_usage (filter P ms) \<le> metas_usage ms"
  using metas_usage_filter [of P ms] by (metis le_iff_add)

definition evicted :: "nat \<Rightarrow> 't SinkQueue \<Rightarrow> 't StoredEvent list" where
  "evicted c q = filter content_event (take c (sq_queued q))"

definition kept :: "nat \<Rightarrow> 't SinkQueue \<Rightarrow> 't StoredEvent list" where
  "kept c q = filter (\<lambda>x. \<not> content_event x) (take c (sq_queued q)) @ drop c (sq_queued q)"

lemma evicted_kept_usage:
  "metas_usage (map se_metadata (evicted c q)) + metas_usage (map se_metadata (kept c q)) = metas_usage (map se_metadata (sq_queued q))"
proof -
  have "metas_usage (map se_metadata (filter content_event xs)) + metas_usage (map se_metadata (filter (\<lambda>x. \<not> content_event x) xs))
      = metas_usage (map se_metadata xs)" for xs :: "'t StoredEvent list"
    by (induction xs) (simp_all add: ac_simps)
  then have "metas_usage (map se_metadata (evicted c q)) + metas_usage (map se_metadata (kept c q))
      = metas_usage (map se_metadata (take c (sq_queued q))) + metas_usage (map se_metadata (drop c (sq_queued q)))"
    by (simp add: evicted_def kept_def flip: add.assoc)
  also have "\<dots> = metas_usage (map se_metadata (sq_queued q))"
    by (simp only: metas_usage_append [symmetric] map_append [symmetric] append_take_drop_id)
  finally show ?thesis .
qed

lemma evicted_kept_content:
  "metas_usage (map se_metadata (evicted c q)) + metas_usage (filter content_meta (map se_metadata (kept c q)))
     = metas_usage (filter content_meta (map se_metadata (sq_queued q)))"
proof -
  have "metas_usage (filter content_meta (map se_metadata (sq_queued q)))
      = metas_usage (filter content_meta (map se_metadata (take c (sq_queued q)))) +
        metas_usage (filter content_meta (map se_metadata (drop c (sq_queued q))))"
    by (simp only: metas_usage_append [symmetric] filter_append [symmetric] map_append [symmetric] append_take_drop_id)
  then show ?thesis by (simp add: evicted_def kept_def filter_map o_def)
qed

definition victims_upto :: "nat \<Rightarrow> 't SinkQueue \<Rightarrow> (nat \<times> EventMetadata) list" where
  "victims_upto c q =
     map (\<lambda>i. (i, se_metadata (sq_queued q ! i))) (filter (\<lambda>i. content_event (sq_queued q ! i)) [0..<c])"

lemma take_Suc_evicted:
  "c < length (sq_queued q) \<Longrightarrow>
   evicted (Suc c) q = evicted c q @ (if content_event (sq_queued q ! c) then [sq_queued q ! c] else [])"
  by (simp add: evicted_def take_Suc_conv_app_nth)

lemma evicted_skip:
  "c \<le> i \<Longrightarrow> i \<le> length (sq_queued q) \<Longrightarrow> \<forall>j \<in> {c..<i}. \<not> content_event (sq_queued q ! j) \<Longrightarrow>
   evicted i q = evicted c q \<and> victims_upto i q = victims_upto c q"
proof (induction i rule: dec_induct)
  case (step i)
  then show ?case by (simp add: take_Suc_evicted victims_upto_def)
qed simp

lemma victims_evicted: "c \<le> length (sq_queued q) \<Longrightarrow> map snd (victims_upto c q) = map se_metadata (evicted c q)"
proof (induction c)
  case (Suc c)
  then show ?case by (simp add: take_Suc_evicted) (simp add: victims_upto_def)
qed (simp add: victims_upto_def evicted_def)

lemma remove_victims_upto:
  "c \<le> length (sq_queued q) \<Longrightarrow>
   remove_victims (rev (victims_upto c q)) (take c (sq_queued q) @ r)
     = Some (filter (\<lambda>x. \<not> content_event x) (take c (sq_queued q)) @ r)"
proof (induction c arbitrary: r)
  case 0
  then show ?case by (simp add: victims_upto_def)
next
  case (Suc c)
  have t: "take (Suc c) (sq_queued q) = take c (sq_queued q) @ [sq_queued q ! c]"
    using Suc.prems by (simp add: take_Suc_conv_app_nth)
  have v: "rev (victims_upto (Suc c) q) =
      (if content_event (sq_queued q ! c) then [(c, se_metadata (sq_queued q ! c))] else []) @ rev (victims_upto c q)"
    by (simp add: victims_upto_def)
  have "remove_at c (take c (sq_queued q) @ sq_queued q ! c # r) = Some (take c (sq_queued q) @ r)"
    using Suc.prems by (simp add: remove_at_def min_absorb2)
  then show ?case
    using Suc.IH [of r] Suc.IH [of "sq_queued q ! c # r"] Suc.prems unfolding v t by simp
qed

lemma remove_victims_kept: "c \<le> length (sq_queued q) \<Longrightarrow> remove_victims (rev (victims_upto c q)) (sq_queued q) = Some (kept c q)"
  using remove_victims_upto [of c q "drop c (sq_queued q)"] by (simp add: kept_def)

subsection \<open>The search for room\<close>

abbreviation evicted_usage :: "nat \<Rightarrow> 't SinkQueue \<Rightarrow> BudgetUsage" where
  "evicted_usage c q \<equiv> metas_usage (map se_metadata (evicted c q))"

text \<open>The exchange \<open>(cell, cell')\<close> released the victims up to \<open>c\<close> and admitted the event; the rest is arithmetic.\<close>

definition makes_room :: "BudgetLimits \<Rightarrow> 't SinkQueue \<Rightarrow> BudgetUsage \<Rightarrow> BudgetUsage \<Rightarrow> nat \<Rightarrow> room \<Rightarrow> bool" where
  "makes_room runtime q incoming incoming_content c r \<longleftrightarrow>
     c \<le> length (sq_queued q) \<and> evicted_usage c q \<le> sq_total_usage q \<and> evicted_usage c q \<le> sq_content_usage q \<and>
     (\<exists>cell cell' u. try_replace_at runtime (evicted_usage c q) incoming cell = (Inr u, cell') \<and>
        r = Fits (victims_upto c q) (sq_total_usage q - evicted_usage c q + incoming)
          (sq_content_usage q - evicted_usage c q + incoming_content) (cell, cell') \<and>
        fits_within (sq_total_usage q - evicted_usage c q + incoming) (sl_total (sq_limits q)) \<and>
        fits_within (sq_content_usage q - evicted_usage c q + incoming_content) (sl_content (sq_limits q)))"

lemma room_test_Fits:
  assumes "room_test runtime q incoming incoming_content (victims_upto c q) (evicted_usage c q) (evicted_usage c q) failed cells
      = Inl (Returned (Fits vs t n change))" "c \<le> length (sq_queued q)"
  shows "makes_room runtime q incoming incoming_content c (Fits vs t n change)"
  using assms unfolding room_test_def Let_def makes_room_def checked_sub_usage
  by (auto simp: checked_add_usage bind_eq_Some_conv
      split: option.splits if_splits list.splits sum.splits prod.splits BudgetError.splits)

lemma room_test_other: "room_test runtime q incoming incoming_content vs rel relc failed cells = Inl r \<Longrightarrow>
   r = Unanswered \<or> (\<exists>room. r = Returned room \<and> (\<forall>failed cells. room \<noteq> NoRoom failed cells))"
  unfolding room_test_def Let_def
  by (auto split: option.splits if_splits list.splits sum.splits prod.splits BudgetError.splits)

text \<open>The budget answers a request with an error other than the limit only when it has lost track of this queue's usage.\<close>

lemma room_test_broken:
  assumes "room_test runtime q incoming incoming_content vs rel relc failed cells = Inl (Returned BudgetBroken)"
  shows "\<exists>cell \<in> set cells. \<exists>err c'. try_replace_at runtime rel incoming cell = (Inl err, c') \<and>
     (\<forall>l u a. err \<noteq> LimitExceeded l u a) \<and> rel \<le> sq_total_usage q \<and> fits_within (sq_total_usage q - rel + incoming) (sl_total (sq_limits q))"
  using assms unfolding room_test_def Let_def checked_sub_usage
  by (auto simp: checked_add_usage bind_eq_Some_conv
      split: option.splits if_splits list.splits sum.splits prod.splits BudgetError.splits)

lemma evicted_usage_le:
  assumes "sink_ok q"
  shows "evicted_usage c q \<le> sq_total_usage q" "evicted_usage c q \<le> sq_content_usage q"
proof -
  have "evicted_usage c q \<le> metas_usage (map se_metadata (sq_queued q))" using evicted_kept_usage [of c q] by (metis le_iff_add)
  also have "\<dots> \<le> sq_total_usage q" using assms by (simp add: sink_ok_def owned_def)
  finally show "evicted_usage c q \<le> sq_total_usage q" .
  have "evicted_usage c q \<le> metas_usage (filter content_meta (map se_metadata (sq_queued q)))"
    using evicted_kept_content [of c q] by (metis le_iff_add)
  also have "\<dots> \<le> sq_content_usage q" using assms by (simp add: sink_ok_def owned_def)
  finally show "evicted_usage c q \<le> sq_content_usage q" .
qed

lemma checked_add_released:
  assumes ok: "sink_ok q" and v: "next_victim c (sq_queued q) = Some (i, m)" and c: "c \<le> length (sq_queued q)"
  shows "BudgetUsage_checked_add (evicted_usage c q) (metadata_usage m) = Some (evicted_usage (Suc i) q)"
    "victims_upto c q @ [(i, m)] = victims_upto (Suc i) q"
proof -
  note n = next_victim_Some [OF v]
  have s: "evicted i q = evicted c q" "victims_upto i q = victims_upto c q"
    using evicted_skip [of c i q] n by auto
  have e: "evicted (Suc i) q = evicted c q @ [sq_queued q ! i]" using take_Suc_evicted [of i q] n s by simp
  show "victims_upto c q @ [(i, m)] = victims_upto (Suc i) q"
    using n s(2) by (auto simp: victims_upto_def)
  have "evicted_usage (Suc i) q = evicted_usage c q + metadata_usage m" using n by (simp add: e)
  moreover have "bu_events (evicted_usage (Suc i) q) \<le> usize_max" "bu_encoded_bytes (evicted_usage (Suc i) q) \<le> usize_max"
    using evicted_usage_le(1) [OF ok, of "Suc i"] ok
    by (auto simp: sink_ok_def fits_within_def less_eq_BudgetUsage_def)
  ultimately show "BudgetUsage_checked_add (evicted_usage c q) (metadata_usage m) = Some (evicted_usage (Suc i) q)"
    by (simp add: checked_add_usage)
qed

definition room_found :: "BudgetLimits \<Rightarrow> 't SinkQueue \<Rightarrow> BudgetUsage \<Rightarrow> BudgetUsage \<Rightarrow> u64 list \<Rightarrow> room \<Rightarrow> bool" where
  "room_found runtime q incoming incoming_content cells r \<longleftrightarrow>
     (case r of
        Fits _ _ _ _ \<Rightarrow> \<exists>c. makes_room runtime q incoming incoming_content c r
      | NoRoom _ cells' \<Rightarrow> set cells' \<subseteq> set cells
      | BudgetBroken \<Rightarrow> \<exists>cell \<in> set cells. \<exists>err c' c. try_replace_at runtime (evicted_usage c q) incoming cell = (Inl err, c') \<and>
          (\<forall>l u a. err \<noteq> LimitExceeded l u a) \<and> fits_within (sq_total_usage q - evicted_usage c q + incoming) (sl_total (sq_limits q)))"

lemma room_test_Inr:
  "room_test runtime q incoming incoming_content vs rel relc failed cells = Inr (failed', cells') \<Longrightarrow> set cells' \<subseteq> set cells"
  unfolding room_test_def Let_def
  by (auto split: option.splits if_splits list.splits sum.splits prod.splits BudgetError.splits)

lemma room_found_mono:
  "room_found runtime q incoming incoming_content cells' r \<Longrightarrow> set cells' \<subseteq> set cells \<Longrightarrow>
   room_found runtime q incoming incoming_content cells r"
  by (cases r) (auto simp: room_found_def)

lemma find_room_found:
  assumes ok: "sink_ok q"
  shows "c \<le> length (sq_queued q) \<Longrightarrow>
    find_room runtime q incoming incoming_content (victims_upto c q) (evicted_usage c q) (evicted_usage c q) c failed cells = Unanswered \<or>
    (\<exists>r. find_room runtime q incoming incoming_content (victims_upto c q) (evicted_usage c q) (evicted_usage c q) c failed cells
       = Returned r \<and> room_found runtime q incoming incoming_content cells r)"
proof (induction "length (sq_queued q) - c" arbitrary: c failed cells rule: less_induct)
  case less
  let ?test = "room_test runtime q incoming incoming_content (victims_upto c q) (evicted_usage c q) (evicted_usage c q) failed cells"
  show ?case
  proof (cases ?test)
    case (Inl r)
    from room_test_other [OF Inl] show ?thesis
    proof (elim disjE exE conjE)
      fix room
      assume r: "r = Returned room" and n: "\<forall>failed cells. room \<noteq> NoRoom failed cells"
      have "room_found runtime q incoming incoming_content cells room"
      proof (cases room)
        case (Fits vs t n change)
        with Inl r have "?test = Inl (Returned (Fits vs t n change))" by simp
        from room_test_Fits [OF this less.prems] Fits show ?thesis by (auto simp: room_found_def)
      next
        case BudgetBroken
        with room_test_broken Inl r show ?thesis by (fastforce simp: room_found_def)
      qed (use n in simp)
      with Inl r show ?thesis by (simp add: find_room.simps [of _ _ _ _ "victims_upto c q"])
    qed (use Inl in \<open>simp add: find_room.simps [of _ _ _ _ "victims_upto c q"]\<close>)
  next
    case (Inr fc)
    obtain failed' cells' where fc: "fc = (failed', cells')" by (cases fc)
    note sub = room_test_Inr [OF Inr [unfolded fc]]
    show ?thesis
    proof (cases "next_victim c (sq_queued q)")
      case None
      with Inr fc sub show ?thesis by (simp add: find_room.simps [of _ _ _ _ "victims_upto c q"] room_found_def)
    next
      case (Some v)
      obtain i m where v: "v = (i, m)" by (cases v)
      note n = next_victim_Some [OF Some [unfolded v]]
      from checked_add_released [OF ok Some [unfolded v] less.prems] Inr fc Some v
      have step: "find_room runtime q incoming incoming_content (victims_upto c q) (evicted_usage c q) (evicted_usage c q) c failed cells
          = find_room runtime q incoming incoming_content (victims_upto (Suc i) q) (evicted_usage (Suc i) q) (evicted_usage (Suc i) q)
              (Suc i) failed' cells'"
        by (simp add: find_room.simps [of _ _ _ _ "victims_upto c q"])
      have "length (sq_queued q) - Suc i < length (sq_queued q) - c" "Suc i \<le> length (sq_queued q)" using n by auto
      from less.hyps [OF this, of failed' cells'] room_found_mono [OF _ sub] show ?thesis unfolding step by blast
    qed
  qed
qed

lemma find_room_start:
  assumes "sink_ok q" "find_room runtime q incoming incoming_content [] 0 0 0 False cells = r"
  shows "r = Unanswered \<or> (\<exists>room. r = Returned room \<and> room_found runtime q incoming incoming_content cells room)"
  using find_room_found [OF assms(1), of 0 runtime incoming incoming_content False cells] assms(2)
  by (simp add: victims_upto_def evicted_def)

subsection \<open>Every operation moves the cell by what it does to the queue\<close>

definition moves :: "BudgetLimits \<Rightarrow> 't SinkQueue \<Rightarrow> 't SinkQueue \<Rightarrow> exchange \<Rightarrow> bool" where
  "moves runtime q q' change \<longleftrightarrow>
     sink_ok q' \<and> sq_limits q' = sq_limits q \<and>
     (case change of
        None \<Rightarrow> sq_total_usage q' = sq_total_usage q
      | Some (cell, cell') \<Rightarrow> sq_total_usage q \<le> unpack cell \<longrightarrow>
          unpack cell' = unpack cell - sq_total_usage q + sq_total_usage q' \<and> fits_within (unpack cell') runtime)"

lemma moves_refl: "sink_ok q \<Longrightarrow> moves runtime q q None"
  by (simp add: moves_def)

lemma sink_ok_drops [simp]: "sink_ok (q\<lparr> sq_drops := d \<rparr>) = sink_ok q"
  by (simp add: sink_ok_def owned_def)

lemma sink_ok_terminal [simp]: "sink_ok (q\<lparr> sq_terminal_reason := d \<rparr>) = sink_ok q"
  by (simp add: sink_ok_def owned_def)

lemma drop_incoming_moves: "sink_ok q \<Longrightarrow> drop_incoming reason q event = Returned (out, q', change) \<Longrightarrow> moves runtime q q' change"
  by (auto simp: drop_incoming_def moves_def Let_def)

definition active_metas :: "'t SinkQueue \<Rightarrow> EventMetadata list" where
  "active_metas q = (case sq_active_callback q of None \<Rightarrow> [] | Some a \<Rightarrow> [ac_metadata a])"

lemma owned_split: "owned q = map se_metadata (sq_queued q) @ active_metas q"
  by (simp add: owned_def active_metas_def)

lemma active_metas_update [simp]:
  "active_metas (q\<lparr> sq_total_usage := x \<rparr>) = active_metas q" "active_metas (q\<lparr> sq_content_usage := x \<rparr>) = active_metas q"
  "active_metas (q\<lparr> sq_queued := y \<rparr>) = active_metas q" "active_metas (q\<lparr> sq_drops := z \<rparr>) = active_metas q"
  by (simp_all add: active_metas_def)

lemma callback_usage_active:
  "(case sq_active_callback q of Some a \<Rightarrow> metadata_usage (ac_metadata a) | None \<Rightarrow> 0) = metas_usage (active_metas q)"
  "(case sq_active_callback q of Some a \<Rightarrow> if md_class (ac_metadata a) = ContentClass then metadata_usage (ac_metadata a) else 0
     | None \<Rightarrow> 0) = metas_usage (filter content_meta (active_metas q))"
  by (simp_all add: active_metas_def split: option.splits)

lemma exchange_arith:
  assumes "(r :: BudgetUsage) \<le> t" "t \<le> u"
  shows "u - r + a = u - t + (t - r + a)"
  using assms by (cases r; cases t; cases u; cases a) (simp add: usage_defs)

lemma moves_exchange:
  assumes "sink_ok q'" "sq_limits q' = sq_limits q" "try_replace_at runtime r a cell = (Inr u, cell')"
    "r \<le> sq_total_usage q" "sq_total_usage q' = sq_total_usage q - r + a"
  shows "moves runtime q q' (Some (cell, cell'))"
proof -
  from assms(3) have u: "u = unpack cell - r + a" "fits_within u runtime" "pack u = Some cell'"
    unfolding try_replace_at_Inr by blast+
  have "unpack cell - r + a = unpack cell - sq_total_usage q + sq_total_usage q'" if "sq_total_usage q \<le> unpack cell"
    unfolding assms(5) by (rule exchange_arith [OF assms(4) that])
  with u(1,2) unpack_pack [OF u(3)] assms(1,2) show ?thesis unfolding moves_def by auto
qed

lemma discard_moves:
  assumes ok: "sink_ok q" and d: "discard_queued_locked runtime cells q = Returned (res, q', change)"
  shows "moves runtime q q' change"
proof (cases res)
  case (Inl err)
  with d have "q' = q \<and> change = None"
    unfolding discard_queued_locked_def Let_def
    by (auto split: option.splits list.splits sum.splits prod.splits)
  with ok moves_refl show ?thesis by simp
next
  case (Inr dropped)
  let ?a = "metas_usage (active_metas q)"
  have t: "sq_total_usage q = metas_usage (map se_metadata (sq_queued q)) + ?a"
    "sq_content_usage q = metas_usage (filter content_meta (map se_metadata (sq_queued q))) + metas_usage (filter content_meta (active_metas q))"
    using ok by (simp_all add: sink_ok_def owned_split)
  from d Inr obtain cell cell' u where
    x: "try_replace_at runtime (sq_total_usage q - ?a) 0 cell = (Inr u, cell')" and c: "change = Some (cell, cell')"
    and q': "sq_queued q' = []" "sq_total_usage q' = ?a" "sq_content_usage q' = metas_usage (filter content_meta (active_metas q))"
      "sq_active_callback q' = sq_active_callback q" "sq_limits q' = sq_limits q"
    unfolding discard_queued_locked_def Let_def callback_usage_active checked_sub_usage
    by (auto split: option.splits list.splits sum.splits prod.splits if_splits)
  have a: "?a \<le> sq_total_usage q" "metas_usage (filter content_meta (active_metas q)) \<le> sq_content_usage q"
    unfolding t by (simp_all add: add.commute)
  have "active_metas q' = active_metas q" using q'(4) by (simp add: active_metas_def)
  then have "sink_ok q'"
    using ok q' a by (auto simp: sink_ok_def owned_split fits_within_def less_eq_BudgetUsage_def)
  moreover have "?a = sq_total_usage q - (sq_total_usage q - ?a) + 0" "sq_total_usage q - ?a \<le> sq_total_usage q"
    using a(1) by (simp_all add: usage_defs BudgetUsage.expand)
  ultimately show ?thesis unfolding c using q'(2,5) by (intro moves_exchange [OF _ _ x]) simp_all
qed

lemma terminalize_moves:
  assumes "sink_ok q" "terminalize_locked runtime cells q event = Returned (out, q', change)"
  shows "moves runtime q q' change"
proof -
  from assms(2) obtain dropped q1 where d: "discard_queued_locked runtime cells q = Returned (Inr dropped, q1, change)"
    and q': "q' = q1\<lparr> sq_drops := DropLedger_record (sq_drops q1) (drop_delta (qe_metadata event)),
       sq_terminal_reason := Some TerminalDeliveryOverflow \<rparr>"
    by (auto simp: terminalize_locked_def Let_def split: call.splits sum.splits prod.splits)
  from discard_moves [OF assms(1) d] show ?thesis unfolding moves_def q' by (cases change) auto
qed

text \<open>What an admission that was let in does: the victims go, the event joins the queue.\<close>

lemma admit_Fits:
  assumes ok: "sink_ok q" and r: "makes_room runtime q (metadata_usage (qe_metadata event))
      (case md_class (qe_metadata event) of ContentClass \<Rightarrow> metadata_usage (qe_metadata event) | StructuralClass \<Rightarrow> 0) c
      (Fits vs t n change)"
  shows "remove_victims (rev vs) (sq_queued q) = Some (kept c q)"
    "map (\<lambda>v. drop_delta (snd v)) vs = map (\<lambda>x. drop_delta (se_metadata x)) (evicted c q)"
    "moves runtime q (q\<lparr> sq_total_usage := t, sq_content_usage := n,
       sq_queued := kept c q @ [\<lparr> se_item = qe_item event, se_metadata = qe_metadata event \<rparr>], sq_drops := d \<rparr>) (Some change)"
proof -
  let ?m = "qe_metadata event"
  let ?inc = "case md_class ?m of ContentClass \<Rightarrow> metadata_usage ?m | StructuralClass \<Rightarrow> 0"
  from r obtain cell cell' u where c: "c \<le> length (sq_queued q)"
    and x: "try_replace_at runtime (evicted_usage c q) (metadata_usage ?m) cell = (Inr u, cell')" "change = (cell, cell')"
    and v: "vs = victims_upto c q" and t: "t = sq_total_usage q - evicted_usage c q + metadata_usage ?m"
    and n: "n = sq_content_usage q - evicted_usage c q + ?inc"
    and f: "fits_within t (sl_total (sq_limits q))" "fits_within n (sl_content (sq_limits q))"
    unfolding makes_room_def by auto
  show "remove_victims (rev vs) (sq_queued q) = Some (kept c q)" using remove_victims_kept [OF c] v by simp
  have "map (\<lambda>v. drop_delta (snd v)) vs = map drop_delta (map snd (victims_upto c q))" by (simp add: v)
  also have "\<dots> = map (\<lambda>x. drop_delta (se_metadata x)) (evicted c q)" by (simp only: victims_evicted [OF c]) simp
  finally show "map (\<lambda>v. drop_delta (snd v)) vs = map (\<lambda>x. drop_delta (se_metadata x)) (evicted c q)" .
  let ?q = "q\<lparr> sq_total_usage := t, sq_content_usage := n,
       sq_queued := kept c q @ [\<lparr> se_item = qe_item event, se_metadata = ?m \<rparr>], sq_drops := d \<rparr>"
  have ok': "sq_total_usage q = metas_usage (map se_metadata (sq_queued q)) + metas_usage (active_metas q)"
    "sq_content_usage q = metas_usage (filter content_meta (map se_metadata (sq_queued q))) + metas_usage (filter content_meta (active_metas q))"
    using ok by (simp_all add: sink_ok_def owned_split)
  have "t = metas_usage (map se_metadata (kept c q)) + metas_usage (active_metas q) + metadata_usage ?m"
    unfolding t ok'(1) evicted_kept_usage [of c q, symmetric] by (simp add: usage_defs)
  moreover have "n = metas_usage (filter content_meta (map se_metadata (kept c q))) + metas_usage (filter content_meta (active_metas q)) + ?inc"
    unfolding n ok'(2) evicted_kept_content [of c q, symmetric] by (simp add: usage_defs)
  ultimately have "sink_ok ?q"
    using ok f by (cases "md_class ?m") (simp_all add: sink_ok_def owned_split ac_simps)
  then show "moves runtime q ?q (Some change)"
    unfolding x(2) using evicted_usage_le(1) [OF ok, of c] t by (intro moves_exchange [OF _ _ x(1)]) simp_all
qed

definition stored :: "'t QueueEvent \<Rightarrow> 't StoredEvent" where
  "stored event = \<lparr> se_item = qe_item event, se_metadata = qe_metadata event \<rparr>"

definition deltas :: "'t StoredEvent list \<Rightarrow> DropDelta list" where
  "deltas xs = map (\<lambda>x. drop_delta (se_metadata x)) xs"

abbreviation search_room :: "BudgetLimits \<Rightarrow> 't SinkQueue \<Rightarrow> 't QueueEvent \<Rightarrow> u64 list \<Rightarrow> room call" where
  "search_room runtime q event cells \<equiv> find_room runtime q (metadata_usage (qe_metadata event))
     (case md_class (qe_metadata event) of ContentClass \<Rightarrow> metadata_usage (qe_metadata event) | StructuralClass \<Rightarrow> 0)
     [] 0 0 0 False cells"

text \<open>The four ways an admission ends.\<close>

lemma try_admit_cases:
  assumes ok: "sink_ok q"
  obtains (unanswered) "try_admit runtime contended cells q event = Unanswered" "search_room runtime q event cells = Unanswered"
  | (dropped) reason where "try_admit runtime contended cells q event = drop_incoming reason q event"
  | (terminal) cells' where "set cells' \<subseteq> set cells" "md_class (qe_metadata event) = StructuralClass"
      "try_admit runtime contended cells q event = terminalize_locked runtime cells' q event"
      "cells' = cells \<or> (\<exists>failed. search_room runtime q event cells = Returned (NoRoom failed cells'))"
  | (enqueued) c q' change where
      "try_admit runtime contended cells q event = Returned (Enqueued (deltas (evicted c q)), q', Some change)"
      "sq_queued q' = kept c q @ [stored event]" "sq_drops q' = DropLedger_record_all (sq_drops q) (deltas (evicted c q))"
      "sq_active_callback q' = sq_active_callback q" "sq_terminal_reason q' = None" "moves runtime q q' (Some change)"
proof -
  let ?m = "qe_metadata event" and ?inc = "metadata_usage (qe_metadata event)"
  let ?incc = "case md_class ?m of ContentClass \<Rightarrow> ?inc | StructuralClass \<Rightarrow> 0"
  let ?r = "try_admit runtime contended cells q event"
  consider (drop) "contended \<or> sq_terminal_reason q \<noteq> None"
    | (big) "\<not> contended" "sq_terminal_reason q = None" "\<not> (case md_class ?m of
            ContentClass \<Rightarrow> fits_within ?inc (sl_content (sq_limits q)) | StructuralClass \<Rightarrow> fits_within ?inc (sl_total (sq_limits q)))"
    | (search) "\<not> contended" "sq_terminal_reason q = None" "case md_class ?m of
            ContentClass \<Rightarrow> fits_within ?inc (sl_content (sq_limits q)) | StructuralClass \<Rightarrow> fits_within ?inc (sl_total (sq_limits q))"
    by blast
  then show thesis
  proof cases
    case drop
    then show thesis
      by (intro dropped [of "if contended then QueueContended else SinkTerminal"]) (auto simp: try_admit_def Let_def)
  next
    case big
    then show thesis
      by (cases "md_class ?m")
        (auto simp: try_admit_def Let_def intro: dropped [of SinkCapacity] terminal [of cells])
  next
    case search
    let ?f = "find_room runtime q ?inc ?incc [] 0 0 0 False cells"
    from search have r: "?r = (case ?f of
        Unanswered \<Rightarrow> Unanswered
      | Panicked \<Rightarrow> Panicked
      | Returned BudgetBroken \<Rightarrow> drop_incoming BudgetUnavailable q event
      | Returned (NoRoom runtime_capacity_failed cells) \<Rightarrow>
          (case md_class ?m of
             ContentClass \<Rightarrow> drop_incoming (if runtime_capacity_failed then RuntimeCapacity else SinkCapacity) q event
           | StructuralClass \<Rightarrow> terminalize_locked runtime cells q event)
      | Returned (Fits victims next_total next_content change) \<Rightarrow>
          (case remove_victims (rev victims) (sq_queued q) of
             None \<Rightarrow> Panicked
           | Some left \<Rightarrow>
               let lost = map (\<lambda>v. drop_delta (snd v)) victims in
               Returned (Enqueued lost,
                 q\<lparr> sq_total_usage := next_total, sq_content_usage := next_content,
                    sq_queued := left @ [\<lparr> se_item = qe_item event, se_metadata = ?m \<rparr>],
                    sq_drops := DropLedger_record_all (sq_drops q) lost \<rparr>, Some change)))"
      unfolding try_admit_def Let_def by simp
    from find_room_start [OF ok refl, of runtime ?inc ?incc cells] show thesis
    proof (elim disjE exE conjE)
      assume "?f = Unanswered"
      then show thesis using r by (intro unanswered) simp
    next
      fix room
      assume f: "?f = Returned room" and found: "room_found runtime q ?inc ?incc cells room"
      show thesis
      proof (cases room)
        case BudgetBroken
        then show thesis using r f by (intro dropped [of BudgetUnavailable]) simp
      next
        case (NoRoom failed cells')
        with found have "set cells' \<subseteq> set cells" by (simp add: room_found_def)
        then show thesis using r f NoRoom
          by (cases "md_class ?m") (auto intro: dropped [of "if failed then RuntimeCapacity else SinkCapacity"] terminal [of cells'])
      next
        case (Fits vs t n change)
        with found obtain c where c: "makes_room runtime q ?inc ?incc c (Fits vs t n change)" by (auto simp: room_found_def)
        note a = admit_Fits [OF ok c]
        have e: "?r = Returned (Enqueued (deltas (evicted c q)), q\<lparr> sq_total_usage := t, sq_content_usage := n,
            sq_queued := kept c q @ [\<lparr> se_item = qe_item event, se_metadata = qe_metadata event \<rparr>],
            sq_drops := DropLedger_record_all (sq_drops q) (deltas (evicted c q)) \<rparr>, Some change)"
          using r f Fits a(1,2) by (simp add: Let_def deltas_def)
        show thesis by (rule enqueued [OF e _ _ _ _ a(3)]) (simp_all add: stored_def search(2))
      qed
    qed
  qed
qed

lemma try_admit_moves:
  assumes ok: "sink_ok q" and a: "try_admit runtime contended cells q event = Returned (out, q', change)"
  shows "moves runtime q q' change"
  using ok
proof (cases rule: try_admit_cases [where runtime = runtime and contended = contended and cells = cells and event = event])
  case (dropped reason)
  with a drop_incoming_moves [OF ok] show ?thesis by simp
next
  case (terminal cells')
  with a terminalize_moves [OF ok] show ?thesis by simp
qed (use a in auto)

lemma begin_callback_moves:
  assumes ok: "sink_ok q" and b: "try_begin_callback contended q = (res, q')"
  shows "moves runtime q q' None"
proof (cases "contended \<or> sq_active_callback q \<noteq> None \<or> sq_queued q = []")
  case True
  with b have "q' = q" by (auto simp: try_begin_callback_def split: list.splits if_splits)
  with ok moves_refl show ?thesis by simp
next
  case False
  then obtain x rest where q: "sq_queued q = x # rest" by (cases "sq_queued q") auto
  with b False have "owned q' = map se_metadata rest @ [se_metadata x]" "sq_total_usage q' = sq_total_usage q"
    "sq_content_usage q' = sq_content_usage q" "sq_limits q' = sq_limits q"
    by (auto simp: try_begin_callback_def issue_ticket_def Let_def owned_def)
  with ok q False show ?thesis by (auto simp: moves_def sink_ok_def owned_def ac_simps)
qed

lemma complete_callback_moves:
  assumes ok: "sink_ok q" and c: "try_complete_callback runtime contended cell ticket q = (res, q', change)"
  shows "moves runtime q q' change"
proof (cases "contended \<or> sq_active_callback q = None \<or> (\<exists>err c'. try_replace_at runtime
    (metadata_usage (ac_metadata (the (sq_active_callback q)))) 0 cell = (Inl err, c')) \<or> ac_ticket (the (sq_active_callback q)) \<noteq> ticket")
  case True
  with c have "q' = q \<and> change = None" by (auto simp: try_complete_callback_def Let_def split: option.splits sum.splits prod.splits if_splits)
  with ok moves_refl show ?thesis by simp
next
  case False
  then obtain a u cell' where a: "sq_active_callback q = Some a" "ac_ticket a = ticket" "\<not> contended"
    and x: "try_replace_at runtime (metadata_usage (ac_metadata a)) 0 cell = (Inr u, cell')"
    by (metis option.collapse sum.exhaust surj_pair)
  let ?u = "metadata_usage (ac_metadata a)" and ?cm = "content_meta (ac_metadata a)"
  have t: "sq_total_usage q = metas_usage (map se_metadata (sq_queued q)) + ?u"
    "sq_content_usage q = metas_usage (filter content_meta (map se_metadata (sq_queued q))) + (if ?cm then ?u else 0)"
    using ok a(1) by (simp_all add: sink_ok_def owned_def)
  then have le: "?u \<le> sq_total_usage q" "?cm \<Longrightarrow> ?u \<le> sq_content_usage q" by (simp_all add: add.commute)
  have q': "change = Some (cell, cell')" "sq_total_usage q' = sq_total_usage q - ?u" "sq_active_callback q' = None"
    "sq_content_usage q' = sq_content_usage q - (if ?cm then ?u else 0)" "sq_limits q' = sq_limits q" "sq_queued q' = sq_queued q"
    using c a x le by (auto simp: try_complete_callback_def Let_def checked_sub_usage split: if_splits)
  have "sink_ok q'"
    using ok q' t by (auto simp: sink_ok_def owned_def fits_within_def usage_defs)
  then show ?thesis unfolding q'(1) using q'(2,5) le(1) by (intro moves_exchange [OF _ _ x]) simp_all
qed

end
