(* ===== verification/Sinks.thy ===== *)
theory Sinks
  imports Sink_Queue "HOL-Library.Sublist" "HOL-Library.Multiset"
begin

section \<open>The sinks of a Run\<close>

text \<open>
  The sinks that share a budget, as a system of steps: registering a sink, an operation of one
  queue, dropping a queue. Operations of different sinks interleave freely; an operation that
  exchanges the cell does so at its current value, the other values it looked at may be any it had
  before. \<open>shared_budget\<close> is what the system relies on of a queue: usage and cell move together. With each
  queue goes a log of what was offered to it, delivered from it and lost.
\<close>

subsection \<open>What the shared budget needs of a queue\<close>

definition exchanged :: "u64 \<Rightarrow> exchange \<Rightarrow> u64 \<Rightarrow> bool" where
  "exchanged cell change cell' \<longleftrightarrow> (case change of None \<Rightarrow> cell' = cell | Some e \<Rightarrow> e = (cell, cell'))"

locale shared_budget =
  fixes runtime :: BudgetLimits
    and queue_ok :: "'q \<Rightarrow> bool"
    and usage :: "'q \<Rightarrow> BudgetUsage"
    and operation :: "'q \<Rightarrow> 'q \<Rightarrow> exchange \<Rightarrow> bool"
  assumes operation_ok: "queue_ok q \<Longrightarrow> operation q q' change \<Longrightarrow> queue_ok q'"
    and operation_idle: "queue_ok q \<Longrightarrow> operation q q' None \<Longrightarrow> usage q' = usage q"
    and operation_exchange: "queue_ok q \<Longrightarrow> operation q q' (Some (cell, cell')) \<Longrightarrow> usage q \<le> unpack cell \<Longrightarrow>
      unpack cell' = unpack cell - usage q + usage q' \<and> fits_within (unpack cell') runtime"

context shared_budget
begin

lemma usage_of_one: "i < length qs \<Longrightarrow> usage (qs ! i) \<le> sum_list (map usage qs)"
  by (metis id_take_nth_drop list.simps(9) map_append sum_list.Cons sum_list_append add.left_commute usage_le_add)

lemma usage_update:
  "i < length qs \<Longrightarrow> sum_list (map usage (qs[i := q'])) = sum_list (map usage qs) - usage (qs ! i) + usage q'"
proof -
  assume i: "i < length qs"
  have "sum_list (map usage qs) = sum_list (map usage (take i qs)) + usage (qs ! i) + sum_list (map usage (drop (Suc i) qs))"
    using id_take_nth_drop [OF i] by (metis add.assoc list.simps(9) map_append sum_list.Cons sum_list_append)
  moreover have "sum_list (map usage (qs[i := q'])) = sum_list (map usage (take i qs)) + usage q' + sum_list (map usage (drop (Suc i) qs))"
    using i by (simp add: upd_conv_take_nth_drop ac_simps)
  ultimately show ?thesis by (simp add: usage_defs)
qed

lemma conserved:
  assumes "i < length qs" "queue_ok (qs ! i)" "operation (qs ! i) q' change" "exchanged cell change cell'"
    "unpack cell = sum_list (map usage qs)" "fits_within (unpack cell) runtime"
  shows "unpack cell' = sum_list (map usage (qs[i := q'])) \<and> fits_within (unpack cell') runtime"
proof (cases change)
  case None
  with assms operation_idle have "cell' = cell" "usage q' = usage (qs ! i)" by (auto simp: exchanged_def)
  moreover have "map usage (qs[i := q']) = map usage qs" using \<open>usage q' = _\<close> assms(1) by (metis list_update_id map_update)
  ultimately show ?thesis using assms(5,6) by simp
next
  case (Some e)
  with assms(4) have e: "e = (cell, cell')" by (simp add: exchanged_def)
  have "usage (qs ! i) \<le> unpack cell" using usage_of_one [OF assms(1)] assms(5) by simp
  with operation_exchange [OF assms(2) assms(3) [unfolded Some e]] usage_update [OF assms(1), of q'] assms(5) show ?thesis by metis
qed

end

subsection \<open>The queue as the model has it\<close>

inductive queue_operation :: "BudgetLimits \<Rightarrow> 't SinkQueue \<Rightarrow> 't SinkQueue \<Rightarrow> exchange \<Rightarrow> bool" for runtime where
  op_admit: "try_admit runtime contended cells q event = Returned (out, q', change) \<Longrightarrow> queue_operation runtime q q' change"
| op_begin: "try_begin_callback contended q = (res, q') \<Longrightarrow> queue_operation runtime q q' None"
| op_complete: "try_complete_callback runtime contended cell ticket q = (res, q', change) \<Longrightarrow> queue_operation runtime q q' change"
| op_discard: "try_discard_queued runtime contended cells q = Returned (res, q', change) \<Longrightarrow> queue_operation runtime q q' change"

lemma queue_operation_moves: "queue_operation runtime q q' change \<Longrightarrow> sink_ok q \<Longrightarrow> moves runtime q q' change"
proof (induction rule: queue_operation.induct)
  case (op_discard contended cells q res q' change)
  then show ?case
    by (cases contended) (auto simp: try_discard_queued_def moves_refl intro: discard_moves)
qed (auto intro: try_admit_moves begin_callback_moves complete_callback_moves)

interpretation queues: shared_budget runtime sink_ok sq_total_usage "queue_operation runtime"
proof unfold_locales
  fix q q' :: "'t SinkQueue" and change and cell cell'
  show "sink_ok q \<Longrightarrow> queue_operation runtime q q' change \<Longrightarrow> sink_ok q'"
    using queue_operation_moves [of runtime q q' change] by (simp add: moves_def)
  show "sink_ok q \<Longrightarrow> queue_operation runtime q q' None \<Longrightarrow> sq_total_usage q' = sq_total_usage q"
    using queue_operation_moves [of runtime q q' None] by (simp add: moves_def)
  show "sink_ok q \<Longrightarrow> queue_operation runtime q q' (Some (cell, cell')) \<Longrightarrow> sq_total_usage q \<le> unpack cell \<Longrightarrow>
      unpack cell' = unpack cell - sq_total_usage q + sq_total_usage q' \<and> fits_within (unpack cell') runtime"
    using queue_operation_moves [of runtime q q' "Some (cell, cell')"] unfolding moves_def by auto
qed

subsection \<open>The system\<close>

record 't sink_log =
  lg_offered :: "'t QueueEvent list"
  lg_delivered :: "'t CallbackDelivery list"
  lg_dropped :: "DropDelta list"

record 't sinks =
  ss_cell :: u64
  ss_queues :: "'t SinkQueue list"
  ss_logs :: "'t sink_log list"

fun outcome_drops :: "AdmissionOutcome \<Rightarrow> DropDelta list" where
  "outcome_drops (Enqueued lost) = lost"
| "outcome_drops (Dropped _ delta) = [delta]"
| "outcome_drops (Terminalized dropped) = dropped"

definition log_admit :: "'t QueueEvent \<Rightarrow> AdmissionOutcome \<Rightarrow> 't sink_log \<Rightarrow> 't sink_log" where
  "log_admit event out lg = lg\<lparr> lg_offered := lg_offered lg @ [event], lg_dropped := lg_dropped lg @ outcome_drops out \<rparr>"

definition log_begin :: "QueueAccessError + 't CallbackDelivery option \<Rightarrow> 't sink_log \<Rightarrow> 't sink_log" where
  "log_begin res lg = (case res of Inr (Some d) \<Rightarrow> lg\<lparr> lg_delivered := lg_delivered lg @ [d] \<rparr> | _ \<Rightarrow> lg)"

definition log_discard :: "QueueAccessError + DropDelta list \<Rightarrow> 't sink_log \<Rightarrow> 't sink_log" where
  "log_discard res lg = (case res of Inr ds \<Rightarrow> lg\<lparr> lg_dropped := lg_dropped lg @ ds \<rparr> | Inl _ \<Rightarrow> lg)"

definition put :: "'t sinks \<Rightarrow> nat \<Rightarrow> u64 \<Rightarrow> 't SinkQueue \<Rightarrow> 't sink_log \<Rightarrow> 't sinks" where
  "put s i cell q lg = \<lparr> ss_cell = cell, ss_queues = (ss_queues s)[i := q], ss_logs = (ss_logs s)[i := lg] \<rparr>"

inductive sink_step :: "BudgetLimits \<Rightarrow> 't sinks \<Rightarrow> 't sinks \<Rightarrow> bool" for runtime where
  register: "SinkQueueLimits_new room reserve = Some limits \<Longrightarrow> bu_events room \<le> usize_max \<Longrightarrow>
    bu_encoded_bytes room \<le> usize_max \<Longrightarrow>
    sink_step runtime s (s\<lparr> ss_queues := ss_queues s @ [SinkQueue_with_limits limits],
      ss_logs := ss_logs s @ [\<lparr> lg_offered = [], lg_delivered = [], lg_dropped = [] \<rparr>] \<rparr>)"
| admit: "i < length (ss_queues s) \<Longrightarrow>
    try_admit runtime contended cells (ss_queues s ! i) event = Returned (out, q', change) \<Longrightarrow> exchanged (ss_cell s) change cell' \<Longrightarrow>
    sink_step runtime s (put s i cell' q' (log_admit event out (ss_logs s ! i)))"
| begin_callback: "i < length (ss_queues s) \<Longrightarrow> try_begin_callback contended (ss_queues s ! i) = (delivery, q') \<Longrightarrow>
    sink_step runtime s (put s i (ss_cell s) q' (log_begin delivery (ss_logs s ! i)))"
| complete_callback: "i < length (ss_queues s) \<Longrightarrow>
    try_complete_callback runtime contended (ss_cell s) ticket (ss_queues s ! i) = (res, q', change) \<Longrightarrow>
    exchanged (ss_cell s) change cell' \<Longrightarrow> sink_step runtime s (put s i cell' q' (ss_logs s ! i))"
| discard: "i < length (ss_queues s) \<Longrightarrow>
    try_discard_queued runtime contended cells (ss_queues s ! i) = Returned (lost, q', change) \<Longrightarrow> exchanged (ss_cell s) change cell' \<Longrightarrow>
    sink_step runtime s (put s i cell' q' (log_discard lost (ss_logs s ! i)))"
| drop_sink: "i < length (ss_queues s) \<Longrightarrow> exchanged (ss_cell s) (drop_queue runtime (ss_cell s) (ss_queues s ! i)) cell' \<Longrightarrow>
    sink_step runtime s \<lparr> ss_cell = cell', ss_queues = take i (ss_queues s) @ drop (Suc i) (ss_queues s),
      ss_logs = take i (ss_logs s) @ drop (Suc i) (ss_logs s) \<rparr>"

definition sinks_init :: "'t sinks" where
  "sinks_init = \<lparr> ss_cell = 0, ss_queues = [], ss_logs = [] \<rparr>"

subsection \<open>The budget\<close>

definition budget_inv :: "BudgetLimits \<Rightarrow> 't sinks \<Rightarrow> bool" where
  "budget_inv runtime s \<longleftrightarrow> list_all sink_ok (ss_queues s) \<and> length (ss_logs s) = length (ss_queues s) \<and>
     unpack (ss_cell s) = sum_list (map sq_total_usage (ss_queues s)) \<and> fits_within (unpack (ss_cell s)) runtime"

lemma new_sink_ok:
  assumes "SinkQueueLimits_new room reserve = Some limits" "bu_events room \<le> usize_max" "bu_encoded_bytes room \<le> usize_max"
  shows "sink_ok (SinkQueue_with_limits limits)" "sq_total_usage (SinkQueue_with_limits limits) = 0"
  using assms by (auto simp: SinkQueueLimits_new_def SinkQueue_with_limits_def sink_ok_def owned_def fits_within_def
      zero_BudgetUsage_def split: option.splits)

lemma operation_budget:
  assumes inv: "budget_inv runtime s" and i: "i < length (ss_queues s)"
    and op: "queue_operation runtime (ss_queues s ! i) q' change" and x: "exchanged (ss_cell s) change cell'"
  shows "budget_inv runtime (put s i cell' q' lg)"
proof -
  from inv i have ok: "sink_ok (ss_queues s ! i)" by (simp add: budget_inv_def list_all_length)
  have "sink_ok q'" using queues.operation_ok [OF ok op] .
  moreover have "unpack cell' = sum_list (map sq_total_usage ((ss_queues s)[i := q'])) \<and> fits_within (unpack cell') runtime"
    using inv by (intro queues.conserved [OF i ok op x]) (auto simp: budget_inv_def)
  ultimately show ?thesis
    using inv i by (auto simp: budget_inv_def put_def list_all_length nth_list_update)
qed

lemma drop_sink_budget:
  assumes inv: "budget_inv runtime s" and i: "i < length (ss_queues s)"
    and x: "exchanged (ss_cell s) (drop_queue runtime (ss_cell s) (ss_queues s ! i)) cell'"
  shows "budget_inv runtime \<lparr> ss_cell = cell', ss_queues = take i (ss_queues s) @ drop (Suc i) (ss_queues s),
      ss_logs = take i (ss_logs s) @ drop (Suc i) (ss_logs s) \<rparr>"
proof -
  let ?u = "sq_total_usage (ss_queues s ! i)" and ?c = "unpack (ss_cell s)"
  let ?rest = "sum_list (map sq_total_usage (take i (ss_queues s) @ drop (Suc i) (ss_queues s)))"
  from inv have c: "?c = sum_list (map sq_total_usage (ss_queues s))" "fits_within ?c runtime" unfolding budget_inv_def by blast+
  have split: "?c = ?u + ?rest"
    unfolding c(1) using arg_cong [OF id_take_nth_drop [OF i], of "\<lambda>qs. sum_list (map sq_total_usage qs)"]
    by (simp add: ac_simps)
  then have le: "?u \<le> ?c" by simp
  have "unpack cell' = ?rest \<and> fits_within (unpack cell') runtime"
  proof (cases "?u = 0")
    case True
    with x split c(2) show ?thesis by (simp add: drop_queue_def exchanged_def)
  next
    case False
    from try_replace_release [OF le c(2)] obtain c' where
      c': "try_replace_at runtime ?u 0 (ss_cell s) = (Inr (?c - ?u), c')" "unpack c' = ?c - ?u" by blast
    with x False have "cell' = c'" by (simp add: drop_queue_def exchanged_def)
    moreover have "?c - ?u = ?rest" using split by (simp add: usage_defs)
    ultimately show ?thesis using c'(1,2) by (simp add: try_replace_at_Inr)
  qed
  with inv i show ?thesis by (auto simp: budget_inv_def list_all_iff dest: in_set_takeD in_set_dropD)
qed

lemma sink_step_budget: "sink_step runtime s s' \<Longrightarrow> budget_inv runtime s \<Longrightarrow> budget_inv runtime s'"
proof (induction rule: sink_step.induct)
  case (register room reserve limits s)
  with new_sink_ok [OF register(1-3)] show ?case by (auto simp: budget_inv_def)
next
  case (admit i s contended cells event out q' change cell')
  then show ?case by (intro operation_budget) (auto intro: op_admit)
next
  case (begin_callback i s contended delivery q')
  then show ?case by (intro operation_budget [where change = None]) (auto intro: op_begin simp: exchanged_def)
next
  case (complete_callback i s contended ticket res q' change cell')
  then show ?case by (intro operation_budget) (auto intro: op_complete)
next
  case (discard i s contended cells lost q' change cell')
  then show ?case by (intro operation_budget) (auto intro: op_discard)
next
  case (drop_sink i s cell')
  then show ?case by (intro drop_sink_budget)
qed

lemma sinks_reachable_budget: "(sink_step runtime)\<^sup>*\<^sup>* sinks_init s \<Longrightarrow> budget_inv runtime s"
proof (induction rule: rtranclp_induct)
  case base
  then show ?case by (simp add: budget_inv_def sinks_init_def fits_within_def zero_BudgetUsage_def)
next
  case (step s s')
  from step.hyps(2) step.IH show ?case by (rule sink_step_budget)
qed

subsection \<open>Nothing is lost uncounted\<close>

text \<open>The counters of the losses \<open>ds\<close>: exact up to the largest number they can hold.\<close>

definition tally :: "DropDelta list \<Rightarrow> DropLedger" where
  "tally ds kind =
     \<lparr> dc_events = min (sum_list (map dd_events (filter (\<lambda>d. dd_event_kind d = kind) ds))) usize_max,
       dc_encoded_bytes = min (sum_list (map dd_encoded_bytes (filter (\<lambda>d. dd_event_kind d = kind) ds))) usize_max \<rparr>"

definition delivered_event :: "'t CallbackDelivery \<Rightarrow> 't StoredEvent" where
  "delivered_event d = \<lparr> se_item = cd_item d, se_metadata = cd_metadata d \<rparr>"

definition accounted :: "'t SinkQueue \<Rightarrow> 't sink_log \<Rightarrow> bool" where
  "accounted q lg \<longleftrightarrow>
     subseq (map delivered_event (lg_delivered lg) @ sq_queued q) (map stored (lg_offered lg)) \<and>
     mset (deltas (map stored (lg_offered lg)))
       = mset (deltas (map delivered_event (lg_delivered lg))) + mset (deltas (sq_queued q)) + mset (lg_dropped lg) \<and>
     sq_drops q = tally (lg_dropped lg)"

lemma tally_record: "DropLedger_record (tally ds) d = tally (ds @ [d])"
  by (rule ext) (auto simp: DropLedger_record_def DropCounter_record_def tally_def saturating_add_def)

lemma tally_record_all: "DropLedger_record_all (tally ds) es = tally (ds @ es)"
  unfolding DropLedger_record_all_def
proof (induction es arbitrary: ds)
  case (Cons e es)
  then show ?case using Cons.IH [of "ds @ [e]"] by (simp add: tally_record)
qed simp

lemma tally_Nil: "DropLedger_new = tally []"
  by (rule ext) (simp add: DropLedger_new_def DropCounter_new_def tally_def)

lemma deltas_append [simp]: "deltas (xs @ ys) = deltas xs @ deltas ys"
  by (simp add: deltas_def)

lemma deltas_single [simp]: "deltas [] = []" "deltas (x # xs) = drop_delta (se_metadata x) # deltas xs"
  by (simp_all add: deltas_def)

lemma kept_subseq: "subseq (kept c q) (sq_queued q)"
proof -
  have "subseq (kept c q) (take c (sq_queued q) @ drop c (sq_queued q))"
    unfolding kept_def by (intro list_emb_append_mono subseq_filter_left subseq_order.refl)
  then show ?thesis by simp
qed

lemma evicted_kept_mset: "mset (deltas (sq_queued q)) = mset (deltas (evicted c q)) + mset (deltas (kept c q))"
proof -
  have "mset (deltas (take c (sq_queued q)))
      = mset (deltas (evicted c q)) + mset (deltas (filter (\<lambda>x. \<not> content_event x) (take c (sq_queued q))))"
    unfolding evicted_def deltas_def mset_map mset_filter by (simp flip: image_mset_union multiset_partition)
  moreover have "deltas (sq_queued q) = deltas (take c (sq_queued q)) @ deltas (drop c (sq_queued q))"
    by (simp only: deltas_append [symmetric] append_take_drop_id)
  ultimately show ?thesis by (simp add: kept_def ac_simps)
qed

lemma drop_incoming_accounted:
  assumes "accounted q lg" "drop_incoming reason q event = Returned (out, q', change)"
  shows "accounted q' (log_admit event out lg)"
  using assms by (auto simp: accounted_def drop_incoming_def Let_def log_admit_def tally_record stored_def
      intro: list_emb_append2 subseq_order.trans)

lemma discard_Inr:
  assumes "discard_queued_locked runtime cells q = Returned (Inr ds, q', change)"
  shows "ds = deltas (sq_queued q) \<and> sq_queued q' = [] \<and> sq_drops q' = DropLedger_record_all (sq_drops q) ds"
  using assms unfolding discard_queued_locked_def Let_def deltas_def
  by (auto split: option.splits list.splits sum.splits prod.splits)

lemma discard_Inl: "discard_queued_locked runtime cells q = Returned (Inl err, q', change) \<Longrightarrow> q' = q"
  unfolding discard_queued_locked_def Let_def by (auto split: option.splits list.splits sum.splits prod.splits)

lemma discard_accounted:
  assumes a: "accounted q lg" and d: "discard_queued_locked runtime cells q = Returned (res, q', change)"
  shows "accounted q' (log_discard res lg)"
proof (cases res)
  case (Inl err)
  with a discard_Inl [OF d [unfolded Inl]] show ?thesis by (simp add: log_discard_def)
next
  case (Inr ds)
  note x = discard_Inr [OF d [unfolded Inr]]
  have "subseq (map delivered_event (lg_delivered lg)) (map stored (lg_offered lg))"
    using a unfolding accounted_def by (meson list_emb_append2 prefix_imp_subseq prefixI subseq_order.trans)
  with a x Inr show ?thesis by (simp add: accounted_def log_discard_def tally_record_all)
qed

lemma terminalize_accounted:
  assumes a: "accounted q lg" and t: "terminalize_locked runtime cells q event = Returned (out, q', change)"
  shows "accounted q' (log_admit event out lg)"
proof -
  from t obtain ds q1 where d: "discard_queued_locked runtime cells q = Returned (Inr ds, q1, change)"
    and q': "q' = q1\<lparr> sq_drops := DropLedger_record (sq_drops q1) (drop_delta (qe_metadata event)),
       sq_terminal_reason := Some TerminalDeliveryOverflow \<rparr>"
    and out: "out = Terminalized (ds @ [drop_delta (qe_metadata event)])"
    by (auto simp: terminalize_locked_def Let_def split: call.splits sum.splits prod.splits)
  have "accounted q1 (log_discard (Inr ds) lg)" using discard_accounted [OF a d] .
  moreover have "sq_queued q1 = []" using discard_Inr [OF d] by simp
  ultimately show ?thesis
    by (auto simp: accounted_def log_discard_def log_admit_def out q' tally_record stored_def
        intro: list_emb_append2 subseq_order.trans)
qed

lemma try_admit_accounted:
  assumes ok: "sink_ok q" and a: "accounted q lg" and t: "try_admit runtime contended cells q event = Returned (out, q', change)"
  shows "accounted q' (log_admit event out lg)"
  using ok
proof (cases rule: try_admit_cases [where runtime = runtime and contended = contended and cells = cells and event = event])
  case (dropped reason)
  with t drop_incoming_accounted [OF a] show ?thesis by simp
next
  case (terminal cells')
  with t terminalize_accounted [OF a] show ?thesis by simp
next
  case (enqueued c q1 change1)
  with t have q': "out = Enqueued (deltas (evicted c q))" "sq_queued q' = kept c q @ [stored event]"
    "sq_drops q' = DropLedger_record_all (sq_drops q) (deltas (evicted c q))" by simp_all
  have "subseq (map delivered_event (lg_delivered lg) @ kept c q) (map stored (lg_offered lg))"
    using a kept_subseq [of c q] unfolding accounted_def
    by (meson list_emb_append_mono subseq_order.refl subseq_order.trans)
  then have "subseq ((map delivered_event (lg_delivered lg) @ kept c q) @ [stored event]) (map stored (lg_offered lg) @ [stored event])"
    by (intro list_emb_append_mono) simp_all
  then show ?thesis
    using a evicted_kept_mset [of q c] q' by (simp add: accounted_def log_admit_def tally_record_all ac_simps)
qed (use t in simp)

lemma begin_accounted:
  assumes a: "accounted q lg" and b: "try_begin_callback contended q = (res, q')"
  shows "accounted q' (log_begin res lg)"
proof (cases "contended \<or> sq_active_callback q \<noteq> None \<or> sq_queued q = []")
  case True
  with b have "q' = q" "log_begin res lg = lg"
    by (auto simp: try_begin_callback_def log_begin_def split: list.splits if_splits)
  with a show ?thesis by simp
next
  case False
  then obtain x rest where q: "sq_queued q = x # rest" by (cases "sq_queued q") auto
  with b False obtain d where "res = Inr (Some d)" "delivered_event d = x" "sq_queued q' = rest" "sq_drops q' = sq_drops q"
    by (auto simp: try_begin_callback_def issue_ticket_def Let_def delivered_event_def)
  with a q show ?thesis by (simp add: accounted_def log_begin_def ac_simps)
qed

lemma complete_accounted:
  assumes "accounted q lg" "try_complete_callback runtime contended cell ticket q = (res, q', change)"
  shows "accounted q' lg"
proof -
  have "sq_queued q' = sq_queued q \<and> sq_drops q' = sq_drops q"
    using assms(2) by (auto simp: try_complete_callback_def Let_def split: option.splits sum.splits prod.splits if_splits)
  with assms(1) show ?thesis by (simp add: accounted_def)
qed

definition accounts_inv :: "'t sinks \<Rightarrow> bool" where
  "accounts_inv s \<longleftrightarrow> list_all2 accounted (ss_queues s) (ss_logs s)"

lemma put_accounts:
  assumes "accounts_inv s" "accounted q lg"
  shows "accounts_inv (put s i cell q lg)"
  using assms by (simp add: accounts_inv_def put_def list_all2_update_cong)

lemma accounts_nth: "accounts_inv s \<Longrightarrow> i < length (ss_queues s) \<Longrightarrow> accounted (ss_queues s ! i) (ss_logs s ! i)"
  by (simp add: accounts_inv_def list_all2_nthD)

lemma sink_step_accounts:
  "sink_step runtime s s' \<Longrightarrow> budget_inv runtime s \<Longrightarrow> accounts_inv s \<Longrightarrow> accounts_inv s'"
proof (induction rule: sink_step.induct)
  case (register room reserve limits s)
  have "accounted (SinkQueue_with_limits limits) \<lparr> lg_offered = [], lg_delivered = [], lg_dropped = [] \<rparr>"
    by (simp add: accounted_def SinkQueue_with_limits_def tally_Nil)
  with register show ?case by (auto simp: accounts_inv_def intro!: list_all2_appendI)
next
  case (admit i s contended cells event out q' change cell')
  then have "sink_ok (ss_queues s ! i)" by (simp add: budget_inv_def list_all_length)
  with admit show ?case by (intro put_accounts try_admit_accounted [OF _ accounts_nth])
next
  case (begin_callback i s contended delivery q')
  then show ?case by (intro put_accounts begin_accounted [OF accounts_nth])
next
  case (complete_callback i s contended ticket res q' change cell')
  then show ?case by (intro put_accounts complete_accounted [OF accounts_nth])
next
  case (discard i s contended cells lost q' change cell')
  then show ?case
    using discard_accounted [OF accounts_nth]
    by (intro put_accounts) (auto simp: try_discard_queued_def log_discard_def accounts_nth split: if_splits)
next
  case (drop_sink i s cell')
  then show ?case by (simp add: accounts_inv_def list_all2_appendI list_all2_takeI list_all2_dropI)
qed

lemma sinks_reachable_accounts: "(sink_step runtime)\<^sup>*\<^sup>* sinks_init s \<Longrightarrow> accounts_inv s"
proof (induction rule: rtranclp_induct)
  case base
  then show ?case by (simp add: accounts_inv_def sinks_init_def)
next
  case (step s s')
  from step.hyps(2) sinks_reachable_budget [OF step.hyps(1)] step.IH show ?case by (rule sink_step_accounts)
qed

subsection \<open>An admission always returns\<close>

lemma room_test_unanswered:
  "room_test runtime q incoming incoming_content vs rel relc failed cells = Inl Unanswered \<Longrightarrow> cells = []"
  unfolding room_test_def Let_def
  by (auto split: option.splits if_splits list.splits sum.splits prod.splits BudgetError.splits)

lemma room_test_uses_one:
  "room_test runtime q incoming incoming_content vs rel relc failed cells = Inr (failed', cells') \<Longrightarrow> length cells \<le> Suc (length cells')"
  unfolding room_test_def Let_def
  by (auto split: option.splits if_splits list.splits sum.splits prod.splits BudgetError.splits)

text \<open>The budget is asked once before the first victim and once after each.\<close>

lemma find_room_answered:
  "find_room runtime q incoming incoming_content vs rel relc c failed cells = r \<Longrightarrow>
   length (filter content_event (drop c (sq_queued q))) < length cells \<Longrightarrow>
   r \<noteq> Unanswered \<and> (\<forall>f left. r = Returned (NoRoom f left) \<longrightarrow>
     length cells \<le> Suc (length (filter content_event (drop c (sq_queued q)))) + length left)"
proof (induction runtime q incoming incoming_content vs rel relc c failed cells arbitrary: r rule: find_room.induct)
  case (1 runtime q incoming incoming_content vs rel relc c failed cells)
  let ?test = "room_test runtime q incoming incoming_content vs rel relc failed cells"
  show ?case
  proof (cases ?test)
    case (Inl res)
    with 1 room_test_unanswered room_test_other [OF Inl] show ?thesis
      by (fastforce simp: find_room.simps [of _ _ _ _ vs])
  next
    case (Inr fc)
    obtain failed' cells' where fc: "fc = (failed', cells')" by (cases fc)
    have one: "length cells \<le> Suc (length cells')" using room_test_uses_one Inr fc by blast
    show ?thesis
    proof (cases "next_victim c (sq_queued q)")
      case None
      with Inr fc one 1(2) show ?thesis by (auto simp: find_room.simps [of _ _ _ _ vs])
    next
      case (Some v)
      obtain i m where v: "v = (i, m)" by (cases v)
      note n = next_victim_Some [OF Some [unfolded v]]
      have "drop (i - c) (drop c (sq_queued q)) = sq_queued q ! i # drop (Suc i) (sq_queued q)"
        using n by (simp add: Cons_nth_drop_Suc)
      with append_take_drop_id [of "i - c" "drop c (sq_queued q)"]
      have "drop c (sq_queued q) = take (i - c) (drop c (sq_queued q)) @ sq_queued q ! i # drop (Suc i) (sq_queued q)" by simp
      from arg_cong [OF this, of "\<lambda>xs. length (filter content_event xs)"] n
      have len: "length (filter content_event (drop c (sq_queued q))) \<ge> Suc (length (filter content_event (drop (Suc i) (sq_queued q))))"
        unfolding filter_append length_append by simp
      show ?thesis
      proof (cases "\<exists>a b. BudgetUsage_checked_add rel (metadata_usage m) = Some a \<and> BudgetUsage_checked_add relc (metadata_usage m) = Some b")
        case True
        then obtain a b where ab: "BudgetUsage_checked_add rel (metadata_usage m) = Some a"
          "BudgetUsage_checked_add relc (metadata_usage m) = Some b" by blast
        have r: "find_room runtime q incoming incoming_content (vs @ [v]) a b (fst v + 1) failed' cells' = r"
          using 1(2) Inr fc Some v ab by (simp add: find_room.simps [of _ _ _ _ vs])
        from 1(1) [OF Inr fc [symmetric] Some refl, of a b, OF _ _ r] ab v len one 1(3) show ?thesis by fastforce
      next
        case False
        with 1(2) Inr fc Some v have "r = Panicked"
          by (auto simp: find_room.simps [of _ _ _ _ vs] split: option.splits)
        then show ?thesis by simp
      qed
    qed
  qed
qed

lemma discard_answers:
  assumes ok: "sink_ok q" and c: "cells \<noteq> []" "\<forall>cell \<in> set cells. sq_total_usage q \<le> unpack cell \<and> fits_within (unpack cell) runtime"
  shows "\<exists>ds q' change. discard_queued_locked runtime cells q = Returned (Inr ds, q', change)"
proof -
  from c obtain cell rest where cells: "cells = cell # rest" by (cases cells) auto
  let ?a = "metas_usage (active_metas q)"
  have a: "?a \<le> sq_total_usage q" using ok by (simp add: sink_ok_def owned_split add.commute)
  have "sq_total_usage q - ?a \<le> unpack cell" "fits_within (unpack cell) runtime"
    using c(2) cells by (auto simp: less_eq_BudgetUsage_def minus_BudgetUsage_def)
  from try_replace_release [OF this] obtain c' u where "try_replace_at runtime (sq_total_usage q - ?a) 0 cell = (Inr u, c')" by blast
  with a show ?thesis
    by (simp add: discard_queued_locked_def Let_def callback_usage_active checked_sub_usage cells)
qed

lemma terminalize_answers:
  assumes "sink_ok q" "cells \<noteq> []" "\<forall>cell \<in> set cells. sq_total_usage q \<le> unpack cell \<and> fits_within (unpack cell) runtime"
  shows "\<exists>x. terminalize_locked runtime cells q event = Returned x"
  using discard_answers [OF assms] by (auto simp: terminalize_locked_def Let_def)

subsection \<open>Properties\<close>

text \<open>
  C32. The sinks never exceed their budget and never lose track of it. Whatever events arrive and
  however the operations of the sinks interleave, the shared cell holds exactly the sum of what the
  sinks' queues and running callbacks take, within both limits of the Runtime; every queue's own
  totals are those of its events, its content leaves the structural reserve free, and when the
  last sink is dropped the whole budget is free again.
\<close>

theorem sinks_share_budget:
  assumes "(sink_step runtime)\<^sup>*\<^sup>* sinks_init s"
  shows "unpack (ss_cell s) = sum_list (map (\<lambda>q. metas_usage (owned q)) (ss_queues s)) \<and>
    fits_within (unpack (ss_cell s)) runtime \<and> (ss_queues s = [] \<longrightarrow> unpack (ss_cell s) = 0) \<and>
    (\<forall>q \<in> set (ss_queues s). sq_total_usage q = metas_usage (owned q) \<and>
       fits_within (metas_usage (owned q)) (sl_total (sq_limits q)) \<and>
       fits_within (metas_usage (filter content_meta (owned q))) (sl_content (sq_limits q)))"
proof -
  note inv = sinks_reachable_budget [OF assms]
  then have ok: "sink_ok q" if "q \<in> set (ss_queues s)" for q using that by (simp add: budget_inv_def list_all_iff)
  have m: "sum_list (map sq_total_usage (ss_queues s)) = (\<Sum>q\<leftarrow>ss_queues s. metas_usage (owned q))"
    using ok by (simp add: sink_ok_def cong: map_cong)
  from inv have "unpack (ss_cell s) = sum_list (map sq_total_usage (ss_queues s))" "fits_within (unpack (ss_cell s)) runtime"
    unfolding budget_inv_def by blast+
  moreover have "sq_total_usage q = metas_usage (owned q) \<and> fits_within (metas_usage (owned q)) (sl_total (sq_limits q)) \<and>
      fits_within (metas_usage (filter content_meta (owned q))) (sl_content (sq_limits q))" if "q \<in> set (ss_queues s)" for q
    using ok [OF that] by (auto simp: sink_ok_def)
  ultimately show ?thesis using m by auto
qed



text \<open>One sink that is offered one event and hands it to its callback.\<close>

definition sample_room :: BudgetLimits where "sample_room = BudgetLimits 4 100"

definition sample_limits :: SinkQueueLimits where
  "sample_limits = \<lparr> sl_total = BudgetLimits 3 90, sl_structural_reserve = BudgetUsage 1 20, sl_content = BudgetLimits 2 70 \<rparr>"

definition sample_offer :: "nat QueueEvent" where
  "sample_offer = \<lparr> qe_item = 5, qe_metadata = \<lparr> md_event_kind = DiagnosticEventKind.SpanStarted, md_encoded_bytes = 30, md_class = ContentClass \<rparr> \<rparr>"

definition sample_sink :: "nat SinkQueue" where
  "sample_sink = \<lparr> sq_limits = sample_limits, sq_queued = [stored sample_offer], sq_active_callback = None,
     sq_total_usage = BudgetUsage 1 30, sq_content_usage = BudgetUsage 1 30, sq_terminal_reason = None,
     sq_next_ticket = 1, sq_drops = DropLedger_new \<rparr>"

definition sample_sinks :: "nat sinks" where
  "sample_sinks = \<lparr> ss_cell = 0x10000001E, ss_queues = [sample_sink],
     ss_logs = [\<lparr> lg_offered = [sample_offer], lg_delivered = [], lg_dropped = [] \<rparr>] \<rparr>"

lemma sample_cell: "pack (BudgetUsage 1 30) = Some 0x10000001E" "unpack 0x10000001E = BudgetUsage 1 30"
proof -
  show p: "pack (BudgetUsage 1 30) = Some 0x10000001E" by (simp add: pack_def)
  show "unpack 0x10000001E = BudgetUsage 1 30" by (rule unpack_pack [OF p])
qed

lemma sample_exchange: "try_replace_at sample_room 0 (BudgetUsage 1 30) 0 = (Inr (BudgetUsage 1 30), 0x10000001E)"
  using sample_cell by (simp add: try_replace_at_Inr sample_room_def fits_within_def) (simp add: usage_defs pack_def)

lemma sample_admit:
  "try_admit sample_room False [0] (SinkQueue_with_limits sample_limits) sample_offer
     = Returned (Enqueued [], sample_sink, Some (0, 0x10000001E))"
proof -
  have u: "metadata_usage (qe_metadata sample_offer) = BudgetUsage 1 30" "md_class (qe_metadata sample_offer) = ContentClass"
    by (simp_all add: sample_offer_def metadata_usage_def)
  have "search_room sample_room (SinkQueue_with_limits sample_limits) sample_offer [0]
      = Returned (Fits [] (BudgetUsage 1 30) (BudgetUsage 1 30) (0, 0x10000001E))"
    using sample_exchange u
    by (simp add: find_room.simps room_test_def Let_def SinkQueue_with_limits_def checked_sub_usage BudgetUsage_checked_add_def
        checked_add_def fits_within_def sample_limits_def) (simp add: usage_defs)
  then show ?thesis
    using u unfolding try_admit_def Let_def
    by (simp add: SinkQueue_with_limits_def sample_limits_def fits_within_def sample_sink_def stored_def DropLedger_record_all_def)
qed

lemma sample_sinks_reachable: "(sink_step sample_room)\<^sup>*\<^sup>* sinks_init sample_sinks"
proof -
  have r: "sink_step sample_room sinks_init (sinks_init\<lparr> ss_queues := ss_queues sinks_init @ [SinkQueue_with_limits sample_limits],
      ss_logs := ss_logs sinks_init @ [\<lparr> lg_offered = [], lg_delivered = [], lg_dropped = [] \<rparr>] \<rparr>)" (is "sink_step _ _ ?s")
    by (rule sink_step.register [of "BudgetUsage 3 90" "BudgetUsage 1 20"])
      (simp_all add: SinkQueueLimits_new_def BudgetUsage_checked_sub_def checked_sub_def sample_limits_def)
  have "sink_step sample_room ?s (put ?s 0 0x10000001E sample_sink (log_admit sample_offer (Enqueued []) (ss_logs ?s ! 0)))"
    using sample_admit
    by (intro sink_step.admit [where contended = False and cells = "[0]" and change = "Some (0, 0x10000001E)"])
      (simp_all add: sinks_init_def exchanged_def)
  moreover have "put ?s 0 0x10000001E sample_sink (log_admit sample_offer (Enqueued []) (ss_logs ?s ! 0)) = sample_sinks"
    by (simp add: put_def sinks_init_def log_admit_def sample_sinks_def)
  ultimately have "sink_step sample_room ?s sample_sinks" by metis
  with r show ?thesis by (rule converse_rtranclp_into_rtranclp [OF _ r_into_rtranclp])
qed

theorem sinks_share_budget_witness: "unpack (ss_cell sample_sinks) = metas_usage (owned sample_sink)"
  using sinks_share_budget [OF sample_sinks_reachable] by (simp add: sample_sinks_def)



end
