(* ===== verification/Sink_Dispatch.thy ===== *)
theory Sink_Dispatch
  imports Sinks
begin

section \<open>Delivery to the callback of a sink\<close>

text \<open>
  The parts of a sink around its queue that the callback thread works on: the facts of a failed
  callback (\<^verbatim>\<open>callback.rs\<close>), the dispatch state of one sink and the bridge methods the
  driver calls for it (\<^verbatim>\<open>dispatcher.rs\<close>), and the summary a closed sink leaves
  (\<^verbatim>\<open>summary.rs\<close>).

  A method that other threads can observe half done is cut where they can: each definition here is
  what runs between two such points. The two maps of the bridge are reduced to the entry of one sink,
  which stays registered. An observer that is told of a failure is the list of what it was told.
\<close>

subsection \<open>Failures of a callback\<close>

abbreviation EXCEPTION_TYPE_MAX_BYTES :: usize where "EXCEPTION_TYPE_MAX_BYTES \<equiv> 256"
abbreviation EXCEPTION_MESSAGE_MAX_BYTES :: usize where "EXCEPTION_MESSAGE_MAX_BYTES \<equiv> 4 * 1024"

datatype CallbackFailureKind = Raised | InvalidReturn

fun CallbackFailureKind_as_str :: "CallbackFailureKind \<Rightarrow> string" where
  "CallbackFailureKind_as_str Raised = ''raised''"
| "CallbackFailureKind_as_str InvalidReturn = ''invalid_return''"

record CallbackFailure =
  cf_kind :: CallbackFailureKind
  cf_event_sequence :: u64
  cf_exception_type :: "bytes option"
  cf_message :: "bytes option"
  cf_message_truncated :: bool

text \<open>The text of an exception is its UTF-8 bytes. A position is a boundary of the text if it is one of the two ends
  or does not stand before a continuation byte; position 0 is one, so the loop ends there at the latest.\<close>

definition is_char_boundary :: "bytes \<Rightarrow> nat \<Rightarrow> bool" where
  "is_char_boundary s i \<longleftrightarrow> i = 0 \<or> i = length s \<or> i < length s \<and> \<not> (0x80 \<le> s ! i \<and> s ! i < 0xC0)"

function last_boundary :: "bytes \<Rightarrow> nat \<Rightarrow> nat" where
  "last_boundary s boundary = (if is_char_boundary s boundary then boundary else last_boundary s (boundary - 1))"
  by pat_completeness auto

termination last_boundary
  by (relation "measure snd") (auto simp: is_char_boundary_def)

declare last_boundary.simps [simp del]

definition truncate_utf8 :: "bytes \<Rightarrow> usize \<Rightarrow> bytes \<times> bool" where
  "truncate_utf8 s max_bytes =
     (if length s \<le> max_bytes then (s, False) else (take (last_boundary s max_bytes) s, True))"

text \<open>What Python gives for an exception: the qualified name of its type and its text, each if it can be read.
  \<open>base_exception\<close> is the UTF-8 text \<^verbatim>\<open>BaseException\<close>.\<close>

definition base_exception :: bytes where
  "base_exception = map (\<lambda>c. of_nat (of_char c)) ''BaseException''"

definition CallbackFailure_raised :: "u64 \<Rightarrow> bytes option \<Rightarrow> bytes option \<Rightarrow> CallbackFailure" where
  "CallbackFailure_raised seq qualname message =
     (let exception_type = (case qualname of Some name \<Rightarrow> name | None \<Rightarrow> base_exception);
          exception_type = fst (truncate_utf8 exception_type EXCEPTION_TYPE_MAX_BYTES);
          (message, message_truncated) = (case message of
              Some message \<Rightarrow>
                (case truncate_utf8 message EXCEPTION_MESSAGE_MAX_BYTES of (message, truncated) \<Rightarrow> (Some message, truncated))
            | None \<Rightarrow> (None, False)) in
      \<lparr> cf_kind = Raised, cf_event_sequence = seq, cf_exception_type = Some exception_type,
        cf_message = message, cf_message_truncated = message_truncated \<rparr>)"

definition CallbackFailure_invalid_return :: "u64 \<Rightarrow> CallbackFailure" where
  "CallbackFailure_invalid_return seq =
     \<lparr> cf_kind = InvalidReturn, cf_event_sequence = seq, cf_exception_type = None, cf_message = None,
       cf_message_truncated = False \<rparr>"

lemma last_boundary_le: "last_boundary s n \<le> n"
  by (induction s n rule: last_boundary.induct) (subst last_boundary.simps, fastforce)

lemma last_boundary_boundary: "is_char_boundary s (last_boundary s n)"
  by (induction s n rule: last_boundary.induct) (subst last_boundary.simps, auto)

lemma last_boundary_greatest: "last_boundary s n < i \<Longrightarrow> i \<le> n \<Longrightarrow> \<not> is_char_boundary s i"
proof (induction s n rule: last_boundary.induct)
  case (1 s n)
  show ?case
  proof (cases "is_char_boundary s n")
    case True
    with "1.prems" show ?thesis by (subst (asm) last_boundary.simps) simp
  next
    case False
    with "1.prems" have "last_boundary s (n - 1) < i" by (subst (asm) last_boundary.simps) simp
    with "1.IH" [OF False] "1.prems" False show ?thesis by (cases "i = n") auto
  qed
qed

lemma is_char_boundary_end [simp]: "is_char_boundary s (length s)"
  by (simp add: is_char_boundary_def)

lemma truncate_utf8_spec:
  "truncate_utf8 s m = (t, truncated) \<Longrightarrow> length t \<le> m \<and> (\<exists>rest. s = t @ rest) \<and> (truncated \<longleftrightarrow> t \<noteq> s) \<and> is_char_boundary s (length t) \<and>
    (truncated \<longrightarrow> (\<forall>i \<in> {length t <.. m}. \<not> is_char_boundary s i))"
  using last_boundary_le [of s m] last_boundary_boundary [of s m] last_boundary_greatest [of s m]
  by (auto simp: truncate_utf8_def min_absorb2 split: if_splits
      intro: exI [of _ "drop (last_boundary s m) s"])

subsection \<open>The summary of a closed sink\<close>

datatype ActOutcome = ActCompleted | ActCancelled | ActFailed

fun ActOutcome_as_str :: "ActOutcome \<Rightarrow> string" where
  "ActOutcome_as_str ActCompleted = ''completed''"
| "ActOutcome_as_str ActCancelled = ''cancelled''"
| "ActOutcome_as_str ActFailed = ''failed''"

datatype SinkCloseReason = ClosedActFinished | ClosedCallbackFailed | ClosedDeliveryOverflow | ClosedRuntimeShutdown

fun SinkCloseReason_as_str :: "SinkCloseReason \<Rightarrow> string" where
  "SinkCloseReason_as_str ClosedActFinished = ''act_finished''"
| "SinkCloseReason_as_str ClosedCallbackFailed = ''callback_failed''"
| "SinkCloseReason_as_str ClosedDeliveryOverflow = ''delivery_overflow''"
| "SinkCloseReason_as_str ClosedRuntimeShutdown = ''runtime_shutdown''"

record SinkDropCount =
  sdc_event_kind :: DiagnosticEventKind
  sdc_events :: usize
  sdc_encoded_bytes :: usize

definition SinkDropCount_from_delta :: "DropDelta \<Rightarrow> SinkDropCount" where
  "SinkDropCount_from_delta delta =
     \<lparr> sdc_event_kind = dd_event_kind delta, sdc_events = dd_events delta, sdc_encoded_bytes = dd_encoded_bytes delta \<rparr>"

record DeliveryProgress =
  dp_delivered_events :: usize
  dp_first_delivered_sequence :: "u64 option"
  dp_last_delivered_sequence :: "u64 option"

record SinkDeliverySummary =
  sum_run_id :: canonical_uuid
  sum_act_id :: run_local_id
  sum_act_outcome :: "ActOutcome option"
  sum_close_reason :: SinkCloseReason
  sum_complete :: bool
  sum_delivered_events :: usize
  sum_first_delivered_sequence :: "u64 option"
  sum_last_delivered_sequence :: "u64 option"
  sum_dropped_events :: usize
  sum_dropped_bytes :: usize
  sum_dropped_by_kind :: "SinkDropCount list"
  sum_source_gaps :: usize
  sum_truncated_payloads :: usize
  sum_callback_failure :: "CallbackFailure option"
  sum_callback_abandoned :: bool

definition from_delivery_facts ::
  "canonical_uuid \<Rightarrow> run_local_id \<Rightarrow> ActOutcome option \<Rightarrow> SinkCloseReason \<Rightarrow> DeliveryProgress \<Rightarrow> DropDelta list \<Rightarrow> usize \<Rightarrow> usize \<Rightarrow>
   CallbackFailure option \<Rightarrow> bool \<Rightarrow> bool \<Rightarrow> SinkDeliverySummary" where
  "from_delivery_facts run_id act_id act_outcome nominal_close_reason delivery drops source_gaps truncated_payloads
     callback_failure callback_abandoned unexpected_dispatcher_failure =
     (let close_reason = (if callback_failure \<noteq> None then ClosedCallbackFailed else nominal_close_reason);
          callback_abandoned = (callback_abandoned \<and> callback_failure = None);
          dropped_by_kind = map SinkDropCount_from_delta drops;
          dropped_events = foldl (\<lambda>total count. saturating_add total (sdc_events count)) 0 dropped_by_kind;
          dropped_bytes = foldl (\<lambda>total count. saturating_add total (sdc_encoded_bytes count)) 0 dropped_by_kind;
          complete = (close_reason = ClosedActFinished \<and> dropped_events = 0 \<and> source_gaps = 0 \<and> truncated_payloads = 0 \<and>
            callback_failure = None \<and> \<not> callback_abandoned \<and> \<not> unexpected_dispatcher_failure) in
      \<lparr> sum_run_id = run_id, sum_act_id = act_id, sum_act_outcome = act_outcome, sum_close_reason = close_reason,
        sum_complete = complete, sum_delivered_events = dp_delivered_events delivery,
        sum_first_delivered_sequence = dp_first_delivered_sequence delivery,
        sum_last_delivered_sequence = dp_last_delivered_sequence delivery, sum_dropped_events = dropped_events,
        sum_dropped_bytes = dropped_bytes, sum_dropped_by_kind = dropped_by_kind, sum_source_gaps = source_gaps,
        sum_truncated_payloads = truncated_payloads, sum_callback_failure = callback_failure,
        sum_callback_abandoned = callback_abandoned \<rparr>)"

subsection \<open>The dispatch state of a sink\<close>

record 'v DispatchEvent =
  de_sequence :: u64
  de_value :: 'v

text \<open>\<open>None\<close> is the failed assertion of \<^verbatim>\<open>DispatchEvent::new\<close>.\<close>

definition DispatchEvent_new :: "u64 \<Rightarrow> 'v \<Rightarrow> 'v DispatchEvent option" where
  "DispatchEvent_new seq v = (if seq \<noteq> 0 then Some \<lparr> de_sequence = seq, de_value = v \<rparr> else None)"

text \<open>Of a failure of the dispatcher itself the stage is kept, not the text for people.\<close>

record UnexpectedDispatcherFailure =
  uf_stage :: string

datatype SinkDeliveryFailure = CallbackDeliveryFailure CallbackFailure | UnexpectedDeliveryFailure UnexpectedDispatcherFailure

record 'v SinkDispatchState =
  sd_id :: u64
  sd_queue :: "'v DispatchEvent SinkQueue"
  sd_callback_failure :: "CallbackFailure option"
  sd_unexpected_failure :: "UnexpectedDispatcherFailure option"
  sd_failure_observer :: "SinkDeliveryFailure list option"
  sd_callback_failure_notified :: bool
  sd_unexpected_failure_notified :: bool
  sd_delivery_settling :: bool
  sd_runtime_cancel_requested :: bool
  sd_delivered_events :: usize
  sd_first_delivered_sequence :: u64
  sd_last_delivered_sequence :: u64
  sd_last_enqueued_sequence :: u64

definition SinkDispatcher_new :: "u64 \<Rightarrow> SinkQueueLimits \<Rightarrow> 'v SinkDispatchState" where
  "SinkDispatcher_new sink_id limits =
     \<lparr> sd_id = sink_id, sd_queue = SinkQueue_with_limits limits, sd_callback_failure = None, sd_unexpected_failure = None,
       sd_failure_observer = None, sd_callback_failure_notified = False, sd_unexpected_failure_notified = False,
       sd_delivery_settling = False, sd_runtime_cancel_requested = False, sd_delivered_events = 0,
       sd_first_delivered_sequence = 0, sd_last_delivered_sequence = 0, sd_last_enqueued_sequence = 0 \<rparr>"

definition is_stopped :: "'v SinkDispatchState \<Rightarrow> bool" where
  "is_stopped s \<longleftrightarrow> sd_callback_failure s \<noteq> None \<or> sd_unexpected_failure s \<noteq> None"

definition notify_callback_failure :: "'v SinkDispatchState \<Rightarrow> 'v SinkDispatchState" where
  "notify_callback_failure s =
     (case sd_failure_observer s of
        None \<Rightarrow> s
      | Some told \<Rightarrow>
          (case sd_callback_failure s of
             None \<Rightarrow> s
           | Some failure \<Rightarrow>
               if sd_callback_failure_notified s then s
               else s\<lparr> sd_callback_failure_notified := True,
                       sd_failure_observer := Some (told @ [CallbackDeliveryFailure failure]) \<rparr>))"

definition notify_unexpected_failure :: "'v SinkDispatchState \<Rightarrow> 'v SinkDispatchState" where
  "notify_unexpected_failure s =
     (case sd_failure_observer s of
        None \<Rightarrow> s
      | Some told \<Rightarrow>
          (case sd_unexpected_failure s of
             None \<Rightarrow> s
           | Some failure \<Rightarrow>
               if sd_unexpected_failure_notified s then s
               else s\<lparr> sd_unexpected_failure_notified := True,
                       sd_failure_observer := Some (told @ [UnexpectedDeliveryFailure failure]) \<rparr>))"

definition record_callback_failure :: "CallbackFailure \<Rightarrow> 'v SinkDispatchState \<Rightarrow> 'v SinkDispatchState" where
  "record_callback_failure failure s =
     (if sd_callback_failure s = None then notify_callback_failure (s\<lparr> sd_callback_failure := Some failure \<rparr>) else s)"

definition record_unexpected_failure :: "string \<Rightarrow> 'v SinkDispatchState \<Rightarrow> 'v SinkDispatchState" where
  "record_unexpected_failure stage s =
     (if sd_unexpected_failure s = None
      then notify_unexpected_failure (s\<lparr> sd_unexpected_failure := Some \<lparr> uf_stage = stage \<rparr> \<rparr>)
      else s)"

text \<open>\<open>False\<close> is \<^verbatim>\<open>SinkDeliveryFailureObserverInstallError\<close>: an observer is installed already.\<close>

definition install_failure_observer :: "'v SinkDispatchState \<Rightarrow> bool \<times> 'v SinkDispatchState" where
  "install_failure_observer s =
     (if sd_failure_observer s \<noteq> None then (False, s)
      else (True, notify_unexpected_failure (notify_callback_failure (s\<lparr> sd_failure_observer := Some [] \<rparr>))))"

definition record_delivery :: "u64 \<Rightarrow> 'v SinkDispatchState \<Rightarrow> 'v SinkDispatchState" where
  "record_delivery seq s =
     s\<lparr> sd_first_delivered_sequence := (if sd_first_delivered_sequence s = 0 then seq else sd_first_delivered_sequence s),
        sd_last_delivered_sequence := seq,
        sd_delivered_events := (sd_delivered_events s + 1) mod 2 ^ 64 \<rparr>"

definition begin_delivery_settlement :: "'v SinkDispatchState \<Rightarrow> 'v SinkDispatchState" where
  "begin_delivery_settlement s = s\<lparr> sd_delivery_settling := True \<rparr>"

definition drop_delivery_settlement :: "'v SinkDispatchState \<Rightarrow> 'v SinkDispatchState" where
  "drop_delivery_settlement s = s\<lparr> sd_delivery_settling := False \<rparr>"

definition request_runtime_cancel :: "'v SinkDispatchState \<Rightarrow> 'v SinkDispatchState" where
  "request_runtime_cancel s = s\<lparr> sd_runtime_cancel_requested := True \<rparr>"

definition record_enqueue_sequence :: "u64 \<Rightarrow> 'v SinkDispatchState \<Rightarrow> 'v SinkDispatchState" where
  "record_enqueue_sequence seq s =
     (if sd_last_enqueued_sequence s < seq then s\<lparr> sd_last_enqueued_sequence := seq \<rparr>
      else record_unexpected_failure ''enqueue_sequence'' s)"

definition delivery_progress :: "'v SinkDispatchState \<Rightarrow> DeliveryProgress" where
  "delivery_progress s =
     (let first_seq = sd_first_delivered_sequence s; last_seq = sd_last_delivered_sequence s in
      \<lparr> dp_delivered_events = sd_delivered_events s,
        dp_first_delivered_sequence = (if first_seq \<noteq> 0 then Some first_seq else None),
        dp_last_delivered_sequence = (if last_seq \<noteq> 0 then Some last_seq else None) \<rparr>)"

subsection \<open>The bridge\<close>

text \<open>The status codes of the bridge; the entry of the sink in the map of active callbacks is its ticket and sequence.\<close>

datatype complete_status = COMPLETE_RETRY | COMPLETE_DONE | COMPLETE_STOP

type_synonym bridge_active = "(u64 \<times> u64) option"

definition complete_active ::
  "BudgetLimits \<Rightarrow> bool \<Rightarrow> u64 \<Rightarrow> bridge_active \<Rightarrow> 'v SinkDispatchState \<Rightarrow> complete_status \<times> bridge_active \<times> 'v SinkDispatchState" where
  "complete_active runtime contended cell active s =
     (case active of
        None \<Rightarrow> (COMPLETE_STOP, active, record_unexpected_failure ''callback_complete'' s)
      | Some (ticket, _) \<Rightarrow>
          (case try_complete_callback runtime contended cell ticket (sd_queue s) of
             (Inr _, q, _) \<Rightarrow> (COMPLETE_DONE, None, s\<lparr> sd_queue := q \<rparr>)
           | (Inl Contended, q, _) \<Rightarrow> (COMPLETE_RETRY, active, s\<lparr> sd_queue := q \<rparr>)
           | (Inl err, q, _) \<Rightarrow>
               (COMPLETE_STOP, active,
                record_unexpected_failure ''callback_complete'' (s\<lparr> sd_queue := q \<rparr>))))"

text \<open>The second half of \<^verbatim>\<open>_next_dispatch\<close>, after the test that the sink has not stopped: the event handed out.\<close>

definition next_dispatch ::
  "bool \<Rightarrow> bridge_active \<Rightarrow> 'v SinkDispatchState \<Rightarrow> 'v DispatchEvent option \<times> bridge_active \<times> 'v SinkDispatchState" where
  "next_dispatch contended active s =
     (case try_begin_callback contended (sd_queue s) of
        (Inr (Some delivery), q) \<Rightarrow>
          let s = s\<lparr> sd_queue := q \<rparr>; next_active = Some (cd_ticket delivery, de_sequence (cd_item delivery)) in
          if active \<noteq> None
          then (None, next_active, record_unexpected_failure ''callback_begin'' s)
          else (Some (cd_item delivery), next_active, s)
      | (Inr None, q) \<Rightarrow> (None, active, s\<lparr> sd_queue := q \<rparr>)
      | (Inl Contended, q) \<Rightarrow> (None, active, s\<lparr> sd_queue := q \<rparr>)
      | (Inl err, q) \<Rightarrow>
          (None, active, record_unexpected_failure ''callback_begin'' (s\<lparr> sd_queue := q \<rparr>)))"

end
