(* ===== verification/Sink_Lifecycle.thy ===== *)
theory Sink_Lifecycle
  imports Sink_Dispatch
begin

section \<open>The life of a sink\<close>

text \<open>
  Opening, sealing and closing a sink (\<^verbatim>\<open>seal.rs\<close>) while its callback is driven on the
  diagnostic thread (\<^verbatim>\<open>dispatcher.rs\<close> and the driver in \<^verbatim>\<open>callback.rs\<close>).

  The sink is shared by any number of threads. Each call of a method is a thread with a program counter;
  one step is one access to the shared state (a load, a store, a compare-exchange, an operation under the
  lock of the queue), so that every interleaving of the accesses is a run of the system. The task that
  drives the callback is one more thread. The atomics are sequentially consistent in the model. Three
  methods are one step although they are a few accesses: telling the observer of a failure, recording a
  delivery (guarded by the settling flag), and reading the facts of the summary (the phase
  \<open>CLOSING\<close> is exclusive, and the numbers are final unless the Runtime gives the sink up).

  A queue operation is told whether its lock is taken and which values the shared budget cell has;
  both are free in every step. The log of a sink records what was offered, handed to the callback
  and lost; \<open>sy_settled\<close> the sequences of the events whose callback returned.
\<close>

subsection \<open>Data\<close>

text \<open>The phase is a number in the code; only these five are ever stored.\<close>

datatype sink_phase = OPEN | SEALING | SEALED | CLOSING | CLOSED

datatype SinkSealCause = SealActFinished | SealRuntimeShutdown

record SinkSealFacts =
  sf_cause :: SinkSealCause
  sf_act_outcome :: "ActOutcome option"

definition SinkSealFacts_act_finished :: "ActOutcome \<Rightarrow> SinkSealFacts" where
  "SinkSealFacts_act_finished act_outcome = \<lparr> sf_cause = SealActFinished, sf_act_outcome = Some act_outcome \<rparr>"

definition SinkSealFacts_runtime_shutdown :: "ActOutcome option \<Rightarrow> SinkSealFacts" where
  "SinkSealFacts_runtime_shutdown act_outcome = \<lparr> sf_cause = SealRuntimeShutdown, sf_act_outcome = act_outcome \<rparr>"

definition nominal_close_reason :: "SinkSealFacts \<Rightarrow> SinkCloseReason" where
  "nominal_close_reason facts =
     (case sf_cause facts of SealActFinished \<Rightarrow> ClosedActFinished | SealRuntimeShutdown \<Rightarrow> ClosedRuntimeShutdown)"

datatype SinkSealError = TerminalNotAccounted | AlreadySealed

datatype SinkEnqueueRejection = RejectedSealed | RejectedClosed

datatype SinkCloseError = NotSealed | CloseQueueError QueueAccessError

datatype SinkClosePoll = ClosePending | CloseClosed SinkDeliverySummary

record 'v SinkLifecycle =
  lc_run_id :: canonical_uuid
  lc_act_id :: run_local_id
  lc_dispatcher :: "'v SinkDispatchState"
  lc_phase :: sink_phase
  lc_active_enqueues :: usize
  lc_terminal_accounted :: bool
  lc_seal_facts :: "SinkSealFacts option"
  lc_source_gaps :: usize
  lc_truncated_payloads :: usize
  lc_summary :: "SinkDeliverySummary option"

definition SinkHandle_new :: "canonical_uuid \<Rightarrow> run_local_id \<Rightarrow> 'v SinkDispatchState \<Rightarrow> 'v SinkLifecycle" where
  "SinkHandle_new run_id act_id dispatcher =
     \<lparr> lc_run_id = run_id, lc_act_id = act_id, lc_dispatcher = dispatcher, lc_phase = OPEN, lc_active_enqueues = 0,
       lc_terminal_accounted = False, lc_seal_facts = None, lc_source_gaps = 0, lc_truncated_payloads = 0,
       lc_summary = None \<rparr>"

abbreviation lc_queue :: "'v SinkLifecycle \<Rightarrow> 'v DispatchEvent SinkQueue" where
  "lc_queue lc \<equiv> sd_queue (lc_dispatcher lc)"

definition set_queue :: "'v DispatchEvent SinkQueue \<Rightarrow> 'v SinkLifecycle \<Rightarrow> 'v SinkLifecycle" where
  "set_queue q lc = lc\<lparr> lc_dispatcher := (lc_dispatcher lc)\<lparr> sd_queue := q \<rparr> \<rparr>"

subsection \<open>Calls that add to the sink\<close>

datatype 'v enqueue_call =
    TryEnqueue "'v DispatchEvent" DiagnosticEventKind usize AdmissionClass
  | TryEnqueueTerminal "'v DispatchEvent" DiagnosticEventKind usize
  | RecordSourceGaps usize
  | RecordTruncatedPayloads usize

datatype enqueue_result = EnqueueRejected SinkEnqueueRejection | EnqueueAdmitted AdmissionOutcome | EnqueueRecorded | EnqueuePanicked

text \<open>Where a call is: the five accesses of \<^verbatim>\<open>begin_enqueue\<close>, the work under the guard, and the release of it.\<close>

datatype enqueue_pc =
    LoadPhase | LoadTerminal | CountIn | ReloadPhase | ReloadTerminal
  | Guarded | Numbering | Admitting | Admitted AdmissionOutcome
  | Leaving enqueue_result | Left enqueue_result

fun enqueue_rejection :: "sink_phase \<Rightarrow> enqueue_result" where
  "enqueue_rejection OPEN = EnqueuePanicked"
| "enqueue_rejection SEALING = EnqueueRejected RejectedSealed"
| "enqueue_rejection SEALED = EnqueueRejected RejectedSealed"
| "enqueue_rejection CLOSING = EnqueueRejected RejectedClosed"
| "enqueue_rejection CLOSED = EnqueueRejected RejectedClosed"

fun offered_event :: "'v enqueue_call \<Rightarrow> 'v DispatchEvent QueueEvent option" where
  "offered_event (TryEnqueue event kind n cls) =
     Some \<lparr> qe_item = event, qe_metadata = \<lparr> md_event_kind = kind, md_encoded_bytes = n, md_class = cls \<rparr> \<rparr>"
| "offered_event (TryEnqueueTerminal event kind n) =
     Some \<lparr> qe_item = event, qe_metadata = \<lparr> md_event_kind = kind, md_encoded_bytes = n, md_class = StructuralClass \<rparr> \<rparr>"
| "offered_event _ = None"

definition number_event :: "'v DispatchEvent \<Rightarrow> 'v SinkLifecycle \<Rightarrow> 'v SinkLifecycle" where
  "number_event event lc = lc\<lparr> lc_dispatcher := record_enqueue_sequence (de_sequence event) (lc_dispatcher lc) \<rparr>"

text \<open>\<^verbatim>\<open>begin_enqueue\<close>, access by access.\<close>

fun begin_enqueue :: "enqueue_pc \<Rightarrow> 'v SinkLifecycle \<Rightarrow> enqueue_pc \<times> 'v SinkLifecycle" where
  "begin_enqueue LoadPhase lc = (if lc_phase lc \<noteq> OPEN then Left (enqueue_rejection (lc_phase lc)) else LoadTerminal, lc)"
| "begin_enqueue LoadTerminal lc = (if lc_terminal_accounted lc then Left (EnqueueRejected RejectedSealed) else CountIn, lc)"
| "begin_enqueue CountIn lc = (ReloadPhase, lc\<lparr> lc_active_enqueues := (lc_active_enqueues lc + 1) mod 2 ^ 64 \<rparr>)"
| "begin_enqueue ReloadPhase lc =
     (if lc_phase lc \<noteq> OPEN then Leaving (enqueue_rejection (lc_phase lc)) else ReloadTerminal, lc)"
| "begin_enqueue ReloadTerminal lc = (if lc_terminal_accounted lc then Leaving (EnqueueRejected RejectedSealed) else Guarded, lc)"
| "begin_enqueue pc lc = (pc, lc)"

text \<open>What the guard protects, by method. A \<^verbatim>\<open>None\<close> is an admission without enough values of the cell.\<close>

definition guarded_step ::
  "BudgetLimits \<Rightarrow> bool \<Rightarrow> u64 list \<Rightarrow> 'v enqueue_call \<Rightarrow> enqueue_pc \<Rightarrow> 'v SinkLifecycle \<Rightarrow> 'v DispatchEvent sink_log \<Rightarrow>
   (enqueue_pc \<times> 'v SinkLifecycle \<times> 'v DispatchEvent sink_log) option" where
  "guarded_step runtime contended cells call pc lc lg =
     (case pc of
        Guarded \<Rightarrow>
          (case call of
             TryEnqueue event _ _ _ \<Rightarrow> Some (Admitting, number_event event lc, lg)
           | TryEnqueueTerminal event _ _ \<Rightarrow>
               if lc_terminal_accounted lc then Some (Leaving (EnqueueRejected RejectedSealed), lc, lg)
               else Some (Numbering, lc\<lparr> lc_terminal_accounted := True \<rparr>, lg)
           | RecordSourceGaps n \<Rightarrow>
               Some (Leaving EnqueueRecorded, lc\<lparr> lc_source_gaps := saturating_add (lc_source_gaps lc) n \<rparr>, lg)
           | RecordTruncatedPayloads n \<Rightarrow>
               Some (Leaving EnqueueRecorded, lc\<lparr> lc_truncated_payloads := saturating_add (lc_truncated_payloads lc) n \<rparr>, lg))
      | Numbering \<Rightarrow> map_option (\<lambda>event. (Admitting, number_event (qe_item event) lc, lg)) (offered_event call)
      | Admitting \<Rightarrow>
          (case offered_event call of
             None \<Rightarrow> None
           | Some event \<Rightarrow>
               (case try_admit runtime contended cells (lc_queue lc) event of
                  Returned (out, q, _) \<Rightarrow> Some (Admitted out, set_queue q lc, log_admit event out lg)
                | _ \<Rightarrow> None))
      | Admitted out \<Rightarrow>
          (if is_stopped (lc_dispatcher lc) \<and> (case out of Enqueued _ \<Rightarrow> True | _ \<Rightarrow> False)
           then (case try_discard_queued runtime contended cells (lc_queue lc) of
               Returned (res, q, _) \<Rightarrow> Some (Leaving (EnqueueAdmitted out), set_queue q lc, log_discard res lg)
             | _ \<Rightarrow> None)
           else Some (Leaving (EnqueueAdmitted out), lc, lg))
      | _ \<Rightarrow> None)"

definition enqueue_step ::
  "BudgetLimits \<Rightarrow> bool \<Rightarrow> u64 list \<Rightarrow> 'v enqueue_call \<Rightarrow> enqueue_pc \<Rightarrow> 'v SinkLifecycle \<Rightarrow> 'v DispatchEvent sink_log \<Rightarrow>
   (enqueue_pc \<times> 'v SinkLifecycle \<times> 'v DispatchEvent sink_log) option" where
  "enqueue_step runtime contended cells call pc lc lg =
     (case pc of
        Left _ \<Rightarrow> None
      | Leaving result \<Rightarrow> Some (Left result, lc\<lparr> lc_active_enqueues := wrapping_sub (lc_active_enqueues lc) 1 \<rparr>, lg)
      | _ \<Rightarrow>
          if pc \<in> {LoadPhase, LoadTerminal, CountIn, ReloadPhase, ReloadTerminal}
          then (case begin_enqueue pc lc of (pc', lc') \<Rightarrow> Some (pc', lc', lg))
          else guarded_step runtime contended cells call pc lc lg)"

subsection \<open>Sealing\<close>

datatype seal_pc = SealCheck | SealSwap | SealWaiting | SealDrained | SealLatched | SealReturned "SinkSealError + unit" | SealPanicked

fun seal_step :: "SinkSealFacts \<Rightarrow> seal_pc \<Rightarrow> 'v SinkLifecycle \<Rightarrow> (seal_pc \<times> 'v SinkLifecycle) option" where
  "seal_step facts SealCheck lc =
     Some (if sf_cause facts = SealActFinished \<and> \<not> lc_terminal_accounted lc
       then SealReturned (Inl TerminalNotAccounted) else SealSwap, lc)"
| "seal_step facts SealSwap lc =
     (if lc_phase lc \<noteq> OPEN then Some (SealReturned (Inl AlreadySealed), lc)
      else Some (SealWaiting, lc\<lparr> lc_phase := SEALING \<rparr>))"
| "seal_step facts SealWaiting lc = Some (if lc_active_enqueues lc \<noteq> 0 then SealWaiting else SealDrained, lc)"
| "seal_step facts SealDrained lc =
     (if lc_seal_facts lc \<noteq> None then Some (SealPanicked, lc)
      else Some (SealLatched, lc\<lparr> lc_seal_facts := Some facts \<rparr>))"
| "seal_step facts SealLatched lc = Some (SealReturned (Inr ()), lc\<lparr> lc_phase := SEALED \<rparr>)"
| "seal_step facts (SealReturned _) lc = None"
| "seal_step facts SealPanicked lc = None"

subsection \<open>Closing\<close>

text \<open>\<^verbatim>\<open>latch_summary\<close>: the loop that takes the phase, the facts, the summary and the last store.\<close>

datatype latch_pc =
    LatchLoad SinkCloseReason bool | LatchSwap SinkCloseReason bool | LatchCompute SinkCloseReason bool
  | LatchSet SinkDeliverySummary | LatchStore SinkDeliverySummary
  | Latched SinkDeliverySummary | LatchPanicked

definition compute_summary :: "SinkCloseReason \<Rightarrow> bool \<Rightarrow> SinkSealFacts \<Rightarrow> 'v SinkLifecycle \<Rightarrow> SinkDeliverySummary" where
  "compute_summary nominal abandoned facts lc =
     from_delivery_facts (lc_run_id lc) (lc_act_id lc) (sf_act_outcome facts) nominal (delivery_progress (lc_dispatcher lc))
       (drop_snapshot (lc_queue lc)) (lc_source_gaps lc) (lc_truncated_payloads lc)
       (sd_callback_failure (lc_dispatcher lc)) abandoned (sd_unexpected_failure (lc_dispatcher lc) \<noteq> None)"

fun latch_step :: "latch_pc \<Rightarrow> 'v SinkLifecycle \<Rightarrow> (latch_pc \<times> 'v SinkLifecycle) option" where
  "latch_step (LatchLoad nominal abandoned) lc =
     Some (case lc_phase lc of
         CLOSED \<Rightarrow> (case lc_summary lc of Some summary \<Rightarrow> Latched summary | None \<Rightarrow> LatchPanicked)
       | CLOSING \<Rightarrow> LatchLoad nominal abandoned
       | SEALED \<Rightarrow> LatchSwap nominal abandoned
       | _ \<Rightarrow> LatchPanicked, lc)"
| "latch_step (LatchSwap nominal abandoned) lc =
     (if lc_phase lc = SEALED then Some (LatchCompute nominal abandoned, lc\<lparr> lc_phase := CLOSING \<rparr>)
      else Some (LatchLoad nominal abandoned, lc))"
| "latch_step (LatchCompute nominal abandoned) lc =
     Some (case lc_seal_facts lc of
         None \<Rightarrow> LatchPanicked
       | Some facts \<Rightarrow> LatchSet (compute_summary nominal abandoned facts lc), lc)"
| "latch_step (LatchSet summary) lc =
     (if lc_summary lc \<noteq> None then Some (LatchPanicked, lc) else Some (LatchStore summary, lc\<lparr> lc_summary := Some summary \<rparr>))"
| "latch_step (LatchStore summary) lc = Some (Latched summary, lc\<lparr> lc_phase := CLOSED \<rparr>)"
| "latch_step (Latched _) lc = None"
| "latch_step LatchPanicked lc = None"

text \<open>\<^verbatim>\<open>try_close_drained\<close>: the phase, the snapshot of the queue, the settling flag, the nominal reason.\<close>

datatype close_pc =
    ClosePhase | CloseQueue | CloseSettling QueueSnapshot | CloseNominal QueueSnapshot | CloseLatch latch_pc
  | CloseReturned "SinkCloseError + SinkClosePoll" | ClosePanicked

fun close_step :: "bool \<Rightarrow> close_pc \<Rightarrow> 'v SinkLifecycle \<Rightarrow> (close_pc \<times> 'v SinkLifecycle) option" where
  "close_step contended ClosePhase lc =
     Some (case lc_phase lc of
         CLOSED \<Rightarrow> (case lc_summary lc of Some summary \<Rightarrow> CloseReturned (Inr (CloseClosed summary)) | None \<Rightarrow> ClosePanicked)
       | OPEN \<Rightarrow> CloseReturned (Inl NotSealed)
       | SEALING \<Rightarrow> CloseReturned (Inr ClosePending)
       | CLOSING \<Rightarrow> CloseReturned (Inr ClosePending)
       | SEALED \<Rightarrow> CloseQueue, lc)"
| "close_step contended CloseQueue lc =
     Some (case try_snapshot contended (lc_queue lc) of
         Inl err \<Rightarrow> CloseReturned (Inl (CloseQueueError err))
       | Inr snap \<Rightarrow>
           if qs_queued_events snap \<noteq> 0 \<or> qs_callback_active snap then CloseReturned (Inr ClosePending) else CloseSettling snap, lc)"
| "close_step contended (CloseSettling snap) lc =
     Some (if sd_delivery_settling (lc_dispatcher lc) then CloseReturned (Inr ClosePending) else CloseNominal snap, lc)"
| "close_step contended (CloseNominal snap) lc =
     Some (case qs_terminal_reason snap of
         Some TerminalDeliveryOverflow \<Rightarrow> CloseLatch (LatchLoad ClosedDeliveryOverflow False)
       | None \<Rightarrow>
           if sd_runtime_cancel_requested (lc_dispatcher lc) then CloseLatch (LatchLoad ClosedRuntimeShutdown False)
           else (case lc_seal_facts lc of
               None \<Rightarrow> ClosePanicked | Some facts \<Rightarrow> CloseLatch (LatchLoad (nominal_close_reason facts) False)), lc)"
| "close_step contended (CloseLatch pc) lc =
     (case pc of
        Latched summary \<Rightarrow> Some (CloseReturned (Inr (CloseClosed summary)), lc)
      | LatchPanicked \<Rightarrow> Some (ClosePanicked, lc)
      | _ \<Rightarrow> map_option (\<lambda>(pc, lc). (CloseLatch pc, lc)) (latch_step pc lc))"
| "close_step contended (CloseReturned _) lc = None"
| "close_step contended ClosePanicked lc = None"

text \<open>\<^verbatim>\<open>close_for_runtime_shutdown\<close>.\<close>

datatype shutdown_pc = ShutdownStart | ShutdownQueue | ShutdownLatch latch_pc | ShutdownReturned SinkDeliverySummary | ShutdownPanicked

fun shutdown_step :: "bool \<Rightarrow> bool \<Rightarrow> shutdown_pc \<Rightarrow> 'v SinkLifecycle \<Rightarrow> (shutdown_pc \<times> 'v SinkLifecycle) option" where
  "shutdown_step contended abandoned ShutdownStart lc =
     Some (case lc_summary lc of Some summary \<Rightarrow> ShutdownReturned summary | None \<Rightarrow> ShutdownQueue, lc)"
| "shutdown_step contended abandoned ShutdownQueue lc =
     (let terminal_overflow = (case try_snapshot contended (lc_queue lc) of
            Inr snap \<Rightarrow> qs_terminal_reason snap = Some TerminalDeliveryOverflow | Inl _ \<Rightarrow> False);
          nominal = (if terminal_overflow \<and> \<not> abandoned then ClosedDeliveryOverflow else ClosedRuntimeShutdown) in
      Some (ShutdownLatch (LatchLoad nominal abandoned), lc))"
| "shutdown_step contended abandoned (ShutdownLatch pc) lc =
     (case pc of
        Latched summary \<Rightarrow> Some (ShutdownReturned summary, lc)
      | LatchPanicked \<Rightarrow> Some (ShutdownPanicked, lc)
      | _ \<Rightarrow> map_option (\<lambda>(pc, lc). (ShutdownLatch pc, lc)) (latch_step pc lc))"
| "shutdown_step contended abandoned (ShutdownReturned _) lc = None"
| "shutdown_step contended abandoned ShutdownPanicked lc = None"

definition try_discard_pending ::
  "BudgetLimits \<Rightarrow> bool \<Rightarrow> u64 list \<Rightarrow> 'v SinkLifecycle \<Rightarrow> 'v DispatchEvent sink_log \<Rightarrow>
   ((QueueAccessError + unit) \<times> 'v SinkLifecycle \<times> 'v DispatchEvent sink_log) option" where
  "try_discard_pending runtime contended cells lc lg =
     (case try_discard_queued runtime contended cells (lc_queue lc) of
        Returned (res, q, _) \<Rightarrow> Some (map_sum id (\<lambda>_. ()) res, set_queue q lc, log_discard res lg)
      | _ \<Rightarrow> None)"

subsection \<open>The task that drives the callback\<close>

datatype task_pc =
    TaskPoll | TaskBegin | TaskIdle | TaskSleep | TaskCalling u64
  | TaskSuccess u64 | TaskSettling u64 | TaskCompleted u64 | TaskSettled complete_status u64 | TaskRetry u64
  | TaskFailed | TaskDiscard | TaskFailRetry | TaskEnded

text \<open>How the callback, or a sleep of the task, ends. The exception of a cancellation counts as the Runtime's only if it was
  requested; otherwise it is one the callback raised.\<close>

datatype callback_end = ReturnsNone | ReturnsOther | Raises "bytes option" "bytes option" | Cancelled

text \<open>The task, the entry of the sink in the bridge, and the sequences of the deliveries recorded so far.\<close>

record task_state =
  ts_pc :: task_pc
  ts_active :: bridge_active
  ts_settled :: "u64 list"

fun complete_success_step ::
  "BudgetLimits \<Rightarrow> bool \<Rightarrow> u64 \<Rightarrow> task_pc \<Rightarrow> bridge_active \<Rightarrow> 'v SinkDispatchState \<Rightarrow> task_pc \<times> bridge_active \<times> 'v SinkDispatchState" where
  "complete_success_step runtime contended cell (TaskSuccess seq) active d =
     (if (case active of None \<Rightarrow> True | Some (_, active_seq) \<Rightarrow> active_seq \<noteq> seq)
      then (TaskEnded, active, record_unexpected_failure ''callback_complete'' d)
      else (TaskSettling seq, active, begin_delivery_settlement d))"
| "complete_success_step runtime contended cell (TaskSettling seq) active d =
     (case complete_active runtime contended cell active d of
        (status, active, d) \<Rightarrow> (if status = COMPLETE_DONE then TaskCompleted seq else TaskSettled status seq, active, d))"
| "complete_success_step runtime contended cell (TaskCompleted seq) active d = (TaskSettled COMPLETE_DONE seq, active, record_delivery seq d)"
| "complete_success_step runtime contended cell (TaskSettled status seq) active d =
     (case status of COMPLETE_RETRY \<Rightarrow> TaskRetry seq | COMPLETE_DONE \<Rightarrow> TaskPoll | COMPLETE_STOP \<Rightarrow> TaskEnded,
      active, drop_delivery_settlement d)"
| "complete_success_step runtime contended cell pc active d = (pc, active, d)"

text \<open>\<^verbatim>\<open>_complete_failed\<close>: the callback that is still active, then the queue.\<close>

definition complete_failed_active ::
  "BudgetLimits \<Rightarrow> bool \<Rightarrow> u64 \<Rightarrow> bridge_active \<Rightarrow> 'v SinkDispatchState \<Rightarrow> task_pc \<times> bridge_active \<times> 'v SinkDispatchState" where
  "complete_failed_active runtime contended cell active d =
     (if active \<noteq> None
      then (case complete_active runtime contended cell active d of
          (status, active, d) \<Rightarrow>
            (case status of COMPLETE_DONE \<Rightarrow> TaskDiscard | COMPLETE_RETRY \<Rightarrow> TaskFailRetry | COMPLETE_STOP \<Rightarrow> TaskEnded, active, d))
      else (TaskDiscard, active, d))"

definition complete_failed_discard ::
  "BudgetLimits \<Rightarrow> bool \<Rightarrow> u64 list \<Rightarrow> 'v SinkDispatchState \<Rightarrow> 'v DispatchEvent sink_log \<Rightarrow>
   (task_pc \<times> 'v SinkDispatchState \<times> 'v DispatchEvent sink_log) option" where
  "complete_failed_discard runtime contended cells d lg =
     (case try_discard_queued runtime contended cells (sd_queue d) of
        Returned (res, q, _) \<Rightarrow>
          (let d = d\<lparr> sd_queue := q \<rparr>; lg = log_discard res lg in
           Some (case res of
               Inr _ \<Rightarrow> (TaskEnded, d, lg)
             | Inl Contended \<Rightarrow> (TaskFailRetry, d, lg)
             | Inl err \<Rightarrow> (TaskEnded, record_unexpected_failure ''callback_discard'' d, lg)))
      | _ \<Rightarrow> None)"

definition sink_stopped ::
  "BudgetLimits \<Rightarrow> bool \<Rightarrow> u64 list \<Rightarrow> 'v SinkDispatchState \<Rightarrow> 'v DispatchEvent sink_log \<Rightarrow>
   (bool \<times> 'v SinkDispatchState \<times> 'v DispatchEvent sink_log) option" where
  "sink_stopped runtime contended cells d lg =
     (if \<not> is_stopped d then Some (False, d, lg)
      else case try_discard_queued runtime contended cells (sd_queue d) of
        Returned (res, q, _) \<Rightarrow> Some (True, d\<lparr> sd_queue := q \<rparr>, log_discard res lg)
      | _ \<Rightarrow> None)"

text \<open>The driver: \<open>result\<close> is how the callback or the sleep ends, \<open>stopping\<close> whether the bridge was told to stop.\<close>

definition task_step ::
  "BudgetLimits \<Rightarrow> bool \<Rightarrow> u64 list \<Rightarrow> callback_end \<Rightarrow> bool \<Rightarrow> task_state \<Rightarrow> 'v SinkDispatchState \<Rightarrow> 'v DispatchEvent sink_log \<Rightarrow>
   (task_state \<times> 'v SinkDispatchState \<times> 'v DispatchEvent sink_log) option" where
  "task_step runtime contended cells result stopping t d lg =
     (case ts_pc t of
        TaskPoll \<Rightarrow> Some (t\<lparr> ts_pc := if is_stopped d then TaskIdle else TaskBegin \<rparr>, d, lg)
      | TaskBegin \<Rightarrow>
          (case next_dispatch contended (ts_active t) d of
             (handed, active, d') \<Rightarrow>
               Some (t\<lparr> ts_pc := (case handed of None \<Rightarrow> TaskIdle | Some event \<Rightarrow> TaskCalling (de_sequence event)), ts_active := active \<rparr>,
                     d', log_begin (fst (try_begin_callback contended (sd_queue d))) lg))
      | TaskIdle \<Rightarrow>
          map_option (\<lambda>(stopped, d, lg). (t\<lparr> ts_pc := if stopped \<or> stopping then TaskEnded else TaskSleep \<rparr>, d, lg))
            (sink_stopped runtime contended cells d lg)
      | TaskSleep \<Rightarrow>
          (if result = Cancelled \<and> sd_runtime_cancel_requested d then Some (t\<lparr> ts_pc := TaskFailed \<rparr>, d, lg)
           else Some (t\<lparr> ts_pc := TaskPoll \<rparr>, d, lg))
      | TaskCalling seq \<Rightarrow>
          (case result of
             ReturnsNone \<Rightarrow> Some (t\<lparr> ts_pc := TaskSuccess seq \<rparr>, d, lg)
           | ReturnsOther \<Rightarrow> Some (t\<lparr> ts_pc := TaskFailed \<rparr>, record_callback_failure (CallbackFailure_invalid_return seq) d, lg)
           | Raises qualname message \<Rightarrow>
               Some (t\<lparr> ts_pc := TaskFailed \<rparr>, record_callback_failure (CallbackFailure_raised seq qualname message) d, lg)
           | Cancelled \<Rightarrow> if sd_runtime_cancel_requested d then Some (t\<lparr> ts_pc := TaskFailed \<rparr>, d, lg) else None)
      | TaskRetry seq \<Rightarrow>
          (if result = Cancelled \<and> sd_runtime_cancel_requested d then Some (t\<lparr> ts_pc := TaskFailed \<rparr>, d, lg)
           else Some (t\<lparr> ts_pc := TaskSuccess seq \<rparr>, d, lg))
      | TaskFailed \<Rightarrow>
          (case cells of
             [] \<Rightarrow> None
           | cell # _ \<Rightarrow>
               (case complete_failed_active runtime contended cell (ts_active t) d of
                  (pc, active, d) \<Rightarrow> Some (t\<lparr> ts_pc := pc, ts_active := active \<rparr>, d, lg)))
      | TaskDiscard \<Rightarrow>
          map_option (\<lambda>(pc, d, lg). (t\<lparr> ts_pc := pc \<rparr>, d, lg)) (complete_failed_discard runtime contended cells d lg)
      | TaskFailRetry \<Rightarrow>
          (if result = Cancelled \<and> sd_runtime_cancel_requested d then Some (t\<lparr> ts_pc := TaskEnded \<rparr>, d, lg)
           else Some (t\<lparr> ts_pc := TaskFailed \<rparr>, d, lg))
      | TaskEnded \<Rightarrow> None
      | _ \<Rightarrow>
          (case cells of
             [] \<Rightarrow> None
           | cell # _ \<Rightarrow>
               (case complete_success_step runtime contended cell (ts_pc t) (ts_active t) d of
                  (pc, active, d) \<Rightarrow>
                    Some (t\<lparr> ts_pc := pc, ts_active := active,
                       ts_settled := ts_settled t @ (case ts_pc t of TaskCompleted seq \<Rightarrow> [seq] | _ \<Rightarrow> []) \<rparr>, d, lg))))"

subsection \<open>The system\<close>

datatype 'v sink_thread =
    Enqueuer "'v enqueue_call" enqueue_pc
  | Sealer SinkSealFacts seal_pc
  | Closer close_pc
  | ShutdownCloser bool shutdown_pc
  | Discarder "(QueueAccessError + unit) option"

record 'v sink_system =
  sy_lifecycle :: "'v SinkLifecycle"
  sy_threads :: "'v sink_thread list"
  sy_task :: task_state
  sy_stopping :: bool
  sy_log :: "'v DispatchEvent sink_log"

fun thread_step ::
  "BudgetLimits \<Rightarrow> bool \<Rightarrow> u64 list \<Rightarrow> 'v sink_thread \<Rightarrow> 'v SinkLifecycle \<Rightarrow> 'v DispatchEvent sink_log \<Rightarrow>
   ('v sink_thread \<times> 'v SinkLifecycle \<times> 'v DispatchEvent sink_log) option" where
  "thread_step runtime contended cells (Enqueuer call pc) lc lg =
     map_option (\<lambda>(pc, lc, lg). (Enqueuer call pc, lc, lg)) (enqueue_step runtime contended cells call pc lc lg)"
| "thread_step runtime contended cells (Sealer facts pc) lc lg =
     map_option (\<lambda>(pc, lc). (Sealer facts pc, lc, lg)) (seal_step facts pc lc)"
| "thread_step runtime contended cells (Closer pc) lc lg = map_option (\<lambda>(pc, lc). (Closer pc, lc, lg)) (close_step contended pc lc)"
| "thread_step runtime contended cells (ShutdownCloser abandoned pc) lc lg =
     map_option (\<lambda>(pc, lc). (ShutdownCloser abandoned pc, lc, lg)) (shutdown_step contended abandoned pc lc)"
| "thread_step runtime contended cells (Discarder None) lc lg =
     map_option (\<lambda>(res, lc, lg). (Discarder (Some res), lc, lg)) (try_discard_pending runtime contended cells lc lg)"
| "thread_step runtime contended cells (Discarder (Some _)) lc lg = None"

datatype sink_choice =
    ThreadStep nat bool "u64 list"
  | TaskStep bool "u64 list" callback_end
  | CancelRequest
  | StopRequest
  | InstallObserver

fun system_step :: "BudgetLimits \<Rightarrow> sink_choice \<Rightarrow> 'v sink_system \<Rightarrow> 'v sink_system option" where
  "system_step runtime (ThreadStep i contended cells) s =
     (if i < length (sy_threads s)
      then map_option (\<lambda>(th, lc, lg). s\<lparr> sy_lifecycle := lc, sy_threads := (sy_threads s)[i := th], sy_log := lg \<rparr>)
             (thread_step runtime contended cells (sy_threads s ! i) (sy_lifecycle s) (sy_log s))
      else None)"
| "system_step runtime (TaskStep contended cells result) s =
     map_option (\<lambda>(t, d, lg). s\<lparr> sy_lifecycle := (sy_lifecycle s)\<lparr> lc_dispatcher := d \<rparr>, sy_task := t, sy_log := lg \<rparr>)
       (task_step runtime contended cells result (sy_stopping s) (sy_task s) (lc_dispatcher (sy_lifecycle s)) (sy_log s))"
| "system_step runtime CancelRequest s =
     Some (s\<lparr> sy_lifecycle := (sy_lifecycle s)\<lparr> lc_dispatcher := request_runtime_cancel (lc_dispatcher (sy_lifecycle s)) \<rparr> \<rparr>)"
| "system_step runtime StopRequest s = Some (s\<lparr> sy_stopping := True \<rparr>)"
| "system_step runtime InstallObserver s =
     Some (s\<lparr> sy_lifecycle := (sy_lifecycle s)\<lparr> lc_dispatcher := snd (install_failure_observer (lc_dispatcher (sy_lifecycle s))) \<rparr> \<rparr>)"

text \<open>A call that starts; its event has a sequence, as \<^verbatim>\<open>DispatchEvent::new\<close> makes sure.\<close>

fun starting :: "'v sink_thread \<Rightarrow> bool" where
  "starting (Enqueuer call pc) \<longleftrightarrow> pc = LoadPhase \<and> (case offered_event call of Some e \<Rightarrow> de_sequence (qe_item e) \<noteq> 0 | None \<Rightarrow> True)"
| "starting (Sealer facts pc) \<longleftrightarrow> pc = SealCheck"
| "starting (Closer pc) \<longleftrightarrow> pc = ClosePhase"
| "starting (ShutdownCloser abandoned pc) \<longleftrightarrow> pc = ShutdownStart"
| "starting (Discarder res) \<longleftrightarrow> res = None"

definition sink_system_init ::
  "canonical_uuid \<Rightarrow> run_local_id \<Rightarrow> u64 \<Rightarrow> SinkQueueLimits \<Rightarrow> 'v sink_thread list \<Rightarrow> 'v sink_system" where
  "sink_system_init run_id act_id sink_id limits threads =
     \<lparr> sy_lifecycle = SinkHandle_new run_id act_id (SinkDispatcher_new sink_id limits), sy_threads = threads,
       sy_task = \<lparr> ts_pc = TaskPoll, ts_active = None, ts_settled = [] \<rparr>, sy_stopping = False,
       sy_log = \<lparr> lg_offered = [], lg_delivered = [], lg_dropped = [] \<rparr> \<rparr>"

inductive sink_reaches :: "BudgetLimits \<Rightarrow> 'v sink_system \<Rightarrow> 'v sink_system \<Rightarrow> bool" for runtime s where
  start: "sink_reaches runtime s s"
| step: "sink_reaches runtime s s' \<Longrightarrow> system_step runtime choice s' = Some s'' \<Longrightarrow> sink_reaches runtime s s''"

end
