(* ===== verification/Sink_Gate.thy ===== *)
theory Sink_Gate
  imports Sink_Lifecycle
begin

section \<open>The gate of a sink\<close>

text \<open>
  The protocol between the calls that add to a sink, the one that seals it and those that close it:
  the count of the calls under way is exact, at most one call seals and at most one closes, and once the
  sealer has seen the count at zero no call is past the gate any more. Every \<^verbatim>\<open>expect\<close> of the code
  holds, and all who close the sink get the same summary.
\<close>

subsection \<open>Counting threads\<close>

lemma count_update:
  assumes "i < length xs"
  shows "length (filter P (xs[i := y])) + of_bool (P (xs ! i)) = length (filter P xs) + of_bool (P y)"
proof -
  have "length (filter P (take i xs @ y # drop (Suc i) xs)) + of_bool (P (xs ! i))
      = length (filter P (take i xs @ xs ! i # drop (Suc i) xs)) + of_bool (P y)" by simp
  then show ?thesis using assms by (simp only: upd_conv_take_nth_drop id_take_nth_drop [symmetric])
qed

lemma count_pos: "i < length xs \<Longrightarrow> P (xs ! i) \<Longrightarrow> 0 < length (filter P xs)"
  by (simp add: filter_empty_conv) (use nth_mem in blast)

lemma count_zero: "length (filter P xs) = 0 \<Longrightarrow> i < length xs \<Longrightarrow> \<not> P (xs ! i)"
  using count_pos [of i xs P] by blast

lemma count_one_other:
  assumes "length (filter P xs) = 1" "i < length xs" "P (xs ! i)" "j < length xs" "j \<noteq> i"
  shows "\<not> P (xs ! j)"
proof
  assume "P (xs ! j)"
  then have "{i, j} \<subseteq> {k. k < length xs \<and> P (xs ! k)}" using assms by auto
  then have "card {i, j} \<le> length (filter P xs)" by (simp add: length_filter_conv_card card_mono)
  with assms show False by simp
qed

subsection \<open>The invariant\<close>

fun counted :: "'v sink_thread \<Rightarrow> bool" where
  "counted (Enqueuer _ pc) \<longleftrightarrow>
     (case pc of LoadPhase \<Rightarrow> False | LoadTerminal \<Rightarrow> False | CountIn \<Rightarrow> False | Left _ \<Rightarrow> False | _ \<Rightarrow> True)"
| "counted _ \<longleftrightarrow> False"

fun inside :: "'v sink_thread \<Rightarrow> bool" where
  "inside (Enqueuer _ pc) \<longleftrightarrow>
     (case pc of ReloadTerminal \<Rightarrow> True | Guarded \<Rightarrow> True | Numbering \<Rightarrow> True | Admitting \<Rightarrow> True | Admitted _ \<Rightarrow> True | _ \<Rightarrow> False)"
| "inside _ \<longleftrightarrow> False"

fun sealing :: "'v sink_thread \<Rightarrow> bool" where
  "sealing (Sealer _ pc) \<longleftrightarrow> pc \<in> {SealWaiting, SealDrained, SealLatched}"
| "sealing _ \<longleftrightarrow> False"

fun drained_sealer :: "'v sink_thread \<Rightarrow> bool" where
  "drained_sealer (Sealer _ pc) \<longleftrightarrow> pc \<in> {SealDrained, SealLatched}"
| "drained_sealer _ \<longleftrightarrow> False"

fun latch_of :: "'v sink_thread \<Rightarrow> latch_pc option" where
  "latch_of (Closer (CloseLatch pc)) = Some pc"
| "latch_of (ShutdownCloser _ (ShutdownLatch pc)) = Some pc"
| "latch_of _ = None"

fun holds_phase :: "latch_pc \<Rightarrow> bool" where
  "holds_phase (LatchCompute _ _) \<longleftrightarrow> True"
| "holds_phase (LatchSet _) \<longleftrightarrow> True"
| "holds_phase (LatchStore _) \<longleftrightarrow> True"
| "holds_phase _ \<longleftrightarrow> False"

definition latching :: "'v sink_thread \<Rightarrow> bool" where
  "latching th \<longleftrightarrow> (case latch_of th of Some pc \<Rightarrow> holds_phase pc | None \<Rightarrow> False)"

definition sealed_off :: "'v SinkLifecycle \<Rightarrow> bool" where
  "sealed_off lc \<longleftrightarrow> lc_phase lc \<in> {SEALED, CLOSING, CLOSED}"

text \<open>The summary a thread has in hand.\<close>

fun latch_ok :: "'v SinkLifecycle \<Rightarrow> latch_pc \<Rightarrow> bool" where
  "latch_ok lc (LatchCompute _ _) \<longleftrightarrow> lc_summary lc = None"
| "latch_ok lc (LatchSet _) \<longleftrightarrow> lc_summary lc = None"
| "latch_ok lc (LatchStore summary) \<longleftrightarrow> lc_summary lc = Some summary"
| "latch_ok lc (Latched summary) \<longleftrightarrow> lc_summary lc = Some summary"
| "latch_ok lc _ \<longleftrightarrow> True"

fun gate_ok :: "'v SinkLifecycle \<Rightarrow> 'v sink_thread \<Rightarrow> bool" where
  "gate_ok lc (Enqueuer _ pc) \<longleftrightarrow> pc \<noteq> Leaving EnqueuePanicked \<and> pc \<noteq> Left EnqueuePanicked"
| "gate_ok lc (Sealer facts pc) \<longleftrightarrow>
     (case pc of SealWaiting \<Rightarrow> lc_seal_facts lc = None | SealDrained \<Rightarrow> lc_seal_facts lc = None
        | SealLatched \<Rightarrow> lc_seal_facts lc = Some facts | SealPanicked \<Rightarrow> False | _ \<Rightarrow> True)"
| "gate_ok lc (Closer pc) \<longleftrightarrow>
     (case pc of ClosePhase \<Rightarrow> True | CloseReturned (Inr (CloseClosed summary)) \<Rightarrow> lc_summary lc = Some summary
        | CloseReturned _ \<Rightarrow> True | ClosePanicked \<Rightarrow> False
        | CloseLatch pc \<Rightarrow> sealed_off lc \<and> latch_ok lc pc \<and> pc \<noteq> LatchPanicked
        | _ \<Rightarrow> sealed_off lc)"
| "gate_ok lc (ShutdownCloser _ pc) \<longleftrightarrow>
     (case pc of ShutdownReturned summary \<Rightarrow> lc_summary lc = Some summary | ShutdownLatch pc \<Rightarrow> latch_ok lc pc | _ \<Rightarrow> True)"
| "gate_ok lc (Discarder _) \<longleftrightarrow> True"

definition gate_inv :: "'v SinkLifecycle \<Rightarrow> 'v sink_thread list \<Rightarrow> bool" where
  "gate_inv lc ths \<longleftrightarrow>
     length ths \<le> usize_max \<and>
     lc_active_enqueues lc = length (filter counted ths) \<and>
     length (filter sealing ths) = of_bool (lc_phase lc = SEALING) \<and>
     length (filter latching ths) = of_bool (lc_phase lc = CLOSING) \<and>
     (lc_phase lc = OPEN \<longrightarrow> lc_seal_facts lc = None) \<and>
     (sealed_off lc \<longrightarrow> lc_seal_facts lc \<noteq> None) \<and>
     (lc_summary lc \<noteq> None \<longrightarrow> lc_phase lc \<in> {CLOSING, CLOSED}) \<and>
     (lc_phase lc = CLOSED \<longrightarrow> lc_summary lc \<noteq> None) \<and>
     (\<forall>i < length ths. sealed_off lc \<or> (\<exists>j < length ths. drained_sealer (ths ! j)) \<longrightarrow> \<not> inside (ths ! i)) \<and>
     (\<forall>i < length ths. gate_ok lc (ths ! i))"

lemma inside_counted: "inside th \<Longrightarrow> counted th"
  by (cases th rule: inside.cases) (auto split: enqueue_pc.splits)

lemma drained_sealing: "drained_sealer th \<Longrightarrow> sealing th"
  by (cases th rule: sealing.cases) auto

subsection \<open>A step of one thread\<close>

text \<open>What a step must do to keep the invariant: \<open>th\<close> becomes \<open>th'\<close> and the state \<open>lc'\<close>.\<close>

definition gate_move :: "'v SinkLifecycle \<Rightarrow> 'v sink_thread \<Rightarrow> 'v SinkLifecycle \<Rightarrow> 'v sink_thread \<Rightarrow> bool" where
  "gate_move lc th lc' th' \<longleftrightarrow>
     lc_active_enqueues lc' + of_bool (counted th) = lc_active_enqueues lc + of_bool (counted th') \<and>
     of_bool (lc_phase lc' = SEALING) + of_bool (sealing th) = of_bool (lc_phase lc = SEALING) + (of_bool (sealing th') :: nat) \<and>
     of_bool (lc_phase lc' = CLOSING) + of_bool (latching th) = of_bool (lc_phase lc = CLOSING) + (of_bool (latching th') :: nat) \<and>
     (lc_phase lc' = OPEN \<longrightarrow> lc_seal_facts lc' = None) \<and>
     (sealed_off lc' \<longrightarrow> lc_seal_facts lc' \<noteq> None) \<and>
     (lc_summary lc' \<noteq> None \<longrightarrow> lc_phase lc' \<in> {CLOSING, CLOSED}) \<and>
     (lc_phase lc' = CLOSED \<longrightarrow> lc_summary lc' \<noteq> None) \<and>
     (inside th' \<longrightarrow> inside th \<and> sealed_off lc' = sealed_off lc \<or> lc_phase lc = OPEN \<and> lc_phase lc' = OPEN) \<and>
     (drained_sealer th' \<longrightarrow> drained_sealer th \<or> lc_active_enqueues lc = 0) \<and>
     (sealed_off lc' \<longrightarrow> sealed_off lc \<or> drained_sealer th) \<and>
     gate_ok lc' th' \<and>
     (\<forall>other. gate_ok lc other \<longrightarrow> (sealing th \<longrightarrow> \<not> sealing other) \<longrightarrow> (latching th \<longrightarrow> \<not> latching other) \<longrightarrow> gate_ok lc' other)"

lemma drained_when: "gate_inv lc ths \<Longrightarrow> j < length ths \<Longrightarrow> drained_sealer (ths ! j) \<Longrightarrow> lc_phase lc = SEALING"
  using count_pos [of j ths sealing] drained_sealing [of "ths ! j"] by (auto simp: gate_inv_def of_bool_def split: if_splits)

lemma gate_move_inv:
  assumes inv: "gate_inv lc ths" and i: "i < length ths" and m: "gate_move lc (ths ! i) lc' th'"
  shows "gate_inv lc' (ths[i := th'])"
proof -
  note c = count_update [OF i, of _ th']
  have n: "\<not> inside (ths[i := th'] ! k)"
    if k: "k < length ths" and off: "sealed_off lc' \<or> (\<exists>j < length ths. drained_sealer (ths[i := th'] ! j))" for k
  proof -
    have old: "sealed_off lc \<or> (\<exists>j < length ths. drained_sealer (ths ! j)) \<Longrightarrow> \<not> inside (ths ! k')" if "k' < length ths" for k'
      using inv that unfolding gate_inv_def by blast
    have zero: "\<not> inside (ths ! k')" if "lc_active_enqueues lc = 0" "k' < length ths" for k'
      using inv that count_zero [of counted ths k'] inside_counted unfolding gate_inv_def by auto
    from off m have src: "sealed_off lc \<or> (\<exists>j < length ths. drained_sealer (ths ! j)) \<or> lc_active_enqueues lc = 0"
      unfolding gate_move_def by (metis i nth_list_update_eq nth_list_update_neq)
    then have none: "\<not> inside (ths ! k')" if "k' < length ths" for k' using old zero that by blast
    show ?thesis
    proof (cases "k = i")
      case False
      with none k show ?thesis by simp
    next
      case True
      have False if "inside th'"
      proof -
        from that m none [OF i] have o: "lc_phase lc = OPEN" "lc_phase lc' = OPEN" unfolding gate_move_def by blast+
        then obtain j where j: "j < length ths" "drained_sealer (ths[i := th'] ! j)" using off by (auto simp: sealed_off_def)
        have "j \<noteq> i" using j that by (cases th' rule: inside.cases) auto
        with j drained_when [OF inv, of j] o show False by simp
      qed
      with True i show ?thesis by auto
    qed
  qed
  have ok: "gate_ok lc' (ths[i := th'] ! k)" if k: "k < length ths" for k
  proof (cases "k = i")
    case True
    with m i show ?thesis by (simp add: gate_move_def)
  next
    case False
    have "\<not> sealing (ths ! k)" if "sealing (ths ! i)"
      using count_one_other [of sealing ths i k] count_pos [of i ths sealing] i k False that inv
      by (auto simp: gate_inv_def of_bool_def split: if_splits)
    moreover have "\<not> latching (ths ! k)" if "latching (ths ! i)"
      using count_one_other [of latching ths i k] count_pos [of i ths latching] i k False that inv
      by (auto simp: gate_inv_def of_bool_def split: if_splits)
    moreover have "gate_ok lc (ths ! k)" using inv k by (simp add: gate_inv_def)
    ultimately show ?thesis using m False unfolding gate_move_def by simp
  qed
  show ?thesis
    using inv m c [of counted] c [of sealing] c [of latching] n ok
    unfolding gate_inv_def [of lc'] by (auto simp: gate_inv_def gate_move_def)
qed

text \<open>The state of the gate is not touched by the work behind it.\<close>

definition same_gate :: "'v SinkLifecycle \<Rightarrow> 'v SinkLifecycle \<Rightarrow> bool" where
  "same_gate lc lc' \<longleftrightarrow> lc_phase lc' = lc_phase lc \<and> lc_active_enqueues lc' = lc_active_enqueues lc \<and>
     lc_seal_facts lc' = lc_seal_facts lc \<and> lc_summary lc' = lc_summary lc"

lemma gate_ok_cong: "same_gate lc lc' \<Longrightarrow> gate_ok lc' th = gate_ok lc th"
proof -
  assume "same_gate lc lc'"
  moreover from this have "latch_ok lc' pc = latch_ok lc pc" for pc
    by (cases pc) (auto simp: same_gate_def)
  ultimately show ?thesis
    by (cases th) (auto simp: same_gate_def sealed_off_def split: close_pc.splits seal_pc.splits shutdown_pc.splits sum.splits SinkClosePoll.splits)
qed

definition gate_state :: "'v SinkLifecycle \<Rightarrow> bool" where
  "gate_state lc \<longleftrightarrow> (lc_phase lc = OPEN \<longrightarrow> lc_seal_facts lc = None) \<and> (sealed_off lc \<longrightarrow> lc_seal_facts lc \<noteq> None) \<and>
     (lc_summary lc \<noteq> None \<longrightarrow> lc_phase lc \<in> {CLOSING, CLOSED}) \<and> (lc_phase lc = CLOSED \<longrightarrow> lc_summary lc \<noteq> None)"

lemma gate_inv_state: "gate_inv lc ths \<Longrightarrow> gate_state lc"
  by (simp add: gate_inv_def gate_state_def)

lemma gate_move_same:
  assumes "gate_state lc" "same_gate lc lc'" "counted th' = counted th" "sealing th' = sealing th" "latching th' = latching th"
    "inside th' \<Longrightarrow> inside th \<or> lc_phase lc = OPEN" "drained_sealer th' \<Longrightarrow> drained_sealer th \<or> lc_active_enqueues lc = 0" "gate_ok lc th'"
  shows "gate_move lc th lc' th'"
proof -
  have eq: "lc_phase lc' = lc_phase lc" "lc_active_enqueues lc' = lc_active_enqueues lc" "lc_seal_facts lc' = lc_seal_facts lc"
    "lc_summary lc' = lc_summary lc" "sealed_off lc' = sealed_off lc"
    using assms(2) by (simp_all add: same_gate_def sealed_off_def)
  show ?thesis
    unfolding gate_move_def gate_ok_cong [OF assms(2)] eq assms(3-5)
    using assms(1,6,7,8) by (simp add: gate_state_def)
qed

lemma same_gate_simps [simp]:
  "same_gate lc lc" "same_gate lc (set_queue q lc)" "same_gate lc (number_event e lc)"
  "same_gate lc (lc\<lparr> lc_terminal_accounted := b \<rparr>)" "same_gate lc (lc\<lparr> lc_source_gaps := n \<rparr>)"
  "same_gate lc (lc\<lparr> lc_truncated_payloads := n \<rparr>)" "same_gate lc (lc\<lparr> lc_dispatcher := d \<rparr>)"
  by (simp_all add: same_gate_def set_queue_def number_event_def)

lemma enqueue_rejection_sound: "phase \<noteq> OPEN \<Longrightarrow> enqueue_rejection phase \<noteq> EnqueuePanicked"
  by (cases phase) auto

lemma gate_ok_active [simp]: "gate_ok (lc\<lparr> lc_active_enqueues := n \<rparr>) th = gate_ok lc th"
proof -
  have "latch_ok (lc\<lparr> lc_active_enqueues := n \<rparr>) pc = latch_ok lc pc" for pc by (cases pc) auto
  then show ?thesis
    by (cases th) (auto simp: sealed_off_def split: close_pc.splits seal_pc.splits shutdown_pc.splits sum.splits SinkClosePoll.splits)
qed

lemma gate_move_active:
  assumes "gate_state lc" "n + of_bool (counted (Enqueuer call pc)) = lc_active_enqueues lc + of_bool (counted (Enqueuer call pc'))"
    "\<not> inside (Enqueuer call pc')" "gate_ok lc (Enqueuer call pc')"
  shows "gate_move lc (Enqueuer call pc) (lc\<lparr> lc_active_enqueues := n \<rparr>) (Enqueuer call pc')"
proof -
  have "sealed_off (lc\<lparr> lc_active_enqueues := n \<rparr>) = sealed_off lc" by (simp add: sealed_off_def)
  then show ?thesis
    unfolding gate_move_def gate_ok_active using assms by (simp add: gate_state_def latching_def del: gate_ok.simps counted.simps inside.simps)
qed

lemma guarded_cases:
  assumes "guarded_step runtime contended cells call pc lc lg = Some (pc', lc', lg')"
  shows "same_gate lc lc' \<and> inside (Enqueuer call pc) \<and> counted (Enqueuer call pc') \<and> gate_ok lc (Enqueuer call pc')"
proof (cases pc)
  case Guarded
  with assms show ?thesis by (cases call) (auto simp: guarded_step_def split: if_splits)
next
  case Admitting
  with assms show ?thesis by (auto simp: guarded_step_def split: option.splits call.splits prod.splits)
next
  case (Admitted out)
  with assms show ?thesis by (auto simp: guarded_step_def split: if_splits call.splits prod.splits)
qed (use assms in \<open>auto simp: guarded_step_def\<close>)

lemma guarded_gate:
  assumes "gate_state lc" "guarded_step runtime contended cells call pc lc lg = Some (pc', lc', lg')"
  shows "gate_move lc (Enqueuer call pc) lc' (Enqueuer call pc')"
  using guarded_cases [OF assms(2)] inside_counted [of "Enqueuer call pc"]
  by (intro gate_move_same [OF assms(1)]) (simp_all add: latching_def)

lemma enqueue_gate:
  assumes st: "gate_state lc" "gate_ok lc (Enqueuer call pc)"
    and active: "counted (Enqueuer call pc) \<Longrightarrow> 0 < lc_active_enqueues lc" "\<not> counted (Enqueuer call pc) \<Longrightarrow> lc_active_enqueues lc < usize_max"
    and step: "enqueue_step runtime contended cells call pc lc lg = Some (pc', lc', lg')"
  shows "gate_move lc (Enqueuer call pc) lc' (Enqueuer call pc')"
proof -
  have load: ?thesis if "pc \<in> {LoadPhase, LoadTerminal, ReloadPhase, ReloadTerminal}"
    using that step enqueue_rejection_sound [of "lc_phase lc"]
    by (intro gate_move_same [OF st(1)]) (auto simp: enqueue_step_def latching_def split: if_splits)
  show ?thesis
  proof (cases pc)
    case CountIn
    with step have eq: "pc' = ReloadPhase" "lc' = lc\<lparr> lc_active_enqueues := (lc_active_enqueues lc + 1) mod 2 ^ 64 \<rparr>"
      by (simp_all add: enqueue_step_def)
    show ?thesis unfolding eq using CountIn active by (intro gate_move_active [OF st(1)]) simp_all
  next
    case (Leaving res)
    with step have eq: "pc' = Left res" "lc' = lc\<lparr> lc_active_enqueues := wrapping_sub (lc_active_enqueues lc) 1 \<rparr>"
      by (simp_all add: enqueue_step_def)
    show ?thesis unfolding eq using Leaving active st(2)
      by (intro gate_move_active [OF st(1)]) (auto simp: wrapping_sub_def)
  next
    case (Left res)
    with step show ?thesis by (simp add: enqueue_step_def)
  next
    case (Admitted out)
    with step guarded_gate [OF st(1)] show ?thesis by (simp add: enqueue_step_def)
  next
    case Guarded
    with step guarded_gate [OF st(1)] show ?thesis by (simp add: enqueue_step_def)
  next
    case Numbering
    with step guarded_gate [OF st(1)] show ?thesis by (simp add: enqueue_step_def)
  next
    case Admitting
    with step guarded_gate [OF st(1)] show ?thesis by (simp add: enqueue_step_def)
  qed (use load in simp_all)
qed

lemma seal_gate:
  assumes "gate_state lc" "gate_ok lc (Sealer facts pc)" "sealing (Sealer facts pc) \<Longrightarrow> lc_phase lc = SEALING"
    and "seal_step facts pc lc = Some (pc', lc')"
  shows "gate_move lc (Sealer facts pc) lc' (Sealer facts pc')"
proof (cases pc)
  case SealCheck
  with assms show ?thesis by (intro gate_move_same) (auto simp: latching_def split: if_splits)
next
  case SealSwap
  have "gate_ok (lc\<lparr> lc_phase := SEALING \<rparr>) other" if "gate_ok lc other" "lc_phase lc = OPEN" for other
  proof -
    have "latch_ok (lc\<lparr> lc_phase := SEALING \<rparr>) pc = latch_ok lc pc" for pc by (cases pc) auto
    then show ?thesis using that
      by (cases other) (auto simp: sealed_off_def split: close_pc.splits seal_pc.splits shutdown_pc.splits sum.splits SinkClosePoll.splits)
  qed
  with SealSwap assms show ?thesis
    by (auto simp: latching_def gate_move_def gate_state_def sealed_off_def intro!: gate_move_same split: if_splits)
next
  case SealWaiting
  with assms show ?thesis by (intro gate_move_same) (auto simp: latching_def split: if_splits)
next
  case SealDrained
  have "gate_ok (lc\<lparr> lc_seal_facts := Some facts \<rparr>) other" if "gate_ok lc other" "\<not> sealing other" for other
  proof -
    have "latch_ok (lc\<lparr> lc_seal_facts := Some facts \<rparr>) pc = latch_ok lc pc" for pc by (cases pc) auto
    then show ?thesis using that
      by (cases other) (auto simp: sealed_off_def split: close_pc.splits seal_pc.splits shutdown_pc.splits sum.splits SinkClosePoll.splits)
  qed
  with SealDrained assms show ?thesis
    by (auto simp: latching_def gate_move_def gate_state_def sealed_off_def split: if_splits)
next
  case SealLatched
  have "gate_ok (lc\<lparr> lc_phase := SEALED \<rparr>) other" if "gate_ok lc other" for other
  proof -
    have "latch_ok (lc\<lparr> lc_phase := SEALED \<rparr>) pc = latch_ok lc pc" for pc by (cases pc) auto
    then show ?thesis using that
      by (cases other) (auto simp: sealed_off_def split: close_pc.splits seal_pc.splits shutdown_pc.splits sum.splits SinkClosePoll.splits)
  qed
  with SealLatched assms show ?thesis by (auto simp: latching_def gate_move_def gate_state_def sealed_off_def)
qed (use assms in auto)

lemma gate_ok_summary:
  assumes "lc_summary lc = None" "gate_ok lc other" "\<not> latching other"
  shows "gate_ok (lc\<lparr> lc_summary := Some summary \<rparr>) other"
proof -
  have "latch_ok (lc\<lparr> lc_summary := Some summary \<rparr>) pc" if "latch_ok lc pc" "\<not> holds_phase pc" for pc
    using that assms(1) by (cases pc) auto
  with assms show ?thesis
    by (cases other) (auto simp: latching_def sealed_off_def split: close_pc.splits seal_pc.splits shutdown_pc.splits sum.splits SinkClosePoll.splits)
qed

lemma gate_ok_phase:
  assumes "gate_ok lc other" "sealed_off lc"  "sealed_off (lc\<lparr> lc_phase := phase \<rparr>)"
  shows "gate_ok (lc\<lparr> lc_phase := phase \<rparr>) other"
proof -
  have "latch_ok (lc\<lparr> lc_phase := phase \<rparr>) pc = latch_ok lc pc" for pc by (cases pc) auto
  with assms show ?thesis
    by (cases other) (auto split: close_pc.splits seal_pc.splits shutdown_pc.splits sum.splits SinkClosePoll.splits)
qed

text \<open>The closing loop, whoever runs it.\<close>

definition latch_move :: "'v SinkLifecycle \<Rightarrow> latch_pc \<Rightarrow> 'v SinkLifecycle \<Rightarrow> latch_pc \<Rightarrow> bool" where
  "latch_move lc pc lc' pc' \<longleftrightarrow>
     lc_active_enqueues lc' = lc_active_enqueues lc \<and> gate_state lc' \<and> sealed_off lc' = sealed_off lc \<and>
     (lc_phase lc' = SEALING \<longleftrightarrow> lc_phase lc = SEALING) \<and>
     of_bool (lc_phase lc' = CLOSING) + of_bool (holds_phase pc) = of_bool (lc_phase lc = CLOSING) + (of_bool (holds_phase pc') :: nat) \<and>
     latch_ok lc' pc' \<and> (sealed_off lc \<longrightarrow> pc' \<noteq> LatchPanicked) \<and>
     (\<forall>other. gate_ok lc other \<longrightarrow> (holds_phase pc \<longrightarrow> \<not> latching other) \<longrightarrow> gate_ok lc' other)"

lemma latch_step_move:
  assumes st: "gate_state lc" "latch_ok lc pc" "holds_phase pc \<Longrightarrow> lc_phase lc = CLOSING"
    and step: "latch_step pc lc = Some (pc', lc')"
  shows "latch_move lc pc lc' pc'"
proof (cases pc)
  case (LatchLoad nominal abandoned)
  with st step show ?thesis
    by (cases "lc_phase lc") (auto simp: latch_move_def gate_state_def sealed_off_def split: option.splits)
next
  case (LatchSwap nominal abandoned)
  with st step show ?thesis
    by (auto simp: latch_move_def gate_state_def sealed_off_def split: if_splits intro!: gate_ok_phase)
next
  case (LatchCompute nominal abandoned)
  with st step show ?thesis
    by (auto simp: latch_move_def gate_state_def sealed_off_def split: option.splits)
next
  case (LatchSet summary)
  with st step have eq: "pc' = LatchStore summary" "lc' = lc\<lparr> lc_summary := Some summary \<rparr>" by (simp_all split: if_splits)
  show ?thesis unfolding eq using LatchSet st gate_ok_summary [of lc _ summary]
    by (auto simp: latch_move_def gate_state_def sealed_off_def)
next
  case (LatchStore summary)
  with st step have eq: "pc' = Latched summary" "lc' = lc\<lparr> lc_phase := CLOSED \<rparr>" by simp_all
  have "gate_ok lc' other" if "gate_ok lc other" for other
    unfolding eq using that LatchStore st by (intro gate_ok_phase) (simp_all add: sealed_off_def)
  then show ?thesis using LatchStore st by (auto simp: eq latch_move_def gate_state_def sealed_off_def)
qed (use step in auto)

lemma latch_move_gate:
  assumes "latch_move lc pc lc' pc'" "latch_of th = Some pc" "latch_of th' = Some pc'" "gate_ok lc' th'"
  shows "gate_move lc th lc' th'"
proof -
  have no: "\<not> counted t \<and> \<not> inside t \<and> \<not> sealing t \<and> \<not> drained_sealer t" if "latch_of t = Some x" for t :: "'v sink_thread" and x
    using that by (cases t rule: latch_of.cases) auto
  have "latching th = holds_phase pc" "latching th' = holds_phase pc'" using assms by (simp_all add: latching_def)
  then show ?thesis
    using assms no [OF assms(2)] no [OF assms(3)] by (simp add: latch_move_def gate_move_def gate_state_def)
qed

lemma close_gate:
  assumes st: "gate_state lc" "gate_ok lc (Closer pc)" "latching (Closer pc) \<Longrightarrow> lc_phase lc = CLOSING"
    and step: "close_step contended pc lc = Some (pc', lc')"
  shows "gate_move lc (Closer pc) lc' (Closer pc')"
proof (cases pc)
  case (CloseLatch l)
  show ?thesis
  proof (cases "\<exists>l' lc1. latch_step l lc = Some (l', lc1)")
    case True
    then obtain l' lc1 where l: "latch_step l lc = Some (l', lc1)" by blast
    with step CloseLatch have eq: "pc' = CloseLatch l'" "lc' = lc1" by (cases l; simp)+
    have m: "latch_move lc l lc1 l'" using st CloseLatch l by (intro latch_step_move) (auto simp: latching_def)
    then have "gate_ok lc1 (Closer (CloseLatch l'))" using st CloseLatch by (simp add: latch_move_def)
    with latch_move_gate [OF m] show ?thesis by (simp add: eq CloseLatch)
  next
    case False
    then obtain summary where "l = Latched summary" using st(2) CloseLatch by (cases l) (auto split: if_splits)
    with step st CloseLatch show ?thesis
      by (intro gate_move_same) (auto simp: latching_def)
  qed
next
  case ClosePhase
  with step st show ?thesis
    by (intro gate_move_same) (auto simp: latching_def gate_state_def sealed_off_def split: sink_phase.splits option.splits)
next
  case CloseQueue
  with step st show ?thesis by (intro gate_move_same) (auto simp: latching_def split: if_splits sum.splits)
next
  case (CloseSettling snap)
  with step st show ?thesis by (intro gate_move_same) (auto simp: latching_def split: if_splits)
next
  case (CloseNominal snap)
  with step st show ?thesis
    by (intro gate_move_same) (auto simp: latching_def gate_state_def split: if_splits option.splits SinkTerminalReason.splits)
qed (use step st in auto)

lemma shutdown_gate:
  assumes st: "gate_state lc" "gate_ok lc (ShutdownCloser abandoned pc)" "latching (ShutdownCloser abandoned pc) \<Longrightarrow> lc_phase lc = CLOSING"
    and step: "shutdown_step contended abandoned pc lc = Some (pc', lc')"
  shows "gate_move lc (ShutdownCloser abandoned pc) lc' (ShutdownCloser abandoned pc')"
proof (cases pc)
  case (ShutdownLatch l)
  show ?thesis
  proof (cases "\<exists>l' lc1. latch_step l lc = Some (l', lc1)")
    case True
    then obtain l' lc1 where l: "latch_step l lc = Some (l', lc1)" by blast
    with step ShutdownLatch have eq: "pc' = ShutdownLatch l'" "lc' = lc1" by (cases l; simp)+
    have m: "latch_move lc l lc1 l'" using st ShutdownLatch l by (intro latch_step_move) (auto simp: latching_def)
    then have "gate_ok lc1 (ShutdownCloser abandoned (ShutdownLatch l'))" by (simp add: latch_move_def)
    with latch_move_gate [OF m] show ?thesis by (simp add: eq ShutdownLatch)
  next
    case False
    then have "(\<exists>summary. l = Latched summary) \<or> l = LatchPanicked" by (cases l) (auto split: if_splits)
    with step st ShutdownLatch show ?thesis by (intro gate_move_same) (auto simp: latching_def)
  qed
next
  case ShutdownStart
  with step st show ?thesis by (intro gate_move_same) (auto simp: latching_def split: option.splits)
next
  case ShutdownQueue
  with step st show ?thesis by (intro gate_move_same) (auto simp: latching_def Let_def)
qed (use step st in auto)

lemma thread_gate:
  assumes inv: "gate_inv lc ths" and i: "i < length ths"
    and step: "thread_step runtime contended cells (ths ! i) lc lg = Some (th', lc', lg')"
  shows "gate_inv lc' (ths[i := th'])"
proof -
  note st = gate_inv_state [OF inv]
  have ok: "gate_ok lc (ths ! i)" using inv i by (simp add: gate_inv_def)
  have phase: "sealing (ths ! i) \<Longrightarrow> lc_phase lc = SEALING" "latching (ths ! i) \<Longrightarrow> lc_phase lc = CLOSING"
    using inv count_pos [OF i, of sealing] count_pos [OF i, of latching] by (auto simp: gate_inv_def of_bool_def split: if_splits)
  have "gate_move lc (ths ! i) lc' th'"
  proof (cases "ths ! i")
    case (Enqueuer call pc)
    have "0 < lc_active_enqueues lc" if "counted (Enqueuer call pc)"
      using inv that i count_pos [OF i, of counted] by (simp add: gate_inv_def Enqueuer)
    moreover have "lc_active_enqueues lc < usize_max" if "\<not> counted (Enqueuer call pc)"
    proof -
      have "length (filter counted ths) < length ths"
        using that nth_mem [OF i] unfolding Enqueuer by (rule length_filter_less [rotated])
      with inv show ?thesis by (simp add: gate_inv_def)
    qed
    ultimately show ?thesis
      using step ok Enqueuer by (auto simp del: gate_ok.simps counted.simps intro: enqueue_gate [OF st])
  next
    case (Sealer facts pc)
    with step ok phase show ?thesis by (auto simp del: gate_ok.simps counted.simps intro: seal_gate [OF st])
  next
    case (Closer pc)
    with step ok phase show ?thesis by (auto simp del: gate_ok.simps counted.simps intro: close_gate [OF st])
  next
    case (ShutdownCloser abandoned pc)
    with step ok phase show ?thesis by (auto simp del: gate_ok.simps counted.simps intro: shutdown_gate [OF st])
  next
    case (Discarder res)
    with step obtain res' q where "th' = Discarder (Some res')" "lc' = set_queue q lc"
      by (cases res) (auto simp: try_discard_pending_def split: call.splits)
    with st Discarder show ?thesis by (intro gate_move_same) (simp_all add: latching_def)
  qed
  then show ?thesis by (rule gate_move_inv [OF inv i])
qed

lemma gate_inv_dispatcher: "gate_inv (lc\<lparr> lc_dispatcher := d \<rparr>) ths = gate_inv lc ths"
  using gate_ok_cong [of lc "lc\<lparr> lc_dispatcher := d \<rparr>"] by (simp add: gate_inv_def sealed_off_def)

definition system_gate :: "'v sink_system \<Rightarrow> bool" where
  "system_gate s \<longleftrightarrow> gate_inv (sy_lifecycle s) (sy_threads s)"

lemma system_step_gate: "system_step runtime choice s = Some s' \<Longrightarrow> system_gate s \<Longrightarrow> system_gate s'"
proof (cases choice)
  case (ThreadStep i contended cells)
  assume "system_step runtime choice s = Some s'" "system_gate s"
  with ThreadStep show ?thesis by (auto simp: system_gate_def split: if_splits intro: thread_gate)
qed (auto simp: system_gate_def gate_inv_dispatcher)

lemma starting_thread: "starting th \<Longrightarrow> \<not> counted th \<and> \<not> sealing th \<and> \<not> latching th \<and> \<not> inside th \<and> gate_ok lc th"
  by (cases th) (auto simp: latching_def)

lemma system_gate_init:
  assumes "\<forall>th \<in> set threads. starting th" "length threads \<le> usize_max"
  shows "system_gate (sink_system_init run_id act_id sink_id limits threads)"
proof -
  have "filter P threads = []" if "\<And>th. starting th \<Longrightarrow> \<not> P th" for P using assms(1) that by (simp add: filter_empty_conv)
  from this [of counted] this [of sealing] this [of latching]
  have "filter counted threads = []" "filter sealing threads = []" "filter latching threads = []" using starting_thread by blast+
  moreover have "\<not> inside (threads ! i) \<and> gate_ok lc (threads ! i)" if "i < length threads" for i lc
    using assms(1) nth_mem [OF that] starting_thread by blast
  ultimately show ?thesis
    using assms(2) by (simp add: system_gate_def gate_inv_def sink_system_init_def SinkHandle_new_def sealed_off_def)
qed

lemma reaches_gate: "sink_reaches runtime s s' \<Longrightarrow> system_gate s \<Longrightarrow> system_gate s'"
  by (induction rule: sink_reaches.induct) (auto intro: system_step_gate)

end
