(* ===== verification/Sink_Delivery.thy ===== *)
theory Sink_Delivery
  imports Sink_Gate
begin

section \<open>Delivery and the summary\<close>

text \<open>
  What the task hands to the callback and what the state counts as delivered, in step with the queue and
  the threads around it. The last part is what the summary of a closed sink stands for.
\<close>

subsection \<open>The queue under the dispatcher\<close>

definition queue_ok :: "'t SinkQueue \<Rightarrow> 't sink_log \<Rightarrow> bool" where
  "queue_ok q lg \<longleftrightarrow> sink_ok q \<and> accounted q lg"

lemma discard_active: "discard_queued_locked runtime cells q = Returned (res, q', change) \<Longrightarrow> sq_active_callback q' = sq_active_callback q"
  unfolding discard_queued_locked_def Let_def by (auto split: option.splits list.splits sum.splits prod.splits)

lemma queue_admit:
  assumes ok: "queue_ok q lg" and a: "try_admit runtime contended cells q event = Returned (out, q', change)"
  shows "queue_ok q' (log_admit event out lg) \<and> sq_active_callback q' = sq_active_callback q"
proof -
  from ok have s: "sink_ok q" by (simp add: queue_ok_def)
  have "sq_active_callback q' = sq_active_callback q"
    using s
  proof (cases rule: try_admit_cases [where runtime = runtime and contended = contended and cells = cells and event = event])
    case (dropped reason)
    with a show ?thesis by (auto simp: drop_incoming_def Let_def)
  next
    case (terminal cells')
    with a discard_active show ?thesis
      by (auto simp: terminalize_locked_def Let_def split: call.splits sum.splits prod.splits)
  qed (use a in auto)
  with ok a try_admit_moves [OF s a] try_admit_accounted [OF s _ a] show ?thesis
    by (auto simp: queue_ok_def moves_def)
qed

lemma queue_discard:
  assumes ok: "queue_ok q lg" and d: "try_discard_queued runtime contended cells q = Returned (res, q', change)"
  shows "queue_ok q' (log_discard res lg) \<and> sq_active_callback q' = sq_active_callback q \<and>
    (sq_queued q = [] \<longrightarrow> sq_queued q' = [] \<and> log_discard res lg = lg)"
proof (cases contended)
  case True
  with d ok show ?thesis by (auto simp: try_discard_queued_def log_discard_def)
next
  case False
  with d have l: "discard_queued_locked runtime cells q = Returned (res, q', change)" by (simp add: try_discard_queued_def)
  have "sq_queued q' = [] \<and> log_discard res lg = lg" if "sq_queued q = []"
    using discard_Inr [of runtime cells q _ q' change] discard_Inl [of runtime cells q _ q' change] l that
    by (cases res) (auto simp: log_discard_def)
  with ok discard_moves [OF _ l] discard_accounted [OF _ l] discard_active [OF l] show ?thesis
    by (auto simp: queue_ok_def moves_def)
qed

lemma queue_begin:
  assumes ok: "queue_ok q lg" and b: "try_begin_callback contended q = (res, q')"
  shows "queue_ok q' (log_begin res lg)"
    and "(res = Inl Contended \<or> res = Inr None) \<and> q' = q \<or>
      (\<exists>x rest d. sq_queued q = x # rest \<and> sq_active_callback q = None \<and> res = Inr (Some d) \<and> sq_queued q' = rest \<and> delivered_event d = x \<and>
        sq_active_callback q' = Some \<lparr> ac_ticket = cd_ticket d, ac_metadata = cd_metadata d \<rparr>)"
proof -
  show "queue_ok q' (log_begin res lg)"
    using ok begin_callback_moves [OF _ b] begin_accounted [OF _ b] by (auto simp: queue_ok_def moves_def)
  show "(res = Inl Contended \<or> res = Inr None) \<and> q' = q \<or>
      (\<exists>x rest d. sq_queued q = x # rest \<and> sq_active_callback q = None \<and> res = Inr (Some d) \<and> sq_queued q' = rest \<and> delivered_event d = x \<and>
        sq_active_callback q' = Some \<lparr> ac_ticket = cd_ticket d, ac_metadata = cd_metadata d \<rparr>)"
    using b by (auto simp: try_begin_callback_def issue_ticket_def Let_def delivered_event_def split: list.splits if_splits)
qed

lemma queue_complete:
  assumes ok: "queue_ok q lg" and c: "try_complete_callback runtime contended cell ticket q = (res, q', change)"
  shows "queue_ok q' lg" and "sq_queued q' = sq_queued q"
    and "res = Inr () \<Longrightarrow> sq_active_callback q' = None \<and> (\<exists>a. sq_active_callback q = Some a \<and> ac_ticket a = ticket)"
    and "res = Inl err \<Longrightarrow> sq_active_callback q' = sq_active_callback q"
proof -
  show "queue_ok q' lg" using ok complete_callback_moves [OF _ c] complete_accounted [OF _ c] by (auto simp: queue_ok_def moves_def)
  show "sq_queued q' = sq_queued q"
    "res = Inr () \<Longrightarrow> sq_active_callback q' = None \<and> (\<exists>a. sq_active_callback q = Some a \<and> ac_ticket a = ticket)"
    "res = Inl err \<Longrightarrow> sq_active_callback q' = sq_active_callback q"
    using c by (auto simp: try_complete_callback_def Let_def split: option.splits sum.splits prod.splits if_splits)
qed

subsection \<open>Failures leave the rest of the dispatcher alone\<close>

definition only_failures :: "'v SinkDispatchState \<Rightarrow> 'v SinkDispatchState \<Rightarrow> bool" where
  "only_failures d d' \<longleftrightarrow> sd_queue d' = sd_queue d \<and> sd_delivery_settling d' = sd_delivery_settling d \<and>
     sd_delivered_events d' = sd_delivered_events d \<and> sd_first_delivered_sequence d' = sd_first_delivered_sequence d \<and>
     sd_last_delivered_sequence d' = sd_last_delivered_sequence d \<and>
     (sd_callback_failure d \<noteq> None \<longrightarrow> sd_callback_failure d' = sd_callback_failure d) \<and>
     (sd_unexpected_failure d \<noteq> None \<longrightarrow> sd_unexpected_failure d' = sd_unexpected_failure d) \<and>
     (sd_runtime_cancel_requested d \<longrightarrow> sd_runtime_cancel_requested d')"

lemma only_failures_trans: "only_failures d d' \<Longrightarrow> only_failures d' d'' \<Longrightarrow> only_failures d d''"
  by (auto simp: only_failures_def)

lemma notify_keeps [simp]:
  "sd_callback_failure (notify_callback_failure d) = sd_callback_failure d"
  "sd_unexpected_failure (notify_unexpected_failure d) = sd_unexpected_failure d"
  by (simp_all add: notify_callback_failure_def notify_unexpected_failure_def split: option.splits)

lemma record_failures [simp]:
  "only_failures d (record_callback_failure failure d)" "only_failures d (record_unexpected_failure stage d)"
  "only_failures d (record_enqueue_sequence seq d)" "only_failures d (request_runtime_cancel d)" "only_failures d d"
proof -
  have u: "only_failures d (record_unexpected_failure st d)" for st
    by (simp add: record_unexpected_failure_def notify_unexpected_failure_def only_failures_def split: option.splits)
  then show "only_failures d (record_unexpected_failure stage d)" .
  show "only_failures d (record_callback_failure failure d)"
    by (simp add: record_callback_failure_def notify_callback_failure_def only_failures_def split: option.splits)
  show "only_failures d (record_enqueue_sequence seq d)"
    using u by (simp add: record_enqueue_sequence_def) (simp add: only_failures_def)
qed (simp_all add: only_failures_def request_runtime_cancel_def)

lemma record_failure_set [simp]:
  "sd_callback_failure (record_callback_failure failure d) \<noteq> None" "sd_unexpected_failure (record_unexpected_failure stage d) \<noteq> None"
  by (auto simp: record_callback_failure_def record_unexpected_failure_def)

lemma install_failures [simp]: "only_failures d (snd (install_failure_observer d))"
  by (simp add: install_failure_observer_def notify_callback_failure_def notify_unexpected_failure_def only_failures_def
      split: option.splits)

subsection \<open>Where the task is\<close>

definition begun :: "'v DispatchEvent sink_log \<Rightarrow> u64 list" where
  "begun lg = map (\<lambda>c. de_sequence (cd_item c)) (lg_delivered lg)"

definition excused :: "'v SinkDispatchState \<Rightarrow> bool" where
  "excused d \<longleftrightarrow> sd_callback_failure d \<noteq> None \<or> sd_unexpected_failure d \<noteq> None \<or> sd_runtime_cancel_requested d"

definition calling :: "u64 \<Rightarrow> task_state \<Rightarrow> 'v SinkDispatchState \<Rightarrow> 'v DispatchEvent sink_log \<Rightarrow> bool" where
  "calling seq t d lg \<longleftrightarrow> begun lg = ts_settled t @ [seq] \<and>
     (case sq_active_callback (sd_queue d) of Some a \<Rightarrow> ts_active t = Some (ac_ticket a, seq) | None \<Rightarrow> False)"

definition between_calls :: "task_state \<Rightarrow> 'v SinkDispatchState \<Rightarrow> bool" where
  "between_calls t d \<longleftrightarrow> ts_active t = None \<and> sq_active_callback (sd_queue d) = None"

definition task_ok :: "task_state \<Rightarrow> 'v SinkDispatchState \<Rightarrow> 'v DispatchEvent sink_log \<Rightarrow> bool" where
  "task_ok t d lg \<longleftrightarrow>
     (case ts_pc t of
        TaskCalling seq \<Rightarrow> calling seq t d lg \<and> \<not> sd_delivery_settling d
      | TaskSuccess seq \<Rightarrow> calling seq t d lg \<and> \<not> sd_delivery_settling d
      | TaskRetry seq \<Rightarrow> calling seq t d lg \<and> \<not> sd_delivery_settling d
      | TaskSettling seq \<Rightarrow> calling seq t d lg \<and> sd_delivery_settling d
      | TaskCompleted seq \<Rightarrow> between_calls t d \<and> begun lg = ts_settled t @ [seq] \<and> sd_delivery_settling d
      | TaskSettled status seq \<Rightarrow> sd_delivery_settling d \<and>
          (case status of COMPLETE_DONE \<Rightarrow> between_calls t d \<and> begun lg = ts_settled t
             | COMPLETE_RETRY \<Rightarrow> calling seq t d lg | COMPLETE_STOP \<Rightarrow> sd_unexpected_failure d \<noteq> None)
      | TaskFailed \<Rightarrow> \<not> sd_delivery_settling d \<and> (begun lg = ts_settled t \<or> excused d)
      | TaskFailRetry \<Rightarrow> \<not> sd_delivery_settling d \<and> (begun lg = ts_settled t \<or> excused d)
      | TaskDiscard \<Rightarrow> \<not> sd_delivery_settling d \<and> (begun lg = ts_settled t \<or> excused d)
      | TaskEnded \<Rightarrow> \<not> sd_delivery_settling d \<and> (begun lg = ts_settled t \<or> excused d)
      | _ \<Rightarrow> between_calls t d \<and> begun lg = ts_settled t \<and> \<not> sd_delivery_settling d)"

definition counters_ok :: "task_state \<Rightarrow> 'v SinkDispatchState \<Rightarrow> bool" where
  "counters_ok t d \<longleftrightarrow> sd_delivered_events d = length (ts_settled t) mod 2 ^ 64 \<and>
     sd_first_delivered_sequence d = (if ts_settled t = [] then 0 else hd (ts_settled t)) \<and>
     sd_last_delivered_sequence d = (if ts_settled t = [] then 0 else last (ts_settled t)) \<and> 0 \<notin> set (ts_settled t)"

definition delivery_inv :: "task_state \<Rightarrow> 'v SinkDispatchState \<Rightarrow> 'v DispatchEvent sink_log \<Rightarrow> bool" where
  "delivery_inv t d lg \<longleftrightarrow> queue_ok (sd_queue d) lg \<and> (\<forall>e \<in> set (lg_offered lg). de_sequence (qe_item e) \<noteq> 0) \<and>
     task_ok t d lg \<and> counters_ok t d"

text \<open>What the other threads may do under the task: the queue keeps its active callback, nothing is handed out.\<close>

definition beside :: "'v SinkDispatchState \<Rightarrow> 'v DispatchEvent sink_log \<Rightarrow> 'v SinkDispatchState \<Rightarrow> 'v DispatchEvent sink_log \<Rightarrow> bool" where
  "beside d lg d' lg' \<longleftrightarrow> only_failures (d\<lparr> sd_queue := sd_queue d' \<rparr>) d' \<and> sq_active_callback (sd_queue d') = sq_active_callback (sd_queue d) \<and>
     lg_delivered lg' = lg_delivered lg"

lemma beside_task:
  assumes b: "beside d lg d' lg'" and t: "task_ok t d lg"
  shows "task_ok t d' lg'"
proof -
  have b1: "begun lg' = begun lg" "calling seq t d' lg' = calling seq t d lg" "between_calls t d' = between_calls t d"
    "sd_delivery_settling d' = sd_delivery_settling d" for seq
    using b by (auto simp: beside_def only_failures_def begun_def calling_def between_calls_def)
  have b2: "excused d \<Longrightarrow> excused d'" "sd_unexpected_failure d \<noteq> None \<Longrightarrow> sd_unexpected_failure d' \<noteq> None"
    using b by (auto simp: beside_def only_failures_def excused_def)
  show ?thesis
    using t b2 unfolding task_ok_def b1 by (cases "ts_pc t") (auto split: complete_status.splits)
qed

lemma beside_delivery:
  assumes "beside d lg d' lg'" "delivery_inv t d lg" "queue_ok (sd_queue d') lg'" "\<forall>e \<in> set (lg_offered lg'). de_sequence (qe_item e) \<noteq> 0"
  shows "delivery_inv t d' lg'"
proof -
  have "counters_ok t d'" using assms(1,2) by (auto simp: delivery_inv_def counters_ok_def beside_def only_failures_def)
  with assms beside_task [OF assms(1), of t] show ?thesis by (simp add: delivery_inv_def)
qed

subsection \<open>Steps of the threads\<close>

fun thread_event :: "'v sink_thread \<Rightarrow> 'v DispatchEvent QueueEvent option" where
  "thread_event (Enqueuer call _) = offered_event call"
| "thread_event _ = None"

definition thread_keeps ::
  "'v sink_thread \<Rightarrow> 'v SinkLifecycle \<Rightarrow> 'v DispatchEvent sink_log \<Rightarrow> 'v SinkLifecycle \<Rightarrow> 'v DispatchEvent sink_log \<Rightarrow> bool" where
  "thread_keeps th lc lg lc' lg' \<longleftrightarrow> beside (lc_dispatcher lc) lg (lc_dispatcher lc') lg' \<and> queue_ok (lc_queue lc') lg' \<and>
     set (lg_offered lg') \<subseteq> set (lg_offered lg) \<union> set_option (thread_event th)"

lemma beside_same [simp]: "only_failures d d' \<Longrightarrow> beside d lg d' lg"
  by (simp add: beside_def only_failures_def)

lemma keeps_same: "queue_ok (lc_queue lc) lg \<Longrightarrow> lc_dispatcher lc' = lc_dispatcher lc \<Longrightarrow> thread_keeps th lc lg lc' lg"
  by (simp add: thread_keeps_def)

lemma keeps_failures:
  "queue_ok (lc_queue lc) lg \<Longrightarrow> only_failures (lc_dispatcher lc) (lc_dispatcher lc') \<Longrightarrow> thread_keeps th lc lg lc' lg"
  by (simp add: thread_keeps_def) (simp add: only_failures_def)

lemma log_sel [simp]:
  "lg_delivered (log_admit event out lg) = lg_delivered lg" "lg_offered (log_admit event out lg) = lg_offered lg @ [event]"
  "lg_delivered (log_discard res lg) = lg_delivered lg" "lg_offered (log_discard res lg) = lg_offered lg"
  "lg_offered (log_begin start lg) = lg_offered lg" "lg_dropped (log_begin start lg) = lg_dropped lg"
  by (simp_all add: log_admit_def log_discard_def log_begin_def split: sum.splits option.splits)

lemma beside_queue: "sq_active_callback q = sq_active_callback (sd_queue d) \<Longrightarrow> lg_delivered lg' = lg_delivered lg \<Longrightarrow>
    beside d lg (d\<lparr> sd_queue := q \<rparr>) lg'"
  by (simp add: beside_def)

lemma set_queue_sel [simp]: "lc_dispatcher (set_queue q lc) = (lc_dispatcher lc)\<lparr> sd_queue := q \<rparr>"
  by (simp add: set_queue_def)

lemma guarded_keeps:
  assumes ok: "queue_ok (lc_queue lc) lg" and g: "guarded_step runtime contended cells call pc lc lg = Some (pc', lc', lg')"
  shows "thread_keeps (Enqueuer call pc) lc lg lc' lg'"
proof (cases pc)
  case Guarded
  with g ok show ?thesis
    by (cases call) (auto simp: guarded_step_def number_event_def intro: keeps_failures keeps_same split: if_splits)
next
  case Numbering
  with g ok show ?thesis by (auto simp: guarded_step_def number_event_def intro: keeps_failures)
next
  case Admitting
  with g obtain event out q change where e: "offered_event call = Some event"
    and a: "try_admit runtime contended cells (lc_queue lc) event = Returned (out, q, change)"
    and eq: "lc' = set_queue q lc" "lg' = log_admit event out lg"
    by (auto simp: guarded_step_def split: option.splits call.splits prod.splits)
  show ?thesis unfolding eq using queue_admit [OF ok a] e by (auto simp: thread_keeps_def intro: beside_queue)
next
  case (Admitted out)
  show ?thesis
  proof (cases "is_stopped (lc_dispatcher lc) \<and> (case out of Enqueued _ \<Rightarrow> True | _ \<Rightarrow> False)")
    case False
    with g Admitted have "lc' = lc" "lg' = lg" by (simp_all add: guarded_step_def split: AdmissionOutcome.splits)
    with ok show ?thesis by (simp add: keeps_same)
  next
    case True
    with g Admitted obtain res q change where d: "try_discard_queued runtime contended cells (lc_queue lc) = Returned (res, q, change)"
      and eq: "lc' = set_queue q lc" "lg' = log_discard res lg"
      by (simp add: guarded_step_def split: call.splits prod.splits)
    show ?thesis unfolding eq using queue_discard [OF ok d] by (auto simp: thread_keeps_def intro: beside_queue)
  qed
qed (use g in \<open>simp_all add: guarded_step_def\<close>)

lemma begin_enqueue_dispatcher: "begin_enqueue pc lc = (pc', lc') \<Longrightarrow> lc_dispatcher lc' = lc_dispatcher lc"
  by (cases pc) auto

lemma enqueue_keeps:
  assumes ok: "queue_ok (lc_queue lc) lg" and e: "enqueue_step runtime contended cells call pc lc lg = Some (pc', lc', lg')"
  shows "thread_keeps (Enqueuer call pc) lc lg lc' lg'"
proof (cases "pc \<in> {LoadPhase, LoadTerminal, CountIn, ReloadPhase, ReloadTerminal}")
  case True
  with e have "begin_enqueue pc lc = (pc', lc')" "lg' = lg" by (auto simp: enqueue_step_def)
  with ok begin_enqueue_dispatcher [of pc lc pc' lc'] show ?thesis by (simp add: keeps_same)
next
  case False
  show ?thesis
  proof (cases "\<exists>result. pc = Leaving result")
    case True
    with e ok show ?thesis by (auto simp: enqueue_step_def keeps_same)
  next
    case no: False
    with False e have "guarded_step runtime contended cells call pc lc lg = Some (pc', lc', lg')"
      by (cases pc) (simp_all add: enqueue_step_def)
    then show ?thesis by (rule guarded_keeps [OF ok])
  qed
qed

lemma latch_dispatcher: "latch_step pc lc = Some (pc', lc') \<Longrightarrow> lc_dispatcher lc' = lc_dispatcher lc"
  by (cases pc) (auto split: if_splits)

lemma thread_keeps_step:
  assumes ok: "queue_ok (lc_queue lc) lg" and step: "thread_step runtime contended cells th lc lg = Some (th', lc', lg')"
  shows "thread_keeps th lc lg lc' lg'"
proof (cases th)
  case (Enqueuer call pc)
  with step show ?thesis by (auto intro: enqueue_keeps [OF ok])
next
  case (Sealer facts pc)
  with step have "lg' = lg" "lc_dispatcher lc' = lc_dispatcher lc" by (cases pc; auto split: if_splits)+
  with ok show ?thesis by (simp add: keeps_same)
next
  case (Closer pc)
  with step have "lg' = lg" "lc_dispatcher lc' = lc_dispatcher lc"
    using latch_dispatcher by (cases pc; auto split: if_splits latch_pc.splits)+
  with ok show ?thesis by (simp add: keeps_same)
next
  case (ShutdownCloser abandoned pc)
  with step have "lg' = lg" "lc_dispatcher lc' = lc_dispatcher lc"
    using latch_dispatcher by (cases pc; auto simp: Let_def split: if_splits latch_pc.splits)+
  with ok show ?thesis by (simp add: keeps_same)
next
  case (Discarder res)
  with step obtain r q change where d: "try_discard_queued runtime contended cells (lc_queue lc) = Returned (r, q, change)"
    and eq: "lc' = set_queue q lc" "lg' = log_discard r lg"
    by (cases res) (auto simp: try_discard_pending_def split: call.splits)
  show ?thesis unfolding eq using queue_discard [OF ok d] by (auto simp: thread_keeps_def intro: beside_queue)
qed

subsection \<open>Steps of the task\<close>

lemma complete_active_spec:
  assumes ok: "queue_ok (sd_queue d) lg" and c: "complete_active runtime contended cell active d = (status, active', d')"
  shows "queue_ok (sd_queue d') lg \<and> sq_queued (sd_queue d') = sq_queued (sd_queue d) \<and> only_failures (d\<lparr> sd_queue := sd_queue d' \<rparr>) d' \<and>
    (case status of
       COMPLETE_DONE \<Rightarrow> active' = None \<and> sq_active_callback (sd_queue d') = None \<and> sq_active_callback (sd_queue d) \<noteq> None
     | COMPLETE_RETRY \<Rightarrow> active' = active \<and> sq_active_callback (sd_queue d') = sq_active_callback (sd_queue d)
     | COMPLETE_STOP \<Rightarrow> active' = active \<and> sq_active_callback (sd_queue d') = sq_active_callback (sd_queue d) \<and> sd_unexpected_failure d' \<noteq> None)"
proof (cases active)
  case None
  with c have eq: "status = COMPLETE_STOP" "active' = active" "d' = record_unexpected_failure ''callback_complete'' d"
    by (simp_all add: complete_active_def)
  have "sd_queue d' = sd_queue d" unfolding eq using record_failures(2) [of d] by (simp add: only_failures_def)
  with ok eq show ?thesis by simp
next
  case (Some entry)
  obtain ticket seq where e: "entry = (ticket, seq)" by (cases entry)
  obtain res q change where t: "try_complete_callback runtime contended cell ticket (sd_queue d) = (res, q, change)"
    by (metis surj_pair)
  note x = queue_complete [OF ok t]
  show ?thesis
  proof (cases res)
    case (Inr u)
    with c Some e t have "status = COMPLETE_DONE" "active' = None" "d' = d\<lparr> sd_queue := q \<rparr>" by (simp_all add: complete_active_def)
    with x Inr show ?thesis by auto
  next
    case (Inl err)
    show ?thesis
    proof (cases "err = Contended")
      case True
      with c Some e t Inl have "status = COMPLETE_RETRY" "active' = active" "d' = d\<lparr> sd_queue := q \<rparr>" by (simp_all add: complete_active_def)
      with x Inl show ?thesis by auto
    next
      case False
      with c Some e t Inl have eq: "status = COMPLETE_STOP" "active' = active"
          "d' = record_unexpected_failure ''callback_complete'' (d\<lparr> sd_queue := q \<rparr>)"
        by (cases err; simp add: complete_active_def)+
      have f: "only_failures (d\<lparr> sd_queue := q \<rparr>) d'" unfolding eq by simp
      then have "sd_queue d' = q" by (simp add: only_failures_def)
      with f x(1,2) x(4) [OF Inl] eq show ?thesis by simp
    qed
  qed
qed

lemma delivery_invI:
  assumes "queue_ok (sd_queue d') lg'" "\<forall>e \<in> set (lg_offered lg'). de_sequence (qe_item e) \<noteq> 0" "task_ok t' d' lg'" "counters_ok t' d'"
  shows "delivery_inv t' d' lg'"
  using assms by (simp add: delivery_inv_def)

lemma counters_same:
  assumes "counters_ok t d" "only_failures (d\<lparr> sd_queue := q \<rparr>) d'" "ts_settled t' = ts_settled t"
  shows "counters_ok t' d'"
  using assms by (simp add: counters_ok_def only_failures_def)

text \<open>A step that only moves the task, with a failure recorded perhaps.\<close>

lemma task_moves:
  assumes inv: "delivery_inv t d lg" and f: "only_failures d d'" and t: "task_ok (t\<lparr> ts_pc := pc \<rparr>) d' lg"
  shows "delivery_inv (t\<lparr> ts_pc := pc \<rparr>) d' lg"
proof (rule delivery_invI [OF _ _ t])
  show "queue_ok (sd_queue d') lg" using inv f by (simp add: delivery_inv_def only_failures_def)
  show "counters_ok (t\<lparr> ts_pc := pc \<rparr>) d'"
    by (rule counters_same [where d = d and q = "sd_queue d" and t = t]) (use inv f in \<open>simp_all add: delivery_inv_def\<close>)
qed (use inv in \<open>simp add: delivery_inv_def\<close>)

lemma moved_task [simp]:
  "calling seq (t\<lparr> ts_pc := pc \<rparr>) d lg = calling seq t d lg" "between_calls (t\<lparr> ts_pc := pc \<rparr>) d = between_calls t d"
  by (simp_all add: calling_def between_calls_def split: option.splits)

lemma nonzero_begun:
  assumes "delivery_inv t d lg" "seq \<in> set (begun lg)"
  shows "seq \<noteq> 0"
proof -
  from assms(2) obtain c where c: "c \<in> set (lg_delivered lg)" "seq = de_sequence (cd_item c)" by (auto simp: begun_def)
  have "subseq (map delivered_event (lg_delivered lg) @ sq_queued (sd_queue d)) (map stored (lg_offered lg))"
    using assms(1) by (simp add: delivery_inv_def queue_ok_def accounted_def)
  then have "delivered_event c \<in> stored ` set (lg_offered lg)" by (rule list_emb_set [of _ _ _ "delivered_event c"]) (use c(1) in auto)
  with c assms(1) show ?thesis by (auto simp: delivered_event_def stored_def delivery_inv_def)
qed

lemma begin_step_inv:
  assumes inv: "delivery_inv t d lg" and pc: "ts_pc t = TaskBegin"
    and n: "next_dispatch contended (ts_active t) d = (handed, active, d')"
  shows "delivery_inv (t\<lparr> ts_pc := (case handed of None \<Rightarrow> TaskIdle | Some event \<Rightarrow> TaskCalling (de_sequence event)), ts_active := active \<rparr>) d'
    (log_begin (fst (try_begin_callback contended (sd_queue d))) lg)"
proof -
  have t: "ts_active t = None" "sq_active_callback (sd_queue d) = None" "begun lg = ts_settled t" "\<not> sd_delivery_settling d"
    and q: "queue_ok (sd_queue d) lg" and c: "counters_ok t d" and z: "\<forall>e \<in> set (lg_offered lg). de_sequence (qe_item e) \<noteq> 0"
    using inv pc by (simp_all add: delivery_inv_def task_ok_def between_calls_def)
  obtain res q' where b: "try_begin_callback contended (sd_queue d) = (res, q')" by (cases "try_begin_callback contended (sd_queue d)")
  from queue_begin(2) [OF q b] show ?thesis
  proof (elim disjE conjE exE)
    assume "res = Inl Contended" "q' = sd_queue d"
    with n b t(1) have eq: "handed = None" "active = None" "d' = d" by (simp_all add: next_dispatch_def)
    from \<open>res = _\<close> inv t(1) c z q t show ?thesis
      unfolding eq by (auto simp: b log_begin_def delivery_inv_def task_ok_def between_calls_def counters_ok_def)
  next
    assume "res = Inr None" "q' = sd_queue d"
    with n b t(1) have eq: "handed = None" "active = None" "d' = d" by (simp_all add: next_dispatch_def)
    from \<open>res = _\<close> inv t(1) c z q t show ?thesis
      unfolding eq by (auto simp: b log_begin_def delivery_inv_def task_ok_def between_calls_def counters_ok_def)
  next
    fix x rest v
    assume r: "res = Inr (Some v)" and a: "sq_active_callback q' = Some \<lparr> ac_ticket = cd_ticket v, ac_metadata = cd_metadata v \<rparr>"
    with n b t(1) have eq: "handed = Some (cd_item v)" "active = Some (cd_ticket v, de_sequence (cd_item v))" "d' = d\<lparr> sd_queue := q' \<rparr>"
      by (simp_all add: next_dispatch_def Let_def)
    have "begun (log_begin res lg) = ts_settled t @ [de_sequence (cd_item v)]" using t(3) r by (simp add: begun_def log_begin_def)
    with a queue_begin(1) [OF q b] z t(4) c show ?thesis
      unfolding eq b fst_conv by (simp add: delivery_inv_def task_ok_def calling_def counters_ok_def)
  qed
qed

lemma success_step_inv:
  assumes inv: "delivery_inv t d lg" and pc: "ts_pc t \<in> {TaskSuccess seq, TaskSettling seq, TaskCompleted seq, TaskSettled status seq}"
    and step: "complete_success_step runtime contended cell (ts_pc t) (ts_active t) d = (pc', active', d')"
  shows "delivery_inv (t\<lparr> ts_pc := pc', ts_active := active',
    ts_settled := ts_settled t @ (case ts_pc t of TaskCompleted seq \<Rightarrow> [seq] | _ \<Rightarrow> []) \<rparr>) d' lg"
proof -
  have q: "queue_ok (sd_queue d) lg" and c: "counters_ok t d" and z: "\<forall>e \<in> set (lg_offered lg). de_sequence (qe_item e) \<noteq> 0"
    and t: "task_ok t d lg" using inv by (simp_all add: delivery_inv_def)
  from pc consider "ts_pc t = TaskSuccess seq" | "ts_pc t = TaskSettling seq" | "ts_pc t = TaskCompleted seq" | "ts_pc t = TaskSettled status seq"
    by blast
  then show ?thesis
  proof cases
    case 1
    with t have k: "calling seq t d lg" "\<not> sd_delivery_settling d" by (simp_all add: task_ok_def)
    then have "\<not> (case ts_active t of None \<Rightarrow> True | Some (_, active_seq) \<Rightarrow> active_seq \<noteq> seq)"
      by (auto simp: calling_def split: option.splits)
    with 1 step have eq: "pc' = TaskSettling seq" "active' = ts_active t" "d' = begin_delivery_settlement d" by simp_all
    from k q c z 1 show ?thesis
      unfolding eq by (auto simp: begin_delivery_settlement_def delivery_inv_def task_ok_def calling_def counters_ok_def split: option.splits)
  next
    case 2
    with t have k: "calling seq t d lg" "sd_delivery_settling d" by (simp_all add: task_ok_def)
    obtain st ac d1 where a: "complete_active runtime contended cell (ts_active t) d = (st, ac, d1)" by (metis surj_pair)
    note s = complete_active_spec [OF q a]
    from 2 step a have eq: "pc' = (if st = COMPLETE_DONE then TaskCompleted seq else TaskSettled st seq)" "active' = ac" "d' = d1" by simp_all
    have "sd_delivery_settling d1" using s k by (simp add: only_failures_def)
    moreover have "task_ok (t\<lparr> ts_pc := pc', ts_active := ac \<rparr>) d1 lg"
      using s k \<open>sd_delivery_settling d1\<close>
      by (cases st) (auto simp: eq task_ok_def between_calls_def calling_def split: option.splits)
    moreover have "counters_ok (t\<lparr> ts_pc := pc', ts_active := ac \<rparr>) d1"
      using s by (intro counters_same [OF c, of "sd_queue d1"]) simp_all
    ultimately show ?thesis using s z 2 unfolding eq by (auto intro: delivery_invI)
  next
    case 3
    with t have k: "between_calls t d" "begun lg = ts_settled t @ [seq]" "sd_delivery_settling d" by (simp_all add: task_ok_def)
    from 3 step have eq: "pc' = TaskSettled COMPLETE_DONE seq" "active' = ts_active t" "d' = record_delivery seq d" by simp_all
    have "seq \<noteq> 0" using k(2) by (intro nonzero_begun [OF inv]) simp
    then have "counters_ok (t\<lparr> ts_settled := ts_settled t @ [seq] \<rparr>) (record_delivery seq d)"
      using c by (auto simp: counters_ok_def record_delivery_def mod_simps) (metis hd_in_set)
    with k q z 3 show ?thesis
      unfolding eq by (simp add: delivery_inv_def task_ok_def between_calls_def counters_ok_def record_delivery_def)
  next
    case 4
    with step have eq: "pc' = (case status of COMPLETE_RETRY \<Rightarrow> TaskRetry seq | COMPLETE_DONE \<Rightarrow> TaskPoll | COMPLETE_STOP \<Rightarrow> TaskEnded)"
      "active' = ts_active t" "d' = drop_delivery_settlement d" by simp_all
    from t q c z 4 show ?thesis
      unfolding eq by (cases status) (auto simp: drop_delivery_settlement_def delivery_inv_def task_ok_def between_calls_def calling_def
          counters_ok_def excused_def split: option.splits)
  qed
qed

lemma failed_active_inv:
  assumes inv: "delivery_inv t d lg" and pc: "ts_pc t = TaskFailed"
    and step: "complete_failed_active runtime contended cell (ts_active t) d = (pc', active', d')"
  shows "delivery_inv (t\<lparr> ts_pc := pc', ts_active := active' \<rparr>) d' lg"
proof (cases "ts_active t")
  case None
  with step have "pc' = TaskDiscard" "active' = ts_active t" "d' = d" by (simp_all add: complete_failed_active_def)
  with inv pc show ?thesis by (auto simp: delivery_inv_def task_ok_def counters_ok_def)
next
  case (Some entry)
  have q: "queue_ok (sd_queue d) lg" and c: "counters_ok t d" and z: "\<forall>e \<in> set (lg_offered lg). de_sequence (qe_item e) \<noteq> 0"
    and t: "\<not> sd_delivery_settling d" "begun lg = ts_settled t \<or> excused d" using inv pc by (simp_all add: delivery_inv_def task_ok_def)
  obtain st ac d1 where a: "complete_active runtime contended cell (ts_active t) d = (st, ac, d1)" by (metis surj_pair)
  note s = complete_active_spec [OF q a]
  from Some step a have eq: "pc' = (case st of COMPLETE_DONE \<Rightarrow> TaskDiscard | COMPLETE_RETRY \<Rightarrow> TaskFailRetry | COMPLETE_STOP \<Rightarrow> TaskEnded)"
    "active' = ac" "d' = d1" by (simp_all add: complete_failed_active_def)
  have "\<not> sd_delivery_settling d1 \<and> (begun lg = ts_settled t \<or> excused d1)"
    using s t by (auto simp: only_failures_def excused_def)
  then have "task_ok (t\<lparr> ts_pc := pc', ts_active := ac \<rparr>) d1 lg" by (cases st) (simp_all add: eq task_ok_def)
  moreover have "counters_ok (t\<lparr> ts_pc := pc', ts_active := ac \<rparr>) d1"
    using s by (intro counters_same [OF c, of "sd_queue d1"]) simp_all
  ultimately show ?thesis unfolding eq using s z by (auto intro: delivery_invI)
qed

lemma discards_inv:
  assumes inv: "delivery_inv t d lg" and d: "try_discard_queued runtime contended cells (sd_queue d) = Returned (res, q, change)"
    and f: "only_failures (d\<lparr> sd_queue := q \<rparr>) d'" and pc: "task_ok t d lg \<Longrightarrow> task_ok (t\<lparr> ts_pc := pc' \<rparr>) d lg"
  shows "delivery_inv (t\<lparr> ts_pc := pc' \<rparr>) d' (log_discard res lg)"
proof -
  have q: "queue_ok (sd_queue d) lg" and inv': "delivery_inv (t\<lparr> ts_pc := pc' \<rparr>) d lg"
    using inv pc by (auto simp: delivery_inv_def counters_ok_def)
  note x = queue_discard [OF q d]
  have "sd_queue d' = q" using f by (simp add: only_failures_def)
  then have "beside d lg d' (log_discard res lg)" using f x by (simp add: beside_def)
  moreover have "\<forall>e \<in> set (lg_offered (log_discard res lg)). de_sequence (qe_item e) \<noteq> 0" using inv by (simp add: delivery_inv_def)
  ultimately show ?thesis using x \<open>sd_queue d' = q\<close> by (intro beside_delivery [OF _ inv']) simp_all
qed

lemma task_step_inv:
  assumes inv: "delivery_inv t d lg" and step: "task_step runtime contended cells result stopping t d lg = Some (t', d', lg')"
  shows "delivery_inv t' d' lg'"
proof -
  have t: "task_ok t d lg" using inv by (simp add: delivery_inv_def)
  have success: ?thesis if pc: "ts_pc t \<in> {TaskSuccess seq, TaskSettling seq, TaskCompleted seq, TaskSettled status seq}" for seq status
  proof -
    from step pc obtain cell rest where "cells = cell # rest" by (cases cells) (auto simp: task_step_def)
    moreover obtain pc' ac d1 where n: "complete_success_step runtime contended cell (ts_pc t) (ts_active t) d = (pc', ac, d1)"
      by (metis surj_pair)
    ultimately show ?thesis using step pc success_step_inv [OF inv pc n] n by (auto simp: task_step_def)
  qed
  show ?thesis
  proof (cases "ts_pc t")
    case TaskPoll
    with step have eq: "t' = t\<lparr> ts_pc := if is_stopped d then TaskIdle else TaskBegin \<rparr>" "d' = d" "lg' = lg" by (auto simp: task_step_def)
    show ?thesis unfolding eq using t TaskPoll by (intro task_moves [OF inv]) (auto simp: task_ok_def between_calls_def)
  next
    case TaskBegin
    obtain handed active d1 where n: "next_dispatch contended (ts_active t) d = (handed, active, d1)" by (metis surj_pair)
    with step TaskBegin begin_step_inv [OF inv TaskBegin n] show ?thesis by (simp add: task_step_def)
  next
    case TaskIdle
    show ?thesis
    proof (cases "is_stopped d")
      case False
      with step TaskIdle have eq: "t' = t\<lparr> ts_pc := if stopping then TaskEnded else TaskSleep \<rparr>" "d' = d" "lg' = lg"
        by (auto simp: task_step_def sink_stopped_def)
      show ?thesis unfolding eq using t TaskIdle by (intro task_moves [OF inv]) (auto simp: task_ok_def between_calls_def)
    next
      case True
      with step TaskIdle obtain res q change where d: "try_discard_queued runtime contended cells (sd_queue d) = Returned (res, q, change)"
        and eq: "t' = t\<lparr> ts_pc := TaskEnded \<rparr>" "d' = d\<lparr> sd_queue := q \<rparr>" "lg' = log_discard res lg"
        by (auto simp: task_step_def sink_stopped_def split: call.splits)
      show ?thesis unfolding eq using TaskIdle by (intro discards_inv [OF inv d]) (auto simp: task_ok_def)
    qed
  next
    case TaskSleep
    with step obtain pc where eq: "t' = t\<lparr> ts_pc := pc \<rparr>" "d' = d" "lg' = lg" "pc = TaskFailed \<or> pc = TaskPoll"
      by (auto simp: task_step_def split: if_splits)
    show ?thesis unfolding eq(1-3) using t TaskSleep eq(4) by (intro task_moves [OF inv]) (auto simp: task_ok_def between_calls_def)
  next
    case (TaskCalling seq)
    from t TaskCalling have k: "calling seq t d lg" "\<not> sd_delivery_settling d" by (simp_all add: task_ok_def)
    from step TaskCalling consider "t' = t\<lparr> ts_pc := TaskSuccess seq \<rparr>" "d' = d" "lg' = lg"
      | failure where "t' = t\<lparr> ts_pc := TaskFailed \<rparr>" "d' = record_callback_failure failure d" "lg' = lg"
      | "t' = t\<lparr> ts_pc := TaskFailed \<rparr>" "d' = d" "lg' = lg" "sd_runtime_cancel_requested d"
      by (auto simp: task_step_def split: callback_end.splits if_splits)
    then show ?thesis
    proof cases
      case 1
      show ?thesis unfolding 1 using k by (intro task_moves [OF inv]) (simp_all add: task_ok_def)
    next
      case 2
      have "\<not> sd_delivery_settling (record_callback_failure failure d)"
        using k record_failures(1) [of d failure] by (simp add: only_failures_def)
      then show ?thesis unfolding 2 by (intro task_moves [OF inv]) (simp_all add: task_ok_def excused_def)
    next
      case 3
      show ?thesis unfolding 3(1-3) using k 3(4) by (intro task_moves [OF inv]) (simp_all add: task_ok_def excused_def)
    qed
  next
    case (TaskRetry seq)
    from t TaskRetry have k: "calling seq t d lg" "\<not> sd_delivery_settling d" by (simp_all add: task_ok_def)
    from step TaskRetry consider "t' = t\<lparr> ts_pc := TaskSuccess seq \<rparr>" "d' = d" "lg' = lg"
      | "t' = t\<lparr> ts_pc := TaskFailed \<rparr>" "d' = d" "lg' = lg" "sd_runtime_cancel_requested d"
      by (auto simp: task_step_def split: if_splits)
    then show ?thesis
    proof cases
      case 1
      show ?thesis unfolding 1 using k by (intro task_moves [OF inv]) (simp_all add: task_ok_def)
    next
      case 2
      show ?thesis unfolding 2(1-3) using k 2(4) by (intro task_moves [OF inv]) (simp_all add: task_ok_def excused_def)
    qed
  next
    case TaskFailed
    with step obtain cell rest where "cells = cell # rest" by (auto simp: task_step_def split: list.splits)
    moreover obtain pc' ac d1 where n: "complete_failed_active runtime contended cell (ts_active t) d = (pc', ac, d1)" by (metis surj_pair)
    ultimately show ?thesis using step TaskFailed failed_active_inv [OF inv TaskFailed n] by (simp add: task_step_def)
  next
    case TaskDiscard
    with step obtain res q change where d: "try_discard_queued runtime contended cells (sd_queue d) = Returned (res, q, change)"
      by (auto simp: task_step_def complete_failed_discard_def split: call.splits)
    with step TaskDiscard have eq: "lg' = log_discard res lg" "only_failures (d\<lparr> sd_queue := q \<rparr>) d'"
        "\<exists>pc \<in> {TaskEnded, TaskFailRetry}. t' = t\<lparr> ts_pc := pc \<rparr>"
      by (cases res; auto simp: task_step_def complete_failed_discard_def Let_def split: QueueAccessError.splits)+
    then show ?thesis using TaskDiscard by (auto simp: task_ok_def intro!: discards_inv [OF inv d])
  next
    case TaskFailRetry
    with step obtain pc where eq: "t' = t\<lparr> ts_pc := pc \<rparr>" "d' = d" "lg' = lg" "pc = TaskFailed \<or> pc = TaskEnded"
      by (auto simp: task_step_def split: if_splits)
    show ?thesis unfolding eq(1-3) using t TaskFailRetry eq(4) by (intro task_moves [OF inv]) (auto simp: task_ok_def)
  next
    case TaskEnded
    with step show ?thesis by (simp add: task_step_def)
  qed (use success in simp_all)
qed

end
