(* ===== verification/Sink_Summary.thy ===== *)
theory Sink_Summary
  imports Sink_Delivery
begin

section \<open>What the summary of a sink stands for\<close>

text \<open>
  A sealed sink whose queue is empty stays that way, and once its last callback has settled nothing
  about its deliveries changes any more; this is what the drained close waits for. From there on a summary
  that calls itself complete is a statement about everything the sink was ever offered.
\<close>

subsection \<open>A drained sink\<close>

definition emptied :: "'v sink_system \<Rightarrow> bool" where
  "emptied s \<longleftrightarrow> sealed_off (sy_lifecycle s) \<and> sq_queued (lc_queue (sy_lifecycle s)) = [] \<and>
     sq_active_callback (lc_queue (sy_lifecycle s)) = None"

definition quiet :: "'v sink_system \<Rightarrow> bool" where
  "quiet s \<longleftrightarrow> emptied s \<and> \<not> sd_delivery_settling (lc_dispatcher (sy_lifecycle s))"

definition system_ok :: "'v sink_system \<Rightarrow> bool" where
  "system_ok s \<longleftrightarrow> system_gate s \<and> delivery_inv (sy_task s) (lc_dispatcher (sy_lifecycle s)) (sy_log s) \<and>
     (\<forall>th \<in> set (sy_threads s). \<forall>e. thread_event th = Some e \<longrightarrow> de_sequence (qe_item e) \<noteq> 0)"

lemma thread_event_step: "thread_step runtime contended cells th lc lg = Some (th', lc', lg') \<Longrightarrow> thread_event th' = thread_event th"
  by (cases "(runtime, contended, cells, th, lc, lg)" rule: thread_step.cases) auto

lemma failures_delivery: "only_failures d d' \<Longrightarrow> delivery_inv t d lg \<Longrightarrow> delivery_inv t d' lg"
  using beside_delivery [OF beside_same, of d d' t lg] by (simp add: delivery_inv_def only_failures_def)

lemma system_step_ok:
  assumes ok: "system_ok s" and step: "system_step runtime choice s = Some s'"
  shows "system_ok s'"
proof -
  note g = system_step_gate [OF step]
  show ?thesis
  proof (cases choice)
    case (ThreadStep i contended cells)
    let ?lc = "sy_lifecycle s" and ?lg = "sy_log s" and ?th = "sy_threads s ! i"
    from step ThreadStep obtain th' lc' lg' where i: "i < length (sy_threads s)"
      and t: "thread_step runtime contended cells ?th ?lc ?lg = Some (th', lc', lg')"
      and s': "s' = s\<lparr> sy_lifecycle := lc', sy_threads := (sy_threads s)[i := th'], sy_log := lg' \<rparr>"
      by (auto split: if_splits)
    have z: "\<forall>e. thread_event ?th = Some e \<longrightarrow> de_sequence (qe_item e) \<noteq> 0" using ok i by (auto simp: system_ok_def)
    have "queue_ok (lc_queue ?lc) ?lg" using ok by (simp add: system_ok_def delivery_inv_def)
    from thread_keeps_step [OF this t] have k: "beside (lc_dispatcher ?lc) ?lg (lc_dispatcher lc') lg'" "queue_ok (lc_queue lc') lg'"
      and sub: "set (lg_offered lg') \<subseteq> set (lg_offered ?lg) \<union> set_option (thread_event ?th)" by (simp_all add: thread_keeps_def)
    have "\<forall>e \<in> set (lg_offered lg'). de_sequence (qe_item e) \<noteq> 0"
      using sub z ok by (fastforce simp: system_ok_def delivery_inv_def)
    with k ok have "delivery_inv (sy_task s) (lc_dispatcher lc') lg'" by (auto simp: system_ok_def intro: beside_delivery)
    moreover have "\<forall>th \<in> set ((sy_threads s)[i := th']). \<forall>e. thread_event th = Some e \<longrightarrow> de_sequence (qe_item e) \<noteq> 0"
      using ok z thread_event_step [OF t] set_update_subset_insert [of "sy_threads s" i th'] by (fastforce simp: system_ok_def)
    ultimately show ?thesis using g ok by (simp add: system_ok_def s')
  next
    case (TaskStep contended cells result)
    with step g ok show ?thesis by (auto simp: system_ok_def intro: task_step_inv)
  next
    case StopRequest
    with step g ok show ?thesis by (auto simp: system_ok_def)
  next
    case CancelRequest
    with step g ok failures_delivery [OF record_failures(4)] show ?thesis by (auto simp: system_ok_def)
  next
    case InstallObserver
    with step g ok failures_delivery [OF install_failures] show ?thesis by (auto simp: system_ok_def)
  qed
qed

lemma reaches_ok: "sink_reaches runtime s s' \<Longrightarrow> system_ok s \<Longrightarrow> system_ok s'"
  by (induction rule: sink_reaches.induct) (auto intro: system_step_ok)

lemma system_ok_init:
  assumes "\<forall>th \<in> set threads. starting th" "length threads \<le> usize_max" "sink_ok (SinkQueue_with_limits limits :: 'v DispatchEvent SinkQueue)"
  shows "system_ok (sink_system_init run_id act_id sink_id limits threads :: 'v sink_system)"
proof -
  have "de_sequence (qe_item e) \<noteq> 0" if "th \<in> set threads" "thread_event th = Some e" for th e
    using assms(1) that by (cases th) (auto split: option.splits)
  moreover have "queue_ok (SinkQueue_with_limits limits :: 'v DispatchEvent SinkQueue) \<lparr> lg_offered = [], lg_delivered = [], lg_dropped = [] \<rparr>"
    using assms(3) by (simp add: queue_ok_def accounted_def SinkQueue_with_limits_def tally_Nil)
  ultimately show ?thesis
    using system_gate_init [OF assms(1,2)]
    by (simp add: system_ok_def sink_system_init_def SinkHandle_new_def SinkDispatcher_new_def delivery_inv_def task_ok_def
        between_calls_def counters_ok_def begun_def) (simp add: SinkQueue_with_limits_def)
qed

subsection \<open>Nothing moves any more\<close>

definition still :: "'v SinkDispatchState \<Rightarrow> 'v DispatchEvent sink_log \<Rightarrow> 'v SinkDispatchState \<Rightarrow> 'v DispatchEvent sink_log \<Rightarrow> bool" where
  "still d lg d' lg' \<longleftrightarrow> lg' = lg \<and> only_failures (d\<lparr> sd_queue := sd_queue d' \<rparr>) d' \<and>
     sq_queued (sd_queue d') = [] \<and> sq_active_callback (sd_queue d') = sq_active_callback (sd_queue d)"

lemma still_same: "only_failures d d' \<Longrightarrow> sq_queued (sd_queue d) = [] \<Longrightarrow> still d lg d' lg"
  by (simp add: still_def only_failures_def)

lemma still_discard:
  assumes "queue_ok (sd_queue d) lg" "sq_queued (sd_queue d) = []"
    "try_discard_queued runtime contended cells (sd_queue d) = Returned (res, q, change)" "only_failures (d\<lparr> sd_queue := q \<rparr>) d'"
  shows "still d lg d' (log_discard res lg)"
proof -
  have "sd_queue d' = q" using assms(4) by (simp add: only_failures_def)
  with queue_discard [OF assms(1,3)] assms(2,4) show ?thesis by (simp add: still_def)
qed

lemma thread_still:
  assumes ok: "queue_ok (lc_queue lc) lg" and e: "sq_queued (lc_queue lc) = []" and out: "\<not> inside th"
    and step: "thread_step runtime contended cells th lc lg = Some (th', lc', lg')"
  shows "still (lc_dispatcher lc) lg (lc_dispatcher lc') lg'"
proof (cases th)
  case (Enqueuer call pc)
  with out step have "lg' = lg" "lc_dispatcher lc' = lc_dispatcher lc" by (cases pc; auto simp: enqueue_step_def)+
  with e show ?thesis by (simp add: still_same)
next
  case (Sealer facts pc)
  with step have "lg' = lg" "lc_dispatcher lc' = lc_dispatcher lc" by (cases pc; auto split: if_splits)+
  with e show ?thesis by (simp add: still_same)
next
  case (Closer pc)
  with step have "lg' = lg" "lc_dispatcher lc' = lc_dispatcher lc"
    using latch_dispatcher by (cases pc; auto split: if_splits latch_pc.splits)+
  with e show ?thesis by (simp add: still_same)
next
  case (ShutdownCloser abandoned pc)
  with step have "lg' = lg" "lc_dispatcher lc' = lc_dispatcher lc"
    using latch_dispatcher by (cases pc; auto simp: Let_def split: if_splits latch_pc.splits)+
  with e show ?thesis by (simp add: still_same)
next
  case (Discarder r)
  with step obtain res q change where d: "try_discard_queued runtime contended cells (lc_queue lc) = Returned (res, q, change)"
    and eq: "lc' = set_queue q lc" "lg' = log_discard res lg"
    by (cases r) (auto simp: try_discard_pending_def split: call.splits)
  show ?thesis unfolding eq by (rule still_discard [OF ok e d]) simp
qed

lemma enqueue_phase: "enqueue_step runtime contended cells call pc lc lg = Some (pc', lc', lg') \<Longrightarrow> lc_phase lc' = lc_phase lc"
  using guarded_cases [of runtime contended cells call pc lc lg pc' lc' lg']
  by (cases pc) (auto simp: enqueue_step_def same_gate_def)

lemma thread_sealed_off:
  assumes "thread_step runtime contended cells th lc lg = Some (th', lc', lg')" "sealed_off lc"
  shows "sealed_off lc'"
proof (cases th)
  case (Enqueuer call pc)
  with assms show ?thesis by (auto simp: sealed_off_def dest!: enqueue_phase)
next
  case (Sealer facts pc)
  with assms show ?thesis by (cases pc) (auto simp: sealed_off_def split: if_splits)
next
  case (Closer pc)
  with assms show ?thesis by (cases pc) (auto simp: sealed_off_def split: latch_pc.splits if_splits)
next
  case (ShutdownCloser abandoned pc)
  with assms show ?thesis by (cases pc) (auto simp: sealed_off_def Let_def split: latch_pc.splits if_splits)
next
  case (Discarder r)
  with assms show ?thesis by (cases r) (auto simp: try_discard_pending_def sealed_off_def set_queue_def split: call.splits)
qed

definition at_rest :: "task_pc \<Rightarrow> bool" where
  "at_rest pc \<longleftrightarrow> pc \<in> {TaskPoll, TaskBegin, TaskIdle, TaskSleep, TaskFailed, TaskFailRetry, TaskDiscard, TaskEnded}"

lemma quiet_at_rest:
  assumes "task_ok t d lg" "sq_active_callback (sd_queue d) = None" "\<not> sd_delivery_settling d"
  shows "at_rest (ts_pc t)"
  using assms by (cases "ts_pc t") (auto simp: task_ok_def at_rest_def calling_def)

lemma task_rest_still:
  assumes ok: "queue_ok (sd_queue d) lg" and e: "sq_queued (sd_queue d) = []" "sq_active_callback (sd_queue d) = None"
    and r: "at_rest (ts_pc t)" and step: "task_step runtime contended cells result stopping t d lg = Some (t', d', lg')"
  shows "still d lg d' lg' \<and> ts_settled t' = ts_settled t"
proof (cases "ts_pc t")
  case TaskBegin
  have b: "try_begin_callback contended (sd_queue d) = (if contended then Inl Contended else Inr None, sd_queue d)"
    using e by (simp add: try_begin_callback_def)
  with step TaskBegin have "d' = d" "lg' = lg" "ts_settled t' = ts_settled t"
    by (auto simp: task_step_def next_dispatch_def log_begin_def split: if_splits)
  with e show ?thesis by (simp add: still_same)
next
  case TaskIdle
  show ?thesis
  proof (cases "is_stopped d")
    case False
    with step TaskIdle e show ?thesis by (auto simp: task_step_def sink_stopped_def still_same)
  next
    case True
    with step TaskIdle obtain res q change where d: "try_discard_queued runtime contended cells (sd_queue d) = Returned (res, q, change)"
      and eq: "ts_settled t' = ts_settled t" "d' = d\<lparr> sd_queue := q \<rparr>" "lg' = log_discard res lg"
      by (auto simp: task_step_def sink_stopped_def split: call.splits)
    with still_discard [OF ok e(1) d] show ?thesis by simp
  qed
next
  case TaskFailed
  with step obtain cell rest where c: "cells = cell # rest" by (auto simp: task_step_def split: list.splits)
  obtain st ac d1 where a: "complete_active runtime contended cell (ts_active t) d = (st, ac, d1)" by (metis surj_pair)
  note s = complete_active_spec [OF ok a]
  have "still d lg d1 lg" using s e by (cases st) (auto simp: still_def)
  with step TaskFailed c a e show ?thesis
    by (auto simp: task_step_def complete_failed_active_def still_same split: if_splits)
next
  case TaskDiscard
  with step obtain res q change where d: "try_discard_queued runtime contended cells (sd_queue d) = Returned (res, q, change)"
    by (auto simp: task_step_def complete_failed_discard_def split: call.splits)
  with step TaskDiscard have eq: "lg' = log_discard res lg" "only_failures (d\<lparr> sd_queue := q \<rparr>) d'" "ts_settled t' = ts_settled t"
    by (cases res; auto simp: task_step_def complete_failed_discard_def Let_def split: QueueAccessError.splits)+
  with still_discard [OF ok e(1) d] show ?thesis by simp
qed (use r step e in \<open>auto simp: at_rest_def task_step_def still_same split: if_splits\<close>)

lemma task_emptied:
  assumes inv: "delivery_inv t d lg" and e: "sq_queued (sd_queue d) = []" "sq_active_callback (sd_queue d) = None"
    and step: "task_step runtime contended cells result stopping t d lg = Some (t', d', lg')"
  shows "sq_queued (sd_queue d') = [] \<and> sq_active_callback (sd_queue d') = None"
proof (cases "at_rest (ts_pc t)")
  case True
  have "queue_ok (sd_queue d) lg" using inv by (simp add: delivery_inv_def)
  from task_rest_still [OF this e True step] e show ?thesis by (simp add: still_def)
next
  case False
  have "task_ok t d lg" using inv by (simp add: delivery_inv_def)
  with False e(2) consider (completed) seq where "ts_pc t = TaskCompleted seq" | (settled) status seq where "ts_pc t = TaskSettled status seq"
    by (cases "ts_pc t") (auto simp: at_rest_def task_ok_def calling_def)
  then show ?thesis
  proof cases
    case completed
    with step e show ?thesis by (cases cells) (auto simp: task_step_def record_delivery_def)
  next
    case settled
    with step e show ?thesis by (cases cells) (auto simp: task_step_def drop_delivery_settlement_def)
  qed
qed

text \<open>A step of the whole system in such a state.\<close>

lemma gate_outside: "system_gate s \<Longrightarrow> sealed_off (sy_lifecycle s) \<Longrightarrow> i < length (sy_threads s) \<Longrightarrow> \<not> inside (sy_threads s ! i)"
  by (auto simp: system_gate_def gate_inv_def)

lemma emptied_step:
  assumes ok: "system_ok s" and e: "emptied s" and step: "system_step runtime choice s = Some s'"
  shows "emptied s'"
proof (cases choice)
  case (ThreadStep i contended cells)
  with step obtain th' lc' lg' where i: "i < length (sy_threads s)"
    and t: "thread_step runtime contended cells (sy_threads s ! i) (sy_lifecycle s) (sy_log s) = Some (th', lc', lg')"
    and s': "sy_lifecycle s' = lc'"
    by (auto split: if_splits)
  have "still (lc_dispatcher (sy_lifecycle s)) (sy_log s) (lc_dispatcher lc') lg'"
    using ok e gate_outside [of s i] i by (intro thread_still [OF _ _ _ t]) (simp_all add: system_ok_def delivery_inv_def emptied_def)
  with e thread_sealed_off [OF t] s' show ?thesis by (simp add: emptied_def still_def)
next
  case (TaskStep contended cells result)
  with step obtain t' d' lg' where
    t: "task_step runtime contended cells result (sy_stopping s) (sy_task s) (lc_dispatcher (sy_lifecycle s)) (sy_log s) = Some (t', d', lg')"
    and s': "sy_lifecycle s' = (sy_lifecycle s)\<lparr> lc_dispatcher := d' \<rparr>" by auto
  have "sq_queued (sd_queue d') = [] \<and> sq_active_callback (sd_queue d') = None"
    using ok e by (intro task_emptied [OF _ _ _ t]) (simp_all add: system_ok_def emptied_def)
  with e s' show ?thesis by (simp add: emptied_def sealed_off_def)
next
  case InstallObserver
  with step e install_failures [of "lc_dispatcher (sy_lifecycle s)"] show ?thesis by (auto simp: emptied_def sealed_off_def only_failures_def)
next
  case CancelRequest
  with step e show ?thesis by (auto simp: emptied_def sealed_off_def request_runtime_cancel_def)
qed (use step e in \<open>auto simp: emptied_def\<close>)

definition stays :: "'v sink_system \<Rightarrow> 'v sink_system \<Rightarrow> bool" where
  "stays s s' \<longleftrightarrow> sy_log s' = sy_log s \<and> ts_settled (sy_task s') = ts_settled (sy_task s) \<and>
     (sd_callback_failure (lc_dispatcher (sy_lifecycle s)) \<noteq> None \<longrightarrow> sd_callback_failure (lc_dispatcher (sy_lifecycle s')) \<noteq> None) \<and>
     (sd_unexpected_failure (lc_dispatcher (sy_lifecycle s)) \<noteq> None \<longrightarrow> sd_unexpected_failure (lc_dispatcher (sy_lifecycle s')) \<noteq> None)"

lemma quiet_step:
  assumes ok: "system_ok s" and q: "quiet s" and step: "system_step runtime choice s = Some s'"
  shows "quiet s' \<and> stays s s'"
proof -
  have e: "emptied s" using q by (simp add: quiet_def)
  note e' = emptied_step [OF ok e step]
  let ?d = "lc_dispatcher (sy_lifecycle s)"
  have still: ?thesis if "still ?d (sy_log s) (lc_dispatcher (sy_lifecycle s')) (sy_log s')" "ts_settled (sy_task s') = ts_settled (sy_task s)"
    using that q e' by (auto simp: quiet_def stays_def still_def only_failures_def)
  have qs: "sq_queued (sd_queue ?d) = []" "sq_active_callback (sd_queue ?d) = None" using e by (simp_all add: emptied_def)
  show ?thesis
  proof (cases choice)
    case (ThreadStep i contended cells)
    with step obtain th' lc' lg' where i: "i < length (sy_threads s)"
      and t: "thread_step runtime contended cells (sy_threads s ! i) (sy_lifecycle s) (sy_log s) = Some (th', lc', lg')"
      and s': "sy_lifecycle s' = lc'" "sy_log s' = lg'" "sy_task s' = sy_task s"
      by (auto split: if_splits)
    have "still ?d (sy_log s) (lc_dispatcher lc') lg'"
      using ok e gate_outside [of s i] i by (intro thread_still [OF _ _ _ t]) (simp_all add: system_ok_def delivery_inv_def emptied_def)
    with still s' show ?thesis by simp
  next
    case (TaskStep contended cells result)
    with step obtain t' d' lg' where
      t: "task_step runtime contended cells result (sy_stopping s) (sy_task s) ?d (sy_log s) = Some (t', d', lg')"
      and s': "sy_lifecycle s' = (sy_lifecycle s)\<lparr> lc_dispatcher := d' \<rparr>" "sy_task s' = t'" "sy_log s' = lg'" by auto
    have "queue_ok (sd_queue ?d) (sy_log s)" "task_ok (sy_task s) ?d (sy_log s)" using ok by (simp_all add: system_ok_def delivery_inv_def)
    moreover from this(2) have "at_rest (ts_pc (sy_task s))" using q qs by (intro quiet_at_rest) (auto simp: quiet_def)
    ultimately show ?thesis using task_rest_still [OF _ qs _ t] still s' by simp
  next
    case InstallObserver
    with step qs show ?thesis by (intro still) (auto simp: still_same)
  next
    case CancelRequest
    with step qs show ?thesis by (intro still) (auto simp: still_same)
  next
    case StopRequest
    with step qs show ?thesis by (intro still) (auto simp: still_same)
  qed
qed

subsection \<open>The promise of a summary\<close>

definition promise :: "'v sink_system \<Rightarrow> SinkDeliverySummary \<Rightarrow> bool" where
  "promise s summary \<longleftrightarrow> (sum_complete summary \<longrightarrow>
     quiet s \<and> begun (sy_log s) = ts_settled (sy_task s) \<and> lg_dropped (sy_log s) = [] \<and>
     sum_delivered_events summary = length (ts_settled (sy_task s)) mod 2 ^ 64 \<and>
     sum_first_delivered_sequence summary = (case ts_settled (sy_task s) of [] \<Rightarrow> None | x # _ \<Rightarrow> Some x) \<and>
     sum_last_delivered_sequence summary = (if ts_settled (sy_task s) = [] then None else Some (last (ts_settled (sy_task s)))))"

definition drained_for :: "'v sink_system \<Rightarrow> SinkCloseReason \<Rightarrow> bool" where
  "drained_for s nominal \<longleftrightarrow> (nominal = ClosedActFinished \<longrightarrow> quiet s \<and>
     (begun (sy_log s) = ts_settled (sy_task s) \<or> sd_callback_failure (lc_dispatcher (sy_lifecycle s)) \<noteq> None \<or>
      sd_unexpected_failure (lc_dispatcher (sy_lifecycle s)) \<noteq> None))"

fun latch_holds :: "'v sink_system \<Rightarrow> latch_pc \<Rightarrow> bool" where
  "latch_holds s (LatchLoad nominal _) \<longleftrightarrow> drained_for s nominal"
| "latch_holds s (LatchSwap nominal _) \<longleftrightarrow> drained_for s nominal"
| "latch_holds s (LatchCompute nominal _) \<longleftrightarrow> drained_for s nominal"
| "latch_holds s (LatchSet summary) \<longleftrightarrow> promise s summary"
| "latch_holds s _ \<longleftrightarrow> True"

fun close_holds :: "'v sink_system \<Rightarrow> 'v sink_thread \<Rightarrow> bool" where
  "close_holds s (Closer pc) \<longleftrightarrow>
     (case pc of CloseSettling _ \<Rightarrow> emptied s | CloseNominal _ \<Rightarrow> quiet s | CloseLatch l \<Rightarrow> latch_holds s l | _ \<Rightarrow> True)"
| "close_holds s (ShutdownCloser _ pc) \<longleftrightarrow> (case pc of ShutdownLatch l \<Rightarrow> latch_holds s l | _ \<Rightarrow> True)"
| "close_holds s _ \<longleftrightarrow> True"

definition close_inv :: "'v sink_system \<Rightarrow> bool" where
  "close_inv s \<longleftrightarrow> (\<forall>th \<in> set (sy_threads s). close_holds s th) \<and>
     (case lc_summary (sy_lifecycle s) of Some summary \<Rightarrow> promise s summary | None \<Rightarrow> True)"

lemma promise_step:
  assumes "system_ok s" "system_step runtime choice s = Some s'"
  shows "promise s summary \<Longrightarrow> promise s' summary" and "drained_for s nominal \<Longrightarrow> drained_for s' nominal"
  using quiet_step [OF assms(1) _ assms(2)] by (auto simp: promise_def drained_for_def stays_def)

lemma close_holds_step:
  assumes "system_ok s" "system_step runtime choice s = Some s'" "close_holds s th"
  shows "close_holds s' th"
proof -
  have l: "latch_holds s' pc" if "latch_holds s pc" for pc
    using that promise_step [OF assms(1,2)] by (cases pc) auto
  show ?thesis
    using assms(3) l emptied_step [OF assms(1) _ assms(2)] quiet_step [OF assms(1) _ assms(2)]
    by (cases th) (auto split: close_pc.splits shutdown_pc.splits)
qed

lemma sum_drops_zero:
  "foldl (\<lambda>total count. saturating_add total (sdc_events count)) n counts = 0 \<longleftrightarrow> n = 0 \<and> (\<forall>c \<in> set counts. sdc_events c = 0)"
proof (induction counts arbitrary: n)
  case (Cons c counts)
  have "saturating_add n (sdc_events c) = 0 \<longleftrightarrow> n = 0 \<and> sdc_events c = 0" by (auto simp: saturating_add_def min_def)
  with Cons show ?case by auto
qed simp

lemma DiagnosticEventKind_all: "kind \<in> set DiagnosticEventKind_ALL"
  by (cases kind) (simp_all add: DiagnosticEventKind_ALL_def)

lemma no_drops:
  assumes a: "accounted q lg"
    and z: "foldl (\<lambda>total count. saturating_add total (sdc_events count)) 0 (map SinkDropCount_from_delta (drop_snapshot q)) = 0"
  shows "lg_dropped lg = []"
proof -
  have "dc_events (sq_drops q kind) = 0" for kind
  proof (rule ccontr)
    assume n: "dc_events (sq_drops q kind) \<noteq> 0"
    then have "\<lparr> dd_event_kind = kind, dd_events = dc_events (sq_drops q kind), dd_encoded_bytes = dc_encoded_bytes (sq_drops q kind) \<rparr>
        \<in> set (drop_snapshot q)" (is "?delta \<in> _")
      using DiagnosticEventKind_all [of kind]
      by (auto simp: drop_snapshot_def DropLedger_snapshot_def DropCounter_snapshot_def map_filter_def image_iff intro!: exI [of _ kind])
    moreover have "\<forall>c \<in> set (map SinkDropCount_from_delta (drop_snapshot q)). sdc_events c = 0" using z unfolding sum_drops_zero by simp
    ultimately have "sdc_events (SinkDropCount_from_delta ?delta) = 0" by (metis image_eqI list.set_map)
    with n show False by (simp add: SinkDropCount_from_delta_def)
  qed
  moreover have "dd_events x = 1" if "x \<in> set (lg_dropped lg)" for x
  proof -
    have "x \<in># mset (deltas (map stored (lg_offered lg)))" using a that by (simp add: accounted_def)
    then show ?thesis by (auto simp: deltas_def drop_delta_def)
  qed
  moreover have "sq_drops q = tally (lg_dropped lg)" using a by (simp add: accounted_def)
  ultimately have "x \<notin> set (lg_dropped lg)" for x
  proof -
    assume k: "\<And>kind. dc_events (sq_drops q kind) = 0" and one: "\<And>x. x \<in> set (lg_dropped lg) \<Longrightarrow> dd_events x = 1"
      and t: "sq_drops q = tally (lg_dropped lg)"
    have "sum_list (map dd_events (filter (\<lambda>d. dd_event_kind d = dd_event_kind x) (lg_dropped lg))) = 0"
      using k [of "dd_event_kind x"] unfolding t by (simp add: tally_def min_def split: if_splits)
    then show ?thesis using one [of x] by (auto simp: sum_list_eq_0_iff)
  qed
  then show ?thesis by (metis last_in_set)
qed

lemma compute_promise:
  assumes ok: "system_ok s" and dr: "drained_for s nominal"
  shows "promise s (compute_summary nominal abandoned facts (sy_lifecycle s))"
proof -
  let ?d = "lc_dispatcher (sy_lifecycle s)" and ?t = "ts_settled (sy_task s)"
  let ?sm = "compute_summary nominal abandoned facts (sy_lifecycle s)"
  have c: "counters_ok (sy_task s) ?d" and a: "accounted (sd_queue ?d) (sy_log s)"
    using ok by (simp_all add: system_ok_def delivery_inv_def queue_ok_def)
  have "quiet s \<and> begun (sy_log s) = ?t \<and> lg_dropped (sy_log s) = []" if "sum_complete ?sm"
  proof -
    from that have n: "nominal = ClosedActFinished" "sd_callback_failure ?d = None" "sd_unexpected_failure ?d = None"
      and z: "foldl (\<lambda>total count. saturating_add total (sdc_events count)) 0 (map SinkDropCount_from_delta (drop_snapshot (sd_queue ?d))) = 0"
      by (auto simp: compute_summary_def from_delivery_facts_def Let_def split: if_splits)
    with dr no_drops [OF a z] show ?thesis by (simp add: drained_for_def)
  qed
  moreover have "sum_delivered_events ?sm = length ?t mod 2 ^ 64"
    "sum_first_delivered_sequence ?sm = (case ?t of [] \<Rightarrow> None | x # _ \<Rightarrow> Some x)"
    "sum_last_delivered_sequence ?sm = (if ?t = [] then None else Some (last ?t))"
    using c
    by (auto simp: compute_summary_def from_delivery_facts_def Let_def delivery_progress_def counters_ok_def split: list.splits)
      (metis last_in_set)
  ultimately show ?thesis by (simp add: promise_def)
qed

lemma latch_holds_next:
  assumes "system_ok s" "latch_holds s pc" "latch_step pc (sy_lifecycle s) = Some (pc', lc')"
  shows "latch_holds s pc' \<and> (\<forall>summary. lc_summary lc' = Some summary \<longrightarrow> lc_summary (sy_lifecycle s) = Some summary \<or> promise s summary)"
  using assms compute_promise [OF assms(1)]
  by (cases pc) (auto split: sink_phase.splits option.splits if_splits)

lemma close_thread_next:
  assumes ok: "system_ok s" and i: "i < length (sy_threads s)" and h: "close_holds s (sy_threads s ! i)"
    and step: "thread_step runtime contended cells (sy_threads s ! i) (sy_lifecycle s) (sy_log s) = Some (th', lc', lg')"
  shows "close_holds s th' \<and> (\<forall>summary. lc_summary lc' = Some summary \<longrightarrow> lc_summary (sy_lifecycle s) = Some summary \<or> promise s summary)"
proof -
  let ?lc = "sy_lifecycle s"
  have g: "gate_ok ?lc (sy_threads s ! i)" using ok i by (simp add: system_ok_def system_gate_def gate_inv_def)
  show ?thesis
  proof (cases "sy_threads s ! i")
    case (Enqueuer call pc)
    have "lc_summary lc' = lc_summary ?lc" if "enqueue_step runtime contended cells call pc ?lc (sy_log s) = Some (pc', lc', lg')" for pc'
      using guarded_cases [of runtime contended cells call pc ?lc "sy_log s" pc' lc' lg'] that
      by (cases pc) (auto simp: enqueue_step_def same_gate_def)
    with step Enqueuer show ?thesis by auto
  next
    case (Sealer facts pc)
    with step obtain pc' where "th' = Sealer facts pc'" "seal_step facts pc ?lc = Some (pc', lc')" by auto
    then show ?thesis by (cases pc) (auto split: if_splits)
  next
    case (Discarder r)
    with step show ?thesis by (cases r) (auto simp: try_discard_pending_def set_queue_def split: call.splits)
  next
    case (ShutdownCloser abandoned pc)
    show ?thesis
    proof (cases pc)
      case (ShutdownLatch l)
      with ShutdownCloser step consider (latch) l' where "latch_step l ?lc = Some (l', lc')" "th' = ShutdownCloser abandoned (ShutdownLatch l')"
        | (returned) "lc' = ?lc" "close_holds s th'"
        by (cases l) auto
      then show ?thesis using ShutdownCloser ShutdownLatch h latch_holds_next [OF ok, of l] by cases auto
    qed (use ShutdownCloser step in \<open>auto simp: Let_def drained_for_def split: option.splits\<close>)
  next
    case (Closer pc)
    show ?thesis
    proof (cases pc)
      case (CloseLatch l)
      with Closer step consider (latch) l' where "latch_step l ?lc = Some (l', lc')" "th' = Closer (CloseLatch l')"
        | (returned) "lc' = ?lc" "close_holds s th'"
        by (cases l) auto
      then show ?thesis using Closer CloseLatch h latch_holds_next [OF ok, of l] by cases auto
    next
      case CloseQueue
      with Closer g have off: "sealed_off ?lc" by simp
      with CloseQueue Closer step show ?thesis
        by (auto simp: emptied_def try_snapshot_def split: if_splits sum.splits)
    next
      case (CloseSettling snap)
      with Closer step h show ?thesis by (auto simp: quiet_def split: if_splits)
    next
      case (CloseNominal snap)
      with Closer h have q: "quiet s" by simp
      have "task_ok (sy_task s) (lc_dispatcher ?lc) (sy_log s)" using ok by (simp add: system_ok_def delivery_inv_def)
      with q quiet_at_rest [OF this] have "begun (sy_log s) = ts_settled (sy_task s) \<or> excused (lc_dispatcher ?lc)"
        by (auto simp: quiet_def emptied_def task_ok_def at_rest_def)
      with q have "drained_for s nominal" if "\<not> sd_runtime_cancel_requested (lc_dispatcher ?lc)" for nominal
        using that by (auto simp: drained_for_def excused_def)
      with CloseNominal Closer step show ?thesis
        by (auto simp: drained_for_def split: option.splits SinkTerminalReason.splits if_splits)
    qed (use Closer step in \<open>auto split: sink_phase.splits option.splits\<close>)
  qed
qed

lemma close_inv_step:
  assumes ok: "system_ok s" and inv: "close_inv s" and step: "system_step runtime choice s = Some s'"
  shows "close_inv s'"
proof (cases choice)
  case (ThreadStep i contended cells)
  with step obtain th' lc' lg' where i: "i < length (sy_threads s)"
    and t: "thread_step runtime contended cells (sy_threads s ! i) (sy_lifecycle s) (sy_log s) = Some (th', lc', lg')"
    and s': "sy_lifecycle s' = lc'" "sy_threads s' = (sy_threads s)[i := th']"
    by (auto split: if_splits)
  have h: "close_holds s (sy_threads s ! i)" using inv i by (simp add: close_inv_def)
  note n = close_thread_next [OF ok i h t]
  have "close_holds s th" if "th \<in> set (sy_threads s')" for th
    using that n inv set_update_subset_insert [of "sy_threads s" i th'] by (auto simp: s' close_inv_def)
  moreover have "promise s summary" if "lc_summary lc' = Some summary" for summary
    using n inv that by (auto simp: close_inv_def)
  ultimately show ?thesis
    using close_holds_step [OF ok step] promise_step(1) [OF ok step] by (auto simp: close_inv_def s'(1) split: option.splits)
qed (use step inv close_holds_step [OF ok step] promise_step(1) [OF ok step] in
    \<open>auto simp: close_inv_def split: option.splits\<close>)

lemma reaches_close: "sink_reaches runtime s s' \<Longrightarrow> system_ok s \<Longrightarrow> close_inv s \<Longrightarrow> close_inv s'"
  by (induction rule: sink_reaches.induct) (auto intro: close_inv_step reaches_ok)

lemma close_inv_init: "\<forall>th \<in> set threads. starting th \<Longrightarrow> close_inv (sink_system_init run_id act_id sink_id limits threads)"
proof -
  have "close_holds s th" if "starting th" for s and th :: "'v sink_thread" using that by (cases th) auto
  then show "\<forall>th \<in> set threads. starting th \<Longrightarrow> close_inv (sink_system_init run_id act_id sink_id limits threads)"
    by (auto simp: close_inv_def sink_system_init_def SinkHandle_new_def)
qed

subsection \<open>Calls that were let in\<close>

fun let_in :: "'v sink_thread \<Rightarrow> bool" where
  "let_in (Enqueuer _ pc) \<longleftrightarrow>
     (case pc of Admitted _ \<Rightarrow> True | Leaving (EnqueueAdmitted _) \<Rightarrow> True | Left (EnqueueAdmitted _) \<Rightarrow> True | _ \<Rightarrow> False)"
| "let_in _ \<longleftrightarrow> False"

definition entered :: "'v DispatchEvent sink_log \<Rightarrow> 'v sink_thread \<Rightarrow> bool" where
  "entered lg th \<longleftrightarrow> (let_in th \<longrightarrow> (\<exists>e \<in> set (lg_offered lg). thread_event th = Some e))"

lemma rejection_not_admitted [simp]: "enqueue_rejection phase \<noteq> EnqueueAdmitted out"
  by (cases phase) auto

lemma guarded_entered:
  assumes g: "guarded_step runtime contended cells call pc lc lg = Some (pc', lc', lg')" and e: "entered lg (Enqueuer call pc)"
  shows "set (lg_offered lg) \<subseteq> set (lg_offered lg') \<and> entered lg' (Enqueuer call pc')"
proof (cases pc)
  case Guarded
  with g show ?thesis by (cases call) (auto simp: guarded_step_def entered_def split: if_splits)
next
  case Admitting
  with g show ?thesis by (auto simp: guarded_step_def entered_def split: option.splits call.splits)
next
  case (Admitted out)
  with g e show ?thesis by (auto simp: guarded_step_def entered_def split: if_splits call.splits)
qed (use g in \<open>auto simp: guarded_step_def entered_def\<close>)

lemma thread_entered:
  assumes step: "thread_step runtime contended cells th lc lg = Some (th', lc', lg')" and e: "entered lg th"
  shows "set (lg_offered lg) \<subseteq> set (lg_offered lg') \<and> entered lg' th'"
proof (cases th)
  case (Enqueuer call pc)
  with step obtain pc' where s: "enqueue_step runtime contended cells call pc lc lg = Some (pc', lc', lg')" "th' = Enqueuer call pc'" by auto
  have g: ?thesis if "guarded_step runtime contended cells call pc lc lg = Some (pc', lc', lg')"
    using guarded_entered [OF that] e Enqueuer s by simp
  from s e Enqueuer g show ?thesis
    by (cases pc) (auto simp: enqueue_step_def entered_def split: enqueue_result.splits if_splits)
next
  case (Sealer facts pc)
  with step have "lg' = lg" "\<not> let_in th'" by (cases pc; auto split: if_splits)+
  then show ?thesis by (simp add: entered_def)
next
  case (Closer pc)
  with step have "lg' = lg" "\<not> let_in th'" by auto
  then show ?thesis by (simp add: entered_def)
next
  case (ShutdownCloser abandoned pc)
  with step have "lg' = lg" "\<not> let_in th'" by auto
  then show ?thesis by (simp add: entered_def)
next
  case (Discarder r)
  with step have "lg_offered lg' = lg_offered lg" "\<not> let_in th'"
    by (cases r; auto simp: try_discard_pending_def split: call.splits)+
  then show ?thesis by (simp add: entered_def)
qed

lemma task_offered: "task_step runtime contended cells result stopping t d lg = Some (t', d', lg') \<Longrightarrow> lg_offered lg' = lg_offered lg"
  by (cases "ts_pc t")
    (auto simp: task_step_def sink_stopped_def complete_failed_discard_def Let_def
      split: if_splits list.splits prod.splits callback_end.splits call.splits sum.splits QueueAccessError.splits)

definition entered_inv :: "'v sink_system \<Rightarrow> bool" where
  "entered_inv s \<longleftrightarrow> (\<forall>th \<in> set (sy_threads s). entered (sy_log s) th)"

lemma entered_inv_step:
  assumes inv: "entered_inv s" and step: "system_step runtime choice s = Some s'"
  shows "entered_inv s'"
proof (cases choice)
  case (ThreadStep i contended cells)
  with step obtain th' lc' lg' where i: "i < length (sy_threads s)"
    and t: "thread_step runtime contended cells (sy_threads s ! i) (sy_lifecycle s) (sy_log s) = Some (th', lc', lg')"
    and s': "s' = s\<lparr> sy_lifecycle := lc', sy_threads := (sy_threads s)[i := th'], sy_log := lg' \<rparr>"
    by (auto split: if_splits)
  have "entered (sy_log s) (sy_threads s ! i)" using inv i by (simp add: entered_inv_def)
  note n = thread_entered [OF t this]
  have "entered lg' th" if "th \<in> set (sy_threads s)" for th
    using that inv n unfolding entered_inv_def entered_def by blast
  with n show ?thesis
    using set_update_subset_insert [of "sy_threads s" i th'] by (auto simp: s' entered_inv_def)
next
  case (TaskStep contended cells result)
  with step inv show ?thesis by (auto simp: entered_inv_def entered_def dest!: task_offered)
qed (use step inv in \<open>auto simp: entered_inv_def\<close>)

lemma reaches_entered: "sink_reaches runtime s s' \<Longrightarrow> entered_inv s \<Longrightarrow> entered_inv s'"
  by (induction rule: sink_reaches.induct) (auto intro: entered_inv_step)

lemma entered_inv_init: "\<forall>th \<in> set threads. starting th \<Longrightarrow> entered_inv (sink_system_init run_id act_id sink_id limits threads)"
proof -
  have "\<not> let_in th" if "starting th" for th :: "'v sink_thread" using that by (cases th) auto
  then show "\<forall>th \<in> set threads. starting th \<Longrightarrow> entered_inv (sink_system_init run_id act_id sink_id limits threads)"
    by (auto simp: entered_inv_def entered_def sink_system_init_def)
qed

subsection \<open>A run to the end\<close>

text \<open>A list of choices as a run, and one that offers the terminal event, seals, delivers and closes.\<close>

fun run_sink :: "BudgetLimits \<Rightarrow> sink_choice list \<Rightarrow> 'v sink_system \<Rightarrow> 'v sink_system option" where
  "run_sink runtime [] s = Some s"
| "run_sink runtime (choice # choices) s = Option.bind (system_step runtime choice s) (run_sink runtime choices)"

lemma run_sink_reaches: "run_sink runtime choices s' = Some s'' \<Longrightarrow> sink_reaches runtime s s' \<Longrightarrow> sink_reaches runtime s s''"
proof (induction choices arbitrary: s')
  case (Cons choice choices)
  from Cons.prems(1) obtain s1 where "system_step runtime choice s' = Some s1" "run_sink runtime choices s1 = Some s''"
    by (auto simp: bind_eq_Some_conv)
  with Cons show ?case by (blast intro: sink_reaches.step)
qed simp

definition sample_event :: "nat DispatchEvent" where "sample_event = \<lparr> de_sequence = 1, de_value = 5 \<rparr>"

lemma sample_event_seq [simp]: "de_sequence sample_event = 1"
  by (simp add: sample_event_def)

definition sample_meta :: EventMetadata where
  "sample_meta = \<lparr> md_event_kind = DiagnosticEventKind.SpanFinished, md_encoded_bytes = 30, md_class = StructuralClass \<rparr>"

definition sample_terminal :: "nat enqueue_call" where
  "sample_terminal = TryEnqueueTerminal sample_event DiagnosticEventKind.SpanFinished 30"

definition sample_facts :: SinkSealFacts where "sample_facts = SinkSealFacts_act_finished ActCompleted"

definition sample_queue :: "nat DispatchEvent StoredEvent list \<Rightarrow> ActiveCallback option \<Rightarrow> BudgetUsage \<Rightarrow> u64 \<Rightarrow> nat DispatchEvent SinkQueue" where
  "sample_queue queued active used ticket = \<lparr> sq_limits = sample_limits, sq_queued = queued, sq_active_callback = active,
     sq_total_usage = used, sq_content_usage = 0, sq_terminal_reason = None, sq_next_ticket = ticket, sq_drops = DropLedger_new \<rparr>"

abbreviation sample_stored :: "nat DispatchEvent StoredEvent" where
  "sample_stored \<equiv> \<lparr> se_item = sample_event, se_metadata = sample_meta \<rparr>"

lemma sample_terminal_admit:
  "try_admit sample_room False [0] (sample_queue [] None 0 1) \<lparr> qe_item = sample_event, qe_metadata = sample_meta \<rparr>
     = Returned (Enqueued [], sample_queue [sample_stored] None (BudgetUsage 1 30) 1, Some (0, 0x10000001E))"
proof -
  have u: "metadata_usage sample_meta = BudgetUsage 1 30" "md_class sample_meta = StructuralClass"
    by (simp_all add: sample_meta_def metadata_usage_def)
  have "search_room sample_room (sample_queue [] None 0 1) \<lparr> qe_item = sample_event, qe_metadata = sample_meta \<rparr> [0]
      = Returned (Fits [] (BudgetUsage 1 30) 0 (0, 0x10000001E))"
    using sample_exchange u
    by (simp add: find_room.simps room_test_def Let_def sample_queue_def checked_sub_usage BudgetUsage_checked_add_def
        checked_add_def fits_within_def sample_limits_def) (simp add: usage_defs)
  then show ?thesis
    using u unfolding try_admit_def Let_def
    by (simp add: sample_queue_def sample_limits_def fits_within_def DropLedger_record_all_def)
qed

lemma sample_complete:
  "try_complete_callback sample_room False 0x10000001E 1 (sample_queue [] (Some \<lparr> ac_ticket = 1, ac_metadata = sample_meta \<rparr>) (BudgetUsage 1 30) 2)
     = (Inr (), sample_queue [] None 0 2, Some (0x10000001E, 0))"
proof -
  have u: "metadata_usage sample_meta = BudgetUsage 1 30" "md_class sample_meta = StructuralClass"
    by (simp_all add: sample_meta_def metadata_usage_def)
  have "try_replace_at sample_room (BudgetUsage 1 30) 0 0x10000001E = (Inr 0, 0)"
    using sample_cell by (simp add: try_replace_at_Inr sample_room_def fits_within_def) (simp add: usage_defs pack_def)
  with u show ?thesis
    by (simp add: try_complete_callback_def sample_queue_def checked_sub_usage)
qed

definition sample_threads :: "nat sink_thread list" where
  "sample_threads = [Enqueuer sample_terminal LoadPhase, Sealer sample_facts SealCheck, Closer ClosePhase]"

text \<open>The states of the run: the threads, the phase, the queue, the summary, the deliveries and the task.\<close>

definition sample_state ::
  "nat sink_thread list \<Rightarrow> sink_phase \<Rightarrow> u64 \<Rightarrow> nat DispatchEvent SinkQueue \<Rightarrow> SinkDeliverySummary option \<Rightarrow> task_pc \<Rightarrow> nat DispatchEvent CallbackDelivery list \<Rightarrow>
   nat sink_system" where
  "sample_state ths phase enqueued q summary pc handed =
     (let done = (if handed = [] then 0 else 1); settled = (if handed = [] then [] else [1]) in
      \<lparr> sy_lifecycle = \<lparr> lc_run_id = 1, lc_act_id = ''act-1'', lc_dispatcher =
            \<lparr> sd_id = 1, sd_queue = q, sd_callback_failure = None, sd_unexpected_failure = None, sd_failure_observer = None,
              sd_callback_failure_notified = False, sd_unexpected_failure_notified = False, sd_delivery_settling = False,
              sd_runtime_cancel_requested = False, sd_delivered_events = length settled, sd_first_delivered_sequence = done,
              sd_last_delivered_sequence = done, sd_last_enqueued_sequence = enqueued \<rparr>,
          lc_phase = phase, lc_active_enqueues = 0, lc_terminal_accounted = (enqueued \<noteq> 0),
          lc_seal_facts = (if phase = OPEN then None else Some sample_facts), lc_source_gaps = 0, lc_truncated_payloads = 0,
          lc_summary = summary \<rparr>,
        sy_threads = ths, sy_task = \<lparr> ts_pc = pc, ts_active = None, ts_settled = settled \<rparr>, sy_stopping = False,
        sy_log = \<lparr> lg_offered = (if enqueued = 0 then [] else [\<lparr> qe_item = sample_event, qe_metadata = sample_meta \<rparr>]),
          lg_delivered = handed, lg_dropped = [] \<rparr> \<rparr>)"

definition sample_opened :: "nat sink_system" where
  "sample_opened = sink_system_init 1 ''act-1'' 1 sample_limits
     [Enqueuer sample_terminal LoadPhase, Sealer sample_facts SealCheck, Closer ClosePhase]"

definition sample_admission :: "sink_choice list" where
  "sample_admission = (let a = ThreadStep 0 False [0] in [a, a, a, a, a, a, a, a, a, a])"

definition sample_sealing :: "sink_choice list" where
  "sample_sealing = (let a = ThreadStep 1 False [] in [a, a, a, a, a])"

definition sample_delivering :: "sink_choice list" where
  "sample_delivering = (let a = TaskStep False [0x10000001E] ReturnsNone in [a, a, a, a, a, a, a])"

definition sample_closing :: "sink_choice list" where
  "sample_closing = (let a = ThreadStep 2 False [] in [a, a, a, a, a, a, a, a, a, a])"

abbreviation sample_left :: "nat sink_thread" where
  "sample_left \<equiv> Enqueuer sample_terminal (Left (EnqueueAdmitted (Enqueued [])))"

definition sample_handed :: "nat DispatchEvent CallbackDelivery" where
  "sample_handed = \<lparr> cd_ticket = 1, cd_item = sample_event, cd_metadata = sample_meta \<rparr>"

definition sample_summary :: SinkDeliverySummary where
  "sample_summary = \<lparr> sum_run_id = 1, sum_act_id = ''act-1'', sum_act_outcome = Some ActCompleted,
     sum_close_reason = ClosedActFinished, sum_complete = True, sum_delivered_events = 1,
     sum_first_delivered_sequence = Some 1, sum_last_delivered_sequence = Some 1, sum_dropped_events = 0, sum_dropped_bytes = 0,
     sum_dropped_by_kind = [], sum_source_gaps = 0, sum_truncated_payloads = 0, sum_callback_failure = None,
     sum_callback_abandoned = False \<rparr>"

definition sample_closed :: "nat sink_system" where
  "sample_closed = sample_state [sample_left, Sealer sample_facts (SealReturned (Inr ())),
     Closer (CloseReturned (Inr (CloseClosed sample_summary)))] CLOSED 1 (sample_queue [] None 0 2) (Some sample_summary) TaskPoll [sample_handed]"

lemma sample_run_admission:
  "run_sink sample_room sample_admission sample_opened = Some (sample_state
     [sample_left, Sealer sample_facts SealCheck, Closer ClosePhase] OPEN 1 (sample_queue [sample_stored] None (BudgetUsage 1 30) 1) None TaskPoll [])"
  by (simp add: Let_def sample_admission_def sample_opened_def sink_system_init_def SinkHandle_new_def SinkDispatcher_new_def
      SinkQueue_with_limits_def enqueue_step_def guarded_step_def sample_terminal_def number_event_def record_enqueue_sequence_def
      sample_terminal_admit [unfolded sample_queue_def sample_meta_def] set_queue_def log_admit_def is_stopped_def wrapping_sub_def
      sample_state_def sample_queue_def sample_meta_def)

lemma sample_run_sealing:
  "run_sink sample_room sample_sealing (sample_state
     [th, Sealer sample_facts SealCheck, closer] OPEN 1 q None pc []) = Some (sample_state
     [th, Sealer sample_facts (SealReturned (Inr ())), closer] SEALED 1 q None pc [])"
  by (simp add: Let_def sample_sealing_def sample_state_def)

lemma sample_run_delivering:
  "run_sink sample_room sample_delivering (sample_state ths SEALED 1 (sample_queue [sample_stored] None (BudgetUsage 1 30) 1) None TaskPoll [])
   = Some (sample_state ths SEALED 1 (sample_queue [] None 0 2) None TaskPoll [sample_handed])"
  by (simp add: Let_def sample_delivering_def sample_state_def task_step_def is_stopped_def next_dispatch_def try_begin_callback_def
      issue_ticket_def log_begin_def complete_active_def begin_delivery_settlement_def sample_complete [unfolded sample_queue_def One_nat_def]
      sample_queue_def record_delivery_def drop_delivery_settlement_def sample_handed_def)

lemma sample_run_closing:
  "run_sink sample_room sample_closing (sample_state [th, sealer, Closer ClosePhase] SEALED 1 (sample_queue [] None 0 2) None TaskPoll [sample_handed])
   = Some (sample_state [th, sealer, Closer (CloseReturned (Inr (CloseClosed sample_summary)))] CLOSED 1 (sample_queue [] None 0 2)
       (Some sample_summary) TaskPoll [sample_handed])"
  by (simp add: Let_def sample_closing_def sample_state_def try_snapshot_def sample_queue_def sample_facts_def SinkSealFacts_act_finished_def
      nominal_close_reason_def compute_summary_def from_delivery_facts_def delivery_progress_def drop_snapshot_def
      DropLedger_snapshot_def DropCounter_snapshot_def DropLedger_new_def DropCounter_new_def map_filter_def sample_summary_def)

lemma sample_closed_reached: "sink_reaches sample_room sample_opened sample_closed"
proof -
  have "sink_reaches sample_room sample_opened sample_opened" by (rule sink_reaches.start)
  from run_sink_reaches [OF sample_run_closing run_sink_reaches [OF sample_run_delivering
      run_sink_reaches [OF sample_run_sealing run_sink_reaches [OF sample_run_admission this]]]]
  show ?thesis by (simp add: sample_closed_def)
qed

subsection \<open>After the seal\<close>

definition same_intake :: "'v SinkLifecycle \<Rightarrow> 'v DispatchEvent sink_log \<Rightarrow> 'v SinkLifecycle \<Rightarrow> 'v DispatchEvent sink_log \<Rightarrow> bool" where
  "same_intake lc lg lc' lg' \<longleftrightarrow> lg_offered lg' = lg_offered lg \<and> lc_source_gaps lc' = lc_source_gaps lc \<and>
     lc_truncated_payloads lc' = lc_truncated_payloads lc \<and> lc_terminal_accounted lc' = lc_terminal_accounted lc \<and>
     (lc_seal_facts lc \<noteq> None \<longrightarrow> lc_seal_facts lc' = lc_seal_facts lc) \<and> (lc_summary lc \<noteq> None \<longrightarrow> lc_summary lc' = lc_summary lc)"

lemma thread_intake:
  assumes out: "\<not> inside th" and step: "thread_step runtime contended cells th lc lg = Some (th', lc', lg')"
  shows "same_intake lc lg lc' lg'"
proof (cases th)
  case (Enqueuer call pc)
  with out step show ?thesis by (cases pc) (auto simp: enqueue_step_def same_intake_def)
next
  case (Sealer facts pc)
  with step obtain pc' where "seal_step facts pc lc = Some (pc', lc')" "lg' = lg" by auto
  then show ?thesis by (cases pc) (auto simp: same_intake_def split: if_splits)
next
  case (Closer pc)
  with step show ?thesis by (cases pc) (auto simp: same_intake_def split: latch_pc.splits if_splits)
next
  case (ShutdownCloser abandoned pc)
  with step show ?thesis by (cases pc) (auto simp: same_intake_def Let_def split: latch_pc.splits if_splits)
next
  case (Discarder r)
  with step show ?thesis by (cases r) (auto simp: try_discard_pending_def set_queue_def same_intake_def split: call.splits)
qed

lemma sealed_intake:
  assumes g: "system_gate s" and off: "sealed_off (sy_lifecycle s)" and step: "system_step runtime choice s = Some s'"
  shows "same_intake (sy_lifecycle s) (sy_log s) (sy_lifecycle s') (sy_log s') \<and> sealed_off (sy_lifecycle s')"
proof (cases choice)
  case (ThreadStep i contended cells)
  with step obtain th' lc' lg' where i: "i < length (sy_threads s)"
    and t: "thread_step runtime contended cells (sy_threads s ! i) (sy_lifecycle s) (sy_log s) = Some (th', lc', lg')"
    and s': "sy_lifecycle s' = lc'" "sy_log s' = lg'" by (auto split: if_splits)
  with thread_intake [OF gate_outside [OF g off i] t] thread_sealed_off [OF t off] show ?thesis by simp
next
  case (TaskStep contended cells result)
  with step off show ?thesis by (auto simp: same_intake_def sealed_off_def dest!: task_offered)
qed (use step off in \<open>auto simp: same_intake_def sealed_off_def\<close>)

lemma sealed_reaches:
  assumes "sink_reaches runtime s s'" "system_gate s" "sealed_off (sy_lifecycle s)"
  shows "same_intake (sy_lifecycle s) (sy_log s) (sy_lifecycle s') (sy_log s') \<and> sealed_off (sy_lifecycle s')"
  using assms
proof (induction rule: sink_reaches.induct)
  case start
  then show ?case by (simp add: same_intake_def)
next
  case (step s' choice s'')
  with sealed_intake [OF reaches_gate [OF step.hyps(1)] _ step.hyps(2)] show ?case by (auto simp: same_intake_def)
qed

subsection \<open>Properties\<close>

lemma reached_system:
  assumes "\<forall>th \<in> set threads. starting th" "length threads \<le> usize_max" "SinkQueueLimits_new room reserve = Some limits"
    "bu_events room \<le> usize_max" "bu_encoded_bytes room \<le> usize_max"
    and r: "sink_reaches runtime (sink_system_init run_id act_id sink_id limits threads) (s :: 'v sink_system)"
  shows "system_ok s \<and> close_inv s \<and> entered_inv s"
proof -
  have "sink_ok (SinkQueue_with_limits limits :: 'v DispatchEvent SinkQueue)" using assms(3-5) by (rule new_sink_ok)
  from system_ok_init [OF assms(1,2) this] have ok: "system_ok (sink_system_init run_id act_id sink_id limits threads :: 'v sink_system)" .
  show ?thesis
    using reaches_ok [OF r ok] reaches_close [OF r ok close_inv_init [OF assms(1)]] reaches_entered [OF r entered_inv_init [OF assms(1)]]
    by simp
qed







text \<open>
  The close for the Runtime's shutdown counts on the sink being sealed, and a sink is not open any more while another
  thread is still sealing it: here the shutdown finds it in the middle and panics.
\<close>

definition sample_racing :: "nat sink_system" where
  "sample_racing = sink_system_init 1 ''act-1'' 1 sample_limits
     [Sealer (SinkSealFacts_runtime_shutdown None) SealCheck, ShutdownCloser False ShutdownStart]"

lemma shutdown_close_can_panic:
  "\<exists>s. sink_reaches sample_room sample_racing s \<and> lc_phase (sy_lifecycle s) = SEALING \<and>
     sy_threads s = [Sealer (SinkSealFacts_runtime_shutdown None) SealWaiting, ShutdownCloser False (ShutdownLatch LatchPanicked)]"
proof -
  let ?a = "ThreadStep 0 False []" and ?b = "ThreadStep 1 False []"
  have "\<exists>s. run_sink sample_room [?a, ?a, ?b, ?b, ?b] sample_racing = Some s \<and> lc_phase (sy_lifecycle s) = SEALING \<and>
     sy_threads s = [Sealer (SinkSealFacts_runtime_shutdown None) SealWaiting, ShutdownCloser False (ShutdownLatch LatchPanicked)]"
    by (simp add: sample_racing_def sink_system_init_def SinkHandle_new_def SinkDispatcher_new_def SinkQueue_with_limits_def
        SinkSealFacts_runtime_shutdown_def try_snapshot_def)
  then show ?thesis using run_sink_reaches sink_reaches.start by blast
qed

end
