(* ===== verification/Cue_Operation.thy ===== *)
theory Cue_Operation
  imports Wire
begin

section \<open>Operations of a mailbox\<close>

text \<open>
  A cue that a scene sends to an actor is an operation (\<^verbatim>\<open>orchestration/mailbox.rs\<close>): it waits in
  the mailbox of the actor, runs as a Python task, and ends with one outcome. This theory holds the state
  of one operation and the parts of its methods that run under its mutex: cancelling it, failing to attach
  the callback of its task, and settling it from the result of the task.

  Python objects are values: an effect, a tuple, an exception, anything else by its identity. An
  exception is told apart as far as the code does: whether it is a \<^verbatim>\<open>CancelledError\<close>, and the message of
  the errors the code makes itself. A method that panics returns \<open>Panics\<close>.
\<close>

subsection \<open>Python values and panics\<close>

datatype py_error = CancelledError nat | PyTypeError string | PyRuntimeError string | PyError nat

datatype py_value = PyNone | PyTuple "py_value list" | PyEffect nat | PyObject nat

type_synonym py_result = "py_error + py_value"

datatype 'a rust = Returns 'a | Panics string

fun is_cancelled_error :: "py_error \<Rightarrow> bool" where
  "is_cancelled_error (CancelledError _) = True"
| "is_cancelled_error _ = False"

text \<open>The exception that the code makes itself, \<^verbatim>\<open>CancelledError()\<close>, has identity 0.\<close>

definition cancelled_error :: py_error where
  "cancelled_error = CancelledError 0"

fun is_effect :: "py_value \<Rightarrow> bool" where
  "is_effect (PyEffect _) = True"
| "is_effect _ = False"

definition validate_cued_result :: "py_value \<Rightarrow> py_error + py_value list" where
  "validate_cued_result v =
     (case v of
        PyTuple items \<Rightarrow>
          (case position (\<lambda>item. \<not> is_effect item) items of
             Some index \<Rightarrow> Inl (PyTypeError
               (''Actor.cued() return item at index '' @ nat_decimal index @ '' is not an Effect''))
           | None \<Rightarrow> Inr items)
      | _ \<Rightarrow> Inl (PyTypeError ''Actor.cued() must return a tuple of Effect instances''))"

subsection \<open>State\<close>

datatype terminal_outcome =
    OutSuccess "py_value list"
  | OutFailure py_error
  | OutCancelled py_error
  | OutCleanupFailure py_error

datatype operation_phase =
    OpQueued
  | OpRunning nat
  | OpCancellingRunning nat
  | OpTerminal terminal_outcome

datatype cancellation_intent =
    IntentRequested "py_error option"
  | IntentAttachmentFailure py_error

datatype cue_terminal_outcome = CueCompleted | CueFailed | CueCancelled | CueCleanupFailed

record operation_state =
  os_phase :: operation_phase
  os_intent :: "cancellation_intent option"
  os_cue :: "nat option"
  os_signal :: "nat option"

record terminal_action =
  ta_diagnostic_outcome :: cue_terminal_outcome
  ta_close_cued :: bool
  ta_displaced_phase :: operation_phase
  ta_displaced_intent :: "cancellation_intent option"
  ta_displaced_cue :: "nat option"
  ta_signal :: "nat option"

definition new_operation_state :: "nat \<Rightarrow> nat \<Rightarrow> operation_state" where
  "new_operation_state cue signal =
     \<lparr> os_phase = OpQueued, os_intent = None, os_cue = Some cue, os_signal = Some signal \<rparr>"

fun is_terminal_phase :: "operation_phase \<Rightarrow> bool" where
  "is_terminal_phase (OpTerminal _) = True"
| "is_terminal_phase _ = False"

definition is_terminal :: "operation_state \<Rightarrow> bool" where
  "is_terminal st = is_terminal_phase (os_phase st)"

fun outcome_error :: "terminal_outcome \<Rightarrow> py_error option" where
  "outcome_error (OutSuccess _) = None"
| "outcome_error (OutFailure e) = Some e"
| "outcome_error (OutCancelled e) = Some e"
| "outcome_error (OutCleanupFailure e) = Some e"

definition terminal_error :: "operation_state \<Rightarrow> py_error option" where
  "terminal_error st = (case os_phase st of OpTerminal outcome \<Rightarrow> outcome_error outcome | _ \<Rightarrow> None)"

fun diagnostic_outcome :: "terminal_outcome \<Rightarrow> cue_terminal_outcome" where
  "diagnostic_outcome (OutSuccess _) = CueCompleted"
| "diagnostic_outcome (OutFailure _) = CueFailed"
| "diagnostic_outcome (OutCancelled _) = CueCancelled"
| "diagnostic_outcome (OutCleanupFailure _) = CueCleanupFailed"

subsection \<open>Settling an operation\<close>

text \<open>What every terminal transition does under the mutex: the outcome is stored, and the phase, the
  intent and the cue leave the operation with the action.\<close>

definition settle :: "terminal_outcome \<Rightarrow> operation_state \<Rightarrow> operation_state \<times> terminal_action" where
  "settle outcome st =
     (st \<lparr> os_phase := OpTerminal outcome, os_intent := None, os_cue := None \<rparr>,
      \<lparr> ta_diagnostic_outcome = diagnostic_outcome outcome,
        ta_close_cued = (os_phase st = OpQueued),
        ta_displaced_phase = os_phase st,
        ta_displaced_intent = os_intent st,
        ta_displaced_cue = os_cue st,
        ta_signal = os_signal st \<rparr>)"

datatype completion_snapshot = SnapValidate | SnapRequested | SnapAttachmentFailure | SnapTerminal

definition take_completion_snapshot :: "operation_state \<Rightarrow> completion_snapshot rust" where
  "take_completion_snapshot st =
     (case (os_phase st, os_intent st) of
        (OpQueued, _) \<Rightarrow> Returns SnapValidate
      | (OpRunning _, _) \<Rightarrow> Returns SnapValidate
      | (OpCancellingRunning _, Some (IntentRequested _)) \<Rightarrow> Returns SnapRequested
      | (OpCancellingRunning _, Some (IntentAttachmentFailure _)) \<Rightarrow> Returns SnapAttachmentFailure
      | (OpTerminal _, _) \<Rightarrow> Returns SnapTerminal
      | (OpCancellingRunning _, None) \<Rightarrow> Panics ''cancelling operation must retain its intent'')"

text \<open>The outcome of a completion: the snapshot was taken first, the state is read afterwards.\<close>

definition running_outcome :: "(py_error + py_value list) option \<Rightarrow> py_result \<Rightarrow> terminal_outcome rust" where
  "running_outcome validated observed =
     (case observed of
        Inr _ \<Rightarrow>
          (case validated of
             Some (Inr items) \<Rightarrow> Returns (OutSuccess items)
           | Some (Inl e) \<Rightarrow> Returns (OutFailure e)
           | None \<Rightarrow> Panics ''normal running completion must be validated'')
      | Inl e \<Rightarrow> Returns (if is_cancelled_error e then OutCancelled e else OutFailure e))"

definition requested_outcome :: "py_error option \<Rightarrow> py_error option \<Rightarrow> py_result \<Rightarrow> terminal_outcome rust" where
  "requested_outcome dispatch_error cancelled_fallback observed =
     (case (observed, dispatch_error) of
        (Inl e, None) \<Rightarrow> Returns (if is_cancelled_error e then OutCancelled e else OutCleanupFailure e)
      | (Inl e, Some d) \<Rightarrow> Returns (OutCleanupFailure (if is_cancelled_error e then d else e))
      | (Inr _, Some d) \<Rightarrow> Returns (OutCleanupFailure d)
      | (Inr _, None) \<Rightarrow>
          (case cancelled_fallback of
             Some e \<Rightarrow> Returns (OutCancelled e)
           | None \<Rightarrow> Panics ''cancelled normal completion needs a cancellation value''))"

definition completion_outcome ::
    "(py_error + py_value list) option \<Rightarrow> py_error option \<Rightarrow> py_result \<Rightarrow> operation_state \<Rightarrow> terminal_outcome rust" where
  "completion_outcome validated cancelled_fallback observed st =
     (case os_phase st of
        OpQueued \<Rightarrow> running_outcome validated observed
      | OpRunning _ \<Rightarrow> running_outcome validated observed
      | OpCancellingRunning _ \<Rightarrow>
          (case os_intent st of
             Some (IntentAttachmentFailure e) \<Rightarrow> Returns (OutFailure e)
           | Some (IntentRequested d) \<Rightarrow> requested_outcome d cancelled_fallback observed
           | None \<Rightarrow> Panics ''cancelling completion must retain an intent'')
      | OpTerminal _ \<Rightarrow> Panics ''internal error: entered unreachable code'')"

definition transition_after_snapshot ::
    "completion_snapshot \<Rightarrow> py_result \<Rightarrow> operation_state \<Rightarrow> (operation_state \<times> terminal_action) option rust" where
  "transition_after_snapshot snapshot observed st =
     (let validated = (case (snapshot, observed) of
            (SnapValidate, Inr v) \<Rightarrow> Some (validate_cued_result v) | _ \<Rightarrow> None);
          cancelled_fallback = (case (snapshot, observed) of
            (SnapRequested, Inr _) \<Rightarrow> Some cancelled_error | _ \<Rightarrow> None)
      in if is_terminal st then Returns None
         else (case completion_outcome validated cancelled_fallback observed st of
                 Returns outcome \<Rightarrow> Returns (Some (settle outcome st))
               | Panics m \<Rightarrow> Panics m))"

definition transition_from_result ::
    "py_result \<Rightarrow> operation_state \<Rightarrow> (operation_state \<times> terminal_action) option rust" where
  "transition_from_result result st =
     (case take_completion_snapshot st of
        Panics m \<Rightarrow> Panics m
      | Returns SnapTerminal \<Rightarrow> Returns None
      | Returns snapshot \<Rightarrow> transition_after_snapshot snapshot result st)"

subsection \<open>Cancelling, and failing to attach the callback\<close>

datatype request_action = RequestQueued terminal_action | RequestRunning nat

definition request_cancel_locked :: "operation_state \<Rightarrow> operation_state \<times> request_action option" where
  "request_cancel_locked st =
     (case os_phase st of
        OpQueued \<Rightarrow> (let (st', action) = settle (OutCancelled cancelled_error) st
                      in (st', Some (RequestQueued action)))
      | OpRunning task \<Rightarrow>
          (st \<lparr> os_phase := OpCancellingRunning task, os_intent := Some (IntentRequested None) \<rparr>,
           Some (RequestRunning task))
      | OpCancellingRunning _ \<Rightarrow> (st, None)
      | OpTerminal _ \<Rightarrow> (st, None))"

text \<open>The error of the task's own \<^verbatim>\<open>cancel()\<close> is kept when no other is.\<close>

definition record_cancel_error :: "py_error \<Rightarrow> operation_state \<Rightarrow> operation_state" where
  "record_cancel_error e st =
     (case os_intent st of
        Some (IntentRequested None) \<Rightarrow> st \<lparr> os_intent := Some (IntentRequested (Some e)) \<rparr>
      | _ \<Rightarrow> st)"

definition begin_attachment_failure_locked :: "py_error \<Rightarrow> operation_state \<Rightarrow> operation_state \<times> bool" where
  "begin_attachment_failure_locked e st =
     (case os_phase st of
        OpRunning task \<Rightarrow>
          (st \<lparr> os_phase := OpCancellingRunning task, os_intent := Some (IntentAttachmentFailure e) \<rparr>, True)
      | _ \<Rightarrow> (st, False))"

text \<open>The task is stored by the dispatch; what was there before is returned for the assertion.\<close>

definition start_running_locked :: "nat \<Rightarrow> operation_state \<Rightarrow> operation_state \<times> operation_phase" where
  "start_running_locked task st = (st \<lparr> os_phase := OpRunning task \<rparr>, os_phase st)"

text \<open>The task that the fallback callback looks at.\<close>

definition fallback_task :: "operation_state \<Rightarrow> nat option" where
  "fallback_task st =
     (case (os_phase st, os_intent st) of
        (OpCancellingRunning task, Some (IntentAttachmentFailure _)) \<Rightarrow> Some task
      | _ \<Rightarrow> None)"

definition result_for_caller :: "py_error option \<Rightarrow> operation_state \<Rightarrow> (py_error + py_value list) rust" where
  "result_for_caller caller_cancellation st =
     (case os_phase st of
        OpTerminal (OutSuccess items) \<Rightarrow> Returns (Inr items)
      | OpTerminal (OutFailure e) \<Rightarrow> Returns (Inl e)
      | OpTerminal (OutCleanupFailure e) \<Rightarrow> Returns (Inl e)
      | OpTerminal (OutCancelled e) \<Rightarrow>
          Returns (Inl (case caller_cancellation of Some c \<Rightarrow> c | None \<Rightarrow> e))
      | _ \<Rightarrow> Panics ''terminal signal must follow a terminal outcome'')"

subsection \<open>Well-formed operations\<close>

text \<open>An intent is there exactly while the task is being cancelled, and the cue until the end.\<close>

definition op_wf :: "operation_state \<Rightarrow> bool" where
  "op_wf st \<longleftrightarrow>
     (case os_phase st of
        OpCancellingRunning _ \<Rightarrow> os_intent st \<noteq> None \<and> os_cue st \<noteq> None
      | OpTerminal _ \<Rightarrow> os_intent st = None \<and> os_cue st = None
      | _ \<Rightarrow> os_intent st = None \<and> os_cue st \<noteq> None)"

lemma is_terminal_simps [simp]:
  "is_terminal st \<longleftrightarrow> (\<exists>outcome. os_phase st = OpTerminal outcome)"
  by (cases "os_phase st") (auto simp: is_terminal_def)

lemma settle_simps [simp]:
  "os_phase (fst (settle outcome st)) = OpTerminal outcome"
  "os_intent (fst (settle outcome st)) = None"
  "os_cue (fst (settle outcome st)) = None"
  "os_signal (fst (settle outcome st)) = os_signal st"
  "ta_signal (snd (settle outcome st)) = os_signal st"
  "ta_diagnostic_outcome (snd (settle outcome st)) = diagnostic_outcome outcome"
  "ta_close_cued (snd (settle outcome st)) \<longleftrightarrow> os_phase st = OpQueued"
  by (simp_all add: settle_def)

lemma op_wf_new [simp]: "op_wf (new_operation_state cue signal)"
  by (simp add: op_wf_def new_operation_state_def)

lemma op_wf_settle [simp]: "op_wf (fst (settle outcome st))"
  by (simp add: op_wf_def)

lemma op_wf_start_running: "op_wf st \<Longrightarrow> os_phase st = OpQueued \<Longrightarrow> op_wf (fst (start_running_locked task st))"
  by (simp add: op_wf_def start_running_locked_def)

lemma op_wf_record_cancel_error: "op_wf st \<Longrightarrow> op_wf (record_cancel_error e st)"
  by (auto simp: op_wf_def record_cancel_error_def split: operation_phase.splits option.splits cancellation_intent.splits)

lemma op_wf_attachment_failure: "op_wf st \<Longrightarrow> op_wf (fst (begin_attachment_failure_locked e st))"
  by (auto simp: op_wf_def begin_attachment_failure_locked_def split: operation_phase.splits)

lemma op_wf_request_cancel: "op_wf st \<Longrightarrow> op_wf (fst (request_cancel_locked st))"
  by (auto simp: op_wf_def request_cancel_locked_def settle_def split: operation_phase.splits)

lemma record_cancel_error_fields [simp]:
  "os_phase (record_cancel_error e st) = os_phase st"
  "os_signal (record_cancel_error e st) = os_signal st"
  "os_cue (record_cancel_error e st) = os_cue st"
  by (simp_all add: record_cancel_error_def split: option.splits cancellation_intent.splits)

subsection \<open>Which outcome an operation gets\<close>

text \<open>The outcome a completion is meant to have. Without a cancellation it is the result of the task: a
  tuple of effects, or an error. A cancelled operation is cancelled, whatever the task returned, unless the
  task or the cancellation failed, the task's error first. When the callback could not be attached, that
  is the error.\<close>

fun ranked_cleanup_error :: "py_error option \<Rightarrow> py_result \<Rightarrow> py_error option" where
  "ranked_cleanup_error d (Inl e) = (if is_cancelled_error e then d else Some e)"
| "ranked_cleanup_error d (Inr _) = d"

definition intended_outcome :: "cancellation_intent option \<Rightarrow> py_result \<Rightarrow> terminal_outcome" where
  "intended_outcome intent r =
     (case intent of
        None \<Rightarrow>
          (case r of
             Inl e \<Rightarrow> if is_cancelled_error e then OutCancelled e else OutFailure e
           | Inr v \<Rightarrow> (case validate_cued_result v of Inr items \<Rightarrow> OutSuccess items | Inl e \<Rightarrow> OutFailure e))
      | Some (IntentAttachmentFailure e) \<Rightarrow> OutFailure e
      | Some (IntentRequested d) \<Rightarrow>
          (case ranked_cleanup_error d r of
             Some e \<Rightarrow> OutCleanupFailure e
           | None \<Rightarrow> OutCancelled (case r of Inl e \<Rightarrow> e | Inr _ \<Rightarrow> cancelled_error)))"

lemma transition_settles:
  assumes "op_wf st" "\<not> is_terminal st"
  shows "transition_from_result r st = Returns (Some (settle (intended_outcome (os_intent st) r) st))"
  using assms
  by (auto simp: transition_from_result_def take_completion_snapshot_def transition_after_snapshot_def
      completion_outcome_def running_outcome_def requested_outcome_def intended_outcome_def op_wf_def Let_def
      split: operation_phase.splits option.splits cancellation_intent.splits sum.splits)

lemma transition_terminal: "is_terminal st \<Longrightarrow> transition_from_result r st = Returns None"
  by (auto simp: transition_from_result_def take_completion_snapshot_def)

lemma validate_cued_result_Inr:
  "validate_cued_result v = Inr items \<longleftrightarrow> v = PyTuple items \<and> list_all is_effect items"
proof (cases v)
  case (PyTuple xs)
  then show ?thesis
    using position_None [of "\<lambda>item. \<not> is_effect item" xs]
    by (cases "position (\<lambda>item. \<not> is_effect item) xs") (auto simp: validate_cued_result_def list_all_iff)
qed (simp_all add: validate_cued_result_def)

lemma intended_success_iff:
  "intended_outcome intent r = OutSuccess items \<longleftrightarrow>
     intent = None \<and> r = Inr (PyTuple items) \<and> list_all is_effect items"
  using validate_cued_result_Inr
  by (auto simp: intended_outcome_def
      split: option.splits sum.splits cancellation_intent.splits if_splits) (metis Inl_Inr_False)

end
