(* ===== verification/Serial_Order.thy ===== *)
theory Serial_Order
  imports Prelude "HOL-Library.Sublist"
begin

section \<open>First come, first served\<close>

text \<open>
  What the orchestra relies on of a mailbox: a list of what is in it, the one being served first; what arrives
  goes to its end, and what leaves does not disturb the rest. From these laws alone the content is always the
  part of the arrivals that has not left, in the order of arrival.
\<close>

lemma subseq_set: "subseq xs ys \<Longrightarrow> set xs \<subseteq> set ys"
  by (induction xs ys rule: list_emb.induct) auto

lemma subseq_distinct_filter:
  assumes "subseq xs ys" "distinct ys"
  shows "xs = filter (\<lambda>y. y \<in> set xs) ys"
  using assms
proof (induction xs ys rule: list_emb.induct)
  case (list_emb_Cons xs ys y)
  then have "y \<notin> set xs" using subseq_set [of xs ys] by auto
  then show ?case using list_emb_Cons by simp
next
  case (list_emb_Cons2 x y xs ys)
  then have xy: "x = y" "y \<notin> set ys" and ih: "filter (\<lambda>z. z \<in> set xs) ys = xs" by auto
  have "filter (\<lambda>z. z = y \<or> z \<in> set xs) ys = filter (\<lambda>z. z \<in> set xs) ys" using xy(2) by (auto intro: filter_cong)
  then show ?case using xy(1) ih by simp
qed simp

locale serial_order =
  fixes contents :: "'m \<Rightarrow> 'o list" and vacant :: 'm and arrive :: "'o \<Rightarrow> 'm \<Rightarrow> 'm" and leave :: "'o \<Rightarrow> 'm \<Rightarrow> 'm"
  assumes contents_vacant: "contents vacant = []"
    and contents_arrive: "contents (arrive x m) = contents m @ [x]"
    and contents_leave: "subseq (contents (leave x m)) (contents m)"
begin

lemma vacant_in_order: "subseq (contents vacant) arrivals"
  by (simp add: contents_vacant)

lemma arrive_in_order: "subseq (contents m) arrivals \<Longrightarrow> subseq (contents (arrive x m)) (arrivals @ [x])"
  by (simp add: contents_arrive)

lemma arrive_elsewhere: "subseq (contents m) arrivals \<Longrightarrow> subseq (contents m) (arrivals @ [x])"
  by (rule list_emb_prefix)

lemma leave_in_order: "subseq (contents m) arrivals \<Longrightarrow> subseq (contents (leave x m)) arrivals"
  by (rule subseq_order.order_trans [OF contents_leave])

lemma contents_are_the_rest:
  assumes "subseq (contents m) arrivals" "distinct arrivals" "\<And>x. x \<in> set arrivals \<Longrightarrow> x \<in> set (contents m) \<longleftrightarrow> P x"
  shows "filter P arrivals = contents m"
proof -
  have "filter P arrivals = filter (\<lambda>x. x \<in> set (contents m)) arrivals" using assms(3) by (auto intro: filter_cong)
  then show ?thesis using subseq_distinct_filter [OF assms(1,2)] by simp
qed

end

end
