(* ===== verification/Actor_Mailbox.thy ===== *)
theory Actor_Mailbox
  imports Serial_Order
begin

section \<open>The mailbox of an actor\<close>

text \<open>
  \<^verbatim>\<open>Mailbox\<close> of \<^verbatim>\<open>orchestration/mailbox.rs\<close>: a queue of operations and one slot for the operation that
  runs. An operation is shared by reference in the code and compared by pointer; here it is its identity,
  a number.
\<close>

record mailbox =
  mb_queue :: "nat list"
  mb_running :: "nat option"

definition mailbox_default :: mailbox where
  "mailbox_default = \<lparr> mb_queue = [], mb_running = None \<rparr>"

definition mailbox_enqueue :: "nat \<Rightarrow> mailbox \<Rightarrow> mailbox" where
  "mailbox_enqueue operation m = m \<lparr> mb_queue := mb_queue m @ [operation] \<rparr>"

definition claim_next_if_idle :: "mailbox \<Rightarrow> mailbox \<times> nat option" where
  "claim_next_if_idle m =
     (if mb_running m \<noteq> None then (m, None)
      else case mb_queue m of
             [] \<Rightarrow> (m, None)
           | operation # rest \<Rightarrow> (m \<lparr> mb_queue := rest, mb_running := Some operation \<rparr>, Some operation))"

definition complete_running :: "nat \<Rightarrow> mailbox \<Rightarrow> mailbox \<times> (nat \<times> nat option) option" where
  "complete_running operation m =
     (if mb_running m \<noteq> Some operation then (m, None)
      else case mb_queue m of
             [] \<Rightarrow> (m \<lparr> mb_running := None \<rparr>, Some (operation, None))
           | next # rest \<Rightarrow>
               (m \<lparr> mb_queue := rest, mb_running := Some next \<rparr>, Some (operation, Some next)))"

definition remove_queued :: "nat \<Rightarrow> mailbox \<Rightarrow> mailbox \<times> nat option" where
  "remove_queued operation m =
     (case position (\<lambda>queued. queued = operation) (mb_queue m) of
        None \<Rightarrow> (m, None)
      | Some index \<Rightarrow>
          (m \<lparr> mb_queue := take index (mb_queue m) @ drop (Suc index) (mb_queue m) \<rparr>, Some operation))"

record mailbox_terminal_transition =
  mt_removed :: "nat option"
  mt_retired :: "nat option"
  mt_next :: "nat option"

definition terminal_transition_default :: mailbox_terminal_transition where
  "terminal_transition_default = \<lparr> mt_removed = None, mt_retired = None, mt_next = None \<rparr>"

definition terminal_transition :: "nat \<Rightarrow> mailbox \<Rightarrow> mailbox \<times> mailbox_terminal_transition" where
  "terminal_transition operation m =
     (case remove_queued operation m of
        (m', Some removed) \<Rightarrow> (m', terminal_transition_default \<lparr> mt_removed := Some removed \<rparr>)
      | (_, None) \<Rightarrow>
          (case complete_running operation m of
             (m', None) \<Rightarrow> (m', terminal_transition_default)
           | (m', Some (retired, next)) \<Rightarrow>
               (m', \<lparr> mt_removed = None, mt_retired = Some retired, mt_next = next \<rparr>)))"

subsection \<open>The contract\<close>

text \<open>A mailbox is sound when nothing waits in an idle mailbox and nothing is in it twice.\<close>

definition mailbox_ok :: "mailbox \<Rightarrow> bool" where
  "mailbox_ok m \<longleftrightarrow>
     distinct (mb_queue m) \<and> (\<forall>r. mb_running m = Some r \<longrightarrow> r \<notin> set (mb_queue m)) \<and>
     (mb_queue m \<noteq> [] \<longrightarrow> mb_running m \<noteq> None)"

definition mailbox_members :: "mailbox \<Rightarrow> nat set" where
  "mailbox_members m = set (mb_queue m) \<union> set_option (mb_running m)"

lemma remove_queued_eq:
  "remove_queued op m =
     (if op \<in> set (mb_queue m) then (m \<lparr> mb_queue := remove1 op (mb_queue m) \<rparr>, Some op) else (m, None))"
  using position_eq_None [of op "mb_queue m"]
  by (auto simp: remove_queued_def take_drop_remove1 split: option.splits)

text \<open>What ending an operation does to a sound mailbox, in three cases.\<close>

lemma terminal_transition_queued:
  "op \<in> set (mb_queue m) \<Longrightarrow>
   terminal_transition op m =
     (m \<lparr> mb_queue := remove1 op (mb_queue m) \<rparr>, \<lparr> mt_removed = Some op, mt_retired = None, mt_next = None \<rparr>)"
  by (simp add: terminal_transition_def remove_queued_eq terminal_transition_default_def)

lemma terminal_transition_running:
  "mailbox_ok m \<Longrightarrow> mb_running m = Some op \<Longrightarrow>
   terminal_transition op m =
     (m \<lparr> mb_queue := tl (mb_queue m), mb_running := (case mb_queue m of [] \<Rightarrow> None | x # _ \<Rightarrow> Some x) \<rparr>,
      \<lparr> mt_removed = None, mt_retired = Some op,
        mt_next = (case mb_queue m of [] \<Rightarrow> None | x # _ \<Rightarrow> Some x) \<rparr>)"
  by (auto simp: terminal_transition_def remove_queued_eq complete_running_def mailbox_ok_def split: list.splits)

lemma terminal_transition_absent:
  "op \<notin> mailbox_members m \<Longrightarrow> terminal_transition op m = (m, terminal_transition_default)"
  by (auto simp: terminal_transition_def remove_queued_eq complete_running_def mailbox_members_def)

lemma terminal_transition_ok:
  assumes "mailbox_ok m"
  shows "mailbox_ok (fst (terminal_transition op m))"
proof -
  consider "op \<in> set (mb_queue m)" | "mb_running m = Some op" | "op \<notin> mailbox_members m"
    by (auto simp: mailbox_members_def)
  then show ?thesis
    using assms
    by cases (auto simp: terminal_transition_queued terminal_transition_running terminal_transition_absent
        mailbox_ok_def split: list.splits dest: notin_set_remove1)
qed

lemma mailbox_default_ok [simp]: "mailbox_ok mailbox_default" "mailbox_members mailbox_default = {}"
  by (simp_all add: mailbox_ok_def mailbox_default_def mailbox_members_def)

text \<open>Enqueueing is followed by claiming in the same critical section.\<close>

definition enqueue_and_claim :: "nat \<Rightarrow> mailbox \<Rightarrow> mailbox \<times> nat option" where
  "enqueue_and_claim operation m = claim_next_if_idle (mailbox_enqueue operation m)"

lemma enqueue_and_claim_idle:
  "mailbox_ok m \<Longrightarrow> mb_running m = None \<Longrightarrow>
   enqueue_and_claim op m = (m \<lparr> mb_queue := [], mb_running := Some op \<rparr>, Some op)"
  by (auto simp: enqueue_and_claim_def claim_next_if_idle_def mailbox_enqueue_def mailbox_ok_def)

lemma enqueue_and_claim_busy:
  "mb_running m = Some r \<Longrightarrow>
   enqueue_and_claim op m = (m \<lparr> mb_queue := mb_queue m @ [op] \<rparr>, None)"
  by (auto simp: enqueue_and_claim_def claim_next_if_idle_def mailbox_enqueue_def)

lemma enqueue_and_claim_ok:
  "mailbox_ok m \<Longrightarrow> op \<notin> mailbox_members m \<Longrightarrow> mailbox_ok (fst (enqueue_and_claim op m))"
  by (cases "mb_running m")
    (auto simp: enqueue_and_claim_idle enqueue_and_claim_busy mailbox_ok_def mailbox_members_def)

text \<open>The same in terms of what is in the mailbox: the operation leaves, and when it was the running one, the
  head of the queue takes its place.\<close>

lemma terminal_transition_effect:
  assumes "mailbox_ok m"
  shows "mailbox_members (fst (terminal_transition op m)) = mailbox_members m - {op}"
    and "set (mb_queue (fst (terminal_transition op m))) =
           set (mb_queue m) - {op} - set_option (mt_next (snd (terminal_transition op m)))"
    and "mb_running (fst (terminal_transition op m)) =
           (if mb_running m = Some op then mt_next (snd (terminal_transition op m)) else mb_running m)"
    and "mt_next (snd (terminal_transition op m)) =
           (if mb_running m = Some op then (case mb_queue m of [] \<Rightarrow> None | x # _ \<Rightarrow> Some x) else None)"
proof -
  consider "op \<in> set (mb_queue m)" | "mb_running m = Some op" | "op \<notin> mailbox_members m"
    by (auto simp: mailbox_members_def)
  then have "mailbox_members (fst (terminal_transition op m)) = mailbox_members m - {op} \<and>
    set (mb_queue (fst (terminal_transition op m))) =
      set (mb_queue m) - {op} - set_option (mt_next (snd (terminal_transition op m))) \<and>
    mb_running (fst (terminal_transition op m)) =
      (if mb_running m = Some op then mt_next (snd (terminal_transition op m)) else mb_running m) \<and>
    mt_next (snd (terminal_transition op m)) =
      (if mb_running m = Some op then (case mb_queue m of [] \<Rightarrow> None | x # _ \<Rightarrow> Some x) else None)"
  proof cases
    case 1
    then show ?thesis using assms
      by (auto simp: terminal_transition_queued mailbox_ok_def mailbox_members_def)
  next
    case 2
    then show ?thesis using assms
      by (cases "mb_queue m") (auto simp: terminal_transition_running mailbox_ok_def mailbox_members_def)
  next
    case 3
    then show ?thesis
      by (auto simp: terminal_transition_absent terminal_transition_default_def mailbox_members_def)
  qed
  then show "mailbox_members (fst (terminal_transition op m)) = mailbox_members m - {op}"
    and "set (mb_queue (fst (terminal_transition op m))) =
           set (mb_queue m) - {op} - set_option (mt_next (snd (terminal_transition op m)))"
    and "mb_running (fst (terminal_transition op m)) =
           (if mb_running m = Some op then mt_next (snd (terminal_transition op m)) else mb_running m)"
    and "mt_next (snd (terminal_transition op m)) =
           (if mb_running m = Some op then (case mb_queue m of [] \<Rightarrow> None | x # _ \<Rightarrow> Some x) else None)"
    by blast+
qed

subsection \<open>The order of service\<close>

definition mailbox_list :: "mailbox \<Rightarrow> nat list" where
  "mailbox_list m = (case mb_running m of None \<Rightarrow> [] | Some r \<Rightarrow> [r]) @ mb_queue m"

lemma set_mailbox_list: "set (mailbox_list m) = mailbox_members m"
  by (auto simp: mailbox_list_def mailbox_members_def split: option.splits)

lemma subseq_remove1: "subseq (remove1 x xs) xs"
  by (induction xs) auto

interpretation mail: serial_order mailbox_list mailbox_default "\<lambda>op m. fst (enqueue_and_claim op m)" "\<lambda>op m. fst (terminal_transition op m)"
proof unfold_locales
  show "mailbox_list mailbox_default = []" by (simp add: mailbox_list_def mailbox_default_def)
  show "mailbox_list (fst (enqueue_and_claim op m)) = mailbox_list m @ [op]" for op m
    by (auto simp: mailbox_list_def enqueue_and_claim_def claim_next_if_idle_def mailbox_enqueue_def split: option.split list.split)
  show "subseq (mailbox_list (fst (terminal_transition op m))) (mailbox_list m)" for op m
    by (auto simp: mailbox_list_def terminal_transition_def remove_queued_eq complete_running_def subseq_remove1
        split: option.split list.split)
qed

end
