(* ===== verification/Scene_Scope.thy ===== *)
theory Scene_Scope
  imports Wire
begin

section \<open>Scenes and cued contexts\<close>

text \<open>
  \<^verbatim>\<open>SceneScope\<close> and \<^verbatim>\<open>CuedScope\<close> of \<^verbatim>\<open>orchestration/scene_context.rs\<close>. A scene admits cues one at a
  time: an admission begins with a token, is prepared with the next identifier, and is committed or rolled
  back. A scene that closes while an admission is under way waits for it; then it cancels its operations and
  is closed when the last one has gone. The functions here are the critical sections of the methods; what the
  methods do outside them (cancelling operations, telling the diagnostics) is in the orchestra.

  The counters are Python integers, hence \<open>int\<close>; tokens are 64-bit and wrap.
\<close>

subsection \<open>The decimal text of a Python integer\<close>

abbreviation decimal_base :: nat where
  "decimal_base \<equiv> 1000000000000000000"

fun decimal_chunks :: "nat \<Rightarrow> nat list" where
  "decimal_chunks magnitude =
     magnitude mod decimal_base #
       (if magnitude div decimal_base = 0 then [] else decimal_chunks (magnitude div decimal_base))"

declare decimal_chunks.simps [simp del]

definition zero_padded :: "nat \<Rightarrow> string \<Rightarrow> string" where
  "zero_padded width s = replicate (width - length s) (CHR ''0'') @ s"

definition decimal_from_py_int :: "int \<Rightarrow> string" where
  "decimal_from_py_int value =
     (let chunks = rev (decimal_chunks (nat \<bar>value\<bar>))
      in (if value < 0 then ''-'' else '''') @ nat_decimal (hd chunks) @
         concat (map (\<lambda>chunk. zero_padded 18 (nat_decimal chunk)) (tl chunks)))"

subsection \<open>Scenes\<close>

datatype scene_phase =
    SceneOpen
  | SceneAdmitting u64
  | SceneClosePending u64
  | SceneClosing
  | SceneClosed

record orch_scene =
  sc_name :: string
  sc_phase :: scene_phase
  sc_next_token :: u64
  sc_operations :: "nat list"
  sc_counter :: int

definition new_scene :: "string \<Rightarrow> orch_scene" where
  "new_scene name =
     \<lparr> sc_name = name, sc_phase = SceneOpen, sc_next_token = 0, sc_operations = [], sc_counter = 0 \<rparr>"

definition begin_admission :: "orch_scene \<Rightarrow> orch_scene \<times> u64 option" where
  "begin_admission scope =
     (if sc_phase scope \<noteq> SceneOpen then (scope, None)
      else (scope \<lparr> sc_next_token := sc_next_token scope + 1, sc_phase := SceneAdmitting (sc_next_token scope) \<rparr>,
            Some (sc_next_token scope)))"

text \<open>The identifier of the cue and the next value of the counter.\<close>

definition prepare_admission :: "orch_scene \<Rightarrow> string \<times> int" where
  "prepare_admission scope =
     (sc_name scope @ ''-cue'' @ decimal_from_py_int (sc_counter scope), sc_counter scope + 1)"

datatype close_action = CloseNow | CloseWait | CloseCancel "nat list"

definition close_locked :: "orch_scene \<Rightarrow> orch_scene \<times> close_action option" where
  "close_locked scope =
     (case sc_phase scope of
        SceneOpen \<Rightarrow>
          if sc_operations scope = [] then (scope \<lparr> sc_phase := SceneClosed \<rparr>, Some CloseNow)
          else (scope \<lparr> sc_phase := SceneClosing \<rparr>, Some (CloseCancel (sc_operations scope)))
      | SceneAdmitting token \<Rightarrow> (scope \<lparr> sc_phase := SceneClosePending token \<rparr>, Some CloseWait)
      | _ \<Rightarrow> (scope, None))"

definition operation_finished_locked :: "nat \<Rightarrow> orch_scene \<Rightarrow> orch_scene \<times> nat option \<times> bool" where
  "operation_finished_locked operation scope =
     (let (operations, removed) =
            (case position (\<lambda>current. current = operation) (sc_operations scope) of
               Some index \<Rightarrow> (take index (sc_operations scope) @ drop (Suc index) (sc_operations scope), Some operation)
             | None \<Rightarrow> (sc_operations scope, None));
          closed = (sc_phase scope = SceneClosing \<and> operations = [])
      in (scope \<lparr> sc_operations := operations, sc_phase := if closed then SceneClosed else sc_phase scope \<rparr>,
          removed, closed))"

text \<open>One turn of the loop of \<^verbatim>\<open>wait_closed\<close>: whether the scene is closed, and whether this turn closed it.\<close>

definition wait_closed_turn :: "orch_scene \<Rightarrow> orch_scene \<times> bool \<times> bool" where
  "wait_closed_turn scope =
     (if sc_phase scope = SceneClosing \<and> sc_operations scope = []
      then (scope \<lparr> sc_phase := SceneClosed \<rparr>, True, True)
      else (scope, sc_phase scope = SceneClosed, False))"

definition scene_is_open :: "orch_scene \<Rightarrow> bool" where
  "scene_is_open scope \<longleftrightarrow> sc_phase scope = SceneOpen"

text \<open>\<open>None\<close> for another token; otherwise the operations to cancel, if a close was waiting.\<close>

definition rollback_admission_locked :: "u64 \<Rightarrow> orch_scene \<Rightarrow> orch_scene \<times> nat list option option" where
  "rollback_admission_locked token scope =
     (case sc_phase scope of
        SceneAdmitting current \<Rightarrow>
          if current = token then (scope \<lparr> sc_phase := SceneOpen \<rparr>, Some None) else (scope, None)
      | SceneClosePending current \<Rightarrow>
          if current = token then (scope \<lparr> sc_phase := SceneClosing \<rparr>, Some (Some (sc_operations scope)))
          else (scope, None)
      | _ \<Rightarrow> (scope, None))"

text \<open>The commit of a prepared admission: the counter advances and the operation is registered. \<open>None\<close> is
  the panic on a token that is not the current one. The second component is the list of operations to
  cancel when a close was waiting.\<close>

definition commit_locked :: "u64 \<Rightarrow> int \<Rightarrow> nat \<Rightarrow> orch_scene \<Rightarrow> (orch_scene \<times> nat list option) option" where
  "commit_locked token next operation scope =
     (case (case sc_phase scope of
              SceneAdmitting current \<Rightarrow> if current = token then Some (SceneOpen, False) else None
            | SceneClosePending current \<Rightarrow> if current = token then Some (SceneClosing, True) else None
            | _ \<Rightarrow> None) of
        None \<Rightarrow> None
      | Some (phase, close_pending) \<Rightarrow>
          (let scope' = scope \<lparr> sc_phase := phase, sc_counter := next,
                                sc_operations := sc_operations scope @ [operation] \<rparr>
           in Some (scope', if close_pending then Some (sc_operations scope') else None)))"

subsection \<open>Cued contexts\<close>

text \<open>The agent turns are weak references; \<open>live\<close> tells which of them still have an owner.\<close>

record cued_scope =
  cu_source :: string
  cu_actor_identity :: nat
  cu_cue_id :: string
  cu_effect_counter :: int
  cu_agent_turns :: "nat list"
  cu_active :: bool

definition new_cued_scope :: "string \<Rightarrow> nat \<Rightarrow> string \<Rightarrow> cued_scope" where
  "new_cued_scope source actor_identity cue_id =
     \<lparr> cu_source = source, cu_actor_identity = actor_identity, cu_cue_id = cue_id,
       cu_effect_counter = 0, cu_agent_turns = [], cu_active = True \<rparr>"

definition close_inline :: "(nat \<Rightarrow> bool) \<Rightarrow> cued_scope \<Rightarrow> cued_scope \<times> nat list" where
  "close_inline live cued =
     (cued \<lparr> cu_agent_turns := [], cu_active := False \<rparr>, filter live (cu_agent_turns cued))"

definition register_agent_turn :: "(nat \<Rightarrow> bool) \<Rightarrow> nat \<Rightarrow> cued_scope \<Rightarrow> cued_scope \<times> bool" where
  "register_agent_turn live turn cued =
     (if \<not> cu_active cued then (cued, False)
      else (cued \<lparr> cu_agent_turns := filter live (cu_agent_turns cued) @ [turn] \<rparr>, True))"

definition next_effect_id :: "cued_scope \<Rightarrow> cued_scope \<times> string" where
  "next_effect_id cued =
     (cued \<lparr> cu_effect_counter := cu_effect_counter cued + 1 \<rparr>,
      cu_cue_id cued @ ''-effect'' @ decimal_from_py_int (cu_effect_counter cued))"

subsection \<open>The text is the usual decimal\<close>

fun fixed_digits :: "nat \<Rightarrow> nat \<Rightarrow> string" where
  "fixed_digits 0 r = []"
| "fixed_digits (Suc k) r = fixed_digits k (r div 10) @ [digit_char (r mod 10)]"

lemma fixed_digits_0: "fixed_digits k 0 = replicate k (CHR ''0'')"
proof -
  have "digit_char 0 = CHR ''0''" by (simp add: digit_char_def char_of_def bit_iff_odd)
  then show ?thesis by (induction k) (simp_all add: replicate_append_same [symmetric])
qed

lemma nat_decimal_shift:
  "0 < q \<Longrightarrow> r < 10 ^ k \<Longrightarrow> nat_decimal (q * 10 ^ k + r) = nat_decimal q @ fixed_digits k r"
proof (induction k arbitrary: r)
  case (Suc k)
  have "(q * 10 ^ Suc k + r) div 10 = q * 10 ^ k + r div 10" "(q * 10 ^ Suc k + r) mod 10 = r mod 10"
    by (simp_all add: div_add1_eq mod_add_left_eq [symmetric, of "q * (10 * 10 ^ k)"] mult.left_commute [of q])
  moreover have "\<not> q * 10 ^ Suc k + r < 10"
  proof -
    have "1 * 10 ^ Suc k \<le> q * 10 ^ Suc k" using Suc.prems(1) by (intro mult_right_mono) simp_all
    moreover have "(10::nat) \<le> 10 ^ Suc k" by simp
    ultimately show ?thesis by linarith
  qed
  moreover have "r div 10 < 10 ^ k" using Suc.prems(2) by (simp add: less_mult_imp_div_less mult.commute)
  ultimately show ?case
    using Suc.IH [of "r div 10"] Suc.prems(1) by (subst nat_decimal.simps) (simp del: power_Suc)
qed simp

lemma zero_padded_nat_decimal: "0 < k \<Longrightarrow> r < 10 ^ k \<Longrightarrow> zero_padded k (nat_decimal r) = fixed_digits k r"
proof (induction k arbitrary: r)
  case (Suc k)
  show ?case
  proof (cases "r < 10")
    case True
    then show ?thesis
      by (simp add: nat_decimal.simps [of r] zero_padded_def fixed_digits_0)
  next
    case False
    then have "0 < k" using Suc.prems(2) by (cases k) simp_all
    moreover have "r div 10 < 10 ^ k" using Suc.prems(2) by (simp add: less_mult_imp_div_less mult.commute)
    ultimately have "zero_padded k (nat_decimal (r div 10)) = fixed_digits k (r div 10)"
      by (rule Suc.IH)
    then show ?thesis using False by (simp add: nat_decimal.simps [of r] zero_padded_def)
  qed
qed simp

lemma decimal_chunks_nonempty [simp]: "decimal_chunks n \<noteq> []"
  by (subst decimal_chunks.simps) simp

lemma decimal_chunks_text:
  "nat_decimal (hd (rev (decimal_chunks n))) @
     concat (map (\<lambda>chunk. zero_padded 18 (nat_decimal chunk)) (tl (rev (decimal_chunks n)))) = nat_decimal n"
proof (induction n rule: decimal_chunks.induct)
  case (1 n)
  show ?case
  proof (cases "n div decimal_base = 0")
    case True
    then have "n mod decimal_base = n" by (metis div_mult_mod_eq mult_0 add_0)
    with True show ?thesis by (subst (1 2) decimal_chunks.simps) simp
  next
    case False
    let ?q = "n div decimal_base" and ?r = "n mod decimal_base"
    have r: "?r < 10 ^ 18" by simp
    have "nat_decimal (?q * 10 ^ 18 + ?r) = nat_decimal ?q @ fixed_digits 18 ?r"
      using False r by (intro nat_decimal_shift) auto
    then have "nat_decimal n = nat_decimal ?q @ zero_padded 18 (nat_decimal ?r)"
      using zero_padded_nat_decimal [OF _ r] by simp
    then show ?thesis
      using 1 [OF False] False
      by (subst (1 2) decimal_chunks.simps) (simp add: hd_append tl_append_if)
  qed
qed

lemma decimal_from_py_int_eq:
  "decimal_from_py_int i = (if i < 0 then CHR ''-'' # nat_decimal (nat (- i)) else nat_decimal (nat i))"
  using decimal_chunks_text [of "nat \<bar>i\<bar>"] by (simp add: decimal_from_py_int_def Let_def)

lemma nat_decimal_inject: "nat_decimal m = nat_decimal n \<longleftrightarrow> m = n"
  by (metis dec_value_nat_decimal)

lemma decimal_from_py_int_inject:
  "0 \<le> i \<Longrightarrow> 0 \<le> j \<Longrightarrow> decimal_from_py_int i = decimal_from_py_int j \<longleftrightarrow> i = j"
  by (auto simp: decimal_from_py_int_eq nat_decimal_inject eq_nat_nat_iff)

text \<open>The value of a chunk fits the 64 bits it is read into.\<close>

lemma decimal_chunks_u64: "c \<in> set (decimal_chunks n) \<Longrightarrow> c < 2 ^ 64"
proof (induction n rule: decimal_chunks.induct)
  case (1 n)
  have "n mod decimal_base < 2 ^ 64"
    by (rule less_trans [OF mod_less_divisor]) simp_all
  with 1 show ?case
    by (subst (asm) decimal_chunks.simps) (auto split: if_splits)
qed

subsection \<open>Facts about scenes\<close>

lemma operation_finished_eq:
  "operation_finished_locked op scope =
     (let operations = remove1 op (sc_operations scope);
          closed = (sc_phase scope = SceneClosing \<and> operations = [])
      in (scope \<lparr> sc_operations := operations, sc_phase := if closed then SceneClosed else sc_phase scope \<rparr>,
          if op \<in> set (sc_operations scope) then Some op else None, closed))"
  using position_eq_None [of op "sc_operations scope"]
  by (cases "position (\<lambda>current. current = op) (sc_operations scope)")
    (auto simp: operation_finished_locked_def take_drop_remove1 remove1_idem Let_def)

end
