(* ===== verification/Orchestra.thy ===== *)
theory Orchestra
  imports Cue_Operation Actor_Mailbox Scene_Scope
begin

section \<open>The orchestra: operations, mailboxes and scenes together\<close>

text \<open>
  Cues travel from scenes to actors (\<^verbatim>\<open>orchestration/mailbox.rs\<close>, \<^verbatim>\<open>actor.rs\<close>, \<^verbatim>\<open>scene_context.rs\<close>). All
  of this code runs with the interpreter lock held, so that what happens between two calls into Python is
  atomic. A call into Python, on the other hand, can run anything: it can come back into the orchestra, and
  other threads can. So a step of the model is the code between two calls into Python, and a call in
  progress is part of the state: \<open>or_dispatch\<close> holds, for an operation being dispatched, where its dispatch
  is and the signal to resolve afterwards; \<open>or_txn\<close> the admission that a scene has begun; \<open>or_commits\<close> a
  commit that is cancelling operations before it enqueues its own; \<open>or_closing\<close> the operations that a
  closing scene has still to cancel; \<open>or_cancelling\<close> the calls of \<^verbatim>\<open>task.cancel()\<close> that have not returned.
  Any of them may take the next step. What Python returns is part of the label of the step.

  A panic ends a run: it unwinds into the interpreter, and nothing is claimed about what follows.

  An operation lives as long as it is not terminal, since its scene holds it, and its cued context holds
  the scene; of the weak references of an operation only those to the actor and to the binding of the run can
  be dead. An actor is not dropped while one of its methods runs.

  The futures are identified with their operations: the signal of operation \<open>n\<close> is the future \<open>n\<close>, created
  for it, and likewise its cue. The log records the calls of the diagnostic hooks, and of the terminal hook also whether
  there was an error and whether the actor was alive, which the hook looks up.
\<close>

subsection \<open>State\<close>

record cue_operation =
  op_scene :: nat
  op_actor :: nat
  op_cued :: cued_scope
  op_state :: operation_state

datatype cue_hook =
    HookAdmitted
  | HookEnqueued nat bool
  | HookDispatched
  | HookCancelRequested
  | HookTerminal cue_terminal_outcome bool bool
  | HookRetired nat bool

datatype scene_hook = AdmissionClosed | CleanupStarted | CancellationStarted | CleanupFinished | SceneFinished

datatype dispatch_stage = StClaimed | StCalling | StTasking | StAttaching | StAbandoning

record orchestra =
  or_ops :: "nat \<Rightarrow> cue_operation option"
  or_next_op :: nat
  or_mailboxes :: "nat \<Rightarrow> mailbox"
  or_actor_live :: "nat \<Rightarrow> bool"
  or_binding_live :: bool
  or_scenes :: "nat \<Rightarrow> orch_scene option"
  or_turn_live :: "nat \<Rightarrow> bool"
  or_txn :: "nat \<Rightarrow> (u64 \<times> (string \<times> int) option) option"
  or_commits :: "nat \<Rightarrow> (u64 \<times> nat list) option"
  or_closing :: "nat \<Rightarrow> nat list option"
  or_dispatch :: "nat \<Rightarrow> (dispatch_stage \<times> nat option) option"
  or_cancelling :: "nat \<Rightarrow> bool"
  or_callback :: "nat \<Rightarrow> bool"
  or_fallback :: "nat \<Rightarrow> bool"
  or_resolved :: "nat \<Rightarrow> bool"
  or_cancelled_turns :: "nat list"
  or_log :: "(nat \<times> cue_hook) list"
  or_scene_log :: "(nat \<times> scene_hook) list"
  or_panic :: "string option"

definition orchestra_init :: "(nat \<Rightarrow> bool) \<Rightarrow> orchestra" where
  "orchestra_init actors =
     \<lparr> or_ops = (\<lambda>_. None), or_next_op = 0, or_mailboxes = (\<lambda>_. mailbox_default), or_actor_live = actors,
       or_binding_live = True, or_scenes = (\<lambda>_. None), or_turn_live = (\<lambda>_. False), or_txn = (\<lambda>_. None),
       or_commits = (\<lambda>_. None), or_closing = (\<lambda>_. None), or_dispatch = (\<lambda>_. None),
       or_cancelling = (\<lambda>_. False), or_callback = (\<lambda>_. False), or_fallback = (\<lambda>_. False),
       or_resolved = (\<lambda>_. False), or_cancelled_turns = [], or_log = [], or_scene_log = [], or_panic = None \<rparr>"

definition operation_at :: "orchestra \<Rightarrow> nat \<Rightarrow> cue_operation" where
  "operation_at s o' = the (or_ops s o')"

definition state_at :: "orchestra \<Rightarrow> nat \<Rightarrow> operation_state" where
  "state_at s o' = op_state (operation_at s o')"

definition phase_at :: "orchestra \<Rightarrow> nat \<Rightarrow> operation_phase" where
  "phase_at s o' = os_phase (state_at s o')"

definition set_state :: "nat \<Rightarrow> operation_state \<Rightarrow> orchestra \<Rightarrow> orchestra" where
  "set_state o' st s = s \<lparr> or_ops := (or_ops s)(o' \<mapsto> (operation_at s o') \<lparr> op_state := st \<rparr>) \<rparr>"

definition observe :: "nat \<Rightarrow> cue_hook \<Rightarrow> orchestra \<Rightarrow> orchestra" where
  "observe o' hook s = s \<lparr> or_log := or_log s @ [(o', hook)] \<rparr>"

definition observe_scene :: "nat \<Rightarrow> scene_hook \<Rightarrow> orchestra \<Rightarrow> orchestra" where
  "observe_scene sc hook s = s \<lparr> or_scene_log := or_scene_log s @ [(sc, hook)] \<rparr>"

definition panic_with :: "string \<Rightarrow> orchestra \<Rightarrow> orchestra" where
  "panic_with message s = s \<lparr> or_panic := Some message \<rparr>"

subsection \<open>Ending an operation\<close>

text \<open>The signal is a future that nobody else settles; resolving it twice does nothing.\<close>

definition resolve_terminal_signal :: "nat option \<Rightarrow> orchestra \<Rightarrow> orchestra" where
  "resolve_terminal_signal signal s =
     (case signal of None \<Rightarrow> s | Some future \<Rightarrow> s \<lparr> or_resolved := (or_resolved s)(future := True) \<rparr>)"

definition close_cued_inline :: "nat \<Rightarrow> orchestra \<Rightarrow> orchestra" where
  "close_cued_inline o' s =
     (let (cued, turns) = close_inline (or_turn_live s) (op_cued (operation_at s o'))
      in s \<lparr> or_ops := (or_ops s)(o' \<mapsto> (operation_at s o') \<lparr> op_cued := cued \<rparr>),
             or_cancelled_turns := or_cancelled_turns s @ turns \<rparr>)"

definition unlink_terminal_operation :: "nat \<Rightarrow> orchestra \<Rightarrow> orchestra \<times> nat option" where
  "unlink_terminal_operation o' s =
     (let a = op_actor (operation_at s o');
          (m, transition) = terminal_transition o' (or_mailboxes s a)
      in (observe o' (HookRetired (length (mb_queue m)) (mb_running m \<noteq> None))
            (s \<lparr> or_mailboxes := (or_mailboxes s)(a := m) \<rparr>),
          mt_next transition))"

definition observe_closed :: "nat \<Rightarrow> orchestra \<Rightarrow> orchestra" where
  "observe_closed sc s = observe_scene sc SceneFinished (observe_scene sc CleanupFinished s)"

definition scene_operation_finished :: "nat \<Rightarrow> orchestra \<Rightarrow> orchestra" where
  "scene_operation_finished o' s =
     (let sc = op_scene (operation_at s o')
      in case or_scenes s sc of
           None \<Rightarrow> s
         | Some scope \<Rightarrow>
             (let (scope', _, closed) = operation_finished_locked o' scope;
                  s' = s \<lparr> or_scenes := (or_scenes s)(sc \<mapsto> scope') \<rparr>
              in if closed then observe_closed sc s' else s'))"

definition complete_terminal_action :: "nat \<Rightarrow> terminal_action \<Rightarrow> bool \<Rightarrow> orchestra \<Rightarrow> orchestra \<times> nat option" where
  "complete_terminal_action o' action with_actor s =
     (let s1 = (if ta_close_cued action then close_cued_inline o' s else s);
          (s2, next) = (if with_actor then unlink_terminal_operation o' s1 else (s1, None))
      in (scene_operation_finished o' s2, next))"

text \<open>The loop of \<^verbatim>\<open>finish_terminal_action\<close>, up to the dispatch of the next operation; the dispatch goes on
  with the loop when it returns (\<open>dispatch_scheduled\<close>, \<open>dispatch_failed\<close>).\<close>

definition finish_terminal_action :: "nat \<Rightarrow> terminal_action \<Rightarrow> orchestra \<Rightarrow> orchestra" where
  "finish_terminal_action o' action s =
     (case complete_terminal_action o' action True s of
        (s', None) \<Rightarrow> resolve_terminal_signal (ta_signal action) s'
      | (s', Some next) \<Rightarrow> s' \<lparr> or_dispatch := (or_dispatch s')(next \<mapsto> (StClaimed, ta_signal action)) \<rparr>)"

definition perform_terminal_action :: "nat \<Rightarrow> terminal_action \<Rightarrow> orchestra \<Rightarrow> orchestra" where
  "perform_terminal_action o' action s =
     (let s1 = observe o' (HookTerminal (ta_diagnostic_outcome action) (terminal_error (state_at s o') \<noteq> None)
                 (or_actor_live s (op_actor (operation_at s o')))) s
      in if or_actor_live s (op_actor (operation_at s o')) then finish_terminal_action o' action s1
         else (let (s2, _) = complete_terminal_action o' action False s1
               in resolve_terminal_signal (ta_signal action) s2))"

definition finish_with_result :: "nat \<Rightarrow> py_result \<Rightarrow> orchestra \<Rightarrow> orchestra" where
  "finish_with_result o' result s =
     (case transition_from_result result (state_at s o') of
        Panics m \<Rightarrow> panic_with m s
      | Returns None \<Rightarrow> s
      | Returns (Some (st, action)) \<Rightarrow> perform_terminal_action o' action (set_state o' st s))"

definition request_cancel :: "nat \<Rightarrow> orchestra \<Rightarrow> orchestra" where
  "request_cancel o' s =
     (case request_cancel_locked (state_at s o') of
        (_, None) \<Rightarrow> s
      | (st, Some (RequestQueued action)) \<Rightarrow>
          perform_terminal_action o' action (observe o' HookCancelRequested (set_state o' st s))
      | (st, Some (RequestRunning _)) \<Rightarrow>
          (observe o' HookCancelRequested (set_state o' st s))
            \<lparr> or_cancelling := (or_cancelling s)(o' := True) \<rparr>)"

subsection \<open>Enqueueing and dispatching\<close>

definition drain_from :: "nat \<Rightarrow> orchestra \<Rightarrow> orchestra" where
  "drain_from o' s = s \<lparr> or_dispatch := (or_dispatch s)(o' \<mapsto> (StClaimed, None)) \<rparr>"

definition enqueue_operation :: "nat \<Rightarrow> orchestra \<Rightarrow> orchestra" where
  "enqueue_operation o' s =
     (let a = op_actor (operation_at s o');
          (m, start) = enqueue_and_claim o' (or_mailboxes s a);
          s' = observe o' (HookEnqueued (length (mb_queue m)) (mb_running m \<noteq> None))
                 (s \<lparr> or_mailboxes := (or_mailboxes s)(a := m) \<rparr>)
      in case start of None \<Rightarrow> s' | Some next \<Rightarrow> drain_from next s')"

text \<open>The second component tells whether the actor was still alive.\<close>

definition operation_enqueue :: "nat \<Rightarrow> orchestra \<Rightarrow> orchestra \<times> bool" where
  "operation_enqueue o' s =
     (if is_terminal (state_at s o') then (s, True)
      else if \<not> or_actor_live s (op_actor (operation_at s o')) then (s, False)
      else (enqueue_operation o' s, True))"

definition dispatch_scheduled :: "nat \<Rightarrow> nat option \<Rightarrow> orchestra \<Rightarrow> orchestra" where
  "dispatch_scheduled o' signal s =
     resolve_terminal_signal signal
       ((observe o' HookDispatched s) \<lparr> or_dispatch := (or_dispatch s)(o' := None) \<rparr>)"

definition dispatch_failed :: "nat \<Rightarrow> nat option \<Rightarrow> py_error \<Rightarrow> orchestra \<Rightarrow> orchestra" where
  "dispatch_failed o' signal e s =
     (case transition_from_result (Inl e) (state_at s o') of
        Returns (Some (st, action)) \<Rightarrow>
          finish_terminal_action o' action
            (resolve_terminal_signal signal
               (set_state o' st (s \<lparr> or_dispatch := (or_dispatch s)(o' := None) \<rparr>)))
      | Returns None \<Rightarrow> panic_with ''a dispatched queued operation must terminalize exactly once'' s
      | Panics m \<Rightarrow> panic_with m s)"

definition set_stage :: "nat \<Rightarrow> dispatch_stage \<Rightarrow> nat option \<Rightarrow> orchestra \<Rightarrow> orchestra" where
  "set_stage o' stage signal s = s \<lparr> or_dispatch := (or_dispatch s)(o' \<mapsto> (stage, signal)) \<rparr>"

text \<open>The dispatch up to the call of the actor's \<^verbatim>\<open>cued\<close>; making the callback object may fail.\<close>

definition dispatch_start :: "nat \<Rightarrow> nat option \<Rightarrow> py_error option \<Rightarrow> orchestra \<Rightarrow> orchestra" where
  "dispatch_start o' signal callback_error s =
     (if \<not> or_actor_live s (op_actor (operation_at s o'))
        then dispatch_failed o' signal (PyRuntimeError ''Actor is no longer alive'') s
      else if \<not> or_binding_live s
        then dispatch_failed o' signal (PyRuntimeError ''Production runtime is no longer active'') s
      else if phase_at s o' \<noteq> OpQueued
        then panic_with ''assertion failed: matches!(state.phase, OperationPhase::Queued)'' s
      else case os_cue (state_at s o') of
             None \<Rightarrow> panic_with ''runtime CueOperation must own a Cue'' s
           | Some _ \<Rightarrow>
               (case callback_error of
                  Some e \<Rightarrow> dispatch_failed o' signal e s
                | None \<Rightarrow> set_stage o' StCalling signal s))"

text \<open>After the call of \<^verbatim>\<open>cued\<close> and making the driver.\<close>

definition dispatch_called :: "nat \<Rightarrow> nat option \<Rightarrow> py_error option \<Rightarrow> orchestra \<Rightarrow> orchestra" where
  "dispatch_called o' signal result s =
     (case result of Some e \<Rightarrow> dispatch_failed o' signal e s | None \<Rightarrow> set_stage o' StTasking signal s)"

text \<open>After the creation of the task; when it failed, the driver is closed, and with it the context.\<close>

definition dispatch_task :: "nat \<Rightarrow> nat option \<Rightarrow> py_error + nat \<Rightarrow> orchestra \<Rightarrow> orchestra" where
  "dispatch_task o' signal result s =
     (case result of
        Inl e \<Rightarrow> dispatch_failed o' signal e (close_cued_inline o' s)
      | Inr task \<Rightarrow>
          (let (st, previous) = start_running_locked task (state_at s o');
               s' = set_state o' st s
           in if previous \<noteq> OpQueued
              then panic_with ''assertion failed: matches!(previous, OperationPhase::Queued)'' s'
              else set_stage o' StAttaching signal s'))"

text \<open>After \<^verbatim>\<open>add_done_callback\<close>.\<close>

definition dispatch_attached :: "nat \<Rightarrow> nat option \<Rightarrow> py_error option \<Rightarrow> orchestra \<Rightarrow> orchestra" where
  "dispatch_attached o' signal result s =
     (case result of
        None \<Rightarrow> dispatch_scheduled o' signal (s \<lparr> or_callback := (or_callback s)(o' := True) \<rparr>)
      | Some e \<Rightarrow>
          (case begin_attachment_failure_locked e (state_at s o') of
             (st, True) \<Rightarrow> set_stage o' StAbandoning signal (set_state o' st s)
           | (_, False) \<Rightarrow> dispatch_scheduled o' signal s))"

text \<open>After the task was cancelled and the fallback callback scheduled, or not.\<close>

definition dispatch_abandoned :: "nat \<Rightarrow> nat option \<Rightarrow> bool \<Rightarrow> orchestra \<Rightarrow> orchestra" where
  "dispatch_abandoned o' signal scheduled s =
     dispatch_scheduled o' signal (s \<lparr> or_fallback := (or_fallback s)(o' := scheduled) \<rparr>)"

subsection \<open>Admitting and closing\<close>

definition admission_dropped :: "nat \<Rightarrow> u64 \<Rightarrow> orchestra \<Rightarrow> orchestra" where
  "admission_dropped sc token s =
     (case or_scenes s sc of
        None \<Rightarrow> s
      | Some scope \<Rightarrow>
          (case rollback_admission_locked token scope of
             (_, None) \<Rightarrow> s
           | (scope', Some None) \<Rightarrow> s \<lparr> or_scenes := (or_scenes s)(sc \<mapsto> scope') \<rparr>
           | (scope', Some (Some operations)) \<Rightarrow>
               (let s' = s \<lparr> or_scenes := (or_scenes s)(sc \<mapsto> scope'),
                             or_closing := (or_closing s)(sc \<mapsto> operations) \<rparr>
                in if operations = [] then s' else observe_scene sc CancellationStarted s')))"

definition commit_enqueue :: "nat \<Rightarrow> u64 \<Rightarrow> orchestra \<Rightarrow> orchestra" where
  "commit_enqueue o' token s =
     (case operation_enqueue o' s of
        (s', True) \<Rightarrow> s'
      | (s', False) \<Rightarrow> admission_dropped (op_scene (operation_at s o')) token s')"

definition commit_admission :: "nat \<Rightarrow> nat \<Rightarrow> string \<Rightarrow> u64 \<Rightarrow> string \<Rightarrow> int \<Rightarrow> orchestra \<Rightarrow> orchestra" where
  "commit_admission sc a source token cue_id next s =
     (let o' = or_next_op s;
          operation = \<lparr> op_scene = sc, op_actor = a, op_cued = new_cued_scope source a cue_id,
                        op_state = new_operation_state o' o' \<rparr>
      in case or_scenes s sc of
           None \<Rightarrow> s
         | Some scope \<Rightarrow>
             (case commit_locked token next o' scope of
                None \<Rightarrow> panic_with ''admission token must remain unique until commit'' s
              | Some (scope', operations_to_cancel) \<Rightarrow>
                  (let s' = observe o' HookAdmitted
                         (s \<lparr> or_ops := (or_ops s)(o' \<mapsto> operation), or_next_op := Suc o',
                              or_scenes := (or_scenes s)(sc \<mapsto> scope'), or_txn := (or_txn s)(sc := None) \<rparr>)
                   in case operations_to_cancel of
                        None \<Rightarrow> commit_enqueue o' token s'
                      | Some operations \<Rightarrow>
                          (observe_scene sc CancellationStarted s')
                            \<lparr> or_commits := (or_commits s')(o' \<mapsto> (token, operations)) \<rparr>)))"

definition close_scene :: "nat \<Rightarrow> orch_scene \<Rightarrow> orchestra \<Rightarrow> orchestra" where
  "close_scene sc scope s =
     (let (scope', action) = close_locked scope;
          s1 = s \<lparr> or_scenes := (or_scenes s)(sc \<mapsto> scope') \<rparr>;
          s2 = observe_scene sc CleanupStarted (observe_scene sc AdmissionClosed s1)
      in case action of
           None \<Rightarrow> s
         | Some CloseNow \<Rightarrow> observe_closed sc s2
         | Some CloseWait \<Rightarrow> s2
         | Some (CloseCancel operations) \<Rightarrow>
             (observe_scene sc CancellationStarted s2) \<lparr> or_closing := (or_closing s2)(sc \<mapsto> operations) \<rparr>)"

definition wait_closed :: "nat \<Rightarrow> orch_scene \<Rightarrow> orchestra \<Rightarrow> orchestra" where
  "wait_closed sc scope s =
     (let (scope', _, transitioned) = wait_closed_turn scope;
          s' = s \<lparr> or_scenes := (or_scenes s)(sc \<mapsto> scope') \<rparr>
      in if transitioned then observe_closed sc s' else s')"

subsection \<open>The callbacks of the event loop\<close>

datatype fallback_poll = PollDone py_result | PollPending bool | PollError

definition fallback_called :: "nat \<Rightarrow> fallback_poll \<Rightarrow> orchestra \<Rightarrow> orchestra" where
  "fallback_called o' poll s =
     (let s' = s \<lparr> or_fallback := (or_fallback s)(o' := False) \<rparr>
      in case fallback_task (state_at s o') of
           None \<Rightarrow> s'
         | Some _ \<Rightarrow>
             (case poll of
                PollDone result \<Rightarrow> finish_with_result o' result s'
              | PollPending rescheduled \<Rightarrow> if or_binding_live s \<and> rescheduled then s else s'
              | PollError \<Rightarrow> s'))"

subsection \<open>Steps\<close>

datatype orch_event =
    OpenScene nat string
  | BeginAdmission nat
  | PrepareAdmission nat
  | DropAdmission nat
  | CommitAdmission nat nat string
  | CommitCancel nat
  | CommitEnqueue nat
  | DispatchStart nat "py_error option"
  | CuedReturned nat "py_error option"
  | TaskCreated nat "py_error + nat"
  | CallbackAttached nat "py_error option"
  | AbandonReturned nat bool
  | RequestCancel nat
  | CancelReturned nat "py_error option"
  | TaskDone nat py_result
  | FallbackCalled nat fallback_poll
  | CloseScene nat
  | CloseCancelNext nat
  | WaitClosed nat
  | DropActor nat
  | DropBinding
  | CuedDriverExit nat
  | RegisterTurn nat nat
  | DropTurn nat
  | NextEffect nat

definition dispatch_event :: "nat \<Rightarrow> dispatch_stage \<Rightarrow> (nat option \<Rightarrow> orchestra \<Rightarrow> orchestra) \<Rightarrow> orchestra \<Rightarrow> orchestra option" where
  "dispatch_event o' stage act s =
     (case or_dispatch s o' of
        Some (stage', signal) \<Rightarrow> if stage' = stage then Some (act signal s) else None
      | None \<Rightarrow> None)"

definition on_scene :: "nat \<Rightarrow> (orch_scene \<Rightarrow> orchestra \<Rightarrow> orchestra) \<Rightarrow> orchestra \<Rightarrow> orchestra option" where
  "on_scene sc act s = (case or_scenes s sc of None \<Rightarrow> None | Some scope \<Rightarrow> Some (act scope s))"

definition begin_event :: "nat \<Rightarrow> orch_scene \<Rightarrow> orchestra \<Rightarrow> orchestra" where
  "begin_event sc scope s =
     (case begin_admission scope of
        (_, None) \<Rightarrow> s
      | (scope', Some token) \<Rightarrow>
          s \<lparr> or_scenes := (or_scenes s)(sc \<mapsto> scope'), or_txn := (or_txn s)(sc \<mapsto> (token, None)) \<rparr>)"

definition set_cued :: "nat \<Rightarrow> cued_scope \<Rightarrow> orchestra \<Rightarrow> orchestra" where
  "set_cued o' cued s = s \<lparr> or_ops := (or_ops s)(o' \<mapsto> (operation_at s o') \<lparr> op_cued := cued \<rparr>) \<rparr>"

text \<open>The steps of the calls in progress: admissions, commits, dispatches, cancellations, closes.\<close>

fun call_step :: "orch_event \<Rightarrow> orchestra \<Rightarrow> orchestra option" where
  "call_step (PrepareAdmission sc) s =
     (case (or_txn s sc, or_scenes s sc) of
             (Some (token, None), Some scope) \<Rightarrow>
               Some (s \<lparr> or_txn := (or_txn s)(sc \<mapsto> (token, Some (prepare_admission scope))) \<rparr>)
           | _ \<Rightarrow> None)"
| "call_step (DropAdmission sc) s =
     (case or_txn s sc of
             Some (token, _) \<Rightarrow> Some (admission_dropped sc token (s \<lparr> or_txn := (or_txn s)(sc := None) \<rparr>))
           | None \<Rightarrow> None)"
| "call_step (CommitAdmission sc a source) s =
     (case or_txn s sc of
             Some (token, Some (cue_id, next)) \<Rightarrow> Some (commit_admission sc a source token cue_id next s)
           | _ \<Rightarrow> None)"
| "call_step (CommitCancel o') s =
     (case or_commits s o' of
             Some (token, target # rest) \<Rightarrow>
               Some (request_cancel target (s \<lparr> or_commits := (or_commits s)(o' \<mapsto> (token, rest)) \<rparr>))
           | _ \<Rightarrow> None)"
| "call_step (CommitEnqueue o') s =
     (case or_commits s o' of
             Some (token, []) \<Rightarrow> Some (commit_enqueue o' token (s \<lparr> or_commits := (or_commits s)(o' := None) \<rparr>))
           | _ \<Rightarrow> None)"
| "call_step (DispatchStart o' callback_error) s =
     dispatch_event o' StClaimed (\<lambda>signal. dispatch_start o' signal callback_error) s"
| "call_step (CuedReturned o' result) s =
     dispatch_event o' StCalling (\<lambda>signal. dispatch_called o' signal result) s"
| "call_step (TaskCreated o' result) s =
     dispatch_event o' StTasking (\<lambda>signal. dispatch_task o' signal result) s"
| "call_step (CallbackAttached o' result) s =
     dispatch_event o' StAttaching (\<lambda>signal. dispatch_attached o' signal result) s"
| "call_step (AbandonReturned o' scheduled) s =
     dispatch_event o' StAbandoning (\<lambda>signal. dispatch_abandoned o' signal scheduled) s"
| "call_step (CancelReturned o' result) s =
     (if or_cancelling s o'
          then Some ((case result of None \<Rightarrow> s | Some e \<Rightarrow> set_state o' (record_cancel_error e (state_at s o')) s)
                       \<lparr> or_cancelling := (or_cancelling s)(o' := False) \<rparr>)
          else None)"
| "call_step (CloseCancelNext sc) s =
     (case or_closing s sc of
             Some (target # rest) \<Rightarrow>
               Some (request_cancel target (s \<lparr> or_closing := (or_closing s)(sc \<mapsto> rest) \<rparr>))
           | Some [] \<Rightarrow> Some (s \<lparr> or_closing := (or_closing s)(sc := None) \<rparr>)
           | None \<Rightarrow> None)"
| "call_step _ s = None"

text \<open>The steps that come from outside: from scenes, callers, the event loop, the interpreter.\<close>

fun outside_step :: "orch_event \<Rightarrow> orchestra \<Rightarrow> orchestra option" where
  "outside_step (OpenScene sc name) s =
     (if or_scenes s sc = None then Some (s \<lparr> or_scenes := (or_scenes s)(sc \<mapsto> new_scene name) \<rparr>) else None)"
| "outside_step (BeginAdmission sc) s =
     on_scene sc (begin_event sc) s"
| "outside_step (CloseScene sc) s =
     on_scene sc (close_scene sc) s"
| "outside_step (WaitClosed sc) s =
     on_scene sc (wait_closed sc) s"
| "outside_step (RequestCancel o') s =
     (if or_ops s o' = None then None else Some (request_cancel o' s))"
| "outside_step (TaskDone o' result) s =
     (if or_callback s o'
          then Some (finish_with_result o' result (s \<lparr> or_callback := (or_callback s)(o' := False) \<rparr>))
          else None)"
| "outside_step (FallbackCalled o' poll) s =
     (if or_fallback s o' then Some (fallback_called o' poll s) else None)"
| "outside_step (DropActor a) s =
     (if (\<forall>o' < or_next_op s. or_dispatch s o' \<noteq> None \<longrightarrow> op_actor (operation_at s o') \<noteq> a)
          then Some (s \<lparr> or_actor_live := (or_actor_live s)(a := False),
                         or_mailboxes := (or_mailboxes s)(a := mailbox_default) \<rparr>)
          else None)"
| "outside_step DropBinding s =
     Some (s \<lparr> or_binding_live := False \<rparr>)"
| "outside_step (CuedDriverExit o') s =
     (if or_ops s o' = None then None else Some (close_cued_inline o' s))"
| "outside_step (RegisterTurn o' turn) s =
     (if or_ops s o' = None then None
          else Some ((set_cued o' (fst (register_agent_turn (or_turn_live s) turn (op_cued (operation_at s o')))) s)
                       \<lparr> or_turn_live := (or_turn_live s)(turn := True) \<rparr>))"
| "outside_step (DropTurn turn) s =
     Some (s \<lparr> or_turn_live := (or_turn_live s)(turn := False) \<rparr>)"
| "outside_step (NextEffect o') s =
     (if or_ops s o' = None then None
          else Some (set_cued o' (fst (next_effect_id (op_cued (operation_at s o')))) s))"
| "outside_step _ s = None"

definition orch_step :: "orch_event \<Rightarrow> orchestra \<Rightarrow> orchestra option" where
  "orch_step ev s =
     (if or_panic s \<noteq> None then None
      else case call_step ev s of Some s' \<Rightarrow> Some s' | None \<Rightarrow> outside_step ev s)"

text \<open>Runs in which every step is one that \<open>allowed\<close> permits.\<close>

inductive orch_run :: "(orch_event \<Rightarrow> orchestra \<Rightarrow> bool) \<Rightarrow> orchestra \<Rightarrow> orchestra \<Rightarrow> bool"
  for allowed :: "orch_event \<Rightarrow> orchestra \<Rightarrow> bool" and s0 :: orchestra where
  orch_run_start: "orch_run allowed s0 s0"
| orch_run_step: "orch_run allowed s0 s \<Longrightarrow> allowed ev s \<Longrightarrow> orch_step ev s = Some s' \<Longrightarrow> orch_run allowed s0 s'"

text \<open>A run along a list of events, as a function.\<close>

fun orch_exec :: "(orch_event \<Rightarrow> orchestra \<Rightarrow> bool) \<Rightarrow> orch_event list \<Rightarrow> orchestra \<Rightarrow> orchestra option" where
  "orch_exec allowed [] s = Some s"
| "orch_exec allowed (ev # evs) s =
     (if allowed ev s then (case orch_step ev s of None \<Rightarrow> None | Some s' \<Rightarrow> orch_exec allowed evs s') else None)"

definition after :: "(orch_event \<Rightarrow> orchestra \<Rightarrow> bool) \<Rightarrow> orch_event list \<Rightarrow> orchestra \<Rightarrow> orchestra" where
  "after allowed evs s = the (orch_exec allowed evs s)"

lemma orch_exec_run: "orch_run allowed s0 s \<Longrightarrow> orch_exec allowed evs s = Some t \<Longrightarrow> orch_run allowed s0 t"
proof (induction evs arbitrary: s)
  case (Cons ev evs)
  then obtain s' where "allowed ev s" "orch_step ev s = Some s'" "orch_exec allowed evs s' = Some t"
    by (auto split: if_splits option.splits)
  then show ?case using Cons.IH Cons.prems(1) orch_run_step by metis
qed simp

lemma after_run: "orch_exec allowed evs s \<noteq> None \<Longrightarrow> orch_run allowed s (after allowed evs s)"
  using orch_exec_run [OF orch_run_start] by (auto simp: after_def)

lemma orch_exec_append:
  "orch_exec allowed (evs @ evs') s = (case orch_exec allowed evs s of None \<Rightarrow> None | Some t \<Rightarrow> orch_exec allowed evs' t)"
  by (induction evs arbitrary: s) (auto split: option.split)

lemmas orch_eval =
  orchestra_init_def orch_step_def on_scene_def dispatch_event_def begin_event_def begin_admission_def new_scene_def
  prepare_admission_def commit_admission_def commit_locked_def commit_enqueue_def operation_enqueue_def
  enqueue_operation_def drain_from_def enqueue_and_claim_def claim_next_if_idle_def mailbox_enqueue_def
  mailbox_default_def observe_def observe_scene_def observe_closed_def operation_at_def state_at_def phase_at_def
  set_state_def set_stage_def dispatch_start_def dispatch_called_def dispatch_task_def dispatch_attached_def
  dispatch_abandoned_def dispatch_scheduled_def dispatch_failed_def start_running_locked_def
  resolve_terminal_signal_def new_operation_state_def new_cued_scope_def is_terminal_def finish_with_result_def
  perform_terminal_action_def finish_terminal_action_def complete_terminal_action_def unlink_terminal_operation_def
  terminal_transition_def remove_queued_def complete_running_def terminal_transition_default_def
  scene_operation_finished_def operation_finished_locked_def close_cued_inline_def close_inline_def
  transition_from_result_def transition_after_snapshot_def take_completion_snapshot_def completion_outcome_def
  running_outcome_def requested_outcome_def settle_def terminal_error_def validate_cued_result_def
  request_cancel_def request_cancel_locked_def panic_with_def close_scene_def close_locked_def wait_closed_def
  wait_closed_turn_def decimal_from_py_int_eq nat_decimal.simps after_def

subsection \<open>Two runs\<close>

text \<open>A scene sends two cues to one actor. The first runs and the second waits; then the first succeeds, the second
  begins, and the scene closes and cancels it.\<close>

definition everybody :: orchestra where
  "everybody = orchestra_init (\<lambda>_. True)"

definition any_event :: "orch_event \<Rightarrow> orchestra \<Rightarrow> bool" where
  "any_event ev s = True"

definition two_cues :: "orch_event list" where
  "two_cues =
     [OpenScene 0 ''Hall'', BeginAdmission 0, PrepareAdmission 0, CommitAdmission 0 7 ''x'', DispatchStart 0 None,
      CuedReturned 0 None, TaskCreated 0 (Inr 5), CallbackAttached 0 None,
      BeginAdmission 0, PrepareAdmission 0, CommitAdmission 0 7 ''y'']"

definition then_close :: "orch_event list" where
  "then_close =
     [TaskDone 0 (Inr (PyTuple [PyEffect 3])), DispatchStart 1 None, CuedReturned 1 None, TaskCreated 1 (Inr 6),
      CallbackAttached 1 None, CloseScene 0]"

definition then_end :: "orch_event list" where
  "then_end = [CloseCancelNext 0, CloseCancelNext 0, CancelReturned 1 None, TaskDone 1 (Inl (CancelledError 1))]"

lemmas orch_demo = everybody_def any_event_def two_cues_def then_close_def then_end_def orch_eval Let_def

end
