(* ===== verification/Orchestra_Invariant.thy ===== *)
theory Orchestra_Invariant
  imports Orchestra
begin

section \<open>The invariant of the orchestra\<close>

text \<open>
  What holds between the steps of the orchestra, whatever Python does, until something panics. The invariant
  is a conjunction of named parts; \<open>orch_inv P S C\<close> exempts the operations of three sets from one part each,
  for the middle of a step that takes an operation out of its place before it puts it into another.
\<close>

subsection \<open>The parts\<close>

definition known :: "orchestra \<Rightarrow> nat \<Rightarrow> bool" where
  "known s o' \<longleftrightarrow> or_ops s o' \<noteq> None"

definition ended :: "orchestra \<Rightarrow> nat \<Rightarrow> bool" where
  "ended s o' \<longleftrightarrow> known s o' \<and> is_terminal_phase (phase_at s o')"

definition alive :: "orchestra \<Rightarrow> nat \<Rightarrow> bool" where
  "alive s o' \<longleftrightarrow> known s o' \<and> \<not> is_terminal_phase (phase_at s o')"

definition actor_of :: "orchestra \<Rightarrow> nat \<Rightarrow> nat" where
  "actor_of s o' = op_actor (operation_at s o')"

definition scene_of :: "orchestra \<Rightarrow> nat \<Rightarrow> nat" where
  "scene_of s o' = op_scene (operation_at s o')"

definition started :: "orchestra \<Rightarrow> nat \<Rightarrow> bool" where
  "started s o' \<longleftrightarrow> (\<exists>task. phase_at s o' = OpRunning task \<or> phase_at s o' = OpCancellingRunning task)"

definition cancelling :: "orchestra \<Rightarrow> nat \<Rightarrow> bool" where
  "cancelling s o' \<longleftrightarrow> (\<exists>task. phase_at s o' = OpCancellingRunning task)"

fun early :: "dispatch_stage \<Rightarrow> bool" where
  "early StClaimed = True"
| "early StCalling = True"
| "early StTasking = True"
| "early _ = False"

text \<open>Operations are numbered without a gap, well formed, with their own signal and a scene.\<close>

definition inv_ops :: "orchestra \<Rightarrow> bool" where
  "inv_ops s \<longleftrightarrow>
     (\<forall>o'. known s o' \<longleftrightarrow> o' < or_next_op s) \<and>
     (\<forall>o'. known s o' \<longrightarrow> op_wf (state_at s o') \<and> os_signal (state_at s o') = Some o' \<and>
        or_scenes s (scene_of s o') \<noteq> None)"

text \<open>A scene holds its operations that have not ended. An admission under way is the one of its phase.\<close>

definition inv_scenes :: "orchestra \<Rightarrow> bool" where
  "inv_scenes s \<longleftrightarrow>
     (\<forall>sc scope. or_scenes s sc = Some scope \<longrightarrow>
        distinct (sc_operations scope) \<and>
        set (sc_operations scope) = {o'. alive s o' \<and> scene_of s o' = sc} \<and>
        (sc_phase scope = SceneClosed \<longrightarrow> sc_operations scope = []))"

definition txn_ok :: "(u64 \<times> (string \<times> int) option) option \<Rightarrow> orch_scene \<Rightarrow> bool" where
  "txn_ok txn scope \<longleftrightarrow>
     (case txn of
        None \<Rightarrow> sc_phase scope \<in> {SceneOpen, SceneClosing, SceneClosed}
      | Some (token, prepared) \<Rightarrow>
          sc_phase scope \<in> {SceneAdmitting token, SceneClosePending token} \<and>
          (\<forall>p. prepared = Some p \<longrightarrow> p = prepare_admission scope))"

definition inv_txn :: "orchestra \<Rightarrow> bool" where
  "inv_txn s \<longleftrightarrow>
     (\<forall>sc. or_scenes s sc = None \<longrightarrow> or_txn s sc = None \<and> or_closing s sc = None) \<and>
     (\<forall>sc scope. or_scenes s sc = Some scope \<longrightarrow> txn_ok (or_txn s sc) scope)"

text \<open>A mailbox is sound, holds operations of its actor that have not ended, and the ones in the queue
  have not begun.\<close>

definition inv_mail :: "orchestra \<Rightarrow> bool" where
  "inv_mail s \<longleftrightarrow>
     (\<forall>a. mailbox_ok (or_mailboxes s a) \<and>
        (\<forall>o' \<in> mailbox_members (or_mailboxes s a). alive s o' \<and> actor_of s o' = a \<and> or_commits s o' = None) \<and>
        (\<forall>o' \<in> set (mb_queue (or_mailboxes s a)). phase_at s o' = OpQueued \<and> or_dispatch s o' = None) \<and>
        (\<not> or_actor_live s a \<longrightarrow> or_mailboxes s a = mailbox_default))"

text \<open>An operation that has not ended is in the mailbox of its actor, or about to be put there.\<close>

definition inv_place :: "nat set \<Rightarrow> orchestra \<Rightarrow> bool" where
  "inv_place X s \<longleftrightarrow>
     (\<forall>o'. alive s o' \<longrightarrow> or_actor_live s (actor_of s o') \<longrightarrow> o' \<notin> X \<longrightarrow>
        o' \<in> mailbox_members (or_mailboxes s (actor_of s o')) \<or> or_commits s o' \<noteq> None)"

text \<open>An operation in the running slot that has not begun is being dispatched.\<close>

definition inv_slot :: "nat set \<Rightarrow> orchestra \<Rightarrow> bool" where
  "inv_slot X s \<longleftrightarrow>
     (\<forall>a r. mb_running (or_mailboxes s a) = Some r \<longrightarrow> phase_at s r = OpQueued \<longrightarrow> r \<notin> X \<longrightarrow> or_dispatch s r \<noteq> None)"

text \<open>A dispatch is for the operation in the slot of its actor; early in it the operation has not begun, or
  it was cancelled meanwhile.\<close>

definition frame_ok :: "orchestra \<Rightarrow> nat \<Rightarrow> dispatch_stage \<Rightarrow> nat option \<Rightarrow> bool" where
  "frame_ok s o' stage signal \<longleftrightarrow>
     known s o' \<and> or_actor_live s (actor_of s o') \<and> or_commits s o' = None \<and>
     (early stage \<longrightarrow> ended s o' \<or> phase_at s o' = OpQueued \<and> mb_running (or_mailboxes s (actor_of s o')) = Some o') \<and>
     (\<not> early stage \<longrightarrow> started s o' \<and> mb_running (or_mailboxes s (actor_of s o')) = Some o') \<and>
     (\<forall>p. signal = Some p \<longrightarrow> ended s p)"

definition inv_dispatch :: "orchestra \<Rightarrow> bool" where
  "inv_dispatch s \<longleftrightarrow> (\<forall>o' stage signal. or_dispatch s o' = Some (stage, signal) \<longrightarrow> frame_ok s o' stage signal)"

text \<open>Signals are resolved for ended operations only, and for each of them unless a dispatch still has to.\<close>

definition inv_signal :: "orchestra \<Rightarrow> bool" where
  "inv_signal s \<longleftrightarrow>
     (\<forall>o'. (or_resolved s o' \<longrightarrow> ended s o') \<and>
        (ended s o' \<longrightarrow> or_resolved s o' \<or> (\<exists>d stage. or_dispatch s d = Some (stage, Some o'))))"

text \<open>A commit that cancels first belongs to a scene that closes; its own operation has not begun.\<close>

definition inv_commit :: "orchestra \<Rightarrow> bool" where
  "inv_commit s \<longleftrightarrow>
     (\<forall>o' token l. or_commits s o' = Some (token, l) \<longrightarrow>
        known s o' \<and> (ended s o' \<or> phase_at s o' = OpQueued) \<and> (\<forall>x \<in> set l. known s x) \<and>
        (\<forall>scope. or_scenes s (scene_of s o') = Some scope \<longrightarrow> sc_phase scope \<in> {SceneClosing, SceneClosed}))"

text \<open>In a closing scene every operation is being cancelled, or is on a list of those to cancel.\<close>

definition to_cancel :: "orchestra \<Rightarrow> nat \<Rightarrow> nat set" where
  "to_cancel s sc =
     {x. (\<exists>l. or_closing s sc = Some l \<and> x \<in> set l) \<or>
         (\<exists>c token l. or_commits s c = Some (token, l) \<and> x \<in> set l)}"

definition inv_closing :: "nat set \<Rightarrow> orchestra \<Rightarrow> bool" where
  "inv_closing X s \<longleftrightarrow>
     (\<forall>sc scope. or_scenes s sc = Some scope \<longrightarrow> sc_phase scope = SceneClosing \<longrightarrow>
        (\<forall>o' \<in> set (sc_operations scope). o' \<notin> X \<longrightarrow> cancelling s o' \<or> o' \<in> to_cancel s sc)) \<and>
     (\<forall>sc l. or_closing s sc = Some l \<longrightarrow> (\<forall>x \<in> set l. known s x))"

text \<open>Callbacks are those of operations that have begun, and whose dispatch is over.\<close>

definition inv_callbacks :: "orchestra \<Rightarrow> bool" where
  "inv_callbacks s \<longleftrightarrow>
     (\<forall>o'. (or_cancelling s o' \<or> or_callback s o' \<or> or_fallback s o' \<longrightarrow> known s o' \<and> phase_at s o' \<noteq> OpQueued) \<and>
        (or_callback s o' \<or> or_fallback s o' \<longrightarrow> or_dispatch s o' = None))"

definition orch_inv :: "nat set \<Rightarrow> nat set \<Rightarrow> nat set \<Rightarrow> orchestra \<Rightarrow> bool" where
  "orch_inv P S C s \<longleftrightarrow>
     inv_ops s \<and> inv_scenes s \<and> inv_txn s \<and> inv_mail s \<and> inv_place P s \<and> inv_slot S s \<and> inv_dispatch s \<and>
     inv_signal s \<and> inv_commit s \<and> inv_closing C s \<and> inv_callbacks s"

lemmas orch_inv_defs =
  inv_ops_def inv_scenes_def inv_txn_def inv_mail_def inv_place_def inv_slot_def inv_dispatch_def
  inv_signal_def inv_commit_def inv_closing_def inv_callbacks_def

lemmas orch_views =
  known_def ended_def alive_def actor_of_def scene_of_def started_def cancelling_def phase_at_def state_at_def
  operation_at_def

lemma mailbox_default_sel [simp]: "mb_queue mailbox_default = []" "mb_running mailbox_default = None"
  by (simp_all add: mailbox_default_def)

lemma orch_inv_init: "orch_inv P S C (orchestra_init actors)"
  by (simp add: orch_inv_def orch_inv_defs orch_views orchestra_init_def)

lemma not_alive_iff: "known s o' \<Longrightarrow> \<not> alive s o' \<longleftrightarrow> ended s o'"
  by (simp add: alive_def ended_def)

lemma alive_cases:
  assumes "alive s o'"
  obtains "phase_at s o' = OpQueued" | "started s o'"
  using assms by (cases "phase_at s o'") (auto simp: alive_def started_def)

subsection \<open>What each part looks at\<close>

lemma views_ops:
  assumes "or_ops t = or_ops s"
  shows "known t = known s" "operation_at t = operation_at s" "state_at t = state_at s" "phase_at t = phase_at s"
    "actor_of t = actor_of s" "scene_of t = scene_of s" "ended t = ended s" "alive t = alive s"
    "started t = started s" "cancelling t = cancelling s"
  using assms by (auto simp: orch_views fun_eq_iff)

lemma parts_cong:
  assumes ops: "or_ops t = or_ops s"
  shows "or_next_op t = or_next_op s \<Longrightarrow> or_scenes t = or_scenes s \<Longrightarrow> inv_ops t = inv_ops s"
    and "or_scenes t = or_scenes s \<Longrightarrow> inv_scenes t = inv_scenes s"
    and "or_scenes t = or_scenes s \<Longrightarrow> or_txn t = or_txn s \<Longrightarrow> or_closing t = or_closing s \<Longrightarrow> inv_txn t = inv_txn s"
    and "or_mailboxes t = or_mailboxes s \<Longrightarrow> or_commits t = or_commits s \<Longrightarrow> or_dispatch t = or_dispatch s \<Longrightarrow>
      or_actor_live t = or_actor_live s \<Longrightarrow> inv_mail t = inv_mail s"
    and "or_mailboxes t = or_mailboxes s \<Longrightarrow> or_commits t = or_commits s \<Longrightarrow> or_actor_live t = or_actor_live s \<Longrightarrow>
      inv_place P t = inv_place P s"
    and "or_mailboxes t = or_mailboxes s \<Longrightarrow> or_dispatch t = or_dispatch s \<Longrightarrow> inv_slot S t = inv_slot S s"
    and "or_mailboxes t = or_mailboxes s \<Longrightarrow> or_commits t = or_commits s \<Longrightarrow> or_dispatch t = or_dispatch s \<Longrightarrow>
      or_actor_live t = or_actor_live s \<Longrightarrow> inv_dispatch t = inv_dispatch s"
    and "or_resolved t = or_resolved s \<Longrightarrow> or_dispatch t = or_dispatch s \<Longrightarrow> inv_signal t = inv_signal s"
    and "or_commits t = or_commits s \<Longrightarrow> or_scenes t = or_scenes s \<Longrightarrow> inv_commit t = inv_commit s"
    and "or_commits t = or_commits s \<Longrightarrow> or_scenes t = or_scenes s \<Longrightarrow> or_closing t = or_closing s \<Longrightarrow>
      inv_closing C t = inv_closing C s"
    and "or_cancelling t = or_cancelling s \<Longrightarrow> or_callback t = or_callback s \<Longrightarrow> or_fallback t = or_fallback s \<Longrightarrow>
      or_dispatch t = or_dispatch s \<Longrightarrow> inv_callbacks t = inv_callbacks s"
  by (simp_all add: orch_inv_defs frame_ok_def to_cancel_def views_ops [OF ops])

subsection \<open>What the invariant does not look at\<close>

text \<open>The logs, the liveness of the binding and of agent turns, the contexts of the operations, the panic.\<close>

definition core :: "orchestra \<Rightarrow> orchestra" where
  "core s = s \<lparr> or_ops := (\<lambda>o'. map_option (\<lambda>op. op \<lparr> op_cued := new_cued_scope [] 0 [] \<rparr>) (or_ops s o')),
                or_binding_live := True, or_turn_live := (\<lambda>_. False), or_cancelled_turns := [],
                or_log := [], or_scene_log := [], or_panic := None \<rparr>"

lemma state_at_core [simp]: "state_at (core s) o' = state_at s o'"
  and actor_of_core [simp]: "actor_of (core s) o' = actor_of s o'"
  and scene_of_core [simp]: "scene_of (core s) o' = scene_of s o'"
  and known_core [simp]: "known (core s) o' = known s o'"
  by (cases "or_ops s o'"; simp add: core_def state_at_def actor_of_def scene_of_def known_def operation_at_def)+

lemma views_core [simp]:
  "phase_at (core s) o' = phase_at s o'" "ended (core s) o' = ended s o'" "alive (core s) o' = alive s o'"
  "started (core s) o' = started s o'" "cancelling (core s) o' = cancelling s o'"
  by (simp_all add: phase_at_def ended_def alive_def started_def cancelling_def)

lemma core_fields [simp]:
  "or_next_op (core s) = or_next_op s" "or_mailboxes (core s) = or_mailboxes s"
  "or_actor_live (core s) = or_actor_live s" "or_scenes (core s) = or_scenes s" "or_txn (core s) = or_txn s"
  "or_commits (core s) = or_commits s" "or_closing (core s) = or_closing s" "or_dispatch (core s) = or_dispatch s"
  "or_cancelling (core s) = or_cancelling s" "or_callback (core s) = or_callback s"
  "or_fallback (core s) = or_fallback s" "or_resolved (core s) = or_resolved s"
  by (simp_all add: core_def)

lemma to_cancel_core [simp]: "to_cancel (core s) = to_cancel s"
  by (simp add: to_cancel_def fun_eq_iff)

lemma orch_inv_core: "orch_inv P S C (core s) = orch_inv P S C s"
  by (simp add: orch_inv_def orch_inv_defs frame_ok_def)

lemma orch_inv_core_cong: "core s = core s' \<Longrightarrow> orch_inv P S C s = orch_inv P S C s'"
  by (metis orch_inv_core)

lemma core_hooks [simp]:
  "core (observe o' h s) = core s" "core (observe_scene sc h' s) = core s" "core (observe_closed sc s) = core s"
  "core (panic_with m s) = core s" "core (s \<lparr> or_turn_live := live \<rparr>) = core s"
  "core (s \<lparr> or_binding_live := bl \<rparr>) = core s" "core (s \<lparr> or_cancelled_turns := ct \<rparr>) = core s"
  "core (s \<lparr> or_log := lg \<rparr>) = core s" "core (s \<lparr> or_scene_log := sl \<rparr>) = core s"
  by (simp_all add: core_def observe_def observe_scene_def observe_closed_def panic_with_def)

text \<open>An operation is changed: only what the invariant sees of it matters.\<close>

lemma core_set_cued: "known s o' \<Longrightarrow> core (set_cued o' cued s) = core s"
  by (auto simp: core_def set_cued_def operation_at_def known_def fun_eq_iff)

lemma core_close_cued_inline: "known s o' \<Longrightarrow> core (close_cued_inline o' s) = core s"
  by (auto simp: core_def close_cued_inline_def operation_at_def known_def fun_eq_iff close_inline_def)

end
