(* ===== verification/Orchestra_Steps.thy ===== *)
theory Orchestra_Steps
  imports Orchestra_Invariant
begin

section \<open>Every step keeps the invariant\<close>

subsection \<open>Ending an operation\<close>

text \<open>What ending an operation does to the part of the state that the invariant sees.\<close>

definition next_of :: "nat \<Rightarrow> orchestra \<Rightarrow> nat option" where
  "next_of o' s =
     (if or_actor_live s (actor_of s o')
      then mt_next (snd (terminal_transition o' (or_mailboxes s (actor_of s o')))) else None)"

definition retire :: "nat \<Rightarrow> operation_state \<Rightarrow> orchestra \<Rightarrow> orchestra" where
  "retire o' st s =
     (let a = actor_of s o'; sc = scene_of s o'
      in s \<lparr> or_ops := (or_ops s)(o' \<mapsto> (operation_at s o') \<lparr> op_state := st \<rparr>),
             or_mailboxes := (if or_actor_live s a
               then (or_mailboxes s)(a := fst (terminal_transition o' (or_mailboxes s a))) else or_mailboxes s),
             or_scenes := (case or_scenes s sc of None \<Rightarrow> or_scenes s
               | Some scope \<Rightarrow> (or_scenes s)(sc \<mapsto> fst (operation_finished_locked o' scope))),
             or_dispatch := (case next_of o' s of None \<Rightarrow> or_dispatch s
               | Some n \<Rightarrow> (or_dispatch s)(n \<mapsto> (StClaimed, Some o'))),
             or_resolved := (case next_of o' s of None \<Rightarrow> (or_resolved s)(o' := True) | Some _ \<Rightarrow> or_resolved s) \<rparr>)"

text \<open>The situation: the operation has not ended, \<open>st\<close> is its settled state, and it is the only one that may
  be out of its place.\<close>

definition ending :: "nat \<Rightarrow> operation_state \<Rightarrow> nat set \<Rightarrow> nat set \<Rightarrow> nat set \<Rightarrow> orchestra \<Rightarrow> bool" where
  "ending o' st P S C s \<longleftrightarrow>
     orch_inv P S C s \<and> alive s o' \<and> P \<subseteq> {o'} \<and> S \<subseteq> {o'} \<and> C \<subseteq> {o'} \<and>
     (\<forall>stage signal. or_dispatch s o' = Some (stage, signal) \<longrightarrow> early stage) \<and>
     is_terminal st \<and> op_wf st \<and> os_signal st = Some o'"

lemma retire_fields [simp]:
  "or_next_op (retire o' st s) = or_next_op s" "or_actor_live (retire o' st s) = or_actor_live s"
  "or_txn (retire o' st s) = or_txn s" "or_commits (retire o' st s) = or_commits s"
  "or_closing (retire o' st s) = or_closing s" "or_cancelling (retire o' st s) = or_cancelling s"
  "or_callback (retire o' st s) = or_callback s" "or_fallback (retire o' st s) = or_fallback s"
  by (simp_all add: retire_def Let_def)

lemma to_cancel_retire [simp]: "to_cancel (retire o' st s) sc = to_cancel s sc"
  by (simp add: to_cancel_def)

lemma retire_views:
  "known s o' \<Longrightarrow> known (retire o' st s) x = known s x"
  "actor_of (retire o' st s) x = actor_of s x"
  "scene_of (retire o' st s) x = scene_of s x"
  "state_at (retire o' st s) x = (if x = o' then st else state_at s x)"
  "phase_at (retire o' st s) x = (if x = o' then os_phase st else phase_at s x)"
  by (auto simp: retire_def Let_def orch_views)

lemma retire_alive:
  assumes "ending o' st P S C s"
  shows "alive (retire o' st s) x \<longleftrightarrow> alive s x \<and> x \<noteq> o'"
    and "ended (retire o' st s) x \<longleftrightarrow> ended s x \<or> x = o'"
    and "started (retire o' st s) x \<longleftrightarrow> started s x \<and> x \<noteq> o'"
    and "cancelling (retire o' st s) x \<longleftrightarrow> cancelling s x \<and> x \<noteq> o'"
  using assms
  by (auto simp: ending_def alive_def ended_def started_def cancelling_def retire_views)

text \<open>Where the mailboxes stand afterwards.\<close>

lemma retire_mailboxes:
  assumes "ending o' st P S C s"
  shows "mailbox_ok (or_mailboxes (retire o' st s) a)"
    and "mailbox_members (or_mailboxes (retire o' st s) a) = mailbox_members (or_mailboxes s a) - {o'}"
    and "set (mb_queue (or_mailboxes (retire o' st s) a)) =
           set (mb_queue (or_mailboxes s a)) - {o'} - set_option (next_of o' s)"
    and "mb_running (or_mailboxes (retire o' st s) a) =
           (if mb_running (or_mailboxes s a) = Some o' then next_of o' s else mb_running (or_mailboxes s a))"
    and "next_of o' s = Some n \<Longrightarrow> mb_running (or_mailboxes s (actor_of s o')) = Some o' \<and>
           n \<in> set (mb_queue (or_mailboxes s (actor_of s o'))) \<and> or_actor_live s (actor_of s o')"
proof -
  let ?A = "actor_of s o'"
  have ok: "mailbox_ok (or_mailboxes s x)" for x
    using assms by (auto simp: ending_def orch_inv_def inv_mail_def)
  have own: "y \<in> mailbox_members (or_mailboxes s x) \<Longrightarrow> x = actor_of s y" for x y
    using assms by (auto simp: ending_def orch_inv_def inv_mail_def)
  have dead: "\<not> or_actor_live s x \<Longrightarrow> or_mailboxes s x = mailbox_default" for x
    using assms by (auto simp: ending_def orch_inv_def inv_mail_def)
  note effect = terminal_transition_effect [OF ok]
  have mb: "or_mailboxes (retire o' st s) x =
      (if x = ?A \<and> or_actor_live s ?A then fst (terminal_transition o' (or_mailboxes s x)) else or_mailboxes s x)" for x
    by (simp add: retire_def Let_def)
  show n: "next_of o' s = Some n \<Longrightarrow> mb_running (or_mailboxes s ?A) = Some o' \<and>
           n \<in> set (mb_queue (or_mailboxes s ?A)) \<and> or_actor_live s ?A" for n
    by (auto simp: next_of_def effect(4) split: if_splits list.splits)
  have other: "a \<noteq> ?A \<Longrightarrow> o' \<notin> mailbox_members (or_mailboxes s a)" 
    "a \<noteq> ?A \<Longrightarrow> next_of o' s = Some x \<Longrightarrow> x \<notin> mailbox_members (or_mailboxes s a)" for x
    using own [of o' a] own [of x a] own [of x ?A] n [of x] by (auto simp: mailbox_members_def)
  show "mailbox_ok (or_mailboxes (retire o' st s) a)"
    by (simp add: mb ok terminal_transition_ok)
  show "mailbox_members (or_mailboxes (retire o' st s) a) = mailbox_members (or_mailboxes s a) - {o'}"
    using other(1) dead [of ?A] by (cases "a = ?A") (auto simp: mb effect(1))
  show "set (mb_queue (or_mailboxes (retire o' st s) a)) =
           set (mb_queue (or_mailboxes s a)) - {o'} - set_option (next_of o' s)"
  proof (cases "a = ?A")
    case True
    then show ?thesis using dead [of ?A] by (auto simp: mb effect(2) next_of_def)
  next
    case False
    then show ?thesis using other by (cases "next_of o' s") (auto simp: mb mailbox_members_def)
  qed
  show "mb_running (or_mailboxes (retire o' st s) a) =
           (if mb_running (or_mailboxes s a) = Some o' then next_of o' s else mb_running (or_mailboxes s a))"
    using other(1) dead [of ?A] by (cases "a = ?A") (auto simp: mb effect(3) next_of_def mailbox_members_def)
qed

lemma retire_scene:
  assumes "or_scenes (retire o' st s) sc = Some scope'" "ending o' st P S C s"
  obtains scope where "or_scenes s sc = Some scope" "sc_operations scope' = remove1 o' (sc_operations scope)"
    "sc_phase scope' = (if sc = scene_of s o' \<and> sc_phase scope = SceneClosing \<and> sc_operations scope' = []
       then SceneClosed else sc_phase scope)"
    "prepare_admission scope' = prepare_admission scope"
proof (cases "sc = scene_of s o'")
  case True
  then show ?thesis
    using assms that
    by (auto simp: retire_def Let_def operation_finished_eq prepare_admission_def split: option.splits if_splits)
next
  case False
  then obtain scope where scope: "or_scenes s sc = Some scope" "scope' = scope"
    using assms by (auto simp: retire_def Let_def split: option.splits)
  moreover have "o' \<notin> set (sc_operations scope)"
    using False scope assms by (auto simp: ending_def orch_inv_def inv_scenes_def)
  ultimately show ?thesis using that False by (simp add: remove1_idem)
qed

lemma retire_scene_None: "or_scenes (retire o' st s) sc = None \<longleftrightarrow> or_scenes s sc = None"
  by (auto simp: retire_def Let_def split: option.splits)

lemma retire_inv_ops:
  assumes e: "ending o' st P S C s"
  shows "inv_ops (retire o' st s)"
  using e by (auto simp: ending_def orch_inv_def inv_ops_def retire_views retire_scene_None alive_def)

lemma retire_inv_scenes:
  assumes e: "ending o' st P S C s"
  shows "inv_scenes (retire o' st s)"
  unfolding inv_scenes_def
proof (intro allI impI)
  fix sc scope'
  assume "or_scenes (retire o' st s) sc = Some scope'"
  then obtain scope where scope: "or_scenes s sc = Some scope" "sc_operations scope' = remove1 o' (sc_operations scope)"
    "sc_phase scope' = (if sc = scene_of s o' \<and> sc_phase scope = SceneClosing \<and> sc_operations scope' = []
       then SceneClosed else sc_phase scope)"
    using e by (rule retire_scene)
  have "inv_scenes s" using e by (simp add: ending_def orch_inv_def)
  then have "distinct (sc_operations scope)" "set (sc_operations scope) = {o'. alive s o' \<and> scene_of s o' = sc}"
    "sc_phase scope = SceneClosed \<longrightarrow> sc_operations scope = []"
    using scope(1) by (auto simp: inv_scenes_def)
  then show "distinct (sc_operations scope') \<and> set (sc_operations scope') =
      {x. alive (retire o' st s) x \<and> scene_of (retire o' st s) x = sc} \<and>
      (sc_phase scope' = SceneClosed \<longrightarrow> sc_operations scope' = [])"
    using scope(2,3) by (auto simp: retire_alive [OF e] retire_views split: if_splits)
qed

lemma retire_inv_txn:
  assumes e: "ending o' st P S C s"
  shows "inv_txn (retire o' st s)"
proof -
  have inv: "inv_txn s" using e by (simp add: ending_def orch_inv_def)
  have "txn_ok (or_txn s sc) scope'" if scene: "or_scenes (retire o' st s) sc = Some scope'" for sc scope'
  proof -
    obtain scope where scope: "or_scenes s sc = Some scope"
      "sc_phase scope' = (if sc = scene_of s o' \<and> sc_phase scope = SceneClosing \<and> sc_operations scope' = []
         then SceneClosed else sc_phase scope)" "prepare_admission scope' = prepare_admission scope"
      using scene e by (rule retire_scene)
    have "txn_ok (or_txn s sc) scope" using inv scope(1) by (simp add: inv_txn_def)
    then show ?thesis using scope(2,3) by (auto simp: txn_ok_def split: option.splits if_splits)
  qed
  with inv show ?thesis by (simp add: inv_txn_def retire_scene_None)
qed

lemma retire_inv_mail:
  assumes e: "ending o' st P S C s"
  shows "inv_mail (retire o' st s)"
proof -
  have inv: "inv_mail s" using e by (simp add: ending_def orch_inv_def)
  have disp: "or_dispatch (retire o' st s) x = or_dispatch s x" if "next_of o' s \<noteq> Some x" for x
    using that by (auto simp: retire_def Let_def split: option.splits)
  have dead: "or_mailboxes (retire o' st s) a = mailbox_default" if "\<not> or_actor_live s a" for a
    using inv that by (auto simp: retire_def Let_def inv_mail_def)
  show ?thesis
    unfolding inv_mail_def
    using inv dead
    by (auto simp: retire_mailboxes [OF e] retire_alive [OF e] retire_views disp inv_mail_def)
qed

lemma retire_inv_place:
  assumes e: "ending o' st P S C s"
  shows "inv_place {} (retire o' st s)"
  using e by (auto simp: ending_def orch_inv_def inv_place_def retire_alive [OF e] retire_views retire_mailboxes [OF e])

lemma retire_dispatch:
  "or_dispatch (retire o' st s) x = (if next_of o' s = Some x then Some (StClaimed, Some o') else or_dispatch s x)"
  by (auto simp: retire_def Let_def split: option.splits)

lemma retire_inv_slot:
  assumes e: "ending o' st P S C s"
  shows "inv_slot {} (retire o' st s)"
proof -
  have inv: "inv_slot S s" "S \<subseteq> {o'}" using e by (simp_all add: ending_def orch_inv_def)
  have "is_terminal st" using e by (simp add: ending_def)
  then have "os_phase st \<noteq> OpQueued" by auto
  then show ?thesis
    using inv unfolding inv_slot_def
    by (simp add: retire_mailboxes(4) [OF e] retire_views retire_dispatch split: if_splits) blast
qed

lemma ending_next:
  assumes e: "ending o' st P S C s" and n: "next_of o' s = Some n"
  shows "alive s n" "n \<noteq> o'" "phase_at s n = OpQueued" "or_dispatch s n = None" "or_commits s n = None"
    "actor_of s n = actor_of s o'" "or_actor_live s (actor_of s n)"
    "mb_running (or_mailboxes (retire o' st s) (actor_of s n)) = Some n"
proof -
  let ?m = "or_mailboxes s (actor_of s o')"
  have r: "mb_running ?m = Some o'" "n \<in> set (mb_queue ?m)" "or_actor_live s (actor_of s o')"
    using retire_mailboxes(5) [OF e n] by auto
  have mail: "inv_mail s" using e by (simp add: ending_def orch_inv_def)
  have ok: "mailbox_ok ?m" using mail by (simp add: inv_mail_def)
  have member: "n \<in> mailbox_members ?m" using r(2) by (simp add: mailbox_members_def)
  show "n \<noteq> o'" using ok r(1,2) by (auto simp: mailbox_ok_def)
  show "alive s n" and a: "actor_of s n = actor_of s o'" and "or_commits s n = None"
    using mail member by (auto simp: inv_mail_def)
  show "phase_at s n = OpQueued" "or_dispatch s n = None"
    using mail r(2) by (auto simp: inv_mail_def)
  show "or_actor_live s (actor_of s n)" using a r(3) by simp
  show "mb_running (or_mailboxes (retire o' st s) (actor_of s n)) = Some n"
    using a r(1) n by (simp add: retire_mailboxes(4) [OF e])
qed

lemma retire_inv_dispatch:
  assumes e: "ending o' st P S C s"
  shows "inv_dispatch (retire o' st s)"
  unfolding inv_dispatch_def
proof (intro allI impI)
  fix x stage signal
  assume x: "or_dispatch (retire o' st s) x = Some (stage, signal)"
  have known: "known s o'" using e by (simp add: ending_def alive_def)
  show "frame_ok (retire o' st s) x stage signal"
  proof (cases "next_of o' s = Some x")
    case True
    note nx = ending_next [OF e True]
    have "stage = StClaimed" "signal = Some o'" using x True by (simp_all add: retire_dispatch)
    then show ?thesis
      using nx known by (simp add: frame_ok_def retire_alive [OF e] retire_views alive_def)
  next
    case False
    then have dx: "or_dispatch s x = Some (stage, signal)" using x by (simp add: retire_dispatch)
    have "inv_dispatch s" and late: "x = o' \<Longrightarrow> early stage"
      using e dx by (auto simp: ending_def orch_inv_def)
    with dx have frame: "known s x" "or_actor_live s (actor_of s x)" "or_commits s x = None"
      "early stage \<longrightarrow> ended s x \<or> phase_at s x = OpQueued \<and> mb_running (or_mailboxes s (actor_of s x)) = Some x"
      "\<not> early stage \<longrightarrow> started s x \<and> mb_running (or_mailboxes s (actor_of s x)) = Some x"
      "\<forall>p. signal = Some p \<longrightarrow> ended s p"
      by (auto simp: inv_dispatch_def frame_ok_def)
    show ?thesis
    proof (cases "x = o'")
      case True
      then show ?thesis using frame late known
        by (auto simp: frame_ok_def retire_alive [OF e] retire_views)
    next
      case False
      have "mb_running (or_mailboxes s (actor_of s x)) = Some x \<Longrightarrow>
          mb_running (or_mailboxes (retire o' st s) (actor_of s x)) = Some x"
        using False by (simp add: retire_mailboxes(4) [OF e])
      then show ?thesis using frame False known
        by (auto simp: frame_ok_def retire_alive [OF e] retire_views)
    qed
  qed
qed

lemma retire_inv_signal:
  assumes e: "ending o' st P S C s"
  shows "inv_signal (retire o' st s)"
proof -
  have inv: "inv_signal s" using e by (simp add: ending_def orch_inv_def)
  show ?thesis
  proof (cases "next_of o' s")
    case None
    then have "or_resolved (retire o' st s) = (or_resolved s)(o' := True)" "or_dispatch (retire o' st s) = or_dispatch s"
      by (simp_all add: retire_def Let_def)
    then show ?thesis using inv by (auto simp: inv_signal_def retire_alive [OF e])
  next
    case (Some n)
    then have res: "or_resolved (retire o' st s) = or_resolved s" by (simp add: retire_def Let_def)
    have "or_dispatch s n = None" by (rule ending_next [OF e Some])
    then have "or_dispatch s d = Some (stage, Some x) \<Longrightarrow> or_dispatch (retire o' st s) d = Some (stage, Some x)"
      for d stage x using Some by (auto simp: retire_dispatch)
    moreover have "or_dispatch (retire o' st s) n = Some (StClaimed, Some o')"
      using Some by (simp add: retire_dispatch)
    ultimately show ?thesis
      using inv unfolding inv_signal_def retire_alive [OF e] res by metis
  qed
qed

lemma retire_inv_commit:
  assumes e: "ending o' st P S C s"
  shows "inv_commit (retire o' st s)"
  unfolding inv_commit_def
proof (intro allI impI)
  fix c token l
  assume c: "or_commits (retire o' st s) c = Some (token, l)"
  have inv: "inv_commit s" and known: "known s o'" using e by (auto simp: ending_def orch_inv_def alive_def)
  have "sc_phase scope' \<in> {SceneClosing, SceneClosed}"
    if scene: "or_scenes (retire o' st s) (scene_of s c) = Some scope'" for scope'
  proof -
    obtain scope where "or_scenes s (scene_of s c) = Some scope"
      "sc_phase scope' = (if scene_of s c = scene_of s o' \<and> sc_phase scope = SceneClosing \<and> sc_operations scope' = []
         then SceneClosed else sc_phase scope)"
      using scene e by (rule retire_scene)
    then show ?thesis using inv c by (force simp: inv_commit_def split: if_splits)
  qed
  moreover have "known s c \<and> (ended s c \<or> phase_at s c = OpQueued) \<and> (\<forall>x \<in> set l. known s x)"
    using inv c by (auto simp: inv_commit_def)
  ultimately show "known (retire o' st s) c \<and> (ended (retire o' st s) c \<or> phase_at (retire o' st s) c = OpQueued) \<and>
       (\<forall>x \<in> set l. known (retire o' st s) x) \<and>
       (\<forall>scope. or_scenes (retire o' st s) (scene_of (retire o' st s) c) = Some scope \<longrightarrow>
          sc_phase scope \<in> {SceneClosing, SceneClosed})"
    using known by (simp add: retire_views retire_alive [OF e])
qed

lemma retire_inv_closing:
  assumes e: "ending o' st P S C s"
  shows "inv_closing {} (retire o' st s)"
  unfolding inv_closing_def
proof (intro conjI allI impI)
  have inv: "inv_closing C s" "C \<subseteq> {o'}" and known: "known s o'" and scenes: "inv_scenes s"
    using e by (auto simp: ending_def orch_inv_def alive_def)
  fix sc scope'
  assume "or_scenes (retire o' st s) sc = Some scope'" and closing: "sc_phase scope' = SceneClosing"
  then obtain scope where scope: "or_scenes s sc = Some scope" "sc_operations scope' = remove1 o' (sc_operations scope)"
    "sc_phase scope' = (if sc = scene_of s o' \<and> sc_phase scope = SceneClosing \<and> sc_operations scope' = []
       then SceneClosed else sc_phase scope)"
    using e by (elim retire_scene)
  then have "sc_phase scope = SceneClosing" using closing by (simp split: if_splits)
  then have "\<forall>x \<in> set (sc_operations scope). x \<notin> C \<longrightarrow> cancelling s x \<or> x \<in> to_cancel s sc"
    using inv(1) scope(1) by (simp add: inv_closing_def)
  moreover have "distinct (sc_operations scope)" using scenes scope(1) by (simp add: inv_scenes_def)
  ultimately show "\<forall>x \<in> set (sc_operations scope'). x \<notin> {} \<longrightarrow> cancelling (retire o' st s) x \<or> x \<in> to_cancel (retire o' st s) sc"
    using inv(2) scope(2) by (auto simp: retire_alive [OF e])
next
  fix sc l
  assume "or_closing (retire o' st s) sc = Some l"
  then show "\<forall>x \<in> set l. known (retire o' st s) x"
    using e by (auto simp: ending_def orch_inv_def inv_closing_def alive_def retire_views)
qed

lemma retire_inv_callbacks:
  assumes e: "ending o' st P S C s"
  shows "inv_callbacks (retire o' st s)"
proof -
  have inv: "inv_callbacks s" and known: "known s o'" and "os_phase st \<noteq> OpQueued"
    using e by (auto simp: ending_def orch_inv_def alive_def)
  then show ?thesis
    using ending_next(3) [OF e] by (auto simp: inv_callbacks_def retire_views retire_dispatch)
qed

lemma retire_inv:
  assumes e: "ending o' st P S C s"
  shows "orch_inv {} {} {} (retire o' st s)"
  by (simp add: orch_inv_def retire_inv_ops [OF e] retire_inv_scenes [OF e] retire_inv_txn [OF e] retire_inv_mail [OF e]
      retire_inv_place [OF e] retire_inv_slot [OF e] retire_inv_dispatch [OF e] retire_inv_signal [OF e]
      retire_inv_commit [OF e] retire_inv_closing [OF e] retire_inv_callbacks [OF e])

subsection \<open>The functions that end an operation\<close>

definition end_core :: "nat \<Rightarrow> bool \<Rightarrow> orchestra \<Rightarrow> orchestra" where
  "end_core o' with_actor s =
     (let a = actor_of s o'; sc = scene_of s o';
          (m, t) = terminal_transition o' (or_mailboxes s a);
          next = (if with_actor then mt_next t else None)
      in s \<lparr> or_mailboxes := (if with_actor then (or_mailboxes s)(a := m) else or_mailboxes s),
             or_scenes := (case or_scenes s sc of None \<Rightarrow> or_scenes s
               | Some scope \<Rightarrow> (or_scenes s)(sc \<mapsto> fst (operation_finished_locked o' scope))),
             or_dispatch := (case next of None \<Rightarrow> or_dispatch s
               | Some n \<Rightarrow> (or_dispatch s)(n \<mapsto> (StClaimed, Some o'))),
             or_resolved := (case next of None \<Rightarrow> (or_resolved s)(o' := True) | Some _ \<Rightarrow> or_resolved s) \<rparr>)"

lemma close_cued_fields [simp]:
  "or_mailboxes (close_cued_inline o' s) = or_mailboxes s" "or_scenes (close_cued_inline o' s) = or_scenes s"
  "or_dispatch (close_cued_inline o' s) = or_dispatch s" "or_resolved (close_cued_inline o' s) = or_resolved s"
  "or_actor_live (close_cued_inline o' s) = or_actor_live s"
  "actor_of (close_cued_inline o' s) x = actor_of s x" "scene_of (close_cued_inline o' s) x = scene_of s x"
  "state_at (close_cued_inline o' s) x = state_at s x" "known s o' \<Longrightarrow> known (close_cued_inline o' s) x = known s x"
  by (auto simp: close_cued_inline_def Let_def close_inline_def actor_of_def scene_of_def state_at_def operation_at_def known_def)

lemma set_state_fields [simp]:
  "or_mailboxes (set_state o' st s) = or_mailboxes s" "or_scenes (set_state o' st s) = or_scenes s"
  "or_dispatch (set_state o' st s) = or_dispatch s" "or_resolved (set_state o' st s) = or_resolved s"
  "or_actor_live (set_state o' st s) = or_actor_live s"
  "actor_of (set_state o' st s) x = actor_of s x" "scene_of (set_state o' st s) x = scene_of s x"
  "state_at (set_state o' st s) x = (if x = o' then st else state_at s x)"
  "known s o' \<Longrightarrow> known (set_state o' st s) x = known s x"
  by (auto simp: set_state_def actor_of_def scene_of_def state_at_def operation_at_def known_def)

lemma core_finish:
  assumes "known s o'" "ta_signal action = Some o'"
  shows "core (finish_terminal_action o' action s) = core (end_core o' True s)"
  using assms
  by (cases "ta_close_cued action"; cases "terminal_transition o' (or_mailboxes s (actor_of s o'))";
      cases "or_scenes s (scene_of s o')")
    (auto simp: finish_terminal_action_def complete_terminal_action_def unlink_terminal_operation_def
      scene_operation_finished_def end_core_def resolve_terminal_signal_def close_cued_inline_def close_inline_def
      Let_def core_def observe_def observe_closed_def observe_scene_def known_def actor_of_def scene_of_def
      operation_at_def fun_eq_iff
      split: option.splits prod.splits if_splits)

lemma core_complete_alone:
  assumes "known s o'"
  shows "core (resolve_terminal_signal (Some o') (fst (complete_terminal_action o' action False s))) = core (end_core o' False s)"
  using assms
  by (cases "ta_close_cued action"; cases "or_scenes s (scene_of s o')")
    (auto simp: complete_terminal_action_def scene_operation_finished_def end_core_def resolve_terminal_signal_def
      close_cued_inline_def close_inline_def Let_def core_def observe_closed_def observe_scene_def known_def
      actor_of_def scene_of_def operation_at_def fun_eq_iff
      split: option.splits prod.splits if_splits)

lemma core_end_retire:
  "known s o' \<Longrightarrow> core (end_core o' (or_actor_live s (actor_of s o')) (set_state o' st s)) = core (retire o' st s)"
  by (auto simp: end_core_def retire_def set_state_def next_of_def Let_def core_def actor_of_def scene_of_def
      operation_at_def fun_eq_iff split: prod.splits option.splits)

lemma observe_fields [simp]:
  "known (observe o' h s) = known s" "actor_of (observe o' h s) = actor_of s"
  "or_actor_live (observe o' h s) = or_actor_live s" "operation_at (observe o' h s) = operation_at s"
  "or_dispatch (observe o' h s) = or_dispatch s"
  by (simp_all add: observe_def known_def actor_of_def operation_at_def fun_eq_iff)

lemma core_update:
  "core (s \<lparr> or_mailboxes := m, or_scenes := sc, or_dispatch := d, or_resolved := r \<rparr>) =
   (core s) \<lparr> or_mailboxes := m, or_scenes := sc, or_dispatch := d, or_resolved := r \<rparr>"
  by (simp add: core_def)

lemma core_end_core: "core (end_core o' w s) = end_core o' w (core s)"
  by (simp add: end_core_def Let_def case_prod_beta core_update cong: option.case_cong)

lemma end_core_cong: "core s = core t \<Longrightarrow> core (end_core o' w s) = core (end_core o' w t)"
  by (simp add: core_end_core)

lemma core_perform:
  assumes "known s o'" "ta_signal action = Some o'"
  shows "core (perform_terminal_action o' action (set_state o' st s)) = core (retire o' st s)"
proof -
  let ?w = "or_actor_live s (actor_of s o')"
  let ?s1 = "observe o' (HookTerminal (ta_diagnostic_outcome action)
               (terminal_error (state_at (set_state o' st s) o') \<noteq> None)
      (or_actor_live (set_state o' st s) (op_actor (operation_at (set_state o' st s) o')))) (set_state o' st s)"
  have w: "op_actor (operation_at (set_state o' st s) o') = actor_of s o'"
    using set_state_fields(6) [of o' st s o'] by (simp add: actor_of_def)
  have "core (perform_terminal_action o' action (set_state o' st s)) = core (end_core o' ?w ?s1)"
    using assms core_finish [of ?s1 o' action] core_complete_alone [of ?s1 o' action]
    by (auto simp: perform_terminal_action_def Let_def w case_prod_beta)
  also have "\<dots> = core (end_core o' ?w (set_state o' st s))"
    by (rule end_core_cong) simp
  finally show ?thesis using core_end_retire [OF assms(1)] by simp
qed

lemma orch_inv_perform:
  assumes "ending o' st P S C s" "ta_signal action = Some o'"
  shows "orch_inv {} {} {} (perform_terminal_action o' action (set_state o' st s))"
  using retire_inv [OF assms(1)] core_perform [of s o' action st] assms orch_inv_core_cong
  by (metis alive_def ending_def)

lemma orch_inv_finish:
  assumes e: "ending o' st P S C s" "ta_signal action = Some o'" "or_actor_live s (actor_of s o')"
    "core t = core (set_state o' st s)"
  shows "orch_inv {} {} {} (finish_terminal_action o' action t)"
proof -
  have known: "known s o'" using e by (simp add: ending_def alive_def)
  have "known t o'" using arg_cong [OF e(4), of "\<lambda>s. known s o'"] known by simp
  then have "core (finish_terminal_action o' action t) = core (end_core o' True t)"
    using e(2) by (rule core_finish)
  also have "\<dots> = core (end_core o' True (set_state o' st s))" by (rule end_core_cong) (rule e(4))
  also have "\<dots> = core (retire o' st s)" using core_end_retire [OF known, of st] e(3) by simp
  finally show ?thesis using retire_inv [OF e(1)] orch_inv_core_cong by blast
qed

end
