(* ===== verification/Orchestra_Events.thy ===== *)
theory Orchestra_Events
  imports Orchestra_Steps
begin

section \<open>The events of the orchestra keep the invariant\<close>

subsection \<open>Changing the state of an operation that goes on\<close>

lemma invD_frame: "orch_inv P S C s \<Longrightarrow> or_dispatch s o' = Some (stage, signal) \<Longrightarrow> frame_ok s o' stage signal"
  by (auto simp: orch_inv_def inv_dispatch_def)

lemma invD_op:
  "orch_inv P S C s \<Longrightarrow> known s o' \<Longrightarrow>
   op_wf (state_at s o') \<and> os_signal (state_at s o') = Some o' \<and> or_scenes s (scene_of s o') \<noteq> None"
  by (auto simp: orch_inv_def inv_ops_def)

lemma frame_early: "frame_ok s o' stage signal \<Longrightarrow> phase_at s o' = OpQueued \<Longrightarrow> early stage"
  by (auto simp: frame_ok_def started_def)

lemma orch_inv_unseen [simp]:
  "orch_inv P S C (observe o' h s) = orch_inv P S C s" "orch_inv P S C (observe_scene sc h' s) = orch_inv P S C s"
  "orch_inv P S C (observe_closed sc s) = orch_inv P S C s" "orch_inv P S C (panic_with m s) = orch_inv P S C s"
  "orch_inv P S C (s \<lparr> or_turn_live := live \<rparr>) = orch_inv P S C s"
  "orch_inv P S C (s \<lparr> or_binding_live := b \<rparr>) = orch_inv P S C s"
  by (rule orch_inv_core_cong; simp)+

lemma set_state_rest [simp]:
  "or_next_op (set_state o' st s) = or_next_op s" "or_txn (set_state o' st s) = or_txn s"
  "or_commits (set_state o' st s) = or_commits s" "or_closing (set_state o' st s) = or_closing s"
  "or_cancelling (set_state o' st s) = or_cancelling s" "or_callback (set_state o' st s) = or_callback s"
  "or_fallback (set_state o' st s) = or_fallback s" "to_cancel (set_state o' st s) sc = to_cancel s sc"
  "phase_at (set_state o' st s) x = (if x = o' then os_phase st else phase_at s x)"
  by (auto simp: set_state_def to_cancel_def phase_at_def state_at_def operation_at_def)

lemma set_state_alive:
  assumes "alive s o'" "\<not> is_terminal st"
  shows "alive (set_state o' st s) x = alive s x" "ended (set_state o' st s) x = ended s x"
  using assms by (cases "os_phase st"; auto simp: alive_def ended_def)+

lemma set_state_started:
  assumes "alive s o'"
  shows "started (set_state o' st s) x \<longleftrightarrow> (if x = o' then (\<exists>t. os_phase st = OpRunning t \<or> os_phase st = OpCancellingRunning t) else started s x)"
    "cancelling (set_state o' st s) x \<longleftrightarrow> (if x = o' then (\<exists>t. os_phase st = OpCancellingRunning t) else cancelling s x)"
  by (auto simp: started_def cancelling_def)

text \<open>A task that runs goes on running, or is being cancelled from now on.\<close>

lemma orch_inv_set_started:
  assumes inv: "orch_inv {} {} C s" and o': "alive s o'" "started s o'" "C \<subseteq> {o'}"
    and st: "op_wf st" "os_signal st = Some o'" "\<exists>t. os_phase st = OpRunning t \<or> os_phase st = OpCancellingRunning t"
    and cancel: "C = {} \<and> \<not> cancelling s o' \<or> (\<exists>t. os_phase st = OpCancellingRunning t)"
  shows "orch_inv {} {} {} (set_state o' st s)"
proof -
  have known: "known s o'" and fresh: "phase_at s o' \<noteq> OpQueued" and not_ended: "\<not> ended s o'"
    using o' by (auto simp: alive_def started_def ended_def)
  have going: "\<not> is_terminal st" "os_phase st \<noteq> OpQueued" using st(3) by auto
  note views = set_state_alive [OF o'(1) going(1)] set_state_started [OF o'(1)]
  note parts = inv [unfolded orch_inv_def]
  have "inv_ops (set_state o' st s)" using parts known st by (auto simp: inv_ops_def)
  moreover have "inv_scenes (set_state o' st s)" using parts by (simp add: inv_scenes_def views)
  moreover have "inv_txn (set_state o' st s)" using parts by (simp add: inv_txn_def)
  moreover have "inv_mail (set_state o' st s)" using parts fresh by (auto simp: inv_mail_def views)
  moreover have "inv_place {} (set_state o' st s)" using parts by (simp add: inv_place_def views)
  moreover have "inv_slot {} (set_state o' st s)" using parts fresh going by (simp add: inv_slot_def)
  moreover have "inv_dispatch (set_state o' st s)"
    using parts fresh not_ended st(3) known by (auto simp: inv_dispatch_def frame_ok_def views)
  moreover have "inv_signal (set_state o' st s)" using parts by (simp add: inv_signal_def views)
  moreover have "inv_commit (set_state o' st s)" using parts fresh known not_ended by (auto simp: inv_commit_def views)
  moreover have "inv_closing {} (set_state o' st s)"
    unfolding inv_closing_def
  proof (intro conjI allI impI ballI)
    fix sc scope x
    assume "or_scenes (set_state o' st s) sc = Some scope" "sc_phase scope = SceneClosing" "x \<in> set (sc_operations scope)"
    then have "x \<notin> C \<longrightarrow> cancelling s x \<or> x \<in> to_cancel s sc" using parts by (simp add: inv_closing_def)
    then show "cancelling (set_state o' st s) x \<or> x \<in> to_cancel (set_state o' st s) sc"
      using cancel o'(3) by (cases "x = o'") (auto simp: views)
  qed (use parts known in \<open>auto simp: inv_closing_def\<close>)
  moreover have "inv_callbacks (set_state o' st s)" using parts known going by (simp add: inv_callbacks_def)
  ultimately show ?thesis by (simp add: orch_inv_def)
qed

subsection \<open>Requesting a cancellation\<close>

lemma set_state_observe: "set_state o' st (observe x h s) = observe x h (set_state o' st s)"
  by (simp add: set_state_def observe_def operation_at_def)

lemma retire_observe: "retire o' st (observe x h s) = observe x h (retire o' st s)"
  by (cases s) (simp add: retire_def observe_def next_of_def actor_of_def scene_of_def operation_at_def Let_def split: option.split)

lemma panic_kept [simp]:
  "or_panic (observe x h s) = or_panic s" "or_panic (observe_scene sc sh s) = or_panic s"
  "or_panic (observe_closed sc s) = or_panic s" "or_panic (set_state x st s) = or_panic s"
  "or_panic (close_cued_inline x s) = or_panic s" "or_panic (scene_operation_finished x s) = or_panic s"
  "or_panic (resolve_terminal_signal signal s) = or_panic s"
  by (simp_all add: observe_def observe_scene_def observe_closed_def set_state_def close_cued_inline_def
      scene_operation_finished_def resolve_terminal_signal_def Let_def split: prod.split option.split)

lemma panic_kept_finish [simp]:
  "or_panic (fst (complete_terminal_action x action w s)) = or_panic s"
  "or_panic (finish_terminal_action x action s) = or_panic s" "or_panic (perform_terminal_action x action s) = or_panic s"
proof -
  have unlink: "or_panic (fst (unlink_terminal_operation x t)) = or_panic t" for t
    by (simp add: unlink_terminal_operation_def Let_def case_prod_beta)
  then show complete: "or_panic (fst (complete_terminal_action x action w s)) = or_panic s" for w s
    by (simp add: complete_terminal_action_def Let_def case_prod_beta)
  show finish: "or_panic (finish_terminal_action x action s) = or_panic s" for s
    using complete [of True s]
    by (cases "complete_terminal_action x action True s") (simp add: finish_terminal_action_def split: option.split)
  show "or_panic (perform_terminal_action x action s) = or_panic s"
    by (simp add: perform_terminal_action_def Let_def case_prod_beta finish complete)
qed

lemma ending_settle:
  assumes "orch_inv P S C s" "alive s o'" "P \<subseteq> {o'}" "S \<subseteq> {o'}" "C \<subseteq> {o'}"
    "\<forall>stage signal. or_dispatch s o' = Some (stage, signal) \<longrightarrow> early stage"
  shows "ending o' (fst (settle outcome (state_at s o'))) P S C s"
  using assms by (auto simp: ending_def orch_inv_def inv_ops_def alive_def)

lemma ending_core: "core s = core t \<Longrightarrow> ending o' st P S C s \<longleftrightarrow> ending o' st P S C t"
proof -
  assume eq: "core s = core t"
  have "orch_inv P S C s = orch_inv P S C t" by (rule orch_inv_core_cong [OF eq])
  moreover have "alive s o' = alive t o'" "or_dispatch s = or_dispatch t"
    using arg_cong [OF eq, of "\<lambda>s. alive s o'"] arg_cong [OF eq, of or_dispatch] by simp_all
  ultimately show ?thesis by (simp add: ending_def)
qed

lemma orch_inv_cancelling:
  assumes "orch_inv P S C t" "known t o'" "phase_at t o' \<noteq> OpQueued"
  shows "orch_inv P S C (t \<lparr> or_cancelling := (or_cancelling t)(o' := b) \<rparr>)"
proof -
  let ?t = "t \<lparr> or_cancelling := (or_cancelling t)(o' := b) \<rparr>"
  have "inv_callbacks ?t"
    using assms by (auto simp: orch_inv_def inv_callbacks_def views_ops [of ?t t])
  then show ?thesis
    using assms by (simp add: orch_inv_def parts_cong [of ?t t])
qed

lemma orch_inv_closing_done:
  assumes inv: "orch_inv P S C s" and "\<forall>x \<in> C. cancelling s x \<or> \<not> alive s x"
  shows "orch_inv P S {} s"
proof -
  have "inv_closing {} s"
    unfolding inv_closing_def
  proof (intro conjI allI impI ballI)
    fix sc scope x
    assume sc: "or_scenes s sc = Some scope" "sc_phase scope = SceneClosing" "x \<in> set (sc_operations scope)"
    then have "alive s x" using inv by (auto simp: orch_inv_def inv_scenes_def)
    moreover have "x \<notin> C \<longrightarrow> cancelling s x \<or> x \<in> to_cancel s sc"
      using inv sc by (simp add: orch_inv_def inv_closing_def)
    ultimately show "cancelling s x \<or> x \<in> to_cancel s sc" using assms(2) by blast
  qed (use inv in \<open>auto simp: orch_inv_def inv_closing_def\<close>)
  then show ?thesis using inv by (simp add: orch_inv_def)
qed

lemma request_cancel_cases:
  assumes inv: "orch_inv P S C s" and o': "known s o'" and exempt: "P \<subseteq> {o'}" "S \<subseteq> {o'}" "C \<subseteq> {o'}"
  obtains
    (same) "cancelling s o' \<or> \<not> alive s o'" "request_cancel o' s = s"
  | (retired) st where "phase_at s o' = OpQueued" "ending o' st P S C s" "core (request_cancel o' s) = core (retire o' st s)"
  | (marked) task where "phase_at s o' = OpRunning task"
      "request_cancel o' s =
         (observe o' HookCancelRequested (set_state o'
            ((state_at s o') \<lparr> os_phase := OpCancellingRunning task, os_intent := Some (IntentRequested None) \<rparr>) s))
           \<lparr> or_cancelling := (or_cancelling s)(o' := True) \<rparr>"
proof (cases "phase_at s o'")
  case OpQueued
  let ?st = "fst (settle (OutCancelled cancelled_error) (state_at s o'))"
  let ?act = "snd (settle (OutCancelled cancelled_error) (state_at s o'))"
  have alive: "alive s o'" using OpQueued o' by (simp add: alive_def)
  have "\<forall>stage signal. or_dispatch s o' = Some (stage, signal) \<longrightarrow> early stage"
    using invD_frame [OF inv] frame_early OpQueued by blast
  then have e: "ending o' ?st P S C s" using inv alive exempt by (intro ending_settle) auto
  have "request_cancel o' s = perform_terminal_action o' ?act (set_state o' ?st (observe o' HookCancelRequested s))"
    using OpQueued unfolding phase_at_def
    by (simp add: request_cancel_def request_cancel_locked_def Let_def case_prod_beta set_state_observe)
  also have "core \<dots> = core (retire o' ?st (observe o' HookCancelRequested s))"
    using o' inv by (intro core_perform) (auto simp: orch_inv_def inv_ops_def)
  also have "\<dots> = core (observe o' HookCancelRequested (retire o' ?st s))" by (simp add: retire_observe)
  finally show ?thesis using retired [OF OpQueued e] by simp
next
  case (OpRunning task)
  then show ?thesis
    using marked [OF OpRunning] unfolding phase_at_def by (simp add: request_cancel_def request_cancel_locked_def)
next
  case (OpCancellingRunning task)
  then show ?thesis
    using same unfolding phase_at_def cancelling_def by (simp add: request_cancel_def request_cancel_locked_def)
next
  case (OpTerminal outcome)
  then show ?thesis
    using same unfolding phase_at_def alive_def by (simp add: request_cancel_def request_cancel_locked_def)
qed

lemma orch_inv_request_cancel:
  assumes inv: "orch_inv {} {} C s" and o': "known s o'" "C \<subseteq> {o'}"
  shows "orch_inv {} {} {} (request_cancel o' s)"
  using inv o'(1) empty_subsetI empty_subsetI o'(2)
proof (cases rule: request_cancel_cases)
  case same
  have "orch_inv {} {} {} s" using inv o'(2) same(1) by (intro orch_inv_closing_done [where C = C]) auto
  then show ?thesis using same(2) by simp
next
  case (retired st)
  show ?thesis using retire_inv [OF retired(2)] orch_inv_core_cong [OF retired(3)] by simp
next
  case (marked task)
  let ?st = "(state_at s o') \<lparr> os_phase := OpCancellingRunning task, os_intent := Some (IntentRequested None) \<rparr>"
  let ?t = "observe o' HookCancelRequested (set_state o' ?st s)"
  have alive: "alive s o'" "started s o'" using marked(1) o'(1) by (auto simp: alive_def started_def)
  have wf: "op_wf (state_at s o')" "os_signal (state_at s o') = Some o'"
    using inv o'(1) by (auto simp: orch_inv_def inv_ops_def)
  have "op_wf ?st" using wf(1) marked(1) by (simp add: op_wf_def phase_at_def)
  then have "orch_inv {} {} {} (set_state o' ?st s)"
    using inv alive o'(2) wf(2) by (intro orch_inv_set_started [where C = C]) auto
  then have "orch_inv {} {} {} ?t" by simp
  moreover have "known ?t o'" "phase_at ?t o' \<noteq> OpQueued"
    using o'(1) by (simp_all add: phase_at_def state_at_def set_state_def operation_at_def known_def)
  moreover have "or_cancelling ?t = or_cancelling s" by (simp add: observe_def)
  ultimately show ?thesis unfolding marked(2) using orch_inv_cancelling [of "{}" "{}" "{}" ?t o' True] by simp
qed

subsection \<open>The result of a task\<close>

lemma finish_with_result_cases:
  assumes inv: "orch_inv {} {} {} s" and o': "known s o'" "or_dispatch s o' = None"
  obtains
    (same) "ended s o'" "finish_with_result o' result s = s"
  | (retired) st where "alive s o'" "ending o' st {} {} {} s" "core (finish_with_result o' result s) = core (retire o' st s)"
      "or_panic (finish_with_result o' result s) = or_panic s"
      "os_phase st = OpTerminal (intended_outcome (os_intent (state_at s o')) result)"
proof (cases "alive s o'")
  case True
  let ?out = "intended_outcome (os_intent (state_at s o')) result"
  let ?st = "fst (settle ?out (state_at s o'))" and ?act = "snd (settle ?out (state_at s o'))"
  have wf: "op_wf (state_at s o')" "os_signal (state_at s o') = Some o'" using invD_op [OF inv o'(1)] by auto
  have "\<not> is_terminal (state_at s o')" using True by (auto simp: alive_def phase_at_def)
  then have eq: "finish_with_result o' result s = perform_terminal_action o' ?act (set_state o' ?st s)"
    using wf(1) by (simp add: finish_with_result_def transition_settles case_prod_beta)
  have e: "ending o' ?st {} {} {} s" using inv True o'(2) by (intro ending_settle) auto
  have "core (finish_with_result o' result s) = core (retire o' ?st s)"
    unfolding eq using o'(1) wf(2) by (intro core_perform) auto
  then show ?thesis by (rule retired [OF True e]) (simp_all add: eq)
next
  case False
  then have fin: "ended s o'" using o'(1) not_alive_iff by blast
  then have "is_terminal (state_at s o')" by (cases "phase_at s o'") (auto simp: ended_def phase_at_def)
  then show ?thesis using same [OF fin] by (simp add: finish_with_result_def transition_terminal)
qed

lemma orch_inv_finish_with_result:
  assumes inv: "orch_inv {} {} {} s" and o': "known s o'" "or_dispatch s o' = None"
  shows "orch_inv {} {} {} (finish_with_result o' result s)"
  using assms
proof (cases rule: finish_with_result_cases [where result = result])
  case (retired st)
  show ?thesis using retire_inv [OF retired(2)] orch_inv_core_cong [OF retired(3)] by simp
qed (use inv in simp)

subsection \<open>Dispatching\<close>

text \<open>The frame of a dispatch goes, and the signal it held is resolved.\<close>

lemma resolve_fields [simp]:
  "or_ops (resolve_terminal_signal signal s) = or_ops s" "or_next_op (resolve_terminal_signal signal s) = or_next_op s"
  "or_mailboxes (resolve_terminal_signal signal s) = or_mailboxes s"
  "or_actor_live (resolve_terminal_signal signal s) = or_actor_live s"
  "or_scenes (resolve_terminal_signal signal s) = or_scenes s" "or_txn (resolve_terminal_signal signal s) = or_txn s"
  "or_commits (resolve_terminal_signal signal s) = or_commits s"
  "or_closing (resolve_terminal_signal signal s) = or_closing s"
  "or_dispatch (resolve_terminal_signal signal s) = or_dispatch s"
  "or_cancelling (resolve_terminal_signal signal s) = or_cancelling s"
  "or_callback (resolve_terminal_signal signal s) = or_callback s"
  "or_fallback (resolve_terminal_signal signal s) = or_fallback s"
  by (simp_all add: resolve_terminal_signal_def split: option.splits)

lemma resolved_after: "or_resolved (resolve_terminal_signal signal s) x \<longleftrightarrow> or_resolved s x \<or> signal = Some x"
  by (simp add: resolve_terminal_signal_def split: option.splits)

lemma resolve_set_state:
  "resolve_terminal_signal signal (set_state o' st s) = set_state o' st (resolve_terminal_signal signal s)"
  by (cases s) (simp add: resolve_terminal_signal_def set_state_def operation_at_def split: option.split)

lemma orch_inv_drop_frame:
  assumes inv: "orch_inv {} {} {} s" and frame: "or_dispatch s o' = Some (stage, signal)"
  shows "orch_inv {} {o'} {} (resolve_terminal_signal signal (s \<lparr> or_dispatch := (or_dispatch s)(o' := None) \<rparr>))"
proof -
  let ?t = "resolve_terminal_signal signal (s \<lparr> or_dispatch := (or_dispatch s)(o' := None) \<rparr>)"
  have v: "or_ops ?t = or_ops s" by simp
  note views = views_ops [OF v]
  note parts = inv [unfolded orch_inv_def]
  have ok: "frame_ok s o' stage signal" by (rule invD_frame [OF inv frame])
  have "inv_mail ?t" using parts by (simp add: inv_mail_def views)
  moreover have "inv_slot {o'} ?t" using parts by (auto simp: inv_slot_def views)
  moreover have "inv_dispatch ?t" using parts by (auto simp: inv_dispatch_def frame_ok_def views)
  moreover have "inv_signal ?t"
    unfolding inv_signal_def views
  proof (intro allI conjI impI)
    fix x
    assume "or_resolved ?t x"
    then show "ended s x" using parts ok by (auto simp: resolved_after inv_signal_def frame_ok_def)
  next
    fix x
    assume "ended s x"
    then have "or_resolved s x \<or> (\<exists>d stage. or_dispatch s d = Some (stage, Some x))"
      using parts by (simp add: inv_signal_def)
    moreover have "or_dispatch s d = Some (stage', Some x) \<Longrightarrow> signal = Some x \<or> or_dispatch ?t d = Some (stage', Some x)"
      for d stage' using frame by (cases "d = o'") simp_all
    moreover have "or_resolved ?t x \<longleftrightarrow> or_resolved s x \<or> signal = Some x" by (simp add: resolved_after)
    ultimately show "or_resolved ?t x \<or> (\<exists>d stage. or_dispatch ?t d = Some (stage, Some x))" by blast
  qed
  moreover have "inv_callbacks ?t" using parts by (simp add: inv_callbacks_def views)
  ultimately show ?thesis
    using parts by (simp add: orch_inv_def parts_cong [OF v])
qed

lemma dispatch_failed_cases:
  assumes inv: "orch_inv {} {} {} s" and frame: "or_dispatch s o' = Some (stage, signal)" "early stage"
  obtains
    (panicked) m where "ended s o'" "dispatch_failed o' signal e s = panic_with m s"
  | (retired) st where "alive s o'"
      "ending o' st {} {o'} {} (resolve_terminal_signal signal (s \<lparr> or_dispatch := (or_dispatch s)(o' := None) \<rparr>))"
      "core (dispatch_failed o' signal e s) =
         core (retire o' st (resolve_terminal_signal signal (s \<lparr> or_dispatch := (or_dispatch s)(o' := None) \<rparr>)))"
      "or_panic (dispatch_failed o' signal e s) = or_panic s"
proof (cases "alive s o'")
  case True
  let ?t = "resolve_terminal_signal signal (s \<lparr> or_dispatch := (or_dispatch s)(o' := None) \<rparr>)"
  let ?out = "intended_outcome (os_intent (state_at s o')) (Inl e)"
  let ?st = "fst (settle ?out (state_at s o'))" and ?act = "snd (settle ?out (state_at s o'))"
  have v: "or_ops ?t = or_ops s" by simp
  have ok: "frame_ok s o' stage signal" by (rule invD_frame [OF inv frame(1)])
  have wf: "op_wf (state_at s o')" "os_signal (state_at s o') = Some o'"
    using invD_op [OF inv, of o'] True by (auto simp: alive_def)
  have "ending o' (fst (settle ?out (state_at ?t o'))) {} {o'} {} ?t"
    using orch_inv_drop_frame [OF inv frame(1)] True
    by (intro ending_settle) (auto simp: views_ops [OF v])
  then have e: "ending o' ?st {} {o'} {} ?t" by (simp add: views_ops [OF v])
  have "\<not> is_terminal (state_at s o')" using True by (auto simp: alive_def phase_at_def)
  then have eq: "dispatch_failed o' signal e s = finish_terminal_action o' ?act (set_state o' ?st ?t)"
    using wf(1) by (simp add: dispatch_failed_def transition_settles case_prod_beta resolve_set_state)
  also have "core \<dots> = core (end_core o' True (set_state o' ?st ?t))"
    using ok wf(2) by (intro core_finish) (simp_all add: views_ops [OF v] frame_ok_def)
  also have "\<dots> = core (retire o' ?st ?t)"
    using core_end_retire [of ?t o' ?st] ok by (simp add: views_ops [OF v] frame_ok_def)
  finally show ?thesis by (rule retired [OF True e]) (simp add: eq)
next
  case False
  have "known s o'" using invD_frame [OF inv frame(1)] by (simp add: frame_ok_def)
  then have fin: "ended s o'" using False not_alive_iff by blast
  then have "is_terminal (state_at s o')" by (cases "phase_at s o'") (auto simp: ended_def phase_at_def)
  then show ?thesis using panicked [OF fin] by (simp add: dispatch_failed_def transition_terminal)
qed

lemma orch_inv_dispatch_failed:
  assumes inv: "orch_inv {} {} {} s" and frame: "or_dispatch s o' = Some (stage, signal)" "early stage"
  shows "orch_inv {} {} {} (dispatch_failed o' signal e s)"
  using assms
proof (cases rule: dispatch_failed_cases [where e = e])
  case (retired st)
  show ?thesis using retire_inv [OF retired(2)] orch_inv_core_cong [OF retired(3)] by simp
qed (use inv in simp)

lemma inv_closing_mono:
  assumes "inv_closing C s" "or_scenes t = or_scenes s" "or_closing t = or_closing s"
    "\<And>sc. to_cancel t sc = to_cancel s sc" "\<And>x. known t x = known s x" "\<And>x. cancelling s x \<Longrightarrow> cancelling t x"
  shows "inv_closing C t"
  using assms(1) unfolding inv_closing_def assms(2-5) using assms(6) by blast

lemma inv_signal_restage:
  assumes "inv_signal s" "or_dispatch t = (or_dispatch s)(o' \<mapsto> (stage', signal))" "or_dispatch s o' = Some (stage, signal)"
    "\<And>x. or_resolved t x = or_resolved s x" "\<And>x. ended t x = ended s x"
  shows "inv_signal t"
proof -
  have "or_dispatch s f = Some (st, Some x) \<Longrightarrow> \<exists>st'. or_dispatch t f = Some (st', Some x)" for f st x
    using assms(2,3) by (cases "f = o'") simp_all
  then show ?thesis using assms(1) unfolding inv_signal_def assms(4,5) by blast
qed

lemma orch_inv_set_stage:
  assumes inv: "orch_inv {} {} {} s" and frame: "or_dispatch s o' = Some (stage, signal)"
    and ok: "frame_ok s o' stage' signal"
  shows "orch_inv {} {} {} (set_stage o' stage' signal s)"
proof -
  let ?t = "set_stage o' stage' signal s"
  have v: "or_ops ?t = or_ops s" by (simp add: set_stage_def)
  note views = views_ops [OF v]
  note parts = inv [unfolded orch_inv_def]
  have d: "or_dispatch ?t = (or_dispatch s)(o' \<mapsto> (stage', signal))" by (simp add: set_stage_def)
  have rest: "or_next_op ?t = or_next_op s" "or_scenes ?t = or_scenes s" "or_txn ?t = or_txn s"
    "or_closing ?t = or_closing s" "or_mailboxes ?t = or_mailboxes s" "or_commits ?t = or_commits s"
    "or_actor_live ?t = or_actor_live s" "or_resolved ?t = or_resolved s" "or_cancelling ?t = or_cancelling s"
    "or_callback ?t = or_callback s" "or_fallback ?t = or_fallback s"
    by (simp_all add: set_stage_def)
  have "inv_mail ?t" using parts frame by (auto simp: inv_mail_def views rest d)
  moreover have "inv_slot {} ?t" using parts by (simp add: inv_slot_def views rest d)
  moreover have "inv_dispatch ?t"
    using parts ok by (auto simp: inv_dispatch_def frame_ok_def views rest d)
  moreover have "inv_signal ?t"
    using parts frame by (intro inv_signal_restage [of s ?t]) (simp_all add: views rest d)
  moreover have "inv_callbacks ?t" using parts frame by (auto simp: inv_callbacks_def views rest d)
  ultimately show ?thesis using parts by (simp add: orch_inv_def parts_cong [OF v] rest)
qed

text \<open>The task is stored, and the dispatch goes on to attach the callback.\<close>

lemma orch_inv_start_running:
  assumes inv: "orch_inv {} {} {} s" and frame: "or_dispatch s o' = Some (stage, signal)"
    and queued: "phase_at s o' = OpQueued" and running: "os_phase st = OpRunning task"
    and st: "op_wf st" "os_signal st = Some o'"
  shows "orch_inv {} {} {} (set_stage o' StAttaching signal (set_state o' st s))"
proof -
  let ?t = "set_stage o' StAttaching signal (set_state o' st s)"
  have ok: "frame_ok s o' stage signal" by (rule invD_frame [OF inv frame])
  then have alive: "alive s o'" and known: "known s o'" and slot: "mb_running (or_mailboxes s (actor_of s o')) = Some o'"
    using queued by (auto simp: frame_ok_def alive_def ended_def)
  have going: "\<not> is_terminal st" using running by simp
  have v: "or_ops ?t = or_ops (set_state o' st s)" by (simp add: set_stage_def)
  note views = views_ops [OF v] set_state_alive [OF alive going] set_state_started [OF alive]
  note parts = inv [unfolded orch_inv_def]
  have d: "or_dispatch ?t = (or_dispatch s)(o' \<mapsto> (StAttaching, signal))" by (simp add: set_stage_def)
  have rest: "or_next_op ?t = or_next_op s" "or_scenes ?t = or_scenes s" "or_txn ?t = or_txn s"
    "or_closing ?t = or_closing s" "or_mailboxes ?t = or_mailboxes s" "or_commits ?t = or_commits s"
    "or_actor_live ?t = or_actor_live s" "or_resolved ?t = or_resolved s" "or_cancelling ?t = or_cancelling s"
    "or_callback ?t = or_callback s" "or_fallback ?t = or_fallback s"
    by (simp_all add: set_stage_def)
  have "inv_ops ?t" using parts known st by (auto simp: inv_ops_def views rest)
  moreover have "inv_scenes ?t" using parts by (simp add: inv_scenes_def views rest)
  moreover have "inv_txn ?t" using parts by (simp add: inv_txn_def rest)
  moreover have "inv_mail ?t" using parts frame by (auto simp: inv_mail_def views rest d)
  moreover have "inv_place {} ?t" using parts by (simp add: inv_place_def views rest)
  moreover have "inv_slot {} ?t" using parts by (simp add: inv_slot_def views rest d)
  moreover have "inv_dispatch ?t"
    using parts ok slot known running by (auto simp: inv_dispatch_def frame_ok_def views rest d)
  moreover have "inv_signal ?t"
    using parts frame by (intro inv_signal_restage [of s ?t]) (simp_all add: views rest d)
  moreover have "inv_commit ?t"
    using parts ok known by (auto simp: inv_commit_def frame_ok_def views rest)
  moreover have "inv_closing {} ?t"
  proof -
    have "to_cancel ?t sc = to_cancel s sc" for sc by (simp add: to_cancel_def rest)
    moreover have "\<not> cancelling s o'" using queued by (simp add: cancelling_def)
    ultimately show ?thesis
      using parts known by (intro inv_closing_mono [of "{}" s ?t]) (auto simp: views rest)
  qed
  moreover have "inv_callbacks ?t" using parts frame known queued by (auto simp: inv_callbacks_def views rest d)
  ultimately show ?thesis by (simp add: orch_inv_def)
qed

lemma orch_inv_slot_done:
  "orch_inv P {o'} C s \<Longrightarrow> phase_at s o' \<noteq> OpQueued \<Longrightarrow> orch_inv P {} C s"
  by (auto simp: orch_inv_def inv_slot_def)

lemma orch_inv_dispatch_scheduled:
  assumes inv: "orch_inv {} {} {} s" and frame: "or_dispatch s o' = Some (stage, signal)" "\<not> early stage"
  shows "orch_inv {} {} {} (dispatch_scheduled o' signal s)"
proof -
  let ?t = "resolve_terminal_signal signal (s \<lparr> or_dispatch := (or_dispatch s)(o' := None) \<rparr>)"
  have "started s o'" using invD_frame [OF inv frame(1)] frame(2) by (simp add: frame_ok_def)
  then have "phase_at ?t o' \<noteq> OpQueued" by (auto simp: views_ops [of ?t s] started_def)
  then have "orch_inv {} {} {} ?t" using orch_inv_drop_frame [OF inv frame(1)] by (rule orch_inv_slot_done [rotated])
  moreover have "core (dispatch_scheduled o' signal s) = core ?t"
    by (simp add: dispatch_scheduled_def resolve_terminal_signal_def observe_def core_def split: option.split)
  ultimately show ?thesis using orch_inv_core_cong by blast
qed

lemma orch_inv_callback:
  assumes inv: "orch_inv P S C t" and o': "known t o'" "phase_at t o' \<noteq> OpQueued" "or_dispatch t o' = None"
  shows "orch_inv P S C (t \<lparr> or_callback := (or_callback t)(o' := b) \<rparr>)"
    and "orch_inv P S C (t \<lparr> or_fallback := (or_fallback t)(o' := b) \<rparr>)"
proof -
  let ?t = "t \<lparr> or_callback := (or_callback t)(o' := b) \<rparr>"
  have "inv_callbacks ?t"
    using assms by (auto simp: orch_inv_def inv_callbacks_def views_ops [of ?t t])
  then show "orch_inv P S C ?t" using inv by (simp add: orch_inv_def parts_cong [of ?t t])
  let ?f = "t \<lparr> or_fallback := (or_fallback t)(o' := b) \<rparr>"
  have "inv_callbacks ?f"
    using assms by (auto simp: orch_inv_def inv_callbacks_def views_ops [of ?f t])
  then show "orch_inv P S C ?f" using inv by (simp add: orch_inv_def parts_cong [of ?f t])
qed

end
