(* ===== verification/Orchestra_Admission.thy ===== *)
theory Orchestra_Admission
  imports Orchestra_Events
begin

section \<open>Admitting, enqueueing and closing keep the invariant\<close>

subsection \<open>Scenes change their phase\<close>

lemma orch_inv_scene_update:
  assumes inv: "orch_inv P S C s" and sc: "or_scenes s sc = Some scope" "sc_operations scope' = sc_operations scope"
    and closed: "sc_phase scope' = SceneClosed \<Longrightarrow> sc_operations scope = []"
    and txn: "txn_ok txn' scope'"
    and commits: "sc_phase scope \<in> {SceneClosing, SceneClosed} \<Longrightarrow> sc_phase scope' \<in> {SceneClosing, SceneClosed}"
    and closing: "cl' = Some (sc_operations scope) \<or>
      cl' = or_closing s sc \<and> (sc_phase scope' = SceneClosing \<longrightarrow> sc_phase scope = SceneClosing)"
  shows "orch_inv P S C (s \<lparr> or_scenes := (or_scenes s)(sc \<mapsto> scope'), or_txn := (or_txn s)(sc := txn'),
                            or_closing := (or_closing s)(sc := cl') \<rparr>)"
    (is "orch_inv P S C ?t")
proof -
  have v: "or_ops ?t = or_ops s" by simp
  note views = views_ops [OF v]
  note parts = inv [unfolded orch_inv_def]
  have ops: "distinct (sc_operations scope)" "set (sc_operations scope) = {x. alive s x \<and> scene_of s x = sc}"
    using parts sc(1) by (auto simp: inv_scenes_def)
  have scene: "or_scenes ?t sc0 = Some scope0 \<Longrightarrow>
      if sc0 = sc then scope0 = scope' else or_scenes s sc0 = Some scope0" for sc0 scope0
    by (simp split: if_splits)
  have "inv_ops ?t" using parts by (auto simp: inv_ops_def views)
  moreover have "inv_scenes ?t"
    unfolding inv_scenes_def views
  proof (intro allI impI)
    fix sc0 scope0
    assume t: "or_scenes ?t sc0 = Some scope0"
    show "distinct (sc_operations scope0) \<and> set (sc_operations scope0) = {x. alive s x \<and> scene_of s x = sc0} \<and>
        (sc_phase scope0 = SceneClosed \<longrightarrow> sc_operations scope0 = [])"
    proof (cases "sc0 = sc")
      case True
      then have "scope0 = scope'" using scene [OF t] by simp
      then show ?thesis using True sc(2) closed ops by simp
    next
      case False
      then have "or_scenes s sc0 = Some scope0" using scene [OF t] by simp
      then show ?thesis using parts by (simp add: inv_scenes_def)
    qed
  qed
  moreover have "inv_txn ?t" using parts txn by (simp add: inv_txn_def)
  moreover have "inv_commit ?t"
    unfolding inv_commit_def views
  proof (intro allI impI)
    fix x token l
    assume "or_commits ?t x = Some (token, l)"
    then have c: "or_commits s x = Some (token, l)" by simp
    have "sc_phase scope0 \<in> {SceneClosing, SceneClosed}" if t: "or_scenes ?t (scene_of s x) = Some scope0" for scope0
    proof (cases "scene_of s x = sc")
      case True
      then show ?thesis using scene [OF t] parts c sc(1) commits by (auto simp: inv_commit_def)
    next
      case False
      then show ?thesis using scene [OF t] parts c by (auto simp: inv_commit_def)
    qed
    then show "known s x \<and> (ended s x \<or> phase_at s x = OpQueued) \<and> (\<forall>x \<in> set l. known s x) \<and>
        (\<forall>scope. or_scenes ?t (scene_of s x) = Some scope \<longrightarrow> sc_phase scope \<in> {SceneClosing, SceneClosed})"
      using parts c unfolding inv_commit_def by blast
  qed
  moreover have "inv_closing C ?t"
    unfolding inv_closing_def views
  proof (intro conjI allI impI ballI)
    fix sc0 scope0 x
    assume s0: "or_scenes ?t sc0 = Some scope0" "sc_phase scope0 = SceneClosing" "x \<in> set (sc_operations scope0)" "x \<notin> C"
    show "cancelling s x \<or> x \<in> to_cancel ?t sc0"
    proof (cases "sc0 = sc \<and> cl' = Some (sc_operations scope)")
      case True
      then show ?thesis using s0(3) scene [OF s0(1)] sc(2) by (auto simp: to_cancel_def)
    next
      case False
      then have tc: "to_cancel ?t sc0 = to_cancel s sc0" using closing by (auto simp: to_cancel_def)
      have "\<exists>scope1. or_scenes s sc0 = Some scope1 \<and> sc_phase scope1 = SceneClosing \<and> x \<in> set (sc_operations scope1)"
        using s0(2,3) scene [OF s0(1)] sc closing False by (cases "sc0 = sc") auto
      then show ?thesis using parts s0(4) unfolding tc inv_closing_def by blast
    qed
  next
    fix sc0 l x
    assume "or_closing ?t sc0 = Some l" "x \<in> set l"
    then have "(\<exists>sc1. or_closing s sc1 = Some l \<and> x \<in> set l) \<or> x \<in> set (sc_operations scope)"
      using closing by (auto split: if_splits)
    then show "known s x" using parts ops unfolding inv_closing_def alive_def by blast
  qed
  ultimately show ?thesis using parts by (simp add: orch_inv_def parts_cong [OF v])
qed

lemma orch_inv_open_scene:
  assumes inv: "orch_inv {} {} {} s" and new: "or_scenes s sc = None"
  shows "orch_inv {} {} {} (s \<lparr> or_scenes := (or_scenes s)(sc \<mapsto> new_scene name) \<rparr>)" (is "orch_inv _ _ _ ?t")
proof -
  have v: "or_ops ?t = or_ops s" by simp
  note views = views_ops [OF v]
  note parts = inv [unfolded orch_inv_def]
  have none: "known s x \<Longrightarrow> scene_of s x \<noteq> sc" for x using parts new by (auto simp: inv_ops_def)
  then have empty: "{x. alive s x \<and> scene_of s x = sc} = {}" by (auto simp: alive_def)
  have fresh: "sc_operations (new_scene name) = []" "sc_phase (new_scene name) = SceneOpen" by (simp_all add: new_scene_def)
  have "inv_ops ?t" using parts by (auto simp: inv_ops_def views)
  moreover have "inv_scenes ?t" using parts empty fresh by (simp add: inv_scenes_def views)
  moreover have "inv_txn ?t" using parts new fresh by (simp add: inv_txn_def txn_ok_def)
  moreover have "inv_commit ?t" using parts none unfolding inv_commit_def views by simp
  moreover have "inv_closing {} ?t"
    using parts fresh by (simp add: inv_closing_def views to_cancel_def)
  ultimately show ?thesis using parts by (simp add: orch_inv_def parts_cong [OF v])
qed

lemma invD_scene: "orch_inv P S C s \<Longrightarrow> or_scenes s sc = Some scope \<Longrightarrow> txn_ok (or_txn s sc) scope"
  by (auto simp: orch_inv_def inv_txn_def)

lemma orch_inv_begin:
  assumes inv: "orch_inv {} {} {} s" and sc: "or_scenes s sc = Some scope"
  shows "orch_inv {} {} {} (begin_event sc scope s)"
proof (cases "sc_phase scope = SceneOpen")
  case True
  let ?scope = "scope \<lparr> sc_next_token := sc_next_token scope + 1, sc_phase := SceneAdmitting (sc_next_token scope) \<rparr>"
  have "orch_inv {} {} {} (s \<lparr> or_scenes := (or_scenes s)(sc \<mapsto> ?scope),
      or_txn := (or_txn s)(sc := Some (sc_next_token scope, None)), or_closing := (or_closing s)(sc := or_closing s sc) \<rparr>)"
    using inv sc True by (intro orch_inv_scene_update) (auto simp: txn_ok_def)
  then show ?thesis using True by (simp add: begin_event_def begin_admission_def)
next
  case False
  then show ?thesis using inv by (simp add: begin_event_def begin_admission_def)
qed

lemma orch_inv_admission_dropped:
  assumes inv: "orch_inv {} {} {} s" and txn: "or_txn s sc = Some (token, prepared)"
  shows "orch_inv {} {} {} (admission_dropped sc token (s \<lparr> or_txn := (or_txn s)(sc := None) \<rparr>))"
proof -
  obtain scope where sc: "or_scenes s sc = Some scope"
    using inv txn by (cases "or_scenes s sc") (auto simp: orch_inv_def inv_txn_def)
  have "txn_ok (Some (token, prepared)) scope" using invD_scene [OF inv sc] txn by simp
  then consider "sc_phase scope = SceneAdmitting token" | "sc_phase scope = SceneClosePending token"
    by (auto simp: txn_ok_def)
  then show ?thesis
  proof cases
    case 1
    have "orch_inv {} {} {} (s \<lparr> or_scenes := (or_scenes s)(sc \<mapsto> scope \<lparr> sc_phase := SceneOpen \<rparr>),
      or_txn := (or_txn s)(sc := None), or_closing := (or_closing s)(sc := or_closing s sc) \<rparr>)"
      using inv sc 1 by (intro orch_inv_scene_update) (auto simp: txn_ok_def)
    moreover have "admission_dropped sc token (s \<lparr> or_txn := (or_txn s)(sc := None) \<rparr>) =
      s \<lparr> or_scenes := (or_scenes s)(sc \<mapsto> scope \<lparr> sc_phase := SceneOpen \<rparr>), or_txn := (or_txn s)(sc := None) \<rparr>"
      using sc 1 by (cases s) (simp add: admission_dropped_def rollback_admission_locked_def)
    ultimately show ?thesis by simp
  next
    case 2
    have "orch_inv {} {} {} (s \<lparr> or_scenes := (or_scenes s)(sc \<mapsto> scope \<lparr> sc_phase := SceneClosing \<rparr>),
      or_txn := (or_txn s)(sc := None), or_closing := (or_closing s)(sc := Some (sc_operations scope)) \<rparr>)" (is "orch_inv _ _ _ ?t")
      using inv sc 2 by (intro orch_inv_scene_update) (auto simp: txn_ok_def)
    moreover have "core (admission_dropped sc token (s \<lparr> or_txn := (or_txn s)(sc := None) \<rparr>)) = core ?t"
      using sc 2 by (cases s) (simp add: admission_dropped_def rollback_admission_locked_def Let_def core_def observe_scene_def)
    ultimately show ?thesis using orch_inv_core_cong by blast
  qed
qed

lemma orch_inv_close_scene:
  assumes inv: "orch_inv {} {} {} s" and sc: "or_scenes s sc = Some scope"
  shows "orch_inv {} {} {} (close_scene sc scope s)"
proof -
  have ok: "txn_ok (or_txn s sc) scope" by (rule invD_scene [OF inv sc])
  have update: "orch_inv {} {} {} (s \<lparr> or_scenes := (or_scenes s)(sc \<mapsto> scope \<lparr> sc_phase := phase \<rparr>),
      or_txn := (or_txn s)(sc := or_txn s sc), or_closing := (or_closing s)(sc := cl) \<rparr>)"
    if "txn_ok (or_txn s sc) (scope \<lparr> sc_phase := phase \<rparr>)" "phase = SceneClosed \<Longrightarrow> sc_operations scope = []"
      "cl = Some (sc_operations scope) \<or> cl = or_closing s sc \<and> phase \<noteq> SceneClosing"
      "sc_phase scope \<notin> {SceneClosing, SceneClosed}" for phase cl
    using inv sc that by (intro orch_inv_scene_update) auto
  consider "sc_phase scope = SceneOpen" "sc_operations scope = []" | "sc_phase scope = SceneOpen" "sc_operations scope \<noteq> []"
    | token where "sc_phase scope = SceneAdmitting token"
    | "close_locked scope = (scope, None)"
    by (cases "sc_phase scope"; cases "sc_operations scope") (auto simp: close_locked_def)
  then show ?thesis
  proof cases
    case 1
    then have "orch_inv {} {} {} (s \<lparr> or_scenes := (or_scenes s)(sc \<mapsto> scope \<lparr> sc_phase := SceneClosed \<rparr>) \<rparr>)"
      using update [of SceneClosed "or_closing s sc"] ok by (auto simp: txn_ok_def split: option.splits)
    then show ?thesis using 1 by (simp add: close_scene_def close_locked_def Let_def)
  next
    case 2
    then have "orch_inv {} {} {} (s \<lparr> or_scenes := (or_scenes s)(sc \<mapsto> scope \<lparr> sc_phase := SceneClosing \<rparr>),
        or_closing := (or_closing s)(sc := Some (sc_operations scope)) \<rparr>)" (is "orch_inv _ _ _ ?t")
      using update [of SceneClosing "Some (sc_operations scope)"] ok by (auto simp: txn_ok_def split: option.splits)
    moreover have "core (close_scene sc scope s) = core ?t"
      using 2 by (simp add: close_scene_def close_locked_def Let_def core_def observe_scene_def)
    ultimately show ?thesis using orch_inv_core_cong by blast
  next
    case 3
    then have "orch_inv {} {} {} (s \<lparr> or_scenes := (or_scenes s)(sc \<mapsto> scope \<lparr> sc_phase := SceneClosePending token \<rparr>) \<rparr>)"
      using update [of "SceneClosePending token" "or_closing s sc"] ok
      by (auto simp: txn_ok_def prepare_admission_def split: option.splits)
    then show ?thesis using 3 by (simp add: close_scene_def close_locked_def Let_def)
  next
    case 4
    then show ?thesis using inv by (simp add: close_scene_def Let_def)
  qed
qed

lemma orch_inv_wait_closed:
  assumes inv: "orch_inv {} {} {} s" and sc: "or_scenes s sc = Some scope"
  shows "orch_inv {} {} {} (wait_closed sc scope s)"
proof (cases "sc_phase scope = SceneClosing \<and> sc_operations scope = []")
  case True
  have ok: "txn_ok (or_txn s sc) scope" by (rule invD_scene [OF inv sc])
  have "orch_inv {} {} {} (s \<lparr> or_scenes := (or_scenes s)(sc \<mapsto> scope \<lparr> sc_phase := SceneClosed \<rparr>),
      or_txn := (or_txn s)(sc := or_txn s sc), or_closing := (or_closing s)(sc := or_closing s sc) \<rparr>)"
    using inv sc True ok by (intro orch_inv_scene_update) (auto simp: txn_ok_def split: option.splits)
  then show ?thesis using True by (simp add: wait_closed_def wait_closed_turn_def Let_def)
next
  case False
  moreover have "s \<lparr> or_scenes := (or_scenes s)(sc \<mapsto> scope) \<rparr> = s" using sc by (simp add: fun_upd_idem)
  ultimately show ?thesis using inv by (auto simp: wait_closed_def wait_closed_turn_def Let_def)
qed

subsection \<open>Enqueueing\<close>

text \<open>An operation that is not in its mailbox yet, and about to be put there.\<close>

definition arriving :: "nat \<Rightarrow> orchestra \<Rightarrow> bool" where
  "arriving o' s \<longleftrightarrow>
     orch_inv {o'} {} {} s \<and> alive s o' \<and> phase_at s o' = OpQueued \<and> or_actor_live s (actor_of s o') \<and>
     or_commits s o' = None \<and> or_dispatch s o' = None \<and> o' \<notin> mailbox_members (or_mailboxes s (actor_of s o'))"

lemma orch_inv_put:
  assumes arriving: "arriving o' s"
    and mail: "or_mailboxes t = (or_mailboxes s)(actor_of s o' := m)" "mailbox_ok m"
      "mailbox_members m = insert o' (mailbox_members (or_mailboxes s (actor_of s o')))"
    and where_to: "or_dispatch t = or_dispatch s \<and> mb_running m = mb_running (or_mailboxes s (actor_of s o')) \<and>
          set (mb_queue m) = insert o' (set (mb_queue (or_mailboxes s (actor_of s o')))) \<or>
        or_dispatch t = (or_dispatch s)(o' \<mapsto> (StClaimed, None)) \<and> mb_running m = Some o' \<and> mb_queue m = [] \<and>
          mb_running (or_mailboxes s (actor_of s o')) = None"
    and same: "or_ops t = or_ops s" "or_next_op t = or_next_op s" "or_scenes t = or_scenes s" "or_txn t = or_txn s"
      "or_closing t = or_closing s" "or_commits t = or_commits s" "or_actor_live t = or_actor_live s"
      "or_resolved t = or_resolved s" "or_cancelling t = or_cancelling s" "or_callback t = or_callback s"
      "or_fallback t = or_fallback s"
  shows "orch_inv {} {} {} t"
proof -
  let ?A = "actor_of s o'"
  note views = views_ops [OF same(1)]
  note inv = arriving [unfolded arriving_def]
  note parts = conjunct1 [OF inv, unfolded orch_inv_def]
  have grow: "or_dispatch s f = Some fr \<Longrightarrow> or_dispatch t f = Some fr" for f fr
    using where_to inv by (cases "f = o'") auto
  have members: "mailbox_members (or_mailboxes t a) = (if a = ?A then insert o' (mailbox_members (or_mailboxes s a)) else mailbox_members (or_mailboxes s a))" for a
    using mail by simp
  have disp: "or_dispatch t x = None" if "or_dispatch s x = None" "x \<noteq> o'" for x
    using where_to that by auto
  have "inv_mail t"
    unfolding inv_mail_def views same
  proof (intro allI conjI ballI impI)
    fix a
    show "mailbox_ok (or_mailboxes t a)" using parts mail by (simp add: inv_mail_def)
    show "alive s x" "actor_of s x = a" "or_commits s x = None" if "x \<in> mailbox_members (or_mailboxes t a)" for x
      using that parts inv by (auto simp: members inv_mail_def split: if_splits)
    show "phase_at s x = OpQueued" "or_dispatch t x = None" if "x \<in> set (mb_queue (or_mailboxes t a))" for x
    proof -
      have "x \<in> set (mb_queue (or_mailboxes s a)) \<or> x = o' \<and> or_dispatch t = or_dispatch s"
        using that where_to mail(1) by (auto split: if_splits)
      moreover have "o' \<notin> set (mb_queue (or_mailboxes s a))"
      proof
        assume "o' \<in> set (mb_queue (or_mailboxes s a))"
        then have "o' \<in> mailbox_members (or_mailboxes s a)" by (simp add: mailbox_members_def)
        moreover from this have "actor_of s o' = a" using parts unfolding inv_mail_def by blast
        ultimately show False using inv by simp
      qed
      moreover have "phase_at s x = OpQueued \<and> or_dispatch s x = None" if "x \<in> set (mb_queue (or_mailboxes s a))"
        using parts that unfolding inv_mail_def by blast
      ultimately have "phase_at s x = OpQueued \<and> or_dispatch t x = None"
        using inv disp [of x] by auto
      then show "phase_at s x = OpQueued" "or_dispatch t x = None" by simp_all
    qed
    show "or_mailboxes t a = mailbox_default" if "\<not> or_actor_live s a"
      using that parts inv mail by (auto simp: inv_mail_def)
  qed
  moreover have "inv_place {} t" using parts by (auto simp: inv_place_def views same members)
  moreover have "inv_slot {} t"
    using parts where_to mail(1) grow by (auto simp: inv_slot_def views split: if_splits)
  moreover have "inv_dispatch t"
    unfolding inv_dispatch_def
  proof (intro allI impI)
    fix x stage signal
    assume x: "or_dispatch t x = Some (stage, signal)"
    show "frame_ok t x stage signal"
    proof (cases "x = o'")
      case True
      then have "stage = StClaimed" "signal = None" "mb_running m = Some o'" using x where_to inv by auto
      then show ?thesis using True inv mail(1) by (simp add: frame_ok_def views same alive_def)
    next
      case False
      then have "or_dispatch s x = Some (stage, signal)" using x where_to by auto
      then have ok: "frame_ok s x stage signal" using parts by (simp add: inv_dispatch_def)
      have "mb_running (or_mailboxes t (actor_of s x)) = Some x"
        if "mb_running (or_mailboxes s (actor_of s x)) = Some x" using that where_to mail(1) by auto
      then show ?thesis using ok by (auto simp: frame_ok_def views same)
    qed
  qed
  moreover have "inv_signal t"
    using parts grow unfolding inv_signal_def views same by blast
  moreover have "inv_callbacks t" using parts inv disp by (auto simp: inv_callbacks_def views same)
  ultimately show ?thesis using parts by (simp add: orch_inv_def parts_cong [OF same(1)] same)
qed

lemma orch_inv_enqueue_operation:
  assumes arriving: "arriving o' s"
  shows "orch_inv {} {} {} (enqueue_operation o' s)"
proof -
  let ?m = "or_mailboxes s (actor_of s o')"
  have ok: "mailbox_ok ?m" using arriving by (simp add: arriving_def orch_inv_def inv_mail_def)
  have a: "op_actor (operation_at s o') = actor_of s o'" by (simp add: actor_of_def)
  have new: "o' \<notin> mailbox_members ?m" using arriving by (simp add: arriving_def)
  have ok': "mailbox_ok (fst (enqueue_and_claim o' ?m))" by (rule enqueue_and_claim_ok [OF ok new])
  show ?thesis
  proof (cases "mb_running ?m")
    case None
    then have "mb_queue ?m = []" using ok by (auto simp: mailbox_ok_def)
    then show ?thesis
      using None ok' a
      by (intro orch_inv_put [OF arriving, where m = "fst (enqueue_and_claim o' ?m)"])
        (simp_all add: enqueue_operation_def enqueue_and_claim_idle [OF ok] drain_from_def observe_def
          mailbox_members_def Let_def)
  next
    case (Some r)
    then show ?thesis
      using ok' a
      by (intro orch_inv_put [OF arriving, where m = "fst (enqueue_and_claim o' ?m)"])
        (simp_all add: enqueue_operation_def enqueue_and_claim_busy [OF Some] observe_def mailbox_members_def Let_def
          insert_commute)
  qed
qed

lemma orch_inv_place_done:
  "orch_inv {o'} S C s \<Longrightarrow> \<not> alive s o' \<or> \<not> or_actor_live s (actor_of s o') \<Longrightarrow> orch_inv {} S C s"
  by (auto simp: orch_inv_def inv_place_def)

lemma orch_inv_commit_enqueue:
  assumes inv: "orch_inv {o'} {} {} s" and o': "known s o'" "ended s o' \<or> phase_at s o' = OpQueued"
    "or_commits s o' = None" "or_dispatch s o' = None" "o' \<notin> mailbox_members (or_mailboxes s (actor_of s o'))"
    and scene: "\<And>scope. or_scenes s (scene_of s o') = Some scope \<Longrightarrow> sc_phase scope \<in> {SceneOpen, SceneClosing, SceneClosed}"
  shows "orch_inv {} {} {} (commit_enqueue o' token s)"
proof (cases "is_terminal (state_at s o')")
  case True
  then have "\<not> alive s o'" by (auto simp: alive_def phase_at_def)
  then show ?thesis using True orch_inv_place_done [OF inv] by (auto simp: commit_enqueue_def operation_enqueue_def)
next
  case alive: False
  show ?thesis
  proof (cases "or_actor_live s (actor_of s o')")
    case True
    have "alive s o'" using alive o'(1) by (cases "phase_at s o'") (auto simp: alive_def phase_at_def)
    then have "arriving o' s" using inv o' True by (auto simp: arriving_def alive_def ended_def)
    then have "orch_inv {} {} {} (enqueue_operation o' s)" by (rule orch_inv_enqueue_operation)
    then show ?thesis
      using alive True by (simp add: commit_enqueue_def operation_enqueue_def actor_of_def)
  next
    case False
    have "admission_dropped (scene_of s o') token s = s"
      using scene by (auto simp: admission_dropped_def rollback_admission_locked_def split: option.splits scene_phase.splits)
    then show ?thesis
      using alive False orch_inv_place_done [OF inv]
      by (auto simp: commit_enqueue_def operation_enqueue_def actor_of_def scene_of_def)
  qed
qed

subsection \<open>Committing\<close>

text \<open>A new operation in a scene that is admitting; with a close waiting, the commit is put on record first.\<close>

lemma orch_inv_new_operation:
  assumes inv: "orch_inv {} {} {} s" and sc: "or_scenes s sc = Some scope"
    and txn: "or_txn s sc = Some (token, prepared)"
    and scope': "scope' = scope \<lparr> sc_phase := phase, sc_counter := count, sc_operations := sc_operations scope @ [or_next_op s] \<rparr>"
    and phase: "phase = SceneOpen \<and> commit = None \<or> phase = SceneClosing \<and> commit = Some (token, sc_operations scope')"
    and t: "t = s \<lparr> or_ops := (or_ops s)(or_next_op s \<mapsto> \<lparr> op_scene = sc, op_actor = a, op_cued = cued,
                        op_state = new_operation_state (or_next_op s) (or_next_op s) \<rparr>),
                    or_next_op := Suc (or_next_op s), or_scenes := (or_scenes s)(sc \<mapsto> scope'),
                    or_txn := (or_txn s)(sc := None), or_commits := (or_commits s)(or_next_op s := commit) \<rparr>"
  shows "orch_inv (if commit = None then {or_next_op s} else {}) {} {} t"
proof -
  let ?n = "or_next_op s"
  note parts = inv [unfolded orch_inv_def]
  have unknown: "\<not> known s ?n" using parts by (simp add: inv_ops_def)
  have ops: "or_ops t = (or_ops s)(?n \<mapsto> \<lparr> op_scene = sc, op_actor = a, op_cued = cued, op_state = new_operation_state ?n ?n \<rparr>)"
    by (simp add: t)
  have old: "x \<noteq> ?n \<Longrightarrow> operation_at t x = operation_at s x" "x \<noteq> ?n \<Longrightarrow> known t x = known s x" for x
    by (simp_all add: operation_at_def known_def ops)
  have same: "state_at t x = state_at s x" "phase_at t x = phase_at s x" "actor_of t x = actor_of s x"
    "scene_of t x = scene_of s x" "known t x = known s x" "alive t x = alive s x" "ended t x = ended s x"
    "started t x = started s x" "cancelling t x = cancelling s x" if "x \<noteq> ?n" for x
    using old [OF that] by (simp_all add: state_at_def phase_at_def actor_of_def scene_of_def alive_def ended_def
        started_def cancelling_def)
  have new: "state_at t ?n = new_operation_state ?n ?n" "phase_at t ?n = OpQueued" "actor_of t ?n = a" "scene_of t ?n = sc"
    "known t ?n" "alive t ?n" "\<not> ended t ?n" "\<not> started t ?n"
    by (simp_all add: orch_views ops new_operation_state_def)
  have rest: "or_mailboxes t = or_mailboxes s" "or_actor_live t = or_actor_live s" "or_closing t = or_closing s"
    "or_dispatch t = or_dispatch s" "or_cancelling t = or_cancelling s" "or_callback t = or_callback s"
    "or_fallback t = or_fallback s" "or_resolved t = or_resolved s" "or_next_op t = Suc ?n"
    "or_scenes t = (or_scenes s)(sc \<mapsto> scope')" "or_txn t = (or_txn s)(sc := None)"
    "or_commits t = (or_commits s)(?n := commit)"
    by (simp_all add: t)
  have member: "x \<in> mailbox_members (or_mailboxes s b) \<Longrightarrow> x \<noteq> ?n" for x b
    using parts unknown by (auto simp: inv_mail_def alive_def)
  have frame: "or_dispatch s x = Some f \<Longrightarrow> x \<noteq> ?n" for x f
    using parts unknown by (cases f) (auto simp: inv_dispatch_def frame_ok_def)
  have scene_ops: "distinct (sc_operations scope)" "set (sc_operations scope) = {x. alive s x \<and> scene_of s x = sc}"
    using parts sc by (auto simp: inv_scenes_def)
  have "sc_phase scope \<in> {SceneAdmitting token, SceneClosePending token}"
    using invD_scene [OF inv sc] txn by (auto simp: txn_ok_def)
  then have no_commit: "or_commits s x = Some c \<Longrightarrow> scene_of s x \<noteq> sc \<and> x \<noteq> ?n" for x c
    using parts sc unknown by (cases c) (fastforce simp: inv_commit_def)
  have "inv_ops t"
    unfolding inv_ops_def
  proof (intro conjI allI impI)
    fix x
    show "known t x \<longleftrightarrow> x < or_next_op t" using parts new same(5) by (cases "x = ?n") (auto simp: inv_ops_def rest less_Suc_eq)
    assume "known t x"
    then show "op_wf (state_at t x)" "os_signal (state_at t x) = Some x" "or_scenes t (scene_of t x) \<noteq> None"
      using parts new same by (cases "x = ?n"; auto simp: inv_ops_def rest new_operation_state_def op_wf_def)+
  qed
  moreover have "inv_scenes t"
    unfolding inv_scenes_def
  proof (intro allI impI)
    fix sc0 scope0
    assume s0: "or_scenes t sc0 = Some scope0"
    have alive: "{x. alive t x \<and> scene_of t x = sc0} =
        {x. alive s x \<and> scene_of s x = sc0} \<union> (if sc0 = sc then {?n} else {})"
    proof (rule set_eqI)
      fix x
      have "\<not> alive s ?n" using unknown by (simp add: alive_def)
      then show "x \<in> {x. alive t x \<and> scene_of t x = sc0} \<longleftrightarrow>
          x \<in> {x. alive s x \<and> scene_of s x = sc0} \<union> (if sc0 = sc then {?n} else {})"
        using new same [of x] by (cases "x = ?n") simp_all
    qed
    show "distinct (sc_operations scope0) \<and> set (sc_operations scope0) = {x. alive t x \<and> scene_of t x = sc0} \<and>
        (sc_phase scope0 = SceneClosed \<longrightarrow> sc_operations scope0 = [])"
    proof (cases "sc0 = sc")
      case True
      then have scope0: "sc_operations scope0 = sc_operations scope @ [?n]" "sc_phase scope0 \<noteq> SceneClosed"
        using s0 phase by (auto simp: rest scope')
      moreover have "?n \<notin> set (sc_operations scope)" using scene_ops(2) unknown by (auto simp: alive_def)
      ultimately show ?thesis using True scene_ops unfolding alive by simp
    next
      case False
      then have "or_scenes s sc0 = Some scope0" using s0 by (simp add: rest)
      then show ?thesis using parts False by (simp add: alive inv_scenes_def)
    qed
  qed
  moreover have "inv_txn t" using parts phase by (auto simp: inv_txn_def rest txn_ok_def scope')
  moreover have "inv_mail t"
    unfolding inv_mail_def rest
  proof (intro allI conjI ballI impI)
    fix b
    show "mailbox_ok (or_mailboxes s b)" using parts by (simp add: inv_mail_def)
    show "\<not> or_actor_live s b \<Longrightarrow> or_mailboxes s b = mailbox_default" using parts by (simp add: inv_mail_def)
    {
      fix x
      assume x: "x \<in> mailbox_members (or_mailboxes s b)"
      have "alive s x \<and> actor_of s x = b \<and> or_commits s x = None" using parts x unfolding inv_mail_def by blast
      then show "alive t x" "actor_of t x = b" "((or_commits s)(?n := commit)) x = None"
        using same [OF member [OF x]] member [OF x] by simp_all
    }
    fix x
    assume x: "x \<in> set (mb_queue (or_mailboxes s b))"
    then have "x \<noteq> ?n" using member [of x b] by (simp add: mailbox_members_def)
    moreover have "phase_at s x = OpQueued \<and> or_dispatch s x = None" using parts x unfolding inv_mail_def by blast
    ultimately show "phase_at t x = OpQueued" "or_dispatch s x = None" using same by simp_all
  qed
  moreover have "inv_place (if commit = None then {?n} else {}) t"
    unfolding inv_place_def rest
  proof (intro allI impI)
    fix x
    assume x: "alive t x" "or_actor_live s (actor_of t x)" "x \<notin> (if commit = None then {?n} else {})"
    then show "x \<in> mailbox_members (or_mailboxes s (actor_of t x)) \<or> ((or_commits s)(?n := commit)) x \<noteq> None"
      using parts same by (cases "x = ?n") (auto simp: inv_place_def split: if_splits)
  qed
  moreover have "inv_slot {} t"
    unfolding inv_slot_def rest
  proof (intro allI impI)
    fix b r
    assume r: "mb_running (or_mailboxes s b) = Some r" "phase_at t r = OpQueued"
    then have "r \<noteq> ?n" using member [of r b] by (simp add: mailbox_members_def)
    then have "phase_at s r = OpQueued" using same(2) r(2) by simp
    then show "or_dispatch s r \<noteq> None" using parts r(1) by (simp add: inv_slot_def)
  qed
  moreover have "inv_dispatch t"
    unfolding inv_dispatch_def
  proof (intro allI impI)
    fix x stage signal
    assume "or_dispatch t x = Some (stage, signal)"
    then have x: "frame_ok s x stage signal" "x \<noteq> ?n"
      using parts frame by (auto simp: rest inv_dispatch_def)
    moreover have "ended s p \<Longrightarrow> ended t p" for p using unknown same by (cases "p = ?n") (auto simp: ended_def [of s])
    ultimately show "frame_ok t x stage signal" using same [OF x(2)] by (auto simp: frame_ok_def rest)
  qed
  moreover have "inv_signal t"
  proof -
    have "ended t p = ended s p" for p using unknown same new by (cases "p = ?n") (auto simp: ended_def [of s])
    then show ?thesis using parts by (simp add: inv_signal_def rest)
  qed
  moreover have "inv_commit t"
    unfolding inv_commit_def
  proof (intro allI impI)
    fix x tk l
    assume c: "or_commits t x = Some (tk, l)"
    show "known t x \<and> (ended t x \<or> phase_at t x = OpQueued) \<and> (\<forall>x \<in> set l. known t x) \<and>
       (\<forall>scope. or_scenes t (scene_of t x) = Some scope \<longrightarrow> sc_phase scope \<in> {SceneClosing, SceneClosed})"
    proof (cases "x = ?n")
      case True
      then have "commit = Some (tk, l)" using c by (simp add: rest)
      then have l: "l = sc_operations scope'" "phase = SceneClosing" using phase by auto
      have "y \<in> set l \<Longrightarrow> known t y" for y
        using scene_ops new same l(1) by (cases "y = ?n") (auto simp: scope' alive_def [of s])
      then show ?thesis using True new l(2) by (auto simp: rest scope')
    next
      case False
      then have cs: "or_commits s x = Some (tk, l)" using c by (simp add: rest)
      have grow: "known s y \<Longrightarrow> known t y" for y using new same(5) [of y] by (cases "y = ?n") auto
      have "known s x" "ended s x \<or> phase_at s x = OpQueued" "\<forall>x \<in> set l. known s x"
        "\<forall>scope. or_scenes s (scene_of s x) = Some scope \<longrightarrow> sc_phase scope \<in> {SceneClosing, SceneClosed}"
        using parts cs by (auto simp: inv_commit_def)
      then show ?thesis using grow no_commit [OF cs] by (simp add: same [OF False] rest)
    qed
  qed
  moreover have "inv_closing {} t"
    unfolding inv_closing_def
  proof (intro conjI allI impI ballI)
    fix sc0 scope0 x
    assume s0: "or_scenes t sc0 = Some scope0" "sc_phase scope0 = SceneClosing" "x \<in> set (sc_operations scope0)"
    have grow: "to_cancel s sc0 \<subseteq> to_cancel t sc0" using no_commit by (auto simp: to_cancel_def rest) blast
    show "cancelling t x \<or> x \<in> to_cancel t sc0"
    proof (cases "sc0 = sc")
      case True
      then have "scope0 = scope'" "commit = Some (token, sc_operations scope')"
        using s0 phase by (auto simp: rest scope')
      then show ?thesis using s0(3) by (auto simp: to_cancel_def rest)
    next
      case False
      then have s1: "or_scenes s sc0 = Some scope0" using s0 by (simp add: rest)
      have "alive s x" using parts s1 s0(3) by (auto simp: inv_scenes_def)
      then have "x \<noteq> ?n" using unknown by (auto simp: alive_def)
      moreover have "cancelling s x \<or> x \<in> to_cancel s sc0"
        using parts s1 s0 by (simp add: inv_closing_def)
      ultimately show ?thesis using grow same by auto
    qed
  next
    fix sc0 l x
    assume "or_closing t sc0 = Some l" "x \<in> set l"
    then have "known s x" using parts by (auto simp: inv_closing_def rest)
    then show "known t x" using new same by (cases "x = ?n") auto
  qed
  moreover have "inv_callbacks t"
  proof -
    have "or_cancelling s x \<or> or_callback s x \<or> or_fallback s x \<Longrightarrow> x \<noteq> ?n" for x
      using parts unknown by (auto simp: inv_callbacks_def)
    then show ?thesis using parts same(2,5) unfolding inv_callbacks_def rest by metis
  qed
  ultimately show ?thesis by (simp add: orch_inv_def)
qed

lemma to_cancelI:
  "or_closing s sc = Some l \<Longrightarrow> x \<in> set l \<Longrightarrow> x \<in> to_cancel s sc"
  "or_commits s c = Some (token, l) \<Longrightarrow> x \<in> set l \<Longrightarrow> x \<in> to_cancel s sc"
  by (auto simp: to_cancel_def)

lemma to_cancelE:
  assumes "x \<in> to_cancel s sc"
  obtains l where "or_closing s sc = Some l" "x \<in> set l"
    | c token l where "or_commits s c = Some (token, l)" "x \<in> set l"
  using assms by (auto simp: to_cancel_def)

text \<open>The lists of operations to cancel may lose those that \<open>C\<close> exempts.\<close>

lemma inv_closing_shrink:
  assumes inv: "inv_closing {} s" and same: "or_ops t = or_ops s" "or_scenes t = or_scenes s"
    and lists: "\<And>x sc. x \<in> to_cancel s sc \<Longrightarrow> x \<in> C \<or> x \<in> to_cancel t sc"
      "\<And>sc l x. or_closing t sc = Some l \<Longrightarrow> x \<in> set l \<Longrightarrow> known s x"
  shows "inv_closing C t"
  unfolding inv_closing_def views_ops [OF same(1)] same(2)
proof (intro conjI allI impI ballI)
  fix sc scope x
  assume "or_scenes s sc = Some scope" "sc_phase scope = SceneClosing" "x \<in> set (sc_operations scope)" and C: "x \<notin> C"
  then have "cancelling s x \<or> x \<in> to_cancel s sc" using inv by (simp add: inv_closing_def)
  then show "cancelling s x \<or> x \<in> to_cancel t sc" using lists(1) C by blast
qed (rule lists(2))

end
