(* ===== verification/Orchestra_Safety.thy ===== *)
theory Orchestra_Safety
  imports Orchestra_Admission
begin

section \<open>What the orchestra promises\<close>

subsection \<open>The remaining steps\<close>

lemma orch_inv_commit_admission:
  assumes inv: "orch_inv {} {} {} s" and txn: "or_txn s sc = Some (token, Some (cue_id, next))"
  shows "orch_inv {} {} {} (commit_admission sc a source token cue_id next s)"
proof -
  let ?n = "or_next_op s"
  let ?op = "\<lparr> op_scene = sc, op_actor = a, op_cued = new_cued_scope source a cue_id, op_state = new_operation_state ?n ?n \<rparr>"
  let ?scope = "\<lambda>scope phase. scope \<lparr> sc_phase := phase, sc_counter := next, sc_operations := sc_operations scope @ [?n] \<rparr>"
  obtain scope where sc: "or_scenes s sc = Some scope"
    using inv txn by (cases "or_scenes s sc") (auto simp: orch_inv_def inv_txn_def)
  note parts = inv [unfolded orch_inv_def]
  have unknown: "\<not> known s ?n" using parts by (simp add: inv_ops_def)
  have fresh: "or_commits s ?n = None" "or_dispatch s ?n = None" "?n \<notin> mailbox_members (or_mailboxes s x)" for x
  proof -
    show "or_commits s ?n = None" using parts unknown by (cases "or_commits s ?n") (auto simp: inv_commit_def)
    show "or_dispatch s ?n = None"
      using invD_frame [OF inv, of ?n] unknown by (cases "or_dispatch s ?n") (auto simp: frame_ok_def)
    show "?n \<notin> mailbox_members (or_mailboxes s x)" using parts unknown unfolding inv_mail_def alive_def by blast
  qed
  have "txn_ok (Some (token, Some (cue_id, next))) scope" using invD_scene [OF inv sc] txn by simp
  then consider "sc_phase scope = SceneAdmitting token" | "sc_phase scope = SceneClosePending token"
    by (auto simp: txn_ok_def)
  then show ?thesis
  proof cases
    case 1
    let ?t = "s \<lparr> or_ops := (or_ops s)(?n \<mapsto> ?op), or_next_op := Suc ?n, or_scenes := (or_scenes s)(sc \<mapsto> ?scope scope SceneOpen),
                  or_txn := (or_txn s)(sc := None) \<rparr>"
    have t: "orch_inv {?n} {} {} ?t"
      using orch_inv_new_operation [OF inv sc txn refl, where phase = SceneOpen and commit = None and a = a
          and cued = "new_cued_scope source a cue_id" and count = "next"] fresh(1) by (simp add: fun_upd_idem)
    let ?u = "observe ?n HookAdmitted ?t"
    have u: "or_ops ?u ?n = Some ?op" "or_scenes ?u sc = Some (?scope scope SceneOpen)" "or_commits ?u = or_commits s"
      "or_dispatch ?u = or_dispatch s" "or_mailboxes ?u = or_mailboxes s"
      by (simp_all add: observe_def)
    have n: "known ?u ?n" "phase_at ?u ?n = OpQueued" "scene_of ?u ?n = sc"
      using u(1) by (simp_all add: known_def phase_at_def state_at_def operation_at_def scene_of_def new_operation_state_def)
    have "orch_inv {?n} {} {} ?u" using t by simp
    then have "orch_inv {} {} {} (commit_enqueue ?n token ?u)"
      using n u fresh by (intro orch_inv_commit_enqueue) auto
    moreover have "commit_admission sc a source token cue_id next s = commit_enqueue ?n token ?u"
      using sc 1 by (simp add: commit_admission_def commit_locked_def Let_def)
    ultimately show ?thesis by simp
  next
    case 2
    let ?l = "sc_operations scope @ [?n]"
    let ?t = "s \<lparr> or_ops := (or_ops s)(?n \<mapsto> ?op), or_next_op := Suc ?n, or_scenes := (or_scenes s)(sc \<mapsto> ?scope scope SceneClosing),
                  or_txn := (or_txn s)(sc := None), or_commits := (or_commits s)(?n := Some (token, ?l)) \<rparr>"
    have t: "orch_inv {} {} {} ?t"
      using orch_inv_new_operation [OF inv sc txn refl, where phase = SceneClosing and commit = "Some (token, ?l)" and a = a
          and cued = "new_cued_scope source a cue_id" and count = "next"] by simp
    have "core (commit_admission sc a source token cue_id next s) = core ?t"
      using sc 2 by (simp add: commit_admission_def commit_locked_def Let_def core_def observe_def observe_scene_def)
    then show ?thesis using t orch_inv_core_cong by blast
  qed
qed

lemma invD_list: "orch_inv P S C s \<Longrightarrow> or_closing s sc = Some l \<Longrightarrow> x \<in> set l \<Longrightarrow> known s x"
  by (auto simp: orch_inv_def inv_closing_def)

text \<open>A list of operations to cancel gets shorter by the one that is cancelled next.\<close>

lemma orch_inv_commit_pop:
  assumes inv: "orch_inv {} {} {} s" and c: "or_commits s o' = Some (token, target # rest)"
  shows "orch_inv {} {} {target} (s \<lparr> or_commits := (or_commits s)(o' \<mapsto> (token, rest)) \<rparr>)" (is "orch_inv _ _ _ ?t")
    and "known s target"
proof -
  have v: "or_ops ?t = or_ops s" by simp
  note views = views_ops [OF v]
  note parts = inv [unfolded orch_inv_def]
  have none: "or_commits ?t x = None \<longleftrightarrow> or_commits s x = None" for x using c by simp
  show "known s target" using parts c by (auto simp: inv_commit_def)
  have "inv_mail ?t" using parts unfolding inv_mail_def views none by simp
  moreover have "inv_place {} ?t" using parts unfolding inv_place_def views none by simp
  moreover have "inv_dispatch ?t" using parts unfolding inv_dispatch_def frame_ok_def views none by simp
  moreover have "inv_commit ?t" using parts c by (auto simp: inv_commit_def views)
  ultimately have some: "inv_mail ?t" "inv_place {} ?t" "inv_dispatch ?t" "inv_commit ?t" by blast+
  have shrink: "x \<in> {target} \<or> x \<in> to_cancel ?t sc" if "x \<in> to_cancel s sc" for x sc
    using that
  proof (cases rule: to_cancelE)
    case (2 b tk l)
    then show ?thesis using c by (cases "b = o'") (auto intro: to_cancelI)
  qed (simp add: to_cancelI(1))
  have "inv_closing {target} ?t"
    by (rule inv_closing_shrink [OF _ _ _ shrink]) (use parts invD_list [OF inv] in simp_all)
  with some show "orch_inv {} {} {target} ?t" using parts by (simp add: orch_inv_def parts_cong [OF v])
qed

lemma orch_inv_commit_take:
  assumes inv: "orch_inv {} {} {} s" and c: "or_commits s o' = Some (token, [])"
  shows "orch_inv {o'} {} {} (s \<lparr> or_commits := (or_commits s)(o' := None) \<rparr>)" (is "orch_inv _ _ _ ?t")
proof -
  have v: "or_ops ?t = or_ops s" by simp
  note views = views_ops [OF v]
  note parts = inv [unfolded orch_inv_def]
  have "inv_mail ?t" using parts by (simp add: inv_mail_def views)
  moreover have "inv_place {o'} ?t" using parts by (auto simp: inv_place_def views)
  moreover have "inv_dispatch ?t" using parts by (auto simp: inv_dispatch_def frame_ok_def views)
  moreover have "inv_commit ?t" using parts by (auto simp: inv_commit_def views)
  ultimately have some: "inv_mail ?t" "inv_place {o'} ?t" "inv_dispatch ?t" "inv_commit ?t" by blast+
  have shrink: "x \<in> {} \<or> x \<in> to_cancel ?t sc" if "x \<in> to_cancel s sc" for x sc
    using that
  proof (cases rule: to_cancelE)
    case (2 b tk l)
    then show ?thesis using c by (cases "b = o'") (auto intro: to_cancelI)
  qed (simp add: to_cancelI(1))
  have "inv_closing {} ?t"
    by (rule inv_closing_shrink [OF _ _ _ shrink]) (use parts invD_list [OF inv] in simp_all)
  with some show ?thesis using parts by (simp add: orch_inv_def parts_cong [OF v])
qed

lemma orch_inv_closing_pop:
  assumes inv: "orch_inv {} {} {} s" and c: "or_closing s sc = Some l"
    and cl: "cl = Some rest \<and> l = target # rest \<or> cl = None \<and> l = []"
  shows "orch_inv {} {} (if cl = None then {} else {target}) (s \<lparr> or_closing := (or_closing s)(sc := cl) \<rparr>)" (is "orch_inv _ _ ?C ?t")
    and "cl \<noteq> None \<Longrightarrow> known s target"
proof -
  have v: "or_ops ?t = or_ops s" by simp
  note views = views_ops [OF v]
  note parts = inv [unfolded orch_inv_def]
  show "cl \<noteq> None \<Longrightarrow> known s target" using parts c cl by (auto simp: inv_closing_def)
  have txn: "inv_txn ?t" using parts c by (auto simp: inv_txn_def)
  have shrink: "x \<in> ?C \<or> x \<in> to_cancel ?t sc0" if "x \<in> to_cancel s sc0" for x sc0
    using that
  proof (cases rule: to_cancelE)
    case (1 l0)
    then show ?thesis using c cl by (cases "sc0 = sc") (auto intro: to_cancelI)
  qed (simp add: to_cancelI(2))
  have lists: "or_closing ?t sc0 = Some l0 \<Longrightarrow> x \<in> set l0 \<Longrightarrow> known s x" for sc0 l0 x
    using parts c cl by (auto simp: inv_closing_def split: if_splits)
  have "inv_closing ?C ?t"
    by (rule inv_closing_shrink [OF _ _ _ shrink lists]) (use parts in simp_all)
  with txn show "orch_inv {} {} ?C ?t" using parts by (simp add: orch_inv_def parts_cong [OF v])
qed

lemma orch_inv_drop_actor:
  assumes inv: "orch_inv {} {} {} s"
    and idle: "\<forall>o' < or_next_op s. or_dispatch s o' \<noteq> None \<longrightarrow> op_actor (operation_at s o') \<noteq> a"
  shows "orch_inv {} {} {} (s \<lparr> or_actor_live := (or_actor_live s)(a := False),
           or_mailboxes := (or_mailboxes s)(a := mailbox_default) \<rparr>)" (is "orch_inv _ _ _ ?t")
proof -
  have v: "or_ops ?t = or_ops s" by simp
  note views = views_ops [OF v]
  note parts = inv [unfolded orch_inv_def]
  have other: "actor_of s x \<noteq> a" if "or_dispatch s x = Some (stage, signal)" for x stage signal
  proof -
    have "known s x" using invD_frame [OF inv that] by (simp add: frame_ok_def)
    then have "x < or_next_op s" using parts by (simp add: inv_ops_def)
    then show ?thesis using idle that by (auto simp: actor_of_def)
  qed
  have "inv_mail ?t" using parts by (simp add: inv_mail_def views)
  moreover have "inv_place {} ?t" using parts by (auto simp: inv_place_def views)
  moreover have "inv_slot {} ?t" using parts by (simp add: inv_slot_def views)
  moreover have "inv_dispatch ?t" using parts other by (auto simp: inv_dispatch_def frame_ok_def views)
  ultimately show ?thesis using parts by (simp add: orch_inv_def parts_cong [OF v])
qed

subsection \<open>Every step\<close>

lemma dispatch_scheduled_fields [simp]:
  "or_ops (dispatch_scheduled o' signal s) = or_ops s" "or_dispatch (dispatch_scheduled o' signal s) o' = None"
  by (simp_all add: dispatch_scheduled_def observe_def)

lemma orch_inv_dispatch_attached:
  assumes inv: "orch_inv {} {} {} s" and frame: "or_dispatch s o' = Some (StAttaching, signal)"
  shows "orch_inv {} {} {} (dispatch_attached o' signal result s)"
proof -
  have ok: "frame_ok s o' StAttaching signal" by (rule invD_frame [OF inv frame])
  then have o': "known s o'" "started s o'" by (auto simp: frame_ok_def)
  have sched: "orch_inv {} {} {} (dispatch_scheduled o' signal s)"
    by (rule orch_inv_dispatch_scheduled [OF inv frame]) simp
  show ?thesis
  proof (cases result)
    case None
    let ?t = "dispatch_scheduled o' signal s"
    have "orch_inv {} {} {} (?t \<lparr> or_callback := (or_callback ?t)(o' := True) \<rparr>)"
      using sched o' by (intro orch_inv_callback) (auto simp: views_ops [of ?t s] started_def)
    moreover have "dispatch_attached o' signal result s = ?t \<lparr> or_callback := (or_callback ?t)(o' := True) \<rparr>"
      using None by (cases s) (simp add: dispatch_attached_def dispatch_scheduled_def observe_def
          resolve_terminal_signal_def split: option.split)
    ultimately show ?thesis by simp
  next
    case (Some e)
    show ?thesis
    proof (cases "phase_at s o'")
      case (OpRunning task)
      let ?st = "(state_at s o') \<lparr> os_phase := OpCancellingRunning task, os_intent := Some (IntentAttachmentFailure e) \<rparr>"
      have alive: "alive s o'" using o' OpRunning by (simp add: alive_def)
      have wf: "op_wf ?st" "os_signal ?st = Some o'"
        using invD_op [OF inv o'(1)] OpRunning by (auto simp: op_wf_def phase_at_def)
      have inv': "orch_inv {} {} {} (set_state o' ?st s)"
        using inv alive o'(2) wf by (intro orch_inv_set_started [where C = "{}"]) auto
      have frame': "or_dispatch (set_state o' ?st s) o' = Some (StAttaching, signal)" using frame by simp
      have "frame_ok (set_state o' ?st s) o' StAttaching signal" by (rule invD_frame [OF inv' frame'])
      then have "frame_ok (set_state o' ?st s) o' StAbandoning signal" by (simp add: frame_ok_def)
      then have "orch_inv {} {} {} (set_stage o' StAbandoning signal (set_state o' ?st s))"
        by (rule orch_inv_set_stage [OF inv' frame'])
      then show ?thesis
        using Some OpRunning by (simp add: dispatch_attached_def begin_attachment_failure_locked_def phase_at_def)
    next
      case (OpCancellingRunning task)
      then show ?thesis
        using Some sched by (simp add: dispatch_attached_def begin_attachment_failure_locked_def phase_at_def)
    qed (use o'(2) in \<open>simp_all add: started_def\<close>)
  qed
qed

lemma orch_inv_dispatch_abandoned:
  assumes inv: "orch_inv {} {} {} s" and frame: "or_dispatch s o' = Some (StAbandoning, signal)"
  shows "orch_inv {} {} {} (dispatch_abandoned o' signal scheduled s)"
proof -
  let ?t = "dispatch_scheduled o' signal s"
  have o': "known s o'" "started s o'" using invD_frame [OF inv frame] by (auto simp: frame_ok_def)
  have "orch_inv {} {} {} ?t" by (rule orch_inv_dispatch_scheduled [OF inv frame]) simp
  then have "orch_inv {} {} {} (?t \<lparr> or_fallback := (or_fallback ?t)(o' := scheduled) \<rparr>)"
    using o' by (intro orch_inv_callback) (auto simp: views_ops [of ?t s] started_def)
  moreover have "dispatch_abandoned o' signal scheduled s = ?t \<lparr> or_fallback := (or_fallback ?t)(o' := scheduled) \<rparr>"
    by (cases s) (simp add: dispatch_abandoned_def dispatch_scheduled_def observe_def
        resolve_terminal_signal_def split: option.split)
  ultimately show ?thesis by simp
qed

lemma orch_inv_dispatch_task:
  assumes inv: "orch_inv {} {} {} s" and frame: "or_dispatch s o' = Some (StTasking, signal)"
    and calm: "or_panic (dispatch_task o' signal result s) = None"
  shows "orch_inv {} {} {} (dispatch_task o' signal result s)"
proof (cases result)
  case (Inl e)
  have known: "known s o'" using invD_frame [OF inv frame] by (simp add: frame_ok_def)
  have "orch_inv {} {} {} (close_cued_inline o' s)"
    using inv orch_inv_core_cong [OF core_close_cued_inline [OF known]] by simp
  moreover have "or_dispatch (close_cued_inline o' s) o' = Some (StTasking, signal)" using frame by simp
  ultimately show ?thesis
    using Inl by (simp add: dispatch_task_def orch_inv_dispatch_failed)
next
  case (Inr task)
  have queued: "phase_at s o' = OpQueued"
    using calm Inr
    by (auto simp: dispatch_task_def start_running_locked_def phase_at_def panic_with_def Let_def split: if_splits)
  have known: "known s o'" using invD_frame [OF inv frame] by (simp add: frame_ok_def)
  have wf: "op_wf (state_at s o')" "os_signal (state_at s o') = Some o'" using invD_op [OF inv known] by auto
  have "orch_inv {} {} {} (set_stage o' StAttaching signal (set_state o' ((state_at s o') \<lparr> os_phase := OpRunning task \<rparr>) s))"
    using inv frame queued wf op_wf_start_running [of "state_at s o'" task]
    by (intro orch_inv_start_running) (auto simp: start_running_locked_def phase_at_def)
  then show ?thesis
    using Inr queued by (simp add: dispatch_task_def start_running_locked_def phase_at_def Let_def)
qed

lemma orch_inv_dispatch_start:
  assumes inv: "orch_inv {} {} {} s" and frame: "or_dispatch s o' = Some (StClaimed, signal)"
  shows "orch_inv {} {} {} (dispatch_start o' signal callback_error s)"
proof -
  have failed: "orch_inv {} {} {} (dispatch_failed o' signal e s)" for e
    by (rule orch_inv_dispatch_failed [OF inv frame]) simp
  have "frame_ok s o' StClaimed signal" by (rule invD_frame [OF inv frame])
  then have "frame_ok s o' StCalling signal" by (simp add: frame_ok_def)
  then have "orch_inv {} {} {} (set_stage o' StCalling signal s)" by (rule orch_inv_set_stage [OF inv frame])
  then show ?thesis
    using inv failed by (simp add: dispatch_start_def split: option.split)
qed

lemma orch_inv_dispatch_called:
  assumes inv: "orch_inv {} {} {} s" and frame: "or_dispatch s o' = Some (StCalling, signal)"
  shows "orch_inv {} {} {} (dispatch_called o' signal result s)"
proof -
  have "orch_inv {} {} {} (dispatch_failed o' signal e s)" for e
    by (rule orch_inv_dispatch_failed [OF inv frame]) simp
  moreover have "frame_ok s o' StCalling signal" by (rule invD_frame [OF inv frame])
  then have "frame_ok s o' StTasking signal" by (simp add: frame_ok_def)
  then have "orch_inv {} {} {} (set_stage o' StTasking signal s)" by (rule orch_inv_set_stage [OF inv frame])
  ultimately show ?thesis by (simp add: dispatch_called_def split: option.split)
qed

lemma orch_inv_cancel_returned:
  assumes inv: "orch_inv {} {} {} s" and o': "or_cancelling s o'"
  shows "orch_inv {} {} {} ((case result of None \<Rightarrow> s | Some e \<Rightarrow> set_state o' (record_cancel_error e (state_at s o')) s)
           \<lparr> or_cancelling := (or_cancelling s)(o' := False) \<rparr>)"
proof -
  have known: "known s o'" "phase_at s o' \<noteq> OpQueued"
    using inv o' by (auto simp: orch_inv_def inv_callbacks_def)
  have wf: "op_wf (state_at s o')" "os_signal (state_at s o') = Some o'" using invD_op [OF inv known(1)] by auto
  have set: "orch_inv {} {} {} (set_state o' (record_cancel_error e (state_at s o')) s)" for e
  proof (cases "\<exists>d. os_intent (state_at s o') = Some (IntentRequested d)")
    case True
    then obtain task where task: "phase_at s o' = OpCancellingRunning task"
      using wf(1) by (auto simp: op_wf_def phase_at_def split: operation_phase.splits)
    then have "alive s o'" "started s o'" using known by (auto simp: alive_def started_def)
    then show ?thesis
      using inv wf task op_wf_record_cancel_error [OF wf(1)]
      by (intro orch_inv_set_started [where C = "{}"]) (auto simp: phase_at_def)
  next
    case False
    then have "record_cancel_error e (state_at s o') = state_at s o'"
      by (auto simp: record_cancel_error_def split: option.splits cancellation_intent.splits)
    moreover have "set_state o' (state_at s o') s = s"
      using known(1) by (cases "or_ops s o'")
        (auto simp: set_state_def state_at_def operation_at_def known_def fun_upd_idem)
    ultimately show ?thesis using inv by simp
  qed
  show ?thesis
  proof (cases result)
    case None
    then show ?thesis using orch_inv_cancelling [OF inv known, of False] by simp
  next
    case (Some e)
    let ?t = "set_state o' (record_cancel_error e (state_at s o')) s"
    have "known ?t o'" "phase_at ?t o' \<noteq> OpQueued" using known by (simp_all add: phase_at_def [of s])
    then show ?thesis using Some orch_inv_cancelling [OF set [of e], of o' False] by simp
  qed
qed

lemma dispatch_eventD:
  "dispatch_event o' stage act s = Some s' \<Longrightarrow> \<exists>signal. or_dispatch s o' = Some (stage, signal) \<and> s' = act signal s"
  by (auto simp: dispatch_event_def split: option.splits if_splits)

subsection \<open>Eliminations\<close>

lemma call_stepE:
  assumes step: "call_step ev s = Some s'"
  obtains
    (Prepare) sc token scope where "ev = PrepareAdmission sc" "or_txn s sc = Some (token, None)" "or_scenes s sc = Some scope"
      "s' = s \<lparr> or_txn := (or_txn s)(sc \<mapsto> (token, Some (prepare_admission scope))) \<rparr>"
  | (Drop) sc token p where "ev = DropAdmission sc" "or_txn s sc = Some (token, p)"
      "s' = admission_dropped sc token (s \<lparr> or_txn := (or_txn s)(sc := None) \<rparr>)"
  | (Commit) sc a source token cue_id n where "ev = CommitAdmission sc a source" "or_txn s sc = Some (token, Some (cue_id, n))"
      "s' = commit_admission sc a source token cue_id n s"
  | (Cancel) c token target rest where "ev = CommitCancel c" "or_commits s c = Some (token, target # rest)"
      "s' = request_cancel target (s \<lparr> or_commits := (or_commits s)(c \<mapsto> (token, rest)) \<rparr>)"
  | (Enqueue) c token where "ev = CommitEnqueue c" "or_commits s c = Some (token, [])"
      "s' = commit_enqueue c token (s \<lparr> or_commits := (or_commits s)(c := None) \<rparr>)"
  | (Start) c e signal where "ev = DispatchStart c e" "or_dispatch s c = Some (StClaimed, signal)" "s' = dispatch_start c signal e s"
  | (Called) c r signal where "ev = CuedReturned c r" "or_dispatch s c = Some (StCalling, signal)" "s' = dispatch_called c signal r s"
  | (Task) c tr signal where "ev = TaskCreated c tr" "or_dispatch s c = Some (StTasking, signal)" "s' = dispatch_task c signal tr s"
  | (Attached) c r signal where "ev = CallbackAttached c r" "or_dispatch s c = Some (StAttaching, signal)" "s' = dispatch_attached c signal r s"
  | (Abandoned) c b signal where "ev = AbandonReturned c b" "or_dispatch s c = Some (StAbandoning, signal)" "s' = dispatch_abandoned c signal b s"
  | (Returned) c r where "ev = CancelReturned c r" "or_cancelling s c"
      "s' = (case r of None \<Rightarrow> s | Some e \<Rightarrow> set_state c (record_cancel_error e (state_at s c)) s) \<lparr> or_cancelling := (or_cancelling s)(c := False) \<rparr>"
  | (Close) sc target rest where "ev = CloseCancelNext sc" "or_closing s sc = Some (target # rest)"
      "s' = request_cancel target (s \<lparr> or_closing := (or_closing s)(sc \<mapsto> rest) \<rparr>)"
  | (Closed) sc where "ev = CloseCancelNext sc" "or_closing s sc = Some []" "s' = s \<lparr> or_closing := (or_closing s)(sc := None) \<rparr>"
proof -
  show ?thesis
  proof (cases ev)
    case (PrepareAdmission sc)
    then show ?thesis using step Prepare by (auto split: option.splits)
  next
    case (DropAdmission sc)
    then show ?thesis using step Drop by (auto split: option.splits)
  next
    case (CommitAdmission sc a source)
    then show ?thesis using step Commit by (auto split: option.splits)
  next
    case (CommitCancel c)
    then show ?thesis using step Cancel by (auto split: option.splits list.splits)
  next
    case (CommitEnqueue c)
    then show ?thesis using step Enqueue by (auto split: option.splits list.splits)
  next
    case (DispatchStart c e)
    then have "dispatch_event c StClaimed (\<lambda>signal. dispatch_start c signal e) s = Some s'"
      using step by simp
    from dispatch_eventD [OF this] show ?thesis using Start [OF DispatchStart] by auto
  next
    case (CuedReturned c r)
    then have "dispatch_event c StCalling (\<lambda>signal. dispatch_called c signal r) s = Some s'"
      using step by simp
    from dispatch_eventD [OF this] show ?thesis using Called [OF CuedReturned] by auto
  next
    case (TaskCreated c r)
    then have "dispatch_event c StTasking (\<lambda>signal. dispatch_task c signal r) s = Some s'"
      using step by simp
    from dispatch_eventD [OF this] show ?thesis using Task [OF TaskCreated] by auto
  next
    case (CallbackAttached c r)
    then have "dispatch_event c StAttaching (\<lambda>signal. dispatch_attached c signal r) s = Some s'"
      using step by simp
    from dispatch_eventD [OF this] show ?thesis using Attached [OF CallbackAttached] by auto
  next
    case (AbandonReturned c b)
    then have "dispatch_event c StAbandoning (\<lambda>signal. dispatch_abandoned c signal b) s = Some s'"
      using step by simp
    from dispatch_eventD [OF this] show ?thesis using Abandoned [OF AbandonReturned] by auto
  next
    case (CancelReturned c r)
    have "or_cancelling s c" using step CancelReturned by (simp split: if_splits)
    moreover from this have "s' = (case r of None \<Rightarrow> s | Some e \<Rightarrow> set_state c (record_cancel_error e (state_at s c)) s)
        \<lparr> or_cancelling := (or_cancelling s)(c := False) \<rparr>"
      using step CancelReturned by simp
    ultimately show ?thesis by (rule Returned [OF CancelReturned])
  next
    case (CloseCancelNext sc)
    then obtain l where l: "or_closing s sc = Some l" using step by (auto split: option.splits)
    show ?thesis
    proof (cases l)
      case Nil
      then show ?thesis using Closed [OF CloseCancelNext] step CloseCancelNext l by simp
    next
      case (Cons target rest)
      then show ?thesis using Close [OF CloseCancelNext] step CloseCancelNext l by simp
    qed
  qed (use step in \<open>simp_all\<close>)
qed

lemma outside_stepE:
  assumes step: "outside_step ev s = Some s'"
  obtains
    (Open) sc name where "ev = OpenScene sc name" "or_scenes s sc = None"
      "s' = s \<lparr> or_scenes := (or_scenes s)(sc \<mapsto> new_scene name) \<rparr>"
  | (Begin) sc scope where "ev = BeginAdmission sc" "or_scenes s sc = Some scope" "s' = begin_event sc scope s"
  | (CloseS) sc scope where "ev = CloseScene sc" "or_scenes s sc = Some scope" "s' = close_scene sc scope s"
  | (Wait) sc scope where "ev = WaitClosed sc" "or_scenes s sc = Some scope" "s' = wait_closed sc scope s"
  | (Request) c where "ev = RequestCancel c" "known s c" "s' = request_cancel c s"
  | (Result) c r where "ev = TaskDone c r" "or_callback s c"
      "s' = finish_with_result c r (s \<lparr> or_callback := (or_callback s)(c := False) \<rparr>)"
  | (Poll) c p where "ev = FallbackCalled c p" "or_fallback s c" "s' = fallback_called c p s"
  | (DropA) a where "ev = DropActor a" "\<forall>o' < or_next_op s. or_dispatch s o' \<noteq> None \<longrightarrow> op_actor (operation_at s o') \<noteq> a"
      "s' = s \<lparr> or_actor_live := (or_actor_live s)(a := False), or_mailboxes := (or_mailboxes s)(a := mailbox_default) \<rparr>"
  | (DropB) "ev = DropBinding" "s' = s \<lparr> or_binding_live := False \<rparr>"
  | (Driver) c where "ev = CuedDriverExit c" "known s c" "s' = close_cued_inline c s"
  | (Turn) c turn where "ev = RegisterTurn c turn" "known s c"
      "s' = (set_cued c (fst (register_agent_turn (or_turn_live s) turn (op_cued (operation_at s c)))) s)
              \<lparr> or_turn_live := (or_turn_live s)(turn := True) \<rparr>"
  | (DropT) turn where "ev = DropTurn turn" "s' = s \<lparr> or_turn_live := (or_turn_live s)(turn := False) \<rparr>"
  | (Effect) c where "ev = NextEffect c" "known s c" "s' = set_cued c (fst (next_effect_id (op_cued (operation_at s c)))) s"
proof -
  show ?thesis
  proof (cases ev)
    case (OpenScene sc name)
    show ?thesis by (rule Open [OF OpenScene]; use step OpenScene in \<open>simp split: if_splits\<close>)
  next
    case (BeginAdmission sc)
    show ?thesis
      by (cases "or_scenes s sc"; use step BeginAdmission Begin in \<open>simp add: on_scene_def\<close>)
  next
    case (CloseScene sc)
    show ?thesis
      by (cases "or_scenes s sc"; use step CloseScene CloseS in \<open>simp add: on_scene_def\<close>)
  next
    case (WaitClosed sc)
    show ?thesis
      by (cases "or_scenes s sc"; use step WaitClosed Wait in \<open>simp add: on_scene_def\<close>)
  next
    case (RequestCancel c)
    show ?thesis by (rule Request [OF RequestCancel]; use step RequestCancel in \<open>simp add: known_def split: if_splits\<close>)
  next
    case (TaskDone c r)
    show ?thesis by (rule Result [OF TaskDone]; use step TaskDone in \<open>simp split: if_splits\<close>)
  next
    case (FallbackCalled c p)
    show ?thesis by (rule Poll [OF FallbackCalled]; use step FallbackCalled in \<open>simp split: if_splits\<close>)
  next
    case (DropActor a)
    show ?thesis by (rule DropA [OF DropActor]; use step DropActor in \<open>simp split: if_splits\<close>)
  next
    case DropBinding
    show ?thesis by (rule DropB [OF DropBinding]; use step DropBinding in \<open>simp\<close>)
  next
    case (CuedDriverExit c)
    show ?thesis by (rule Driver [OF CuedDriverExit]; use step CuedDriverExit in \<open>simp add: known_def split: if_splits\<close>)
  next
    case (RegisterTurn c turn)
    show ?thesis by (rule Turn [OF RegisterTurn]; use step RegisterTurn in \<open>simp add: known_def split: if_splits\<close>)
  next
    case (DropTurn turn)
    show ?thesis by (rule DropT [OF DropTurn]; use step DropTurn in \<open>simp\<close>)
  next
    case (NextEffect c)
    show ?thesis by (rule Effect [OF NextEffect]; use step NextEffect in \<open>simp add: known_def split: if_splits\<close>)
  qed (use step in \<open>simp_all\<close>)
qed

lemma orch_stepE:
  assumes step: "orch_step ev s = Some s'"
  obtains (call) "or_panic s = None" "call_step ev s = Some s'"
    | (outside) "or_panic s = None" "outside_step ev s = Some s'"
  using step by (auto simp: orch_step_def split: if_splits option.splits)

subsection \<open>The invariant along a run\<close>

lemma call_step_inv:
  assumes inv: "orch_inv {} {} {} s" and step: "call_step ev s = Some s'" and calm: "or_panic s' = None"
  shows "orch_inv {} {} {} s'"
  using step
proof (cases rule: call_stepE)
  case (Prepare sc token scope)
  have ok: "txn_ok (Some (token, None)) scope" using invD_scene [OF inv Prepare(3)] Prepare(2) by simp
  then have commits: "sc_phase scope \<notin> {SceneClosing, SceneClosed}" by (auto simp: txn_ok_def)
  have "orch_inv {} {} {} (s \<lparr> or_scenes := (or_scenes s)(sc \<mapsto> scope),
      or_txn := (or_txn s)(sc := Some (token, Some (prepare_admission scope))), or_closing := (or_closing s)(sc := or_closing s sc) \<rparr>)"
    using inv Prepare(3) ok commits by (intro orch_inv_scene_update) (auto simp: txn_ok_def)
  moreover have "(or_scenes s)(sc \<mapsto> scope) = or_scenes s" using Prepare(3) by (simp add: fun_upd_idem)
  ultimately show ?thesis using Prepare(4) by simp
next
  case (Drop sc token p)
  then show ?thesis using orch_inv_admission_dropped [OF inv] by blast
next
  case (Commit sc a source token cue_id n)
  then show ?thesis using orch_inv_commit_admission [OF inv] by blast
next
  case (Cancel c token target rest)
  have "known s target" by (rule orch_inv_commit_pop [OF inv Cancel(2)])
  then show ?thesis
    unfolding Cancel(3) using orch_inv_commit_pop(1) [OF inv Cancel(2)]
    by (intro orch_inv_request_cancel) (auto simp: known_def)
next
  case (Enqueue c token)
  let ?t = "s \<lparr> or_commits := (or_commits s)(c := None) \<rparr>"
  have v: "or_ops ?t = or_ops s" by simp
  note parts = inv [unfolded orch_inv_def]
  have c: "known s c" "ended s c \<or> phase_at s c = OpQueued"
    "\<And>scope. or_scenes s (scene_of s c) = Some scope \<Longrightarrow> sc_phase scope \<in> {SceneClosing, SceneClosed}"
    using parts Enqueue(2) by (auto simp: inv_commit_def)
  have "or_dispatch s c = None"
    using invD_frame [OF inv, of c] Enqueue(2) by (cases "or_dispatch s c") (auto simp: frame_ok_def)
  moreover have "c \<notin> mailbox_members (or_mailboxes s (actor_of s c))"
    using parts Enqueue(2) unfolding inv_mail_def by force
  ultimately show ?thesis
    unfolding Enqueue(3) using orch_inv_commit_take [OF inv Enqueue(2)] c
    by (intro orch_inv_commit_enqueue) (auto simp: views_ops [OF v])
next
  case (Start c e signal)
  then show ?thesis using orch_inv_dispatch_start [OF inv] by blast
next
  case (Called c r signal)
  then show ?thesis using orch_inv_dispatch_called [OF inv] by blast
next
  case (Task c tr signal)
  then show ?thesis using orch_inv_dispatch_task [OF inv] calm by blast
next
  case (Attached c r signal)
  then show ?thesis using orch_inv_dispatch_attached [OF inv] by blast
next
  case (Abandoned c b signal)
  show ?thesis unfolding Abandoned(3) by (rule orch_inv_dispatch_abandoned [OF inv Abandoned(2)])
next
  case (Returned c r)
  show ?thesis unfolding Returned(3) by (rule orch_inv_cancel_returned [OF inv Returned(2)])
next
  case (Close sc target rest)
  let ?t = "s \<lparr> or_closing := (or_closing s)(sc := Some rest) \<rparr>"
  have "orch_inv {} {} {target} ?t" "known s target"
    using orch_inv_closing_pop [OF inv Close(2), of "Some rest" rest target] by auto
  then show ?thesis unfolding Close(3) using orch_inv_request_cancel [of "{target}" ?t target] by (simp add: known_def)
next
  case (Closed sc)
  then show ?thesis using orch_inv_closing_pop(1) [OF inv Closed(2), of None] by auto
qed

lemma outside_step_inv:
  assumes inv: "orch_inv {} {} {} s" and step: "outside_step ev s = Some s'"
  shows "orch_inv {} {} {} s'"
  using step
proof (cases rule: outside_stepE)
  case (Open sc name)
  then show ?thesis using orch_inv_open_scene [OF inv] by simp
next
  case (Begin sc scope)
  then show ?thesis using orch_inv_begin [OF inv] by simp
next
  case (CloseS sc scope)
  then show ?thesis using orch_inv_close_scene [OF inv] by simp
next
  case (Wait sc scope)
  then show ?thesis using orch_inv_wait_closed [OF inv] by simp
next
  case (Request c)
  then show ?thesis using orch_inv_request_cancel [OF inv, of c] by simp
next
  case (Result c r)
  let ?t = "s \<lparr> or_callback := (or_callback s)(c := False) \<rparr>"
  have c: "known s c" "phase_at s c \<noteq> OpQueued" "or_dispatch s c = None"
    using inv Result(2) by (auto simp: orch_inv_def inv_callbacks_def)
  have "orch_inv {} {} {} ?t" by (rule orch_inv_callback(1) [OF inv c])
  then show ?thesis unfolding Result(3) using c by (intro orch_inv_finish_with_result) (auto simp: known_def)
next
  case (Poll c poll)
  let ?t = "s \<lparr> or_fallback := (or_fallback s)(c := False) \<rparr>"
  have c: "known s c" "phase_at s c \<noteq> OpQueued" "or_dispatch s c = None"
    using inv Poll(2) by (auto simp: orch_inv_def inv_callbacks_def)
  have t: "orch_inv {} {} {} ?t" by (rule orch_inv_callback(2) [OF inv c])
  then have "orch_inv {} {} {} (finish_with_result c r ?t)" for r
    using c by (intro orch_inv_finish_with_result) (auto simp: known_def)
  then show ?thesis
    unfolding Poll(3) fallback_called_def Let_def using t inv
    by (cases "fallback_task (state_at s c)"; cases poll) simp_all
next
  case (DropA a)
  then show ?thesis using orch_inv_drop_actor [OF inv, of a] by simp
next
  case (Driver c)
  then show ?thesis using inv orch_inv_core_cong [OF core_close_cued_inline] by metis
next
  case (Turn c turn)
  then show ?thesis using inv orch_inv_core_cong [OF core_set_cued] by simp
next
  case (Effect c)
  then show ?thesis using inv orch_inv_core_cong [OF core_set_cued] by metis
qed (use inv in simp_all)

lemma orch_step_inv:
  assumes "orch_inv {} {} {} s" "orch_step ev s = Some s'" "or_panic s' = None"
  shows "orch_inv {} {} {} s'"
proof (cases "call_step ev s")
  case None
  then have "outside_step ev s = Some s'" using assms(2) by (simp add: orch_step_def split: if_splits)
  then show ?thesis by (rule outside_step_inv [OF assms(1)])
next
  case (Some t)
  then have "call_step ev s = Some s'" using assms(2) by (simp add: orch_step_def split: if_splits)
  then show ?thesis using assms(3) by (rule call_step_inv [OF assms(1)])
qed

lemma orch_step_calm: "orch_step ev s = Some s' \<Longrightarrow> or_panic s = None"
  by (auto simp: orch_step_def split: if_splits)

lemma orch_run_inv:
  assumes "orch_run allowed (orchestra_init actors) s" "or_panic s = None"
  shows "orch_inv {} {} {} s"
  using assms
proof (induction rule: orch_run.induct)
  case orch_run_start
  show ?case by (rule orch_inv_init)
next
  case (orch_run_step s ev s')
  have "or_panic s = None" by (rule orch_step_calm [OF orch_run_step.hyps(3)])
  then have "orch_inv {} {} {} s" by (rule orch_run_step.IH)
  then show ?case using orch_run_step.hyps(3) orch_run_step.prems by (rule orch_step_inv)
qed

end
