(* ===== verification/Orchestra_Promise.thy ===== *)
theory Orchestra_Promise
  imports Orchestra_Safety
begin

section \<open>Outcomes, order and progress\<close>

subsection \<open>Nothing is taken back\<close>

text \<open>Along a run operations stay known, with their actor and scene, an outcome stays what it is, and a
  resolved signal stays resolved.\<close>

definition advances :: "orchestra \<Rightarrow> orchestra \<Rightarrow> bool" where
  "advances s t \<longleftrightarrow>
     (\<forall>x. known s x \<longrightarrow> known t x \<and> actor_of t x = actor_of s x \<and> scene_of t x = scene_of s x) \<and>
     (\<forall>x. ended s x \<longrightarrow> phase_at t x = phase_at s x) \<and>
     (\<forall>x. or_resolved s x \<longrightarrow> or_resolved t x)"

lemma advances_refl [simp]: "advances s s"
  by (simp add: advances_def)

lemma advances_trans: "advances s t \<Longrightarrow> advances t u \<Longrightarrow> advances s u"
  unfolding advances_def ended_def by metis

lemma advances_core: "core t = core t' \<Longrightarrow> advances s t \<longleftrightarrow> advances s t'"
proof -
  assume eq: "core t = core t'"
  have "known t x = known t' x" "actor_of t x = actor_of t' x" "scene_of t x = scene_of t' x"
    "phase_at t x = phase_at t' x" for x
    using arg_cong [OF eq, of "\<lambda>s. known s x"] arg_cong [OF eq, of "\<lambda>s. actor_of s x"]
      arg_cong [OF eq, of "\<lambda>s. scene_of s x"] arg_cong [OF eq, of "\<lambda>s. phase_at s x"] by simp_all
  moreover have "or_resolved t = or_resolved t'" using arg_cong [OF eq, of or_resolved] by simp
  ultimately show ?thesis by (simp add: advances_def)
qed

lemma advances_unseen [simp]:
  "advances s (observe o' h t) = advances s t" "advances s (observe_scene sc h' t) = advances s t"
  "advances s (observe_closed sc t) = advances s t" "advances s (panic_with m t) = advances s t"
  "advances s (t \<lparr> or_turn_live := live \<rparr>) = advances s t"
  "advances s (t \<lparr> or_binding_live := b \<rparr>) = advances s t"
  by (rule advances_core; simp)+

lemma advances_same: "or_ops t = or_ops s \<Longrightarrow> (\<And>x. or_resolved s x \<Longrightarrow> or_resolved t x) \<Longrightarrow> advances s t"
  by (simp add: advances_def views_ops [of t s])

lemma advances_set_state:
  assumes "known s o'" "ended s o' \<Longrightarrow> os_phase st = phase_at s o'"
  shows "advances s (set_state o' st s)"
  using assms by (auto simp: advances_def)

lemma advances_retire: "alive s o' \<Longrightarrow> advances s (retire o' st s)"
  by (auto simp: advances_def retire_views alive_def ended_def) (auto simp: retire_def Let_def split: option.splits)

lemma advances_retired: "core t = core (retire o' st s) \<Longrightarrow> alive s o' \<Longrightarrow> advances s t"
  using advances_core [of t "retire o' st s" s] advances_retire by blast

lemma advances_finish_with_result:
  assumes "orch_inv {} {} {} s" "known s o'" "or_dispatch s o' = None"
  shows "advances s (finish_with_result o' result s)"
  using assms
proof (cases rule: finish_with_result_cases [where result = result])
  case (retired st)
  show ?thesis by (rule advances_retired [OF retired(3,1)])
qed simp

lemma advances_request_cancel:
  assumes inv: "orch_inv {} {} C s" and known: "known s o'" and C: "C \<subseteq> {o'}"
  shows "advances s (request_cancel o' s)"
  using inv known empty_subsetI empty_subsetI C
proof (cases rule: request_cancel_cases)
  case (retired st)
  have "alive s o'" using retired(2) by (simp add: ending_def)
  then show ?thesis by (rule advances_retired [OF retired(3)])
next
  case (marked task)
  let ?st = "(state_at s o') \<lparr> os_phase := OpCancellingRunning task, os_intent := Some (IntentRequested None) \<rparr>"
  let ?t = "observe o' HookCancelRequested (set_state o' ?st s)"
  have "\<not> ended s o'" using marked(1) by (simp add: ended_def)
  then have a: "advances s ?t" using known by (auto intro!: advances_set_state)
  have b: "advances ?t (?t \<lparr> or_cancelling := (or_cancelling s)(o' := True) \<rparr>)" by (rule advances_same) simp_all
  show ?thesis unfolding marked(2) by (rule advances_trans [OF a b])
qed simp

lemma advances_dispatch_failed:
  assumes "orch_inv {} {} {} s" "or_dispatch s o' = Some (stage, signal)" "early stage"
  shows "advances s (dispatch_failed o' signal e s)"
  using assms
proof (cases rule: dispatch_failed_cases [where e = e])
  case (retired st)
  let ?t = "resolve_terminal_signal signal (s \<lparr> or_dispatch := (or_dispatch s)(o' := None) \<rparr>)"
  have a: "advances s ?t" by (rule advances_same) (simp_all add: resolved_after)
  have "alive ?t o'" using retired(2) by (simp add: ending_def)
  with retired(3) have b: "advances ?t (dispatch_failed o' signal e s)" by (rule advances_retired)
  show ?thesis by (rule advances_trans [OF a b])
qed simp

lemma advances_close_cued: "known s o' \<Longrightarrow> advances s (close_cued_inline o' s)"
  using advances_core [OF core_close_cued_inline [of s o'], of s] by simp

lemma advances_set_cued: "known s o' \<Longrightarrow> advances s (set_cued o' cued s)"
  using advances_core [OF core_set_cued [of s o' cued], of s] by simp

lemma advances_dispatch_scheduled: "advances s (dispatch_scheduled o' signal s)"
  by (rule advances_same) (simp_all add: dispatch_scheduled_def resolved_after observe_def)

lemma advances_dispatch_step:
  assumes inv: "orch_inv {} {} {} s" and frame: "or_dispatch s o' = Some (stage, signal)"
  shows "stage = StClaimed \<Longrightarrow> advances s (dispatch_start o' signal ce s)"
    and "stage = StCalling \<Longrightarrow> advances s (dispatch_called o' signal r s)"
    and "stage = StTasking \<Longrightarrow> or_panic (dispatch_task o' signal tr s) = None \<Longrightarrow> advances s (dispatch_task o' signal tr s)"
    and "stage = StAttaching \<Longrightarrow> advances s (dispatch_attached o' signal r s)"
    and "stage = StAbandoning \<Longrightarrow> advances s (dispatch_abandoned o' signal b s)"
proof -
  have known: "known s o'" using invD_frame [OF inv frame] by (simp add: frame_ok_def)
  have failed: "early stage \<Longrightarrow> advances s (dispatch_failed o' signal e s)" for e
    by (rule advances_dispatch_failed [OF inv frame])
  have stage: "advances t (set_stage o' st sg t)" for st sg t by (rule advances_same) (simp_all add: set_stage_def)
  show "stage = StClaimed \<Longrightarrow> advances s (dispatch_start o' signal ce s)"
    using failed stage by (auto simp: dispatch_start_def split: option.split)
  show "stage = StCalling \<Longrightarrow> advances s (dispatch_called o' signal r s)"
    using failed stage by (auto simp: dispatch_called_def split: option.split)
  show "advances s (dispatch_task o' signal tr s)" if "stage = StTasking" "or_panic (dispatch_task o' signal tr s) = None"
  proof (cases tr)
    case (Inl e)
    let ?t = "close_cued_inline o' s"
    have "orch_inv {} {} {} ?t" using inv orch_inv_core_cong [OF core_close_cued_inline [OF known]] by simp
    moreover have "or_dispatch ?t o' = Some (stage, signal)" using frame by simp
    ultimately have "advances ?t (dispatch_failed o' signal e ?t)"
      by (rule advances_dispatch_failed) (simp add: that(1))
    then show ?thesis using Inl advances_trans [OF advances_close_cued [OF known]] by (simp add: dispatch_task_def)
  next
    case (Inr task)
    have "phase_at s o' = OpQueued"
      using that(2) Inr by (auto simp: dispatch_task_def start_running_locked_def phase_at_def panic_with_def Let_def split: if_splits)
    then have "advances s (set_state o' st s)" for st using known by (intro advances_set_state) (auto simp: ended_def)
    then have "advances s (set_stage o' StAttaching signal (set_state o' st s))" for st
      by (rule advances_trans [OF _ stage])
    then show ?thesis
      using Inr \<open>phase_at s o' = OpQueued\<close> by (simp add: dispatch_task_def start_running_locked_def phase_at_def Let_def)
  qed
  show "advances s (dispatch_attached o' signal r s)" if "stage = StAttaching"
  proof (cases r)
    case None
    have "advances s (s \<lparr> or_callback := c \<rparr>)" for c by (rule advances_same) simp_all
    then show ?thesis
      using None by (simp add: dispatch_attached_def advances_trans [OF _ advances_dispatch_scheduled])
  next
    case (Some e)
    have "\<not> ended s o'" using invD_frame [OF inv frame] that by (auto simp: frame_ok_def started_def ended_def)
    then have "advances s (set_state o' st s)" for st using known by (auto intro!: advances_set_state)
    then have "advances s (set_stage o' StAbandoning signal (set_state o' st s))" for st
      by (rule advances_trans [OF _ stage])
    then show ?thesis
      using Some advances_dispatch_scheduled by (simp add: dispatch_attached_def split: prod.split bool.split)
  qed
  have "advances s (s \<lparr> or_fallback := f \<rparr>)" for f by (rule advances_same) simp_all
  then show "advances s (dispatch_abandoned o' signal b s)"
    by (simp add: dispatch_abandoned_def advances_trans [OF _ advances_dispatch_scheduled])
qed

lemma advances_enqueue: "advances s (commit_enqueue o' token s)"
proof -
  have "advances s (enqueue_operation o' s)"
    by (rule advances_same)
      (simp_all add: enqueue_operation_def drain_from_def observe_def Let_def split: prod.split option.split)
  moreover have "advances s (admission_dropped sc tk s)" for sc tk
    by (rule advances_same)
      (simp_all add: admission_dropped_def observe_scene_def Let_def split: prod.split option.split)
  ultimately show ?thesis by (simp add: commit_enqueue_def operation_enqueue_def)
qed

lemma advances_commit_admission:
  assumes inv: "orch_inv {} {} {} s"
  shows "advances s (commit_admission sc a source token cue_id count s)"
proof (cases "or_scenes s sc")
  case None
  then show ?thesis by (simp add: commit_admission_def Let_def)
next
  case (Some scope)
  let ?n = "or_next_op s"
  have unknown: "\<not> known s ?n" using inv by (simp add: orch_inv_def inv_ops_def)
  have new: "advances s t" if t: "or_ops t = (or_ops s)(?n \<mapsto> op)" "or_resolved t = or_resolved s" for t op
  proof -
    have same: "x \<noteq> ?n \<Longrightarrow> known t x = known s x \<and> operation_at t x = operation_at s x" for x
      by (simp add: known_def operation_at_def t)
    have old: "known s x \<Longrightarrow> x \<noteq> ?n" for x using unknown by auto
    then have "known s x \<Longrightarrow> known t x \<and> operation_at t x = operation_at s x" for x using same by blast
    then show ?thesis by (simp add: advances_def t(2) actor_of_def scene_of_def phase_at_def state_at_def ended_def)
  qed
  have enqueue: "advances s (commit_enqueue n tk t)" if "advances s t" for n tk t
    using that advances_enqueue by (rule advances_trans)
  show ?thesis
  proof (cases "commit_locked token count ?n scope")
    case None
    then show ?thesis using Some by (simp add: commit_admission_def Let_def)
  next
    case commit: (Some result)
    obtain scope' ops where r: "result = (scope', ops)" by fastforce
    show ?thesis
      using Some commit r
      by (cases ops) (auto simp: commit_admission_def Let_def observe_scene_def observe_def intro!: new enqueue)
  qed
qed

lemma advances_fallback_called:
  assumes inv: "orch_inv {} {} {} s" and c: "or_fallback s c"
  shows "advances s (fallback_called c poll s)"
proof -
  let ?t = "s \<lparr> or_fallback := (or_fallback s)(c := False) \<rparr>"
  have k: "known s c" "phase_at s c \<noteq> OpQueued" "or_dispatch s c = None"
    using inv c by (auto simp: orch_inv_def inv_callbacks_def)
  have a: "advances s ?t" by (rule advances_same) simp_all
  have "orch_inv {} {} {} ?t" by (rule orch_inv_callback(2) [OF inv k])
  moreover have "known ?t c" using k(1) by (simp add: known_def)
  ultimately have "advances ?t (finish_with_result c r ?t)" for r
    by (rule advances_finish_with_result) (simp add: k(3))
  then have b: "advances s (finish_with_result c r ?t)" for r by (rule advances_trans [OF a])
  show ?thesis
    unfolding fallback_called_def Let_def using a b by (cases "fallback_task (state_at s c)"; cases poll) simp_all
qed

lemma advances_call_step:
  assumes inv: "orch_inv {} {} {} s" and step: "call_step ev s = Some s'" and calm: "or_panic s' = None"
  shows "advances s s'"
  using step
proof (cases rule: call_stepE)
  case (Prepare sc token scope)
  show ?thesis unfolding Prepare(4) by (rule advances_same) simp_all
next
  case (Drop sc token p)
  show ?thesis unfolding Drop(3)
    by (rule advances_same) (simp_all add: admission_dropped_def observe_scene_def Let_def split: prod.split option.split)
next
  case (Commit sc a source token cue_id n)
  show ?thesis unfolding Commit(3) by (rule advances_commit_admission [OF inv])
next
  case (Cancel c token target rest)
  have "known s target" by (rule orch_inv_commit_pop [OF inv Cancel(2)])
  then have k: "known (s \<lparr> or_commits := (or_commits s)(c \<mapsto> (token, rest)) \<rparr>) target" by (simp add: known_def)
  have a: "advances s (s \<lparr> or_commits := (or_commits s)(c \<mapsto> (token, rest)) \<rparr>)" by (rule advances_same) simp_all
  show ?thesis unfolding Cancel(3)
    by (rule advances_trans [OF a advances_request_cancel [OF orch_inv_commit_pop(1) [OF inv Cancel(2)] k subset_refl]])
next
  case (Enqueue c token)
  have a: "advances s (s \<lparr> or_commits := (or_commits s)(c := None) \<rparr>)" by (rule advances_same) simp_all
  show ?thesis unfolding Enqueue(3) by (rule advances_trans [OF a advances_enqueue])
next
  case (Returned c r)
  have c: "known s c" using inv Returned(2) by (auto simp: orch_inv_def inv_callbacks_def)
  have "advances s (set_state c (record_cancel_error e (state_at s c)) s)" for e
    by (rule advances_set_state [OF c]) (simp add: phase_at_def record_cancel_error_def split: option.split cancellation_intent.split)
  then have a: "advances s (case r of None \<Rightarrow> s | Some e \<Rightarrow> set_state c (record_cancel_error e (state_at s c)) s)" (is "advances s ?t")
    by (simp split: option.split)
  have b: "advances ?t (?t \<lparr> or_cancelling := (or_cancelling s)(c := False) \<rparr>)" by (rule advances_same) simp_all
  show ?thesis unfolding Returned(3) by (rule advances_trans [OF a b])
next
  case (Close sc target rest)
  let ?t = "s \<lparr> or_closing := (or_closing s)(sc := Some rest) \<rparr>"
  have pop: "orch_inv {} {} {target} ?t" "known s target"
    using orch_inv_closing_pop [OF inv Close(2), of "Some rest" rest target] by auto
  have k: "known ?t target" using pop(2) by (simp add: known_def)
  have a: "advances s ?t" by (rule advances_same) simp_all
  show ?thesis unfolding Close(3) by (rule advances_trans [OF a advances_request_cancel [OF pop(1) k subset_refl]])
next
  case (Closed sc)
  show ?thesis unfolding Closed(3) by (rule advances_same) simp_all
qed (use calm advances_dispatch_step [OF inv] in simp_all)

lemma advances_outside_step:
  assumes inv: "orch_inv {} {} {} s" and step: "outside_step ev s = Some s'"
  shows "advances s s'"
  using step
proof (cases rule: outside_stepE)
  case (Open sc name)
  show ?thesis unfolding Open(3) by (rule advances_same) simp_all
next
  case (Begin sc scope)
  show ?thesis unfolding Begin(3) by (rule advances_same) (simp_all add: begin_event_def split: prod.split option.split)
next
  case (CloseS sc scope)
  show ?thesis unfolding CloseS(3)
    by (rule advances_same)
      (simp_all add: close_scene_def observe_closed_def observe_scene_def Let_def split: prod.split option.split close_action.split)
next
  case (Wait sc scope)
  show ?thesis unfolding Wait(3)
    by (rule advances_same) (simp_all add: wait_closed_def observe_closed_def observe_scene_def Let_def split: prod.split)
next
  case (Request c)
  show ?thesis unfolding Request(3) by (rule advances_request_cancel [OF inv Request(2) empty_subsetI])
next
  case (Result c r)
  let ?t = "s \<lparr> or_callback := (or_callback s)(c := False) \<rparr>"
  have c: "known s c" "phase_at s c \<noteq> OpQueued" "or_dispatch s c = None"
    using inv Result(2) by (auto simp: orch_inv_def inv_callbacks_def)
  have "known ?t c" using c(1) by (simp add: known_def)
  with orch_inv_callback(1) [OF inv c] have b: "advances ?t (finish_with_result c r ?t)"
    by (rule advances_finish_with_result) (simp add: c(3))
  have a: "advances s ?t" by (rule advances_same) simp_all
  show ?thesis unfolding Result(3) by (rule advances_trans [OF a b])
next
  case (Poll c p)
  show ?thesis unfolding Poll(3) by (rule advances_fallback_called [OF inv Poll(2)])
next
  case (DropA a)
  show ?thesis unfolding DropA(3) by (rule advances_same) simp_all
next
  case (Driver c)
  show ?thesis unfolding Driver(3) by (rule advances_close_cued [OF Driver(2)])
qed (simp_all add: advances_set_cued)

lemma orch_step_advances:
  assumes "orch_inv {} {} {} s" "orch_step ev s = Some s'" "or_panic s' = None"
  shows "advances s s'"
  using assms(2)
proof (cases rule: orch_stepE)
  case call
  then show ?thesis using advances_call_step [OF assms(1)] assms(3) by blast
next
  case outside
  then show ?thesis using advances_outside_step [OF assms(1)] by blast
qed

lemma orch_run_advances:
  assumes start: "orch_run allowed (orchestra_init actors) s" and run: "orch_run allowed' s t" and "or_panic t = None"
  shows "advances s t \<and> orch_inv {} {} {} t"
  using run assms(3)
proof (induction rule: orch_run.induct)
  case orch_run_start
  then show ?case using orch_run_inv [OF start] by simp
next
  case (orch_run_step t ev t')
  have "or_panic t = None" by (rule orch_step_calm [OF orch_run_step.hyps(3)])
  then have a: "advances s t" and inv: "orch_inv {} {} {} t" using orch_run_step.IH by auto
  have b: "advances t t'" by (rule orch_step_advances [OF inv orch_run_step.hyps(3) orch_run_step.prems])
  have "orch_inv {} {} {} t'" by (rule orch_step_inv [OF inv orch_run_step.hyps(3) orch_run_step.prems])
  then show ?case using advances_trans [OF a b] by blast
qed

end
