(* ===== verification/Orchestra_Order.thy ===== *)
theory Orchestra_Order
  imports Orchestra_Promise
begin

section \<open>The order of service\<close>

text \<open>
  The cues of an actor are served one at a time and in the order in which they were enqueued. The log of the
  diagnostic hooks tells the order of arrival; the contract of the mailbox (\<open>serial_order\<close>) tells that the
  content of a mailbox keeps it.
\<close>

fun is_enqueued :: "cue_hook \<Rightarrow> bool" where
  "is_enqueued (HookEnqueued _ _) = True"
| "is_enqueued _ = False"

definition enqueue_log :: "orchestra \<Rightarrow> nat list" where
  "enqueue_log s = map fst (filter (\<lambda>entry. is_enqueued (snd entry)) (or_log s))"

definition keeps_order :: "orchestra \<Rightarrow> orchestra \<Rightarrow> bool" where
  "keeps_order s t \<longleftrightarrow>
     enqueue_log t = enqueue_log s \<and>
     (\<forall>a. subseq (mailbox_list (or_mailboxes t a)) (mailbox_list (or_mailboxes s a))) \<and>
     (\<forall>x. or_commits s x = None \<longrightarrow> or_commits t x = None)"

definition inv_order :: "orchestra \<Rightarrow> bool" where
  "inv_order s \<longleftrightarrow>
     distinct (enqueue_log s) \<and> (\<forall>x \<in> set (enqueue_log s). known s x \<and> or_commits s x = None) \<and>
     (\<forall>a. subseq (mailbox_list (or_mailboxes s a)) (enqueue_log s))"

lemma keeps_order_refl [simp]: "keeps_order s s"
  by (simp add: keeps_order_def)

lemma keeps_order_trans: "keeps_order s t \<Longrightarrow> keeps_order t u \<Longrightarrow> keeps_order s u"
  unfolding keeps_order_def by (metis subseq_order.order_trans)

lemma keeps_order_same:
  "or_log t = or_log s \<Longrightarrow> or_mailboxes t = or_mailboxes s \<Longrightarrow> or_commits t = or_commits s \<Longrightarrow> keeps_order s t"
  by (simp add: keeps_order_def enqueue_log_def)

lemma keeps_order_observe: "\<not> is_enqueued h \<Longrightarrow> keeps_order s (observe x h s)"
  by (simp add: keeps_order_def enqueue_log_def observe_def)

lemma keeps_order_inv: "keeps_order s t \<Longrightarrow> advances s t \<Longrightarrow> inv_order s \<Longrightarrow> inv_order t"
  unfolding keeps_order_def advances_def inv_order_def by (metis subseq_order.order_trans)

subsection \<open>What keeps the order\<close>

lemma keeps_order_simple [simp]:
  "keeps_order s (set_state x st s)" "keeps_order s (resolve_terminal_signal sig s)"
  "keeps_order s (close_cued_inline x s)" "keeps_order s (panic_with m s)" "keeps_order s (set_stage x stage sig s)"
  "keeps_order s (set_cued x c s)" "keeps_order s (observe_scene sc h s)" "keeps_order s (observe_closed sc s)"
  "keeps_order s (begin_event sc scope s)" "keeps_order s (wait_closed sc scope s)" "keeps_order s (close_scene sc scope s)"
  "keeps_order s (admission_dropped sc token s)" "keeps_order s (scene_operation_finished x s)"
  by (rule keeps_order_same;
      simp add: set_state_def resolve_terminal_signal_def close_cued_inline_def panic_with_def set_stage_def set_cued_def
        observe_scene_def observe_closed_def begin_event_def wait_closed_def close_scene_def admission_dropped_def
        scene_operation_finished_def Let_def split: option.split prod.split close_action.split)+

lemma keeps_order_fields [simp]:
  "keeps_order s (s \<lparr> or_dispatch := d \<rparr>)" "keeps_order s (s \<lparr> or_callback := b \<rparr>)" "keeps_order s (s \<lparr> or_fallback := b \<rparr>)"
  "keeps_order s (s \<lparr> or_cancelling := b \<rparr>)" "keeps_order s (s \<lparr> or_closing := cl \<rparr>)" "keeps_order s (s \<lparr> or_txn := tx \<rparr>)"
  "keeps_order s (s \<lparr> or_scenes := scs \<rparr>)" "keeps_order s (s \<lparr> or_binding_live := bl \<rparr>)" "keeps_order s (s \<lparr> or_turn_live := live \<rparr>)"
  "keeps_order s (s \<lparr> or_commits := (or_commits s)(x := None) \<rparr>)"
  "or_commits s x \<noteq> None \<Longrightarrow> keeps_order s (s \<lparr> or_commits := (or_commits s)(x := c) \<rparr>)"
  by (auto simp: keeps_order_def enqueue_log_def)

lemma keeps_order_unlink: "keeps_order s (fst (unlink_terminal_operation x s))"
  by (simp add: keeps_order_def enqueue_log_def unlink_terminal_operation_def observe_def Let_def case_prod_beta
      mail.contents_leave)

lemma keeps_order_complete: "keeps_order s (fst (complete_terminal_action x action w s))"
proof -
  let ?s1 = "if ta_close_cued action then close_cued_inline x s else s"
  let ?s2 = "if w then fst (unlink_terminal_operation x ?s1) else ?s1"
  have eq: "fst (complete_terminal_action x action w s) = scene_operation_finished x ?s2"
    by (simp add: complete_terminal_action_def Let_def case_prod_beta)
  have a: "keeps_order s ?s1" by simp
  have b: "keeps_order ?s1 ?s2" using keeps_order_unlink by simp
  have c: "keeps_order ?s2 (scene_operation_finished x ?s2)" by simp
  show ?thesis unfolding eq by (rule keeps_order_trans [OF keeps_order_trans [OF a b] c])
qed

lemma keeps_order_finish: "keeps_order s (finish_terminal_action x action s)"
proof -
  obtain t n where t: "complete_terminal_action x action True s = (t, n)" by fastforce
  have a: "keeps_order s t" using keeps_order_complete [of s x action True] t by simp
  have b: "keeps_order t (finish_terminal_action x action s)"
    using t by (simp add: finish_terminal_action_def split: option.split)
  show ?thesis by (rule keeps_order_trans [OF a b])
qed

lemma keeps_order_perform: "keeps_order s (perform_terminal_action x action s)"
proof -
  let ?s1 = "observe x (HookTerminal (ta_diagnostic_outcome action) (terminal_error (state_at s x) \<noteq> None)
    (or_actor_live s (op_actor (operation_at s x)))) s"
  let ?s2 = "fst (complete_terminal_action x action False ?s1)"
  have a: "keeps_order s ?s1" by (rule keeps_order_observe) simp
  have b: "keeps_order ?s1 (finish_terminal_action x action ?s1)" by (rule keeps_order_finish)
  have c: "keeps_order ?s1 ?s2" by (rule keeps_order_complete)
  have d: "keeps_order ?s2 (resolve_terminal_signal (ta_signal action) ?s2)" by simp
  show ?thesis
    using keeps_order_trans [OF a b] keeps_order_trans [OF keeps_order_trans [OF a c] d]
    by (cases "or_actor_live s (op_actor (operation_at s x))") (simp_all add: perform_terminal_action_def Let_def case_prod_beta)
qed

lemma keeps_order_finish_with_result: "keeps_order s (finish_with_result x result s)"
proof -
  have "keeps_order s (perform_terminal_action x action (set_state x st s))" for action st
    by (rule keeps_order_trans [OF _ keeps_order_perform]) simp
  then show ?thesis by (simp add: finish_with_result_def split: rust.split option.split)
qed

lemma keeps_order_request_cancel: "keeps_order s (request_cancel x s)"
proof -
  have a: "keeps_order s (observe x HookCancelRequested (set_state x st s))" for st
    by (rule keeps_order_trans [OF _ keeps_order_observe]) simp_all
  have b: "keeps_order s (perform_terminal_action x action (observe x HookCancelRequested (set_state x st s)))" for action st
    by (rule keeps_order_trans [OF a keeps_order_perform])
  have c: "keeps_order s ((observe x HookCancelRequested (set_state x st s)) \<lparr> or_cancelling := cs \<rparr>)" for st cs
    by (rule keeps_order_trans [OF a [of st]]) simp
  show ?thesis using b c by (simp add: request_cancel_def split: prod.split option.split request_action.split)
qed

lemma keeps_order_dispatch_failed: "keeps_order s (dispatch_failed x signal e s)"
proof -
  have a: "keeps_order s (set_state x st (s \<lparr> or_dispatch := d \<rparr>))" for st d
    by (rule keeps_order_trans [of s "s \<lparr> or_dispatch := d \<rparr>"]) simp_all
  have b: "keeps_order s (resolve_terminal_signal signal (set_state x st (s \<lparr> or_dispatch := d \<rparr>)))" for st d
    by (rule keeps_order_trans [OF a [of st d]]) simp
  have c: "keeps_order s (finish_terminal_action x action (resolve_terminal_signal signal (set_state x st (s \<lparr> or_dispatch := d \<rparr>))))"
    for action st d by (rule keeps_order_trans [OF b keeps_order_finish])
  show ?thesis using c by (simp add: dispatch_failed_def split: rust.split option.split)
qed

lemma keeps_order_dispatch_scheduled: "keeps_order s (dispatch_scheduled x signal s)"
  by (auto simp: keeps_order_def enqueue_log_def dispatch_scheduled_def observe_def resolve_terminal_signal_def
      split: option.split)

lemma keeps_order_dispatch:
  "keeps_order s (dispatch_start x signal ce s)" "keeps_order s (dispatch_called x signal r s)"
  "keeps_order s (dispatch_task x signal tr s)" "keeps_order s (dispatch_attached x signal r s)"
  "keeps_order s (dispatch_abandoned x signal b s)"
proof -
  have failed: "keeps_order s (dispatch_failed x signal e (close_cued_inline x s))" for e
    by (rule keeps_order_trans [OF _ keeps_order_dispatch_failed]) simp
  have stage: "keeps_order s (set_stage x stage signal (set_state x st s))" for stage st
    by (rule keeps_order_trans [of s "set_state x st s"]) simp_all
  have panic: "keeps_order s (panic_with m (set_state x st s))" for m st
    by (rule keeps_order_trans [of s "set_state x st s"]) simp_all
  have cb: "keeps_order s (dispatch_scheduled x signal (s \<lparr> or_callback := f \<rparr>))"
    "keeps_order s (dispatch_scheduled x signal (s \<lparr> or_fallback := f \<rparr>))" for f
    by (rule keeps_order_trans [OF _ keeps_order_dispatch_scheduled]; simp)+
  show "keeps_order s (dispatch_start x signal ce s)"
    by (simp add: dispatch_start_def keeps_order_dispatch_failed split: option.split)
  show "keeps_order s (dispatch_called x signal r s)"
    by (simp add: dispatch_called_def keeps_order_dispatch_failed split: option.split)
  show "keeps_order s (dispatch_task x signal tr s)"
    by (simp add: dispatch_task_def failed stage panic Let_def split: sum.split prod.split)
  show "keeps_order s (dispatch_attached x signal r s)"
    by (simp add: dispatch_attached_def cb stage keeps_order_dispatch_scheduled split: option.split prod.split bool.split)
  show "keeps_order s (dispatch_abandoned x signal b s)" by (simp add: dispatch_abandoned_def cb)
qed

subsection \<open>Arrivals\<close>

lemma inv_order_enqueue:
  assumes ord: "inv_order s" and c: "known s c" "or_commits s c = None" "c \<notin> set (enqueue_log s)"
  shows "inv_order (enqueue_operation c s)"
proof -
  let ?a = "op_actor (operation_at s c)" and ?t = "enqueue_operation c s"
  have log: "enqueue_log ?t = enqueue_log s @ [c]"
    by (simp add: enqueue_operation_def enqueue_log_def drain_from_def observe_def Let_def split: prod.split option.split)
  have mail: "or_mailboxes ?t = (or_mailboxes s)(?a := fst (enqueue_and_claim c (or_mailboxes s ?a)))"
    by (simp add: enqueue_operation_def drain_from_def observe_def Let_def split: prod.split option.split)
  have v: "or_ops ?t = or_ops s" and commits: "or_commits ?t = or_commits s"
    by (simp_all add: enqueue_operation_def drain_from_def observe_def Let_def split: prod.split option.split)
  have "subseq (mailbox_list (or_mailboxes ?t b)) (enqueue_log s @ [c])" for b
    using ord by (simp add: mail inv_order_def mail.arrive_in_order mail.arrive_elsewhere)
  then show ?thesis using ord c by (auto simp: inv_order_def log commits views_ops [OF v])
qed

lemma inv_order_commit_enqueue:
  assumes ord: "inv_order s" and c: "known s c" "or_commits s c = None" "c \<notin> set (enqueue_log s)"
  shows "inv_order (commit_enqueue c token s)"
proof -
  have "advances s (admission_dropped sc tk s)" for sc tk
    by (rule advances_same)
      (simp_all add: admission_dropped_def observe_scene_def Let_def split: prod.split option.split)
  then have "inv_order (admission_dropped sc tk s)" for sc tk by (rule keeps_order_inv [OF _ _ ord, rotated]) simp
  then show ?thesis using ord inv_order_enqueue [OF assms] by (simp add: commit_enqueue_def operation_enqueue_def)
qed

lemma inv_order_commit_admission:
  assumes inv: "orch_inv {} {} {} s" and ord: "inv_order s"
  shows "inv_order (commit_admission sc a source token cue_id count s)"
proof (cases "or_scenes s sc")
  case None
  then show ?thesis using ord by (simp add: commit_admission_def Let_def)
next
  case (Some scope)
  let ?n = "or_next_op s"
  let ?op = "\<lparr> op_scene = sc, op_actor = a, op_cued = new_cued_scope source a cue_id, op_state = new_operation_state ?n ?n \<rparr>"
  have unknown: "\<not> known s ?n" using inv by (simp add: orch_inv_def inv_ops_def)
  then have fresh: "?n \<notin> set (enqueue_log s)" "or_commits s ?n = None"
    using ord inv by (force simp: inv_order_def, cases "or_commits s ?n") (auto simp: orch_inv_def inv_commit_def)
  show ?thesis
  proof (cases "commit_locked token count ?n scope")
    case None
    then have "commit_admission sc a source token cue_id count s =
        panic_with ''admission token must remain unique until commit'' s"
      using Some by (simp add: commit_admission_def Let_def)
    then show ?thesis using keeps_order_inv [OF _ _ ord] by simp
  next
    case commit: (Some result)
    obtain scope' ops where r: "result = (scope', ops)" by fastforce
    let ?t = "observe ?n HookAdmitted (s \<lparr> or_ops := (or_ops s)(?n \<mapsto> ?op), or_next_op := Suc ?n,
                or_scenes := (or_scenes s)(sc \<mapsto> scope'), or_txn := (or_txn s)(sc := None) \<rparr>)"
    have t: "enqueue_log ?t = enqueue_log s" "or_mailboxes ?t = or_mailboxes s" "or_commits ?t = or_commits s"
      "known ?t x \<longleftrightarrow> known s x \<or> x = ?n" for x
      by (auto simp: enqueue_log_def observe_def known_def)
    have ord': "inv_order ?t" using ord by (auto simp: inv_order_def t simp del: observe_fields)
    show ?thesis
    proof (cases ops)
      case None
      have "inv_order (commit_enqueue ?n token ?t)"
        by (rule inv_order_commit_enqueue [OF ord']) (use fresh t in \<open>simp_all del: observe_fields\<close>)
      then show ?thesis using Some commit r None by (simp add: commit_admission_def Let_def)
    next
      case l: (Some l)
      let ?u = "(observe_scene sc CancellationStarted ?t) \<lparr> or_commits := (or_commits ?t)(?n \<mapsto> (token, l)) \<rparr>"
      have "enqueue_log ?u = enqueue_log s" "or_mailboxes ?u = or_mailboxes s"
        "or_commits ?u = (or_commits s)(?n \<mapsto> (token, l))" "known ?u x \<longleftrightarrow> known s x \<or> x = ?n" for x
        by (auto simp: enqueue_log_def observe_def observe_scene_def known_def)
      then have "inv_order ?u" using ord fresh(1) by (auto simp: inv_order_def)
      then show ?thesis using Some commit r l by (simp add: commit_admission_def Let_def)
    qed
  qed
qed

subsection \<open>Every step\<close>

lemma orch_step_order:
  assumes inv: "orch_inv {} {} {} s" and ord: "inv_order s" and step: "orch_step ev s = Some s'" and calm: "or_panic s' = None"
  shows "inv_order s'"
proof -
  have adv: "advances s s'" by (rule orch_step_advances [OF inv step calm])
  have keep: "inv_order s'" if "keeps_order s s'" by (rule keeps_order_inv [OF that adv ord])
  have two: "inv_order s'" if "keeps_order s t" "keeps_order t s'" for t by (rule keep [OF keeps_order_trans [OF that]])
  from step show ?thesis
  proof (cases rule: orch_stepE)
    case call
    from call(2) show ?thesis
    proof (cases rule: call_stepE)
      case (Commit sc a source token cue_id n)
      then show ?thesis using inv_order_commit_admission [OF inv ord] by simp
    next
      case (Enqueue c token)
      let ?t = "s \<lparr> or_commits := (or_commits s)(c := None) \<rparr>"
      have c: "c \<notin> set (enqueue_log s)" "known s c"
        using ord inv Enqueue(2) by (auto simp: inv_order_def orch_inv_def inv_commit_def)
      have "advances s ?t" by (rule advances_same) simp_all
      then have "inv_order ?t" by (rule keeps_order_inv [OF keeps_order_fields(10) _ ord])
      then show ?thesis unfolding Enqueue(3)
        by (rule inv_order_commit_enqueue) (use c in \<open>simp_all add: known_def enqueue_log_def\<close>)
    next
      case (Drop sc token p)
      show ?thesis by (rule two [of "s \<lparr> or_txn := (or_txn s)(sc := None) \<rparr>"]) (simp_all add: Drop(3))
    next
      case (Cancel c token target rest)
      show ?thesis by (rule two [of "s \<lparr> or_commits := (or_commits s)(c \<mapsto> (token, rest)) \<rparr>"])
          (simp_all add: Cancel keeps_order_request_cancel)
    next
      case (Close sc target rest)
      show ?thesis by (rule two [of "s \<lparr> or_closing := (or_closing s)(sc \<mapsto> rest) \<rparr>"])
          (simp_all add: Close(3) keeps_order_request_cancel)
    next
      case (Returned c r)
      show ?thesis by (rule two [of "case r of None \<Rightarrow> s | Some e \<Rightarrow> set_state c (record_cancel_error e (state_at s c)) s"])
          (simp_all add: Returned(3) split: option.split)
    qed (use keep keeps_order_dispatch in simp_all)
  next
    case outside
    from outside(2) show ?thesis
    proof (cases rule: outside_stepE)
      case (Request c)
      show ?thesis using keep keeps_order_request_cancel Request(3) by simp
    next
      case (Result c r)
      show ?thesis by (rule two [of "s \<lparr> or_callback := (or_callback s)(c := False) \<rparr>"])
          (simp_all add: Result(3) keeps_order_finish_with_result)
    next
      case (Poll c p)
      have a: "keeps_order s (s \<lparr> or_fallback := f \<rparr>)" for f by simp
      have b: "keeps_order s (finish_with_result c r (s \<lparr> or_fallback := f \<rparr>))" for r f
        by (rule keeps_order_trans [OF a [of f] keeps_order_finish_with_result])
      show ?thesis
        by (rule keep) (simp add: Poll(3) fallback_called_def b Let_def split: option.split fallback_poll.split)
    next
      case (DropA a)
      show ?thesis by (rule keep) (auto simp: DropA(3) keeps_order_def enqueue_log_def mail.contents_vacant)
    next
      case (Turn c turn)
      show ?thesis
        by (rule two [of "set_cued c (fst (register_agent_turn (or_turn_live s) turn (op_cued (operation_at s c)))) s"])
          (simp_all add: Turn(3))
    qed (use keep in simp_all)
  qed
qed

lemma orch_run_order:
  assumes "orch_run allowed (orchestra_init actors) s" "or_panic s = None"
  shows "inv_order s"
  using assms
proof (induction rule: orch_run.induct)
  case orch_run_start
  show ?case by (simp add: inv_order_def enqueue_log_def orchestra_init_def mail.contents_vacant)
next
  case (orch_run_step s ev s')
  have calm: "or_panic s = None" by (rule orch_step_calm [OF orch_run_step.hyps(3)])
  have inv: "orch_inv {} {} {} s" by (rule orch_run_inv [OF orch_run_step.hyps(1) calm])
  show ?case
    by (rule orch_step_order [OF inv orch_run_step.IH [OF calm] orch_run_step.hyps(3) orch_run_step.prems])
qed

subsection \<open>One at a time, in the order of arrival\<close>

text \<open>The cues of an actor that were enqueued and have not ended are the content of its mailbox.\<close>

lemma waiting_in_mailbox:
  assumes inv: "orch_inv {} {} {} s" and ord: "inv_order s" and live: "or_actor_live s a"
  shows "[x \<leftarrow> enqueue_log s. alive s x \<and> actor_of s x = a] = mailbox_list (or_mailboxes s a)"
proof (rule mail.contents_are_the_rest)
  show "subseq (mailbox_list (or_mailboxes s a)) (enqueue_log s)" "distinct (enqueue_log s)"
    using ord by (auto simp: inv_order_def)
  fix x assume "x \<in> set (enqueue_log s)"
  then have "or_commits s x = None" using ord by (simp add: inv_order_def)
  then show "x \<in> set (mailbox_list (or_mailboxes s a)) \<longleftrightarrow> alive s x \<and> actor_of s x = a"
    using inv live unfolding set_mailbox_list orch_inv_def inv_mail_def inv_place_def by blast
qed

lemma started_in_slot:
  assumes inv: "orch_inv {} {} {} s" and x: "known s x" "started s x" "or_actor_live s (actor_of s x)"
  shows "mb_running (or_mailboxes s (actor_of s x)) = Some x"
proof -
  note parts = inv [unfolded orch_inv_def]
  have alive: "alive s x" and phase: "phase_at s x \<noteq> OpQueued" using x by (auto simp: alive_def started_def)
  have "\<not> ended s x" using alive by (simp add: alive_def ended_def)
  then have "or_commits s x = None" using parts phase by (cases "or_commits s x") (auto simp: inv_commit_def)
  then have "x \<in> mailbox_members (or_mailboxes s (actor_of s x))"
    using parts alive x(3) unfolding inv_place_def by blast
  moreover have "x \<notin> set (mb_queue (or_mailboxes s (actor_of s x)))" using parts phase unfolding inv_mail_def by blast
  ultimately show ?thesis by (auto simp: mailbox_members_def)
qed





text \<open>C19. The result of the task decides the outcome of its cue, in every state in which the callback of the task may
  be called: a tuple of effects is a success, unless the cue was cancelled in the meantime; an error of the task is
  a failure, and a cancellation asked for makes it a cancellation, or a failed cleanup with the error that comes first.
  A cue that already has an outcome keeps it.\<close>

theorem task_result_decides:
  assumes "orch_run allowed (orchestra_init actors) s" "or_panic s = None" "orch_step (TaskDone x r) s = Some s'"
  shows "phase_at s' x = (if ended s x then phase_at s x
                          else OpTerminal (intended_outcome (os_intent (state_at s x)) r))"
proof -
  let ?t = "s \<lparr> or_callback := (or_callback s)(x := False) \<rparr>"
  have v: "or_ops ?t = or_ops s" by simp
  have inv: "orch_inv {} {} {} s" by (rule orch_run_inv [OF assms(1,2)])
  have step: "or_callback s x" "s' = finish_with_result x r ?t"
    using assms(3) by (auto simp: orch_step_def split: if_splits)
  then have x: "known s x" "phase_at s x \<noteq> OpQueued" "or_dispatch s x = None"
    using inv by (auto simp: orch_inv_def inv_callbacks_def)
  have t: "orch_inv {} {} {} ?t" by (rule orch_inv_callback(1) [OF inv x])
  have x': "known ?t x" "or_dispatch ?t x = None" using x by (simp_all add: known_def)
  from t x' show ?thesis
  proof (cases rule: finish_with_result_cases [where result = r])
    case same
    then show ?thesis by (simp add: step(2) views_ops [OF v])
  next
    case (retired st)
    have "phase_at s' x = phase_at (retire x st ?t) x"
      using arg_cong [OF retired(3), of "\<lambda>s. phase_at s x"] by (simp add: step(2))
    then show ?thesis using retired(1,5) by (simp add: retire_views views_ops [OF v] alive_def ended_def)
  qed
qed

theorem task_result_decides_witness:
  "phase_at (the (orch_step (TaskDone 0 (Inr (PyTuple [PyEffect 3]))) (after any_event two_cues everybody))) 0 =
     OpTerminal (OutSuccess [PyEffect 3])"
proof -
  have run: "orch_run any_event (orchestra_init (\<lambda>_. True)) (after any_event two_cues everybody)"
    unfolding everybody_def by (rule after_run) (simp add: orch_demo)
  have calm: "or_panic (after any_event two_cues everybody) = None" by (simp add: orch_demo)
  have step: "orch_step (TaskDone 0 (Inr (PyTuple [PyEffect 3]))) (after any_event two_cues everybody) =
      Some (the (orch_step (TaskDone 0 (Inr (PyTuple [PyEffect 3]))) (after any_event two_cues everybody)))"
    by (simp add: orch_demo)
  have "\<not> ended (after any_event two_cues everybody) 0" "os_intent (state_at (after any_event two_cues everybody) 0) = None"
    by (simp_all add: orch_demo ended_def)
  then show ?thesis
    using task_result_decides [OF run calm step] by (simp add: intended_outcome_def validate_cued_result_def)
qed

end
