(* ===== verification/Orchestra_Progress.thy ===== *)
theory Orchestra_Progress
  imports Orchestra_Order
begin

section \<open>Panics and progress\<close>

text \<open>
  Two conditions on what surrounds the orchestra, and what it promises under them. When no operation is cancelled
  while the early part of its own dispatch is in progress, nothing panics. When the event loop does what it is
  asked to do, no cue is left behind.
\<close>

subsection \<open>The conditions\<close>

definition dispatching :: "orchestra \<Rightarrow> nat \<Rightarrow> bool" where
  "dispatching s x \<longleftrightarrow> (case or_dispatch s x of Some (stage, _) \<Rightarrow> early stage | None \<Rightarrow> False)"

fun cancel_target :: "orch_event \<Rightarrow> orchestra \<Rightarrow> nat option" where
  "cancel_target (RequestCancel x) s = Some x"
| "cancel_target (CommitCancel c) s = (case or_commits s c of Some (_, target # _) \<Rightarrow> Some target | _ \<Rightarrow> None)"
| "cancel_target (CloseCancelNext sc) s = (case or_closing s sc of Some (target # _) \<Rightarrow> Some target | _ \<Rightarrow> None)"
| "cancel_target _ s = None"

definition cancels_apart :: "orch_event \<Rightarrow> orchestra \<Rightarrow> bool" where
  "cancels_apart ev s \<longleftrightarrow> (case cancel_target ev s of None \<Rightarrow> True | Some x \<Rightarrow> \<not> dispatching s x)"

text \<open>A callback that cannot be attached although nobody asked to cancel; a fallback callback that is scheduled
  and, as long as the task is not done, scheduled again.\<close>

fun loop_faithful :: "orch_event \<Rightarrow> orchestra \<Rightarrow> bool" where
  "loop_faithful (CallbackAttached x (Some _)) s = (case phase_at s x of OpRunning _ \<Rightarrow> True | _ \<Rightarrow> False)"
| "loop_faithful (AbandonReturned x scheduled) s = scheduled"
| "loop_faithful (FallbackCalled x (PollPending rescheduled)) s = (rescheduled \<and> or_binding_live s)"
| "loop_faithful (FallbackCalled x PollError) s = False"
| "loop_faithful _ s = True"

text \<open>Something will still happen for the operation.\<close>

definition pending :: "orchestra \<Rightarrow> nat \<Rightarrow> bool" where
  "pending s x \<longleftrightarrow> or_dispatch s x \<noteq> None \<or> or_commits s x \<noteq> None \<or> or_callback s x \<or> or_fallback s x"

subsection \<open>No dispatch of an operation that has ended\<close>

definition poised :: "orchestra \<Rightarrow> bool" where
  "poised s \<longleftrightarrow> (\<forall>x. dispatching s x \<longrightarrow> alive s x)"

lemma poised_core: "core s = core t \<Longrightarrow> poised s = poised t"
proof -
  assume eq: "core s = core t"
  have "alive s x = alive t x" for x using arg_cong [OF eq, of "\<lambda>s. alive s x"] by simp
  moreover have "or_dispatch s = or_dispatch t" using arg_cong [OF eq, of or_dispatch] by simp
  ultimately show ?thesis by (simp add: poised_def dispatching_def)
qed

lemma poised_unseen [simp]:
  "poised (observe x h s) = poised s" "poised (observe_scene sc sh s) = poised s" "poised (observe_closed sc s) = poised s"
  "poised (panic_with m s) = poised s" "poised (s \<lparr> or_turn_live := live \<rparr>) = poised s"
  "poised (s \<lparr> or_binding_live := bl \<rparr>) = poised s"
  by (rule poised_core; simp)+

lemma poised_same: "or_dispatch t = or_dispatch s \<Longrightarrow> or_ops t = or_ops s \<Longrightarrow> poised s \<Longrightarrow> poised t"
  by (simp add: poised_def dispatching_def views_ops [of t s])

lemma poised_retire:
  assumes e: "ending o' st P S C s" and s: "\<And>x. x \<noteq> o' \<Longrightarrow> dispatching s x \<Longrightarrow> alive s x" and o': "\<not> dispatching s o'"
  shows "poised (retire o' st s)"
proof -
  have "alive (retire o' st s) x" if d: "dispatching (retire o' st s) x" for x
  proof (cases "next_of o' s = Some x")
    case True
    then show ?thesis using ending_next(1,2) [OF e True] by (simp add: retire_alive [OF e])
  next
    case False
    then have d': "dispatching s x" using d by (simp add: dispatching_def retire_dispatch)
    then have "x \<noteq> o'" using o' by blast
    then show ?thesis using s d' by (simp add: retire_alive [OF e])
  qed
  then show ?thesis by (simp add: poised_def)
qed

lemma poised_request_cancel:
  assumes inv: "orch_inv {} {} C s" and o': "known s o'" "C \<subseteq> {o'}" and s: "poised s" "\<not> dispatching s o'"
  shows "poised (request_cancel o' s)"
  using inv o'(1) empty_subsetI empty_subsetI o'(2)
proof (cases rule: request_cancel_cases)
  case same
  then show ?thesis using s(1) by simp
next
  case (retired st)
  have "poised (retire o' st s)" by (rule poised_retire [OF retired(2)]) (use s in \<open>auto simp: poised_def\<close>)
  then show ?thesis using poised_core [OF retired(3)] by simp
next
  case (marked task)
  let ?st = "(state_at s o') \<lparr> os_phase := OpCancellingRunning task, os_intent := Some (IntentRequested None) \<rparr>"
  have "poised (set_state o' ?st s)"
    using s set_state_alive(1) [of s o' ?st] o'(1) marked(1)
    by (simp add: poised_def dispatching_def alive_def [of s o'])
  then have t: "poised (observe o' HookCancelRequested (set_state o' ?st s))" by simp
  show ?thesis unfolding marked(2) by (rule poised_same [OF _ _ t]) simp_all
qed

lemma poised_finish_with_result:
  assumes "orch_inv {} {} {} s" "known s o'" "or_dispatch s o' = None" "poised s"
  shows "poised (finish_with_result o' result s) \<and> or_panic (finish_with_result o' result s) = or_panic s"
  using assms(1-3)
proof (cases rule: finish_with_result_cases [where result = result])
  case (retired st)
  have "poised (retire o' st s)"
    by (rule poised_retire [OF retired(2)]) (use assms(3,4) in \<open>auto simp: poised_def dispatching_def\<close>)
  then show ?thesis using poised_core [OF retired(3)] retired(4) by simp
qed (use assms(4) in simp)

lemma poised_dispatch_failed:
  assumes "orch_inv {} {} {} s" "or_dispatch s o' = Some (stage, signal)" "early stage" "poised s"
  shows "poised (dispatch_failed o' signal e s) \<and> or_panic (dispatch_failed o' signal e s) = or_panic s"
proof -
  have alive: "alive s o'" using assms(2-4) by (simp add: poised_def dispatching_def)
  show ?thesis
    using assms(1-3)
  proof (cases rule: dispatch_failed_cases [where e = e])
    case (panicked m)
    then show ?thesis using alive by (simp add: alive_def ended_def)
  next
    case (retired st)
    let ?t = "resolve_terminal_signal signal (s \<lparr> or_dispatch := (or_dispatch s)(o' := None) \<rparr>)"
    have v: "or_ops ?t = or_ops s" by simp
    have "poised (retire o' st ?t)"
      by (rule poised_retire [OF retired(2)])
        (use assms(4) in \<open>auto simp: poised_def dispatching_def views_ops [OF v]\<close>)
    then show ?thesis using poised_core [OF retired(3)] retired(4) by simp
  qed
qed

lemma poised_dispatch_scheduled: "poised s \<Longrightarrow> poised (dispatch_scheduled o' signal s)"
proof -
  assume s: "poised s"
  let ?t = "dispatch_scheduled o' signal s"
  have v: "or_ops ?t = or_ops s" by simp
  have "or_dispatch ?t = (or_dispatch s)(o' := None)" by (simp add: dispatch_scheduled_def observe_def)
  then show ?thesis using s by (simp add: poised_def dispatching_def views_ops [OF v])
qed

lemma poised_set_stage: "poised s \<Longrightarrow> (early stage \<Longrightarrow> alive s o') \<Longrightarrow> poised (set_stage o' stage signal s)"
proof -
  assume s: "poised s" "early stage \<Longrightarrow> alive s o'"
  let ?t = "set_stage o' stage signal s"
  have v: "or_ops ?t = or_ops s" by (simp add: set_stage_def)
  have "or_dispatch ?t = (or_dispatch s)(o' \<mapsto> (stage, signal))" by (simp add: set_stage_def)
  then show ?thesis using s by (simp add: poised_def dispatching_def views_ops [OF v])
qed

lemma poised_enqueue:
  assumes "poised s" "mailbox_ok (or_mailboxes s (actor_of s o'))" "alive s o'"
  shows "poised (enqueue_operation o' s)"
proof -
  let ?m = "or_mailboxes s (actor_of s o')" and ?t = "enqueue_operation o' s"
  have v: "or_ops ?t = or_ops s"
    by (simp add: enqueue_operation_def drain_from_def observe_def Let_def split: prod.split option.split)
  have "or_dispatch ?t = (if mb_running ?m = None then (or_dispatch s)(o' \<mapsto> (StClaimed, None)) else or_dispatch s)"
  proof (cases "mb_running ?m")
    case None
    then show ?thesis
      using enqueue_and_claim_idle [OF assms(2) None, of o']
      by (simp add: enqueue_operation_def drain_from_def observe_def Let_def actor_of_def)
  next
    case (Some r)
    then show ?thesis
      using enqueue_and_claim_busy [OF Some, of o']
      by (simp add: enqueue_operation_def drain_from_def observe_def Let_def actor_of_def)
  qed
  then show ?thesis using assms(1,3) by (simp add: poised_def dispatching_def views_ops [OF v])
qed

lemma poised_commit_enqueue:
  assumes "poised s" "\<And>a. mailbox_ok (or_mailboxes s a)" "known s o'"
  shows "poised (commit_enqueue o' token s) \<and> or_panic (commit_enqueue o' token s) = or_panic s"
proof -
  have "poised (admission_dropped sc tk s)" for sc tk
    by (rule poised_same [OF _ _ assms(1)])
      (simp_all add: admission_dropped_def observe_scene_def Let_def split: prod.split option.split)
  moreover have "\<not> is_terminal (state_at s o') \<Longrightarrow> poised (enqueue_operation o' s)"
    by (rule poised_enqueue [OF assms(1,2)]) (use assms(3) in \<open>cases "phase_at s o'", auto simp: alive_def phase_at_def\<close>)
  moreover have "or_panic (admission_dropped sc tk s) = or_panic s" for sc tk
    by (simp add: admission_dropped_def Let_def split: prod.split option.split)
  moreover have "or_panic (enqueue_operation o' s) = or_panic s"
    by (simp add: enqueue_operation_def drain_from_def Let_def split: prod.split option.split)
  ultimately show ?thesis using assms(1) by (simp add: commit_enqueue_def operation_enqueue_def)
qed

lemma poised_dispatch:
  assumes inv: "orch_inv {} {} {} s" and frame: "or_dispatch s o' = Some (stage, signal)" and s: "poised s" "or_panic s = None"
  shows "stage = StClaimed \<Longrightarrow> poised (dispatch_start o' signal ce s) \<and> or_panic (dispatch_start o' signal ce s) = None"
    and "stage = StCalling \<Longrightarrow> poised (dispatch_called o' signal r s) \<and> or_panic (dispatch_called o' signal r s) = None"
    and "stage = StTasking \<Longrightarrow> poised (dispatch_task o' signal tr s) \<and> or_panic (dispatch_task o' signal tr s) = None"
    and "stage = StAttaching \<Longrightarrow> poised (dispatch_attached o' signal r s) \<and> or_panic (dispatch_attached o' signal r s) = None"
    and "stage = StAbandoning \<Longrightarrow> poised (dispatch_abandoned o' signal b s) \<and> or_panic (dispatch_abandoned o' signal b s) = None"
proof -
  have ok: "frame_ok s o' stage signal" by (rule invD_frame [OF inv frame])
  then have known: "known s o'" by (simp add: frame_ok_def)
  have alive: "early stage \<Longrightarrow> alive s o'" using s(1) frame by (simp add: poised_def dispatching_def)
  then have queued: "early stage \<Longrightarrow> phase_at s o' = OpQueued" using ok by (auto simp: frame_ok_def alive_def ended_def)
  have failed: "early stage \<Longrightarrow> poised (dispatch_failed o' signal e s) \<and> or_panic (dispatch_failed o' signal e s) = None" for e
    using poised_dispatch_failed [OF inv frame _ s(1)] s(2) by simp
  have stage: "alive s o' \<Longrightarrow> poised (set_stage o' st signal s)" for st
    using poised_set_stage [OF s(1)] by simp
  have panic: "or_panic (set_stage o' st sg t) = or_panic t" "or_panic (dispatch_scheduled o' sg t) = or_panic t" for st sg t
    by (simp_all add: set_stage_def dispatch_scheduled_def)
  have cue: "early stage \<Longrightarrow> os_cue (state_at s o') \<noteq> None"
    using invD_op [OF inv known] queued by (simp add: op_wf_def phase_at_def)
  show "poised (dispatch_start o' signal ce s) \<and> or_panic (dispatch_start o' signal ce s) = None" if "stage = StClaimed"
    using that failed stage alive queued cue s(2) by (auto simp: dispatch_start_def panic split: option.split)
  show "poised (dispatch_called o' signal r s) \<and> or_panic (dispatch_called o' signal r s) = None" if "stage = StCalling"
    using that failed stage alive s(2) by (auto simp: dispatch_called_def panic split: option.split)
  show "poised (dispatch_task o' signal tr s) \<and> or_panic (dispatch_task o' signal tr s) = None" if "stage = StTasking"
  proof (cases tr)
    case (Inl e)
    let ?t = "close_cued_inline o' s"
    have t: "orch_inv {} {} {} ?t" "poised ?t"
      using inv s(1) core_close_cued_inline [OF known] orch_inv_core_cong poised_core by metis+
    have "or_dispatch ?t o' = Some (stage, signal)" using frame by simp
    from poised_dispatch_failed [OF t(1) this _ t(2)] show ?thesis using Inl that s(2) by (simp add: dispatch_task_def)
  next
    case (Inr task)
    let ?st = "(state_at s o') \<lparr> os_phase := OpRunning task \<rparr>"
    have q: "phase_at s o' = OpQueued" using queued that by simp
    then have eq: "dispatch_task o' signal tr s = set_stage o' StAttaching signal (set_state o' ?st s)"
      using Inr by (simp add: dispatch_task_def start_running_locked_def phase_at_def Let_def)
    have "poised (set_state o' ?st s)"
      using s set_state_alive(1) [of s o' ?st] alive that by (simp add: poised_def dispatching_def)
    then have "poised (set_stage o' StAttaching signal (set_state o' ?st s))" by (rule poised_set_stage) simp
    then show ?thesis unfolding eq using s(2) by (simp add: panic)
  qed
  show "poised (dispatch_attached o' signal r s) \<and> or_panic (dispatch_attached o' signal r s) = None" if "stage = StAttaching"
  proof (cases r)
    case None
    have "poised (s \<lparr> or_callback := c \<rparr>)" for c by (rule poised_same [OF _ _ s(1)]) simp_all
    then show ?thesis using None s(2) by (simp add: dispatch_attached_def panic poised_dispatch_scheduled)
  next
    case (Some e)
    let ?st = "fst (begin_attachment_failure_locked e (state_at s o'))"
    have o': "started s o'" "alive s o'" using ok that known by (auto simp: frame_ok_def started_def alive_def)
    then have "\<not> is_terminal ?st" by (auto simp: started_def phase_at_def begin_attachment_failure_locked_def)
    then have "alive (set_state o' ?st s) x = alive s x" for x using o'(2) by (rule set_state_alive(1) [rotated])
    then have "poised (set_state o' ?st s)" using s(1) by (simp add: poised_def dispatching_def)
    then have "poised (set_stage o' StAbandoning signal (set_state o' ?st s))" by (rule poised_set_stage) simp
    then show ?thesis
      using Some s by (cases "begin_attachment_failure_locked e (state_at s o')")
        (auto simp: dispatch_attached_def panic poised_dispatch_scheduled split: bool.split)
  qed
  have "poised (s \<lparr> or_fallback := c \<rparr>)" for c by (rule poised_same [OF _ _ s(1)]) simp_all
  then show "poised (dispatch_abandoned o' signal b s) \<and> or_panic (dispatch_abandoned o' signal b s) = None" if "stage = StAbandoning"
    using s(2) by (simp add: dispatch_abandoned_def panic poised_dispatch_scheduled)
qed

lemma poised_commit_admission:
  assumes inv: "orch_inv {} {} {} s" and s: "poised s" "or_panic s = None"
    and txn: "or_txn s sc = Some (token, Some (cue_id, count))"
  shows "poised (commit_admission sc a source token cue_id count s) \<and>
         or_panic (commit_admission sc a source token cue_id count s) = None"
proof -
  let ?n = "or_next_op s"
  let ?op = "\<lparr> op_scene = sc, op_actor = a, op_cued = new_cued_scope source a cue_id, op_state = new_operation_state ?n ?n \<rparr>"
  obtain scope where sc: "or_scenes s sc = Some scope"
    using inv txn by (cases "or_scenes s sc") (auto simp: orch_inv_def inv_txn_def)
  have unknown: "\<not> known s ?n" using inv by (simp add: orch_inv_def inv_ops_def)
  have "txn_ok (Some (token, Some (cue_id, count))) scope" using invD_scene [OF inv sc] txn by simp
  then obtain scope' ops where commit: "commit_locked token count ?n scope = Some (scope', ops)"
    by (auto simp: txn_ok_def commit_locked_def)
  let ?t = "observe ?n HookAdmitted (s \<lparr> or_ops := (or_ops s)(?n \<mapsto> ?op), or_next_op := Suc ?n,
              or_scenes := (or_scenes s)(sc \<mapsto> scope'), or_txn := (or_txn s)(sc := None) \<rparr>)"
  have t: "or_dispatch ?t = or_dispatch s" "or_mailboxes ?t = or_mailboxes s" "or_panic ?t = None" "known ?t ?n"
    "x \<noteq> ?n \<Longrightarrow> alive ?t x = alive s x" for x
    using s(2) by (auto simp: observe_def known_def alive_def phase_at_def state_at_def operation_at_def)
  have "alive s x \<Longrightarrow> x \<noteq> ?n" for x using unknown by (auto simp: alive_def)
  then have poised: "poised ?t" using s(1) t(1,5) by (simp add: poised_def dispatching_def del: observe_fields)
  have mail: "mailbox_ok (or_mailboxes ?t b)" for b using inv t(2) by (simp add: orch_inv_def inv_mail_def)
  show ?thesis
  proof (cases ops)
    case None
    then have eq: "commit_admission sc a source token cue_id count s = commit_enqueue ?n token ?t"
      using sc commit by (simp add: commit_admission_def Let_def)
    show ?thesis unfolding eq using poised_commit_enqueue [OF poised mail t(4), of token] t(3) by simp
  next
    case (Some l)
    let ?u = "observe_scene sc CancellationStarted ?t"
    have eq: "commit_admission sc a source token cue_id count s = ?u \<lparr> or_commits := (or_commits ?t)(?n \<mapsto> (token, l)) \<rparr>"
      using Some sc commit by (simp add: commit_admission_def Let_def)
    have u: "poised ?u" using poised by (simp only: poised_unseen)
    have "poised (?u \<lparr> or_commits := (or_commits ?t)(?n \<mapsto> (token, l)) \<rparr>)" by (rule poised_same [OF _ _ u]) simp_all
    then show ?thesis unfolding eq using s(2) by simp
  qed
qed

lemma poised_call_step:
  assumes inv: "orch_inv {} {} {} s" and s: "poised s" "or_panic s = None" and apart: "cancels_apart ev s"
    and step: "call_step ev s = Some s'"
  shows "poised s' \<and> or_panic s' = None"
proof -
  have same: "poised t" if "or_dispatch t = or_dispatch s" "or_ops t = or_ops s" for t by (rule poised_same [OF that s(1)])
  have panic: "or_panic (request_cancel x t) = or_panic t" for x t
    by (simp add: request_cancel_def split: prod.split option.split request_action.split)
  from step show ?thesis
  proof (cases rule: call_stepE)
    case (Drop sc token p)
    then show ?thesis
      using s(2) same by (simp add: admission_dropped_def observe_scene_def Let_def split: prod.split option.split)
  next
    case (Commit sc a source token cue_id n)
    show ?thesis unfolding Commit(3) by (rule poised_commit_admission [OF inv s Commit(2)])
  next
    case (Cancel c token target rest)
    let ?t = "s \<lparr> or_commits := (or_commits s)(c \<mapsto> (token, rest)) \<rparr>"
    have known: "known s target" by (rule orch_inv_commit_pop [OF inv Cancel(2)])
    have "\<not> dispatching s target" using apart Cancel(1,2) by (simp add: cancels_apart_def)
    then have "\<not> dispatching ?t target" by (simp add: dispatching_def)
    moreover have "poised ?t" "known ?t target" using same known by (simp_all add: known_def)
    ultimately have "poised (request_cancel target ?t)"
      using poised_request_cancel [OF orch_inv_commit_pop(1) [OF inv Cancel(2)]] by simp
    then show ?thesis unfolding Cancel(3) using s(2) by (simp add: panic)
  next
    case (Enqueue c token)
    let ?t = "s \<lparr> or_commits := (or_commits s)(c := None) \<rparr>"
    have "poised ?t" "mailbox_ok (or_mailboxes ?t a)" "known ?t c" for a
      using same inv Enqueue(2) by (auto simp: known_def orch_inv_def inv_mail_def inv_commit_def)
    from poised_commit_enqueue [OF this, of token] show ?thesis unfolding Enqueue(3) using s(2) by simp
  next
    case (Close sc target rest)
    let ?t = "s \<lparr> or_closing := (or_closing s)(sc := Some rest) \<rparr>"
    have pop: "orch_inv {} {} {target} ?t" "known s target"
      using orch_inv_closing_pop [OF inv Close(2), of "Some rest" rest target] by auto
    have "\<not> dispatching s target" using apart Close(1,2) by (simp add: cancels_apart_def)
    then have "\<not> dispatching ?t target" by (simp add: dispatching_def)
    moreover have "poised ?t" "known ?t target" using same pop(2) by (simp_all add: known_def)
    ultimately have "poised (request_cancel target ?t)" using poised_request_cancel [OF pop(1)] by simp
    then show ?thesis unfolding Close(3) using s(2) by (simp add: panic)
  next
    case (Returned c r)
    have known: "known s c" using inv Returned(2) by (auto simp: orch_inv_def inv_callbacks_def)
    have "alive (set_state c (record_cancel_error e (state_at s c)) s) x = alive s x" for e x
      using known by (simp add: alive_def phase_at_def record_cancel_error_def split: option.split cancellation_intent.split)
    then have "poised (set_state c (record_cancel_error e (state_at s c)) s)" for e
      using s(1) by (simp add: poised_def dispatching_def)
    then have t: "poised (case r of None \<Rightarrow> s | Some e \<Rightarrow> set_state c (record_cancel_error e (state_at s c)) s)" (is "poised ?t")
      using s(1) by (simp split: option.split)
    have "poised (?t \<lparr> or_cancelling := (or_cancelling s)(c := False) \<rparr>)" by (rule poised_same [OF _ _ t]) simp_all
    then show ?thesis unfolding Returned(3) using s(2) by (simp split: option.split)
  qed (use s(2) same poised_dispatch [OF inv _ s] in simp_all)
qed

lemma poised_outside_step:
  assumes inv: "orch_inv {} {} {} s" and s: "poised s" "or_panic s = None" and apart: "cancels_apart ev s"
    and step: "outside_step ev s = Some s'"
  shows "poised s' \<and> or_panic s' = None"
proof -
  have same: "poised t" if "or_dispatch t = or_dispatch s" "or_ops t = or_ops s" for t by (rule poised_same [OF that s(1)])
  have cued: "poised (close_cued_inline c s)" "poised (set_cued c cued s)" if "known s c" for c cued
    using poised_core [OF core_close_cued_inline [OF that]] poised_core [OF core_set_cued [OF that, of cued]] s(1) by auto
  have callback: "known s c \<and> phase_at s c \<noteq> OpQueued \<and> or_dispatch s c = None" if "or_callback s c \<or> or_fallback s c" for c
    using inv that by (auto simp: orch_inv_def inv_callbacks_def)
  from step show ?thesis
  proof (cases rule: outside_stepE)
    case (Begin sc scope)
    show ?thesis using same s(2) by (simp add: Begin(3) begin_event_def split: prod.split option.split)
  next
    case (CloseS sc scope)
    show ?thesis
      using same s by (simp add: CloseS(3) close_scene_def observe_closed_def observe_scene_def Let_def
          split: prod.split option.split close_action.split)
  next
    case (Wait sc scope)
    show ?thesis using same s(2) by (simp add: Wait(3) wait_closed_def observe_closed_def observe_scene_def Let_def split: prod.split)
  next
    case (Request c)
    have "\<not> dispatching s c" using apart Request(1) by (simp add: cancels_apart_def)
    then have "poised (request_cancel c s)" by (rule poised_request_cancel [OF inv Request(2) empty_subsetI s(1)])
    then show ?thesis
      using s(2) by (simp add: Request(3) request_cancel_def split: prod.split option.split request_action.split)
  next
    case (Result c r)
    let ?t = "s \<lparr> or_callback := (or_callback s)(c := False) \<rparr>"
    have c: "known s c" "phase_at s c \<noteq> OpQueued" "or_dispatch s c = None" using callback Result(2) by blast+
    have "orch_inv {} {} {} ?t" by (rule orch_inv_callback(1) [OF inv c])
    moreover have "known ?t c" "or_dispatch ?t c = None" "poised ?t" using c same by (simp_all add: known_def)
    ultimately have "poised (finish_with_result c r ?t) \<and> or_panic (finish_with_result c r ?t) = or_panic ?t"
      by (rule poised_finish_with_result)
    then show ?thesis using s(2) by (simp add: Result(3))
  next
    case (Poll c p)
    let ?t = "s \<lparr> or_fallback := (or_fallback s)(c := False) \<rparr>"
    have c: "known s c" "phase_at s c \<noteq> OpQueued" "or_dispatch s c = None" using callback Poll(2) by blast+
    have "orch_inv {} {} {} ?t" by (rule orch_inv_callback(2) [OF inv c])
    moreover have "known ?t c" "or_dispatch ?t c = None" "poised ?t" using c same by (simp_all add: known_def)
    ultimately have "poised (finish_with_result c r ?t) \<and> or_panic (finish_with_result c r ?t) = or_panic ?t" for r
      by (rule poised_finish_with_result)
    then have "poised (finish_with_result c r ?t) \<and> or_panic (finish_with_result c r ?t) = None" for r
      using s(2) by simp
    then show ?thesis
      using same s by (simp add: Poll(3) fallback_called_def Let_def split: option.split fallback_poll.split)
  next
    case (Turn c turn)
    show ?thesis using cued(2) [OF Turn(2)] s(2) by (simp add: Turn(3) set_cued_def)
  next
    case (Effect c)
    show ?thesis using cued(2) [OF Effect(2)] s(2) by (simp add: Effect(3) set_cued_def)
  next
    case (Driver c)
    show ?thesis using cued(1) [OF Driver(2)] s(2) by (simp add: Driver(3))
  qed (use s same in simp_all)
qed

subsection \<open>Nothing panics\<close>

lemma orch_run_poised:
  assumes "orch_run allowed (orchestra_init actors) s" "\<And>ev t. allowed ev t \<Longrightarrow> cancels_apart ev t"
  shows "poised s \<and> or_panic s = None"
  using assms(1)
proof (induction rule: orch_run.induct)
  case orch_run_start
  show ?case by (simp add: poised_def dispatching_def orchestra_init_def)
next
  case (orch_run_step s ev s')
  then have s: "poised s" "or_panic s = None" by auto
  have inv: "orch_inv {} {} {} s" by (rule orch_run_inv [OF orch_run_step.hyps(1) s(2)])
  have apart: "cancels_apart ev s" by (rule assms(2) [OF orch_run_step.hyps(2)])
  from orch_run_step.hyps(3) show ?case
    by (cases rule: orch_stepE) (use poised_call_step [OF inv s apart] poised_outside_step [OF inv s apart] in simp_all)
qed

text \<open>C18. None of the assertions and unwraps of the code that admits, dispatches, cancels and ends cues fails,
  in any run in which no cue is cancelled while the early part of its own dispatch is in progress (from the
  moment it is claimed until its task is stored). Outside of this window it may be cancelled by callers, by
  scenes that close and by commits, while other cues are anywhere in theirs.\<close>

theorem no_panic_when_cancels_apart:
  assumes "orch_run cancels_apart (orchestra_init actors) s"
  shows "or_panic s = None"
  using orch_run_poised [OF assms] by simp

theorem no_panic_when_cancels_apart_witness:
  "or_panic (after cancels_apart (two_cues @ then_close @ then_end) everybody) = None"
proof -
  have run: "orch_run cancels_apart (orchestra_init (\<lambda>_. True)) (after cancels_apart (two_cues @ then_close @ then_end) everybody)"
    unfolding everybody_def by (rule after_run) (simp add: orch_demo cancels_apart_def dispatching_def)
  show ?thesis by (rule no_panic_when_cancels_apart [OF run])
qed

text \<open>In that window a cancellation does lead to a panic: here the caller cancels the cue while the method \<^verbatim>\<open>cued\<close> of its
  actor runs; the task is created nevertheless, and replaces the outcome.\<close>

lemma cancel_in_dispatch_panics:
  "or_panic (after any_event (take 5 two_cues @ [RequestCancel 0, CuedReturned 0 None, TaskCreated 0 (Inr 5)]) everybody) =
     Some ''assertion failed: matches!(previous, OperationPhase::Queued)''"
  by (simp add: orch_demo)

text \<open>An operation whose dispatch fails is retired from its mailbox, and its terminal outcome was never reported.\<close>

lemma failed_dispatch_not_reported:
  "map snd (or_log (after any_event (take 4 two_cues @ [DispatchStart 0 (Some (PyError 1))]) everybody)) =
     [HookAdmitted, HookEnqueued 0 True, HookRetired 0 False]"
  by (simp add: orch_demo)

end
