(* ===== verification/Orchestra_Liveness.thy ===== *)
theory Orchestra_Liveness
  imports Orchestra_Progress
begin

section \<open>No cue is left behind\<close>

text \<open>
  An operation whose work has begun is watched: its dispatch goes on, or the callback of its task is attached, or
  the fallback callback, which then looks at the task of this operation. So whenever an operation is not
  finished, there is something that will happen for the one that its mailbox works on.
\<close>

definition watched :: "orchestra \<Rightarrow> nat \<Rightarrow> bool" where
  "watched s x \<longleftrightarrow>
     (started s x \<longrightarrow> or_dispatch s x \<noteq> None \<or> or_callback s x \<or> or_fallback s x \<and> fallback_task (state_at s x) \<noteq> None) \<and>
     (\<forall>signal. or_dispatch s x = Some (StAbandoning, signal) \<longrightarrow> fallback_task (state_at s x) \<noteq> None)"

definition tended :: "nat set \<Rightarrow> orchestra \<Rightarrow> bool" where
  "tended X s \<longleftrightarrow> (\<forall>x. known s x \<longrightarrow> x \<notin> X \<longrightarrow> watched s x)"

lemma tended_core: "core s = core t \<Longrightarrow> tended X s = tended X t"
proof -
  assume eq: "core s = core t"
  have "known s x = known t x" "started s x = started t x" "state_at s x = state_at t x" for x
    using arg_cong [OF eq, of "\<lambda>s. known s x"] arg_cong [OF eq, of "\<lambda>s. started s x"]
      arg_cong [OF eq, of "\<lambda>s. state_at s x"] by simp_all
  moreover have "or_dispatch s = or_dispatch t" "or_callback s = or_callback t" "or_fallback s = or_fallback t"
    using arg_cong [OF eq, of or_dispatch] arg_cong [OF eq, of or_callback] arg_cong [OF eq, of or_fallback] by simp_all
  ultimately show ?thesis by (simp add: tended_def watched_def)
qed

lemma tended_unseen [simp]:
  "tended X (observe x h s) = tended X s" "tended X (observe_scene sc sh s) = tended X s" "tended X (observe_closed sc s) = tended X s"
  "tended X (panic_with m s) = tended X s" "tended X (s \<lparr> or_turn_live := live \<rparr>) = tended X s"
  "tended X (s \<lparr> or_binding_live := bl \<rparr>) = tended X s"
  by (rule tended_core; simp)+

lemma tended_same:
  "or_ops t = or_ops s \<Longrightarrow> or_dispatch t = or_dispatch s \<Longrightarrow> or_callback t = or_callback s \<Longrightarrow> or_fallback t = or_fallback s \<Longrightarrow>
   tended X s \<Longrightarrow> tended X t"
  by (simp add: tended_def watched_def views_ops [of t s])

lemma tended_weaken: "tended {} s \<Longrightarrow> tended X s"
  by (simp add: tended_def)

text \<open>Only one operation changes, and it is watched afterwards.\<close>

lemma tended_at:
  assumes "tended {o'} s" "\<And>x. x \<noteq> o' \<Longrightarrow> known t x \<Longrightarrow> known s x \<and> watched t x = watched s x" "watched t o'"
  shows "tended {} t"
proof -
  have "watched t x" if "known t x" for x
    using assms(1,3) assms(2) [OF _ that] by (cases "x = o'") (simp_all add: tended_def)
  then show ?thesis by (simp add: tended_def)
qed

lemma watched_same:
  assumes "or_ops t x = or_ops s x" "or_dispatch t x = or_dispatch s x" "or_callback t x = or_callback s x" "or_fallback t x = or_fallback s x"
  shows "watched t x = watched s x" "known t x = known s x"
  using assms by (simp_all add: watched_def started_def phase_at_def state_at_def operation_at_def known_def)

lemma not_started_watched: "\<not> started s x \<Longrightarrow> (\<And>signal. or_dispatch s x \<noteq> Some (StAbandoning, signal)) \<Longrightarrow> watched s x"
  by (simp add: watched_def)

lemma tended_retire:
  assumes e: "ending o' st P S C s" and s: "tended {o'} s"
  shows "tended {} (retire o' st s)"
proof -
  have known: "known s o'" using e by (simp add: ending_def alive_def)
  have "watched (retire o' st s) x" if x: "known s x" for x
  proof (cases "x = o'")
    case True
    have "or_dispatch (retire o' st s) o' \<noteq> Some (StAbandoning, signal)" for signal
      using e by (auto simp: ending_def retire_dispatch)
    then show ?thesis using True by (intro not_started_watched) (simp_all add: retire_alive [OF e])
  next
    case False
    then have "watched s x" using s x by (simp add: tended_def)
    then show ?thesis using False by (simp add: watched_def retire_alive [OF e] retire_dispatch retire_views)
  qed
  then show ?thesis by (simp add: tended_def retire_views(1) [OF known])
qed

lemma tended_set_state:
  assumes "tended {} s" "known s o'"
    "(\<exists>t. os_phase st = OpRunning t \<or> os_phase st = OpCancellingRunning t) \<Longrightarrow> started s o' \<or> or_dispatch s o' \<noteq> None"
    "fallback_task (state_at s o') \<noteq> None \<Longrightarrow> fallback_task st \<noteq> None"
  shows "tended {} (set_state o' st s)"
proof -
  have "watched (set_state o' st s) x" if "known s x" for x
  proof (cases "x = o'")
    case True
    have "watched s o'" using assms(1,2) by (simp add: tended_def)
    then show ?thesis using True assms(3,4) by (auto simp: watched_def started_def)
  next
    case False
    have "watched s x" using assms(1) that by (simp add: tended_def)
    then show ?thesis using False by (simp add: watched_def started_def)
  qed
  then show ?thesis using assms(2) by (simp add: tended_def)
qed

lemma tended_request_cancel:
  assumes inv: "orch_inv {} {} C s" and o': "known s o'" "C \<subseteq> {o'}" and s: "tended {} s"
  shows "tended {} (request_cancel o' s)"
  using inv o'(1) empty_subsetI empty_subsetI o'(2)
proof (cases rule: request_cancel_cases)
  case (retired st)
  have "tended {} (retire o' st s)" by (rule tended_retire [OF retired(2) tended_weaken [OF s]])
  then show ?thesis using tended_core [OF retired(3)] by simp
next
  case (marked task)
  let ?st = "(state_at s o') \<lparr> os_phase := OpCancellingRunning task, os_intent := Some (IntentRequested None) \<rparr>"
  have "tended {} (set_state o' ?st s)"
    by (rule tended_set_state [OF s o'(1)]) (use marked(1) in \<open>auto simp: started_def fallback_task_def phase_at_def\<close>)
  then have t: "tended {} (observe o' HookCancelRequested (set_state o' ?st s))" by simp
  show ?thesis unfolding marked(2) by (rule tended_same [OF _ _ _ _ t]) (simp_all add: observe_def)
qed (use s in simp)

lemma tended_finish_with_result:
  assumes inv: "orch_inv {} {} {} s" "known s o'" "or_dispatch s o' = None" and s: "tended {o'} s"
  shows "tended {} (finish_with_result o' result s)"
  using inv
proof (cases rule: finish_with_result_cases [where result = result])
  case same
  then have "\<not> started s o'" by (auto simp: ended_def started_def)
  then have "watched s o'" using inv(3) by (intro not_started_watched) simp_all
  then have "tended {} s" using s by (auto simp: tended_def)
  then show ?thesis using same(2) by simp
next
  case (retired st)
  have "tended {} (retire o' st s)" by (rule tended_retire [OF retired(2) s])
  then show ?thesis using tended_core [OF retired(3)] by simp
qed

lemma tended_dispatch_failed:
  assumes frame: "orch_inv {} {} {} s" "or_dispatch s o' = Some (stage, signal)" "early stage" and s: "tended {} s"
  shows "tended {} (dispatch_failed o' signal e s)"
  using frame
proof (cases rule: dispatch_failed_cases [where e = e])
  case (retired st)
  let ?t = "resolve_terminal_signal signal (s \<lparr> or_dispatch := (or_dispatch s)(o' := None) \<rparr>)"
  have v: "or_ops ?t = or_ops s" by simp
  have "watched ?t x = watched s x \<and> known ?t x = known s x" if "x \<noteq> o'" for x using that watched_same [of ?t x s] by simp
  then have "tended {o'} ?t" using s unfolding tended_def by blast
  from tended_retire [OF retired(2) this] show ?thesis using tended_core [OF retired(3)] by simp
qed (use s in simp)

lemma tended_dispatch_scheduled:
  assumes "tended {o'} s" "started s o' \<Longrightarrow> or_callback s o' \<or> or_fallback s o' \<and> fallback_task (state_at s o') \<noteq> None"
  shows "tended {} (dispatch_scheduled o' signal s)"
proof (rule tended_at [OF assms(1)])
  let ?t = "dispatch_scheduled o' signal s"
  have v: "or_ops ?t = or_ops s" by simp
  have t: "or_dispatch ?t = (or_dispatch s)(o' := None)" "or_callback ?t = or_callback s" "or_fallback ?t = or_fallback s"
    by (simp_all add: dispatch_scheduled_def observe_def)
  show "known s x \<and> watched ?t x = watched s x" if "x \<noteq> o'" "known ?t x" for x
    using that watched_same [of ?t x s] by (simp add: t)
  show "watched ?t o'" using assms(2) by (simp add: watched_def t views_ops [OF v])
qed

lemma tended_set_stage:
  assumes "tended {} s" "known s o'" "stage = StAbandoning \<Longrightarrow> fallback_task (state_at s o') \<noteq> None"
  shows "tended {} (set_stage o' stage signal s)"
proof (rule tended_at [OF tended_weaken [OF assms(1)]])
  let ?t = "set_stage o' stage signal s"
  have v: "or_ops ?t = or_ops s" by (simp add: set_stage_def)
  show "known s x \<and> watched ?t x = watched s x" if "x \<noteq> o'" "known ?t x" for x
    using that watched_same [of ?t x s] by (simp add: set_stage_def)
  have "or_dispatch ?t o' = Some (stage, signal)" by (simp add: set_stage_def)
  moreover have "state_at ?t o' = state_at s o'" using views_ops(3) [OF v] by simp
  ultimately show "watched ?t o'" using assms(3) by (auto simp: watched_def)
qed

lemma tended_dispatch:
  assumes inv: "orch_inv {} {} {} s" and frame: "or_dispatch s o' = Some (stage, signal)" and s: "tended {} s"
  shows "stage = StClaimed \<Longrightarrow> tended {} (dispatch_start o' signal ce s)"
    and "stage = StCalling \<Longrightarrow> tended {} (dispatch_called o' signal r s)"
    and "stage = StTasking \<Longrightarrow> or_panic (dispatch_task o' signal tr s) = None \<Longrightarrow> tended {} (dispatch_task o' signal tr s)"
    and "stage = StAttaching \<Longrightarrow> loop_faithful (CallbackAttached o' r) s \<Longrightarrow> tended {} (dispatch_attached o' signal r s)"
    and "stage = StAbandoning \<Longrightarrow> b \<Longrightarrow> tended {} (dispatch_abandoned o' signal b s)"
proof -
  have ok: "frame_ok s o' stage signal" by (rule invD_frame [OF inv frame])
  then have known: "known s o'" by (simp add: frame_ok_def)
  have failed: "early stage \<Longrightarrow> tended {} (dispatch_failed o' signal e s)" for e
    by (rule tended_dispatch_failed [OF inv frame _ s])
  have staged: "st \<noteq> StAbandoning \<Longrightarrow> tended {} (set_stage o' st signal s)" for st
    by (rule tended_set_stage [OF s known]) simp
  show "tended {} (dispatch_start o' signal ce s)" if "stage = StClaimed"
    using that failed staged s by (auto simp: dispatch_start_def split: option.split)
  show "tended {} (dispatch_called o' signal r s)" if "stage = StCalling"
    using that failed staged by (auto simp: dispatch_called_def split: option.split)
  show "tended {} (dispatch_task o' signal tr s)" if "stage = StTasking" "or_panic (dispatch_task o' signal tr s) = None"
  proof (cases tr)
    case (Inl e)
    let ?t = "close_cued_inline o' s"
    have t: "orch_inv {} {} {} ?t" "tended {} ?t"
      using inv s core_close_cued_inline [OF known] orch_inv_core_cong tended_core by metis+
    have "or_dispatch ?t o' = Some (stage, signal)" using frame by simp
    from tended_dispatch_failed [OF t(1) this _ t(2)] show ?thesis using Inl that(1) by (simp add: dispatch_task_def)
  next
    case (Inr task)
    let ?st = "(state_at s o') \<lparr> os_phase := OpRunning task \<rparr>"
    have q: "phase_at s o' = OpQueued"
      using that(2) Inr by (auto simp: dispatch_task_def start_running_locked_def phase_at_def panic_with_def Let_def split: if_splits)
    then have eq: "dispatch_task o' signal tr s = set_stage o' StAttaching signal (set_state o' ?st s)"
      using Inr by (simp add: dispatch_task_def start_running_locked_def phase_at_def Let_def)
    have "tended {} (set_state o' ?st s)"
      by (rule tended_set_state [OF s known]) (use frame q in \<open>auto simp: fallback_task_def phase_at_def\<close>)
    then show ?thesis unfolding eq using known by (intro tended_set_stage) simp_all
  qed
  show "tended {} (dispatch_attached o' signal r s)" if "stage = StAttaching" and faithful: "loop_faithful (CallbackAttached o' r) s"
  proof (cases r)
    case None
    let ?t = "s \<lparr> or_callback := (or_callback s)(o' := True) \<rparr>"
    have "watched ?t x = watched s x \<and> known ?t x = known s x" if "x \<noteq> o'" for x using that watched_same [of ?t x s] by simp
    then have "tended {o'} ?t" using s unfolding tended_def by blast
    then show ?thesis using None tended_dispatch_scheduled [of o' ?t signal] by (simp add: dispatch_attached_def)
  next
    case (Some e)
    then obtain task where task: "phase_at s o' = OpRunning task"
      using faithful by (auto split: operation_phase.splits)
    let ?st = "(state_at s o') \<lparr> os_phase := OpCancellingRunning task, os_intent := Some (IntentAttachmentFailure e) \<rparr>"
    have "tended {} (set_state o' ?st s)"
      by (rule tended_set_state [OF s known]) (use frame in \<open>auto simp: fallback_task_def\<close>)
    then have "tended {} (set_stage o' StAbandoning signal (set_state o' ?st s))"
      using known by (intro tended_set_stage) (simp_all add: fallback_task_def)
    then show ?thesis
      using Some task by (simp add: dispatch_attached_def begin_attachment_failure_locked_def phase_at_def)
  qed
  show "tended {} (dispatch_abandoned o' signal b s)" if "stage = StAbandoning" "b"
  proof -
    let ?t = "s \<lparr> or_fallback := (or_fallback s)(o' := True) \<rparr>"
    have v: "or_ops ?t = or_ops s" by simp
    have "watched ?t x = watched s x \<and> known ?t x = known s x" if "x \<noteq> o'" for x using that watched_same [of ?t x s] by simp
    then have "tended {o'} ?t" using s unfolding tended_def by blast
    moreover have "watched s o'" using s known by (simp add: tended_def)
    then have "fallback_task (state_at s o') \<noteq> None" using frame that(1) by (simp add: watched_def)
    ultimately show ?thesis
      using that(2) tended_dispatch_scheduled [of o' ?t signal] by (simp add: dispatch_abandoned_def views_ops [OF v])
  qed
qed

lemma tended_commit_enqueue:
  assumes s: "tended {} s" and mail: "\<And>a. mailbox_ok (or_mailboxes s a)" and o': "known s o'" "or_dispatch s o' = None"
  shows "tended {} (commit_enqueue o' token s)"
proof -
  have dropped: "tended {} (admission_dropped sc tk s)" for sc tk
    by (rule tended_same [OF _ _ _ _ s])
      (simp_all add: admission_dropped_def observe_scene_def Let_def split: prod.split option.split)
  let ?t = "enqueue_operation o' s"
  have t: "or_ops ?t = or_ops s" "or_callback ?t = or_callback s" "or_fallback ?t = or_fallback s"
    by (simp_all add: enqueue_operation_def drain_from_def observe_def Let_def split: prod.split option.split)
  have d: "or_dispatch ?t = or_dispatch s \<or> or_dispatch ?t = (or_dispatch s)(o' \<mapsto> (StClaimed, None))"
    using enqueue_and_claim_idle [OF mail] enqueue_and_claim_busy [of "or_mailboxes s (op_actor (operation_at s o'))"]
    by (cases "mb_running (or_mailboxes s (op_actor (operation_at s o')))")
      (simp_all add: enqueue_operation_def drain_from_def observe_def Let_def)
  have "tended {} ?t"
  proof (rule tended_at [OF tended_weaken [OF s]])
    show "known s x \<and> watched ?t x = watched s x" if "x \<noteq> o'" "known ?t x" for x
      using that watched_same [of ?t x s] d by (auto simp: t)
    have "watched s o'" using s o'(1) by (simp add: tended_def)
    then show "watched ?t o'" using d o'(2) by (auto simp: watched_def t(2,3) views_ops [OF t(1)])
  qed
  then show ?thesis using s dropped by (simp add: commit_enqueue_def operation_enqueue_def)
qed

lemma tended_commit_admission:
  assumes inv: "orch_inv {} {} {} s" and s: "tended {} s" and txn: "or_txn s sc = Some (token, Some (cue_id, count))"
  shows "tended {} (commit_admission sc a source token cue_id count s)"
proof -
  let ?n = "or_next_op s"
  let ?op = "\<lparr> op_scene = sc, op_actor = a, op_cued = new_cued_scope source a cue_id, op_state = new_operation_state ?n ?n \<rparr>"
  obtain scope where sc: "or_scenes s sc = Some scope"
    using inv txn by (cases "or_scenes s sc") (auto simp: orch_inv_def inv_txn_def)
  have unknown: "\<not> known s ?n" using inv by (simp add: orch_inv_def inv_ops_def)
  have fresh: "or_dispatch s ?n = None"
    using invD_frame [OF inv, of ?n] unknown by (cases "or_dispatch s ?n") (auto simp: frame_ok_def)
  have "txn_ok (Some (token, Some (cue_id, count))) scope" using invD_scene [OF inv sc] txn by simp
  then obtain scope' ops where commit: "commit_locked token count ?n scope = Some (scope', ops)"
    by (auto simp: txn_ok_def commit_locked_def)
  let ?t = "observe ?n HookAdmitted (s \<lparr> or_ops := (or_ops s)(?n \<mapsto> ?op), or_next_op := Suc ?n,
              or_scenes := (or_scenes s)(sc \<mapsto> scope'), or_txn := (or_txn s)(sc := None) \<rparr>)"
  have t: "or_dispatch ?t = or_dispatch s" "or_mailboxes ?t = or_mailboxes s" "known ?t ?n"
    "x \<noteq> ?n \<Longrightarrow> watched ?t x = watched s x \<and> known ?t x = known s x" "\<not> started ?t ?n" for x
    using watched_same [of ?t x s]
    by (auto simp: observe_def known_def started_def phase_at_def state_at_def operation_at_def new_operation_state_def)
  have tended: "tended {} ?t"
  proof (rule tended_at [OF tended_weaken [OF s]])
    show "watched ?t ?n" by (rule not_started_watched [OF t(5)]) (simp add: t(1) fresh del: observe_fields)
  qed (use t(4) in blast)
  have mail: "mailbox_ok (or_mailboxes ?t b)" for b using inv t(2) by (simp add: orch_inv_def inv_mail_def)
  have none: "or_dispatch ?t ?n = None" using fresh t(1) by simp
  show ?thesis
  proof (cases ops)
    case None
    then have eq: "commit_admission sc a source token cue_id count s = commit_enqueue ?n token ?t"
      using sc commit by (simp add: commit_admission_def Let_def)
    show ?thesis unfolding eq by (rule tended_commit_enqueue [OF tended mail t(3) none])
  next
    case (Some l)
    let ?u = "observe_scene sc CancellationStarted ?t"
    have eq: "commit_admission sc a source token cue_id count s = ?u \<lparr> or_commits := (or_commits ?t)(?n \<mapsto> (token, l)) \<rparr>"
      using Some sc commit by (simp add: commit_admission_def Let_def)
    have u: "tended {} ?u" using tended by (simp only: tended_unseen)
    show ?thesis unfolding eq by (rule tended_same [OF _ _ _ _ u]) simp_all
  qed
qed

lemma tended_call_step:
  assumes inv: "orch_inv {} {} {} s" and s: "tended {} s" and faithful: "loop_faithful ev s"
    and step: "call_step ev s = Some s'" and calm: "or_panic s' = None"
  shows "tended {} s'"
proof -
  have same: "tended {} t" if "or_ops t = or_ops s" "or_dispatch t = or_dispatch s" "or_callback t = or_callback s" "or_fallback t = or_fallback s" for t
    by (rule tended_same [OF that s])
  from step show ?thesis
  proof (cases rule: call_stepE)
    case (Drop sc token p)
    then show ?thesis
      using same by (simp add: admission_dropped_def observe_scene_def Let_def split: prod.split option.split)
  next
    case (Commit sc a source token cue_id n)
    show ?thesis unfolding Commit(3) by (rule tended_commit_admission [OF inv s Commit(2)])
  next
    case (Cancel c token target rest)
    let ?t = "s \<lparr> or_commits := (or_commits s)(c \<mapsto> (token, rest)) \<rparr>"
    have "known s target" by (rule orch_inv_commit_pop [OF inv Cancel(2)])
    then have k: "known ?t target" by (simp add: known_def)
    have "tended {} ?t" by (rule same) simp_all
    then show ?thesis
      unfolding Cancel(3) by (rule tended_request_cancel [OF orch_inv_commit_pop(1) [OF inv Cancel(2)] k subset_refl])
  next
    case (Enqueue c token)
    let ?t = "s \<lparr> or_commits := (or_commits s)(c := None) \<rparr>"
    have "or_dispatch s c = None"
      using invD_frame [OF inv, of c] Enqueue(2) by (cases "or_dispatch s c") (auto simp: frame_ok_def)
    then have "tended {} ?t" "mailbox_ok (or_mailboxes ?t a)" "known ?t c" "or_dispatch ?t c = None" for a
      using same inv Enqueue(2) by (auto simp: known_def orch_inv_def inv_mail_def inv_commit_def)
    then show ?thesis unfolding Enqueue(3) by (rule tended_commit_enqueue)
  next
    case (Task c tr signal)
    then show ?thesis using tended_dispatch(3) [OF inv Task(2) s] calm by simp
  next
    case (Attached c r signal)
    then show ?thesis using tended_dispatch(4) [OF inv Attached(2) s] faithful by simp
  next
    case (Abandoned c b signal)
    then show ?thesis using tended_dispatch(5) [OF inv Abandoned(2) s] faithful by simp
  next
    case (Close sc target rest)
    let ?t = "s \<lparr> or_closing := (or_closing s)(sc := Some rest) \<rparr>"
    have pop: "orch_inv {} {} {target} ?t" "known s target"
      using orch_inv_closing_pop [OF inv Close(2), of "Some rest" rest target] by auto
    then have k: "known ?t target" by (simp add: known_def)
    have "tended {} ?t" by (rule same) simp_all
    then show ?thesis unfolding Close(3) by (rule tended_request_cancel [OF pop(1) k subset_refl])
  next
    case (Returned c r)
    have known: "known s c" using inv Returned(2) by (auto simp: orch_inv_def inv_callbacks_def)
    have phase: "os_phase (record_cancel_error e st) = os_phase st"
      "fallback_task (record_cancel_error e st) = fallback_task st" for e st
      by (simp_all add: record_cancel_error_def fallback_task_def split: option.split cancellation_intent.split operation_phase.split)
    have "tended {} (set_state c (record_cancel_error e (state_at s c)) s)" for e
      by (rule tended_set_state [OF s known]) (auto simp: phase started_def phase_at_def)
    then have t: "tended {} (case r of None \<Rightarrow> s | Some e \<Rightarrow> set_state c (record_cancel_error e (state_at s c)) s)" (is "tended {} ?t")
      using s by (simp split: option.split)
    show ?thesis unfolding Returned(3) by (rule tended_same [OF _ _ _ _ t]) simp_all
  qed (use same tended_dispatch(1,2) [OF inv _ s] in simp_all)
qed

lemma tended_outside_step:
  assumes inv: "orch_inv {} {} {} s" and s: "tended {} s" and faithful: "loop_faithful ev s"
    and step: "outside_step ev s = Some s'"
  shows "tended {} s'"
proof -
  have same: "tended {} t" if "or_ops t = or_ops s" "or_dispatch t = or_dispatch s" "or_callback t = or_callback s" "or_fallback t = or_fallback s" for t
    by (rule tended_same [OF that s])
  have cued: "tended {} (close_cued_inline c s)" "tended {} (set_cued c cued s)" if "known s c" for c cued
    using tended_core [OF core_close_cued_inline [OF that]] tended_core [OF core_set_cued [OF that, of cued]] s by auto
  have callback: "known s c \<and> phase_at s c \<noteq> OpQueued \<and> or_dispatch s c = None" if "or_callback s c \<or> or_fallback s c" for c
    using inv that by (auto simp: orch_inv_def inv_callbacks_def)
  from step show ?thesis
  proof (cases rule: outside_stepE)
    case (Begin sc scope)
    show ?thesis unfolding Begin(3) by (rule same) (simp_all add: begin_event_def split: prod.split option.split)
  next
    case (CloseS sc scope)
    show ?thesis unfolding CloseS(3)
      by (rule same) (simp_all add: close_scene_def observe_closed_def observe_scene_def Let_def
          split: prod.split option.split close_action.split)
  next
    case (Wait sc scope)
    show ?thesis unfolding Wait(3)
      by (rule same) (simp_all add: wait_closed_def observe_closed_def observe_scene_def Let_def split: prod.split)
  next
    case (Request c)
    show ?thesis unfolding Request(3) by (rule tended_request_cancel [OF inv Request(2) empty_subsetI s])
  next
    case (Result c r)
    let ?t = "s \<lparr> or_callback := (or_callback s)(c := False) \<rparr>"
    have c: "known s c" "phase_at s c \<noteq> OpQueued" "or_dispatch s c = None" using callback Result(2) by blast+
    have "watched ?t x = watched s x \<and> known ?t x = known s x" if "x \<noteq> c" for x using that watched_same [of ?t x s] by simp
    then have t: "tended {c} ?t" using s unfolding tended_def by blast
    have k: "known ?t c" "or_dispatch ?t c = None" using c by (simp_all add: known_def)
    show ?thesis unfolding Result(3) by (rule tended_finish_with_result [OF orch_inv_callback(1) [OF inv c] k t])
  next
    case (Poll c p)
    let ?t = "s \<lparr> or_fallback := (or_fallback s)(c := False) \<rparr>"
    have c: "known s c" "phase_at s c \<noteq> OpQueued" "or_dispatch s c = None" using callback Poll(2) by blast+
    have other: "watched ?t x = watched s x \<and> known ?t x = known s x" if "x \<noteq> c" for x using that watched_same [of ?t x s] by simp
    then have t: "tended {c} ?t" using s unfolding tended_def by blast
    have k: "known ?t c" "or_dispatch ?t c = None" using c by (simp_all add: known_def)
    have done': "tended {} (finish_with_result c r ?t)" for r
      by (rule tended_finish_with_result [OF orch_inv_callback(2) [OF inv c] k t])
    show ?thesis
    proof (cases "fallback_task (state_at s c)")
      case None
      have "watched s c" using s c(1) by (simp add: tended_def)
      then have "watched ?t c" using None c(3) by (simp add: watched_def views_ops [of ?t s])
      then have "tended {} ?t" using t by (auto simp: tended_def)
      then show ?thesis using None by (simp add: Poll(3) fallback_called_def)
    next
      case (Some task)
      then show ?thesis using faithful s done' by (cases p) (simp_all add: Poll(1,3) fallback_called_def)
    qed
  next
    case (Turn c turn)
    show ?thesis using cued(2) [OF Turn(2)] by (simp add: Turn(3))
  next
    case (Effect c)
    show ?thesis using cued(2) [OF Effect(2)] by (simp add: Effect(3))
  next
    case (Driver c)
    show ?thesis using cued(1) [OF Driver(2)] by (simp add: Driver(3))
  qed (use s same in simp_all)
qed

lemma orch_run_tended:
  assumes "orch_run loop_faithful (orchestra_init actors) s" "or_panic s = None"
  shows "tended {} s"
  using assms
proof (induction rule: orch_run.induct)
  case orch_run_start
  show ?case by (simp add: tended_def known_def orchestra_init_def)
next
  case (orch_run_step s ev s')
  have calm: "or_panic s = None" by (rule orch_step_calm [OF orch_run_step.hyps(3)])
  have inv: "orch_inv {} {} {} s" by (rule orch_run_inv [OF orch_run_step.hyps(1) calm])
  note s = orch_run_step.IH [OF calm]
  from orch_run_step.hyps(3) show ?case
    by (cases rule: orch_stepE)
      (use tended_call_step [OF inv s orch_run_step.hyps(2)] tended_outside_step [OF inv s orch_run_step.hyps(2)]
        orch_run_step.prems in simp_all)
qed

subsection \<open>Something will happen\<close>

text \<open>C9. No cue is left behind. In every state that is reached with an event loop that does what it is asked, a
  cue for a living actor either has an outcome, and then its signal is resolved or a dispatch in progress still
  resolves it; or some cue of the same actor that has not ended has work pending: it is about to be enqueued,
  its dispatch is in progress, or the callback of its task or the fallback callback will be called. So the
  mailbox of an actor never stops with cues in it.\<close>

theorem no_cue_stranded:
  assumes "orch_run loop_faithful (orchestra_init actors) s" "or_panic s = None"
    and "known s x" "or_actor_live s (actor_of s x)"
  shows "if alive s x then \<exists>y. alive s y \<and> actor_of s y = actor_of s x \<and> pending s y
         else or_resolved s x \<or> (\<exists>y stage. or_dispatch s y = Some (stage, Some x))"
proof (cases "alive s x")
  case False
  then show ?thesis
    using orch_run_inv [OF assms(1,2)] not_alive_iff [OF assms(3)] by (auto simp: orch_inv_def inv_signal_def)
next
  case True
  note parts = orch_run_inv [OF assms(1,2), unfolded orch_inv_def]
  let ?m = "or_mailboxes s (actor_of s x)"
  show ?thesis
  proof (cases "or_commits s x = None")
    case False
    then show ?thesis using True by (auto simp: pending_def)
  next
    case commits: True
    then have "x \<in> mailbox_members ?m" using parts True assms(4) unfolding inv_place_def by blast
    moreover have ok: "mailbox_ok ?m" using parts by (simp add: inv_mail_def)
    ultimately obtain r where r: "mb_running ?m = Some r" by (auto simp: mailbox_ok_def mailbox_members_def)
    then have "r \<in> mailbox_members ?m" by (simp add: mailbox_members_def)
    then have alive: "alive s r" "actor_of s r = actor_of s x" using parts unfolding inv_mail_def by blast+
    have "pending s r"
      using alive(1)
    proof (cases rule: alive_cases)
      case 1
      then have "or_dispatch s r \<noteq> None" using parts r unfolding inv_slot_def by blast
      then show ?thesis by (simp add: pending_def)
    next
      case 2
      have "watched s r" using orch_run_tended [OF assms(1,2)] alive(1) by (simp add: tended_def alive_def)
      then show ?thesis using 2 by (auto simp: watched_def pending_def)
    qed
    then show ?thesis using True alive by auto
  qed
qed

theorem no_cue_stranded_witness:
  "\<exists>y. alive (after loop_faithful two_cues everybody) y \<and>
     actor_of (after loop_faithful two_cues everybody) y = actor_of (after loop_faithful two_cues everybody) 1 \<and>
     pending (after loop_faithful two_cues everybody) y"
proof -
  have run: "orch_run loop_faithful (orchestra_init (\<lambda>_. True)) (after loop_faithful two_cues everybody)"
    unfolding everybody_def by (rule after_run) (simp add: orch_demo)
  have s: "or_panic (after loop_faithful two_cues everybody) = None" "known (after loop_faithful two_cues everybody) 1"
    "or_actor_live (after loop_faithful two_cues everybody) (actor_of (after loop_faithful two_cues everybody) 1)"
    by (simp_all add: orch_demo known_def actor_of_def)
  have "alive (after loop_faithful two_cues everybody) 1" by (simp add: orch_demo alive_def known_def)
  then show ?thesis using no_cue_stranded [OF run s] by simp
qed

end
