(* ===== verification/Orchestra_Scenes.thy ===== *)
theory Orchestra_Scenes
  imports Orchestra_Promise
begin

section \<open>The life of a scene\<close>

text \<open>
  A scene numbers the cues that it admits, and closes for good: once it closes it admits nothing, and once it is
  closed all its cues have ended.
\<close>

definition cue_id_of :: "orchestra \<Rightarrow> nat \<Rightarrow> string" where
  "cue_id_of s x = cu_cue_id (op_cued (operation_at s x))"

text \<open>All cues that a scene has admitted, in the order of their admission.\<close>

definition scene_cues :: "orchestra \<Rightarrow> nat \<Rightarrow> nat list" where
  "scene_cues s sc = [x \<leftarrow> [0..<or_next_op s]. scene_of s x = sc]"

fun phase_later :: "scene_phase \<Rightarrow> scene_phase \<Rightarrow> bool" where
  "phase_later SceneClosed q = (q = SceneClosed)"
| "phase_later SceneClosing q = (q = SceneClosing \<or> q = SceneClosed)"
| "phase_later _ q = True"

fun scope_later :: "orch_scene option \<Rightarrow> orch_scene option \<Rightarrow> bool" where
  "scope_later (Some a) (Some b) \<longleftrightarrow> sc_name b = sc_name a \<and> sc_counter b = sc_counter a \<and> phase_later (sc_phase a) (sc_phase b)"
| "scope_later None None = True"
| "scope_later _ _ = False"

definition keeps_scenes :: "orchestra \<Rightarrow> orchestra \<Rightarrow> bool" where
  "keeps_scenes s t \<longleftrightarrow>
     or_next_op t = or_next_op s \<and> (\<forall>x. scene_of t x = scene_of s x \<and> cue_id_of t x = cue_id_of s x) \<and>
     (\<forall>sc. scope_later (or_scenes s sc) (or_scenes t sc))"

lemma phase_later_refl [simp]: "phase_later p p"
  by (cases p) simp_all

lemma phase_later_trans: "phase_later p q \<Longrightarrow> phase_later q r \<Longrightarrow> phase_later p r"
  by (cases p; cases q) auto

lemma scope_later_refl [simp]: "scope_later a a"
  by (cases a) simp_all

lemma scope_later_trans: "scope_later a b \<Longrightarrow> scope_later b c \<Longrightarrow> scope_later a c"
  by (cases a; cases b; cases c) (auto intro: phase_later_trans)

lemma scope_later_upd:
  "scope_later (Some a) (Some b) \<Longrightarrow> m sc = Some a \<Longrightarrow> scope_later (m x) ((m(sc \<mapsto> b)) x)"
  by simp

lemma keeps_scenes_refl [simp]: "keeps_scenes s s"
  by (simp add: keeps_scenes_def)

lemma keeps_scenes_trans: "keeps_scenes s t \<Longrightarrow> keeps_scenes t u \<Longrightarrow> keeps_scenes s u"
  unfolding keeps_scenes_def by (metis scope_later_trans)

lemma keeps_scenes_same:
  "or_ops t = or_ops s \<Longrightarrow> or_next_op t = or_next_op s \<Longrightarrow> or_scenes t = or_scenes s \<Longrightarrow> keeps_scenes s t"
  by (simp add: keeps_scenes_def scene_of_def cue_id_of_def operation_at_def)

lemma keeps_scenes_op:
  "or_ops t = (or_ops s)(x \<mapsto> op) \<Longrightarrow> op_scene op = scene_of s x \<Longrightarrow> cu_cue_id (op_cued op) = cue_id_of s x \<Longrightarrow>
   or_next_op t = or_next_op s \<Longrightarrow> or_scenes t = or_scenes s \<Longrightarrow> keeps_scenes s t"
  by (simp add: keeps_scenes_def scene_of_def cue_id_of_def operation_at_def)

lemma keeps_scenes_scope:
  "or_ops t = or_ops s \<Longrightarrow> or_next_op t = or_next_op s \<Longrightarrow> or_scenes t = (or_scenes s)(sc \<mapsto> b) \<Longrightarrow>
   or_scenes s sc = Some a \<Longrightarrow> scope_later (Some a) (Some b) \<Longrightarrow> keeps_scenes s t"
  by (simp add: keeps_scenes_def scene_of_def cue_id_of_def operation_at_def)

subsection \<open>What keeps the scenes\<close>

lemma keeps_scenes_simple [simp]:
  "keeps_scenes s (resolve_terminal_signal sig s)" "keeps_scenes s (panic_with m s)" "keeps_scenes s (set_stage x stage sig s)"
  "keeps_scenes s (observe_scene sc sh s)" "keeps_scenes s (observe_closed sc s)" "keeps_scenes s (observe x h s)"
  "keeps_scenes s (fst (unlink_terminal_operation x s))" "keeps_scenes s (enqueue_operation x s)"
  "keeps_scenes s (dispatch_scheduled x sig s)"
  by (rule keeps_scenes_same;
      simp add: resolve_terminal_signal_def panic_with_def set_stage_def observe_scene_def observe_closed_def observe_def
        unlink_terminal_operation_def enqueue_operation_def drain_from_def dispatch_scheduled_def Let_def case_prod_beta
        split: option.split)+

lemma keeps_scenes_fields [simp]:
  "keeps_scenes s (s \<lparr> or_dispatch := d \<rparr>)" "keeps_scenes s (s \<lparr> or_callback := b \<rparr>)" "keeps_scenes s (s \<lparr> or_fallback := b \<rparr>)"
  "keeps_scenes s (s \<lparr> or_cancelling := b \<rparr>)" "keeps_scenes s (s \<lparr> or_closing := cl \<rparr>)" "keeps_scenes s (s \<lparr> or_txn := tx \<rparr>)"
  "keeps_scenes s (s \<lparr> or_commits := cs \<rparr>)" "keeps_scenes s (s \<lparr> or_binding_live := bl \<rparr>)" "keeps_scenes s (s \<lparr> or_turn_live := live \<rparr>)"
  "keeps_scenes s (s \<lparr> or_actor_live := al, or_mailboxes := ms \<rparr>)"
  by (rule keeps_scenes_same; simp)+

lemma keeps_scenes_set_state [simp]: "keeps_scenes s (set_state x st s)"
  by (rule keeps_scenes_op [where op = "(operation_at s x) \<lparr> op_state := st \<rparr>"])
    (simp_all add: set_state_def scene_of_def cue_id_of_def)

lemma keeps_scenes_set_cued: "cu_cue_id cued = cue_id_of s x \<Longrightarrow> keeps_scenes s (set_cued x cued s)"
  by (rule keeps_scenes_op [where op = "(operation_at s x) \<lparr> op_cued := cued \<rparr>"])
    (simp_all add: set_cued_def scene_of_def)

lemma keeps_scenes_close_cued [simp]: "keeps_scenes s (close_cued_inline x s)"
  by (rule keeps_scenes_op [where op = "(operation_at s x) \<lparr> op_cued := fst (close_inline (or_turn_live s) (op_cued (operation_at s x))) \<rparr>"])
    (simp_all add: close_cued_inline_def scene_of_def cue_id_of_def close_inline_def)

lemma keeps_scenes_finished [simp]: "keeps_scenes s (scene_operation_finished x s)"
proof (cases "or_scenes s (op_scene (operation_at s x))")
  case None
  then show ?thesis by (simp add: scene_operation_finished_def)
next
  case (Some scope)
  show ?thesis
    by (rule keeps_scenes_scope [OF _ _ _ Some, where b = "fst (operation_finished_locked x scope)"])
      (use Some in \<open>simp_all add: scene_operation_finished_def operation_finished_eq observe_closed_def observe_scene_def Let_def\<close>)
qed

lemma keeps_scenes_dropped [simp]: "keeps_scenes s (admission_dropped sc token s)"
proof (cases "or_scenes s sc")
  case None
  then show ?thesis by (simp add: admission_dropped_def)
next
  case (Some scope)
  show ?thesis
  proof (cases "snd (rollback_admission_locked token scope)")
    case None
    then show ?thesis using Some by (simp add: admission_dropped_def case_prod_beta)
  next
    case act: (Some act)
    have "scope_later (Some scope) (Some (fst (rollback_admission_locked token scope)))"
      by (simp add: rollback_admission_locked_def split: scene_phase.split)
    then show ?thesis
      using Some act by (intro keeps_scenes_scope [OF _ _ _ Some, where b = "fst (rollback_admission_locked token scope)"])
        (simp_all add: admission_dropped_def observe_scene_def case_prod_beta Let_def split: option.split)
  qed
qed

lemma keeps_scenes_begin:
  assumes "or_scenes s sc = Some scope"
  shows "keeps_scenes s (begin_event sc scope s)"
proof (cases "sc_phase scope = SceneOpen")
  case True
  then show ?thesis
    by (intro keeps_scenes_scope [OF _ _ _ assms, where b = "fst (begin_admission scope)"])
      (simp_all add: begin_event_def begin_admission_def)
qed (simp add: begin_event_def begin_admission_def)

lemma keeps_scenes_close:
  assumes "or_scenes s sc = Some scope"
  shows "keeps_scenes s (close_scene sc scope s)"
proof (cases "snd (close_locked scope)")
  case None
  then show ?thesis by (simp add: close_scene_def case_prod_beta)
next
  case (Some act)
  have "scope_later (Some scope) (Some (fst (close_locked scope)))"
    by (simp add: close_locked_def split: scene_phase.split)
  then show ?thesis
    using Some by (intro keeps_scenes_scope [OF _ _ _ assms, where b = "fst (close_locked scope)"])
      (simp_all add: close_scene_def observe_scene_def observe_closed_def case_prod_beta Let_def split: close_action.split)
qed

lemma keeps_scenes_wait:
  assumes "or_scenes s sc = Some scope"
  shows "keeps_scenes s (wait_closed sc scope s)"
  by (rule keeps_scenes_scope [OF _ _ _ assms, where b = "fst (wait_closed_turn scope)"])
    (simp_all add: wait_closed_def wait_closed_turn_def observe_scene_def observe_closed_def Let_def)

lemma keeps_scenes_complete: "keeps_scenes s (fst (complete_terminal_action x action w s))"
proof -
  let ?s1 = "if ta_close_cued action then close_cued_inline x s else s"
  let ?s2 = "if w then fst (unlink_terminal_operation x ?s1) else ?s1"
  have eq: "fst (complete_terminal_action x action w s) = scene_operation_finished x ?s2"
    by (simp add: complete_terminal_action_def Let_def case_prod_beta)
  have a: "keeps_scenes s ?s1" by simp
  have b: "keeps_scenes ?s1 ?s2" by simp
  have c: "keeps_scenes ?s2 (scene_operation_finished x ?s2)" by simp
  show ?thesis unfolding eq by (rule keeps_scenes_trans [OF keeps_scenes_trans [OF a b] c])
qed

lemma keeps_scenes_finish: "keeps_scenes s (finish_terminal_action x action s)"
proof -
  obtain t n where t: "complete_terminal_action x action True s = (t, n)" by fastforce
  have a: "keeps_scenes s t" using keeps_scenes_complete [of s x action True] t by simp
  have b: "keeps_scenes t (finish_terminal_action x action s)"
    using t by (simp add: finish_terminal_action_def split: option.split)
  show ?thesis by (rule keeps_scenes_trans [OF a b])
qed

lemma keeps_scenes_perform: "keeps_scenes s (perform_terminal_action x action s)"
proof -
  let ?s1 = "observe x (HookTerminal (ta_diagnostic_outcome action) (terminal_error (state_at s x) \<noteq> None)
    (or_actor_live s (op_actor (operation_at s x)))) s"
  let ?s2 = "fst (complete_terminal_action x action False ?s1)"
  have a: "keeps_scenes s ?s1" by simp
  have b: "keeps_scenes ?s1 (finish_terminal_action x action ?s1)" by (rule keeps_scenes_finish)
  have c: "keeps_scenes ?s1 ?s2" by (rule keeps_scenes_complete)
  have d: "keeps_scenes ?s2 (resolve_terminal_signal (ta_signal action) ?s2)" by simp
  show ?thesis
    using keeps_scenes_trans [OF a b] keeps_scenes_trans [OF keeps_scenes_trans [OF a c] d]
    by (cases "or_actor_live s (op_actor (operation_at s x))") (simp_all add: perform_terminal_action_def Let_def case_prod_beta)
qed

lemma keeps_scenes_finish_with_result: "keeps_scenes s (finish_with_result x result s)"
proof -
  have "keeps_scenes s (perform_terminal_action x action (set_state x st s))" for action st
    by (rule keeps_scenes_trans [OF _ keeps_scenes_perform]) simp
  then show ?thesis by (simp add: finish_with_result_def split: rust.split option.split)
qed

lemma keeps_scenes_request_cancel: "keeps_scenes s (request_cancel x s)"
proof -
  have a: "keeps_scenes s (observe x HookCancelRequested (set_state x st s))" for st
    by (rule keeps_scenes_trans [of s "set_state x st s"]) simp_all
  have b: "keeps_scenes s (perform_terminal_action x action (observe x HookCancelRequested (set_state x st s)))" for action st
    by (rule keeps_scenes_trans [OF a keeps_scenes_perform])
  have c: "keeps_scenes s ((observe x HookCancelRequested (set_state x st s)) \<lparr> or_cancelling := cs \<rparr>)" for st cs
    by (rule keeps_scenes_trans [OF a [of st]]) simp
  show ?thesis using b c by (simp add: request_cancel_def split: prod.split option.split request_action.split)
qed

lemma keeps_scenes_dispatch_failed: "keeps_scenes s (dispatch_failed x signal e s)"
proof -
  have a: "keeps_scenes s (set_state x st (s \<lparr> or_dispatch := d \<rparr>))" for st d
    by (rule keeps_scenes_trans [of s "s \<lparr> or_dispatch := d \<rparr>"]) simp_all
  have b: "keeps_scenes s (resolve_terminal_signal signal (set_state x st (s \<lparr> or_dispatch := d \<rparr>)))" for st d
    by (rule keeps_scenes_trans [OF a [of st d]]) simp
  have c: "keeps_scenes s (finish_terminal_action x action (resolve_terminal_signal signal (set_state x st (s \<lparr> or_dispatch := d \<rparr>))))"
    for action st d by (rule keeps_scenes_trans [OF b keeps_scenes_finish])
  show ?thesis using c by (simp add: dispatch_failed_def split: rust.split option.split)
qed

lemma keeps_scenes_dispatch:
  "keeps_scenes s (dispatch_start x signal ce s)" "keeps_scenes s (dispatch_called x signal r s)"
  "keeps_scenes s (dispatch_task x signal tr s)" "keeps_scenes s (dispatch_attached x signal r s)"
  "keeps_scenes s (dispatch_abandoned x signal b s)"
proof -
  have failed: "keeps_scenes s (dispatch_failed x signal e (close_cued_inline x s))" for e
    by (rule keeps_scenes_trans [OF _ keeps_scenes_dispatch_failed]) simp
  have stage: "keeps_scenes s (set_stage x stage signal (set_state x st s))" for stage st
    by (rule keeps_scenes_trans [of s "set_state x st s"]) simp_all
  have panic: "keeps_scenes s (panic_with m (set_state x st s))" for m st
    by (rule keeps_scenes_trans [of s "set_state x st s"]) simp_all
  have cb: "keeps_scenes s (dispatch_scheduled x signal (s \<lparr> or_callback := f \<rparr>))"
    "keeps_scenes s (dispatch_scheduled x signal (s \<lparr> or_fallback := f \<rparr>))" for f
    by (rule keeps_scenes_trans [of s "s \<lparr> or_callback := f \<rparr>"] keeps_scenes_trans [of s "s \<lparr> or_fallback := f \<rparr>"]; simp)+
  show "keeps_scenes s (dispatch_start x signal ce s)"
    by (simp add: dispatch_start_def keeps_scenes_dispatch_failed split: option.split)
  show "keeps_scenes s (dispatch_called x signal r s)"
    by (simp add: dispatch_called_def keeps_scenes_dispatch_failed split: option.split)
  show "keeps_scenes s (dispatch_task x signal tr s)"
    by (simp add: dispatch_task_def failed stage panic Let_def split: sum.split prod.split)
  show "keeps_scenes s (dispatch_attached x signal r s)"
    by (simp add: dispatch_attached_def cb stage split: option.split prod.split bool.split)
  show "keeps_scenes s (dispatch_abandoned x signal b s)" by (simp add: dispatch_abandoned_def cb)
qed

lemma keeps_scenes_commit_enqueue: "keeps_scenes s (commit_enqueue x token s)"
  by (simp add: commit_enqueue_def operation_enqueue_def)

subsection \<open>Steps that do more\<close>

text \<open>Every step keeps the scenes, or opens one, or commits an admission that a scene had begun.\<close>

definition committed :: "nat \<Rightarrow> orch_scene \<Rightarrow> orchestra \<Rightarrow> orchestra \<Rightarrow> bool" where
  "committed sc scope s t \<longleftrightarrow>
     or_next_op t = Suc (or_next_op s) \<and> scene_of t (or_next_op s) = sc \<and>
     cue_id_of t (or_next_op s) = sc_name scope @ ''-cue'' @ decimal_from_py_int (sc_counter scope) \<and>
     (\<forall>x. x \<noteq> or_next_op s \<longrightarrow> scene_of t x = scene_of s x \<and> cue_id_of t x = cue_id_of s x) \<and>
     (\<forall>d. d \<noteq> sc \<longrightarrow> or_scenes t d = or_scenes s d) \<and>
     (\<exists>scope'. or_scenes t sc = Some scope' \<and> sc_name scope' = sc_name scope \<and> sc_counter scope' = sc_counter scope + 1)"

lemma commit_admission_scenes:
  assumes inv: "orch_inv {} {} {} s" and txn: "or_txn s sc = Some (token, Some (cue_id, count))"
  obtains scope t where "or_scenes s sc = Some scope" "sc_phase scope \<notin> {SceneClosing, SceneClosed}"
    "committed sc scope s t" "keeps_scenes t (commit_admission sc a source token cue_id count s)"
proof -
  let ?n = "or_next_op s"
  let ?op = "\<lparr> op_scene = sc, op_actor = a, op_cued = new_cued_scope source a cue_id, op_state = new_operation_state ?n ?n \<rparr>"
  obtain scope where sc: "or_scenes s sc = Some scope"
    using inv txn by (cases "or_scenes s sc") (auto simp: orch_inv_def inv_txn_def)
  have "txn_ok (Some (token, Some (cue_id, count))) scope" using invD_scene [OF inv sc] txn by simp
  then have ok: "sc_phase scope \<in> {SceneAdmitting token, SceneClosePending token}" "(cue_id, count) = prepare_admission scope"
    by (auto simp: txn_ok_def)
  then obtain scope' ops where commit: "commit_locked token count ?n scope = Some (scope', ops)"
    "sc_name scope' = sc_name scope" "sc_counter scope' = count"
    by (auto simp: commit_locked_def)
  let ?t = "observe ?n HookAdmitted (s \<lparr> or_ops := (or_ops s)(?n \<mapsto> ?op), or_next_op := Suc ?n,
              or_scenes := (or_scenes s)(sc \<mapsto> scope'), or_txn := (or_txn s)(sc := None) \<rparr>)"
  have t: "committed sc scope s ?t"
    using ok(2) commit(2,3)
    by (simp add: committed_def observe_def scene_of_def cue_id_of_def operation_at_def new_cued_scope_def prepare_admission_def)
  have "keeps_scenes ?t (commit_admission sc a source token cue_id count s)"
  proof (cases ops)
    case None
    then show ?thesis using sc commit(1) keeps_scenes_commit_enqueue by (simp add: commit_admission_def Let_def)
  next
    case (Some l)
    let ?u = "observe_scene sc CancellationStarted ?t"
    have a: "keeps_scenes ?t ?u" by (rule keeps_scenes_simple)
    have b: "keeps_scenes ?u (?u \<lparr> or_commits := (or_commits ?t)(?n \<mapsto> (token, l)) \<rparr>)" by (rule keeps_scenes_fields)
    show ?thesis using keeps_scenes_trans [OF a b] Some sc commit(1) by (simp add: commit_admission_def Let_def)
  qed
  then show ?thesis using that [OF sc _ t] ok(1) by auto
qed

lemma orch_step_scenes:
  assumes inv: "orch_inv {} {} {} s" and step: "orch_step ev s = Some s'"
  obtains (kept) "keeps_scenes s s'"
  | (opened) sc name where "or_scenes s sc = None" "s' = s \<lparr> or_scenes := (or_scenes s)(sc \<mapsto> new_scene name) \<rparr>"
  | (committed) sc scope t where "or_scenes s sc = Some scope" "sc_phase scope \<notin> {SceneClosing, SceneClosed}"
      "committed sc scope s t" "keeps_scenes t s'"
proof -
  have two: ?thesis if "keeps_scenes s t" "keeps_scenes t s'" for t by (rule kept [OF keeps_scenes_trans [OF that]])
  from step show ?thesis
  proof (cases rule: orch_stepE)
    case call
    from call(2) show ?thesis
    proof (cases rule: call_stepE)
      case (Commit sc a source token cue_id n)
      show ?thesis
        by (rule commit_admission_scenes [OF inv Commit(2), of a source]) (rule committed, use Commit(3) in simp_all)
    next
      case (Drop sc token p)
      show ?thesis by (rule two [of "s \<lparr> or_txn := (or_txn s)(sc := None) \<rparr>"]) (simp_all add: Drop(3))
    next
      case (Cancel c token target rest)
      show ?thesis by (rule two [of "s \<lparr> or_commits := (or_commits s)(c \<mapsto> (token, rest)) \<rparr>"])
          (simp_all add: Cancel keeps_scenes_request_cancel)
    next
      case (Close sc target rest)
      show ?thesis by (rule two [of "s \<lparr> or_closing := (or_closing s)(sc \<mapsto> rest) \<rparr>"])
          (simp_all add: Close(3) keeps_scenes_request_cancel)
    next
      case (Enqueue c token)
      show ?thesis by (rule two [of "s \<lparr> or_commits := (or_commits s)(c := None) \<rparr>"])
          (simp_all add: Enqueue(3) keeps_scenes_commit_enqueue)
    next
      case (Returned c r)
      show ?thesis by (rule two [of "case r of None \<Rightarrow> s | Some e \<Rightarrow> set_state c (record_cancel_error e (state_at s c)) s"])
          (simp_all add: Returned(3) split: option.split)
    qed (rule kept, simp add: keeps_scenes_dispatch)+
  next
    case outside
    from outside(2) show ?thesis
    proof (cases rule: outside_stepE)
      case (Open sc name)
      then show ?thesis using opened by blast
    next
      case (Begin sc scope)
      show ?thesis using kept keeps_scenes_begin [OF Begin(2)] Begin(3) by simp
    next
      case (CloseS sc scope)
      show ?thesis using kept keeps_scenes_close [OF CloseS(2)] CloseS(3) by simp
    next
      case (Wait sc scope)
      show ?thesis using kept keeps_scenes_wait [OF Wait(2)] Wait(3) by simp
    next
      case (Request c)
      show ?thesis using kept keeps_scenes_request_cancel Request(3) by simp
    next
      case (Result c r)
      show ?thesis by (rule two [of "s \<lparr> or_callback := (or_callback s)(c := False) \<rparr>"])
          (simp_all add: Result(3) keeps_scenes_finish_with_result)
    next
      case (Poll c p)
      have a: "keeps_scenes s (s \<lparr> or_fallback := f \<rparr>)" for f by simp
      have b: "keeps_scenes s (finish_with_result c r (s \<lparr> or_fallback := f \<rparr>))" for r f
        by (rule keeps_scenes_trans [OF a [of f] keeps_scenes_finish_with_result])
      show ?thesis
        by (rule kept) (simp add: Poll(3) fallback_called_def b Let_def split: option.split fallback_poll.split)
    next
      case (Turn c turn)
      show ?thesis
        by (rule two [of "set_cued c (fst (register_agent_turn (or_turn_live s) turn (op_cued (operation_at s c)))) s"])
          (simp_all add: Turn(3) keeps_scenes_set_cued cue_id_of_def register_agent_turn_def)
    next
      case (Effect c)
      show ?thesis by (rule kept) (simp add: Effect(3) keeps_scenes_set_cued cue_id_of_def next_effect_id_def)
    qed (rule kept, simp)+
  qed
qed

subsection \<open>Scenes number their cues\<close>

lemma scene_cues_kept: "keeps_scenes s t \<Longrightarrow> scene_cues t = scene_cues s"
  by (simp add: keeps_scenes_def scene_cues_def fun_eq_iff)

lemma scene_cues_committed:
  assumes "committed sc scope s t"
  shows "scene_cues t d = scene_cues s d @ (if d = sc then [or_next_op s] else [])"
proof -
  have "[x \<leftarrow> [0..<or_next_op s]. scene_of t x = d] = [x \<leftarrow> [0..<or_next_op s]. scene_of s x = d]"
    using assms by (intro filter_cong) (auto simp: committed_def)
  then show ?thesis using assms by (auto simp: scene_cues_def committed_def)
qed

definition inv_ids :: "orchestra \<Rightarrow> bool" where
  "inv_ids s \<longleftrightarrow>
     (\<forall>sc. or_scenes s sc = None \<longrightarrow> scene_cues s sc = []) \<and>
     (\<forall>sc scope. or_scenes s sc = Some scope \<longrightarrow>
        sc_counter scope = int (length (scene_cues s sc)) \<and>
        map (cue_id_of s) (scene_cues s sc) =
          map (\<lambda>k. sc_name scope @ ''-cue'' @ nat_decimal k) [0..<length (scene_cues s sc)])"

lemma inv_ids_kept:
  assumes keep: "keeps_scenes s t" and ids: "inv_ids s"
  shows "inv_ids t"
proof -
  have cues: "scene_cues t = scene_cues s" and id: "cue_id_of t = cue_id_of s"
    using keep scene_cues_kept by (auto simp: keeps_scenes_def fun_eq_iff)
  have later: "scope_later (or_scenes s sc) (or_scenes t sc)" for sc using keep by (simp add: keeps_scenes_def)
  have none: "or_scenes t sc = None \<Longrightarrow> or_scenes s sc = None" for sc
    using later [of sc] by (cases "or_scenes s sc") simp_all
  have some: "\<exists>a. or_scenes s sc = Some a \<and> sc_name b = sc_name a \<and> sc_counter b = sc_counter a"
    if "or_scenes t sc = Some b" for sc b
    using later [of sc] that by (cases "or_scenes s sc") simp_all
  show ?thesis unfolding inv_ids_def cues id
  proof (intro conjI allI impI)
    fix sc assume "or_scenes t sc = None"
    then show "scene_cues s sc = []" using none ids by (simp add: inv_ids_def)
  next
    fix sc b assume "or_scenes t sc = Some b"
    then obtain a where a: "or_scenes s sc = Some a" "sc_name b = sc_name a" "sc_counter b = sc_counter a" using some by blast
    then show "sc_counter b = int (length (scene_cues s sc))"
      "map (cue_id_of s) (scene_cues s sc) = map (\<lambda>k. sc_name b @ ''-cue'' @ nat_decimal k) [0..<length (scene_cues s sc)]"
      using ids by (simp_all add: inv_ids_def)
  qed
qed

lemma inv_ids_committed:
  assumes c: "committed sc scope s t" and sc: "or_scenes s sc = Some scope" and ids: "inv_ids s"
  shows "inv_ids t"
proof -
  note cues = scene_cues_committed [OF c]
  have old: "x \<in> set (scene_cues s d) \<Longrightarrow> cue_id_of t x = cue_id_of s x" for x d
    using c by (auto simp: committed_def scene_cues_def)
  then have ids_old: "map (cue_id_of t) (scene_cues s d) = map (cue_id_of s) (scene_cues s d)" for d by simp
  have new: "cue_id_of t (or_next_op s) = sc_name scope @ ''-cue'' @ nat_decimal (length (scene_cues s sc))"
    using c ids sc by (simp add: committed_def inv_ids_def decimal_from_py_int_eq)
  have scenes: "d \<noteq> sc \<Longrightarrow> or_scenes t d = or_scenes s d"
    "\<exists>scope'. or_scenes t sc = Some scope' \<and> sc_name scope' = sc_name scope \<and> sc_counter scope' = sc_counter scope + 1" for d
    using c by (simp_all add: committed_def)
  show ?thesis unfolding inv_ids_def
  proof (intro conjI allI impI)
    fix d assume "or_scenes t d = None"
    then show "scene_cues t d = []" using scenes ids by (cases "d = sc") (auto simp: cues inv_ids_def)
  next
    fix d b assume b: "or_scenes t d = Some b"
    show "sc_counter b = int (length (scene_cues t d))"
      using b scenes ids sc by (cases "d = sc") (auto simp: cues inv_ids_def)
    show "map (cue_id_of t) (scene_cues t d) = map (\<lambda>k. sc_name b @ ''-cue'' @ nat_decimal k) [0..<length (scene_cues t d)]"
      using b scenes ids sc new by (cases "d = sc") (auto simp: cues ids_old inv_ids_def)
  qed
qed

lemma orch_run_ids:
  assumes "orch_run allowed (orchestra_init actors) s" "or_panic s = None"
  shows "inv_ids s"
  using assms
proof (induction rule: orch_run.induct)
  case orch_run_start
  show ?case by (simp add: inv_ids_def scene_cues_def orchestra_init_def)
next
  case (orch_run_step s ev s')
  have calm: "or_panic s = None" by (rule orch_step_calm [OF orch_run_step.hyps(3)])
  have inv: "orch_inv {} {} {} s" by (rule orch_run_inv [OF orch_run_step.hyps(1) calm])
  note ids = orch_run_step.IH [OF calm]
  from inv orch_run_step.hyps(3) show ?case
  proof (cases rule: orch_step_scenes)
    case kept
    then show ?thesis using ids by (rule inv_ids_kept)
  next
    case (opened sc name)
    have v: "or_ops s' = or_ops s" by (simp add: opened(2))
    have "scene_cues s' = scene_cues s" "cue_id_of s' = cue_id_of s"
      by (simp_all add: scene_cues_def cue_id_of_def fun_eq_iff views_ops [OF v] opened(2) operation_at_def scene_of_def)
    then show ?thesis using ids opened by (auto simp: inv_ids_def new_scene_def)
  next
    case (committed sc scope t)
    have "inv_ids t" by (rule inv_ids_committed [OF committed(3,1) ids])
    then show ?thesis by (rule inv_ids_kept [OF committed(4)])
  qed
qed

text \<open>C27. The cues that a scene admits are numbered: in the order of admission, over the whole life of the scene,
  their identifiers are its name, the text \<^verbatim>\<open>-cue\<close> and the decimal numbers 0, 1, 2 and so on, with no number left
  out by admissions that were dropped, and however large the counter gets. So no two cues of a scene have the
  same identifier.\<close>

theorem cue_ids_count_admissions:
  assumes "orch_run allowed (orchestra_init actors) s" "or_panic s = None" "or_scenes s sc = Some scope"
  shows "map (cue_id_of s) (scene_cues s sc) =
           map (\<lambda>k. sc_name scope @ ''-cue'' @ nat_decimal k) [0..<length (scene_cues s sc)]"
  using orch_run_ids [OF assms(1,2)] assms(3) by (simp add: inv_ids_def)

theorem cue_ids_count_admissions_witness:
  "map (cue_id_of (after any_event two_cues everybody)) [0, 1] = [''Hall-cue0'', ''Hall-cue1'']"
proof -
  let ?s = "after any_event two_cues everybody"
  have run: "orch_run any_event (orchestra_init (\<lambda>_. True)) ?s"
    unfolding everybody_def by (rule after_run) (simp add: orch_demo)
  have calm: "or_panic ?s = None" by (simp add: orch_demo)
  have scope: "or_scenes ?s 0 = Some (the (or_scenes ?s 0))" "sc_name (the (or_scenes ?s 0)) = ''Hall''"
    by (simp_all add: orch_demo)
  have "scene_cues ?s 0 = [0, 1]" by (simp add: orch_demo scene_cues_def scene_of_def)
  moreover have "nat_decimal 0 = ''0''" "nat_decimal 1 = ''1''"
    by (simp_all add: nat_decimal.simps digit_char_def char_of_def bit_iff_odd)
  ultimately show ?thesis
    using cue_ids_count_admissions [OF run calm scope(1)] scope(2) by simp
qed

subsection \<open>Scenes close for good\<close>

lemma closing_kept:
  assumes "orch_run allowed (orchestra_init actors) s" "orch_run allowed' s t" "or_panic t = None"
    and "or_scenes s sc = Some scope" "sc_phase scope \<in> {SceneClosing, SceneClosed}"
  shows "\<exists>scope'. or_scenes t sc = Some scope' \<and> phase_later (sc_phase scope) (sc_phase scope') \<and> scene_cues t sc = scene_cues s sc"
  using assms(2,3)
proof (induction rule: orch_run.induct)
  case orch_run_start
  then show ?case using assms(4) by simp
next
  case (orch_run_step t ev t')
  have calm: "or_panic t = None" by (rule orch_step_calm [OF orch_run_step.hyps(3)])
  then obtain b where b: "or_scenes t sc = Some b" "phase_later (sc_phase scope) (sc_phase b)" "scene_cues t sc = scene_cues s sc"
    using orch_run_step.IH by blast
  have closing: "sc_phase b \<in> {SceneClosing, SceneClosed}" using b(2) assms(5) by auto
  have inv: "orch_inv {} {} {} t" using orch_run_advances [OF assms(1) orch_run_step.hyps(1) calm] by blast
  have keep: "\<exists>scope'. or_scenes u sc = Some scope' \<and> phase_later (sc_phase scope) (sc_phase scope') \<and> scene_cues u sc = scene_cues s sc"
    if u: "keeps_scenes u' u" "or_scenes u' sc = Some b" "scene_cues u' sc = scene_cues s sc" for u' u
  proof -
    have "scope_later (Some b) (or_scenes u sc)" using u(1,2) unfolding keeps_scenes_def by metis
    then show ?thesis
      using b(2) u(3) scene_cues_kept [OF u(1)] by (cases "or_scenes u sc") (auto intro: phase_later_trans)
  qed
  from inv orch_run_step.hyps(3) show ?case
  proof (cases rule: orch_step_scenes)
    case kept
    then show ?thesis using b(1,3) by (rule keep)
  next
    case (opened d name)
    then have "scene_cues t' = scene_cues t" by (simp add: scene_cues_def fun_eq_iff scene_of_def operation_at_def)
    then show ?thesis using b opened by (cases "d = sc") auto
  next
    case (committed d scope' u)
    then have "d \<noteq> sc" using b(1) closing by auto
    then have "or_scenes u sc = Some b" "scene_cues u sc = scene_cues s sc"
      using committed(3) b(1,3) scene_cues_committed [OF committed(3), of sc] by (auto simp: committed_def)
    then show ?thesis by (rule keep [OF committed(4)])
  qed
qed



end
