(* ===== verification/Cue_Producer.thy ===== *)
theory Cue_Producer
  imports Orchestra Kinds
begin

section \<open>The producer of cue events\<close>

text \<open>
  \<^verbatim>\<open>diagnostic_runtime/cue_producer.rs\<close> turns the hooks of the orchestra into diagnostic events: for every cue it keeps
  a lifecycle, checks that each hook comes in the phase it belongs to, and emits instants, spans and counters. A hook
  out of its phase is a fault of the program: it latches a failure of the diagnostics, and the cue tells no more.

  The other producers answer at each hook of an operation what the code asks them (\<open>cue_lineage\<close>), and the context of the
  Run answers each emission with the sequence number of the event, or an error (\<open>answer\<close>, which may depend on all
  emissions so far and their answers). The lifecycles are kept by the identity of the operation, as the code keeps
  them by that of its context, which a lifecycle keeps alive.
\<close>

subsection \<open>State\<close>

datatype cue_phase =
    CpStarting
  | CpAdmitted u64
  | CpEnqueued u64 u64
  | CpDispatched u64
  | CpTerminal "u64 option"

record cue_lifecycle =
  cl_scene_span :: u64
  cl_phase :: cue_phase
  cl_cancel_sequence :: "u64 option"
  cl_caller_finished :: bool
  cl_failed :: bool

type_synonym links = "(u64 \<times> CausalRelation) list"

datatype emission_scope = CueScopeOf nat | ActorScopeOf nat

datatype emission =
    EmInstant nat InstantKind "u64 option" links
  | EmStart nat SpanKind "u64 option" links
  | EmFinish nat u64 SpanOutcome "string option" links
  | EmCounter emission_scope CounterKind u64 links

type_synonym emit_answer = "(emission \<times> (nat + u64)) list \<Rightarrow> emission \<Rightarrow> nat + u64"

record cue_producers =
  cp_active :: "nat \<Rightarrow> cue_lifecycle option"
  cp_next_cue_id :: u64
  cp_emitted :: "(emission \<times> (nat + u64)) list"
  cp_effects_ended :: "(nat \<times> cue_terminal_outcome \<times> u64) list"
  cp_state_failures :: "string list"
  cp_diagnostic_failures :: "nat list"

definition cue_producers_init :: cue_producers where
  "cue_producers_init =
     \<lparr> cp_active = (\<lambda>_. None), cp_next_cue_id = 1, cp_emitted = [], cp_effects_ended = [],
       cp_state_failures = [], cp_diagnostic_failures = [] \<rparr>"

text \<open>What the binding of the operation, the runtime producer, the scene and actor producers and the context of the
  Run say of an operation.\<close>

record cue_lineage =
  ln_binding :: bool
  ln_runtime :: bool
  ln_scene :: bool
  ln_actor :: bool
  ln_scene_span :: "u64 option"
  ln_actor_lineage :: bool
  ln_scene_id :: bool
  ln_actor_id :: bool
  ln_context :: "nat option"

subsection \<open>Failing\<close>

definition latch_state_failure :: "string \<Rightarrow> cue_producers \<Rightarrow> cue_producers" where
  "latch_state_failure code p = p \<lparr> cp_state_failures := cp_state_failures p @ [code] \<rparr>"

definition latch_diagnostic_failure :: "nat \<Rightarrow> cue_producers \<Rightarrow> cue_producers" where
  "latch_diagnostic_failure e p = p \<lparr> cp_diagnostic_failures := cp_diagnostic_failures p @ [e] \<rparr>"

definition fail_state :: "string \<Rightarrow> cue_lifecycle \<Rightarrow> cue_producers \<Rightarrow> cue_lifecycle \<times> cue_producers" where
  "fail_state code l p = (l \<lparr> cl_failed := True \<rparr>, latch_state_failure code p)"

definition fail_diagnostic :: "nat \<Rightarrow> cue_lifecycle \<Rightarrow> cue_producers \<Rightarrow> cue_lifecycle \<times> cue_producers" where
  "fail_diagnostic e l p = (l \<lparr> cl_failed := True \<rparr>, latch_diagnostic_failure e p)"

definition try_emit ::
    "emit_answer \<Rightarrow> emission \<Rightarrow> cue_lifecycle \<Rightarrow> cue_producers \<Rightarrow>
     (u64 \<Rightarrow> cue_producers \<Rightarrow> cue_lifecycle \<times> cue_producers) \<Rightarrow> cue_lifecycle \<times> cue_producers" where
  "try_emit answer e l p go_on =
     (let result = answer (cp_emitted p) e;
          p' = p \<lparr> cp_emitted := cp_emitted p @ [(e, result)] \<rparr>
      in case result of Inl err \<Rightarrow> fail_diagnostic err l p' | Inr n \<Rightarrow> go_on n p')"

definition follows_from :: "u64 \<Rightarrow> links" where
  "follows_from source = [(source, FollowsFrom)]"

definition mailbox_depth :: "nat \<Rightarrow> bool \<Rightarrow> string + u64" where
  "mailbox_depth queued running =
     (let total = queued + (if running then 1 else 0)
      in if total < 2 ^ 64 then Inr (of_nat total) else Inl ''cue.mailbox-depth-overflow'')"

subsection \<open>Starting a lifecycle\<close>

definition next_cue_id :: "cue_producers \<Rightarrow> (string + string) \<times> cue_producers" where
  "next_cue_id p =
     (case checked_add_u64 (cp_next_cue_id p) 1 of
        None \<Rightarrow> (Inl ''cue.identifier-exhausted'', p)
      | Some n \<Rightarrow>
          ((case RunLocalId_parse (''cue-'' @ nat_decimal (unat (cp_next_cue_id p))) of
              Inl _ \<Rightarrow> Inl ''cue.identifier-invalid'' | Inr i \<Rightarrow> Inr i),
           p \<lparr> cp_next_cue_id := n \<rparr>))"

definition lifecycle_prepare :: "cue_lineage \<Rightarrow> cue_producers \<Rightarrow> (string + cue_lifecycle option) \<times> cue_producers" where
  "lifecycle_prepare lin p =
     (if \<not> ln_binding lin then (Inr None, p)
      else if \<not> ln_runtime lin then (Inr None, p)
      else if \<not> ln_scene lin then (Inl ''cue.scene-lineage-unavailable'', p)
      else if \<not> ln_actor lin then (Inl ''cue.actor-lineage-unavailable'', p)
      else case ln_scene_span lin of
        None \<Rightarrow> (Inl ''cue.scene-lineage-unavailable'', p)
      | Some the_span \<Rightarrow>
          if \<not> ln_actor_lineage lin then (Inl ''cue.actor-lineage-unavailable'', p)
          else if \<not> ln_scene_id lin then (Inl ''cue.scene-identifier-unavailable'', p)
          else if \<not> ln_actor_id lin then (Inl ''cue.actor-identifier-unavailable'', p)
          else case next_cue_id p of
            (Inl code, p') \<Rightarrow> (Inl code, p')
          | (Inr _, p') \<Rightarrow>
              (case ln_context lin of
                 Some e \<Rightarrow> (Inl ''cue.capture-context-failed'', latch_diagnostic_failure e p')
               | None \<Rightarrow>
                   (Inr (Some \<lparr> cl_scene_span = the_span, cl_phase = CpStarting, cl_cancel_sequence = None,
                                cl_caller_finished = False, cl_failed = False \<rparr>), p')))"

subsection \<open>The methods of a lifecycle\<close>

definition lifecycle_admitted :: "emit_answer \<Rightarrow> nat \<Rightarrow> cue_lifecycle \<Rightarrow> cue_producers \<Rightarrow> cue_lifecycle \<times> cue_producers" where
  "lifecycle_admitted answer x l p =
     (if cl_phase l \<noteq> CpStarting then fail_state ''cue.admission-transition-invalid'' l p
      else try_emit answer (EmInstant x CueAdmitted (Some (cl_scene_span l)) []) l p (\<lambda>admitted_sequence p.
           try_emit answer (EmCounter (CueScopeOf x) CueActive 1 (follows_from admitted_sequence)) l p (\<lambda>_ p.
           (l \<lparr> cl_phase := CpAdmitted admitted_sequence \<rparr>, p))))"

definition lifecycle_enqueued ::
    "emit_answer \<Rightarrow> nat \<Rightarrow> nat \<Rightarrow> bool \<Rightarrow> cue_lifecycle \<Rightarrow> cue_producers \<Rightarrow> cue_lifecycle \<times> cue_producers" where
  "lifecycle_enqueued answer x queued running l p =
     (if cl_failed l then (l, p)
      else case cl_phase l of
        CpAdmitted admitted_sequence \<Rightarrow>
          if \<not> running then fail_state ''cue.mailbox-running-snapshot-invalid'' l p
          else try_emit answer (EmInstant x CueEnqueued (Some (cl_scene_span l)) (follows_from admitted_sequence)) l p
                 (\<lambda>enqueued_sequence p.
               try_emit answer (EmStart x CueMailboxWait (Some (cl_scene_span l)) (follows_from enqueued_sequence)) l p
                 (\<lambda>wait_span_id p.
               case mailbox_depth queued running of
                 Inl code \<Rightarrow> fail_state code l p
               | Inr depth \<Rightarrow>
                   try_emit answer (EmCounter (ActorScopeOf x) ActorMailboxDepth depth (follows_from enqueued_sequence)) l p
                     (\<lambda>_ p. (l \<lparr> cl_phase := CpEnqueued enqueued_sequence wait_span_id \<rparr>, p))))
      | _ \<Rightarrow> fail_state ''cue.enqueue-transition-invalid'' l p)"

definition lifecycle_dispatched :: "emit_answer \<Rightarrow> nat \<Rightarrow> cue_lifecycle \<Rightarrow> cue_producers \<Rightarrow> cue_lifecycle \<times> cue_producers" where
  "lifecycle_dispatched answer x l p =
     (if cl_failed l then (l, p)
      else case cl_phase l of
        CpEnqueued enqueued_sequence wait_span_id \<Rightarrow>
          try_emit answer (EmInstant x CueDispatched (Some wait_span_id) [(enqueued_sequence, Dispatch)]) l p
            (\<lambda>dispatched_sequence p.
          try_emit answer (EmFinish x wait_span_id SpanOutcome.Completed None [(dispatched_sequence, Dispatch)]) l p
            (\<lambda>_ p.
          try_emit answer (EmStart x CueExecution (Some (cl_scene_span l)) [(dispatched_sequence, Dispatch)]) l p
            (\<lambda>execution_span_id p. (l \<lparr> cl_phase := CpDispatched execution_span_id \<rparr>, p))))
      | _ \<Rightarrow> fail_state ''cue.dispatch-transition-invalid'' l p)"

definition lifecycle_cancel_requested :: "emit_answer \<Rightarrow> nat \<Rightarrow> cue_lifecycle \<Rightarrow> cue_producers \<Rightarrow> cue_lifecycle \<times> cue_producers" where
  "lifecycle_cancel_requested answer x l p =
     (let request = (\<lambda>source containing.
            try_emit answer (EmInstant x CueCancelRequested (Some containing) [(source, Handoff)]) l p
              (\<lambda>n p. (l \<lparr> cl_cancel_sequence := Some n \<rparr>, p)))
      in if cl_failed l then (l, p)
         else if cl_cancel_sequence l \<noteq> None then fail_state ''cue.cancel-request-transition-invalid'' l p
         else case cl_phase l of
           CpAdmitted admitted_sequence \<Rightarrow> request admitted_sequence (cl_scene_span l)
         | CpEnqueued enqueued_sequence wait_span_id \<Rightarrow> request enqueued_sequence wait_span_id
         | CpDispatched execution_span_id \<Rightarrow> request execution_span_id execution_span_id
         | _ \<Rightarrow> fail_state ''cue.cancel-request-transition-invalid'' l p)"

definition lifecycle_caller_finished :: "cue_lifecycle \<Rightarrow> cue_producers \<Rightarrow> cue_lifecycle \<times> cue_producers" where
  "lifecycle_caller_finished l p =
     (if cl_caller_finished l then fail_state ''cue.caller-finish-transition-invalid'' l p
      else (l \<lparr> cl_caller_finished := True \<rparr>, p))"

fun is_dispatched :: "cue_phase \<Rightarrow> bool" where
  "is_dispatched (CpDispatched _) = True"
| "is_dispatched _ = False"

fun terminal_span :: "cue_terminal_outcome \<Rightarrow> cue_phase \<Rightarrow> SpanOutcome \<times> string option" where
  "terminal_span CueCompleted phase = (SpanOutcome.Completed, None)"
| "terminal_span CueCancelled phase = (SpanOutcome.Cancelled, Some ''cue-cancelled'')"
| "terminal_span CueCleanupFailed phase = (SpanOutcome.Failed, Some ''cue-cleanup-failed'')"
| "terminal_span CueFailed phase =
     (SpanOutcome.Failed, Some (if is_dispatched phase then ''cue-execution-failed'' else ''cue-dispatch-failed''))"

definition lifecycle_ending ::
    "emit_answer \<Rightarrow> nat \<Rightarrow> cue_terminal_outcome \<Rightarrow> u64 option \<Rightarrow> u64 \<Rightarrow> cue_lifecycle \<Rightarrow> cue_producers \<Rightarrow> cue_lifecycle \<times> cue_producers" where
  "lifecycle_ending answer x outcome span_id fallback_source l p =
     (if outcome = CueCompleted \<and> \<not> is_dispatched (cl_phase l)
      then fail_state ''cue.completed-before-dispatch'' l p
      else
        let source = (case cl_cancel_sequence l of Some n \<Rightarrow> n | None \<Rightarrow> fallback_source);
            relation = (if cl_cancel_sequence l \<noteq> None then Handoff else Return);
            (span_outcome, error_code) = terminal_span outcome (cl_phase l);
            p = p \<lparr> cp_effects_ended := cp_effects_ended p @ [(x, outcome, source)] \<rparr>;
            finish = (\<lambda>terminal_sequence p.
              try_emit answer (EmCounter (CueScopeOf x) CueActive 0 (follows_from terminal_sequence)) l p
                (\<lambda>active_zero_sequence p. (l \<lparr> cl_phase := CpTerminal (Some active_zero_sequence) \<rparr>, p)))
        in case span_id of
             Some the_span \<Rightarrow> try_emit answer (EmFinish x the_span span_outcome error_code [(source, relation)]) l p finish
           | None \<Rightarrow> finish source p)"

definition lifecycle_terminal ::
    "emit_answer \<Rightarrow> nat \<Rightarrow> cue_terminal_outcome \<Rightarrow> bool \<Rightarrow> cue_lifecycle \<Rightarrow> cue_producers \<Rightarrow> cue_lifecycle \<times> cue_producers" where
  "lifecycle_terminal answer x outcome has_error l p =
     (if cl_failed l then (l \<lparr> cl_phase := CpTerminal None \<rparr>, p)
      else if outcome \<noteq> CueCompleted \<and> \<not> has_error
      then (let (l', p') = fail_state ''cue.terminal-error-unavailable'' l p in (l' \<lparr> cl_phase := CpTerminal None \<rparr>, p'))
      else case cl_phase l of
        CpEnqueued enqueued_sequence wait_span_id \<Rightarrow>
          lifecycle_ending answer x outcome (Some wait_span_id) enqueued_sequence l p
      | CpDispatched execution_span_id \<Rightarrow>
          lifecycle_ending answer x outcome (Some execution_span_id) execution_span_id l p
      | CpAdmitted admitted_sequence \<Rightarrow> lifecycle_ending answer x outcome None admitted_sequence l p
      | _ \<Rightarrow> fail_state ''cue.terminal-transition-invalid'' l p)"

definition lifecycle_retired ::
    "emit_answer \<Rightarrow> nat \<Rightarrow> nat \<Rightarrow> bool \<Rightarrow> cue_lifecycle \<Rightarrow> cue_producers \<Rightarrow> cue_lifecycle \<times> cue_producers" where
  "lifecycle_retired answer x queued running l p =
     (case cl_phase l of
        CpTerminal terminal_sequence \<Rightarrow>
          if cl_failed l then (l, p)
          else (case mailbox_depth queued running of
                  Inl code \<Rightarrow> fail_state code l p
                | Inr depth \<Rightarrow>
                    try_emit answer
                      (EmCounter (ActorScopeOf x) ActorMailboxDepth depth
                         (case terminal_sequence of Some n \<Rightarrow> follows_from n | None \<Rightarrow> [])) l p
                      (\<lambda>_ p. (l, p)))
      | _ \<Rightarrow> fail_state ''cue.mailbox-retire-transition-invalid'' l p)"

definition lifecycle_lineage :: "nat \<Rightarrow> cue_producers \<Rightarrow> (u64 \<times> u64) option" where
  "lifecycle_lineage x p =
     (case cp_active p x of
        Some l \<Rightarrow> (case cl_phase l of CpDispatched execution_span_id \<Rightarrow> Some (cl_scene_span l, execution_span_id) | _ \<Rightarrow> None)
      | None \<Rightarrow> None)"

subsection \<open>The hooks\<close>

definition latch_missing :: "cue_lineage \<Rightarrow> string \<Rightarrow> cue_producers \<Rightarrow> cue_producers" where
  "latch_missing lin code p = (if ln_binding lin \<and> ln_runtime lin then latch_state_failure code p else p)"

text \<open>A method runs on the lifecycle that the table holds, and changes it in place.\<close>

definition in_place :: "nat \<Rightarrow> cue_lifecycle \<times> cue_producers \<Rightarrow> cue_producers" where
  "in_place x = (\<lambda>(l, p). p \<lparr> cp_active := (cp_active p)(x \<mapsto> l) \<rparr>)"

definition with_producer ::
    "cue_lineage \<Rightarrow> nat \<Rightarrow> (cue_lifecycle \<Rightarrow> cue_producers \<Rightarrow> cue_lifecycle \<times> cue_producers) \<Rightarrow> cue_producers \<Rightarrow> cue_producers" where
  "with_producer lin x apply_method p =
     (case cp_active p x of
        None \<Rightarrow> latch_missing lin ''cue.lifecycle-unavailable'' p
      | Some l \<Rightarrow> in_place x (apply_method l p))"

definition producer_admitted :: "cue_lineage \<Rightarrow> emit_answer \<Rightarrow> nat \<Rightarrow> cue_producers \<Rightarrow> cue_producers" where
  "producer_admitted lin answer x p =
     (if cp_active p x \<noteq> None then latch_missing lin ''cue.lifecycle-already-started'' p
      else case lifecycle_prepare lin p of
        (Inl code, p') \<Rightarrow> latch_missing lin code p'
      | (Inr None, p') \<Rightarrow> p'
      | (Inr (Some l), p') \<Rightarrow> in_place x (lifecycle_admitted answer x l p'))"

definition producer_remove :: "nat \<Rightarrow> cue_producers \<Rightarrow> cue_producers" where
  "producer_remove x p = p \<lparr> cp_active := (cp_active p)(x := None) \<rparr>"

definition producer_retired :: "cue_lineage \<Rightarrow> emit_answer \<Rightarrow> nat \<Rightarrow> nat \<Rightarrow> bool \<Rightarrow> cue_producers \<Rightarrow> cue_producers" where
  "producer_retired lin answer x queued running p =
     (case cp_active p x of
        Some l \<Rightarrow> producer_remove x (in_place x (lifecycle_retired answer x queued running l p))
      | None \<Rightarrow> latch_missing lin ''cue.mailbox-retire-without-lifecycle'' p)"

definition producer_terminal ::
    "cue_lineage \<Rightarrow> emit_answer \<Rightarrow> nat \<Rightarrow> cue_terminal_outcome \<Rightarrow> bool \<Rightarrow> bool \<Rightarrow> cue_producers \<Rightarrow> cue_producers" where
  "producer_terminal lin answer x outcome error_there actor_live p =
     (case cp_active p x of
        None \<Rightarrow> latch_missing lin ''cue.terminal-without-lifecycle'' p
      | Some l \<Rightarrow>
          (let p' = in_place x (lifecycle_terminal answer x outcome (outcome = CueCompleted \<or> error_there) l p)
           in if actor_live then p' else producer_remove x p'))"

fun produce :: "(nat \<times> cue_hook \<Rightarrow> cue_lineage) \<Rightarrow> emit_answer \<Rightarrow> nat \<times> cue_hook \<Rightarrow> cue_producers \<Rightarrow> cue_producers" where
  "produce lin answer (x, HookAdmitted) p = producer_admitted (lin (x, HookAdmitted)) answer x p"
| "produce lin answer (x, HookEnqueued queued running) p =
     with_producer (lin (x, HookEnqueued queued running)) x (lifecycle_enqueued answer x queued running) p"
| "produce lin answer (x, HookDispatched) p = with_producer (lin (x, HookDispatched)) x (lifecycle_dispatched answer x) p"
| "produce lin answer (x, HookCancelRequested) p =
     with_producer (lin (x, HookCancelRequested)) x (lifecycle_cancel_requested answer x) p"
| "produce lin answer (x, HookTerminal outcome error_there actor_live) p =
     producer_terminal (lin (x, HookTerminal outcome error_there actor_live)) answer x outcome error_there actor_live p"
| "produce lin answer (x, HookRetired queued running) p =
     producer_retired (lin (x, HookRetired queued running)) answer x queued running p"

definition told :: "(nat \<times> cue_hook \<Rightarrow> cue_lineage) \<Rightarrow> emit_answer \<Rightarrow> (nat \<times> cue_hook) list \<Rightarrow> cue_producers" where
  "told lin answer hooks = fold (produce lin answer) hooks cue_producers_init"

text \<open>The caller of a cue that stops waiting for it. This hook comes from the awaitable and not from the orchestra.\<close>

definition producer_caller_finished :: "nat \<Rightarrow> cue_producers \<Rightarrow> cue_producers" where
  "producer_caller_finished x p =
     (case cp_active p x of None \<Rightarrow> p | Some l \<Rightarrow> in_place x (lifecycle_caller_finished l p))"

end
