(* ===== verification/Cue_Protocol.thy ===== *)
theory Cue_Protocol
  imports Cue_Producer
begin

section \<open>The protocol of the hooks\<close>

text \<open>
  What the producer expects of the hooks of one cue, as an automaton on a stage and on whether a cancellation was
  requested. Its steps are partial: \<open>None\<close> is a hook out of its place. As long as the hooks follow the protocol and
  no emission fails, the lifecycles are in the stages of the automaton, no failure is latched, and exactly the
  span of its stage is open for a cue.
\<close>

datatype cue_stage = Waiting | InMailbox | Working | Over

type_synonym cue_standing = "(cue_stage \<times> bool) option"

fun protocol :: "cue_hook \<Rightarrow> cue_standing \<Rightarrow> cue_standing option" where
  "protocol HookAdmitted None = Some (Some (Waiting, False))"
| "protocol (HookEnqueued queued running) (Some (Waiting, c)) =
     (if running \<and> queued + 1 < 2 ^ 64 then Some (Some (InMailbox, c)) else None)"
| "protocol HookDispatched (Some (InMailbox, c)) = Some (Some (Working, c))"
| "protocol HookCancelRequested (Some (k, False)) = (if k = Over then None else Some (Some (k, True)))"
| "protocol (HookTerminal outcome error_there actor_live) (Some (k, c)) =
     (if k \<noteq> Over \<and> (if outcome = CueCompleted then k = Working else error_there)
      then Some (if actor_live then Some (Over, c) else None) else None)"
| "protocol (HookRetired queued running) (Some (Over, c)) =
     (if queued + (if running then 1 else 0) < 2 ^ 64 then Some None else None)"
| "protocol _ _ = None"

fun run_protocol :: "(nat \<times> cue_hook) list \<Rightarrow> (nat \<Rightarrow> cue_standing) \<Rightarrow> (nat \<Rightarrow> cue_standing) option" where
  "run_protocol [] v = Some v"
| "run_protocol ((x, h) # hooks) v = (case protocol h (v x) of None \<Rightarrow> None | Some q \<Rightarrow> run_protocol hooks (v(x := q)))"

fun admissions :: "(nat \<times> cue_hook) list \<Rightarrow> nat" where
  "admissions [] = 0"
| "admissions ((x, h) # hooks) = (if h = HookAdmitted then 1 else 0) + admissions hooks"

lemma run_protocol_append:
  "run_protocol (hooks @ hooks') v = (case run_protocol hooks v of None \<Rightarrow> None | Some w \<Rightarrow> run_protocol hooks' w)"
proof (induction hooks arbitrary: v)
  case (Cons entry hooks)
  obtain x h where "entry = (x, h)" by fastforce
  with Cons.IH show ?case by (cases "protocol h (v x)") (simp_all add: fun_upd_def)
qed simp

lemma admissions_append [simp]: "admissions (hooks @ hooks') = admissions hooks + admissions hooks'"
  by (induction hooks rule: admissions.induct) auto

subsection \<open>Open spans\<close>

text \<open>The spans of a cue that were started and are not finished, after a list of emissions with their answers; \<open>None\<close> when a
  span is finished that is not open.\<close>

fun span_event :: "nat \<Rightarrow> emission \<times> (nat + u64) \<Rightarrow> u64 list \<Rightarrow> u64 list option" where
  "span_event x (EmStart y _ _ _, Inr n) ids = Some (if y = x then n # ids else ids)"
| "span_event x (EmFinish y n _ _ _, Inr _) ids =
     (if y \<noteq> x then Some ids else if n \<in> set ids then Some (remove1 n ids) else None)"
| "span_event x _ ids = Some ids"

fun cue_spans_open :: "nat \<Rightarrow> (emission \<times> (nat + u64)) list \<Rightarrow> u64 list \<Rightarrow> u64 list option" where
  "cue_spans_open x [] ids = Some ids"
| "cue_spans_open x (e # es) ids = (case span_event x e ids of None \<Rightarrow> None | Some ids' \<Rightarrow> cue_spans_open x es ids')"

lemma cue_spans_open_append [simp]:
  "cue_spans_open x (es @ es') ids = (case cue_spans_open x es ids of None \<Rightarrow> None | Some ids' \<Rightarrow> cue_spans_open x es' ids')"
  by (induction x es ids rule: cue_spans_open.induct) (auto split: option.split)

fun phase_spans :: "cue_phase \<Rightarrow> u64 list" where
  "phase_spans (CpEnqueued _ wait_span_id) = [wait_span_id]"
| "phase_spans (CpDispatched execution_span_id) = [execution_span_id]"
| "phase_spans _ = []"

subsection \<open>What the producer displays of the protocol\<close>

fun stage_of_phase :: "cue_phase \<Rightarrow> cue_stage option" where
  "stage_of_phase CpStarting = None"
| "stage_of_phase (CpAdmitted _) = Some Waiting"
| "stage_of_phase (CpEnqueued _ _) = Some InMailbox"
| "stage_of_phase (CpDispatched _) = Some Working"
| "stage_of_phase (CpTerminal _) = Some Over"

lemma stage_of_phase_iff [simp]:
  "stage_of_phase ph = Some Waiting \<longleftrightarrow> (\<exists>a. ph = CpAdmitted a)"
  "stage_of_phase ph = Some InMailbox \<longleftrightarrow> (\<exists>a b. ph = CpEnqueued a b)"
  "stage_of_phase ph = Some Working \<longleftrightarrow> (\<exists>a. ph = CpDispatched a)"
  "stage_of_phase ph = Some Over \<longleftrightarrow> (\<exists>a. ph = CpTerminal a)"
  by (cases ph; simp)+

definition lifecycle_at :: "cue_lifecycle \<Rightarrow> cue_stage \<Rightarrow> bool \<Rightarrow> bool" where
  "lifecycle_at l k c \<longleftrightarrow>
     \<not> cl_failed l \<and> stage_of_phase (cl_phase l) = Some k \<and> (cl_cancel_sequence l \<noteq> None \<longleftrightarrow> c)"

definition displays :: "nat \<Rightarrow> cue_lifecycle option \<Rightarrow> (emission \<times> (nat + u64)) list \<Rightarrow> cue_standing \<Rightarrow> bool" where
  "displays x active emitted q \<longleftrightarrow>
     (case q of
        None \<Rightarrow> active = None \<and> cue_spans_open x emitted [] = Some []
      | Some (k, c) \<Rightarrow>
          (\<exists>l. active = Some l \<and> lifecycle_at l k c \<and> cue_spans_open x emitted [] = Some (phase_spans (cl_phase l))))"

definition conforms :: "(nat \<Rightarrow> cue_standing) \<Rightarrow> nat \<Rightarrow> cue_producers \<Rightarrow> bool" where
  "conforms v n p \<longleftrightarrow>
     cp_state_failures p = [] \<and> unat (cp_next_cue_id p) = Suc n \<and>
     (\<forall>x. displays x (cp_active p x) (cp_emitted p) (v x))"

lemma conforms_init: "conforms (\<lambda>_. None) 0 cue_producers_init"
  by (simp add: conforms_def displays_def cue_producers_init_def)

definition lineage_ready :: "cue_lineage \<Rightarrow> bool" where
  "lineage_ready lin \<longleftrightarrow>
     ln_binding lin \<and> ln_runtime lin \<and> ln_scene lin \<and> ln_actor lin \<and> ln_scene_span lin \<noteq> None \<and> ln_actor_lineage lin \<and>
     ln_scene_id lin \<and> ln_actor_id lin \<and> ln_context lin = None"

subsection \<open>Failures of the diagnostics are kept\<close>

lemma latch_diagnostic [simp]:
  "cp_diagnostic_failures (latch_state_failure code p) = cp_diagnostic_failures p"
  "cp_diagnostic_failures (latch_diagnostic_failure e p) = cp_diagnostic_failures p @ [e]"
  "cp_diagnostic_failures (snd (fail_state code l p)) = cp_diagnostic_failures p"
  "cp_diagnostic_failures (snd (fail_diagnostic e l p)) = cp_diagnostic_failures p @ [e]"
  "cp_diagnostic_failures (in_place x lp) = cp_diagnostic_failures (snd lp)"
  "cp_diagnostic_failures (producer_remove x p) = cp_diagnostic_failures p"
  "cp_diagnostic_failures (latch_missing lin code p) = cp_diagnostic_failures p"
  by (simp_all add: latch_state_failure_def latch_diagnostic_failure_def fail_state_def fail_diagnostic_def in_place_def
      producer_remove_def latch_missing_def case_prod_beta)

lemma length_nat_decimal: "n < 10 ^ Suc k \<Longrightarrow> length (nat_decimal n) \<le> Suc k"
proof (induction k arbitrary: n)
  case 0
  then show ?case by (subst nat_decimal.simps) simp
next
  case (Suc k)
  then have "n div 10 < 10 ^ Suc k" by (simp add: less_mult_imp_div_less mult.commute)
  from Suc.IH [OF this] show ?case by (subst nat_decimal.simps) simp
qed

lemma cue_id_valid: "RunLocalId_parse (''cue-'' @ nat_decimal (unat (w :: u64))) = Inr (''cue-'' @ nat_decimal (unat w))"
proof -
  have "unat w < 10 ^ Suc 19" using unat_less_2p64 [of w] by simp
  then have "length (nat_decimal (unat w)) \<le> 20" using length_nat_decimal [of "unat w" 19] by simp
  moreover have "list_all is_ascii (nat_decimal (unat w))"
    using nat_decimal_digits [of "unat w"] digit_is_ascii by (auto simp: list_all_iff)
  ultimately show ?thesis by (simp add: RunLocalId_parse_def is_ascii_marks is_ascii_def)
qed

subsection \<open>The methods of a lifecycle\<close>

text \<open>What a call must do on a lifecycle in its place: emit, get to the next stage, and leave exactly the span of
  that stage open.\<close>

definition cue_moves :: "nat \<Rightarrow> cue_lifecycle \<Rightarrow> cue_producers \<Rightarrow> cue_stage \<Rightarrow> bool \<Rightarrow> cue_lifecycle \<times> cue_producers \<Rightarrow> bool" where
  "cue_moves x l p k c r \<longleftrightarrow>
     (\<exists>es. cp_emitted (snd r) = cp_emitted p @ es \<and>
        cue_spans_open x es (phase_spans (cl_phase l)) = Some (phase_spans (cl_phase (fst r))) \<and>
        (\<forall>y ids. y \<noteq> x \<longrightarrow> cue_spans_open y es ids = Some ids)) \<and>
     cp_active (snd r) = cp_active p \<and> cp_state_failures (snd r) = cp_state_failures p \<and>
     cp_next_cue_id (snd r) = cp_next_cue_id p \<and> lifecycle_at (fst r) k c"

lemmas method_simps =
  cue_moves_def lifecycle_at_def try_emit_def fail_diagnostic_def fail_state_def latch_diagnostic_failure_def
  latch_state_failure_def mailbox_depth_def Let_def

lemma moves_admitted:
  assumes "cl_phase l = CpStarting" "cl_cancel_sequence l = None" "\<not> cl_failed l"
    and "cp_diagnostic_failures (snd (lifecycle_admitted answer x l p)) = []"
  shows "cue_moves x l p Waiting False (lifecycle_admitted answer x l p)"
  using assms by (auto simp: lifecycle_admitted_def method_simps split: sum.splits)

lemma moves_enqueued:
  assumes "lifecycle_at l Waiting c" "running" "queued + 1 < 2 ^ 64"
    and "cp_diagnostic_failures (snd (lifecycle_enqueued answer x queued running l p)) = []"
  shows "cue_moves x l p InMailbox c (lifecycle_enqueued answer x queued running l p)"
  using assms by (auto simp: lifecycle_enqueued_def method_simps split: sum.splits)

lemma moves_dispatched:
  assumes "lifecycle_at l InMailbox c" "cp_diagnostic_failures (snd (lifecycle_dispatched answer x l p)) = []"
  shows "cue_moves x l p Working c (lifecycle_dispatched answer x l p)"
  using assms by (auto simp: lifecycle_dispatched_def method_simps split: sum.splits)

lemma moves_cancel_requested:
  assumes "lifecycle_at l k False" "k \<noteq> Over" "cp_diagnostic_failures (snd (lifecycle_cancel_requested answer x l p)) = []"
  shows "cue_moves x l p k True (lifecycle_cancel_requested answer x l p)"
  using assms by (cases k) (auto simp: lifecycle_cancel_requested_def method_simps split: sum.splits)

lemma moves_ending:
  assumes l: "lifecycle_at l k c" and span: "phase_spans (cl_phase l) = (case span_id of None \<Rightarrow> [] | Some i \<Rightarrow> [i])"
    and completed: "outcome = CueCompleted \<Longrightarrow> is_dispatched (cl_phase l)"
    and calm: "cp_diagnostic_failures (snd (lifecycle_ending answer x outcome span_id source l p)) = []"
  shows "cue_moves x l p Over c (lifecycle_ending answer x outcome span_id source l p)"
proof -
  obtain so code where code: "terminal_span outcome (cl_phase l) = (so, code)" by fastforce
  have "\<not> (outcome = CueCompleted \<and> \<not> is_dispatched (cl_phase l))" using completed by blast
  then show ?thesis
    using calm l span by (cases span_id) (auto simp: lifecycle_ending_def code method_simps split: sum.splits)
qed

lemma moves_terminal:
  assumes "lifecycle_at l k c" "k \<noteq> Over" "if outcome = CueCompleted then k = Working else has_error"
    and "cp_diagnostic_failures (snd (lifecycle_terminal answer x outcome has_error l p)) = []"
  shows "cue_moves x l p Over c (lifecycle_terminal answer x outcome has_error l p)"
proof -
  have there: "\<not> cl_failed l" "\<not> (outcome \<noteq> CueCompleted \<and> \<not> has_error)" using assms(1,3) by (auto simp: lifecycle_at_def split: if_splits)
  have completed: "outcome = CueCompleted \<Longrightarrow> is_dispatched (cl_phase l)" using assms(1,3) by (auto simp: lifecycle_at_def)
  have ending: "cue_moves x l p Over c (lifecycle_ending answer x outcome span_id source l p)"
    if "phase_spans (cl_phase l) = (case span_id of None \<Rightarrow> [] | Some i \<Rightarrow> [i])"
      "lifecycle_terminal answer x outcome has_error l p = lifecycle_ending answer x outcome span_id source l p"
    for span_id source
    by (rule moves_ending [OF assms(1) that(1) completed]) (use assms(4) that(2) in simp_all)
  note eq = lifecycle_terminal_def if_not_P [OF there(1)] if_not_P [OF there(2)]
  show ?thesis
  proof (cases "cl_phase l")
    case (CpAdmitted a)
    then have "lifecycle_terminal answer x outcome has_error l p = lifecycle_ending answer x outcome None a l p"
      unfolding eq by simp
    then show ?thesis using ending [of None a] CpAdmitted by simp
  next
    case (CpEnqueued a b)
    then have "lifecycle_terminal answer x outcome has_error l p = lifecycle_ending answer x outcome (Some b) a l p"
      unfolding eq by simp
    then show ?thesis using ending [of "Some b" a] CpEnqueued by simp
  next
    case (CpDispatched a)
    then have "lifecycle_terminal answer x outcome has_error l p = lifecycle_ending answer x outcome (Some a) a l p"
      unfolding eq by simp
    then show ?thesis using ending [of "Some a" a] CpDispatched by simp
  qed (use assms(1,2) in \<open>auto simp: lifecycle_at_def\<close>)
qed

lemma moves_retired:
  assumes "lifecycle_at l Over c" "queued + (if running then 1 else 0) < 2 ^ 64"
    and "cp_diagnostic_failures (snd (lifecycle_retired answer x queued running l p)) = []"
  shows "cue_moves x l p Over c (lifecycle_retired answer x queued running l p)"
  using assms by (auto simp: lifecycle_retired_def method_simps split: sum.splits if_splits)

subsection \<open>The hooks\<close>

lemma conforms_other:
  assumes "conforms v n p" "cp_active p' = (cp_active p)(x := active)" "cp_state_failures p' = cp_state_failures p"
    and "unat (cp_next_cue_id p') = Suc n'" "cp_emitted p' = cp_emitted p @ es"
    and "\<forall>y ids. y \<noteq> x \<longrightarrow> cue_spans_open y es ids = Some ids" "displays x active (cp_emitted p') q"
  shows "conforms (v(x := q)) n' p'"
proof -
  have "displays y (cp_active p y) (cp_emitted p') (v y)" if "y \<noteq> x" for y
  proof -
    have "cue_spans_open y (cp_emitted p') [] = cue_spans_open y (cp_emitted p) []"
      using assms(5,6) that by (simp split: option.split)
    moreover have "displays y (cp_active p y) (cp_emitted p) (v y)" using assms(1) by (simp add: conforms_def)
    ultimately show ?thesis by (cases "v y") (auto simp: displays_def)
  qed
  then show ?thesis using assms by (simp add: conforms_def)
qed

text \<open>A call on the lifecycle in the table.\<close>

lemma conforms_method:
  assumes p: "conforms v n p" and v: "v x = Some (k, c)"
    and r: "\<And>l. cp_active p x = Some l \<Longrightarrow> lifecycle_at l k c \<Longrightarrow> cue_moves x l p k' c' (call l p)"
  obtains l where "cp_active p x = Some l" "conforms (v(x \<mapsto> (k', c'))) n (in_place x (call l p))"
    "k' = Over \<longrightarrow> conforms (v(x := None)) n (producer_remove x (in_place x (call l p)))"
proof -
  have "displays x (cp_active p x) (cp_emitted p) (Some (k, c))" using p v by (metis conforms_def)
  then obtain l where l: "cp_active p x = Some l" "lifecycle_at l k c"
    "cue_spans_open x (cp_emitted p) [] = Some (phase_spans (cl_phase l))" by (auto simp: displays_def)
  obtain l' p' where call: "call l p = (l', p')" by fastforce
  obtain es where m: "cp_emitted p' = cp_emitted p @ es"
    "cue_spans_open x es (phase_spans (cl_phase l)) = Some (phase_spans (cl_phase l'))"
    "\<forall>y ids. y \<noteq> x \<longrightarrow> cue_spans_open y es ids = Some ids"
    and same: "cp_active p' = cp_active p" "cp_state_failures p' = cp_state_failures p" "cp_next_cue_id p' = cp_next_cue_id p"
    and at: "lifecycle_at l' k' c'"
    using r [OF l(1,2)] unfolding cue_moves_def call by auto
  have n: "unat (cp_next_cue_id p) = Suc n" using p by (simp add: conforms_def)
  have a: "displays x (Some l') (cp_emitted p') (Some (k', c'))" using l(3) m(1,2) at by (simp add: displays_def)
  have "conforms (v(x \<mapsto> (k', c'))) n (in_place x (call l p))"
    by (rule conforms_other [OF p, where es = es and active = "Some l'"]) (use a m same n call in \<open>simp_all add: in_place_def\<close>)
  moreover have "conforms (v(x := None)) n (producer_remove x (in_place x (call l p)))" if "k' = Over"
  proof (rule conforms_other [OF p, where es = es and active = None])
    have "phase_spans (cl_phase l') = []" using at that by (auto simp: lifecycle_at_def)
    then show "displays x None (cp_emitted (producer_remove x (in_place x (call l p)))) None"
      using l(3) m(1,2) call by (simp add: displays_def in_place_def producer_remove_def)
  qed (use m same n call in \<open>simp_all add: in_place_def producer_remove_def\<close>)
  ultimately show ?thesis using that l(1) by blast
qed

lemma conforms_with_producer:
  assumes "conforms v n p" "v x = Some (k, c)"
    and "\<And>l. cp_active p x = Some l \<Longrightarrow> lifecycle_at l k c \<Longrightarrow> cue_moves x l p k' c' (call l p)"
  shows "conforms (v(x \<mapsto> (k', c'))) n (with_producer lin x call p)"
  by (rule conforms_method [where call = call, OF assms]) (simp_all add: with_producer_def)

lemma conforms_terminal:
  assumes "conforms v n p" "v x = Some (k, c)"
    and "\<And>l. cp_active p x = Some l \<Longrightarrow> lifecycle_at l k c \<Longrightarrow>
      cue_moves x l p Over c (lifecycle_terminal answer x outcome (outcome = CueCompleted \<or> e) l p)"
  shows "conforms (v(x := (if live then Some (Over, c) else None))) n (producer_terminal lin answer x outcome e live p)"
  by (rule conforms_method [where call = "lifecycle_terminal answer x outcome (outcome = CueCompleted \<or> e)", OF assms])
    (simp_all add: producer_terminal_def Let_def)

lemma conforms_retired:
  assumes "conforms v n p" "v x = Some (Over, c)"
    and "\<And>l. cp_active p x = Some l \<Longrightarrow> lifecycle_at l Over c \<Longrightarrow>
      cue_moves x l p Over c (lifecycle_retired answer x queued running l p)"
  shows "conforms (v(x := None)) n (producer_retired lin answer x queued running p)"
  by (rule conforms_method [where call = "lifecycle_retired answer x queued running", OF assms]) (simp_all add: producer_retired_def)

text \<open>A new lifecycle.\<close>

lemma next_cue_id_ok:
  assumes "unat (cp_next_cue_id p) = Suc n" "n + 2 < 2 ^ 64"
  obtains i w where "next_cue_id p = (Inr i, p \<lparr> cp_next_cue_id := w \<rparr>)" "unat w = Suc (Suc n)"
proof -
  have "unat (cp_next_cue_id p) + unat (1 :: u64) < 2 ^ 64" using assms by simp
  then have w: "checked_add_u64 (cp_next_cue_id p) 1 = Some (cp_next_cue_id p + 1)" by (simp add: checked_add_u64_def)
  have "unat (cp_next_cue_id p + 1) = Suc (Suc n)" using checked_add_u64_Some [OF w] assms(1) by simp
  then show ?thesis using that w cue_id_valid by (simp add: next_cue_id_def)
qed

lemma conforms_admitted:
  assumes p: "conforms v n p" and v: "v x = None" and n: "n + 2 < 2 ^ 64" and ready: "lineage_ready lin"
    and calm: "cp_diagnostic_failures (producer_admitted lin answer x p) = []"
  shows "conforms (v(x \<mapsto> (Waiting, False))) (Suc n) (producer_admitted lin answer x p)"
proof -
  have "displays x (cp_active p x) (cp_emitted p) None" using p v by (metis conforms_def)
  then have x: "cp_active p x = None" "cue_spans_open x (cp_emitted p) [] = Some []" by (simp_all add: displays_def)
  have "unat (cp_next_cue_id p) = Suc n" using p by (simp add: conforms_def)
  then obtain i w where fresh: "next_cue_id p = (Inr i, p \<lparr> cp_next_cue_id := w \<rparr>)" "unat w = Suc (Suc n)"
    using n by (rule next_cue_id_ok)
  obtain sp where sp: "ln_scene_span lin = Some sp" using ready by (auto simp: lineage_ready_def)
  let ?l = "\<lparr> cl_scene_span = sp, cl_phase = CpStarting, cl_cancel_sequence = None, cl_caller_finished = False, cl_failed = False \<rparr>"
  let ?p = "p \<lparr> cp_next_cue_id := w \<rparr>"
  have eq: "producer_admitted lin answer x p = in_place x (lifecycle_admitted answer x ?l ?p)"
    using ready x(1) sp fresh(1) by (simp add: producer_admitted_def lifecycle_prepare_def lineage_ready_def)
  obtain l' p' where r: "lifecycle_admitted answer x ?l ?p = (l', p')" by fastforce
  have "cue_moves x ?l ?p Waiting False (lifecycle_admitted answer x ?l ?p)"
    by (rule moves_admitted) (use calm eq in simp_all)
  then obtain es where m: "cp_emitted p' = cp_emitted p @ es" "cue_spans_open x es [] = Some (phase_spans (cl_phase l'))"
    "\<forall>y ids. y \<noteq> x \<longrightarrow> cue_spans_open y es ids = Some ids"
    and same: "cp_active p' = cp_active p" "cp_state_failures p' = cp_state_failures p" "cp_next_cue_id p' = w"
    and at: "lifecycle_at l' Waiting False"
    unfolding cue_moves_def r by auto
  have "displays x (Some l') (cp_emitted p') (Some (Waiting, False))" using x(2) m(1,2) at by (simp add: displays_def)
  then show ?thesis
    unfolding eq r
    by (intro conforms_other [OF p, where es = es and active = "Some l'"]) (use m same fresh(2) in \<open>simp_all add: in_place_def\<close>)
qed

lemma conforms_produce:
  assumes p: "conforms v n p" and step: "protocol h (v x) = Some q"
    and admitted: "h = HookAdmitted \<Longrightarrow> n + 2 < 2 ^ 64 \<and> lineage_ready (lin (x, h))"
    and calm: "cp_diagnostic_failures (produce lin answer (x, h) p) = []"
  shows "conforms (v(x := q)) (n + (if h = HookAdmitted then 1 else 0)) (produce lin answer (x, h) p)"
proof (cases h)
  case HookAdmitted
  then have "v x = None" "q = Some (Waiting, False)" using step by (cases "v x"; simp)+
  then show ?thesis using HookAdmitted admitted calm conforms_admitted [OF p] by simp
next
  case (HookEnqueued queued running)
  then obtain c where c: "v x = Some (Waiting, c)" "running" "queued + 1 < 2 ^ 64" "q = Some (InMailbox, c)"
    using step by (cases "(h, v x)" rule: protocol.cases) (auto split: if_splits)
  have "cue_moves x l p InMailbox c (lifecycle_enqueued answer x queued running l p)" if "cp_active p x = Some l" "lifecycle_at l Waiting c" for l
    by (rule moves_enqueued [OF that(2) c(2,3)]) (use calm HookEnqueued that(1) in \<open>simp add: with_producer_def\<close>)
  from conforms_with_producer [where call = "lifecycle_enqueued answer x queued running", OF p c(1) this] show ?thesis by (simp add: HookEnqueued c(4))
next
  case HookDispatched
  then obtain c where c: "v x = Some (InMailbox, c)" "q = Some (Working, c)"
    using step by (cases "(h, v x)" rule: protocol.cases) (auto split: if_splits)
  have "cue_moves x l p Working c (lifecycle_dispatched answer x l p)" if "cp_active p x = Some l" "lifecycle_at l InMailbox c" for l
    by (rule moves_dispatched [OF that(2)]) (use calm HookDispatched that(1) in \<open>simp add: with_producer_def\<close>)
  from conforms_with_producer [where call = "lifecycle_dispatched answer x", OF p c(1) this] show ?thesis by (simp add: HookDispatched c(2))
next
  case HookCancelRequested
  then obtain k where c: "v x = Some (k, False)" "k \<noteq> Over" "q = Some (k, True)"
    using step by (cases "(h, v x)" rule: protocol.cases) (auto split: if_splits)
  have "cue_moves x l p k True (lifecycle_cancel_requested answer x l p)" if "cp_active p x = Some l" "lifecycle_at l k False" for l
    by (rule moves_cancel_requested [OF that(2) c(2)]) (use calm HookCancelRequested that(1) in \<open>simp add: with_producer_def\<close>)
  from conforms_with_producer [where call = "lifecycle_cancel_requested answer x", OF p c(1) this] show ?thesis by (simp add: HookCancelRequested c(3))
next
  case (HookTerminal outcome error_there actor_live)
  then obtain k c where c: "v x = Some (k, c)" "k \<noteq> Over" "if outcome = CueCompleted then k = Working else error_there"
    "q = (if actor_live then Some (Over, c) else None)"
    using step by (cases "(h, v x)" rule: protocol.cases) (auto split: if_splits)
  let ?e = "outcome = CueCompleted \<or> error_there"
  have "cue_moves x l p Over c (lifecycle_terminal answer x outcome ?e l p)" if "cp_active p x = Some l" "lifecycle_at l k c" for l
    by (rule moves_terminal [OF that(2) c(2)])
      (use calm HookTerminal that(1) c(3) in \<open>auto simp: producer_terminal_def Let_def split: if_splits\<close>)
  from conforms_terminal [OF p c(1) this] show ?thesis by (simp add: HookTerminal c(4))
next
  case (HookRetired queued running)
  then obtain c where c: "v x = Some (Over, c)" "queued + (if running then 1 else 0) < 2 ^ 64" "q = None"
    using step by (cases "(h, v x)" rule: protocol.cases) (auto split: if_splits)
  have "cue_moves x l p Over c (lifecycle_retired answer x queued running l p)" if "cp_active p x = Some l" "lifecycle_at l Over c" for l
    by (rule moves_retired [OF that(2) c(2)]) (use calm HookRetired that(1) in \<open>simp add: producer_retired_def\<close>)
  from conforms_retired [OF p c(1) this] show ?thesis by (simp add: HookRetired c(3))
qed

subsection \<open>All hooks of a run\<close>

text \<open>A failure of the diagnostics is never taken back.\<close>

lemma failures_kept_method:
  "cp_diagnostic_failures (snd (lifecycle_admitted answer x l p)) = [] \<Longrightarrow> cp_diagnostic_failures p = []"
  "cp_diagnostic_failures (snd (lifecycle_enqueued answer x queued running l p)) = [] \<Longrightarrow> cp_diagnostic_failures p = []"
  "cp_diagnostic_failures (snd (lifecycle_dispatched answer x l p)) = [] \<Longrightarrow> cp_diagnostic_failures p = []"
  "cp_diagnostic_failures (snd (lifecycle_cancel_requested answer x l p)) = [] \<Longrightarrow> cp_diagnostic_failures p = []"
  "cp_diagnostic_failures (snd (lifecycle_retired answer x queued running l p)) = [] \<Longrightarrow> cp_diagnostic_failures p = []"
  by (auto simp: lifecycle_admitted_def lifecycle_enqueued_def lifecycle_dispatched_def lifecycle_cancel_requested_def
      lifecycle_retired_def try_emit_def Let_def split: if_splits cue_phase.splits sum.splits)

lemma failures_kept_ending:
  "cp_diagnostic_failures (snd (lifecycle_ending answer x outcome span_id source l p)) = [] \<Longrightarrow> cp_diagnostic_failures p = []"
  by (cases "terminal_span outcome (cl_phase l)"; cases span_id)
    (auto simp: lifecycle_ending_def try_emit_def Let_def split: if_splits sum.splits)

lemma failures_kept_terminal:
  "cp_diagnostic_failures (snd (lifecycle_terminal answer x outcome e l p)) = [] \<Longrightarrow> cp_diagnostic_failures p = []"
  by (auto simp: lifecycle_terminal_def fail_state_def latch_state_failure_def
      split: if_splits cue_phase.splits dest: failures_kept_ending)

lemma failures_kept:
  assumes "cp_diagnostic_failures (produce lin answer entry p) = []"
  shows "cp_diagnostic_failures p = []"
proof (cases "(lin, answer, entry, p)" rule: produce.cases)
  case (1 lin answer x p)
  have prepare: "cp_diagnostic_failures (snd (lifecycle_prepare (lin (x, HookAdmitted)) p)) = [] \<Longrightarrow> cp_diagnostic_failures p = []"
    by (auto simp: lifecycle_prepare_def next_cue_id_def split: if_splits option.splits sum.splits)
  obtain r p' where r: "lifecycle_prepare (lin (x, HookAdmitted)) p = (r, p')" by fastforce
  have "cp_diagnostic_failures p' = []" if "cp_active p x = None"
    using 1 assms that r
    by (auto simp: producer_admitted_def split: option.splits sum.splits dest: failures_kept_method(1))
  then show ?thesis
    using 1 assms prepare r by (cases "cp_active p x") (auto simp: producer_admitted_def)
qed (use assms in \<open>auto simp: with_producer_def producer_terminal_def producer_retired_def Let_def
      split: if_splits option.splits dest: failures_kept_method failures_kept_terminal\<close>)

lemma conforms_told:
  assumes "run_protocol hooks (\<lambda>_. None) = Some v" "admissions hooks + 1 < 2 ^ 64"
    and "\<And>x. lineage_ready (lin (x, HookAdmitted))" "cp_diagnostic_failures (told lin answer hooks) = []"
  shows "conforms v (admissions hooks) (told lin answer hooks)"
  using assms(1,2,4)
proof (induction hooks arbitrary: v rule: rev_induct)
  case Nil
  then show ?case using conforms_init by (simp add: told_def)
next
  case (snoc entry hooks)
  obtain x h where entry: "entry = (x, h)" by fastforce
  obtain w q where w: "run_protocol hooks (\<lambda>_. None) = Some w" "protocol h (w x) = Some q" "v = w(x := q)"
    using snoc.prems(1) entry by (auto simp: run_protocol_append split: option.splits)
  let ?p = "told lin answer hooks"
  have p: "told lin answer (hooks @ [entry]) = produce lin answer (x, h) ?p" by (simp add: told_def entry)
  have calm: "cp_diagnostic_failures (produce lin answer (x, h) ?p) = []" using snoc.prems(3) p by simp
  have "conforms w (admissions hooks) ?p"
    by (rule snoc.IH [OF w(1)]) (use snoc.prems(2) failures_kept [OF calm] in simp_all)
  moreover have "h = HookAdmitted \<Longrightarrow> admissions hooks + 2 < 2 ^ 64 \<and> lineage_ready (lin (x, h))"
    using snoc.prems(2) assms(3) by (simp add: entry)
  ultimately have "conforms (w(x := q)) (admissions hooks + (if h = HookAdmitted then 1 else 0)) (produce lin answer (x, h) ?p)"
    using w(2) calm by (intro conforms_produce)
  moreover have n: "admissions (hooks @ [entry]) = admissions hooks + (if h = HookAdmitted then 1 else 0)" by (simp add: entry)
  ultimately show ?case unfolding p w(3) n by blast
qed

end
