(* ===== verification/Orchestra_Telling.thy ===== *)
theory Orchestra_Telling
  imports Cue_Protocol Orchestra_Promise
begin

section \<open>The orchestra follows the protocol of its hooks\<close>

text \<open>
  The hooks that the orchestra calls follow the protocol of the producer, as long as the dispatches succeed. The
  proof keeps for each cue the standing that the protocol has given it next to what the orchestra knows of it.
\<close>

subsection \<open>The standing of a cue\<close>

definition requested :: "orchestra \<Rightarrow> nat \<Rightarrow> bool" where
  "requested s x \<longleftrightarrow> (\<exists>e. os_intent (state_at s x) = Some (IntentRequested e))"

definition stands :: "orchestra \<Rightarrow> nat \<Rightarrow> cue_standing \<Rightarrow> bool" where
  "stands s x q \<longleftrightarrow>
     (case q of
        None \<Rightarrow> \<not> alive s x
      | Some (k, c) \<Rightarrow>
          alive s x \<and> k \<noteq> Over \<and> (c \<longleftrightarrow> requested s x) \<and> (k = Working \<longleftrightarrow> started s x \<and> or_dispatch s x = None) \<and>
          (k = Waiting \<longrightarrow> x \<notin> mailbox_members (or_mailboxes s (actor_of s x))) \<and> (or_commits s x \<noteq> None \<longrightarrow> k = Waiting))"

definition tracked :: "(nat \<Rightarrow> cue_standing) \<Rightarrow> orchestra \<Rightarrow> bool" where
  "tracked v s \<longleftrightarrow>
     run_protocol (or_log s) (\<lambda>_. None) = Some v \<and> admissions (or_log s) = or_next_op s \<and> (\<forall>x. stands s x (v x))"

lemma tracked_init: "tracked (\<lambda>_. None) (orchestra_init actors)"
  by (simp add: tracked_def stands_def alive_def known_def orchestra_init_def)

lemma standsD:
  assumes "stands s x q"
  shows "alive s x \<longleftrightarrow> q \<noteq> None" "q = Some (k, c) \<Longrightarrow> k \<noteq> Over" "q = Some (k, c) \<Longrightarrow> c \<longleftrightarrow> requested s x"
    "q = Some (k, c) \<Longrightarrow> k = Working \<longleftrightarrow> started s x \<and> or_dispatch s x = None"
    "q = Some (k, c) \<Longrightarrow> x \<in> mailbox_members (or_mailboxes s (actor_of s x)) \<Longrightarrow> k \<noteq> Waiting"
    "q = Some (k, c) \<Longrightarrow> or_commits s x \<noteq> None \<Longrightarrow> k = Waiting"
  using assms by (auto simp: stands_def split: option.splits)

lemma stands_mono:
  assumes "stands s x q" "alive t x = alive s x" "started t x = started s x" "requested t x = requested s x"
    and "started s x \<Longrightarrow> or_dispatch t x = None \<longleftrightarrow> or_dispatch s x = None"
    and "x \<in> mailbox_members (or_mailboxes t (actor_of t x)) \<Longrightarrow> x \<in> mailbox_members (or_mailboxes s (actor_of s x))"
    and "or_commits t x \<noteq> None \<Longrightarrow> or_commits s x \<noteq> None"
  shows "stands t x q"
  using assms by (auto simp: stands_def split: option.splits)

lemma stands_core: "core t = core s \<Longrightarrow> stands t x q = stands s x q"
proof -
  assume eq: "core t = core s"
  have v: "alive t x = alive s x" "started t x = started s x" "state_at t x = state_at s x" "actor_of t x = actor_of s x"
    using arg_cong [OF eq, of "\<lambda>s. alive s x"] arg_cong [OF eq, of "\<lambda>s. started s x"] arg_cong [OF eq, of "\<lambda>s. state_at s x"]
      arg_cong [OF eq, of "\<lambda>s. actor_of s x"] by simp_all
  have "or_dispatch t = or_dispatch s" "or_mailboxes t = or_mailboxes s" "or_commits t = or_commits s"
    using arg_cong [OF eq, of or_dispatch] arg_cong [OF eq, of or_mailboxes] arg_cong [OF eq, of or_commits] by simp_all
  then show ?thesis using v by (cases q) (auto simp: stands_def requested_def)
qed

lemma tracked_extend:
  assumes "tracked v s" "or_log t = or_log s @ hooks" "run_protocol hooks v = Some w"
    and "or_next_op t = or_next_op s + admissions hooks" "\<And>x. stands t x (w x)"
  shows "tracked w t"
  using assms by (simp add: tracked_def run_protocol_append)

lemma tracked_same:
  assumes "tracked v s" "or_log t = or_log s" "or_next_op t = or_next_op s" "\<And>x. stands s x (v x) \<Longrightarrow> stands t x (v x)"
  shows "tracked v t"
  using assms by (simp add: tracked_def)

text \<open>Steps that no standing depends on.\<close>

lemma tracked_unseen:
  assumes "tracked v s" "or_log t = or_log s" "or_next_op t = or_next_op s" "or_ops t = or_ops s"
    and "or_dispatch t = or_dispatch s" "or_mailboxes t = or_mailboxes s" "\<And>x. or_commits t x \<noteq> None \<Longrightarrow> or_commits s x \<noteq> None"
  shows "tracked v t"
proof (rule tracked_same [OF assms(1-3)])
  show "stands t x (v x)" if "stands s x (v x)" for x
    by (rule stands_mono [OF that])
      (use assms(5-7) in \<open>simp_all add: views_ops [OF assms(4)] requested_def\<close>)
qed

lemma tracked_core:
  assumes "tracked v s" "core t = core s" "or_log t = or_log s"
  shows "tracked v t"
proof (rule tracked_same [OF assms(1,3)])
  show "or_next_op t = or_next_op s" using arg_cong [OF assms(2), of or_next_op] by simp
  show "stands s x (v x) \<Longrightarrow> stands t x (v x)" for x using stands_core [OF assms(2)] by simp
qed

lemma tracked_alive:
  assumes "tracked v s" "alive s x"
  obtains k c where "v x = Some (k, c)" "stands s x (Some (k, c))"
proof -
  have "stands s x (v x)" using assms(1) by (simp add: tracked_def)
  moreover from this have "v x \<noteq> None" using standsD(1) assms(2) by blast
  ultimately show ?thesis using that by (cases "v x") auto
qed

subsection \<open>The length of a mailbox\<close>

lemma mailbox_bound:
  assumes "orch_inv P S C s"
  shows "length (mb_queue (or_mailboxes s a)) + (if mb_running (or_mailboxes s a) \<noteq> None then 1 else 0) \<le> or_next_op s"
proof -
  let ?m = "or_mailboxes s a"
  have ok: "mailbox_ok ?m" and "\<forall>x \<in> mailbox_members ?m. x < or_next_op s"
    using assms by (auto simp: orch_inv_def inv_mail_def inv_ops_def alive_def)
  then have "mailbox_members ?m \<subseteq> {..<or_next_op s}" by auto
  from card_mono [OF _ this] have le: "card (mailbox_members ?m) \<le> or_next_op s" by simp
  have "card (set (mb_queue ?m)) = length (mb_queue ?m)" using ok by (simp add: mailbox_ok_def distinct_card)
  then show ?thesis using le ok by (cases "mb_running ?m") (auto simp: mailbox_members_def mailbox_ok_def)
qed

subsection \<open>Ending a cue\<close>

lemma log_unchanged [simp]:
  "or_log (set_state x st s) = or_log s" "or_log (close_cued_inline x s) = or_log s"
  "or_log (scene_operation_finished x s) = or_log s" "or_log (resolve_terminal_signal signal s) = or_log s"
  "or_log (observe_scene sc sh s) = or_log s" "or_log (observe x h s) = or_log s @ [(x, h)]"
  "or_log (set_cued x cued s) = or_log s" "or_log (admission_dropped sc token s) = or_log s"
  "or_log (set_stage x stage signal s) = or_log s" "or_log (panic_with m s) = or_log s"
  by (simp_all add: observe_def observe_scene_def observe_closed_def set_state_def close_cued_inline_def set_cued_def
      scene_operation_finished_def resolve_terminal_signal_def admission_dropped_def set_stage_def panic_with_def Let_def
      split: prod.split option.split)

lemma log_finish:
  "or_log (finish_terminal_action x action s) =
     (let m = fst (terminal_transition x (or_mailboxes s (actor_of s x)))
      in or_log s @ [(x, HookRetired (length (mb_queue m)) (mb_running m \<noteq> None))])"
  by (simp add: finish_terminal_action_def complete_terminal_action_def unlink_terminal_operation_def case_prod_beta Let_def
      actor_of_def operation_at_def close_cued_inline_def split: option.split)

lemma log_perform:
  "or_log (perform_terminal_action x action s) =
     (let m = fst (terminal_transition x (or_mailboxes s (actor_of s x))); live = or_actor_live s (actor_of s x)
      in or_log s @ (x, HookTerminal (ta_diagnostic_outcome action) (terminal_error (state_at s x) \<noteq> None) live) #
           (if live then [(x, HookRetired (length (mb_queue m)) (mb_running m \<noteq> None))] else []))"
  by (simp add: perform_terminal_action_def log_finish complete_terminal_action_def case_prod_beta Let_def actor_of_def
      observe_def operation_at_def)

lemma outcome_error_there: "diagnostic_outcome out \<noteq> CueCompleted \<Longrightarrow> outcome_error out \<noteq> None"
  by (cases out) simp_all

lemma tracked_perform:
  assumes e: "ending x (fst (settle out st)) P S C s" and bound: "or_next_op s < 2 ^ 64"
    and protocol: "run_protocol (or_log s) (\<lambda>_. None) = Some v" "admissions (or_log s) = or_next_op s"
    and others: "\<And>y. y \<noteq> x \<Longrightarrow> stands s y (v y)"
    and x: "v x = Some (k, c)" "k \<noteq> Over" "diagnostic_outcome out = CueCompleted \<Longrightarrow> k = Working"
  shows "tracked (v(x := None)) (perform_terminal_action x (snd (settle out st)) (set_state x (fst (settle out st)) s))"
proof -
  let ?st = "fst (settle out st)" and ?act = "snd (settle out st)"
  let ?u = "perform_terminal_action x ?act (set_state x ?st s)" and ?r = "retire x ?st s"
  let ?m = "fst (terminal_transition x (or_mailboxes s (actor_of s x)))" and ?live = "or_actor_live s (actor_of s x)"
  have inv: "orch_inv {} {} {} ?r" by (rule retire_inv [OF e])
  have known: "known s x" and "ta_signal ?act = Some x" using e by (simp_all add: ending_def alive_def)
  then have core: "core ?u = core ?r" by (rule core_perform)
  have log: "or_log ?u = or_log s @ (x, HookTerminal (diagnostic_outcome out) (outcome_error out \<noteq> None) ?live) #
      (if ?live then [(x, HookRetired (length (mb_queue ?m)) (mb_running ?m \<noteq> None))] else [])"
    by (simp add: log_perform Let_def terminal_error_def)
  have depth: "length (mb_queue ?m) + (if mb_running ?m \<noteq> None then 1 else 0) < 2 ^ 64" if ?live
    using mailbox_bound [OF inv, of "actor_of s x"] bound that by (simp add: retire_def Let_def)
  have guard: "k \<noteq> Over \<and> (if diagnostic_outcome out = CueCompleted then k = Working else outcome_error out \<noteq> None)"
    using x(2,3) outcome_error_there [of out] by auto
  have "run_protocol (or_log ?u) (\<lambda>_. None) = Some (v(x := None))"
    unfolding log using protocol(1) x(1) depth guard by (cases ?live) (auto simp: run_protocol_append)
  moreover have "admissions (or_log ?u) = or_next_op ?u"
    unfolding log using protocol(2) arg_cong [OF core, of or_next_op] by simp
  moreover have "stands ?r y ((v(x := None)) y)" for y
  proof (cases "y = x")
    case True
    then show ?thesis by (simp add: stands_def retire_alive [OF e])
  next
    case False
    have "next_of x s \<noteq> Some y" if "started s y" using ending_next(3) [OF e, of y] that by (auto simp: started_def)
    then have disp: "started s y \<Longrightarrow> or_dispatch ?r y = None \<longleftrightarrow> or_dispatch s y = None" by (simp add: retire_dispatch)
    have "stands ?r y (v y)"
      by (rule stands_mono [OF others [OF False] _ _ _ disp])
        (use False in \<open>simp_all add: retire_alive [OF e] retire_views retire_mailboxes(2) [OF e] requested_def\<close>)
    then show ?thesis using False by simp
  qed
  ultimately show ?thesis by (simp add: tracked_def stands_core [OF core])
qed

lemma tracked_finish_with_result:
  assumes tr: "tracked v s" and inv: "orch_inv {} {} {} s" and bound: "or_next_op s < 2 ^ 64"
    and x: "known s x" "phase_at s x \<noteq> OpQueued" "or_dispatch s x = None"
  shows "\<exists>w. tracked w (finish_with_result x r s)"
proof (cases "alive s x")
  case True
  let ?out = "intended_outcome (os_intent (state_at s x)) r"
  obtain k c where k: "v x = Some (k, c)" "stands s x (Some (k, c))" using tr True by (rule tracked_alive)
  have "started s x" using True x(2) by (cases rule: alive_cases) auto
  then have "k = Working" using standsD(4) [OF k(2)] x(3) by blast
  have e: "ending x (fst (settle ?out (state_at s x))) {} {} {} s" using inv True x(3) by (intro ending_settle) auto
  have "\<not> is_terminal (state_at s x)" using True by (auto simp: alive_def phase_at_def)
  then have eq: "finish_with_result x r s =
      perform_terminal_action x (snd (settle ?out (state_at s x))) (set_state x (fst (settle ?out (state_at s x))) s)"
    using invD_op [OF inv x(1)] by (simp add: finish_with_result_def transition_settles case_prod_beta)
  have "tracked (v(x := None)) (finish_with_result x r s)"
    unfolding eq using e bound by (rule tracked_perform) (use tr k(1) \<open>k = Working\<close> in \<open>auto simp: tracked_def\<close>)
  then show ?thesis by blast
next
  case False
  then have "ended s x" using x(1) not_alive_iff by blast
  then have "is_terminal (state_at s x)" by (cases "phase_at s x") (auto simp: ended_def phase_at_def)
  then show ?thesis using tr by (auto simp: finish_with_result_def transition_terminal)
qed

lemma tracked_request_cancel:
  assumes tr: "tracked v s" and inv: "orch_inv {} {} C s" "C \<subseteq> {x}" and bound: "or_next_op s < 2 ^ 64" and x: "known s x"
  shows "\<exists>w. tracked w (request_cancel x s)"
proof (cases "phase_at s x")
  case OpQueued
  let ?out = "OutCancelled cancelled_error" and ?t = "observe x HookCancelRequested s"
  have alive: "alive s x" using OpQueued x by (simp add: alive_def)
  obtain k c where k: "v x = Some (k, c)" "stands s x (Some (k, c))" using tr alive by (rule tracked_alive)
  have "os_intent (state_at s x) = None" using invD_op [OF inv(1) x] OpQueued by (simp add: op_wf_def phase_at_def)
  then have "\<not> c" using standsD(3) [OF k(2)] by (simp add: requested_def)
  have "\<forall>stage signal. or_dispatch s x = Some (stage, signal) \<longrightarrow> early stage"
    using invD_frame [OF inv(1)] frame_early OpQueued by blast
  then have "ending x (fst (settle ?out (state_at s x))) {} {} C s" using inv alive by (intro ending_settle) auto
  then have e: "ending x (fst (settle ?out (state_at s x))) {} {} C ?t" using ending_core [of ?t s] by simp
  have eq: "request_cancel x s = perform_terminal_action x (snd (settle ?out (state_at s x)))
      (set_state x (fst (settle ?out (state_at s x))) ?t)"
    using OpQueued unfolding phase_at_def
    by (simp add: request_cancel_def request_cancel_locked_def Let_def case_prod_beta set_state_observe)
  have v: "run_protocol (or_log ?t) (\<lambda>_. None) = Some (v(x \<mapsto> (k, True)))"
    using tr k(1) \<open>\<not> c\<close> standsD(2) [OF k(2)] by (simp add: tracked_def run_protocol_append)
  have "tracked ((v(x \<mapsto> (k, True)))(x := None)) (request_cancel x s)"
    unfolding eq using e
  proof (rule tracked_perform [OF _ _ v])
    show "stands ?t y ((v(x \<mapsto> (k, True))) y)" if "y \<noteq> x" for y
      using tr that stands_core [of ?t s] by (simp add: tracked_def)
  qed (use bound tr standsD(2) [OF k(2)] in \<open>simp_all add: tracked_def observe_def\<close>)
  then show ?thesis by blast
next
  case (OpRunning task)
  let ?st = "(state_at s x) \<lparr> os_phase := OpCancellingRunning task, os_intent := Some (IntentRequested None) \<rparr>"
  let ?t = "(observe x HookCancelRequested (set_state x ?st s)) \<lparr> or_cancelling := (or_cancelling s)(x := True) \<rparr>"
  have alive: "alive s x" using OpRunning x by (simp add: alive_def)
  obtain k c where k: "v x = Some (k, c)" "stands s x (Some (k, c))" using tr alive by (rule tracked_alive)
  have "os_intent (state_at s x) = None" using invD_op [OF inv(1) x] OpRunning by (simp add: op_wf_def phase_at_def)
  then have "\<not> c" using standsD(3) [OF k(2)] by (simp add: requested_def)
  have eq: "request_cancel x s = ?t"
    using OpRunning unfolding phase_at_def by (simp add: request_cancel_def request_cancel_locked_def)
  have views: "alive ?t y = alive s y" "started ?t y = started s y" "actor_of ?t y = actor_of s y"
    "state_at ?t y = (if y = x then ?st else state_at s y)" for y
    using OpRunning x by (auto simp: orch_views observe_def set_state_def)
  have rest: "or_dispatch ?t = or_dispatch s" "or_mailboxes ?t = or_mailboxes s" "or_commits ?t = or_commits s"
    by (simp_all add: observe_def)
  have "tracked (v(x \<mapsto> (k, True))) ?t"
  proof (rule tracked_extend [OF tr])
    show "or_log ?t = or_log s @ [(x, HookCancelRequested)]" by simp
    show "run_protocol [(x, HookCancelRequested)] v = Some (v(x \<mapsto> (k, True)))"
      using k(1) \<open>\<not> c\<close> standsD(2) [OF k(2)] by simp
    show "or_next_op ?t = or_next_op s + admissions [(x, HookCancelRequested)]" by (simp add: observe_def)
    show "stands ?t y ((v(x \<mapsto> (k, True))) y)" for y
    proof (cases "y = x")
      case True
      then show ?thesis using k(2) by (simp add: stands_def views rest requested_def)
    next
      case False
      have "stands s y (v y)" using tr by (simp add: tracked_def)
      then have "stands ?t y (v y)" by (rule stands_mono) (use False in \<open>simp_all add: views rest requested_def\<close>)
      then show ?thesis using False by simp
    qed
  qed
  then show ?thesis unfolding eq by blast
qed (use tr in \<open>auto simp: phase_at_def request_cancel_def request_cancel_locked_def\<close>)

subsection \<open>Dispatching\<close>

lemma tracked_dispatch_scheduled:
  assumes tr: "tracked v s" and inv: "orch_inv {} {} {} s" and frame: "or_dispatch s x = Some (stage, signal)" "\<not> early stage"
    and t: "or_ops t = or_ops s" "or_log t = or_log s" "or_next_op t = or_next_op s" "or_dispatch t = or_dispatch s"
      "or_mailboxes t = or_mailboxes s" "or_commits t = or_commits s"
  shows "\<exists>w. tracked w (dispatch_scheduled x signal t)"
proof -
  have x: "started s x" "x \<in> mailbox_members (or_mailboxes s (actor_of s x))" "or_commits s x = None"
    using invD_frame [OF inv frame(1)] frame(2) by (auto simp: frame_ok_def mailbox_members_def)
  then have alive: "alive s x" using invD_frame [OF inv frame(1)] by (auto simp: alive_def started_def frame_ok_def)
  obtain k c where k: "v x = Some (k, c)" "stands s x (Some (k, c))" using tr alive by (rule tracked_alive)
  have "k = InMailbox" using standsD(2,4,5) [OF k(2)] x frame(1) by (cases k) auto
  let ?u = "dispatch_scheduled x signal t"
  have u: "or_ops ?u = or_ops s" "or_dispatch ?u = (or_dispatch s)(x := None)" "or_mailboxes ?u = or_mailboxes s"
    "or_commits ?u = or_commits s" "or_next_op ?u = or_next_op s" "or_log ?u = or_log s @ [(x, HookDispatched)]"
    using t by (simp_all add: dispatch_scheduled_def) (simp_all add: observe_def t)
  note views = views_ops [OF u(1)]
  have "tracked (v(x \<mapsto> (Working, c))) ?u"
  proof (rule tracked_extend [OF tr u(6)])
    show "run_protocol [(x, HookDispatched)] v = Some (v(x \<mapsto> (Working, c)))" using k(1) \<open>k = InMailbox\<close> by simp
    show "or_next_op ?u = or_next_op s + admissions [(x, HookDispatched)]" using u(5) by simp
    show "stands ?u y ((v(x \<mapsto> (Working, c))) y)" for y
    proof (cases "y = x")
      case True
      then show ?thesis using k(2) x(1,3) u by (simp add: stands_def views requested_def)
    next
      case False
      have "stands s y (v y)" using tr by (simp add: tracked_def)
      then have "stands ?u y (v y)" by (rule stands_mono) (use False u in \<open>simp_all add: views requested_def\<close>)
      then show ?thesis using False by simp
    qed
  qed
  then show ?thesis by blast
qed

text \<open>The state of a cue changes in a way that no standing sees.\<close>

lemma tracked_set_state:
  assumes tr: "tracked v s" and x: "alive s x" "\<not> is_terminal st" "or_dispatch s x \<noteq> None \<or> (started s x \<longleftrightarrow> (\<exists>t. os_phase st = OpRunning t \<or> os_phase st = OpCancellingRunning t))"
    and c: "(\<exists>e. os_intent st = Some (IntentRequested e)) \<longleftrightarrow> requested s x"
  shows "tracked v (set_state x st s)"
proof (rule tracked_same [OF tr])
  show "stands (set_state x st s) y (v y)" if "stands s y (v y)" for y
  proof (cases "v y")
    case None
    then show ?thesis using that set_state_alive [OF x(1,2)] by (simp add: stands_def)
  next
    case (Some q)
    then show ?thesis
      using that x(3) c set_state_alive [OF x(1,2)] set_state_started [OF x(1)]
      by (cases q; cases "y = x") (auto simp: stands_def requested_def)
  qed
qed simp_all

lemma tracked_set_stage:
  assumes tr: "tracked v s" and x: "or_dispatch s x \<noteq> None"
  shows "tracked v (set_stage x stage signal s)"
proof (rule tracked_same [OF tr])
  show "stands (set_stage x stage signal s) y (v y)" if "stands s y (v y)" for y
  proof -
    let ?t = "set_stage x stage signal s"
    have t: "or_ops ?t = or_ops s" "or_mailboxes ?t = or_mailboxes s" "or_commits ?t = or_commits s"
      "or_dispatch ?t y = None \<longleftrightarrow> or_dispatch s y = None" using x by (auto simp: set_stage_def)
    show ?thesis by (rule stands_mono [OF that]) (use t(2-4) in \<open>simp_all add: views_ops [OF t(1)] requested_def\<close>)
  qed
qed (simp_all add: set_stage_def)

subsection \<open>Admitting and enqueueing\<close>

lemma admission_dropped_fields [simp]:
  "or_ops (admission_dropped sc token s) = or_ops s" "or_next_op (admission_dropped sc token s) = or_next_op s"
  "or_dispatch (admission_dropped sc token s) = or_dispatch s" "or_mailboxes (admission_dropped sc token s) = or_mailboxes s"
  "or_commits (admission_dropped sc token s) = or_commits s"
  by (simp_all add: admission_dropped_def observe_scene_def Let_def split: prod.split option.split)

lemma tracked_enqueue_operation:
  assumes tr: "tracked v s" and x: "v x = Some (Waiting, c)" "or_commits s x = None"
    and mail: "mailbox_ok (or_mailboxes s (actor_of s x))"
    and inv: "orch_inv P S C (enqueue_operation x s)" and bound: "or_next_op s < 2 ^ 64"
  shows "tracked (v(x \<mapsto> (InMailbox, c))) (enqueue_operation x s)"
proof -
  let ?u = "enqueue_operation x s" and ?a = "actor_of s x"
  let ?m = "fst (enqueue_and_claim x (or_mailboxes s ?a))" and ?start = "snd (enqueue_and_claim x (or_mailboxes s ?a))"
  have start: "?start = None \<or> ?start = Some x" and m: "mb_running ?m \<noteq> None"
    "mailbox_members ?m = insert x (mailbox_members (or_mailboxes s ?a))"
    by (cases "mb_running (or_mailboxes s ?a)";
        use mail in \<open>auto simp: enqueue_and_claim_idle enqueue_and_claim_busy mailbox_members_def mailbox_ok_def\<close>)+
  have u: "or_ops ?u = or_ops s" "or_mailboxes ?u = (or_mailboxes s)(?a := ?m)" "or_commits ?u = or_commits s"
    "or_next_op ?u = or_next_op s" "or_log ?u = or_log s @ [(x, HookEnqueued (length (mb_queue ?m)) (mb_running ?m \<noteq> None))]"
    "or_dispatch ?u = (case ?start of None \<Rightarrow> or_dispatch s | Some n \<Rightarrow> (or_dispatch s)(n \<mapsto> (StClaimed, None)))"
    by (cases ?start; simp add: enqueue_operation_def drain_from_def observe_def Let_def case_prod_beta actor_of_def)+
  note views = views_ops [OF u(1)]
  have depth: "length (mb_queue ?m) + 1 < 2 ^ 64" using mailbox_bound [OF inv, of ?a] bound u(4) m(1) by (simp add: u(2))
  have stands: "stands s y (v y)" for y using tr by (simp add: tracked_def)
  show ?thesis
  proof (rule tracked_extend [OF tr u(5)])
    show "run_protocol [(x, HookEnqueued (length (mb_queue ?m)) (mb_running ?m \<noteq> None))] v = Some (v(x \<mapsto> (InMailbox, c)))"
      using x(1) m(1) depth by simp
    show "or_next_op ?u = or_next_op s + admissions [(x, HookEnqueued (length (mb_queue ?m)) (mb_running ?m \<noteq> None))]"
      using u(4) by simp
    show "stands ?u y ((v(x \<mapsto> (InMailbox, c))) y)" for y
    proof (cases "y = x")
      case True
      have "stands s x (Some (Waiting, c))" using stands [of x] x(1) by simp
      moreover have "or_dispatch ?u x = None \<longrightarrow> or_dispatch s x = None" using start u(6) by auto
      ultimately show ?thesis using True x(2) u(3) by (auto simp: stands_def views requested_def)
    next
      case False
      have "or_dispatch ?u y = or_dispatch s y" using start u(6) False by auto
      then have "stands ?u y (v y)"
        by (intro stands_mono [OF stands]) (use False u(2,3) m(2) in \<open>auto simp: views requested_def split: if_splits\<close>)
      then show ?thesis using False by simp
    qed
  qed
qed

lemma tracked_commit_enqueue:
  assumes tr: "tracked v s" and x: "known s x" "or_commits s x = None" "alive s x \<Longrightarrow> v x = Some (Waiting, c)"
    and mail: "mailbox_ok (or_mailboxes s (actor_of s x))"
    and inv: "orch_inv P S C (commit_enqueue x token s)" and bound: "or_next_op s < 2 ^ 64"
  shows "\<exists>w. tracked w (commit_enqueue x token s)"
proof -
  have alive: "is_terminal (state_at s x) \<longleftrightarrow> \<not> alive s x"
    using x(1) by (cases "phase_at s x") (auto simp: alive_def phase_at_def)
  consider (over) "\<not> alive s x" | (dead) "alive s x" "\<not> or_actor_live s (actor_of s x)"
    | (live) "alive s x" "or_actor_live s (actor_of s x)" by blast
  then show ?thesis
  proof cases
    case over
    then show ?thesis using tr alive by (auto simp: commit_enqueue_def operation_enqueue_def simp del: is_terminal_simps)
  next
    case dead
    have "tracked v (admission_dropped (op_scene (operation_at s x)) token s)"
      by (rule tracked_unseen [OF tr]) simp_all
    then show ?thesis
      using dead alive by (auto simp: commit_enqueue_def operation_enqueue_def actor_of_def simp del: is_terminal_simps)
  next
    case live
    then have eq: "commit_enqueue x token s = enqueue_operation x s"
      using alive by (simp add: commit_enqueue_def operation_enqueue_def actor_of_def del: is_terminal_simps)
    show ?thesis unfolding eq
      using tracked_enqueue_operation [OF tr x(3) [OF live(1)] x(2) mail] inv bound eq by auto
  qed
qed

lemma tracked_admitted:
  assumes tr: "tracked v s" and inv: "orch_inv P S C s" and n: "n = or_next_op s"
    and t: "or_ops t = (or_ops s)(n \<mapsto> op)" "op_state op = new_operation_state n n" "or_next_op t = Suc n"
      "or_log t = or_log s @ [(n, HookAdmitted)]" "or_dispatch t = or_dispatch s" "or_mailboxes t = or_mailboxes s"
      "\<And>y. y \<noteq> n \<Longrightarrow> or_commits t y = or_commits s y"
  shows "tracked (v(n \<mapsto> (Waiting, False))) t"
proof -
  have unknown: "\<not> known s n" using inv n by (simp add: orch_inv_def inv_ops_def)
  have stands: "stands s y (v y)" for y using tr by (simp add: tracked_def)
  have "v n = None" using standsD(1) [OF stands [of n]] unknown by (cases "v n") (auto simp: alive_def)
  have absent: "n \<notin> mailbox_members (or_mailboxes s a)" for a
    using inv unknown by (auto simp: orch_inv_def inv_mail_def alive_def)
  have new: "alive t n" "\<not> started t n" "\<not> requested t n"
    using t(1,2) by (simp_all add: alive_def started_def requested_def known_def phase_at_def state_at_def operation_at_def
        new_operation_state_def)
  have old: "alive t y = alive s y" "started t y = started s y" "requested t y = requested s y" "actor_of t y = actor_of s y"
    if "y \<noteq> n" for y
    using t(1) that by (simp_all add: orch_views requested_def)
  show ?thesis
  proof (rule tracked_extend [OF tr t(4)])
    show "run_protocol [(n, HookAdmitted)] v = Some (v(n \<mapsto> (Waiting, False)))" using \<open>v n = None\<close> by simp
    show "or_next_op t = or_next_op s + admissions [(n, HookAdmitted)]" using t(3) n by simp
    show "stands t y ((v(n \<mapsto> (Waiting, False))) y)" for y
    proof (cases "y = n")
      case True
      then show ?thesis using new absent t(6) by (simp add: stands_def)
    next
      case False
      have "stands t y (v y)" by (rule stands_mono [OF stands]) (use False t(5-7) old in simp_all)
      then show ?thesis using False by simp
    qed
  qed
qed

lemma tracked_commit_admission:
  assumes tr: "tracked v s" and inv: "orch_inv {} {} {} s" and calm: "or_panic (commit_admission sc a source token cue_id count s) = None"
    and inv': "orch_inv {} {} {} (commit_admission sc a source token cue_id count s)"
    and bound: "or_next_op (commit_admission sc a source token cue_id count s) < 2 ^ 64"
  shows "\<exists>w. tracked w (commit_admission sc a source token cue_id count s)"
proof (cases "or_scenes s sc")
  case None
  then show ?thesis using tr by (auto simp: commit_admission_def Let_def)
next
  case sc: (Some scope)
  let ?n = "or_next_op s"
  obtain scope' ops where commit: "commit_locked token count ?n scope = Some (scope', ops)"
    using calm sc by (cases "commit_locked token count ?n scope") (auto simp: commit_admission_def panic_with_def Let_def)
  let ?op = "\<lparr> op_scene = sc, op_actor = a, op_cued = new_cued_scope source a cue_id, op_state = new_operation_state ?n ?n \<rparr>"
  let ?t = "observe ?n HookAdmitted (s \<lparr> or_ops := (or_ops s)(?n \<mapsto> ?op), or_next_op := Suc ?n,
              or_scenes := (or_scenes s)(sc \<mapsto> scope'), or_txn := (or_txn s)(sc := None) \<rparr>)"
  let ?v = "v(?n \<mapsto> (Waiting, False))"
  have unknown: "\<not> known s ?n" using inv by (simp add: orch_inv_def inv_ops_def)
  then have fresh: "or_commits s ?n = None" using inv by (cases "or_commits s ?n") (auto simp: orch_inv_def inv_commit_def)
  show ?thesis
  proof (cases ops)
    case None
    have eq: "commit_admission sc a source token cue_id count s = commit_enqueue ?n token ?t"
      using None sc commit by (simp add: commit_admission_def Let_def)
    have t: "tracked ?v ?t" by (rule tracked_admitted [OF tr inv refl, where op = ?op]) (simp_all add: observe_def)
    have new: "known ?t ?n" "or_commits ?t ?n = None" "?v ?n = Some (Waiting, False)" using fresh by (simp_all add: observe_def known_def)
    have mail: "mailbox_ok (or_mailboxes ?t (actor_of ?t ?n))" using inv by (simp add: orch_inv_def inv_mail_def observe_def)
    have "or_next_op (commit_enqueue ?n token ?t) = or_next_op ?t"
      by (simp add: commit_enqueue_def operation_enqueue_def enqueue_operation_def drain_from_def observe_def Let_def
          split: prod.split option.split)
    then have small: "or_next_op ?t < 2 ^ 64" using bound eq by simp
    show ?thesis unfolding eq by (rule tracked_commit_enqueue [OF t new mail inv' [unfolded eq] small])
  next
    case (Some l)
    let ?u = "(observe_scene sc CancellationStarted ?t) \<lparr> or_commits := (or_commits ?t)(?n \<mapsto> (token, l)) \<rparr>"
    have eq: "commit_admission sc a source token cue_id count s = ?u"
      using Some sc commit by (simp add: commit_admission_def Let_def)
    have "tracked ?v ?u"
      by (rule tracked_admitted [OF tr inv refl, where op = ?op]) (simp_all add: observe_def observe_scene_def)
    then show ?thesis unfolding eq by blast
  qed
qed

subsection \<open>Every step\<close>

text \<open>The dispatches succeed: the callback object is made, the binding of the Run is alive, \<^verbatim>\<open>cued\<close> returns, the task is created.\<close>

fun dispatch_succeeds :: "orch_event \<Rightarrow> orchestra \<Rightarrow> bool" where
  "dispatch_succeeds (DispatchStart x e) s \<longleftrightarrow> e = None \<and> or_binding_live s"
| "dispatch_succeeds (CuedReturned x e) s \<longleftrightarrow> e = None"
| "dispatch_succeeds (TaskCreated x (Inl e)) s \<longleftrightarrow> False"
| "dispatch_succeeds _ s \<longleftrightarrow> True"

lemma tracked_dispatch_step:
  assumes tr: "tracked v s" and inv: "orch_inv {} {} {} s" and frame: "or_dispatch s x = Some (stage, signal)"
  shows "stage = StClaimed \<Longrightarrow> or_binding_live s \<Longrightarrow> or_panic (dispatch_start x signal None s) = None \<Longrightarrow>
      \<exists>w. tracked w (dispatch_start x signal None s)"
    and "stage = StCalling \<Longrightarrow> \<exists>w. tracked w (dispatch_called x signal None s)"
    and "stage = StTasking \<Longrightarrow> or_panic (dispatch_task x signal (Inr task) s) = None \<Longrightarrow>
      \<exists>w. tracked w (dispatch_task x signal (Inr task) s)"
    and "stage = StAttaching \<Longrightarrow> \<exists>w. tracked w (dispatch_attached x signal r s)"
    and "stage = StAbandoning \<Longrightarrow> \<exists>w. tracked w (dispatch_abandoned x signal b s)"
proof -
  have ok: "frame_ok s x stage signal" by (rule invD_frame [OF inv frame])
  have known: "known s x" and live: "or_actor_live s (op_actor (operation_at s x))"
    using ok by (simp_all add: frame_ok_def actor_of_def)
  have stage: "tracked v (set_stage x st signal s)" for st using tr frame by (intro tracked_set_stage) simp_all
  show "\<exists>w. tracked w (dispatch_start x signal None s)" if "or_binding_live s" "or_panic (dispatch_start x signal None s) = None"
    using that live stage by (auto simp: dispatch_start_def panic_with_def split: if_splits option.splits)
  show "\<exists>w. tracked w (dispatch_called x signal None s)" using stage by (auto simp: dispatch_called_def)
  show "\<exists>w. tracked w (dispatch_task x signal (Inr task) s)" if "or_panic (dispatch_task x signal (Inr task) s) = None"
  proof -
    let ?st = "(state_at s x) \<lparr> os_phase := OpRunning task \<rparr>"
    have q: "phase_at s x = OpQueued"
      using that by (auto simp: dispatch_task_def start_running_locked_def phase_at_def panic_with_def Let_def split: if_splits)
    have "tracked v (set_state x ?st s)"
      by (rule tracked_set_state [OF tr]) (use q known frame in \<open>auto simp: alive_def requested_def\<close>)
    then have "tracked v (set_stage x StAttaching signal (set_state x ?st s))" using frame by (intro tracked_set_stage) simp_all
    then show ?thesis using q by (auto simp: dispatch_task_def start_running_locked_def phase_at_def Let_def)
  qed
  show "\<exists>w. tracked w (dispatch_attached x signal r s)" if "stage = StAttaching"
  proof (cases r)
    case None
    have "\<exists>w. tracked w (dispatch_scheduled x signal (s \<lparr> or_callback := (or_callback s)(x := True) \<rparr>))"
      by (rule tracked_dispatch_scheduled [OF tr inv frame]) (use that in simp_all)
    then show ?thesis using None by (simp add: dispatch_attached_def)
  next
    case (Some e)
    have started: "started s x" "alive s x" using ok that known by (auto simp: frame_ok_def started_def alive_def)
    show ?thesis
    proof (cases "phase_at s x")
      case (OpRunning task)
      let ?st = "(state_at s x) \<lparr> os_phase := OpCancellingRunning task, os_intent := Some (IntentAttachmentFailure e) \<rparr>"
      have "os_intent (state_at s x) = None" using invD_op [OF inv known] OpRunning by (simp add: op_wf_def phase_at_def)
      then have "tracked v (set_state x ?st s)"
        using frame started by (intro tracked_set_state [OF tr]) (auto simp: requested_def)
      then have "tracked v (set_stage x StAbandoning signal (set_state x ?st s))" using frame by (intro tracked_set_stage) simp_all
      then show ?thesis
        using Some OpRunning by (auto simp: dispatch_attached_def begin_attachment_failure_locked_def phase_at_def)
    next
      case (OpCancellingRunning task)
      have "\<exists>w. tracked w (dispatch_scheduled x signal s)"
        by (rule tracked_dispatch_scheduled [OF tr inv frame]) (use that in simp_all)
      then show ?thesis
        using Some OpCancellingRunning by (simp add: dispatch_attached_def begin_attachment_failure_locked_def phase_at_def)
    qed (use started in \<open>auto simp: started_def\<close>)
  qed
  show "\<exists>w. tracked w (dispatch_abandoned x signal b s)" if "stage = StAbandoning"
    unfolding dispatch_abandoned_def by (rule tracked_dispatch_scheduled [OF tr inv frame]) (use that in simp_all)
qed

lemma tracked_call_step:
  assumes tr: "tracked v s" and inv: "orch_inv {} {} {} s" and inv': "orch_inv {} {} {} s'"
    and bound: "or_next_op s < 2 ^ 64" "or_next_op s' < 2 ^ 64" and ok: "dispatch_succeeds ev s"
    and step: "call_step ev s = Some s'" and calm: "or_panic s' = None"
  shows "\<exists>w. tracked w s'"
proof -
  note unseen = tracked_unseen [OF tr]
  note dispatch = tracked_dispatch_step [OF tr inv]
  from step show ?thesis
  proof (cases rule: call_stepE)
    case (Prepare sc token scope)
    have "tracked v s'" unfolding Prepare(4) by (rule unseen) simp_all
    then show ?thesis by blast
  next
    case (Drop sc token p)
    have "tracked v s'" unfolding Drop(3) by (rule unseen) simp_all
    then show ?thesis by blast
  next
    case (Commit sc a source token cue_id n)
    show ?thesis
      using tracked_commit_admission [OF tr inv] calm inv' bound(2) unfolding Commit(3) by blast
  next
    case (Cancel c token target rest)
    let ?t = "s \<lparr> or_commits := (or_commits s)(c \<mapsto> (token, rest)) \<rparr>"
    have "tracked v ?t" by (rule unseen) (use Cancel(2) in \<open>auto split: if_splits\<close>)
    moreover have "known ?t target" using orch_inv_commit_pop(2) [OF inv Cancel(2)] by (simp add: known_def)
    ultimately show ?thesis
      unfolding Cancel(3) using orch_inv_commit_pop(1) [OF inv Cancel(2)] bound(1) by (intro tracked_request_cancel) auto
  next
    case (Enqueue c token)
    let ?t = "s \<lparr> or_commits := (or_commits s)(c := None) \<rparr>"
    have t: "tracked v ?t" by (rule unseen) (auto split: if_splits)
    have c: "known s c" using inv Enqueue(2) by (auto simp: orch_inv_def inv_commit_def)
    have "v c = Some (Waiting, requested s c)" if "alive s c"
    proof -
      obtain k b where k: "v c = Some (k, b)" "stands s c (Some (k, b))" using tr \<open>alive s c\<close> by (rule tracked_alive)
      then show ?thesis using standsD(3,6) [OF k(2)] Enqueue(2) by simp
    qed
    then have v: "v c = Some (Waiting, requested s c)" if "alive ?t c" using that views_ops [of ?t s] by simp
    show ?thesis
      unfolding Enqueue(3)
      by (rule tracked_commit_enqueue [OF t _ _ v _ inv' [unfolded Enqueue(3)]])
        (use c inv bound in \<open>simp_all add: known_def orch_inv_def inv_mail_def\<close>)
  next
    case (Start c e signal)
    then show ?thesis using dispatch(1) [OF Start(2) refl] ok calm by simp
  next
    case (Called c r signal)
    then show ?thesis using dispatch(2) [OF Called(2) refl] ok by simp
  next
    case (Task c tr signal)
    then show ?thesis using dispatch(3) [OF Task(2) refl] ok calm by (cases tr) simp_all
  next
    case (Attached c r signal)
    then show ?thesis using dispatch(4) [OF Attached(2) refl] by simp
  next
    case (Abandoned c b signal)
    then show ?thesis using dispatch(5) [OF Abandoned(2) refl] by simp
  next
    case (Returned c r)
    let ?t = "case r of None \<Rightarrow> s | Some e \<Rightarrow> set_state c (record_cancel_error e (state_at s c)) s"
    have known: "known s c" "phase_at s c \<noteq> OpQueued" using inv Returned(2) by (auto simp: orch_inv_def inv_callbacks_def)
    have "tracked v (set_state c (record_cancel_error e (state_at s c)) s)" for e
    proof (rule tracked_same [OF tr])
      show "stands (set_state c (record_cancel_error e (state_at s c)) s) y (v y)" if "stands s y (v y)" for y
        by (rule stands_mono [OF that])
          (use known in \<open>auto simp: alive_def started_def requested_def record_cancel_error_def phase_at_def
             split: option.splits cancellation_intent.splits\<close>)
    qed simp_all
    then have "tracked v ?t" using tr by (simp split: option.split)
    then have "tracked v s'" unfolding Returned(3) by (rule tracked_unseen) simp_all
    then show ?thesis by blast
  next
    case (Close sc target rest)
    let ?t = "s \<lparr> or_closing := (or_closing s)(sc := Some rest) \<rparr>"
    have pop: "orch_inv {} {} {target} ?t" "known s target"
      using orch_inv_closing_pop [OF inv Close(2), of "Some rest" rest target] by auto
    have "tracked v ?t" by (rule unseen) simp_all
    then show ?thesis
      unfolding Close(3) using pop bound(1) by (intro tracked_request_cancel) (auto simp: known_def)
  next
    case (Closed sc)
    have "tracked v s'" unfolding Closed(3) by (rule unseen) simp_all
    then show ?thesis by blast
  qed
qed

lemma tracked_outside_step:
  assumes tr: "tracked v s" and inv: "orch_inv {} {} {} s" and bound: "or_next_op s < 2 ^ 64"
    and step: "outside_step ev s = Some s'"
  shows "\<exists>w. tracked w s'"
proof -
  note unseen = tracked_unseen [OF tr]
  have cued: "tracked v (close_cued_inline c s)" "tracked v (set_cued c cued s)" if "known s c" for c cued
    using core_close_cued_inline [OF that] core_set_cued [OF that, of cued] by (auto intro: tracked_core [OF tr])
  have callback: "known s c \<and> phase_at s c \<noteq> OpQueued \<and> or_dispatch s c = None" if "or_callback s c \<or> or_fallback s c" for c
    using inv that by (auto simp: orch_inv_def inv_callbacks_def)
  from step show ?thesis
  proof (cases rule: outside_stepE)
    case (Open sc name)
    have "tracked v s'" unfolding Open(3) by (rule unseen) simp_all
    then show ?thesis by blast
  next
    case (Begin sc scope)
    have "tracked v s'"
      by (rule unseen) (use Begin(3) in \<open>auto simp: begin_event_def split: prod.splits option.splits\<close>)
    then show ?thesis by blast
  next
    case (CloseS sc scope)
    have "tracked v s'"
      by (rule unseen) (use CloseS(3) in \<open>auto simp: close_scene_def observe_closed_def observe_scene_def Let_def
          split: prod.splits option.splits close_action.splits\<close>)
    then show ?thesis by blast
  next
    case (Wait sc scope)
    have "tracked v s'"
      by (rule unseen) (use Wait(3) in \<open>auto simp: wait_closed_def observe_closed_def observe_scene_def Let_def
          split: prod.splits if_splits\<close>)
    then show ?thesis by blast
  next
    case (Request c)
    show ?thesis unfolding Request(3) by (rule tracked_request_cancel [OF tr inv empty_subsetI bound Request(2)])
  next
    case (Result c r)
    let ?t = "s \<lparr> or_callback := (or_callback s)(c := False) \<rparr>"
    have c: "known s c" "phase_at s c \<noteq> OpQueued" "or_dispatch s c = None" using callback Result(2) by blast+
    have t: "tracked v ?t" by (rule unseen) simp_all
    show ?thesis unfolding Result(3)
      by (rule tracked_finish_with_result [OF t orch_inv_callback(1) [OF inv c]])
        (use c bound in \<open>simp_all add: known_def views_ops [of ?t s]\<close>)
  next
    case (Poll c p)
    let ?t = "s \<lparr> or_fallback := (or_fallback s)(c := False) \<rparr>"
    have c: "known s c" "phase_at s c \<noteq> OpQueued" "or_dispatch s c = None" using callback Poll(2) by blast+
    have t: "tracked v ?t" by (rule unseen) simp_all
    have "\<exists>w. tracked w (finish_with_result c r ?t)" for r
      by (rule tracked_finish_with_result [OF t orch_inv_callback(2) [OF inv c]])
        (use c bound in \<open>simp_all add: known_def views_ops [of ?t s]\<close>)
    then show ?thesis
      unfolding Poll(3) fallback_called_def Let_def using t tr by (cases "fallback_task (state_at s c)"; cases p) auto
  next
    case (DropA a)
    have "tracked v s'"
    proof (rule tracked_same [OF tr])
      have t: "or_ops s' = or_ops s" "or_dispatch s' = or_dispatch s" "or_commits s' = or_commits s"
        "or_mailboxes s' = (or_mailboxes s)(a := mailbox_default)" using DropA(3) by simp_all
      show "stands s' x (v x)" if "stands s x (v x)" for x
        by (rule stands_mono [OF that]) (use t(2-4) in \<open>auto simp: views_ops [OF t(1)] requested_def split: if_splits\<close>)
    qed (use DropA(3) in simp_all)
    then show ?thesis by blast
  next
    case DropB
    have "tracked v s'" unfolding DropB(2) by (rule unseen) simp_all
    then show ?thesis by blast
  next
    case (Driver c)
    then show ?thesis using cued by blast
  next
    case (Turn c turn)
    have "tracked v s'" unfolding Turn(3) by (rule tracked_unseen [OF cued(2) [OF Turn(2)]]) simp_all
    then show ?thesis by blast
  next
    case (DropT turn)
    have "tracked v s'" unfolding DropT(2) by (rule unseen) simp_all
    then show ?thesis by blast
  next
    case (Effect c)
    then show ?thesis using cued by blast
  qed
qed

lemma advances_count:
  assumes "orch_inv P S C s" "orch_inv P' S' C' t" "advances s t"
  shows "or_next_op s \<le> or_next_op t"
proof -
  have "x < or_next_op t" if "x < or_next_op s" for x
    using assms that by (auto simp: advances_def orch_inv_def inv_ops_def)
  then show ?thesis by (meson leI less_irrefl)
qed

lemma orch_run_tracked:
  assumes "orch_run dispatch_succeeds (orchestra_init actors) s" "or_panic s = None" "or_next_op s < 2 ^ 64"
  shows "\<exists>v. tracked v s"
  using assms
proof (induction rule: orch_run.induct)
  case orch_run_start
  show ?case using tracked_init by blast
next
  case (orch_run_step s ev s')
  have calm: "or_panic s = None" by (rule orch_step_calm [OF orch_run_step.hyps(3)])
  have inv: "orch_inv {} {} {} s" by (rule orch_run_inv [OF orch_run_step.hyps(1) calm])
  have inv': "orch_inv {} {} {} s'" by (rule orch_step_inv [OF inv orch_run_step.hyps(3) orch_run_step.prems(1)])
  have bound: "or_next_op s < 2 ^ 64"
    using advances_count [OF inv inv' orch_step_advances [OF inv orch_run_step.hyps(3) orch_run_step.prems(1)]] orch_run_step.prems(2)
    by linarith
  obtain v where tr: "tracked v s" using orch_run_step.IH [OF calm bound] by blast
  from orch_run_step.hyps(3) show ?case
  proof (cases rule: orch_stepE)
    case call
    show ?thesis
      by (rule tracked_call_step [OF tr inv inv' bound orch_run_step.prems(2) orch_run_step.hyps(2) call(2) orch_run_step.prems(1)])
  next
    case outside
    show ?thesis by (rule tracked_outside_step [OF tr inv bound outside(2)])
  qed
qed

subsection \<open>What is told of a run\<close>

text \<open>When every emission succeeds, no failure of the diagnostics is recorded.\<close>

lemma method_emits:
  assumes "\<And>es e. \<exists>n. answer es e = Inr n"
  shows "cp_diagnostic_failures (snd (lifecycle_admitted answer x l p)) = cp_diagnostic_failures p"
    and "cp_diagnostic_failures (snd (lifecycle_enqueued answer x queued running l p)) = cp_diagnostic_failures p"
    and "cp_diagnostic_failures (snd (lifecycle_dispatched answer x l p)) = cp_diagnostic_failures p"
    and "cp_diagnostic_failures (snd (lifecycle_cancel_requested answer x l p)) = cp_diagnostic_failures p"
    and "cp_diagnostic_failures (snd (lifecycle_terminal answer x outcome e l p)) = cp_diagnostic_failures p"
    and "cp_diagnostic_failures (snd (lifecycle_retired answer x queued running l p)) = cp_diagnostic_failures p"
proof -
  have emits: "cp_diagnostic_failures p = es \<Longrightarrow>
      (\<And>n p'. cp_diagnostic_failures p' = es \<Longrightarrow> cp_diagnostic_failures (snd (go_on n p')) = es) \<Longrightarrow>
      cp_diagnostic_failures (snd (try_emit answer e l p go_on)) = es" for e l p go_on es
    using assms [of "cp_emitted p" e] by (auto simp: try_emit_def)
  show "cp_diagnostic_failures (snd (lifecycle_admitted answer x l p)) = cp_diagnostic_failures p"
    unfolding lifecycle_admitted_def by (auto intro!: emits)
  show "cp_diagnostic_failures (snd (lifecycle_enqueued answer x queued running l p)) = cp_diagnostic_failures p"
    unfolding lifecycle_enqueued_def by (auto intro!: emits split: cue_phase.split sum.split)
  show "cp_diagnostic_failures (snd (lifecycle_dispatched answer x l p)) = cp_diagnostic_failures p"
    unfolding lifecycle_dispatched_def by (auto intro!: emits split: cue_phase.split)
  show "cp_diagnostic_failures (snd (lifecycle_cancel_requested answer x l p)) = cp_diagnostic_failures p"
    unfolding lifecycle_cancel_requested_def Let_def by (auto intro!: emits split: cue_phase.split)
  show "cp_diagnostic_failures (snd (lifecycle_retired answer x queued running l p)) = cp_diagnostic_failures p"
    unfolding lifecycle_retired_def by (auto intro!: emits split: cue_phase.split sum.split)
  have ending: "cp_diagnostic_failures (snd (lifecycle_ending answer x outcome span_id source l p)) = cp_diagnostic_failures p"
    for outcome span_id source
    unfolding lifecycle_ending_def Let_def
    by (cases "terminal_span outcome (cl_phase l)") (auto intro!: emits split: option.split)
  show "cp_diagnostic_failures (snd (lifecycle_terminal answer x outcome e l p)) = cp_diagnostic_failures p"
    unfolding lifecycle_terminal_def by (auto simp: ending fail_state_def latch_state_failure_def split: cue_phase.split)
qed

lemma told_emits:
  assumes "\<And>es e. \<exists>n. answer es e = Inr n" "\<And>entry. ln_context (lin entry) = None"
  shows "cp_diagnostic_failures (told lin answer hooks) = []"
proof -
  note emits = method_emits [of answer, OF assms(1)]
  have step: "cp_diagnostic_failures (produce lin answer (x, h) p) = cp_diagnostic_failures p" for x h p
  proof (cases h)
    case HookAdmitted
    obtain r q where r: "lifecycle_prepare (lin (x, HookAdmitted)) p = (r, q)" by fastforce
    then have "cp_diagnostic_failures q = cp_diagnostic_failures p"
      using assms(2) by (auto simp: lifecycle_prepare_def next_cue_id_def split: if_splits option.splits sum.splits)
    then show ?thesis using HookAdmitted r by (auto simp: producer_admitted_def emits split: sum.split option.split)
  qed (auto simp: with_producer_def producer_terminal_def producer_retired_def Let_def emits split: option.split)
  have "cp_diagnostic_failures (fold (produce lin answer) hooks p) = cp_diagnostic_failures p" for p
    by (induction hooks arbitrary: p) (auto simp: step)
  then show ?thesis by (simp add: told_def cue_producers_init_def)
qed

lemma conforms_tracked:
  assumes "conforms v n p" "tracked v s"
  shows "cp_state_failures p = [] \<and>
    (\<forall>x. case cp_active p x of
       None \<Rightarrow> \<not> alive s x \<and> cue_spans_open x (cp_emitted p) [] = Some []
     | Some l \<Rightarrow>
         alive s x \<and> \<not> cl_failed l \<and> cue_spans_open x (cp_emitted p) [] = Some (phase_spans (cl_phase l)) \<and>
         (is_dispatched (cl_phase l) \<longleftrightarrow> started s x \<and> or_dispatch s x = None) \<and>
         (phase_spans (cl_phase l) = [] \<longrightarrow> x \<notin> mailbox_members (or_mailboxes s (actor_of s x))) \<and>
         (or_commits s x \<noteq> None \<longrightarrow> phase_spans (cl_phase l) = []))"
proof (intro conjI allI)
  show "cp_state_failures p = []" using assms(1) by (simp add: conforms_def)
  fix x
  have d: "displays x (cp_active p x) (cp_emitted p) (v x)" and s: "stands s x (v x)"
    using assms by (simp_all add: conforms_def tracked_def)
  show "case cp_active p x of
       None \<Rightarrow> \<not> alive s x \<and> cue_spans_open x (cp_emitted p) [] = Some []
     | Some l \<Rightarrow>
         alive s x \<and> \<not> cl_failed l \<and> cue_spans_open x (cp_emitted p) [] = Some (phase_spans (cl_phase l)) \<and>
         (is_dispatched (cl_phase l) \<longleftrightarrow> started s x \<and> or_dispatch s x = None) \<and>
         (phase_spans (cl_phase l) = [] \<longrightarrow> x \<notin> mailbox_members (or_mailboxes s (actor_of s x))) \<and>
         (or_commits s x \<noteq> None \<longrightarrow> phase_spans (cl_phase l) = [])"
  proof (cases "v x")
    case None
    then show ?thesis using d s by (simp add: displays_def stands_def)
  next
    case (Some q)
    obtain k c where q: "q = (k, c)" by fastforce
    then obtain l where l: "cp_active p x = Some l" "lifecycle_at l k c"
      "cue_spans_open x (cp_emitted p) [] = Some (phase_spans (cl_phase l))"
      using d Some by (auto simp: displays_def)
    have "k \<noteq> Over" using standsD(2) [OF s] Some q by simp
    then have "is_dispatched (cl_phase l) \<longleftrightarrow> k = Working" "phase_spans (cl_phase l) = [] \<longleftrightarrow> k = Waiting"
      using l(2) by (cases "cl_phase l"; auto simp: lifecycle_at_def)+
    then show ?thesis using l s Some q by (auto simp: stands_def lifecycle_at_def)
  qed
qed

text \<open>C13. The diagnostics of the cues tell what happens, in every run in which the dispatches succeed and no emission
  fails. No hook of the orchestra finds its cue in the wrong phase, so no failure is latched. A lifecycle is kept exactly
  for the cues that have not ended. The spans that are open for a cue are those of its place: none once it has ended and
  none while it waits to be enqueued; one from the moment it is in the mailbox, which is the execution when its task
  runs and its dispatch is over, and the wait before; and no span is ever finished that is not open.\<close>

theorem cues_told_faithfully:
  assumes "orch_run dispatch_succeeds (orchestra_init actors) s" "or_panic s = None" "or_next_op s + 1 < 2 ^ 64"
    and "\<And>x. lineage_ready (lin (x, HookAdmitted))" "cp_diagnostic_failures (told lin answer (or_log s)) = []"
  shows "cp_state_failures (told lin answer (or_log s)) = [] \<and>
    (\<forall>x. case cp_active (told lin answer (or_log s)) x of
       None \<Rightarrow> \<not> alive s x \<and> cue_spans_open x (cp_emitted (told lin answer (or_log s))) [] = Some []
     | Some l \<Rightarrow>
         alive s x \<and> \<not> cl_failed l \<and>
         cue_spans_open x (cp_emitted (told lin answer (or_log s))) [] = Some (phase_spans (cl_phase l)) \<and>
         (is_dispatched (cl_phase l) \<longleftrightarrow> started s x \<and> or_dispatch s x = None) \<and>
         (phase_spans (cl_phase l) = [] \<longrightarrow> x \<notin> mailbox_members (or_mailboxes s (actor_of s x))) \<and>
         (or_commits s x \<noteq> None \<longrightarrow> phase_spans (cl_phase l) = []))"
proof -
  obtain v where v: "tracked v s" using orch_run_tracked [OF assms(1,2)] assms(3) by auto
  then have "run_protocol (or_log s) (\<lambda>_. None) = Some v" "admissions (or_log s) + 1 < 2 ^ 64"
    using assms(3) by (simp_all add: tracked_def)
  then have "conforms v (admissions (or_log s)) (told lin answer (or_log s))" using assms(4,5) by (rule conforms_told)
  then show ?thesis using v by (rule conforms_tracked)
qed

definition ready_lineage :: cue_lineage where
  "ready_lineage =
     \<lparr> ln_binding = True, ln_runtime = True, ln_scene = True, ln_actor = True, ln_scene_span = Some 9, ln_actor_lineage = True,
       ln_scene_id = True, ln_actor_id = True, ln_context = None \<rparr>"

definition count_emissions :: emit_answer where
  "count_emissions emitted e = Inr (10 + of_nat (length emitted))"

definition two_cues_told :: cue_producers where
  "two_cues_told = told (\<lambda>_. ready_lineage) count_emissions (or_log (after dispatch_succeeds two_cues everybody))"

theorem cues_told_faithfully_witness:
  "cp_state_failures two_cues_told = [] \<and> cp_active two_cues_told 0 \<noteq> None \<and> cp_active two_cues_told 2 = None \<and>
   cue_spans_open 2 (cp_emitted two_cues_told) [] = Some []"
proof -
  let ?s = "after dispatch_succeeds two_cues everybody"
  have run: "orch_run dispatch_succeeds (orchestra_init (\<lambda>_. True)) ?s"
    unfolding everybody_def by (rule after_run) (simp add: orch_demo)
  have s: "or_panic ?s = None" "or_next_op ?s + 1 < 2 ^ 64" by (simp_all add: orch_demo)
  have a: "alive ?s 0" "\<not> alive ?s 2" by (simp_all add: orch_demo alive_def known_def)
  have ready: "lineage_ready ((\<lambda>_. ready_lineage) (x, HookAdmitted))" for x by (simp add: lineage_ready_def ready_lineage_def)
  have calm: "cp_diagnostic_failures (told (\<lambda>_. ready_lineage) count_emissions (or_log ?s)) = []"
    by (rule told_emits) (simp_all add: count_emissions_def ready_lineage_def)
  note told = cues_told_faithfully [OF run s ready calm, folded two_cues_told_def]
  then have p: "cp_state_failures two_cues_told = []" by blast
  have 0: "cp_active two_cues_told 0 \<noteq> None" using conjunct2 [OF told, THEN spec, of 0] a(1) by (cases "cp_active two_cues_told 0") simp_all
  have 2: "cp_active two_cues_told 2 = None" "cue_spans_open 2 (cp_emitted two_cues_told) [] = Some []"
    using conjunct2 [OF told, THEN spec, of 2] a(2) by (cases "cp_active two_cues_told 2"; simp)+
  show ?thesis using p 0 2 by blast
qed

text \<open>When a dispatch fails, here because \<^verbatim>\<open>cued\<close> raises, the cue is retired without the report of its outcome
  (\<open>dispatch_failed\<close> goes to \<open>finish_terminal_action\<close> and not to \<open>perform_terminal_action\<close>): the producer takes this for
  a fault, latches a failure, and the span of the wait is never finished.\<close>

lemma failed_dispatch_latches:
  "cp_state_failures (told (\<lambda>_. ready_lineage) count_emissions
     (or_log (after any_event (take 4 two_cues @ [DispatchStart 0 None, CuedReturned 0 (Some (PyError 1))]) everybody))) =
     [''cue.mailbox-retire-transition-invalid'']"
  "cue_spans_open 0 (cp_emitted (told (\<lambda>_. ready_lineage) count_emissions
     (or_log (after any_event (take 4 two_cues @ [DispatchStart 0 None, CuedReturned 0 (Some (PyError 1))]) everybody)))) [] =
     Some [13]"
proof -
  have l: "or_log (after any_event (take 4 two_cues @ [DispatchStart 0 None, CuedReturned 0 (Some (PyError 1))]) everybody) =
      [(0, HookAdmitted), (0, HookEnqueued 0 True), (0, HookRetired 0 False)]"
    by (simp add: orch_demo)
  note eval = told_def cue_producers_init_def producer_admitted_def lifecycle_prepare_def ready_lineage_def next_cue_id_def
    checked_add_u64_one cue_id_valid [of 1, simplified] in_place_def lifecycle_admitted_def try_emit_def count_emissions_def Let_def
    with_producer_def lifecycle_enqueued_def mailbox_depth_def producer_retired_def lifecycle_retired_def fail_state_def
    latch_state_failure_def producer_remove_def
  show "cp_state_failures (told (\<lambda>_. ready_lineage) count_emissions
     (or_log (after any_event (take 4 two_cues @ [DispatchStart 0 None, CuedReturned 0 (Some (PyError 1))]) everybody))) =
     [''cue.mailbox-retire-transition-invalid'']" unfolding l by (simp add: eval)
  show "cue_spans_open 0 (cp_emitted (told (\<lambda>_. ready_lineage) count_emissions
     (or_log (after any_event (take 4 two_cues @ [DispatchStart 0 None, CuedReturned 0 (Some (PyError 1))]) everybody)))) [] =
     Some [13]" unfolding l by (simp add: eval)
qed

end
