(* ===== verification/Spec2Isabelle.thy ===== *)
theory Spec2Isabelle
  imports Event_Rules Pipeline Snapshot Sink_Summary Orchestra_Liveness Orchestra_Scenes Orchestra_Telling
begin

section \<open>The diagnostics and the orchestration of Troupe\<close>

text \<open>
  Troupe runs Productions of Python actors and agents. Everything that happens in a Run is told as a
  stream of diagnostic events, which the program numbers, checks, stores, projects into read models and
  hands to observers. This development models that pipeline, from the wire values to the summary a
  closed sink leaves, and proves what the rest of the program relies on: no event that was accepted is
  lost or reordered, the stored Run is what was accepted, the read models are what the stored events say,
  and an observer is never told that it saw everything when it did not. It also models the orchestration
  that makes a Run happen: the cues, the mailboxes of the actors and the scenes, and proves that an actor serves its
  cues in order and one at a time, that every cue ends once and for good, and that no cue is left behind.

  \<^bold>\<open>Parts and how they interact.\<close> A producer gives the hub a candidate event. The hub
  (\<^verbatim>\<open>troupe-diagnostics-core/src/hub.rs\<close>) numbers it, asks the durable admission for room (the Run quota
  in front of the mandatory ingress, \<^verbatim>\<open>store/quota.rs\<close> and \<^verbatim>\<open>store/admission.rs\<close>), has the reference validator
  check it against the stream so far (\<^verbatim>\<open>validate.rs\<close>), and commits the reservation. The writer thread
  (\<^verbatim>\<open>run_writer\<close> in \<^verbatim>\<open>diagnostic_runtime/bootstrap.rs\<close>) takes events from the ingress, groups them in the
  accumulator (\<^verbatim>\<open>store/batch.rs\<close>), writes each batch with the read models in one transaction
  (\<^verbatim>\<open>store/writer.rs\<close>, \<^verbatim>\<open>store/projector\<close>), and strikes the batch off in the ingress; a supervisor watches its
  progress (\<^verbatim>\<open>store/progress.rs\<close>). Beside that, sinks deliver the events of an Act to Python callbacks through
  bounded queues that share a budget (\<^verbatim>\<open>diagnostic_sink\<close>).

  In front of the pipeline, a scene (\<^verbatim>\<open>src/orchestration/scene_context.rs\<close>) admits the calls of cued methods, gives each a
  number and a cue operation (\<^verbatim>\<open>src/orchestration/mailbox.rs\<close>) and puts it in the mailbox of its actor
  (\<^verbatim>\<open>src/orchestration/actor.rs\<close>), which asks the event loop to dispatch its head: the method is called, its coroutine becomes a
  task, and the result of the task, a cancellation or a failure of the dispatch ends the operation, hands the outcome to the waiting
  caller and lets the next cue in.

  \<^bold>\<open>Theories.\<close> Paths are under \<^verbatim>\<open>rust\<close>; \<^verbatim>\<open>core\<close> and \<^verbatim>\<open>runtime\<close> stand for
  \<^verbatim>\<open>crates/troupe-diagnostics-core/src\<close> and \<^verbatim>\<open>crates/troupe-diagnostics-runtime/src\<close>.

  \<^item> \<open>Prelude\<close>: machine integers, results, list facts.
  \<^item> \<open>Wire\<close> (\<^verbatim>\<open>core/wire.rs\<close>, \<^verbatim>\<open>scalar.rs\<close>, \<^verbatim>\<open>id.rs\<close>): canonical integers and the decimal normaliser, which keeps
    the value and is idempotent. \<open>Kinds\<close> (\<^verbatim>\<open>core/kinds.rs\<close>): the closed vocabularies. \<open>Events\<close>,
    \<open>Event_Rules\<close> (\<^verbatim>\<open>core/event.rs\<close>, \<^verbatim>\<open>detail.rs\<close>, \<^verbatim>\<open>time.rs\<close>): the fourteen event kinds, their checked constructors
    and the field check of the deserialiser.
  \<^item> \<open>Validator\<close>, \<open>Validator_Spec\<close> (\<^verbatim>\<open>core/validate.rs\<close>): the validator with its incremental state, and a
    specification over the whole history; the two accept the same streams, and an accepted stream nests its spans.
  \<^item> \<open>Accepted\<close>, \<open>Hub\<close> (\<^verbatim>\<open>core/hub.rs\<close>): admission over any reserver (locale \<open>admission_reserver\<close>), and the
    stream local to one subscriber. Admitted events are dense, valid and encoded; a refusal leaves no trace.
  \<^item> \<open>Store_Batch\<close> (\<^verbatim>\<open>runtime/store/key.rs\<close>, \<^verbatim>\<open>batch.rs\<close>, \<^verbatim>\<open>watermark.rs\<close>); \<open>Ingress\<close>, \<open>Ingress_Safety\<close>
    (\<^verbatim>\<open>store/admission.rs\<close>): bounds, the single fatal event, the single announcement of a failure; \<open>Quota\<close> (\<^verbatim>\<open>store/quota.rs\<close>,
    \<^verbatim>\<open>DurableAdmission\<close>); \<open>Progress\<close> (\<^verbatim>\<open>store/progress.rs\<close>): stalls are reported exactly and once.
  \<^item> \<open>Writer\<close> (\<^verbatim>\<open>store/writer.rs\<close>): a commit happens as a whole or not at all. \<open>Runtime\<close>, \<open>Pipeline\<close>
    (\<^verbatim>\<open>run_writer\<close>): the stages of the writer thread interleaved with admissions; the archive is a dense prefix of
    what was admitted, what is missing is queued or in flight, a drain commits all of it, and only a complete Run is finalised.
  \<^item> \<open>Projection\<close> (locale \<open>read_model\<close>), \<open>Spans\<close>, \<open>Messages\<close>, \<open>Plans\<close>, \<open>Counters\<close>, \<open>Usage\<close>, \<open>Snapshot\<close>
    (\<^verbatim>\<open>store/projector\<close>): each projector computes a function of the history; the snapshot projector of the writer holds what
    the stored events say.
  \<^item> \<open>Sink_Budget\<close>, \<open>Sink_Queue\<close>, \<open>Sinks\<close> (\<^verbatim>\<open>src/diagnostic_sink/budget.rs\<close>, \<^verbatim>\<open>queue.rs\<close>; locale \<open>shared_budget\<close>): the packed atomic
    budget is linearizable, the sinks never exceed it, every event is delivered, queued or counted as lost.
  \<^item> \<open>Sink_Dispatch\<close>, \<open>Sink_Lifecycle\<close>, \<open>Sink_Gate\<close>, \<open>Sink_Delivery\<close>, \<open>Sink_Summary\<close> (\<^verbatim>\<open>callback.rs\<close>,
    \<^verbatim>\<open>dispatcher.rs\<close>, \<^verbatim>\<open>seal.rs\<close>, \<^verbatim>\<open>summary.rs\<close>): one sink with any number of threads, access by access. A seal is
    final, no call trips over another, and a summary that calls itself complete is true.
  \<^item> \<open>Serial_Order\<close>, \<open>Actor_Mailbox\<close> (\<^verbatim>\<open>src/orchestration/actor.rs\<close>, \<^verbatim>\<open>mailbox.rs\<close>; locale \<open>serial_order\<close>): a mailbox is a queue
    that serves its head until it is removed. \<open>Cue_Operation\<close> (\<^verbatim>\<open>mailbox.rs\<close>): the phases of one cue, its cancellation
    and the choice of its outcome. \<open>Scene_Scope\<close> (\<^verbatim>\<open>scene_context.rs\<close>): scenes, their state and the numbering of their cues.
  \<^item> \<open>Orchestra\<close>: all of them in one state, with the step relation over the events of the loop and of Python.
    \<open>Orchestra_Invariant\<close>, \<open>Orchestra_Steps\<close>, \<open>Orchestra_Events\<close>, \<open>Orchestra_Admission\<close>, \<open>Orchestra_Safety\<close>: the
    invariant of the whole and that every step keeps it. \<open>Orchestra_Promise\<close>, \<open>Orchestra_Order\<close>: cues of an actor are started
    in the order of their enqueueing, an outcome is final, the result of the task decides it. \<open>Orchestra_Progress\<close>: the
    internal checks never panic when cancellations keep apart from a dispatch. \<open>Orchestra_Liveness\<close>: as long as a cue is open, the loop
    or Python has something to do that brings it forward. \<open>Orchestra_Scenes\<close>: the numbers a scene gives count its
    admissions, and closing a scene is final.
  \<^item> \<open>Cue_Producer\<close> (\<^verbatim>\<open>src/diagnostic_runtime/cue_producer.rs\<close>): the producer that turns the hooks of the orchestra into events.
    \<open>Cue_Protocol\<close>: the order of hooks it expects, as an automaton, and that hooks in this order latch no failure and
    leave exactly the right spans open. \<open>Orchestra_Telling\<close>: every run of the orchestra follows that protocol as long as dispatches succeed,
    and a run with a failed dispatch that does not.

  \<^bold>\<open>How code becomes definitions.\<close> A struct is a record with prefixed fields, an enum a datatype, a
  function one definition with the same branches in the same order. \<^verbatim>\<open>u64\<close> is \<open>64 word\<close>; \<^verbatim>\<open>usize\<close> is \<open>nat\<close>
  with its width written out in each operation; a \<^verbatim>\<open>Duration\<close> is a number of nanoseconds. \<^verbatim>\<open>Result\<close> is a sum with the
  error on the left. The semantics is that of a release build: \<^verbatim>\<open>debug_assert\<close> does nothing, plain arithmetic wraps. A panic is a result of
  its own or a state of its own and shown not to occur where the code counts on it. A mutex is a flag for its
  poisoning, an operation under one lock one step. Texts meant only for people are left out of errors.

  \<^bold>\<open>Parameters.\<close> Code that is not in the repository is an argument: the JSON encoder (\<open>encode\<close>, \<open>series_key\<close>),
  SQLite (\<open>exec\<close> with the documented effect of the statements, \<open>sql_documented\<close>, and the answers of a transaction),
  \<^verbatim>\<open>num_bigint\<close> (\<open>biguint_documented\<close>), the notifier and the subscriber of the hub, the clock, the file system
  during a walk (a tree), what a Python callback does. Each property with such a hypothesis has a witness on a concrete one.

  \<^bold>\<open>Concurrency.\<close> Where threads meet under a lock, the locked operations are the steps. The budget cell and the
  life of a sink have no lock: there every access is a step. These atomics are taken to be sequentially
  consistent; \<^verbatim>\<open>seal.rs\<close> asks for acquire and release only. The calls that may reach a sink are any list of fewer than
  \<open>2\<^sup>6\<^sup>4\<close> calls that have not started; the queue's view of the budget is free in every step.
  The orchestration runs with the interpreter lock held: a step is the code between two calls into Python, and what Python may
  do in between (cancel a cue, end a scene, drop an actor) is a step of its own. A panic ends a run; the conditions under which
  the code reaches one are named (\<open>cancels_apart\<close>: no cancellation of the very cue whose method is being called;
  \<open>loop_faithful\<close>: the event loop runs what was scheduled).
  Loops are total functions with a measure or are given one turn at a time; the compare-exchange loop of the
  budget is given the list of its answers, and an admission is shown to need at most two more than it has content events queued.

  \<^bold>\<open>Not modelled.\<close> The SQLite connection and schema, the HTTP server with its query, dump and
  server-sent event endpoints, the Run registry and the archive leases are input and output around the modelled store. Serde glue and
  \<^verbatim>\<open>Display\<close> are left out. The producers of the events that are not about cues, the agent runtime, the Perfetto export
  and the command line are components of their own that only call the modelled interfaces. Of the orchestration, the registry of the
  actors, the awaitable object of a cue call, effects and Productions, the lineage of Python tasks, the binding of a Run to its
  event loop with the task factory and the drivers of a scope are left out. Of the sinks, the registry of the bridge, the diagnostic thread and the timed loop of a shutdown are left out.
\<close>

end
